(* ===== verification/Prelude.thy ===== *)
theory Prelude
  imports Main "HOL-Library.Word"
begin

text \<open>
  Shared vocabulary of the development: the machine integer types of the Rust sources, byte
  strings, the little-endian conversions of the Rust standard library (\<open>to_le_bytes\<close> and
  \<open>from_le_bytes\<close>), the UTF-8 check of \<open>std::str::from_utf8\<close>, and the lemma
  collections that the component theories extend.
\<close>

unbundle bit_operations_syntax

section \<open>Lemma collections\<close>

named_theorems codec_rules \<open>a writer step and the reader step that undoes it\<close>
named_theorems reader_safe \<open>reader steps that keep the cursor inside the buffer\<close>
named_theorems reader_trunc \<open>reader steps that reject truncated input\<close>

section \<open>Machine integers and byte strings\<close>

text \<open>
  Signed integers and floating-point numbers are carried as their bit pattern: \<open>i32\<close> and
  \<open>f32\<close> are both 32-bit words, and \<open>sint\<close> reads the former where the code compares it.
  A \<open>usize\<close> is a \<open>nat\<close>: every such value in the modelled code is a length or an index
  of an allocated slice, which Rust bounds by \<open>isize::MAX\<close>.
  A Rust \<open>String\<close> is the list of its UTF-8 bytes.
\<close>

type_synonym u8 = "8 word"
type_synonym u16 = "16 word"
type_synonym u32 = "32 word"
type_synonym u64 = "64 word"
type_synonym bytes = "u8 list"

definition str_lit :: "string \<Rightarrow> bytes" where
  "str_lit s = map of_char s"

section \<open>Little-endian conversions\<close>

primrec to_le :: "nat \<Rightarrow> 'a::len word \<Rightarrow> bytes" where
  "to_le 0 w = []"
| "to_le (Suc n) w = ucast w # to_le n (drop_bit 8 w)"

primrec of_le :: "bytes \<Rightarrow> 'a::len word" where
  "of_le [] = 0"
| "of_le (b # bs) = ucast b OR push_bit 8 (of_le bs)"

lemma length_to_le [simp]: "length (to_le n w) = n"
  by (induction n arbitrary: w) simp_all

lemma to_le_2: "to_le 2 w = [ucast w, ucast (drop_bit 8 w)]"
  by (simp add: numeral_2_eq_2)

lemma of_le_to_le_take_bit: "of_le (to_le n w) = take_bit (8 * n) w"
proof (induction n arbitrary: w)
  case (Suc n)
  show ?case
    by (rule bit_word_eqI) (auto simp: Suc bit_simps)
qed simp

lemma of_le_to_le [simp]:
  assumes "LENGTH('a::len) \<le> 8 * n"
  shows "of_le (to_le n w) = (w :: 'a word)"
  using assms by (simp add: of_le_to_le_take_bit take_bit_word_eq_self)

lemma of_le_take_bit: "take_bit (8 * length bs) (of_le bs) = of_le bs"
proof (induction bs)
  case (Cons b bs)
  have "bit (of_le bs :: 'a word) k \<Longrightarrow> k < 8 * length bs" for k
    using Cons by (metis bit_take_bit_iff)
  then show ?case
    by (intro bit_word_eqI) (fastforce simp: bit_simps dest: bit_imp_le_length)
qed simp

lemma to_le_of_le:
  assumes "8 * length bs \<le> LENGTH('a::len)"
  shows "to_le (length bs) (of_le bs :: 'a word) = bs"
  using assms
proof (induction bs)
  case (Cons b bs)
  let ?X = "of_le bs :: 'a word"
  have small: "bit ?X k \<Longrightarrow> k < 8 * length bs" for k
    using of_le_take_bit[of bs, where 'a = 'a] by (metis bit_take_bit_iff)
  have "ucast (ucast b OR push_bit 8 ?X) = b"
    using Cons.prems by (intro bit_word_eqI) (auto simp: bit_simps)
  moreover have "drop_bit 8 (ucast b OR push_bit 8 ?X) = ?X"
    using Cons.prems small by (intro bit_word_eqI) (fastforce simp: bit_simps dest: bit_imp_le_length)
  ultimately show ?case using Cons by simp
qed simp

section \<open>UTF-8\<close>

text \<open>
  The check of \<open>std::str::from_utf8\<close>: shortest-form sequences of one to four bytes,
  no surrogates, nothing above U+10FFFF.
\<close>

definition utf8_cont :: "u8 \<Rightarrow> bool" where
  "utf8_cont b \<longleftrightarrow> 0x80 \<le> b \<and> b \<le> 0xBF"

definition utf8_second3 :: "u8 \<Rightarrow> u8 \<Rightarrow> bool" where
  "utf8_second3 a b \<longleftrightarrow>
     (if a = 0xE0 then 0xA0 \<le> b \<and> b \<le> 0xBF
      else if a = 0xED then 0x80 \<le> b \<and> b \<le> 0x9F
      else utf8_cont b)"

definition utf8_second4 :: "u8 \<Rightarrow> u8 \<Rightarrow> bool" where
  "utf8_second4 a b \<longleftrightarrow>
     (if a = 0xF0 then 0x90 \<le> b \<and> b \<le> 0xBF
      else if a = 0xF4 then 0x80 \<le> b \<and> b \<le> 0x8F
      else utf8_cont b)"

fun utf8_valid :: "bytes \<Rightarrow> bool" where
  "utf8_valid [] = True"
| "utf8_valid (a # r) =
     (if a < 0x80 then utf8_valid r
      else if 0xC2 \<le> a \<and> a \<le> 0xDF then
        (case r of b # r' \<Rightarrow> utf8_cont b \<and> utf8_valid r' | _ \<Rightarrow> False)
      else if 0xE0 \<le> a \<and> a \<le> 0xEF then
        (case r of b # c # r' \<Rightarrow> utf8_second3 a b \<and> utf8_cont c \<and> utf8_valid r' | _ \<Rightarrow> False)
      else if 0xF0 \<le> a \<and> a \<le> 0xF4 then
        (case r of b # c # d # r' \<Rightarrow>
           utf8_second4 a b \<and> utf8_cont c \<and> utf8_cont d \<and> utf8_valid r' | _ \<Rightarrow> False)
      else False)"

lemma utf8_valid_ascii: "(\<And>b. b \<in> set s \<Longrightarrow> b < 0x80) \<Longrightarrow> utf8_valid s"
  by (induction s) auto

lemma utf8_valid_ascii_append:
  "(\<And>b. b \<in> set s \<Longrightarrow> b < 0x80) \<Longrightarrow> utf8_valid (s @ t) = utf8_valid t"
  by (induction s) auto

section \<open>Slices\<close>

text \<open>\<open>slice::get\<close>, and the update through \<open>slice::get_mut\<close> that leaves a short slice alone.\<close>

definition list_get :: "'a list \<Rightarrow> nat \<Rightarrow> 'a option" where
  "list_get xs i = (if i < length xs then Some (xs ! i) else None)"

definition update_at :: "nat \<Rightarrow> ('a \<Rightarrow> 'a) \<Rightarrow> 'a list \<Rightarrow> 'a list" where
  "update_at i f xs = (if i < length xs then xs[i := f (xs ! i)] else xs)"

lemma length_update_at [simp]: "length (update_at i f xs) = length xs"
  by (simp add: update_at_def)

text \<open>\<open>slice.get(position..position + n)\<close>\<close>

definition get_range :: "'a list \<Rightarrow> nat \<Rightarrow> nat \<Rightarrow> 'a list option" where
  "get_range xs position n =
     (if position + n \<le> length xs then Some (take n (drop position xs)) else None)"

lemma get_range_append [simp]:
  assumes "length pre = p" "length xs = n"
  shows "get_range (pre @ xs @ post) p n = Some xs"
  using assms by (simp add: get_range_def)

section \<open>Bounded counts\<close>

lemma unat_of_nat_u16: "n < 65536 \<Longrightarrow> unat (of_nat n :: u16) = n"
  by (simp add: unat_of_nat take_bit_nat_eq_self)

lemma unat_of_nat_u8: "n < 256 \<Longrightarrow> unat (of_nat n :: u8) = n"
  by (simp add: unat_of_nat take_bit_nat_eq_self)

lemma unat_u16_less [simp]: "unat (w :: u16) < 65536"
  using unsigned_less[of w] by simp

lemma unat_u8_less [simp]: "unat (w :: u8) < 256"
  using unsigned_less[of w] by simp

lemma mod_inject_near:
  fixes a b k :: nat
  assumes "a mod k = b mod k" "a < b + k" "b < a + k"
  shows "a = b"
proof -
  have "y - x = 0" if "x \<le> y" "y < x + k" "y mod k = x mod k" for x y :: nat
  proof (rule ccontr)
    assume "y - x \<noteq> 0"
    moreover have "k dvd y - x" using that by (simp only: mod_eq_dvd_iff_nat)
    ultimately have "k \<le> y - x" by (intro dvd_imp_le) simp_all
    then show False using that by linarith
  qed
  from this[of a b] this[of b a] show ?thesis using assms by linarith
qed

end
