(* ===== verification/NetIo.thy ===== *)
theory NetIo
  imports Prelude
begin

text \<open>
  The wire primitives of \<open>basis-protocol/src/io.rs\<close>: the append-only \<open>NetWriter\<close> and the
  cursor-based \<open>NetReader\<close>. A fallible operation returns its \<open>Result\<close> together with the
  state it leaves behind, because the Rust methods take \<open>&mut self\<close> and a failed operation may
  already have moved the cursor. The second half holds the laws from which the message
  codecs are proved: what a writer appends, what a reader recovers, that a reader never leaves
  its buffer, and that a reader rejects truncated input.
\<close>

section \<open>State, errors and results\<close>

record net_writer =
  wdata :: bytes

record net_reader =
  rdata :: bytes
  rpos :: nat

datatype net_read_error = Underflow nat nat | Utf8

datatype net_write_error = LengthOverflow nat nat

type_synonym 'a reading = "net_reader \<Rightarrow> (net_read_error + 'a) \<times> net_reader"
type_synonym writing = "net_writer \<Rightarrow> (net_write_error + unit) \<times> net_writer"

text \<open>The \<open>?\<close> operator: stop at the first error, keep the state reached there.\<close>

definition retR :: "'a \<Rightarrow> 'a reading" where
  "retR a r = (Inr a, r)"

definition failR :: "net_read_error \<Rightarrow> 'a reading" where
  "failR e r = (Inl e, r)"

definition bindR :: "'a reading \<Rightarrow> ('a \<Rightarrow> 'b reading) \<Rightarrow> 'b reading" where
  "bindR m f r = (case m r of (Inl e, r') \<Rightarrow> (Inl e, r') | (Inr a, r') \<Rightarrow> f a r')"

definition okW :: "(net_writer \<Rightarrow> net_writer) \<Rightarrow> writing" where
  "okW f w = (Inr (), f w)"

definition failW :: "net_write_error \<Rightarrow> writing" where
  "failW e w = (Inl e, w)"

fun runW :: "writing list \<Rightarrow> writing" where
  "runW [] w = (Inr (), w)"
| "runW (s # ss) w = (case s w of (Inl e, w') \<Rightarrow> (Inl e, w') | (Inr _, w') \<Rightarrow> runW ss w')"

section \<open>NetWriter\<close>

definition writer_new :: net_writer where
  "writer_new = \<lparr>wdata = []\<rparr>"

definition writer_len :: "net_writer \<Rightarrow> nat" where
  "writer_len w = length (wdata w)"

definition writer_clear :: "net_writer \<Rightarrow> net_writer" where
  "writer_clear w = w\<lparr>wdata := []\<rparr>"

definition put_bytes :: "bytes \<Rightarrow> net_writer \<Rightarrow> net_writer" where
  "put_bytes bs w = w\<lparr>wdata := wdata w @ bs\<rparr>"

definition put_u8 :: "u8 \<Rightarrow> net_writer \<Rightarrow> net_writer" where
  "put_u8 v w = w\<lparr>wdata := wdata w @ [v]\<rparr>"

definition put_bool :: "bool \<Rightarrow> net_writer \<Rightarrow> net_writer" where
  "put_bool v w = put_u8 (if v then 1 else 0) w"

definition put_u16 :: "u16 \<Rightarrow> net_writer \<Rightarrow> net_writer" where
  "put_u16 v w = w\<lparr>wdata := wdata w @ to_le 2 v\<rparr>"

definition put_u32 :: "u32 \<Rightarrow> net_writer \<Rightarrow> net_writer" where
  "put_u32 v w = w\<lparr>wdata := wdata w @ to_le 4 v\<rparr>"

definition put_u64 :: "u64 \<Rightarrow> net_writer \<Rightarrow> net_writer" where
  "put_u64 v w = w\<lparr>wdata := wdata w @ to_le 8 v\<rparr>"

text \<open>
  The signed and floating-point writers emit the same bytes as the unsigned writer of their
  width, since \<open>to_le_bytes\<close> of a value is the little-endian order of its bit pattern.
\<close>

definition put_i8 :: "u8 \<Rightarrow> net_writer \<Rightarrow> net_writer" where
  "put_i8 v w = w\<lparr>wdata := wdata w @ [v]\<rparr>"

definition put_i16 :: "u16 \<Rightarrow> net_writer \<Rightarrow> net_writer" where
  "put_i16 v w = w\<lparr>wdata := wdata w @ to_le 2 v\<rparr>"

definition put_i32 :: "u32 \<Rightarrow> net_writer \<Rightarrow> net_writer" where
  "put_i32 v w = w\<lparr>wdata := wdata w @ to_le 4 v\<rparr>"

definition put_i64 :: "u64 \<Rightarrow> net_writer \<Rightarrow> net_writer" where
  "put_i64 v w = w\<lparr>wdata := wdata w @ to_le 8 v\<rparr>"

definition put_f32 :: "u32 \<Rightarrow> net_writer \<Rightarrow> net_writer" where
  "put_f32 v w = w\<lparr>wdata := wdata w @ to_le 4 v\<rparr>"

definition put_f64 :: "u64 \<Rightarrow> net_writer \<Rightarrow> net_writer" where
  "put_f64 v w = w\<lparr>wdata := wdata w @ to_le 8 v\<rparr>"

definition put_string :: "bytes \<Rightarrow> writing" where
  "put_string s =
     (if s = [] then okW (put_u16 0)
      else if length s + 1 \<le> 65535 then
        runW [okW (put_u16 (of_nat (length s + 1))), okW (put_bytes s)]
      else failW (LengthOverflow (length s) (65535 - 1)))"

definition put_bytes_with_length :: "bytes \<Rightarrow> writing" where
  "put_bytes_with_length bs =
     (if length bs \<le> 65535 then
        runW [okW (put_u16 (of_nat (length bs))), okW (put_bytes bs)]
      else failW (LengthOverflow (length bs) 65535))"

definition put_raw_len_string :: "bytes \<Rightarrow> writing" where
  "put_raw_len_string s = put_bytes_with_length s"

section \<open>NetReader\<close>

definition reader_new :: "bytes \<Rightarrow> net_reader" where
  "reader_new bs = \<lparr>rdata = bs, rpos = 0\<rparr>"

definition remaining :: "net_reader \<Rightarrow> nat" where
  "remaining r = length (rdata r) - rpos r"

text \<open>
  \<open>&self.data[self.pos..]\<close> panics for a cursor beyond the buffer; \<open>cursor_ok\<close> below is
  the invariant under which the slice is in range.
\<close>

definition remaining_slice :: "net_reader \<Rightarrow> bytes" where
  "remaining_slice r = drop (rpos r) (rdata r)"

definition rtake :: "nat \<Rightarrow> bytes reading" where
  "rtake len r =
     (if remaining r < len then (Inl (Underflow len (remaining r)), r)
      else (Inr (take len (drop (rpos r) (rdata r))), r\<lparr>rpos := rpos r + len\<rparr>))"

definition get_bytes :: "nat \<Rightarrow> bytes reading" where
  "get_bytes len = rtake len"

definition get_u8 :: "u8 reading" where
  "get_u8 = bindR (rtake 1) (\<lambda>b. retR (b ! 0))"

definition get_bool :: "bool reading" where
  "get_bool = bindR get_u8 (\<lambda>b. retR (b \<noteq> 0))"

definition get_u16 :: "u16 reading" where
  "get_u16 = bindR (rtake 2) (\<lambda>b. retR (of_le b))"

definition get_u32 :: "u32 reading" where
  "get_u32 = bindR (rtake 4) (\<lambda>b. retR (of_le b))"

definition get_u64 :: "u64 reading" where
  "get_u64 = bindR (rtake 8) (\<lambda>b. retR (of_le b))"

definition get_i8 :: "u8 reading" where
  "get_i8 = bindR get_u8 (\<lambda>b. retR b)"

definition get_i16 :: "u16 reading" where
  "get_i16 = bindR (rtake 2) (\<lambda>b. retR (of_le b))"

definition get_i32 :: "u32 reading" where
  "get_i32 = bindR (rtake 4) (\<lambda>b. retR (of_le b))"

definition get_i64 :: "u64 reading" where
  "get_i64 = bindR (rtake 8) (\<lambda>b. retR (of_le b))"

definition get_f32 :: "u32 reading" where
  "get_f32 = bindR (rtake 4) (\<lambda>b. retR (of_le b))"

definition get_f64 :: "u64 reading" where
  "get_f64 = bindR (rtake 8) (\<lambda>b. retR (of_le b))"

definition from_utf8 :: "bytes \<Rightarrow> bytes reading" where
  "from_utf8 bs = (if utf8_valid bs then retR bs else failR Utf8)"

definition get_string :: "bytes reading" where
  "get_string = bindR get_u16 (\<lambda>len_plus.
     if unat len_plus = 0 then retR []
     else bindR (rtake (unat len_plus - 1)) from_utf8)"

definition get_raw_len_string :: "bytes reading" where
  "get_raw_len_string = bindR get_u16 (\<lambda>len. bindR (rtake (unat len)) from_utf8)"

definition get_bytes_with_length :: "bytes reading" where
  "get_bytes_with_length = bindR get_u16 (\<lambda>len. rtake (unat len))"

section \<open>What a writer appends and what a reader recovers\<close>

definition writes :: "writing \<Rightarrow> bytes \<Rightarrow> bool" where
  "writes s bs \<longleftrightarrow> (\<forall>w. s w = (Inr (), w\<lparr>wdata := wdata w @ bs\<rparr>))"

definition reads :: "'a reading \<Rightarrow> bytes \<Rightarrow> 'a \<Rightarrow> bool" where
  "reads m bs x \<longleftrightarrow> (\<forall>pre rest.
     m \<lparr>rdata = pre @ bs @ rest, rpos = length pre\<rparr> =
       (Inr x, \<lparr>rdata = pre @ bs @ rest, rpos = length pre + length bs\<rparr>))"

text \<open>Decoders of the form \<open>remaining_slice().to_vec()\<close> take whatever is left in the buffer.\<close>

definition reads_rest :: "'a reading \<Rightarrow> bytes \<Rightarrow> 'a \<Rightarrow> bool" where
  "reads_rest m bs x \<longleftrightarrow>
     (\<forall>pre. fst (m \<lparr>rdata = pre @ bs, rpos = length pre\<rparr>) = Inr x)"

definition get_rest :: "bytes reading" where
  "get_rest r = (Inr (remaining_slice r), r)"

lemma writesI: "(\<And>w. s w = (Inr (), w\<lparr>wdata := wdata w @ bs\<rparr>)) \<Longrightarrow> writes s bs"
  by (simp add: writes_def)

lemma writes_run_Nil: "writes (runW []) []"
  by (simp add: writes_def)

lemma writes_run_Cons:
  "writes s b \<Longrightarrow> writes (runW ss) bs \<Longrightarrow> writes (runW (s # ss)) (b @ bs)"
  by (simp add: writes_def)

declare runW.simps [simp del]

lemma writes_puts:
  "writes (okW (put_u8 v8)) [v8]" "writes (okW (put_i8 v8)) [v8]"
  "writes (okW (put_bool b)) [if b then 1 else 0]"
  "writes (okW (put_u16 v16)) (to_le 2 v16)" "writes (okW (put_i16 v16)) (to_le 2 v16)"
  "writes (okW (put_u32 v32)) (to_le 4 v32)" "writes (okW (put_i32 v32)) (to_le 4 v32)"
  "writes (okW (put_f32 v32)) (to_le 4 v32)"
  "writes (okW (put_u64 v64)) (to_le 8 v64)" "writes (okW (put_i64 v64)) (to_le 8 v64)"
  "writes (okW (put_f64 v64)) (to_le 8 v64)"
  "writes (okW (put_bytes bs)) bs"
  by (simp_all add: writes_def okW_def put_u8_def put_i8_def put_bool_def put_u16_def put_i16_def
      put_u32_def put_i32_def put_f32_def put_u64_def put_i64_def put_f64_def put_bytes_def)

definition string_wire :: "bytes \<Rightarrow> bytes" where
  "string_wire s = (if s = [] then to_le 2 (0 :: u16) else to_le 2 (of_nat (length s + 1) :: u16) @ s)"

lemma writes_string: "length s < 65535 \<Longrightarrow> writes (put_string s) (string_wire s)"
  by (auto simp: put_string_def string_wire_def runW.simps okW_def put_u16_def put_bytes_def
      intro!: writesI)

lemma writes_bytes_with_length:
  "length bs < 65536 \<Longrightarrow>
   writes (put_bytes_with_length bs) (to_le 2 (of_nat (length bs) :: u16) @ bs)"
  by (auto simp: put_bytes_with_length_def runW.simps writes_def okW_def put_u16_def put_bytes_def)

lemma reads_bind:
  assumes "reads m bs x" and "reads (f x) cs y"
  shows "reads (bindR m f) (bs @ cs) y"
  unfolding reads_def
proof (intro allI)
  fix pre rest
  have "m \<lparr>rdata = pre @ bs @ cs @ rest, rpos = length pre\<rparr> =
      (Inr x, \<lparr>rdata = pre @ bs @ cs @ rest, rpos = length pre + length bs\<rparr>)"
    using assms(1) unfolding reads_def by blast
  moreover have "f x \<lparr>rdata = (pre @ bs) @ cs @ rest, rpos = length (pre @ bs)\<rparr> =
      (Inr y, \<lparr>rdata = (pre @ bs) @ cs @ rest, rpos = length (pre @ bs) + length cs\<rparr>)"
    using assms(2) unfolding reads_def by blast
  ultimately show "bindR m f \<lparr>rdata = pre @ (bs @ cs) @ rest, rpos = length pre\<rparr> =
      (Inr y, \<lparr>rdata = pre @ (bs @ cs) @ rest, rpos = length pre + length (bs @ cs)\<rparr>)"
    by (simp add: bindR_def add.assoc)
qed

lemma reads_ret: "reads (retR x) [] x"
  by (simp add: reads_def retR_def)

lemma reads_take: "n = length bs \<Longrightarrow> reads (rtake n) bs bs"
  by (simp add: reads_def rtake_def remaining_def)

lemma reads_get_bytes: "n = length bs \<Longrightarrow> reads (get_bytes n) bs bs"
  by (simp add: get_bytes_def reads_take)

lemma reads_map_take:
  assumes "n = length bs" and "f bs = x"
  shows "reads (bindR (rtake n) (\<lambda>b. retR (f b))) bs x"
proof -
  have "reads (bindR (rtake n) (\<lambda>b. retR (f b))) (bs @ []) x"
    by (rule reads_bind[OF reads_take]) (use assms in \<open>simp_all add: reads_ret\<close>)
  then show ?thesis by simp
qed

lemma reads_u8: "reads get_u8 [v] v"
  unfolding get_u8_def by (rule reads_map_take) simp_all

lemma reads_bool: "reads get_bool [if b then 1 else 0] b"
  using reads_u8[of "if b then 1 else 0"]
  by (simp add: reads_def get_bool_def bindR_def retR_def)

lemma reads_gets:
  "reads get_u8 [v8] v8" "reads get_i8 [v8] v8"
  "reads get_bool [if b then 1 else 0] b"
  "reads get_u16 (to_le 2 v16) v16" "reads get_i16 (to_le 2 v16) v16"
  "reads get_u32 (to_le 4 v32) v32" "reads get_i32 (to_le 4 v32) v32"
  "reads get_f32 (to_le 4 v32) v32"
  "reads get_u64 (to_le 8 v64) v64" "reads get_i64 (to_le 8 v64) v64"
  "reads get_f64 (to_le 8 v64) v64"
  unfolding get_i8_def get_u16_def get_i16_def get_u32_def get_i32_def get_f32_def
    get_u64_def get_i64_def get_f64_def
  using reads_bind[OF reads_u8 reads_ret] reads_u8 reads_bool
  by (auto intro!: reads_map_take simp del: to_le.simps)

lemma reads_string:
  assumes "length s < 65535" and "utf8_valid s"
  shows "reads get_string (string_wire s) s"
proof (cases "s = []")
  case True
  then show ?thesis
    using reads_bind[OF reads_gets(4)[of 0], where f = "\<lambda>l. if unat l = 0 then retR []
       else bindR (rtake (unat l - 1)) from_utf8" and cs = "[]" and y = "[]"]
    by (simp add: get_string_def string_wire_def reads_ret)
next
  case False
  have l: "unat (of_nat (length s + 1) :: u16) = length s + 1"
    using assms(1) by (intro unat_of_nat_u16) simp
  have "reads (bindR (rtake (length s)) from_utf8) (s @ []) s"
    by (rule reads_bind[OF reads_take]) (use assms in \<open>simp_all add: from_utf8_def reads_ret\<close>)
  then show ?thesis
    unfolding get_string_def string_wire_def using False l
    by (auto intro!: reads_bind[OF reads_gets(4)])
qed

lemma reads_bytes_with_length:
  assumes "length bs < 65536"
  shows "reads get_bytes_with_length (to_le 2 (of_nat (length bs) :: u16) @ bs) bs"
  unfolding get_bytes_with_length_def
  by (rule reads_bind[OF reads_gets(4)], rule reads_take) (use assms in \<open>simp add: unat_of_nat_u16\<close>)

lemma reads_rest_bind:
  assumes "reads m bs x" and "reads_rest (f x) cs y"
  shows "reads_rest (bindR m f) (bs @ cs) y"
  unfolding reads_rest_def
proof
  fix pre
  have "m \<lparr>rdata = pre @ bs @ cs, rpos = length pre\<rparr> =
      (Inr x, \<lparr>rdata = pre @ bs @ cs, rpos = length pre + length bs\<rparr>)"
    using assms(1) unfolding reads_def by blast
  moreover have "fst (f x \<lparr>rdata = (pre @ bs) @ cs, rpos = length (pre @ bs)\<rparr>) = Inr y"
    using assms(2) unfolding reads_rest_def by blast
  ultimately show "fst (bindR m f \<lparr>rdata = pre @ bs @ cs, rpos = length pre\<rparr>) = Inr y"
    by (simp add: bindR_def)
qed

lemma reads_rest_get_rest: "reads_rest get_rest bs bs"
  by (simp add: reads_rest_def get_rest_def remaining_slice_def)

section \<open>Guards and counted loops of the decoders\<close>

text \<open>
  \<open>ensureR\<close> is the early \<open>return Err(Underflow)\<close> of the decoders that compare a count with
  \<open>reader.remaining()\<close> before allocating; \<open>get_n\<close> is their \<open>for _ in 0..count\<close> loop.
\<close>

definition ensureR :: "(nat \<Rightarrow> bool) \<Rightarrow> nat \<Rightarrow> unit reading" where
  "ensureR bad n r =
     (if bad (remaining r) then (Inl (Underflow n (remaining r)), r) else (Inr (), r))"

primrec get_n :: "nat \<Rightarrow> 'a reading \<Rightarrow> 'a list reading" where
  "get_n 0 m = retR []"
| "get_n (Suc n) m = bindR m (\<lambda>x. bindR (get_n n m) (\<lambda>xs. retR (x # xs)))"

section \<open>The cursor stays inside the buffer\<close>

definition cursor_ok :: "net_reader \<Rightarrow> bool" where
  "cursor_ok r \<longleftrightarrow> rpos r \<le> length (rdata r)"

definition cursor_safe :: "'a reading \<Rightarrow> bool" where
  "cursor_safe m \<longleftrightarrow> (\<forall>r. cursor_ok r \<longrightarrow>
     (let r' = snd (m r) in rdata r' = rdata r \<and> rpos r \<le> rpos r' \<and> cursor_ok r'))"

definition underflows :: "(net_read_error + 'a) \<times> net_reader \<Rightarrow> bool" where
  "underflows res \<longleftrightarrow> (\<exists>n h. fst res = Inl (Underflow n h))"

definition rejects_truncated :: "'a reading \<Rightarrow> bool" where
  "rejects_truncated m \<longleftrightarrow> (\<forall>d p x q k.
     p \<le> length d \<longrightarrow> m \<lparr>rdata = d, rpos = p\<rparr> = (Inr x, \<lparr>rdata = d, rpos = q\<rparr>) \<longrightarrow>
     p \<le> k \<longrightarrow> k \<le> length d \<longrightarrow>
       underflows (m \<lparr>rdata = take k d, rpos = p\<rparr>) \<or>
       q \<le> k \<and> m \<lparr>rdata = take k d, rpos = p\<rparr> = (Inr x, \<lparr>rdata = take k d, rpos = q\<rparr>))"

lemma cursor_safeD:
  assumes "cursor_safe m" and "cursor_ok r" and "m r = (res, r')"
  shows "rdata r' = rdata r" and "rpos r \<le> rpos r'" and "cursor_ok r'"
  using assms by (auto simp: cursor_safe_def Let_def)

lemma cursor_safe_new:
  assumes "cursor_safe m"
  shows "let r' = snd (m (reader_new bs)) in rdata r' = bs \<and> rpos r' \<le> length bs"
  using cursor_safeD[OF assms, of "reader_new bs" "fst (m (reader_new bs))" "snd (m (reader_new bs))"]
  by (simp add: cursor_ok_def reader_new_def Let_def)

lemma cursor_safe_ret [reader_safe]: "cursor_safe (retR x)"
  by (simp add: cursor_safe_def retR_def)

lemma cursor_safe_fail [reader_safe]: "cursor_safe (failR e)"
  by (simp add: cursor_safe_def failR_def)

lemma cursor_safe_take [reader_safe]: "cursor_safe (rtake n)"
  by (auto simp: cursor_safe_def rtake_def cursor_ok_def remaining_def)

lemma cursor_safe_bind [reader_safe]:
  assumes "cursor_safe m" and "\<And>x. cursor_safe (f x)"
  shows "cursor_safe (bindR m f)"
  unfolding cursor_safe_def Let_def
proof (intro allI impI)
  fix r assume r: "cursor_ok r"
  obtain res r1 where m: "m r = (res, r1)" by (cases "m r")
  note s1 = cursor_safeD[OF assms(1) r m]
  show "rdata (snd (bindR m f r)) = rdata r \<and> rpos r \<le> rpos (snd (bindR m f r)) \<and>
      cursor_ok (snd (bindR m f r))"
  proof (cases res)
    case (Inl e)
    with m s1 show ?thesis by (simp add: bindR_def)
  next
    case (Inr x)
    obtain res2 r2 where f: "f x r1 = (res2, r2)" by (cases "f x r1")
    from cursor_safeD[OF assms(2) s1(3) f] s1 m Inr f show ?thesis by (simp add: bindR_def)
  qed
qed

lemma cursor_safe_if [reader_safe]:
  "cursor_safe a \<Longrightarrow> cursor_safe b \<Longrightarrow> cursor_safe (if c then a else b)"
  by simp

lemma cursor_safe_ensure [reader_safe]: "cursor_safe (ensureR bad n)"
  by (auto simp: cursor_safe_def ensureR_def)

lemma cursor_safe_get_n [reader_safe]: "cursor_safe m \<Longrightarrow> cursor_safe (get_n n m)"
  by (induction n) (auto intro!: reader_safe)

lemma cursor_safe_get_rest [reader_safe]: "cursor_safe get_rest"
  by (simp add: cursor_safe_def get_rest_def)

lemma cursor_safe_gets [reader_safe]:
  "cursor_safe get_u8" "cursor_safe get_i8" "cursor_safe get_bool" "cursor_safe get_u16"
  "cursor_safe get_i16" "cursor_safe get_u32" "cursor_safe get_i32" "cursor_safe get_f32"
  "cursor_safe get_u64" "cursor_safe get_i64" "cursor_safe get_f64" "cursor_safe (get_bytes n)"
  "cursor_safe (from_utf8 bs)" "cursor_safe get_string" "cursor_safe get_raw_len_string"
  "cursor_safe get_bytes_with_length"
  by (auto simp: get_u8_def get_i8_def get_bool_def get_u16_def get_i16_def get_u32_def
      get_i32_def get_f32_def get_u64_def get_i64_def get_f64_def get_bytes_def from_utf8_def
      get_string_def get_raw_len_string_def get_bytes_with_length_def intro!: reader_safe)

section \<open>Truncated input is rejected\<close>

lemma rejects_ret [reader_trunc]: "rejects_truncated (retR x)"
  by (auto simp: rejects_truncated_def retR_def)

lemma rejects_fail [reader_trunc]: "rejects_truncated (failR e)"
  by (auto simp: rejects_truncated_def failR_def)

lemma rejects_take [reader_trunc]: "rejects_truncated (rtake n)"
  by (auto simp: rejects_truncated_def rtake_def remaining_def underflows_def drop_take
      min_absorb1 split: if_splits)

lemma rejects_if [reader_trunc]:
  "rejects_truncated a \<Longrightarrow> rejects_truncated b \<Longrightarrow> rejects_truncated (if c then a else b)"
  by simp

lemma rejects_ensure [reader_trunc]: "rejects_truncated (ensureR bad n)"
  by (auto simp: rejects_truncated_def ensureR_def underflows_def split: if_splits)

lemma rejects_bind [reader_trunc]:
  assumes "rejects_truncated m" and "cursor_safe m"
    and "\<And>x. rejects_truncated (f x)" and "\<And>x. cursor_safe (f x)"
  shows "rejects_truncated (bindR m f)"
  unfolding rejects_truncated_def
proof (intro allI impI)
  fix d p y q k
  assume p: "p \<le> length d" and run: "bindR m f \<lparr>rdata = d, rpos = p\<rparr> = (Inr y, \<lparr>rdata = d, rpos = q\<rparr>)"
    and k: "p \<le> k" "k \<le> length d"
  obtain x r1 where m: "m \<lparr>rdata = d, rpos = p\<rparr> = (Inr x, r1)" and f: "f x r1 = (Inr y, \<lparr>rdata = d, rpos = q\<rparr>)"
    using run by (auto simp: bindR_def split: prod.splits sum.splits)
  have "cursor_ok \<lparr>rdata = d, rpos = p\<rparr>" using p by (simp add: cursor_ok_def)
  from cursor_safeD[OF assms(2) this m]
  obtain q1 where r1: "r1 = \<lparr>rdata = d, rpos = q1\<rparr>" and q1: "q1 \<le> length d"
    by (cases r1) (simp add: cursor_ok_def)
  let ?t = "\<lparr>rdata = take k d, rpos = p\<rparr>"
  from assms(1) p m k r1
  have "underflows (m ?t) \<or> q1 \<le> k \<and> m ?t = (Inr x, \<lparr>rdata = take k d, rpos = q1\<rparr>)"
    unfolding rejects_truncated_def by blast
  then show "underflows (bindR m f ?t) \<or> q \<le> k \<and> bindR m f ?t = (Inr y, \<lparr>rdata = take k d, rpos = q\<rparr>)"
  proof
    assume "underflows (m ?t)"
    then show ?thesis by (auto simp: underflows_def bindR_def split: prod.splits)
  next
    assume ok: "q1 \<le> k \<and> m ?t = (Inr x, \<lparr>rdata = take k d, rpos = q1\<rparr>)"
    with assms(3) q1 f k r1 have "underflows (f x \<lparr>rdata = take k d, rpos = q1\<rparr>) \<or>
        q \<le> k \<and> f x \<lparr>rdata = take k d, rpos = q1\<rparr> = (Inr y, \<lparr>rdata = take k d, rpos = q\<rparr>)"
      unfolding rejects_truncated_def by blast
    with ok show ?thesis by (auto simp: bindR_def underflows_def)
  qed
qed

lemma rejects_get_n [reader_trunc]:
  "rejects_truncated m \<Longrightarrow> cursor_safe m \<Longrightarrow> rejects_truncated (get_n n m)"
  by (induction n) (auto intro!: reader_trunc reader_safe)

lemma rejects_gets [reader_trunc]:
  "rejects_truncated get_u8" "rejects_truncated get_i8" "rejects_truncated get_bool"
  "rejects_truncated get_u16" "rejects_truncated get_i16" "rejects_truncated get_u32"
  "rejects_truncated get_i32" "rejects_truncated get_f32" "rejects_truncated get_u64"
  "rejects_truncated get_i64" "rejects_truncated get_f64" "rejects_truncated (get_bytes n)"
  "rejects_truncated (from_utf8 bs)" "rejects_truncated get_string"
  "rejects_truncated get_raw_len_string" "rejects_truncated get_bytes_with_length"
  by (auto simp: get_u8_def get_i8_def get_bool_def get_u16_def get_i16_def get_u32_def
      get_i32_def get_f32_def get_u64_def get_i64_def get_f64_def get_bytes_def from_utf8_def
      get_string_def get_raw_len_string_def get_bytes_with_length_def
      intro!: reader_trunc reader_safe)

end
