(* ===== verification/Codec.thy ===== *)
theory Codec
  imports NetIo
begin

text \<open>
  The contract behind the traits \<open>BasisSerialize\<close> and \<open>BasisDeserialize\<close> of
  \<open>basis-protocol/src/messages.rs\<close>. A message type that implements both provides a writer
  \<open>ser\<close>, a reader \<open>des\<close>, and the condition \<open>wf\<close> under which its fields fit the wire.
  \<open>wire_codec\<close> is the contract of self-delimiting messages, \<open>rest_codec\<close> the weaker one of
  messages that end with \<open>remaining_slice()\<close>, and \<open>item_codec\<close>
  that of the items of counted fields. The message theories interpret the locales
  on their own operations.
\<close>

lemma reads_ensure_bind:
  assumes "\<And>n. \<not> bad (length cs + n)" and "reads (f ()) cs y"
  shows "reads (bindR (ensureR bad need) f) cs y"
  using assms by (simp add: reads_def bindR_def ensureR_def remaining_def)

lemma reads_rest_ensure_bind:
  assumes "\<not> bad (length cs)" and "reads_rest (f ()) cs y"
  shows "reads_rest (bindR (ensureR bad need) f) cs y"
  using assms by (simp add: reads_rest_def bindR_def ensureR_def remaining_def)

lemma reads_new: "reads m bs x \<Longrightarrow> m (reader_new (bs @ rest)) = (Inr x, \<lparr>rdata = bs @ rest, rpos = length bs\<rparr>)"
  by (drule reads_def[THEN iffD1, THEN spec, of m bs x "[]"]) (simp add: reader_new_def)

lemma writes_new: "writes s bs \<Longrightarrow> s writer_new = (Inr (), \<lparr>wdata = bs\<rparr>)"
  by (simp add: writes_def writer_new_def)

lemma writes_unique: "writes s bs \<Longrightarrow> writes s cs \<Longrightarrow> bs = cs"
  by (drule writes_new)+ simp

section \<open>A writer and the reader that undoes it\<close>

definition codes :: "writing \<Rightarrow> 'a reading \<Rightarrow> 'a \<Rightarrow> bool" where
  "codes s m x \<longleftrightarrow> (\<exists>bs. writes s bs \<and> reads m bs x)"

definition codes_rest :: "writing \<Rightarrow> 'a reading \<Rightarrow> 'a \<Rightarrow> bool" where
  "codes_rest s m x \<longleftrightarrow> (\<exists>bs. writes s bs \<and> reads_rest m bs x)"

text \<open>The strings that \<open>put_string\<close> accepts and \<open>get_string\<close> gives back.\<close>

definition fits :: "bytes \<Rightarrow> bool" where
  "fits s \<longleftrightarrow> length s < 65535 \<and> utf8_valid s"

lemma codesI: "writes s bs \<Longrightarrow> reads m bs x \<Longrightarrow> codes s m x"
  by (auto simp: codes_def)

lemma codesE:
  assumes "codes s m x"
  obtains bs where "writes s bs" and "reads m bs x"
  using assms by (auto simp: codes_def)

lemma codes_restI: "writes s bs \<Longrightarrow> reads_rest m bs x \<Longrightarrow> codes_rest s m x"
  by (auto simp: codes_rest_def)

lemma codes_restE:
  assumes "codes_rest s m x"
  obtains bs where "writes s bs" and "reads_rest m bs x"
  using assms by (auto simp: codes_rest_def)

lemma codes_done [codec_rules]: "y = x \<Longrightarrow> codes (runW []) (retR x) y"
  using codesI[OF writes_run_Nil reads_ret] by simp

lemma codes_step [codec_rules]:
  "codes s m x \<Longrightarrow> codes (runW ss) (f x) y \<Longrightarrow> codes (runW (s # ss)) (bindR m f) y"
  by (elim codesE) (rule codesI[OF writes_run_Cons reads_bind])

lemma codes_prims [codec_rules]:
  "codes (okW (put_u8 v8)) get_u8 v8" "codes (okW (put_i8 v8)) get_i8 v8"
  "codes (okW (put_bool b)) get_bool b"
  "codes (okW (put_u16 v16)) get_u16 v16" "codes (okW (put_i16 v16)) get_i16 v16"
  "codes (okW (put_u32 v32)) get_u32 v32" "codes (okW (put_i32 v32)) get_i32 v32"
  "codes (okW (put_f32 v32)) get_f32 v32"
  "codes (okW (put_u64 v64)) get_u64 v64" "codes (okW (put_i64 v64)) get_i64 v64"
  "codes (okW (put_f64 v64)) get_f64 v64"
  by (rule codesI[OF writes_puts(1) reads_gets(1)] codesI[OF writes_puts(2) reads_gets(2)]
      codesI[OF writes_puts(3) reads_gets(3)] codesI[OF writes_puts(4) reads_gets(4)]
      codesI[OF writes_puts(5) reads_gets(5)] codesI[OF writes_puts(6) reads_gets(6)]
      codesI[OF writes_puts(7) reads_gets(7)] codesI[OF writes_puts(8) reads_gets(8)]
      codesI[OF writes_puts(9) reads_gets(9)] codesI[OF writes_puts(10) reads_gets(10)]
      codesI[OF writes_puts(11) reads_gets(11)])+

lemma codes_string [codec_rules]: "fits s \<Longrightarrow> codes (put_string s) get_string s"
  unfolding fits_def by (elim conjE) (rule codesI[OF writes_string reads_string])

lemma codes_bytes [codec_rules]: "n = length bs \<Longrightarrow> codes (okW (put_bytes bs)) (get_bytes n) bs"
  by (rule codesI[OF writes_puts(12) reads_get_bytes])

lemma codes_bytes_with_length [codec_rules]:
  "length bs < 65536 \<Longrightarrow> codes (put_bytes_with_length bs) get_bytes_with_length bs"
  by (rule codesI[OF writes_bytes_with_length reads_bytes_with_length])

text \<open>Most decoders read the length and the payload in two statements.\<close>

lemma length_then_bytes [simp]:
  "bindR get_u16 (\<lambda>len. bindR (get_bytes (unat len)) f) = bindR get_bytes_with_length f"
  by (rule ext) (auto simp: bindR_def get_bytes_with_length_def get_bytes_def split: prod.splits sum.splits)

lemma codes_rest_step [codec_rules]:
  "codes s m x \<Longrightarrow> codes_rest (runW ss) (f x) y \<Longrightarrow> codes_rest (runW (s # ss)) (bindR m f) y"
  by (elim codesE codes_restE) (rule codes_restI[OF writes_run_Cons reads_rest_bind])

lemma codes_rest_payload [codec_rules]:
  "y = f bs \<Longrightarrow> codes_rest (runW [okW (put_bytes bs)]) (bindR get_rest (\<lambda>p. retR (f p))) y"
proof -
  assume y: "y = f bs"
  have "reads_rest (bindR get_rest (\<lambda>p. retR (f p))) bs (f bs)"
    by (simp add: reads_rest_def bindR_def retR_def get_rest_def remaining_slice_def)
  then show ?thesis
    unfolding codes_rest_def y using writes_run_Cons[OF writes_puts(12) writes_run_Nil, of bs] by auto
qed

section \<open>Counted fields\<close>

text \<open>
  The items of a counted field are written one after the other and read back by the loop. The
  allocation guard in front of the loop compares the announced count with the bytes left;
  \<open>consumes\<close> bounds what the rest of the decoder will need, so that a genuine message
  always passes the guard.
\<close>

definition consumes :: "nat \<Rightarrow> 'a reading \<Rightarrow> bool" where
  "consumes n m \<longleftrightarrow> (\<forall>r x r'. m r = (Inr x, r') \<longrightarrow> rpos r + n \<le> rpos r')"

lemma consumes_reads: "consumes n m \<Longrightarrow> reads m bs x \<Longrightarrow> n \<le> length bs"
  unfolding consumes_def reads_def
  by (metis add_le_cancel_left net_reader.select_convs(2))

lemma consumes_ret: "consumes 0 (retR x)"
  by (simp add: consumes_def retR_def)

lemma consumes_take: "consumes n (rtake n)"
  by (auto simp: consumes_def rtake_def split: if_splits)

lemma consumes_bind:
  assumes "consumes k m" and "\<And>x. consumes n (f x)"
  shows "consumes (k + n) (bindR m f)"
  unfolding consumes_def
proof (intro allI impI)
  fix r y r' assume "bindR m f r = (Inr y, r')"
  then obtain x r1 where "m r = (Inr x, r1)" and "f x r1 = (Inr y, r')"
    by (auto simp: bindR_def split: prod.splits sum.splits)
  then have "rpos r + k \<le> rpos r1" and "rpos r1 + n \<le> rpos r'"
    using assms unfolding consumes_def by blast+
  then show "rpos r + (k + n) \<le> rpos r'" by simp
qed

lemma consumes_map_take: "consumes n (bindR (rtake n) (\<lambda>b. retR (f b)))"
  using consumes_bind[OF consumes_take consumes_ret, of n f] by simp

lemma consumes_u8: "consumes 1 get_u8"
  unfolding get_u8_def by (rule consumes_map_take)

lemma consumes_u16: "consumes 2 get_u16"
  unfolding get_u16_def by (rule consumes_map_take)

lemma consumes_weaken: "consumes n m \<Longrightarrow> consumes 0 m"
  unfolding consumes_def by fastforce

lemma consumes_string: "consumes 2 get_string"
proof -
  have "consumes 0 (if unat len = 0 then retR [] else bindR (rtake (unat len - 1)) from_utf8)" for len :: u16
    by (auto simp: consumes_def retR_def bindR_def rtake_def from_utf8_def failR_def
        split: prod.splits sum.splits if_splits)
  from consumes_bind[OF consumes_u16 this] show ?thesis by (simp add: get_string_def)
qed

lemmas consumes_rules = consumes_bind consumes_u8 consumes_u16 consumes_string consumes_ret


lemma consumes_get_n: "consumes k m \<Longrightarrow> consumes (k * n) (get_n n m)"
proof (induction n)
  case (Suc n)
  then have "consumes (k + (k * n + 0)) (get_n (Suc n) m)"
    unfolding get_n.simps by (intro consumes_bind consumes_ret)
  then show ?case by (simp add: algebra_simps)
qed (simp add: consumes_ret)

lemma runW_append:
  "runW (ss @ ts) w =
     (case runW ss w of (Inl e, w') \<Rightarrow> (Inl e, w') | (Inr _, w') \<Rightarrow> runW ts w')"
  by (induction ss arbitrary: w) (auto simp: runW.simps split: prod.splits sum.splits)

lemma codes_items_step:
  assumes "\<And>x. x \<in> set xs \<Longrightarrow> codes (ser x) des x" and "codes (runW ss) (f xs) y"
  shows "codes (runW (map ser xs @ ss)) (bindR (get_n (length xs) des) f) y"
  using assms
proof (induction xs arbitrary: f)
  case Nil
  have "bindR (retR []) f = f []" by (rule ext) (simp add: bindR_def retR_def)
  with Nil show ?case by simp
next
  case (Cons x xs)
  have "bindR (get_n (length (x # xs)) des) f =
      bindR des (\<lambda>x. bindR (get_n (length xs) des) (\<lambda>xs. f (x # xs)))"
    by (rule ext) (simp add: bindR_def retR_def split: prod.splits sum.splits)
  moreover have "codes (runW (map ser xs @ ss)) (bindR (get_n (length xs) des) (\<lambda>xs. f (x # xs))) y"
    using Cons by simp
  ultimately show ?case using Cons.prems(1)[of x] by (simp add: codes_step)
qed

lemma codes_rest_items_step:
  assumes "\<And>x. x \<in> set xs \<Longrightarrow> codes (ser x) des x" and "codes_rest (runW ss) (f xs) y"
  shows "codes_rest (runW (map ser xs @ ss)) (bindR (get_n (length xs) des) f) y"
  using assms
proof (induction xs arbitrary: f)
  case Nil
  have "bindR (retR []) f = f []" by (rule ext) (simp add: bindR_def retR_def)
  with Nil show ?case by simp
next
  case (Cons x xs)
  have "bindR (get_n (length (x # xs)) des) f =
      bindR des (\<lambda>x. bindR (get_n (length xs) des) (\<lambda>xs. f (x # xs)))"
    by (rule ext) (simp add: bindR_def retR_def split: prod.splits sum.splits)
  moreover have "codes_rest (runW (map ser xs @ ss))
      (bindR (get_n (length xs) des) (\<lambda>xs. f (x # xs))) y"
    using Cons by simp
  ultimately show ?case using Cons.prems(1)[of x] by (simp add: codes_rest_step)
qed

lemma codes_ensure:
  assumes "codes s (f ()) y" and "consumes k (f ())" and "\<And>a. k \<le> a \<Longrightarrow> \<not> bad a"
  shows "codes s (bindR (ensureR bad need) f) y"
proof -
  from assms(1) obtain bs where bs: "writes s bs" "reads (f ()) bs y" by (rule codesE)
  have "k \<le> length bs" by (rule consumes_reads[OF assms(2) bs(2)])
  then have "reads (bindR (ensureR bad need) f) bs y"
    by (intro reads_ensure_bind bs(2)) (simp add: assms(3))
  with bs(1) show ?thesis by (rule codesI)
qed

lemma codes_rest_ensure:
  assumes "codes_rest s (f ()) y" and "consumes k (f ())" and "cursor_safe (f ())"
    and "\<And>a. k \<le> a \<Longrightarrow> \<not> bad a"
  shows "codes_rest s (bindR (ensureR bad need) f) y"
proof -
  from assms(1) obtain bs where bs: "writes s bs" "reads_rest (f ()) bs y" by (rule codes_restE)
  obtain r' where run: "f () \<lparr>rdata = bs, rpos = 0\<rparr> = (Inr y, r')"
    using bs(2) unfolding reads_rest_def
    by (metis append_Nil list.size(3) prod.collapse)
  then have "k \<le> rpos r'" using assms(2) unfolding consumes_def by fastforce
  moreover have "rpos r' \<le> length bs"
    using cursor_safeD[OF assms(3) _ run] by (auto simp: cursor_ok_def)
  ultimately have "reads_rest (bindR (ensureR bad need) f) bs y"
    by (intro reads_rest_ensure_bind bs(2) assms(4)) simp
  with bs(1) show ?thesis by (rule codes_restI)
qed

locale wire_codec =
  fixes ser :: "'a \<Rightarrow> writing" and des :: "'a reading" and wf :: "'a \<Rightarrow> bool"
  assumes codec: "wf m \<Longrightarrow> codes (ser m) des m"
    and des_safe: "cursor_safe des"
    and des_trunc: "rejects_truncated des"
begin

text \<open>What was serialized is what is deserialized, and the cursor stops right behind it.\<close>

lemma roundtrip:
  assumes "wf m"
  shows "\<exists>bs. ser m writer_new = (Inr (), \<lparr>wdata = bs\<rparr>) \<and>
    (\<forall>rest. des (reader_new (bs @ rest)) = (Inr m, \<lparr>rdata = bs @ rest, rpos = length bs\<rparr>))"
proof -
  obtain bs where "writes (ser m) bs" and "reads des bs m"
    using codec[OF assms] unfolding codes_def by blast
  then show ?thesis by (intro exI[of _ bs] conjI allI writes_new reads_new)
qed

lemma roundtrip_at:
  assumes "wf m" and "ser m writer_new = (Inr (), \<lparr>wdata = bs\<rparr>)"
  shows "des (reader_new (bs @ rest)) = (Inr m, \<lparr>rdata = bs @ rest, rpos = length bs\<rparr>)"
  using roundtrip[OF assms(1)] assms(2) by auto

text \<open>Two well-formed messages with a common prefix on the wire are the same message.\<close>

lemma prefix_free:
  assumes "wf m" and "wf m'" and "ser m writer_new = (Inr (), \<lparr>wdata = bs\<rparr>)"
    and "ser m' writer_new = (Inr (), \<lparr>wdata = bs @ cs\<rparr>)"
  shows "m = m' \<and> cs = []"
proof -
  have "des (reader_new (bs @ cs)) = (Inr m, \<lparr>rdata = bs @ cs, rpos = length bs\<rparr>)"
    by (rule roundtrip_at[OF assms(1,3)])
  moreover have "des (reader_new ((bs @ cs) @ [])) =
      (Inr m', \<lparr>rdata = (bs @ cs) @ [], rpos = length (bs @ cs)\<rparr>)"
    by (rule roundtrip_at[OF assms(2,4)])
  ultimately show ?thesis by simp
qed

text \<open>A proper prefix of an encoding is reported as an underflow, never as another message.\<close>

lemma truncated:
  assumes "wf m" and "ser m writer_new = (Inr (), \<lparr>wdata = bs\<rparr>)" and "k < length bs"
  shows "underflows (des (reader_new (take k bs)))"
proof -
  have "des \<lparr>rdata = bs, rpos = 0\<rparr> = (Inr m, \<lparr>rdata = bs, rpos = length bs\<rparr>)"
    using roundtrip_at[OF assms(1,2), of "[]"] by (simp add: reader_new_def)
  with des_trunc[unfolded rejects_truncated_def, rule_format, of 0 bs m "length bs" k] assms(3)
  show ?thesis by (auto simp: reader_new_def)
qed

end

text \<open>
  Item types of counted fields promise a least encoding length, so that the guard
  \<open>count > reader.remaining() / min_len\<close> never rejects a genuine batch.
\<close>

locale item_codec = wire_codec ser des wf
  for ser :: "'a \<Rightarrow> writing" and des :: "'a reading" and wf :: "'a \<Rightarrow> bool" +
  fixes min_len :: nat
  assumes min_pos: "0 < min_len" and min_len: "consumes min_len des"
begin

lemma loop_consumes: "consumes (min_len * n) (bindR (get_n n des) (\<lambda>xs. retR (g xs)))"
  using consumes_bind[OF consumes_get_n[OF min_len, of n] consumes_ret, of g] by simp

lemma guarded_batch:
  assumes "\<And>m. m \<in> set ms \<Longrightarrow> wf m" and "\<And>a. min_len * length ms \<le> a \<Longrightarrow> \<not> bad a"
    and "y = g ms"
  shows "codes (runW (map ser ms)) (bindR (ensureR bad need)
    (\<lambda>_. bindR (get_n (length ms) des) (\<lambda>xs. retR (g xs)))) y"
proof (rule codes_ensure[OF _ loop_consumes])
  have "codes (runW (map ser ms @ [])) (bindR (get_n (length ms) des) (\<lambda>xs. retR (g xs))) y"
    by (rule codes_items_step) (use assms codec codes_done in auto)
  then show "codes (runW (map ser ms)) (bindR (get_n (length ms) des) (\<lambda>xs. retR (g xs))) y"
    by simp
qed (use assms(2) in simp)

lemma guarded_batch_then_rest:
  assumes "\<And>m. m \<in> set ms \<Longrightarrow> wf m" and "\<And>a. min_len * length ms \<le> a \<Longrightarrow> \<not> bad a"
    and "y = g ms pay"
  shows "codes_rest (runW (map ser ms @ [okW (put_bytes pay)])) (bindR (ensureR bad need)
    (\<lambda>_. bindR (get_n (length ms) des) (\<lambda>xs. bindR get_rest (\<lambda>p. retR (g xs p))))) y"
proof (rule codes_rest_ensure)
  show "codes_rest (runW (map ser ms @ [okW (put_bytes pay)]))
      (bindR (get_n (length ms) des) (\<lambda>xs. bindR get_rest (\<lambda>p. retR (g xs p)))) y"
    by (rule codes_rest_items_step) (use assms codec in \<open>auto intro!: codes_rest_payload\<close>)
  have "consumes (min_len * length ms + 0)
      (bindR (get_n (length ms) des) (\<lambda>xs. bindR get_rest (\<lambda>p. retR (g xs p))))"
    by (rule consumes_bind[OF consumes_get_n[OF min_len]])
      (auto simp: consumes_def bindR_def get_rest_def retR_def)
  then show "consumes (min_len * length ms)
      (bindR (get_n (length ms) des) (\<lambda>xs. bindR get_rest (\<lambda>p. retR (g xs p))))" by simp
  show "cursor_safe (bindR (get_n (length ms) des) (\<lambda>xs. bindR get_rest (\<lambda>p. retR (g xs p))))"
    by (intro reader_safe des_safe)
qed (use assms(2) in simp)

end

locale rest_codec =
  fixes ser :: "'a \<Rightarrow> writing" and des :: "'a reading" and wf :: "'a \<Rightarrow> bool"
  assumes rest_law: "wf m \<Longrightarrow> codes_rest (ser m) des m"
    and rest_safe: "cursor_safe des"
begin

lemma rest_roundtrip:
  assumes "wf m"
  shows "\<exists>bs. ser m writer_new = (Inr (), \<lparr>wdata = bs\<rparr>) \<and> fst (des (reader_new bs)) = Inr m"
proof -
  obtain bs where "writes (ser m) bs" and "reads_rest des bs m"
    using rest_law[OF assms] unfolding codes_rest_def by blast
  then show ?thesis
    using reads_rest_def[THEN iffD1, THEN spec, of des bs m "[]"]
    by (auto simp: writes_new reader_new_def)
qed

end

text \<open>A self-delimiting message is in particular decoded correctly when it fills the buffer.\<close>

sublocale wire_codec \<subseteq> whole: rest_codec ser des wf
proof
  show "codes_rest (ser m) des m" if "wf m" for m
  proof -
    obtain bs where "writes (ser m) bs" and r: "reads des bs m"
      using codec[OF \<open>wf m\<close>] unfolding codes_def by blast
    moreover have "reads_rest des bs m"
      unfolding reads_rest_def using r reads_def[of des bs m] by (metis append_Nil2 fst_conv)
    ultimately show ?thesis unfolding codes_rest_def by blast
  qed
  show "cursor_safe des" by (rule des_safe)
qed

end
