(* ===== verification/MessagesBasic.thy ===== *)
theory MessagesBasic
  imports Codec
begin

text \<open>
  The messages of \<open>basis-protocol/src/messages.rs\<close> whose two trait implementations go through
  the fields in order: one record per struct, one writer per \<open>BasisSerialize\<close>, one reader per
  \<open>BasisDeserialize\<close>, and one interpretation of the codec contracts per message. A field of type
  \<open>f32\<close> or \<open>i32\<close> is its 32-bit pattern, a \<open>String\<close> its UTF-8 bytes. The \<open>_wf\<close> predicates
  say which field values fit the wire: strings of at most 65534 bytes, byte arrays of at most
  65535.
\<close>

section \<open>Structs and trait implementations\<close>

record BytesMessage =
  bm_data :: bytes

definition BytesMessage_serialize :: "BytesMessage \<Rightarrow> writing" where
  "BytesMessage_serialize m = runW
     [put_bytes_with_length (bm_data m)]"

definition BytesMessage_deserialize :: "BytesMessage reading" where
  "BytesMessage_deserialize =
     bindR get_u16 (\<lambda>len.
     bindR (get_bytes (unat len)) (\<lambda>data.
     retR \<lparr>bm_data = data\<rparr>))"

definition BytesMessage_wf :: "BytesMessage \<Rightarrow> bool" where
  "BytesMessage_wf m \<longleftrightarrow> length (bm_data m) < 65536"

record PlayerIdMessage =
  pim_player_id :: u16

definition PlayerIdMessage_serialize :: "PlayerIdMessage \<Rightarrow> writing" where
  "PlayerIdMessage_serialize m = runW
     [okW (put_u16 (pim_player_id m))]"

definition PlayerIdMessage_deserialize :: "PlayerIdMessage reading" where
  "PlayerIdMessage_deserialize =
     bindR get_u16 (\<lambda>player_id.
     retR \<lparr>pim_player_id = player_id\<rparr>)"

record BasisMessageDescriptor =
  bmd_id :: u16
  bmd_version :: u8
  bmd_channel :: u8
  bmd_flags :: u8
  bmd_name :: bytes

definition BasisMessageDescriptor_serialize :: "BasisMessageDescriptor \<Rightarrow> writing" where
  "BasisMessageDescriptor_serialize m = runW
     [okW (put_u16 (bmd_id m)),
      okW (put_u8 (bmd_version m)),
      okW (put_u8 (bmd_channel m)),
      okW (put_u8 (bmd_flags m)),
      put_string (bmd_name m)]"

definition BasisMessageDescriptor_deserialize :: "BasisMessageDescriptor reading" where
  "BasisMessageDescriptor_deserialize =
     bindR get_u16 (\<lambda>id.
     bindR get_u8 (\<lambda>version.
     bindR get_u8 (\<lambda>channel.
     bindR get_u8 (\<lambda>flags.
     bindR get_string (\<lambda>name.
     retR \<lparr>bmd_id = id, bmd_version = version, bmd_channel = channel, bmd_flags = flags, bmd_name = name\<rparr>)))))"

definition BasisMessageDescriptor_wf :: "BasisMessageDescriptor \<Rightarrow> bool" where
  "BasisMessageDescriptor_wf m \<longleftrightarrow> fits (bmd_name m)"

record UshortUniqueIdMessage =
  uum_unique_id_ushort :: u16

definition UshortUniqueIdMessage_serialize :: "UshortUniqueIdMessage \<Rightarrow> writing" where
  "UshortUniqueIdMessage_serialize m = runW
     [okW (put_u16 (uum_unique_id_ushort m))]"

definition UshortUniqueIdMessage_deserialize :: "UshortUniqueIdMessage reading" where
  "UshortUniqueIdMessage_deserialize =
     bindR get_u16 (\<lambda>unique_id_ushort.
     retR \<lparr>uum_unique_id_ushort = unique_id_ushort\<rparr>)"

record AudioSegmentDataMessage =
  asd_audio_segment :: bytes

definition AudioSegmentDataMessage_serialize :: "AudioSegmentDataMessage \<Rightarrow> writing" where
  "AudioSegmentDataMessage_serialize m = runW
     [okW (put_bytes (asd_audio_segment m))]"

definition AudioSegmentDataMessage_deserialize :: "AudioSegmentDataMessage reading" where
  "AudioSegmentDataMessage_deserialize =
     bindR get_rest (\<lambda>audio_segment.
     retR \<lparr>asd_audio_segment = audio_segment\<rparr>)"

record ServerAudioSegmentMessage =
  sas_player_id :: u16
  sas_audio_segment :: bytes

definition ServerAudioSegmentMessage_serialize :: "ServerAudioSegmentMessage \<Rightarrow> writing" where
  "ServerAudioSegmentMessage_serialize m = runW
     [okW (put_u16 (sas_player_id m)),
      okW (put_bytes (sas_audio_segment m))]"

definition ServerAudioSegmentMessage_deserialize :: "ServerAudioSegmentMessage reading" where
  "ServerAudioSegmentMessage_deserialize =
     bindR get_u16 (\<lambda>player_id.
     bindR get_rest (\<lambda>audio_segment.
     retR \<lparr>sas_player_id = player_id, sas_audio_segment = audio_segment\<rparr>))"

record RemoteAvatarDataMessage =
  rad_player_id :: u16
  rad_avatar_link_index :: u8
  rad_message_index :: u8
  rad_payload :: bytes

definition RemoteAvatarDataMessage_serialize :: "RemoteAvatarDataMessage \<Rightarrow> writing" where
  "RemoteAvatarDataMessage_serialize m = runW
     [okW (put_u16 (rad_player_id m)),
      okW (put_u8 (rad_avatar_link_index m)),
      okW (put_u8 (rad_message_index m)),
      okW (put_bytes (rad_payload m))]"

definition RemoteAvatarDataMessage_deserialize :: "RemoteAvatarDataMessage reading" where
  "RemoteAvatarDataMessage_deserialize =
     bindR get_u16 (\<lambda>player_id.
     bindR get_u8 (\<lambda>avatar_link_index.
     bindR get_u8 (\<lambda>message_index.
     bindR get_rest (\<lambda>payload.
     retR \<lparr>rad_player_id = player_id, rad_avatar_link_index = avatar_link_index, rad_message_index = message_index, rad_payload = payload\<rparr>))))"

record ModifyResource =
  mr_loaded_net_id :: bytes
  mr_mode :: u8
  mr_static_resource :: bool
  mr_static_admin_locked :: bool

definition ModifyResource_serialize :: "ModifyResource \<Rightarrow> writing" where
  "ModifyResource_serialize m = runW
     [put_string (mr_loaded_net_id m),
      okW (put_u8 (mr_mode m)),
      okW (put_bool (mr_static_resource m)),
      okW (put_bool (mr_static_admin_locked m))]"

definition ModifyResource_deserialize :: "ModifyResource reading" where
  "ModifyResource_deserialize =
     bindR get_string (\<lambda>loaded_net_id.
     bindR get_u8 (\<lambda>mode.
     bindR get_bool (\<lambda>static_resource.
     bindR get_bool (\<lambda>static_admin_locked.
     retR \<lparr>mr_loaded_net_id = loaded_net_id, mr_mode = mode, mr_static_resource = static_resource, mr_static_admin_locked = static_admin_locked\<rparr>))))"

definition ModifyResource_wf :: "ModifyResource \<Rightarrow> bool" where
  "ModifyResource_wf m \<longleftrightarrow> fits (mr_loaded_net_id m)"

record RemoteSceneDataMessage =
  rsd_message_index :: u16
  rsd_payload :: bytes

definition RemoteSceneDataMessage_serialize :: "RemoteSceneDataMessage \<Rightarrow> writing" where
  "RemoteSceneDataMessage_serialize m = runW
     [okW (put_u16 (rsd_message_index m)),
      okW (put_bytes (rsd_payload m))]"

definition RemoteSceneDataMessage_deserialize :: "RemoteSceneDataMessage reading" where
  "RemoteSceneDataMessage_deserialize =
     bindR get_u16 (\<lambda>message_index.
     bindR get_rest (\<lambda>payload.
     retR \<lparr>rsd_message_index = message_index, rsd_payload = payload\<rparr>))"

record UnloadResource =
  ur_mode :: u8
  ur_loaded_net_id :: bytes

definition UnloadResource_serialize :: "UnloadResource \<Rightarrow> writing" where
  "UnloadResource_serialize m = runW
     [okW (put_u8 (ur_mode m)),
      put_string (ur_loaded_net_id m)]"

definition UnloadResource_deserialize :: "UnloadResource reading" where
  "UnloadResource_deserialize =
     bindR get_u8 (\<lambda>mode.
     bindR get_string (\<lambda>loaded_net_id.
     retR \<lparr>ur_mode = mode, ur_loaded_net_id = loaded_net_id\<rparr>))"

definition UnloadResource_wf :: "UnloadResource \<Rightarrow> bool" where
  "UnloadResource_wf m \<longleftrightarrow> fits (ur_loaded_net_id m)"

record PreloadReadyMessage =
  prm_loaded_net_id :: bytes
  prm_is_ready :: bool

definition PreloadReadyMessage_serialize :: "PreloadReadyMessage \<Rightarrow> writing" where
  "PreloadReadyMessage_serialize m = runW
     [put_string (prm_loaded_net_id m),
      okW (put_bool (prm_is_ready m))]"

definition PreloadReadyMessage_deserialize :: "PreloadReadyMessage reading" where
  "PreloadReadyMessage_deserialize =
     bindR get_string (\<lambda>loaded_net_id.
     bindR get_bool (\<lambda>is_ready.
     retR \<lparr>prm_loaded_net_id = loaded_net_id, prm_is_ready = is_ready\<rparr>))"

definition PreloadReadyMessage_wf :: "PreloadReadyMessage \<Rightarrow> bool" where
  "PreloadReadyMessage_wf m \<longleftrightarrow> fits (prm_loaded_net_id m)"

record SpawnPreloadedMessage =
  spm_loaded_net_id :: bytes

definition SpawnPreloadedMessage_serialize :: "SpawnPreloadedMessage \<Rightarrow> writing" where
  "SpawnPreloadedMessage_serialize m = runW
     [put_string (spm_loaded_net_id m)]"

definition SpawnPreloadedMessage_deserialize :: "SpawnPreloadedMessage reading" where
  "SpawnPreloadedMessage_deserialize =
     bindR get_string (\<lambda>loaded_net_id.
     retR \<lparr>spm_loaded_net_id = loaded_net_id\<rparr>)"

definition SpawnPreloadedMessage_wf :: "SpawnPreloadedMessage \<Rightarrow> bool" where
  "SpawnPreloadedMessage_wf m \<longleftrightarrow> fits (spm_loaded_net_id m)"

record DataBaseRequest =
  dbr_database_id :: bytes

definition DataBaseRequest_serialize :: "DataBaseRequest \<Rightarrow> writing" where
  "DataBaseRequest_serialize m = runW
     [put_string (dbr_database_id m)]"

definition DataBaseRequest_deserialize :: "DataBaseRequest reading" where
  "DataBaseRequest_deserialize =
     bindR get_string (\<lambda>database_id.
     retR \<lparr>dbr_database_id = database_id\<rparr>)"

definition DataBaseRequest_wf :: "DataBaseRequest \<Rightarrow> bool" where
  "DataBaseRequest_wf m \<longleftrightarrow> fits (dbr_database_id m)"

record ErrorMessage =
  em_message :: bytes

definition ErrorMessage_serialize :: "ErrorMessage \<Rightarrow> writing" where
  "ErrorMessage_serialize m = runW
     [put_string (em_message m)]"

definition ErrorMessage_deserialize :: "ErrorMessage reading" where
  "ErrorMessage_deserialize =
     bindR get_string (\<lambda>message.
     retR \<lparr>em_message = message\<rparr>)"

definition ErrorMessage_wf :: "ErrorMessage \<Rightarrow> bool" where
  "ErrorMessage_wf m \<longleftrightarrow> fits (em_message m)"

record BasisAvatarCloneRequest =
  acq_requesting_user :: u16

definition BasisAvatarCloneRequest_serialize :: "BasisAvatarCloneRequest \<Rightarrow> writing" where
  "BasisAvatarCloneRequest_serialize m = runW
     [okW (put_u16 (acq_requesting_user m))]"

definition BasisAvatarCloneRequest_deserialize :: "BasisAvatarCloneRequest reading" where
  "BasisAvatarCloneRequest_deserialize =
     bindR get_u16 (\<lambda>requesting_user.
     retR \<lparr>acq_requesting_user = requesting_user\<rparr>)"

record BasisAvatarCloneResponse =
  acs_requesting_user :: u16

definition BasisAvatarCloneResponse_serialize :: "BasisAvatarCloneResponse \<Rightarrow> writing" where
  "BasisAvatarCloneResponse_serialize m = runW
     [okW (put_u16 (acs_requesting_user m))]"

definition BasisAvatarCloneResponse_deserialize :: "BasisAvatarCloneResponse reading" where
  "BasisAvatarCloneResponse_deserialize =
     bindR get_u16 (\<lambda>requesting_user.
     retR \<lparr>acs_requesting_user = requesting_user\<rparr>)"

record OwnershipTransferMessage =
  otm_player_id :: u16
  otm_ownership_id :: bytes

definition OwnershipTransferMessage_serialize :: "OwnershipTransferMessage \<Rightarrow> writing" where
  "OwnershipTransferMessage_serialize m = runW
     [okW (put_u16 (otm_player_id m)),
      put_string (otm_ownership_id m)]"

definition OwnershipTransferMessage_deserialize :: "OwnershipTransferMessage reading" where
  "OwnershipTransferMessage_deserialize =
     bindR get_u16 (\<lambda>player_id.
     bindR get_string (\<lambda>ownership_id.
     retR \<lparr>otm_player_id = player_id, otm_ownership_id = ownership_id\<rparr>))"

definition OwnershipTransferMessage_wf :: "OwnershipTransferMessage \<Rightarrow> bool" where
  "OwnershipTransferMessage_wf m \<longleftrightarrow> fits (otm_ownership_id m)"

record ContentShareCleanupMessage =
  csc_sphere_net_id :: bytes

definition ContentShareCleanupMessage_serialize :: "ContentShareCleanupMessage \<Rightarrow> writing" where
  "ContentShareCleanupMessage_serialize m = runW
     [put_string (csc_sphere_net_id m)]"

definition ContentShareCleanupMessage_deserialize :: "ContentShareCleanupMessage reading" where
  "ContentShareCleanupMessage_deserialize =
     bindR get_string (\<lambda>sphere_net_id.
     retR \<lparr>csc_sphere_net_id = sphere_net_id\<rparr>)"

definition ContentShareCleanupMessage_wf :: "ContentShareCleanupMessage \<Rightarrow> bool" where
  "ContentShareCleanupMessage_wf m \<longleftrightarrow> fits (csc_sphere_net_id m)"

record CameraPipPositionMessage =
  cpp_player_id :: u16
  cpp_position_x :: u32
  cpp_position_y :: u32
  cpp_position_z :: u32
  cpp_rotation_x :: u32
  cpp_rotation_y :: u32
  cpp_rotation_z :: u32
  cpp_rotation_w :: u32

definition CameraPipPositionMessage_serialize :: "CameraPipPositionMessage \<Rightarrow> writing" where
  "CameraPipPositionMessage_serialize m = runW
     [okW (put_u16 (cpp_player_id m)),
      okW (put_f32 (cpp_position_x m)),
      okW (put_f32 (cpp_position_y m)),
      okW (put_f32 (cpp_position_z m)),
      okW (put_f32 (cpp_rotation_x m)),
      okW (put_f32 (cpp_rotation_y m)),
      okW (put_f32 (cpp_rotation_z m)),
      okW (put_f32 (cpp_rotation_w m))]"

definition CameraPipPositionMessage_deserialize :: "CameraPipPositionMessage reading" where
  "CameraPipPositionMessage_deserialize =
     bindR get_u16 (\<lambda>player_id.
     bindR get_f32 (\<lambda>position_x.
     bindR get_f32 (\<lambda>position_y.
     bindR get_f32 (\<lambda>position_z.
     bindR get_f32 (\<lambda>rotation_x.
     bindR get_f32 (\<lambda>rotation_y.
     bindR get_f32 (\<lambda>rotation_z.
     bindR get_f32 (\<lambda>rotation_w.
     retR \<lparr>cpp_player_id = player_id, cpp_position_x = position_x, cpp_position_y = position_y, cpp_position_z = position_z, cpp_rotation_x = rotation_x, cpp_rotation_y = rotation_y, cpp_rotation_z = rotation_z, cpp_rotation_w = rotation_w\<rparr>))))))))"

record ClientCameraPipPositionMessage =
  ccp_position_x :: u32
  ccp_position_y :: u32
  ccp_position_z :: u32
  ccp_rotation_x :: u32
  ccp_rotation_y :: u32
  ccp_rotation_z :: u32
  ccp_rotation_w :: u32

definition ClientCameraPipPositionMessage_deserialize :: "ClientCameraPipPositionMessage reading" where
  "ClientCameraPipPositionMessage_deserialize =
     bindR get_f32 (\<lambda>position_x.
     bindR get_f32 (\<lambda>position_y.
     bindR get_f32 (\<lambda>position_z.
     bindR get_f32 (\<lambda>rotation_x.
     bindR get_f32 (\<lambda>rotation_y.
     bindR get_f32 (\<lambda>rotation_z.
     bindR get_f32 (\<lambda>rotation_w.
     retR \<lparr>ccp_position_x = position_x, ccp_position_y = position_y, ccp_position_z = position_z, ccp_rotation_x = rotation_x, ccp_rotation_y = rotation_y, ccp_rotation_z = rotation_z, ccp_rotation_w = rotation_w\<rparr>)))))))"

record CameraShutterSoundMessage =
  css_player_id :: u16

definition CameraShutterSoundMessage_serialize :: "CameraShutterSoundMessage \<Rightarrow> writing" where
  "CameraShutterSoundMessage_serialize m = runW
     [okW (put_u16 (css_player_id m))]"

definition CameraShutterSoundMessage_deserialize :: "CameraShutterSoundMessage reading" where
  "CameraShutterSoundMessage_deserialize =
     bindR get_u16 (\<lambda>player_id.
     retR \<lparr>css_player_id = player_id\<rparr>)"

record CameraCountdownMessage =
  ccm_player_id :: u16
  ccm_seconds :: u8

definition CameraCountdownMessage_serialize :: "CameraCountdownMessage \<Rightarrow> writing" where
  "CameraCountdownMessage_serialize m = runW
     [okW (put_u16 (ccm_player_id m)),
      okW (put_u8 (ccm_seconds m))]"

definition CameraCountdownMessage_deserialize :: "CameraCountdownMessage reading" where
  "CameraCountdownMessage_deserialize =
     bindR get_u16 (\<lambda>player_id.
     bindR get_u8 (\<lambda>seconds.
     retR \<lparr>ccm_player_id = player_id, ccm_seconds = seconds\<rparr>))"

record ClientCameraCountdownMessage =
  ccc_seconds :: u8

definition ClientCameraCountdownMessage_serialize :: "ClientCameraCountdownMessage \<Rightarrow> writing" where
  "ClientCameraCountdownMessage_serialize m = runW
     [okW (put_u8 (ccc_seconds m))]"

definition ClientCameraCountdownMessage_deserialize :: "ClientCameraCountdownMessage reading" where
  "ClientCameraCountdownMessage_deserialize =
     bindR get_u8 (\<lambda>seconds.
     retR \<lparr>ccc_seconds = seconds\<rparr>)"

record ServerStatisticMessage =
  ssm_data :: bytes

definition ServerStatisticMessage_serialize :: "ServerStatisticMessage \<Rightarrow> writing" where
  "ServerStatisticMessage_serialize m = runW
     [okW (put_bytes (ssm_data m))]"

definition ServerStatisticMessage_deserialize :: "ServerStatisticMessage reading" where
  "ServerStatisticMessage_deserialize =
     bindR get_rest (\<lambda>data.
     retR \<lparr>ssm_data = data\<rparr>)"

record ServerLibraryItem =
  sli_mode :: u8
  sli_url :: bytes
  sli_password :: bytes

definition ServerLibraryItem_serialize :: "ServerLibraryItem \<Rightarrow> writing" where
  "ServerLibraryItem_serialize m = runW
     [okW (put_u8 (sli_mode m)),
      put_string (sli_url m),
      put_string (sli_password m)]"

definition ServerLibraryItem_deserialize :: "ServerLibraryItem reading" where
  "ServerLibraryItem_deserialize =
     bindR get_u8 (\<lambda>mode.
     bindR get_string (\<lambda>url.
     bindR get_string (\<lambda>password.
     retR \<lparr>sli_mode = mode, sli_url = url, sli_password = password\<rparr>)))"

definition ServerLibraryItem_wf :: "ServerLibraryItem \<Rightarrow> bool" where
  "ServerLibraryItem_wf m \<longleftrightarrow> fits (sli_url m) \<and> fits (sli_password m)"

record ConsoleData =
  cd_message_index :: u8
  cd_array :: bytes

definition ConsoleData_serialize :: "ConsoleData \<Rightarrow> writing" where
  "ConsoleData_serialize m = runW
     [okW (put_u8 (cd_message_index m)),
      put_bytes_with_length (cd_array m)]"

definition ConsoleData_deserialize :: "ConsoleData reading" where
  "ConsoleData_deserialize =
     bindR get_u8 (\<lambda>message_index.
     bindR get_u16 (\<lambda>len.
     bindR (get_bytes (unat len)) (\<lambda>array.
     retR \<lparr>cd_message_index = message_index, cd_array = array\<rparr>)))"

definition ConsoleData_wf :: "ConsoleData \<Rightarrow> bool" where
  "ConsoleData_wf m \<longleftrightarrow> length (cd_array m) < 65536"

record AvatarLoadDataMessage =
  ald_message_index :: u8
  ald_who_sent_us_this :: u16
  ald_payload :: bytes

definition AvatarLoadDataMessage_serialize :: "AvatarLoadDataMessage \<Rightarrow> writing" where
  "AvatarLoadDataMessage_serialize m = runW
     [okW (put_u8 (ald_message_index m)),
      okW (put_u16 (ald_who_sent_us_this m)),
      put_bytes_with_length (ald_payload m)]"

definition AvatarLoadDataMessage_deserialize :: "AvatarLoadDataMessage reading" where
  "AvatarLoadDataMessage_deserialize =
     bindR get_u8 (\<lambda>message_index.
     bindR get_u16 (\<lambda>who_sent_us_this.
     bindR get_u16 (\<lambda>len.
     bindR (get_bytes (unat len)) (\<lambda>payload.
     retR \<lparr>ald_message_index = message_index, ald_who_sent_us_this = who_sent_us_this, ald_payload = payload\<rparr>))))"

definition AvatarLoadDataMessage_wf :: "AvatarLoadDataMessage \<Rightarrow> bool" where
  "AvatarLoadDataMessage_wf m \<longleftrightarrow> length (ald_payload m) < 65536"

section \<open>Every message meets its contract\<close>

text \<open>The least encodings that the allocation guards of the counted messages rely on.\<close>

lemma BasisMessageDescriptor_consumes: "consumes (2 + (1 + (1 + (1 + (2 + 0))))) BasisMessageDescriptor_deserialize"
  unfolding BasisMessageDescriptor_deserialize_def by (intro consumes_rules)

lemma ServerLibraryItem_consumes: "consumes (1 + (2 + (2 + 0))) ServerLibraryItem_deserialize"
  unfolding ServerLibraryItem_deserialize_def by (intro consumes_rules)

interpretation BytesMessage_codec: wire_codec BytesMessage_serialize BytesMessage_deserialize BytesMessage_wf
  by unfold_locales (auto simp: BytesMessage_serialize_def BytesMessage_deserialize_def BytesMessage_wf_def intro!: BytesMessage.equality codec_rules reader_safe reader_trunc)

interpretation PlayerIdMessage_codec: wire_codec PlayerIdMessage_serialize PlayerIdMessage_deserialize "\<lambda>_. True"
  by unfold_locales (auto simp: PlayerIdMessage_serialize_def PlayerIdMessage_deserialize_def intro!: PlayerIdMessage.equality codec_rules reader_safe reader_trunc)

interpretation BasisMessageDescriptor_codec: item_codec BasisMessageDescriptor_serialize BasisMessageDescriptor_deserialize BasisMessageDescriptor_wf 7
  by unfold_locales
    (use BasisMessageDescriptor_consumes in \<open>auto simp: BasisMessageDescriptor_serialize_def BasisMessageDescriptor_deserialize_def BasisMessageDescriptor_wf_def intro!: BasisMessageDescriptor.equality codec_rules reader_safe reader_trunc\<close>)

interpretation UshortUniqueIdMessage_codec: wire_codec UshortUniqueIdMessage_serialize UshortUniqueIdMessage_deserialize "\<lambda>_. True"
  by unfold_locales (auto simp: UshortUniqueIdMessage_serialize_def UshortUniqueIdMessage_deserialize_def intro!: UshortUniqueIdMessage.equality codec_rules reader_safe reader_trunc)

interpretation AudioSegmentDataMessage_codec: rest_codec AudioSegmentDataMessage_serialize AudioSegmentDataMessage_deserialize "\<lambda>_. True"
  by unfold_locales (auto simp: AudioSegmentDataMessage_serialize_def AudioSegmentDataMessage_deserialize_def intro!: AudioSegmentDataMessage.equality codec_rules reader_safe)

interpretation ServerAudioSegmentMessage_codec: rest_codec ServerAudioSegmentMessage_serialize ServerAudioSegmentMessage_deserialize "\<lambda>_. True"
  by unfold_locales (auto simp: ServerAudioSegmentMessage_serialize_def ServerAudioSegmentMessage_deserialize_def intro!: ServerAudioSegmentMessage.equality codec_rules reader_safe)

interpretation RemoteAvatarDataMessage_codec: rest_codec RemoteAvatarDataMessage_serialize RemoteAvatarDataMessage_deserialize "\<lambda>_. True"
  by unfold_locales (auto simp: RemoteAvatarDataMessage_serialize_def RemoteAvatarDataMessage_deserialize_def intro!: RemoteAvatarDataMessage.equality codec_rules reader_safe)

interpretation ModifyResource_codec: wire_codec ModifyResource_serialize ModifyResource_deserialize ModifyResource_wf
  by unfold_locales (auto simp: ModifyResource_serialize_def ModifyResource_deserialize_def ModifyResource_wf_def intro!: ModifyResource.equality codec_rules reader_safe reader_trunc)

interpretation RemoteSceneDataMessage_codec: rest_codec RemoteSceneDataMessage_serialize RemoteSceneDataMessage_deserialize "\<lambda>_. True"
  by unfold_locales (auto simp: RemoteSceneDataMessage_serialize_def RemoteSceneDataMessage_deserialize_def intro!: RemoteSceneDataMessage.equality codec_rules reader_safe)

interpretation UnloadResource_codec: wire_codec UnloadResource_serialize UnloadResource_deserialize UnloadResource_wf
  by unfold_locales (auto simp: UnloadResource_serialize_def UnloadResource_deserialize_def UnloadResource_wf_def intro!: UnloadResource.equality codec_rules reader_safe reader_trunc)

interpretation PreloadReadyMessage_codec: wire_codec PreloadReadyMessage_serialize PreloadReadyMessage_deserialize PreloadReadyMessage_wf
  by unfold_locales (auto simp: PreloadReadyMessage_serialize_def PreloadReadyMessage_deserialize_def PreloadReadyMessage_wf_def intro!: PreloadReadyMessage.equality codec_rules reader_safe reader_trunc)

interpretation SpawnPreloadedMessage_codec: wire_codec SpawnPreloadedMessage_serialize SpawnPreloadedMessage_deserialize SpawnPreloadedMessage_wf
  by unfold_locales (auto simp: SpawnPreloadedMessage_serialize_def SpawnPreloadedMessage_deserialize_def SpawnPreloadedMessage_wf_def intro!: SpawnPreloadedMessage.equality codec_rules reader_safe reader_trunc)

interpretation DataBaseRequest_codec: wire_codec DataBaseRequest_serialize DataBaseRequest_deserialize DataBaseRequest_wf
  by unfold_locales (auto simp: DataBaseRequest_serialize_def DataBaseRequest_deserialize_def DataBaseRequest_wf_def intro!: DataBaseRequest.equality codec_rules reader_safe reader_trunc)

interpretation ErrorMessage_codec: wire_codec ErrorMessage_serialize ErrorMessage_deserialize ErrorMessage_wf
  by unfold_locales (auto simp: ErrorMessage_serialize_def ErrorMessage_deserialize_def ErrorMessage_wf_def intro!: ErrorMessage.equality codec_rules reader_safe reader_trunc)

interpretation BasisAvatarCloneRequest_codec: wire_codec BasisAvatarCloneRequest_serialize BasisAvatarCloneRequest_deserialize "\<lambda>_. True"
  by unfold_locales (auto simp: BasisAvatarCloneRequest_serialize_def BasisAvatarCloneRequest_deserialize_def intro!: BasisAvatarCloneRequest.equality codec_rules reader_safe reader_trunc)

interpretation BasisAvatarCloneResponse_codec: wire_codec BasisAvatarCloneResponse_serialize BasisAvatarCloneResponse_deserialize "\<lambda>_. True"
  by unfold_locales (auto simp: BasisAvatarCloneResponse_serialize_def BasisAvatarCloneResponse_deserialize_def intro!: BasisAvatarCloneResponse.equality codec_rules reader_safe reader_trunc)

interpretation OwnershipTransferMessage_codec: wire_codec OwnershipTransferMessage_serialize OwnershipTransferMessage_deserialize OwnershipTransferMessage_wf
  by unfold_locales (auto simp: OwnershipTransferMessage_serialize_def OwnershipTransferMessage_deserialize_def OwnershipTransferMessage_wf_def intro!: OwnershipTransferMessage.equality codec_rules reader_safe reader_trunc)

interpretation ContentShareCleanupMessage_codec: wire_codec ContentShareCleanupMessage_serialize ContentShareCleanupMessage_deserialize ContentShareCleanupMessage_wf
  by unfold_locales (auto simp: ContentShareCleanupMessage_serialize_def ContentShareCleanupMessage_deserialize_def ContentShareCleanupMessage_wf_def intro!: ContentShareCleanupMessage.equality codec_rules reader_safe reader_trunc)

interpretation CameraPipPositionMessage_codec: wire_codec CameraPipPositionMessage_serialize CameraPipPositionMessage_deserialize "\<lambda>_. True"
  by unfold_locales (auto simp: CameraPipPositionMessage_serialize_def CameraPipPositionMessage_deserialize_def intro!: CameraPipPositionMessage.equality codec_rules reader_safe reader_trunc)

lemma ClientCameraPipPositionMessage_deserialize_safe [reader_safe]: "cursor_safe ClientCameraPipPositionMessage_deserialize"
  by (auto simp: ClientCameraPipPositionMessage_deserialize_def intro!: reader_safe)

interpretation CameraShutterSoundMessage_codec: wire_codec CameraShutterSoundMessage_serialize CameraShutterSoundMessage_deserialize "\<lambda>_. True"
  by unfold_locales (auto simp: CameraShutterSoundMessage_serialize_def CameraShutterSoundMessage_deserialize_def intro!: CameraShutterSoundMessage.equality codec_rules reader_safe reader_trunc)

interpretation CameraCountdownMessage_codec: wire_codec CameraCountdownMessage_serialize CameraCountdownMessage_deserialize "\<lambda>_. True"
  by unfold_locales (auto simp: CameraCountdownMessage_serialize_def CameraCountdownMessage_deserialize_def intro!: CameraCountdownMessage.equality codec_rules reader_safe reader_trunc)

interpretation ClientCameraCountdownMessage_codec: wire_codec ClientCameraCountdownMessage_serialize ClientCameraCountdownMessage_deserialize "\<lambda>_. True"
  by unfold_locales (auto simp: ClientCameraCountdownMessage_serialize_def ClientCameraCountdownMessage_deserialize_def intro!: ClientCameraCountdownMessage.equality codec_rules reader_safe reader_trunc)

interpretation ServerStatisticMessage_codec: rest_codec ServerStatisticMessage_serialize ServerStatisticMessage_deserialize "\<lambda>_. True"
  by unfold_locales (auto simp: ServerStatisticMessage_serialize_def ServerStatisticMessage_deserialize_def intro!: ServerStatisticMessage.equality codec_rules reader_safe)

interpretation ServerLibraryItem_codec: item_codec ServerLibraryItem_serialize ServerLibraryItem_deserialize ServerLibraryItem_wf 5
  by unfold_locales
    (use ServerLibraryItem_consumes in \<open>auto simp: ServerLibraryItem_serialize_def ServerLibraryItem_deserialize_def ServerLibraryItem_wf_def intro!: ServerLibraryItem.equality codec_rules reader_safe reader_trunc\<close>)

interpretation ConsoleData_codec: wire_codec ConsoleData_serialize ConsoleData_deserialize ConsoleData_wf
  by unfold_locales (auto simp: ConsoleData_serialize_def ConsoleData_deserialize_def ConsoleData_wf_def intro!: ConsoleData.equality codec_rules reader_safe reader_trunc)

interpretation AvatarLoadDataMessage_codec: wire_codec AvatarLoadDataMessage_serialize AvatarLoadDataMessage_deserialize AvatarLoadDataMessage_wf
  by unfold_locales (auto simp: AvatarLoadDataMessage_serialize_def AvatarLoadDataMessage_deserialize_def AvatarLoadDataMessage_wf_def intro!: AvatarLoadDataMessage.equality codec_rules reader_safe reader_trunc)

end
