(* ===== verification/MessagesCompound.thy ===== *)
theory MessagesCompound
  imports MessagesBasic
begin

text \<open>
  The messages of \<open>basis-protocol/src/messages.rs\<close> that do more than go through their fields:
  counted fields behind an allocation guard, optional tails, tagged enumerations and messages
  nested in other messages. Structs that only the server writes have no reader here, and structs
  that only the server reads have no writer, as in the source.
\<close>

section \<open>Structs and trait implementations\<close>

definition write_u16_count :: "nat \<Rightarrow> writing" where
  "write_u16_count count =
     (if count \<le> 65535 then okW (put_u16 (of_nat count)) else failW (LengthOverflow count 65535))"

record BasisMessageSupply =
  bms_descriptors :: "BasisMessageDescriptor list"

definition BasisMessageSupply_serialize :: "BasisMessageSupply \<Rightarrow> writing" where
  "BasisMessageSupply_serialize m = runW
     (write_u16_count (length (bms_descriptors m)) #
      map BasisMessageDescriptor_serialize (bms_descriptors m))"

definition BasisMessageSupply_deserialize :: "BasisMessageSupply reading" where
  "BasisMessageSupply_deserialize =
     bindR get_u16 (\<lambda>count.
     bindR (ensureR (\<lambda>rem. unat count > rem div 7) (unat count * 7)) (\<lambda>_.
     bindR (get_n (unat count) BasisMessageDescriptor_deserialize) (\<lambda>descriptors.
     retR \<lparr>bms_descriptors = descriptors\<rparr>)))"

definition BasisMessageSupply_wf :: "BasisMessageSupply \<Rightarrow> bool" where
  "BasisMessageSupply_wf m \<longleftrightarrow> length (bms_descriptors m) < 65536 \<and>
     list_all BasisMessageDescriptor_wf (bms_descriptors m)"

record BasisMessageSubscribe =
  bsub_ids :: "u16 list"

definition BasisMessageSubscribe_serialize :: "BasisMessageSubscribe \<Rightarrow> writing" where
  "BasisMessageSubscribe_serialize m = runW
     (write_u16_count (length (bsub_ids m)) # map (\<lambda>i. okW (put_u16 i)) (bsub_ids m))"

definition BasisMessageSubscribe_deserialize :: "BasisMessageSubscribe reading" where
  "BasisMessageSubscribe_deserialize =
     bindR get_u16 (\<lambda>count.
     bindR (ensureR (\<lambda>rem. unat count * 2 > rem) (unat count * 2)) (\<lambda>_.
     bindR (get_n (unat count) get_u16) (\<lambda>ids.
     retR \<lparr>bsub_ids = ids\<rparr>)))"

definition BasisMessageSubscribe_wf :: "BasisMessageSubscribe \<Rightarrow> bool" where
  "BasisMessageSubscribe_wf m \<longleftrightarrow> length (bsub_ids m) < 65536"

record NetIdMessage =
  nim_player_id :: bytes

definition NetIdMessage_serialize :: "NetIdMessage \<Rightarrow> writing" where
  "NetIdMessage_serialize m =
     (if nim_player_id m \<noteq> [] then put_string (nim_player_id m) else runW [])"

definition NetIdMessage_deserialize :: "NetIdMessage reading" where
  "NetIdMessage_deserialize r =
     (if remaining r = 0 then retR \<lparr>nim_player_id = []\<rparr> r
      else bindR get_string (\<lambda>player_id. retR \<lparr>nim_player_id = player_id\<rparr>) r)"

record ServerNetIdMessage =
  snm_net_id_message :: NetIdMessage
  snm_ushort_unique_id_message :: UshortUniqueIdMessage

definition ServerNetIdMessage_serialize :: "ServerNetIdMessage \<Rightarrow> writing" where
  "ServerNetIdMessage_serialize m = runW
     [NetIdMessage_serialize (snm_net_id_message m),
      UshortUniqueIdMessage_serialize (snm_ushort_unique_id_message m)]"

definition ServerNetIdMessage_deserialize :: "ServerNetIdMessage reading" where
  "ServerNetIdMessage_deserialize =
     bindR NetIdMessage_deserialize (\<lambda>net_id_message.
     bindR UshortUniqueIdMessage_deserialize (\<lambda>ushort_unique_id_message.
     retR \<lparr>snm_net_id_message = net_id_message,
           snm_ushort_unique_id_message = ushort_unique_id_message\<rparr>))"

record ServerUniqueIdMessages =
  sum_messages :: "ServerNetIdMessage list"

definition ServerUniqueIdMessages_serialize :: "ServerUniqueIdMessages \<Rightarrow> writing" where
  "ServerUniqueIdMessages_serialize m = runW
     (write_u16_count (length (sum_messages m)) # map ServerNetIdMessage_serialize (sum_messages m))"

record ChatMessage =
  cm_payload :: bytes

definition ChatMessage_serialize :: "ChatMessage \<Rightarrow> writing" where
  "ChatMessage_serialize m =
     (let len = min (length (cm_payload m)) 512 in runW
       [okW (put_u16 (of_nat len)),
        okW (put_bytes (take len (cm_payload m)))])"

definition ChatMessage_deserialize :: "ChatMessage reading" where
  "ChatMessage_deserialize =
     bindR get_u16 (\<lambda>n.
     bindR (get_bytes (min (unat n) 512)) (\<lambda>payload.
     retR \<lparr>cm_payload = payload\<rparr>))"

record ServerChatMessage =
  scm_player_id :: u16
  scm_chat_message :: ChatMessage

definition ServerChatMessage_serialize :: "ServerChatMessage \<Rightarrow> writing" where
  "ServerChatMessage_serialize m = runW
     [okW (put_u16 (scm_player_id m)),
      ChatMessage_serialize (scm_chat_message m)]"

definition ServerAudioSegmentMessage_serialize_with_id_size ::
  "ServerAudioSegmentMessage \<Rightarrow> bool \<Rightarrow> net_writer \<Rightarrow> net_writer" where
  "ServerAudioSegmentMessage_serialize_with_id_size m large_id w =
     put_bytes (sas_audio_segment m)
       (if large_id then put_u16 (sas_player_id m) w else put_u8 (ucast (sas_player_id m)) w)"

record AvatarDataMessage =
  adm_player_id :: u16
  adm_avatar_link_index :: u8
  adm_message_index :: u8
  adm_recipients :: "u16 list"
  adm_payload :: bytes

definition AvatarDataMessage_serialize :: "AvatarDataMessage \<Rightarrow> writing" where
  "AvatarDataMessage_serialize m = runW
     (okW (put_u16 (adm_player_id m)) #
      okW (put_u8 (adm_avatar_link_index m)) #
      okW (put_u8 (adm_message_index m)) #
      write_u16_count (length (adm_recipients m)) #
      map (\<lambda>i. okW (put_u16 i)) (adm_recipients m) @
      [okW (put_bytes (adm_payload m))])"

definition AvatarDataMessage_deserialize :: "AvatarDataMessage reading" where
  "AvatarDataMessage_deserialize =
     bindR get_u16 (\<lambda>player_id.
     bindR get_u8 (\<lambda>avatar_link_index.
     bindR get_u8 (\<lambda>message_index.
     bindR get_u16 (\<lambda>count.
     bindR (ensureR (\<lambda>rem. unat count > rem div 2) (unat count * 2)) (\<lambda>_.
     bindR (get_n (unat count) get_u16) (\<lambda>recipients.
     bindR get_rest (\<lambda>payload.
     retR \<lparr>adm_player_id = player_id, adm_avatar_link_index = avatar_link_index,
           adm_message_index = message_index, adm_recipients = recipients,
           adm_payload = payload\<rparr>)))))))"

definition AvatarDataMessage_wf :: "AvatarDataMessage \<Rightarrow> bool" where
  "AvatarDataMessage_wf m \<longleftrightarrow> length (adm_recipients m) < 65536"

record ServerAvatarDataMessage =
  sad_player_id :: u16
  sad_avatar_data_message :: RemoteAvatarDataMessage

definition ServerAvatarDataMessage_serialize :: "ServerAvatarDataMessage \<Rightarrow> writing" where
  "ServerAvatarDataMessage_serialize m = runW
     [okW (put_u16 (sad_player_id m)),
      RemoteAvatarDataMessage_serialize (sad_avatar_data_message m)]"

record VoiceReceiversMessage =
  vrm_users :: "u16 list"

definition VoiceReceiversMessage_deserialize :: "bool \<Rightarrow> VoiceReceiversMessage reading" where
  "VoiceReceiversMessage_deserialize large_count =
     bindR (if large_count then bindR get_u16 (\<lambda>c. retR (unat c)) else bindR get_u8 (\<lambda>c. retR (unat c))) (\<lambda>count.
     bindR (ensureR (\<lambda>rem. count > rem div 2) (count * 2)) (\<lambda>_.
     bindR (get_n count get_u16) (\<lambda>users.
     retR \<lparr>vrm_users = users\<rparr>)))"

record SceneDataMessage =
  sdm_message_index :: u16
  sdm_recipients :: "u16 list"
  sdm_payload :: bytes

definition SceneDataMessage_serialize :: "SceneDataMessage \<Rightarrow> writing" where
  "SceneDataMessage_serialize m = runW
     (okW (put_u16 (sdm_message_index m)) #
      write_u16_count (length (sdm_recipients m)) #
      map (\<lambda>i. okW (put_u16 i)) (sdm_recipients m) @
      [okW (put_bytes (sdm_payload m))])"

definition SceneDataMessage_deserialize :: "SceneDataMessage reading" where
  "SceneDataMessage_deserialize =
     bindR get_u16 (\<lambda>message_index.
     bindR get_u16 (\<lambda>count.
     bindR (ensureR (\<lambda>rem. unat count > rem div 2) (unat count * 2)) (\<lambda>_.
     bindR (get_n (unat count) get_u16) (\<lambda>recipients.
     bindR get_rest (\<lambda>payload.
     retR \<lparr>sdm_message_index = message_index, sdm_recipients = recipients,
           sdm_payload = payload\<rparr>)))))"

definition SceneDataMessage_wf :: "SceneDataMessage \<Rightarrow> bool" where
  "SceneDataMessage_wf m \<longleftrightarrow> length (sdm_recipients m) < 65536"

record ServerSceneDataMessage =
  ssd_player_id :: u16
  ssd_scene_data_message :: RemoteSceneDataMessage

definition ServerSceneDataMessage_serialize :: "ServerSceneDataMessage \<Rightarrow> writing" where
  "ServerSceneDataMessage_serialize m = runW
     [okW (put_u16 (ssd_player_id m)),
      RemoteSceneDataMessage_serialize (ssd_scene_data_message m)]"

record LocalLoadResource =
  llr_mode :: u8
  llr_loaded_net_id :: bytes
  llr_unlock_password :: bytes
  llr_combined_url :: bytes
  llr_uuid_of_creator :: bytes
  llr_is_admin_locked :: bool
  llr_position_x :: u32
  llr_position_y :: u32
  llr_position_z :: u32
  llr_quaternion_x :: u32
  llr_quaternion_y :: u32
  llr_quaternion_z :: u32
  llr_quaternion_w :: u32
  llr_scale_x :: u32
  llr_scale_y :: u32
  llr_scale_z :: u32
  llr_persist :: bool
  llr_static_resource :: bool
  llr_static_admin_locked :: bool
  llr_modify_scale :: bool
  llr_load_strategy :: u8

text \<open>The bit patterns of the \<open>f32\<close> literals \<open>0.0\<close> and \<open>1.0\<close>.\<close>

definition f32_zero :: u32 where "f32_zero = 0"
definition f32_one :: u32 where "f32_one = 0x3F800000"

definition LocalLoadResource_serialize :: "LocalLoadResource \<Rightarrow> writing" where
  "LocalLoadResource_serialize m = runW
     (okW (put_u8 (llr_mode m)) #
      put_string (llr_loaded_net_id m) #
      put_string (llr_unlock_password m) #
      put_string (llr_combined_url m) #
      put_string (llr_uuid_of_creator m) #
      okW (put_bool (llr_is_admin_locked m)) #
      okW (put_bool (llr_persist m)) #
      okW (put_bool (llr_static_resource m)) #
      okW (put_bool (llr_static_admin_locked m)) #
      okW (put_bool (llr_modify_scale m)) #
      okW (put_u8 (llr_load_strategy m)) #
      (if llr_mode m = 0 then
        [okW (put_f32 (llr_position_x m)),
         okW (put_f32 (llr_position_y m)),
         okW (put_f32 (llr_position_z m)),
         okW (put_f32 (llr_quaternion_x m)),
         okW (put_f32 (llr_quaternion_y m)),
         okW (put_f32 (llr_quaternion_z m)),
         okW (put_f32 (llr_quaternion_w m)),
         okW (put_f32 (llr_scale_x m)),
         okW (put_f32 (llr_scale_y m)),
         okW (put_f32 (llr_scale_z m))]
       else []))"

definition LocalLoadResource_deserialize :: "LocalLoadResource reading" where
  "LocalLoadResource_deserialize =
     bindR get_u8 (\<lambda>mode.
     bindR get_string (\<lambda>loaded_net_id.
     bindR get_string (\<lambda>unlock_password.
     bindR get_string (\<lambda>combined_url.
     bindR get_string (\<lambda>uuid_of_creator.
     bindR get_bool (\<lambda>is_admin_locked.
     bindR get_bool (\<lambda>persist.
     bindR get_bool (\<lambda>static_resource.
     bindR get_bool (\<lambda>static_admin_locked.
     bindR get_bool (\<lambda>modify_scale.
     bindR get_u8 (\<lambda>load_strategy.
       let value = \<lparr>llr_mode = mode, llr_loaded_net_id = loaded_net_id,
             llr_unlock_password = unlock_password, llr_combined_url = combined_url,
             llr_uuid_of_creator = uuid_of_creator, llr_is_admin_locked = is_admin_locked,
             llr_position_x = f32_zero, llr_position_y = f32_zero, llr_position_z = f32_zero,
             llr_quaternion_x = f32_zero, llr_quaternion_y = f32_zero,
             llr_quaternion_z = f32_zero, llr_quaternion_w = f32_one,
             llr_scale_x = f32_one, llr_scale_y = f32_one, llr_scale_z = f32_one,
             llr_persist = persist, llr_static_resource = static_resource,
             llr_static_admin_locked = static_admin_locked, llr_modify_scale = modify_scale,
             llr_load_strategy = load_strategy\<rparr>
       in if mode = 0 then
         bindR get_f32 (\<lambda>px.
         bindR get_f32 (\<lambda>py.
         bindR get_f32 (\<lambda>pz.
         bindR get_f32 (\<lambda>qx.
         bindR get_f32 (\<lambda>qy.
         bindR get_f32 (\<lambda>qz.
         bindR get_f32 (\<lambda>qw.
         bindR get_f32 (\<lambda>sx.
         bindR get_f32 (\<lambda>sy.
         bindR get_f32 (\<lambda>sz.
         retR (value\<lparr>llr_position_x := px, llr_position_y := py, llr_position_z := pz,
           llr_quaternion_x := qx, llr_quaternion_y := qy, llr_quaternion_z := qz,
           llr_quaternion_w := qw, llr_scale_x := sx, llr_scale_y := sy,
           llr_scale_z := sz\<rparr>)))))))))))
       else retR value)))))))))))"

text \<open>
  A scene or world (mode other than 0) does not carry a transform: its fields must have the
  values that the reader fills in.
\<close>

definition LocalLoadResource_wf :: "LocalLoadResource \<Rightarrow> bool" where
  "LocalLoadResource_wf m \<longleftrightarrow>
     fits (llr_loaded_net_id m) \<and> fits (llr_unlock_password m) \<and> fits (llr_combined_url m) \<and>
     fits (llr_uuid_of_creator m) \<and>
     (llr_mode m \<noteq> 0 \<longrightarrow>
        llr_position_x m = f32_zero \<and> llr_position_y m = f32_zero \<and> llr_position_z m = f32_zero \<and>
        llr_quaternion_x m = f32_zero \<and> llr_quaternion_y m = f32_zero \<and>
        llr_quaternion_z m = f32_zero \<and> llr_quaternion_w m = f32_one \<and>
        llr_scale_x m = f32_one \<and> llr_scale_y m = f32_one \<and> llr_scale_z m = f32_one)"

datatype ContentShareType = Avatar | Prop | World | Server | DollyTrack | Link | Text | Folder | Setting

fun ContentShareType_as_u8 :: "ContentShareType \<Rightarrow> u8" where
  "ContentShareType_as_u8 Avatar = 0"
| "ContentShareType_as_u8 Prop = 1"
| "ContentShareType_as_u8 World = 2"
| "ContentShareType_as_u8 Server = 3"
| "ContentShareType_as_u8 DollyTrack = 4"
| "ContentShareType_as_u8 Link = 5"
| "ContentShareType_as_u8 Text = 6"
| "ContentShareType_as_u8 Folder = 7"
| "ContentShareType_as_u8 Setting = 8"

definition ContentShareType_from :: "u8 \<Rightarrow> ContentShareType" where
  "ContentShareType_from value =
     (if value = 1 then Prop
      else if value = 2 then World
      else if value = 3 then Server
      else if value = 4 then DollyTrack
      else if value = 5 then Link
      else if value = 6 then Text
      else if value = 7 then Folder
      else if value = 8 then Setting
      else Avatar)"

record ContentShareMessage =
  csm_sphere_net_id :: bytes
  csm_content_url :: bytes
  csm_unlock_password :: bytes
  csm_content_type :: ContentShareType
  csm_position_x :: u32
  csm_position_y :: u32
  csm_position_z :: u32

definition ContentShareMessage_serialize :: "ContentShareMessage \<Rightarrow> writing" where
  "ContentShareMessage_serialize m = runW
     [put_string (csm_sphere_net_id m),
      put_string (csm_content_url m),
      put_string (csm_unlock_password m),
      okW (put_u8 (ContentShareType_as_u8 (csm_content_type m))),
      okW (put_f32 (csm_position_x m)),
      okW (put_f32 (csm_position_y m)),
      okW (put_f32 (csm_position_z m))]"

definition ContentShareMessage_deserialize :: "ContentShareMessage reading" where
  "ContentShareMessage_deserialize =
     bindR get_string (\<lambda>sphere_net_id.
     bindR get_string (\<lambda>content_url.
     bindR get_string (\<lambda>unlock_password.
     bindR get_u8 (\<lambda>content_type.
     bindR get_f32 (\<lambda>position_x.
     bindR get_f32 (\<lambda>position_y.
     bindR get_f32 (\<lambda>position_z.
     retR \<lparr>csm_sphere_net_id = sphere_net_id, csm_content_url = content_url,
           csm_unlock_password = unlock_password,
           csm_content_type = ContentShareType_from content_type,
           csm_position_x = position_x, csm_position_y = position_y,
           csm_position_z = position_z\<rparr>)))))))"

definition ContentShareMessage_wf :: "ContentShareMessage \<Rightarrow> bool" where
  "ContentShareMessage_wf m \<longleftrightarrow>
     fits (csm_sphere_net_id m) \<and> fits (csm_content_url m) \<and> fits (csm_unlock_password m)"

record ServerContentShareMessage =
  scs_player_id :: u16
  scs_sharer_uuid :: bytes
  scs_sharer_display_name :: bytes
  scs_content_share_message :: ContentShareMessage
  scs_sharer_protected :: bool

definition ServerContentShareMessage_serialize :: "ServerContentShareMessage \<Rightarrow> writing" where
  "ServerContentShareMessage_serialize m = runW
     [okW (put_u16 (scs_player_id m)),
      put_string (scs_sharer_uuid m),
      put_string (scs_sharer_display_name m),
      ContentShareMessage_serialize (scs_content_share_message m),
      okW (put_bool (scs_sharer_protected m))]"

record ServerContentShareCleanupMessage =
  scc_player_id :: u16
  scc_content_share_cleanup_message :: ContentShareCleanupMessage

definition ServerContentShareCleanupMessage_serialize ::
  "ServerContentShareCleanupMessage \<Rightarrow> writing" where
  "ServerContentShareCleanupMessage_serialize m = runW
     [okW (put_u16 (scc_player_id m)),
      ContentShareCleanupMessage_serialize (scc_content_share_cleanup_message m)]"

record CameraPipStateMessage =
  cps_player_id :: u16
  cps_is_active :: bool
  cps_position_x :: u32
  cps_position_y :: u32
  cps_position_z :: u32
  cps_rotation_x :: u32
  cps_rotation_y :: u32
  cps_rotation_z :: u32
  cps_rotation_w :: u32

definition write_pip_transform :: "CameraPipStateMessage \<Rightarrow> writing list" where
  "write_pip_transform m =
     [okW (put_f32 (cps_position_x m)),
      okW (put_f32 (cps_position_y m)),
      okW (put_f32 (cps_position_z m)),
      okW (put_f32 (cps_rotation_x m)),
      okW (put_f32 (cps_rotation_y m)),
      okW (put_f32 (cps_rotation_z m)),
      okW (put_f32 (cps_rotation_w m))]"

definition read_pip_transform :: "CameraPipStateMessage \<Rightarrow> CameraPipStateMessage reading" where
  "read_pip_transform message =
     bindR get_f32 (\<lambda>position_x.
     bindR get_f32 (\<lambda>position_y.
     bindR get_f32 (\<lambda>position_z.
     bindR get_f32 (\<lambda>rotation_x.
     bindR get_f32 (\<lambda>rotation_y.
     bindR get_f32 (\<lambda>rotation_z.
     bindR get_f32 (\<lambda>rotation_w.
     retR (message\<lparr>cps_position_x := position_x, cps_position_y := position_y,
       cps_position_z := position_z, cps_rotation_x := rotation_x,
       cps_rotation_y := rotation_y, cps_rotation_z := rotation_z,
       cps_rotation_w := rotation_w\<rparr>))))))))"

definition CameraPipStateMessage_serialize :: "CameraPipStateMessage \<Rightarrow> writing" where
  "CameraPipStateMessage_serialize m = runW
     (okW (put_u16 (cps_player_id m)) #
      okW (put_bool (cps_is_active m)) #
      (if cps_is_active m then write_pip_transform m else []))"

definition CameraPipStateMessage_deserialize :: "CameraPipStateMessage reading" where
  "CameraPipStateMessage_deserialize =
     bindR get_u16 (\<lambda>player_id.
     bindR get_bool (\<lambda>is_active.
       let message = \<lparr>cps_player_id = player_id, cps_is_active = is_active,
         cps_position_x = f32_zero, cps_position_y = f32_zero, cps_position_z = f32_zero,
         cps_rotation_x = f32_zero, cps_rotation_y = f32_zero, cps_rotation_z = f32_zero,
         cps_rotation_w = f32_one\<rparr>
       in if is_active then read_pip_transform message else retR message))"

definition CameraPipStateMessage_wf :: "CameraPipStateMessage \<Rightarrow> bool" where
  "CameraPipStateMessage_wf m \<longleftrightarrow> (\<not> cps_is_active m \<longrightarrow>
     cps_position_x m = f32_zero \<and> cps_position_y m = f32_zero \<and> cps_position_z m = f32_zero \<and>
     cps_rotation_x m = f32_zero \<and> cps_rotation_y m = f32_zero \<and> cps_rotation_z m = f32_zero \<and>
     cps_rotation_w m = f32_one)"

record ClientCameraPipStateMessage =
  ccs_is_active :: bool
  ccs_position_x :: u32
  ccs_position_y :: u32
  ccs_position_z :: u32
  ccs_rotation_x :: u32
  ccs_rotation_y :: u32
  ccs_rotation_z :: u32
  ccs_rotation_w :: u32

definition ClientCameraPipStateMessage_deserialize :: "ClientCameraPipStateMessage reading" where
  "ClientCameraPipStateMessage_deserialize =
     bindR get_bool (\<lambda>is_active.
       let message = \<lparr>ccs_is_active = is_active,
         ccs_position_x = f32_zero, ccs_position_y = f32_zero, ccs_position_z = f32_zero,
         ccs_rotation_x = f32_zero, ccs_rotation_y = f32_zero, ccs_rotation_z = f32_zero,
         ccs_rotation_w = f32_one\<rparr>
       in if is_active then
         bindR get_f32 (\<lambda>position_x.
         bindR get_f32 (\<lambda>position_y.
         bindR get_f32 (\<lambda>position_z.
         bindR get_f32 (\<lambda>rotation_x.
         bindR get_f32 (\<lambda>rotation_y.
         bindR get_f32 (\<lambda>rotation_z.
         bindR get_f32 (\<lambda>rotation_w.
         retR (message\<lparr>ccs_position_x := position_x, ccs_position_y := position_y,
           ccs_position_z := position_z, ccs_rotation_x := rotation_x,
           ccs_rotation_y := rotation_y, ccs_rotation_z := rotation_z,
           ccs_rotation_w := rotation_w\<rparr>))))))))
       else retR message)"

record ServerLibraryMessage =
  slm_items :: "ServerLibraryItem list"

definition ServerLibraryMessage_serialize :: "ServerLibraryMessage \<Rightarrow> writing" where
  "ServerLibraryMessage_serialize m = runW
     (write_u16_count (length (slm_items m)) # map ServerLibraryItem_serialize (slm_items m))"

definition ServerLibraryMessage_deserialize :: "ServerLibraryMessage reading" where
  "ServerLibraryMessage_deserialize =
     bindR get_u16 (\<lambda>count.
     bindR (ensureR (\<lambda>rem. unat count > rem div 5) (unat count * 5)) (\<lambda>_.
     bindR (get_n (unat count) ServerLibraryItem_deserialize) (\<lambda>items.
     retR \<lparr>slm_items = items\<rparr>)))"

definition ServerLibraryMessage_wf :: "ServerLibraryMessage \<Rightarrow> bool" where
  "ServerLibraryMessage_wf m \<longleftrightarrow>
     length (slm_items m) < 65536 \<and> list_all ServerLibraryItem_wf (slm_items m)"

record BasisP2PSignalMessage =
  psm_other_player_id :: u16
  psm_session_token :: bytes
  psm_ephemeral_public_key :: "bytes option"

definition BasisP2PSignalMessage_serialize :: "BasisP2PSignalMessage \<Rightarrow> writing" where
  "BasisP2PSignalMessage_serialize m = runW
     (okW (put_u16 (psm_other_player_id m)) #
      put_string (psm_session_token m) #
      (case psm_ephemeral_public_key m of
         Some key \<Rightarrow> [okW (put_u8 1), okW (put_bytes key)]
       | None \<Rightarrow> [okW (put_u8 0)]))"

definition BasisP2PSignalMessage_deserialize :: "BasisP2PSignalMessage reading" where
  "BasisP2PSignalMessage_deserialize =
     bindR get_u16 (\<lambda>other_player_id.
     bindR get_string (\<lambda>session_token.
     bindR get_u8 (\<lambda>has_key.
     if has_key = 1 then
       bindR (get_bytes 32) (\<lambda>key.
       retR \<lparr>psm_other_player_id = other_player_id, psm_session_token = session_token,
             psm_ephemeral_public_key = Some key\<rparr>)
     else
       retR \<lparr>psm_other_player_id = other_player_id, psm_session_token = session_token,
             psm_ephemeral_public_key = None\<rparr>)))"

text \<open>The key is a \<open>[u8; 32]\<close>, so its length is part of the Rust type.\<close>

definition BasisP2PSignalMessage_wf :: "BasisP2PSignalMessage \<Rightarrow> bool" where
  "BasisP2PSignalMessage_wf m \<longleftrightarrow> fits (psm_session_token m) \<and>
     (\<forall>key. psm_ephemeral_public_key m = Some key \<longrightarrow> length key = 32)"

section \<open>Every message meets its contract\<close>

lemma codes_count [codec_rules]: "n < 65536 \<Longrightarrow> codes (write_u16_count n) get_u16 (of_nat n)"
  using codes_prims(4)[of "of_nat n"] by (simp add: write_u16_count_def)

text \<open>Recipient lists and subscriptions are counted fields of \<open>u16\<close> items.\<close>

interpretation u16_item: item_codec "\<lambda>i. okW (put_u16 i)" get_u16 "\<lambda>_. True" 2
  by unfold_locales (auto intro!: codec_rules reader_safe reader_trunc consumes_u16)

lemma list_all_set: "list_all P xs \<Longrightarrow> x \<in> set xs \<Longrightarrow> P x"
  by (simp add: list_all_iff)

interpretation BasisMessageSupply_codec:
  wire_codec BasisMessageSupply_serialize BasisMessageSupply_deserialize BasisMessageSupply_wf
proof
  fix m assume "BasisMessageSupply_wf m"
  then show "codes (BasisMessageSupply_serialize m) BasisMessageSupply_deserialize m"
    unfolding BasisMessageSupply_serialize_def BasisMessageSupply_deserialize_def BasisMessageSupply_wf_def
    by (auto simp: unat_of_nat_u16 dest: list_all_set
        intro!: codes_step[OF codes_count] BasisMessageDescriptor_codec.guarded_batch BasisMessageSupply.equality)
qed (auto simp: BasisMessageSupply_deserialize_def
    intro!: reader_safe reader_trunc BasisMessageDescriptor_codec.des_safe BasisMessageDescriptor_codec.des_trunc)

interpretation BasisMessageSubscribe_codec:
  wire_codec BasisMessageSubscribe_serialize BasisMessageSubscribe_deserialize BasisMessageSubscribe_wf
proof
  fix m assume "BasisMessageSubscribe_wf m"
  then show "codes (BasisMessageSubscribe_serialize m) BasisMessageSubscribe_deserialize m"
    unfolding BasisMessageSubscribe_serialize_def BasisMessageSubscribe_deserialize_def BasisMessageSubscribe_wf_def
    by (auto simp: unat_of_nat_u16
        intro!: codes_step[OF codes_count] u16_item.guarded_batch BasisMessageSubscribe.equality)
qed (auto simp: BasisMessageSubscribe_deserialize_def intro!: reader_safe reader_trunc)

interpretation ServerLibraryMessage_codec:
  wire_codec ServerLibraryMessage_serialize ServerLibraryMessage_deserialize ServerLibraryMessage_wf
proof
  fix m assume "ServerLibraryMessage_wf m"
  then show "codes (ServerLibraryMessage_serialize m) ServerLibraryMessage_deserialize m"
    unfolding ServerLibraryMessage_serialize_def ServerLibraryMessage_deserialize_def ServerLibraryMessage_wf_def
    by (auto simp: unat_of_nat_u16 dest: list_all_set
        intro!: codes_step[OF codes_count] ServerLibraryItem_codec.guarded_batch ServerLibraryMessage.equality)
qed (auto simp: ServerLibraryMessage_deserialize_def
    intro!: reader_safe reader_trunc ServerLibraryItem_codec.des_safe ServerLibraryItem_codec.des_trunc)

lemmas counted_rest_steps = codes_rest_step[OF codes_prims(1)] codes_rest_step[OF codes_prims(4)]
  codes_rest_step[OF codes_count]

interpretation AvatarDataMessage_codec:
  rest_codec AvatarDataMessage_serialize AvatarDataMessage_deserialize AvatarDataMessage_wf
proof
  fix m assume "AvatarDataMessage_wf m"
  then show "codes_rest (AvatarDataMessage_serialize m) AvatarDataMessage_deserialize m"
    unfolding AvatarDataMessage_serialize_def AvatarDataMessage_deserialize_def AvatarDataMessage_wf_def
    by (auto simp: unat_of_nat_u16 intro!: counted_rest_steps u16_item.guarded_batch_then_rest
        AvatarDataMessage.equality)
qed (auto simp: AvatarDataMessage_deserialize_def intro!: reader_safe)

interpretation SceneDataMessage_codec:
  rest_codec SceneDataMessage_serialize SceneDataMessage_deserialize SceneDataMessage_wf
proof
  fix m assume "SceneDataMessage_wf m"
  then show "codes_rest (SceneDataMessage_serialize m) SceneDataMessage_deserialize m"
    unfolding SceneDataMessage_serialize_def SceneDataMessage_deserialize_def SceneDataMessage_wf_def
    by (auto simp: unat_of_nat_u16 intro!: counted_rest_steps u16_item.guarded_batch_then_rest
        SceneDataMessage.equality)
qed (auto simp: SceneDataMessage_deserialize_def intro!: reader_safe)

interpretation LocalLoadResource_codec:
  wire_codec LocalLoadResource_serialize LocalLoadResource_deserialize LocalLoadResource_wf
  by unfold_locales
    (auto simp: LocalLoadResource_serialize_def LocalLoadResource_deserialize_def
      LocalLoadResource_wf_def Let_def intro!: LocalLoadResource.equality codec_rules reader_safe reader_trunc)

lemma ContentShareType_from_as_u8 [simp]: "ContentShareType_from (ContentShareType_as_u8 t) = t"
  by (cases t) (simp_all add: ContentShareType_from_def)

interpretation ContentShareMessage_codec:
  wire_codec ContentShareMessage_serialize ContentShareMessage_deserialize ContentShareMessage_wf
  by unfold_locales
    (auto simp: ContentShareMessage_serialize_def ContentShareMessage_deserialize_def
      ContentShareMessage_wf_def intro!: ContentShareMessage.equality codec_rules reader_safe reader_trunc)

interpretation CameraPipStateMessage_codec:
  wire_codec CameraPipStateMessage_serialize CameraPipStateMessage_deserialize CameraPipStateMessage_wf
  by unfold_locales
    (auto simp: CameraPipStateMessage_serialize_def CameraPipStateMessage_deserialize_def
      CameraPipStateMessage_wf_def write_pip_transform_def read_pip_transform_def Let_def
      intro!: CameraPipStateMessage.equality codec_rules reader_safe reader_trunc)

lemma ClientCameraPipStateMessage_deserialize_safe: "cursor_safe ClientCameraPipStateMessage_deserialize"
  by (auto simp: ClientCameraPipStateMessage_deserialize_def Let_def intro!: reader_safe)

lemma VoiceReceiversMessage_deserialize_safe: "cursor_safe (VoiceReceiversMessage_deserialize large)"
  by (auto simp: VoiceReceiversMessage_deserialize_def intro!: reader_safe)

interpretation BasisP2PSignalMessage_codec:
  wire_codec BasisP2PSignalMessage_serialize BasisP2PSignalMessage_deserialize BasisP2PSignalMessage_wf
proof
  fix m assume wf: "BasisP2PSignalMessage_wf m"
  show "codes (BasisP2PSignalMessage_serialize m) BasisP2PSignalMessage_deserialize m"
  proof (cases "psm_ephemeral_public_key m")
    case None
    with wf show ?thesis
      unfolding BasisP2PSignalMessage_serialize_def BasisP2PSignalMessage_deserialize_def BasisP2PSignalMessage_wf_def
      by (auto intro!: BasisP2PSignalMessage.equality codec_rules)
  next
    case (Some key)
    with wf have "codes (okW (put_bytes key)) (get_bytes 32) key"
      by (intro codes_bytes) (simp add: BasisP2PSignalMessage_wf_def)
    with wf Some show ?thesis
      unfolding BasisP2PSignalMessage_serialize_def BasisP2PSignalMessage_deserialize_def BasisP2PSignalMessage_wf_def
      by (auto intro!: BasisP2PSignalMessage.equality codec_rules)
  qed
qed (auto simp: BasisP2PSignalMessage_deserialize_def intro!: reader_safe reader_trunc)

end
