(* ===== verification/MessagesAvatar.thy ===== *)
theory MessagesAvatar
  imports MessagesCompound
begin

text \<open>
  The avatar synchronisation messages of \<open>basis-protocol/src/messages.rs\<close> together with the
  quality levels of \<open>basis-protocol/src/avatar.rs\<close> that fix the pose length.
\<close>

section \<open>Quality levels\<close>

datatype BitQuality = VeryLow | Low | Medium | High

fun BitQuality_as_u8 :: "BitQuality \<Rightarrow> u8" where
  "BitQuality_as_u8 VeryLow = 0"
| "BitQuality_as_u8 Low = 1"
| "BitQuality_as_u8 Medium = 2"
| "BitQuality_as_u8 High = 3"

fun payload_len :: "BitQuality \<Rightarrow> nat" where
  "payload_len VeryLow = 74"
| "payload_len Low = 83"
| "payload_len Medium = 97"
| "payload_len High = 159"

fun rotation_len :: "BitQuality \<Rightarrow> nat" where
  "rotation_len VeryLow = 44"
| "rotation_len Low = 53"
| "rotation_len Medium = 67"
| "rotation_len High = 94"

section \<open>Structs and trait implementations\<close>

record AdditionalAvatarData =
  aad_message_index :: u8
  aad_data :: bytes

definition AdditionalAvatarData_serialize :: "AdditionalAvatarData \<Rightarrow> writing" where
  "AdditionalAvatarData_serialize m =
     (if length (aad_data m) \<le> 255 then runW
        (okW (put_u8 (of_nat (length (aad_data m)))) #
         (if length (aad_data m) > 0 then
            [okW (put_u8 (aad_message_index m)), okW (put_bytes (aad_data m))]
          else []))
      else failW (LengthOverflow (length (aad_data m)) 255))"

definition AdditionalAvatarData_deserialize :: "AdditionalAvatarData reading" where
  "AdditionalAvatarData_deserialize =
     bindR get_u8 (\<lambda>len.
     if unat len = 0 then retR \<lparr>aad_message_index = 0, aad_data = []\<rparr>
     else
       bindR get_u8 (\<lambda>message_index.
       bindR (get_bytes (unat len)) (\<lambda>data.
       retR \<lparr>aad_message_index = message_index, aad_data = data\<rparr>)))"

text \<open>An empty record does not carry its message index.\<close>

definition AdditionalAvatarData_wf :: "AdditionalAvatarData \<Rightarrow> bool" where
  "AdditionalAvatarData_wf m \<longleftrightarrow>
     length (aad_data m) \<le> 255 \<and> (aad_data m = [] \<longrightarrow> aad_message_index m = 0)"

record LocalAvatarSyncMessage =
  las_data_quality_level :: u8
  las_array :: bytes
  las_additional_avatar_datas :: "AdditionalAvatarData list"
  las_linked_avatar_index :: u8

definition LocalAvatarSyncMessage_empty_high :: LocalAvatarSyncMessage where
  "LocalAvatarSyncMessage_empty_high =
     \<lparr>las_data_quality_level = BitQuality_as_u8 High,
      las_array = replicate (payload_len High) 0,
      las_additional_avatar_datas = [],
      las_linked_avatar_index = 0\<rparr>"

definition u8_count :: "nat \<Rightarrow> writing" where
  "u8_count count =
     (if count \<le> 255 then okW (put_u8 (of_nat count)) else failW (LengthOverflow count 255))"

definition LocalAvatarSyncMessage_serialize_for_channel ::
  "LocalAvatarSyncMessage \<Rightarrow> bool \<Rightarrow> writing" where
  "LocalAvatarSyncMessage_serialize_for_channel m has_additional_data = runW
     (okW (put_bytes (las_array m)) #
      (if has_additional_data then
         u8_count (length (las_additional_avatar_datas m)) #
         okW (put_u8 (las_linked_avatar_index m)) #
         map AdditionalAvatarData_serialize (las_additional_avatar_datas m)
       else []))"

definition LocalAvatarSyncMessage_serialize :: "LocalAvatarSyncMessage \<Rightarrow> writing" where
  "LocalAvatarSyncMessage_serialize m = runW
     (okW (put_u8 (las_data_quality_level m)) #
      okW (put_bytes (las_array m)) #
      u8_count (length (las_additional_avatar_datas m)) #
      (if las_additional_avatar_datas m \<noteq> [] then
         okW (put_u8 (las_linked_avatar_index m)) #
         map AdditionalAvatarData_serialize (las_additional_avatar_datas m)
       else []))"

definition quality_payload_len :: "u8 \<Rightarrow> nat" where
  "quality_payload_len data_quality_level =
     (if data_quality_level = 0 then payload_len VeryLow
      else if data_quality_level = 1 then payload_len Low
      else if data_quality_level = 2 then payload_len Medium
      else payload_len High)"

definition LocalAvatarSyncMessage_deserialize :: "LocalAvatarSyncMessage reading" where
  "LocalAvatarSyncMessage_deserialize =
     bindR get_u8 (\<lambda>data_quality_level.
     bindR (get_bytes (quality_payload_len data_quality_level)) (\<lambda>array.
     bindR get_u8 (\<lambda>count.
     let minimum_bytes = unat count + (if unat count > 0 then 1 else 0) in
     bindR (ensureR (\<lambda>rem. minimum_bytes > rem) minimum_bytes) (\<lambda>_.
     bindR (if unat count > 0 then get_u8 else retR 0) (\<lambda>linked_avatar_index.
     bindR (get_n (unat count) AdditionalAvatarData_deserialize) (\<lambda>additional_avatar_datas.
     retR \<lparr>las_data_quality_level = data_quality_level, las_array = array,
           las_additional_avatar_datas = additional_avatar_datas,
           las_linked_avatar_index = linked_avatar_index\<rparr>))))))"

definition LocalAvatarSyncMessage_wf :: "LocalAvatarSyncMessage \<Rightarrow> bool" where
  "LocalAvatarSyncMessage_wf m \<longleftrightarrow>
     length (las_array m) = quality_payload_len (las_data_quality_level m) \<and>
     length (las_additional_avatar_datas m) \<le> 255 \<and>
     list_all AdditionalAvatarData_wf (las_additional_avatar_datas m) \<and>
     (las_additional_avatar_datas m = [] \<longrightarrow> las_linked_avatar_index m = 0)"

record ServerSideSyncPlayerMessage =
  sss_player_id :: u16
  sss_interval :: u8
  sss_sequence :: u8
  sss_avatar_serialization :: LocalAvatarSyncMessage

definition ServerSideSyncPlayerMessage_serialize :: "ServerSideSyncPlayerMessage \<Rightarrow> writing" where
  "ServerSideSyncPlayerMessage_serialize m = runW
     [okW (put_u16 (sss_player_id m)),
      okW (put_u8 (sss_interval m)),
      okW (put_u8 (sss_sequence m)),
      LocalAvatarSyncMessage_serialize (sss_avatar_serialization m)]"

definition ServerSideSyncPlayerMessage_deserialize :: "ServerSideSyncPlayerMessage reading" where
  "ServerSideSyncPlayerMessage_deserialize =
     bindR get_u16 (\<lambda>player_id.
     bindR get_u8 (\<lambda>interval.
     bindR get_u8 (\<lambda>sequence.
     bindR LocalAvatarSyncMessage_deserialize (\<lambda>avatar_serialization.
     retR \<lparr>sss_player_id = player_id, sss_interval = interval, sss_sequence = sequence,
           sss_avatar_serialization = avatar_serialization\<rparr>))))"

definition ServerSideSyncPlayerMessage_wf :: "ServerSideSyncPlayerMessage \<Rightarrow> bool" where
  "ServerSideSyncPlayerMessage_wf m \<longleftrightarrow> LocalAvatarSyncMessage_wf (sss_avatar_serialization m)"

section \<open>Every message meets its contract\<close>

interpretation AdditionalAvatarData_codec:
  item_codec AdditionalAvatarData_serialize AdditionalAvatarData_deserialize AdditionalAvatarData_wf 1
proof
  fix m assume wf: "AdditionalAvatarData_wf m"
  show "codes (AdditionalAvatarData_serialize m) AdditionalAvatarData_deserialize m"
  proof (cases "aad_data m = []")
    case True
    with wf show ?thesis
      unfolding AdditionalAvatarData_serialize_def AdditionalAvatarData_deserialize_def AdditionalAvatarData_wf_def
      by (auto intro!: AdditionalAvatarData.equality codec_rules)
  next
    case False
    with wf have "unat (of_nat (length (aad_data m)) :: u8) = length (aad_data m)"
      by (intro unat_of_nat_u8) (simp add: AdditionalAvatarData_wf_def)
    with wf False show ?thesis
      unfolding AdditionalAvatarData_serialize_def AdditionalAvatarData_deserialize_def AdditionalAvatarData_wf_def
      by (auto intro!: AdditionalAvatarData.equality codes_step[OF codes_prims(1)]
          codes_step[OF codes_bytes] codec_rules)
  qed
next
  have "consumes 0 (if unat (len :: u8) = 0 then retR \<lparr>aad_message_index = 0, aad_data = []\<rparr>
     else bindR get_u8 (\<lambda>message_index. bindR (get_bytes (unat len)) (\<lambda>data.
       retR \<lparr>aad_message_index = message_index, aad_data = data\<rparr>)))" for len
    by (auto simp: get_bytes_def intro!: consumes_ret
        consumes_weaken[OF consumes_bind[OF consumes_u8 consumes_bind[OF consumes_take consumes_ret]]])
  from consumes_bind[OF consumes_u8 this] show "consumes 1 AdditionalAvatarData_deserialize"
    by (simp add: AdditionalAvatarData_deserialize_def)
qed (auto simp: AdditionalAvatarData_deserialize_def intro!: reader_safe reader_trunc)

lemma codes_u8_count [codec_rules]: "n \<le> 255 \<Longrightarrow> codes (u8_count n) get_u8 (of_nat n)"
  using codes_prims(1)[of "of_nat n"] by (simp add: u8_count_def)

lemma LocalAvatarSyncMessage_tail:
  assumes "LocalAvatarSyncMessage_wf m" and "las_additional_avatar_datas m \<noteq> []"
  shows "codes (runW (okW (put_u8 (las_linked_avatar_index m)) #
       map AdditionalAvatarData_serialize (las_additional_avatar_datas m)))
     (bindR get_u8 (\<lambda>l. bindR (get_n (length (las_additional_avatar_datas m)) AdditionalAvatarData_deserialize)
       (\<lambda>xs. retR (m\<lparr>las_linked_avatar_index := l, las_additional_avatar_datas := xs\<rparr>)))) m"
proof (rule codes_step[OF codes_prims(1)])
  have "codes (runW (map AdditionalAvatarData_serialize (las_additional_avatar_datas m) @ []))
     (bindR (get_n (length (las_additional_avatar_datas m)) AdditionalAvatarData_deserialize)
       (\<lambda>xs. retR (m\<lparr>las_linked_avatar_index := las_linked_avatar_index m, las_additional_avatar_datas := xs\<rparr>))) m"
    by (rule codes_items_step)
      (use assms in \<open>auto simp: LocalAvatarSyncMessage_wf_def list_all_iff
        intro!: AdditionalAvatarData_codec.codec codes_done\<close>)
  then show "codes (runW (map AdditionalAvatarData_serialize (las_additional_avatar_datas m)))
     (bindR (get_n (length (las_additional_avatar_datas m)) AdditionalAvatarData_deserialize)
       (\<lambda>xs. retR (m\<lparr>las_linked_avatar_index := las_linked_avatar_index m, las_additional_avatar_datas := xs\<rparr>))) m"
    by simp
qed

interpretation LocalAvatarSyncMessage_codec:
  wire_codec LocalAvatarSyncMessage_serialize LocalAvatarSyncMessage_deserialize LocalAvatarSyncMessage_wf
proof
  fix m assume wf: "LocalAvatarSyncMessage_wf m"
  let ?n = "length (las_additional_avatar_datas m)"
  have n: "unat (of_nat ?n :: u8) = ?n"
    using wf by (intro unat_of_nat_u8) (simp add: LocalAvatarSyncMessage_wf_def)
  have arr: "codes (okW (put_bytes (las_array m))) (get_bytes (quality_payload_len (las_data_quality_level m))) (las_array m)"
    using wf by (intro codes_bytes) (simp add: LocalAvatarSyncMessage_wf_def)
  have cnt: "codes (u8_count ?n) get_u8 (of_nat ?n)"
    using wf by (intro codes_u8_count) (simp add: LocalAvatarSyncMessage_wf_def)
  show "codes (LocalAvatarSyncMessage_serialize m) LocalAvatarSyncMessage_deserialize m"
  proof (cases "las_additional_avatar_datas m = []")
    case True
    have ret: "bindR (retR 0) f = f 0" for f :: "u8 \<Rightarrow> LocalAvatarSyncMessage reading"
      by (rule ext) (simp add: bindR_def retR_def)
    have ret': "bindR (retR []) f = f []" for f :: "AdditionalAvatarData list \<Rightarrow> LocalAvatarSyncMessage reading"
      by (rule ext) (simp add: bindR_def retR_def)
    have ens: "bindR (ensureR (\<lambda>rem. False) 0) f = f ()" for f :: "unit \<Rightarrow> LocalAvatarSyncMessage reading"
      by (rule ext) (simp add: bindR_def ensureR_def)
    show ?thesis
      unfolding LocalAvatarSyncMessage_serialize_def LocalAvatarSyncMessage_deserialize_def
      by (intro codes_step[OF codes_prims(1)] codes_step[OF arr] codes_step[OF cnt])
        (use True wf in \<open>auto simp: ret ret' ens LocalAvatarSyncMessage_wf_def
          intro!: codes_done LocalAvatarSyncMessage.equality\<close>)
  next
    case False
    have k: "consumes (1 + (1 * ?n + 0)) (bindR get_u8 (\<lambda>l. bindR (get_n ?n AdditionalAvatarData_deserialize)
       (\<lambda>xs. retR (m\<lparr>las_linked_avatar_index := l, las_additional_avatar_datas := xs\<rparr>))))"
      by (intro consumes_bind consumes_u8 consumes_ret consumes_get_n AdditionalAvatarData_codec.min_len)
    have rec: "\<lparr>las_data_quality_level = las_data_quality_level m, las_array = las_array m,
        las_additional_avatar_datas = xs, las_linked_avatar_index = l\<rparr> =
        m\<lparr>las_linked_avatar_index := l, las_additional_avatar_datas := xs\<rparr>" for xs l
      by (cases m) simp
    have "codes (runW (okW (put_u8 (las_linked_avatar_index m)) #
         map AdditionalAvatarData_serialize (las_additional_avatar_datas m)))
       (bindR (ensureR (\<lambda>rem. ?n + 1 > rem) (?n + 1)) (\<lambda>_. bindR get_u8 (\<lambda>l. bindR (get_n ?n AdditionalAvatarData_deserialize)
       (\<lambda>xs. retR (m\<lparr>las_linked_avatar_index := l, las_additional_avatar_datas := xs\<rparr>))))) m"
      by (rule codes_ensure[OF LocalAvatarSyncMessage_tail[OF wf False] k]) simp
    then show ?thesis
      unfolding LocalAvatarSyncMessage_serialize_def LocalAvatarSyncMessage_deserialize_def
      by (intro codes_step[OF codes_prims(1)] codes_step[OF arr] codes_step[OF cnt])
        (use False n in \<open>simp add: rec Let_def\<close>)
  qed
qed (auto simp: LocalAvatarSyncMessage_deserialize_def Let_def intro!: reader_safe reader_trunc
    AdditionalAvatarData_codec.des_safe AdditionalAvatarData_codec.des_trunc)

interpretation ServerSideSyncPlayerMessage_codec:
  wire_codec ServerSideSyncPlayerMessage_serialize ServerSideSyncPlayerMessage_deserialize ServerSideSyncPlayerMessage_wf
  by unfold_locales
    (auto simp: ServerSideSyncPlayerMessage_serialize_def ServerSideSyncPlayerMessage_deserialize_def
      ServerSideSyncPlayerMessage_wf_def
      intro!: ServerSideSyncPlayerMessage.equality codec_rules reader_safe reader_trunc
      LocalAvatarSyncMessage_codec.codec LocalAvatarSyncMessage_codec.des_safe
      LocalAvatarSyncMessage_codec.des_trunc)

end
