(* ===== verification/WireProperties.thy ===== *)
theory WireProperties
  imports MessagesAvatar
begin

text \<open>
  The properties of the wire protocol, read off the codec contracts that every message meets
  (the interpretations of \<open>wire_codec\<close> and \<open>rest_codec\<close>): what a peer decodes is what the other
  side encoded, encodings are self-delimiting, a cut-off packet is rejected as an underflow, and no
  decoder leaves its buffer on hostile input.
\<close>

section \<open>Avatar synchronisation\<close>

text \<open>
  An avatar synchronisation message whose pose array has the length its quality
  level prescribes serializes without an error, and deserializing the bytes, whatever follows them
  in the packet, gives the message back with the cursor right behind it. This covers the optional
  tail: the linked avatar index and the counted list of additional data blobs.
\<close>

theorem avatar_sync_roundtrip:
  assumes "LocalAvatarSyncMessage_wf m"
  shows "\<exists>bs. LocalAvatarSyncMessage_serialize m writer_new = (Inr (), \<lparr>wdata = bs\<rparr>) \<and>
    (\<forall>rest. LocalAvatarSyncMessage_deserialize (reader_new (bs @ rest)) =
      (Inr m, \<lparr>rdata = bs @ rest, rpos = length bs\<rparr>))"
  using assms by (rule LocalAvatarSyncMessage_codec.roundtrip)

definition blob_message :: LocalAvatarSyncMessage where
  "blob_message = LocalAvatarSyncMessage_empty_high\<lparr>
     las_additional_avatar_datas := [\<lparr>aad_message_index = 7, aad_data = [1, 2, 3]\<rparr>],
     las_linked_avatar_index := 4\<rparr>"

theorem avatar_sync_roundtrip_witness:
  "\<exists>bs. LocalAvatarSyncMessage_serialize blob_message writer_new = (Inr (), \<lparr>wdata = bs\<rparr>) \<and>
    (\<forall>rest. LocalAvatarSyncMessage_deserialize (reader_new (bs @ rest)) =
      (Inr blob_message, \<lparr>rdata = bs @ rest, rpos = length bs\<rparr>))"
  by (rule avatar_sync_roundtrip)
    (simp add: blob_message_def LocalAvatarSyncMessage_wf_def LocalAvatarSyncMessage_empty_high_def
      quality_payload_len_def AdditionalAvatarData_wf_def)

text \<open>
  On any received bytes at all, decoding the server's per-player avatar update leaves
  the buffer alone and keeps the cursor inside it, whether it succeeds or fails: no length field of
  the packet can drive a read past the end.
\<close>

theorem server_side_sync_decoder_in_bounds:
  "let r' = snd (ServerSideSyncPlayerMessage_deserialize (reader_new bytes)) in
    rdata r' = bytes \<and> rpos r' \<le> length bytes"
  by (rule cursor_safe_new) (rule ServerSideSyncPlayerMessage_codec.des_safe)

section \<open>Registry, resources, signalling, scene data\<close>

text \<open>
  The message registry is self-delimiting: two well-formed registries, one of whose
  encodings extends the other, are equal, so no encoding is a proper prefix of another. The
  allocation guard on the announced count never rejects a genuine registry.
\<close>

theorem message_supply_prefix_free:
  assumes "BasisMessageSupply_wf m" and "BasisMessageSupply_wf m'"
    and "BasisMessageSupply_serialize m writer_new = (Inr (), \<lparr>wdata = bs\<rparr>)"
    and "BasisMessageSupply_serialize m' writer_new = (Inr (), \<lparr>wdata = bs @ cs\<rparr>)"
  shows "m = m' \<and> cs = [] \<and> fst (BasisMessageSupply_deserialize (reader_new bs)) = Inr m"
  using BasisMessageSupply_codec.prefix_free[OF assms]
    BasisMessageSupply_codec.roundtrip_at[OF assms(1,3), of "[]"] by simp

theorem message_supply_prefix_free_witness:
  "(\<lparr>bms_descriptors = []\<rparr> :: BasisMessageSupply) = \<lparr>bms_descriptors = []\<rparr> \<and> ([] :: bytes) = [] \<and>
    fst (BasisMessageSupply_deserialize (reader_new [0, 0])) = Inr \<lparr>bms_descriptors = []\<rparr>"
  by (rule message_supply_prefix_free)
    (simp_all add: BasisMessageSupply_wf_def BasisMessageSupply_serialize_def runW.simps
      write_u16_count_def okW_def put_u16_def writer_new_def to_le_2)

text \<open>
  A request to load a resource survives the wire, with and without the ten
  transform components that only mode 0 carries.
\<close>

theorem load_resource_roundtrip:
  assumes "LocalLoadResource_wf m"
  shows "\<exists>bs. LocalLoadResource_serialize m writer_new = (Inr (), \<lparr>wdata = bs\<rparr>) \<and>
    (\<forall>rest. LocalLoadResource_deserialize (reader_new (bs @ rest)) =
      (Inr m, \<lparr>rdata = bs @ rest, rpos = length bs\<rparr>))"
  using assms by (rule LocalLoadResource_codec.roundtrip)

definition load_request :: "u8 \<Rightarrow> u32 \<Rightarrow> LocalLoadResource" where
  "load_request mode x =
     \<lparr>llr_mode = mode, llr_loaded_net_id = str_lit ''id'', llr_unlock_password = [],
      llr_combined_url = str_lit ''https://a'', llr_uuid_of_creator = str_lit ''u'',
      llr_is_admin_locked = True,
      llr_position_x = x, llr_position_y = f32_zero, llr_position_z = f32_zero,
      llr_quaternion_x = f32_zero, llr_quaternion_y = f32_zero,
      llr_quaternion_z = f32_zero, llr_quaternion_w = f32_one,
      llr_scale_x = f32_one, llr_scale_y = f32_one, llr_scale_z = f32_one,
      llr_persist = False, llr_static_resource = True,
      llr_static_admin_locked = False, llr_modify_scale = True, llr_load_strategy = 1\<rparr>"

theorem load_resource_roundtrip_witness:
  "\<exists>bs. LocalLoadResource_serialize (load_request 0 f32_one) writer_new = (Inr (), \<lparr>wdata = bs\<rparr>) \<and>
    (\<forall>rest. LocalLoadResource_deserialize (reader_new (bs @ rest)) =
      (Inr (load_request 0 f32_one), \<lparr>rdata = bs @ rest, rpos = length bs\<rparr>))"
  by (rule load_resource_roundtrip)
    (auto simp: load_request_def LocalLoadResource_wf_def fits_def str_lit_def of_char_def
      intro!: utf8_valid_ascii)

text \<open>
  Cutting the encoding of a peer-to-peer signalling message anywhere makes the decoder
  report an underflow; it never yields a shortened token or a message without its key.
\<close>

theorem p2p_signal_truncated:
  assumes "BasisP2PSignalMessage_wf m"
    and "BasisP2PSignalMessage_serialize m writer_new = (Inr (), \<lparr>wdata = bs\<rparr>)" and "k < length bs"
  shows "\<exists>needed remaining. fst (BasisP2PSignalMessage_deserialize (reader_new (take k bs))) =
    Inl (Underflow needed remaining)"
  using BasisP2PSignalMessage_codec.truncated[OF assms] by (simp add: underflows_def)

theorem p2p_signal_truncated_witness:
  "\<exists>needed remaining. fst (BasisP2PSignalMessage_deserialize (reader_new (take 4 [9, 0, 2, 0, 0x61, 0]))) =
    Inl (Underflow needed remaining)"
  by (rule p2p_signal_truncated[of "\<lparr>psm_other_player_id = 9, psm_session_token = [0x61],
        psm_ephemeral_public_key = None\<rparr>"])
    (simp_all add: BasisP2PSignalMessage_wf_def fits_def BasisP2PSignalMessage_serialize_def runW.simps
      put_string_def okW_def put_u16_def put_u8_def put_bytes_def writer_new_def to_le_2)

text \<open>
  A scene data message with its counted recipients and its payload, which runs to
  the end of the packet, is decoded as it was encoded.
\<close>

theorem scene_data_roundtrip:
  assumes "SceneDataMessage_wf m"
  shows "\<exists>bs. SceneDataMessage_serialize m writer_new = (Inr (), \<lparr>wdata = bs\<rparr>) \<and>
    fst (SceneDataMessage_deserialize (reader_new bs)) = Inr m"
  using assms by (rule SceneDataMessage_codec.rest_roundtrip)

theorem scene_data_roundtrip_witness:
  "\<exists>bs. SceneDataMessage_serialize
      \<lparr>sdm_message_index = 300, sdm_recipients = [1, 2], sdm_payload = [5, 6, 7]\<rparr> writer_new =
      (Inr (), \<lparr>wdata = bs\<rparr>) \<and>
    fst (SceneDataMessage_deserialize (reader_new bs)) =
      Inr \<lparr>sdm_message_index = 300, sdm_recipients = [1, 2], sdm_payload = [5, 6, 7]\<rparr>"
  by (rule scene_data_roundtrip) (simp add: SceneDataMessage_wf_def)

section \<open>Strings, chat and network identifiers\<close>

text \<open>
  A string of more than 65534 bytes is refused and the writer is left exactly as it
  was, so a failing call never leaves half a field in a packet; any shorter string is appended behind
  a two-byte length.
\<close>

theorem put_string_all_or_nothing:
  "put_string s w =
    (if length s \<le> 65534
     then (Inr (), w\<lparr>wdata := wdata w @ to_le 2 (if s = [] then 0 else of_nat (length s + 1) :: u16) @ s\<rparr>)
     else (Inl (LengthOverflow (length s) 65534), w))"
  by (cases "s = []") (simp_all add: put_string_def runW.simps okW_def failW_def put_u16_def put_bytes_def)

text \<open>
  A chat message of any length is delivered as its first 512 bytes: the encoder
  truncates, the length field agrees with what follows it, and the decoder returns the truncation.
\<close>

theorem chat_truncates_to_512:
  "\<exists>bs. ChatMessage_serialize m writer_new = (Inr (), \<lparr>wdata = bs\<rparr>) \<and> length bs \<le> 514 \<and>
    fst (ChatMessage_deserialize (reader_new (bs @ rest))) = Inr \<lparr>cm_payload = take 512 (cm_payload m)\<rparr>"
proof -
  let ?n = "min (length (cm_payload m)) 512"
  have n: "unat (of_nat ?n :: u16) = ?n" by (rule unat_of_nat_u16) simp
  have "codes (okW (put_bytes (take ?n (cm_payload m)))) (get_bytes (min (unat (of_nat ?n :: u16)) 512))
      (take 512 (cm_payload m))"
    unfolding n using codes_bytes[of ?n "take 512 (cm_payload m)"]
    by (cases "length (cm_payload m) \<le> 512") auto
  then have "codes (ChatMessage_serialize m) ChatMessage_deserialize \<lparr>cm_payload = take 512 (cm_payload m)\<rparr>"
    unfolding ChatMessage_serialize_def ChatMessage_deserialize_def Let_def
    by (intro codes_step[OF codes_prims(4)] codes_step) (auto intro: codes_done)
  then obtain bs where "writes (ChatMessage_serialize m) bs"
    "reads ChatMessage_deserialize bs \<lparr>cm_payload = take 512 (cm_payload m)\<rparr>" by (rule codesE)
  then have bs: "ChatMessage_serialize m writer_new = (Inr (), \<lparr>wdata = bs\<rparr>)"
    "fst (ChatMessage_deserialize (reader_new (bs @ rest))) = Inr \<lparr>cm_payload = take 512 (cm_payload m)\<rparr>"
    by (simp_all add: writes_new reads_new)
  have "length bs \<le> 514"
    using bs(1) by (auto simp: ChatMessage_serialize_def Let_def runW.simps okW_def put_u16_def put_bytes_def
        writer_new_def)
  with bs show ?thesis by blast
qed

text \<open>
  C40. The network-identifier announcement is not self-delimiting for an empty identifier:
  the writer then emits only the two bytes of the number, and the reader takes them for the length
  of a string and always fails, whatever the number is.
\<close>

theorem empty_net_id_is_undecodable:
  "\<exists>bs needed remaining.
    ServerNetIdMessage_serialize
      \<lparr>snm_net_id_message = \<lparr>nim_player_id = []\<rparr>, snm_ushort_unique_id_message = u\<rparr> writer_new =
      (Inr (), \<lparr>wdata = bs\<rparr>) \<and>
    fst (ServerNetIdMessage_deserialize (reader_new bs)) = Inl (Underflow needed remaining)"
proof -
  let ?u = "uum_unique_id_ushort u" and ?r = "\<lparr>rdata = to_le 2 (uum_unique_id_ushort u), rpos = 2\<rparr>"
  have "get_u16 (reader_new (to_le 2 ?u)) = (Inr ?u, ?r)"
    using reads_new[OF reads_gets(4), of ?u "[]"] by simp
  then have s: "get_string (reader_new (to_le 2 ?u)) =
      (if unat ?u \<le> 1 then (Inr [], ?r) else (Inl (Underflow (unat ?u - 1) 0), ?r))"
    by (auto simp: get_string_def bindR_def retR_def rtake_def remaining_def from_utf8_def)
  have t: "get_u16 ?r = (Inl (Underflow 2 0), ?r)"
    by (simp add: get_u16_def bindR_def rtake_def remaining_def)
  have "ServerNetIdMessage_serialize
      \<lparr>snm_net_id_message = \<lparr>nim_player_id = []\<rparr>, snm_ushort_unique_id_message = u\<rparr> writer_new =
      (Inr (), \<lparr>wdata = to_le 2 ?u\<rparr>)"
    by (simp add: ServerNetIdMessage_serialize_def NetIdMessage_serialize_def runW.simps okW_def
        UshortUniqueIdMessage_serialize_def put_u16_def writer_new_def)
  moreover have "\<exists>needed h. fst (ServerNetIdMessage_deserialize (reader_new (to_le 2 ?u))) = Inl (Underflow needed h)"
    using s t by (auto simp: ServerNetIdMessage_deserialize_def NetIdMessage_deserialize_def
        UshortUniqueIdMessage_deserialize_def bindR_def retR_def remaining_def reader_new_def)
  ultimately show ?thesis by blast
qed

end
