(* ===== verification/Sequence.thy ===== *)
theory Sequence
  imports NetIo
begin

text \<open>
  Sequence numbers, packet properties and delivery methods of \<open>basis-transport/src/lib.rs\<close>.
  A LiteNetLib sequence number is a \<open>u16\<close> below \<open>MAX_SEQUENCE\<close>; the lemmas relate the signed
  distance \<open>relative_sequence\<close> to the cyclic windows of 128 numbers that the
  acknowledgement and receive code uses.
\<close>

section \<open>Constants\<close>

definition DEFAULT_WINDOW_SIZE :: nat where "DEFAULT_WINDOW_SIZE = 128"
definition MAX_SEQUENCE :: u16 where "MAX_SEQUENCE = 32768"
definition LITENETLIB_CHANNELED_HEADER_SIZE :: nat where "LITENETLIB_CHANNELED_HEADER_SIZE = 4"
definition LITENETLIB_FRAGMENT_HEADER_SIZE :: nat where "LITENETLIB_FRAGMENT_HEADER_SIZE = 6"
definition LITENETLIB_FRAGMENTED_HEADER_SIZE :: nat where
  "LITENETLIB_FRAGMENTED_HEADER_SIZE = LITENETLIB_CHANNELED_HEADER_SIZE + LITENETLIB_FRAGMENT_HEADER_SIZE"
definition LITENETLIB_INITIAL_MTU :: nat where "LITENETLIB_INITIAL_MTU = 1024"
definition RELIABLE_FRAGMENT_PAYLOAD_SIZE :: nat where
  "RELIABLE_FRAGMENT_PAYLOAD_SIZE = LITENETLIB_INITIAL_MTU - LITENETLIB_FRAGMENTED_HEADER_SIZE"

lemmas header_sizes = LITENETLIB_CHANNELED_HEADER_SIZE_def LITENETLIB_FRAGMENT_HEADER_SIZE_def
  LITENETLIB_FRAGMENTED_HEADER_SIZE_def LITENETLIB_INITIAL_MTU_def RELIABLE_FRAGMENT_PAYLOAD_SIZE_def

section \<open>Packet properties\<close>

datatype PacketProperty =
  PUnreliable | PChanneled | PAck | PPing | PPong | PConnectRequest | PConnectAccept | PDisconnect
  | PUnconnectedMessage | PMtuCheck | PMtuOk | PBroadcast | PMerged | PShutdownOk | PPeerNotFound
  | PInvalidProtocol | PNatMessage | PEmpty | PCompactMerged

fun property_u8 :: "PacketProperty \<Rightarrow> u8" where
  "property_u8 PUnreliable = 0"
| "property_u8 PChanneled = 1"
| "property_u8 PAck = 2"
| "property_u8 PPing = 3"
| "property_u8 PPong = 4"
| "property_u8 PConnectRequest = 5"
| "property_u8 PConnectAccept = 6"
| "property_u8 PDisconnect = 7"
| "property_u8 PUnconnectedMessage = 8"
| "property_u8 PMtuCheck = 9"
| "property_u8 PMtuOk = 10"
| "property_u8 PBroadcast = 11"
| "property_u8 PMerged = 12"
| "property_u8 PShutdownOk = 13"
| "property_u8 PPeerNotFound = 14"
| "property_u8 PInvalidProtocol = 15"
| "property_u8 PNatMessage = 16"
| "property_u8 PEmpty = 17"
| "property_u8 PCompactMerged = 18"

definition FROM_BYTE_TABLE :: "PacketProperty option list" where
  "FROM_BYTE_TABLE =
     map Some [PUnreliable, PChanneled, PAck, PPing, PPong, PConnectRequest, PConnectAccept,
       PDisconnect, PUnconnectedMessage, PMtuCheck, PMtuOk, PBroadcast, PMerged, PShutdownOk,
       PPeerNotFound, PInvalidProtocol, PNatMessage, PEmpty, PCompactMerged] @ replicate 13 None"

definition property_from_byte :: "u8 \<Rightarrow> PacketProperty option" where
  "property_from_byte value = FROM_BYTE_TABLE ! unat (value AND 0x1f)"

text \<open>The header byte \<open>property as u8 | (connection_number << 5)\<close>.\<close>

definition header_byte :: "PacketProperty \<Rightarrow> u8 \<Rightarrow> u8" where
  "header_byte p connection_number = property_u8 p OR push_bit 5 connection_number"

section \<open>Delivery methods\<close>

datatype DeliveryMethod = ReliableUnordered | Sequenced | ReliableOrdered | ReliableSequenced | Unreliable

definition from_channel_id :: "u8 \<Rightarrow> DeliveryMethod" where
  "from_channel_id channel_id =
     (if channel_id mod 4 = 0 then ReliableUnordered
      else if channel_id mod 4 = 1 then Sequenced
      else if channel_id mod 4 = 2 then ReliableOrdered
      else ReliableSequenced)"

fun delivery_offset :: "DeliveryMethod \<Rightarrow> u8" where
  "delivery_offset ReliableUnordered = 0"
| "delivery_offset Sequenced = 1"
| "delivery_offset ReliableOrdered = 2"
| "delivery_offset ReliableSequenced = 3"
| "delivery_offset Unreliable = 1"

text \<open>\<open>channel * 4\<close> wraps in release builds; channels are below \<open>TOTAL_CHANNELS = 64\<close>.\<close>

definition delivery_channel_id :: "u8 \<Rightarrow> DeliveryMethod \<Rightarrow> u8" where
  "delivery_channel_id channel delivery = channel * 4 + delivery_offset delivery"

definition is_reliable_delivery :: "DeliveryMethod \<Rightarrow> bool" where
  "is_reliable_delivery delivery \<longleftrightarrow>
     delivery = ReliableUnordered \<or> delivery = ReliableOrdered \<or> delivery = ReliableSequenced"

section \<open>Sequence numbers\<close>

definition relative_sequence :: "u16 \<Rightarrow> u16 \<Rightarrow> int" where
  "relative_sequence seq expected =
     (let diff = uint seq - uint expected in
      if diff \<le> - uint (MAX_SEQUENCE div 2) then diff + uint MAX_SEQUENCE
      else if diff \<ge> uint (MAX_SEQUENCE div 2) then diff - uint MAX_SEQUENCE
      else diff)"

text \<open>\<open>sequence.wrapping_add(1) % MAX_SEQUENCE\<close>\<close>

definition next_sequence :: "u16 \<Rightarrow> u16" where
  "next_sequence s = (s + 1) mod MAX_SEQUENCE"

text \<open>The two counters of a channel: the first value handed out is 0, respectively 1.\<close>

definition next_channel_sequence :: "(u8 \<rightharpoonup> u16) \<Rightarrow> u8 \<Rightarrow> u16 \<times> (u8 \<rightharpoonup> u16)" where
  "next_channel_sequence sequences channel_id =
     (let current = (case sequences channel_id of None \<Rightarrow> 0 | Some s \<Rightarrow> s)
      in (current, sequences(channel_id \<mapsto> next_sequence current)))"

definition next_sequenced_channel_sequence :: "(u8 \<rightharpoonup> u16) \<Rightarrow> u8 \<Rightarrow> u16 \<times> (u8 \<rightharpoonup> u16)" where
  "next_sequenced_channel_sequence sequences channel_id =
     (let s = next_sequence (case sequences channel_id of None \<Rightarrow> 0 | Some s \<Rightarrow> s)
      in (s, sequences(channel_id \<mapsto> s)))"

definition valid_seq :: "u16 \<Rightarrow> bool" where
  "valid_seq s \<longleftrightarrow> s < MAX_SEQUENCE"

text \<open>The sequence number \<open>k\<close> steps after \<open>s\<close>, and the window of 128 numbers from \<open>w\<close>.\<close>

definition seq_plus :: "u16 \<Rightarrow> nat \<Rightarrow> u16" where
  "seq_plus s k = of_nat ((unat s + k) mod 32768)"

definition in_window :: "u16 \<Rightarrow> u16 \<Rightarrow> bool" where
  "in_window w s \<longleftrightarrow> 0 \<le> relative_sequence s w \<and> relative_sequence s w < 128"

section \<open>Lemmas\<close>

lemma property_from_header:
  "property_from_byte (property_u8 p OR push_bit 5 c) = Some p"
proof -
  have m: "(0x1f :: u8) = mask 5" by (simp add: mask_eq_exp_minus_1)
  have "(property_u8 p OR push_bit 5 c) AND 0x1f = property_u8 p AND 0x1f"
    unfolding m by (simp only: flip: take_bit_eq_mask) (simp add: take_bit_push_bit)
  then show ?thesis
    by (cases p) (simp_all add: property_from_byte_def FROM_BYTE_TABLE_def)
qed

lemma property_from_header_byte [simp]: "property_from_byte (header_byte p c) = Some p"
  by (simp add: header_byte_def property_from_header)

lemma valid_seq_unat: "valid_seq s \<longleftrightarrow> unat s < 32768"
  by (simp add: valid_seq_def MAX_SEQUENCE_def word_less_nat_alt)

lemma relative_sequence_nat:
  "relative_sequence a b =
     (let d = int (unat a) - int (unat b) in
      if d \<le> - 16384 then d + 32768 else if d \<ge> 16384 then d - 32768 else d)"
  by (simp add: relative_sequence_def MAX_SEQUENCE_def Let_def)

lemma relative_sequence_self [simp]: "relative_sequence s s = 0"
  by (simp add: relative_sequence_nat)

lemma unat_next_sequence: "unat (next_sequence s) = (unat s + 1) mod 32768"
proof -
  have "unat (s + 1) mod 32768 = (unat s + 1) mod 32768"
    by (simp add: unat_word_ariths mod_mod_cancel)
  then show ?thesis by (simp add: next_sequence_def MAX_SEQUENCE_def unat_mod)
qed

lemma unat_seq_plus: "unat (seq_plus s k) = (unat s + k) mod 32768"
  unfolding seq_plus_def by (rule unat_of_nat_u16) (simp add: less_trans[OF mod_less_divisor])

lemma valid_next_sequence [simp]: "valid_seq (next_sequence s)"
  by (simp add: valid_seq_unat unat_next_sequence)

lemma valid_seq_plus [simp]: "valid_seq (seq_plus s k)"
  by (simp add: valid_seq_unat unat_seq_plus)

lemma valid_seq_zero [simp]: "valid_seq 0"
  by (simp add: valid_seq_unat)

lemma seq_plus_0: "valid_seq s \<Longrightarrow> seq_plus s 0 = s"
  by (simp add: word_unat_eq_iff unat_seq_plus valid_seq_unat)

lemma next_sequence_plus: "next_sequence (seq_plus s k) = seq_plus s (Suc k)"
  by (simp add: word_unat_eq_iff unat_seq_plus unat_next_sequence mod_Suc_eq)

lemma seq_plus_Suc: "seq_plus (next_sequence s) k = seq_plus s (Suc k)"
  by (simp add: word_unat_eq_iff unat_seq_plus unat_next_sequence mod_add_left_eq)

lemma relative_seq_plus:
  assumes "valid_seq w" and "k < 16384"
  shows "relative_sequence (seq_plus w k) w = int k"
proof -
  have "(unat w + k) mod 32768 = (if unat w + k < 32768 then unat w + k else unat w + k - 32768)"
    using assms by (simp add: valid_seq_unat mod_if)
  then show ?thesis
    using assms by (simp add: relative_sequence_nat unat_seq_plus valid_seq_unat Let_def)
qed

lemma cyclic_distance:
  fixes x y :: nat
  assumes "x < 32768" and "y < 32768"
    and "d = (if int x - int y \<le> - 16384 then int x - int y + 32768
      else if int x - int y \<ge> 16384 then int x - int y - 32768 else int x - int y)" and "0 \<le> d"
  shows "(y + nat d) mod 32768 = x"
proof -
  have "int x = int y + d \<or> int x + 32768 = int y + d" using assms by (auto split: if_splits)
  then have "x = y + nat d \<or> x + 32768 = y + nat d" using \<open>0 \<le> d\<close> by linarith
  then show ?thesis using assms(1) by (metis mod_add_self2 mod_less)
qed

lemma relative_nonneg_seq_plus:
  assumes "valid_seq w" and "valid_seq s" and "0 \<le> relative_sequence s w"
  shows "s = seq_plus w (nat (relative_sequence s w))"
proof -
  have "(unat w + nat (relative_sequence s w)) mod 32768 = unat s"
    by (rule cyclic_distance) (use assms in \<open>simp_all only: valid_seq_unat relative_sequence_nat Let_def\<close>)
  then show ?thesis by (simp add: word_unat_eq_iff unat_seq_plus)
qed

lemma in_window_iff:
  assumes "valid_seq w" and "valid_seq s"
  shows "in_window w s \<longleftrightarrow> (\<exists>k<128. s = seq_plus w k)"
proof
  assume "in_window w s"
  then show "\<exists>k<128. s = seq_plus w k"
    using relative_nonneg_seq_plus[OF assms] by (auto simp: in_window_def intro!: exI[of _ "nat (relative_sequence s w)"])
next
  assume "\<exists>k<128. s = seq_plus w k"
  then show "in_window w s" using relative_seq_plus[OF assms(1)] by (auto simp: in_window_def)
qed

lemma mod_shift_inject:
  fixes a j k m :: nat
  assumes "(a + j) mod m = (a + k) mod m" and "j < m" and "k < m"
  shows "j = k"
proof -
  have r: "a mod m < m" using assms(2) by simp
  have "m * (a div m) + a mod m = a" by simp
  with r have c: "a + (m - a mod m) = m * Suc (a div m)" by (simp only: mult_Suc_right)
  have "((a + i) mod m + (m - a mod m)) mod m = i" if "i < m" for i
  proof -
    have "((a + i) mod m + (m - a mod m)) mod m = (a + i + (m - a mod m)) mod m"
      by (rule mod_add_left_eq)
    also have "a + i + (m - a mod m) = i + m * Suc (a div m)" using c by linarith
    also have "(i + m * Suc (a div m)) mod m = i" using that by (simp only: mod_mult_self2 mod_less)
    finally show ?thesis .
  qed
  then show ?thesis using assms by metis
qed

lemma seq_plus_inject:
  assumes "seq_plus w j = seq_plus w k" "j < 32768" "k < 32768"
  shows "j = k"
  using assms mod_shift_inject[of "unat w" j 32768 k] by (simp add: word_unat_eq_iff unat_seq_plus)

lemma seq_plus_add: "seq_plus (seq_plus w j) k = seq_plus w (j + k)"
  by (simp add: word_unat_eq_iff unat_seq_plus mod_add_left_eq add.assoc)

lemma seq_plus_cancel:
  assumes "seq_plus s k = seq_plus t k" "valid_seq s" "valid_seq t"
  shows "s = t"
  using assms mod_shift_inject[of k "unat s" 32768 "unat t"]
  by (simp add: word_unat_eq_iff unat_seq_plus valid_seq_unat add.commute)

text \<open>Within a window of 128 consecutive numbers the residue modulo 128 identifies a number.\<close>

lemma window_residue_unique:
  assumes "valid_seq w" and "valid_seq s" and "valid_seq t" and "in_window w s" and "in_window w t"
    and "unat s mod 128 = unat t mod 128"
  shows "s = t"
proof -
  obtain j k where j: "j < 128" "s = seq_plus w j" and k: "k < 128" "t = seq_plus w k"
    using assms in_window_iff by blast
  have "(unat w + j) mod 128 = (unat w + k) mod 128"
    using assms(6) by (simp add: j k unat_seq_plus mod_mod_cancel)
  then have "j = k" by (rule mod_shift_inject) (use j k in simp_all)
  with j k show ?thesis by simp
qed

end
