(* ===== verification/PeerState.thy ===== *)
theory PeerState
  imports Sequence
begin

text \<open>
  The per-connection state of \<open>basis-transport/src/lib.rs\<close> (\<open>PeerState\<close> and the structs it
  holds), as far as the reliable send path, the acknowledgements and the receive cursors use it.
  Every field that the source guards with a mutex or an atomic is a plain record field: an operation
  of the model is the body the source runs while it holds the lock. A \<open>HashMap<u8, _>\<close> keyed by
  channel is a partial function, a \<open>VecDeque\<close> a list whose head is the front, an \<open>Instant\<close> a
  number of milliseconds.
\<close>

record pending_reliable =
  pr_sequence :: u16
  pr_bytes :: bytes
  pr_last_sent :: nat

record reliable_fragment =
  rf_id :: u16
  rf_part :: u16
  rf_total :: u16

record outgoing_reliable =
  or_payload :: bytes
  or_fragment :: "reliable_fragment option"

record ack_state =
  window_start :: u16
  ack_bits :: bytes
  ack_dirty :: bool

record peer_state =
  connection_number :: u8
  connect_time :: u64
  next_reliable_sequence :: "u8 \<rightharpoonup> u16"
  next_sequenced_sequence :: "u8 \<rightharpoonup> u16"
  remote_sequenced_sequence :: "u8 \<rightharpoonup> u16"
  next_fragment_id :: u16
  pending_reliable :: "u8 \<rightharpoonup> pending_reliable list"
  pending_total :: nat
  pending_datagrams :: "bytes list"
  pending_datagram_bytes :: nat
  outgoing_reliable :: "u8 \<rightharpoonup> outgoing_reliable list"
  queued_reliable_bytes :: nat
  queued_reliable_packets :: nat
  outgoing_acks :: "u8 \<rightharpoonup> ack_state"
  reliable_active :: bool

text \<open>
  The counters of \<open>TransportStats\<close> that the modelled functions bump. They are \<open>AtomicU64\<close>, so
  \<open>fetch_add\<close> wraps; the functions receive them as an \<open>Option\<close> and touch them only when the
  extended statistics are enabled.
\<close>

record transport_stats =
  extended_enabled :: bool
  reliable_window_fills :: u64
  reliable_acks_received :: u64
  reliable_acks_released :: u64
  reliable_acks_unknown_channel :: u64

definition bump_stats ::
    "(transport_stats \<Rightarrow> transport_stats) \<Rightarrow> transport_stats option \<Rightarrow> transport_stats option" where
  "bump_stats f stats = map_option (\<lambda>s. if extended_enabled s then f s else s) stats"

text \<open>The keys of a map over \<open>u8\<close>, to evaluate the searches through its values.\<close>

definition all_channels :: "u8 list" where
  "all_channels = map of_nat [0..<256]"

lemma set_all_channels [simp]: "set all_channels = UNIV"
proof -
  have "c \<in> set all_channels" for c :: u8
    unfolding all_channels_def set_map by (rule image_eqI[of _ _ "unat c"]) simp_all
  then show ?thesis by blast
qed

definition new_peer :: "u8 \<Rightarrow> u64 \<Rightarrow> peer_state" where
  "new_peer number time =
     \<lparr>connection_number = number, connect_time = time,
      next_reliable_sequence = Map.empty, next_sequenced_sequence = Map.empty,
      remote_sequenced_sequence = Map.empty, next_fragment_id = 0,
      pending_reliable = Map.empty, pending_total = 0,
      pending_datagrams = [], pending_datagram_bytes = 0,
      outgoing_reliable = Map.empty, queued_reliable_bytes = 0, queued_reliable_packets = 0,
      outgoing_acks = Map.empty, reliable_active = False\<rparr>"

definition MAX_PENDING_RELIABLE_PER_PEER :: nat where "MAX_PENDING_RELIABLE_PER_PEER = 4096"
definition MAX_QUEUED_RELIABLE_PACKETS_PER_PEER :: nat where "MAX_QUEUED_RELIABLE_PACKETS_PER_PEER = 8192"
definition MAX_QUEUED_RELIABLE_BYTES_PER_PEER :: nat where
  "MAX_QUEUED_RELIABLE_BYTES_PER_PEER = 8 * 1024 * 1024"
definition MAX_PENDING_DATAGRAM_BYTES_PER_PEER :: nat where
  "MAX_PENDING_DATAGRAM_BYTES_PER_PEER = 6 * 1024 * 1024"
definition MAX_PENDING_DATAGRAMS_PER_PEER :: nat where
  "MAX_PENDING_DATAGRAMS_PER_PEER = MAX_PENDING_RELIABLE_PER_PEER + 256"
definition MAX_INCOMING_FRAGMENT_PARTS :: nat where "MAX_INCOMING_FRAGMENT_PARTS = 128"
definition MAX_RELIABLE_FRAGMENTED_MESSAGE_BYTES :: nat where
  "MAX_RELIABLE_FRAGMENTED_MESSAGE_BYTES = MAX_INCOMING_FRAGMENT_PARTS * RELIABLE_FRAGMENT_PAYLOAD_SIZE"

lemmas peer_limits = MAX_PENDING_RELIABLE_PER_PEER_def MAX_QUEUED_RELIABLE_PACKETS_PER_PEER_def
  MAX_QUEUED_RELIABLE_BYTES_PER_PEER_def MAX_PENDING_DATAGRAM_BYTES_PER_PEER_def
  MAX_PENDING_DATAGRAMS_PER_PEER_def MAX_INCOMING_FRAGMENT_PARTS_def
  MAX_RELIABLE_FRAGMENTED_MESSAGE_BYTES_def

end
