(* ===== verification/AckWindow.thy ===== *)
theory AckWindow
  imports PeerState
begin

text \<open>
  Acknowledgements of the reliable channels (\<open>queue_ack\<close>, \<open>process_ack\<close> and the packet builders of
  \<open>basis-transport/src/lib.rs\<close>). The receiver keeps a window of 128 sequence numbers with one bit
  each, stored at the absolute position \<open>sequence % 128\<close>; the abstract view \<open>recorded\<close> is the set of
  sequence numbers that the bitmap stands for. The lemmas show that \<open>queue_ack\<close> implements insertion
  into that set, and that \<open>process_ack\<close> on the packet built from it releases exactly the packets
  whose sequence number is in the set.
\<close>

section \<open>The bitmap\<close>

definition ack_bit :: "bytes \<Rightarrow> nat \<Rightarrow> bool" where
  "ack_bit bits i =
     (case list_get bits (i div 8) of
        Some byte \<Rightarrow> byte AND push_bit (i mod 8) 1 \<noteq> 0
      | None \<Rightarrow> False)"

definition set_ack_bit :: "nat \<Rightarrow> bytes \<Rightarrow> bytes" where
  "set_ack_bit index bits = update_at (index div 8) (\<lambda>byte. byte OR push_bit (index mod 8) 1) bits"

definition clear_ack_bit :: "nat \<Rightarrow> bytes \<Rightarrow> bytes" where
  "clear_ack_bit index bits =
     update_at (index div 8) (\<lambda>byte. byte AND NOT (push_bit (index mod 8) 1)) bits"

definition ACK_BITS_LEN :: nat where
  "ACK_BITS_LEN = (DEFAULT_WINDOW_SIZE - 1) div 8 + 2"

section \<open>The receiving side\<close>

definition ack_state_default :: ack_state where
  "ack_state_default = \<lparr>window_start = 0, ack_bits = replicate ACK_BITS_LEN 0, ack_dirty = False\<rparr>"

text \<open>The loop that slides the window, one sequence number per turn.\<close>

primrec slide_ack :: "nat \<Rightarrow> ack_state \<Rightarrow> ack_state" where
  "slide_ack 0 a = a"
| "slide_ack (Suc n) a =
     slide_ack n (a\<lparr>ack_bits := clear_ack_bit (unat (window_start a) mod DEFAULT_WINDOW_SIZE) (ack_bits a),
                    window_start := next_sequence (window_start a)\<rparr>)"

definition record_ack :: "u16 \<Rightarrow> ack_state \<Rightarrow> ack_state" where
  "record_ack sequence a =
     (let rel = relative_sequence sequence (window_start a) in
      if rel < 0 then a
      else
        let a = (if nat rel \<ge> DEFAULT_WINDOW_SIZE
                 then slide_ack (nat rel - DEFAULT_WINDOW_SIZE + 1) a else a)
        in a\<lparr>ack_bits := set_ack_bit (unat sequence mod DEFAULT_WINDOW_SIZE) (ack_bits a),
              ack_dirty := True\<rparr>)"

definition queue_ack :: "peer_state \<Rightarrow> u8 \<Rightarrow> u16 \<Rightarrow> peer_state" where
  "queue_ack peer channel_id sequence =
     (if sequence \<ge> MAX_SEQUENCE then peer
      else
        let ack = (case outgoing_acks peer channel_id of Some a \<Rightarrow> a | None \<Rightarrow> ack_state_default);
            rel = relative_sequence sequence (window_start ack);
            acks = (outgoing_acks peer)(channel_id \<mapsto> record_ack sequence ack)
        in if rel < 0 then peer\<lparr>outgoing_acks := acks\<rparr>
           else peer\<lparr>outgoing_acks := acks, reliable_active := True\<rparr>)"

definition queue_reliable_sequenced_ack ::
    "peer_state \<Rightarrow> u8 \<Rightarrow> u16 \<Rightarrow> (u16 \<times> bool) option \<times> peer_state" where
  "queue_reliable_sequenced_ack peer channel_id sequence =
     (if sequence \<ge> MAX_SEQUENCE then (None, peer)
      else
        let current = (case remote_sequenced_sequence peer channel_id of Some s \<Rightarrow> s | None \<Rightarrow> 0);
            is_new = relative_sequence sequence current > 0;
            current = (if is_new then sequence else current)
        in (Some (current, is_new),
            peer\<lparr>remote_sequenced_sequence := (remote_sequenced_sequence peer)(channel_id \<mapsto> current)\<rparr>))"

definition build_reliable_sequenced_ack :: "u8 \<Rightarrow> u8 \<Rightarrow> u16 \<Rightarrow> bytes" where
  "build_reliable_sequenced_ack number channel_id sequence =
     header_byte PAck number # to_le 2 sequence @ [channel_id]"

definition build_ack_packet :: "u8 \<Rightarrow> u8 \<Rightarrow> u16 \<Rightarrow> bytes \<Rightarrow> bytes" where
  "build_ack_packet number channel_id start bits =
     header_byte PAck number # to_le 2 start @ [channel_id] @ bits"

section \<open>The sending side\<close>

definition ack_expected_size :: "u8 \<Rightarrow> nat" where
  "ack_expected_size channel_id =
     (if channel_id mod 4 = delivery_offset ReliableSequenced then LITENETLIB_CHANNELED_HEADER_SIZE
      else LITENETLIB_CHANNELED_HEADER_SIZE + (DEFAULT_WINDOW_SIZE - 1) div 8 + 2)"

definition is_valid_ack_packet :: "bytes \<Rightarrow> bool" where
  "is_valid_ack_packet bytes \<longleftrightarrow>
     length bytes \<ge> LITENETLIB_CHANNELED_HEADER_SIZE \<and>
     length bytes = ack_expected_size (bytes ! 3) \<and>
     (of_le [bytes ! 1, bytes ! 2] :: u16) < MAX_SEQUENCE"

text \<open>\<open>iter().position(..)\<close>\<close>

primrec position :: "('a \<Rightarrow> bool) \<Rightarrow> 'a list \<Rightarrow> nat option" where
  "position P [] = None"
| "position P (x # xs) = (if P x then Some 0 else map_option Suc (position P xs))"

text \<open>\<open>HashMap::remove\<close> once the queue is empty.\<close>

definition put_queue :: "(u8 \<rightharpoonup> 'a list) \<Rightarrow> u8 \<Rightarrow> 'a list \<Rightarrow> (u8 \<rightharpoonup> 'a list)" where
  "put_queue m c q = (if q = [] then m(c := None) else m(c \<mapsto> q))"

definition ack_stats :: "nat \<Rightarrow> transport_stats \<Rightarrow> transport_stats" where
  "ack_stats released s =
     s\<lparr>reliable_acks_received := reliable_acks_received s + 1,
       reliable_acks_released := reliable_acks_released s + of_nat released\<rparr>"

definition unknown_channel_stats :: "transport_stats \<Rightarrow> transport_stats" where
  "unknown_channel_stats s =
     s\<lparr>reliable_acks_received := reliable_acks_received s + 1,
       reliable_acks_unknown_channel := reliable_acks_unknown_channel s + 1\<rparr>"

definition acknowledged :: "u16 \<Rightarrow> bytes \<Rightarrow> pending_reliable \<Rightarrow> bool" where
  "acknowledged ack_window_start bits item \<longleftrightarrow>
     relative_sequence (pr_sequence item) ack_window_start < int DEFAULT_WINDOW_SIZE \<and>
     ack_bit bits (unat (pr_sequence item) mod DEFAULT_WINDOW_SIZE)"

definition process_sequenced_ack ::
    "peer_state \<Rightarrow> u8 \<Rightarrow> u16 \<Rightarrow> transport_stats option \<Rightarrow> peer_state \<times> transport_stats option" where
  "process_sequenced_ack peer channel_id ack_window_start stats =
     (if ack_window_start \<ge> MAX_SEQUENCE then (peer, stats)
      else case pending_reliable peer channel_id of
        None \<Rightarrow> (peer, stats)
      | Some queue \<Rightarrow>
          (case position (\<lambda>item. pr_sequence item = ack_window_start) queue of
             None \<Rightarrow> (peer, stats)
           | Some ack_index \<Rightarrow>
               (peer\<lparr>pending_reliable :=
                        put_queue (pending_reliable peer) channel_id (drop (ack_index + 1) queue),
                     pending_total := pending_total peer - (ack_index + 1)\<rparr>,
                bump_stats (ack_stats (ack_index + 1)) stats)))"

definition process_window_ack ::
    "peer_state \<Rightarrow> u8 \<Rightarrow> u16 \<Rightarrow> bytes \<Rightarrow> transport_stats option \<Rightarrow> peer_state \<times> transport_stats option"
where
  "process_window_ack peer channel_id ack_window_start bits stats =
     (case pending_reliable peer channel_id of
        None \<Rightarrow> (peer, bump_stats unknown_channel_stats stats)
      | Some queue \<Rightarrow>
          if ack_window_start \<ge> MAX_SEQUENCE then (peer, stats)
          else
            let local_window_start = (case queue of [] \<Rightarrow> 0 | item # _ \<Rightarrow> pr_sequence item);
                window_rel = relative_sequence local_window_start ack_window_start
            in if window_rel < 0 \<or> nat window_rel \<ge> DEFAULT_WINDOW_SIZE then (peer, stats)
               else
                 let released = length (filter (acknowledged ack_window_start bits) queue);
                     kept = filter (\<lambda>item. \<not> acknowledged ack_window_start bits item) queue
                 in (peer\<lparr>pending_reliable := put_queue (pending_reliable peer) channel_id kept,
                          pending_total := pending_total peer - released\<rparr>,
                     bump_stats (ack_stats released) stats))"

definition process_ack ::
    "peer_state \<Rightarrow> bytes \<Rightarrow> transport_stats option \<Rightarrow> peer_state \<times> transport_stats option" where
  "process_ack peer bytes stats =
     (if length bytes < LITENETLIB_CHANNELED_HEADER_SIZE then (peer, stats)
      else
        let channel_id = bytes ! 3;
            ack_window_start = of_le [bytes ! 1, bytes ! 2]
        in if length bytes \<noteq> ack_expected_size channel_id then (peer, stats)
           else if channel_id mod 4 = delivery_offset ReliableSequenced
                then process_sequenced_ack peer channel_id ack_window_start stats
                else process_window_ack peer channel_id ack_window_start (drop 4 bytes) stats)"

section \<open>The bitmap as a set of sequence numbers\<close>

definition ack_wf :: "ack_state \<Rightarrow> bool" where
  "ack_wf a \<longleftrightarrow> length (ack_bits a) = ACK_BITS_LEN \<and> valid_seq (window_start a)"

text \<open>\<open>rec_at a k\<close> reads the bit of the number \<open>k\<close> steps after the window start.\<close>

definition rec_at :: "ack_state \<Rightarrow> nat \<Rightarrow> bool" where
  "rec_at a k \<longleftrightarrow> ack_bit (ack_bits a) ((unat (window_start a) + k) mod 128)"

definition recorded :: "ack_state \<Rightarrow> u16 set" where
  "recorded a = {s. valid_seq s \<and> in_window (window_start a) s \<and> ack_bit (ack_bits a) (unat s mod 128)}"

lemmas window_consts = DEFAULT_WINDOW_SIZE_def ACK_BITS_LEN_def

lemma ack_bit_set:
  assumes "i < 128" "j < 128" "length bits = 17"
  shows "ack_bit (set_ack_bit i bits) j \<longleftrightarrow> j = i \<or> ack_bit bits j"
proof -
  have "i div 8 < 17" "j div 8 < 17" using assms by simp_all
  moreover have "i = j \<longleftrightarrow> i div 8 = j div 8 \<and> i mod 8 = j mod 8" by (metis div_mult_mod_eq)
  ultimately show ?thesis using assms
    by (auto simp: ack_bit_def set_ack_bit_def list_get_def update_at_def nth_list_update
        and_exp_eq_0_iff_not_bit bit_simps simp flip: push_bit_eq_mult)
qed

lemma ack_bit_clear:
  assumes "i < 128" "j < 128" "length bits = 17"
  shows "ack_bit (clear_ack_bit i bits) j \<longleftrightarrow> j \<noteq> i \<and> ack_bit bits j"
proof -
  have "i div 8 < 17" "j div 8 < 17" using assms by simp_all
  moreover have "i = j \<longleftrightarrow> i div 8 = j div 8 \<and> i mod 8 = j mod 8" by (metis div_mult_mod_eq)
  ultimately show ?thesis using assms
    by (auto simp: ack_bit_def clear_ack_bit_def list_get_def update_at_def nth_list_update
        and_exp_eq_0_iff_not_bit bit_simps simp flip: push_bit_eq_mult)
qed

lemma ack_wf_default [simp]: "ack_wf ack_state_default"
  by (simp add: ack_wf_def ack_state_default_def)

lemma recorded_eq:
  assumes "ack_wf a"
  shows "recorded a = {seq_plus (window_start a) k |k. k < 128 \<and> rec_at a k}" (is "_ = ?R")
proof -
  have w: "valid_seq (window_start a)" using assms by (simp add: ack_wf_def)
  have m: "unat (seq_plus (window_start a) k) mod 128 = (unat (window_start a) + k) mod 128" for k
    by (simp add: unat_seq_plus mod_mod_cancel)
  show ?thesis
  proof (intro equalityI subsetI)
    fix s assume s: "s \<in> recorded a"
    then obtain k where "k < 128" "s = seq_plus (window_start a) k"
      using in_window_iff[OF w] by (auto simp: recorded_def)
    with s m show "s \<in> ?R" by (auto simp: recorded_def rec_at_def)
  next
    fix s assume "s \<in> ?R"
    with in_window_iff[OF w] m show "s \<in> recorded a" by (auto simp: recorded_def rec_at_def)
  qed
qed

lemma slide_once:
  fixes a :: ack_state
  assumes "ack_wf a"
  defines "b \<equiv> a\<lparr>ack_bits := clear_ack_bit (unat (window_start a) mod DEFAULT_WINDOW_SIZE) (ack_bits a),
                 window_start := next_sequence (window_start a)\<rparr>"
  shows "ack_wf b" and "k < 128 \<Longrightarrow> rec_at b k \<longleftrightarrow> Suc k < 128 \<and> rec_at a (Suc k)"
proof -
  let ?w = "unat (window_start a)"
  show "ack_wf b" using assms by (simp add: ack_wf_def clear_ack_bit_def)
  assume k: "k < 128"
  have e: "(unat (next_sequence (window_start a)) + k) mod 128 = (?w + Suc k) mod 128"
  proof -
    have "((?w + 1) mod 32768 + k) mod 128 = ((?w + 1) mod 32768 mod 128 + k) mod 128"
      by (simp only: mod_add_left_eq)
    also have "\<dots> = (?w + Suc k) mod 128" by (simp add: mod_mod_cancel mod_add_left_eq)
    finally show ?thesis by (simp add: unat_next_sequence)
  qed
  have "(?w + Suc k) mod 128 = ?w mod 128 \<longleftrightarrow> \<not> Suc k < 128"
  proof
    assume h: "(?w + Suc k) mod 128 = ?w mod 128"
    show "\<not> Suc k < 128"
    proof
      assume "Suc k < 128"
      then have "Suc k = 0" using mod_shift_inject[of ?w "Suc k" 128 0] h by simp
      then show False by simp
    qed
  next
    assume "\<not> Suc k < 128"
    with k have "Suc k = 128" by simp
    then show "(?w + Suc k) mod 128 = ?w mod 128" by simp
  qed
  then show "rec_at b k \<longleftrightarrow> Suc k < 128 \<and> rec_at a (Suc k)"
    using assms by (simp add: rec_at_def e ack_bit_clear window_consts ack_wf_def)
qed

lemma slide_ack_spec:
  assumes "ack_wf a"
  shows "ack_wf (slide_ack n a) \<and> window_start (slide_ack n a) = seq_plus (window_start a) n \<and>
    ack_dirty (slide_ack n a) = ack_dirty a \<and>
    (\<forall>k<128. rec_at (slide_ack n a) k \<longleftrightarrow> k + n < 128 \<and> rec_at a (k + n))"
  using assms
proof (induction n arbitrary: a)
  case 0
  then show ?case by (simp add: seq_plus_0 ack_wf_def)
next
  case (Suc n)
  let ?b = "a\<lparr>ack_bits := clear_ack_bit (unat (window_start a) mod DEFAULT_WINDOW_SIZE) (ack_bits a),
              window_start := next_sequence (window_start a)\<rparr>"
  have b: "ack_wf ?b" and r: "\<And>k. k < 128 \<Longrightarrow> rec_at ?b k \<longleftrightarrow> Suc k < 128 \<and> rec_at a (Suc k)"
    using slide_once[OF Suc.prems] by blast+
  show ?case using Suc.IH[OF b] r by (auto simp: seq_plus_Suc)
qed

lemma relative_bounds:
  assumes "valid_seq s" "valid_seq w"
  shows "relative_sequence s w \<le> 16384"
proof -
  have "(let d = int x - int y in if d \<le> - 16384 then d + 32768 else if d \<ge> 16384 then d - 32768 else d)
    \<le> 16384" if "x < 32768" "y < 32768" for x y :: nat
    using that by (auto simp: Let_def)
  then show ?thesis using assms unfolding relative_sequence_nat valid_seq_unat by blast
qed

lemma rec_at_set:
  assumes "ack_wf a" "valid_seq s" "s = seq_plus (window_start a) j" "j < 128" "k < 128"
  shows "rec_at (a\<lparr>ack_bits := set_ack_bit (unat s mod 128) (ack_bits a), ack_dirty := d\<rparr>) k \<longleftrightarrow>
    k = j \<or> rec_at a k"
proof -
  have m: "unat s mod 128 = (unat (window_start a) + j) mod 128"
    by (simp add: assms unat_seq_plus mod_mod_cancel)
  have "(unat (window_start a) + k) mod 128 = (unat (window_start a) + j) mod 128 \<longleftrightarrow> k = j"
    using assms mod_shift_inject by blast
  then show ?thesis
    using assms(1) by (simp add: rec_at_def ack_bit_set ack_wf_def window_consts m)
qed

text \<open>What recording a sequence number does to the window, to the bits and to the set.\<close>

lemma record_ack_window:
  fixes a :: ack_state and s :: u16
  assumes "ack_wf a" "valid_seq s" and rel: "0 \<le> relative_sequence s (window_start a)"
  defines "n \<equiv> nat (relative_sequence s (window_start a)) - 127"
  defines "b \<equiv> record_ack s a"
  shows "ack_wf b" and "window_start b = seq_plus (window_start a) n" and "ack_dirty b"
    and "k < 128 \<Longrightarrow> rec_at b k \<longleftrightarrow>
      k = nat (relative_sequence s (window_start a)) - n \<or> (k + n < 128 \<and> rec_at a (k + n))"
proof -
  let ?r = "nat (relative_sequence s (window_start a))"
  let ?c = "slide_ack n a"
  have b: "b = ?c\<lparr>ack_bits := set_ack_bit (unat s mod 128) (ack_bits ?c), ack_dirty := True\<rparr>"
  proof (cases "?r \<ge> 128")
    case True
    then have "?r - DEFAULT_WINDOW_SIZE + 1 = n" "DEFAULT_WINDOW_SIZE \<le> ?r"
      by (simp_all add: window_consts n_def)
    then show ?thesis using rel
      by (simp add: b_def record_ack_def Let_def window_consts del: slide_ack.simps)
  next
    case False
    then show ?thesis using rel by (simp add: b_def record_ack_def window_consts n_def)
  qed
  have c: "ack_wf ?c" "window_start ?c = seq_plus (window_start a) n"
    and r: "\<And>k. k < 128 \<Longrightarrow> rec_at ?c k \<longleftrightarrow> k + n < 128 \<and> rec_at a (k + n)"
    using slide_ack_spec[OF assms(1)] by auto
  have le: "n \<le> ?r" "?r - n < 128" by (auto simp: n_def)
  have s: "s = seq_plus (window_start a) ?r"
    using relative_nonneg_seq_plus[of "window_start a" s] assms by (simp add: ack_wf_def)
  also have "\<dots> = seq_plus (window_start ?c) (?r - n)"
    using le(1) by (simp add: c seq_plus_add)
  finally have s': "s = seq_plus (window_start ?c) (?r - n)" .
  show "ack_wf b" using c by (simp add: b ack_wf_def set_ack_bit_def)
  show "window_start b = seq_plus (window_start a) n" "ack_dirty b" using c by (simp_all add: b)
  show "rec_at b k \<longleftrightarrow> k = ?r - n \<or> (k + n < 128 \<and> rec_at a (k + n))" if "k < 128"
    using rec_at_set[OF c(1) assms(2) s' le(2) that] r[OF that] by (simp add: b)
qed

lemma record_ack_recorded:
  assumes wf: "ack_wf a" and s: "valid_seq s" and rel: "0 \<le> relative_sequence s (window_start a)"
  shows "recorded (record_ack s a) =
    insert s {t \<in> recorded a. in_window (window_start (record_ack s a)) t}"
proof -
  let ?w = "window_start a" and ?r = "nat (relative_sequence s (window_start a))"
  let ?n = "?r - 127" and ?b = "record_ack s a"
  note b = record_ack_window[OF assms]
  have n: "?n + 128 < 32768" "?r - ?n < 128" "?r - ?n + ?n = ?r"
    using relative_bounds[OF s, of ?w] wf by (auto simp: ack_wf_def)
  have sr: "s = seq_plus ?w ?r"
    using relative_nonneg_seq_plus[of ?w s] assms by (simp add: ack_wf_def)
  have w: "valid_seq (window_start ?b)" using b(2) by simp
  have "t \<in> recorded ?b \<longleftrightarrow> t = s \<or> (t \<in> recorded a \<and> in_window (window_start ?b) t)" for t
  proof
    assume "t \<in> recorded ?b"
    then obtain k where k: "k < 128" "t = seq_plus ?w (?n + k)" "rec_at ?b k"
      by (auto simp: recorded_eq[OF b(1)] b(2) seq_plus_add)
    have win: "in_window (window_start ?b) t"
      using in_window_iff[OF w] k b(2) by (auto simp: seq_plus_add)
    from k b(4) consider "k = ?r - ?n" | "k + ?n < 128" "rec_at a (k + ?n)" by blast
    then show "t = s \<or> (t \<in> recorded a \<and> in_window (window_start ?b) t)"
    proof cases
      case 1
      then show ?thesis using k sr n by (simp add: add.commute)
    next
      case 2
      then show ?thesis using k win by (auto simp: recorded_eq[OF wf] add.commute)
    qed
  next
    assume "t = s \<or> (t \<in> recorded a \<and> in_window (window_start ?b) t)"
    then show "t \<in> recorded ?b"
    proof (elim disjE conjE)
      assume "t = s"
      then have "t = seq_plus (window_start ?b) (?r - ?n)"
        using sr n b(2) by (simp add: seq_plus_add add.commute)
      then show ?thesis using n b(4) by (auto simp: recorded_eq[OF b(1)])
    next
      assume "t \<in> recorded a" and win: "in_window (window_start ?b) t"
      then obtain j where j: "j < 128" "t = seq_plus ?w j" "rec_at a j" "valid_seq t"
        by (auto simp: recorded_eq[OF wf])
      obtain k where k: "k < 128" "t = seq_plus ?w (?n + k)"
        using in_window_iff[OF w j(4)] win b(2) by (auto simp: seq_plus_add)
      have "j = ?n + k" using seq_plus_inject[of ?w j "?n + k"] j k n by simp
      then show ?thesis using j k b(4) b(2)
        by (auto simp: recorded_eq[OF b(1)] seq_plus_add add.commute intro!: exI[of _ k])
    qed
  qed
  then show ?thesis by blast
qed

section \<open>Releasing acknowledged packets\<close>

definition queue_of :: "(u8 \<rightharpoonup> 'a list) \<Rightarrow> u8 \<Rightarrow> 'a list" where
  "queue_of m c = (case m c of Some q \<Rightarrow> q | None \<Rightarrow> [])"

definition pending_consistent :: "peer_state \<Rightarrow> bool" where
  "pending_consistent peer \<longleftrightarrow>
     pending_total peer = (\<Sum>c\<in>UNIV. length (queue_of (pending_reliable peer) c)) \<and>
     (\<forall>c. pending_reliable peer c \<noteq> Some [])"

text \<open>A send window: every packet in flight is at most 127 steps after the oldest one.\<close>

definition send_window :: "pending_reliable list \<Rightarrow> bool" where
  "send_window q \<longleftrightarrow>
     (\<forall>item\<in>set q. valid_seq (pr_sequence item) \<and> in_window (pr_sequence (hd q)) (pr_sequence item))"

lemma queue_of_put_queue [simp]: "queue_of (put_queue m c q) d = (if d = c then q else queue_of m d)"
  by (simp add: queue_of_def put_queue_def)

lemma queue_of_some: "m c = Some q \<Longrightarrow> queue_of m c = q"
  by (simp add: queue_of_def)

lemma sum_fun_upd_u8:
  fixes f :: "u8 \<Rightarrow> nat"
  shows "(\<Sum>c\<in>UNIV. if c = d then x else f c) + f d = (\<Sum>c\<in>UNIV. f c) + x"
proof -
  have "(\<Sum>c\<in>UNIV. if c = d then x else f c) = x + (\<Sum>c\<in>UNIV - {d}. f c)"
    by (subst sum.remove[of _ d]) (auto intro!: sum.cong)
  moreover have "(\<Sum>c\<in>UNIV. f c) = f d + (\<Sum>c\<in>UNIV - {d}. f c)"
    by (subst sum.remove[of _ d]) auto
  ultimately show ?thesis by simp
qed

lemma pending_consistent_release:
  assumes "pending_consistent peer" "pending_reliable peer c = Some q" "length q = length q' + n"
  shows "pending_consistent (peer\<lparr>pending_reliable := put_queue (pending_reliable peer) c q',
    pending_total := pending_total peer - n\<rparr>)"
proof -
  have "(\<Sum>d\<in>UNIV. length (queue_of (put_queue (pending_reliable peer) c q') d)) + length q =
      (\<Sum>d\<in>UNIV. length (queue_of (pending_reliable peer) d)) + length q'"
    using sum_fun_upd_u8[of c "length q'" "\<lambda>d. length (queue_of (pending_reliable peer) d)"] assms(2)
    by (simp add: queue_of_some if_distrib cong: if_cong)
  then show ?thesis using assms by (auto simp: pending_consistent_def put_queue_def)
qed

lemma position_less: "position P xs = Some i \<Longrightarrow> i < length xs"
  by (induction xs arbitrary: i) (auto split: if_splits)

lemma process_ack_consistent:
  assumes "pending_consistent peer"
  shows "pending_consistent (fst (process_ack peer bytes stats))"
proof -
  have "length q = length (drop (i + 1) q) + (i + 1)"
    if "position P q = Some i" for P i and q :: "pending_reliable list"
    using position_less[OF that] by simp
  moreover have "length q = length (filter (\<lambda>x. \<not> P x) q) + length (filter P q)"
    for P and q :: "pending_reliable list"
    using sum_length_filter_compl[of P q] by simp
  ultimately show ?thesis using assms pending_consistent_release
    by (simp add: process_ack_def process_sequenced_ack_def process_window_ack_def Let_def
        split: option.split)
qed

lemma ack_packet_fields:
  "build_ack_packet n c w bits ! 3 = c"
  "drop 4 (build_ack_packet n c w bits) = bits"
  "of_le [build_ack_packet n c w bits ! 1, build_ack_packet n c w bits ! 2] = w"
  "length (build_ack_packet n c w bits) = 4 + length bits"
proof -
  have "build_ack_packet n c w bits =
    [header_byte PAck n, to_le 2 w ! 0, to_le 2 w ! 1, c] @ bits" (is "?p = _")
    by (simp add: build_ack_packet_def numeral_2_eq_2)
  then show "?p ! 3 = c" "drop 4 ?p = bits" "length ?p = 4 + length bits"
    and "of_le [?p ! 1, ?p ! 2] = w"
    using of_le_to_le[of 2 w] by (simp_all add: numeral_2_eq_2)
qed

lemma acknowledged_iff_recorded:
  assumes "ack_wf a" "send_window q" "item \<in> set q" "in_window (window_start a) (pr_sequence (hd q))"
  shows "acknowledged (window_start a) (ack_bits a) item \<longleftrightarrow> pr_sequence item \<in> recorded a"
proof -
  have w: "valid_seq (window_start a)" using assms by (simp add: ack_wf_def)
  have "q \<noteq> []" using assms(3) by auto
  then have hd: "valid_seq (pr_sequence (hd q))" and it: "valid_seq (pr_sequence item)"
    and inw: "in_window (pr_sequence (hd q)) (pr_sequence item)"
    using assms by (auto simp: send_window_def)
  obtain j k where "j < 128" "pr_sequence (hd q) = seq_plus (window_start a) j"
    "k < 128" "pr_sequence item = seq_plus (pr_sequence (hd q)) k"
    using in_window_iff[OF w hd] in_window_iff[OF hd it] inw assms(4) by blast
  then have "relative_sequence (pr_sequence item) (window_start a) = int (j + k)"
    using relative_seq_plus[OF w, of "j + k"] by (simp add: seq_plus_add)
  then have "0 \<le> relative_sequence (pr_sequence item) (window_start a)" by simp
  then show ?thesis using it
    by (auto simp: acknowledged_def recorded_def in_window_def DEFAULT_WINDOW_SIZE_def)
qed

lemma process_window_ack_packet:
  assumes "c mod 4 \<noteq> 3" "ack_wf a"
  shows "process_ack peer (build_ack_packet n c (window_start a) (ack_bits a)) stats =
    process_window_ack peer c (window_start a) (ack_bits a) stats"
proof -
  have "length (build_ack_packet n c (window_start a) (ack_bits a)) = 21"
    using assms by (simp add: ack_packet_fields ack_wf_def window_consts)
  then show ?thesis using assms
    by (simp add: process_ack_def ack_packet_fields ack_expected_size_def header_sizes
        DEFAULT_WINDOW_SIZE_def del: of_le.simps One_nat_def)
qed

lemma process_ack_releases:
  assumes "pending_reliable peer c = Some q" and "q \<noteq> []" and "send_window q" and "ack_wf a"
    and "c mod 4 \<noteq> 3" and "in_window (window_start a) (pr_sequence (hd q))"
  shows "fst (process_ack peer (build_ack_packet n c (window_start a) (ack_bits a)) stats) =
    peer\<lparr>pending_reliable :=
           put_queue (pending_reliable peer) c (filter (\<lambda>item. pr_sequence item \<notin> recorded a) q),
         pending_total :=
           pending_total peer - length (filter (\<lambda>item. pr_sequence item \<in> recorded a) q)\<rparr>"
proof -
  have "filter (acknowledged (window_start a) (ack_bits a)) q = filter (\<lambda>i. pr_sequence i \<in> recorded a) q"
    and "filter (\<lambda>i. \<not> acknowledged (window_start a) (ack_bits a) i) q =
      filter (\<lambda>i. pr_sequence i \<notin> recorded a) q"
    using acknowledged_iff_recorded[OF assms(4,3) _ assms(6)] by (auto intro: filter_cong)
  moreover have "window_start a < MAX_SEQUENCE" using assms by (simp add: ack_wf_def valid_seq_def)
  ultimately show ?thesis using assms
    by (cases q) (auto simp: process_window_ack_packet process_window_ack_def in_window_def Let_def
        DEFAULT_WINDOW_SIZE_def)
qed

section \<open>Properties\<close>

definition acks_wf :: "peer_state \<Rightarrow> bool" where
  "acks_wf peer \<longleftrightarrow> (\<forall>c a. outgoing_acks peer c = Some a \<longrightarrow> ack_wf a)"

definition ack_of :: "peer_state \<Rightarrow> u8 \<Rightarrow> ack_state" where
  "ack_of peer c = (case outgoing_acks peer c of Some a \<Rightarrow> a | None \<Rightarrow> ack_state_default)"

text \<open>
  C3 (refinement). On the abstract view, \<open>queue_ack\<close> inserts the received sequence number into the
  set of recorded numbers and forgets only those that the window has moved past; a number from
  before the window is ignored. The newest number always ends up inside the window, the window never
  moves further than that requires, and the acknowledgement becomes due.
\<close>

theorem queue_ack_refines_insert:
  assumes "acks_wf peer" and "sequence < MAX_SEQUENCE"
  shows "let a = ack_of peer c; b = ack_of (queue_ack peer c sequence) c in
    ack_wf b \<and>
    (if relative_sequence sequence (window_start a) < 0
     then b = a
     else recorded b = insert sequence {t \<in> recorded a. in_window (window_start b) t} \<and>
          window_start b = seq_plus (window_start a) (nat (relative_sequence sequence (window_start a)) - 127) \<and>
          ack_dirty b \<and> reliable_active (queue_ack peer c sequence))"
proof -
  let ?a = "ack_of peer c"
  have s: "valid_seq sequence" using assms by (simp add: valid_seq_def)
  have a: "ack_wf ?a" using assms by (auto simp: ack_of_def acks_wf_def split: option.split)
  have b: "ack_of (queue_ack peer c sequence) c = record_ack sequence ?a"
    using assms(2) by (auto simp: queue_ack_def ack_of_def Let_def)
  have act: "reliable_active (queue_ack peer c sequence)"
    if "\<not> relative_sequence sequence (window_start ?a) < 0"
    using that assms(2) by (auto simp: queue_ack_def ack_of_def Let_def)
  show ?thesis
  proof (cases "relative_sequence sequence (window_start ?a) < 0")
    case True
    then show ?thesis using a by (simp add: b record_ack_def)
  next
    case False
    then show ?thesis
      using record_ack_window(1-3)[OF a s] record_ack_recorded[OF a s] act by (simp add: b Let_def)
  qed
qed

theorem queue_ack_refines_insert_witness:
  "let a = ack_of (new_peer 0 0) 2; b = ack_of (queue_ack (new_peer 0 0) 2 200) 2 in
    ack_wf b \<and>
    (if relative_sequence 200 (window_start a) < 0
     then b = a
     else recorded b = insert 200 {t \<in> recorded a. in_window (window_start b) t} \<and>
          window_start b = seq_plus (window_start a) (nat (relative_sequence 200 (window_start a)) - 127) \<and>
          ack_dirty b \<and> reliable_active (queue_ack (new_peer 0 0) 2 200))"
  by (rule queue_ack_refines_insert) (simp_all add: acks_wf_def new_peer_def MAX_SEQUENCE_def)

text \<open>
  C4 (functional). When the oldest packet in flight lies inside the window of an acknowledgement,
  processing the packet that \<open>build_ack_packet\<close> makes of it releases exactly the packets in flight
  whose sequence number the receiver has recorded, keeps the others in order, and lowers the count
  of packets in flight by the number released.
\<close>

theorem process_ack_releases_recorded:
  assumes "pending_reliable peer c = Some q" and "q \<noteq> []" and "send_window q" and "ack_wf a"
    and "c mod 4 \<noteq> 3" and "in_window (window_start a) (pr_sequence (hd q))"
  shows "fst (process_ack peer (build_ack_packet n c (window_start a) (ack_bits a)) stats) =
    peer\<lparr>pending_reliable :=
           put_queue (pending_reliable peer) c (filter (\<lambda>item. pr_sequence item \<notin> recorded a) q),
         pending_total :=
           pending_total peer - length (filter (\<lambda>item. pr_sequence item \<in> recorded a) q)\<rparr>"
  using assms by (rule process_ack_releases)

definition two_in_flight :: peer_state where
  "two_in_flight = (new_peer 0 0)\<lparr>
     pending_reliable := [2 \<mapsto> [\<lparr>pr_sequence = 0, pr_bytes = [1], pr_last_sent = 0\<rparr>,
                                \<lparr>pr_sequence = 1, pr_bytes = [2], pr_last_sent = 0\<rparr>]],
     pending_total := 2\<rparr>"

definition second_recorded :: ack_state where
  "second_recorded = record_ack 1 ack_state_default"

lemma second_recorded_start: "ack_wf second_recorded" "window_start second_recorded = 0"
  by (simp_all add: second_recorded_def record_ack_def relative_sequence_nat ack_state_default_def
      ack_wf_def window_consts set_ack_bit_def)

theorem process_ack_releases_recorded_witness:
  "fst (process_ack two_in_flight
      (build_ack_packet 0 2 (window_start second_recorded) (ack_bits second_recorded)) None) =
    two_in_flight\<lparr>pending_reliable :=
           put_queue (pending_reliable two_in_flight) 2
             (filter (\<lambda>item. pr_sequence item \<notin> recorded second_recorded)
               (queue_of (pending_reliable two_in_flight) 2)),
         pending_total :=
           pending_total two_in_flight -
             length (filter (\<lambda>item. pr_sequence item \<in> recorded second_recorded)
               (queue_of (pending_reliable two_in_flight) 2))\<rparr>"
  by (rule process_ack_releases_recorded)
    (simp_all add: two_in_flight_def queue_of_def send_window_def valid_seq_def MAX_SEQUENCE_def
      in_window_def relative_sequence_nat second_recorded_start)

text \<open>
  Whatever bytes arrive as an acknowledgement, well-formed or not, the counter
  \<open>pending_total\<close> keeps equal to the number of packets held in flight and no empty queue stays in the
  map; in particular the subtraction on the counter never underflows.
\<close>

theorem process_ack_keeps_count:
  assumes "pending_consistent peer"
  shows "pending_consistent (fst (process_ack peer bytes stats)) \<and>
    pending_total (fst (process_ack peer bytes stats)) \<le> pending_total peer"
proof -
  have "pending_total (fst (process_ack peer bytes stats)) \<le> pending_total peer"
    by (simp add: process_ack_def process_sequenced_ack_def process_window_ack_def Let_def
        split: option.split)
  then show ?thesis using process_ack_consistent[OF assms] by simp
qed

lemma two_in_flight_consistent: "pending_consistent two_in_flight"
proof -
  have "(\<Sum>c\<in>UNIV. length (queue_of (pending_reliable two_in_flight) c)) =
      (\<Sum>c\<in>{2}. length (queue_of (pending_reliable two_in_flight) c))"
    by (rule sum.mono_neutral_right) (auto simp: two_in_flight_def queue_of_def new_peer_def)
  then show ?thesis
    by (simp add: pending_consistent_def two_in_flight_def queue_of_def)
qed

theorem process_ack_keeps_count_witness:
  "pending_consistent (fst (process_ack two_in_flight [2, 0, 0, 3] None)) \<and>
    pending_total (fst (process_ack two_in_flight [2, 0, 0, 3] None)) \<le> pending_total two_in_flight"
  by (rule process_ack_keeps_count) (rule two_in_flight_consistent)

end
