(* ===== verification/ReliableSend.thy ===== *)
theory ReliableSend
  imports AckWindow
begin

text \<open>
  The reliable send path of \<open>basis-transport/src/lib.rs\<close>: admission of a batch into the outgoing
  queues with its budgets and its fragmentation, the send window, building and parsing channeled
  packets, and one pass of the dispatcher over a peer (\<open>reliable_dispatch_loop\<close>) up to the packets it
  hands to the datagram builder. The iteration order of a \<open>HashMap\<close> is a parameter: the list of its
  keys in the order visited.
\<close>

section \<open>The send window\<close>

definition reliable_window_capacity :: "u16 \<Rightarrow> u16 option \<Rightarrow> nat" where
  "reliable_window_capacity next_seq oldest_unacked =
     (let start = (case oldest_unacked of Some s \<Rightarrow> s | None \<Rightarrow> next_seq);
          span = relative_sequence next_seq start
      in if \<not> (0 \<le> span \<and> span \<le> int DEFAULT_WINDOW_SIZE) then 0
         else DEFAULT_WINDOW_SIZE - nat span)"

definition front_sequence :: "pending_reliable list \<Rightarrow> u16 option" where
  "front_sequence q = (case q of [] \<Rightarrow> None | item # _ \<Rightarrow> Some (pr_sequence item))"

definition dequeue_reliable_window ::
    "u16 \<Rightarrow> pending_reliable list \<Rightarrow> outgoing_reliable list \<Rightarrow> nat \<Rightarrow>
     outgoing_reliable list \<times> outgoing_reliable list" where
  "dequeue_reliable_window next_seq pending outgoing max_count =
     (let capacity = reliable_window_capacity next_seq (front_sequence pending);
          count = min (min capacity (length outgoing)) max_count
      in (take count outgoing, drop count outgoing))"

section \<open>Admission of a batch\<close>

text \<open>\<open>usize::div_ceil\<close> and \<open>slice::chunks\<close>\<close>

definition div_ceil :: "nat \<Rightarrow> nat \<Rightarrow> nat" where
  "div_ceil n k = (n + k - 1) div k"

function chunks :: "nat \<Rightarrow> 'a list \<Rightarrow> 'a list list" where
  "chunks k xs = (if xs = [] \<or> k = 0 then [] else take k xs # chunks k (drop k xs))"
  by auto
termination by (relation "measure (\<lambda>(k, xs). length xs)") auto

declare chunks.simps [simp del]

text \<open>A planned entry: channel id, payload, whether it is fragmented, number of packets.\<close>

type_synonym plan_entry = "u8 \<times> bytes \<times> bool \<times> nat"

definition plan_packet :: "u8 \<times> DeliveryMethod \<times> bytes \<Rightarrow> plan_entry option" where
  "plan_packet p =
     (case p of (channel, delivery, payload) \<Rightarrow>
        if \<not> is_reliable_delivery delivery \<or> length payload > MAX_QUEUED_RELIABLE_BYTES_PER_PEER then None
        else
          let fragmented = (length payload + LITENETLIB_CHANNELED_HEADER_SIZE > LITENETLIB_INITIAL_MTU \<and>
                            (delivery = ReliableOrdered \<or> delivery = ReliableUnordered));
              fragment_count = (if fragmented
                                then div_ceil (length payload) RELIABLE_FRAGMENT_PAYLOAD_SIZE else 1)
          in if fragmented \<and> (length payload > MAX_RELIABLE_FRAGMENTED_MESSAGE_BYTES \<or>
                              fragment_count > MAX_INCOMING_FRAGMENT_PARTS)
             then None
             else Some (delivery_channel_id channel delivery, payload, fragmented, fragment_count))"

fun plan_batch :: "(u8 \<times> DeliveryMethod \<times> bytes) list \<Rightarrow> plan_entry list option" where
  "plan_batch [] = Some []"
| "plan_batch (p # ps) =
     (case plan_packet p of
        None \<Rightarrow> None
      | Some e \<Rightarrow> map_option (\<lambda>es. e # es) (plan_batch ps))"

definition plan_bytes :: "plan_entry list \<Rightarrow> nat" where
  "plan_bytes plan = sum_list (map (\<lambda>(_, payload, _, _). length payload) plan)"

definition plan_packets :: "plan_entry list \<Rightarrow> nat" where
  "plan_packets plan = sum_list (map (\<lambda>(_, _, _, fragment_count). fragment_count) plan)"

definition fragment_parts :: "u16 \<Rightarrow> nat \<Rightarrow> bytes \<Rightarrow> outgoing_reliable list" where
  "fragment_parts fragment_id fragment_count payload =
     map (\<lambda>(part, chunk). \<lparr>or_payload = chunk,
            or_fragment = Some \<lparr>rf_id = fragment_id, rf_part = of_nat part, rf_total = of_nat fragment_count\<rparr>\<rparr>)
       (enumerate 0 (chunks RELIABLE_FRAGMENT_PAYLOAD_SIZE payload))"

definition push_queue :: "(u8 \<rightharpoonup> 'a list) \<Rightarrow> u8 \<Rightarrow> 'a list \<Rightarrow> (u8 \<rightharpoonup> 'a list)" where
  "push_queue m c items = m(c \<mapsto> queue_of m c @ items)"

definition publish_entry :: "peer_state \<Rightarrow> plan_entry \<Rightarrow> peer_state" where
  "publish_entry state e =
     (case e of (channel_id, payload, fragmented, fragment_count) \<Rightarrow>
        if \<not> fragmented then
          state\<lparr>outgoing_reliable := push_queue (outgoing_reliable state) channel_id
                   [\<lparr>or_payload = payload, or_fragment = None\<rparr>]\<rparr>
        else
          let fragment_id = next_fragment_id state + 1
          in state\<lparr>next_fragment_id := fragment_id,
                   outgoing_reliable := push_queue (outgoing_reliable state) channel_id
                     (fragment_parts fragment_id fragment_count payload)\<rparr>)"

definition enqueue_reliable_batch ::
    "peer_state \<Rightarrow> (u8 \<times> DeliveryMethod \<times> bytes) list \<Rightarrow> bool \<times> peer_state" where
  "enqueue_reliable_batch state packets =
     (if packets = [] then (True, state)
      else case plan_batch packets of
        None \<Rightarrow> (False, state)
      | Some plan \<Rightarrow>
          if plan_bytes plan > MAX_QUEUED_RELIABLE_BYTES_PER_PEER then (False, state)
          else if queued_reliable_bytes state + plan_bytes plan > MAX_QUEUED_RELIABLE_BYTES_PER_PEER \<or>
                  queued_reliable_packets state + plan_packets plan > MAX_QUEUED_RELIABLE_PACKETS_PER_PEER
          then (False, state)
          else
            (True, (foldl publish_entry state plan)
               \<lparr>queued_reliable_bytes := queued_reliable_bytes state + plan_bytes plan,
                queued_reliable_packets := queued_reliable_packets state + plan_packets plan,
                reliable_active := True\<rparr>))"

definition enqueue_reliable_payload ::
    "peer_state \<Rightarrow> u8 \<Rightarrow> DeliveryMethod \<Rightarrow> bytes \<Rightarrow> bool \<times> peer_state" where
  "enqueue_reliable_payload state channel delivery payload =
     enqueue_reliable_batch state [(channel, delivery, payload)]"

section \<open>Building and parsing packets\<close>

record built_packet =
  bp_bytes :: bytes
  bp_sequence :: u16
  bp_reliable_key :: "(u8 \<times> u16) option"

definition channeled_packet :: "u8 \<Rightarrow> u16 \<Rightarrow> u8 \<Rightarrow> reliable_fragment option \<Rightarrow> bytes \<Rightarrow> net_writer" where
  "channeled_packet header sequence channel_id fragment payload =
     (let w = put_u8 channel_id (put_u16 sequence (put_u8 header writer_new));
          w = (case fragment of
                 Some f \<Rightarrow> put_u16 (rf_total f) (put_u16 (rf_part f) (put_u16 (rf_id f) w))
               | None \<Rightarrow> w)
      in put_bytes payload w)"

definition build_queued_reliable_packet ::
    "peer_state \<Rightarrow> u8 \<Rightarrow> outgoing_reliable \<Rightarrow> built_packet \<times> peer_state" where
  "build_queued_reliable_packet state channel_id outgoing =
     (let (sequence, sequences) =
            (if channel_id mod 4 = delivery_offset ReliableSequenced
             then next_sequenced_channel_sequence (next_reliable_sequence state) channel_id
             else next_channel_sequence (next_reliable_sequence state) channel_id);
          header = header_byte PChanneled (connection_number state);
          header = (if or_fragment outgoing \<noteq> None then header OR 0x80 else header)
      in (\<lparr>bp_bytes = wdata (channeled_packet header sequence channel_id (or_fragment outgoing)
                               (or_payload outgoing)),
           bp_sequence = sequence, bp_reliable_key = Some (channel_id, sequence)\<rparr>,
          state\<lparr>next_reliable_sequence := sequences\<rparr>))"

definition build_outbound_packet ::
    "peer_state \<Rightarrow> u8 \<Rightarrow> DeliveryMethod \<Rightarrow> bytes \<Rightarrow> built_packet \<times> peer_state" where
  "build_outbound_packet state channel delivery payload =
     (case delivery of
        Unreliable \<Rightarrow>
          (\<lparr>bp_bytes = wdata (put_bytes payload (put_u8 channel
              (put_u8 (header_byte PUnreliable (connection_number state)) writer_new))),
            bp_sequence = 0, bp_reliable_key = None\<rparr>, state)
      | Sequenced \<Rightarrow>
          let channel_id = delivery_channel_id channel delivery;
              (sequence, sequences) =
                next_sequenced_channel_sequence (next_sequenced_sequence state) channel_id
          in (\<lparr>bp_bytes = wdata (channeled_packet (header_byte PChanneled (connection_number state))
                  sequence channel_id None payload),
               bp_sequence = 0, bp_reliable_key = None\<rparr>,
              state\<lparr>next_sequenced_sequence := sequences\<rparr>)
      | _ \<Rightarrow>
          let channel_id = delivery_channel_id channel delivery;
              (sequence, sequences) =
                next_channel_sequence (next_reliable_sequence state) channel_id
          in (\<lparr>bp_bytes = wdata (channeled_packet (header_byte PChanneled (connection_number state))
                  sequence channel_id None payload),
               bp_sequence = sequence, bp_reliable_key = Some (channel_id, sequence)\<rparr>,
              state\<lparr>next_reliable_sequence := sequences\<rparr>))"

text \<open>\<open>IncomingFragment\<close> has the same three fields as \<open>ReliableFragment\<close>.\<close>

record incoming_fragment =
  if_id :: u16
  if_part :: u16
  if_total :: u16

definition parse_message_packet ::
    "PacketProperty \<Rightarrow> bytes \<Rightarrow> (u8 \<times> DeliveryMethod \<times> bytes \<times> incoming_fragment option) option" where
  "parse_message_packet property bytes =
     (case property of
        PUnreliable \<Rightarrow>
          if length bytes < 2 then None else Some (bytes ! 1, Unreliable, drop 2 bytes, None)
      | PChanneled \<Rightarrow>
          if length bytes < 4 then None
          else
            let channel_id = bytes ! 3; channel = channel_id div 4; delivery = from_channel_id channel_id
            in if bytes ! 0 AND 0x80 \<noteq> 0 then
                 if length bytes < LITENETLIB_FRAGMENTED_HEADER_SIZE then None
                 else Some (channel, delivery, drop LITENETLIB_FRAGMENTED_HEADER_SIZE bytes,
                        Some \<lparr>if_id = of_le [bytes ! 4, bytes ! 5], if_part = of_le [bytes ! 6, bytes ! 7],
                              if_total = of_le [bytes ! 8, bytes ! 9]\<rparr>)
               else Some (channel, delivery, drop 4 bytes, None)
      | _ \<Rightarrow> None)"

definition disconnect_matches :: "peer_state \<Rightarrow> bytes \<Rightarrow> u8 \<Rightarrow> bool" where
  "disconnect_matches peer bytes number \<longleftrightarrow>
     \<not> (length bytes < 9 \<or> number \<noteq> connection_number peer) \<and>
     of_le (take 8 (drop 1 bytes)) = connect_time peer"

section \<open>Packets in flight\<close>

definition record_pending_reliable ::
    "peer_state \<Rightarrow> u8 \<Rightarrow> u16 \<Rightarrow> bytes \<Rightarrow> nat \<Rightarrow> transport_stats option \<Rightarrow>
     bool \<times> peer_state \<times> transport_stats option" where
  "record_pending_reliable state channel_id sequence bytes now stats =
     (if pending_total state \<ge> MAX_PENDING_RELIABLE_PER_PEER then (False, state, stats)
      else (True,
        state\<lparr>pending_reliable := push_queue (pending_reliable state) channel_id
                 [\<lparr>pr_sequence = sequence, pr_bytes = bytes, pr_last_sent = now\<rparr>],
              pending_total := pending_total state + 1,
              reliable_active := True\<rparr>,
        bump_stats (\<lambda>s. s\<lparr>reliable_window_fills := reliable_window_fills s + 1\<rparr>) stats))"

definition refresh_reliable_active :: "peer_state \<Rightarrow> peer_state" where
  "refresh_reliable_active state =
     (if pending_datagrams state \<noteq> [] \<or>
         list_ex (\<lambda>c. queue_of (pending_reliable state) c \<noteq> []) all_channels \<or>
         list_ex (\<lambda>c. queue_of (outgoing_reliable state) c \<noteq> []) all_channels \<or>
         list_ex (\<lambda>c. case outgoing_acks state c of Some a \<Rightarrow> ack_dirty a | None \<Rightarrow> False) all_channels
      then state else state\<lparr>reliable_active := False\<rparr>)"

section \<open>One dispatcher pass over a peer\<close>

text \<open>Step 1: the acknowledgements that have news, in the order of the map.\<close>

fun release_acks :: "u8 list \<Rightarrow> peer_state \<Rightarrow> bytes list \<times> peer_state" where
  "release_acks [] state = ([], state)"
| "release_acks (c # cs) state =
     (case outgoing_acks state c of
        Some a \<Rightarrow>
          if ack_dirty a then
            let (built, state') = release_acks cs
                  (state\<lparr>outgoing_acks := (outgoing_acks state)(c \<mapsto> a\<lparr>ack_dirty := False\<rparr>)\<rparr>)
            in (build_ack_packet (connection_number state) c (window_start a) (ack_bits a) # built, state')
          else release_acks cs state
      | None \<Rightarrow> release_acks cs state)"

text \<open>Step 2: queued payloads move into the free part of each window, within the aggregate budget.\<close>

definition channel_next :: "peer_state \<Rightarrow> u8 \<Rightarrow> u16" where
  "channel_next state c = (case next_reliable_sequence state c of Some s \<Rightarrow> s | None \<Rightarrow> 0)"

fun take_windows :: "u8 list \<Rightarrow> nat \<Rightarrow> peer_state \<Rightarrow> (u8 \<times> outgoing_reliable) list \<times> peer_state" where
  "take_windows [] budget state = ([], state)"
| "take_windows (c # cs) budget state =
     (if budget = 0 then ([], state)
      else case outgoing_reliable state c of
        None \<Rightarrow> take_windows cs budget state
      | Some queue \<Rightarrow>
          let (payloads, queue') = dequeue_reliable_window (channel_next state c)
                 (queue_of (pending_reliable state) c) queue budget;
              (more, state') = take_windows cs (budget - length payloads)
                 (state\<lparr>outgoing_reliable := (outgoing_reliable state)(c \<mapsto> queue')\<rparr>)
          in (map (Pair c) payloads @ more, state'))"

text \<open>Step 3: each one gets its sequence number, is recorded as in flight, and goes to the builder.\<close>

fun send_queued ::
    "nat \<Rightarrow> (u8 \<times> outgoing_reliable) list \<Rightarrow> peer_state \<Rightarrow> transport_stats option \<Rightarrow>
     bytes list \<times> peer_state \<times> transport_stats option" where
  "send_queued now [] state stats = ([], state, stats)"
| "send_queued now ((channel_id, payload) # rest) state stats =
     (let (built, state1) = build_queued_reliable_packet state channel_id payload;
          (recorded_ok, state2, stats2) = record_pending_reliable state1 channel_id (bp_sequence built)
             (bp_bytes built) now stats;
          (packets, state3, stats3) = send_queued now rest state2 stats2
      in (if recorded_ok then bp_bytes built # packets else packets, state3, stats3))"

definition dispatch_queued ::
    "nat \<Rightarrow> u8 list \<Rightarrow> peer_state \<Rightarrow> transport_stats option \<Rightarrow> bytes list \<times> peer_state \<times> transport_stats option"
where
  "dispatch_queued now order state stats =
     (let (newly_queued, state1) = take_windows order
             (MAX_PENDING_RELIABLE_PER_PEER - pending_total state) state;
          released = sum_list (map (\<lambda>(_, payload). length (or_payload payload)) newly_queued);
          state2 = state1\<lparr>queued_reliable_bytes := queued_reliable_bytes state1 - released,
                          queued_reliable_packets := queued_reliable_packets state1 - length newly_queued\<rparr>
      in send_queued now newly_queued state2 stats)"

definition dispatch_pass ::
    "nat \<Rightarrow> u8 list \<Rightarrow> u8 list \<Rightarrow> peer_state \<Rightarrow> transport_stats option \<Rightarrow>
     bytes list \<times> peer_state \<times> transport_stats option" where
  "dispatch_pass now ack_order order state stats =
     (let (acks, state1) = release_acks ack_order state;
          (packets, state2, stats2) = dispatch_queued now order state1 stats;
          state3 = (if list_all (\<lambda>c. queue_of (outgoing_reliable state2) c = []) all_channels \<and>
                       pending_total state2 = 0
                    then refresh_reliable_active state2 else state2)
      in (acks @ packets, state3, stats2))"

section \<open>Fragmentation\<close>

lemma concat_chunks: "0 < k \<Longrightarrow> concat (chunks k xs) = xs"
  by (induction k xs rule: chunks.induct) (subst chunks.simps, simp)

lemma length_chunk: "c \<in> set (chunks k xs) \<Longrightarrow> c \<noteq> [] \<and> length c \<le> k"
proof (induction k xs rule: chunks.induct)
  case (1 k xs)
  then show ?case by (subst (asm) (2) chunks.simps) (auto split: if_splits)
qed

lemma div_ceil_step:
  assumes "0 < k" and "0 < n"
  shows "div_ceil n k = Suc (div_ceil (n - k) k)"
proof -
  have "n + k - 1 = (n - 1) + k" using assms by simp
  then have "div_ceil n k = Suc ((n - 1) div k)"
    unfolding div_ceil_def using div_add_self2[of k "n - 1"] assms by simp
  moreover have "div_ceil (n - k) k = (n - 1) div k"
  proof (cases "k \<le> n")
    case True
    then show ?thesis by (simp add: div_ceil_def)
  next
    case False
    then show ?thesis using assms by (simp add: div_ceil_def)
  qed
  ultimately show ?thesis by simp
qed

lemma length_chunks: "0 < k \<Longrightarrow> length (chunks k xs) = div_ceil (length xs) k"
proof (induction k xs rule: chunks.induct)
  case (1 k xs)
  show ?case
  proof (cases "xs = []")
    case True
    then show ?thesis using 1 by (subst chunks.simps) (simp add: div_ceil_def)
  next
    case False
    then have "length (chunks k xs) = Suc (div_ceil (length xs - k) k)"
      using 1 by (subst chunks.simps) simp
    then show ?thesis using div_ceil_step[of k "length xs"] False 1 by simp
  qed
qed

lemma RELIABLE_FRAGMENT_PAYLOAD_SIZE_1014: "RELIABLE_FRAGMENT_PAYLOAD_SIZE = 1014"
  by (simp add: header_sizes)

lemma fragment_parts_simps:
  "map or_payload (fragment_parts i n p) = chunks RELIABLE_FRAGMENT_PAYLOAD_SIZE p"
  "length (fragment_parts i n p) = div_ceil (length p) RELIABLE_FRAGMENT_PAYLOAD_SIZE"
proof -
  have "map or_payload (fragment_parts i n p) = map snd (enumerate 0 (chunks RELIABLE_FRAGMENT_PAYLOAD_SIZE p))"
    unfolding fragment_parts_def by (simp add: case_prod_unfold comp_def)
  then show "map or_payload (fragment_parts i n p) = chunks RELIABLE_FRAGMENT_PAYLOAD_SIZE p"
    by simp
  show "length (fragment_parts i n p) = div_ceil (length p) RELIABLE_FRAGMENT_PAYLOAD_SIZE"
    by (simp add: fragment_parts_def length_chunks header_sizes)
qed

section \<open>Packets that are built are parsed back\<close>

lemma header_top_bit:
  assumes "n < 4"
  shows "header_byte p n AND 0x80 = 0" and "(header_byte p n OR 0x80) AND 0x80 \<noteq> 0"
proof -
  have "\<not> bit (header_byte p n) 7"
  proof -
    have "take_bit 2 n = n"
      using assms by (simp add: take_bit_eq_mod word_less_nat_alt word_unat_eq_iff unat_mod)
    then have "\<not> bit n 2" by (metis bit_take_bit_iff less_irrefl)
    moreover have "\<not> bit (property_u8 p) 7" by (cases p) (simp_all add: bit_numeral_rec)
    ultimately show ?thesis by (simp add: header_byte_def bit_simps)
  qed
  then have t: "\<not> bit (header_byte p n) 7" .
  have b: "(0x80 :: u8) = push_bit 7 1" by simp
  show "header_byte p n AND 0x80 = 0"
    unfolding b push_bit_of_1 and_exp_eq_0_iff_not_bit by (rule t)
  show "(header_byte p n OR 0x80) AND 0x80 \<noteq> 0"
    unfolding b push_bit_of_1 and_exp_eq_0_iff_not_bit by (simp add: bit_or_iff bit_exp_iff)
qed

lemma channeled_bytes:
  "wdata (channeled_packet h s c None p) = [h, ucast s, ucast (drop_bit 8 s), c] @ p"
  "wdata (channeled_packet h s c (Some f) p) =
    [h, ucast s, ucast (drop_bit 8 s), c, ucast (rf_id f), ucast (drop_bit 8 (rf_id f)),
     ucast (rf_part f), ucast (drop_bit 8 (rf_part f)), ucast (rf_total f), ucast (drop_bit 8 (rf_total f))] @ p"
  by (simp_all add: channeled_packet_def writer_new_def put_u8_def put_u16_def put_bytes_def to_le_2)

lemma of_le_pair: "of_le [ucast s, ucast (drop_bit 8 s)] = (s :: u16)"
  using of_le_to_le[of 2 s] by (simp add: to_le_2)

definition parsed_fragment :: "reliable_fragment option \<Rightarrow> incoming_fragment option" where
  "parsed_fragment = map_option (\<lambda>f. \<lparr>if_id = rf_id f, if_part = rf_part f, if_total = rf_total f\<rparr>)"

lemma parse_channeled:
  assumes "n < 4"
  shows "parse_message_packet PChanneled
      (wdata (channeled_packet (let h = header_byte PChanneled n in
         if f \<noteq> None then h OR 0x80 else h) s c f p)) =
    Some (c div 4, from_channel_id c, p, parsed_fragment f)"
  using header_top_bit[OF assms, of PChanneled]
  by (cases f) (simp_all add: parse_message_packet_def channeled_bytes parsed_fragment_def of_le_pair
      header_sizes Let_def del: of_le.simps)

lemma property_of_channeled:
  "property_from_byte (if b then header_byte p n OR 0x80 else header_byte p n) = Some p"
proof -
  have "header_byte p n OR 0x80 = header_byte p (n OR 4)"
    by (simp add: header_byte_def push_bit_or or.assoc)
  then show ?thesis by simp
qed

lemma delivery_channel_id_inverse:
  assumes "channel < 64" and "is_reliable_delivery delivery"
  shows "delivery_channel_id channel delivery div 4 = channel"
    and "from_channel_id (delivery_channel_id channel delivery) = delivery"
proof -
  let ?o = "delivery_offset delivery"
  have o: "unat ?o < 4" by (cases delivery) simp_all
  have u: "unat (delivery_channel_id channel delivery) = unat channel * 4 + unat ?o"
    using assms(1) o unfolding delivery_channel_id_def
    by (simp add: unat_word_ariths word_less_nat_alt)
  show "delivery_channel_id channel delivery div 4 = channel"
    using o by (simp add: word_unat_eq_iff unat_div u)
  have "delivery_channel_id channel delivery mod 4 = ?o"
    using o by (simp add: word_unat_eq_iff unat_mod u)
  then show "from_channel_id (delivery_channel_id channel delivery) = delivery"
    using assms(2) by (cases delivery) (simp_all add: from_channel_id_def is_reliable_delivery_def)
qed

section \<open>Queue totals\<close>

definition total :: "('a \<Rightarrow> nat) \<Rightarrow> (u8 \<rightharpoonup> 'a list) \<Rightarrow> nat" where
  "total f m = (\<Sum>c\<in>UNIV. sum_list (map f (queue_of m c)))"

lemma queue_of_upd [simp]: "queue_of (m(c \<mapsto> q)) d = (if d = c then q else queue_of m d)"
  by (simp add: queue_of_def)

lemma queue_of_push [simp]:
  "queue_of (push_queue m c items) d = (if d = c then queue_of m c @ items else queue_of m d)"
  by (simp add: push_queue_def)

lemma total_upd:
  "total f (m(c \<mapsto> q)) + sum_list (map f (queue_of m c)) = total f m + sum_list (map f q)"
  using sum_fun_upd_u8[of c "sum_list (map f q)" "\<lambda>d. sum_list (map f (queue_of m d))"]
  by (simp add: total_def if_distrib cong: if_cong)

lemma total_push: "total f (push_queue m c items) = total f m + sum_list (map f items)"
  using total_upd[of f m c "queue_of m c @ items"] by (simp add: push_queue_def)

lemma total_drop:
  assumes "m c = Some q"
  shows "total f (m(c \<mapsto> drop n q)) + sum_list (map f (take n q)) = total f m"
proof -
  have "sum_list (map f q) = sum_list (map f (take n q)) + sum_list (map f (drop n q))"
    by (metis append_take_drop_id map_append sum_list_append)
  then show ?thesis using total_upd[of f m c "drop n q"] assms by (simp add: queue_of_some)
qed

lemma total_ones: "total (\<lambda>_. 1) m = (\<Sum>c\<in>UNIV. length (queue_of m c))"
  by (simp add: total_def sum_list_triv)

definition queue_budget :: "peer_state \<Rightarrow> bool" where
  "queue_budget state \<longleftrightarrow>
     queued_reliable_bytes state = total (\<lambda>x. length (or_payload x)) (outgoing_reliable state) \<and>
     queued_reliable_packets state = total (\<lambda>_. 1) (outgoing_reliable state) \<and>
     queued_reliable_bytes state \<le> MAX_QUEUED_RELIABLE_BYTES_PER_PEER \<and>
     queued_reliable_packets state \<le> MAX_QUEUED_RELIABLE_PACKETS_PER_PEER"

section \<open>Admission of a batch\<close>

text \<open>The packets that one planned entry turns into.\<close>

definition entry_items :: "u16 \<Rightarrow> plan_entry \<Rightarrow> outgoing_reliable list" where
  "entry_items next_id e =
     (case e of (_, payload, fragmented, fragment_count) \<Rightarrow>
        if \<not> fragmented then [\<lparr>or_payload = payload, or_fragment = None\<rparr>]
        else fragment_parts (next_id + 1) fragment_count payload)"

definition plan_ok :: "plan_entry \<Rightarrow> bool" where
  "plan_ok e \<longleftrightarrow>
     (case e of (_, payload, fragmented, fragment_count) \<Rightarrow>
        if fragmented then fragment_count = div_ceil (length payload) RELIABLE_FRAGMENT_PAYLOAD_SIZE \<and>
                           fragment_count \<le> MAX_INCOMING_FRAGMENT_PARTS
        else fragment_count = 1)"

lemma publish_entry_outgoing:
  "outgoing_reliable (publish_entry state e) =
    push_queue (outgoing_reliable state) (fst e) (entry_items (next_fragment_id state) e)"
  by (cases e) (simp add: publish_entry_def entry_items_def Let_def)

lemma entry_items_payload: "concat (map or_payload (entry_items i e)) = fst (snd e)"
  by (cases e) (simp add: entry_items_def fragment_parts_simps concat_chunks header_sizes)

lemma entry_items_bytes: "sum_list (map (\<lambda>x. length (or_payload x)) (entry_items i e)) = length (fst (snd e))"
  unfolding entry_items_payload[of i e, symmetric] by (simp add: length_concat comp_def)

lemma entry_items_count: "plan_ok e \<Longrightarrow> length (entry_items i e) = snd (snd (snd e))"
  by (cases e) (simp add: entry_items_def plan_ok_def fragment_parts_simps split: if_splits)

lemma publish_all:
  "(\<forall>e\<in>set plan. plan_ok e) \<Longrightarrow>
   total (\<lambda>x. length (or_payload x)) (outgoing_reliable (foldl publish_entry state plan)) =
     total (\<lambda>x. length (or_payload x)) (outgoing_reliable state) + plan_bytes plan \<and>
   total (\<lambda>_. 1) (outgoing_reliable (foldl publish_entry state plan)) =
     total (\<lambda>_. 1) (outgoing_reliable state) + plan_packets plan \<and>
   (\<forall>c. concat (map or_payload (queue_of (outgoing_reliable (foldl publish_entry state plan)) c)) =
      concat (map or_payload (queue_of (outgoing_reliable state) c)) @
      concat (map (\<lambda>e. fst (snd e)) (filter (\<lambda>e. fst e = c) plan)))"
proof (induction plan arbitrary: state)
  case Nil
  then show ?case by (simp add: plan_bytes_def plan_packets_def)
next
  case (Cons e plan)
  then show ?case
    by (auto simp: publish_entry_outgoing total_push entry_items_bytes entry_items_count
        entry_items_payload plan_bytes_def plan_packets_def case_prod_unfold sum_list_triv)
qed

lemma plan_packet_ok:
  assumes "plan_packet (channel, delivery, payload) = Some e"
  shows "plan_ok e" and "fst e = delivery_channel_id channel delivery" and "fst (snd e) = payload"
  using assms by (auto simp: plan_packet_def plan_ok_def Let_def split: if_splits)

lemma plan_batch_ok:
  assumes "plan_batch packets = Some plan"
  shows "(\<forall>e\<in>set plan. plan_ok e) \<and>
    map (\<lambda>e. (fst e, fst (snd e))) plan =
      map (\<lambda>(channel, delivery, payload). (delivery_channel_id channel delivery, payload)) packets"
  using assms
proof (induction packets arbitrary: plan)
  case (Cons p packets)
  obtain channel delivery payload where p: "p = (channel, delivery, payload)" by (cases p)
  then show ?case using Cons plan_packet_ok[of channel delivery payload]
    by (auto split: option.splits)
qed simp

lemma publish_other_fields:
  "queued_reliable_bytes (foldl publish_entry state plan) = queued_reliable_bytes state \<and>
   queued_reliable_packets (foldl publish_entry state plan) = queued_reliable_packets state"
  by (induction plan arbitrary: state) (auto simp: publish_entry_def Let_def split: prod.split)

text \<open>The payload bytes of a batch that are meant for one channel id, in order.\<close>

definition batch_stream :: "u8 \<Rightarrow> (u8 \<times> DeliveryMethod \<times> bytes) list \<Rightarrow> bytes" where
  "batch_stream c packets =
     concat (map (\<lambda>(_, _, payload). payload)
       (filter (\<lambda>(channel, delivery, _). delivery_channel_id channel delivery = c) packets))"

definition queue_stream :: "peer_state \<Rightarrow> u8 \<Rightarrow> bytes" where
  "queue_stream state c = concat (map or_payload (queue_of (outgoing_reliable state) c))"

lemma batch_stream_plan:
  assumes "map (\<lambda>e. (fst e, fst (snd e))) plan =
      map (\<lambda>(channel, delivery, payload). (delivery_channel_id channel delivery, payload)) packets"
  shows "concat (map (\<lambda>e. fst (snd e)) (filter (\<lambda>e. fst e = c) plan)) = batch_stream c packets"
  using assms
proof (induction packets arbitrary: plan)
  case (Cons p packets)
  then show ?case by (cases plan) (auto simp: batch_stream_def split: prod.splits)
qed (simp add: batch_stream_def)

lemma enqueue_batch_cases:
  assumes "enqueue_reliable_batch state packets = (ok, state')"
  shows "(\<not> ok \<and> state' = state) \<or> (ok \<and> packets = [] \<and> state' = state) \<or>
    (\<exists>plan. ok \<and> plan_batch packets = Some plan \<and>
       queued_reliable_bytes state + plan_bytes plan \<le> MAX_QUEUED_RELIABLE_BYTES_PER_PEER \<and>
       queued_reliable_packets state + plan_packets plan \<le> MAX_QUEUED_RELIABLE_PACKETS_PER_PEER \<and>
       state' = (foldl publish_entry state plan)
         \<lparr>queued_reliable_bytes := queued_reliable_bytes state + plan_bytes plan,
          queued_reliable_packets := queued_reliable_packets state + plan_packets plan,
          reliable_active := True\<rparr>)"
  using assms by (auto simp: enqueue_reliable_batch_def split: if_splits option.splits)

section \<open>The send window\<close>

text \<open>\<open>behind n s\<close> is how many steps the number \<open>s\<close> lies behind the next number \<open>n\<close>.\<close>

definition behind :: "u16 \<Rightarrow> u16 \<Rightarrow> nat" where
  "behind n s = (unat n + 32768 - unat s) mod 32768"

definition in_flight_ok :: "u16 \<Rightarrow> pending_reliable list \<Rightarrow> bool" where
  "in_flight_ok n q \<longleftrightarrow> valid_seq n \<and>
     (\<forall>item\<in>set q. valid_seq (pr_sequence item) \<and> 1 \<le> behind n (pr_sequence item) \<and>
        behind n (pr_sequence item) \<le> 128) \<and>
     sorted_wrt (\<lambda>a b. behind n (pr_sequence a) > behind n (pr_sequence b)) q"

lemma seq_plus_behind:
  assumes "valid_seq s" and "valid_seq n"
  shows "seq_plus s (behind n s) = n"
proof -
  have "unat s \<le> unat n + 32768" using assms by (simp add: valid_seq_unat)
  then have "(unat s + (unat n + 32768 - unat s) mod 32768) mod 32768 = (unat n + 32768) mod 32768"
    by (simp add: mod_add_right_eq)
  then show ?thesis
    using assms by (simp add: word_unat_eq_iff unat_seq_plus behind_def valid_seq_unat)
qed

lemma behind_seq_plus:
  assumes "valid_seq s" and "k < 32768"
  shows "behind (seq_plus s k) s = k"
proof (rule seq_plus_inject)
  show "seq_plus s (behind (seq_plus s k) s) = seq_plus s k"
    using assms by (simp add: seq_plus_behind)
qed (use assms in \<open>simp_all add: behind_def\<close>)

lemma behind_next:
  assumes "valid_seq s" and "valid_seq n" and "behind n s < 32767"
  shows "behind (next_sequence n) s = Suc (behind n s)"
proof -
  have "seq_plus s (Suc (behind n s)) = next_sequence n"
    using assms by (simp add: seq_plus_behind flip: next_sequence_plus)
  then show ?thesis using behind_seq_plus[of s "Suc (behind n s)"] assms by simp
qed

lemma in_flight_capacity:
  assumes "in_flight_ok n q"
  shows "reliable_window_capacity n (front_sequence q) = (if q = [] then 128 else 128 - behind n (pr_sequence (hd q)))"
proof (cases q)
  case Nil
  then show ?thesis
    by (simp add: reliable_window_capacity_def front_sequence_def DEFAULT_WINDOW_SIZE_def)
next
  case (Cons item r)
  then have s: "valid_seq (pr_sequence item)" "valid_seq n" "behind n (pr_sequence item) \<le> 128"
    using assms by (auto simp: in_flight_ok_def)
  then have "relative_sequence n (pr_sequence item) = int (behind n (pr_sequence item))"
    using relative_seq_plus[of "pr_sequence item" "behind n (pr_sequence item)"]
    by (simp add: seq_plus_behind)
  with s Cons show ?thesis
    by (simp add: reliable_window_capacity_def front_sequence_def DEFAULT_WINDOW_SIZE_def Let_def)
qed

lemma in_flight_append:
  assumes "in_flight_ok n q" and "q \<noteq> [] \<Longrightarrow> behind n (pr_sequence (hd q)) < 128"
  shows "in_flight_ok (next_sequence n) (q @ [\<lparr>pr_sequence = n, pr_bytes = b, pr_last_sent = t\<rparr>])"
proof -
  have lt: "behind n (pr_sequence item) < 128" if "item \<in> set q" for item
    using assms that by (cases q) (force simp: in_flight_ok_def)+
  have nxt: "behind (next_sequence n) (pr_sequence item) = Suc (behind n (pr_sequence item))" if "item \<in> set q" for item
    using assms(1) lt[OF that] that by (intro behind_next) (auto simp: in_flight_ok_def)
  have n: "valid_seq n" using assms(1) by (simp add: in_flight_ok_def)
  have one: "behind (next_sequence n) n = 1"
    using behind_seq_plus[OF n, of 1] next_sequence_plus[of n 0] by (simp add: seq_plus_0 n)
  have "sorted_wrt (\<lambda>a b. behind (next_sequence n) (pr_sequence a) > behind (next_sequence n) (pr_sequence b)) q"
    using assms(1) nxt by (auto simp: in_flight_ok_def intro: sorted_wrt_mono_rel[rotated])
  then show ?thesis using assms(1) lt nxt one n
    by (auto simp: in_flight_ok_def sorted_wrt_append Suc_le_eq)
qed

lemma in_flight_filter: "in_flight_ok n q \<Longrightarrow> in_flight_ok n (filter P q)"
  by (auto simp: in_flight_ok_def sorted_wrt_filter)

lemma in_flight_drop:
  assumes "in_flight_ok n q"
  shows "in_flight_ok n (drop k q)"
  using assms by (auto simp: in_flight_ok_def sorted_wrt_drop dest: in_set_dropD)

text \<open>What the sender keeps in flight is a send window in the sense of the acknowledgements.\<close>

lemma in_flight_send_window:
  assumes "in_flight_ok n q"
  shows "send_window q"
proof (cases q)
  case Nil
  then show ?thesis by (simp add: send_window_def)
next
  case (Cons f r)
  have f: "valid_seq (pr_sequence f)" "behind n (pr_sequence f) \<le> 128" and n: "valid_seq n"
    using assms Cons by (auto simp: in_flight_ok_def)
  have "in_window (pr_sequence f) (pr_sequence item)" if "item \<in> set q" for item
  proof -
    have s: "valid_seq (pr_sequence item)" "1 \<le> behind n (pr_sequence item)"
      using assms that by (auto simp: in_flight_ok_def)
    have le: "behind n (pr_sequence item) \<le> behind n (pr_sequence f)"
      using assms that Cons by (auto simp: in_flight_ok_def intro: less_imp_le)
    let ?k = "behind n (pr_sequence f) - behind n (pr_sequence item)"
    have "seq_plus (seq_plus (pr_sequence f) ?k) (behind n (pr_sequence item)) = n"
      using le f n by (simp add: seq_plus_add seq_plus_behind)
    then have "seq_plus (seq_plus (pr_sequence f) ?k) (behind n (pr_sequence item)) =
        seq_plus (pr_sequence item) (behind n (pr_sequence item))"
      using s n by (simp add: seq_plus_behind)
    then have "pr_sequence item = seq_plus (pr_sequence f) ?k"
      by (rule seq_plus_cancel[symmetric]) (simp_all only: valid_seq_plus s(1))
    moreover have "?k < 128" using f s by simp
    ultimately show ?thesis using in_window_iff[of "pr_sequence f" "pr_sequence item"] f s by auto
  qed
  then show ?thesis using assms Cons by (auto simp: send_window_def in_flight_ok_def)
qed

definition window_used :: "u16 \<Rightarrow> pending_reliable list \<Rightarrow> nat" where
  "window_used n q = (case q of [] \<Rightarrow> 0 | item # _ \<Rightarrow> behind n (pr_sequence item))"

lemma in_flight_step:
  assumes "in_flight_ok n q" and "window_used n q < 128"
  shows "in_flight_ok (next_sequence n) (q @ [\<lparr>pr_sequence = n, pr_bytes = b, pr_last_sent = t\<rparr>])"
    and "window_used (next_sequence n) (q @ [\<lparr>pr_sequence = n, pr_bytes = b, pr_last_sent = t\<rparr>]) =
      Suc (window_used n q)"
proof -
  show "in_flight_ok (next_sequence n) (q @ [\<lparr>pr_sequence = n, pr_bytes = b, pr_last_sent = t\<rparr>])"
    by (rule in_flight_append[OF assms(1)]) (use assms(2) in \<open>simp add: window_used_def split: list.splits\<close>)
  have n: "valid_seq n" using assms(1) by (simp add: in_flight_ok_def)
  show "window_used (next_sequence n) (q @ [\<lparr>pr_sequence = n, pr_bytes = b, pr_last_sent = t\<rparr>]) =
      Suc (window_used n q)"
  proof (cases q)
    case Nil
    then show ?thesis
      using behind_seq_plus[OF n, of 1] next_sequence_plus[of n 0] by (simp add: window_used_def seq_plus_0 n)
  next
    case (Cons item r)
    then show ?thesis using assms by (simp add: window_used_def behind_next in_flight_ok_def)
  qed
qed

section \<open>The dispatcher\<close>

definition windows_ok :: "peer_state \<Rightarrow> bool" where
  "windows_ok state \<longleftrightarrow>
     (\<forall>c. c mod 4 \<noteq> 3 \<longrightarrow> in_flight_ok (channel_next state c) (queue_of (pending_reliable state) c))"

definition send_inv :: "peer_state \<Rightarrow> bool" where
  "send_inv state \<longleftrightarrow> pending_consistent state \<and> pending_total state \<le> MAX_PENDING_RELIABLE_PER_PEER \<and>
     queue_budget state \<and> windows_ok state"

definition for_channel :: "u8 \<Rightarrow> (u8 \<times> 'a) list \<Rightarrow> 'a list" where
  "for_channel c xs = map snd (filter (\<lambda>x. fst x = c) xs)"

lemma for_channel_simps [simp]:
  "for_channel c [] = []"
  "for_channel c ((d, x) # xs) = (if d = c then x # for_channel c xs else for_channel c xs)"
  "for_channel c (xs @ ys) = for_channel c xs @ for_channel c ys"
  by (simp_all add: for_channel_def)

lemma for_channel_map [simp]: "for_channel c (map (Pair d) xs) = (if d = c then xs else [])"
  by (induction xs) auto

lemma dequeue_facts:
  assumes "dequeue_reliable_window n p q k = (taken, rest)"
  shows "q = taken @ rest" and "length taken \<le> k"
    and "length taken \<le> reliable_window_capacity n (front_sequence p)"
    and "taken = take (length taken) q" and "rest = drop (length taken) q"
  using assms by (auto simp: dequeue_reliable_window_def Let_def)

lemma take_windows_facts:
  assumes "take_windows order k state = (new, state')"
  shows "state' = state\<lparr>outgoing_reliable := outgoing_reliable state'\<rparr> \<and> length new \<le> k \<and>
    total f (outgoing_reliable state') + sum_list (map (f \<circ> snd) new) = total f (outgoing_reliable state) \<and>
    (\<forall>c. queue_of (outgoing_reliable state) c = for_channel c new @ queue_of (outgoing_reliable state') c) \<and>
    (\<forall>c. c \<notin> set order \<longrightarrow> for_channel c new = []) \<and>
    (distinct order \<longrightarrow> (\<forall>c. length (for_channel c new) \<le>
      reliable_window_capacity (channel_next state c) (front_sequence (queue_of (pending_reliable state) c))))"
  using assms
proof (induction order k state arbitrary: new state' rule: take_windows.induct)
  case (1 k state)
  then show ?case by simp
next
  case (2 c cs k state)
  show ?case
  proof (cases "k = 0 \<or> outgoing_reliable state c = None")
    case True
    then show ?thesis using 2 by (auto split: if_splits)
  next
    case False
    then obtain q where k: "k \<noteq> 0" and q: "outgoing_reliable state c = Some q" by auto
    obtain taken rest where d: "dequeue_reliable_window (channel_next state c)
        (queue_of (pending_reliable state) c) q k = (taken, rest)" by fastforce
    let ?s = "state\<lparr>outgoing_reliable := (outgoing_reliable state)(c \<mapsto> rest)\<rparr>"
    obtain more where m: "take_windows cs (k - length taken) ?s = (more, state')"
      and new: "new = map (Pair c) taken @ more"
      using "2.prems" k q d by (auto split: prod.splits)
    note df = dequeue_facts[OF d]
    note ih = "2.IH"(2)[OF k q d[symmetric] refl m]
    have s: "state' = ?s\<lparr>outgoing_reliable := outgoing_reliable state'\<rparr>"
      and ln: "length more \<le> k - length taken"
      and tt: "total f (outgoing_reliable state') + sum_list (map (f \<circ> snd) more) = total f (outgoing_reliable ?s)"
      using ih by blast+
    have t: "total f (outgoing_reliable ?s) + sum_list (map f taken) = total f (outgoing_reliable state)"
      using total_drop[of "outgoing_reliable state" c q f "length taken", OF q] df(4,5) by simp
    have cn: "channel_next ?s = channel_next state" by (simp add: channel_next_def fun_eq_iff)
    show ?thesis
    proof (intro conjI)
      show "state' = state\<lparr>outgoing_reliable := outgoing_reliable state'\<rparr>" using s by simp
      show "length new \<le> k" using ln df(2) by (simp add: new)
      show "total f (outgoing_reliable state') + sum_list (map (f \<circ> snd) new) = total f (outgoing_reliable state)"
        using tt t by (simp add: new comp_def)
      show "\<forall>d. queue_of (outgoing_reliable state) d = for_channel d new @ queue_of (outgoing_reliable state') d"
      proof
        fix d
        have e: "queue_of (outgoing_reliable ?s) d = for_channel d more @ queue_of (outgoing_reliable state') d"
          using ih by blast
        show "queue_of (outgoing_reliable state) d = for_channel d new @ queue_of (outgoing_reliable state') d"
          using e df(1) q by (cases "d = c") (simp_all add: new queue_of_some)
      qed
      show "\<forall>d. d \<notin> set (c # cs) \<longrightarrow> for_channel d new = []" using ih by (auto simp: new)
      show "distinct (c # cs) \<longrightarrow> (\<forall>d. length (for_channel d new) \<le> reliable_window_capacity
          (channel_next state d) (front_sequence (queue_of (pending_reliable state) d)))"
        using ih df(3) by (auto simp: new cn)
    qed
  qed
qed

definition carries :: "bytes \<Rightarrow> u8 \<times> outgoing_reliable \<Rightarrow> bool" where
  "carries packet x \<longleftrightarrow>
     property_from_byte (hd packet) = Some PChanneled \<and>
     parse_message_packet PChanneled packet =
       Some (fst x div 4, from_channel_id (fst x), or_payload (snd x), parsed_fragment (or_fragment (snd x)))"

lemma build_carries:
  assumes "build_queued_reliable_packet state c x = (built, state')" and "connection_number state < 4"
  shows "carries (bp_bytes built) (c, x)"
proof -
  have b: "bp_bytes built = wdata (channeled_packet (let h = header_byte PChanneled (connection_number state) in
      if or_fragment x \<noteq> None then h OR 0x80 else h) (bp_sequence built) c (or_fragment x) (or_payload x))"
    using assms(1) by (auto simp: build_queued_reliable_packet_def Let_def split: prod.splits)
  have "property_from_byte (hd (bp_bytes built)) = Some PChanneled"
    unfolding b using property_of_channeled[of "or_fragment x \<noteq> None" PChanneled "connection_number state"]
    by (cases "or_fragment x") (simp_all add: channeled_bytes)
  then show ?thesis using parse_channeled[OF assms(2)] by (simp add: carries_def b)
qed

lemma pending_consistent_push:
  assumes "pending_consistent state"
  shows "pending_consistent (state\<lparr>pending_reliable := push_queue (pending_reliable state) c [x],
    pending_total := pending_total state + 1, reliable_active := b\<rparr>)"
proof -
  have "(\<Sum>d\<in>UNIV. length (queue_of (push_queue (pending_reliable state) c [x]) d)) =
      (\<Sum>d\<in>UNIV. length (queue_of (pending_reliable state) d)) + 1"
    using total_push[of "\<lambda>_. 1" "pending_reliable state" c "[x]"] unfolding total_ones by simp
  then show ?thesis using assms by (simp add: pending_consistent_def push_queue_def)
qed

lemma send_one:
  assumes b: "build_queued_reliable_packet state c x = (built, state1)"
    and r: "record_pending_reliable state1 c (bp_sequence built) (bp_bytes built) now stats = (ok, state2, stats2)"
    and inv: "pending_consistent state" "pending_total state < MAX_PENDING_RELIABLE_PER_PEER" "windows_ok state"
    and room: "c mod 4 \<noteq> 3 \<longrightarrow> window_used (channel_next state c) (queue_of (pending_reliable state) c) < 128"
  shows "ok" and "pending_consistent state2" and "pending_total state2 = Suc (pending_total state)"
    and "windows_ok state2"
    and "d mod 4 \<noteq> 3 \<Longrightarrow> window_used (channel_next state2 d) (queue_of (pending_reliable state2) d) =
      (if d = c then Suc else id) (window_used (channel_next state d) (queue_of (pending_reliable state) d))"
    and "connection_number state2 = connection_number state"
    and "outgoing_reliable state2 = outgoing_reliable state"
    and "queued_reliable_bytes state2 = queued_reliable_bytes state"
    and "queued_reliable_packets state2 = queued_reliable_packets state"
proof -
  let ?item = "\<lparr>pr_sequence = bp_sequence built, pr_bytes = bp_bytes built, pr_last_sent = now\<rparr>"
  have s1: "state1 = state\<lparr>next_reliable_sequence := next_reliable_sequence state1\<rparr>"
    using b by (auto simp: build_queued_reliable_packet_def Let_def split: prod.splits)
  have "pending_total state1 = pending_total state" by (subst s1) simp
  then have r': "ok" "state2 = state1\<lparr>pending_reliable := push_queue (pending_reliable state1) c [?item],
      pending_total := pending_total state1 + 1, reliable_active := True\<rparr>"
    using r inv(2) by (auto simp: record_pending_reliable_def)
  have c1: "pending_consistent state1" using inv(1) by (subst s1) (simp add: pending_consistent_def)
  show "ok" by (fact r')
  show "pending_consistent state2" unfolding r' by (rule pending_consistent_push[OF c1])
  show "pending_total state2 = Suc (pending_total state)" unfolding r' by (subst s1) simp
  show "connection_number state2 = connection_number state"
    "outgoing_reliable state2 = outgoing_reliable state"
    "queued_reliable_bytes state2 = queued_reliable_bytes state"
    "queued_reliable_packets state2 = queued_reliable_packets state"
    unfolding r' by (subst s1, simp)+
  have q: "queue_of (pending_reliable state2) d =
      (if d = c then queue_of (pending_reliable state) c @ [?item] else queue_of (pending_reliable state) d)" for d
    unfolding r' by (subst s1, subst (2) s1) simp
  have n: "channel_next state2 d = (if d = c then next_sequence (channel_next state c) else channel_next state d)"
    "c mod 4 \<noteq> 3 \<Longrightarrow> bp_sequence built = channel_next state c" for d
    using b by (auto simp: r' build_queued_reliable_packet_def Let_def channel_next_def
        next_channel_sequence_def next_sequenced_channel_sequence_def split: if_splits option.splits)
  have step: "in_flight_ok (channel_next state2 c) (queue_of (pending_reliable state2) c)"
    "window_used (channel_next state2 c) (queue_of (pending_reliable state2) c) =
      Suc (window_used (channel_next state c) (queue_of (pending_reliable state) c))" if "c mod 4 \<noteq> 3"
    using in_flight_step[OF _ room[rule_format, OF that]] inv(3) that by (simp_all add: windows_ok_def q n)
  show "windows_ok state2" using inv(3) step by (auto simp: windows_ok_def q n)
  show "window_used (channel_next state2 d) (queue_of (pending_reliable state2) d) =
      (if d = c then Suc else id) (window_used (channel_next state d) (queue_of (pending_reliable state) d))"
    if "d mod 4 \<noteq> 3" using step that by (auto simp: q n)
qed

lemma send_queued_facts:
  assumes "send_queued now new state stats = (packets, state', stats')"
    and "pending_consistent state" and "pending_total state + length new \<le> MAX_PENDING_RELIABLE_PER_PEER"
    and "windows_ok state" and "connection_number state < 4"
    and "\<And>c. c mod 4 \<noteq> 3 \<Longrightarrow> window_used (channel_next state c) (queue_of (pending_reliable state) c) +
      length (for_channel c new) \<le> 128"
  shows "list_all2 carries packets new \<and> pending_consistent state' \<and>
    pending_total state' = pending_total state + length new \<and> windows_ok state' \<and>
    outgoing_reliable state' = outgoing_reliable state \<and>
    queued_reliable_bytes state' = queued_reliable_bytes state \<and>
    queued_reliable_packets state' = queued_reliable_packets state"
  using assms
proof (induction new arbitrary: state stats packets state' stats')
  case (Cons x new)
  obtain c o1 where x: "x = (c, o1)" by (cases x)
  obtain built s1 where b: "build_queued_reliable_packet state c o1 = (built, s1)" by fastforce
  obtain ok s2 st2 where r: "record_pending_reliable s1 c (bp_sequence built) (bp_bytes built) now stats = (ok, s2, st2)"
    by (metis prod_cases3)
  obtain ps where q: "send_queued now new s2 st2 = (ps, state', stats')"
    and p: "packets = (if ok then bp_bytes built # ps else ps)"
    using Cons.prems(1) by (auto simp: x b r split: prod.splits)
  have room: "c mod 4 \<noteq> 3 \<longrightarrow> window_used (channel_next state c) (queue_of (pending_reliable state) c) < 128"
    using Cons.prems(6)[of c] by (auto simp: x)
  have "pending_total state < MAX_PENDING_RELIABLE_PER_PEER" using Cons.prems(3) by simp
  note one = send_one[OF b r Cons.prems(2) this Cons.prems(4) room]
  have "window_used (channel_next s2 d) (queue_of (pending_reliable s2) d) + length (for_channel d new) \<le> 128"
    if "d mod 4 \<noteq> 3" for d
    using one(5)[OF that] Cons.prems(6)[OF that] by (auto simp: x split: if_splits)
  then have "list_all2 carries ps new \<and> pending_consistent state' \<and>
    pending_total state' = pending_total s2 + length new \<and> windows_ok state' \<and>
    outgoing_reliable state' = outgoing_reliable s2 \<and> queued_reliable_bytes state' = queued_reliable_bytes s2 \<and>
    queued_reliable_packets state' = queued_reliable_packets s2"
    using Cons.prems(3,5) one by (intro Cons.IH[OF q]) simp_all
  then show ?case using one build_carries[OF b Cons.prems(5)] by (simp add: p x)
qed simp

lemma send_inv_new [simp]: "send_inv (new_peer n t)"
  by (simp add: queue_of_def send_inv_def pending_consistent_def new_peer_def queue_budget_def total_def windows_ok_def
      in_flight_ok_def channel_next_def)

lemma queue_budget_new [simp]: "queue_budget (new_peer n t)"
  using send_inv_new[of n t] by (simp add: send_inv_def)

lemma window_room:
  assumes "in_flight_ok n q" and "k \<le> reliable_window_capacity n (front_sequence q)"
  shows "window_used n q + k \<le> 128"
proof -
  have "window_used n q \<le> 128"
    using assms(1) by (auto simp: window_used_def in_flight_ok_def split: list.splits)
  moreover have "reliable_window_capacity n (front_sequence q) = 128 - window_used n q"
    using in_flight_capacity[OF assms(1)] by (auto simp: window_used_def split: list.splits)
  ultimately show ?thesis using assms(2) by simp
qed

lemma dispatch_queued_facts:
  assumes inv: "send_inv state" and n: "connection_number state < 4" and order: "distinct order"
    and d: "dispatch_queued now order state stats = (packets, state', stats')"
  shows "send_inv state' \<and> (\<exists>new. list_all2 carries packets new \<and>
    (\<forall>c. queue_of (outgoing_reliable state) c = for_channel c new @ queue_of (outgoing_reliable state') c))"
proof -
  obtain new s1 where t: "take_windows order (MAX_PENDING_RELIABLE_PER_PEER - pending_total state) state = (new, s1)"
    by fastforce
  let ?r = "sum_list (map (\<lambda>(_, payload). length (or_payload payload)) new)"
  let ?s2 = "s1\<lparr>queued_reliable_bytes := queued_reliable_bytes s1 - ?r,
                queued_reliable_packets := queued_reliable_packets s1 - length new\<rparr>"
  have q: "send_queued now new ?s2 stats = (packets, state', stats')"
    using d by (simp add: dispatch_queued_def t Let_def)
  note tf = take_windows_facts[OF t]
  have s1: "s1 = state\<lparr>outgoing_reliable := outgoing_reliable s1\<rparr>"
    and len: "length new \<le> MAX_PENDING_RELIABLE_PER_PEER - pending_total state"
    and split: "\<And>c. queue_of (outgoing_reliable state) c = for_channel c new @ queue_of (outgoing_reliable s1) c"
    and cap: "\<And>c. length (for_channel c new) \<le> reliable_window_capacity (channel_next state c)
      (front_sequence (queue_of (pending_reliable state) c))"
    using tf order by blast+
  have "total (\<lambda>x. length (or_payload x)) (outgoing_reliable s1) + ?r =
      total (\<lambda>x. length (or_payload x)) (outgoing_reliable state)"
    using take_windows_facts[OF t, of "\<lambda>x. length (or_payload x)"] by (simp add: comp_def case_prod_unfold)
  moreover have "total (\<lambda>_. 1) (outgoing_reliable s1) + length new = total (\<lambda>_. 1) (outgoing_reliable state)"
    using take_windows_facts[OF t, of "\<lambda>_. 1"] by (simp add: comp_def sum_list_triv)
  moreover have "queued_reliable_bytes s1 = queued_reliable_bytes state"
    "queued_reliable_packets s1 = queued_reliable_packets state" by (subst s1, simp)+
  ultimately have budget: "queue_budget ?s2" using inv by (auto simp: send_inv_def queue_budget_def)
  have same: "pending_reliable s1 = pending_reliable state" "pending_total s1 = pending_total state"
    "next_reliable_sequence s1 = next_reliable_sequence state" "connection_number s1 = connection_number state"
    by (subst s1, simp)+
  have w: "windows_ok state" using inv by (simp add: send_inv_def)
  have "pending_total state \<le> MAX_PENDING_RELIABLE_PER_PEER" using inv by (simp add: send_inv_def)
  with len have room: "pending_total ?s2 + length new \<le> MAX_PENDING_RELIABLE_PER_PEER" by (simp add: same)
  have "list_all2 carries packets new \<and> pending_consistent state' \<and>
    pending_total state' = pending_total ?s2 + length new \<and> windows_ok state' \<and>
    outgoing_reliable state' = outgoing_reliable ?s2 \<and> queued_reliable_bytes state' = queued_reliable_bytes ?s2 \<and>
    queued_reliable_packets state' = queued_reliable_packets ?s2"
  proof (rule send_queued_facts[OF q])
    show "pending_consistent ?s2" using inv by (simp add: send_inv_def pending_consistent_def same)
    show "pending_total ?s2 + length new \<le> MAX_PENDING_RELIABLE_PER_PEER" using room by simp
    show "windows_ok ?s2" using w by (simp add: windows_ok_def channel_next_def same)
    show "connection_number ?s2 < 4" using n by (simp add: same)
    show "window_used (channel_next ?s2 c) (queue_of (pending_reliable ?s2) c) + length (for_channel c new) \<le> 128"
      if "c mod 4 \<noteq> 3" for c
      using window_room[OF _ cap[of c]] w that by (simp add: windows_ok_def channel_next_def same)
  qed
  moreover from this have "queue_budget state'" using budget by (simp add: queue_budget_def)
  moreover note room
  ultimately show ?thesis using split by (auto simp: send_inv_def)
qed

lemma process_ack_queue:
  "\<exists>P k. queue_of (pending_reliable (fst (process_ack peer bytes stats))) c =
     filter P (drop k (queue_of (pending_reliable peer) c))"
proof -
  have "\<exists>P k. q = filter P (drop k q)" for q :: "pending_reliable list"
    by (intro exI[of _ "\<lambda>_. True"] exI[of _ 0]) simp
  moreover have "\<exists>P k'. drop k q = filter P (drop k' q)" for k and q :: "pending_reliable list"
    by (intro exI[of _ "\<lambda>_. True"] exI[of _ k]) simp
  moreover have "\<exists>P' k. filter P q = filter P' (drop k q)" for P and q :: "pending_reliable list"
    by (intro exI[of _ P] exI[of _ 0]) simp
  ultimately show ?thesis
    by (simp add: process_ack_def process_sequenced_ack_def process_window_ack_def Let_def queue_of_some
        split: option.split)
qed

lemma process_ack_send_inv:
  assumes "send_inv peer"
  shows "send_inv (fst (process_ack peer bytes stats))" (is "send_inv ?p")
proof -
  have same: "next_reliable_sequence ?p = next_reliable_sequence peer"
    "outgoing_reliable ?p = outgoing_reliable peer" "queued_reliable_bytes ?p = queued_reliable_bytes peer"
    "queued_reliable_packets ?p = queued_reliable_packets peer" "pending_total ?p \<le> pending_total peer"
    by (simp_all add: process_ack_def process_sequenced_ack_def process_window_ack_def Let_def
        split: option.split)
  have "in_flight_ok n (queue_of (pending_reliable ?p) c)"
    if "in_flight_ok n (queue_of (pending_reliable peer) c)" for n c
    using process_ack_queue[of peer bytes stats c] that in_flight_filter in_flight_drop by metis
  then show ?thesis using assms process_ack_consistent[of peer bytes stats] same
    by (auto simp: send_inv_def queue_budget_def windows_ok_def channel_next_def)
qed

lemma publish_send_fields:
  "pending_reliable (foldl publish_entry state plan) = pending_reliable state \<and>
   pending_total (foldl publish_entry state plan) = pending_total state \<and>
   next_reliable_sequence (foldl publish_entry state plan) = next_reliable_sequence state \<and>
   connection_number (foldl publish_entry state plan) = connection_number state"
  by (induction plan arbitrary: state) (auto simp: publish_entry_def Let_def split: prod.split)

lemma enqueue_send_fields:
  assumes "enqueue_reliable_batch state packets = (ok, state')"
  shows "pending_reliable state' = pending_reliable state" "pending_total state' = pending_total state"
    "next_reliable_sequence state' = next_reliable_sequence state"
    "connection_number state' = connection_number state"
  using enqueue_batch_cases[OF assms] publish_send_fields by auto

lemma enqueue_queue_budget:
  assumes "queue_budget state" and e: "enqueue_reliable_batch state packets = (ok, state')"
  shows "queue_budget state'"
    and "ok \<Longrightarrow> queue_stream state' c = queue_stream state c @ batch_stream c packets"
    and "\<not> ok \<Longrightarrow> state' = state"
proof -
  from enqueue_batch_cases[OF e] consider "state' = state" "ok \<Longrightarrow> packets = []"
    | plan where "ok" "plan_batch packets = Some plan"
      "queued_reliable_bytes state + plan_bytes plan \<le> MAX_QUEUED_RELIABLE_BYTES_PER_PEER"
      "queued_reliable_packets state + plan_packets plan \<le> MAX_QUEUED_RELIABLE_PACKETS_PER_PEER"
      "state' = (foldl publish_entry state plan)
         \<lparr>queued_reliable_bytes := queued_reliable_bytes state + plan_bytes plan,
          queued_reliable_packets := queued_reliable_packets state + plan_packets plan,
          reliable_active := True\<rparr>" by blast
  then have "queue_budget state' \<and> (ok \<longrightarrow> queue_stream state' c = queue_stream state c @ batch_stream c packets) \<and>
      (\<not> ok \<longrightarrow> state' = state)"
  proof cases
    case 2
    note p = plan_batch_ok[OF 2(2)]
    show ?thesis using publish_all[of plan state] p 2 assms batch_stream_plan[of plan packets]
      by (simp add: queue_budget_def queue_stream_def)
  qed (use assms in \<open>auto simp: batch_stream_def\<close>)
  then show "queue_budget state'"
    and "ok \<Longrightarrow> queue_stream state' c = queue_stream state c @ batch_stream c packets"
    and "\<not> ok \<Longrightarrow> state' = state" by blast+
qed

lemma enqueue_send_inv:
  assumes "send_inv state" and e: "enqueue_reliable_batch state packets = (ok, state')"
  shows "send_inv state'"
  using assms enqueue_queue_budget(1)[OF _ e] enqueue_send_fields[OF e]
  by (simp add: send_inv_def pending_consistent_def windows_ok_def channel_next_def)

text \<open>The sequence numbers that a pass assigns on a windowed channel are the next ones in turn.\<close>

lemma send_queued_sequences:
  assumes "send_queued now new state stats = (packets, state', stats')" and "c mod 4 \<noteq> 3"
    and "pending_total state + length new \<le> MAX_PENDING_RELIABLE_PER_PEER" and "valid_seq (channel_next state c)"
  shows "map pr_sequence (queue_of (pending_reliable state') c) =
      map pr_sequence (queue_of (pending_reliable state) c) @
      map (seq_plus (channel_next state c)) [0..<length (for_channel c new)] \<and>
    channel_next state' c = seq_plus (channel_next state c) (length (for_channel c new)) \<and>
    connection_number state' = connection_number state"
  using assms
proof (induction new arbitrary: state stats packets state' stats')
  case Nil
  then show ?case by (simp add: seq_plus_0)
next
  case (Cons x new)
  obtain d o1 where x: "x = (d, o1)" by (cases x)
  obtain built s1 where b: "build_queued_reliable_packet state d o1 = (built, s1)" by fastforce
  obtain ok s2 st2 where r: "record_pending_reliable s1 d (bp_sequence built) (bp_bytes built) now stats = (ok, s2, st2)"
    by (metis prod_cases3)
  obtain ps where q: "send_queued now new s2 st2 = (ps, state', stats')"
    using Cons.prems(1) by (auto simp: x b r split: prod.splits)
  have s1: "pending_total s1 = pending_total state" "pending_reliable s1 = pending_reliable state"
    "connection_number s1 = connection_number state"
    using b by (auto simp: build_queued_reliable_packet_def Let_def split: prod.splits)
  have s2: "pending_total s2 = Suc (pending_total state)" "channel_next s2 c = channel_next s1 c"
    "connection_number s2 = connection_number state"
    "queue_of (pending_reliable s2) c = queue_of (pending_reliable state) c @
       (if c = d then [\<lparr>pr_sequence = bp_sequence built, pr_bytes = bp_bytes built, pr_last_sent = now\<rparr>] else [])"
    using r Cons.prems(3) s1
    by (auto simp: record_pending_reliable_def channel_next_def split: if_splits)
  have n: "channel_next s1 c = (if c = d then next_sequence (channel_next state c) else channel_next state c)"
    "c = d \<Longrightarrow> bp_sequence built = channel_next state c"
    using b Cons.prems(2) by (auto simp: build_queued_reliable_packet_def Let_def channel_next_def
        next_channel_sequence_def next_sequenced_channel_sequence_def split: if_splits option.splits)
  have v: "valid_seq (channel_next s2 c)" using Cons.prems(4) by (simp add: s2 n)
  have ih: "map pr_sequence (queue_of (pending_reliable state') c) =
      map pr_sequence (queue_of (pending_reliable s2) c) @
      map (seq_plus (channel_next s2 c)) [0..<length (for_channel c new)] \<and>
    channel_next state' c = seq_plus (channel_next s2 c) (length (for_channel c new)) \<and>
    connection_number state' = connection_number s2"
    by (rule Cons.IH[OF q Cons.prems(2) _ v]) (use Cons.prems(3) s2 in simp)
  show ?case
  proof (cases "c = d")
    case True
    have "map (seq_plus (channel_next state c)) [0..<Suc m] =
        channel_next state c # map (seq_plus (next_sequence (channel_next state c))) [0..<m]" for m
      using Cons.prems(4) by (simp add: upt_conv_Cons seq_plus_0 seq_plus_Suc map_Suc_upt[symmetric] comp_def
          del: upt_Suc)
    then show ?thesis using ih True n s2 by (simp add: x seq_plus_Suc del: upt_Suc)
  next
    case False
    then show ?thesis using ih n s2 by (simp add: x)
  qed
qed

lemma dispatch_queued_sequences:
  assumes inv: "send_inv state" and c: "c mod 4 \<noteq> 3"
    and d: "dispatch_queued now order state stats = (packets, state', stats')"
  obtains k where "map pr_sequence (queue_of (pending_reliable state') c) =
      map pr_sequence (queue_of (pending_reliable state) c) @ map (seq_plus (channel_next state c)) [0..<k]"
    and "channel_next state' c = seq_plus (channel_next state c) k" and "k \<le> MAX_PENDING_RELIABLE_PER_PEER"
    and "connection_number state' = connection_number state"
proof -
  obtain new s1 where t: "take_windows order (MAX_PENDING_RELIABLE_PER_PEER - pending_total state) state = (new, s1)"
    by fastforce
  let ?s2 = "s1\<lparr>queued_reliable_bytes := queued_reliable_bytes s1 -
                  sum_list (map (\<lambda>(_, payload). length (or_payload payload)) new),
                queued_reliable_packets := queued_reliable_packets s1 - length new\<rparr>"
  have q: "send_queued now new ?s2 stats = (packets, state', stats')"
    using d by (simp add: dispatch_queued_def t Let_def)
  have s1: "s1 = state\<lparr>outgoing_reliable := outgoing_reliable s1\<rparr>"
    and len: "length new \<le> MAX_PENDING_RELIABLE_PER_PEER - pending_total state"
    using take_windows_facts[OF t] by blast+
  have same: "channel_next ?s2 c = channel_next state c" "pending_reliable ?s2 = pending_reliable state"
    "pending_total ?s2 = pending_total state" "connection_number ?s2 = connection_number state"
    by (subst s1, simp add: channel_next_def)+
  have "pending_total state \<le> MAX_PENDING_RELIABLE_PER_PEER" using inv by (simp add: send_inv_def)
  then have "pending_total ?s2 + length new \<le> MAX_PENDING_RELIABLE_PER_PEER" using len by (simp only: same)
  moreover have "valid_seq (channel_next ?s2 c)"
    using inv c by (auto simp: same send_inv_def windows_ok_def in_flight_ok_def)
  ultimately have "map pr_sequence (queue_of (pending_reliable state') c) =
      map pr_sequence (queue_of (pending_reliable state) c) @
        map (seq_plus (channel_next state c)) [0..<length (for_channel c new)]"
    "channel_next state' c = seq_plus (channel_next state c) (length (for_channel c new))"
    "connection_number state' = connection_number state"
    using send_queued_sequences[OF q c] by (simp_all add: same)
  moreover have "length (for_channel c new) \<le> MAX_PENDING_RELIABLE_PER_PEER"
    using order_trans[OF length_filter_le[of "\<lambda>x. fst x = c" new] order_trans[OF len diff_le_self]]
    by (simp add: for_channel_def)
  ultimately show ?thesis using that by blast
qed

end
