(* ===== verification/ReliableProperties.thy ===== *)
theory ReliableProperties
  imports ReliableSend
begin

text \<open>
  The properties of the reliable send path: admission of a batch, fragmentation, building and
  parsing packets, the dispatcher, and the acknowledgements seen from the sender.
\<close>

text \<open>
  Admission of a batch is all or nothing. A refused batch leaves the whole peer state
  as it was; an accepted one appends to every channel exactly the bytes of the batch that are meant
  for it, in order, however they are fragmented. In both cases the byte and packet counters equal what
  the queues hold and stay within the budgets of the peer.
\<close>

theorem enqueue_batch_atomic:
  assumes "queue_budget state"
  shows "let (ok, state') = enqueue_reliable_batch state packets in
    queue_budget state' \<and>
    (if ok then \<forall>c. queue_stream state' c = queue_stream state c @ batch_stream c packets
     else state' = state)"
  using enqueue_queue_budget[OF assms] by (auto split: prod.split)

definition sample_batch :: "(u8 \<times> DeliveryMethod \<times> bytes) list" where
  "sample_batch = [(1, ReliableOrdered, [1, 2, 3]), (2, ReliableSequenced, [4])]"

theorem enqueue_batch_atomic_witness:
  "let (ok, state') = enqueue_reliable_batch (new_peer 0 0) sample_batch in
    queue_budget state' \<and>
    (if ok then \<forall>c. queue_stream state' c = queue_stream (new_peer 0 0) c @ batch_stream c sample_batch
     else state' = new_peer 0 0)"
  by (rule enqueue_batch_atomic) simp

text \<open>
  A payload that does not fit one packet is split, when its channel is empty, into the
  numbered parts of one message: the parts concatenate to the payload, none is empty or longer than
  1014 bytes, there are at most 128 of them, and each announces the true number of parts and its
  position under a fresh message identifier.
\<close>

theorem fragmented_payload_parts:
  assumes "enqueue_reliable_payload state channel delivery payload = (True, state')"
    and "delivery = ReliableOrdered \<or> delivery = ReliableUnordered"
    and "length payload > 1020"
    and "queue_of (outgoing_reliable state) (delivery_channel_id channel delivery) = []"
  shows "let parts = queue_of (outgoing_reliable state') (delivery_channel_id channel delivery) in
    concat (map or_payload parts) = payload \<and> length parts \<le> 128 \<and>
    list_all (\<lambda>i. 1 \<le> length (or_payload (parts ! i)) \<and> length (or_payload (parts ! i)) \<le> 1014 \<and>
       or_fragment (parts ! i) = Some \<lparr>rf_id = next_fragment_id state + 1, rf_part = of_nat i,
         rf_total = of_nat (length parts)\<rparr>) [0..<length parts]"
proof -
  let ?c = "delivery_channel_id channel delivery" and ?n = "div_ceil (length payload) 1014"
  let ?parts = "fragment_parts (next_fragment_id state + 1) ?n payload"
  from enqueue_batch_cases[OF assms(1)[unfolded enqueue_reliable_payload_def]]
  obtain plan where plan: "plan_batch [(channel, delivery, payload)] = Some plan"
    and s: "outgoing_reliable state' = outgoing_reliable (foldl publish_entry state plan)"
    by auto
  have e: "plan = [(?c, payload, True, ?n)]" and le: "?n \<le> 128"
    using plan assms(2,3) by (auto simp: plan_packet_def header_sizes peer_limits Let_def
        split: if_splits option.splits)
  have q: "queue_of (outgoing_reliable state') ?c = ?parts"
    using assms(4) by (simp add: s e publish_entry_outgoing entry_items_def)
  have l: "length ?parts = ?n" by (simp add: fragment_parts_simps header_sizes)
  have p: "or_payload (?parts ! i) \<in> set (chunks 1014 payload)" if "i < ?n" for i
    using that fragment_parts_simps(1)[of "next_fragment_id state + 1" ?n payload] l
    by (metis RELIABLE_FRAGMENT_PAYLOAD_SIZE_1014 length_map nth_map nth_mem)
  have f: "or_fragment (?parts ! i) = Some \<lparr>rf_id = next_fragment_id state + 1, rf_part = of_nat i,
      rf_total = of_nat ?n\<rparr>" if "i < ?n" for i
    using that l by (simp add: fragment_parts_def nth_enumerate_eq)
  have "1 \<le> length (or_payload (?parts ! i)) \<and> length (or_payload (?parts ! i)) \<le> 1014" if "i < ?n" for i
    using length_chunk[OF p[OF that]] by (simp add: Suc_le_eq)
  moreover have "concat (map or_payload ?parts) = payload"
    by (simp add: fragment_parts_simps concat_chunks header_sizes)
  ultimately show ?thesis using le f by (simp add: q l Let_def list_all_iff)
qed

definition long_payload :: bytes where
  "long_payload = replicate 2000 7"

definition fragmenting_peer :: peer_state where
  "fragmenting_peer = snd (enqueue_reliable_payload (new_peer 0 0) 1 ReliableOrdered long_payload)"

theorem fragmented_payload_parts_witness:
  "let parts = queue_of (outgoing_reliable fragmenting_peer) (delivery_channel_id 1 ReliableOrdered) in
    concat (map or_payload parts) = long_payload \<and> length parts \<le> 128 \<and>
    list_all (\<lambda>i. 1 \<le> length (or_payload (parts ! i)) \<and> length (or_payload (parts ! i)) \<le> 1014 \<and>
       or_fragment (parts ! i) = Some \<lparr>rf_id = next_fragment_id (new_peer 0 0) + 1, rf_part = of_nat i,
         rf_total = of_nat (length parts)\<rparr>) [0..<length parts]"
proof (rule fragmented_payload_parts)
  show "enqueue_reliable_payload (new_peer 0 0) 1 ReliableOrdered long_payload = (True, fragmenting_peer)"
    by (simp add: fragmenting_peer_def enqueue_reliable_payload_def enqueue_reliable_batch_def plan_packet_def
        long_payload_def is_reliable_delivery_def peer_limits header_sizes div_ceil_def plan_bytes_def
        plan_packets_def new_peer_def)
qed (simp_all add: long_payload_def new_peer_def queue_of_def)

text \<open>
  What the dispatcher builds of a queued payload is recognised as a channeled packet and
  parsed back to the same channel, delivery method, payload and fragment header, for every channel and
  every delivery method that uses the queues. The connection number has two bits on the wire.
\<close>

theorem queued_packet_roundtrip:
  assumes "connection_number state < 4" and "channel < 64" and "is_reliable_delivery delivery"
  shows "let (built, state') = build_queued_reliable_packet state (delivery_channel_id channel delivery) x in
    property_from_byte (hd (bp_bytes built)) = Some PChanneled \<and>
    parse_message_packet PChanneled (bp_bytes built) =
      Some (channel, delivery, or_payload x, parsed_fragment (or_fragment x))"
proof -
  obtain built state' where b:
    "build_queued_reliable_packet state (delivery_channel_id channel delivery) x = (built, state')" by fastforce
  show ?thesis using build_carries[OF b assms(1)] delivery_channel_id_inverse[OF assms(2,3)]
    by (simp add: b carries_def)
qed

theorem queued_packet_roundtrip_witness:
  "let (built, state') = build_queued_reliable_packet (new_peer 3 0) (delivery_channel_id 5 ReliableUnordered)
      \<lparr>or_payload = [1, 2], or_fragment = Some \<lparr>rf_id = 9, rf_part = 1, rf_total = 300\<rparr>\<rparr> in
    property_from_byte (hd (bp_bytes built)) = Some PChanneled \<and>
    parse_message_packet PChanneled (bp_bytes built) =
      Some (5, ReliableUnordered, or_payload \<lparr>or_payload = [1, 2], or_fragment = Some \<lparr>rf_id = 9, rf_part = 1, rf_total = 300\<rparr>\<rparr>,
        parsed_fragment (or_fragment \<lparr>or_payload = [1, 2], or_fragment = Some \<lparr>rf_id = 9, rf_part = 1, rf_total = 300\<rparr>\<rparr>))"
  by (rule queued_packet_roundtrip) (simp_all add: new_peer_def is_reliable_delivery_def)

text \<open>
  The entry under which the sender keeps a packet until it is acknowledged: its bytes, with the sequence number that stands in
  them, and the time of sending. The channel identifier is the fourth byte of the packet.
\<close>

definition in_flight_entry :: "nat \<Rightarrow> bytes \<Rightarrow> pending_reliable" where
  "in_flight_entry now packet = \<lparr>pr_sequence = of_le [packet ! 1, packet ! 2], pr_bytes = packet, pr_last_sent = now\<rparr>"

lemma built_bytes:
  assumes "build_queued_reliable_packet state c x = (built, state')"
  shows "in_flight_entry now (bp_bytes built) = \<lparr>pr_sequence = bp_sequence built, pr_bytes = bp_bytes built, pr_last_sent = now\<rparr>"
    "bp_bytes built ! 3 = c" "pending_reliable state' = pending_reliable state" "pending_total state' = pending_total state"
  using assms
  by (cases "or_fragment x";
      auto simp: build_queued_reliable_packet_def in_flight_entry_def Let_def channeled_bytes of_le_pair simp del: of_le.simps
        split: prod.splits)+

lemma send_queued_tracks:
  "send_queued now new state stats = (packets, state', stats') \<Longrightarrow>
   queue_of (pending_reliable state') c =
     queue_of (pending_reliable state) c @ map (in_flight_entry now) (filter (\<lambda>packet. packet ! 3 = c) packets) \<and>
   pending_total state' = pending_total state + length packets"
proof (induction new arbitrary: state stats packets state' stats')
  case (Cons x new)
  obtain d o1 where x: "x = (d, o1)" by (cases x)
  obtain built s1 where b: "build_queued_reliable_packet state d o1 = (built, s1)" by fastforce
  obtain ok s2 st2 where r: "record_pending_reliable s1 d (bp_sequence built) (bp_bytes built) now stats = (ok, s2, st2)"
    by (metis prod_cases3)
  obtain ps where q: "send_queued now new s2 st2 = (ps, state', stats')"
    and p: "packets = (if ok then bp_bytes built # ps else ps)"
    using Cons.prems by (auto simp: x b r split: prod.splits)
  show ?case using Cons.IH[OF q] r built_bytes[OF b]
    by (auto simp: p record_pending_reliable_def split: if_splits)
qed simp

lemma take_windows_pending:
  "take_windows order budget state = (new, state') \<Longrightarrow>
   pending_reliable state' = pending_reliable state \<and> pending_total state' = pending_total state"
  by (induction order budget state arbitrary: new state' rule: take_windows.induct)
    (fastforce split: if_splits option.splits prod.splits)+

lemma dispatch_queued_tracks:
  assumes "dispatch_queued now order state stats = (packets, state', stats')"
  shows "queue_of (pending_reliable state') c =
      queue_of (pending_reliable state) c @ map (in_flight_entry now) (filter (\<lambda>packet. packet ! 3 = c) packets)"
    "pending_total state' = pending_total state + length packets"
proof -
  obtain new s1 where t: "take_windows order (MAX_PENDING_RELIABLE_PER_PEER - pending_total state) state = (new, s1)"
    by fastforce
  note same = take_windows_pending[OF t]
  show "queue_of (pending_reliable state') c =
      queue_of (pending_reliable state) c @ map (in_flight_entry now) (filter (\<lambda>packet. packet ! 3 = c) packets)"
    "pending_total state' = pending_total state + length packets"
    using assms same by (auto simp: dispatch_queued_def t Let_def dest!: send_queued_tracks[where c = c])
qed

text \<open>
  C31. One dispatcher pass keeps the send invariant: the counters agree with the queues, at
  most 4096 packets are in flight, and on every windowed channel the packets in flight are at most 128
  numbers behind the next one, oldest first. Every payload that leaves a queue goes out in a packet that
  parses back to it; the remaining queue is what was behind it. Every packet that goes out is tracked: the list of
  packets in flight on its channel grows by exactly the packets sent on that channel, each under the number that stands in it and with
  the time of sending, and the counter of packets in flight by their number. The branch that
  would drop a payload because the window is full is never taken.
\<close>

theorem dispatch_tracks_every_payload:
  assumes "send_inv state" and "connection_number state < 4" and "distinct order"
  shows "let (packets, state', stats') = dispatch_queued now order state stats in
    send_inv state' \<and>
    (\<exists>new. list_all2 carries packets new \<and>
      (\<forall>c. queue_of (outgoing_reliable state) c = for_channel c new @ queue_of (outgoing_reliable state') c)) \<and>
    (\<forall>c. queue_of (pending_reliable state') c = queue_of (pending_reliable state) c @
      map (in_flight_entry now) (filter (\<lambda>packet. packet ! 3 = c) packets)) \<and>
    pending_total state' = pending_total state + length packets"
proof -
  obtain packets state' stats' where d: "dispatch_queued now order state stats = (packets, state', stats')"
    by (metis prod_cases3)
  show ?thesis using dispatch_queued_facts[OF assms d] dispatch_queued_tracks[OF d] by (simp add: d)
qed

definition queued_peer :: peer_state where
  "queued_peer = snd (enqueue_reliable_batch (new_peer 1 0) sample_batch)"

lemma queued_peer_inv: "send_inv queued_peer" "connection_number queued_peer = 1"
proof -
  obtain ok where e: "enqueue_reliable_batch (new_peer 1 0) sample_batch = (ok, queued_peer)"
    unfolding queued_peer_def by (metis prod.collapse)
  show "send_inv queued_peer" by (rule enqueue_send_inv[OF send_inv_new e])
  show "connection_number queued_peer = 1"
    using enqueue_send_fields(4)[OF e] by (simp add: new_peer_def)
qed

theorem dispatch_tracks_every_payload_witness:
  "let (packets, state', stats') = dispatch_queued 0 [6, 11] queued_peer None in
    send_inv state' \<and>
    (\<exists>new. list_all2 carries packets new \<and>
      (\<forall>c. queue_of (outgoing_reliable queued_peer) c = for_channel c new @ queue_of (outgoing_reliable state') c)) \<and>
    (\<forall>c. queue_of (pending_reliable state') c = queue_of (pending_reliable queued_peer) c @
      map (in_flight_entry 0) (filter (\<lambda>packet. packet ! 3 = c) packets)) \<and>
    pending_total state' = pending_total queued_peer + length packets"
  by (rule dispatch_tracks_every_payload) (simp_all add: queued_peer_inv)

text \<open>
  Whatever arrives as an acknowledgement, forged or stale, the send invariant survives: the
  window stays at most 128 numbers wide with the oldest packet in front, so the sender can always tell how
  much room it has.
\<close>

theorem process_ack_keeps_send_window:
  assumes "send_inv peer"
  shows "send_inv (fst (process_ack peer bytes stats)) \<and>
    (\<forall>c. set (queue_of (pending_reliable (fst (process_ack peer bytes stats))) c) \<subseteq>
         set (queue_of (pending_reliable peer) c))"
proof
  show "send_inv (fst (process_ack peer bytes stats))" using assms by (rule process_ack_send_inv)
  show "\<forall>c. set (queue_of (pending_reliable (fst (process_ack peer bytes stats))) c) \<subseteq>
         set (queue_of (pending_reliable peer) c)"
    using process_ack_queue[of peer bytes stats] in_set_dropD by (metis filter_is_subset in_set_dropD subsetI subset_code(1))
qed

theorem process_ack_keeps_send_window_witness:
  "send_inv (fst (process_ack (new_peer 0 0) [2, 0, 0] None)) \<and>
    (\<forall>c. set (queue_of (pending_reliable (fst (process_ack (new_peer 0 0) [2, 0, 0] None))) c) \<subseteq>
         set (queue_of (pending_reliable (new_peer 0 0)) c))"
  by (rule process_ack_keeps_send_window) simp

end
