(* ===== verification/Datagrams.thy ===== *)
theory Datagrams
  imports ReliableSend
begin

text \<open>
  Datagram framing of \<open>basis-transport/src/lib.rs\<close>: packets are merged into datagrams of at most
  \<open>MAX_MERGED_PACKET_SIZE\<close> bytes, in the classic framing (\<open>build_merged_datagrams\<close>,
  \<open>MergedDatagramBuilder\<close>) or the compact one (\<open>build_compact_merged_datagrams\<close>), and split again on
  the receiving side. A Rust cursor into the received slice is the remaining suffix of the list; a
  \<open>break\<close> ends the list of packets handed on.
\<close>

section \<open>Classic framing: sender\<close>

definition MAX_MERGED_PACKET_SIZE :: nat where "MAX_MERGED_PACKET_SIZE = 1200"

definition unpack_single_merged_packet :: "bytes \<Rightarrow> bytes" where
  "unpack_single_merged_packet merged =
     (if length merged < 3 then merged
      else let size = unat (of_le [merged ! 1, merged ! 2] :: u16)
           in if length merged < 3 + size then merged else take size (drop 3 merged))"

text \<open>The two-byte length and the packet, as appended to the datagram in progress.\<close>

definition merge_frame :: "bytes \<Rightarrow> bytes" where
  "merge_frame packet = to_le 2 (of_nat (length packet) :: u16) @ packet"

type_synonym merge_state = "bytes list \<times> bytes \<times> nat"

definition merge_seal :: "u8 \<Rightarrow> merge_state \<Rightarrow> merge_state" where
  "merge_seal number st =
     (case st of (datagrams, current, count) \<Rightarrow>
        (datagrams @ [if count = 1 then unpack_single_merged_packet current else current],
         [header_byte PMerged number], 0))"

definition merge_step :: "u8 \<Rightarrow> merge_state \<Rightarrow> bytes \<Rightarrow> merge_state" where
  "merge_step number st packet =
     (let framed_len = 2 + length packet;
          st = (if snd (snd st) > 0 \<and> length (fst (snd st)) + framed_len > MAX_MERGED_PACKET_SIZE
                then merge_seal number st else st)
      in if framed_len + 1 > MAX_MERGED_PACKET_SIZE then
           let (datagrams, current, count) = (if snd (snd st) > 0 then merge_seal number st else st)
           in (datagrams @ [packet], current, count)
         else
           let (datagrams, current, count) = st
           in (datagrams, current @ merge_frame packet, count + 1))"

definition build_merged_datagrams :: "u8 \<Rightarrow> bytes list \<Rightarrow> bytes list" where
  "build_merged_datagrams number packets =
     (if length packets \<le> 1 then packets
      else
        let (datagrams, current, count) =
              foldl (merge_step number) ([], [header_byte PMerged number], 0) packets
        in if count = 1 then datagrams @ [unpack_single_merged_packet current]
           else if count > 1 then datagrams @ [current]
           else datagrams)"

record merged_datagram_builder =
  mb_connection_number :: u8
  mb_current :: bytes
  mb_datagrams :: "bytes list"
  mb_count :: nat

definition builder_new :: merged_datagram_builder where
  "builder_new = \<lparr>mb_connection_number = 0, mb_current = [], mb_datagrams = [], mb_count = 0\<rparr>"

definition builder_reset :: "u8 \<Rightarrow> merged_datagram_builder \<Rightarrow> merged_datagram_builder" where
  "builder_reset number b =
     b\<lparr>mb_connection_number := number, mb_current := [], mb_datagrams := [], mb_count := 0\<rparr>"

definition start_datagram :: "merged_datagram_builder \<Rightarrow> merged_datagram_builder" where
  "start_datagram b = b\<lparr>mb_current := [header_byte PMerged (mb_connection_number b)], mb_count := 0\<rparr>"

definition seal_datagram :: "merged_datagram_builder \<Rightarrow> merged_datagram_builder" where
  "seal_datagram b =
     (if mb_count b = 0 then b
      else b\<lparr>mb_datagrams := mb_datagrams b @
                [if mb_count b = 1 then unpack_single_merged_packet (mb_current b) else mb_current b],
             mb_current := [], mb_count := 0\<rparr>)"

definition builder_push :: "merged_datagram_builder \<Rightarrow> bytes \<Rightarrow> merged_datagram_builder" where
  "builder_push b packet =
     (let framed_len = 2 + length packet;
          b = (if mb_count b > 0 \<and> length (mb_current b) + framed_len > MAX_MERGED_PACKET_SIZE
               then seal_datagram b else b)
      in if framed_len + 1 > MAX_MERGED_PACKET_SIZE then
           let b = (if mb_count b > 0 then seal_datagram b else b)
           in b\<lparr>mb_datagrams := mb_datagrams b @ [packet]\<rparr>
         else
           let b = (if mb_count b = 0 \<and> mb_current b = [] then start_datagram b else b)
           in b\<lparr>mb_current := mb_current b @ merge_frame packet, mb_count := mb_count b + 1\<rparr>)"

section \<open>Classic framing: receiver\<close>

definition is_nested_merged_packet :: "bytes \<Rightarrow> bool" where
  "is_nested_merged_packet bytes =
     (case bytes of
        [] \<Rightarrow> False
      | header # _ \<Rightarrow> property_from_byte header = Some PMerged \<or> property_from_byte header = Some PCompactMerged)"

definition merged_header_size :: "PacketProperty \<Rightarrow> nat" where
  "merged_header_size property =
     (case property of
        PUnreliable \<Rightarrow> 2 | PChanneled \<Rightarrow> 4 | PAck \<Rightarrow> 4 | PPing \<Rightarrow> 3 | PPong \<Rightarrow> 11
      | PConnectRequest \<Rightarrow> 18 | PConnectAccept \<Rightarrow> 15 | PDisconnect \<Rightarrow> 9 | _ \<Rightarrow> 1)"

definition is_valid_merged_packet :: "bytes \<Rightarrow> bool" where
  "is_valid_merged_packet bytes =
     (case bytes of
        [] \<Rightarrow> False
      | header # _ \<Rightarrow>
          (case property_from_byte header of
             None \<Rightarrow> False
           | Some property \<Rightarrow> length bytes \<ge> merged_header_size property))"

text \<open>The length field at the cursor, and the packet and the suffix behind it.\<close>

definition merged_entry :: "bytes \<Rightarrow> (bytes \<times> bytes) option" where
  "merged_entry rest =
     (if length rest < 2 then None
      else let size = unat (of_le [rest ! 0, rest ! 1] :: u16)
           in if size = 0 \<or> length (drop 2 rest) < size then None
              else Some (take size (drop 2 rest), drop size (drop 2 rest)))"

lemma merged_entry_decreases: "merged_entry rest = Some (p, r) \<Longrightarrow> length r < length rest"
  by (auto simp: merged_entry_def Let_def split: if_splits)

function split_merged_entries :: "bytes \<Rightarrow> bytes list" where
  "split_merged_entries rest =
     (case merged_entry rest of
        None \<Rightarrow> []
      | Some (packet, r) \<Rightarrow>
          (if \<not> is_nested_merged_packet packet \<and> is_valid_merged_packet packet then [packet] else []) @
          split_merged_entries r)"
  by auto
termination by (relation "measure length") (auto dest: merged_entry_decreases)

declare split_merged_entries.simps [simp del]

definition process_merged_packet :: "bytes \<Rightarrow> bytes list" where
  "process_merged_packet bytes = split_merged_entries (drop 1 bytes)"

function merged_valid_packets :: "bytes \<Rightarrow> nat option" where
  "merged_valid_packets rest =
     (if rest = [] then Some 0
      else case merged_entry rest of
        None \<Rightarrow> None
      | Some (packet, r) \<Rightarrow>
          if \<not> is_nested_merged_packet packet then
            if \<not> is_valid_merged_packet packet then None
            else map_option Suc (merged_valid_packets r)
          else merged_valid_packets r)"
  by auto
termination by (relation "measure length") (auto dest: merged_entry_decreases)

declare merged_valid_packets.simps [simp del]

definition is_well_formed_merged :: "bytes \<Rightarrow> bool" where
  "is_well_formed_merged bytes =
     (case merged_valid_packets (drop 1 bytes) of None \<Rightarrow> False | Some valid_packets \<Rightarrow> valid_packets > 0)"

section \<open>Compact framing: sender\<close>

definition COMPACT_LONG_LENGTH_FLAG :: u8 where "COMPACT_LONG_LENGTH_FLAG = 0x80"
definition COMPACT_RAW_PACKET_FLAG :: u8 where "COMPACT_RAW_PACKET_FLAG = 0x40"
definition COMPACT_CHANNEL_MASK :: u8 where "COMPACT_CHANNEL_MASK = 0x3f"

definition compact_entry_header_len :: "nat \<Rightarrow> nat" where
  "compact_entry_header_len payload_len = (if payload_len \<le> 255 then 2 else 3)"

definition push_compact_entry_header :: "u8 \<Rightarrow> nat \<Rightarrow> bytes" where
  "push_compact_entry_header channel payload_len =
     (if payload_len \<le> 255 then [channel AND COMPACT_CHANNEL_MASK, of_nat payload_len]
      else (channel AND COMPACT_CHANNEL_MASK OR COMPACT_LONG_LENGTH_FLAG) #
           to_le 2 (of_nat payload_len :: u16))"

definition compact_unreliable_entry :: "bytes \<Rightarrow> (u8 \<times> bytes) option" where
  "compact_unreliable_entry packet =
     (if length packet < 2 then None
      else if property_from_byte (packet ! 0) \<noteq> Some PUnreliable then None
      else if packet ! 1 AND NOT COMPACT_CHANNEL_MASK \<noteq> 0 then None
      else Some (packet ! 1, drop 2 packet))"

definition compact_raw_entry :: "bytes \<Rightarrow> bytes option" where
  "compact_raw_entry packet =
     (if length packet < LITENETLIB_CHANNELED_HEADER_SIZE \<or> length packet > 65535 then None
      else if property_from_byte (packet ! 0) = Some PChanneled \<or> property_from_byte (packet ! 0) = Some PAck
      then Some packet else None)"

definition push_compact_raw_entry :: "bytes \<Rightarrow> bytes" where
  "push_compact_raw_entry packet =
     (if length packet \<le> 255 then [COMPACT_RAW_PACKET_FLAG, of_nat (length packet)]
      else (COMPACT_RAW_PACKET_FLAG OR COMPACT_LONG_LENGTH_FLAG) # to_le 2 (of_nat (length packet) :: u16))
     @ packet"

datatype compact_frame = FUnreliable u8 bytes | FRaw bytes

definition compact_frame_of :: "bytes \<Rightarrow> compact_frame option" where
  "compact_frame_of packet =
     (case compact_unreliable_entry packet of
        Some (channel, payload) \<Rightarrow> Some (FUnreliable channel payload)
      | None \<Rightarrow> map_option FRaw (compact_raw_entry packet))"

fun frame_len :: "compact_frame \<Rightarrow> nat" where
  "frame_len (FUnreliable channel payload) = compact_entry_header_len (length payload) + length payload"
| "frame_len (FRaw raw) = compact_entry_header_len (length raw) + length raw"

fun frame_bytes :: "compact_frame \<Rightarrow> bytes" where
  "frame_bytes (FUnreliable channel payload) = push_compact_entry_header channel (length payload) @ payload"
| "frame_bytes (FRaw raw) = push_compact_raw_entry raw"

text \<open>Tag, length and payload at the cursor, as all three compact decoders read them.\<close>

definition compact_entry :: "bytes \<Rightarrow> (bool \<times> u8 \<times> bytes \<times> bytes) option" where
  "compact_entry rest =
     (if length rest < 2 then None
      else
        let tag = rest ! 0; is_raw = tag AND COMPACT_RAW_PACKET_FLAG \<noteq> 0;
            channel = tag AND COMPACT_CHANNEL_MASK; r = drop 1 rest
        in if is_raw \<and> channel \<noteq> 0 then None
           else if tag AND COMPACT_LONG_LENGTH_FLAG \<noteq> 0 then
             if length r < 2 then None
             else let len = unat (of_le [r ! 0, r ! 1] :: u16); r = drop 2 r
                  in if len \<le> 255 \<or> len > length r then None
                     else Some (is_raw, channel, take len r, drop len r)
           else let len = unat (r ! 0); r = drop 1 r
                in if len > length r then None else Some (is_raw, channel, take len r, drop len r))"

lemma compact_entry_decreases: "compact_entry rest = Some (raw, ch, p, r) \<Longrightarrow> length r < length rest"
  by (auto simp: compact_entry_def Let_def split: if_splits)

definition is_raw_property :: "bytes \<Rightarrow> bool" where
  "is_raw_property payload =
     (case payload of
        [] \<Rightarrow> False
      | header # _ \<Rightarrow> property_from_byte header = Some PAck \<or> property_from_byte header = Some PChanneled)"

definition unreliable_packet :: "u8 \<Rightarrow> u8 \<Rightarrow> bytes \<Rightarrow> bytes" where
  "unreliable_packet number channel payload = [header_byte PUnreliable number, channel] @ payload"

definition compact_single_entry :: "bytes \<Rightarrow> bytes option" where
  "compact_single_entry compact =
     (if compact = [] then None
      else if property_from_byte (compact ! 0) \<noteq> Some PCompactMerged then None
      else case compact_entry (drop 1 compact) of
        None \<Rightarrow> None
      | Some (is_raw, channel, payload, rest) \<Rightarrow>
          if rest \<noteq> [] then None
          else if is_raw then
            if length payload < LITENETLIB_CHANNELED_HEADER_SIZE \<or> \<not> is_raw_property payload then None
            else Some payload
          else Some (unreliable_packet (drop_bit 5 (compact ! 0 AND 0x60)) channel payload))"

definition unpack_single_compact_packet :: "bytes \<Rightarrow> bytes" where
  "unpack_single_compact_packet compact =
     (case compact_single_entry compact of Some p \<Rightarrow> p | None \<Rightarrow> compact)"

definition compact_seal :: "u8 \<Rightarrow> merge_state \<Rightarrow> merge_state" where
  "compact_seal number st =
     (case st of (datagrams, current, count) \<Rightarrow>
        (if count = 1 then datagrams @ [unpack_single_compact_packet current]
         else if count > 1 then datagrams @ [current] else datagrams,
         [header_byte PCompactMerged number], 0))"

definition compact_step :: "u8 \<Rightarrow> nat \<Rightarrow> merge_state \<Rightarrow> bytes \<Rightarrow> merge_state" where
  "compact_step number mtu st packet =
     (case compact_frame_of packet of
        None \<Rightarrow>
          let (datagrams, current, count) = (if snd (snd st) > 0 then compact_seal number st else st)
          in (datagrams @ [packet], current, count)
      | Some frame \<Rightarrow>
          let st = (if snd (snd st) > 0 \<and> length (fst (snd st)) + frame_len frame > mtu
                    then compact_seal number st else st)
          in if frame_len frame + 1 > mtu then
               let (datagrams, current, count) = (if snd (snd st) > 0 then compact_seal number st else st)
               in (datagrams @ [packet], current, count)
             else
               let (datagrams, current, count) = st
               in (datagrams, current @ frame_bytes frame, count + 1))"

definition build_compact_merged_datagrams :: "u8 \<Rightarrow> nat \<Rightarrow> bytes list \<Rightarrow> bytes list" where
  "build_compact_merged_datagrams number mtu packets =
     (if length packets \<le> 1 then packets
      else
        let (datagrams, current, count) =
              foldl (compact_step number mtu) ([], [header_byte PCompactMerged number], 0) packets
        in if count = 1 then datagrams @ [unpack_single_compact_packet current]
           else if count > 1 then datagrams @ [current]
           else datagrams)"

definition build_send_datagrams :: "u8 \<Rightarrow> bool \<Rightarrow> bytes list \<Rightarrow> bytes list" where
  "build_send_datagrams number compact_send packets =
     (if length packets \<le> 1 then packets
      else if compact_send \<and>
        list_all (\<lambda>packet. compact_unreliable_entry packet \<noteq> None \<or> compact_raw_entry packet \<noteq> None) packets
      then build_compact_merged_datagrams number MAX_MERGED_PACKET_SIZE packets
      else build_merged_datagrams number packets)"

section \<open>Compact framing: receiver\<close>

function compact_entries_ok :: "bytes \<Rightarrow> nat option" where
  "compact_entries_ok rest =
     (if rest = [] then Some 0
      else case compact_entry rest of
        None \<Rightarrow> None
      | Some (raw, channel, payload, r) \<Rightarrow>
          if raw \<and> (length payload < 4 \<or> is_nested_merged_packet payload \<or> \<not> is_raw_property payload \<or>
                    \<not> is_valid_merged_packet payload)
          then None
          else map_option Suc (compact_entries_ok r))"
  by auto
termination by (relation "measure length") (auto dest: compact_entry_decreases)

declare compact_entries_ok.simps [simp del]

definition is_well_formed_compact_merged :: "bytes \<Rightarrow> bool" where
  "is_well_formed_compact_merged bytes =
     (case compact_entries_ok (drop 1 bytes) of None \<Rightarrow> False | Some entries \<Rightarrow> entries > 0)"

function split_compact_entries :: "u8 \<Rightarrow> bytes \<Rightarrow> bytes list" where
  "split_compact_entries number rest =
     (case compact_entry rest of
        None \<Rightarrow> []
      | Some (is_raw, channel, payload, r) \<Rightarrow>
          if is_raw then
            if length payload < 4 \<or> is_nested_merged_packet payload \<or> \<not> is_raw_property payload then []
            else payload # split_compact_entries number r
          else unreliable_packet number channel payload # split_compact_entries number r)"
  by auto
termination by (relation "measure (\<lambda>(number, rest). length rest)") (auto dest: compact_entry_decreases)

declare split_compact_entries.simps [simp del]

definition process_compact_merged_packet :: "u8 \<Rightarrow> bytes \<Rightarrow> bytes list" where
  "process_compact_merged_packet number bytes = split_compact_entries number (drop 1 bytes)"

text \<open>
  The arms \<open>Merged\<close> and \<open>CompactMerged\<close> of the packet dispatcher, with the packets they pass on; every
  other packet is passed on as it is.
\<close>

definition receive_datagram :: "bytes \<Rightarrow> bytes list" where
  "receive_datagram bytes =
     (case bytes of
        [] \<Rightarrow> []
      | header # _ \<Rightarrow>
          (case property_from_byte header of
             Some PMerged \<Rightarrow> if is_well_formed_merged bytes then process_merged_packet bytes else []
           | Some PCompactMerged \<Rightarrow>
               if is_well_formed_compact_merged bytes
               then process_compact_merged_packet (drop_bit 5 (header AND 0x60)) bytes else []
           | _ \<Rightarrow> [bytes]))"

section \<open>The datagram queue of a peer\<close>

fun append_datagrams :: "bytes list \<Rightarrow> bytes list \<Rightarrow> nat \<Rightarrow> bytes list \<times> nat" where
  "append_datagrams [] pending total_bytes = (pending, total_bytes)"
| "append_datagrams (datagram # rest) pending total_bytes =
     (if length pending \<ge> MAX_PENDING_DATAGRAMS_PER_PEER \<or>
         total_bytes + length datagram > MAX_PENDING_DATAGRAM_BYTES_PER_PEER
      then append_datagrams rest pending total_bytes
      else append_datagrams rest (pending @ [datagram]) (total_bytes + length datagram))"

definition append_pending_datagrams :: "peer_state \<Rightarrow> bytes list \<Rightarrow> peer_state" where
  "append_pending_datagrams peer datagrams =
     (let (pending, total_bytes) =
            append_datagrams datagrams (pending_datagrams peer) (pending_datagram_bytes peer)
      in peer\<lparr>pending_datagrams := pending, pending_datagram_bytes := total_bytes\<rparr>)"

text \<open>
  The socket is a parameter: the outcomes of the attempts in order, \<open>True\<close> for sent or failed for good
  (the datagram leaves the queue), \<open>False\<close> for a socket that would block.
\<close>

fun send_turn :: "bool list \<Rightarrow> bytes list \<Rightarrow> nat \<Rightarrow> bytes list \<times> bool \<times> bytes list \<times> nat" where
  "send_turn outcomes [] total_bytes = ([], True, [], total_bytes)"
| "send_turn [] (datagram # rest) total_bytes = ([], False, datagram # rest, total_bytes)"
| "send_turn (gone # outcomes) (datagram # rest) total_bytes =
     (if gone then
        let (sent, ok, left, total_bytes') = send_turn outcomes rest (total_bytes - length datagram)
        in (datagram # sent, ok, left, total_bytes')
      else ([], False, datagram # rest, total_bytes))"

definition peer_send_turn :: "bool list \<Rightarrow> peer_state \<Rightarrow> bytes list \<times> bool \<times> peer_state" where
  "peer_send_turn outcomes peer =
     (let (sent, ok, left, total_bytes) =
            send_turn outcomes (pending_datagrams peer) (pending_datagram_bytes peer)
      in (sent, ok, peer\<lparr>pending_datagrams := left, pending_datagram_bytes := total_bytes\<rparr>))"

section \<open>The whole turn of the dispatcher on a peer\<close>

text \<open>
  Unsent datagrams go first; when the socket blocks, the peer waits for its next turn. Otherwise the
  acknowledgements and queued payloads are packed, queued behind what is still unsent, and tried. The
  socket's answers to the two tries are parameters.
\<close>

definition flush_for_peer ::
    "bool list \<Rightarrow> merged_datagram_builder \<Rightarrow> peer_state \<Rightarrow> bytes list \<times> peer_state" where
  "flush_for_peer outcomes b peer =
     (let b = seal_datagram b;
          peer = (if mb_datagrams b \<noteq> []
                  then (append_pending_datagrams peer (mb_datagrams b))\<lparr>reliable_active := True\<rparr> else peer);
          (sent, ok, peer) = peer_send_turn outcomes peer
      in (sent, peer))"

definition dispatch_peer ::
    "bool list \<Rightarrow> bool list \<Rightarrow> nat \<Rightarrow> u8 list \<Rightarrow> u8 list \<Rightarrow> merged_datagram_builder \<Rightarrow> peer_state \<Rightarrow>
     transport_stats option \<Rightarrow> bytes list \<times> peer_state \<times> transport_stats option" where
  "dispatch_peer outcomes1 outcomes2 now ack_order order b state stats =
     (if \<not> reliable_active state then ([], state, stats)
      else
        let (sent1, ok, state1) = peer_send_turn outcomes1 state
        in if \<not> ok then (sent1, state1, stats)
           else
             let (packets, state2, stats2) = dispatch_pass now ack_order order state1 stats;
                 (sent2, state3) = flush_for_peer outcomes2
                    (foldl builder_push (builder_reset (connection_number state) b) packets) state2
             in (sent1 @ sent2, state3, stats2))"

end
