(* ===== verification/DatagramProofs.thy ===== *)
theory DatagramProofs
  imports Datagrams "HOL-Library.Sublist"
begin

text \<open>
  Both framings pack the same way; \<open>pack_step\<close> is their common loop body and the locale \<open>framing\<close> the
  contract between a sender's framing and the receiver's splitting. The main lemma, proved once in the
  locale, says that the receiver gets the packets back in order and that no datagram outgrows the limit
  unless it is a single packet. The interpretations are the classic and the compact framing.
\<close>

section \<open>The common packing loop\<close>

definition pack_seal :: "(bytes \<Rightarrow> bytes) \<Rightarrow> u8 \<Rightarrow> merge_state \<Rightarrow> merge_state" where
  "pack_seal unpack h st =
     (case st of (datagrams, current, count) \<Rightarrow>
        (datagrams @ [if count = 1 then unpack current else current], [h], 0))"

definition pack_step ::
    "(bytes \<Rightarrow> bytes) \<Rightarrow> u8 \<Rightarrow> (bytes \<Rightarrow> bytes option) \<Rightarrow> nat \<Rightarrow> merge_state \<Rightarrow> bytes \<Rightarrow> merge_state" where
  "pack_step unpack h frame mtu st packet =
     (case frame packet of
        None \<Rightarrow>
          let (datagrams, current, count) = (if snd (snd st) > 0 then pack_seal unpack h st else st)
          in (datagrams @ [packet], current, count)
      | Some f \<Rightarrow>
          let st = (if snd (snd st) > 0 \<and> length (fst (snd st)) + length f > mtu
                    then pack_seal unpack h st else st)
          in if length f + 1 > mtu then
               let (datagrams, current, count) = (if snd (snd st) > 0 then pack_seal unpack h st else st)
               in (datagrams @ [packet], current, count)
             else
               let (datagrams, current, count) = st
               in (datagrams, current @ f, count + 1))"

definition pack_finish :: "(bytes \<Rightarrow> bytes) \<Rightarrow> merge_state \<Rightarrow> bytes list" where
  "pack_finish unpack st =
     (case st of (datagrams, current, count) \<Rightarrow>
        if count = 1 then datagrams @ [unpack current]
        else if count > 1 then datagrams @ [current] else datagrams)"

locale framing =
  fixes h :: u8 and frame :: "bytes \<Rightarrow> bytes option" and unpack :: "bytes \<Rightarrow> bytes"
    and recv :: "bytes \<Rightarrow> bytes list" and good :: "bytes \<Rightarrow> bool" and mtu :: nat
  assumes unpack_one: "good p \<Longrightarrow> frame p = Some f \<Longrightarrow> length f < mtu \<Longrightarrow> unpack (h # f) = p"
    and recv_many: "list_all2 (\<lambda>p f. good p \<and> frame p = Some f \<and> length f < mtu) ps fs \<Longrightarrow>
      length ps > 1 \<Longrightarrow> recv (h # concat fs) = ps"
    and recv_plain: "good p \<Longrightarrow> recv p = [p]"
begin

definition pack_inv :: "bytes list \<Rightarrow> merge_state \<Rightarrow> bool" where
  "pack_inv handled st \<longleftrightarrow>
     (case st of (datagrams, current, count) \<Rightarrow>
        \<exists>ps fs. list_all2 (\<lambda>p f. good p \<and> frame p = Some f \<and> length f < mtu) ps fs \<and>
          count = length ps \<and> current = h # concat fs \<and> (count > 0 \<longrightarrow> length current \<le> mtu) \<and>
          concat (map recv datagrams) @ ps = handled \<and>
          (\<forall>d\<in>set datagrams. length d \<le> mtu \<or> d \<in> set handled))"

lemma inv_seal:
  assumes "pack_inv handled st" and "snd (snd st) > 0"
  shows "pack_inv handled (pack_seal unpack h st) \<and> snd (snd (pack_seal unpack h st)) = 0"
proof -
  obtain ds c k where st: "st = (ds, c, k)" by (cases st)
  obtain ps fs where i: "list_all2 (\<lambda>p f. good p \<and> frame p = Some f \<and> length f < mtu) ps fs"
    "k = length ps" "c = h # concat fs" "length c \<le> mtu" "concat (map recv ds) @ ps = handled"
    "\<forall>d\<in>set ds. length d \<le> mtu \<or> d \<in> set handled"
    using assms by (auto simp: pack_inv_def st)
  show ?thesis
  proof (cases "k = 1")
    case True
    then obtain p f where "ps = [p]" "fs = [f]" "good p" "frame p = Some f" "length f < mtu"
      using i(1,2) by (auto simp: list_all2_Cons1 length_Suc_conv)
    then show ?thesis using i True unpack_one[of p f] recv_plain[of p]
      by (auto simp: st pack_seal_def pack_inv_def)
  next
    case False
    then have "k > 1" using assms(2) by (simp add: st)
    then have "length ps > 1" using i(2) by simp
    then show ?thesis using i False recv_many[OF i(1)] by (auto simp: st pack_seal_def pack_inv_def)
  qed
qed

lemma inv_alone:
  assumes "pack_inv handled st" and "snd (snd st) = 0" and "good p"
  shows "pack_inv (handled @ [p]) (fst st @ [p], fst (snd st), snd (snd st))"
  using assms recv_plain[of p] by (auto simp: pack_inv_def)

lemma inv_add:
  assumes "pack_inv handled st" and "good p" and "frame p = Some f" and "length f < mtu"
    and "snd (snd st) > 0 \<Longrightarrow> length (fst (snd st)) + length f \<le> mtu"
  shows "pack_inv (handled @ [p]) (fst st, fst (snd st) @ f, snd (snd st) + 1)"
proof -
  obtain ds c k where st: "st = (ds, c, k)" by (cases st)
  obtain ps fs where i: "list_all2 (\<lambda>p f. good p \<and> frame p = Some f \<and> length f < mtu) ps fs"
    "k = length ps" "c = h # concat fs" "concat (map recv ds) @ ps = handled"
    "\<forall>d\<in>set ds. length d \<le> mtu \<or> d \<in> set handled"
    using assms by (auto simp: pack_inv_def st)
  have "length (c @ f) \<le> mtu" using assms(4,5) i by (cases "k > 0") (auto simp: st)
  moreover have "list_all2 (\<lambda>p f. good p \<and> frame p = Some f \<and> length f < mtu) (ps @ [p]) (fs @ [f])"
    using i(1) assms(2-4) by (intro list_all2_appendI) simp_all
  ultimately show ?thesis unfolding st pack_inv_def prod.case fst_conv snd_conv
    by (intro exI[of _ "ps @ [p]"] exI[of _ "fs @ [f]"]) (use i in auto)
qed

lemma inv_step:
  assumes "pack_inv handled st" and "good p"
  shows "pack_inv (handled @ [p]) (pack_step unpack h frame mtu st p)"
proof -
  have sealed: "pack_inv handled (if snd (snd s) > 0 then pack_seal unpack h s else s) \<and>
      snd (snd (if snd (snd s) > 0 then pack_seal unpack h s else s)) = 0" if "pack_inv handled s" for s
    using inv_seal[OF that] that by auto
  have alone: "pack_inv (handled @ [p])
      (let (ds, c, k) = (if snd (snd s) > 0 then pack_seal unpack h s else s) in (ds @ [p], c, k))"
    if "pack_inv handled s" for s
    using inv_alone[OF conjunct1[OF sealed[OF that]] conjunct2[OF sealed[OF that]] assms(2)]
    by (auto simp: Let_def case_prod_unfold)
  show ?thesis
  proof (cases "frame p")
    case None
    then show ?thesis using alone[OF assms(1)] by (simp add: pack_step_def)
  next
    case (Some f)
    let ?s = "if snd (snd st) > 0 \<and> length (fst (snd st)) + length f > mtu then pack_seal unpack h st else st"
    have s: "pack_inv handled ?s" using inv_seal[OF assms(1)] assms(1) by auto
    show ?thesis
    proof (cases "length f + 1 > mtu")
      case True
      then show ?thesis using alone[OF s] Some by (simp add: pack_step_def Let_def)
    next
      case False
      have "length (fst (snd ?s)) + length f \<le> mtu" if "snd (snd ?s) > 0"
        using that inv_seal[OF assms(1)] by (auto split: if_splits)
      then show ?thesis using inv_add[OF s assms(2) Some] False Some
        by (auto simp: pack_step_def Let_def case_prod_unfold)
    qed
  qed
qed

lemma inv_fold:
  assumes "pack_inv handled st" and "\<forall>p\<in>set packets. good p"
  shows "pack_inv (handled @ packets) (foldl (pack_step unpack h frame mtu) st packets)"
  using assms
proof (induction packets arbitrary: handled st)
  case (Cons p packets)
  then show ?case using Cons.IH[OF inv_step[of handled st p]] by simp
qed simp

lemma inv_finish:
  assumes "pack_inv handled st"
  shows "concat (map recv (pack_finish unpack st)) = handled \<and>
    (\<forall>d\<in>set (pack_finish unpack st). length d \<le> mtu \<or> d \<in> set handled)"
proof (cases "snd (snd st) > 0")
  case True
  have e: "pack_finish unpack st = fst (pack_seal unpack h st)"
    using True by (auto simp: pack_finish_def pack_seal_def split: prod.splits)
  show ?thesis using inv_seal[OF assms True] by (auto simp: e pack_inv_def split: prod.splits)
next
  case False
  then show ?thesis using assms by (auto simp: pack_inv_def pack_finish_def split: prod.splits)
qed

theorem packed_roundtrip:
  assumes "\<forall>p\<in>set packets. good p"
  shows "concat (map recv (pack_finish unpack (foldl (pack_step unpack h frame mtu) ([], [h], 0) packets))) = packets \<and>
    (\<forall>d\<in>set (pack_finish unpack (foldl (pack_step unpack h frame mtu) ([], [h], 0) packets)).
       length d \<le> mtu \<or> d \<in> set packets)"
proof -
  have "pack_inv [] ([], [h], 0)" by (simp add: pack_inv_def)
  from inv_finish[OF inv_fold[OF this assms]] show ?thesis by simp
qed

end

section \<open>Classic framing\<close>

definition mergeable :: "bytes \<Rightarrow> bool" where
  "mergeable p \<longleftrightarrow> is_valid_merged_packet p \<and> \<not> is_nested_merged_packet p"

lemma mergeable_receive: "mergeable p \<Longrightarrow> receive_datagram p = [p]"
  by (auto simp: mergeable_def is_valid_merged_packet_def is_nested_merged_packet_def receive_datagram_def
      split: list.splits option.splits PacketProperty.splits)

lemma mergeable_nonempty: "mergeable p \<Longrightarrow> p \<noteq> []"
  by (auto simp: mergeable_def is_valid_merged_packet_def)

lemma length_merge_frame [simp]: "length (merge_frame p) = 2 + length p"
  by (simp add: merge_frame_def)

lemma merge_frame_nonempty [simp]: "merge_frame p \<noteq> []"
  by (simp add: merge_frame_def to_le_2)

lemma merged_entry_frame:
  assumes "p \<noteq> []" and "length p < 65536"
  shows "merged_entry (merge_frame p @ r) = Some (p, r)"
proof -
  have l: "unat (of_nat (length p) :: u16) = length p" by (rule unat_of_nat_u16[OF assms(2)])
  have "merge_frame p @ r = [ucast (of_nat (length p) :: u16), ucast (drop_bit 8 (of_nat (length p) :: u16))] @ p @ r"
    by (simp add: merge_frame_def to_le_2)
  then show ?thesis using l assms(1) by (simp add: merged_entry_def of_le_pair Let_def del: of_le.simps)
qed

lemma split_frames:
  assumes "\<forall>p\<in>set ps. mergeable p \<and> length p < 65536"
  shows "split_merged_entries (concat (map merge_frame ps)) = ps"
  using assms
proof (induction ps)
  case Nil
  then show ?case by (subst split_merged_entries.simps) (simp add: merged_entry_def)
next
  case (Cons p ps)
  then show ?case
    by (subst split_merged_entries.simps) (simp add: merged_entry_frame mergeable_nonempty mergeable_def)
qed

lemma valid_frames:
  assumes "\<forall>p\<in>set ps. mergeable p \<and> length p < 65536"
  shows "merged_valid_packets (concat (map merge_frame ps)) = Some (length ps)"
  using assms
proof (induction ps)
  case Nil
  then show ?case by (subst merged_valid_packets.simps) simp
next
  case (Cons p ps)
  then show ?case
    by (subst merged_valid_packets.simps)
      (simp add: merged_entry_frame mergeable_nonempty mergeable_def)
qed

lemma receive_merged:
  assumes "\<forall>p\<in>set ps. mergeable p \<and> length p < 65536" and "ps \<noteq> []"
  shows "receive_datagram (header_byte PMerged n # concat (map merge_frame ps)) = ps"
  using split_frames[OF assms(1)] valid_frames[OF assms(1)] assms(2)
  by (simp add: receive_datagram_def is_well_formed_merged_def process_merged_packet_def)

lemma unpack_merged:
  assumes "length p < 65536"
  shows "unpack_single_merged_packet (x # merge_frame p) = p"
proof -
  have l: "unat (of_nat (length p) :: u16) = length p" by (rule unat_of_nat_u16[OF assms])
  have "x # merge_frame p =
      [x, ucast (of_nat (length p) :: u16), ucast (drop_bit 8 (of_nat (length p) :: u16))] @ p"
    by (simp add: merge_frame_def to_le_2)
  then show ?thesis using l
    by (simp add: unpack_single_merged_packet_def of_le_pair Let_def del: of_le.simps)
qed

interpretation classic: framing "header_byte PMerged n" "\<lambda>p. Some (merge_frame p)"
  unpack_single_merged_packet receive_datagram mergeable 1200 for n
proof
  fix ps fs
  assume a: "list_all2 (\<lambda>p f. mergeable p \<and> Some (merge_frame p) = Some f \<and> length f < 1200) ps fs" "1 < length ps"
  from a(1) have "fs = map merge_frame ps \<and> (\<forall>p\<in>set ps. mergeable p \<and> length p < 65536)"
    by (induction rule: list_all2_induct) auto
  then show "receive_datagram (header_byte PMerged n # concat fs) = ps"
    using receive_merged[of ps n] a(2) by (cases ps) auto
qed (auto simp: unpack_merged mergeable_receive)

lemma merge_step_pack:
  "merge_step n = pack_step unpack_single_merged_packet (header_byte PMerged n) (\<lambda>p. Some (merge_frame p)) 1200"
  by (intro ext) (simp add: merge_step_def pack_step_def merge_seal_def pack_seal_def MAX_MERGED_PACKET_SIZE_def
      Let_def add.assoc)

lemma build_merged_pack:
  "length packets > 1 \<Longrightarrow> build_merged_datagrams n packets =
    pack_finish unpack_single_merged_packet (foldl (pack_step unpack_single_merged_packet (header_byte PMerged n)
      (\<lambda>p. Some (merge_frame p)) 1200) ([], [header_byte PMerged n], 0) packets)"
  by (simp add: build_merged_datagrams_def merge_step_pack pack_finish_def)

lemma build_merged_facts:
  assumes "\<forall>p\<in>set packets. mergeable p"
  shows "concat (map receive_datagram (build_merged_datagrams n packets)) = packets \<and>
    (\<forall>d\<in>set (build_merged_datagrams n packets). length d \<le> 1200 \<or> d \<in> set packets)"
proof (cases "length packets > 1")
  case True
  then show ?thesis using classic.packed_roundtrip[OF assms, of n] by (simp add: build_merged_pack)
next
  case False
  then have "build_merged_datagrams n packets = packets" by (simp add: build_merged_datagrams_def)
  moreover have "concat (map receive_datagram packets) = packets"
    using False assms mergeable_receive by (cases packets) auto
  ultimately show ?thesis by simp
qed

section \<open>The reusable builder makes the same datagrams\<close>

definition builds :: "u8 \<Rightarrow> merged_datagram_builder \<Rightarrow> merge_state \<Rightarrow> bool" where
  "builds n b st \<longleftrightarrow>
     (case st of (datagrams, current, count) \<Rightarrow>
        mb_connection_number b = n \<and> mb_datagrams b = datagrams \<and> mb_count b = count \<and>
        (if count = 0 then current = [header_byte PMerged n] \<and> mb_current b = [] else mb_current b = current))"

lemma builds_seal: "builds n b st \<Longrightarrow> snd (snd st) > 0 \<Longrightarrow> builds n (seal_datagram b) (merge_seal n st)"
  by (auto simp: builds_def seal_datagram_def merge_seal_def split: prod.splits)

lemma builds_alone:
  "builds n b st \<Longrightarrow> mb_count b = 0 \<Longrightarrow>
    builds n (b\<lparr>mb_datagrams := mb_datagrams b @ [p]\<rparr>) (let (ds, c, k) = st in (ds @ [p], c, k))"
  by (cases st) (auto simp: builds_def)

lemma builds_frame:
  "builds n b st \<Longrightarrow>
    builds n (let b = (if mb_count b = 0 \<and> mb_current b = [] then start_datagram b else b)
      in b\<lparr>mb_current := mb_current b @ merge_frame p, mb_count := mb_count b + 1\<rparr>)
      (let (ds, c, k) = st in (ds, c @ merge_frame p, k + 1))"
  by (cases st) (auto simp: builds_def start_datagram_def Let_def split: if_splits)

lemma builds_seal_if:
  assumes "builds n b st"
  shows "builds n (if mb_count b > 0 \<and> C then seal_datagram b else b)
      (if snd (snd st) > 0 \<and> C then merge_seal n st else st)"
  using assms builds_seal[OF assms] by (auto simp: builds_def split: prod.splits)

lemma builds_push:
  assumes "builds n b st"
  shows "builds n (builder_push b p) (merge_step n st p)"
proof -
  let ?C = "length (fst (snd st)) + (2 + length p) > MAX_MERGED_PACKET_SIZE"
  define b1 where "b1 = (if mb_count b > 0 \<and> ?C then seal_datagram b else b)"
  define y1 where "y1 = (if snd (snd st) > 0 \<and> ?C then merge_seal n st else st)"
  have y: "builds n b1 y1" unfolding b1_def y1_def by (rule builds_seal_if[OF assms])
  have c: "(if mb_count b > 0 \<and> length (mb_current b) + (2 + length p) > MAX_MERGED_PACKET_SIZE
      then seal_datagram b else b) = b1"
    using assms by (auto simp: b1_def builds_def split: prod.splits if_splits)
  have z: "builds n (if mb_count b1 > 0 then seal_datagram b1 else b1)
      (if snd (snd y1) > 0 then merge_seal n y1 else y1)" using builds_seal_if[OF y, of True] by simp
  have k: "mb_count (if mb_count b1 > 0 then seal_datagram b1 else b1) = 0" by (simp add: seal_datagram_def)
  show ?thesis
    unfolding builder_push_def merge_step_def Let_def c y1_def[symmetric]
    using builds_alone[OF z k, of p] builds_frame[OF y, of p] by (simp add: Let_def)
qed

lemma builder_matches:
  "mb_datagrams (seal_datagram (foldl builder_push (builder_reset n b) packets)) =
    build_merged_datagrams n packets"
proof -
  have f: "builds n (foldl builder_push x ps) (foldl (merge_step n) y ps)" if "builds n x y" for x y ps
    using that by (induction ps arbitrary: x y) (simp_all add: builds_push)
  have "builds n (builder_reset n b) ([], [header_byte PMerged n], 0)"
    by (simp add: builds_def builder_reset_def)
  from f[OF this] have r: "builds n (foldl builder_push (builder_reset n b) packets)
      (foldl (merge_step n) ([], [header_byte PMerged n], 0) packets)" .
  show ?thesis
  proof (cases "length packets > 1")
    case True
    then show ?thesis using r
      by (auto simp: build_merged_datagrams_def builds_def seal_datagram_def split: prod.splits)
  next
    case False
    then consider "packets = []" | p where "packets = [p]" by (cases packets) auto
    then show ?thesis
    proof cases
      case 1
      then show ?thesis by (simp add: build_merged_datagrams_def seal_datagram_def builder_reset_def)
    next
      case (2 p)
      have "unpack_single_merged_packet (x # merge_frame p) = p" if "length p + 3 \<le> 1200" for x
        using that by (intro unpack_merged) simp
      then show ?thesis
        by (simp add: 2 build_merged_datagrams_def seal_datagram_def builder_reset_def builder_push_def
            start_datagram_def MAX_MERGED_PACKET_SIZE_def Let_def)
    qed
  qed
qed

section \<open>Compact framing\<close>

text \<open>Packets of one connection: the header of an unreliable packet is determined by its number.\<close>

definition sendable :: "u8 \<Rightarrow> bytes \<Rightarrow> bool" where
  "sendable n p \<longleftrightarrow> mergeable p \<and>
     (property_from_byte (p ! 0) = Some PUnreliable \<longrightarrow> p ! 0 = header_byte PUnreliable n)"

lemmas compact_flags = COMPACT_LONG_LENGTH_FLAG_def COMPACT_RAW_PACKET_FLAG_def COMPACT_CHANNEL_MASK_def

lemma two_bit_cases: "n < 4 \<Longrightarrow> n = 0 \<or> n = 1 \<or> n = 2 \<or> n = (3 :: u8)"
proof -
  assume "n < 4"
  then have "unat n < 4" by (simp add: word_less_nat_alt)
  then have "unat n = 0 \<or> unat n = 1 \<or> unat n = 2 \<or> unat n = 3" by linarith
  then show ?thesis by (auto simp: word_unat_eq_iff)
qed

lemma header_number: "n < 4 \<Longrightarrow> drop_bit 5 (header_byte PCompactMerged n AND 0x60) = n"
  using two_bit_cases[of n] by (auto simp: header_byte_def)

lemma channel_tag:
  assumes "c AND NOT COMPACT_CHANNEL_MASK = 0"
  shows "c AND COMPACT_CHANNEL_MASK = c" and "c AND COMPACT_RAW_PACKET_FLAG = 0"
    and "c AND COMPACT_LONG_LENGTH_FLAG = 0"
    and "(c OR COMPACT_LONG_LENGTH_FLAG) AND COMPACT_CHANNEL_MASK = c"
    and "(c OR COMPACT_LONG_LENGTH_FLAG) AND COMPACT_RAW_PACKET_FLAG = 0"
    and "(c OR COMPACT_LONG_LENGTH_FLAG) AND COMPACT_LONG_LENGTH_FLAG \<noteq> 0"
proof -
  have "c AND COMPACT_CHANNEL_MASK OR c AND NOT COMPACT_CHANNEL_MASK = c"
    by (simp flip: bit.conj_disj_distrib)
  with assms show m: "c AND COMPACT_CHANNEL_MASK = c" by simp
  have z: "c AND x = 0" if "COMPACT_CHANNEL_MASK AND x = 0" for x
    using that by (subst m[symmetric]) (simp add: and.assoc)
  show r: "c AND COMPACT_RAW_PACKET_FLAG = 0" and l: "c AND COMPACT_LONG_LENGTH_FLAG = 0"
    by (rule z; simp add: compact_flags)+
  show "(c OR COMPACT_LONG_LENGTH_FLAG) AND COMPACT_CHANNEL_MASK = c"
    using m by (simp add: bit.conj_disj_distrib2 compact_flags)
  show "(c OR COMPACT_LONG_LENGTH_FLAG) AND COMPACT_RAW_PACKET_FLAG = 0"
    using r by (simp add: bit.conj_disj_distrib2 compact_flags)
  show "(c OR COMPACT_LONG_LENGTH_FLAG) AND COMPACT_LONG_LENGTH_FLAG \<noteq> 0"
    using l by (simp add: bit.conj_disj_distrib2 compact_flags)
qed

lemma push_header_nonempty [simp]: "push_compact_entry_header c k \<noteq> []" "push_compact_raw_entry p \<noteq> []"
  by (simp_all add: push_compact_entry_header_def push_compact_raw_entry_def)

lemma length_frame_bytes: "length (frame_bytes f) = frame_len f"
  by (cases f) (simp_all add: push_compact_entry_header_def push_compact_raw_entry_def compact_entry_header_len_def)

lemma entry_unreliable:
  assumes "c AND NOT COMPACT_CHANNEL_MASK = 0" and "length p < 65536"
  shows "compact_entry (push_compact_entry_header c (length p) @ p @ r) = Some (False, c, p, r)"
proof (cases "length p \<le> 255")
  case True
  then have "unat (of_nat (length p) :: u8) = length p" by (intro unat_of_nat_u8) simp
  then show ?thesis using True channel_tag(1-3)[OF assms(1)]
    by (simp add: compact_entry_def push_compact_entry_header_def Let_def)
next
  case False
  have "unat (of_nat (length p) :: u16) = length p" by (rule unat_of_nat_u16[OF assms(2)])
  then show ?thesis using False channel_tag[OF assms(1)]
    by (simp add: compact_entry_def push_compact_entry_header_def Let_def to_le_2 of_le_pair del: of_le.simps)
qed

lemma entry_raw:
  assumes "length p < 65536"
  shows "compact_entry (push_compact_raw_entry p @ r) = Some (True, 0, p, r)"
proof (cases "length p \<le> 255")
  case True
  then have "unat (of_nat (length p) :: u8) = length p" by (intro unat_of_nat_u8) simp
  then show ?thesis using True
    by (simp add: compact_entry_def push_compact_raw_entry_def compact_flags Let_def)
next
  case False
  have "unat (of_nat (length p) :: u16) = length p" by (rule unat_of_nat_u16[OF assms])
  then show ?thesis using False
    by (simp add: compact_entry_def push_compact_raw_entry_def compact_flags Let_def to_le_2 of_le_pair
        del: of_le.simps)
qed

lemma frame_cases:
  assumes "sendable n p" and "compact_frame_of p = Some f"
  obtains c q where "f = FUnreliable c q" "c AND NOT COMPACT_CHANNEL_MASK = 0" "p = unreliable_packet n c q"
    | "f = FRaw p" "length p \<ge> 4" "is_raw_property p" "\<not> is_nested_merged_packet p" "is_valid_merged_packet p"
proof (cases "compact_unreliable_entry p")
  case None
  then have "f = FRaw p" "length p \<ge> 4" "is_raw_property p"
    using assms(2) by (auto simp: compact_frame_of_def compact_raw_entry_def is_raw_property_def header_sizes
        split: if_splits list.splits)
  then show ?thesis using that(2) assms(1) by (simp add: sendable_def mergeable_def)
next
  case (Some x)
  obtain c q where x: "x = (c, q)" by (cases x)
  have e: "length p \<ge> 2" "property_from_byte (p ! 0) = Some PUnreliable" "p ! 1 AND NOT COMPACT_CHANNEL_MASK = 0"
    "c = p ! 1" "q = drop 2 p"
    using Some by (auto simp: x compact_unreliable_entry_def split: if_splits)
  moreover obtain a b r where p: "p = a # b # r"
    using e(1) by (metis Suc_le_length_iff numeral_2_eq_2)
  ultimately have "p = unreliable_packet n c q"
    using assms(1) by (simp add: sendable_def unreliable_packet_def)
  moreover have "f = FUnreliable c q" using assms(2) Some by (simp add: compact_frame_of_def x)
  moreover have "c AND NOT COMPACT_CHANNEL_MASK = 0" using e(3,4) by simp
  ultimately show ?thesis by (intro that(1))
qed

lemma frame_decode:
  assumes s: "sendable n p" and f: "compact_frame_of p = Some f" and len: "frame_len f < 1200"
  shows "split_compact_entries n (frame_bytes f @ r) = p # split_compact_entries n r"
    and "compact_entries_ok (frame_bytes f @ r) = map_option Suc (compact_entries_ok r)"
    and "n < 4 \<Longrightarrow> compact_single_entry (header_byte PCompactMerged n # frame_bytes f) = Some p"
proof -
  show "split_compact_entries n (frame_bytes f @ r) = p # split_compact_entries n r"
    using s f
  proof (cases rule: frame_cases)
    case (1 c q)
    then show ?thesis using len entry_unreliable[OF 1(2), of q r]
      by (subst split_compact_entries.simps) simp
  next
    case 2
    then show ?thesis using len entry_raw[of p r] by (subst split_compact_entries.simps) simp
  qed
  show "compact_entries_ok (frame_bytes f @ r) = map_option Suc (compact_entries_ok r)"
    using s f
  proof (cases rule: frame_cases)
    case (1 c q)
    then show ?thesis using len entry_unreliable[OF 1(2), of q r]
      by (subst compact_entries_ok.simps) simp
  next
    case 2
    then show ?thesis using len entry_raw[of p r] by (subst compact_entries_ok.simps) simp
  qed
  show "compact_single_entry (header_byte PCompactMerged n # frame_bytes f) = Some p" if "n < 4"
    using s f
  proof (cases rule: frame_cases)
    case (1 c q)
    then show ?thesis using len entry_unreliable[OF 1(2), of q "[]"] header_number[OF that]
      by (simp add: compact_single_entry_def)
  next
    case 2
    then show ?thesis using len entry_raw[of p "[]"] by (simp add: compact_single_entry_def header_sizes)
  qed
qed

definition compact_frame_bytes :: "bytes \<Rightarrow> bytes option" where
  "compact_frame_bytes p = map_option frame_bytes (compact_frame_of p)"

lemma compact_many:
  assumes "list_all2 (\<lambda>p f. sendable n p \<and> compact_frame_bytes p = Some f \<and> length f < 1200) ps fs"
  shows "split_compact_entries n (concat fs) = ps \<and> compact_entries_ok (concat fs) = Some (length ps)"
  using assms
proof (induction rule: list_all2_induct)
  case Nil
  then show ?case
    by (subst split_compact_entries.simps, subst compact_entries_ok.simps) (simp add: compact_entry_def)
next
  case (Cons p ps f fs)
  then obtain x where "compact_frame_of p = Some x" "f = frame_bytes x" "frame_len x < 1200"
    by (auto simp: compact_frame_bytes_def length_frame_bytes)
  then show ?case using Cons frame_decode(1,2)[of n p x "concat fs"] by simp
qed

interpretation compact: framing "header_byte PCompactMerged (n mod 4)" compact_frame_bytes
  unpack_single_compact_packet receive_datagram "sendable (n mod 4)" 1200 for n :: u8
proof -
  have n: "(n mod 4 :: u8) < 4" by (simp add: word_mod_less_divisor)
  show "framing (header_byte PCompactMerged (n mod 4)) compact_frame_bytes
    unpack_single_compact_packet receive_datagram (sendable (n mod 4)) 1200"
  proof
    fix p f
    assume "sendable (n mod 4) p" "compact_frame_bytes p = Some f" "length f < 1200"
    then show "unpack_single_compact_packet (header_byte PCompactMerged (n mod 4) # f) = p"
      using frame_decode(3)[OF _ _ _ n]
      by (auto simp: compact_frame_bytes_def length_frame_bytes unpack_single_compact_packet_def)
  next
    fix ps fs
    assume a: "list_all2 (\<lambda>p f. sendable (n mod 4) p \<and> compact_frame_bytes p = Some f \<and> length f < 1200) ps fs"
      "1 < length ps"
    show "receive_datagram (header_byte PCompactMerged (n mod 4) # concat fs) = ps"
      using compact_many[OF a(1)] a(2) header_number[OF n]
      by (simp add: receive_datagram_def is_well_formed_compact_merged_def process_compact_merged_packet_def)
  qed (simp add: sendable_def mergeable_receive)
qed

lemma compact_step_pack:
  "compact_step n 1200 = pack_step unpack_single_compact_packet (header_byte PCompactMerged n) compact_frame_bytes 1200"
  by (intro ext) (auto simp: compact_step_def pack_step_def compact_seal_def pack_seal_def compact_frame_bytes_def
      length_frame_bytes Let_def split: option.split)

lemma build_send_facts:
  assumes n: "n < 4" and good: "\<forall>p\<in>set packets. sendable n p"
  shows "concat (map receive_datagram (build_send_datagrams n compact_send packets)) = packets \<and>
    (\<forall>d\<in>set (build_send_datagrams n compact_send packets). length d \<le> 1200 \<or> d \<in> set packets)"
proof -
  have m: "\<forall>p\<in>set packets. mergeable p" using good by (simp add: sendable_def)
  have k: "n mod 4 = n" using n by (simp add: mod_word_less)
  show ?thesis
  proof (cases "length packets > 1 \<and> compact_send \<and> list_all
      (\<lambda>packet. compact_unreliable_entry packet \<noteq> None \<or> compact_raw_entry packet \<noteq> None) packets")
    case True
    then have "build_send_datagrams n compact_send packets =
        pack_finish unpack_single_compact_packet (foldl (pack_step unpack_single_compact_packet
          (header_byte PCompactMerged n) compact_frame_bytes 1200) ([], [header_byte PCompactMerged n], 0) packets)"
      by (simp add: build_send_datagrams_def build_compact_merged_datagrams_def MAX_MERGED_PACKET_SIZE_def
          compact_step_pack pack_finish_def)
    then show ?thesis using compact.packed_roundtrip[of packets n] good unfolding k by simp
  next
    case False
    then have "build_send_datagrams n compact_send packets = build_merged_datagrams n packets"
      by (auto simp: build_send_datagrams_def build_merged_datagrams_def)
    then show ?thesis using build_merged_facts[OF m] by simp
  qed
qed

section \<open>Hostile datagrams\<close>

lemma merged_entry_parts:
  assumes "merged_entry rest = Some (p, r)"
  shows "length p + length r + 2 = length rest"
  using assms by (auto simp: merged_entry_def Let_def split: if_splits)

lemma compact_entry_parts:
  assumes "compact_entry rest = Some (raw, c, p, r)"
  shows "length p + length r + 2 \<le> length rest"
  using assms by (auto simp: compact_entry_def Let_def split: if_splits)

lemma split_merged_bound:
  "sum_list (map length (split_merged_entries rest)) \<le> length rest \<and>
   (\<forall>p\<in>set (split_merged_entries rest). \<not> is_nested_merged_packet p \<and> p \<noteq> [])"
proof (induction rest rule: split_merged_entries.induct)
  case (1 rest)
  show ?case
  proof (cases "merged_entry rest")
    case None
    then show ?thesis by (subst (1 2) split_merged_entries.simps) simp
  next
    case (Some x)
    obtain p r where x: "x = (p, r)" by (cases x)
    have "p \<noteq> []" if "is_valid_merged_packet p" using that by (auto simp: is_valid_merged_packet_def)
    then show ?thesis using 1[OF Some[unfolded x] refl] merged_entry_parts[OF Some[unfolded x]]
      by (subst (1 2) split_merged_entries.simps) (auto simp: Some x)
  qed
qed

lemma split_compact_bound:
  "sum_list (map length (split_compact_entries n rest)) \<le> length rest \<and>
   (\<forall>p\<in>set (split_compact_entries n rest). \<not> is_nested_merged_packet p \<and> p \<noteq> [])"
proof (induction n rest rule: split_compact_entries.induct)
  case (1 n rest)
  show ?case
  proof (cases "compact_entry rest")
    case None
    then show ?thesis by (subst (1 2) split_compact_entries.simps) simp
  next
    case (Some x)
    obtain raw c p r where x: "x = (raw, c, p, r)" by (cases x)
    note e = compact_entry_parts[OF Some[unfolded x]]
    have u: "\<not> is_nested_merged_packet (unreliable_packet n c p)" "length (unreliable_packet n c p) = 2 + length p"
      "unreliable_packet n c p \<noteq> []"
      by (simp_all add: unreliable_packet_def is_nested_merged_packet_def)
    have ih: "sum_list (map length (split_compact_entries n r)) \<le> length r \<and>
        (\<forall>p\<in>set (split_compact_entries n r). \<not> is_nested_merged_packet p \<and> p \<noteq> [])"
      if "\<not> raw \<or> \<not> (length p < 4 \<or> is_nested_merged_packet p \<or> \<not> is_raw_property p)"
    proof (cases raw)
      case True
      show ?thesis by (rule "1.IH"(1)[OF Some x[symmetric] refl refl True]) (use that True in blast)
    next
      case False
      show ?thesis by (rule "1.IH"(2)[OF Some x[symmetric] refl refl False])
    qed
    show ?thesis
    proof (cases "raw \<and> (length p < 4 \<or> is_nested_merged_packet p \<or> \<not> is_raw_property p)")
      case True
      then show ?thesis by (subst (1 2) split_compact_entries.simps) (auto simp: Some x)
    next
      case False
      then show ?thesis using ih e u
        by (subst (1 2) split_compact_entries.simps) (auto simp: Some x)
    qed
  qed
qed

section \<open>The datagram queue\<close>

definition datagram_budget :: "peer_state \<Rightarrow> bool" where
  "datagram_budget peer \<longleftrightarrow>
     pending_datagram_bytes peer = sum_list (map length (pending_datagrams peer)) \<and>
     length (pending_datagrams peer) \<le> MAX_PENDING_DATAGRAMS_PER_PEER \<and>
     pending_datagram_bytes peer \<le> MAX_PENDING_DATAGRAM_BYTES_PER_PEER"

lemma append_datagrams_facts:
  assumes "append_datagrams ds q b = (q', b')" and "b = sum_list (map length q)"
    and "length q \<le> MAX_PENDING_DATAGRAMS_PER_PEER" and "b \<le> MAX_PENDING_DATAGRAM_BYTES_PER_PEER"
  shows "b' = sum_list (map length q') \<and> length q' \<le> MAX_PENDING_DATAGRAMS_PER_PEER \<and>
    b' \<le> MAX_PENDING_DATAGRAM_BYTES_PER_PEER \<and> (\<exists>kept. q' = q @ kept \<and> subseq kept ds)"
  using assms
proof (induction ds q b rule: append_datagrams.induct)
  case (1 q b)
  then show ?case by auto
next
  case (2 d ds q b)
  show ?case
  proof (cases "length q \<ge> MAX_PENDING_DATAGRAMS_PER_PEER \<or> b + length d > MAX_PENDING_DATAGRAM_BYTES_PER_PEER")
    case True
    then show ?thesis using 2 by (fastforce intro: subseq_Cons')
  next
    case False
    then show ?thesis using "2.IH"(2)[OF False] "2.prems" by fastforce
  qed
qed

lemma send_turn_facts:
  assumes "send_turn outcomes q b = (sent, ok, left, b')" and "b = sum_list (map length q)"
  shows "sent @ left = q \<and> b' = sum_list (map length left) \<and> (ok \<longleftrightarrow> left = [])"
  using assms
  by (induction outcomes q b arbitrary: sent ok left b' rule: send_turn.induct)
    (auto split: if_splits prod.splits)

section \<open>Properties\<close>

text \<open>
  C32. Whatever mix of packets a peer has to send, and whether or not the compact framing is
  switched on, the receiver that splits the resulting datagrams gets exactly those packets in the same
  order; and a datagram is longer than 1200 bytes only when it is a single packet that alone is.
\<close>

theorem send_datagrams_roundtrip:
  assumes "n < 4" and "\<forall>p\<in>set packets. sendable n p"
  shows "concat (map receive_datagram (build_send_datagrams n compact_send packets)) = packets \<and>
    list_all (\<lambda>d. length d \<le> 1200 \<or> d \<in> set packets) (build_send_datagrams n compact_send packets)"
  unfolding list_all_iff using assms by (rule build_send_facts)

theorem send_datagrams_roundtrip_witness:
  "concat (map receive_datagram (build_send_datagrams 1 True [[0x20, 7, 9], [0x22, 0, 0, 3], [0x21, 1, 0, 2, 5]])) =
      [[0x20, 7, 9], [0x22, 0, 0, 3], [0x21, 1, 0, 2, 5]] \<and>
    list_all (\<lambda>d. length d \<le> 1200 \<or> d \<in> set [[0x20, 7, 9], [0x22, 0, 0, 3], [0x21, 1, 0, 2, 5]])
      (build_send_datagrams 1 True [[0x20, 7, 9], [0x22, 0, 0, 3], [0x21, 1, 0, 2, 5]])"
  by (rule send_datagrams_roundtrip)
    (simp_all add: sendable_def mergeable_def is_valid_merged_packet_def is_nested_merged_packet_def
      property_from_byte_def FROM_BYTE_TABLE_def merged_header_size_def header_byte_def)

text \<open>
  The builder that the dispatcher reuses across peers and passes produces, from any
  previous state after \<open>reset\<close>, the same datagrams as the straightforward \<open>build_merged_datagrams\<close>.
\<close>

theorem builder_equals_reference:
  "mb_datagrams (seal_datagram (foldl builder_push (builder_reset n b) packets)) =
    build_merged_datagrams n packets"
  by (rule builder_matches)

text \<open>
  No datagram, however forged, amplifies or nests: the packets that the receiver extracts
  from it are together no longer than the datagram itself, none is empty, and none is a merged datagram
  again, so handing them back to the packet handler recurses at most once.
\<close>

theorem receive_datagram_bounded:
  "sum_list (map length (receive_datagram bytes)) \<le> length bytes \<and>
    list_all (\<lambda>p. \<not> is_nested_merged_packet p \<and> p \<noteq> []) (receive_datagram bytes)"
proof -
  have "sum_list (map length (process_merged_packet bytes)) \<le> length bytes"
    "sum_list (map length (process_compact_merged_packet n bytes)) \<le> length bytes" for n
    using split_merged_bound[of "drop 1 bytes"] split_compact_bound[of n "drop 1 bytes"]
    unfolding process_merged_packet_def process_compact_merged_packet_def length_drop
    by (meson diff_le_self order_trans)+
  moreover have "\<forall>p\<in>set (process_merged_packet bytes). \<not> is_nested_merged_packet p \<and> p \<noteq> []"
    "\<forall>p\<in>set (process_compact_merged_packet n bytes). \<not> is_nested_merged_packet p \<and> p \<noteq> []" for n
    using split_merged_bound split_compact_bound
    unfolding process_merged_packet_def process_compact_merged_packet_def by blast+
  ultimately show ?thesis
    by (cases bytes) (auto simp: receive_datagram_def is_nested_merged_packet_def list_all_iff
        split: option.splits PacketProperty.splits)
qed

text \<open>
  The queue of unsent datagrams is a bounded FIFO: appending keeps everything that is
  queued in front, adds a subsequence of the new datagrams behind it, and never exceeds the limits on
  count and bytes; a send turn removes exactly a prefix, whatever the socket answers, and the byte
  counter stays the sum of the queued lengths.
\<close>

theorem datagram_queue_fifo:
  assumes "datagram_budget peer"
  shows "datagram_budget (append_pending_datagrams peer ds) \<and>
    (\<exists>kept. pending_datagrams (append_pending_datagrams peer ds) = pending_datagrams peer @ kept \<and> subseq kept ds) \<and>
    (let (sent, ok, peer') = peer_send_turn outcomes peer in
       sent @ pending_datagrams peer' = pending_datagrams peer \<and> datagram_budget peer' \<and>
       (ok \<longleftrightarrow> pending_datagrams peer' = []))"
proof -
  obtain q b where a: "append_datagrams ds (pending_datagrams peer) (pending_datagram_bytes peer) = (q, b)" by fastforce
  obtain sent ok left b' where t: "send_turn outcomes (pending_datagrams peer) (pending_datagram_bytes peer) =
      (sent, ok, left, b')" by (metis prod_cases4)
  have "sent @ left = pending_datagrams peer \<and> b' = sum_list (map length left) \<and> (ok \<longleftrightarrow> left = [])"
    using send_turn_facts[OF t] assms by (simp add: datagram_budget_def)
  moreover from this have "length left \<le> length (pending_datagrams peer)" "b' \<le> pending_datagram_bytes peer"
    using assms by (metis le_add2 length_append, metis datagram_budget_def le_add2 map_append sum_list_append)
  moreover have "peer_send_turn outcomes peer =
      (sent, ok, peer\<lparr>pending_datagrams := left, pending_datagram_bytes := b'\<rparr>)"
    by (simp add: peer_send_turn_def t)
  moreover have "append_pending_datagrams peer ds =
      peer\<lparr>pending_datagrams := q, pending_datagram_bytes := b\<rparr>"
    by (simp add: append_pending_datagrams_def a)
  moreover have "b = sum_list (map length q) \<and> length q \<le> MAX_PENDING_DATAGRAMS_PER_PEER \<and>
      b \<le> MAX_PENDING_DATAGRAM_BYTES_PER_PEER \<and> (\<exists>kept. q = pending_datagrams peer @ kept \<and> subseq kept ds)"
    using append_datagrams_facts[OF a] assms by (simp add: datagram_budget_def)
  ultimately show ?thesis using assms by (simp add: datagram_budget_def)
qed

theorem datagram_queue_fifo_witness:
  "datagram_budget (append_pending_datagrams (new_peer 0 0) [[1, 2], [3]]) \<and>
    (\<exists>kept. pending_datagrams (append_pending_datagrams (new_peer 0 0) [[1, 2], [3]]) =
       pending_datagrams (new_peer 0 0) @ kept \<and> subseq kept [[1, 2], [3]]) \<and>
    (let (sent, ok, peer') = peer_send_turn [True, False] (new_peer 0 0) in
       sent @ pending_datagrams peer' = pending_datagrams (new_peer 0 0) \<and> datagram_budget peer' \<and>
       (ok \<longleftrightarrow> pending_datagrams peer' = []))"
  by (rule datagram_queue_fifo) (simp add: datagram_budget_def new_peer_def)

end
