(* ===== verification/Assoc.thy ===== *)
theory Assoc
  imports Prelude "HOL-Library.Multiset"
begin

text \<open>
  Association lists with distinct keys, the representation of those hash maps of the sources whose size or
  contents are walked: a store replaces the entry of its key, and what the list holds is the entry of a key
  together with the rest.
\<close>

section \<open>Association lists with distinct keys\<close>

definition remove_key :: "'k \<Rightarrow> ('k \<times> 'v) list \<Rightarrow> ('k \<times> 'v) list" where
  "remove_key k xs = filter (\<lambda>p. fst p \<noteq> k) xs"

definition put_key :: "'k \<Rightarrow> 'v \<Rightarrow> ('k \<times> 'v) list \<Rightarrow> ('k \<times> 'v) list" where
  "put_key k v xs = (k, v) # remove_key k xs"

lemma remove_key_absent [simp]: "map_of xs k = None \<Longrightarrow> remove_key k xs = xs"
  by (force simp: remove_key_def map_of_eq_None_iff filter_id_conv)

lemma remove_put_key [simp]: "remove_key k (put_key k v xs) = remove_key k xs"
  by (simp add: remove_key_def put_key_def)

lemma remove_key_twice [simp]: "remove_key k (remove_key k xs) = remove_key k xs"
  by (simp add: remove_key_def)

lemma map_of_put_key [simp]: "map_of (put_key k v xs) l = (if l = k then Some v else map_of xs l)"
  by (induction xs) (auto simp: put_key_def remove_key_def)

lemma map_of_remove_key [simp]: "map_of (remove_key k xs) l = (if l = k then None else map_of xs l)"
  by (induction xs) (auto simp: remove_key_def)

lemma distinct_remove_key [simp]: "distinct (map fst xs) \<Longrightarrow> distinct (map fst (remove_key k xs))"
  by (simp add: remove_key_def distinct_map_filter)

lemma distinct_put_key [simp]: "distinct (map fst xs) \<Longrightarrow> distinct (map fst (put_key k v xs))"
  by (auto simp: put_key_def distinct_map_filter remove_key_def)

lemma set_remove_key [simp]: "set (remove_key k xs) = {p \<in> set xs. fst p \<noteq> k}"
  by (simp add: remove_key_def)

lemma split_key:
  assumes "distinct (map fst xs)" "map_of xs k = Some v"
  shows "mset xs = add_mset (k, v) (mset (remove_key k xs))"
  using assms
proof (induction xs)
  case (Cons x xs)
  show ?case
  proof (cases "fst x = k")
    case True
    have "map_of xs k = None" using Cons.prems(1) True by (auto simp: map_of_eq_None_iff)
    then have "remove_key k (x # xs) = xs" using True remove_key_absent[of xs k] by (simp add: remove_key_def)
    then show ?thesis using Cons.prems(2) True by (cases x) simp
  qed (use Cons in \<open>auto simp: remove_key_def\<close>)
qed simp

lemma sum_split_key:
  fixes f :: "'k \<times> 'v \<Rightarrow> 'm::comm_monoid_add"
  assumes "distinct (map fst xs)" "map_of xs k = Some v"
  shows "sum_list (map f xs) = f (k, v) + sum_list (map f (remove_key k xs))"
  using split_key[OF assms] by (metis mset_map sum_mset_sum_list image_mset_add_mset sum_mset.add_mset)

end
