(* ===== verification/Leases.thy ===== *)
theory Leases
  imports PeerState Assoc
begin

text \<open>
  Resource accounting of \<open>basis-transport/src/lib.rs\<close>: the budget for reordered packets
  (\<open>ReorderBudget\<close> with its \<open>ReorderBudgetToken\<close>) and the admission quotas of ordered events
  (\<open>OrderedAdmissionState\<close> with its \<open>OrderedAdmissionPermit\<close>). Both hand out leases whose \<open>Drop\<close>
  gives the resource back; the locale \<open>lease_book\<close> is their common contract, and its client lemma says
  that after any sequence of operations the counters are exactly what the live leases account for.
  \<open>Arc\<close> identity of a peer is an identifier; a \<open>usize\<close> addition that is checked in the code is checked
  against \<open>2 ^ 64\<close>.
\<close>

section \<open>The contract\<close>

datatype 'r lease_op = Acquire 'r | Adjust nat nat | Release nat

text \<open>A run: leases are held in a list and addressed by position; a refused request changes nothing.\<close>

fun run_leases ::
    "('r \<Rightarrow> 's \<Rightarrow> ('t \<times> 's) option) \<Rightarrow> (nat \<Rightarrow> 't \<Rightarrow> 's \<Rightarrow> 't \<times> 's) \<Rightarrow> ('t \<Rightarrow> 's \<Rightarrow> 's) \<Rightarrow>
     'r lease_op list \<Rightarrow> 's \<times> 't list \<Rightarrow> 's \<times> 't list" where
  "run_leases acquire adjust release [] sl = sl"
| "run_leases acquire adjust release (op # ops) (s, live) =
     run_leases acquire adjust release ops
       (case op of
          Acquire r \<Rightarrow> (case acquire r s of None \<Rightarrow> (s, live) | Some (t, s') \<Rightarrow> (s', live @ [t]))
        | Adjust i n \<Rightarrow>
            if i < length live then let (t, s') = adjust n (live ! i) s in (s', live[i := t]) else (s, live)
        | Release i \<Rightarrow>
            if i < length live then (release (live ! i) s, take i live @ drop (Suc i) live) else (s, live))"

locale lease_book =
  fixes inv :: "'s \<Rightarrow> 't multiset \<Rightarrow> bool" and acquire :: "'r \<Rightarrow> 's \<Rightarrow> ('t \<times> 's) option"
    and adjust :: "nat \<Rightarrow> 't \<Rightarrow> 's \<Rightarrow> 't \<times> 's" and release :: "'t \<Rightarrow> 's \<Rightarrow> 's"
  assumes acquire_law: "inv s M \<Longrightarrow> acquire r s = Some (t, s') \<Longrightarrow> inv s' (add_mset t M)"
    and adjust_law: "inv s (add_mset t M) \<Longrightarrow> adjust n t s = (t', s') \<Longrightarrow> inv s' (add_mset t' M)"
    and release_law: "inv s (add_mset t M) \<Longrightarrow> inv (release t s) M"
begin

lemma mset_split: "i < length xs \<Longrightarrow> mset xs = add_mset (xs ! i) (mset (take i xs @ drop (Suc i) xs))"
  by (metis id_take_nth_drop mset.simps(2) mset_append union_mset_add_mset_right)

lemma mset_replace:
  assumes "i < length xs"
  shows "mset (xs[i := y]) = add_mset y (mset (take i xs @ drop (Suc i) xs))"
  using assms by (simp add: upd_conv_take_nth_drop)

lemma run_inv:
  assumes "inv s (mset live)" and "run_leases acquire adjust release ops (s, live) = (s', live')"
  shows "inv s' (mset live')"
  using assms
proof (induction ops arbitrary: s live)
  case (Cons op ops)
  show ?case
  proof (cases op)
    case (Acquire r)
    show ?thesis
    proof (cases "acquire r s")
      case None
      then show ?thesis using Cons Acquire by simp
    next
      case (Some x)
      obtain t s1 where x: "x = (t, s1)" by (cases x)
      have "inv s1 (mset (live @ [t]))" using acquire_law[OF Cons.prems(1)] Some x by simp
      then show ?thesis using Cons.IH[of s1 "live @ [t]"] Cons.prems(2) Some x Acquire by simp
    qed
  next
    case (Adjust i n)
    show ?thesis
    proof (cases "i < length live")
      case True
      obtain t s1 where a: "adjust n (live ! i) s = (t, s1)" by fastforce
      have "inv s1 (mset (live[i := t]))"
        using adjust_law[OF _ a] Cons.prems(1) unfolding mset_split[OF True] mset_replace[OF True] by simp
      then show ?thesis using Cons.IH[of s1 "live[i := t]"] Cons.prems(2) Adjust True a by simp
    next
      case False
      then show ?thesis using Cons Adjust by simp
    qed
  next
    case (Release i)
    show ?thesis
    proof (cases "i < length live")
      case True
      have "inv (release (live ! i) s) (mset (take i live @ drop (Suc i) live))"
        using release_law Cons.prems(1) unfolding mset_split[OF True] by blast
      then show ?thesis
        using Cons.IH[of "release (live ! i) s" "take i live @ drop (Suc i) live"] Cons.prems(2) Release True by simp
    next
      case False
      then show ?thesis using Cons Release by simp
    qed
  qed
qed simp

end

section \<open>ReorderBudget\<close>

definition checked_add :: "nat \<Rightarrow> nat \<Rightarrow> nat option" where
  "checked_add a b = (if a + b < 2 ^ 64 then Some (a + b) else None)"

text \<open>
  Subtraction of a \<open>usize\<close> counter as the release build has it: it wraps below zero. The invariants show
  that no operation reaches the wrapping branch.
\<close>

definition usize_sub :: "nat \<Rightarrow> nat \<Rightarrow> nat" where
  "usize_sub a b = (if b \<le> a then a - b else a + 2 ^ 64 - b)"

lemma usize_sub_le [simp]: "b \<le> a \<Longrightarrow> usize_sub a b = a - b"
  by (simp add: usize_sub_def)

definition ORDERED_REORDER_ENTRY_OVERHEAD :: nat where "ORDERED_REORDER_ENTRY_OVERHEAD = 128"
definition MAX_ORDERED_REORDER_BYTES_GLOBAL :: nat where "MAX_ORDERED_REORDER_BYTES_GLOBAL = 64 * 1024 * 1024"
definition MAX_ORDERED_REORDER_PACKETS_GLOBAL :: nat where "MAX_ORDERED_REORDER_PACKETS_GLOBAL = 65536"
definition MAX_ORDERED_REORDER_BYTES_PER_PEER :: nat where "MAX_ORDERED_REORDER_BYTES_PER_PEER = 512 * 1024"
definition MAX_ORDERED_REORDER_PACKETS_PER_PEER :: nat where "MAX_ORDERED_REORDER_PACKETS_PER_PEER = 4096"

record reorder_limits =
  lim_packets :: nat
  lim_bytes :: nat
  lim_peer_packets :: nat
  lim_peer_bytes :: nat

definition reorder_limits_default :: reorder_limits where
  "reorder_limits_default =
     \<lparr>lim_packets = MAX_ORDERED_REORDER_PACKETS_GLOBAL, lim_bytes = MAX_ORDERED_REORDER_BYTES_GLOBAL,
      lim_peer_packets = MAX_ORDERED_REORDER_PACKETS_PER_PEER,
      lim_peer_bytes = MAX_ORDERED_REORDER_BYTES_PER_PEER\<rparr>"

text \<open>The budget together with the \<open>PeerReorderUsage\<close> of every peer.\<close>

record reorder_budget =
  ru_packets :: nat
  ru_bytes :: nat
  ru_high_packets :: nat
  ru_high_bytes :: nat
  rb_limits :: reorder_limits
  rp_packets :: "nat \<Rightarrow> nat"
  rp_bytes :: "nat \<Rightarrow> nat"

record reorder_token =
  tk_peer :: nat
  tk_charged :: nat

definition reorder_budget_new :: "reorder_limits \<Rightarrow> reorder_budget" where
  "reorder_budget_new limits =
     \<lparr>ru_packets = 0, ru_bytes = 0, ru_high_packets = 0, ru_high_bytes = 0, rb_limits = limits,
      rp_packets = (\<lambda>_. 0), rp_bytes = (\<lambda>_. 0)\<rparr>"

definition try_reserve :: "nat \<Rightarrow> nat \<Rightarrow> reorder_budget \<Rightarrow> (reorder_token \<times> reorder_budget) option" where
  "try_reserve peer payload_bytes b =
     (case checked_add payload_bytes ORDERED_REORDER_ENTRY_OVERHEAD of
        None \<Rightarrow> None
      | Some charged \<Rightarrow>
          if ru_packets b \<ge> lim_packets (rb_limits b) then None
          else case checked_add (ru_bytes b) charged of
            None \<Rightarrow> None
          | Some total_bytes \<Rightarrow>
              if total_bytes > lim_bytes (rb_limits b) \<or> rp_packets b peer \<ge> lim_peer_packets (rb_limits b) then None
              else case checked_add (rp_bytes b peer) charged of
                None \<Rightarrow> None
              | Some peer_bytes \<Rightarrow>
                  if peer_bytes > lim_peer_bytes (rb_limits b) then None
                  else Some (\<lparr>tk_peer = peer, tk_charged = charged\<rparr>,
                    b\<lparr>ru_packets := ru_packets b + 1, ru_bytes := total_bytes,
                      ru_high_packets := max (ru_high_packets b) (ru_packets b + 1),
                      ru_high_bytes := max (ru_high_bytes b) total_bytes,
                      rp_packets := (rp_packets b)(peer := rp_packets b peer + 1),
                      rp_bytes := (rp_bytes b)(peer := peer_bytes)\<rparr>))"

definition shrink_to_payload_bytes :: "nat \<Rightarrow> reorder_token \<Rightarrow> reorder_budget \<Rightarrow> reorder_token \<times> reorder_budget" where
  "shrink_to_payload_bytes payload_bytes t b =
     (case checked_add payload_bytes ORDERED_REORDER_ENTRY_OVERHEAD of
        None \<Rightarrow> (t, b)
      | Some target \<Rightarrow>
          if target \<ge> tk_charged t then (t, b)
          else let released = tk_charged t - target
               in (t\<lparr>tk_charged := target\<rparr>,
                   b\<lparr>ru_bytes := usize_sub (ru_bytes b) released,
                     rp_bytes := (rp_bytes b)(tk_peer t := usize_sub (rp_bytes b (tk_peer t)) released)\<rparr>))"

definition drop_token :: "reorder_token \<Rightarrow> reorder_budget \<Rightarrow> reorder_budget" where
  "drop_token t b =
     b\<lparr>ru_packets := usize_sub (ru_packets b) 1, ru_bytes := usize_sub (ru_bytes b) (tk_charged t),
       rp_packets := (rp_packets b)(tk_peer t := usize_sub (rp_packets b (tk_peer t)) 1),
       rp_bytes := (rp_bytes b)(tk_peer t := usize_sub (rp_bytes b (tk_peer t)) (tk_charged t))\<rparr>"

definition charged_total :: "reorder_token multiset \<Rightarrow> nat" where
  "charged_total M = sum_mset (image_mset tk_charged M)"

definition of_peer :: "nat \<Rightarrow> reorder_token multiset \<Rightarrow> reorder_token multiset" where
  "of_peer p M = filter_mset (\<lambda>t. tk_peer t = p) M"

text \<open>The counters are the live tokens, and the limits hold.\<close>

definition peer_share :: "reorder_budget \<Rightarrow> nat \<Rightarrow> reorder_token multiset \<Rightarrow> bool" where
  "peer_share b p N \<longleftrightarrow> rp_packets b p = size N \<and> rp_bytes b p = charged_total N \<and>
     size N \<le> lim_peer_packets (rb_limits b) \<and> charged_total N \<le> lim_peer_bytes (rb_limits b)"

definition reorder_inv :: "reorder_budget \<Rightarrow> reorder_token multiset \<Rightarrow> bool" where
  "reorder_inv b M \<longleftrightarrow>
     ru_packets b = size M \<and> ru_bytes b = charged_total M \<and>
     size M \<le> lim_packets (rb_limits b) \<and> charged_total M \<le> lim_bytes (rb_limits b) \<and>
     size M \<le> ru_high_packets b \<and> charged_total M \<le> ru_high_bytes b \<and>
     (\<forall>p. peer_share b p (of_peer p M))"

lemma charged_total_simps [simp]:
  "charged_total {#} = 0" "charged_total (add_mset t M) = tk_charged t + charged_total M"
  by (simp_all add: charged_total_def)

lemma of_peer_simps [simp]:
  "of_peer p {#} = {#}" "of_peer p (add_mset t M) = (if tk_peer t = p then add_mset t (of_peer p M) else of_peer p M)"
  by (simp_all add: of_peer_def)

lemma reserve_inv:
  assumes i: "reorder_inv s M" and r: "try_reserve peer n s = Some (t, s')"
  shows "reorder_inv s' (add_mset t M)"
proof -
  have "peer_share s' p (of_peer p (add_mset t M))" for p
    using i r unfolding reorder_inv_def
    by (cases "p = peer") (auto simp: peer_share_def try_reserve_def checked_add_def split: option.splits if_splits)
  moreover have "ru_packets s' = Suc (size M) \<and> ru_bytes s' = tk_charged t + charged_total M \<and>
      Suc (size M) \<le> lim_packets (rb_limits s') \<and> tk_charged t + charged_total M \<le> lim_bytes (rb_limits s') \<and>
      Suc (size M) \<le> ru_high_packets s' \<and> tk_charged t + charged_total M \<le> ru_high_bytes s'"
    using i r by (auto simp: reorder_inv_def try_reserve_def checked_add_def split: option.splits if_splits)
  ultimately show ?thesis by (simp add: reorder_inv_def)
qed

lemma shrink_inv:
  assumes i: "reorder_inv s (add_mset t M)" and a: "shrink_to_payload_bytes n t s = (t', s')"
  shows "reorder_inv s' (add_mset t' M)"
proof (cases "t' = t \<and> s' = s")
  case False
  then have c: "tk_charged t' < tk_charged t" "tk_peer t' = tk_peer t"
    "s' = s\<lparr>ru_bytes := usize_sub (ru_bytes s) (tk_charged t - tk_charged t'),
       rp_bytes := (rp_bytes s)(tk_peer t := usize_sub (rp_bytes s (tk_peer t)) (tk_charged t - tk_charged t'))\<rparr>"
    using a by (auto simp: shrink_to_payload_bytes_def checked_add_def Let_def split: option.splits if_splits)
  have share: "peer_share s p (of_peer p (add_mset t M))" for p using i by (simp add: reorder_inv_def)
  have "peer_share s' p (of_peer p (add_mset t' M))" for p
    using share[of p] c(1,2) unfolding c(3) by (cases "p = tk_peer t") (auto simp: peer_share_def)
  then show ?thesis using i c by (auto simp: reorder_inv_def)
qed (use i in simp)

lemma drop_inv:
  assumes i: "reorder_inv s (add_mset t M)"
  shows "reorder_inv (drop_token t s) M"
proof -
  have share: "peer_share s p (of_peer p (add_mset t M))" for p using i by (simp add: reorder_inv_def)
  have "peer_share (drop_token t s) p (of_peer p M)" for p
    using share[of p] by (cases "p = tk_peer t") (auto simp: peer_share_def drop_token_def)
  then show ?thesis using i by (auto simp: reorder_inv_def drop_token_def)
qed

interpretation reorder: lease_book reorder_inv "\<lambda>(peer, n). try_reserve peer n" shrink_to_payload_bytes drop_token
  by unfold_locales (auto intro: reserve_inv shrink_inv drop_inv)

section \<open>OrderedAdmission\<close>

record ordered_admission_config =
  oc_regular_capacity :: nat
  oc_critical_capacity :: nat
  oc_per_lane :: nat
  oc_per_peer :: nat
  oc_critical_per_lane :: nat
  oc_critical_per_peer :: nat
  oc_critical_channel :: u8

text \<open>
  The shared totals together with the \<open>OrderedPeerAdmissionCounts\<close> of every peer. The 64 lanes of a peer
  are indexed by a channel, which is a channel id divided by four.
\<close>

record ordered_admission =
  oa_limits :: ordered_admission_config
  oa_regular_total :: nat
  oa_critical_total :: nat
  pa_regular :: "nat \<Rightarrow> nat"
  pa_critical :: "nat \<Rightarrow> nat"
  pa_lanes :: "nat \<Rightarrow> u8 \<Rightarrow> nat"

record admission_permit =
  ap_peer :: nat
  ap_channel :: u8
  ap_critical :: bool

definition ordered_admission_new :: "ordered_admission_config \<Rightarrow> ordered_admission" where
  "ordered_admission_new limits =
     \<lparr>oa_limits = limits, oa_regular_total = 0, oa_critical_total = 0, pa_regular = (\<lambda>_. 0),
      pa_critical = (\<lambda>_. 0), pa_lanes = (\<lambda>_ _. 0)\<rparr>"

text \<open>
  \<open>try_increment_admission_counter\<close>: the compare-and-swap loop ends with the counter raised by one from a
  value below the limit, or with the limit reached.
\<close>

definition try_increment_admission_counter :: "nat \<Rightarrow> nat \<Rightarrow> nat option" where
  "try_increment_admission_counter counter limit = (if counter \<ge> limit then None else Some (counter + 1))"

definition decrement_admission_counter :: "nat \<Rightarrow> nat" where
  "decrement_admission_counter counter = usize_sub counter 1"

definition set_lane :: "nat \<Rightarrow> u8 \<Rightarrow> nat \<Rightarrow> ordered_admission \<Rightarrow> ordered_admission" where
  "set_lane peer channel n a = a\<lparr>pa_lanes := (pa_lanes a)(peer := (pa_lanes a peer)(channel := n))\<rparr>"

definition set_regular :: "nat \<Rightarrow> nat \<Rightarrow> ordered_admission \<Rightarrow> ordered_admission" where
  "set_regular peer n a = a\<lparr>pa_regular := (pa_regular a)(peer := n)\<rparr>"

definition set_critical :: "nat \<Rightarrow> nat \<Rightarrow> ordered_admission \<Rightarrow> ordered_admission" where
  "set_critical peer n a = a\<lparr>pa_critical := (pa_critical a)(peer := n)\<rparr>"

definition admission_reserve ::
    "nat \<Rightarrow> u8 \<Rightarrow> ordered_admission \<Rightarrow> admission_permit option \<times> ordered_admission" where
  "admission_reserve peer channel a =
     (let limits = oa_limits a; critical = (channel = oc_critical_channel limits);
          permit = \<lparr>ap_peer = peer, ap_channel = channel, ap_critical = critical\<rparr>
      in if critical then
           case try_increment_admission_counter (pa_critical a peer)
                  (min (oc_critical_per_peer limits) (oc_critical_per_lane limits)) of
             None \<Rightarrow> (None, a)
           | Some n \<Rightarrow>
               let a1 = set_critical peer n a
               in (case try_increment_admission_counter (oa_critical_total a1) (oc_critical_capacity limits) of
                     None \<Rightarrow> (None, set_critical peer (decrement_admission_counter (pa_critical a1 peer)) a1)
                   | Some t \<Rightarrow> (Some permit, a1\<lparr>oa_critical_total := t\<rparr>))
         else
           case try_increment_admission_counter (pa_lanes a peer channel) (oc_per_lane limits) of
             None \<Rightarrow> (None, a)
           | Some n \<Rightarrow>
               let a1 = set_lane peer channel n a
               in (case try_increment_admission_counter (pa_regular a1 peer) (oc_per_peer limits) of
                     None \<Rightarrow> (None, set_lane peer channel (decrement_admission_counter (pa_lanes a1 peer channel)) a1)
                   | Some r \<Rightarrow>
                       let a2 = set_regular peer r a1
                       in (case try_increment_admission_counter (oa_regular_total a2) (oc_regular_capacity limits) of
                             None \<Rightarrow>
                               let a3 = set_regular peer (decrement_admission_counter (pa_regular a2 peer)) a2
                               in (None, set_lane peer channel
                                     (decrement_admission_counter (pa_lanes a3 peer channel)) a3)
                           | Some t \<Rightarrow> (Some permit, a2\<lparr>oa_regular_total := t\<rparr>))))"

definition drop_permit :: "admission_permit \<Rightarrow> ordered_admission \<Rightarrow> ordered_admission" where
  "drop_permit p a =
     (if ap_critical p then
        (set_critical (ap_peer p) (decrement_admission_counter (pa_critical a (ap_peer p))) a)
          \<lparr>oa_critical_total := decrement_admission_counter (oa_critical_total a)\<rparr>
      else
        (set_regular (ap_peer p) (decrement_admission_counter (pa_regular a (ap_peer p)))
          (set_lane (ap_peer p) (ap_channel p)
            (decrement_admission_counter (pa_lanes a (ap_peer p) (ap_channel p))) a))
          \<lparr>oa_regular_total := decrement_admission_counter (oa_regular_total a)\<rparr>)"

lemmas admission_defs = try_increment_admission_counter_def decrement_admission_counter_def
  set_lane_def set_regular_def set_critical_def

definition count_permits :: "(admission_permit \<Rightarrow> bool) \<Rightarrow> admission_permit multiset \<Rightarrow> nat" where
  "count_permits P M = size (filter_mset P M)"

lemma count_permits_simps [simp]:
  "count_permits P {#} = 0" "count_permits P (add_mset x M) = (if P x then Suc (count_permits P M) else count_permits P M)"
  by (simp_all add: count_permits_def)

definition peer_admission :: "ordered_admission \<Rightarrow> admission_permit multiset \<Rightarrow> nat \<Rightarrow> bool" where
  "peer_admission a M p \<longleftrightarrow>
     pa_critical a p = count_permits (\<lambda>x. ap_critical x \<and> ap_peer x = p) M \<and>
     pa_regular a p = count_permits (\<lambda>x. \<not> ap_critical x \<and> ap_peer x = p) M \<and>
     pa_critical a p \<le> min (oc_critical_per_peer (oa_limits a)) (oc_critical_per_lane (oa_limits a)) \<and>
     pa_regular a p \<le> oc_per_peer (oa_limits a)"

definition lane_admission :: "ordered_admission \<Rightarrow> admission_permit multiset \<Rightarrow> nat \<Rightarrow> u8 \<Rightarrow> bool" where
  "lane_admission a M p c \<longleftrightarrow>
     pa_lanes a p c = count_permits (\<lambda>x. \<not> ap_critical x \<and> ap_peer x = p \<and> ap_channel x = c) M \<and>
     pa_lanes a p c \<le> oc_per_lane (oa_limits a)"

definition admission_inv :: "ordered_admission \<Rightarrow> admission_permit multiset \<Rightarrow> bool" where
  "admission_inv a M \<longleftrightarrow>
     oa_critical_total a = count_permits ap_critical M \<and>
     oa_regular_total a = count_permits (\<lambda>x. \<not> ap_critical x) M \<and>
     oa_critical_total a \<le> oc_critical_capacity (oa_limits a) \<and>
     oa_regular_total a \<le> oc_regular_capacity (oa_limits a) \<and>
     (\<forall>p. peer_admission a M p) \<and> (\<forall>p c. lane_admission a M p c)"

definition admission_acquire :: "nat \<times> u8 \<Rightarrow> ordered_admission \<Rightarrow> (admission_permit \<times> ordered_admission) option" where
  "admission_acquire r a =
     (case admission_reserve (fst r) (snd r) a of (None, _) \<Rightarrow> None | (Some permit, a') \<Rightarrow> Some (permit, a'))"

text \<open>A refused reservation rolls every counter back.\<close>

lemma reserve_refused:
  assumes "admission_reserve peer channel a = (None, a')"
  shows "a' = a"
  using assms by (auto simp: admission_reserve_def admission_defs Let_def split: if_splits option.splits)

lemma reserve_admission:
  assumes i: "admission_inv a M" and r: "admission_acquire (peer, channel) a = Some (x, a')"
  shows "admission_inv a' (add_mset x M)"
proof -
  have r': "admission_reserve peer channel a = (Some x, a')"
    using r by (auto simp: admission_acquire_def split: prod.splits option.splits)
  have p: "peer_admission a M p" and l: "lane_admission a M p c" for p c
    using i by (auto simp: admission_inv_def)
  have "peer_admission a' (add_mset x M) p" for p
    using p[of p] r' by (auto simp: admission_reserve_def admission_defs peer_admission_def Let_def
        split: if_splits option.splits)
  moreover have "lane_admission a' (add_mset x M) p c" for p c
    using l[of p c] r' by (auto simp: admission_reserve_def admission_defs lane_admission_def Let_def
        split: if_splits option.splits)
  moreover have "oa_critical_total a' = count_permits ap_critical (add_mset x M) \<and>
      oa_regular_total a' = count_permits (\<lambda>x. \<not> ap_critical x) (add_mset x M) \<and>
      oa_critical_total a' \<le> oc_critical_capacity (oa_limits a') \<and>
      oa_regular_total a' \<le> oc_regular_capacity (oa_limits a')"
    using i r' by (auto simp: admission_reserve_def admission_defs admission_inv_def Let_def
        split: if_splits option.splits)
  ultimately show ?thesis unfolding admission_inv_def by blast
qed

lemma drop_admission:
  assumes i: "admission_inv a (add_mset x M)"
  shows "admission_inv (drop_permit x a) M"
proof -
  have p: "peer_admission a (add_mset x M) p" and l: "lane_admission a (add_mset x M) p c" for p c
    using i by (auto simp: admission_inv_def)
  have "peer_admission (drop_permit x a) M p" for p
    using p[of p] by (auto simp: drop_permit_def admission_defs peer_admission_def split: if_splits)
  moreover have "lane_admission (drop_permit x a) M p c" for p c
    using l[of p c] by (auto simp: drop_permit_def admission_defs lane_admission_def split: if_splits)
  ultimately show ?thesis
    using i by (auto simp: drop_permit_def admission_defs admission_inv_def split: if_splits)
qed

interpretation admission: lease_book admission_inv admission_acquire "\<lambda>_ x a. (x, a)" drop_permit
  by unfold_locales (auto intro: reserve_admission drop_admission)

section \<open>Properties\<close>

lemma reorder_new_inv: "reorder_inv (reorder_budget_new limits) {#}"
  by (simp add: reorder_inv_def reorder_budget_new_def peer_share_def)

lemma admission_new_inv: "admission_inv (ordered_admission_new limits) {#}"
  by (simp add: admission_inv_def ordered_admission_new_def peer_admission_def lane_admission_def)

text \<open>
  After any sequence of reservations, shrinks and drops of reorder tokens, the counters of the budget
  are exactly what the live tokens account for, globally and for every peer, and no limit is exceeded:
  nothing leaks and nothing is given back twice.
\<close>

theorem reorder_budget_exact:
  assumes "run_leases (\<lambda>(peer, n). try_reserve peer n) shrink_to_payload_bytes drop_token ops
             (reorder_budget_new limits, []) = (b, live)"
  shows "reorder_inv b (mset live)"
  using reorder.run_inv[OF _ assms] reorder_new_inv by simp

text \<open>Two peers, a refused reservation, a shrink and a drop.\<close>

theorem reorder_budget_exact_witness:
  "reorder_inv (drop_token \<lparr>tk_peer = 1, tk_charged = 138\<rparr>
      (snd (shrink_to_payload_bytes 10 \<lparr>tk_peer = 1, tk_charged = 228\<rparr>
        (snd (the (try_reserve 2 50 (snd (the (try_reserve 1 100
          (reorder_budget_new \<lparr>lim_packets = 2, lim_bytes = 500, lim_peer_packets = 2, lim_peer_bytes = 300\<rparr>))))))))))
    {#\<lparr>tk_peer = 2, tk_charged = 178\<rparr>#}"
  using reorder_budget_exact[of "[Acquire (1, 100), Acquire (2, 50), Acquire (2, 1), Adjust 0 10, Release 0]"
      "\<lparr>lim_packets = 2, lim_bytes = 500, lim_peer_packets = 2, lim_peer_bytes = 300\<rparr>"]
  by (simp add: try_reserve_def checked_add_def ORDERED_REORDER_ENTRY_OVERHEAD_def reorder_budget_new_def
      shrink_to_payload_bytes_def drop_token_def)

text \<open>
  After any sequence of reservations and drops of ordered-admission permits, the global, per-peer and
  per-lane counters equal the number of live permits they stand for, and every quota of the configuration
  holds; the decrement of a counter never wraps below zero.
\<close>

theorem ordered_admission_exact:
  assumes "run_leases admission_acquire (\<lambda>_ x a. (x, a)) drop_permit ops (ordered_admission_new limits, []) = (a, live)"
  shows "admission_inv a (mset live)"
  using admission.run_inv[OF _ assms] admission_new_inv by simp

theorem ordered_admission_exact_witness:
  "admission_inv
     (snd (the (admission_acquire (7, 9) (snd (the (admission_acquire (7, 3) (ordered_admission_new
        \<lparr>oc_regular_capacity = 5, oc_critical_capacity = 1, oc_per_lane = 1, oc_per_peer = 2,
         oc_critical_per_lane = 1, oc_critical_per_peer = 1, oc_critical_channel = 9\<rparr>)))))))
     {#\<lparr>ap_peer = 7, ap_channel = 3, ap_critical = False\<rparr>, \<lparr>ap_peer = 7, ap_channel = 9, ap_critical = True\<rparr>#}"
  using ordered_admission_exact[of "[Acquire (7, 3), Acquire (7, 3), Acquire (7, 9), Acquire (8, 9)]"
      "\<lparr>oc_regular_capacity = 5, oc_critical_capacity = 1, oc_per_lane = 1, oc_per_peer = 2,
         oc_critical_per_lane = 1, oc_critical_per_peer = 1, oc_critical_channel = 9\<rparr>"]
  by (simp add: admission_acquire_def admission_reserve_def admission_defs ordered_admission_new_def add_mset_commute)

text \<open>
  A reservation is all or nothing: when one of the quotas refuses it, whichever one, all counters that
  were raised before are as they were.
\<close>

theorem admission_refusal_rolls_back:
  "fst (admission_reserve peer channel a) = None \<longrightarrow> snd (admission_reserve peer channel a) = a"
  using reserve_refused by (metis prod.collapse)

theorem admission_refusal_rolls_back_witness:
  "snd (admission_reserve 7 3 (ordered_admission_new
        \<lparr>oc_regular_capacity = 0, oc_critical_capacity = 1, oc_per_lane = 1, oc_per_peer = 2,
         oc_critical_per_lane = 1, oc_critical_per_peer = 1, oc_critical_channel = 9\<rparr>)) =
   ordered_admission_new
        \<lparr>oc_regular_capacity = 0, oc_critical_capacity = 1, oc_per_lane = 1, oc_per_peer = 2,
         oc_critical_per_lane = 1, oc_critical_per_peer = 1, oc_critical_channel = 9\<rparr>"
  by (rule admission_refusal_rolls_back[rule_format])
     (simp add: admission_reserve_def admission_defs ordered_admission_new_def)

end
