(* ===== verification/FragmentAssembly.thy ===== *)
theory FragmentAssembly
  imports Leases ReliableSend
begin

text \<open>
  Reassembly of fragmented reliable messages (\<open>IncomingFragmentState\<close> of \<open>basis-transport/src/lib.rs\<close>).
  The map of assemblies is an association list with distinct keys; the reorder tokens that an assembly
  owns are part of its record and dropped where the source drops them. The size of \<open>Option<Bytes>\<close>, which
  a third-party crate decides, is the parameter \<open>opt_size\<close>.
\<close>

section \<open>State\<close>

definition MAX_INCOMING_FRAGMENT_ASSEMBLIES :: nat where "MAX_INCOMING_FRAGMENT_ASSEMBLIES = 4"
definition MAX_INCOMING_FRAGMENT_BYTES_PER_PEER :: nat where
  "MAX_INCOMING_FRAGMENT_BYTES_PER_PEER = 128 * 1024"
definition LITENETLIB_MTU_STEPS :: "nat list" where
  "LITENETLIB_MTU_STEPS = [1024, 1164, 1392, 1404, 1424, 1432]"

definition max_fragment_payload :: nat where
  "max_fragment_payload =
     LITENETLIB_MTU_STEPS ! (length LITENETLIB_MTU_STEPS - 1) - LITENETLIB_FRAGMENTED_HEADER_SIZE"

lemma max_fragment_payload_1422: "max_fragment_payload = 1422"
  by (simp add: max_fragment_payload_def LITENETLIB_MTU_STEPS_def header_sizes)

definition saturating_mul :: "nat \<Rightarrow> nat \<Rightarrow> nat" where
  "saturating_mul a b = min (a * b) (2 ^ 64 - 1)"

definition saturating_add :: "nat \<Rightarrow> nat \<Rightarrow> nat" where
  "saturating_add a b = min (a + b) (2 ^ 64 - 1)"

type_synonym fragment_key = "u8 \<times> u16"

record fragment_assembly =
  fa_total :: u16
  fa_parts :: "bytes option list"
  fa_received :: nat
  fa_bytes :: nat
  fa_reserved :: nat
  fa_size :: "nat option"
  fa_metadata :: reorder_token
  fa_budgets :: "reorder_token list"
  fa_completion :: "reorder_token option list"

record fragment_state =
  fs_assemblies :: "(fragment_key \<times> fragment_assembly) list"
  fs_bytes :: nat
  fs_reserved :: nat

definition fragment_state_default :: fragment_state where
  "fragment_state_default = \<lparr>fs_assemblies = [], fs_bytes = 0, fs_reserved = 0\<rparr>"

datatype fragment_outcome =
    Invalid bytes reorder_token
  | Limit bytes reorder_token
  | Budget bytes reorder_token
  | Pending
  | Complete bytes "reorder_token list"

definition put_assembly :: "fragment_key \<Rightarrow> fragment_assembly \<Rightarrow> fragment_state \<Rightarrow> fragment_state" where
  "put_assembly k a fs = fs\<lparr>fs_assemblies := put_key k a (fs_assemblies fs)\<rparr>"

fun somes :: "'a option list \<Rightarrow> 'a list" where
  "somes [] = []"
| "somes (None # xs) = somes xs"
| "somes (Some x # xs) = x # somes xs"

definition drop_tokens :: "reorder_token list \<Rightarrow> reorder_budget \<Rightarrow> reorder_budget" where
  "drop_tokens ts rb = foldl (\<lambda>b t. drop_token t b) rb ts"

section \<open>Operations\<close>

definition take_completion_budget ::
    "u8 \<Rightarrow> incoming_fragment \<Rightarrow> fragment_state \<Rightarrow> reorder_token option \<times> fragment_state" where
  "take_completion_budget channel_id fragment fs =
     (let k = (channel_id, if_id fragment)
      in case map_of (fs_assemblies fs) k of
           None \<Rightarrow> (None, fs)
         | Some a \<Rightarrow>
             let i = unat (if_part fragment)
             in if i < length (fa_completion a)
                then (fa_completion a ! i, put_assembly k (a\<lparr>fa_completion := (fa_completion a)[i := None]\<rparr>) fs)
                else (None, fs))"

text \<open>
  The loop that reserves the missing parts of a new assembly: \<open>skip\<close> marks the part at hand and those that
  wait in the reorder buffer. A refusal ends it; the slots reserved so far are returned, for the caller to
  drop.
\<close>

fun reserve_parts ::
    "nat \<Rightarrow> nat \<Rightarrow> bool list \<Rightarrow> reorder_budget \<Rightarrow> bool \<times> reorder_token option list \<times> reorder_budget" where
  "reserve_parts peer n [] rb = (True, [], rb)"
| "reserve_parts peer n (skip # skips) rb =
     (if skip then let (ok, ts, rb') = reserve_parts peer n skips rb in (ok, None # ts, rb')
      else case try_reserve peer n rb of
        None \<Rightarrow> (False, [], rb)
      | Some (t, rb1) \<Rightarrow> let (ok, ts, rb2) = reserve_parts peer n skips rb1 in (ok, Some t # ts, rb2))"

datatype open_outcome = Opened | OpenInvalid | OpenLimit | OpenBudget

definition open_assembly ::
    "nat \<Rightarrow> nat \<Rightarrow> fragment_key \<Rightarrow> incoming_fragment \<Rightarrow> nat \<Rightarrow> bool list \<Rightarrow> fragment_state \<Rightarrow> reorder_budget \<Rightarrow>
     open_outcome \<times> fragment_state \<times> reorder_budget" where
  "open_assembly opt_size peer k fragment payload_len already fs rb =
     (let n = unat (if_total fragment); index = unat (if_part fragment);
          final_part = (if_part fragment + 1 = if_total fragment);
          minimum_message_bytes = (if final_part then 1
             else saturating_add (saturating_mul (n - 1) payload_len) 1);
          reserved_bytes = (if final_part then MAX_INCOMING_FRAGMENT_BYTES_PER_PEER
             else min (saturating_mul n payload_len) MAX_INCOMING_FRAGMENT_BYTES_PER_PEER)
      in if length (fs_assemblies fs) \<ge> MAX_INCOMING_FRAGMENT_ASSEMBLIES then (OpenLimit, fs, rb)
         else if minimum_message_bytes > MAX_INCOMING_FRAGMENT_BYTES_PER_PEER then (OpenInvalid, fs, rb)
         else case checked_add (fs_reserved fs) reserved_bytes of
           None \<Rightarrow> (OpenLimit, fs, rb)
         | Some r \<Rightarrow>
             if r > MAX_INCOMING_FRAGMENT_BYTES_PER_PEER then (OpenLimit, fs, rb)
             else case try_reserve peer (saturating_mul opt_size n) rb of
               None \<Rightarrow> (OpenBudget, fs, rb)
             | Some (metadata, rb1) \<Rightarrow>
                 let skips = map (\<lambda>i. i = index \<or> (i < length already \<and> already ! i)) [0..<n];
                     (ok, ts, rb2) = reserve_parts peer (if final_part then max_fragment_payload else payload_len) skips rb1
                 in if ok
                    then (Opened,
                      (put_assembly k
                        \<lparr>fa_total = if_total fragment, fa_parts = replicate n None, fa_received = 0, fa_bytes = 0,
                         fa_reserved = reserved_bytes, fa_size = None, fa_metadata = metadata, fa_budgets = [],
                         fa_completion = ts\<rparr> fs)\<lparr>fs_reserved := fs_reserved fs + reserved_bytes\<rparr>,
                      rb2)
                    else (OpenBudget, fs, drop_token metadata (drop_tokens (somes ts) rb2)))"

fun shrink_all :: "nat \<Rightarrow> reorder_token option list \<Rightarrow> reorder_budget \<Rightarrow> reorder_token option list \<times> reorder_budget" where
  "shrink_all n [] rb = ([], rb)"
| "shrink_all n (None # ts) rb = (let (ts', rb') = shrink_all n ts rb in (None # ts', rb'))"
| "shrink_all n (Some t # ts) rb =
     (let (t', rb1) = shrink_to_payload_bytes n t rb; (ts', rb2) = shrink_all n ts rb1 in (Some t' # ts', rb2))"

text \<open>
  The checks on the size of a part. The first part that is not the last one fixes the size of all such
  parts, trims the reservation of the assembly and shrinks its tokens. \<open>None\<close> is the error.
\<close>

definition learn_size ::
    "incoming_fragment \<Rightarrow> nat \<Rightarrow> fragment_assembly \<Rightarrow> nat \<Rightarrow> reorder_budget \<Rightarrow>
     (fragment_assembly \<times> nat \<times> reorder_budget) option" where
  "learn_size fragment payload_len a reserved_total rb =
     (let n = unat (if_total fragment)
      in if unat (if_part fragment) + 1 \<noteq> n then
           (case fa_size a of
              Some part_size \<Rightarrow> if part_size \<noteq> payload_len then None else Some (a, reserved_total, rb)
            | None \<Rightarrow>
                if list_ex (\<lambda>i. i + 1 \<noteq> n \<and>
                     (case fa_parts a ! i of None \<Rightarrow> False | Some p \<Rightarrow> length p \<noteq> payload_len)) [0..<length (fa_parts a)]
                  \<or> (case last (fa_parts a) of None \<Rightarrow> False | Some p \<Rightarrow> length p > payload_len)
                then None
                else if saturating_add (saturating_mul (unat (fa_total a) - 1) payload_len) 1
                        > MAX_INCOMING_FRAGMENT_BYTES_PER_PEER then None
                else
                  let reserved = min (saturating_mul (unat (fa_total a)) payload_len) MAX_INCOMING_FRAGMENT_BYTES_PER_PEER;
                      (completion, rb') = shrink_all payload_len (fa_completion a) rb
                  in Some (a\<lparr>fa_reserved := reserved, fa_size := Some payload_len, fa_completion := completion\<rparr>,
                       usize_sub reserved_total (usize_sub (fa_reserved a) reserved), rb'))
         else if (case fa_size a of None \<Rightarrow> False | Some part_size \<Rightarrow> payload_len > part_size) then None
         else Some (a, reserved_total, rb))"

definition store_part ::
    "fragment_key \<Rightarrow> incoming_fragment \<Rightarrow> bytes \<Rightarrow> reorder_token \<Rightarrow> fragment_assembly \<Rightarrow> fragment_state \<Rightarrow>
     reorder_budget \<Rightarrow> fragment_outcome \<times> fragment_state \<times> reorder_budget" where
  "store_part k fragment payload budget a fs rb =
     (let index = unat (if_part fragment)
      in case checked_add (fa_bytes a) (length payload) of
           None \<Rightarrow> (Invalid payload budget, put_assembly k a fs, rb)
         | Some bytes \<Rightarrow>
             if bytes > MAX_INCOMING_FRAGMENT_BYTES_PER_PEER
             then (Invalid payload budget, put_assembly k a fs, rb)
             else
               let (held, rb1) = (case fa_completion a ! index of
                       Some reservation \<Rightarrow> shrink_to_payload_bytes (length payload) reservation (drop_token budget rb)
                     | None \<Rightarrow> (budget, rb));
                   a1 = a\<lparr>fa_bytes := bytes, fa_received := fa_received a + 1,
                          fa_parts := (fa_parts a)[index := Some payload],
                          fa_completion := (fa_completion a)[index := None],
                          fa_budgets := fa_budgets a @ [held]\<rparr>;
                   fs1 = fs\<lparr>fs_bytes := fs_bytes fs + length payload\<rparr>
               in if fa_received a1 \<noteq> unat (fa_total a1) then (Pending, put_assembly k a1 fs1, rb1)
                  else (Complete (concat (somes (fa_parts a1))) (fa_budgets a1),
                        fs1\<lparr>fs_assemblies := remove_key k (fs_assemblies fs1),
                            fs_bytes := usize_sub (fs_bytes fs1) (fa_bytes a1),
                            fs_reserved := usize_sub (fs_reserved fs1) (fa_reserved a1)\<rparr>,
                        drop_tokens (fa_metadata a1 # somes (fa_completion a1)) rb1))"

definition insert_part ::
    "fragment_key \<Rightarrow> incoming_fragment \<Rightarrow> bytes \<Rightarrow> reorder_token \<Rightarrow> fragment_assembly \<Rightarrow> fragment_state \<Rightarrow>
     reorder_budget \<Rightarrow> fragment_outcome \<times> fragment_state \<times> reorder_budget" where
  "insert_part k fragment payload budget a fs rb =
     (if fa_total a \<noteq> if_total fragment then (Invalid payload budget, fs, rb)
      else case fa_parts a ! unat (if_part fragment) of
        Some existing \<Rightarrow>
          if existing \<noteq> payload then (Invalid payload budget, fs, rb) else (Pending, fs, drop_token budget rb)
      | None \<Rightarrow>
          (case learn_size fragment (length payload) a (fs_reserved fs) rb of
             None \<Rightarrow> (Invalid payload budget, fs, rb)
           | Some (a1, reserved_total, rb1) \<Rightarrow>
               store_part k fragment payload budget a1 (fs\<lparr>fs_reserved := reserved_total\<rparr>) rb1))"

definition fragment_well_formed :: "incoming_fragment \<Rightarrow> bytes \<Rightarrow> bool" where
  "fragment_well_formed fragment payload \<longleftrightarrow>
     \<not> (if_total fragment < 2 \<or> unat (if_total fragment) > MAX_INCOMING_FRAGMENT_PARTS \<or>
        if_part fragment \<ge> if_total fragment \<or> payload = [] \<or> length payload > max_fragment_payload)"

definition insert_fragment ::
    "nat \<Rightarrow> nat \<Rightarrow> u8 \<Rightarrow> incoming_fragment \<Rightarrow> bytes \<Rightarrow> reorder_token \<Rightarrow> bool list \<Rightarrow> fragment_state \<Rightarrow>
     reorder_budget \<Rightarrow> fragment_outcome \<times> fragment_state \<times> reorder_budget" where
  "insert_fragment opt_size peer channel_id fragment payload budget already fs rb =
     (if \<not> fragment_well_formed fragment payload then (Invalid payload budget, fs, rb)
      else
        let k = (channel_id, if_id fragment)
        in case map_of (fs_assemblies fs) k of
             Some a \<Rightarrow> insert_part k fragment payload budget a fs rb
           | None \<Rightarrow>
               (case open_assembly opt_size peer k fragment (length payload) already fs rb of
                  (OpenInvalid, fs1, rb1) \<Rightarrow> (Invalid payload budget, fs1, rb1)
                | (OpenLimit, fs1, rb1) \<Rightarrow> (Limit payload budget, fs1, rb1)
                | (OpenBudget, fs1, rb1) \<Rightarrow> (Budget payload budget, fs1, rb1)
                | (Opened, fs1, rb1) \<Rightarrow>
                    insert_part k fragment payload budget (the (map_of (fs_assemblies fs1) k)) fs1 rb1))"

text \<open>
  How both admission paths offer a part to the assemblies: with the token that was set aside for it, else
  with a new one. \<open>None\<close> means that there is no budget for it.
\<close>

definition offer_fragment ::
    "nat \<Rightarrow> nat \<Rightarrow> u8 \<Rightarrow> incoming_fragment \<Rightarrow> bytes \<Rightarrow> bool list \<Rightarrow> fragment_state \<Rightarrow> reorder_budget \<Rightarrow>
     fragment_outcome option \<times> fragment_state \<times> reorder_budget" where
  "offer_fragment opt_size peer channel_id fragment payload already fs rb =
     (let (reserved, fs1) = take_completion_budget channel_id fragment fs
      in case (case reserved of Some t \<Rightarrow> Some (t, rb) | None \<Rightarrow> try_reserve peer (length payload) rb) of
           None \<Rightarrow> (None, fs1, rb)
         | Some (budget, rb1) \<Rightarrow>
             let (out, fs2, rb2) =
               insert_fragment opt_size peer channel_id fragment payload budget already fs1 rb1
             in (Some out, fs2, rb2))"

end
