(* ===== verification/FragmentProofs.thy ===== *)
theory FragmentProofs
  imports FragmentAssembly
begin

text \<open>
  Proofs about the reassembly of fragmented messages: the byte accounting of \<open>IncomingFragmentState\<close>, the
  tokens it owns, and that the assembled message is the one that was split.
\<close>

section \<open>Lists of optional parts\<close>

lemma set_somes: "set (somes xs) = {x. Some x \<in> set xs}"
  by (induction xs rule: somes.induct) auto

lemma somes_replicate_None [simp]: "somes (replicate n None) = []"
  by (induction n) auto

lemma length_somes_le: "length (somes xs) \<le> length xs"
  by (induction xs rule: somes.induct) auto

lemma somes_all: "length (somes xs) = length xs \<Longrightarrow> map Some (somes xs) = xs"
proof (induction xs rule: somes.induct)
  case (2 xs)
  then show ?case using length_somes_le[of xs] by simp
qed auto

lemma somes_store:
  "i < length xs \<Longrightarrow> xs ! i = None \<Longrightarrow> mset (somes (xs[i := Some p])) = add_mset p (mset (somes xs))"
proof (induction xs arbitrary: i)
  case (Cons x xs)
  then show ?case by (cases i; cases x) auto
qed simp

lemma somes_clear:
  "i < length xs \<Longrightarrow> xs ! i = Some p \<Longrightarrow> mset (somes xs) = add_mset p (mset (somes (xs[i := None])))"
proof (induction xs arbitrary: i)
  case (Cons x xs)
  then show ?case by (cases i; cases x) auto
qed simp

lemma length_concat_mset: "length (concat xs) = sum_mset (image_mset length (mset xs))"
  by (induction xs) auto

section \<open>Well-formed assemblies\<close>

definition part_fits :: "nat \<Rightarrow> nat \<Rightarrow> nat option \<Rightarrow> nat \<Rightarrow> bool" where
  "part_fits n i s len \<longleftrightarrow>
     (case s of None \<Rightarrow> i + 1 = n | Some z \<Rightarrow> if i + 1 = n then len \<le> z else len = z)"

definition assembly_ok :: "fragment_assembly \<Rightarrow> bool" where
  "assembly_ok a \<longleftrightarrow>
     2 \<le> unat (fa_total a) \<and> unat (fa_total a) \<le> 128 \<and>
     length (fa_parts a) = unat (fa_total a) \<and> length (fa_completion a) = unat (fa_total a) \<and>
     fa_received a = length (somes (fa_parts a)) \<and>
     fa_bytes a = length (concat (somes (fa_parts a))) \<and> fa_bytes a \<le> 131072 \<and>
     (\<forall>i<unat (fa_total a). \<forall>p. fa_parts a ! i = Some p \<longrightarrow>
        1 \<le> length p \<and> part_fits (unat (fa_total a)) i (fa_size a) (length p)) \<and>
     (\<forall>s. fa_size a = Some s \<longrightarrow> fa_reserved a = min (unat (fa_total a) * s) 131072)"

definition live :: "fragment_assembly \<Rightarrow> bool" where
  "live a \<longleftrightarrow> assembly_ok a \<and> 1 \<le> fa_received a \<and> fa_received a < unat (fa_total a) \<and>
     (fa_size a = None \<longrightarrow> fa_reserved a = 131072)"

definition sum_bytes :: "(fragment_key \<times> fragment_assembly) list \<Rightarrow> nat" where
  "sum_bytes xs = sum_list (map (\<lambda>p. fa_bytes (snd p)) xs)"

definition sum_reserved :: "(fragment_key \<times> fragment_assembly) list \<Rightarrow> nat" where
  "sum_reserved xs = sum_list (map (\<lambda>p. fa_reserved (snd p)) xs)"

definition frag_ok :: "fragment_state \<Rightarrow> bool" where
  "frag_ok fs \<longleftrightarrow>
     distinct (map fst (fs_assemblies fs)) \<and> length (fs_assemblies fs) \<le> 4 \<and>
     fs_bytes fs = sum_bytes (fs_assemblies fs) \<and> fs_reserved fs = sum_reserved (fs_assemblies fs) \<and>
     fs_reserved fs \<le> 131072 \<and> (\<forall>p\<in>set (fs_assemblies fs). live (snd p))"

text \<open>The state while the assembly under key \<open>k\<close> is being worked on as \<open>a\<close>.\<close>

definition around :: "fragment_key \<Rightarrow> fragment_assembly \<Rightarrow> fragment_state \<Rightarrow> bool" where
  "around k a fs \<longleftrightarrow>
     (let rest = remove_key k (fs_assemblies fs) in
       distinct (map fst (fs_assemblies fs)) \<and> length rest \<le> 3 \<and>
       fs_bytes fs = fa_bytes a + sum_bytes rest \<and> fs_reserved fs = fa_reserved a + sum_reserved rest \<and>
       fs_reserved fs \<le> 131072 \<and> (\<forall>p\<in>set rest. live (snd p)))"

lemma sums_simps [simp]:
  "sum_bytes [] = 0" "sum_bytes (p # xs) = fa_bytes (snd p) + sum_bytes xs"
  "sum_reserved [] = 0" "sum_reserved (p # xs) = fa_reserved (snd p) + sum_reserved xs"
  by (simp_all add: sum_bytes_def sum_reserved_def)

lemma frag_ok_default: "frag_ok fragment_state_default"
  by (simp add: frag_ok_def fragment_state_default_def)

lemma frag_ok_around:
  assumes "frag_ok fs" "map_of (fs_assemblies fs) k = Some a"
  shows "around k a fs" "live a"
proof -
  have d: "distinct (map fst (fs_assemblies fs))" using assms(1) by (simp add: frag_ok_def)
  note s = sum_split_key[OF d assms(2)]
  have "length (fs_assemblies fs) = Suc (length (remove_key k (fs_assemblies fs)))"
    using split_key[OF d assms(2)] by (metis size_add_mset size_mset)
  then show "around k a fs"
    using assms(1) d s[of "\<lambda>p. fa_bytes (snd p)"] s[of "\<lambda>p. fa_reserved (snd p)"]
    by (simp add: around_def frag_ok_def Let_def sum_bytes_def sum_reserved_def)
  show "live a" using assms map_of_SomeD[OF assms(2)] by (fastforce simp: frag_ok_def)
qed

lemma around_put:
  assumes "around k a fs" "live a"
  shows "frag_ok (put_assembly k a fs)"
proof -
  have "distinct (map fst (put_key k a (fs_assemblies fs)))"
    using assms by (intro distinct_put_key) (simp add: around_def Let_def)
  then show ?thesis using assms by (auto simp: around_def frag_ok_def put_assembly_def Let_def put_key_def)
qed

lemma around_remove:
  assumes "around k a fs"
  shows "frag_ok (fs\<lparr>fs_assemblies := remove_key k (fs_assemblies fs),
    fs_bytes := usize_sub (fs_bytes fs) (fa_bytes a), fs_reserved := usize_sub (fs_reserved fs) (fa_reserved a)\<rparr>)"
  using assms by (auto simp: around_def frag_ok_def Let_def)

text \<open>An assembly never holds more than it has reserved.\<close>

lemma somes_bound:
  "(\<forall>p. Some p \<in> set xs \<longrightarrow> length p \<le> s) \<Longrightarrow> length (concat (somes xs)) \<le> length xs * s"
  by (induction xs rule: somes.induct) (auto intro: add_mono trans_le_add2)

lemma live_bytes_le: "live a \<Longrightarrow> fa_bytes a \<le> fa_reserved a"
proof (cases "fa_size a")
  case (Some s)
  assume l: "live a"
  have "length (concat (somes (fa_parts a))) \<le> length (fa_parts a) * s"
    using l Some by (intro somes_bound)
      (auto simp: live_def assembly_ok_def part_fits_def in_set_conv_nth split: if_splits)
  then show ?thesis using l Some by (auto simp: live_def assembly_ok_def)
qed (auto simp: live_def assembly_ok_def)

lemma frag_ok_bytes_le: "frag_ok fs \<Longrightarrow> fs_bytes fs \<le> fs_reserved fs"
proof -
  assume f: "frag_ok fs"
  have "sum_list (map (\<lambda>p. fa_bytes (snd p)) (fs_assemblies fs)) \<le> sum_list (map (\<lambda>p. fa_reserved (snd p)) (fs_assemblies fs))"
    using f by (intro sum_list_mono live_bytes_le) (auto simp: frag_ok_def)
  then show ?thesis using f by (simp add: frag_ok_def sum_bytes_def sum_reserved_def)
qed

section \<open>Learning the part size\<close>

lemma saturating_small:
  "a \<le> 128 \<Longrightarrow> b \<le> 1422 \<Longrightarrow> saturating_mul a b = a * b"
  "a \<le> 1000000 \<Longrightarrow> b \<le> 1 \<Longrightarrow> saturating_add a b = a + b"
proof -
  assume "a \<le> 128" "b \<le> 1422"
  then have "a * b \<le> 128 * 1422" by (rule mult_le_mono)
  then show "saturating_mul a b = a * b" by (simp add: saturating_mul_def)
qed (simp add: saturating_add_def)

lemma length_shrink_all: "length (fst (shrink_all n ts rb)) = length ts"
  by (induction n ts rb rule: shrink_all.induct) (auto split: prod.splits)

definition same_parts :: "fragment_assembly \<Rightarrow> fragment_assembly \<Rightarrow> bool" where
  "same_parts a b \<longleftrightarrow> fa_total b = fa_total a \<and> fa_parts b = fa_parts a \<and> fa_received b = fa_received a \<and>
     fa_bytes b = fa_bytes a \<and> fa_metadata b = fa_metadata a \<and> fa_budgets b = fa_budgets a"

text \<open>What the assembly must have set aside before a part of length \<open>len\<close> fixes the size.\<close>

definition has_room :: "nat \<Rightarrow> nat \<Rightarrow> nat \<Rightarrow> fragment_assembly \<Rightarrow> bool" where
  "has_room n i len a \<longleftrightarrow> (fa_size a = None \<longrightarrow>
     (if i + 1 = n then fa_reserved a = 131072 else min (n * len) 131072 \<le> fa_reserved a))"

lemma learn_first_size:
  assumes ok: "assembly_ok a" and tot: "fa_total a = if_total f" and len: "len \<le> 1422"
    and none: "fa_size a = None" and full: "unat (if_part f) + 1 \<noteq> unat (if_total f)"
    and l: "learn_size f len a rt rb = Some (a1, rt1, rb1)"
  shows "same_parts a a1 \<and> length (fa_completion a1) = length (fa_completion a) \<and> fa_size a1 = Some len \<and>
    fa_reserved a1 = min (unat (fa_total a) * len) 131072 \<and>
    rt1 = usize_sub rt (usize_sub (fa_reserved a) (fa_reserved a1)) \<and> assembly_ok a1"
proof -
  let ?n = "unat (fa_total a)"
  have n: "2 \<le> ?n" "?n \<le> 128" and lp: "length (fa_parts a) = ?n" using ok by (simp_all add: assembly_ok_def)
  have m: "saturating_mul ?n len = ?n * len" using n len by (intro saturating_small)
  have eq: "a1 = a\<lparr>fa_reserved := min (?n * len) 131072, fa_size := Some len,
      fa_completion := fst (shrink_all len (fa_completion a) rb)\<rparr>"
    "rt1 = usize_sub rt (usize_sub (fa_reserved a) (fa_reserved a1))"
    and last: "case last (fa_parts a) of None \<Rightarrow> True | Some p \<Rightarrow> length p \<le> len"
    using l none full m tot
    by (auto simp: learn_size_def Let_def MAX_INCOMING_FRAGMENT_BYTES_PER_PEER_def
        split: if_splits prod.splits option.splits)
  have "length p \<le> len" if "i < ?n" "fa_parts a ! i = Some p" for i p
  proof -
    have "i + 1 = ?n" using ok none that by (force simp: assembly_ok_def part_fits_def)
    then have "?n - 1 = i" by simp
    then have "last (fa_parts a) = Some p" using lp n that(2) by (subst last_conv_nth) auto
    then show ?thesis using last by simp
  qed
  moreover have "i + 1 = ?n" if "i < ?n" "fa_parts a ! i = Some p" for i p
    using ok none that by (force simp: assembly_ok_def part_fits_def)
  ultimately have "\<forall>i<?n. \<forall>p. fa_parts a ! i = Some p \<longrightarrow> 1 \<le> length p \<and> part_fits ?n i (Some len) (length p)"
    using ok by (auto simp: assembly_ok_def part_fits_def)
  then have "assembly_ok a1" using ok unfolding eq(1) by (simp add: assembly_ok_def length_shrink_all)
  then show ?thesis using eq by (simp add: same_parts_def length_shrink_all)
qed

lemma learn_ok:
  assumes ok: "assembly_ok a" and tot: "fa_total a = if_total f" and len: "len \<le> 1422"
    and room: "has_room (unat (if_total f)) (unat (if_part f)) len a" and rt: "fa_reserved a \<le> rt"
    and l: "learn_size f len a rt rb = Some (a1, rt1, rb1)"
  shows "same_parts a a1" "assembly_ok a1" "fa_reserved a1 \<le> fa_reserved a"
    "rt1 = rt - (fa_reserved a - fa_reserved a1)"
    "part_fits (unat (if_total f)) (unat (if_part f)) (fa_size a1) len"
    "fa_size a1 = None \<longrightarrow> fa_reserved a1 = 131072"
proof -
  have "same_parts a a1 \<and> assembly_ok a1 \<and> fa_reserved a1 \<le> fa_reserved a \<and>
    rt1 = rt - (fa_reserved a - fa_reserved a1) \<and>
    part_fits (unat (if_total f)) (unat (if_part f)) (fa_size a1) len \<and>
    (fa_size a1 = None \<longrightarrow> fa_reserved a1 = 131072)"
  proof (cases "fa_size a = None \<and> unat (if_part f) + 1 \<noteq> unat (if_total f)")
    case True
    then show ?thesis using learn_first_size[OF ok tot len _ _ l] room rt tot
      by (auto simp: has_room_def part_fits_def)
  next
    case False
    then have "a1 = a" "rt1 = rt" "part_fits (unat (if_total f)) (unat (if_part f)) (fa_size a) len"
      using l by (auto simp: learn_size_def Let_def part_fits_def split: if_splits option.splits)
    then show ?thesis using ok room False by (auto simp: same_parts_def has_room_def)
  qed
  then show "same_parts a a1" "assembly_ok a1" "fa_reserved a1 \<le> fa_reserved a"
    "rt1 = rt - (fa_reserved a - fa_reserved a1)"
    "part_fits (unat (if_total f)) (unat (if_part f)) (fa_size a1) len"
    "fa_size a1 = None \<longrightarrow> fa_reserved a1 = 131072" by blast+
qed

section \<open>Storing a part\<close>

lemma checked_add_small: "a \<le> 131072 \<Longrightarrow> b \<le> 1422 \<Longrightarrow> checked_add a b = Some (a + b)"
  by (simp add: checked_add_def)

text \<open>The assembly after the part at index \<open>i\<close> is stored, with the token \<open>t\<close> for it.\<close>

definition with_part :: "nat \<Rightarrow> bytes \<Rightarrow> reorder_token \<Rightarrow> fragment_assembly \<Rightarrow> fragment_assembly" where
  "with_part i p t a =
     a\<lparr>fa_bytes := fa_bytes a + length p, fa_received := fa_received a + 1,
       fa_parts := (fa_parts a)[i := Some p], fa_completion := (fa_completion a)[i := None],
       fa_budgets := fa_budgets a @ [t]\<rparr>"

definition slot_token ::
    "nat \<Rightarrow> bytes \<Rightarrow> reorder_token \<Rightarrow> fragment_assembly \<Rightarrow> reorder_budget \<Rightarrow> reorder_token \<times> reorder_budget" where
  "slot_token i p budget a rb =
     (case fa_completion a ! i of
        Some reservation \<Rightarrow> shrink_to_payload_bytes (length p) reservation (drop_token budget rb)
      | None \<Rightarrow> (budget, rb))"

lemma store_part_cases:
  assumes "fa_bytes a \<le> 131072" "length p \<le> 1422" and "store_part k f p budget a fs rb = (out, fs', rb')"
    and tk: "slot_token (unat (if_part f)) p budget a rb = (t, rb1)"
  obtains
    (full) "fa_bytes a + length p > 131072" "out = Invalid p budget" "fs' = put_assembly k a fs" "rb' = rb"
  | (pending) "fa_bytes a + length p \<le> 131072" "fa_received a + 1 \<noteq> unat (fa_total a)" "out = Pending"
      "fs' = put_assembly k (with_part (unat (if_part f)) p t a) (fs\<lparr>fs_bytes := fs_bytes fs + length p\<rparr>)"
      "rb' = rb1"
  | (complete) b where "fa_bytes a + length p \<le> 131072" "fa_received a + 1 = unat (fa_total a)"
      "b = with_part (unat (if_part f)) p t a"
      "out = Complete (concat (somes (fa_parts b))) (fa_budgets b)"
      "fs' = fs\<lparr>fs_assemblies := remove_key k (fs_assemblies fs),
         fs_bytes := usize_sub (fs_bytes fs + length p) (fa_bytes b),
         fs_reserved := usize_sub (fs_reserved fs) (fa_reserved b)\<rparr>"
      "rb' = drop_tokens (fa_metadata b # somes (fa_completion b)) rb1"
  using assms(3) tk checked_add_small[OF assms(1,2)]
  by (auto simp: store_part_def slot_token_def with_part_def Let_def MAX_INCOMING_FRAGMENT_BYTES_PER_PEER_def
      split: if_splits)

lemma with_part_ok:
  assumes ok: "assembly_ok a" and i: "i < unat (fa_total a)" "fa_parts a ! i = None"
    and p: "1 \<le> length p" "part_fits (unat (fa_total a)) i (fa_size a) (length p)"
    and b: "fa_bytes a + length p \<le> 131072"
  shows "assembly_ok (with_part i p t a)"
proof -
  have l: "i < length (fa_parts a)" using ok i by (simp add: assembly_ok_def)
  note m = somes_store[OF l i(2), of p]
  have "length (somes ((fa_parts a)[i := Some p])) = Suc (length (somes (fa_parts a)))"
    using arg_cong[OF m, of size] by simp
  moreover have "length (concat (somes ((fa_parts a)[i := Some p]))) = length p + length (concat (somes (fa_parts a)))"
    unfolding length_concat_mset m by simp
  moreover have "1 \<le> length q \<and> part_fits (unat (fa_total a)) j (fa_size a) (length q)"
    if "j < unat (fa_total a)" "(fa_parts a)[i := Some p] ! j = Some q" for j q
    using ok p l that by (cases "j = i") (auto simp: assembly_ok_def)
  ultimately show ?thesis using ok b unfolding assembly_ok_def with_part_def by simp
qed

lemma around_same:
  "around k a fs \<Longrightarrow> fa_bytes b = fa_bytes a + n \<Longrightarrow> fa_reserved b = fa_reserved a \<Longrightarrow>
   around k b (fs\<lparr>fs_bytes := fs_bytes fs + n\<rparr>)"
  by (simp add: around_def Let_def)

lemma store_frag_ok:
  assumes ar: "around k a fs" and ok: "assembly_ok a" and rec: "fa_received a < unat (fa_total a)"
    and sz: "fa_size a = None \<longrightarrow> fa_reserved a = 131072"
    and i: "unat (if_part f) < unat (fa_total a)" "fa_parts a ! unat (if_part f) = None"
    and p: "1 \<le> length p" "length p \<le> 1422" "part_fits (unat (fa_total a)) (unat (if_part f)) (fa_size a) (length p)"
    and s: "store_part k f p budget a fs rb = (out, fs', rb')"
  shows "frag_ok fs'"
proof -
  let ?i = "unat (if_part f)"
  obtain t rb1 where tk: "slot_token ?i p budget a rb = (t, rb1)" by fastforce
  have small: "fa_bytes a \<le> 131072" using ok by (simp add: assembly_ok_def)
  from small p(2) s tk show ?thesis
  proof (cases rule: store_part_cases)
    case full
    then have "fa_received a \<noteq> 0" using ok p(2) by (auto simp: assembly_ok_def)
    then have "live a" using ok rec sz by (simp add: live_def)
    then show ?thesis unfolding full using ar by (intro around_put)
  next
    case pending
    let ?b = "with_part ?i p t a"
    have "live ?b" using with_part_ok[OF ok i p(1,3) pending(1)] rec sz pending(2)
      by (auto simp: live_def with_part_def)
    moreover have "around k ?b (fs\<lparr>fs_bytes := fs_bytes fs + length p\<rparr>)"
      using ar by (rule around_same) (simp_all add: with_part_def)
    ultimately show ?thesis unfolding pending by (intro around_put)
  next
    case (complete b)
    have "around k b (fs\<lparr>fs_bytes := fs_bytes fs + length p\<rparr>)"
      unfolding complete using ar by (rule around_same) (simp_all add: with_part_def)
    from around_remove[OF this] show ?thesis unfolding complete by simp
  qed
qed

section \<open>Inserting a part\<close>

lemma insert_part_cases:
  assumes "insert_part k f p budget a fs rb = (out, fs', rb')"
  obtains
    (wrong) "out = Invalid p budget" "fs' = fs" "rb' = rb" "fa_total a \<noteq> if_total f \<or>
       fa_parts a ! unat (if_part f) \<noteq> None \<or> learn_size f (length p) a (fs_reserved fs) rb = None"
  | (again) "out = Pending" "fs' = fs" "rb' = drop_token budget rb" "fa_total a = if_total f"
      "fa_parts a ! unat (if_part f) = Some p"
  | (store) a1 rt rb1 where "fa_total a = if_total f" "fa_parts a ! unat (if_part f) = None"
      "learn_size f (length p) a (fs_reserved fs) rb = Some (a1, rt, rb1)"
      "store_part k f p budget a1 (fs\<lparr>fs_reserved := rt\<rparr>) rb1 = (out, fs', rb')"
  using assms by (auto simp: insert_part_def split: if_splits option.splits)

definition good_fragment :: "incoming_fragment \<Rightarrow> bytes \<Rightarrow> bool" where
  "good_fragment f p \<longleftrightarrow> 2 \<le> unat (if_total f) \<and> unat (if_total f) \<le> 128 \<and>
     unat (if_part f) < unat (if_total f) \<and> 1 \<le> length p \<and> length p \<le> 1422"

lemma good_fragment_iff: "fragment_well_formed f p \<longleftrightarrow> good_fragment f p"
  by (cases p) (auto simp: fragment_well_formed_def good_fragment_def MAX_INCOMING_FRAGMENT_PARTS_def
      max_fragment_payload_1422 word_less_nat_alt word_le_nat_alt)

lemma insert_part_ok:
  assumes ar: "around k a fs" and ok: "assembly_ok a" "fa_received a < unat (fa_total a)" and g: "good_fragment f p"
    and room: "has_room (unat (fa_total a)) (unat (if_part f)) (length p) a"
    and safe: "frag_ok fs \<or> (fa_total a = if_total f \<and> fa_parts a ! unat (if_part f) = None \<and>
       learn_size f (length p) a (fs_reserved fs) rb \<noteq> None)"
    and ins: "insert_part k f p budget a fs rb = (out, fs', rb')"
  shows "frag_ok fs'"
  using ins
proof (cases rule: insert_part_cases)
  case (store a1 rt rb1)
  have "fa_reserved a \<le> fs_reserved fs" using ar by (auto simp: around_def Let_def)
  note L = learn_ok[OF ok(1) store(1) _ room[unfolded store(1)] this store(3)]
  have len: "length p \<le> 1422" using g by (simp add: good_fragment_def)
  note L = L[OF len]
  have sp: "fa_total a1 = fa_total a" "fa_parts a1 = fa_parts a" "fa_received a1 = fa_received a"
    "fa_bytes a1 = fa_bytes a" using L(1) by (simp_all add: same_parts_def)
  have "around k a1 (fs\<lparr>fs_reserved := rt\<rparr>)" using ar L(3,4) sp by (auto simp: around_def Let_def)
  then show ?thesis
    by (rule store_frag_ok[OF _ L(2) _ L(6) _ _ _ len _ store(4)])
       (use sp ok store L(5) g in \<open>simp_all add: good_fragment_def\<close>)
qed (use safe in auto)

lemma length_reserve_parts:
  "reserve_parts peer n skips rb = (True, ts, rb') \<Longrightarrow> length ts = length skips"
  by (induction peer n skips rb arbitrary: ts rb' rule: reserve_parts.induct)
     (auto split: if_splits prod.splits option.splits)

lemma part_next:
  assumes "(p :: u16) < t"
  shows "p + 1 = t \<longleftrightarrow> unat p + 1 = unat t"
proof -
  have "unat p < unat t" using assms by (simp add: word_less_nat_alt)
  then have "Suc (unat p) < 65536" by (rule le_less_trans[OF Suc_leI unat_u16_less])
  then have "unat (p + 1) = unat p + 1" by (simp add: unat_word_ariths)
  then show ?thesis by (metis unsigned_word_eqI)
qed

text \<open>A freshly opened assembly, ready for the part that opened it.\<close>

definition fresh :: "fragment_key \<Rightarrow> incoming_fragment \<Rightarrow> nat \<Rightarrow> fragment_assembly \<Rightarrow> fragment_state \<Rightarrow> bool" where
  "fresh k f len a fs \<longleftrightarrow>
     map_of (fs_assemblies fs) k = Some a \<and> around k a fs \<and> assembly_ok a \<and> fa_received a = 0 \<and>
     fa_total a = if_total f \<and> fa_parts a = replicate (unat (if_total f)) None \<and> fa_size a = None \<and>
     has_room (unat (if_total f)) (unat (if_part f)) len a \<and>
     (unat (if_part f) + 1 \<noteq> unat (if_total f) \<longrightarrow> (unat (if_total f) - 1) * len + 1 \<le> 131072)"

lemma fresh_learns:
  assumes "fresh k f len a fs" and "good_fragment f p" and "length p = len"
  shows "learn_size f len a rt rb \<noteq> None"
proof -
  let ?n = "unat (if_total f)"
  have n: "2 \<le> ?n" "?n \<le> 128" "len \<le> 1422" using assms by (simp_all add: good_fragment_def)
  have "last (fa_parts a) = None" using assms(1) n by (simp add: fresh_def)
  moreover have "(?n - 1) * len \<le> 128 * 1422" using n by (intro mult_le_mono) simp_all
  then have "saturating_add (saturating_mul (?n - 1) len) 1 = (?n - 1) * len + 1"
    using n saturating_small(1)[of "?n - 1" len] saturating_small(2)[of "(?n - 1) * len" 1] by simp
  ultimately show ?thesis using assms(1)
    by (auto simp: learn_size_def fresh_def Let_def list_ex_iff MAX_INCOMING_FRAGMENT_BYTES_PER_PEER_def
        split: prod.splits)
qed

lemma open_fresh:
  assumes fs: "frag_ok fs" and none: "map_of (fs_assemblies fs) k = None" and g: "good_fragment f p"
    and o: "open_assembly opt_size peer k f (length p) already fs rb = (Opened, fs1, rb1)"
  obtains a where "fresh k f (length p) a fs1"
proof -
  let ?n = "unat (if_total f)" and ?i = "unat (if_part f)" and ?len = "length p"
  have n: "2 \<le> ?n" "?n \<le> 128" "?i < ?n" "?len \<le> 1422" using g by (simp_all add: good_fragment_def)
  have final: "if_part f + 1 = if_total f \<longleftrightarrow> ?i + 1 = ?n"
    using n(3) by (intro part_next) (simp add: word_less_nat_alt)
  have mul: "saturating_mul ?n ?len = ?n * ?len" using n by (intro saturating_small)
  have "(?n - 1) * ?len \<le> 128 * 1422" using n by (intro mult_le_mono) simp_all
  then have mini: "saturating_add (saturating_mul (?n - 1) ?len) 1 = (?n - 1) * ?len + 1"
    using n saturating_small(1)[of "?n - 1" ?len] saturating_small(2)[of "(?n - 1) * ?len" 1] by simp
  define r where "r = (if ?i + 1 = ?n then 131072 else min (?n * ?len) 131072)"
  obtain metadata ts where len: "length ts = ?n" and few: "length (fs_assemblies fs) < 4"
    and least: "?i + 1 \<noteq> ?n \<longrightarrow> (?n - 1) * ?len + 1 \<le> 131072" and res: "fs_reserved fs + r \<le> 131072"
    and fs1: "fs1 = (put_assembly k
       \<lparr>fa_total = if_total f, fa_parts = replicate ?n None, fa_received = 0, fa_bytes = 0,
        fa_reserved = r, fa_size = None, fa_metadata = metadata, fa_budgets = [], fa_completion = ts\<rparr> fs)
       \<lparr>fs_reserved := fs_reserved fs + r\<rparr>"
    using o unfolding open_assembly_def Let_def final mul mini
    by (auto simp: r_def checked_add_def MAX_INCOMING_FRAGMENT_ASSEMBLIES_def MAX_INCOMING_FRAGMENT_BYTES_PER_PEER_def
        split: if_splits option.splits prod.splits dest!: length_reserve_parts)
  have "fresh k f ?len \<lparr>fa_total = if_total f, fa_parts = replicate ?n None, fa_received = 0, fa_bytes = 0,
        fa_reserved = r, fa_size = None, fa_metadata = metadata, fa_budgets = [], fa_completion = ts\<rparr> fs1"
    using fs none n len few least res distinct_put_key[of "fs_assemblies fs" k] unfolding fs1
    by (auto simp: fresh_def put_assembly_def around_def Let_def frag_ok_def assembly_ok_def has_room_def r_def)
  then show ?thesis by (rule that)
qed

lemma open_refused: "open_assembly opt_size peer k f len already fs rb = (out, fs1, rb1) \<Longrightarrow> out \<noteq> Opened \<Longrightarrow> fs1 = fs"
  by (auto simp: open_assembly_def Let_def split: if_splits option.splits prod.splits)

lemma insert_fragment_ok:
  assumes fs: "frag_ok fs"
    and ins: "insert_fragment opt_size peer c f p budget already fs rb = (out, fs', rb')"
  shows "frag_ok fs'"
proof (cases "good_fragment f p")
  case g: True
  let ?k = "(c, if_id f)"
  show ?thesis
  proof (cases "map_of (fs_assemblies fs) ?k")
    case (Some a)
    have i: "insert_part ?k f p budget a fs rb = (out, fs', rb')"
      using ins g Some by (simp add: insert_fragment_def good_fragment_iff)
    note a = frag_ok_around[OF fs Some]
    have "has_room (unat (fa_total a)) (unat (if_part f)) (length p) a" using a(2) by (simp add: has_room_def live_def)
    then show ?thesis using a i g fs by (intro insert_part_ok[of ?k a fs]) (auto simp: live_def)
  next
    case None
    obtain oc fs1 rb1 where o: "open_assembly opt_size peer ?k f (length p) already fs rb = (oc, fs1, rb1)"
      using prod_cases3 by blast
    show ?thesis
    proof (cases "oc = Opened")
      case True
      obtain a where a: "fresh ?k f (length p) a fs1" using open_fresh[OF fs None g] o True by blast
      have i: "insert_part ?k f p budget a fs1 rb1 = (out, fs', rb')"
        using ins g None o True a by (simp add: insert_fragment_def good_fragment_iff fresh_def)
      show ?thesis using a g i fresh_learns[OF a g]
        by (intro insert_part_ok[of ?k a fs1]) (auto simp: fresh_def good_fragment_def)
    next
      case False
      then have "fs' = fs" using ins g None o open_refused[OF o False]
        by (cases oc) (simp_all add: insert_fragment_def good_fragment_iff)
      then show ?thesis using fs by simp
    qed
  qed
qed (use fs ins in \<open>simp add: insert_fragment_def good_fragment_iff\<close>)

section \<open>Tokens\<close>

definition assembly_tokens :: "fragment_assembly \<Rightarrow> reorder_token multiset" where
  "assembly_tokens a = add_mset (fa_metadata a) (mset (fa_budgets a) + mset (somes (fa_completion a)))"

definition held_list :: "(fragment_key \<times> fragment_assembly) list \<Rightarrow> reorder_token multiset" where
  "held_list xs = sum_list (map (\<lambda>p. assembly_tokens (snd p)) xs)"

definition held :: "fragment_state \<Rightarrow> reorder_token multiset" where
  "held fs = held_list (fs_assemblies fs)"

fun outcome_tokens :: "fragment_outcome \<Rightarrow> reorder_token multiset" where
  "outcome_tokens (Invalid p t) = {#t#}"
| "outcome_tokens (Limit p t) = {#t#}"
| "outcome_tokens (Budget p t) = {#t#}"
| "outcome_tokens Pending = {#}"
| "outcome_tokens (Complete p ts) = mset ts"

lemmas token_ac = add_ac add_mset_commute

lemma held_split:
  assumes "distinct (map fst (fs_assemblies fs))" "map_of (fs_assemblies fs) k = Some a"
  shows "held fs = assembly_tokens a + held_list (remove_key k (fs_assemblies fs))"
  unfolding held_def held_list_def sum_split_key[OF assms] by simp

lemma held_put: "held (put_assembly k a fs) = assembly_tokens a + held_list (remove_key k (fs_assemblies fs))"
  by (simp add: held_def held_list_def put_assembly_def put_key_def)

lemma held_fields [simp]: "held (fs\<lparr>fs_bytes := x\<rparr>) = held fs" "held (fs\<lparr>fs_reserved := x\<rparr>) = held fs"
  "held (fs\<lparr>fs_assemblies := xs\<rparr>) = held_list xs"
  by (simp_all add: held_def)

lemma put_assembly_fields [simp]: "fs_assemblies (put_assembly k a fs) = put_key k a (fs_assemblies fs)"
  by (simp add: put_assembly_def)

lemma drop_tokens_inv: "reorder_inv rb (mset ts + M) \<Longrightarrow> reorder_inv (drop_tokens ts rb) M"
proof (induction ts arbitrary: rb)
  case (Cons t ts)
  then have "reorder_inv (drop_token t rb) (mset ts + M)" by (intro drop_inv) simp
  then show ?case using Cons.IH by (simp add: drop_tokens_def)
qed (simp add: drop_tokens_def)

lemma reserve_parts_inv:
  "reserve_parts peer n skips rb = (ok, ts, rb') \<Longrightarrow> reorder_inv rb M \<Longrightarrow> reorder_inv rb' (mset (somes ts) + M)"
proof (induction peer n skips rb arbitrary: ok ts rb' M rule: reserve_parts.induct)
  case (2 peer n skip skips rb)
  show ?case
  proof (cases skip)
    case True
    obtain ts' where "reserve_parts peer n skips rb = (ok, ts', rb')" "ts = None # ts'"
      using 2(3) True by (auto split: prod.splits)
    then show ?thesis using 2(1)[OF True] 2(4) by simp
  next
    case False
    show ?thesis
    proof (cases "try_reserve peer n rb")
      case None
      then show ?thesis using 2(3,4) False by simp
    next
      case (Some x)
      obtain t rb1 where x: "x = (t, rb1)" by (cases x)
      obtain ts' where r: "reserve_parts peer n skips rb1 = (ok, ts', rb')" "ts = Some t # ts'"
        using 2(3) False Some x by (auto split: prod.splits)
      have "reorder_inv rb1 (add_mset t M)" using 2(4) Some x by (auto intro: reserve_inv)
      from 2(2)[OF False Some x[symmetric] r(1) this] show ?thesis using r(2) by simp
    qed
  qed
qed simp

lemma shrink_all_inv:
  "shrink_all n ts rb = (ts', rb') \<Longrightarrow> reorder_inv rb (mset (somes ts) + M) \<Longrightarrow> reorder_inv rb' (mset (somes ts') + M)"
proof (induction n ts rb arbitrary: ts' rb' M rule: shrink_all.induct)
  case (2 n ts rb)
  then show ?case by (auto split: prod.splits)
next
  case (3 n t ts rb)
  obtain t1 rb1 ts1 where s: "shrink_to_payload_bytes n t rb = (t1, rb1)" "shrink_all n ts rb1 = (ts1, rb')"
    "ts' = Some t1 # ts1" using 3(2) by (auto split: prod.splits)
  have "reorder_inv rb1 (add_mset t1 (mset (somes ts) + M))" using 3(3) s(1) by (intro shrink_inv[OF _ s(1)]) simp
  then have "reorder_inv rb1 (mset (somes ts) + add_mset t1 M)" by simp
  from 3(1)[OF s(1)[symmetric] refl s(2) this] show ?case by (simp add: s(3))
qed simp

lemma learn_tokens:
  assumes l: "learn_size f len a rt rb = Some (a1, rt1, rb1)" and i: "reorder_inv rb (assembly_tokens a + M)"
  shows "reorder_inv rb1 (assembly_tokens a1 + M)"
proof (cases "a1 = a \<and> rb1 = rb")
  case False
  obtain ts where s: "shrink_all len (fa_completion a) rb = (ts, rb1)" and c: "fa_completion a1 = ts"
    "fa_budgets a1 = fa_budgets a" "fa_metadata a1 = fa_metadata a"
    using l False by (auto simp: learn_size_def Let_def split: if_splits option.splits prod.splits)
  have "reorder_inv rb (mset (somes (fa_completion a)) + add_mset (fa_metadata a) (mset (fa_budgets a) + M))"
    using i by (simp add: assembly_tokens_def token_ac)
  from shrink_all_inv[OF s this] show ?thesis using c by (simp add: assembly_tokens_def token_ac)
qed (use i in simp)

lemma slot_tokens:
  assumes s: "slot_token i p budget a rb = (t, rb1)" and l: "i < length (fa_completion a)"
    and v: "reorder_inv rb (add_mset budget (assembly_tokens a + M))"
  shows "reorder_inv rb1 (assembly_tokens (with_part i p t a) + M)"
proof (cases "fa_completion a ! i")
  case None
  then have "(fa_completion a)[i := None] = fa_completion a" using list_update_id[of "fa_completion a" i] by simp
  then show ?thesis using s v None by (simp add: slot_token_def with_part_def assembly_tokens_def token_ac)
next
  case (Some r)
  have m: "mset (somes (fa_completion a)) = add_mset r (mset (somes ((fa_completion a)[i := None])))"
    using somes_clear[OF l Some] .
  have "reorder_inv (drop_token budget rb) (assembly_tokens a + M)" using v by (rule drop_inv)
  then have "reorder_inv (drop_token budget rb)
      (add_mset r (add_mset (fa_metadata a) (mset (fa_budgets a) + mset (somes ((fa_completion a)[i := None])) + M)))"
    by (simp add: assembly_tokens_def m token_ac)
  from shrink_inv[OF this] s Some show ?thesis
    by (simp add: slot_token_def with_part_def assembly_tokens_def token_ac)
qed

lemma store_tokens:
  assumes ok: "assembly_ok a" and len: "length p \<le> 1422" and i: "unat (if_part f) < unat (fa_total a)"
    and s: "store_part k f p budget a fs rb = (out, fs', rb')"
    and v: "reorder_inv rb (add_mset budget (assembly_tokens a + (held_list (remove_key k (fs_assemblies fs)) + M)))"
  shows "reorder_inv rb' (outcome_tokens out + held fs' + M)"
proof -
  obtain t rb1 where tk: "slot_token (unat (if_part f)) p budget a rb = (t, rb1)" by fastforce
  have small: "fa_bytes a \<le> 131072" and li: "unat (if_part f) < length (fa_completion a)"
    using ok i by (simp_all add: assembly_ok_def)
  note after = slot_tokens[OF tk li v]
  from small len s tk show ?thesis
  proof (cases rule: store_part_cases)
    case full
    then show ?thesis using v by (simp add: held_put token_ac)
  next
    case pending
    then show ?thesis using after by (simp add: held_put token_ac)
  next
    case (complete b)
    have "reorder_inv rb1 (mset (fa_metadata b # somes (fa_completion b)) +
        (mset (fa_budgets b) + (held_list (remove_key k (fs_assemblies fs)) + M)))"
      using after unfolding complete(3)[symmetric] by (simp add: assembly_tokens_def token_ac)
    from drop_tokens_inv[OF this] show ?thesis by (simp add: complete(4-6) token_ac)
  qed
qed

lemma insert_part_tokens:
  assumes ok: "assembly_ok a" and g: "good_fragment f p"
    and at: "distinct (map fst (fs_assemblies fs))" "map_of (fs_assemblies fs) k = Some a"
    and ins: "insert_part k f p budget a fs rb = (out, fs', rb')"
    and v: "reorder_inv rb (add_mset budget (held fs + M))"
  shows "reorder_inv rb' (outcome_tokens out + held fs' + M)"
  using ins
proof (cases rule: insert_part_cases)
  case again
  then show ?thesis using v by (simp add: drop_inv)
next
  case (store a1 rt rb1)
  let ?rest = "held_list (remove_key k (fs_assemblies fs))"
  have "reorder_inv rb (assembly_tokens a + (add_mset budget (?rest + M)))"
    using v unfolding held_split[OF at] by (simp add: token_ac)
  from learn_tokens[OF store(3) this] have v1: "reorder_inv rb1 (add_mset budget (assembly_tokens a1 + (?rest + M)))"
    by (simp add: token_ac)
  have "assembly_ok a1 \<and> fa_total a1 = fa_total a"
  proof (cases "fa_size a = None \<and> unat (if_part f) + 1 \<noteq> unat (if_total f)")
    case True
    then show ?thesis
      using learn_first_size[OF ok store(1) _ _ _ store(3)] g by (auto simp: good_fragment_def same_parts_def)
  next
    case False
    then have "a1 = a" using store(3) by (auto simp: learn_size_def Let_def split: if_splits option.splits)
    then show ?thesis using ok by simp
  qed
  then have st: "assembly_ok a1" "fa_total a1 = fa_total a" by simp_all
  show ?thesis using g v1 store(1) st(2)
    by (intro store_tokens[OF st(1) _ _ store(4)]) (auto simp: good_fragment_def)
qed (use v in \<open>simp add: token_ac\<close>)

lemma open_tokens:
  assumes o: "open_assembly opt_size peer k f len already fs rb = (oc, fs1, rb1)"
    and none: "map_of (fs_assemblies fs) k = None" and v: "reorder_inv rb M"
  shows "reorder_inv rb1 (if oc = Opened then assembly_tokens (the (map_of (fs_assemblies fs1) k)) + M else M)"
    and "oc = Opened \<Longrightarrow> held fs1 = assembly_tokens (the (map_of (fs_assemblies fs1) k)) + held fs"
proof -
  show "oc = Opened \<Longrightarrow> held fs1 = assembly_tokens (the (map_of (fs_assemblies fs1) k)) + held fs"
    using o none by (auto simp: open_assembly_def Let_def held_put held_def[symmetric]
        split: if_splits option.splits prod.splits)
  show "reorder_inv rb1 (if oc = Opened then assembly_tokens (the (map_of (fs_assemblies fs1) k)) + M else M)"
  proof (cases "rb1 = rb \<and> oc \<noteq> Opened")
    case False
    obtain metadata rb2 ok ts rb3 n m skips where t: "try_reserve peer n rb = Some (metadata, rb2)"
      "reserve_parts peer m skips rb2 = (ok, ts, rb3)" "oc = Opened \<longleftrightarrow> ok"
      "ok \<Longrightarrow> rb1 = rb3 \<and> assembly_tokens (the (map_of (fs_assemblies fs1) k)) = add_mset metadata (mset (somes ts))"
      "\<not> ok \<Longrightarrow> rb1 = drop_token metadata (drop_tokens (somes ts) rb3)"
      using o False
      by (auto simp: open_assembly_def Let_def assembly_tokens_def split: if_splits option.splits prod.splits)
    have "reorder_inv rb2 (add_mset metadata M)" using v t(1) by (rule reserve_inv)
    from reserve_parts_inv[OF t(2) this] have r: "reorder_inv rb3 (mset (somes ts) + add_mset metadata M)" .
    show ?thesis
    proof (cases ok)
      case True
      then show ?thesis using r t(3,4) by (simp add: token_ac)
    next
      case no: False
      have "reorder_inv (drop_token metadata (drop_tokens (somes ts) rb3)) M"
        using drop_tokens_inv[OF r] by (rule drop_inv)
      then show ?thesis using t(3,5) no by simp
    qed
  qed (use v in simp)
qed

lemma insert_fragment_tokens:
  assumes fs: "frag_ok fs"
    and ins: "insert_fragment opt_size peer c f p budget already fs rb = (out, fs', rb')"
    and v: "reorder_inv rb (add_mset budget (held fs + M))"
  shows "reorder_inv rb' (outcome_tokens out + held fs' + M)"
proof (cases "good_fragment f p")
  case g: True
  let ?k = "(c, if_id f)"
  have d: "distinct (map fst (fs_assemblies fs))" using fs by (simp add: frag_ok_def)
  show ?thesis
  proof (cases "map_of (fs_assemblies fs) ?k")
    case (Some a)
    have i: "insert_part ?k f p budget a fs rb = (out, fs', rb')"
      using ins g Some by (simp add: insert_fragment_def good_fragment_iff)
    show ?thesis using frag_ok_around(2)[OF fs Some] insert_part_tokens[OF _ g d Some i v] by (simp add: live_def)
  next
    case None
    obtain oc fs1 rb1 where o: "open_assembly opt_size peer ?k f (length p) already fs rb = (oc, fs1, rb1)"
      using prod_cases3 by blast
    note t = open_tokens[OF o None v]
    show ?thesis
    proof (cases "oc = Opened")
      case True
      obtain a where a: "fresh ?k f (length p) a fs1" using open_fresh[OF fs None g] o True by blast
      have i: "insert_part ?k f p budget a fs1 rb1 = (out, fs', rb')"
        using ins g None o True a by (simp add: insert_fragment_def good_fragment_iff fresh_def)
      have v1: "reorder_inv rb1 (add_mset budget (held fs1 + M))"
        using t True by (simp add: token_ac)
      show ?thesis using a by (intro insert_part_tokens[OF _ g _ _ i v1]) (auto simp: fresh_def around_def Let_def)
    next
      case False
      have "fs' = fs" "outcome_tokens out = {#budget#}" "rb' = rb1"
        using ins g None o open_refused[OF o False] False
        by (cases oc; simp add: insert_fragment_def good_fragment_iff; fastforce)+
      then show ?thesis using t False by simp
    qed
  qed
qed (use v ins in \<open>auto simp: insert_fragment_def good_fragment_iff\<close>)

section \<open>Reassembling one message\<close>

text \<open>The parts of a message as the sender cuts it: all but the last have the same length.\<close>

definition uniform :: "bytes list \<Rightarrow> bool" where
  "uniform msg \<longleftrightarrow> 2 \<le> length msg \<and> length msg \<le> 128 \<and> length (concat msg) \<le> 131072 \<and>
     (\<exists>s\<le>1422. \<forall>i<length msg. 1 \<le> length (msg ! i) \<and>
        (if i + 1 = length msg then length (msg ! i) \<le> s else length (msg ! i) = s))"

definition part_of :: "bytes list \<Rightarrow> u16 \<Rightarrow> nat \<Rightarrow> incoming_fragment" where
  "part_of msg ident i = \<lparr>if_id = ident, if_part = of_nat i, if_total = of_nat (length msg)\<rparr>"

text \<open>
  Assembly \<open>a\<close> holds exactly the parts \<open>P\<close> of the message, with a token set aside for each part in \<open>Q\<close>.
\<close>

definition holds_parts :: "bytes list \<Rightarrow> nat set \<Rightarrow> nat set \<Rightarrow> fragment_assembly \<Rightarrow> bool" where
  "holds_parts msg P Q a \<longleftrightarrow> unat (fa_total a) = length msg \<and>
     (\<forall>j<length msg. fa_parts a ! j = (if j \<in> P then Some (msg ! j) else None)) \<and>
     (\<forall>j<length msg. j \<in> Q \<longrightarrow> fa_completion a ! j \<noteq> None) \<and>
     (\<forall>z. fa_size a = Some z \<longrightarrow> z = length (msg ! 0))"

lemma somes_full_iff: "length (somes xs) = length xs \<longleftrightarrow> (\<forall>i<length xs. xs ! i \<noteq> None)"
proof (induction xs rule: somes.induct)
  case (2 xs)
  then show ?case using length_somes_le[of xs] by (auto intro: exI[of _ 0])
next
  case (3 x xs)
  then show ?case by (auto simp: less_Suc_eq_0_disj)
qed simp

lemma part_of_good:
  assumes "uniform msg" "i < length msg"
  shows "good_fragment (part_of msg ident i) (msg ! i)" "unat (if_part (part_of msg ident i)) = i"
    "unat (if_total (part_of msg ident i)) = length msg"
proof -
  have l: "length msg < 65536" "i < 65536" using assms by (auto simp: uniform_def)
  show u: "unat (if_part (part_of msg ident i)) = i" "unat (if_total (part_of msg ident i)) = length msg"
    using l by (simp_all add: part_of_def unat_of_nat_u16)
  obtain s where "s \<le> 1422" "1 \<le> length (msg ! i)" "if i + 1 = length msg then length (msg ! i) \<le> s else length (msg ! i) = s"
    using assms by (auto simp: uniform_def)
  then show "good_fragment (part_of msg ident i) (msg ! i)"
    using assms unfolding good_fragment_def u by (auto simp: uniform_def split: if_splits)
qed

lemma uniform_least:
  assumes u: "uniform msg" and i: "i + 1 < length msg"
  shows "(length msg - 1) * length (msg ! i) + 1 \<le> length (concat msg)"
proof -
  obtain s where s: "\<forall>j<length msg. 1 \<le> length (msg ! j) \<and> (if j + 1 = length msg then length (msg ! j) \<le> s else length (msg ! j) = s)"
    using u by (auto simp: uniform_def)
  have b: "butlast msg @ [last msg] = msg" using i by (intro append_butlast_last_id) auto
  have "length x = s" if "x \<in> set (butlast msg)" for x
    using that s by (auto simp: in_set_conv_nth nth_butlast)
  then have "sum_list (map length (butlast msg)) = (length msg - 1) * s"
    by (simp add: sum_list_triv cong: map_cong)
  moreover have "1 \<le> length (last msg)" using s i by (subst last_conv_nth) auto
  ultimately have "(length msg - 1) * s + 1 \<le> length (concat (butlast msg @ [last msg]))"
    by (simp add: length_concat)
  then show ?thesis using s i unfolding b by auto
qed

lemma uniform_lengths:
  assumes "uniform msg" "i < length msg"
  shows "i + 1 \<noteq> length msg \<Longrightarrow> length (msg ! i) = length (msg ! 0)" "length (msg ! i) \<le> length (msg ! 0)"
    "1 \<le> length (msg ! i)" "length (msg ! 0) \<le> 1422"
proof -
  obtain s where s: "s \<le> 1422" "\<forall>j<length msg. 1 \<le> length (msg ! j) \<and> (if j + 1 = length msg then length (msg ! j) \<le> s else length (msg ! j) = s)"
    and n: "2 \<le> length msg" using assms(1) by (auto simp: uniform_def)
  have "length (msg ! 0) = s" using s(2)[THEN spec, of 0] n by auto
  then show "i + 1 \<noteq> length msg \<Longrightarrow> length (msg ! i) = length (msg ! 0)" "length (msg ! i) \<le> length (msg ! 0)"
    "1 \<le> length (msg ! i)" "length (msg ! 0) \<le> 1422"
    using s assms(2) by (auto split: if_splits)
qed

lemma somes_below:
  "list_all2 (\<lambda>x m. x = None \<or> x = Some m) xs msg \<Longrightarrow> length (concat (somes xs)) \<le> length (concat msg)"
  by (induction rule: list_all2_induct) auto

lemma unat_u16_inject: "unat (x :: u16) = unat y \<Longrightarrow> x = y"
  by (metis unsigned_word_eqI)

lemma learn_message:
  assumes u: "uniform msg" and ok: "assembly_ok a" and h: "holds_parts msg P Q a" and i: "i < length msg"
  shows "learn_size (part_of msg ident i) (length (msg ! i)) a rt rb \<noteq> None"
proof -
  let ?n = "length msg" and ?len = "length (msg ! i)"
  note L = uniform_lengths[OF u]
  have n: "2 \<le> ?n" "?n \<le> 128" "length (fa_parts a) = ?n" "unat (fa_total a) = ?n"
    using u ok h by (simp_all add: uniform_def assembly_ok_def holds_parts_def)
  note tot = part_of_good(2,3)[OF u i]
  show ?thesis
  proof (cases "i + 1 = ?n \<or> fa_size a \<noteq> None")
    case True
    have "z = length (msg ! 0)" if "fa_size a = Some z" for z using h that by (simp add: holds_parts_def)
    then show ?thesis using True L(1,2)[OF i] by (cases "fa_size a") (auto simp: learn_size_def tot Let_def)
  next
    case False
    have i0: "i + 1 < ?n" using False i by simp
    have same: "Suc j = ?n" if "j < ?n" "length (msg ! j) \<noteq> ?len" for j
      using that L(1)[of j] L(1)[OF i] False by fastforce
    have "\<not> list_ex (\<lambda>j. j + 1 \<noteq> ?n \<and> (case fa_parts a ! j of None \<Rightarrow> False | Some p \<Rightarrow> length p \<noteq> ?len)) [0..<?n]"
      using h same by (auto simp: list_ex_iff holds_parts_def)
    moreover have "last (fa_parts a) = fa_parts a ! (?n - 1)" using n by (subst last_conv_nth) auto
    then have "case last (fa_parts a) of None \<Rightarrow> True | Some p \<Rightarrow> length p \<le> ?len"
      using h n L(1)[OF i] L(2)[of "?n - 1"] False by (auto simp: holds_parts_def)
    moreover have "(?n - 1) * ?len + 1 \<le> 131072" using uniform_least[OF u i0] u by (simp add: uniform_def)
    moreover from this have "saturating_add (saturating_mul (?n - 1) ?len) 1 = (?n - 1) * ?len + 1"
      by (simp add: saturating_add_def saturating_mul_def)
    ultimately show ?thesis using False n
      by (auto simp: learn_size_def tot Let_def MAX_INCOMING_FRAGMENT_BYTES_PER_PEER_def not_less
          split: option.splits prod.splits)
  qed
qed

lemma shrink_all_slots: "j < length ts \<Longrightarrow> fst (shrink_all n ts rb) ! j = None \<longleftrightarrow> ts ! j = None"
proof (induction n ts rb arbitrary: j rule: shrink_all.induct)
  case (2 n ts rb)
  then show ?case by (cases j) (auto split: prod.splits)
next
  case (3 n t ts rb)
  then show ?case by (cases j) (force split: prod.splits)+
qed simp

lemma learn_holds:
  assumes u: "uniform msg" and ok: "assembly_ok a" and h: "holds_parts msg P Q a" and i: "i < length msg"
    and l: "learn_size (part_of msg ident i) (length (msg ! i)) a rt rb = Some (a1, rt1, rb1)"
  shows "holds_parts msg P Q a1" "assembly_ok a1"
    "j < length msg \<Longrightarrow> fa_completion a ! j = None \<Longrightarrow> fa_completion a1 ! j = None"
proof -
  note tot = part_of_good(2,3)[OF u i]
  have t: "fa_total a = if_total (part_of msg ident i)"
    using h tot(2) by (intro unat_u16_inject) (simp add: holds_parts_def)
  have n: "length (fa_completion a) = length msg" using ok h by (simp add: assembly_ok_def holds_parts_def)
  have "holds_parts msg P Q a1 \<and> assembly_ok a1 \<and>
    (\<forall>j<length msg. fa_completion a ! j = None \<longrightarrow> fa_completion a1 ! j = None)"
  proof (cases "fa_size a = None \<and> i + 1 \<noteq> length msg")
    case True
    have len: "length (msg ! i) \<le> 1422" using uniform_lengths(2,4)[OF u i] by simp
    have c: "fa_completion a1 = fst (shrink_all (length (msg ! i)) (fa_completion a) rb)"
      using l True tot by (auto simp: learn_size_def Let_def split: if_splits prod.splits)
    have f: "same_parts a a1 \<and> fa_size a1 = Some (length (msg ! i)) \<and> assembly_ok a1"
      using learn_first_size[OF ok t len _ _ l] True tot by simp
    then show ?thesis using h True uniform_lengths(1)[OF u i] shrink_all_slots[of _ "fa_completion a"] n
      by (auto simp: holds_parts_def same_parts_def c)
  next
    case False
    then have "a1 = a" using l tot by (auto simp: learn_size_def Let_def split: if_splits option.splits)
    then show ?thesis using h ok by simp
  qed
  then show "holds_parts msg P Q a1" "assembly_ok a1"
    "j < length msg \<Longrightarrow> fa_completion a ! j = None \<Longrightarrow> fa_completion a1 ! j = None" by blast+
qed

text \<open>Inserting the next part of the message is refused by no check, and completes it when it is the last.\<close>

lemma insert_next_part:
  assumes u: "uniform msg" and ok: "assembly_ok a" and h: "holds_parts msg P Q a" and i: "i < length msg" "i \<notin> P"
    and ins: "insert_part k (part_of msg ident i) (msg ! i) budget a fs rb = (out, fs', rb')"
  shows "if {..<length msg} \<subseteq> insert i P then \<exists>ts. out = Complete (concat msg) ts
    else out = Pending \<and> (\<exists>a'. map_of (fs_assemblies fs') k = Some a' \<and> holds_parts msg (insert i P) (Q - {i}) a')"
proof -
  note tot = part_of_good[OF u i(1)]
  have t: "fa_total a = if_total (part_of msg ident i)"
    using h tot(3) by (intro unat_u16_inject) (simp add: holds_parts_def)
  have none: "fa_parts a ! i = None" using h i by (simp add: holds_parts_def)
  have len: "length (msg ! i) \<le> 1422" using uniform_lengths(2,4)[OF u i(1)] by simp
  from ins show ?thesis
  proof (cases rule: insert_part_cases)
    case wrong
    then show ?thesis using t none tot(2) learn_message[OF u ok h i(1)] by auto
  next
    case again
    then show ?thesis using none tot(2) by simp
  next
    case (store a1 rt rb1)
    have h1: "holds_parts msg P Q a1" and ok1: "assembly_ok a1"
      using learn_holds[OF u ok h i(1) store(3)] by simp_all
    have n: "length (fa_parts a1) = length msg" "length (fa_completion a1) = length msg" "fa_total a1 = fa_total a"
      "unat (fa_total a1) = length msg" "fa_bytes a1 \<le> 131072"
      using ok1 h1 t tot(3) by (auto simp: assembly_ok_def holds_parts_def intro: unat_u16_inject)
    let ?xs = "(fa_parts a1)[i := Some (msg ! i)]"
    have none1: "fa_parts a1 ! i = None" using h1 i by (simp add: holds_parts_def)
    have xs: "?xs ! j = (if j \<in> insert i P then Some (msg ! j) else None)" if "j < length msg" for j
      using h1 that n i by (auto simp: holds_parts_def nth_list_update)
    have m: "mset (somes ?xs) = add_mset (msg ! i) (mset (somes (fa_parts a1)))"
      using none1 i n by (intro somes_store) auto
    have bytes: "fa_bytes a1 + length (msg ! i) = length (concat (somes ?xs))"
      using ok1 unfolding length_concat_mset m by (simp add: assembly_ok_def length_concat_mset)
    moreover have "length (concat (somes ?xs)) \<le> length (concat msg)"
      using n xs by (intro somes_below) (auto simp: list_all2_conv_all_nth)
    ultimately have fits: "fa_bytes a1 + length (msg ! i) \<le> 131072" using u by (simp add: uniform_def)
    have rec: "fa_received a1 + 1 = length (somes ?xs)" using ok1 arg_cong[OF m, of size] by (simp add: assembly_ok_def)
    have all: "fa_received a1 + 1 = length msg \<longleftrightarrow> {..<length msg} \<subseteq> insert i P"
      unfolding rec using somes_full_iff[of ?xs] n xs by auto
    obtain tk rb2 where tk: "slot_token (unat (if_part (part_of msg ident i))) (msg ! i) budget a1 rb1 = (tk, rb2)"
      by fastforce
    from n(5) len store(4) tk show ?thesis
    proof (cases rule: store_part_cases)
      case full
      then show ?thesis using fits by simp
    next
      case pending
      have "holds_parts msg (insert i P) (Q - {i}) (with_part i (msg ! i) tk a1)"
        using h1 xs n by (auto simp: holds_parts_def with_part_def nth_list_update)
      then show ?thesis using pending all n by (simp add: tot(2))
    next
      case (complete b)
      have "j \<in> insert i P" if "j < length msg" for j using all complete(2) n that by auto
      then have "?xs = map Some msg" using n xs by (intro nth_equalityI) auto
      then have "map Some (somes ?xs) = map Some msg"
        using somes_all[of ?xs] rec complete(2) n by simp
      then have "somes ?xs = msg" by (simp add: inj_map_eq_map)
      then show ?thesis using complete all n by (simp add: tot(2) with_part_def)
    qed
  qed
qed

lemma take_completion_frag_ok:
  assumes fs: "frag_ok fs" and t: "take_completion_budget c f fs = (tk, fs1)"
  shows "frag_ok fs1" "held fs = (case tk of None \<Rightarrow> {#} | Some x \<Rightarrow> {#x#}) + held fs1"
proof -
  let ?k = "(c, if_id f)" and ?i = "unat (if_part f)"
  have "frag_ok fs1 \<and> held fs = (case tk of None \<Rightarrow> {#} | Some x \<Rightarrow> {#x#}) + held fs1"
  proof (cases "map_of (fs_assemblies fs) ?k")
    case (Some a)
    show ?thesis
    proof (cases "?i < length (fa_completion a)")
      case True
      let ?a = "a\<lparr>fa_completion := (fa_completion a)[?i := None]\<rparr>"
      have e: "tk = fa_completion a ! ?i" "fs1 = put_assembly ?k ?a fs"
        using t Some True by (auto simp: take_completion_budget_def Let_def)
      note l = frag_ok_around[OF fs Some]
      have "live ?a" using l(2) by (simp add: live_def assembly_ok_def)
      moreover have "around ?k ?a fs" using l(1) by (simp add: around_def)
      moreover have "assembly_tokens a = (case tk of None \<Rightarrow> {#} | Some x \<Rightarrow> {#x#}) + assembly_tokens ?a"
        using somes_clear[OF True] e(1) list_update_id[of "fa_completion a" ?i]
        by (cases "fa_completion a ! ?i") (auto simp: assembly_tokens_def token_ac)
      moreover have "held fs = assembly_tokens a + held_list (remove_key ?k (fs_assemblies fs))"
        using fs Some by (intro held_split) (simp_all add: frag_ok_def)
      ultimately show ?thesis unfolding e(2) held_put by (simp add: around_put token_ac)
    next
      case False
      then show ?thesis using t Some fs by (auto simp: take_completion_budget_def Let_def)
    qed
  next
    case None
    then show ?thesis using t fs by (auto simp: take_completion_budget_def Let_def)
  qed
  then show "frag_ok fs1" "held fs = (case tk of None \<Rightarrow> {#} | Some x \<Rightarrow> {#x#}) + held fs1" by simp_all
qed

lemma offer_fragment_ok:
  assumes fs: "frag_ok fs" and o: "offer_fragment opt_size peer c f p already fs rb = (out, fs', rb')"
  shows "frag_ok fs'"
proof -
  obtain tk fs1 where t: "take_completion_budget c f fs = (tk, fs1)" by fastforce
  note k = take_completion_frag_ok(1)[OF fs t]
  show ?thesis using o t k
    by (auto simp: offer_fragment_def Let_def intro: insert_fragment_ok split: option.splits prod.splits)
qed

definition offer_tokens :: "fragment_outcome option \<Rightarrow> reorder_token multiset" where
  "offer_tokens out = (case out of None \<Rightarrow> {#} | Some x \<Rightarrow> outcome_tokens x)"

lemma offer_fragment_tokens:
  assumes fs: "frag_ok fs" and o: "offer_fragment opt_size peer c f p already fs rb = (out, fs', rb')"
    and v: "reorder_inv rb (held fs + M)"
  shows "reorder_inv rb' (offer_tokens out + held fs' + M)"
proof -
  obtain tk fs1 where t: "take_completion_budget c f fs = (tk, fs1)" by fastforce
  note k = take_completion_frag_ok[OF fs t]
  obtain src where src: "src = (case tk of Some t \<Rightarrow> Some (t, rb) | None \<Rightarrow> try_reserve peer (length p) rb)" by simp
  show ?thesis
  proof (cases src)
    case None
    then have "tk = None" using src by (cases tk) auto
    moreover from this None src have "(out, fs', rb') = (None, fs1, rb)" using o t by (simp add: offer_fragment_def)
    ultimately show ?thesis using v k(2) by (simp add: offer_tokens_def)
  next
    case (Some x)
    obtain budget rb1 where x: "x = (budget, rb1)" by (cases x)
    have "reorder_inv rb1 (add_mset budget (held fs1 + M))"
      using v k(2) src Some x by (cases tk) (auto intro: reserve_inv simp: token_ac)
    moreover obtain oc where "insert_fragment opt_size peer c f p budget already fs1 rb1 = (oc, fs', rb')" "out = Some oc"
      using o t src[symmetric] unfolding Some x by (auto simp: offer_fragment_def Let_def split: prod.splits)
    ultimately show ?thesis using insert_fragment_tokens[OF k(1)] by (auto simp: offer_tokens_def)
  qed
qed

lemma reserve_parts_slots:
  "reserve_parts peer n skips rb = (True, ts, rb') \<Longrightarrow> j < length skips \<Longrightarrow> \<not> skips ! j \<Longrightarrow> ts ! j \<noteq> None"
proof (induction peer n skips rb arbitrary: ts rb' j rule: reserve_parts.induct)
  case (2 peer n skip skips rb)
  then show ?case by (cases j) (auto split: if_splits option.splits prod.splits)
qed simp

lemma open_slots:
  assumes "open_assembly opt_size peer k f len already fs rb = (Opened, fs1, rb1)"
    and "j < unat (if_total f)" "j \<noteq> unat (if_part f)" "\<not> (j < length already \<and> already ! j)"
  shows "fa_completion (the (map_of (fs_assemblies fs1) k)) ! j \<noteq> None"
proof -
  let ?skips = "map (\<lambda>i. i = unat (if_part f) \<or> (i < length already \<and> already ! i)) [0..<unat (if_total f)]"
  have "\<exists>m rb3 ts rb4. reserve_parts peer m ?skips rb3 = (True, ts, rb4) \<and>
      fa_completion (the (map_of (fs_assemblies fs1) k)) = ts"
    using assms(1) by (auto simp: open_assembly_def Let_def split: if_splits option.splits prod.splits; blast)
  then obtain m rb3 ts rb4 where r: "reserve_parts peer m ?skips rb3 = (True, ts, rb4)"
    "fa_completion (the (map_of (fs_assemblies fs1) k)) = ts" by blast
  show ?thesis unfolding r(2) using assms(2-4) by (intro reserve_parts_slots[OF r(1)]) auto
qed

lemma offer_first:
  assumes u: "uniform msg" and fs: "frag_ok fs" and none: "map_of (fs_assemblies fs) (c, ident) = None"
    and i: "i < length msg"
    and o: "offer_fragment opt_size peer c (part_of msg ident i) (msg ! i) [] fs rb = (Some Pending, fs', rb')"
  shows "\<exists>a. map_of (fs_assemblies fs') (c, ident) = Some a \<and> holds_parts msg {i} (- {i}) a"
proof -
  let ?f = "part_of msg ident i" and ?k = "(c, ident)"
  note g = part_of_good[OF u i]
  have k: "(c, if_id ?f) = ?k" by (simp add: part_of_def)
  have "take_completion_budget c ?f fs = (None, fs)" using none k by (simp add: take_completion_budget_def Let_def)
  then obtain budget rb1 where ins: "insert_fragment opt_size peer c ?f (msg ! i) budget [] fs rb1 = (Pending, fs', rb')"
    using o by (auto simp: offer_fragment_def Let_def split: option.splits prod.splits)
  obtain oc fs1 rb2 where op: "open_assembly opt_size peer ?k ?f (length (msg ! i)) [] fs rb1 = (oc, fs1, rb2)"
    using prod_cases3 by blast
  have oc: "oc = Opened" using ins op none g(1) k by (cases oc) (auto simp: insert_fragment_def good_fragment_iff Let_def)
  obtain a where a: "fresh ?k ?f (length (msg ! i)) a fs1" using open_fresh[OF fs none g(1)] op oc by blast
  have ip: "insert_part ?k ?f (msg ! i) budget a fs1 rb2 = (Pending, fs', rb')"
    using ins op none g(1) k oc a by (simp add: insert_fragment_def good_fragment_iff Let_def fresh_def)
  have "fa_completion a ! j \<noteq> None" if "j < length msg" "j \<noteq> i" for j
    using open_slots[OF op[unfolded oc], of j] that a by (simp add: g fresh_def)
  then have h: "holds_parts msg {} (- {i}) a" using a by (auto simp: holds_parts_def fresh_def g)
  have "if {..<length msg} \<subseteq> insert i {} then \<exists>ts. Pending = Complete (concat msg) ts
    else Pending = Pending \<and> (\<exists>a'. map_of (fs_assemblies fs') ?k = Some a' \<and> holds_parts msg (insert i {}) (- {i} - {i}) a')"
    using a h i by (intro insert_next_part[OF u _ _ _ _ ip]) (auto simp: fresh_def)
  then show ?thesis by (auto split: if_splits)
qed

lemma offer_next:
  assumes u: "uniform msg" and fs: "frag_ok fs" and at: "map_of (fs_assemblies fs) (c, ident) = Some a"
    and h: "holds_parts msg P (- P) a" and i: "i < length msg" "i \<notin> P"
    and o: "offer_fragment opt_size peer c (part_of msg ident i) (msg ! i) already fs rb = (out, fs', rb')"
  shows "if {..<length msg} \<subseteq> insert i P then \<exists>ts. out = Some (Complete (concat msg) ts)
    else out = Some Pending \<and> (\<exists>a'. map_of (fs_assemblies fs') (c, ident) = Some a' \<and> holds_parts msg (insert i P) (- insert i P) a')"
proof -
  let ?f = "part_of msg ident i" and ?k = "(c, ident)"
  note g = part_of_good[OF u i(1)]
  have k: "if_id ?f = ident" by (simp add: part_of_def)
  have l: "live a" using frag_ok_around(2)[OF fs at] .
  have n: "length (fa_completion a) = length msg" using l h by (simp add: live_def assembly_ok_def holds_parts_def)
  obtain t where t: "fa_completion a ! i = Some t" using h i by (auto simp: holds_parts_def)
  let ?a = "a\<lparr>fa_completion := (fa_completion a)[i := None]\<rparr>"
  have tk: "take_completion_budget c ?f fs = (Some t, put_assembly ?k ?a fs)"
    using at n i t by (simp add: take_completion_budget_def Let_def k g)
  obtain oc where ins: "insert_part ?k ?f (msg ! i) t ?a (put_assembly ?k ?a fs) rb = (oc, fs', rb')" "out = Some oc"
    using o tk g(1) by (auto simp: offer_fragment_def insert_fragment_def good_fragment_iff Let_def k split: prod.splits)
  have "holds_parts msg P (- insert i P) ?a" using h n by (auto simp: holds_parts_def nth_list_update)
  then have "if {..<length msg} \<subseteq> insert i P then \<exists>ts. oc = Complete (concat msg) ts
    else oc = Pending \<and> (\<exists>a'. map_of (fs_assemblies fs') ?k = Some a' \<and> holds_parts msg (insert i P) (- insert i P - {i}) a')"
    using l i by (intro insert_next_part[OF u _ _ _ _ ins(1)]) (auto simp: live_def assembly_ok_def)
  moreover have e: "- insert i P - {i} = - insert i P" by auto
  ultimately show ?thesis unfolding e ins(2) by (simp split: if_splits)
qed

end
