(* ===== verification/FragmentProperties.thy ===== *)
theory FragmentProperties
  imports FragmentProofs
begin

text \<open>
  The properties of reassembly, and the composition of the sender's fragmentation with it.
\<close>

section \<open>From the sender's parts to the receiver's\<close>

lemma chunks_lengths:
  assumes "0 < k" "i < length (chunks k xs)"
  shows "i + 1 < length (chunks k xs) \<Longrightarrow> length (chunks k xs ! i) = k"
  using assms
proof (induction k xs arbitrary: i rule: chunks.induct)
  case (1 k xs)
  show ?case
  proof (cases "xs = []")
    case False
    have c: "chunks k xs = take k xs # chunks k (drop k xs)" using 1(3) False by (subst chunks.simps) simp
    show ?thesis
    proof (cases i)
      case 0
      then have "chunks k (drop k xs) \<noteq> []" using 1(2) c by auto
      then have "drop k xs \<noteq> []" by (auto simp: chunks.simps)
      then show ?thesis using 0 c by simp
    next
      case (Suc j)
      then show ?thesis using 1 c False by simp
    qed
  qed (use 1 in \<open>simp add: chunks.simps\<close>)
qed

lemma uniform_chunks:
  assumes "1014 < length payload" "length payload \<le> 129792"
  shows "uniform (chunks 1014 payload)" "length (chunks 1014 payload) = div_ceil (length payload) 1014"
proof -
  let ?m = "chunks 1014 payload"
  show l: "length ?m = div_ceil (length payload) 1014" by (simp add: length_chunks)
  have "2 \<le> length ?m" "length ?m \<le> 128" using assms unfolding l by (auto simp: div_ceil_def)
  moreover have "1 \<le> length (?m ! i) \<and> (if i + 1 = length ?m then length (?m ! i) \<le> 1014 else length (?m ! i) = 1014)"
    if "i < length ?m" for i
    using length_chunk[OF nth_mem[OF that]] chunks_lengths[of 1014 i payload] that by (auto simp: Suc_le_eq)
  ultimately show "uniform ?m" using assms(2) unfolding uniform_def
    by (auto simp: concat_chunks intro!: exI[of _ 1014])
qed

text \<open>What the receiver takes from the sender's packet number \<open>i\<close>: its parsed fragment header and payload.\<close>

definition offer_part ::
    "nat \<Rightarrow> nat \<Rightarrow> u8 \<Rightarrow> outgoing_reliable list \<Rightarrow> nat \<Rightarrow> fragment_state \<Rightarrow> reorder_budget \<Rightarrow>
     fragment_outcome option \<times> fragment_state \<times> reorder_budget" where
  "offer_part opt_size peer c parts i fs rb =
     offer_fragment opt_size peer c (the (parsed_fragment (or_fragment (parts ! i)))) (or_payload (parts ! i)) [] fs rb"

text \<open>
  The packets arrive one after the other; the budget that each finds is arbitrary, since other peers and
  channels use it in between.
\<close>

fun feed_parts ::
    "nat \<Rightarrow> nat \<Rightarrow> u8 \<Rightarrow> outgoing_reliable list \<Rightarrow> (nat \<times> reorder_budget) list \<Rightarrow> fragment_state \<Rightarrow>
     fragment_outcome option list" where
  "feed_parts opt_size peer c parts [] fs = []"
| "feed_parts opt_size peer c parts ((i, rb) # later) fs =
     (let (out, fs', rb') = offer_part opt_size peer c parts i fs rb
      in out # feed_parts opt_size peer c parts later fs')"

definition sender_parts :: "u16 \<Rightarrow> bytes \<Rightarrow> outgoing_reliable list" where
  "sender_parts ident payload = fragment_parts ident (div_ceil (length payload) 1014) payload"

lemma offer_sender_part:
  assumes "i < length (sender_parts ident payload)"
  shows "offer_part opt_size peer c (sender_parts ident payload) i fs rb =
    offer_fragment opt_size peer c (part_of (chunks 1014 payload) ident i) (chunks 1014 payload ! i) [] fs rb"
  using assms by (simp add: offer_part_def sender_parts_def fragment_parts_def nth_enumerate_eq parsed_fragment_def
      part_of_def RELIABLE_FRAGMENT_PAYLOAD_SIZE_1014 length_chunks)

lemma length_sender_parts: "length (sender_parts ident payload) = length (chunks 1014 payload)"
  by (simp add: sender_parts_def fragment_parts_def RELIABLE_FRAGMENT_PAYLOAD_SIZE_1014)

lemma feed_completes:
  assumes u: "uniform (chunks 1014 payload)" and fs: "frag_ok fs"
    and at: "map_of (fs_assemblies fs) (c, ident) = Some a" and h: "holds_parts (chunks 1014 payload) P (- P) a"
    and d: "distinct (map fst later)" "set (map fst later) = {..<length (chunks 1014 payload)} - P" "later \<noteq> []"
  shows "\<exists>ts. feed_parts opt_size peer c (sender_parts ident payload) later fs =
    replicate (length later - 1) (Some Pending) @ [Some (Complete payload ts)]"
  using fs at h d
proof (induction later arbitrary: fs a P)
  case (Cons x later)
  obtain i rb where x: "x = (i, rb)" by (cases x)
  let ?m = "chunks 1014 payload"
  have i: "i < length ?m" "i \<notin> P" using Cons.prems(5) x by auto
  obtain out fs' rb' where o: "offer_part opt_size peer c (sender_parts ident payload) i fs rb = (out, fs', rb')"
    using prod_cases3 by blast
  note o' = o[unfolded offer_sender_part[OF i(1)[folded length_sender_parts[of ident]]]]
  note s = offer_next[OF u Cons.prems(1-3) i o']
  have fs': "frag_ok fs'" using offer_fragment_ok[OF Cons.prems(1) o'] .
  have rest: "set (map fst later) = {..<length ?m} - insert i P" using Cons.prems(4,5) x by auto
  show ?case
  proof (cases "later = []")
    case True
    then have "{..<length ?m} \<subseteq> insert i P" using rest by auto
    then show ?thesis using s o x True by (simp add: concat_chunks)
  next
    case False
    then have "set (map fst later) \<noteq> {}" by simp
    then have "\<not> {..<length ?m} \<subseteq> insert i P" unfolding rest by blast
    then obtain a' where a': "out = Some Pending" "map_of (fs_assemblies fs') (c, ident) = Some a'"
      "holds_parts ?m (insert i P) (- insert i P) a'" using s by auto
    obtain ts where "feed_parts opt_size peer c (sender_parts ident payload) later fs' =
        replicate (length later - 1) (Some Pending) @ [Some (Complete payload ts)]"
      using Cons.IH[OF fs' a'(2,3) _ rest False] Cons.prems(4) by auto
    then show ?thesis using o x a'(1) False by (cases later) auto
  qed
qed simp

section \<open>Properties\<close>

text \<open>
  C7. A fragmented message whose first part was admitted always completes: whatever part arrived
  first, in whatever order the others come, and whatever the shared budget looks like when they do, no part
  is refused, every part but the last is answered as pending, and the last one yields exactly the payload
  that the sender had split. The reservations made for the first part are what guarantees this.
\<close>

theorem admitted_message_completes:
  assumes "1014 < length payload" "length payload \<le> MAX_RELIABLE_FRAGMENTED_MESSAGE_BYTES"
    and "frag_ok fs" "map_of (fs_assemblies fs) (c, ident) = None"
    and "offer_part opt_size peer c (sender_parts ident payload) i fs rb = (Some Pending, fs1, rb1)"
    and "distinct (i # map fst later)" "set (i # map fst later) = {..<length (sender_parts ident payload)}"
  shows "\<exists>ts. feed_parts opt_size peer c (sender_parts ident payload) later fs1 =
    replicate (length later - 1) (Some Pending) @ [Some (Complete payload ts)]"
proof -
  let ?m = "chunks 1014 payload"
  have u: "uniform ?m" using assms(1,2)
    by (intro uniform_chunks) (simp_all add: peer_limits RELIABLE_FRAGMENT_PAYLOAD_SIZE_1014)
  have i: "i < length ?m" using assms(7) by (auto simp: length_sender_parts)
  note o = assms(5)[unfolded offer_sender_part[OF i[folded length_sender_parts[of ident]]]]
  obtain a where a: "map_of (fs_assemblies fs1) (c, ident) = Some a" "holds_parts ?m {i} (- {i}) a"
    using offer_first[OF u assms(3,4) i o] by blast
  have "later \<noteq> []"
  proof
    assume "later = []"
    then have "{..<length ?m} = {i}" using assms(7) by (simp add: length_sender_parts)
    moreover have "2 \<le> length ?m" using u by (simp add: uniform_def)
    ultimately show False by (metis card_lessThan card.empty card_insert_disjoint empty_iff finite.emptyI One_nat_def Suc_1 not_less_eq_eq order_refl)
  qed
  moreover have "set (map fst later) = {..<length ?m} - {i}" using assms(6,7) by (auto simp: length_sender_parts)
  ultimately show ?thesis
    using feed_completes[OF u offer_fragment_ok[OF assms(3) o] a] assms(6) by simp
qed

definition demo_payload :: bytes where "demo_payload = replicate 1014 1 @ [2, 3]"

definition demo_budget :: reorder_budget where "demo_budget = reorder_budget_new reorder_limits_default"

lemma demo_first_part:
  "fst (offer_part 32 0 1 (sender_parts 7 demo_payload) 1 fragment_state_default demo_budget) = Some Pending"
proof -
  have c: "chunks 1014 demo_payload = [replicate 1014 1, [2, 3]]"
    unfolding demo_payload_def by (subst chunks.simps) (simp add: chunks.simps)
  have n: "div_ceil (length demo_payload) 1014 = 2" by (simp add: demo_payload_def div_ceil_def)
  have two: "[0..<2] = [0, 1 :: nat]" by (simp add: upt_rec)
  show ?thesis
    by (simp add: offer_part_def sender_parts_def fragment_parts_def n two RELIABLE_FRAGMENT_PAYLOAD_SIZE_1014 c
      parsed_fragment_def offer_fragment_def take_completion_budget_def insert_fragment_def fragment_state_default_def
      try_reserve_def checked_add_def demo_budget_def reorder_budget_new_def reorder_limits_default_def
      MAX_ORDERED_REORDER_PACKETS_GLOBAL_def MAX_ORDERED_REORDER_BYTES_GLOBAL_def MAX_ORDERED_REORDER_BYTES_PER_PEER_def
      MAX_ORDERED_REORDER_PACKETS_PER_PEER_def ORDERED_REORDER_ENTRY_OVERHEAD_def good_fragment_iff good_fragment_def
      open_assembly_def MAX_INCOMING_FRAGMENT_ASSEMBLIES_def MAX_INCOMING_FRAGMENT_BYTES_PER_PEER_def
      saturating_mul_def saturating_add_def max_fragment_payload_1422 put_assembly_def put_key_def remove_key_def
      insert_part_def learn_size_def store_part_def Let_def)
qed

text \<open>The second part of two arrives first, the first part finds the budget empty of room.\<close>

theorem admitted_message_completes_witness:
  "\<exists>ts. feed_parts 32 0 1 (sender_parts 7 demo_payload)
     [(0, reorder_budget_new \<lparr>lim_packets = 0, lim_bytes = 0, lim_peer_packets = 0, lim_peer_bytes = 0\<rparr>)]
     (fst (snd (offer_part 32 0 1 (sender_parts 7 demo_payload) 1 fragment_state_default demo_budget))) =
    [Some (Complete demo_payload ts)]"
proof -
  have "\<exists>ts. feed_parts 32 0 1 (sender_parts 7 demo_payload)
     [(0, reorder_budget_new \<lparr>lim_packets = 0, lim_bytes = 0, lim_peer_packets = 0, lim_peer_bytes = 0\<rparr>)]
     (fst (snd (offer_part 32 0 1 (sender_parts 7 demo_payload) 1 fragment_state_default demo_budget))) =
    replicate (length [(0 :: nat, reorder_budget_new \<lparr>lim_packets = 0, lim_bytes = 0, lim_peer_packets = 0, lim_peer_bytes = 0\<rparr>)] - 1)
      (Some Pending) @ [Some (Complete demo_payload ts)]"
  proof (rule admitted_message_completes)
    show "offer_part 32 0 1 (sender_parts 7 demo_payload) 1 fragment_state_default demo_budget =
      (Some Pending, fst (snd (offer_part 32 0 1 (sender_parts 7 demo_payload) 1 fragment_state_default demo_budget)),
       snd (snd (offer_part 32 0 1 (sender_parts 7 demo_payload) 1 fragment_state_default demo_budget)))"
      using demo_first_part by (metis prod.collapse)
    show "set (1 # map fst [(0 :: nat, reorder_budget_new \<lparr>lim_packets = 0, lim_bytes = 0, lim_peer_packets = 0, lim_peer_bytes = 0\<rparr>)]) =
      {..<length (sender_parts 7 demo_payload)}"
      by (auto simp: length_sender_parts length_chunks demo_payload_def div_ceil_def)
  qed (simp_all add: demo_payload_def peer_limits RELIABLE_FRAGMENT_PAYLOAD_SIZE_1014 frag_ok_default,
       simp add: fragment_state_default_def)
  then show ?thesis by simp
qed

text \<open>
  C28. However hostile the fragments of a peer are, offering one keeps the reassembly state
  sound: at most four assemblies, each with its counters in agreement with its parts, the byte counters of
  the peer equal to what its assemblies hold, and never more than 128 KiB reserved, which bounds the bytes
  held. No subtraction of the counters wraps.
\<close>

theorem fragment_state_bounded:
  assumes "frag_ok fs"
  shows "let (out, fs', rb') = offer_fragment opt_size peer c f p already fs rb in
    frag_ok fs' \<and> fs_bytes fs' \<le> fs_reserved fs' \<and> fs_reserved fs' \<le> 128 * 1024 \<and> length (fs_assemblies fs') \<le> 4"
proof -
  obtain out fs' rb' where o: "offer_fragment opt_size peer c f p already fs rb = (out, fs', rb')"
    using prod_cases3 by blast
  have "frag_ok fs'" using offer_fragment_ok[OF assms o] .
  then show ?thesis using frag_ok_bytes_le[of fs'] by (simp add: o) (simp add: frag_ok_def)
qed

theorem fragment_state_bounded_witness:
  "let (out, fs', rb') = offer_fragment 32 0 1 \<lparr>if_id = 1, if_part = 9, if_total = 3\<rparr> [1] [] fragment_state_default demo_budget in
    frag_ok fs' \<and> fs_bytes fs' \<le> fs_reserved fs' \<and> fs_reserved fs' \<le> 128 * 1024 \<and> length (fs_assemblies fs') \<le> 4"
  by (rule fragment_state_bounded) (rule frag_ok_default)

text \<open>
  Reassembly neither leaks nor duplicates budget: when the counters of the reorder budget agree
  with the tokens held by the assemblies and by everybody else before a part is offered, they agree after it
  with the tokens of the new assemblies, those handed back with the outcome, and everybody else's, on every
  path including the errors.
\<close>

theorem fragment_tokens_conserved:
  assumes "frag_ok fs" and "reorder_inv rb (held fs + others)"
  shows "let (out, fs', rb') = offer_fragment opt_size peer c f p already fs rb in
    reorder_inv rb' (offer_tokens out + held fs' + others)"
proof -
  obtain out fs' rb' where o: "offer_fragment opt_size peer c f p already fs rb = (out, fs', rb')"
    using prod_cases3 by blast
  show ?thesis using offer_fragment_tokens[OF assms(1) o assms(2)] by (simp add: o)
qed

theorem fragment_tokens_conserved_witness:
  "let (out, fs', rb') = offer_fragment 32 0 1 \<lparr>if_id = 1, if_part = 0, if_total = 3\<rparr> [1] [] fragment_state_default demo_budget in
    reorder_inv rb' (offer_tokens out + held fs' + {#})"
proof (rule fragment_tokens_conserved)
  show "reorder_inv demo_budget (held fragment_state_default + {#})"
    using reorder_new_inv[of reorder_limits_default]
    by (simp add: demo_budget_def held_def held_list_def fragment_state_default_def)
qed (rule frag_ok_default)

end
