(* ===== verification/ReliableProtocol.thy ===== *)
theory ReliableProtocol
  imports ReliableSend
begin

text \<open>
  Both ends of one reliable channel and the network between them, as a step relation over the
  operations of \<open>basis-transport/src/lib.rs\<close>: the sender admits batches, dispatches and processes
  acknowledgements, the receiver records what it has taken and answers with acknowledgement packets.
  The network loses, repeats and reorders freely; packets and acknowledgements older than half the
  sequence space are assumed gone. Unbounded indices run along as ghost state, because the sixteen-bit
  sequence numbers repeat. The result: a packet leaves the sender's window only after the receiver has
  it, and the acknowledgement of a packet in flight is always accepted.
\<close>

section \<open>Sequence numbers of unbounded indices\<close>

definition seq_of :: "nat \<Rightarrow> u16" where
  "seq_of i = seq_plus 0 i"

lemma unat_seq_of: "unat (seq_of i) = i mod 32768"
  by (simp add: seq_of_def unat_seq_plus)

lemma valid_seq_of [simp]: "valid_seq (seq_of i)"
  by (simp add: seq_of_def)

lemma seq_of_add: "seq_plus (seq_of i) k = seq_of (i + k)"
  by (simp add: seq_of_def seq_plus_add)

lemma next_seq_of: "next_sequence (seq_of i) = seq_of (Suc i)"
  by (simp add: seq_of_def next_sequence_plus)

lemma seq_of_inject:
  assumes "seq_of i = seq_of j" and "i < j + 32768" and "j < i + 32768"
  shows "i = j"
proof (rule ccontr)
  assume "i \<noteq> j"
  then consider k where "i = j + k" "0 < k" "k < 32768" | k where "j = i + k" "0 < k" "k < 32768"
    using assms by (metis add.commute add_less_cancel_right less_imp_add_positive linorder_neqE_nat)
  then show False
  proof cases
    case 1
    then show False using assms(1) seq_plus_inject[of "seq_of j" k 0] by (simp add: seq_of_add)
  next
    case 2
    then show False using assms(1)[symmetric] seq_plus_inject[of "seq_of i" k 0] by (simp add: seq_of_add)
  qed
qed

lemma cyclic_negative:
  fixes x y k :: nat
  assumes "x < 32768" "y < 32768" "(x + k) mod 32768 = y" "0 < k" "k < 16384"
  shows "(let d = int x - int y in
      if d \<le> - 16384 then d + 32768 else if d \<ge> 16384 then d - 32768 else d) = - int k"
proof (cases "x + k < 32768")
  case True
  then show ?thesis using assms by (simp add: Let_def)
next
  case False
  then have "(x + k) mod 32768 = (x + k - 32768) mod 32768" by (intro le_mod_geq) simp
  also have "\<dots> = x + k - 32768" using assms by (intro mod_less) simp
  finally have "int y = int x + int k - 32768" using assms False by linarith
  then show ?thesis using assms by (simp add: Let_def)
qed

lemma relative_seq_of:
  assumes "i < j + 16384" and "j < i + 16384"
  shows "relative_sequence (seq_of i) (seq_of j) = int i - int j"
proof (cases "j \<le> i")
  case True
  then have "seq_of i = seq_plus (seq_of j) (i - j)" by (simp add: seq_of_add)
  then show ?thesis using relative_seq_plus[of "seq_of j" "i - j"] assms True by simp
next
  case False
  then have "(i mod 32768 + (j - i)) mod 32768 = (i + (j - i)) mod 32768" by (intro mod_add_left_eq)
  also have "i + (j - i) = j" using False by simp
  finally have "relative_sequence (seq_of i) (seq_of j) = - int (j - i)"
    unfolding relative_sequence_nat unat_seq_of
    by (intro cyclic_negative) (use False assms in simp_all)
  then show ?thesis using False by simp
qed

lemma in_window_seq_of:
  assumes "i < j + 16384" and "j < i + 16384"
  shows "in_window (seq_of j) (seq_of i) \<longleftrightarrow> j \<le> i \<and> i < j + 128"
  using relative_seq_of[OF assms] by (auto simp: in_window_def)

section \<open>The contract of the receiver's window\<close>

locale ack_receiver =
  fixes wf :: "'a \<Rightarrow> bool" and start :: "'a \<Rightarrow> u16" and held :: "'a \<Rightarrow> u16 set"
    and record_seq :: "u16 \<Rightarrow> 'a \<Rightarrow> 'a"
  assumes record_wf: "wf a \<Longrightarrow> valid_seq s \<Longrightarrow> wf (record_seq s a)"
    and record_old: "relative_sequence s (start a) < 0 \<Longrightarrow> record_seq s a = a"
    and record_start: "wf a \<Longrightarrow> valid_seq s \<Longrightarrow> 0 \<le> relative_sequence s (start a) \<Longrightarrow>
      start (record_seq s a) = seq_plus (start a) (nat (relative_sequence s (start a)) - 127)"
    and record_held: "wf a \<Longrightarrow> valid_seq s \<Longrightarrow> 0 \<le> relative_sequence s (start a) \<Longrightarrow>
      held (record_seq s a) = insert s {t \<in> held a. in_window (start (record_seq s a)) t}"
begin

text \<open>The window of a receiver that started at index \<open>w\<close> and has taken the indices \<open>R\<close>.\<close>

definition tracks :: "nat \<Rightarrow> nat set \<Rightarrow> 'a \<Rightarrow> bool" where
  "tracks w R a \<longleftrightarrow> wf a \<and> start a = seq_of w \<and>
     held a = seq_of ` {i \<in> R. w \<le> i \<and> i < w + 128} \<and> (\<forall>i\<in>R. i < w + 128)"

lemma tracks_record:
  assumes t: "tracks w R a" and b: "i < w + 16384" "w < i + 16384"
  shows "tracks (max w (i - 127)) (insert i R) (record_seq (seq_of i) a)"
proof -
  have a: "wf a" "start a = seq_of w" "held a = seq_of ` {i \<in> R. w \<le> i \<and> i < w + 128}"
    and R: "\<And>j. j \<in> R \<Longrightarrow> j < w + 128"
    using t by (auto simp: tracks_def)
  have rel: "relative_sequence (seq_of i) (start a) = int i - int w"
    using relative_seq_of[of i w] b a by simp
  show ?thesis
  proof (cases "i < w")
    case True
    then have "record_seq (seq_of i) a = a" "max w (i - 127) = w" using record_old rel by auto
    moreover have "{j \<in> insert i R. w \<le> j \<and> j < w + 128} = {j \<in> R. w \<le> j \<and> j < w + 128}"
      using True by auto
    ultimately show ?thesis using t True by (auto simp: tracks_def)
  next
    case False
    let ?w = "max w (i - 127)" and ?a = "record_seq (seq_of i) a"
    have "nat (int i - int w) - 127 + w = ?w" using False by auto
    then have s: "start ?a = seq_of ?w"
      using record_start[OF a(1) valid_seq_of] rel False a(2) by (simp add: seq_of_add add.commute)
    have "in_window (seq_of ?w) (seq_of j) \<longleftrightarrow> ?w \<le> j \<and> j < ?w + 128" if "w \<le> j" "j < w + 128" for j
      using that b False by (intro in_window_seq_of) auto
    then have "{t \<in> held a. in_window (start ?a) t} = seq_of ` {j \<in> R. ?w \<le> j \<and> j < ?w + 128}"
      using R by (auto simp: s a(3) image_iff)
    moreover have "?w \<le> i" "i < ?w + 128" using False by auto
    ultimately have "held ?a = seq_of ` {j \<in> insert i R. ?w \<le> j \<and> j < ?w + 128}"
      using record_held[OF a(1) valid_seq_of, of i] rel False by auto
    then show ?thesis using record_wf[OF a(1)] s R False by (fastforce simp: tracks_def)
  qed
qed

end

interpretation window: ack_receiver ack_wf window_start recorded record_ack
proof
  show "record_ack s a = a" if "relative_sequence s (window_start a) < 0" for s a
    using that by (simp add: record_ack_def)
  show "ack_wf (record_ack s a)" if "ack_wf a" "valid_seq s" for s a
    using that record_ack_window(1) by (cases "relative_sequence s (window_start a) < 0")
      (auto simp: record_ack_def)
qed (use record_ack_window(2) record_ack_recorded in auto)

section \<open>The two ends of a channel\<close>

text \<open>
  \<open>lk_sent\<close> counts the packets of the channel ever sent, \<open>lk_base\<close> is the index the receiver's window
  starts at, \<open>lk_got\<close> the indices it has recorded; an acknowledgement in the network carries the
  index its window started at.
\<close>

record link =
  lk_sender :: peer_state
  lk_receiver :: peer_state
  lk_sent :: nat
  lk_base :: nat
  lk_got :: "nat set"
  lk_acks :: "(nat \<times> bytes) set"

definition link_init :: "u8 \<Rightarrow> link" where
  "link_init number = \<lparr>lk_sender = new_peer number 0, lk_receiver = new_peer number 0, lk_sent = 0,
     lk_base = 0, lk_got = {}, lk_acks = {}\<rparr>"

definition in_flight :: "peer_state \<Rightarrow> u8 \<Rightarrow> pending_reliable list" where
  "in_flight state c = queue_of (pending_reliable state) c"

inductive link_step :: "u8 \<Rightarrow> link \<Rightarrow> link \<Rightarrow> bool" for c where
  enqueue: "enqueue_reliable_batch (lk_sender l) packets = (ok, s') \<Longrightarrow>
    link_step c l (l\<lparr>lk_sender := s'\<rparr>)"
| dispatch: "distinct order \<Longrightarrow> dispatch_queued now order (lk_sender l) stats = (packets, s', stats') \<Longrightarrow>
    link_step c l (l\<lparr>lk_sender := s',
      lk_sent := lk_sent l + (length (in_flight s' c) - length (in_flight (lk_sender l) c))\<rparr>)"
| receive: "i < lk_sent l \<Longrightarrow> lk_base l < i + 16384 \<Longrightarrow>
    link_step c l (l\<lparr>lk_receiver := queue_ack (lk_receiver l) c (seq_of i),
      lk_base := max (lk_base l) (i - 127), lk_got := insert i (lk_got l)\<rparr>)"
| acknowledge: "a = ack_of (lk_receiver l) c \<Longrightarrow>
    link_step c l (l\<lparr>lk_acks := insert (lk_base l, build_ack_packet n c (window_start a) (ack_bits a)) (lk_acks l)\<rparr>)"
| deliver: "(w, bytes) \<in> lk_acks l \<Longrightarrow> lk_sent l < w + 16384 \<Longrightarrow>
    link_step c l (l\<lparr>lk_sender := fst (process_ack (lk_sender l) bytes stats)\<rparr>)"

inductive reachable_link :: "u8 \<Rightarrow> link \<Rightarrow> bool" for c where
  init: "number < 4 \<Longrightarrow> reachable_link c (link_init number)"
| step: "reachable_link c l \<Longrightarrow> link_step c l l' \<Longrightarrow> reachable_link c l'"

inductive_cases link_stepE: "link_step c l l'"

text \<open>The packets in flight are the indices \<open>js\<close>, in order, within 128 of the next one.\<close>

definition flying :: "nat \<Rightarrow> pending_reliable list \<Rightarrow> nat list \<Rightarrow> bool" where
  "flying n q js \<longleftrightarrow> map pr_sequence q = map seq_of js \<and> sorted_wrt (<) js \<and>
     (\<forall>j\<in>set js. j < n \<and> n \<le> j + 128)"

definition genuine_ack :: "u8 \<Rightarrow> link \<Rightarrow> nat \<times> bytes \<Rightarrow> bool" where
  "genuine_ack c l x \<longleftrightarrow> (\<exists>a n R. snd x = build_ack_packet n c (window_start a) (ack_bits a) \<and>
     window.tracks (fst x) R a \<and> R \<subseteq> lk_got l \<and> fst x \<le> lk_base l)"

definition link_inv :: "u8 \<Rightarrow> link \<Rightarrow> bool" where
  "link_inv c l \<longleftrightarrow> send_inv (lk_sender l) \<and> connection_number (lk_sender l) < 4 \<and>
     channel_next (lk_sender l) c = seq_of (lk_sent l) \<and>
     (\<exists>js. flying (lk_sent l) (in_flight (lk_sender l) c) js \<and> (\<forall>j\<in>set js. lk_base l \<le> j) \<and>
        (\<forall>i<lk_sent l. i \<in> lk_got l \<or> i \<in> set js)) \<and>
     acks_wf (lk_receiver l) \<and> window.tracks (lk_base l) (lk_got l) (ack_of (lk_receiver l) c) \<and>
     lk_base l \<le> lk_sent l \<and> lk_got l \<subseteq> {..<lk_sent l} \<and> (\<forall>x\<in>lk_acks l. genuine_ack c l x)"

lemma tracks_initial: "window.tracks 0 {} ack_state_default"
  by (simp add: window.tracks_def ack_state_default_def seq_of_def seq_plus_def recorded_def ack_wf_def
      ack_bit_def list_get_def ACK_BITS_LEN_def DEFAULT_WINDOW_SIZE_def)

lemma link_inv_init: "number < 4 \<Longrightarrow> link_inv c (link_init number)"
  using tracks_initial
  by (auto simp: link_inv_def link_init_def in_flight_def flying_def channel_next_def new_peer_def[of _ 0] queue_of_def
      acks_wf_def ack_of_def seq_of_def seq_plus_def intro!: send_inv_new[unfolded new_peer_def])

text \<open>The sender's backlog is short: at most 128 unacknowledged numbers past the receiver's window.\<close>

lemma sent_bound:
  assumes "link_inv c l"
  shows "lk_sent l \<le> lk_base l + 256"
proof -
  obtain js where js: "flying (lk_sent l) (in_flight (lk_sender l) c) js" "\<forall>i<lk_sent l. i \<in> lk_got l \<or> i \<in> set js"
    using assms by (auto simp: link_inv_def)
  have got: "i < lk_base l + 128" if "i \<in> lk_got l" for i
    using assms that by (auto simp: link_inv_def window.tracks_def)
  show ?thesis
  proof (rule ccontr)
    assume "\<not> ?thesis"
    then have far: "lk_base l + 128 < lk_sent l" "lk_sent l > lk_base l + 128 + 128" by simp_all
    then have "lk_base l + 128 \<in> set js" using js(2) got by fastforce
    then show False using js(1) far by (auto simp: flying_def)
  qed
qed

section \<open>Every step keeps the invariant\<close>

lemma behind_seq_of: "j \<le> n \<Longrightarrow> n < j + 32768 \<Longrightarrow> behind (seq_of n) (seq_of j) = n - j"
  using behind_seq_plus[of "seq_of j" "n - j"] by (simp add: seq_of_add)

lemma flying_dispatch:
  assumes f: "flying n q js" and q': "map pr_sequence q' = map pr_sequence q @ map (seq_plus (seq_of n)) [0..<k]"
    and ok: "in_flight_ok (seq_of (n + k)) q'" and k: "k \<le> 4096"
  shows "flying (n + k) q' (js @ [n..<n + k])"
proof -
  have m: "map (seq_plus (seq_of n)) [0..<k] = map seq_of [n..<n + k]"
    by (rule nth_equalityI) (simp_all add: seq_of_add)
  have s: "map pr_sequence q' = map seq_of (js @ [n..<n + k])" using f by (simp add: q' m flying_def)
  have "n + k \<le> j + 128" if "j \<in> set (js @ [n..<n + k])" for j
  proof -
    have "seq_of j \<in> set (map pr_sequence q')" unfolding s using that by auto
    then obtain item where item: "item \<in> set q'" "pr_sequence item = seq_of j" by auto
    have "j \<le> n + k" "n \<le> j + 128" using that f by (auto simp: flying_def)
    then have "behind (seq_of (n + k)) (seq_of j) = n + k - j" using k by (intro behind_seq_of) simp_all
    then show ?thesis using ok item by (fastforce simp: in_flight_ok_def)
  qed
  then show ?thesis using f s by (auto simp: flying_def sorted_wrt_append)
qed

lemma inv_dispatch:
  assumes inv: "link_inv c l" and c: "c mod 4 \<noteq> 3" and o: "distinct order"
    and d: "dispatch_queued now order (lk_sender l) stats = (packets, s', stats')"
  shows "link_inv c (l\<lparr>lk_sender := s',
      lk_sent := lk_sent l + (length (in_flight s' c) - length (in_flight (lk_sender l) c))\<rparr>)"
proof -
  have si: "send_inv (lk_sender l)" and cn: "channel_next (lk_sender l) c = seq_of (lk_sent l)"
    and n4: "connection_number (lk_sender l) < 4" using inv by (auto simp: link_inv_def)
  obtain js where js: "flying (lk_sent l) (in_flight (lk_sender l) c) js" "\<forall>j\<in>set js. lk_base l \<le> j"
    "\<forall>i<lk_sent l. i \<in> lk_got l \<or> i \<in> set js" using inv by (auto simp: link_inv_def)
  obtain k where k: "map pr_sequence (in_flight s' c) =
      map pr_sequence (in_flight (lk_sender l) c) @ map (seq_plus (seq_of (lk_sent l))) [0..<k]"
    "channel_next s' c = seq_of (lk_sent l + k)" "k \<le> 4096" "connection_number s' = connection_number (lk_sender l)"
    using dispatch_queued_sequences[OF si c d] by (auto simp: in_flight_def cn seq_of_add peer_limits)
  have s': "send_inv s'" using dispatch_queued_facts[OF si n4 o d] by blast
  then have "in_flight_ok (seq_of (lk_sent l + k)) (in_flight s' c)"
    using c k(2) by (auto simp: send_inv_def windows_ok_def in_flight_def)
  then have f: "flying (lk_sent l + k) (in_flight s' c) (js @ [lk_sent l..<lk_sent l + k])"
    using flying_dispatch[OF js(1) k(1)] k(3) by blast
  have len: "length (in_flight s' c) - length (in_flight (lk_sender l) c) = k"
    using arg_cong[OF k(1), of length] by simp
  have base: "lk_base l \<le> lk_sent l" using inv by (simp add: link_inv_def)
  show ?thesis
    unfolding link_inv_def len using inv f js base s' k n4
    by (auto simp: link_inv_def genuine_ack_def not_le intro!: exI[of _ "js @ [lk_sent l..<lk_sent l + k]"])
qed

lemma inv_enqueue:
  assumes inv: "link_inv c l" and e: "enqueue_reliable_batch (lk_sender l) packets = (ok, s')"
  shows "link_inv c (l\<lparr>lk_sender := s'\<rparr>)"
proof -
  have "send_inv s'" using inv enqueue_send_inv[OF _ e] by (simp add: link_inv_def)
  then show ?thesis using inv enqueue_send_fields[OF e]
    by (auto simp: link_inv_def in_flight_def channel_next_def genuine_ack_def)
qed

lemma ack_of_queue_ack:
  assumes "valid_seq s"
  shows "ack_of (queue_ack p c s) c = record_ack s (ack_of p c)"
  using assms by (auto simp: queue_ack_def ack_of_def valid_seq_def Let_def)

lemma acks_wf_queue_ack:
  assumes "acks_wf p"
  shows "acks_wf (queue_ack p c s)"
proof -
  have "ack_wf (record_ack s a)" if "ack_wf a" "valid_seq s" for a using that by (rule window.record_wf)
  then show ?thesis using assms
    by (auto simp: acks_wf_def queue_ack_def Let_def valid_seq_def not_le split: option.split if_splits)
qed

lemma inv_receive:
  assumes inv: "link_inv c l" and i: "i < lk_sent l" "lk_base l < i + 16384"
  shows "link_inv c (l\<lparr>lk_receiver := queue_ack (lk_receiver l) c (seq_of i),
      lk_base := max (lk_base l) (i - 127), lk_got := insert i (lk_got l)\<rparr>)"
proof -
  obtain js where js: "flying (lk_sent l) (in_flight (lk_sender l) c) js" "\<forall>j\<in>set js. lk_base l \<le> j"
    "\<forall>i<lk_sent l. i \<in> lk_got l \<or> i \<in> set js" using inv by (auto simp: link_inv_def)
  have t: "window.tracks (max (lk_base l) (i - 127)) (insert i (lk_got l)) (ack_of (queue_ack (lk_receiver l) c (seq_of i)) c)"
    unfolding ack_of_queue_ack[OF valid_seq_of]
    by (rule window.tracks_record) (use inv i sent_bound[OF inv] in \<open>auto simp: link_inv_def\<close>)
  have "\<forall>j\<in>set js. max (lk_base l) (i - 127) \<le> j" using js i by (auto simp: flying_def)
  moreover have "genuine_ack c (l\<lparr>lk_receiver := r, lk_base := max (lk_base l) (i - 127),
      lk_got := insert i (lk_got l)\<rparr>) x" if "genuine_ack c l x" for x r
    using that by (fastforce simp: genuine_ack_def)
  ultimately show ?thesis using inv js i t acks_wf_queue_ack[of "lk_receiver l" c "seq_of i"]
    by (auto simp: link_inv_def)
qed

lemma inv_acknowledge:
  assumes "link_inv c l" and "a = ack_of (lk_receiver l) c"
  shows "link_inv c (l\<lparr>lk_acks := insert (lk_base l, build_ack_packet n c (window_start a) (ack_bits a)) (lk_acks l)\<rparr>)"
proof -
  have "genuine_ack c (l\<lparr>lk_acks := X\<rparr>) x \<longleftrightarrow> genuine_ack c l x" for x X by (simp add: genuine_ack_def)
  moreover have "genuine_ack c l (lk_base l, build_ack_packet n c (window_start a) (ack_bits a))"
    using assms by (auto simp: genuine_ack_def link_inv_def)
  ultimately show ?thesis using assms(1) by (auto simp: link_inv_def)
qed

text \<open>What an acknowledgement packet does to the packets in flight on its channel.\<close>

lemma ack_packet_queue:
  assumes "send_window (in_flight p c)" and "ack_wf a" and "c mod 4 \<noteq> 3" and "in_flight p c \<noteq> []"
  shows "in_flight (fst (process_ack p (build_ack_packet n c (window_start a) (ack_bits a)) stats)) c =
    (if in_window (window_start a) (pr_sequence (hd (in_flight p c)))
     then filter (\<lambda>item. pr_sequence item \<notin> recorded a) (in_flight p c) else in_flight p c)"
proof -
  have q: "pending_reliable p c = Some (in_flight p c)"
    using assms(4) by (auto simp: in_flight_def queue_of_def split: option.splits)
  show ?thesis
  proof (cases "in_window (window_start a) (pr_sequence (hd (in_flight p c)))")
    case True
    have "in_flight (p\<lparr>pending_reliable := put_queue m c r, pending_total := t\<rparr>) c = r" for m r t
      by (simp add: in_flight_def)
    then show ?thesis
      using process_ack_releases[OF q assms(4,1,2,3) True] True by simp
  next
    case False
    then show ?thesis using assms(2-4) q
      by (cases "in_flight p c") (auto simp: process_window_ack_packet process_window_ack_def in_window_def
          Let_def DEFAULT_WINDOW_SIZE_def in_flight_def split: if_splits)
  qed
qed

lemma flying_filter:
  assumes "flying n q js"
  shows "flying n (filter (\<lambda>item. pr_sequence item \<notin> S) q) (filter (\<lambda>j. seq_of j \<notin> S) js)"
proof -
  have "map pr_sequence (filter (\<lambda>item. pr_sequence item \<notin> S) q) = filter (\<lambda>s. s \<notin> S) (map pr_sequence q)"
    by (simp add: filter_map comp_def)
  also have "\<dots> = map seq_of (filter (\<lambda>j. seq_of j \<notin> S) js)"
    using assms by (simp add: flying_def filter_map comp_def)
  finally show ?thesis using assms by (auto simp: flying_def sorted_wrt_filter)
qed

lemma in_flight_window:
  assumes "send_inv p" and "c mod 4 \<noteq> 3"
  shows "send_window (in_flight p c)"
  using assms in_flight_send_window by (auto simp: send_inv_def windows_ok_def in_flight_def)

lemma acknowledged_got:
  assumes t: "window.tracks w R a" and j: "w \<le> j" "j < w + 16384" and s: "seq_of j \<in> recorded a"
  shows "j \<in> R"
proof -
  obtain i where i: "i \<in> R" "w \<le> i" "i < w + 128" "seq_of j = seq_of i"
    using t s by (auto simp: window.tracks_def)
  then have "j = i" using j by (intro seq_of_inject) simp_all
  then show ?thesis using i by simp
qed

lemma inv_deliver:
  assumes inv: "link_inv c l" and c: "c mod 4 \<noteq> 3" and w: "(w, bytes) \<in> lk_acks l" "lk_sent l < w + 16384"
  shows "link_inv c (l\<lparr>lk_sender := fst (process_ack (lk_sender l) bytes stats)\<rparr>)" (is "link_inv c (l\<lparr>lk_sender := ?p\<rparr>)")
proof -
  have si: "send_inv (lk_sender l)" using inv by (simp add: link_inv_def)
  obtain a n R where a: "bytes = build_ack_packet n c (window_start a) (ack_bits a)" "window.tracks w R a"
    "R \<subseteq> lk_got l" "w \<le> lk_base l"
    using inv w(1) by (auto simp: link_inv_def genuine_ack_def)
  obtain js where js: "flying (lk_sent l) (in_flight (lk_sender l) c) js" "\<forall>j\<in>set js. lk_base l \<le> j"
    "\<forall>i<lk_sent l. i \<in> lk_got l \<or> i \<in> set js" using inv by (auto simp: link_inv_def)
  have same: "connection_number ?p = connection_number (lk_sender l)" "channel_next ?p c = channel_next (lk_sender l) c"
    by (simp_all add: process_ack_def process_sequenced_ack_def process_window_ack_def Let_def channel_next_def
        split: option.split)
  have "\<exists>js'. flying (lk_sent l) (in_flight ?p c) js' \<and> (\<forall>j\<in>set js'. lk_base l \<le> j) \<and>
      (\<forall>i<lk_sent l. i \<in> lk_got l \<or> i \<in> set js')"
  proof (cases "in_flight ?p c = in_flight (lk_sender l) c")
    case True
    then show ?thesis using js by auto
  next
    case False
    have ne: "in_flight (lk_sender l) c \<noteq> []"
      using False process_ack_queue[of "lk_sender l" bytes stats c] by (auto simp: in_flight_def)
    have p: "in_flight ?p c = filter (\<lambda>item. pr_sequence item \<notin> recorded a) (in_flight (lk_sender l) c)"
      using ack_packet_queue[OF in_flight_window[OF si c] _ c ne, of a n stats] a False
      by (auto simp: window.tracks_def split: if_splits)
    have "j \<in> lk_got l" if "j \<in> set js" "seq_of j \<in> recorded a" for j
    proof -
      have "w \<le> j" "j < w + 16384" using that js w(2) a(4) by (auto simp: flying_def)
      then show ?thesis using acknowledged_got[OF a(2)] that a(3) by blast
    qed
    then show ?thesis using flying_filter[OF js(1), of "recorded a"] js
      by (auto simp: p intro!: exI[of _ "filter (\<lambda>j. seq_of j \<notin> recorded a) js"])
  qed
  then show ?thesis using inv process_ack_send_inv[OF si] same by (auto simp: link_inv_def genuine_ack_def)
qed

lemma link_inv_step:
  assumes "link_step c l l'" and "link_inv c l" and "c mod 4 \<noteq> 3"
  shows "link_inv c l'"
  using assms
  by (cases rule: link_step.cases)
    (auto intro: inv_enqueue inv_dispatch inv_receive inv_acknowledge inv_deliver)

lemma reachable_inv:
  assumes "reachable_link c l" and "c mod 4 \<noteq> 3"
  shows "link_inv c l"
  using assms by (induction rule: reachable_link.induct) (auto intro: link_inv_init link_inv_step)

section \<open>Properties\<close>

text \<open>
  C1. In every reachable state of a windowed reliable channel, over a network that loses,
  repeats and reorders packets and acknowledgements, a packet that was sent and that the receiver has
  not recorded is still held by the sender for retransmission; and the receiver's window never moves
  past the oldest packet the sender still holds.
\<close>

theorem no_packet_released_unreceived:
  assumes "reachable_link c l" and "c mod 4 \<noteq> 3" and "i < lk_sent l" and "i \<notin> lk_got l"
  shows "seq_of i \<in> pr_sequence ` set (in_flight (lk_sender l) c) \<and> lk_base l \<le> i"
proof -
  obtain js where "flying (lk_sent l) (in_flight (lk_sender l) c) js" "\<forall>j\<in>set js. lk_base l \<le> j" "i \<in> set js"
    using reachable_inv[OF assms(1,2)] assms(3,4) by (auto simp: link_inv_def)
  moreover from this have "seq_of i \<in> set (map pr_sequence (in_flight (lk_sender l) c))"
    by (auto simp: flying_def)
  ultimately show ?thesis by simp
qed

definition demo_sender :: peer_state where
  "demo_sender = snd (enqueue_reliable_batch (new_peer 0 0) [(0, ReliableOrdered, [1]), (0, ReliableOrdered, [2])])"

definition demo_sent :: peer_state where
  "demo_sent = fst (snd (dispatch_queued 0 [2] demo_sender None))"

definition demo_link :: link where
  "demo_link = \<lparr>lk_sender = demo_sent, lk_receiver = new_peer 0 0,
     lk_sent = 0 + (length (in_flight demo_sent 2) - length (in_flight demo_sender 2)),
     lk_base = 0, lk_got = {}, lk_acks = {}\<rparr>"

lemma demo_flight: "map pr_sequence (in_flight demo_sent 2) = [0, 1]" "in_flight demo_sender 2 = []"
  by (simp_all add: demo_sent_def demo_sender_def in_flight_def dispatch_queued_def take_windows.simps
      enqueue_reliable_batch_def plan_packet_def is_reliable_delivery_def header_sizes peer_limits
      plan_bytes_def plan_packets_def publish_entry_def push_queue_def queue_of_def delivery_channel_id_def
      dequeue_reliable_window_def reliable_window_capacity_def front_sequence_def channel_next_def new_peer_def
      build_queued_reliable_packet_def next_channel_sequence_def record_pending_reliable_def Let_def
      next_sequence_def MAX_SEQUENCE_def DEFAULT_WINDOW_SIZE_def)

lemma demo_reachable: "reachable_link 2 demo_link"
proof -
  let ?i = "link_init 0"
  obtain ok where e: "enqueue_reliable_batch (lk_sender ?i) [(0, ReliableOrdered, [1]), (0, ReliableOrdered, [2])] =
      (ok, demo_sender)"
    unfolding demo_sender_def link_init_def by (metis link.select_convs(1) prod.collapse)
  obtain ps st where d: "dispatch_queued 0 [2] demo_sender None = (ps, demo_sent, st)"
    unfolding demo_sent_def by (metis prod.collapse)
  have "reachable_link 2 ?i" by (rule reachable_link.init) simp
  then have "reachable_link 2 (?i\<lparr>lk_sender := demo_sender\<rparr>)"
    by (rule reachable_link.step) (rule link_step.enqueue[OF e])
  then have "reachable_link 2 ((?i\<lparr>lk_sender := demo_sender\<rparr>)\<lparr>lk_sender := demo_sent,
      lk_sent := lk_sent (?i\<lparr>lk_sender := demo_sender\<rparr>) + (length (in_flight demo_sent 2) -
        length (in_flight (lk_sender (?i\<lparr>lk_sender := demo_sender\<rparr>)) 2))\<rparr>)"
    by (rule reachable_link.step) (rule link_step.dispatch, use d in simp_all)
  then show ?thesis by (simp add: demo_link_def link_init_def)
qed

theorem no_packet_released_unreceived_witness:
  "seq_of 1 \<in> pr_sequence ` set (in_flight (lk_sender demo_link) 2) \<and> lk_base demo_link \<le> 1"
proof (rule no_packet_released_unreceived[OF demo_reachable])
  show "1 < lk_sent demo_link"
    using arg_cong[OF demo_flight(1), of length] demo_flight(2) by (simp add: demo_link_def)
qed (simp_all add: demo_link_def)

text \<open>
  C2. The acknowledgement of a packet in flight is never refused: in every reachable state,
  when the receiver takes any packet that the sender still holds and the acknowledgement built right
  after reaches the sender, the packet is released. In particular a lost acknowledgement cannot block the
  window for good, since the retransmission is acknowledged again.
\<close>

theorem acknowledgement_of_flying_packet_releases_it:
  assumes "reachable_link c l" and "c mod 4 \<noteq> 3" and "item \<in> set (in_flight (lk_sender l) c)"
  shows "let a = ack_of (queue_ack (lk_receiver l) c (pr_sequence item)) c;
             s = fst (process_ack (lk_sender l) (build_ack_packet n c (window_start a) (ack_bits a)) stats)
    in pr_sequence item \<notin> pr_sequence ` set (in_flight s c)"
proof -
  have inv: "link_inv c l" by (rule reachable_inv[OF assms(1,2)])
  obtain js where js: "flying (lk_sent l) (in_flight (lk_sender l) c) js" "\<forall>j\<in>set js. lk_base l \<le> j"
    using inv by (auto simp: link_inv_def)
  have "pr_sequence item \<in> seq_of ` set js"
    using assms(3) js(1) unfolding flying_def by (metis image_eqI list.set_map)
  then obtain i where i: "i \<in> set js" "pr_sequence item = seq_of i" by blast
  have ib: "i < lk_sent l" "lk_base l \<le> i" using js i by (auto simp: flying_def)
  let ?w = "max (lk_base l) (i - 127)" and ?a = "ack_of (queue_ack (lk_receiver l) c (seq_of i)) c"
  have t: "window.tracks ?w (insert i (lk_got l)) ?a"
    using inv_receive[OF inv ib(1)] ib(2) by (simp add: link_inv_def)
  have wi: "?w \<le> i" "i < ?w + 128" using ib by auto
  then have rec: "seq_of i \<in> recorded ?a" using t by (auto simp: window.tracks_def)
  have ne: "in_flight (lk_sender l) c \<noteq> []" using assms(3) by auto
  have nej: "js \<noteq> []" using i(1) by auto
  have h: "pr_sequence (hd (in_flight (lk_sender l) c)) = seq_of (hd js)"
    using js(1) ne nej by (cases js; cases "in_flight (lk_sender l) c") (auto simp: flying_def)
  have "hd js \<le> i" using js(1) i(1) nej by (cases js) (auto simp: flying_def)
  moreover have "?w \<le> hd js" using js nej ib by (cases js) (auto simp: flying_def)
  ultimately have "in_window (seq_of ?w) (seq_of (hd js))"
    using wi in_window_seq_of[of "hd js" ?w] by auto
  then have "in_flight (fst (process_ack (lk_sender l) (build_ack_packet n c (window_start ?a) (ack_bits ?a)) stats)) c =
      filter (\<lambda>item. pr_sequence item \<notin> recorded ?a) (in_flight (lk_sender l) c)"
    using ack_packet_queue[OF in_flight_window _ assms(2) ne, of ?a n stats] inv assms(2) t
    by (auto simp: link_inv_def window.tracks_def h)
  then show ?thesis using rec by (auto simp: i(2) Let_def)
qed

theorem acknowledgement_of_flying_packet_releases_it_witness:
  "let a = ack_of (queue_ack (lk_receiver demo_link) 2 (pr_sequence (hd (in_flight (lk_sender demo_link) 2)))) 2;
       s = fst (process_ack (lk_sender demo_link) (build_ack_packet 0 2 (window_start a) (ack_bits a)) None)
    in pr_sequence (hd (in_flight (lk_sender demo_link) 2)) \<notin> pr_sequence ` set (in_flight s 2)"
proof (rule acknowledgement_of_flying_packet_releases_it[OF demo_reachable])
  have "in_flight demo_sent 2 \<noteq> []" using demo_flight(1) by auto
  then show "hd (in_flight (lk_sender demo_link) 2) \<in> set (in_flight (lk_sender demo_link) 2)"
    by (simp add: demo_link_def)
qed simp

end
