(* ===== verification/ReceiveWindow.thy ===== *)
theory ReceiveWindow
  imports ReliableProtocol Assoc
begin

text \<open>
  The receive cursors of the reliable channels (\<open>UnorderedReceiveState\<close> and \<open>OrderedReceiveState\<close> of
  \<open>basis-transport/src/lib.rs\<close>). A slot of the 128-entry array remembers the last sequence number
  committed at its position. The lemmas relate an unordered cursor to the set of unbounded indices
  that it has committed, and show that a number is accepted exactly when its index is in the window and
  new.
\<close>

section \<open>Slots\<close>

definition slot_holds :: "u16 option list \<Rightarrow> u16 \<Rightarrow> bool" where
  "slot_holds slots sequence \<longleftrightarrow> slots ! (unat sequence mod DEFAULT_WINDOW_SIZE) = Some sequence"

definition slot_store :: "u16 \<Rightarrow> u16 option list \<Rightarrow> u16 option list" where
  "slot_store sequence slots = slots[unat sequence mod DEFAULT_WINDOW_SIZE := Some sequence]"

section \<open>UnorderedReceiveState\<close>

record unordered_receive =
  un_expected :: u16
  un_received :: "u16 option list"

definition unordered_default :: unordered_receive where
  "unordered_default = \<lparr>un_expected = 0, un_received = replicate DEFAULT_WINDOW_SIZE None\<rparr>"

definition unordered_contains :: "unordered_receive \<Rightarrow> u16 \<Rightarrow> bool" where
  "unordered_contains st sequence = slot_holds (un_received st) sequence"

text \<open>
  The loop of \<open>commit\<close> ends because two numbers that are 128 apart share a slot: among 129 numbers in a
  row one is missing.
\<close>

lemma iterate_next: "(next_sequence ^^ Suc k) e = seq_plus (next_sequence e) k"
proof (induction k)
  case 0
  then show ?case by (simp add: seq_plus_0)
next
  case (Suc k)
  then show ?case by (simp add: next_sequence_plus)
qed

lemma slot_gap: "\<exists>k. \<not> slot_holds slots ((next_sequence ^^ k) e)"
proof (rule ccontr)
  assume "\<nexists>k. \<not> slot_holds slots ((next_sequence ^^ k) e)"
  then have all: "slot_holds slots ((next_sequence ^^ Suc k) e)" for k by blast
  let ?a = "seq_plus (next_sequence e) 0" and ?b = "seq_plus (next_sequence e) 128"
  have "slot_holds slots ?a" "slot_holds slots ?b" using all[of 0] all[of 128] iterate_next by metis+
  moreover have "unat ?b mod 128 = unat ?a mod 128" by (simp add: unat_seq_plus mod_mod_cancel)
  ultimately have "?a = ?b" by (simp add: slot_holds_def DEFAULT_WINDOW_SIZE_def)
  then show False using seq_plus_inject[of "next_sequence e" 0 128] by simp
qed

function advance :: "u16 option list \<Rightarrow> u16 \<Rightarrow> u16" where
  "advance slots e = (if slot_holds slots e then advance slots (next_sequence e) else e)"
  by auto
termination
proof (relation "measure (\<lambda>(slots, e). LEAST k. \<not> slot_holds slots ((next_sequence ^^ k) e))")
  fix slots :: "u16 option list" and e
  assume h: "slot_holds slots e"
  let ?P = "\<lambda>e k. \<not> slot_holds slots ((next_sequence ^^ k) e)"
  let ?k = "LEAST k. ?P e k"
  have p: "?P e ?k" using slot_gap by (rule LeastI_ex)
  then obtain j where j: "?k = Suc j" using h by (cases ?k) auto
  then have "?P (next_sequence e) j" using p by (simp add: funpow_Suc_right del: funpow.simps)
  then have "(LEAST k. ?P (next_sequence e) k) \<le> j" by (rule Least_le)
  then show "((slots, next_sequence e), (slots, e)) \<in> measure (\<lambda>(slots, e). LEAST k. \<not> slot_holds slots ((next_sequence ^^ k) e))"
    using j by simp
qed simp

declare advance.simps [simp del]

definition unordered_commit :: "unordered_receive \<Rightarrow> u16 \<Rightarrow> unordered_receive" where
  "unordered_commit st sequence =
     (let received = slot_store sequence (un_received st)
      in \<lparr>un_expected = advance received (un_expected st), un_received = received\<rparr>)"

section \<open>OrderedReceiveState\<close>

record 'm ordered_receive =
  or_expected :: u16
  or_committed :: "u16 option list"
  or_future :: "(u16 \<times> 'm) list"

definition ordered_default :: "'m ordered_receive" where
  "ordered_default = \<lparr>or_expected = 0, or_committed = replicate DEFAULT_WINDOW_SIZE None, or_future = []\<rparr>"

definition is_committed :: "'m ordered_receive \<Rightarrow> u16 \<Rightarrow> bool" where
  "is_committed st sequence = slot_holds (or_committed st) sequence"

definition ordered_commit :: "'m ordered_receive \<Rightarrow> u16 \<Rightarrow> 'm ordered_receive" where
  "ordered_commit st sequence =
     st\<lparr>or_committed := slot_store sequence (or_committed st), or_expected := next_sequence sequence\<rparr>"

section \<open>An unordered cursor as a set of indices\<close>

text \<open>
  \<open>slots_ok e R\<close>: everything before index \<open>e\<close> and nothing 128 or more after it is in \<open>R\<close>, and each slot
  holds the greatest index of \<open>R\<close> at its position. \<open>seen e R\<close>: besides, the cursor stands at \<open>e\<close>, the
  first index not in \<open>R\<close>.
\<close>

definition slots_ok :: "nat \<Rightarrow> nat set \<Rightarrow> u16 option list \<Rightarrow> bool" where
  "slots_ok e R slots \<longleftrightarrow> length slots = 128 \<and> (\<forall>i<e. i \<in> R) \<and> (\<forall>i\<in>R. i < e + 128) \<and>
     (\<forall>p<128. slots ! p =
        (if \<exists>i\<in>R. i mod 128 = p then Some (seq_of (Max {i \<in> R. i mod 128 = p})) else None))"

definition seen :: "nat \<Rightarrow> nat set \<Rightarrow> unordered_receive \<Rightarrow> bool" where
  "seen e R st \<longleftrightarrow> un_expected st = seq_of e \<and> slots_ok e R (un_received st) \<and> e \<notin> R"

lemma seen_default: "seen 0 {} unordered_default"
  by (simp add: seen_def slots_ok_def unordered_default_def seq_of_def seq_plus_def DEFAULT_WINDOW_SIZE_def)

lemma slots_finite: "slots_ok e R slots \<Longrightarrow> finite R"
  by (rule finite_subset[of _ "{..<e + 128}"]) (auto simp: slots_ok_def)

text \<open>The greatest index at a position is at most 128 before the window.\<close>

lemma slots_latest:
  assumes s: "slots_ok e R slots" and i: "i \<in> R"
  shows "Max {j \<in> R. j mod 128 = i mod 128} \<in> R" and "i \<le> Max {j \<in> R. j mod 128 = i mod 128}"
    and "e \<le> Max {j \<in> R. j mod 128 = i mod 128} + 128"
    and "Max {j \<in> R. j mod 128 = i mod 128} mod 128 = i mod 128"
    and "Max {j \<in> R. j mod 128 = i mod 128} < e + 128"
proof -
  let ?m = "Max {j \<in> R. j mod 128 = i mod 128}"
  let ?S = "{j \<in> R. j mod 128 = i mod 128}"
  have f: "finite ?S" "?S \<noteq> {}" using slots_finite[OF s] i by auto
  show m: "?m \<in> R" and r: "?m mod 128 = i mod 128" using Max_in[OF f] by auto
  show "i \<le> ?m" using f i by (intro Max_ge) auto
  show "?m < e + 128" using s m by (auto simp: slots_ok_def)
  show "e \<le> ?m + 128"
  proof (rule ccontr)
    assume "\<not> e \<le> ?m + 128"
    then have "?m + 128 \<in> R" using s by (auto simp: slots_ok_def)
    then have "?m + 128 \<in> ?S" using r by simp
    then have "?m + 128 \<le> ?m" using f(1) by (intro Max_ge)
    then show False by simp
  qed
qed

lemma slots_hold:
  assumes s: "slots_ok e R slots" and near: "i < e + 16384" "e < i + 16384"
  shows "slot_holds slots (seq_of i) \<longleftrightarrow> i \<in> R \<and> i = Max {j \<in> R. j mod 128 = i mod 128}"
proof -
  have p: "unat (seq_of i) mod 128 = i mod 128" by (simp add: unat_seq_of mod_mod_cancel)
  let ?S = "{j \<in> R. j mod 128 = i mod 128}"
  have slot: "slots ! (i mod 128) = (if \<exists>j\<in>R. j mod 128 = i mod 128 then Some (seq_of (Max ?S)) else None)"
    using s by (simp add: slots_ok_def)
  show ?thesis
  proof (cases "?S = {}")
    case True
    then show ?thesis using slot by (auto simp: slot_holds_def p DEFAULT_WINDOW_SIZE_def)
  next
    case False
    then obtain j where j: "j \<in> R" "j mod 128 = i mod 128" by auto
    note l = slots_latest[OF s j(1), unfolded j(2)]
    have "seq_of (Max ?S) = seq_of i \<longleftrightarrow> Max ?S = i"
      using seq_of_inject[of "Max ?S" i] l near by auto
    moreover have "i \<in> R" if "Max ?S = i" using l(1) that by simp
    ultimately show ?thesis using slot j by (auto simp: slot_holds_def p DEFAULT_WINDOW_SIZE_def)
  qed
qed

text \<open>A number inside the window is held exactly when its index has been committed.\<close>

lemma slots_in_window:
  assumes s: "slots_ok e R slots" and w: "e \<le> i" "i \<le> e + 128"
  shows "slot_holds slots (seq_of i) \<longleftrightarrow> i \<in> R"
proof -
  have "i = Max {j \<in> R. j mod 128 = i mod 128}" if i: "i \<in> R"
  proof -
    let ?m = "Max {j \<in> R. j mod 128 = i mod 128}"
    note l = slots_latest[OF s i]
    have "?m - i < 128" "i + (?m - i) = ?m" using l(2,5) w by linarith+
    then have "?m - i = 0" using mod_shift_inject[of i "?m - i" 128 0] l(4) by simp
    then show ?thesis using l(2) by simp
  qed
  then show ?thesis using slots_hold[OF s, of i] w by auto
qed

lemma slots_insert:
  assumes s: "slots_ok e R slots" and w: "e \<le> i" "i < e + 128"
  shows "slots_ok e (insert i R) (slot_store (seq_of i) slots)"
proof -
  have p: "unat (seq_of i) mod 128 = i mod 128" by (simp add: unat_seq_of mod_mod_cancel)
  have top: "j \<le> i" if "j \<in> R" "j mod 128 = i mod 128" for j
  proof (rule ccontr)
    assume "\<not> j \<le> i"
    then have "i + (j - i) = j" "j - i < 128" using that s w by (auto simp: slots_ok_def)
    then have "j - i = 0" using mod_shift_inject[of i "j - i" 128 0] that(2) by simp
    then show False using \<open>\<not> j \<le> i\<close> by simp
  qed
  have "slot_store (seq_of i) slots ! q =
      (if \<exists>j\<in>insert i R. j mod 128 = q then Some (seq_of (Max {j \<in> insert i R. j mod 128 = q})) else None)"
    if q: "q < 128" for q
  proof (cases "q = i mod 128")
    case True
    have "Max {j \<in> insert i R. j mod 128 = q} = i"
      using top True slots_finite[OF s] by (intro Max_eqI) auto
    then show ?thesis using True s p by (auto simp: slot_store_def slots_ok_def DEFAULT_WINDOW_SIZE_def)
  next
    case False
    then have "{j \<in> insert i R. j mod 128 = q} = {j \<in> R. j mod 128 = q}" by auto
    then show ?thesis using False s p q by (auto simp: slot_store_def slots_ok_def DEFAULT_WINDOW_SIZE_def)
  qed
  then show ?thesis using s w by (auto simp: slots_ok_def slot_store_def)
qed

lemma advance_index:
  assumes s: "slots_ok e R slots" and k: "e \<le> k" "k \<le> e + 128" "\<forall>i<k. i \<in> R"
  shows "\<exists>m. advance slots (seq_of k) = seq_of m \<and> k \<le> m \<and> m \<notin> R \<and> (\<forall>i<m. i \<in> R)"
  using k
proof (induction "e + 128 - k" arbitrary: k)
  case 0
  then have "k \<notin> R" using s by (auto simp: slots_ok_def)
  then show ?case using 0 slots_in_window[OF s, of k] by (subst advance.simps) auto
next
  case (Suc n)
  show ?case
  proof (cases "k \<in> R")
    case True
    have "\<exists>m. advance slots (seq_of (Suc k)) = seq_of m \<and> Suc k \<le> m \<and> m \<notin> R \<and> (\<forall>i<m. i \<in> R)"
      using Suc True by (intro Suc.hyps(1)) (auto simp: less_Suc_eq)
    then show ?thesis using True Suc.prems slots_in_window[OF s, of k]
      by (subst advance.simps) (auto simp: next_seq_of)
  next
    case False
    then show ?thesis using Suc.prems slots_in_window[OF s, of k] by (subst advance.simps) auto
  qed
qed

lemma seen_commit:
  assumes s: "seen e R st" and w: "e \<le> i" "i < e + 128"
  obtains m where "seen m (insert i R) (unordered_commit st (seq_of i))" "e \<le> m"
proof -
  have ok: "slots_ok e (insert i R) (slot_store (seq_of i) (un_received st))"
    using s w by (intro slots_insert) (auto simp: seen_def)
  obtain m where m: "advance (slot_store (seq_of i) (un_received st)) (seq_of e) = seq_of m" "e \<le> m"
    "m \<notin> insert i R" "\<forall>j<m. j \<in> insert i R"
    using advance_index[OF ok, of e] ok by (auto simp: slots_ok_def)
  have "slots_ok m (insert i R) (slot_store (seq_of i) (un_received st))"
    using ok m by (auto simp: slots_ok_def intro: less_le_trans)
  then have "seen m (insert i R) (unordered_commit st (seq_of i))"
    using s m by (simp add: seen_def unordered_commit_def Let_def)
  then show ?thesis using that m(2) by blast
qed

end
