(* ===== verification/ReceivePath.thy ===== *)
theory ReceivePath
  imports ReceiveWindow FragmentAssembly
begin

text \<open>
  The admission of reliable packets at the receiver (\<open>admit_reliable_ordered\<close>,
  \<open>deliver_ordered_event_with_realtime\<close>, \<open>drain_ordered_state\<close>, \<open>drain_ordered_peer\<close> and
  \<open>admit_reliable_unordered\<close> of \<open>basis-transport/src/lib.rs\<close>).

  What the surrounding system decides while such a function runs is an environment: turn number \<open>t\<close> of
  \<open>env\<close> says whether the realtime handler consumes the event, whether the session is still current and
  its gate open after that callback, whether the gate is open when the commit asks for it (\<open>with_open\<close>)
  and right after, and what the bounded event channel answers. Each consultation takes the next turn, so
  the theorems hold for every interleaving with other tasks that these answers can stand for. Counters of
  the extended statistics are left out.
\<close>

section \<open>State\<close>

datatype reserve_answer = Permit | Full | Closed

record turn =
  tn_consumed :: bool
  tn_open :: bool
  tn_commit :: bool
  tn_after :: bool
  tn_answer :: reserve_answer

record retained_message =
  rm_payload :: bytes
  rm_fragment :: "incoming_fragment option"
  rm_budgets :: "reorder_token list"

text \<open>A delivered message: it was consumed by the realtime handler or went into the event channel with its lease, and its number was committed. The log
\<open>rx_log\<close> is the list of these committed deliveries. The source calls the handler before it commits; a message that the handler consumes while the
gate of its session closes is not committed and not acknowledged, and has no entry in the log.\<close>

record handled =
  hd_channel_id :: u8
  hd_delivery :: DeliveryMethod
  hd_payload :: bytes
  hd_consumed :: bool
  hd_permit :: "admission_permit option"

record rx_state =
  rx_id :: nat
  rx_peer :: peer_state
  rx_ordered :: "u8 \<rightharpoonup> retained_message ordered_receive"
  rx_unordered :: "u8 \<rightharpoonup> unordered_receive"
  rx_fragments :: fragment_state
  rx_budget :: reorder_budget
  rx_reorder_active :: bool
  rx_admission :: "ordered_admission option"
  rx_log :: "handled list"
  rx_turn :: nat

datatype rx_error = InvalidFragment | EventChannelClosed

definition MAX_ORDERED_REORDER_AHEAD :: nat where "MAX_ORDERED_REORDER_AHEAD = DEFAULT_WINDOW_SIZE - 1"
definition MAX_ORDERED_DRAIN_PER_PEER_PER_PASS :: nat where "MAX_ORDERED_DRAIN_PER_PEER_PER_PASS = 256"

definition get_ordered :: "rx_state \<Rightarrow> u8 \<Rightarrow> retained_message ordered_receive" where
  "get_ordered s c = (case rx_ordered s c of None \<Rightarrow> ordered_default | Some st \<Rightarrow> st)"

definition set_ordered :: "u8 \<Rightarrow> retained_message ordered_receive \<Rightarrow> rx_state \<Rightarrow> rx_state" where
  "set_ordered c st s = s\<lparr>rx_ordered := (rx_ordered s)(c \<mapsto> st)\<rparr>"

definition get_unordered :: "rx_state \<Rightarrow> u8 \<Rightarrow> unordered_receive" where
  "get_unordered s c = (case rx_unordered s c of None \<Rightarrow> unordered_default | Some st \<Rightarrow> st)"

definition set_unordered :: "u8 \<Rightarrow> unordered_receive \<Rightarrow> rx_state \<Rightarrow> rx_state" where
  "set_unordered c st s = s\<lparr>rx_unordered := (rx_unordered s)(c \<mapsto> st)\<rparr>"

definition take_turn :: "(nat \<Rightarrow> turn) \<Rightarrow> rx_state \<Rightarrow> turn \<times> rx_state" where
  "take_turn env s = (env (rx_turn s), s\<lparr>rx_turn := Suc (rx_turn s)\<rparr>)"

definition rx_ack :: "u8 \<Rightarrow> u16 \<Rightarrow> rx_state \<Rightarrow> rx_state" where
  "rx_ack c sequence s = s\<lparr>rx_peer := queue_ack (rx_peer s) c sequence\<rparr>"

definition rx_commit :: "u8 \<Rightarrow> u16 \<Rightarrow> rx_state \<Rightarrow> rx_state" where
  "rx_commit c sequence s = set_ordered c (ordered_commit (get_ordered s c) sequence) s"

definition retain :: "u8 \<Rightarrow> u16 \<Rightarrow> retained_message \<Rightarrow> rx_state \<Rightarrow> rx_state" where
  "retain c sequence m s =
     (let st = get_ordered s c in set_ordered c (st\<lparr>or_future := put_key sequence m (or_future st)\<rparr>) s)"

definition rx_drop :: "reorder_token list \<Rightarrow> rx_state \<Rightarrow> rx_state" where
  "rx_drop ts s = s\<lparr>rx_budget := drop_tokens ts (rx_budget s)\<rparr>"

definition has_buffered :: "rx_state \<Rightarrow> bool" where
  "has_buffered s \<longleftrightarrow>
     list_ex (\<lambda>c. case rx_ordered s c of None \<Rightarrow> False | Some st \<Rightarrow> or_future st \<noteq> []) all_channels"

definition refresh_reorder_active :: "rx_state \<Rightarrow> rx_state" where
  "refresh_reorder_active s = s\<lparr>rx_reorder_active := has_buffered s\<rparr>"

definition buffered_fragment_parts :: "rx_state \<Rightarrow> u8 \<Rightarrow> incoming_fragment \<Rightarrow> bool list" where
  "buffered_fragment_parts s c f =
     map (\<lambda>i. list_ex (\<lambda>(k, m). case rm_fragment m of None \<Rightarrow> False
            | Some g \<Rightarrow> if_id g = if_id f \<and> if_total g = if_total f \<and> unat (if_part g) = i)
          (or_future (get_ordered s c)))
       [0..<unat (if_total f)]"

section \<open>Delivery of the expected message\<close>

definition commit_ack_log ::
    "u8 \<Rightarrow> u16 \<Rightarrow> bytes \<Rightarrow> bool \<Rightarrow> admission_permit option \<Rightarrow> rx_state \<Rightarrow> rx_state" where
  "commit_ack_log c sequence payload consumed permit s =
     (let s1 = rx_ack c sequence (rx_commit c sequence s)
      in s1\<lparr>rx_log := rx_log s1 @ [\<lparr>hd_channel_id = c, hd_delivery = ReliableOrdered, hd_payload = payload,
            hd_consumed = consumed, hd_permit = permit\<rparr>]\<rparr>)"

definition deliver_ordered_event_with_realtime ::
    "turn \<Rightarrow> u8 \<Rightarrow> u16 \<Rightarrow> bytes \<Rightarrow> rx_state \<Rightarrow> (rx_error + bool) \<times> rx_state" where
  "deliver_ordered_event_with_realtime tn c sequence payload s =
     (case rx_admission s of
        Some a \<Rightarrow>
          if \<not> tn_open tn then (Inr False, s)
          else if tn_consumed tn then
            (if tn_commit tn then (Inr True, commit_ack_log c sequence payload True None s) else (Inr False, s))
          else (case admission_reserve (rx_id s) (c div 4) a of
            (None, a1) \<Rightarrow> (Inr False, s\<lparr>rx_admission := Some a1\<rparr>)
          | (Some lease, a1) \<Rightarrow>
              (case tn_answer tn of
                 Full \<Rightarrow> (Inr False, s\<lparr>rx_admission := Some (drop_permit lease a1)\<rparr>)
               | Closed \<Rightarrow> (Inl EventChannelClosed, s\<lparr>rx_admission := Some (drop_permit lease a1)\<rparr>)
               | Permit \<Rightarrow>
                   if tn_commit tn
                   then (Inr True, commit_ack_log c sequence payload False (Some lease) (s\<lparr>rx_admission := Some a1\<rparr>))
                   else (Inr False, s\<lparr>rx_admission := Some (drop_permit lease a1)\<rparr>)))
      | None \<Rightarrow>
          (case tn_answer tn of
             Closed \<Rightarrow> (Inl EventChannelClosed, s)
           | answer \<Rightarrow>
               if \<not> tn_open tn then (Inr False, s)
               else if answer = Full \<and> \<not> tn_consumed tn then (Inr False, s)
               else if tn_commit tn
               then (Inr True, commit_ack_log c sequence payload (tn_consumed tn) None s)
               else (Inr False, s)))"

section \<open>Draining retained messages\<close>

text \<open>
  One round of the loop of \<open>drain_ordered_state\<close>. The outcome says whether the loop goes on
  (\<open>Inr True\<close>: one message was drained), breaks (\<open>Inr False\<close>) or returns an error.
\<close>

definition drain_deliver ::
    "(nat \<Rightarrow> turn) \<Rightarrow> u8 \<Rightarrow> u16 \<Rightarrow> bytes \<Rightarrow> reorder_token list \<Rightarrow> rx_state \<Rightarrow> (rx_error + bool) \<times> rx_state" where
  "drain_deliver env c sequence payload budgets s =
     (let (tn, s0) = take_turn env s
      in if \<not> tn_open tn then (Inr False, rx_drop budgets s0)
         else (case deliver_ordered_event_with_realtime tn c sequence payload s0 of
           (Inl e, s1) \<Rightarrow>
             (Inl e, if tn_after tn
                then (retain c sequence \<lparr>rm_payload = payload, rm_fragment = None, rm_budgets = budgets\<rparr> s1)
                       \<lparr>rx_reorder_active := True\<rparr>
                else rx_drop budgets s1)
         | (Inr False, s1) \<Rightarrow>
             (Inr False, if tn_after tn
                then retain c sequence \<lparr>rm_payload = payload, rm_fragment = None, rm_budgets = budgets\<rparr> s1
                else rx_drop budgets s1)
         | (Inr True, s1) \<Rightarrow> (Inr True, rx_drop budgets s1)))"

definition drain_step ::
    "nat \<Rightarrow> (nat \<Rightarrow> turn) \<Rightarrow> u8 \<Rightarrow> rx_state \<Rightarrow> (rx_error + bool) \<times> rx_state" where
  "drain_step opt_size env c s =
     (let st = get_ordered s c; sequence = or_expected st
      in case map_of (or_future st) sequence of
           None \<Rightarrow> (Inr False, set_ordered c st s)
         | Some m \<Rightarrow>
             let s1 = set_ordered c (st\<lparr>or_future := remove_key sequence (or_future st)\<rparr>) s
             in (case rm_fragment m of
                   None \<Rightarrow> drain_deliver env c sequence (rm_payload m) (rm_budgets m) s1
                 | Some f \<Rightarrow>
                     (case rm_budgets m of
                        [] \<Rightarrow> (Inr False, s1)
                      | budget # rest \<Rightarrow>
                          let s2 = rx_drop rest s1;
                              (out, fs, rb) = insert_fragment opt_size (rx_id s2) c f (rm_payload m) budget
                                 (buffered_fragment_parts s2 c f) (rx_fragments s2) (rx_budget s2);
                              s3 = s2\<lparr>rx_fragments := fs, rx_budget := rb\<rparr>
                          in (case out of
                                Pending \<Rightarrow>
                                  let (tn, s4) = take_turn env s3
                                  in if tn_commit tn then (Inr True, rx_commit c sequence s4) else (Inr False, s4)
                              | Complete payload budgets \<Rightarrow> drain_deliver env c sequence payload budgets s3
                              | Limit p t \<Rightarrow>
                                  (Inr False, retain c sequence \<lparr>rm_payload = p, rm_fragment = Some f, rm_budgets = [t]\<rparr> s3)
                              | Budget p t \<Rightarrow>
                                  (Inr False, retain c sequence \<lparr>rm_payload = p, rm_fragment = Some f, rm_budgets = [t]\<rparr> s3)
                              | Invalid p t \<Rightarrow>
                                  (Inl InvalidFragment,
                                   retain c sequence \<lparr>rm_payload = p, rm_fragment = Some f, rm_budgets = [t]\<rparr> s3)))))"

fun drain_ordered_state ::
    "nat \<Rightarrow> (nat \<Rightarrow> turn) \<Rightarrow> u8 \<Rightarrow> nat \<Rightarrow> rx_state \<Rightarrow> (rx_error + nat) \<times> rx_state" where
  "drain_ordered_state opt_size env c 0 s = (Inr 0, s)"
| "drain_ordered_state opt_size env c (Suc max_messages) s =
     (case drain_step opt_size env c s of
        (Inl e, s1) \<Rightarrow> (Inl e, s1)
      | (Inr False, s1) \<Rightarrow> (Inr 0, s1)
      | (Inr True, s1) \<Rightarrow>
          (case drain_ordered_state opt_size env c max_messages s1 of
             (Inl e, s2) \<Rightarrow> (Inl e, s2)
           | (Inr drained, s2) \<Rightarrow> (Inr (Suc drained), s2)))"

fun drain_channels ::
    "nat \<Rightarrow> (nat \<Rightarrow> turn) \<Rightarrow> u8 list \<Rightarrow> nat \<Rightarrow> rx_state \<Rightarrow> (rx_error + nat) \<times> rx_state" where
  "drain_channels opt_size env [] left s = (Inr 0, s)"
| "drain_channels opt_size env (c # cs) left s =
     (if left = 0 then (Inr 0, s)
      else case drain_ordered_state opt_size env c left s of
        (Inl EventChannelClosed, s1) \<Rightarrow> drain_channels opt_size env cs left s1
      | (Inl e, s1) \<Rightarrow> (Inl e, s1)
      | (Inr n, s1) \<Rightarrow>
          (case drain_channels opt_size env cs (left - n) s1 of
             (Inl e, s2) \<Rightarrow> (Inl e, s2)
           | (Inr drained, s2) \<Rightarrow> (Inr (n + drained), s2)))"

text \<open>\<open>keys\<close> is the order in which the map of channels is walked.\<close>

definition drain_ordered_peer ::
    "nat \<Rightarrow> (nat \<Rightarrow> turn) \<Rightarrow> bool \<Rightarrow> u8 list \<Rightarrow> nat \<Rightarrow> rx_state \<Rightarrow> (rx_error + nat) \<times> rx_state" where
  "drain_ordered_peer opt_size env entry keys max_messages s =
     (if \<not> entry \<or> \<not> rx_reorder_active s then (Inr 0, s)
      else case drain_channels opt_size env keys max_messages s of
        (Inl e, s1) \<Rightarrow> (Inl e, s1)
      | (Inr drained, s1) \<Rightarrow> (Inr drained, refresh_reorder_active s1))"

section \<open>admit\_reliable\_ordered\<close>

definition then_drain ::
    "nat \<Rightarrow> (nat \<Rightarrow> turn) \<Rightarrow> u8 \<Rightarrow> rx_state \<Rightarrow> (rx_error + unit) \<times> rx_state" where
  "then_drain opt_size env c s =
     (case drain_ordered_state opt_size env c MAX_ORDERED_DRAIN_PER_PEER_PER_PASS s of
        (Inl e, s1) \<Rightarrow> (Inl e, s1)
      | (Inr n, s1) \<Rightarrow> (Inr (), refresh_reorder_active s1))"

definition retain_ack :: "(nat \<Rightarrow> turn) \<Rightarrow> u8 \<Rightarrow> u16 \<Rightarrow> retained_message \<Rightarrow> rx_state \<Rightarrow> rx_state" where
  "retain_ack env c sequence m s =
     (let (tn, s1) = take_turn env s
      in if tn_commit tn
         then rx_ack c sequence ((retain c sequence m s1)\<lparr>rx_reorder_active := True\<rparr>)
         else rx_drop (rm_budgets m) s1)"

definition admit_expected_fragment ::
    "nat \<Rightarrow> (nat \<Rightarrow> turn) \<Rightarrow> u8 \<Rightarrow> u16 \<Rightarrow> bytes \<Rightarrow> incoming_fragment \<Rightarrow> rx_state \<Rightarrow> (rx_error + unit) \<times> rx_state" where
  "admit_expected_fragment opt_size env c sequence payload f s =
     (let (out, fs, rb) = offer_fragment opt_size (rx_id s) c f payload (buffered_fragment_parts s c f)
             (rx_fragments s) (rx_budget s);
          s1 = s\<lparr>rx_fragments := fs, rx_budget := rb\<rparr>
      in case out of
           None \<Rightarrow> (Inr (), s1)
         | Some (Invalid p t) \<Rightarrow> (Inl InvalidFragment, rx_drop [t] s1)
         | Some (Limit p t) \<Rightarrow> (Inr (), rx_drop [t] s1)
         | Some (Budget p t) \<Rightarrow> (Inr (), rx_drop [t] s1)
         | Some Pending \<Rightarrow>
             let (tn, s2) = take_turn env s1
             in if tn_commit tn
                then then_drain opt_size env c (rx_ack c sequence (rx_commit c sequence s2))
                else (Inr (), s2)
         | Some (Complete joined budgets) \<Rightarrow>
             let (tn, s2) = take_turn env s1;
                 m = \<lparr>rm_payload = joined, rm_fragment = None, rm_budgets = budgets\<rparr>
             in if \<not> tn_open tn then (Inr (), rx_drop budgets s2)
                else (case deliver_ordered_event_with_realtime tn c sequence joined s2 of
                  (Inl EventChannelClosed, s3) \<Rightarrow> (Inr (), retain_ack env c sequence m s3)
                | (Inl e, s3) \<Rightarrow> (Inl e, rx_drop budgets s3)
                | (Inr True, s3) \<Rightarrow>
                    (case then_drain opt_size env c s3 of (r, s4) \<Rightarrow> (r, rx_drop budgets s4))
                | (Inr False, s3) \<Rightarrow> (Inr (), refresh_reorder_active (retain_ack env c sequence m s3))))"

definition admit_reliable_ordered ::
    "nat \<Rightarrow> (nat \<Rightarrow> turn) \<Rightarrow> bool \<Rightarrow> u8 \<Rightarrow> u16 \<Rightarrow> bytes \<Rightarrow> incoming_fragment option \<Rightarrow> rx_state \<Rightarrow>
     (rx_error + unit) \<times> rx_state" where
  "admit_reliable_ordered opt_size env entry c sequence payload fragment s =
     (if \<not> entry then (Inr (), s)
      else
        let st = get_ordered s c; s = set_ordered c st s
        in if is_committed st sequence \<or> map_of (or_future st) sequence \<noteq> None then
             (let (tn, s1) = take_turn env s
              in (Inr (), if tn_commit tn then rx_ack c sequence s1 else s1))
           else
             let distance = relative_sequence sequence (or_expected st)
             in if distance = 0 then
                  (case fragment of
                     Some f \<Rightarrow> admit_expected_fragment opt_size env c sequence payload f s
                   | None \<Rightarrow>
                       let (tn, s1) = take_turn env s
                       in if \<not> tn_open tn then (Inr (), s1)
                          else (case deliver_ordered_event_with_realtime tn c sequence payload s1 of
                            (Inl e, s2) \<Rightarrow> (Inl e, s2)
                          | (Inr False, s2) \<Rightarrow> (Inr (), s2)
                          | (Inr True, s2) \<Rightarrow> then_drain opt_size env c s2))
                else if distance > 0 \<and> nat distance \<le> MAX_ORDERED_REORDER_AHEAD then
                  (if length (or_future st) \<ge> MAX_ORDERED_REORDER_AHEAD then (Inr (), s)
                   else case try_reserve (rx_id s) (length payload) (rx_budget s) of
                     None \<Rightarrow> (Inr (), s)
                   | Some (budget, rb) \<Rightarrow>
                       (Inr (), retain_ack env c sequence
                          \<lparr>rm_payload = payload, rm_fragment = fragment, rm_budgets = [budget]\<rparr>
                          (s\<lparr>rx_budget := rb\<rparr>)))
                else (Inr (), s))"

section \<open>admit\_reliable\_unordered\<close>

definition commit_unordered :: "u8 \<Rightarrow> u16 \<Rightarrow> rx_state \<Rightarrow> rx_state" where
  "commit_unordered c sequence s =
     rx_ack c sequence (set_unordered c (unordered_commit (get_unordered s c) sequence) s)"

definition log_unordered :: "u8 \<Rightarrow> bytes \<Rightarrow> bool \<Rightarrow> rx_state \<Rightarrow> rx_state" where
  "log_unordered c payload consumed s =
     s\<lparr>rx_log := rx_log s @ [\<lparr>hd_channel_id = c, hd_delivery = ReliableUnordered, hd_payload = payload,
        hd_consumed = consumed, hd_permit = None\<rparr>]\<rparr>"

definition admit_unordered_fragment ::
    "nat \<Rightarrow> (nat \<Rightarrow> turn) \<Rightarrow> u8 \<Rightarrow> u16 \<Rightarrow> bytes \<Rightarrow> incoming_fragment \<Rightarrow> rx_state \<Rightarrow> (rx_error + unit) \<times> rx_state" where
  "admit_unordered_fragment opt_size env c sequence payload f s =
     (let (tn, s) = take_turn env s
      in case tn_answer tn of
           Full \<Rightarrow> (Inr (), s)
         | Closed \<Rightarrow> (Inl EventChannelClosed, s)
         | Permit \<Rightarrow>
             let (out, fs, rb) = offer_fragment opt_size (rx_id s) c f payload [] (rx_fragments s) (rx_budget s);
                 s1 = s\<lparr>rx_fragments := fs, rx_budget := rb\<rparr>
             in (case out of
                   None \<Rightarrow> (Inr (), s1)
                 | Some (Invalid p t) \<Rightarrow> (Inl InvalidFragment, rx_drop [t] s1)
                 | Some (Limit p t) \<Rightarrow> (Inr (), rx_drop [t] s1)
                 | Some (Budget p t) \<Rightarrow> (Inr (), rx_drop [t] s1)
                 | Some Pending \<Rightarrow> (Inr (), commit_unordered c sequence s1)
                 | Some (Complete joined budgets) \<Rightarrow>
                     if \<not> tn_open tn then (Inr (), rx_drop budgets s1)
                     else (Inr (), rx_drop budgets (log_unordered c joined (tn_consumed tn) (commit_unordered c sequence s1)))))"

definition admit_reliable_unordered ::
    "nat \<Rightarrow> (nat \<Rightarrow> turn) \<Rightarrow> bool \<Rightarrow> u8 \<Rightarrow> u16 \<Rightarrow> bytes \<Rightarrow> incoming_fragment option \<Rightarrow> rx_state \<Rightarrow>
     (rx_error + unit) \<times> rx_state" where
  "admit_reliable_unordered opt_size env entry c sequence payload fragment s =
     (if \<not> entry then (Inr (), s)
      else
        let st = get_unordered s c; s = set_unordered c st s
        in if unordered_contains st sequence then (Inr (), rx_ack c sequence s)
           else
             let distance = relative_sequence sequence (un_expected st)
             in if distance < 0 \<or> nat distance \<ge> DEFAULT_WINDOW_SIZE then (Inr (), s)
                else (case fragment of
                  Some f \<Rightarrow>
                    if distance \<noteq> 0 then (Inr (), s)
                    else admit_unordered_fragment opt_size env c sequence payload f s
                | None \<Rightarrow>
                    let (tn, s) = take_turn env s
                    in if tn_answer tn = Closed then (Inl EventChannelClosed, s)
                       else if \<not> tn_open tn \<or> (tn_answer tn = Full \<and> \<not> tn_consumed tn) then (Inr (), s)
                       else (Inr (), log_unordered c payload (tn_consumed tn) (commit_unordered c sequence s))))"

end
