(* ===== verification/ReceiveProofs.thy ===== *)
theory ReceiveProofs
  imports ReceivePath
begin

text \<open>
  Exactly-once and in-order delivery of the admission paths. The sender numbers its packets without bound:
  packet \<open>i\<close> of a channel has payload \<open>msg i\<close>, is a whole message or, if \<open>frag i\<close> is a fragment header, a part of one, and travels under the
  sequence number \<open>seq_of i\<close>.
\<close>

section \<open>What an operation leaves alone\<close>

definition chan_log :: "u8 \<Rightarrow> rx_state \<Rightarrow> bytes list" where
  "chan_log c s = map hd_payload (filter (\<lambda>h. hd_channel_id h = c) (rx_log s))"

lemma get_ordered_simps [simp]:
  "get_ordered (set_ordered d st s) c = (if c = d then st else get_ordered s c)"
  "get_ordered (s\<lparr>rx_budget := b\<rparr>) c = get_ordered s c"
  "get_ordered (s\<lparr>rx_fragments := f\<rparr>) c = get_ordered s c"
  "get_ordered (s\<lparr>rx_reorder_active := a\<rparr>) c = get_ordered s c"
  "get_ordered (s\<lparr>rx_admission := x\<rparr>) c = get_ordered s c"
  "get_ordered (s\<lparr>rx_log := l\<rparr>) c = get_ordered s c"
  "get_ordered (s\<lparr>rx_turn := t\<rparr>) c = get_ordered s c"
  "get_ordered (s\<lparr>rx_peer := p\<rparr>) c = get_ordered s c"
  "get_ordered (rx_ack d q s) c = get_ordered s c"
  "get_ordered (rx_drop ts s) c = get_ordered s c"
  "get_ordered (refresh_reorder_active s) c = get_ordered s c"
  by (simp_all add: get_ordered_def set_ordered_def rx_ack_def rx_drop_def refresh_reorder_active_def)

lemma rx_log_simps [simp]:
  "rx_log (set_ordered d st s) = rx_log s" "rx_log (rx_ack d q s) = rx_log s" "rx_log (rx_drop ts s) = rx_log s"
  "rx_log (refresh_reorder_active s) = rx_log s" "rx_log (retain d q m s) = rx_log s"
  "rx_log (rx_commit d q s) = rx_log s" "rx_log (set_unordered d st' s) = rx_log s"
  "rx_log (commit_unordered d q s) = rx_log s"
  by (simp_all add: set_ordered_def rx_ack_def rx_drop_def refresh_reorder_active_def retain_def rx_commit_def
      set_unordered_def commit_unordered_def Let_def)

lemma get_unordered_simps [simp]:
  "get_unordered (set_unordered d st s) c = (if c = d then st else get_unordered s c)"
  "get_unordered (s\<lparr>rx_budget := b\<rparr>) c = get_unordered s c"
  "get_unordered (s\<lparr>rx_fragments := f\<rparr>) c = get_unordered s c"
  "get_unordered (s\<lparr>rx_turn := t\<rparr>) c = get_unordered s c"
  "get_unordered (rx_ack d q s) c = get_unordered s c"
  "get_unordered (rx_drop ts s) c = get_unordered s c"
  "get_unordered (log_unordered d p x s) c = get_unordered s c"
  by (simp_all add: get_unordered_def set_unordered_def rx_ack_def rx_drop_def log_unordered_def)

lemma take_turn_simps [simp]:
  "fst (take_turn env s) = env (rx_turn s)"
  "get_ordered (snd (take_turn env s)) c = get_ordered s c"
  "get_unordered (snd (take_turn env s)) c = get_unordered s c"
  "rx_log (snd (take_turn env s)) = rx_log s"
  "rx_peer (snd (take_turn env s)) = rx_peer s"
  by (simp_all add: take_turn_def get_ordered_def get_unordered_def)

lemma retain_simps [simp]:
  "get_ordered (retain d q m s) c =
     (if c = d then (get_ordered s c)\<lparr>or_future := put_key q m (or_future (get_ordered s c))\<rparr> else get_ordered s c)"
  by (simp add: retain_def Let_def)

lemma chan_log_cong: "rx_log s = rx_log s' \<Longrightarrow> chan_log c s = chan_log c s'"
  by (simp add: chan_log_def)

text \<open>An operation on channel \<open>d\<close> does not touch the cursor or the log of another channel.\<close>

definition same_channel :: "u8 \<Rightarrow> rx_state \<Rightarrow> rx_state \<Rightarrow> bool" where
  "same_channel c s s' \<longleftrightarrow> get_ordered s' c = get_ordered s c \<and> chan_log c s' = chan_log c s"

lemma same_channel_refl [simp]: "same_channel c s s"
  by (simp add: same_channel_def)

lemma same_channel_trans: "same_channel c s s' \<Longrightarrow> same_channel c s' s'' \<Longrightarrow> same_channel c s s''"
  by (simp add: same_channel_def)

section \<open>Delivery\<close>

lemma deliver_cases:
  assumes "deliver_ordered_event_with_realtime tn c q p s = (r, s')"
  obtains (done') "r = Inr True" "get_ordered s' c = ordered_commit (get_ordered s c) q"
      "chan_log c s' = chan_log c s @ [p]"
    | (kept) "r \<noteq> Inr True" "get_ordered s' c = get_ordered s c" "rx_log s' = rx_log s"
  using assms
  by (auto simp: deliver_ordered_event_with_realtime_def commit_ack_log_def rx_commit_def chan_log_def Let_def
      split: option.splits if_splits prod.splits reserve_answer.splits)

lemma deliver_other:
  "deliver_ordered_event_with_realtime tn d q p s = (r, s') \<Longrightarrow> c \<noteq> d \<Longrightarrow> same_channel c s s'"
  by (auto simp: deliver_ordered_event_with_realtime_def commit_ack_log_def rx_commit_def chan_log_def Let_def
      same_channel_def split: option.splits if_splits prod.splits reserve_answer.splits)

lemma drain_deliver_other:
  assumes "drain_deliver env d q p ts s = (r, s')" "c \<noteq> d"
  shows "same_channel c s s'"
proof -
  obtain tn s0 where t: "take_turn env s = (tn, s0)" by fastforce
  have s0: "get_ordered s0 c = get_ordered s c" "rx_log s0 = rx_log s"
    using take_turn_simps(2,4)[of env s] by (simp_all add: t)
  obtain r1 s1 where d: "deliver_ordered_event_with_realtime tn d q p s0 = (r1, s1)" by fastforce
  have "same_channel c s0 s1" using deliver_other[OF d assms(2)] .
  then show ?thesis using assms s0 chan_log_cong[OF s0(2), of c]
    by (auto simp: drain_deliver_def t d same_channel_def chan_log_def split: if_splits sum.splits bool.splits)
qed

lemma drain_step_other:
  assumes "drain_step n env d s = (r, s')" "c \<noteq> d"
  shows "same_channel c s s'"
proof -
  have deliver: "same_channel c s2 s'" if "drain_deliver env d q p ts s2 = (r, s')" for q p ts s2
    using drain_deliver_other[OF that assms(2)] .
  show ?thesis using assms
    by (auto simp: drain_step_def rx_commit_def Let_def take_turn_def
        split: option.splits list.splits prod.splits fragment_outcome.splits if_splits
        dest!: deliver)
      (auto simp: same_channel_def chan_log_def)
qed

lemma drain_ordered_state_other:
  "drain_ordered_state n env d k s = (r, s') \<Longrightarrow> c \<noteq> d \<Longrightarrow> same_channel c s s'"
proof (induction n env d k s arbitrary: r s' rule: drain_ordered_state.induct)
  case (2 n env d k s)
  obtain r1 s1 where st: "drain_step n env d s = (r1, s1)" by fastforce
  obtain r2 s2 where rest: "drain_ordered_state n env d k s1 = (r2, s2)" by fastforce
  have one: "same_channel c s s1" using drain_step_other[OF st 2(3)] .
  have two: "same_channel c s1 s2" if "r1 = Inr True" using 2(1)[OF st[symmetric] that refl rest 2(3)] .
  show ?case using 2(2) st rest one two same_channel_trans[OF one]
    by (auto split: sum.splits bool.splits)
qed simp

section \<open>In-order delivery\<close>

text \<open>Packet \<open>i\<close> of a channel is a whole message if \<open>frag i\<close> is \<open>None\<close> and a part of a message otherwise. A retained whole message is
the one that was sent; a retained part may have become the joined message.\<close>

definition retained_ok :: "(nat \<Rightarrow> bytes) \<Rightarrow> (nat \<Rightarrow> incoming_fragment option) \<Rightarrow> nat \<Rightarrow> retained_message \<Rightarrow> bool" where
  "retained_ok msg frag j m \<longleftrightarrow> (frag j = None \<longrightarrow> rm_payload m = msg j \<and> rm_fragment m = None)"

definition future_ok ::
    "(nat \<Rightarrow> bytes) \<Rightarrow> (nat \<Rightarrow> incoming_fragment option) \<Rightarrow> nat \<Rightarrow> (u16 \<times> retained_message) list \<Rightarrow> bool" where
  "future_ok msg frag e fut \<longleftrightarrow> distinct (map fst fut) \<and>
     (\<forall>p\<in>set fut. \<exists>j. e \<le> j \<and> j < e + 128 \<and> fst p = seq_of j \<and> retained_ok msg frag j (snd p))"

text \<open>
  The log after the first \<open>e\<close> packets: each entry belongs to a packet of its own, in the order of the packets; every whole
  message among them has its entry.
\<close>

definition log_of :: "(nat \<Rightarrow> bytes) \<Rightarrow> (nat \<Rightarrow> incoming_fragment option) \<Rightarrow> nat \<Rightarrow> bytes list \<Rightarrow> bool" where
  "log_of msg frag e log \<longleftrightarrow> (\<exists>handled. log = map snd handled \<and> sorted_wrt (<) (map fst handled) \<and>
     set (map fst handled) \<subseteq> {..<e} \<and>
     filter (\<lambda>(i, _). frag i = None) handled = map (\<lambda>i. (i, msg i)) (filter (\<lambda>i. frag i = None) [0..<e]))"

lemma log_of_0 [simp]: "log_of msg frag 0 log \<longleftrightarrow> log = []"
  by (auto simp: log_of_def)

lemma log_of_skip: "log_of msg frag e log \<Longrightarrow> frag e \<noteq> None \<Longrightarrow> log_of msg frag (Suc e) log"
  unfolding log_of_def by (fastforce simp: subset_iff intro: less_SucI)

lemma log_of_add:
  assumes "log_of msg frag e log" "frag e = None \<Longrightarrow> p = msg e"
  shows "log_of msg frag (Suc e) (log @ [p])"
proof -
  from assms(1) obtain handled where h: "log = map snd handled" "sorted_wrt (<) (map fst handled)" "set (map fst handled) \<subseteq> {..<e}"
    "filter (\<lambda>(i, _). frag i = None) handled = map (\<lambda>i. (i, msg i)) (filter (\<lambda>i. frag i = None) [0..<e])"
    by (auto simp: log_of_def)
  have "sorted_wrt (<) (map fst (handled @ [(e, p)]))" using h(2,3) by (auto simp: sorted_wrt_append)
  moreover have "set (map fst (handled @ [(e, p)])) \<subseteq> {..<Suc e}" using h(3) by auto
  moreover have "filter (\<lambda>(i, _). frag i = None) (handled @ [(e, p)]) =
      map (\<lambda>i. (i, msg i)) (filter (\<lambda>i. frag i = None) [0..<Suc e])" using h(4) assms(2) by simp
  ultimately show ?thesis using h(1) unfolding log_of_def by (intro exI[of _ "handled @ [(e, p)]"]) simp
qed

text \<open>
  The first \<open>e\<close> packets of the channel, and nothing else, have been handled, in order; the cursor waits for
  packet \<open>e\<close>; what is retained are packets of the stream at most 127 ahead, each once.
\<close>

definition in_order ::
    "(nat \<Rightarrow> bytes) \<Rightarrow> (nat \<Rightarrow> incoming_fragment option) \<Rightarrow> u8 \<Rightarrow> nat \<Rightarrow> rx_state \<Rightarrow> bool" where
  "in_order msg frag c e s \<longleftrightarrow>
     or_expected (get_ordered s c) = seq_of e \<and> slots_ok e {..<e} (or_committed (get_ordered s c)) \<and>
     future_ok msg frag e (or_future (get_ordered s c)) \<and> log_of msg frag e (chan_log c s)"

definition waiting :: "u8 \<Rightarrow> rx_state \<Rightarrow> nat" where
  "waiting c s = length (or_future (get_ordered s c))"

lemma in_order_same: "in_order msg frag c e s \<Longrightarrow> same_channel c s s' \<Longrightarrow> in_order msg frag c e s' \<and> waiting c s' = waiting c s"
  by (simp add: in_order_def same_channel_def waiting_def)

lemma in_order_cong:
  "in_order msg frag c e s \<Longrightarrow> get_ordered s' c = get_ordered s c \<Longrightarrow> rx_log s' = rx_log s \<Longrightarrow> in_order msg frag c e s'"
  by (simp add: in_order_def chan_log_def)

lemma waiting_cong: "get_ordered s' c = get_ordered s c \<Longrightarrow> waiting c s' = waiting c s"
  by (simp add: waiting_def)

lemma future_ok_put:
  assumes "future_ok msg frag e fut" "e \<le> j" "j < e + 128" "retained_ok msg frag j m"
  shows "future_ok msg frag e (put_key (seq_of j) m fut)"
  using assms unfolding future_ok_def by (simp, auto simp: put_key_def intro!: exI[of _ j])

lemma future_ok_remove: "future_ok msg frag e fut \<Longrightarrow> future_ok msg frag e (remove_key q fut)"
  by (auto simp: future_ok_def)

lemma future_ok_Suc:
  assumes f: "future_ok msg frag e fut" and n: "map_of fut (seq_of e) = None"
  shows "future_ok msg frag (Suc e) fut"
proof -
  have "\<exists>j. Suc e \<le> j \<and> j < Suc e + 128 \<and> fst p = seq_of j \<and> retained_ok msg frag j (snd p)"
    if p: "p \<in> set fut" for p
  proof -
    obtain j where j: "e \<le> j" "j < e + 128" "fst p = seq_of j" "retained_ok msg frag j (snd p)"
      using f p by (auto simp: future_ok_def)
    have "j \<noteq> e" using n p j(3) by (force simp: map_of_eq_None_iff)
    then show ?thesis using j by (intro exI[of _ j]) auto
  qed
  then show ?thesis using f by (auto simp: future_ok_def)
qed

lemma future_short: "future_ok msg frag e fut \<Longrightarrow> length fut \<le> 128"
proof -
  assume f: "future_ok msg frag e fut"
  have "fst ` set fut \<subseteq> seq_of ` {e..<e + 128}" using f by (force simp: future_ok_def)
  then have "card (fst ` set fut) \<le> card (seq_of ` {e..<e + 128})" by (intro card_mono) auto
  also have "\<dots> \<le> 128" using card_image_le[of "{e..<e + 128}" seq_of] by simp
  also have "card (fst ` set fut) = length fut"
    using f by (metis distinct_card future_ok_def length_map set_map)
  finally show ?thesis .
qed

lemma waiting_short: "in_order msg frag c e s \<Longrightarrow> waiting c s \<le> 128"
  using future_short by (auto simp: in_order_def waiting_def)

lemma slots_next: "slots_ok e {..<e} slots \<Longrightarrow> slots_ok (Suc e) {..<Suc e} (slot_store (seq_of e) slots)"
  using slots_insert[of e "{..<e}" slots e] by (auto simp: slots_ok_def lessThan_Suc)

text \<open>The expected packet is committed: with an entry in the log, or without one if it is a part of a message.\<close>

lemma commit_in_order:
  assumes i: "in_order msg frag c e s" and n: "map_of (or_future (get_ordered s c)) (seq_of e) = None"
    and s': "get_ordered s' c = ordered_commit (get_ordered s c) (seq_of e)"
    and log: "chan_log c s' = chan_log c s @ [p] \<and> (frag e = None \<longrightarrow> p = msg e) \<or> chan_log c s' = chan_log c s \<and> frag e \<noteq> None"
  shows "in_order msg frag c (Suc e) s' \<and> waiting c s' = waiting c s"
proof -
  have "log_of msg frag (Suc e) (chan_log c s')" using log i log_of_add log_of_skip by (fastforce simp: in_order_def)
  then show ?thesis using i s' slots_next[of e] future_ok_Suc[OF _ n, of msg frag]
    by (simp add: in_order_def ordered_commit_def next_seq_of waiting_def)
qed

lemma retain_in_order:
  assumes "in_order msg frag c e s" "e \<le> j" "j < e + 128" "retained_ok msg frag j m"
  shows "in_order msg frag c e (retain c (seq_of j) m s)"
  using assms future_ok_put[of msg frag e "or_future (get_ordered s c)" j m] by (simp add: in_order_def chan_log_def)

lemma waiting_retain: "map_of (or_future (get_ordered s c)) q = None \<Longrightarrow> waiting c (retain c q m s) = Suc (waiting c s)"
  by (simp add: waiting_def put_key_def)

lemma in_order_frame [simp]:
  "in_order msg frag c e (s\<lparr>rx_reorder_active := a\<rparr>) = in_order msg frag c e s"
  "in_order msg frag c e (rx_drop ts s) = in_order msg frag c e s"
  "in_order msg frag c e (refresh_reorder_active s) = in_order msg frag c e s"
  "in_order msg frag c e (rx_ack d q s) = in_order msg frag c e s"
  "in_order msg frag c e (s\<lparr>rx_fragments := fs, rx_budget := rb\<rparr>) = in_order msg frag c e s"
  by (simp_all add: in_order_def chan_log_def)

lemma waiting_frame [simp]:
  "waiting c (s\<lparr>rx_reorder_active := a\<rparr>) = waiting c s" "waiting c (rx_drop ts s) = waiting c s"
  "waiting c (refresh_reorder_active s) = waiting c s" "waiting c (rx_ack d q s) = waiting c s"
  "waiting c (s\<lparr>rx_fragments := fs, rx_budget := rb\<rparr>) = waiting c s"
  by (simp_all add: waiting_def)

lemma drain_deliver_in_order:
  assumes i: "in_order msg frag c e s" and n: "map_of (or_future (get_ordered s c)) (seq_of e) = None"
    and p: "frag e = None \<longrightarrow> p = msg e" and d: "drain_deliver env c (seq_of e) p ts s = (r, s')"
  shows "if r = Inr True then in_order msg frag c (Suc e) s' \<and> waiting c s' = waiting c s
    else in_order msg frag c e s' \<and> waiting c s' \<le> Suc (waiting c s)"
proof -
  obtain tn s0 where t: "take_turn env s = (tn, s0)" by fastforce
  have s0: "get_ordered s0 c = get_ordered s c" "rx_log s0 = rx_log s"
    using take_turn_simps(2,4)[of env s] by (simp_all add: t)
  note i0 = in_order_cong[OF i s0] and w0 = waiting_cong[OF s0(1)]
  obtain r1 s1 where dl: "deliver_ordered_event_with_realtime tn c (seq_of e) p s0 = (r1, s1)" by fastforce
  let ?m = "\<lparr>rm_payload = p, rm_fragment = None, rm_budgets = ts\<rparr>"
  from dl show ?thesis
  proof (cases rule: deliver_cases)
    case done'
    have "in_order msg frag c (Suc e) s1 \<and> waiting c s1 = waiting c s0"
      using commit_in_order[OF i0 _ done'(2)] done'(3) n p s0 by simp
    then show ?thesis using d t dl done' i0 w0 by (auto simp: drain_deliver_def split: if_splits)
  next
    case kept
    have i1: "in_order msg frag c e s1" using in_order_cong[OF i0 kept(2,3)] .
    have w1: "waiting c s1 = waiting c s" using waiting_cong[OF kept(2)] w0 by simp
    have "in_order msg frag c e (retain c (seq_of e) ?m s1)" using retain_in_order[OF i1, of e ?m] p by (simp add: retained_ok_def)
    moreover have "waiting c (retain c (seq_of e) ?m s1) = Suc (waiting c s)" using waiting_retain[of s1] n kept(2) s0 w1 by simp
    ultimately show ?thesis using d t dl kept(1) i0 i1 w0 w1
      by (auto simp: drain_deliver_def split: if_splits sum.splits bool.splits)
  qed
qed

lemma commit_turn_in_order:
  assumes i: "in_order msg frag c e s" and n: "map_of (or_future (get_ordered s c)) (seq_of e) = None" and f: "frag e \<noteq> None"
    and t: "take_turn env s = (tn, s0)"
  shows "in_order msg frag c e s0" "waiting c s0 = waiting c s"
    "in_order msg frag c (Suc e) (rx_commit c (seq_of e) s0)" "waiting c (rx_commit c (seq_of e) s0) = waiting c s"
proof -
  have s0: "get_ordered s0 c = get_ordered s c" "rx_log s0 = rx_log s"
    using take_turn_simps(2,4)[of env s] by (simp_all add: t)
  show i0: "in_order msg frag c e s0" and w0: "waiting c s0 = waiting c s" using in_order_cong[OF i s0] waiting_cong[OF s0(1)] by auto
  have "in_order msg frag c (Suc e) (rx_commit c (seq_of e) s0) \<and> waiting c (rx_commit c (seq_of e) s0) = waiting c s0"
    by (rule commit_in_order[OF i0, where p = "[]"]) (simp_all add: n s0 f rx_commit_def chan_log_def)
  then show "in_order msg frag c (Suc e) (rx_commit c (seq_of e) s0)" "waiting c (rx_commit c (seq_of e) s0) = waiting c s" using w0 by auto
qed

text \<open>A retained part goes to its assembly: it is committed, completes the message, or is put back.\<close>

lemma drain_fragment_in_order:
  assumes i: "in_order msg frag c e s" and n: "map_of (or_future (get_ordered s c)) (seq_of e) = None" and f: "frag e \<noteq> None"
    and out: "(case out of
        Pending \<Rightarrow> let (tn, s4) = take_turn env s in if tn_commit tn then (Inr True, rx_commit c (seq_of e) s4) else (Inr False, s4)
      | Complete payload budgets \<Rightarrow> drain_deliver env c (seq_of e) payload budgets s
      | Limit p t \<Rightarrow> (Inr False, retain c (seq_of e) \<lparr>rm_payload = p, rm_fragment = Some g, rm_budgets = [t]\<rparr> s)
      | Budget p t \<Rightarrow> (Inr False, retain c (seq_of e) \<lparr>rm_payload = p, rm_fragment = Some g, rm_budgets = [t]\<rparr> s)
      | Invalid p t \<Rightarrow> (Inl InvalidFragment, retain c (seq_of e) \<lparr>rm_payload = p, rm_fragment = Some g, rm_budgets = [t]\<rparr> s)) = (r, s')"
  shows "if r = Inr True then in_order msg frag c (Suc e) s' \<and> waiting c s' = waiting c s
    else in_order msg frag c e s' \<and> waiting c s' \<le> Suc (waiting c s)"
proof (cases out)
  case Pending
  obtain tn s0 where t: "take_turn env s = (tn, s0)" by fastforce
  show ?thesis using out Pending t commit_turn_in_order[OF i n f t] by (auto split: if_splits)
next
  case (Complete payload budgets)
  show ?thesis by (rule drain_deliver_in_order[OF i n]) (use out Complete f in auto)
qed (use out retain_in_order[OF i, of e] waiting_retain[OF n] f in \<open>auto simp: retained_ok_def\<close>)

lemma drain_step_in_order:
  assumes i: "in_order msg frag c e s" and d: "drain_step n env c s = (r, s')"
  shows "if r = Inr True then in_order msg frag c (Suc e) s' \<and> waiting c s' < waiting c s
    else in_order msg frag c e s' \<and> waiting c s' \<le> waiting c s"
proof -
  let ?st = "get_ordered s c"
  have e: "or_expected ?st = seq_of e" and f: "future_ok msg frag e (or_future ?st)" using i by (simp_all add: in_order_def)
  show ?thesis
  proof (cases "map_of (or_future ?st) (seq_of e)")
    case None
    then show ?thesis using d i by (auto simp: drain_step_def e in_order_def chan_log_def waiting_def)
  next
    case (Some m)
    let ?s1 = "set_ordered c (?st\<lparr>or_future := remove_key (seq_of e) (or_future ?st)\<rparr>) s"
    obtain j where j: "e \<le> j" "j < e + 128" "seq_of e = seq_of j" "retained_ok msg frag j m"
      using f map_of_SomeD[OF Some] by (fastforce simp: future_ok_def)
    have "j = e" using seq_of_inject[OF j(3)] j by simp
    then have m: "frag e = None \<longrightarrow> rm_payload m = msg e \<and> rm_fragment m = None" using j(4) by (simp add: retained_ok_def)
    have i1: "in_order msg frag c e ?s1" using i future_ok_remove[OF f] by (simp add: in_order_def chan_log_def)
    have n1: "map_of (or_future (get_ordered ?s1 c)) (seq_of e) = None" by simp
    have "length (or_future ?st) = Suc (length (remove_key (seq_of e) (or_future ?st)))"
      using split_key[OF _ Some] f by (metis future_ok_def size_add_mset size_mset)
    then have w1: "waiting c s = Suc (waiting c ?s1)" by (simp add: waiting_def)
    have "if r = Inr True then in_order msg frag c (Suc e) s' \<and> waiting c s' = waiting c ?s1
      else in_order msg frag c e s' \<and> waiting c s' \<le> Suc (waiting c ?s1)"
    proof (cases "rm_fragment m")
      case None
      have "drain_deliver env c (seq_of e) (rm_payload m) (rm_budgets m) ?s1 = (r, s')"
        using d Some None by (simp add: drain_step_def e Let_def)
      from drain_deliver_in_order[OF i1 n1 _ this] show ?thesis using m by simp
    next
      case frag_m: (Some g)
      show ?thesis
      proof (cases "rm_budgets m")
        case Nil
        then have "r = Inr False" "s' = ?s1" using d Some frag_m by (auto simp: drain_step_def e Let_def)
        then show ?thesis using i1 by simp
      next
        case (Cons budget rest)
        let ?s2 = "rx_drop rest ?s1"
        obtain out fs rb where ins: "insert_fragment n (rx_id ?s2) c g (rm_payload m) budget (buffered_fragment_parts ?s2 c g)
          (rx_fragments ?s2) (rx_budget ?s2) = (out, fs, rb)" by (metis prod_cases3)
        let ?s3 = "?s2\<lparr>rx_fragments := fs, rx_budget := rb\<rparr>"
        have i3: "in_order msg frag c e ?s3" using i1 by simp
        have n3: "map_of (or_future (get_ordered ?s3 c)) (seq_of e) = None" by simp
        have w3: "waiting c ?s3 = waiting c ?s1" by simp
        have "frag e \<noteq> None" using m frag_m by auto
        from drain_fragment_in_order[where out = out and env = env and g = g and r = r and s' = s', OF i3 n3 this, unfolded w3 Let_def] show ?thesis
          using d[unfolded drain_step_def Let_def e] Some frag_m Cons ins by simp
      qed
    qed
    then show ?thesis using w1 by (auto split: if_splits)
  qed
qed

text \<open>What a drain may do: the cursor moves on by messages that were waiting.\<close>

definition advanced :: "(nat \<Rightarrow> bytes) \<Rightarrow> (nat \<Rightarrow> incoming_fragment option) \<Rightarrow> u8 \<Rightarrow> nat \<Rightarrow> nat \<Rightarrow> rx_state \<Rightarrow> bool" where
  "advanced msg frag c e bound s' \<longleftrightarrow> (\<exists>e'. e \<le> e' \<and> e' + waiting c s' \<le> bound \<and> in_order msg frag c e' s')"

lemma advanced_refl: "in_order msg frag c e s \<Longrightarrow> e + waiting c s \<le> bound \<Longrightarrow> advanced msg frag c e bound s"
  by (auto simp: advanced_def)

lemma advanced_less: "advanced msg frag c e' bound' s \<Longrightarrow> e \<le> e' \<Longrightarrow> bound' \<le> bound \<Longrightarrow> advanced msg frag c e bound s"
  unfolding advanced_def by (meson le_trans)

lemma drain_in_order:
  "drain_ordered_state n env c k s = (r, s') \<Longrightarrow> in_order msg frag c e s \<Longrightarrow> advanced msg frag c e (e + waiting c s) s'"
proof (induction n env c k s arbitrary: r s' e rule: drain_ordered_state.induct)
  case (2 n env c k s)
  obtain r1 s1 where st: "drain_step n env c s = (r1, s1)" by fastforce
  note one = drain_step_in_order[OF 2(3) st]
  show ?case
  proof (cases "r1 = Inr True")
    case True
    obtain r2 s2 where rest: "drain_ordered_state n env c k s1 = (r2, s2)" by fastforce
    have "advanced msg frag c (Suc e) (Suc e + waiting c s1) s2" using 2(1)[OF st[symmetric] True refl rest, of "Suc e"] one True by simp
    moreover have "s' = s2" using 2(2) st rest True by (auto split: sum.splits)
    ultimately show ?thesis using one True by (auto intro: advanced_less)
  next
    case False
    then have "s' = s1" using 2(2) st by (auto split: sum.splits bool.splits)
    then show ?thesis using one False by (auto intro: advanced_refl)
  qed
qed (auto intro: advanced_refl)

lemma advanced_trans:
  assumes "advanced msg frag c e bound s1" "\<And>e1. in_order msg frag c e1 s1 \<Longrightarrow> advanced msg frag c e1 (e1 + waiting c s1) s2"
  shows "advanced msg frag c e bound s2"
  using assms unfolding advanced_def by (meson le_trans)

lemma drain_channels_in_order:
  "drain_channels n env ds k s = (r, s') \<Longrightarrow> in_order msg frag c e s \<Longrightarrow> advanced msg frag c e (e + waiting c s) s'"
proof (induction n env ds k s arbitrary: r s' e rule: drain_channels.induct)
  case (2 n env d ds k s)
  show ?case
  proof (cases "k = 0")
    case True
    then show ?thesis using 2 by (auto intro: advanced_refl)
  next
    case False
    obtain r1 s1 where st: "drain_ordered_state n env d k s = (r1, s1)" by fastforce
    have e1: "advanced msg frag c e (e + waiting c s) s1"
    proof (cases "c = d")
      case True
      then show ?thesis using drain_in_order[OF st] 2(4) by simp
    next
      case False
      then show ?thesis using in_order_same[OF 2(4) drain_ordered_state_other[OF st]] by (auto intro: advanced_refl)
    qed
    show ?thesis
    proof (cases r1)
      case (Inl er)
      show ?thesis
      proof (cases er)
        case EventChannelClosed
        then have "drain_channels n env ds k s1 = (r, s')" using 2(3) False st Inl by simp
        from advanced_trans[OF e1 2(1)[OF False st[symmetric] Inl EventChannelClosed this]] show ?thesis .
      next
        case InvalidFragment
        then show ?thesis using 2(3) False st Inl e1 by auto
      qed
    next
      case (Inr m)
      obtain r2 s2 where rest: "drain_channels n env ds (k - m) s1 = (r2, s2)" by fastforce
      then have "s' = s2" using 2(3) False st Inr by (auto split: sum.splits)
      then show ?thesis using advanced_trans[OF e1 2(2)[OF False st[symmetric] Inr rest]] by simp
    qed
  qed
qed (auto intro: advanced_refl)

lemma advanced_frame [simp]:
  "advanced msg frag c e bound (refresh_reorder_active s) = advanced msg frag c e bound s"
  "advanced msg frag c e bound (rx_drop ts s) = advanced msg frag c e bound s"
  by (simp_all add: advanced_def)

lemma drain_peer_in_order:
  assumes "drain_ordered_peer n env entry ks k s = (r, s')" "in_order msg frag c e s"
  shows "advanced msg frag c e (e + waiting c s) s'"
proof -
  obtain r1 s1 where d: "drain_channels n env ks k s = (r1, s1)" by fastforce
  show ?thesis using assms d drain_channels_in_order[OF d assms(2)]
    by (auto simp: drain_ordered_peer_def intro: advanced_refl split: if_splits sum.splits)
qed

lemma then_drain_in_order:
  assumes "then_drain n env c s = (r, s')" "in_order msg frag c e s"
  shows "advanced msg frag c e (e + waiting c s) s'"
proof -
  obtain r1 s1 where d: "drain_ordered_state n env c MAX_ORDERED_DRAIN_PER_PEER_PER_PASS s = (r1, s1)" by fastforce
  show ?thesis using assms d drain_in_order[OF d assms(2)] by (auto simp: then_drain_def split: sum.splits)
qed

lemma retain_ack_in_order:
  assumes i: "in_order msg frag c e s" and j: "e \<le> j" "j < e + 128" and m: "retained_ok msg frag j m"
  shows "in_order msg frag c e (retain_ack env c (seq_of j) m s)"
proof -
  obtain tn s0 where t: "take_turn env s = (tn, s0)" by fastforce
  have s0: "get_ordered s0 c = get_ordered s c" "rx_log s0 = rx_log s"
    using take_turn_simps(2,4)[of env s] by (simp_all add: t)
  note i0 = in_order_cong[OF i s0]
  then show ?thesis using retain_in_order[OF i0 j m] by (simp add: retain_ack_def t)
qed

text \<open>The expected packet carries a part of a message.\<close>

lemma admit_expected_fragment_in_order:
  assumes i: "in_order msg frag c e s" and n: "map_of (or_future (get_ordered s c)) (seq_of e) = None" and f: "frag e \<noteq> None"
    and a: "admit_expected_fragment k env c (seq_of e) payload g s = (r, s')"
  shows "\<exists>e'. e \<le> e' \<and> e' \<le> e + 129 \<and> in_order msg frag c e' s'"
proof -
  obtain out fs rb where o: "offer_fragment k (rx_id s) c g payload (buffered_fragment_parts s c g) (rx_fragments s) (rx_budget s) = (out, fs, rb)"
    by (metis prod_cases3)
  let ?s1 = "s\<lparr>rx_fragments := fs, rx_budget := rb\<rparr>"
  have i1: "in_order msg frag c e ?s1" using i by simp
  have n1: "map_of (or_future (get_ordered ?s1 c)) (seq_of e) = None" using n by simp
  obtain tn s2 where t: "take_turn env ?s1 = (tn, s2)" by fastforce
  note c2 = commit_turn_in_order[OF i1 n1 f t]
  have s2: "get_ordered s2 c = get_ordered s c" using take_turn_simps(2)[of env ?s1] by (simp add: t)
  have stay: "\<exists>e'. e \<le> e' \<and> e' \<le> e + 129 \<and> in_order msg frag c e' s'" if "in_order msg frag c e s'" using that by auto
  have move: "\<exists>e'. e \<le> e' \<and> e' \<le> e + 129 \<and> in_order msg frag c e' s'"
    if "advanced msg frag c (Suc e) (Suc e + waiting c s) s'"
  proof -
    from that obtain e' where "Suc e \<le> e'" "e' + waiting c s' \<le> Suc e + waiting c s" "in_order msg frag c e' s'" by (auto simp: advanced_def)
    then show ?thesis using waiting_short[OF i] by (intro exI[of _ e']) simp
  qed
  consider (none) "in_order msg frag c e s'"
    | (pending) "out = Some Pending" "tn_commit tn"
    | (complete) joined budgets where "out = Some (Complete joined budgets)" "tn_open tn"
    using a i1 c2(1) by (cases out; cases "the out") (auto simp: admit_expected_fragment_def o t Let_def split: if_splits)
  then show ?thesis
  proof cases
    case none
    then show ?thesis by (rule stay)
  next
    case pending
    have "then_drain k env c (rx_ack c (seq_of e) (rx_commit c (seq_of e) s2)) = (r, s')"
      using a pending by (simp add: admit_expected_fragment_def o t)
    then show ?thesis using move then_drain_in_order[of k env c _ r s' msg frag "Suc e"] c2(3,4) by fastforce
  next
    case complete
    let ?m = "\<lparr>rm_payload = joined, rm_fragment = None, rm_budgets = budgets\<rparr>"
    obtain r3 s3 where d: "deliver_ordered_event_with_realtime tn c (seq_of e) joined s2 = (r3, s3)" by fastforce
    from d show ?thesis
    proof (cases rule: deliver_cases)
      case done'
      have s3: "in_order msg frag c (Suc e) s3 \<and> waiting c s3 = waiting c s2"
        using commit_in_order[OF c2(1) _ done'(2)] done'(3) n f s2 by simp
      obtain r4 s4 where dr: "then_drain k env c s3 = (r4, s4)" by fastforce
      have "s' = rx_drop budgets s4" using a complete d done'(1) dr by (simp add: admit_expected_fragment_def o t)
      then show ?thesis using move then_drain_in_order[OF dr conjunct1[OF s3]] s3 c2(2) by simp
    next
      case kept
      have i3: "in_order msg frag c e s3" using in_order_cong[OF c2(1) kept(2,3)] .
      have "in_order msg frag c e (retain_ack env c (seq_of e) ?m s3)"
        by (rule retain_ack_in_order[OF i3]) (use f in \<open>auto simp: retained_ok_def\<close>)
      then show ?thesis using a complete d kept(1) i3
        by (intro stay) (auto simp: admit_expected_fragment_def o t Let_def split: sum.splits bool.splits rx_error.splits)
    qed
  qed
qed

text \<open>
  Packet \<open>i\<close> is admitted, whole message or part; \<open>i\<close> is any index less than half the sequence space away
  from the cursor, so old duplicates and packets far ahead are included.
\<close>

lemma admit_ordered_in_order:
  assumes i: "in_order msg frag c e s" and near: "i < e + 16384" "e < i + 16384"
    and a: "admit_reliable_ordered n env entry c (seq_of i) (msg i) (frag i) s = (r, s')"
  shows "\<exists>e'. e \<le> e' \<and> e' \<le> e + 129 \<and> in_order msg frag c e' s'"
proof (cases "entry \<and> \<not> is_committed (get_ordered s c) (seq_of i) \<and> map_of (or_future (get_ordered s c)) (seq_of i) = None")
  case False
  then have "get_ordered s' c = get_ordered s c" "rx_log s' = rx_log s"
    using a by (auto simp: admit_reliable_ordered_def Let_def take_turn_def split: if_splits)
  then show ?thesis using in_order_cong[OF i] by auto
next
  case True
  let ?s = "set_ordered c (get_ordered s c) s"
  have stay: "in_order msg frag c e ?s" using i by (rule in_order_cong) simp_all
  have e: "or_expected (get_ordered s c) = seq_of e" using i by (simp add: in_order_def)
  have dist: "relative_sequence (seq_of i) (or_expected (get_ordered s c)) = int i - int e"
    unfolding e using near by (rule relative_seq_of)
  consider (now) "i = e" "frag e = None" | (part) g where "i = e" "frag e = Some g"
    | (ahead) "e < i" "i < e + 128" | (far) "i < e \<or> e + 128 \<le> i" by fastforce
  then show ?thesis
  proof cases
    case now
    obtain tn s0 where t: "take_turn env ?s = (tn, s0)" by fastforce
    have s0: "get_ordered s0 c = get_ordered s c" "rx_log s0 = rx_log s"
      using take_turn_simps(2,4)[of env ?s] by (simp_all add: t)
    note i0 = in_order_cong[OF i s0]
    obtain r1 s1 where dl: "deliver_ordered_event_with_realtime tn c (seq_of e) (msg e) s0 = (r1, s1)" by fastforce
    have a': "(if \<not> tn_open tn then (Inr (), s0) else (case (r1, s1) of (Inl x, s2) \<Rightarrow> (Inl x, s2)
        | (Inr False, s2) \<Rightarrow> (Inr (), s2) | (Inr True, s2) \<Rightarrow> then_drain n env c s2)) = (r, s')"
      using a True dist t dl unfolding now
      by (auto simp: admit_reliable_ordered_def split: if_splits sum.splits bool.splits)
    from dl show ?thesis
    proof (cases rule: deliver_cases)
      case done'
      have s1: "in_order msg frag c (Suc e) s1 \<and> waiting c s1 = waiting c s0"
        using commit_in_order[OF i0 _ done'(2)] done'(3) True now s0 by simp
      then have "advanced msg frag c (Suc e) (Suc e + waiting c s1) s'" if "tn_open tn"
        using then_drain_in_order[of n env c s1 r s' msg frag "Suc e"] a' done'(1) that by simp
      then obtain e' where "Suc e \<le> e'" "e' + waiting c s' \<le> Suc e + waiting c s0" "in_order msg frag c e' s'" if "tn_open tn"
        using s1 by (auto simp: advanced_def)
      then show ?thesis using a' i0 waiting_short[OF i0] by (cases "tn_open tn") (force intro: exI[of _ e'], auto)
    next
      case kept
      then show ?thesis using a' in_order_cong[OF i0 kept(2,3)] i0 by (auto split: if_splits sum.splits bool.splits)
    qed
  next
    case part
    have "admit_expected_fragment n env c (seq_of e) (msg e) g ?s = (r, s')"
      using a True dist unfolding part by (auto simp: admit_reliable_ordered_def split: if_splits)
    then show ?thesis using admit_expected_fragment_in_order[OF stay] True part by simp
  next
    case ahead
    have a': "s' = ?s \<or> (\<exists>ts rb. s' = retain_ack env c (seq_of i)
        \<lparr>rm_payload = msg i, rm_fragment = frag i, rm_budgets = ts\<rparr> (?s\<lparr>rx_budget := rb\<rparr>))"
      using a True ahead dist
      by (auto simp: admit_reliable_ordered_def MAX_ORDERED_REORDER_AHEAD_def DEFAULT_WINDOW_SIZE_def Let_def
          split: if_splits option.splits prod.splits)
    have "in_order msg frag c e (?s\<lparr>rx_budget := rb\<rparr>)" for rb using i by (rule in_order_cong) simp_all
    from retain_ack_in_order[OF this, of i] show ?thesis using a' stay ahead
      by (auto simp: retained_ok_def intro!: exI[of _ e])
  next
    case far
    then have "s' = ?s" using a True dist
      by (auto simp: admit_reliable_ordered_def MAX_ORDERED_REORDER_AHEAD_def DEFAULT_WINDOW_SIZE_def Let_def
          split: if_splits)
    then show ?thesis using stay by (auto intro!: exI[of _ e])
  qed
qed

section \<open>Progress\<close>

definition willing :: "(nat \<Rightarrow> turn) \<Rightarrow> bool" where
  "willing env \<longleftrightarrow> (\<forall>t. tn_open (env t) \<and> tn_commit (env t) \<and> tn_answer (env t) = Permit)"

lemma deliver_willing:
  assumes "tn_open tn" "tn_commit tn" "tn_answer tn = Permit" "rx_admission s = None"
  shows "deliver_ordered_event_with_realtime tn c q p s = (Inr True, commit_ack_log c q p (tn_consumed tn) None s)"
  using assms by (simp add: deliver_ordered_event_with_realtime_def)

lemma rx_admission_simps [simp]:
  "rx_admission (commit_ack_log c q p x y s) = rx_admission s" "rx_admission (rx_drop ts s) = rx_admission s"
  "rx_admission (set_ordered c st s) = rx_admission s" "rx_admission (snd (take_turn env s)) = rx_admission s"
  "rx_admission (refresh_reorder_active s) = rx_admission s"
  by (simp_all add: commit_ack_log_def rx_drop_def set_ordered_def take_turn_def refresh_reorder_active_def
      rx_ack_def rx_commit_def Let_def)

lemma drain_step_willing:
  assumes w: "willing env" and a: "rx_admission s = None" and i: "in_order msg (\<lambda>_. None) c e s"
    and m: "map_of (or_future (get_ordered s c)) (seq_of e) \<noteq> None"
  shows "\<exists>s'. drain_step n env c s = (Inr True, s') \<and> rx_admission s' = None"
proof -
  have "or_expected (get_ordered s c) = seq_of e" using i by (simp add: in_order_def)
  moreover obtain x where x: "map_of (or_future (get_ordered s c)) (seq_of e) = Some x" using m by blast
  moreover have "rm_fragment x = None"
    using i map_of_SomeD[OF x] by (fastforce simp: in_order_def future_ok_def retained_ok_def)
  ultimately show ?thesis using w a
    by (simp add: drain_step_def Let_def drain_deliver_def take_turn_def willing_def deliver_willing)
qed

lemma drain_willing:
  assumes "willing env" "rx_admission s = None" "in_order msg (\<lambda>_. None) c e s" "length (or_future (get_ordered s c)) \<le> k"
  shows "\<exists>r s' e'. drain_ordered_state n env c k s = (Inr r, s') \<and> e \<le> e' \<and> in_order msg (\<lambda>_. None) c e' s' \<and>
    map_of (or_future (get_ordered s' c)) (seq_of e') = None"
  using assms
proof (induction n env c k s arbitrary: e rule: drain_ordered_state.induct)
  case (2 n env c k s)
  show ?case
  proof (cases "map_of (or_future (get_ordered s c)) (seq_of e)")
    case None
    have "or_expected (get_ordered s c) = seq_of e" using 2(4) by (simp add: in_order_def)
    then have "drain_step n env c s = (Inr False, set_ordered c (get_ordered s c) s)"
      using None by (simp add: drain_step_def Let_def)
    moreover have "in_order msg (\<lambda>_. None) c e (set_ordered c (get_ordered s c) s)" using 2(4) by (rule in_order_cong) simp_all
    ultimately show ?thesis using None by auto
  next
    case (Some m)
    obtain s1 where s1: "drain_step n env c s = (Inr True, s1)" "rx_admission s1 = None"
      using drain_step_willing[OF 2(2-4)] Some by blast
    note st = drain_step_in_order[OF 2(4) s1(1), simplified]
    have "\<exists>r s' e'. drain_ordered_state n env c k s1 = (Inr r, s') \<and> Suc e \<le> e' \<and> in_order msg (\<lambda>_. None) c e' s' \<and>
        map_of (or_future (get_ordered s' c)) (seq_of e') = None"
      using 2(1)[OF s1(1)[symmetric] refl refl 2(2) s1(2), of "Suc e"] st 2(5) by (simp add: waiting_def)
    then obtain r s' e' where "drain_ordered_state n env c k s1 = (Inr r, s')" "Suc e \<le> e'" "in_order msg (\<lambda>_. None) c e' s'"
        "map_of (or_future (get_ordered s' c)) (seq_of e') = None" by blast
    then show ?thesis using s1 by (auto intro!: exI[of _ e'])
  qed
qed auto

lemma admit_willing:
  assumes w: "willing env" and a: "rx_admission s = None" and i: "in_order msg (\<lambda>_. None) c e s"
    and none: "map_of (or_future (get_ordered s c)) (seq_of e) = None"
  shows "\<exists>s' e'. admit_reliable_ordered n env True c (seq_of e) (msg e) None s = (Inr (), s') \<and> e < e' \<and>
    in_order msg (\<lambda>_. None) c e' s' \<and> map_of (or_future (get_ordered s' c)) (seq_of e') = None"
proof -
  let ?st = "get_ordered s c" and ?s = "set_ordered c (get_ordered s c) s"
  obtain tn s0 where t: "take_turn env ?s = (tn, s0)" by fastforce
  have s0: "get_ordered s0 c = ?st" "rx_log s0 = rx_log s" "rx_admission s0 = None" "tn = env (rx_turn ?s)"
    using take_turn_simps(1,2,4)[of env ?s] rx_admission_simps(4)[of env ?s] a by (simp_all add: t)
  have tn: "tn_open tn" "tn_commit tn" "tn_answer tn = Permit" using w s0(4) by (simp_all add: willing_def)
  let ?s1 = "commit_ack_log c (seq_of e) (msg e) (tn_consumed tn) None s0"
  have e: "or_expected ?st = seq_of e" and sl: "slots_ok e {..<e} (or_committed ?st)"
    using i by (simp_all add: in_order_def)
  have nc: "\<not> is_committed ?st (seq_of e)" using slots_in_window[OF sl, of e] by (simp add: is_committed_def)
  have "in_order msg (\<lambda>_. None) c (Suc e) ?s1 \<and> waiting c ?s1 = waiting c s0"
    by (rule commit_in_order[OF in_order_cong[OF i s0(1,2)], where p = "msg e"])
       (simp_all add: s0 none commit_ack_log_def rx_commit_def Let_def chan_log_def)
  then have i1: "in_order msg (\<lambda>_. None) c (Suc e) ?s1" by blast
  then have "length (or_future (get_ordered ?s1 c)) \<le> MAX_ORDERED_DRAIN_PER_PEER_PER_PASS"
    using waiting_short[OF i1] by (simp add: waiting_def MAX_ORDERED_DRAIN_PER_PEER_PER_PASS_def)
  then obtain r s' e' where d: "drain_ordered_state n env c MAX_ORDERED_DRAIN_PER_PEER_PER_PASS ?s1 = (Inr r, s')"
    "Suc e \<le> e'" "in_order msg (\<lambda>_. None) c e' s'" "map_of (or_future (get_ordered s' c)) (seq_of e') = None"
    using drain_willing[OF w _ i1] s0(3) by fastforce
  have "admit_reliable_ordered n env True c (seq_of e) (msg e) None s = (Inr (), refresh_reorder_active s')"
    using none nc t tn d(1) by (simp add: admit_reliable_ordered_def e deliver_willing[OF tn s0(3)] then_drain_def)
  then show ?thesis using d by (intro exI[of _ "refresh_reorder_active s'"] exI[of _ e']) simp
qed

section \<open>Exactly-once delivery on unordered channels\<close>

text \<open>A packet that is taken marks its number; a whole message has its entry in the log, a part has one if it completes a message.\<close>

definition taken_once ::
    "(nat \<Rightarrow> bytes) \<Rightarrow> (nat \<Rightarrow> incoming_fragment option) \<Rightarrow> u8 \<Rightarrow> nat set \<Rightarrow> nat \<Rightarrow> rx_state \<Rightarrow> rx_state \<Rightarrow> bool" where
  "taken_once msg frag c R i s s' \<longleftrightarrow> i \<notin> R \<and> get_unordered s' c \<noteq> get_unordered s c \<and> (\<exists>e'. seen e' (insert i R) (get_unordered s' c)) \<and>
     rx_peer s' = queue_ack (rx_peer s) c (seq_of i) \<and>
     ((\<exists>p. chan_log c s' = chan_log c s @ [p] \<and> (frag i = None \<longrightarrow> p = msg i)) \<or> chan_log c s' = chan_log c s \<and> frag i \<noteq> None)"

definition left_alone :: "u8 \<Rightarrow> nat set \<Rightarrow> nat \<Rightarrow> rx_state \<Rightarrow> rx_state \<Rightarrow> bool" where
  "left_alone c R i s s' \<longleftrightarrow> get_unordered s' c = get_unordered s c \<and> rx_log s' = rx_log s \<and>
     (rx_peer s' = rx_peer s \<or> i \<in> R \<and> rx_peer s' = queue_ack (rx_peer s) c (seq_of i))"

lemma rx_peer_simps [simp]:
  "rx_peer (set_unordered d st s) = rx_peer s" "rx_peer (rx_drop ts s) = rx_peer s" "rx_peer (log_unordered d p x s) = rx_peer s"
  "rx_peer (rx_ack d q s) = queue_ack (rx_peer s) d q"
  by (simp_all add: set_unordered_def rx_drop_def log_unordered_def rx_ack_def)

lemma chan_log_unordered [simp]: "chan_log c (log_unordered c p x s) = chan_log c s @ [p]"
  by (simp add: chan_log_def log_unordered_def)

lemma commit_changes:
  assumes "slots_ok e R (un_received st)" "\<not> unordered_contains st q"
  shows "unordered_commit st q \<noteq> st"
proof
  assume "unordered_commit st q = st"
  then have "un_received st = slot_store q (un_received st)" by (metis unordered_commit_def unordered_receive.select_convs(2))
  then have "slot_holds (un_received st) q" using assms(1)
    by (metis DEFAULT_WINDOW_SIZE_def mod_less_divisor nth_list_update_eq slot_holds_def slot_store_def slots_ok_def zero_less_numeral)
  then show False using assms(2) by (simp add: unordered_contains_def)
qed

text \<open>What the commit of packet \<open>i\<close> does, with or without an entry in the log.\<close>

lemma commit_taken:
  assumes s: "seen e R (get_unordered s c)" and w: "e \<le> i" "i < e + 128" and new: "\<not> unordered_contains (get_unordered s c) (seq_of i)"
    and u: "get_unordered u c = get_unordered s c" "rx_peer u = rx_peer s" "rx_log u = rx_log s"
    and s': "get_unordered s' c = get_unordered (commit_unordered c (seq_of i) u) c" "rx_peer s' = rx_peer (commit_unordered c (seq_of i) u)"
    and log: "(\<exists>p. chan_log c s' = chan_log c s @ [p] \<and> (frag i = None \<longrightarrow> p = msg i)) \<or> chan_log c s' = chan_log c s \<and> frag i \<noteq> None"
  shows "taken_once msg frag c R i s s'"
proof -
  have ok: "slots_ok e R (un_received (get_unordered s c))" using s by (simp add: seen_def)
  have "i \<notin> R" using slots_in_window[OF ok, of i] w new by (simp add: unordered_contains_def)
  moreover obtain e' where "seen e' (insert i R) (unordered_commit (get_unordered s c) (seq_of i))" using seen_commit[OF s w] by blast
  moreover have "get_unordered s' c = unordered_commit (get_unordered s c) (seq_of i)" "rx_peer s' = queue_ack (rx_peer s) c (seq_of i)"
    using u s' by (simp_all add: commit_unordered_def)
  ultimately show ?thesis using log commit_changes[OF ok new] by (auto simp: taken_once_def)
qed

lemma admit_unordered_fragment_step:
  assumes s: "seen e R (get_unordered s c)" and new: "\<not> unordered_contains (get_unordered s c) (seq_of e)" and f: "frag e \<noteq> None"
    and a: "admit_unordered_fragment n env c (seq_of e) payload g s = (r, s')"
  shows "taken_once msg frag c R e s s' \<or> left_alone c R e s s'"
proof -
  obtain tn s0 where t: "take_turn env s = (tn, s0)" by fastforce
  have s0: "get_unordered s0 c = get_unordered s c" "rx_log s0 = rx_log s" "rx_peer s0 = rx_peer s"
    using take_turn_simps(3-5)[of env s] by (simp_all add: t)
  obtain out fs rb where o: "offer_fragment n (rx_id s0) c g payload [] (rx_fragments s0) (rx_budget s0) = (out, fs, rb)"
    by (metis prod_cases3)
  let ?s1 = "s0\<lparr>rx_fragments := fs, rx_budget := rb\<rparr>"
  have s1: "get_unordered ?s1 c = get_unordered s c" "rx_peer ?s1 = rx_peer s" "rx_log ?s1 = rx_log s" using s0 by simp_all
  have log1: "chan_log c (commit_unordered c (seq_of e) ?s1) = chan_log c s" by (rule chan_log_cong) (simp add: s0)
  consider (alone) "get_unordered s' c = get_unordered s c" "rx_log s' = rx_log s" "rx_peer s' = rx_peer s"
    | (pending) "s' = commit_unordered c (seq_of e) ?s1"
    | (complete) joined budgets where "s' = rx_drop budgets (log_unordered c joined (tn_consumed tn) (commit_unordered c (seq_of e) ?s1))"
    using a s0 s1 by (cases "tn_answer tn"; cases out; cases "the out")
      (auto simp: admit_unordered_fragment_def t o Let_def split: if_splits)
  then show ?thesis
  proof cases
    case alone
    then show ?thesis by (simp add: left_alone_def)
  next
    case pending
    have "taken_once msg frag c R e s s'"
      by (rule commit_taken[OF s _ _ new s1]) (use f log1 in \<open>auto simp: pending\<close>)
    then show ?thesis ..
  next
    case complete
    have "taken_once msg frag c R e s s'"
      by (rule commit_taken[OF s _ _ new s1]) (use f log1 chan_log_cong[OF rx_log_simps(3)] in \<open>auto simp: complete\<close>)
    then show ?thesis ..
  qed
qed

lemma admit_unordered_step:
  assumes s: "seen e R (get_unordered s c)" and near: "i < e + 16384" "e < i + 16384"
    and a: "admit_reliable_unordered n env entry c (seq_of i) (msg i) (frag i) s = (r, s')"
  shows "taken_once msg frag c R i s s' \<or> left_alone c R i s s'"
proof -
  let ?st = "get_unordered s c" and ?s = "set_unordered c (get_unordered s c) s"
  have ok: "slots_ok e R (un_received ?st)" and e: "un_expected ?st = seq_of e" using s by (simp_all add: seen_def)
  have dist: "relative_sequence (seq_of i) (un_expected ?st) = int i - int e"
    unfolding e using near by (rule relative_seq_of)
  have same: "get_unordered ?s c = ?st" "rx_log ?s = rx_log s" "rx_peer ?s = rx_peer s" by simp_all
  have held: "i \<in> R" if "unordered_contains ?st (seq_of i)"
    using slots_hold[OF ok near] that by (simp add: unordered_contains_def)
  obtain tn s0 where t: "take_turn env ?s = (tn, s0)" by fastforce
  have s0: "get_unordered s0 c = ?st" "rx_log s0 = rx_log s" "rx_peer s0 = rx_peer s"
    using take_turn_simps(3-5)[of env ?s] same by (simp_all add: t)
  consider (out) "\<not> (entry \<and> \<not> unordered_contains ?st (seq_of i) \<and> e \<le> i \<and> i < e + 128)"
    | (whole) "entry" "\<not> unordered_contains ?st (seq_of i)" "e \<le> i" "i < e + 128" "frag i = None"
    | (part) g where "entry" "\<not> unordered_contains ?st (seq_of i)" "e \<le> i" "i < e + 128" "frag i = Some g" by fastforce
  then show ?thesis
  proof cases
    case out
    then show ?thesis using a dist held same
      by (auto simp: admit_reliable_unordered_def DEFAULT_WINDOW_SIZE_def left_alone_def Let_def split: if_splits)
  next
    case whole
    have "s' = s0 \<or> s' = log_unordered c (msg i) (tn_consumed tn) (commit_unordered c (seq_of i) s0)"
      using a whole dist t by (auto simp: admit_reliable_unordered_def DEFAULT_WINDOW_SIZE_def Let_def split: if_splits)
    moreover have "taken_once msg frag c R i s (log_unordered c (msg i) (tn_consumed tn) (commit_unordered c (seq_of i) s0))"
      by (rule commit_taken[OF s whole(3,4,2) s0(1,3,2)]) (use chan_log_cong[OF s0(2), of c] in \<open>auto simp: chan_log_cong[OF rx_log_simps(8)]\<close>)
    ultimately show ?thesis using s0 by (auto simp: left_alone_def)
  next
    case part
    show ?thesis
    proof (cases "i = e")
      case True
      have "admit_unordered_fragment n env c (seq_of e) (msg e) g ?s = (r, s')"
        using a part dist True by (auto simp: admit_reliable_unordered_def DEFAULT_WINDOW_SIZE_def Let_def)
      from admit_unordered_fragment_step[OF _ _ _ this, of R frag msg] show ?thesis
        using s part True same chan_log_cong[OF same(2)] by (auto simp: taken_once_def left_alone_def)
    next
      case False
      then have "s' = ?s" using a part dist by (auto simp: admit_reliable_unordered_def DEFAULT_WINDOW_SIZE_def Let_def split: if_splits)
      then show ?thesis using same by (simp add: left_alone_def)
    qed
  qed
qed

end
