(* ===== verification/ReceiveProperties.thy ===== *)
theory ReceiveProperties
  imports ReceiveProofs
begin

text \<open>
  The receive path as step relations, and its properties: in-order and exactly-once delivery under any
  loss, duplication and reordering of packets and any behaviour of the environment.
\<close>

section \<open>Runs\<close>

text \<open>
  An ordered channel \<open>c\<close>: packets of the stream, whole messages (\<open>frag i = None\<close>) and parts of fragmented ones alike, arrive in any
  order and any number of times, the dispatcher drains between them, and anything else may happen that leaves the cursor and the log of the
  channel alone. \<open>e\<close> counts the packets over which the cursor has moved.
  Half the sequence space is the distance beyond which a packet could be taken for another; the send window
  of 128 keeps the sender far from it.
\<close>

definition cursor_moved :: "u8 \<Rightarrow> rx_state \<Rightarrow> rx_state \<Rightarrow> nat" where
  "cursor_moved c s s' = nat (relative_sequence (or_expected (get_ordered s' c)) (or_expected (get_ordered s c)))"

inductive ordered_run ::
    "nat \<Rightarrow> (nat \<Rightarrow> bytes) \<Rightarrow> (nat \<Rightarrow> incoming_fragment option) \<Rightarrow> u8 \<Rightarrow> nat \<Rightarrow> rx_state \<Rightarrow> bool" for opt_size msg frag c where
  start: "ordered_run opt_size msg frag c 0 s"
    if "get_ordered s c = ordered_default" "chan_log c s = []"
| packet: "ordered_run opt_size msg frag c (e + cursor_moved c s s') s'"
    if "ordered_run opt_size msg frag c e s" "i < e + 16384" "e < i + 16384"
      "admit_reliable_ordered opt_size env entry c (seq_of i) (msg i) (frag i) s = (r, s')"
| drain: "ordered_run opt_size msg frag c (e + cursor_moved c s s') s'"
    if "ordered_run opt_size msg frag c e s" "drain_ordered_peer opt_size env entry ks k s = (r, s')"
| other: "ordered_run opt_size msg frag c e s'"
    if "ordered_run opt_size msg frag c e s" "same_channel c s s'"

text \<open>
  An unordered channel; \<open>R\<close> is the set of packets that were taken, \<open>handled\<close> lists those that led to an entry of the log with that
  entry, in the order in which they did, and the cursor stands at the first packet that was not taken.
\<close>

definition frontier :: "nat set \<Rightarrow> nat" where
  "frontier R = (LEAST j. j \<notin> R)"

inductive unordered_run ::
    "nat \<Rightarrow> (nat \<Rightarrow> bytes) \<Rightarrow> (nat \<Rightarrow> incoming_fragment option) \<Rightarrow> u8 \<Rightarrow> nat set \<Rightarrow> (nat \<times> bytes) list \<Rightarrow> rx_state \<Rightarrow> bool"
    for opt_size msg frag c where
  start: "unordered_run opt_size msg frag c {} [] s"
    if "get_unordered s c = unordered_default" "chan_log c s = []"
| packet: "unordered_run opt_size msg frag c (if get_unordered s' c = get_unordered s c then R else insert i R)
      (if chan_log c s' = chan_log c s then handled else handled @ [(i, last (chan_log c s'))]) s'"
    if "unordered_run opt_size msg frag c R handled s" "i < frontier R + 16384" "frontier R < i + 16384"
      "admit_reliable_unordered opt_size env entry c (seq_of i) (msg i) (frag i) s = (r, s')"
| other: "unordered_run opt_size msg frag c R handled s'"
    if "unordered_run opt_size msg frag c R handled s" "get_unordered s' c = get_unordered s c" "chan_log c s' = chan_log c s"

lemma in_order_start:
  assumes "get_ordered s c = ordered_default" "chan_log c s = []"
  shows "in_order msg frag c 0 s"
  using assms seen_default by (simp add: in_order_def seen_def ordered_default_def unordered_default_def future_ok_def)

lemma cursor_moved_in_order:
  assumes "in_order msg frag c e s" "in_order msg frag c e' s'" "e \<le> e'" "e' \<le> e + 129"
  shows "e + cursor_moved c s s' = e'"
proof -
  have "relative_sequence (seq_of e') (seq_of e) = int e' - int e" using assms(3,4) by (intro relative_seq_of) simp_all
  then show ?thesis using assms by (simp add: cursor_moved_def in_order_def)
qed

lemma ordered_run_in_order: "ordered_run opt_size msg frag c e s \<Longrightarrow> in_order msg frag c e s"
proof (induction rule: ordered_run.induct)
  case (start s)
  then show ?case by (rule in_order_start)
next
  case (packet e s i env entry r s')
  then obtain e' where "e \<le> e'" "e' \<le> e + 129" "in_order msg frag c e' s'" using admit_ordered_in_order[OF packet.IH packet(2,3,4)] by blast
  then show ?case using cursor_moved_in_order[OF packet.IH] by metis
next
  case (drain e s env entry ks k r s')
  then obtain e' where e': "e \<le> e'" "e' + waiting c s' \<le> e + waiting c s" "in_order msg frag c e' s'"
    using drain_peer_in_order[OF drain(2) drain.IH] by (auto simp: advanced_def)
  then have "e' \<le> e + 129" using waiting_short[OF drain.IH] by simp
  then show ?case using cursor_moved_in_order[OF drain.IH e'(3,1)] e'(3) by metis
next
  case (other e s s')
  then show ?case using in_order_same by blast
qed

lemma frontier_seen:
  assumes "seen e R st"
  shows "frontier R = e"
proof -
  have "\<forall>j<e. j \<in> R" "e \<notin> R" using assms by (auto simp: seen_def slots_ok_def)
  then show ?thesis unfolding frontier_def by (intro Least_equality) (auto simp: not_less[symmetric])
qed

definition handled_ok :: "(nat \<Rightarrow> bytes) \<Rightarrow> (nat \<Rightarrow> incoming_fragment option) \<Rightarrow> nat set \<Rightarrow> (nat \<times> bytes) list \<Rightarrow> bool" where
  "handled_ok msg frag R handled \<longleftrightarrow> distinct (map fst handled) \<and> set (map fst handled) \<subseteq> R \<and>
     (\<forall>i p. (i, p) \<in> set handled \<longrightarrow> frag i = None \<longrightarrow> p = msg i) \<and> (\<forall>i\<in>R. frag i = None \<longrightarrow> i \<in> set (map fst handled))"

lemma handled_ok_add: "handled_ok msg frag R handled \<Longrightarrow> i \<notin> R \<Longrightarrow> (frag i = None \<Longrightarrow> p = msg i) \<Longrightarrow>
    handled_ok msg frag (insert i R) (handled @ [(i, p)])"
  by (auto simp: handled_ok_def)

lemma handled_ok_skip: "handled_ok msg frag R handled \<Longrightarrow> frag i \<noteq> None \<Longrightarrow> handled_ok msg frag (insert i R) handled"
  by (auto simp: handled_ok_def)

lemma unordered_run_seen:
  "unordered_run opt_size msg frag c R handled s \<Longrightarrow>
    handled_ok msg frag R handled \<and> chan_log c s = map snd handled \<and> (\<exists>e. seen e R (get_unordered s c))"
proof (induction rule: unordered_run.induct)
  case (start s)
  then show ?case using seen_default by (auto simp: handled_ok_def)
next
  case (packet R handled s i env entry r s')
  obtain e where e: "seen e R (get_unordered s c)" using packet.IH by blast
  have near: "i < e + 16384" "e < i + 16384" using packet(2,3) frontier_seen[OF e] by simp_all
  from admit_unordered_step[of e R s c i opt_size env entry msg frag, OF e near packet(4)] show ?case
  proof
    assume "taken_once msg frag c R i s s'"
    then show ?thesis using packet.IH handled_ok_add[of msg frag R handled i] handled_ok_skip[of msg frag R handled i]
      by (auto simp: taken_once_def)
  next
    assume "left_alone c R i s s'"
    then show ?thesis using packet.IH chan_log_cong[of s' s c] by (auto simp: left_alone_def)
  qed
next
  case (other R handled s s')
  then show ?case by simp
qed

section \<open>Properties\<close>

text \<open>
  C5. On an ordered channel packets are handled in order, each at most once and without a gap, fragmented or not. In every reachable state, whatever
  was lost, duplicated, reordered, refused for want of budget or left waiting for a full queue, the cursor waits for packet \<open>e\<close>, and the
  messages that the channel has delivered belong each to a packet of its own among the first \<open>e\<close>, in the order of the packets; the whole messages among these packets are all delivered, exactly
  once and unaltered, and a packet with a part of a fragmented message delivers at most one message, at its place in the order (that it is the
  sender's message is the subject of the properties of fragments). Delivered means
  committed: put into the event channel, or consumed by the realtime handler and then committed under the open gate of the session. What
  the handler consumes at the moment the session closes is not committed, acknowledged or logged.
\<close>

theorem ordered_channel_delivers_prefix:
  assumes "ordered_run opt_size msg frag c e s"
  shows "or_expected (get_ordered s c) = seq_of e \<and> length (or_future (get_ordered s c)) \<le> 128 \<and>
    (\<exists>handled. chan_log c s = map snd handled \<and> sorted_wrt (<) (map fst handled) \<and> set (map fst handled) \<subseteq> {..<e} \<and>
      filter (\<lambda>(i, _). frag i = None) handled = map (\<lambda>i. (i, msg i)) (filter (\<lambda>i. frag i = None) [0..<e]))"
  using ordered_run_in_order[OF assms] future_short by (auto simp: in_order_def log_of_def)

definition rx_start :: rx_state where
  "rx_start = \<lparr>rx_id = 0, rx_peer = new_peer 0 0, rx_ordered = Map.empty, rx_unordered = Map.empty,
     rx_fragments = fragment_state_default, rx_budget = reorder_budget_new reorder_limits_default,
     rx_reorder_active = False, rx_admission = None, rx_log = [], rx_turn = 0\<rparr>"

definition yes :: "nat \<Rightarrow> turn" where
  "yes t = \<lparr>tn_consumed = False, tn_open = True, tn_commit = True, tn_after = True, tn_answer = Permit\<rparr>"

lemma rx_start_fresh:
  "get_ordered rx_start c = ordered_default" "get_unordered rx_start c = unordered_default" "chan_log c rx_start = []"
  by (simp_all add: rx_start_def get_ordered_def get_unordered_def chan_log_def)

lemma willing_yes: "willing yes"
  by (simp add: willing_def yes_def)

definition bytes_of :: "nat \<Rightarrow> bytes" where "bytes_of i = [of_nat i]"

text \<open>Packet 1, the second part of a message in two parts, overtakes packet 0: it is retained.\<close>

definition some_parts :: "nat \<Rightarrow> incoming_fragment option" where
  "some_parts i = (if i < 2 then Some \<lparr>if_id = 7, if_part = of_nat i, if_total = 2\<rparr> else None)"

definition overtaken :: rx_state where
  "overtaken = snd (admit_reliable_ordered 32 yes True 2 (seq_of 1) (bytes_of 1) (some_parts 1) rx_start)"

lemma overtaken_run: "ordered_run 32 bytes_of some_parts 2 (0 + cursor_moved 2 rx_start overtaken) overtaken"
proof (rule ordered_run.packet[OF ordered_run.start])
  show "admit_reliable_ordered 32 yes True 2 (seq_of 1) (bytes_of 1) (some_parts 1) rx_start =
    (fst (admit_reliable_ordered 32 yes True 2 (seq_of 1) (bytes_of 1) (some_parts 1) rx_start), overtaken)"
    by (simp add: overtaken_def)
qed (simp_all add: rx_start_fresh)

theorem ordered_channel_delivers_prefix_witness:
  "or_expected (get_ordered overtaken 2) = seq_of (cursor_moved 2 rx_start overtaken) \<and> length (or_future (get_ordered overtaken 2)) \<le> 128 \<and>
    (\<exists>handled. chan_log 2 overtaken = map snd handled \<and> set (map fst handled) \<subseteq> {..<cursor_moved 2 rx_start overtaken})"
  using ordered_channel_delivers_prefix[OF overtaken_run] by auto

text \<open>
  On a channel without fragmented messages, when the expected packet arrives and nothing refuses the event, it and every message that
  was waiting behind it are handled in one go: afterwards the cursor stands at a message that has not been
  received. The limit of 256 drained messages is never what stops it.
\<close>

lemma log_of_whole: "log_of msg (\<lambda>_. None) e log \<Longrightarrow> log = map msg [0..<e]"
  by (auto simp: log_of_def comp_def)

theorem expected_packet_closes_the_gap:
  assumes "ordered_run opt_size msg (\<lambda>_. None) c e s" and "willing env" and "rx_admission s = None"
    and "map_of (or_future (get_ordered s c)) (seq_of e) = None"
  shows "\<exists>s' e'. admit_reliable_ordered opt_size env True c (seq_of e) (msg e) None s = (Inr (), s') \<and> e < e' \<and>
    chan_log c s' = map msg [0..<e'] \<and> map_of (or_future (get_ordered s' c)) (seq_of e') = None"
proof -
  obtain s' e' where "admit_reliable_ordered opt_size env True c (seq_of e) (msg e) None s = (Inr (), s')" "e < e'"
    "in_order msg (\<lambda>_. None) c e' s'" "map_of (or_future (get_ordered s' c)) (seq_of e') = None"
    using admit_willing[OF assms(2,3) ordered_run_in_order[OF assms(1)] assms(4)] by blast
  then show ?thesis using log_of_whole by (auto simp: in_order_def)
qed

theorem expected_packet_closes_the_gap_witness:
  "\<exists>s' e'. admit_reliable_ordered 32 yes True 2 (seq_of 0) (bytes_of 0) None rx_start = (Inr (), s') \<and> 0 < e' \<and>
    chan_log 2 s' = map bytes_of [0..<e'] \<and> map_of (or_future (get_ordered s' 2)) (seq_of e') = None"
proof (rule expected_packet_closes_the_gap[OF ordered_run.start willing_yes])
  show "map_of (or_future (get_ordered rx_start 2)) (seq_of 0) = None"
    by (simp add: rx_start_fresh ordered_default_def)
qed (simp_all add: rx_start_fresh, simp add: rx_start_def)

text \<open>
  C6. On an unordered channel every packet is taken at most once, fragmented or not: in every
  reachable state the messages that the channel has delivered belong each to a packet of its own among those that were taken, whatever was
  duplicated or reordered; every whole message that was taken is delivered exactly once and unaltered, and a packet with a part of a fragmented message
  delivers at most one message. Delivered means put into the event channel or consumed by the realtime handler with the gate of the
  session open afterwards.
\<close>

theorem unordered_channel_exactly_once:
  assumes "unordered_run opt_size msg frag c R handled s"
  shows "chan_log c s = map snd handled \<and> distinct (map fst handled) \<and> set (map fst handled) \<subseteq> R \<and>
    (frag i = None \<longrightarrow> {p. (i, p) \<in> set handled} = (if i \<in> R then {msg i} else {}))"
proof -
  have ok: "handled_ok msg frag R handled" "chan_log c s = map snd handled" using unordered_run_seen[OF assms] by blast+
  have "{p. (i, p) \<in> set handled} = (if i \<in> R then {msg i} else {})" if whole: "frag i = None"
  proof (cases "i \<in> R")
    case True
    then obtain p where "(i, p) \<in> set handled" using ok(1) whole by (fastforce simp: handled_ok_def)
    moreover have "p = msg i" if "(i, p) \<in> set handled" for p using that ok(1) whole by (simp add: handled_ok_def)
    ultimately show ?thesis using True by auto
  qed (use ok(1) in \<open>force simp: handled_ok_def\<close>)
  then show ?thesis using ok by (simp add: handled_ok_def)
qed

lemma frontier_empty: "frontier {} = 0"
  by (simp add: frontier_def)

text \<open>Packet 3 comes first.\<close>

definition third_first :: rx_state where
  "third_first = snd (admit_reliable_unordered 32 yes True 0 (seq_of 3) (bytes_of 3) None rx_start)"

lemma third_first_eq: "third_first = log_unordered 0 (bytes_of 3) False (commit_unordered 0 (seq_of 3) (snd (take_turn yes (set_unordered 0 unordered_default rx_start))))"
proof -
  have q: "relative_sequence (seq_of 3) (un_expected unordered_default) = 3"
    using relative_seq_of[of 3 0] by (simp add: seq_of_def seq_plus_def unordered_default_def)
  have n: "\<not> unordered_contains unordered_default (seq_of 3)"
    by (simp add: unordered_contains_def unordered_default_def slot_holds_def DEFAULT_WINDOW_SIZE_def)
  show ?thesis
    by (simp add: third_first_def admit_reliable_unordered_def rx_start_fresh q n DEFAULT_WINDOW_SIZE_def take_turn_def yes_def Let_def)
qed

lemma third_first_run: "unordered_run 32 bytes_of some_parts 0 {3} [(3, bytes_of 3)] third_first"
proof -
  let ?admit = "admit_reliable_unordered 32 yes True 0 (seq_of 3) (bytes_of 3) (some_parts 3) rx_start"
  have "get_unordered third_first 0 = unordered_commit unordered_default (seq_of 3)"
    by (simp add: third_first_eq commit_unordered_def)
  moreover have "\<not> unordered_contains unordered_default (seq_of 3)" "slots_ok 0 {} (un_received unordered_default)"
    using seen_default by (simp_all add: unordered_contains_def unordered_default_def slot_holds_def DEFAULT_WINDOW_SIZE_def seen_def)
  ultimately have changed: "get_unordered third_first 0 \<noteq> get_unordered rx_start 0" using commit_changes by (metis rx_start_fresh(2))
  have "rx_log (commit_unordered 0 (seq_of 3) (snd (take_turn yes (set_unordered 0 unordered_default rx_start)))) = rx_log rx_start" by simp
  from chan_log_cong[OF this, of 0] have logged: "chan_log 0 third_first = [bytes_of 3]" by (simp add: third_first_eq rx_start_fresh)
  have call: "?admit = (fst ?admit, third_first)" by (simp add: third_first_def some_parts_def)
  have start: "unordered_run 32 bytes_of some_parts 0 {} [] rx_start" by (rule unordered_run.start) (simp_all add: rx_start_fresh)
  have "unordered_run 32 bytes_of some_parts 0 (if get_unordered third_first 0 = get_unordered rx_start 0 then {} else insert 3 {})
      (if chan_log 0 third_first = chan_log 0 rx_start then [] else [] @ [(3, last (chan_log 0 third_first))]) third_first"
    by (rule unordered_run.packet[OF start _ _ call]) (simp_all add: frontier_empty)
  then show ?thesis using changed logged by (simp add: rx_start_fresh)
qed

theorem unordered_channel_exactly_once_witness:
  "chan_log 0 third_first = [bytes_of 3] \<and> {p. (3, p) \<in> set [(3 :: nat, bytes_of 3)]} = {bytes_of 3}"
  using unordered_channel_exactly_once[OF third_first_run, of 3] by (simp add: some_parts_def)

text \<open>
  An acknowledgement is queued only for a number whose packet has been taken: a packet that
  is refused, because it is out of the window, the queue is full, the handler declined it or the session has
  closed, leaves the acknowledgement state alone, so the sender will send it again.
\<close>

theorem unordered_ack_only_after_delivery:
  assumes "unordered_run opt_size msg frag c R handled s" and "i < frontier R + 16384" and "frontier R < i + 16384"
    and "admit_reliable_unordered opt_size env entry c (seq_of i) (msg i) (frag i) s = (r, s')"
    and "rx_peer s' \<noteq> rx_peer s" and "frag i = None"
  shows "rx_peer s' = queue_ack (rx_peer s) c (seq_of i) \<and> (i \<in> R \<or> chan_log c s' = chan_log c s @ [msg i])"
proof -
  obtain e where e: "seen e R (get_unordered s c)" using unordered_run_seen[OF assms(1)] by blast
  have "i < e + 16384" "e < i + 16384" using assms(2,3) frontier_seen[OF e] by simp_all
  from admit_unordered_step[of e R s c i opt_size env entry msg frag, OF e this assms(4)] show ?thesis using assms(5,6) by (auto simp: taken_once_def left_alone_def)
qed

end
