(* ===== verification/PermissionProofs.thy ===== *)
theory PermissionProofs
  imports Permissions
begin

text \<open>
  What the permission store decides: the recursion over parent groups always ends, visits exactly the groups
  that are reachable, and the decisions do not depend on the order in which anything is visited; a denial
  anywhere wins over every grant of the same node.
\<close>

section \<open>Case folding\<close>

text \<open>The documented value of \<open>to_uppercase\<close> on ASCII.\<close>

definition ascii_upper :: "upper \<Rightarrow> bool" where
  "ascii_upper upper \<longleftrightarrow> (\<forall>c. 0 \<le> c \<and> c < 128 \<longrightarrow> upper c = [if 97 \<le> c \<and> c \<le> 122 then c - 32 else c])"

lemma ordinal_ascii: "ascii_upper upper \<Longrightarrow> 0 \<le> c \<Longrightarrow> c < 128 \<Longrightarrow> to_ascii_lowercase (ordinal_upper upper c) = to_ascii_lowercase c"
  by (auto simp: ascii_upper_def ordinal_upper_def to_ascii_lowercase_def)

lemma same_iff_key:
  assumes "ascii_upper upper"
  shows "same upper a b \<longleftrightarrow> ordinal_ignore_case_key upper a = ordinal_ignore_case_key upper b"
proof -
  have "ordinal_ignore_case_key upper s = map to_ascii_lowercase s" if "is_ascii s" for s
    using that ordinal_ascii[OF assms] by (auto simp: ordinal_ignore_case_key_def is_ascii_def list_all_iff)
  then show ?thesis by (auto simp: same_def ordinal_ignore_case_equal_def)
qed

section \<open>Decisions as sets\<close>

definition verdict :: "rstring set \<Rightarrow> rstring set \<Rightarrow> decisions" where
  "verdict A D = (\<lambda>n. if n \<in> D then Some False else if n \<in> A then Some True else None)"

definition granted :: "upper \<Rightarrow> rstring list \<Rightarrow> rstring set" where
  "granted upper raws = {n. \<exists>raw\<in>set raws. raw_rule upper raw = Some (n, True)}"

definition denied :: "upper \<Rightarrow> rstring list \<Rightarrow> rstring set" where
  "denied upper raws = {n. \<exists>raw\<in>set raws. raw_rule upper raw = Some (n, False)}"

lemma verdict_simps [simp]:
  "verdict A D n = Some False \<longleftrightarrow> n \<in> D" "verdict {} {} = Map.empty"
  by (auto simp: verdict_def)

lemma apply_raw_nodes_verdict:
  "apply_raw_nodes upper raws (verdict A D) = verdict (A \<union> granted upper raws) (D \<union> denied upper raws)"
proof (induction raws arbitrary: A D)
  case Nil
  then show ?case by (simp add: granted_def denied_def)
next
  case (Cons raw raws)
  have g: "granted upper (raw # raws) = granted upper [raw] \<union> granted upper raws"
    and d: "denied upper (raw # raws) = denied upper [raw] \<union> denied upper raws"
    by (auto simp: granted_def denied_def)
  have "(case raw_rule upper raw of None \<Rightarrow> verdict A D
      | Some (node, allow) \<Rightarrow> if verdict A D node = Some False then verdict A D else (verdict A D)(node \<mapsto> allow)) =
      verdict (A \<union> granted upper [raw]) (D \<union> denied upper [raw])"
  proof (cases "raw_rule upper raw")
    case (Some x)
    then show ?thesis by (cases x; cases "snd x") (auto simp: granted_def denied_def verdict_def fun_eq_iff)
  qed (simp add: granted_def denied_def)
  then show ?case using Cons.IH by (simp add: g d Un_assoc)
qed

section \<open>The group graph\<close>

text \<open>A group is addressed by its folded name; the store holds no two groups with the same folded name.\<close>

definition group_at :: "upper \<Rightarrow> permission_store \<Rightarrow> rstring \<Rightarrow> permission_group option" where
  "group_at upper store k =
     map_option snd (find (\<lambda>p. ordinal_ignore_case_key upper (fst p) = k) (ps_groups store))"

definition folded_distinct :: "upper \<Rightarrow> (rstring \<times> 'a) list \<Rightarrow> bool" where
  "folded_distinct upper xs \<longleftrightarrow> distinct (map (\<lambda>p. ordinal_ignore_case_key upper (fst p)) xs)"

definition edges :: "upper \<Rightarrow> permission_store \<Rightarrow> (rstring \<times> rstring) set" where
  "edges upper store = {(k, l). \<exists>g. group_at upper store k = Some g \<and>
     l \<in> ordinal_ignore_case_key upper ` set (pg_parents g)}"

definition reachable_groups :: "upper \<Rightarrow> permission_store \<Rightarrow> rstring list \<Rightarrow> rstring set" where
  "reachable_groups upper store names = (edges upper store)\<^sup>* `` (ordinal_ignore_case_key upper ` set names)"

lemma find_folded:
  assumes "folded_distinct upper xs" "p \<in> set xs"
  shows "find (\<lambda>q. ordinal_ignore_case_key upper (fst q) = ordinal_ignore_case_key upper (fst p)) xs = Some p"
  using assms
proof (induction xs)
  case (Cons x xs)
  then show ?case by (auto simp: folded_distinct_def)
qed simp

lemma folded_distinct_keys: "folded_distinct upper xs \<Longrightarrow> distinct (map fst xs)"
  unfolding folded_distinct_def using distinct_map[of "ordinal_ignore_case_key upper" "map fst xs"]
  by (simp add: comp_def)

text \<open>The lookup by exact name, then by folded name, finds the group of the folded name.\<close>

lemma key_folded:
  assumes u: "ascii_upper upper" and d: "folded_distinct upper m"
  shows "key upper m name = map_option fst (find (\<lambda>p. ordinal_ignore_case_key upper (fst p) = ordinal_ignore_case_key upper name) m)"
proof (cases "map_of m name")
  case None
  then show ?thesis by (simp add: key_def same_iff_key[OF u])
next
  case (Some v)
  have "(name, v) \<in> set m" using Some by (rule map_of_SomeD)
  from find_folded[OF d this] show ?thesis using Some by (simp add: key_def)
qed

lemma key_lookup:
  assumes u: "ascii_upper upper" and d: "folded_distinct upper m" and k: "key upper m name = Some k"
  shows "\<exists>v. map_of m k = Some v \<and>
    find (\<lambda>p. ordinal_ignore_case_key upper (fst p) = ordinal_ignore_case_key upper name) m = Some (k, v)"
proof -
  obtain p where p: "find (\<lambda>p. ordinal_ignore_case_key upper (fst p) = ordinal_ignore_case_key upper name) m = Some p"
    "fst p = k" using k key_folded[OF u d] by auto
  have "p \<in> set m" using p(1) by (auto simp: find_Some_iff)
  then have "map_of m k = Some (snd p)" using folded_distinct_keys[OF d] p(2) by (metis map_of_is_SomeI prod.collapse)
  then show ?thesis using p by (metis prod.collapse)
qed

lemma group_of_key:
  assumes "ascii_upper upper" "folded_distinct upper (ps_groups store)"
  shows "key upper (ps_groups store) name = None \<Longrightarrow> group_at upper store (ordinal_ignore_case_key upper name) = None"
    and "key upper (ps_groups store) name = Some k \<Longrightarrow>
      group_at upper store (ordinal_ignore_case_key upper name) = Some (the (map_of (ps_groups store) k))"
  using key_folded[OF assms, of name] key_lookup[OF assms, of name k] by (auto simp: group_at_def)

definition grants :: "upper \<Rightarrow> permission_store \<Rightarrow> rstring set \<Rightarrow> rstring set" where
  "grants upper store K = {n. \<exists>k\<in>K. \<exists>g. group_at upper store k = Some g \<and> n \<in> granted upper (pg_nodes g)}"

definition denials :: "upper \<Rightarrow> permission_store \<Rightarrow> rstring set \<Rightarrow> rstring set" where
  "denials upper store K = {n. \<exists>k\<in>K. \<exists>g. group_at upper store k = Some g \<and> n \<in> denied upper (pg_nodes g)}"

lemma grants_union:
  "grants upper store (K \<union> L) = grants upper store K \<union> grants upper store L"
  "denials upper store (K \<union> L) = denials upper store K \<union> denials upper store L"
  by (auto simp: grants_def denials_def)

lemma grants_simps [simp]:
  "grants upper store {} = {}" "denials upper store {} = {}"
  "group_at upper store k = Some g \<Longrightarrow> grants upper store {k} = granted upper (pg_nodes g)"
  "group_at upper store k = Some g \<Longrightarrow> denials upper store {k} = denied upper (pg_nodes g)"
  "group_at upper store k = None \<Longrightarrow> grants upper store {k} = {}"
  "group_at upper store k = None \<Longrightarrow> denials upper store {k} = {}"
  by (auto simp: grants_def denials_def)

section \<open>The traversal\<close>

text \<open>
  From visited set \<open>v\<close> to \<open>v'\<close>: the starting points are visited, what is new is reachable from them, and
  everything a new group points to is visited.
\<close>

definition explored :: "upper \<Rightarrow> permission_store \<Rightarrow> rstring set \<Rightarrow> rstring set \<Rightarrow> rstring set \<Rightarrow> bool" where
  "explored upper store starts v v' \<longleftrightarrow>
     v \<subseteq> v' \<and> starts \<subseteq> v' \<and> v' - v \<subseteq> (edges upper store)\<^sup>* `` starts \<and>
     edges upper store `` (v' - v) \<subseteq> v'"

text \<open>The decisions are extended by the rules of the groups \<open>K\<close>.\<close>

definition extends :: "upper \<Rightarrow> permission_store \<Rightarrow> rstring set \<Rightarrow> decisions \<Rightarrow> decisions \<Rightarrow> bool" where
  "extends upper store K d d' \<longleftrightarrow>
     (\<forall>A D. d = verdict A D \<longrightarrow> d' = verdict (A \<union> grants upper store K) (D \<union> denials upper store K))"

lemma explored_skip: "starts \<subseteq> v \<Longrightarrow> explored upper store starts v v"
  by (auto simp: explored_def)

lemma explored_trans:
  assumes a: "explored upper store s1 v v1" and b: "explored upper store s2 v1 v2"
  shows "explored upper store (s1 \<union> s2) v v2"
proof -
  have s: "v2 - v = (v1 - v) \<union> (v2 - v1)" using a b by (auto simp: explored_def)
  have "v1 - v \<subseteq> (edges upper store)\<^sup>* `` s1" "v2 - v1 \<subseteq> (edges upper store)\<^sup>* `` s2"
    "edges upper store `` (v1 - v) \<subseteq> v1" "edges upper store `` (v2 - v1) \<subseteq> v2" "v \<subseteq> v1" "v1 \<subseteq> v2" "s1 \<subseteq> v1" "s2 \<subseteq> v2"
    using a b by (simp_all add: explored_def)
  then have "v2 - v \<subseteq> (edges upper store)\<^sup>* `` (s1 \<union> s2)" "edges upper store `` (v2 - v) \<subseteq> v2" "v \<subseteq> v2" "s1 \<union> s2 \<subseteq> v2"
    unfolding s Image_Un by (simp_all add: le_supI1 le_supI2)
  then show ?thesis by (simp add: explored_def)
qed

lemma explored_enter:
  assumes "explored upper store parents (insert k v) v'" "edges upper store `` {k} = parents" "k \<notin> v"
  shows "explored upper store {k} v v'"
proof -
  have s: "v' - v = insert k (v' - insert k v)" using assms by (auto simp: explored_def)
  have "(edges upper store)\<^sup>* `` parents \<subseteq> (edges upper store)\<^sup>* `` {k}"
    unfolding assms(2)[symmetric] by (auto intro: converse_rtrancl_into_rtrancl)
  moreover have "edges upper store `` (v' - v) \<subseteq> v'"
    unfolding s using assms by (auto simp: explored_def)
  ultimately show ?thesis using assms(1) unfolding explored_def s by (auto dest: subsetD)
qed

lemma explored_closed: "explored upper store starts {} v' \<Longrightarrow> v' = (edges upper store)\<^sup>* `` starts"
proof
  assume e: "explored upper store starts {} v'"
  then show "v' \<subseteq> (edges upper store)\<^sup>* `` starts" by (simp add: explored_def)
  have "edges upper store `` v' \<subseteq> v'" using e by (simp add: explored_def)
  then have "(edges upper store)\<^sup>* `` v' \<subseteq> v'" by (simp add: Image_closed_trancl)
  then show "(edges upper store)\<^sup>* `` starts \<subseteq> v'" using e by (auto simp: explored_def)
qed

lemma extends_refl [simp]: "extends upper store {} d d"
  by (simp add: extends_def)

lemma extends_trans:
  "extends upper store K d d1 \<Longrightarrow> extends upper store L d1 d2 \<Longrightarrow> extends upper store (K \<union> L) d d2"
  by (simp add: extends_def grants_union Un_assoc)

lemma extends_nodes:
  "extends upper store K d d1 \<Longrightarrow> group_at upper store k = Some g \<Longrightarrow>
   extends upper store (insert k K) d (apply_raw_nodes upper (pg_nodes g) d1)"
  unfolding insert_is_Un[of k K] grants_union extends_def
  by (simp add: apply_raw_nodes_verdict grants_union ac_simps)

lemma edges_of_group:
  "group_at upper store k = Some g \<Longrightarrow> edges upper store `` {k} = ordinal_ignore_case_key upper ` set (pg_parents g)"
  "group_at upper store k = None \<Longrightarrow> edges upper store `` {k} = {}"
  by (auto simp: edges_def)

definition traversal :: "upper \<Rightarrow> permission_store \<Rightarrow> rstring set \<Rightarrow> rstring list \<times> decisions \<Rightarrow> rstring list \<times> decisions \<Rightarrow> bool" where
  "traversal upper store starts st st' \<longleftrightarrow>
     explored upper store starts (set (fst st)) (set (fst st')) \<and>
     extends upper store (set (fst st') - set (fst st)) (snd st) (snd st')"

lemma traversal_trans:
  assumes "traversal upper store s1 st st1" "traversal upper store s2 st1 st2"
  shows "traversal upper store (s1 \<union> s2) st st2"
proof -
  have s: "set (fst st2) - set (fst st) = (set (fst st1) - set (fst st)) \<union> (set (fst st2) - set (fst st1))"
    using assms by (auto simp: traversal_def explored_def)
  show ?thesis using assms unfolding traversal_def s by (auto intro: explored_trans extends_trans)
qed

lemma traversal_enter:
  assumes t: "traversal upper store (ordinal_ignore_case_key upper ` set (pg_parents g)) (k # v, d) (v', d')"
    and g: "group_at upper store k = Some g" and k: "k \<notin> set v"
  shows "traversal upper store {k} (v, d) (v', apply_raw_nodes upper (pg_nodes g) d')"
proof -
  have "set v' - set v = insert k (set v' - insert k (set v))"
    using t k by (auto simp: traversal_def explored_def)
  then show ?thesis using t k g
    by (auto simp: traversal_def intro: explored_enter[OF _ edges_of_group(1)] extends_nodes)
qed

lemma traversal_unknown:
  assumes "group_at upper store k = None"
  shows "traversal upper store {k} (v, d) (k # v, d)"
proof -
  have "insert k (set v) - set v \<subseteq> {k}" by auto
  then have "extends upper store (insert k (set v) - set v) d d"
    using assms by (cases "k \<in> set v") (auto simp: extends_def insert_Diff_if)
  then show ?thesis using assms by (auto simp: traversal_def explored_def edges_def)
qed

lemma apply_groups_traversal:
  assumes u: "ascii_upper upper" and dist: "folded_distinct upper (ps_groups store)"
  shows "apply_group depth upper name store st = Some st' \<Longrightarrow>
      traversal upper store {ordinal_ignore_case_key upper name} st st'"
    and "apply_groups depth upper names store st = Some st' \<Longrightarrow>
      traversal upper store (ordinal_ignore_case_key upper ` set names) st st'"
  using assms
proof (induction depth upper name store st and depth upper names store st arbitrary: st' and st'
    rule: apply_group_apply_groups.induct)
  case (2 depth upper name store v d)
  let ?k = "ordinal_ignore_case_key upper name"
  show ?case
  proof (cases "?k \<in> set v")
    case True
    then show ?thesis using 2 by (auto simp: traversal_def explored_skip)
  next
    case False
    show ?thesis
    proof (cases "key upper (ps_groups store) name")
      case None
      then show ?thesis using 2 False group_of_key(1)[of upper store name] by (auto intro: traversal_unknown)
    next
      case (Some k)
      let ?g = "the (map_of (ps_groups store) k)"
      obtain v1 d1 where r: "apply_groups depth upper (pg_parents ?g) store (?k # v, d) = Some (v1, d1)"
        and st': "st' = (v1, apply_raw_nodes upper (pg_nodes ?g) d1)"
        using 2(2) False Some by (auto simp: Let_def split: option.splits)
      have "traversal upper store (ordinal_ignore_case_key upper ` set (pg_parents ?g)) (?k # v, d) (v1, d1)"
        using 2(1)[OF False refl Some refl r] 2(3,4) by simp
      then show ?thesis unfolding st'
        using group_of_key(2)[OF 2(3,4) Some] False by (rule traversal_enter)
    qed
  qed
next
  case (4 depth upper name names store st)
  then show ?case
    by (auto split: option.splits dest!: 4(2) intro: traversal_trans[of _ _ "{_}", simplified])
qed (auto simp: traversal_def explored_def)

section \<open>The depth is enough\<close>

definition group_keys :: "upper \<Rightarrow> permission_store \<Rightarrow> rstring set" where
  "group_keys upper store = (\<lambda>p. ordinal_ignore_case_key upper (fst p)) ` set (ps_groups store)"

lemma group_keys_bounds:
  "finite (group_keys upper store)" "card (group_keys upper store - V) < Suc (length (ps_groups store))"
proof -
  show f: "finite (group_keys upper store)" by (simp add: group_keys_def)
  have "card (group_keys upper store - V) \<le> card (group_keys upper store)" using f by (auto intro: card_mono)
  also have "\<dots> \<le> card (set (ps_groups store))" by (simp add: group_keys_def card_image_le)
  also have "\<dots> \<le> length (ps_groups store)" by (rule card_length)
  finally show "card (group_keys upper store - V) < Suc (length (ps_groups store))" by simp
qed

lemma group_at_keys: "group_at upper store k = Some g \<Longrightarrow> k \<in> group_keys upper store"
  by (auto simp: group_at_def group_keys_def find_Some_iff intro!: image_eqI nth_mem)

lemma card_unvisited_less:
  "group_at upper store k = Some g \<Longrightarrow> k \<notin> V \<Longrightarrow>
   card (group_keys upper store - insert k V) < card (group_keys upper store - V)"
  by (rule psubset_card_mono) (auto simp: group_keys_bounds dest: group_at_keys)

lemma card_unvisited_mono:
  "V \<subseteq> W \<Longrightarrow> card (group_keys upper store - W) \<le> card (group_keys upper store - V)"
  by (rule card_mono) (auto simp: group_keys_bounds)

lemma apply_groups_ends:
  assumes "ascii_upper upper" "folded_distinct upper (ps_groups store)"
  shows "card (group_keys upper store - set (fst st)) < depth \<Longrightarrow> \<exists>st'. apply_group depth upper name store st = Some st'"
    and "card (group_keys upper store - set (fst st)) < depth \<Longrightarrow> \<exists>st'. apply_groups depth upper names store st = Some st'"
  using assms
proof (induction depth upper name store st and depth upper names store st rule: apply_group_apply_groups.induct)
  case (2 depth upper name store v d)
  show ?case
  proof (cases "key upper (ps_groups store) name")
    case (Some k)
    let ?k = "ordinal_ignore_case_key upper name"
    have "card (group_keys upper store - set (?k # v)) < depth" if "?k \<notin> set v"
      using card_unvisited_less[OF group_of_key(2)[OF 2(3,4) Some] that] 2(2) by simp
    then show ?thesis using 2(1)[OF _ refl Some refl] 2(3,4) Some by (fastforce simp: Let_def)
  qed simp
next
  case (4 depth upper name names store st)
  then obtain st1 where r: "apply_group depth upper name store st = Some st1" by blast
  then have "set (fst st) \<subseteq> set (fst st1)"
    using apply_groups_traversal(1)[OF 4(4,5)] by (auto simp: traversal_def explored_def)
  then have "card (group_keys upper store - set (fst st1)) < depth"
    using card_unvisited_mono 4(3) by (meson order.strict_trans1)
  then show ?case using 4(2)[OF r] 4(4,5) r by simp
qed auto

declare apply_group.simps [simp del] apply_groups.simps [simp del]

section \<open>What a user may do\<close>

definition user_at :: "upper \<Rightarrow> permission_store \<Rightarrow> rstring \<Rightarrow> permission_user option" where
  "user_at upper store uuid = map_option snd
     (find (\<lambda>p. ordinal_ignore_case_key upper (fst p) = ordinal_ignore_case_key upper uuid) (ps_users store))"

text \<open>A user without an entry belongs to the default group and has no rules of their own.\<close>

definition memberships :: "upper \<Rightarrow> permission_store \<Rightarrow> rstring \<Rightarrow> rstring list" where
  "memberships upper store uuid = (case user_at upper store uuid of Some u \<Rightarrow> pu_groups u | None \<Rightarrow> [lit ''default''])"

definition own_nodes :: "upper \<Rightarrow> permission_store \<Rightarrow> rstring \<Rightarrow> rstring list" where
  "own_nodes upper store uuid = (case user_at upper store uuid of Some u \<Rightarrow> pu_nodes u | None \<Rightarrow> [])"

definition user_grants :: "upper \<Rightarrow> permission_store \<Rightarrow> rstring \<Rightarrow> rstring set" where
  "user_grants upper store uuid =
     grants upper store (reachable_groups upper store (memberships upper store uuid)) \<union> granted upper (own_nodes upper store uuid)"

definition user_denials :: "upper \<Rightarrow> permission_store \<Rightarrow> rstring \<Rightarrow> rstring set" where
  "user_denials upper store uuid =
     denials upper store (reachable_groups upper store (memberships upper store uuid)) \<union> denied upper (own_nodes upper store uuid)"

definition store_ok :: "upper \<Rightarrow> permission_store \<Rightarrow> bool" where
  "store_ok upper store \<longleftrightarrow>
     folded_distinct upper (ps_users store) \<and> folded_distinct upper (ps_groups store) \<and> folded_distinct upper (ps_seeded store)"

lemma user_of_key:
  assumes "ascii_upper upper" "store_ok upper store"
  shows "key upper (ps_users store) uuid = None \<Longrightarrow> user_at upper store uuid = None"
    and "key upper (ps_users store) uuid = Some k \<Longrightarrow> user_at upper store uuid = Some (the (map_of (ps_users store) k))"
proof -
  have d: "folded_distinct upper (ps_users store)" using assms(2) by (simp add: store_ok_def)
  show "key upper (ps_users store) uuid = None \<Longrightarrow> user_at upper store uuid = None"
    using key_folded[OF assms(1) d] by (simp add: user_at_def)
  show "key upper (ps_users store) uuid = Some k \<Longrightarrow> user_at upper store uuid = Some (the (map_of (ps_users store) k))"
    by (drule key_lookup[OF assms(1) d]) (auto simp: user_at_def)
qed

lemma extends_from_nothing:
  assumes "extends upper store K Map.empty d"
  shows "d = verdict (grants upper store K) (denials upper store K)"
proof -
  have "d = verdict ({} \<union> grants upper store K) ({} \<union> denials upper store K)"
    using assms unfolding extends_def verdict_simps(2)[symmetric] by blast
  then show ?thesis by simp
qed

lemma traversal_from_nothing:
  assumes "traversal upper store (ordinal_ignore_case_key upper ` set names) ([], Map.empty) (v, d)"
  shows "set v = reachable_groups upper store names"
    and "d = verdict (grants upper store (set v)) (denials upper store (set v))"
proof -
  show "set v = reachable_groups upper store names"
    using assms explored_closed[of upper store _ "set v"] by (simp add: traversal_def reachable_groups_def)
  show "d = verdict (grants upper store (set v)) (denials upper store (set v))"
    using assms extends_from_nothing[of upper store "set v" d] by (simp add: traversal_def)
qed

lemma apply_groups_result:
  assumes "ascii_upper upper" "store_ok upper store"
  obtains v where "apply_groups (Suc (length (ps_groups store))) upper names store ([], Map.empty) =
    Some (v, verdict (grants upper store (reachable_groups upper store names)) (denials upper store (reachable_groups upper store names)))"
proof -
  have ok: "folded_distinct upper (ps_groups store)" using assms(2) by (simp add: store_ok_def)
  obtain v d where r: "apply_groups (Suc (length (ps_groups store))) upper names store ([], Map.empty) = Some (v, d)"
    using apply_groups_ends(2)[OF assms(1) ok, of "([], Map.empty)", OF group_keys_bounds(2)] by (metis surj_pair)
  from traversal_from_nothing[OF apply_groups_traversal(2)[OF assms(1) ok r]] show ?thesis using r that by simp
qed

lemma apply_group_as_groups: "apply_groups depth upper [name] store st = apply_group depth upper name store st"
  by (simp add: apply_groups.simps split: option.splits)

lemma effective_decisions_verdict:
  assumes u: "ascii_upper upper" and ok: "store_ok upper store"
  shows "effective_decisions upper store uuid = verdict (user_grants upper store uuid) (user_denials upper store uuid)"
proof (cases "key upper (ps_users store) uuid")
  case None
  obtain v where "apply_groups (Suc (length (ps_groups store))) upper [lit ''default''] store ([], Map.empty) =
      Some (v, verdict (grants upper store (reachable_groups upper store [lit ''default'']))
        (denials upper store (reachable_groups upper store [lit ''default''])))"
    using u ok by (rule apply_groups_result)
  then show ?thesis using None user_of_key(1)[OF u ok None]
    by (simp add: effective_decisions_def apply_group_as_groups user_grants_def user_denials_def memberships_def own_nodes_def
        granted_def denied_def)
next
  case (Some k)
  let ?u = "the (map_of (ps_users store) k)"
  obtain v where "apply_groups (Suc (length (ps_groups store))) upper (pu_groups ?u) store ([], Map.empty) =
      Some (v, verdict (grants upper store (reachable_groups upper store (pu_groups ?u)))
        (denials upper store (reachable_groups upper store (pu_groups ?u))))"
    using u ok by (rule apply_groups_result)
  then show ?thesis using Some user_of_key(2)[OF u ok Some]
    by (simp add: effective_decisions_def user_grants_def user_denials_def memberships_def own_nodes_def apply_raw_nodes_verdict Let_def)
qed

section \<open>Group membership\<close>

text \<open>The search for a target group stops at the first hit; without one it has explored everything.\<close>

definition searched :: "upper \<Rightarrow> permission_store \<Rightarrow> rstring \<Rightarrow> rstring set \<Rightarrow> rstring list \<Rightarrow> bool \<times> rstring list \<Rightarrow> bool" where
  "searched upper store target starts v r \<longleftrightarrow>
     (if fst r then target \<in> (edges upper store)\<^sup>* `` starts
      else explored upper store starts (set v) (set (snd r)) \<and> target \<notin> set (snd r) - set v)"

lemma searched_trans:
  assumes "searched upper store target s1 v (False, v1)" "searched upper store target s2 v1 r"
  shows "searched upper store target (s1 \<union> s2) v r"
  using assms by (auto simp: searched_def intro: explored_trans split: if_splits)

lemma searched_enter:
  assumes s: "searched upper store target (ordinal_ignore_case_key upper ` set (pg_parents g)) (k # v) r"
    and g: "group_at upper store k = Some g" and k: "k \<notin> set v" "k \<noteq> target"
  shows "searched upper store target {k} v r"
proof (cases "fst r")
  case True
  then obtain l where "l \<in> edges upper store `` {k}" "(l, target) \<in> (edges upper store)\<^sup>*"
    using s edges_of_group(1)[OF g] by (auto simp: searched_def)
  then show ?thesis using True by (auto simp: searched_def intro: converse_rtrancl_into_rtrancl)
next
  case False
  then show ?thesis using s k by (auto simp: searched_def intro: explored_enter[OF _ edges_of_group(1)[OF g]])
qed

lemma searched_unknown:
  "group_at upper store k = None \<Longrightarrow> k \<noteq> target \<Longrightarrow> searched upper store target {k} v (False, k # v)"
  by (auto simp: searched_def explored_def edges_def)

lemma inherits_searched:
  assumes "ascii_upper upper" "folded_distinct upper (ps_groups store)"
  shows "inherits_group depth upper name target store v = Some r \<Longrightarrow>
      searched upper store (ordinal_ignore_case_key upper target) {ordinal_ignore_case_key upper name} v r"
    and "inherits_any depth upper names target store v = Some r \<Longrightarrow>
      searched upper store (ordinal_ignore_case_key upper target) (ordinal_ignore_case_key upper ` set names) v r"
  using assms
proof (induction depth upper name target store v and depth upper names target store v arbitrary: r and r
    rule: inherits_group_inherits_any.induct)
  case (2 depth upper name target store v)
  let ?k = "ordinal_ignore_case_key upper name"
  consider "same upper name target" | "\<not> same upper name target" "?k \<in> set v"
    | "\<not> same upper name target" "?k \<notin> set v" "key upper (ps_groups store) name = None"
    | k where "\<not> same upper name target" "?k \<notin> set v" "key upper (ps_groups store) name = Some k" by fastforce
  then show ?case
  proof cases
    case 1
    then show ?thesis using 2(2,3) by (auto simp: searched_def same_iff_key)
  next
    case 2
    then show ?thesis using "2.prems" by (auto simp: searched_def explored_skip)
  next
    case 3
    then show ?thesis using "2.prems" group_of_key(1)[of upper store name]
      by (auto simp: same_iff_key intro: searched_unknown)
  next
    case (4 k)
    let ?g = "the (map_of (ps_groups store) k)"
    have "inherits_any depth upper (pg_parents ?g) target store (?k # v) = Some r"
      using "2.prems"(1) 4 by simp
    then have "searched upper store (ordinal_ignore_case_key upper target) (ordinal_ignore_case_key upper ` set (pg_parents ?g)) (?k # v) r"
      using "2.IH"[OF 4(1,2) refl 4(3)] "2.prems" by simp
    then show ?thesis using group_of_key(2)[OF "2.prems"(2,3) 4(3)] 4(2)
      by (rule searched_enter) (use 4(1) "2.prems"(2) in \<open>simp add: same_iff_key\<close>)
  qed
next
  case (4 depth upper name names target store v)
  then obtain b v1 where r: "inherits_group depth upper name target store v = Some (b, v1)" by (auto split: option.splits)
  have s: "searched upper store (ordinal_ignore_case_key upper target) {ordinal_ignore_case_key upper name} v (b, v1)"
    using 4(1)[OF r 4(4,5)] .
  show ?case
  proof (cases b)
    case True
    then show ?thesis using s r 4(3) by (auto simp: searched_def)
  next
    case False
    then have "searched upper store (ordinal_ignore_case_key upper target) (ordinal_ignore_case_key upper ` set names) v1 r"
      using r 4 by simp
    from searched_trans[OF _ this] s False show ?thesis by fastforce
  qed
qed (auto simp: searched_def explored_def)

lemma inherits_ends:
  assumes "ascii_upper upper" "folded_distinct upper (ps_groups store)"
  shows "card (group_keys upper store - set v) < depth \<Longrightarrow> \<exists>r. inherits_group depth upper name target store v = Some r"
    and "card (group_keys upper store - set v) < depth \<Longrightarrow> \<exists>r. inherits_any depth upper names target store v = Some r"
  using assms
proof (induction depth upper name target store v and depth upper names target store v rule: inherits_group_inherits_any.induct)
  case (2 depth upper name target store v)
  show ?case
  proof (cases "key upper (ps_groups store) name")
    case (Some k)
    let ?k = "ordinal_ignore_case_key upper name"
    have "card (group_keys upper store - set (?k # v)) < depth" if "?k \<notin> set v"
      using card_unvisited_less[OF group_of_key(2)[OF 2(3,4) Some] that] 2(2) by simp
    then show ?thesis using 2(1)[OF _ _ refl Some _ 2(3,4)] Some
      by (cases "same upper name target"; cases "?k \<in> set v") auto
  qed auto
next
  case (4 depth upper name names target store v)
  then obtain b v1 where r: "inherits_group depth upper name target store v = Some (b, v1)" by auto
  show ?case
  proof (cases b)
    case False
    then have "set v \<subseteq> set v1" using inherits_searched(1)[OF 4(4,5) r] by (auto simp: searched_def explored_def)
    then have "card (group_keys upper store - set v1) < depth"
      using card_unvisited_mono 4(3) by (meson order.strict_trans1)
    then show ?thesis using 4(2)[OF r] 4(4,5) r False by simp
  qed (auto simp: r)
qed auto

lemma inherits_any_result:
  assumes "ascii_upper upper" "store_ok upper store"
  obtains v where "inherits_any (Suc (length (ps_groups store))) upper names target store [] =
    Some (ordinal_ignore_case_key upper target \<in> reachable_groups upper store names, v)"
proof -
  have ok: "folded_distinct upper (ps_groups store)" using assms(2) by (simp add: store_ok_def)
  obtain b v where r: "inherits_any (Suc (length (ps_groups store))) upper names target store [] = Some (b, v)"
    using inherits_ends(2)[OF assms(1) ok, of "[]", OF group_keys_bounds(2)] by (metis surj_pair)
  have "b \<longleftrightarrow> ordinal_ignore_case_key upper target \<in> reachable_groups upper store names"
    using inherits_searched(2)[OF assms(1) ok r] explored_closed[of upper store _ "set v"]
    by (auto simp: searched_def reachable_groups_def split: if_splits)
  then show ?thesis using r that by simp
qed

lemma inherits_group_as_any:
  "inherits_any depth upper [name] target store v = inherits_group depth upper name target store v"
  by (auto simp: inherits_any.simps split: option.splits bool.splits)

declare inherits_group.simps [simp del] inherits_any.simps [simp del]

lemma is_in_group_iff:
  assumes u: "ascii_upper upper" and ok: "store_ok upper (pm_store m)"
  shows "is_in_group upper m uuid grp \<longleftrightarrow> trim uuid \<noteq> [] \<and> trim grp \<noteq> [] \<and>
    ordinal_ignore_case_key upper (trim grp) \<in> reachable_groups upper (pm_store m) (memberships upper (pm_store m) uuid)"
proof (cases "key upper (ps_users (pm_store m)) uuid")
  case None
  show ?thesis
    by (rule inherits_any_result[OF u ok, of "[lit ''default'']" "trim grp"])
      (simp add: is_in_group_def Let_def None user_of_key(1)[OF u ok None] memberships_def inherits_group_as_any)
next
  case (Some k)
  show ?thesis
    by (rule inherits_any_result[OF u ok, of "pu_groups (the (map_of (ps_users (pm_store m)) k))" "trim grp"])
      (simp add: is_in_group_def Let_def Some user_of_key(2)[OF u ok Some] memberships_def)
qed

end
