(* ===== verification/PermissionProperties.thy ===== *)
theory PermissionProperties
  imports PermissionProofs
begin

text \<open>
  The permission manager as a state machine: the operations keep user and group names unique up to case, and
  in every reachable state a check is decided by the grants and denials of the groups reachable from the user.
\<close>

section \<open>Names stay unique\<close>

lemma folded_distinct_put:
  assumes u: "ascii_upper upper" and d: "folded_distinct upper m"
  shows "folded_distinct upper (put_key (case key upper m name of Some k \<Rightarrow> k | None \<Rightarrow> name) v m)"
proof (cases "key upper m name")
  case None
  then have absent: "\<forall>p\<in>set m. ordinal_ignore_case_key upper (fst p) \<noteq> ordinal_ignore_case_key upper name"
    using key_folded[OF u d, of name] by (auto simp: find_None_iff)
  have "distinct (map (\<lambda>p. ordinal_ignore_case_key upper (fst p)) (filter P m))" for P
    using d by (simp add: folded_distinct_def distinct_map_filter)
  then show ?thesis using absent None by (fastforce simp: folded_distinct_def put_key_def remove_key_def)
next
  case (Some k)
  obtain w where w: "map_of m k = Some w" using key_lookup[OF u d Some] by blast
  then have "(k, w) \<in> set m" by (rule map_of_SomeD)
  have "p = (k, w)" if "p \<in> set m" "ordinal_ignore_case_key upper (fst p) = ordinal_ignore_case_key upper k" for p
    using find_folded[OF d that(1)] find_folded[OF d \<open>(k, w) \<in> set m\<close>] that(2) by simp
  then have "\<forall>p\<in>set m. fst p \<noteq> k \<longrightarrow> ordinal_ignore_case_key upper (fst p) \<noteq> ordinal_ignore_case_key upper k"
    by fastforce
  moreover have "distinct (map (\<lambda>p. ordinal_ignore_case_key upper (fst p)) (filter P m))" for P
    using d by (simp add: folded_distinct_def distinct_map_filter)
  ultimately show ?thesis using Some by (fastforce simp: folded_distinct_def put_key_def remove_key_def)
qed

lemma folded_distinct_map_snd [simp]:
  "folded_distinct upper (map (\<lambda>(n, x). (n, f x)) xs) = folded_distinct upper xs"
  by (simp add: folded_distinct_def comp_def case_prod_beta)

lemma folded_distinct_remove [simp]: "folded_distinct upper xs \<Longrightarrow> folded_distinct upper (remove_key k xs)"
  by (simp add: folded_distinct_def remove_key_def distinct_map_filter)

lemma folded_distinct_put_name:
  "ascii_upper upper \<Longrightarrow> folded_distinct upper m \<Longrightarrow> key upper m name = None \<Longrightarrow> folded_distinct upper (put_key name v m)"
  using folded_distinct_put[of upper m name v] by simp

named_theorems keeps_store

lemma user_mut_ok [keeps_store]:
  "ascii_upper upper \<Longrightarrow> store_ok upper store \<Longrightarrow> store_ok upper (snd (user_mut upper uuid f store))"
  by (auto simp: user_mut_def Let_def store_ok_def case_prod_beta intro: folded_distinct_put)

lemma group_mut_ok [keeps_store]:
  "ascii_upper upper \<Longrightarrow> store_ok upper store \<Longrightarrow> store_ok upper (snd (group_mut upper name f store))"
  by (auto simp: group_mut_def Let_def store_ok_def case_prod_beta intro: folded_distinct_put)

lemma seed_group_ok [keeps_store]:
  "ascii_upper upper \<Longrightarrow> store_ok upper store \<Longrightarrow> store_ok upper (snd (seed_group upper name parent nodes store))"
  by (auto simp: seed_group_def Let_def store_ok_def case_prod_beta intro: folded_distinct_put)

lemma seed_legacy_group_ok [keeps_store]:
  "ascii_upper upper \<Longrightarrow> store_ok upper store \<Longrightarrow>
   store_ok upper (snd (seed_legacy_group upper name parent nodes legacy store))"
  by (auto simp: seed_legacy_group_def Let_def case_prod_beta intro!: seed_group_ok)
    (auto simp: store_ok_def intro: folded_distinct_put_name)

lemma mutate_ok:
  "store_ok upper (snd (f (pm_store m))) \<Longrightarrow> store_ok upper (pm_store (mutate upper now uuid f m))"
  by (simp add: mutate_def case_prod_beta)

section \<open>The manager as a state machine\<close>

definition new_manager :: "bool \<Rightarrow> permission_manager" where
  "new_manager file_support = \<lparr>pm_store = \<lparr>ps_users = [], ps_groups = [], ps_seeded = []\<rparr>,
     pm_file_support = file_support, pm_dirty_since = None, pm_changes = []\<rparr>"

inductive manager_step :: "upper \<Rightarrow> permission_manager \<Rightarrow> permission_manager \<Rightarrow> bool" for upper where
  step_get_or_create_user: "manager_step upper m (get_or_create_user upper now uuid m)"
| step_add_user_node: "manager_step upper m (add_user_node upper now uuid node m)"
| step_remove_user_node: "manager_step upper m (remove_user_node upper now uuid node m)"
| step_add_user_to_group: "manager_step upper m (add_user_to_group upper now uuid grp m)"
| step_remove_user_from_group: "manager_step upper m (remove_user_from_group upper now uuid grp m)"
| step_get_or_create_group: "manager_step upper m (get_or_create_group upper now grp m)"
| step_add_group_node: "manager_step upper m (add_group_node upper now grp node m)"
| step_remove_group_node: "manager_step upper m (remove_group_node upper now grp node m)"
| step_add_group_parent: "manager_step upper m (add_group_parent upper now grp parent m)"
| step_remove_group_parent: "manager_step upper m (remove_group_parent upper now grp parent m)"
| step_delete_group: "manager_step upper m (delete_group upper now grp m)"
| step_ensure_defaults: "manager_step upper m (ensure_defaults upper now m)"
| step_take_changes: "manager_step upper m (snd (take_changes m))"

lemma manager_step_ok:
  assumes "manager_step upper m m'" "ascii_upper upper" "store_ok upper (pm_store m)"
  shows "store_ok upper (pm_store m')"
  using assms
proof (induction rule: manager_step.induct)
  case (step_ensure_defaults m now)
  then show ?case unfolding ensure_defaults_def
    by (intro mutate_ok) (simp add: Let_def case_prod_beta keeps_store)
next
  case (step_delete_group m now grp)
  then show ?case unfolding delete_group_def
    by (intro mutate_ok) (auto simp: store_ok_def split: option.splits)
qed (auto simp: take_changes_def get_or_create_user_def add_user_node_def remove_user_node_def add_user_to_group_def
    remove_user_from_group_def get_or_create_group_def add_group_node_def remove_group_node_def add_group_parent_def
    remove_group_parent_def Let_def case_prod_beta intro!: mutate_ok keeps_store)

lemma manager_reach_ok:
  assumes "(manager_step upper)\<^sup>*\<^sup>* (new_manager fs) m" "ascii_upper upper"
  shows "store_ok upper (pm_store m)"
  using assms
proof (induction rule: rtranclp_induct)
  case base
  then show ?case by (simp add: new_manager_def store_ok_def folded_distinct_def)
qed (blast intro: manager_step_ok)

section \<open>The specification of a check\<close>

text \<open>
  The rules that can speak for a node, most specific first: the node itself, the wildcard of each of its
  prefixes, and the wildcard of everything.
\<close>

function wildcards :: "rstring \<Rightarrow> rstring list" where
  "wildcards s = (case rsplit_prefix s of None \<Rightarrow> [] | Some p \<Rightarrow> (p @ [46, 42]) # wildcards p)"
  by auto
termination
  by (relation "measure length") (auto dest: rsplit_prefix_shorter)

declare wildcards.simps [simp del]

definition candidates :: "rstring \<Rightarrow> rstring list" where
  "candidates node = node # wildcards node @ [lit ''*'']"

text \<open>The most specific rule that anything reachable states decides, and a denial beats a grant of the same rule.\<close>

definition permitted :: "rstring set \<Rightarrow> rstring set \<Rightarrow> rstring \<Rightarrow> bool" where
  "permitted G D node \<longleftrightarrow> node \<noteq> [] \<and>
     (case find (\<lambda>c. c \<in> G \<union> D) (candidates node) of Some c \<Rightarrow> c \<notin> D | None \<Rightarrow> False)"

lemma verdict_find:
  "verdict G D c = (if c \<in> G \<union> D then Some (c \<notin> D) else None)"
  by (auto simp: verdict_def)

lemma wildcard_decision_find:
  "wildcard_decision (verdict G D) s = map_option (\<lambda>c. c \<notin> D) (find (\<lambda>c. c \<in> G \<union> D) (wildcards s))"
proof (induction s rule: wildcards.induct)
  case (1 s)
  then show ?case
    by (subst wildcard_decision.simps, subst wildcards.simps) (auto simp: verdict_find[of _ _ "_ @ _"] split: option.splits)
qed

lemma find_append: "find P (xs @ ys) = (case find P xs of Some x \<Rightarrow> Some x | None \<Rightarrow> find P ys)"
  by (induction xs) auto

lemma check_node_permitted:
  "check_node upper (verdict G D) node = permitted G D (ordinal_ignore_case_key upper (trim node))"
  unfolding check_node_def permitted_def candidates_def Let_def wildcard_decision_find
  by (auto simp: verdict_find find_append split: option.splits)

section \<open>Seeding respects what an administrator removed\<close>

definition history_at :: "upper \<Rightarrow> permission_store \<Rightarrow> rstring \<Rightarrow> rstring list option" where
  "history_at upper store k = map_option snd (find (\<lambda>p. ordinal_ignore_case_key upper (fst p) = k) (ps_seeded store))"

text \<open>The node was once seeded into the group and the group does not have it.\<close>

definition withdrawn :: "upper \<Rightarrow> permission_store \<Rightarrow> rstring \<Rightarrow> rstring \<Rightarrow> bool" where
  "withdrawn upper store k node =
     (case (group_at upper store k, history_at upper store k) of
        (Some g, Some h) \<Rightarrow> set_contains upper h node \<and> \<not> set_contains upper (pg_nodes g) node
      | _ \<Rightarrow> False)"

lemma set_contains_key:
  "ascii_upper upper \<Longrightarrow> set_contains upper xs v \<longleftrightarrow>
   ordinal_ignore_case_key upper v \<in> ordinal_ignore_case_key upper ` set xs"
  unfolding set_contains_def list_ex_iff same_iff_key by (auto simp: image_iff dest: sym)

lemma set_insert_key:
  "ascii_upper upper \<Longrightarrow> set_contains upper (snd (set_insert upper xs v)) w \<longleftrightarrow>
   set_contains upper xs w \<or> ordinal_ignore_case_key upper v = ordinal_ignore_case_key upper w"
  by (auto simp: set_insert_def set_contains_key)

lemma seed_nodes_withdrawn:
  assumes "ascii_upper upper" "seed_nodes upper nodes h g = (b, h', g')" "set_contains upper h node"
  shows "set_contains upper h' node \<and> (set_contains upper (pg_nodes g') node \<longleftrightarrow> set_contains upper (pg_nodes g) node)"
  using assms
proof (induction nodes arbitrary: h g b)
  case (Cons x nodes)
  note u = \<open>ascii_upper upper\<close>
  show ?case
  proof (cases "set_contains upper h x")
    case True
    then show ?thesis using Cons by (simp add: set_insert_def)
  next
    case False
    then have ins: "set_insert upper h x = (True, h @ [x])" by (simp add: set_insert_def)
    have ne: "ordinal_ignore_case_key upper x \<noteq> ordinal_ignore_case_key upper node"
      using False Cons.prems(3) by (auto simp: set_contains_key[OF u])
    let ?g = "if set_contains upper (pg_nodes g) (45 # x) then g else g\<lparr>pg_nodes := snd (set_insert upper (pg_nodes g) x)\<rparr>"
    have "set_contains upper (pg_nodes ?g) node \<longleftrightarrow> set_contains upper (pg_nodes g) node"
      using ne by (simp add: set_insert_key[OF u])
    moreover have "set_contains upper (h @ [x]) node" using Cons.prems(3) by (simp add: set_contains_key[OF u])
    moreover obtain b1 where "seed_nodes upper nodes (h @ [x]) ?g = (b1, h', g')"
      using Cons.prems(2) ins by (auto simp: Let_def split: prod.splits if_splits)
    ultimately show ?thesis using Cons.IH[OF u] by blast
  qed
qed simp

lemma find_filter_same: "(\<And>x. x \<in> set xs \<Longrightarrow> P x \<Longrightarrow> Q x) \<Longrightarrow> find P (filter Q xs) = find P xs"
  by (induction xs) auto

lemma find_put_key:
  assumes u: "ascii_upper upper" and d: "folded_distinct upper m"
  shows "find (\<lambda>p. ordinal_ignore_case_key upper (fst p) = k) (put_key (case key upper m name of Some l \<Rightarrow> l | None \<Rightarrow> name) v m) =
    (if k = ordinal_ignore_case_key upper name then Some (case key upper m name of Some l \<Rightarrow> l | None \<Rightarrow> name, v)
     else find (\<lambda>p. ordinal_ignore_case_key upper (fst p) = k) m)"
proof -
  let ?l = "case key upper m name of Some l \<Rightarrow> l | None \<Rightarrow> name"
  have l: "ordinal_ignore_case_key upper ?l = ordinal_ignore_case_key upper name"
    using key_folded[OF u d, of name] by (auto simp: find_Some_iff split: option.splits) (metis fst_conv)
  have "find (\<lambda>p. ordinal_ignore_case_key upper (fst p) = k) (filter (\<lambda>p. fst p \<noteq> ?l) m) =
      find (\<lambda>p. ordinal_ignore_case_key upper (fst p) = k) m" if "k \<noteq> ordinal_ignore_case_key upper name"
    using that l by (intro find_filter_same) auto
  then show ?thesis using l by (auto simp: put_key_def remove_key_def)
qed

lemma seed_group_withdrawn:
  assumes u: "ascii_upper upper" and ok: "store_ok upper store" and w: "withdrawn upper store k node"
  shows "withdrawn upper (snd (seed_group upper name parent nodes store)) k node"
proof -
  have dg: "folded_distinct upper (ps_groups store)" and ds: "folded_distinct upper (ps_seeded store)"
    using ok by (simp_all add: store_ok_def)
  obtain g h where g: "group_at upper store k = Some g" and h: "history_at upper store k = Some h"
    and c: "set_contains upper h node" "\<not> set_contains upper (pg_nodes g) node"
    using w by (auto simp: withdrawn_def split: option.splits)
  note at = group_at_def history_at_def find_put_key[OF u dg] find_put_key[OF u ds]
  show ?thesis
  proof (cases "k = ordinal_ignore_case_key upper name")
    case False
    then have "group_at upper (snd (seed_group upper name parent nodes store)) k = Some g"
      "history_at upper (snd (seed_group upper name parent nodes store)) k = Some h"
      using g h by (simp_all add: at seed_group_def Let_def case_prod_beta)
    then show ?thesis using c by (simp add: withdrawn_def)
  next
    case True
    obtain kg where kg: "key upper (ps_groups store) name = Some kg" using group_of_key(1)[OF u dg, of name] g True by fastforce
    have lg: "map_of (ps_groups store) kg = Some g"
      using key_lookup[OF u dg kg] g True by (auto simp: group_at_def)
    obtain p where "find (\<lambda>p. ordinal_ignore_case_key upper (fst p) = k) (ps_seeded store) = Some p"
      using h by (auto simp: history_at_def)
    then have ks: "key upper (ps_seeded store) name = Some (fst p)" using key_folded[OF u ds, of name] True by simp
    have ls: "map_of (ps_seeded store) (fst p) = Some h" using key_lookup[OF u ds ks] h True by (auto simp: history_at_def)
    obtain b h' g' where s: "seed_nodes upper nodes h g = (b, h', g')" by (cases "seed_nodes upper nodes h g") auto
    have "group_at upper (snd (seed_group upper name parent nodes store)) k = Some g'"
      "history_at upper (snd (seed_group upper name parent nodes store)) k = Some h'"
      using find_put_key[OF u dg, of k name g'] find_put_key[OF u ds, of k name h'] True
      by (simp_all add: group_at_def history_at_def seed_group_def Let_def kg lg ks ls s)
    then show ?thesis using seed_nodes_withdrawn[OF u s c(1)] c(2) by (simp add: withdrawn_def)
  qed
qed

lemma seed_legacy_group_withdrawn:
  assumes u: "ascii_upper upper" and ok: "store_ok upper store" and w: "withdrawn upper store k node"
  shows "withdrawn upper (snd (seed_legacy_group upper name parent nodes legacy store)) k node"
proof (cases "key upper (ps_groups store) name = None \<or> key upper (ps_seeded store) name \<noteq> None")
  case True
  then show ?thesis using seed_group_withdrawn[OF assms] by (auto simp: seed_legacy_group_def Let_def case_prod_beta)
next
  case False
  let ?store = "store\<lparr>ps_seeded := put_key name (snd (insert_all upper legacy [])) (ps_seeded store)\<rparr>"
  have ds: "folded_distinct upper (ps_seeded store)" using ok by (simp add: store_ok_def)
  have none: "history_at upper store (ordinal_ignore_case_key upper name) = None"
  proof -
    have "key upper (ps_seeded store) name = None" using False by simp
    then show ?thesis using key_folded[OF u ds, of name] by (simp add: history_at_def)
  qed
  then have "k \<noteq> ordinal_ignore_case_key upper name" using w by (auto simp: withdrawn_def split: option.splits)
  then have "withdrawn upper ?store k node"
    using w find_put_key[OF u ds, of k name] False by (simp add: withdrawn_def group_at_def history_at_def)
  moreover have "store_ok upper ?store"
    using ok False by (auto simp: store_ok_def intro: folded_distinct_put_name[OF u])
  ultimately show ?thesis using seed_group_withdrawn[OF u] False
    by (auto simp: seed_legacy_group_def Let_def case_prod_beta)
qed

section \<open>Properties\<close>

text \<open>C29: In every state the manager can reach, \<open>has\<close> answers exactly as the specification: the
  most specific rule (the node, then the wildcards of its prefixes, then \<open>*\<close>) stated by any group reachable through
  parent links from the user's groups, or by the user, decides, and a denial beats a grant. The answer depends on no
  order of iteration.\<close>

theorem check_decided_by_reachable_rules:
  assumes "(manager_step upper)\<^sup>*\<^sup>* (new_manager fs) m" "ascii_upper upper"
  shows "has upper m uuid node \<longleftrightarrow>
    permitted (user_grants upper (pm_store m) uuid) (user_denials upper (pm_store m) uuid)
      (ordinal_ignore_case_key upper (trim node))"
  using assms by (simp add: has_def effective_decisions_verdict manager_reach_ok check_node_permitted)

definition plain_upper :: upper where
  "plain_upper c = [if 97 \<le> c \<and> c \<le> 122 then c - 32 else c]"

lemma plain_upper_ascii: "ascii_upper plain_upper"
  by (simp add: ascii_upper_def plain_upper_def)

text \<open>Two groups that are each other's parents, with a wildcard grant in one and a denial in the other.\<close>

definition cyclic_manager :: permission_manager where
  "cyclic_manager =
     add_user_to_group plain_upper 6 (lit ''u'') (lit ''A'')
      (add_group_parent plain_upper 5 (lit ''b'') (lit ''A'')
       (add_group_parent plain_upper 4 (lit ''a'') (lit ''B'')
        (add_group_node plain_upper 3 (lit ''a'') (lit ''-x.Y'')
         (add_group_node plain_upper 2 (lit ''b'') (lit ''X.*'') (new_manager False)))))"

lemma reach_more:
  "(manager_step upper)\<^sup>*\<^sup>* m0 m \<Longrightarrow> (manager_step upper)\<^sup>*\<^sup>* m0 (add_user_to_group upper now uuid grp m)"
  "(manager_step upper)\<^sup>*\<^sup>* m0 m \<Longrightarrow> (manager_step upper)\<^sup>*\<^sup>* m0 (add_group_parent upper now grp parent m)"
  "(manager_step upper)\<^sup>*\<^sup>* m0 m \<Longrightarrow> (manager_step upper)\<^sup>*\<^sup>* m0 (add_group_node upper now grp node m)"
  "(manager_step upper)\<^sup>*\<^sup>* m0 m \<Longrightarrow> (manager_step upper)\<^sup>*\<^sup>* m0 (remove_group_node upper now grp node m)"
  "(manager_step upper)\<^sup>*\<^sup>* m0 m \<Longrightarrow> (manager_step upper)\<^sup>*\<^sup>* m0 (ensure_defaults upper now m)"
  by (erule rtranclp.rtrancl_into_rtrancl, rule manager_step.intros)+

lemma cyclic_manager_reach: "(manager_step plain_upper)\<^sup>*\<^sup>* (new_manager False) cyclic_manager"
  unfolding cyclic_manager_def
  by (intro reach_more rtranclp.rtrancl_refl)

theorem check_decided_by_reachable_rules_witness:
  "permitted (user_grants plain_upper (pm_store cyclic_manager) (lit ''u''))
     (user_denials plain_upper (pm_store cyclic_manager) (lit ''u'')) (ordinal_ignore_case_key plain_upper (trim (lit ''x.z''))) \<and>
   \<not> permitted (user_grants plain_upper (pm_store cyclic_manager) (lit ''u''))
     (user_denials plain_upper (pm_store cyclic_manager) (lit ''u'')) (ordinal_ignore_case_key plain_upper (trim (lit ''x.y'')))"
proof -
  have "has plain_upper cyclic_manager (lit ''u'') (lit ''x.z'')" by code_simp
  moreover have "\<not> has plain_upper cyclic_manager (lit ''u'') (lit ''x.y'')" by code_simp
  ultimately show ?thesis
    using check_decided_by_reachable_rules[OF cyclic_manager_reach plain_upper_ascii] by simp
qed

text \<open>A denial of a node, stated by the user's entry or by any group reachable from it, even through a cycle of
  parents, makes \<open>has\<close> answer false for that node, whatever else grants it.\<close>

theorem denial_wins:
  assumes "(manager_step upper)\<^sup>*\<^sup>* (new_manager fs) m" "ascii_upper upper"
    and "k \<in> reachable_groups upper (pm_store m) (memberships upper (pm_store m) uuid)"
    and "group_at upper (pm_store m) k = Some g" "raw \<in> set (pg_nodes g) \<union> set (own_nodes upper (pm_store m) uuid)"
    and "raw_rule upper raw = Some (ordinal_ignore_case_key upper (trim node), False)"
  shows "\<not> has upper m uuid node"
proof -
  have "ordinal_ignore_case_key upper (trim node) \<in> user_denials upper (pm_store m) uuid"
    using assms(3-6) by (auto simp: user_denials_def denials_def denied_def)
  then show ?thesis using assms(1,2)
    by (simp add: has_def effective_decisions_verdict manager_reach_ok check_node_permitted permitted_def candidates_def)
qed

theorem denial_wins_witness: "\<not> has plain_upper cyclic_manager (lit ''U'') (lit '' X.y '')"
proof -
  let ?g = "\<lparr>pg_name = lit ''a'', pg_nodes = [lit ''-x.Y''], pg_parents = [lit ''B'']\<rparr>"
  have k: "lit ''a'' \<in> reachable_groups plain_upper (pm_store cyclic_manager)
      (memberships plain_upper (pm_store cyclic_manager) (lit ''U''))"
    unfolding reachable_groups_def
  proof (rule ImageI[of "lit ''a''"])
    have "memberships plain_upper (pm_store cyclic_manager) (lit ''U'') = [lit ''default'', lit ''A'']" by code_simp
    moreover have "ordinal_ignore_case_key plain_upper (lit ''A'') = lit ''a''" by code_simp
    ultimately show "lit ''a'' \<in> ordinal_ignore_case_key plain_upper ` set (memberships plain_upper (pm_store cyclic_manager) (lit ''U''))"
      by (metis image_eqI list.set_intros)
  qed simp
  show ?thesis
    by (rule denial_wins[OF cyclic_manager_reach plain_upper_ascii k, of ?g "lit ''-x.Y''"])
      (code_simp, code_simp, code_simp)
qed

text \<open>\<open>is_in_group\<close>, which stops at the first hit, answers whether the group can be reached from the user's
  groups by parent links, and is false for blank arguments.\<close>

theorem membership_is_reachability:
  assumes "(manager_step upper)\<^sup>*\<^sup>* (new_manager fs) m" "ascii_upper upper"
  shows "is_in_group upper m uuid grp \<longleftrightarrow> trim uuid \<noteq> [] \<and> trim grp \<noteq> [] \<and>
    ordinal_ignore_case_key upper (trim grp) \<in>
      (edges upper (pm_store m))\<^sup>* `` (ordinal_ignore_case_key upper ` set (memberships upper (pm_store m) uuid))"
  using assms by (simp add: is_in_group_iff manager_reach_ok reachable_groups_def)

theorem membership_is_reachability_witness:
  "lit ''b'' \<in> (edges plain_upper (pm_store cyclic_manager))\<^sup>* ``
     (ordinal_ignore_case_key plain_upper ` set (memberships plain_upper (pm_store cyclic_manager) (lit ''u'')))"
proof -
  have "is_in_group plain_upper cyclic_manager (lit ''u'') (lit ''B'')" by code_simp
  moreover have "ordinal_ignore_case_key plain_upper (trim (lit ''B'')) = lit ''b''" by code_simp
  ultimately show ?thesis
    using membership_is_reachability[OF cyclic_manager_reach plain_upper_ascii, of "lit ''u''" "lit ''B''"] by simp
qed

text \<open>C34. The recursions over parent groups end on every store, cyclic ones included, within a depth of the number of
  groups plus one.\<close>

theorem group_search_ends:
  assumes "ascii_upper upper" "store_ok upper store"
  shows "(\<exists>st. apply_groups (Suc (length (ps_groups store))) upper names store ([], Map.empty) = Some st) \<and>
    (\<exists>r. inherits_any (Suc (length (ps_groups store))) upper names target store [] = Some r)"
proof -
  have ok: "folded_distinct upper (ps_groups store)" using assms(2) by (simp add: store_ok_def)
  have d: "card (group_keys upper store - {}) < Suc (length (ps_groups store))" by (rule group_keys_bounds(2))
  show ?thesis using apply_groups_ends(2)[OF assms(1) ok, of "([], Map.empty)"] inherits_ends(2)[OF assms(1) ok, of "[]"] d
    by simp
qed

theorem group_search_ends_witness:
  "\<exists>st. apply_groups 3 plain_upper [lit ''a''] (pm_store cyclic_manager) ([], Map.empty) = Some st"
proof -
  have "length (ps_groups (pm_store cyclic_manager)) = 2" by code_simp
  then show ?thesis
    using group_search_ends[OF plain_upper_ascii manager_reach_ok[OF cyclic_manager_reach plain_upper_ascii], of "[lit ''a'']"]
    by (simp add: numeral_3_eq_3)
qed

text \<open>A built-in node that was seeded once and then removed from its group is not brought back when the
  defaults are seeded again, whatever the group.\<close>

theorem removed_default_stays_removed:
  assumes "(manager_step upper)\<^sup>*\<^sup>* (new_manager fs) m" "ascii_upper upper" "withdrawn upper (pm_store m) k node"
  shows "withdrawn upper (pm_store (ensure_defaults upper now m)) k node"
proof -
  have "store_ok upper (pm_store m)" using assms(1,2) by (rule manager_reach_ok)
  then show ?thesis using assms(2,3)
    by (simp add: ensure_defaults_def mutate_def Let_def case_prod_beta seed_legacy_group_withdrawn keeps_store)
qed

definition trimmed_manager :: permission_manager where
  "trimmed_manager =
     remove_group_node plain_upper 2 (lit ''Default'') (lit ''basis.storage.use'') (ensure_defaults plain_upper 1 (new_manager False))"

theorem removed_default_stays_removed_witness:
  "withdrawn plain_upper (pm_store (ensure_defaults plain_upper 3 trimmed_manager)) (lit ''default'') (lit ''Basis.Storage.Use'')"
proof -
  have "(manager_step plain_upper)\<^sup>*\<^sup>* (new_manager False) trimmed_manager"
    unfolding trimmed_manager_def by (intro reach_more rtranclp.rtrancl_refl)
  moreover have "withdrawn plain_upper (pm_store trimmed_manager) (lit ''default'') (lit ''Basis.Storage.Use'')"
    by code_simp
  ultimately show ?thesis by (rule removed_default_stays_removed[OF _ plain_upper_ascii])
qed

end
