(* ===== verification/UploadBudget.thy ===== *)
theory UploadBudget
  imports Sequence
begin

text \<open>
  Per-connection upload admission (\<open>basis-server-core/src/upload_budget.rs\<close>): a token bucket in byte-nanoseconds
  that lets one oversized reliable message through on credit. An \<open>Instant\<close> is a number of nanoseconds. The
  \<open>u128\<close> values are natural numbers: the products of a 64-bit rate or size with the constants stay below
  \<open>2^96\<close>, and the saturating operations are written out. The counters of the benchmark feature are left out.
\<close>

section \<open>The bucket\<close>

definition NANOS_PER_SECOND :: nat where "NANOS_PER_SECOND = 1000000000"
definition BURST_SECONDS :: nat where "BURST_SECONDS = 2"

definition u128_max :: nat where "u128_max = 2 ^ 128 - 1"

record bucket =
  bk_rate :: "64 word"
  bk_tokens :: nat
  bk_debt :: nat
  bk_last_refill :: "nat option"

definition bucket_default :: bucket where
  "bucket_default = \<lparr>bk_rate = 0, bk_tokens = 0, bk_debt = 0, bk_last_refill = None\<rparr>"

definition capacity :: "64 word \<Rightarrow> nat" where
  "capacity rate = unat rate * BURST_SECONDS * NANOS_PER_SECOND"

definition refill :: "64 word \<Rightarrow> nat \<Rightarrow> bucket \<Rightarrow> bucket" where
  "refill rate now b =
     (case bk_last_refill b of
        Some previous \<Rightarrow>
          let amount = min u128_max ((now - previous) * unat (bk_rate b));
              repayment = min amount (bk_debt b)
          in b\<lparr>bk_debt := bk_debt b - repayment,
               bk_tokens := min (min u128_max (bk_tokens b + (amount - repayment))) (capacity rate)\<rparr>
      | None \<Rightarrow> b\<lparr>bk_tokens := capacity rate\<rparr>)"

definition admit_at :: "64 word \<Rightarrow> 64 word \<Rightarrow> nat \<Rightarrow> bool \<Rightarrow> bucket \<Rightarrow> bool \<times> bucket" where
  "admit_at rate bytes now reliable b =
     (if rate = 0 then (True, b\<lparr>bk_rate := 0, bk_last_refill := None, bk_debt := 0\<rparr>)
      else
        let b = (refill rate now b)\<lparr>bk_rate := rate, bk_last_refill := Some now\<rparr>;
            cost = unat bytes * NANOS_PER_SECOND
        in if bk_tokens b < cost
           then if reliable \<and> capacity rate < cost \<and> bk_tokens b = capacity rate \<and> bk_debt b = 0
                then (True, b\<lparr>bk_tokens := 0, bk_debt := cost - capacity rate\<rparr>)
                else (False, b)
           else (True, b\<lparr>bk_tokens := bk_tokens b - cost\<rparr>))"

definition best_effort :: "DeliveryMethod \<Rightarrow> bool" where
  "best_effort delivery \<longleftrightarrow> delivery = Unreliable \<or> delivery = Sequenced"

definition admit :: "64 word \<Rightarrow> 64 word \<Rightarrow> DeliveryMethod \<Rightarrow> nat \<Rightarrow> bucket \<Rightarrow> bool \<times> bucket" where
  "admit rate bytes delivery now b = admit_at rate bytes now (\<not> best_effort delivery) b"

text \<open>A sequence of requests on one connection, with the bytes that were let through.\<close>

record request =
  rq_bytes :: "64 word"
  rq_delivery :: DeliveryMethod
  rq_at :: nat

fun upload :: "64 word \<Rightarrow> request list \<Rightarrow> bucket \<Rightarrow> nat \<times> bucket" where
  "upload rate [] b = (0, b)"
| "upload rate (r # rs) b =
     (let (allowed, b) = admit rate (rq_bytes r) (rq_delivery r) (rq_at r) b;
          (n, b) = upload rate rs b
      in ((if allowed then unat (rq_bytes r) else 0) + n, b))"

section \<open>Invariant\<close>

text \<open>No more tokens than the burst, credit only once the tokens are spent, and neither before the first message.\<close>

definition bucket_ok :: "bucket \<Rightarrow> bool" where
  "bucket_ok b \<longleftrightarrow> (0 < bk_debt b \<longrightarrow> bk_tokens b = 0) \<and> bk_debt b < 2 ^ 64 * NANOS_PER_SECOND \<and>
     (case bk_last_refill b of None \<Rightarrow> bk_debt b = 0
      | Some _ \<Rightarrow> bk_rate b \<noteq> 0 \<and> bk_tokens b \<le> capacity (bk_rate b))"

lemma unat_u64_less: "unat (w :: 64 word) < 2 ^ 64"
  using unsigned_less[of w] by simp

lemma capacity_bound: "capacity rate < 2 ^ 96"
  using unat_u64_less[of rate] by (simp add: capacity_def BURST_SECONDS_def NANOS_PER_SECOND_def)

lemma refill_fields [simp]:
  "bk_rate (refill rate now b) = bk_rate b" "bk_last_refill (refill rate now b) = bk_last_refill b"
  by (simp_all add: refill_def Let_def split: option.splits)

lemma refill_shape:
  assumes "bucket_ok b"
  shows "bk_tokens (refill rate now b) \<le> capacity rate"
    and "0 < bk_debt (refill rate now b) \<Longrightarrow> bk_tokens (refill rate now b) = 0"
    and "bk_debt (refill rate now b) \<le> bk_debt b"
  using assms by (auto simp: refill_def bucket_ok_def Let_def min_def split: option.splits if_splits)

lemma cost_bound: "unat (bytes :: 64 word) * NANOS_PER_SECOND < 2 ^ 64 * NANOS_PER_SECOND"
  using unat_u64_less[of bytes] by (simp add: NANOS_PER_SECOND_def)

lemma admit_at_ok:
  assumes "bucket_ok b"
  shows "bucket_ok (snd (admit_at rate bytes now reliable b))"
proof (cases "rate = 0")
  case True
  then show ?thesis by (simp add: admit_at_def bucket_ok_def NANOS_PER_SECOND_def)
next
  case False
  note r = refill_shape[OF assms, of rate now]
  have "unat bytes * NANOS_PER_SECOND - capacity rate < 2 ^ 64 * NANOS_PER_SECOND"
    using cost_bound[of bytes] by linarith
  moreover have "bk_debt (refill rate now b) < 2 ^ 64 * NANOS_PER_SECOND"
    using r(3) assms by (auto simp: bucket_ok_def)
  ultimately show ?thesis using False r(1,2) by (auto simp: admit_at_def Let_def bucket_ok_def)
qed

lemma bucket_default_ok: "bucket_ok bucket_default"
  by (simp add: bucket_ok_def bucket_default_def NANOS_PER_SECOND_def)

section \<open>Accounting\<close>

text \<open>What the connection may still spend: negative while it pays for an oversized message.\<close>

definition balance :: "bucket \<Rightarrow> int" where
  "balance b = int (bk_tokens b) - int (bk_debt b)"

definition cost_of :: "bool \<Rightarrow> 64 word \<Rightarrow> int" where
  "cost_of allowed bytes = (if allowed then int (unat bytes * NANOS_PER_SECOND) else 0)"

lemma repay_then_fill:
  "int (min (min u (t + (a - min a d))) c) - int (d - min a d) \<le> int t - int d + int a"
  by (auto simp: min_def)

lemma refill_values:
  assumes "bk_last_refill b = Some t"
  shows "bk_debt (refill rate now b) = bk_debt b - min (min u128_max ((now - t) * unat (bk_rate b))) (bk_debt b)"
    and "bk_tokens (refill rate now b) = min (min u128_max (bk_tokens b + (min u128_max ((now - t) * unat (bk_rate b)) -
      min (min u128_max ((now - t) * unat (bk_rate b))) (bk_debt b)))) (capacity rate)"
  using assms by (simp_all only: refill_def Let_def) simp_all

lemma refill_balance:
  assumes "bk_last_refill b = Some t"
  shows "balance (refill rate now b) \<le> balance b + int ((now - t) * unat (bk_rate b))"
proof -
  let ?amount = "min u128_max ((now - t) * unat (bk_rate b))"
  have "balance (refill rate now b) \<le> int (bk_tokens b) - int (bk_debt b) + int ?amount"
    unfolding balance_def refill_values[OF assms] by (rule repay_then_fill)
  also have "\<dots> \<le> balance b + int ((now - t) * unat (bk_rate b))"
    unfolding balance_def by (intro add_left_mono zle_int[THEN iffD2]) simp
  finally show ?thesis .
qed

lemma admit_at_balance:
  assumes "rate \<noteq> 0" "admit_at rate bytes now reliable b = (allowed, b')"
  shows "balance b' + cost_of allowed bytes = balance (refill rate now b)"
  using assms by (auto simp: admit_at_def Let_def balance_def cost_of_def split: if_splits)

lemma admit_at_clock:
  assumes "rate \<noteq> 0" "admit_at rate bytes now reliable b = (allowed, b')"
  shows "bk_rate b' = rate" "bk_last_refill b' = Some now"
  using assms by (auto simp: admit_at_def Let_def split: if_splits)

lemma admit_at_debt:
  assumes "rate \<noteq> 0" "admit_at rate bytes now reliable b = (allowed, b')" "bucket_ok b"
    and "bk_debt b \<le> limit" "unat bytes * NANOS_PER_SECOND - capacity rate \<le> limit"
  shows "bk_debt b' \<le> limit"
  using assms refill_shape(3)[OF assms(3), of rate now]
  by (auto simp: admit_at_def Let_def split: if_splits)

text \<open>From the first message on, what is spent and what is left is covered by the elapsed time.\<close>

lemma upload_balance:
  assumes "rate \<noteq> 0" "bk_rate b = rate" "bk_last_refill b = Some t" "sorted (t # map rq_at rs)"
    and "upload rate rs b = (n, b')"
  shows "balance b' + int (n * NANOS_PER_SECOND) \<le>
    balance b + int ((last (t # map rq_at rs) - t) * unat rate)"
  using assms
proof (induction rs arbitrary: b t n)
  case (Cons r rs)
  obtain allowed b1 where a: "admit_at rate (rq_bytes r) (rq_at r) (\<not> best_effort (rq_delivery r)) b = (allowed, b1)"
    by fastforce
  obtain m where m: "upload rate rs b1 = (m, b')" and n: "n = (if allowed then unat (rq_bytes r) else 0) + m"
    using Cons.prems(5) a by (auto simp: admit_def split: prod.splits)
  let ?e = "last (rq_at r # map rq_at rs)"
  have e: "rq_at r \<le> ?e" using Cons.prems(4) by (metis last_in_set le_refl list.discI list.simps(9) set_ConsD sorted_simps(2))
  have "balance b' + int (m * NANOS_PER_SECOND) \<le> balance b1 + int ((?e - rq_at r) * unat rate)"
    using Cons.IH[OF Cons.prems(1) admit_at_clock[OF Cons.prems(1) a] _ m] Cons.prems(4) by simp
  moreover have "balance b1 + cost_of allowed (rq_bytes r) \<le> balance b + int ((rq_at r - t) * unat rate)"
    using admit_at_balance[OF Cons.prems(1) a] refill_balance[OF Cons.prems(3), of rate "rq_at r"] Cons.prems(2) by simp
  moreover have "int (n * NANOS_PER_SECOND) = int (m * NANOS_PER_SECOND) + cost_of allowed (rq_bytes r)"
    by (simp add: n cost_of_def distrib_right)
  moreover have "(?e - t) * unat rate = (?e - rq_at r) * unat rate + (rq_at r - t) * unat rate"
    using e Cons.prems(4) by (simp add: add_mult_distrib[symmetric])
  ultimately show ?case by (simp del: of_nat_mult)
qed simp

lemma upload_debt:
  assumes "rate \<noteq> 0" "bucket_ok b" "bk_debt b \<le> limit"
    and "list_all (\<lambda>r. unat (rq_bytes r) * NANOS_PER_SECOND - capacity rate \<le> limit) rs"
  shows "bk_debt (snd (upload rate rs b)) \<le> limit"
  using assms
proof (induction rs arbitrary: b)
  case (Cons r rs)
  obtain allowed b1 where a: "admit_at rate (rq_bytes r) (rq_at r) (\<not> best_effort (rq_delivery r)) b = (allowed, b1)"
    by fastforce
  have "bucket_ok b1" using admit_at_ok[OF Cons.prems(2)] a by (metis snd_conv)
  moreover have "bk_debt b1 \<le> limit" using admit_at_debt[OF Cons.prems(1) a Cons.prems(2,3)] Cons.prems(4) by simp
  ultimately show ?case using Cons.IH[OF Cons.prems(1)] Cons.prems(4) a by (simp add: admit_def case_prod_beta)
qed simp

section \<open>Properties\<close>

text \<open>C30. Whatever a connection sends and from whatever state of its bucket, the bytes let through in a window of time
  are at most the burst of two seconds, or one message of the largest size if that is more, plus the configured
  rate times the length of the window.\<close>

theorem upload_rate_bound:
  assumes "rate \<noteq> 0" "bucket_ok b" "rs \<noteq> []" "sorted (map rq_at rs)"
    and "list_all (\<lambda>r. unat (rq_bytes r) \<le> largest) rs" "bk_debt b \<le> largest * NANOS_PER_SECOND - capacity rate"
  shows "fst (upload rate rs b) * NANOS_PER_SECOND \<le>
    max (capacity rate) (largest * NANOS_PER_SECOND) + (rq_at (last rs) - rq_at (hd rs)) * unat rate"
proof -
  obtain r rest where rs: "rs = r # rest" using assms(3) by (cases rs) auto
  obtain n b' where u: "upload rate rs b = (n, b')" by fastforce
  obtain allowed b1 where a: "admit_at rate (rq_bytes r) (rq_at r) (\<not> best_effort (rq_delivery r)) b = (allowed, b1)"
    by fastforce
  obtain m where m: "upload rate rest b1 = (m, b')" and n: "n = (if allowed then unat (rq_bytes r) else 0) + m"
    using u a by (auto simp: rs admit_def split: prod.splits)
  have "list_all (\<lambda>r. unat (rq_bytes r) * NANOS_PER_SECOND - capacity rate \<le> largest * NANOS_PER_SECOND - capacity rate) rs"
    using assms(5) by (auto simp: list_all_iff intro: diff_le_mono)
  then have "bk_debt b' \<le> largest * NANOS_PER_SECOND - capacity rate"
    using upload_debt[OF assms(1,2,6)] u by (metis snd_conv)
  then have d: "- balance b' \<le> int (largest * NANOS_PER_SECOND - capacity rate)" by (simp add: balance_def)
  have "balance b1 + cost_of allowed (rq_bytes r) = balance (refill rate (rq_at r) b)"
    using assms(1) a by (rule admit_at_balance)
  also have "\<dots> \<le> int (capacity rate)" using refill_shape(1)[OF assms(2), of rate "rq_at r"] by (simp add: balance_def)
  finally have "balance b1 + cost_of allowed (rq_bytes r) \<le> int (capacity rate)" .
  moreover have "balance b' + int (m * NANOS_PER_SECOND) \<le>
      balance b1 + int ((last (rq_at r # map rq_at rest) - rq_at r) * unat rate)"
    using upload_balance[OF assms(1) admit_at_clock[OF assms(1) a] _ m] assms(4) rs by simp
  moreover have "int (n * NANOS_PER_SECOND) = int (m * NANOS_PER_SECOND) + cost_of allowed (rq_bytes r)"
    by (simp add: n cost_of_def distrib_right)
  moreover have "last (rq_at r # map rq_at rest) = rq_at (last rs)"
    using last_map[of rs rq_at] by (simp add: rs del: last_map)
  ultimately have "int (n * NANOS_PER_SECOND) \<le>
      int (capacity rate + (largest * NANOS_PER_SECOND - capacity rate) + (rq_at (last rs) - rq_at r) * unat rate)"
    using d by (simp del: of_nat_mult)
  then show ?thesis using u by (simp add: rs del: of_nat_mult)
qed

definition busy_requests :: "request list" where
  "busy_requests = [\<lparr>rq_bytes = 300, rq_delivery = ReliableOrdered, rq_at = 0\<rparr>, \<lparr>rq_bytes = 1, rq_delivery = Unreliable, rq_at = 5\<rparr>,
     \<lparr>rq_bytes = 50, rq_delivery = Unreliable, rq_at = 1500000000\<rparr>]"

theorem upload_rate_bound_witness:
  "fst (upload 100 busy_requests bucket_default) = 350 \<and>
   fst (upload 100 busy_requests bucket_default) * NANOS_PER_SECOND \<le> 300 * NANOS_PER_SECOND + 1500000000 * 100"
proof -
  have "fst (upload 100 busy_requests bucket_default) = 350"
    by (simp add: busy_requests_def bucket_default_def admit_def admit_at_def refill_def best_effort_def Let_def capacity_def
        BURST_SECONDS_def NANOS_PER_SECOND_def u128_max_def)
  then show ?thesis
    using upload_rate_bound[of 100 bucket_default busy_requests 300]
    by (simp add: busy_requests_def bucket_default_ok capacity_def bucket_default_def
        BURST_SECONDS_def NANOS_PER_SECOND_def)
qed

text \<open>A reliable message of any size is let through once the connection has paid for what it owes and stayed quiet
  long enough for a full burst; larger messages are never refused for ever.\<close>

theorem reliable_upload_admitted_when_idle:
  assumes "bucket_ok b" "bk_last_refill b = Some t" "\<not> best_effort delivery"
    and "capacity (bk_rate b) + bk_debt b \<le> (now - t) * unat (bk_rate b)"
  shows "fst (admit (bk_rate b) bytes delivery now b)"
proof -
  have "capacity (bk_rate b) + bk_debt b \<le> u128_max"
    using capacity_bound[of "bk_rate b"] assms(1) by (simp add: bucket_ok_def u128_max_def NANOS_PER_SECOND_def)
  then have "capacity (bk_rate b) + bk_debt b \<le> min u128_max ((now - t) * unat (bk_rate b))" using assms(4) by simp
  then have "bk_tokens (refill (bk_rate b) now b) = capacity (bk_rate b)" "bk_debt (refill (bk_rate b) now b) = 0"
    using assms(2) by (auto simp: refill_def Let_def min_def)
  then show ?thesis using assms(3) by (auto simp: admit_def admit_at_def Let_def)
qed

theorem reliable_upload_admitted_when_idle_witness:
  "fst (admit 100 70000 ReliableOrdered 5000000000 \<lparr>bk_rate = 100, bk_tokens = 0, bk_debt = 100000000000, bk_last_refill = Some 0\<rparr>)"
proof -
  have "fst (admit (bk_rate b) 70000 ReliableOrdered 5000000000 b)"
    if "b = \<lparr>bk_rate = 100, bk_tokens = 0, bk_debt = 100000000000, bk_last_refill = Some 0\<rparr>" for b
    by (rule reliable_upload_admitted_when_idle[where t = 0])
      (simp_all add: that bucket_ok_def best_effort_def capacity_def BURST_SECONDS_def NANOS_PER_SECOND_def)
  then show ?thesis by (metis bucket.select_convs(1))
qed

end
