(* ===== verification/AvatarBits.thy ===== *)
theory AvatarBits
  imports Prelude
begin

text \<open>
  The bit-level access of \<open>basis-protocol/src/avatar_delta.rs\<close>: reading and replacing a channel of a packed
  avatar payload through a 64-bit window, and the writer and the reader of the residual bit stream. What each
  of them does is stated in terms of single bits of the byte string.
\<close>

section \<open>Bits of a byte string\<close>

definition pbit :: "bytes \<Rightarrow> nat \<Rightarrow> bool" where
  "pbit p i = bit (p ! (i div 8)) (i mod 8)"

lemma pbit_eqI:
  assumes "length p = length q" "\<And>i. i < 8 * length p \<Longrightarrow> pbit p i = pbit q i"
  shows "p = q"
proof (rule nth_equalityI)
  fix k assume k: "k < length p"
  show "p ! k = q ! k"
  proof (rule bit_word_eqI)
    fix j assume "j < LENGTH(8)"
    then have "(8 * k + j) div 8 = k" "(8 * k + j) mod 8 = j" "8 * k + j < 8 * length p" using k by auto
    then show "bit (p ! k) j = bit (q ! k) j" using assms(2)[of "8 * k + j"] by (simp add: pbit_def)
  qed
qed (rule assms(1))

lemma pbit_slice:
  assumes "j < 8 * n" "f + n \<le> length p"
  shows "pbit (take n (drop f p)) j = pbit p (8 * f + j)"
proof -
  have "j div 8 < n" "(8 * f + j) div 8 = f + j div 8" using assms(1) by auto
  then show ?thesis using assms(2) by (simp add: pbit_def)
qed

lemma pbit_append: "i < 8 * length p \<Longrightarrow> pbit (p @ q) i = pbit p i"
  by (simp add: pbit_def nth_append less_mult_imp_div_less)

lemma pbit_take: "i < 8 * n \<Longrightarrow> pbit (take n p) i = pbit p i"
  by (simp add: pbit_def less_mult_imp_div_less)

section \<open>Windows\<close>

text \<open>The loop that gathers bytes into a word, lowest first.\<close>

definition window_of :: "bytes \<Rightarrow> u64" where
  "window_of bs = foldl (\<lambda>w (i, b). w OR push_bit (i * 8) (ucast b)) 0 (enumerate 0 bs)"

lemma bit_ucast_shifted: "bit (push_bit n (ucast (b :: u8)) :: u64) j \<longleftrightarrow> n \<le> j \<and> j < 64 \<and> bit b (j - n)"
  by (auto simp: bit_simps dest: bit_imp_le_length)

lemma bit_window_of: "bit (window_of bs) j \<longleftrightarrow> j < 64 \<and> j < 8 * length bs \<and> pbit bs j"
proof (induction bs rule: rev_induct)
  case (snoc b bs)
  have w: "window_of (bs @ [b]) = window_of bs OR push_bit (length bs * 8) (ucast b)"
    by (simp add: window_of_def enumerate_append_eq)
  have "bit b (j - length bs * 8) \<Longrightarrow> j - length bs * 8 < 8" by (drule bit_imp_le_length) simp
  moreover have "pbit (bs @ [b]) j = bit b (j - length bs * 8)" if "length bs * 8 \<le> j" "j < 8 * length (bs @ [b])"
  proof -
    have "j div 8 = length bs" using that by auto
    moreover from this have "j mod 8 = j - length bs * 8" using minus_div_mult_eq_mod[of j 8] by simp
    ultimately show ?thesis by (simp add: pbit_def)
  qed
  ultimately show ?case
    by (cases "j < 8 * length bs") (auto simp: w bit_or_iff snoc bit_ucast_shifted pbit_append)
qed (simp add: window_of_def)

lemma bit_of_le: "bit (of_le bs :: 'a::len word) j \<longleftrightarrow> j < LENGTH('a) \<and> j < 8 * length bs \<and> pbit bs j"
proof (induction bs arbitrary: j)
  case (Cons b bs)
  show ?case
  proof (cases "j < 8")
    case True
    then show ?thesis by (auto simp: bit_simps pbit_def dest: bit_imp_le_length)
  next
    case False
    have "\<not> bit b j" using False bit_imp_le_length[of b j] by auto
    moreover have "pbit (b # bs) j = pbit bs (j - 8)"
    proof -
      have "j div 8 = Suc ((j - 8) div 8)" "j mod 8 = (j - 8) mod 8" using False by (auto simp: le_div_geq le_mod_geq)
      then show ?thesis by (simp add: pbit_def)
    qed
    ultimately show ?thesis using False Cons[of "j - 8"] by (auto simp: bit_simps)
  qed
qed simp

lemma pbit_to_le: "j < 8 * n \<Longrightarrow> pbit (to_le n w) j \<longleftrightarrow> bit w j"
proof (induction n arbitrary: w j)
  case (Suc n)
  show ?case
  proof (cases "j < 8")
    case True
    then show ?thesis by (auto simp: pbit_def bit_simps)
  next
    case False
    then have "j div 8 = Suc ((j - 8) div 8)" "j mod 8 = (j - 8) mod 8" by (auto simp: le_div_geq le_mod_geq)
    then have "pbit (to_le (Suc n) w) j = pbit (to_le n (drop_bit 8 w)) (j - 8)" by (simp add: pbit_def)
    also have "\<dots> = bit (drop_bit 8 w) (j - 8)" using Suc False by simp
    finally show ?thesis using False by (simp add: bit_drop_bit_eq)
  qed
qed simp

section \<open>Channels\<close>

datatype ChannelKind = Delta | Raw

record AvatarChannel =
  ch_bit_offset :: nat
  ch_width :: nat
  ch_kind :: ChannelKind

text \<open>\<open>(1 << width) - 1\<close>, with the full width as a case of its own, as the sources write it.\<close>

definition low_mask :: "nat \<Rightarrow> 'a::len word" where
  "low_mask width = (if width \<ge> LENGTH('a) then NOT 0 else push_bit width 1 - 1)"

lemma bit_low_mask [simp]: "bit (low_mask width :: 'a::len word) j \<longleftrightarrow> j < LENGTH('a) \<and> j < width"
proof (cases "width \<ge> LENGTH('a)")
  case False
  then have "low_mask width = (mask width :: 'a word)" by (simp add: low_mask_def mask_eq_decr_exp push_bit_of_1)
  then show ?thesis by (simp add: bit_mask_iff conj_commute)
qed (auto simp: low_mask_def)

definition channel_mask :: "AvatarChannel \<Rightarrow> u32" where
  "channel_mask ch = low_mask (ch_width ch)"

definition read_channel :: "bytes \<Rightarrow> AvatarChannel \<Rightarrow> u32" where
  "read_channel payload ch =
     (let first_byte = ch_bit_offset ch div 8; bit_shift = ch_bit_offset ch mod 8
      in if first_byte + 8 \<le> length payload
         then ucast (drop_bit bit_shift (of_le (take 8 (drop first_byte payload)) :: u64) AND low_mask (ch_width ch))
         else let byte_count = (bit_shift + ch_width ch + 7) div 8
              in ucast (drop_bit bit_shift (window_of (take byte_count (drop first_byte payload))) AND low_mask (ch_width ch)))"

text \<open>The fall-back of \<open>replace_channel\<close>, bit by bit.\<close>

definition set_bit_to :: "nat \<Rightarrow> bool \<Rightarrow> bytes \<Rightarrow> bytes" where
  "set_bit_to i b payload =
     payload[i div 8 := (if b then (payload ! (i div 8)) OR push_bit (i mod 8) 1
                         else (payload ! (i div 8)) AND NOT (push_bit (i mod 8) 1))]"

definition replace_channel :: "bytes \<Rightarrow> AvatarChannel \<Rightarrow> u32 \<Rightarrow> bytes" where
  "replace_channel payload ch v =
     (if ch_width ch = 0 then payload
      else
        let first_byte = ch_bit_offset ch div 8; bit_shift = ch_bit_offset ch mod 8;
            span_bits = bit_shift + ch_width ch; byte_count = (span_bits + 7) div 8
        in if span_bits \<le> 64 \<and> first_byte + byte_count \<le> length payload
           then
             let window = window_of (take byte_count (drop first_byte payload));
                 shifted_mask = push_bit bit_shift (low_mask (ch_width ch));
                 window = (window AND NOT shifted_mask) OR push_bit bit_shift (ucast v AND low_mask (ch_width ch))
             in take first_byte payload @ to_le byte_count window @ drop (first_byte + byte_count) payload
           else foldl (\<lambda>p i. set_bit_to (ch_bit_offset ch + i) (bit v i) p) payload [0..<ch_width ch])"

definition in_payload :: "nat \<Rightarrow> AvatarChannel \<Rightarrow> bool" where
  "in_payload n ch \<longleftrightarrow> 0 < ch_width ch \<and> ch_width ch \<le> 32 \<and> ch_bit_offset ch + ch_width ch \<le> 8 * n"

lemma channel_span:
  assumes "in_payload n ch"
  defines "f \<equiv> ch_bit_offset ch div 8" and "s \<equiv> ch_bit_offset ch mod 8" and "k \<equiv> (ch_bit_offset ch mod 8 + ch_width ch + 7) div 8"
  shows "s < 8" "8 * f + s = ch_bit_offset ch" "s + ch_width ch \<le> 8 * k" "8 * k \<le> 48" "f + k \<le> n"
    "8 * f \<le> ch_bit_offset ch" "ch_bit_offset ch + ch_width ch \<le> 8 * (f + k)"
proof -
  show s: "s < 8" "8 * f + s = ch_bit_offset ch" by (simp_all add: s_def f_def)
  have k: "8 * k \<le> s + ch_width ch + 7" "s + ch_width ch + 7 < 8 * k + 8"
    using dividend_less_times_div[of 8 "s + ch_width ch + 7"] by (simp_all add: k_def s_def)
  then show "s + ch_width ch \<le> 8 * k" by linarith
  show "8 * k \<le> 48" using k(1) s(1) assms(1) by (simp add: in_payload_def)
  have "8 * (f + k) \<le> 8 * n + 7" using k(1) s assms(1) by (simp add: in_payload_def)
  then show "f + k \<le> n" by presburger
  show "8 * f \<le> ch_bit_offset ch" using s(2) by linarith
  show "ch_bit_offset ch + ch_width ch \<le> 8 * (f + k)" unfolding s(2)[symmetric] using k(2) by (simp add: distrib_left)
qed

lemma bit_read_channel:
  assumes "in_payload (length payload) ch"
  shows "bit (read_channel payload ch) j \<longleftrightarrow> j < ch_width ch \<and> pbit payload (ch_bit_offset ch + j)"
proof -
  let ?f = "ch_bit_offset ch div 8" and ?s = "ch_bit_offset ch mod 8" and ?w = "ch_width ch"
  have w: "0 < ?w" "?w \<le> 32" "ch_bit_offset ch + ?w \<le> 8 * length payload"
    using assms by (auto simp: in_payload_def)
  have s: "?s < 8" "8 * ?f + ?s = ch_bit_offset ch" by auto
  have sl: "pbit (take n (drop ?f payload)) (?s + j) = pbit payload (ch_bit_offset ch + j)"
    if "?s + j < 8 * n" "?f + n \<le> length payload" for n
    using pbit_slice[OF that] s(2) by (metis add.assoc)
  let ?n = "(?s + ?w + 7) div 8"
  note n = channel_span(3,5)[OF assms]
  have b: "bit (ucast (drop_bit ?s x AND low_mask ?w) :: u32) j \<longleftrightarrow> j < ?w \<and> bit (x :: u64) (?s + j)" for x
    using w(2) by (auto simp: bit_simps)
  show ?thesis
  proof (cases "?f + 8 \<le> length payload")
    case True
    then show ?thesis using sl[of 8] w(2) s(1)
      by (auto simp: read_channel_def Let_def b bit_of_le)
  next
    case False
    have "length (take ?n (drop ?f payload)) = ?n" using n(2) by simp
    then have "bit (window_of (take ?n (drop ?f payload))) (?s + j) \<longleftrightarrow> pbit payload (ch_bit_offset ch + j)" if "j < ?w"
    proof -
      have "?s + j < 64" "?s + j < 8 * ?n" using s(1) w(2) n(1) that by linarith+
      then show ?thesis using sl[of ?n] n(2) \<open>length _ = ?n\<close> by (simp add: bit_window_of del: length_take)
    qed
    then show ?thesis using False by (auto simp: read_channel_def Let_def b)
  qed
qed

lemma pbit_spliced:
  assumes "f + n \<le> length p" "length q = n" "i < 8 * length p"
  shows "pbit (take f p @ q @ drop (f + n) p) i =
    (if 8 * f \<le> i \<and> i < 8 * (f + n) then pbit q (i - 8 * f) else pbit p i)"
proof -
  have k: "i div 8 < length p" using assms(3) by auto
  consider "i div 8 < f" | "f \<le> i div 8" "i div 8 < f + n" | "f + n \<le> i div 8" by linarith
  then show ?thesis
  proof cases
    case 1
    then have "\<not> 8 * f \<le> i" by auto
    then show ?thesis using 1 assms by (simp add: pbit_def nth_append)
  next
    case 2
    then have "8 * f \<le> i" "i < 8 * (f + n)" by auto
    then obtain j where j: "i = 8 * f + j" "j < 8 * n" using le_Suc_ex by (metis add_mult_distrib2 nat_add_left_cancel_less)
    then have "j div 8 < n" by auto
    then show ?thesis using j assms by (simp add: pbit_def nth_append)
  next
    case 3
    then have "\<not> i < 8 * (f + n)" "\<not> i div 8 - f < n" by auto
    then show ?thesis using 3 assms k by (simp add: pbit_def nth_append)
  qed
qed

lemma replace_channel_bits:
  assumes "in_payload (length payload) ch"
  shows "length (replace_channel payload ch v) = length payload"
    and "i < 8 * length payload \<Longrightarrow> pbit (replace_channel payload ch v) i =
    (if ch_bit_offset ch \<le> i \<and> i < ch_bit_offset ch + ch_width ch then bit v (i - ch_bit_offset ch) else pbit payload i)"
proof -
  let ?o = "ch_bit_offset ch" and ?f = "ch_bit_offset ch div 8" and ?s = "ch_bit_offset ch mod 8" and ?w = "ch_width ch"
  let ?n = "(?s + ?w + 7) div 8"
  have w: "0 < ?w" "?w \<le> 32" "?o + ?w \<le> 8 * length payload" using assms(1) by (auto simp: in_payload_def)
  have s: "?s < 8" "8 * ?f + ?s = ?o" by auto
  note n = channel_span(3-5)[OF assms(1)]
  let ?x = "window_of (take ?n (drop ?f payload))"
  let ?y = "(?x AND NOT (push_bit ?s (low_mask ?w))) OR push_bit ?s (ucast v AND low_mask ?w)"
  have r: "replace_channel payload ch v = take ?f payload @ to_le ?n ?y @ drop (?f + ?n) payload"
    using w n s(1) by (simp add: replace_channel_def Let_def)
  have y: "bit ?y j \<longleftrightarrow> (if ?s \<le> j \<and> j < ?s + ?w then bit v (j - ?s) else pbit payload (8 * ?f + j))" if "j < 8 * ?n" for j
  proof -
    have j: "j < 64" using that n(2) by linarith
    have "length (take ?n (drop ?f payload)) = ?n" using n(3) by simp
    then have "bit ?x j \<longleftrightarrow> pbit payload (8 * ?f + j)"
      using pbit_slice[OF that n(3)] that j by (simp add: bit_window_of)
    then show ?thesis using j w(2) by (auto simp: bit_simps)
  qed
  show "length (replace_channel payload ch v) = length payload" unfolding r using n(3) by simp
  assume i: "i < 8 * length payload"
  show "pbit (replace_channel payload ch v) i = (if ?o \<le> i \<and> i < ?o + ?w then bit v (i - ?o) else pbit payload i)"
  proof (cases "8 * ?f \<le> i \<and> i < 8 * (?f + ?n)")
    case True
    then have j: "i - 8 * ?f < 8 * ?n" by auto
    have "pbit (replace_channel payload ch v) i = bit ?y (i - 8 * ?f)"
      unfolding r pbit_spliced[OF n(3) length_to_le i] using True by (simp add: pbit_to_le[OF j])
    moreover have "?s \<le> i - 8 * ?f \<longleftrightarrow> ?o \<le> i" "i - 8 * ?f < ?s + ?w \<longleftrightarrow> i < ?o + ?w" "i - 8 * ?f - ?s = i - ?o"
      using True s(2) by linarith+
    ultimately show ?thesis using y[OF j] True by simp
  next
    case False
    moreover have "8 * ?f \<le> i \<and> i < 8 * (?f + ?n)" if "?o \<le> i \<and> i < ?o + ?w"
      using that channel_span(6,7)[OF assms(1)] by (meson le_trans less_le_trans)
    ultimately have "\<not> (?o \<le> i \<and> i < ?o + ?w)" by blast
    moreover have "pbit (replace_channel payload ch v) i = pbit payload i"
      unfolding r pbit_spliced[OF n(3) length_to_le i] using False by auto
    ultimately show ?thesis by presburger
  qed
qed

section \<open>The residual writer\<close>

text \<open>
  \<open>None\<close> is the panic of an index out of range. The loop of \<open>write_bits\<close> starts with \<open>shift\<close> below 8.
\<close>

record ResidualBitWriter =
  wr_bytes :: bytes
  wr_position :: nat

function write_loop :: "u64 \<Rightarrow> nat \<Rightarrow> nat \<Rightarrow> nat \<Rightarrow> bytes \<Rightarrow> bytes option" where
  "write_loop v todo byte_index shift bs =
     (if todo = 0 \<or> 8 \<le> shift then Some bs
      else if length bs \<le> byte_index then None
      else
        let n = min todo (8 - shift); m = low_mask n :: u8;
            byte = (bs ! byte_index AND NOT (push_bit shift m)) OR push_bit shift (ucast v AND m)
        in write_loop (drop_bit n v) (todo - n) (byte_index + 1) 0 (bs[byte_index := byte]))"
  by auto
termination
  by (relation "measure (\<lambda>(v, todo, i, s, bs). todo)") auto

declare write_loop.simps [simp del]

definition write_bits :: "u64 \<Rightarrow> nat \<Rightarrow> ResidualBitWriter \<Rightarrow> ResidualBitWriter option" where
  "write_bits v n w =
     map_option (\<lambda>bs. \<lparr>wr_bytes = bs, wr_position = wr_position w + n\<rparr>)
       (write_loop v n (wr_position w div 8) (wr_position w mod 8) (wr_bytes w))"

definition write_bit :: "u32 \<Rightarrow> ResidualBitWriter \<Rightarrow> ResidualBitWriter option" where
  "write_bit v w = write_bits (ucast (v AND 1)) 1 w"

lemma pbit_update:
  assumes "k < length bs"
  shows "pbit (bs[k := x]) i = (if i div 8 = k then bit x (i mod 8) else pbit bs i)"
  using assms by (simp add: pbit_def nth_list_update)

lemma write_loop_bits:
  assumes "shift < 8" "8 * byte_index + shift + todo \<le> 8 * length bs"
  shows "\<exists>bs'. write_loop v todo byte_index shift bs = Some bs' \<and> length bs' = length bs \<and>
    (\<forall>i. pbit bs' i = (if 8 * byte_index + shift \<le> i \<and> i < 8 * byte_index + shift + todo
       then bit v (i - (8 * byte_index + shift)) else pbit bs i))"
  using assms
proof (induction v todo byte_index shift bs rule: write_loop.induct)
  case (1 v todo byte_index shift bs)
  show ?case
  proof (cases "todo = 0")
    case True
    then show ?thesis by (auto simp: write_loop.simps)
  next
    case False
    let ?n = "min todo (8 - shift)"
    let ?m = "low_mask ?n :: u8"
    let ?byte = "(bs ! byte_index AND NOT (push_bit shift ?m)) OR push_bit shift (ucast v AND ?m)"
    let ?bs = "bs[byte_index := ?byte]"
    have k: "byte_index < length bs" using "1.prems" False by linarith
    have w: "write_loop v todo byte_index shift bs = write_loop (drop_bit ?n v) (todo - ?n) (byte_index + 1) 0 ?bs"
      using False "1.prems"(1) k by (subst write_loop.simps) (simp add: Let_def)
    have fit: "8 * (byte_index + 1) + 0 + (todo - ?n) \<le> 8 * length ?bs"
      using "1.prems" k by (cases "todo \<le> 8 - shift") (simp_all add: min_def)
    obtain bs' where bs': "write_loop (drop_bit ?n v) (todo - ?n) (byte_index + 1) 0 ?bs = Some bs'" "length bs' = length ?bs"
      and b: "\<And>i. pbit bs' i = (if 8 * (byte_index + 1) + 0 \<le> i \<and> i < 8 * (byte_index + 1) + 0 + (todo - ?n)
         then bit (drop_bit ?n v) (i - (8 * (byte_index + 1) + 0)) else pbit ?bs i)"
      using "1.IH"[OF _ _ refl refl refl _ fit] False "1.prems"(1) k by auto
    have "pbit bs' i = (if 8 * byte_index + shift \<le> i \<and> i < 8 * byte_index + shift + todo
       then bit v (i - (8 * byte_index + shift)) else pbit bs i)" for i
    proof -
      consider "i div 8 < byte_index" | "i div 8 = byte_index" | "byte_index < i div 8" by linarith
      then show ?thesis
      proof cases
        case 1
        then have "i < 8 * byte_index" by auto
        then show ?thesis using b[of i] 1 k by (simp add: pbit_update)
      next
        case 2
        obtain j where i: "i = 8 * byte_index + j" and j: "j < 8"
          using 2 by (metis mod_less_divisor mult_div_mod_eq zero_less_numeral)
        have p: "pbit bs (8 * byte_index + j) = bit (bs ! byte_index) j" "i mod 8 = j" using i j by (simp_all add: pbit_def)
        have "pbit bs' i = bit ?byte j" using b[of i] 2 k i j p(2) by (simp add: pbit_update)
        also have "\<dots> = (if shift \<le> j \<and> j < shift + ?n then bit v (j - shift) else bit (bs ! byte_index) j)"
          using j by (auto simp: bit_simps)
        also have "(shift \<le> j \<and> j < shift + ?n) \<longleftrightarrow> (shift \<le> j \<and> j < shift + todo)" using j by auto
        finally show ?thesis unfolding i by (simp only: p(1) add_diff_cancel_left nat_add_left_cancel_le nat_add_left_cancel_less add.assoc)
      next
        case 3
        then have i: "8 * (byte_index + 1) \<le> i" by auto
        then obtain j where j: "i = 8 * (byte_index + 1) + j" using le_Suc_ex by blast
        have n: "?n = 8 - shift" if "j < todo - ?n" using that by auto
        then have "?n + j = i - (8 * byte_index + shift)" if "j < todo - ?n" using that j "1.prems"(1) by simp
        moreover have "i < 8 * byte_index + shift + todo \<longleftrightarrow> j < todo - ?n"
          using j "1.prems"(1) by auto
        ultimately show ?thesis using b[of i] 3 k i j "1.prems"(1)
          by (auto simp: pbit_update bit_drop_bit_eq)
      qed
    qed
    then show ?thesis using w bs' by auto
  qed
qed

end
