(* ===== verification/ResidualCodec.thy ===== *)
theory ResidualCodec
  imports AvatarBits
begin

text \<open>
  The reader of the residual bit stream and the signed Exp-Golomb code of
  \<open>basis-protocol/src/avatar_delta.rs\<close>, with the round trip of writer and reader.
\<close>

section \<open>The reader\<close>

datatype delta_error =
    BaselineTooSmall | CurrentTooSmall | MissingMask | TruncatedBits | TruncatedCode | InvalidPrefix | BodyOverrun

record ResidualBitReader =
  rd_bytes :: bytes
  rd_position :: nat
  rd_end :: nat

definition read_bit :: "ResidualBitReader \<Rightarrow> delta_error + u32 \<times> ResidualBitReader" where
  "read_bit r =
     (if rd_position r + 1 > rd_end r then Inl TruncatedBits
      else case list_get (rd_bytes r) (rd_position r div 8) of
        None \<Rightarrow> Inl TruncatedBits
      | Some byte \<Rightarrow> Inr (ucast (drop_bit (rd_position r mod 8) byte AND 1), r\<lparr>rd_position := rd_position r + 1\<rparr>))"

definition read_bits :: "nat \<Rightarrow> ResidualBitReader \<Rightarrow> delta_error + u64 \<times> ResidualBitReader" where
  "read_bits n r =
     (if rd_position r + n > rd_end r then Inl TruncatedBits
      else if n = 0 then Inr (0, r)
      else
        let bit_shift = rd_position r mod 8; span_bits = bit_shift + n
        in if span_bits \<le> 64 then
             let first_byte = rd_position r div 8; byte_count = (span_bits + 7) div 8
             in if first_byte + byte_count \<le> length (rd_bytes r)
                then Inr (drop_bit bit_shift (window_of (take byte_count (drop first_byte (rd_bytes r)))) AND low_mask n,
                          r\<lparr>rd_position := rd_position r + n\<rparr>)
                else Inl TruncatedBits
           else Inr (foldl (\<lambda>v i. if pbit (rd_bytes r) (rd_position r + i) then v OR push_bit i 1 else v) 0 [0..<n],
                     r\<lparr>rd_position := rd_position r + n\<rparr>))"

section \<open>The signed Exp-Golomb code\<close>

definition zigzag :: "u32 \<Rightarrow> u32" where
  "zigzag v = push_bit 1 v XOR signed_drop_bit 31 v"

definition leading_zeros :: "u32 \<Rightarrow> nat" where
  "leading_zeros w = length (takeWhile (\<lambda>i. \<not> bit w i) (rev [0..<32]))"

definition reverse_bits :: "u32 \<Rightarrow> u32" where
  "reverse_bits w = horner_sum of_bool 2 (map (bit w) (rev [0..<32]))"

definition signed_eg_bits :: "u32 \<Rightarrow> nat" where
  "signed_eg_bits v = 2 * (32 - leading_zeros (zigzag v + 1)) - 1"

definition write_signed_eg :: "u32 \<Rightarrow> ResidualBitWriter \<Rightarrow> ResidualBitWriter option" where
  "write_signed_eg v w =
     (if v = 0 then write_bit 1 w
      else
        let m = zigzag v + 1;
            num_bits = 32 - leading_zeros m;
            reversed = drop_bit (32 - num_bits) (reverse_bits m);
            code = push_bit (num_bits - 1) (ucast reversed)
        in write_bits code (2 * num_bits - 1) w)"

text \<open>The loop over the zeros ends because a prefix of more than 32 of them is refused.\<close>

function eg_prefix :: "nat \<Rightarrow> ResidualBitReader \<Rightarrow> delta_error + nat \<times> ResidualBitReader" where
  "eg_prefix zeros r =
     (if rd_position r \<ge> rd_end r then Inl TruncatedCode
      else case read_bit r of
        Inl e \<Rightarrow> Inl e
      | Inr (b, r1) \<Rightarrow>
          if b \<noteq> 0 then Inr (zeros, r1)
          else if zeros + 1 > 32 then Inl InvalidPrefix
          else eg_prefix (zeros + 1) r1)"
  by auto
termination
  by (relation "measure (\<lambda>(zeros, r). 32 - zeros)") auto

declare eg_prefix.simps [simp del]

fun eg_suffix :: "nat \<Rightarrow> u32 \<Rightarrow> ResidualBitReader \<Rightarrow> delta_error + u32 \<times> ResidualBitReader" where
  "eg_suffix 0 m r = Inr (m, r)"
| "eg_suffix (Suc n) m r =
     (case read_bit r of
        Inl e \<Rightarrow> Inl e
      | Inr (b, r1) \<Rightarrow> eg_suffix n (push_bit 1 m OR b) r1)"

definition read_signed_eg :: "ResidualBitReader \<Rightarrow> delta_error + u32 \<times> ResidualBitReader" where
  "read_signed_eg r =
     (case eg_prefix 0 r of
        Inl e \<Rightarrow> Inl e
      | Inr (zeros, r1) \<Rightarrow>
          (case eg_suffix zeros 1 r1 of
             Inl e \<Rightarrow> Inl e
           | Inr (m, r2) \<Rightarrow>
               let zz = m - 1 in Inr (drop_bit 1 zz XOR - (zz AND 1), r2)))"

section \<open>What is written and what is read\<close>

definition bits_of :: "'a::len word \<Rightarrow> nat \<Rightarrow> bool list" where
  "bits_of v n = map (bit v) [0..<n]"

lemma length_bits_of [simp]: "length (bits_of v n) = n"
  by (simp add: bits_of_def)

lemma nth_bits_of [simp]: "i < n \<Longrightarrow> bits_of v n ! i = bit v i"
  by (simp add: bits_of_def)

definition emits :: "ResidualBitWriter \<Rightarrow> ResidualBitWriter \<Rightarrow> bool list \<Rightarrow> bool" where
  "emits w w' bl \<longleftrightarrow> wr_position w' = wr_position w + length bl \<and> length (wr_bytes w') = length (wr_bytes w) \<and>
     (\<forall>i<wr_position w. pbit (wr_bytes w') i = pbit (wr_bytes w) i) \<and>
     (\<forall>i<length bl. pbit (wr_bytes w') (wr_position w + i) = bl ! i)"

lemma emits_nil [simp]: "emits w w []"
  by (simp add: emits_def)

lemma emits_append:
  assumes "emits w w1 a" "emits w1 w2 b"
  shows "emits w w2 (a @ b)"
proof -
  have "pbit (wr_bytes w2) (wr_position w + i) = (a @ b) ! i" if "i < length (a @ b)" for i
  proof (cases "i < length a")
    case True
    then show ?thesis using assms by (simp add: emits_def nth_append)
  next
    case False
    then obtain j where "i = length a + j" using le_Suc_ex not_less by blast
    then show ?thesis using assms that by (simp add: emits_def nth_append add.assoc)
  qed
  then show ?thesis using assms by (simp add: emits_def)
qed

text \<open>Enough room for \<open>n\<close> more bits.\<close>

definition room :: "nat \<Rightarrow> ResidualBitWriter \<Rightarrow> bool" where
  "room n w \<longleftrightarrow> wr_position w + n \<le> 8 * length (wr_bytes w)"

lemma room_after: "emits w w' bl \<Longrightarrow> room (length bl + n) w \<Longrightarrow> room n w'"
  by (simp add: room_def emits_def)

lemma room_less: "room n w \<Longrightarrow> k \<le> n \<Longrightarrow> room k w"
  by (simp add: room_def)

lemma write_bits_emits:
  assumes "room n w"
  shows "\<exists>w'. write_bits v n w = Some w' \<and> emits w w' (bits_of v n)"
proof -
  have p: "8 * (wr_position w div 8) + wr_position w mod 8 = wr_position w" by simp
  obtain bs where "write_loop v n (wr_position w div 8) (wr_position w mod 8) (wr_bytes w) = Some bs"
    "length bs = length (wr_bytes w)"
    "\<And>i. pbit bs i = (if wr_position w \<le> i \<and> i < wr_position w + n then bit v (i - wr_position w) else pbit (wr_bytes w) i)"
    using write_loop_bits[of "wr_position w mod 8" "wr_position w div 8" n "wr_bytes w" v] assms
    unfolding p room_def by auto
  then show ?thesis by (auto simp: write_bits_def emits_def)
qed

lemma write_bit_emits:
  assumes "room 1 w"
  shows "\<exists>w'. write_bit v w = Some w' \<and> emits w w' [bit v 0]"
proof -
  have "bits_of (ucast (v AND 1) :: u64) 1 = [bit v 0]" by (simp add: bits_of_def bit_simps)
  then show ?thesis using write_bits_emits[OF assms, of "ucast (v AND 1)"] by (simp add: write_bit_def)
qed

definition holds :: "ResidualBitReader \<Rightarrow> bool list \<Rightarrow> bool" where
  "holds r bl \<longleftrightarrow> rd_position r + length bl \<le> rd_end r \<and> rd_end r \<le> 8 * length (rd_bytes r) \<and>
     (\<forall>i<length bl. pbit (rd_bytes r) (rd_position r + i) = bl ! i)"

definition ahead :: "nat \<Rightarrow> ResidualBitReader \<Rightarrow> ResidualBitReader" where
  "ahead n r = r\<lparr>rd_position := rd_position r + n\<rparr>"

lemma holds_append: "holds r (a @ b) \<longleftrightarrow> holds r a \<and> holds (ahead (length a) r) b"
proof
  assume h: "holds r (a @ b)"
  have "pbit (rd_bytes r) (rd_position r + length a + j) = b ! j" if "j < length b" for j
  proof -
    have "pbit (rd_bytes r) (rd_position r + (length a + j)) = (a @ b) ! (length a + j)"
      using h that unfolding holds_def by (metis add_less_cancel_left length_append)
    then show ?thesis by (simp add: add.assoc)
  qed
  moreover have "pbit (rd_bytes r) (rd_position r + i) = a ! i" if "i < length a" for i
  proof -
    have "pbit (rd_bytes r) (rd_position r + i) = (a @ b) ! i"
      using h that unfolding holds_def by (metis length_append trans_less_add1)
    then show ?thesis using that by (simp add: nth_append)
  qed
  ultimately show "holds r a \<and> holds (ahead (length a) r) b" using h by (simp add: holds_def ahead_def)
next
  assume h: "holds r a \<and> holds (ahead (length a) r) b"
  have "pbit (rd_bytes r) (rd_position r + i) = (a @ b) ! i" if "i < length (a @ b)" for i
  proof (cases "i < length a")
    case False
    then obtain j where "i = length a + j" using le_Suc_ex not_less by blast
    then show ?thesis using h that by (simp add: holds_def ahead_def nth_append add.assoc)
  qed (use h in \<open>simp add: holds_def nth_append\<close>)
  then show "holds r (a @ b)" using h by (simp add: holds_def ahead_def)
qed

lemma ahead_simps [simp]:
  "rd_position (ahead n r) = rd_position r + n" "rd_bytes (ahead n r) = rd_bytes r" "rd_end (ahead n r) = rd_end r"
  "ahead m (ahead n r) = ahead (n + m) r" "ahead 0 r = r"
  by (simp_all add: ahead_def add.assoc)

lemma read_bit_holds:
  assumes "holds r [b]"
  shows "read_bit r = Inr (of_bool b, ahead 1 r)"
proof -
  have "rd_position r div 8 < length (rd_bytes r)" "rd_position r + 1 \<le> rd_end r" "pbit (rd_bytes r) (rd_position r) = b"
    using assms by (auto simp: holds_def)
  moreover have "(ucast (drop_bit (rd_position r mod 8) byte AND 1) :: u32) = of_bool (bit byte (rd_position r mod 8))" for byte :: u8
    by (rule bit_word_eqI) (auto simp: bit_simps)
  ultimately show ?thesis by (simp add: read_bit_def list_get_def ahead_def pbit_def)
qed

lemma read_bits_holds:
  assumes "holds r (bits_of v n)" "0 < n" "n \<le> 32"
  shows "read_bits n r = Inr (take_bit n v, ahead n r)"
proof -
  let ?f = "rd_position r div 8" and ?s = "rd_position r mod 8"
  let ?k = "(?s + n + 7) div 8"
  have s: "?s < 8" "8 * ?f + ?s = rd_position r" by auto
  have e: "rd_position r + n \<le> rd_end r" "rd_position r + n \<le> 8 * length (rd_bytes r)"
    using assms(1) by (auto simp: holds_def)
  have "in_payload (length (rd_bytes r)) \<lparr>ch_bit_offset = rd_position r, ch_width = n, ch_kind = Raw\<rparr>"
    using assms(2,3) e(2) by (simp add: in_payload_def)
  from channel_span(3,5)[OF this] have k: "?s + n \<le> 8 * ?k" and fk: "?f + ?k \<le> length (rd_bytes r)" by simp_all
  have len: "length (take ?k (drop ?f (rd_bytes r))) = ?k" using fk by simp
  have "bit (window_of (take ?k (drop ?f (rd_bytes r)))) (?s + j) \<longleftrightarrow> bit v j" if "j < n" for j
  proof -
    have j: "?s + j < 8 * ?k" "?s + j < 64" using that k s(1) assms(3) by linarith+
    have "pbit (take ?k (drop ?f (rd_bytes r))) (?s + j) = pbit (rd_bytes r) (8 * ?f + (?s + j))"
      using j(1) fk by (rule pbit_slice)
    also have "\<dots> = bit v j" using assms(1) that by (simp add: holds_def add.assoc[symmetric])
    finally show ?thesis using j by (simp add: bit_window_of len del: length_take)
  qed
  then have "drop_bit ?s (window_of (take ?k (drop ?f (rd_bytes r)))) AND low_mask n = take_bit n v"
    by (intro bit_word_eqI) (auto simp: bit_simps)
  moreover have "?s + n \<le> 64" using assms(3) s(1) by linarith
  ultimately show ?thesis using assms(2,3) e(1) fk by (simp add: read_bits_def Let_def ahead_def)
qed

section \<open>Round trip of the code\<close>

definition num_bits :: "u32 \<Rightarrow> nat" where
  "num_bits m = 32 - leading_zeros m"

lemma takeWhile_rev_upt:
  assumes "k = n - length (takeWhile (\<lambda>i. \<not> P i) (rev [0..<n]))"
  shows "(0 < k \<longrightarrow> P (k - 1)) \<and> (\<forall>i. k \<le> i \<and> i < n \<longrightarrow> \<not> P i)"
  using assms
proof (induction n arbitrary: k)
  case (Suc n)
  show ?case
  proof (cases "P n")
    case True
    then have "k = Suc n" using Suc.prems by simp
    then show ?thesis using True by auto
  next
    case False
    then have "k = n - length (takeWhile (\<lambda>i. \<not> P i) (rev [0..<n]))" using Suc.prems by simp
    from Suc.IH[OF this] show ?thesis using False by (metis less_Suc_eq)
  qed
qed simp

lemma num_bits_top:
  assumes "m \<noteq> 0"
  shows "0 < num_bits m" "num_bits m \<le> 32" "bit m (num_bits m - 1)" "bit m i \<Longrightarrow> i < num_bits m"
proof -
  have t: "(0 < num_bits m \<longrightarrow> bit m (num_bits m - 1)) \<and> (\<forall>i. num_bits m \<le> i \<and> i < 32 \<longrightarrow> \<not> bit m i)"
    by (rule takeWhile_rev_upt) (simp only: num_bits_def leading_zeros_def)
  show i: "i < num_bits m" if "bit m i" for i
  proof (rule ccontr)
    assume "\<not> i < num_bits m"
    moreover have "i < 32" using bit_imp_le_length[OF that] by simp
    ultimately show False using t that by auto
  qed
  obtain j where "bit m j" using assms by (metis bit_eqI bit_0_eq bot_apply bot_bool_def)
  from i[OF this] show n: "0 < num_bits m" by simp
  show "num_bits m \<le> 32" by (simp add: num_bits_def)
  show "bit m (num_bits m - 1)" using t n by blast
qed

lemma bit_reverse_bits: "bit (reverse_bits m) j \<longleftrightarrow> j < 32 \<and> bit m (31 - j)"
  by (auto simp: reverse_bits_def bit_horner_sum_bit_word_iff rev_nth)

text \<open>The bits of the code: the prefix of zeros, then the number from its highest bit down.\<close>

definition eg_code :: "u32 \<Rightarrow> bool list" where
  "eg_code v = (let m = zigzag v + 1; n = num_bits m in replicate (n - 1) False @ map (bit m) (rev [0..<n]))"

lemma length_eg_code: "zigzag v + 1 \<noteq> 0 \<Longrightarrow> length (eg_code v) = signed_eg_bits v"
  using num_bits_top(1)[of "zigzag v + 1"] by (simp add: eg_code_def Let_def signed_eg_bits_def num_bits_def)

lemma eg_code_bits:
  assumes "m \<noteq> 0"
  defines "n \<equiv> num_bits m"
  shows "bits_of (push_bit (n - 1) (ucast (drop_bit (32 - n) (reverse_bits m))) :: u64) (2 * n - 1) =
    replicate (n - 1) False @ map (bit m) (rev [0..<n])"
proof (rule nth_equalityI)
  note t = num_bits_top[OF assms(1)]
  show "length (bits_of (push_bit (n - 1) (ucast (drop_bit (32 - n) (reverse_bits m))) :: u64) (2 * n - 1)) =
      length (replicate (n - 1) False @ map (bit m) (rev [0..<n]))" using t(1) by (simp add: n_def)
  fix i assume "i < length (bits_of (push_bit (n - 1) (ucast (drop_bit (32 - n) (reverse_bits m))) :: u64) (2 * n - 1))"
  then have i: "i < 2 * n - 1" by simp
  show "bits_of (push_bit (n - 1) (ucast (drop_bit (32 - n) (reverse_bits m))) :: u64) (2 * n - 1) ! i =
      (replicate (n - 1) False @ map (bit m) (rev [0..<n])) ! i"
  proof (cases "i < n - 1")
    case True
    then show ?thesis using i by (simp add: nth_append bit_simps)
  next
    case False
    then obtain j where j: "i = n - 1 + j" using le_Suc_ex not_less by blast
    have "j < n" "n \<le> 32" using i j t(2) by (auto simp: n_def)
    then show ?thesis using i j by (auto simp: nth_append bit_simps bit_reverse_bits rev_nth)
  qed
qed

lemma zigzag_0 [simp]: "zigzag 0 = 0"
  by (simp add: zigzag_def)

lemma eg_code_0: "eg_code 0 = [True]"
proof -
  have "num_bits 1 - 1 = 0" using num_bits_top(3)[of 1] by (simp add: bit_1_iff)
  then have "num_bits 1 = 1" using num_bits_top(1)[of 1] by simp
  then show ?thesis by (simp add: eg_code_def)
qed

lemma write_signed_eg_emits:
  assumes "zigzag v + 1 \<noteq> 0" "room (signed_eg_bits v) w"
  shows "\<exists>w'. write_signed_eg v w = Some w' \<and> emits w w' (eg_code v)"
proof (cases "v = 0")
  case True
  then have "room 1 w" using assms length_eg_code[of v] eg_code_0 by simp
  from write_bit_emits[OF this, of 1] show ?thesis using True by (simp add: write_signed_eg_def eg_code_0)
next
  case False
  let ?m = "zigzag v + 1"
  have "room (2 * num_bits ?m - 1) w" using assms(2) by (simp add: signed_eg_bits_def num_bits_def)
  from write_bits_emits[OF this] show ?thesis
    using False unfolding write_signed_eg_def Let_def eg_code_def num_bits_def[symmetric] eg_code_bits[OF assms(1), symmetric]
    by simp
qed

lemma bit_zigzag: "bit (zigzag v) n \<longleftrightarrow> n < 32 \<and> ((0 < n \<and> bit v (n - 1)) \<noteq> bit v 31)"
proof -
  have "bit v (if 32 - 31 \<le> n \<or> n = 0 then 31 + n else n) \<longrightarrow> n = 0" by (auto dest: bit_imp_le_length)
  then show ?thesis
    unfolding zigzag_def bit_xor_iff bit_push_bit_iff bit_signed_drop_bit_iff
    by (auto simp: possible_bit_def bit_simps split: if_splits)
qed

lemma zigzag_roundtrip: "drop_bit 1 (zigzag v) XOR - (zigzag v AND 1) = v"
proof (rule bit_word_eqI)
  fix n assume n: "n < LENGTH(32)"
  have z: "zigzag v AND 1 = of_bool (bit v 31)"
    by (rule bit_word_eqI) (auto simp: bit_zigzag bit_and_iff bit_1_iff)
  have "bit (- (zigzag v AND 1)) n \<longleftrightarrow> bit v 31" using n unfolding z by (cases "bit v 31") auto
  then show "bit (drop_bit 1 (zigzag v) XOR - (zigzag v AND 1)) n = bit v n"
    using n by (cases "n = 31") (auto simp: bit_xor_iff bit_drop_bit_eq bit_zigzag)
qed

lemma eg_prefix_holds:
  assumes "holds r (replicate k False @ [True])" "zeros + k \<le> 32"
  shows "eg_prefix zeros r = Inr (zeros + k, ahead (k + 1) r)"
  using assms
proof (induction k arbitrary: zeros r)
  case 0
  then show ?case using read_bit_holds[of r True] by (subst eg_prefix.simps) (simp add: holds_def)
next
  case (Suc k)
  have h: "holds r [False]" "holds (ahead 1 r) (replicate k False @ [True])"
    using Suc.prems(1) holds_append[of r "[False]" "replicate k False @ [True]"] by simp_all
  have "rd_position r < rd_end r" using h(1) by (simp add: holds_def)
  then show ?case using Suc.IH[OF h(2), of "zeros + 1"] read_bit_holds[OF h(1)] Suc.prems(2)
    by (subst eg_prefix.simps) simp
qed

lemma eg_suffix_holds:
  assumes "holds r (map (bit m) (rev [0..<k]))"
  shows "eg_suffix k (drop_bit k m) r = Inr (m, ahead k r)"
  using assms
proof (induction k arbitrary: r)
  case (Suc k)
  have h: "holds r [bit m k]" "holds (ahead 1 r) (map (bit m) (rev [0..<k]))"
    using Suc.prems holds_append[of r "[bit m k]" "map (bit m) (rev [0..<k])"] by simp_all
  have "push_bit 1 (drop_bit (Suc k) m) OR of_bool (bit m k) = drop_bit k m"
  proof (rule bit_word_eqI)
    fix n assume "n < LENGTH(32)"
    then show "bit (push_bit 1 (drop_bit (Suc k) m) OR of_bool (bit m k)) n = bit (drop_bit k m) n"
      unfolding bit_or_iff bit_push_bit_iff bit_drop_bit_eq by (cases n) (auto simp: possible_bit_def bit_simps)
  qed
  then show ?case using Suc.IH[OF h(2)] read_bit_holds[OF h(1)] by simp
qed simp

lemma read_signed_eg_holds:
  assumes "holds r (eg_code v)" "zigzag v + 1 \<noteq> 0"
  shows "read_signed_eg r = Inr (v, ahead (length (eg_code v)) r)"
proof -
  let ?m = "zigzag v + 1" and ?n = "num_bits (zigzag v + 1)"
  note t = num_bits_top[OF assms(2)]
  have u: "rev [0..<?n] = (?n - 1) # rev [0..<?n - 1]" using t(1) by (cases ?n) auto
  have code: "eg_code v = (replicate (?n - 1) False @ [True]) @ map (bit ?m) (rev [0..<?n - 1])"
    using t(3) by (simp add: eg_code_def Let_def u)
  have h: "holds r (replicate (?n - 1) False @ [True])" "holds (ahead ?n r) (map (bit ?m) (rev [0..<?n - 1]))"
    using assms(1) t(1) unfolding code holds_append[of r "_ @ [True]"] by simp_all
  have "drop_bit (?n - 1) ?m = 1"
  proof (rule bit_word_eqI)
    fix n assume "n < LENGTH(32)"
    have "bit ?m (?n - 1 + n) \<Longrightarrow> n = 0" using t(4)[of "?n - 1 + n"] t(1) by linarith
    then show "bit (drop_bit (?n - 1) ?m) n = bit (1 :: u32) n" using t(3) by (auto simp: bit_simps)
  qed
  then have "eg_suffix (?n - 1) 1 (ahead ?n r) = Inr (?m, ahead (?n - 1) (ahead ?n r))"
    using eg_suffix_holds[OF h(2)] by simp
  moreover have "eg_prefix 0 r = Inr (?n - 1, ahead ?n r)"
    using eg_prefix_holds[OF h(1), of 0] t(1,2) by simp
  ultimately show ?thesis using t(1) zigzag_roundtrip[of v] by (simp add: read_signed_eg_def code add.commute)
qed

end
