(* ===== verification/AvatarDelta.thy ===== *)
theory AvatarDelta
  imports MessagesAvatar ResidualCodec
begin

text \<open>
  The delta codec for avatar payloads (\<open>basis-protocol/src/avatar_delta.rs\<close>, with the field tables of
  \<open>basis-protocol/src/avatar.rs\<close>): the layout of a payload as fields of channels, and the encoding of a
  payload against a baseline as a dirty mask and residuals. In \<open>build_delta\<close> the outer \<open>None\<close> is the panic of a
  write outside the buffer; it is shown never to happen.
\<close>

section \<open>Tables\<close>

definition WRITE_POSITION :: nat where "WRITE_POSITION = 9"
definition WRITE_SCALE :: nat where "WRITE_SCALE = 2"
definition WRITE_ROTATION :: nat where "WRITE_ROTATION = 7"
definition WRITE_HIPS_DELTA :: nat where "WRITE_HIPS_DELTA = 5"
definition WRITE_HIPS_ROTATION :: nat where "WRITE_HIPS_ROTATION = 7"
definition TAIL_BYTES :: nat where
  "TAIL_BYTES = WRITE_SCALE + WRITE_ROTATION + WRITE_HIPS_DELTA + WRITE_HIPS_ROTATION"
definition WIRE_BONE_SLOT_COUNT :: nat where "WIRE_BONE_SLOT_COUNT = 21"
definition FINGER_CHANNEL_COUNT :: nat where "FINGER_CHANNEL_COUNT = 10"
definition ROTATION_FIELD_COUNT :: nat where "ROTATION_FIELD_COUNT = WIRE_BONE_SLOT_COUNT + FINGER_CHANNEL_COUNT"

definition BONE_DOF :: "nat list" where
  "BONE_DOF = [3, 3, 3, 3, 3, 3, 3, 3, 3, 2, 2, 2, 2, 2, 2, 2, 2, 2, 2, 1, 1]"
definition BPC_HIGH :: "nat list" where
  "BPC_HIGH = [12, 12, 12, 12, 12, 12, 12, 12, 12, 12, 12, 12, 12, 12, 12, 12, 12, 12, 12, 5, 5]"
definition BPC_MEDIUM :: "nat list" where
  "BPC_MEDIUM = [8, 8, 8, 8, 8, 8, 8, 8, 8, 8, 8, 8, 8, 8, 8, 8, 8, 6, 6, 3, 3]"
definition BPC_LOW :: "nat list" where
  "BPC_LOW = [6, 6, 6, 6, 6, 6, 6, 6, 6, 6, 6, 6, 6, 6, 6, 6, 6, 5, 5, 3, 3]"
definition BPC_VERY_LOW :: "nat list" where
  "BPC_VERY_LOW = [5, 5, 5, 5, 5, 5, 5, 5, 5, 5, 5, 5, 5, 5, 5, 5, 5, 4, 4, 2, 2]"

definition HINGE_BITS :: "nat list" where "HINGE_BITS = [6, 7, 9, 13]"
definition TWIST_BITS :: "nat list" where "TWIST_BITS = [5, 6, 8, 12]"
definition SINGLE_BITS :: "nat list" where "SINGLE_BITS = [4, 4, 5, 7]"
definition CURL_BITS :: "nat list" where "CURL_BITS = [5, 6, 7, 8]"
definition SPLAY_BITS :: "nat list" where "SPLAY_BITS = [3, 4, 5, 6]"

fun quality_index :: "BitQuality \<Rightarrow> nat" where
  "quality_index VeryLow = 0"
| "quality_index Low = 1"
| "quality_index Medium = 2"
| "quality_index High = 3"

fun bpc_table :: "BitQuality \<Rightarrow> nat list" where
  "bpc_table VeryLow = BPC_VERY_LOW"
| "bpc_table Low = BPC_LOW"
| "bpc_table Medium = BPC_MEDIUM"
| "bpc_table High = BPC_HIGH"

definition bone_field_width :: "BitQuality \<Rightarrow> nat \<Rightarrow> nat" where
  "bone_field_width q slot =
     (if BONE_DOF ! slot = 3 then 2 + 3 * bpc_table q ! slot
      else if BONE_DOF ! slot = 2 then HINGE_BITS ! quality_index q + TWIST_BITS ! quality_index q
      else SINGLE_BITS ! quality_index q)"

fun running_offsets :: "nat \<Rightarrow> nat list \<Rightarrow> nat list" where
  "running_offsets b [] = []"
| "running_offsets b (w # ws) = b # running_offsets (b + w) ws"

definition finger_width :: "BitQuality \<Rightarrow> nat" where
  "finger_width q = CURL_BITS ! quality_index q + SPLAY_BITS ! quality_index q"

definition rotation_field_offsets :: "BitQuality \<Rightarrow> nat list" where
  "rotation_field_offsets q =
     running_offsets 0 (map (bone_field_width q) [0..<WIRE_BONE_SLOT_COUNT] @ replicate FINGER_CHANNEL_COUNT (finger_width q))"

section \<open>The layout\<close>

definition FIELD_COUNT :: nat where "FIELD_COUNT = 1 + ROTATION_FIELD_COUNT + 5"
definition DIRTY_MASK_BYTES :: nat where "DIRTY_MASK_BYTES = (FIELD_COUNT + 7) div 8"

abbreviation channel :: "nat \<Rightarrow> nat \<Rightarrow> ChannelKind \<Rightarrow> AvatarChannel" where
  "channel off w k \<equiv> \<lparr>ch_bit_offset = off, ch_width = w, ch_kind = k\<rparr>"

definition bone_channels :: "BitQuality \<Rightarrow> nat \<Rightarrow> AvatarChannel list" where
  "bone_channels q slot =
     (let off = WRITE_POSITION * 8 + rotation_field_offsets q ! slot; n = bpc_table q ! slot;
          hinge = HINGE_BITS ! quality_index q
      in if BONE_DOF ! slot = 3
         then channel off 2 Raw # map (\<lambda>component. channel (off + 2 + component * n) n Delta) [0..<3]
         else if BONE_DOF ! slot = 2
         then [channel off hinge Delta, channel (off + hinge) (TWIST_BITS ! quality_index q) Delta]
         else [channel off (SINGLE_BITS ! quality_index q) Delta])"

definition finger_channels :: "BitQuality \<Rightarrow> nat \<Rightarrow> AvatarChannel list" where
  "finger_channels q finger =
     (let off = WRITE_POSITION * 8 + rotation_field_offsets q ! (WIRE_BONE_SLOT_COUNT + finger);
          curl = CURL_BITS ! quality_index q
      in [channel off curl Delta, channel (off + curl) (SPLAY_BITS ! quality_index q) Delta])"

text \<open>The unused bits at the end of the rotation region belong to the last finger.\<close>

definition rotation_padding :: "BitQuality \<Rightarrow> AvatarChannel list" where
  "rotation_padding q =
     (let rotation_bits = rotation_field_offsets q ! (ROTATION_FIELD_COUNT - 1) + finger_width q;
          rotation_storage_bits = rotation_len q * 8
      in if rotation_storage_bits > rotation_bits
         then [channel (WRITE_POSITION * 8 + rotation_bits) (rotation_storage_bits - rotation_bits) Raw]
         else [])"

definition byte_aligned_quaternion :: "nat \<Rightarrow> AvatarChannel list" where
  "byte_aligned_quaternion off =
     channel off 8 Raw # map (\<lambda>component. channel (off + 8 + component * 16) 16 Delta) [0..<3]"

definition hips_delta_channels :: "nat \<Rightarrow> AvatarChannel list" where
  "hips_delta_channels off =
     map (\<lambda>axis. channel (off + axis * 13) 13 Delta) [0..<3] @
     (if 3 * 13 < WRITE_HIPS_DELTA * 8 then [channel (off + 3 * 13) (WRITE_HIPS_DELTA * 8 - 3 * 13) Raw] else [])"

definition effector_channels :: "nat \<Rightarrow> AvatarChannel list" where
  "effector_channels base =
     channel base 8 Raw #
     concat (map (\<lambda>effector.
       let off = base + 8 + effector * (3 * 12 + 2 + 3 * 10); rotation = off + 3 * 12
       in map (\<lambda>axis. channel (off + axis * 12) 12 Delta) [0..<3] @
          channel rotation 2 Raw # map (\<lambda>component. channel (rotation + 2 + component * 10) 10 Delta) [0..<3]) [0..<4])"

definition build_layout :: "BitQuality \<Rightarrow> AvatarChannel list list" where
  "build_layout q =
     (let tail_start = WRITE_POSITION + rotation_len q;
          body_rotation = tail_start + WRITE_SCALE;
          hips_delta = body_rotation + WRITE_ROTATION;
          hips_rotation = hips_delta + WRITE_HIPS_DELTA
      in [map (\<lambda>axis. channel (axis * 24) 24 Delta) [0..<3]] @
         map (bone_channels q) [0..<WIRE_BONE_SLOT_COUNT] @
         map (\<lambda>finger. finger_channels q finger @
                (if finger + 1 = FINGER_CHANNEL_COUNT then rotation_padding q else [])) [0..<FINGER_CHANNEL_COUNT] @
         [[channel (tail_start * 8) (WRITE_SCALE * 8) Raw],
          byte_aligned_quaternion (body_rotation * 8),
          hips_delta_channels (hips_delta * 8),
          byte_aligned_quaternion (hips_rotation * 8),
          if q = High then effector_channels ((tail_start + TAIL_BYTES) * 8) else []])"

section \<open>Encoding\<close>

definition wrap_signed :: "u32 \<Rightarrow> nat \<Rightarrow> u32" where
  "wrap_signed d width =
     (if width \<ge> 32 then d else signed_drop_bit (32 - width) (push_bit (32 - width) d))"

definition channel_diff :: "bytes \<Rightarrow> bytes \<Rightarrow> AvatarChannel \<Rightarrow> u32" where
  "channel_diff baseline current ch =
     wrap_signed (read_channel current ch - read_channel baseline ch) (ch_width ch)"

definition field_dirty :: "bytes \<Rightarrow> bytes \<Rightarrow> AvatarChannel list \<Rightarrow> bool" where
  "field_dirty baseline current field = list_ex (\<lambda>ch. read_channel current ch \<noteq> read_channel baseline ch) field"

definition dirty_mask :: "bytes \<Rightarrow> bytes \<Rightarrow> AvatarChannel list list \<Rightarrow> bytes" where
  "dirty_mask baseline current layout =
     foldl (\<lambda>dirty f. if field_dirty baseline current (layout ! f)
                     then dirty[f div 8 := dirty ! (f div 8) OR push_bit (f mod 8) 1] else dirty)
       (replicate DIRTY_MASK_BYTES 0) [0..<FIELD_COUNT]"

definition mask_has :: "bytes \<Rightarrow> nat \<Rightarrow> bool" where
  "mask_has dirty f \<longleftrightarrow> dirty ! (f div 8) AND push_bit (f mod 8) 1 \<noteq> 0"

definition raw_cost :: "AvatarChannel list \<Rightarrow> nat" where
  "raw_cost field = sum_list (map ch_width field)"

definition residual_cost :: "bytes \<Rightarrow> bytes \<Rightarrow> AvatarChannel list \<Rightarrow> nat" where
  "residual_cost baseline current field =
     sum_list (map (\<lambda>ch. if ch_kind ch = Raw then ch_width ch else signed_eg_bits (channel_diff baseline current ch)) field)"

definition raw_mode :: "bytes \<Rightarrow> bytes \<Rightarrow> AvatarChannel list \<Rightarrow> bool" where
  "raw_mode baseline current field \<longleftrightarrow> raw_cost field < residual_cost baseline current field"

definition write_channel ::
    "bool \<Rightarrow> bytes \<Rightarrow> bytes \<Rightarrow> AvatarChannel \<Rightarrow> ResidualBitWriter \<Rightarrow> ResidualBitWriter option" where
  "write_channel raw baseline current ch w =
     (if raw \<or> ch_kind ch = Raw then write_bits (ucast (read_channel current ch)) (ch_width ch) w
      else write_signed_eg (channel_diff baseline current ch) w)"

fun write_channels ::
    "bool \<Rightarrow> bytes \<Rightarrow> bytes \<Rightarrow> AvatarChannel list \<Rightarrow> ResidualBitWriter \<Rightarrow> ResidualBitWriter option" where
  "write_channels raw baseline current [] w = Some w"
| "write_channels raw baseline current (ch # chs) w =
     (case write_channel raw baseline current ch w of
        None \<Rightarrow> None
      | Some w1 \<Rightarrow> write_channels raw baseline current chs w1)"

definition write_field :: "bytes \<Rightarrow> bytes \<Rightarrow> AvatarChannel list \<Rightarrow> ResidualBitWriter \<Rightarrow> ResidualBitWriter option" where
  "write_field baseline current field w =
     (case write_bit (of_bool (raw_mode baseline current field)) w of
        None \<Rightarrow> None
      | Some w1 \<Rightarrow> write_channels (raw_mode baseline current field) baseline current field w1)"

fun write_fields ::
    "bytes \<Rightarrow> bytes \<Rightarrow> AvatarChannel list list \<Rightarrow> bytes \<Rightarrow> nat list \<Rightarrow> ResidualBitWriter \<Rightarrow> ResidualBitWriter option" where
  "write_fields baseline current layout dirty [] w = Some w"
| "write_fields baseline current layout dirty (f # fs) w =
     (if \<not> mask_has dirty f then write_fields baseline current layout dirty fs w
      else case write_field baseline current (layout ! f) w of
        None \<Rightarrow> None
      | Some w1 \<Rightarrow> write_fields baseline current layout dirty fs w1)"

definition pad_body :: "nat \<Rightarrow> ResidualBitWriter \<Rightarrow> ResidualBitWriter option" where
  "pad_body body_bits w =
     (let pad = (8 - body_bits mod 8) mod 8 in if pad > 0 then write_bits 0 pad w else Some w)"

definition build_delta :: "bytes \<Rightarrow> bytes \<Rightarrow> BitQuality \<Rightarrow> (delta_error + bytes) option" where
  "build_delta baseline current q =
     (let layout = build_layout q; payload_bytes = payload_len q
      in if length baseline < payload_bytes then Some (Inl BaselineTooSmall)
         else if length current < payload_bytes then Some (Inl CurrentTooSmall)
         else if take payload_bytes baseline = take payload_bytes current
         then Some (Inr (replicate DIRTY_MASK_BYTES 0))
         else
           let dirty = dirty_mask baseline current layout;
               body_start_bit = DIRTY_MASK_BYTES * 8;
               w = \<lparr>wr_bytes = dirty @ replicate (payload_bytes + 8) 0, wr_position = body_start_bit\<rparr>
           in case write_fields baseline current layout dirty [0..<FIELD_COUNT] w of
                None \<Rightarrow> None
              | Some w1 \<Rightarrow>
                  let body_bits = wr_position w1 - body_start_bit
                  in case pad_body body_bits w1 of
                       None \<Rightarrow> None
                     | Some w2 \<Rightarrow> Some (Inr (take (DIRTY_MASK_BYTES + (body_bits + 7) div 8) (wr_bytes w2))))"

section \<open>Decoding\<close>

definition apply_channel ::
    "bool \<Rightarrow> bytes \<Rightarrow> AvatarChannel \<Rightarrow> bytes \<times> ResidualBitReader \<Rightarrow> delta_error + bytes \<times> ResidualBitReader" where
  "apply_channel raw baseline ch st =
     (case st of (output, r) \<Rightarrow>
        if raw \<or> ch_kind ch = Raw then
          (case read_bits (ch_width ch) r of
             Inl e \<Rightarrow> Inl e
           | Inr (v, r1) \<Rightarrow> Inr (replace_channel output ch (ucast v), r1))
        else
          (case read_signed_eg r of
             Inl e \<Rightarrow> Inl e
           | Inr (d, r1) \<Rightarrow>
               Inr (replace_channel output ch ((read_channel baseline ch + d) AND channel_mask ch), r1)))"

fun apply_channels ::
    "bool \<Rightarrow> bytes \<Rightarrow> AvatarChannel list \<Rightarrow> bytes \<times> ResidualBitReader \<Rightarrow> delta_error + bytes \<times> ResidualBitReader" where
  "apply_channels raw baseline [] st = Inr st"
| "apply_channels raw baseline (ch # chs) st =
     (case apply_channel raw baseline ch st of
        Inl e \<Rightarrow> Inl e
      | Inr st1 \<Rightarrow> apply_channels raw baseline chs st1)"

fun apply_fields ::
    "bytes \<Rightarrow> AvatarChannel list list \<Rightarrow> bytes \<Rightarrow> nat list \<Rightarrow> bytes \<times> ResidualBitReader \<Rightarrow>
     delta_error + bytes \<times> ResidualBitReader" where
  "apply_fields baseline layout dirty [] st = Inr st"
| "apply_fields baseline layout dirty (f # fs) st =
     (if \<not> mask_has dirty f then apply_fields baseline layout dirty fs st
      else case read_bit (snd st) of
        Inl e \<Rightarrow> Inl e
      | Inr (b, r1) \<Rightarrow>
          (case apply_channels (b \<noteq> 0) baseline (layout ! f) (fst st, r1) of
             Inl e \<Rightarrow> Inl e
           | Inr st1 \<Rightarrow> apply_fields baseline layout dirty fs st1))"

definition apply_delta :: "bytes \<Rightarrow> bytes \<Rightarrow> BitQuality \<Rightarrow> delta_error + bytes \<times> nat" where
  "apply_delta baseline delta_and_trailing q =
     (let layout = build_layout q; payload_bytes = payload_len q
      in if length baseline < payload_bytes then Inl BaselineTooSmall
         else if length delta_and_trailing < DIRTY_MASK_BYTES then Inl MissingMask
         else
           let dirty = take DIRTY_MASK_BYTES delta_and_trailing;
               body_start_bit = DIRTY_MASK_BYTES * 8;
               r = \<lparr>rd_bytes = delta_and_trailing, rd_position = body_start_bit, rd_end = length delta_and_trailing * 8\<rparr>
           in case apply_fields baseline layout dirty [0..<FIELD_COUNT] (take payload_bytes baseline, r) of
                Inl e \<Rightarrow> Inl e
              | Inr (output, r1) \<Rightarrow>
                  let consumed_bits = rd_position r1 - body_start_bit;
                      body_len = DIRTY_MASK_BYTES + (consumed_bits + 7) div 8
                  in if body_len \<le> length delta_and_trailing then Inr (output, body_len) else Inl BodyOverrun)"

end
