(* ===== verification/AvatarDeltaProofs.thy ===== *)
theory AvatarDeltaProofs
  imports AvatarDelta
begin

fun tiles :: "nat \<Rightarrow> AvatarChannel list \<Rightarrow> bool" where
  "tiles off [] = True"
| "tiles off (ch # chs) \<longleftrightarrow> ch_bit_offset ch = off \<and> tiles (off + ch_width ch) chs"

definition layout_ok :: "BitQuality \<Rightarrow> bool" where
  "layout_ok q \<longleftrightarrow> length (build_layout q) = FIELD_COUNT \<and> tiles 0 (concat (build_layout q)) \<and>
     sum_list (map ch_width (concat (build_layout q))) = 8 * payload_len q \<and>
     list_all (\<lambda>ch. 0 < ch_width ch \<and> ch_width ch \<le> 24) (concat (build_layout q))"

text \<open>The index lists and the offsets of the rotation fields, spelled out.\<close>

lemma index_lists:
  "[0..<3] = [0, 1, 2]" "[0..<4] = [0, 1, 2, 3]" "[0..<10] = [0, 1, 2, 3, 4, 5, 6, 7, 8, 9]"
  "[0..<21] = [0, 1, 2, 3, 4, 5, 6, 7, 8, 9, 10, 11, 12, 13, 14, 15, 16, 17, 18, 19, 20]"
  by code_simp+

lemma replicate_10: "replicate 10 x = [x, x, x, x, x, x, x, x, x, x]"
  by (simp add: numeral_eq_Suc)

lemmas table_defs = WRITE_POSITION_def WRITE_SCALE_def WRITE_ROTATION_def WRITE_HIPS_DELTA_def WRITE_HIPS_ROTATION_def
  TAIL_BYTES_def WIRE_BONE_SLOT_COUNT_def FINGER_CHANNEL_COUNT_def ROTATION_FIELD_COUNT_def BONE_DOF_def BPC_HIGH_def
  BPC_MEDIUM_def BPC_LOW_def BPC_VERY_LOW_def HINGE_BITS_def TWIST_BITS_def SINGLE_BITS_def CURL_BITS_def SPLAY_BITS_def
  finger_width_def FIELD_COUNT_def

lemma rotation_offsets:
  "rotation_field_offsets VeryLow = [0, 17, 34, 51, 68, 85, 102, 119, 136, 153, 164, 175, 186, 197, 208, 219, 230, 241, 252, 263, 267, 271, 279, 287, 295, 303, 311, 319, 327, 335, 343]"
  "rotation_field_offsets Low = [0, 20, 40, 60, 80, 100, 120, 140, 160, 180, 193, 206, 219, 232, 245, 258, 271, 284, 297, 310, 314, 318, 328, 338, 348, 358, 368, 378, 388, 398, 408]"
  "rotation_field_offsets Medium = [0, 26, 52, 78, 104, 130, 156, 182, 208, 234, 251, 268, 285, 302, 319, 336, 353, 370, 387, 404, 409, 414, 426, 438, 450, 462, 474, 486, 498, 510, 522]"
  "rotation_field_offsets High = [0, 38, 76, 114, 152, 190, 228, 266, 304, 342, 367, 392, 417, 442, 467, 492, 517, 542, 567, 592, 599, 606, 620, 634, 648, 662, 676, 690, 704, 718, 732]"
  by (simp_all add: rotation_field_offsets_def bone_field_width_def table_defs index_lists replicate_10)

lemmas layout_defs = bone_channels_def finger_channels_def
  rotation_padding_def byte_aligned_quaternion_def hips_delta_channels_def effector_channels_def build_layout_def

lemma layout_ok: "layout_ok q"
  by (cases q) (simp_all add: layout_ok_def layout_defs rotation_offsets table_defs index_lists Let_def)

section \<open>Every bit of a payload is in one channel\<close>

definition covers :: "AvatarChannel \<Rightarrow> nat \<Rightarrow> bool" where
  "covers ch i \<longleftrightarrow> ch_bit_offset ch \<le> i \<and> i < ch_bit_offset ch + ch_width ch"

lemma tiles_bound:
  "tiles off chs \<Longrightarrow> ch \<in> set chs \<Longrightarrow> ch_bit_offset ch + ch_width ch \<le> off + sum_list (map ch_width chs)"
  by (induction chs arbitrary: off) (auto, fastforce)

lemma tiles_cover:
  "tiles off chs \<Longrightarrow> off \<le> i \<Longrightarrow> i < off + sum_list (map ch_width chs) \<Longrightarrow> \<exists>ch\<in>set chs. covers ch i"
proof (induction chs arbitrary: off)
  case (Cons ch chs)
  show ?case
  proof (cases "i < off + ch_width ch")
    case True
    then show ?thesis using Cons.prems by (auto simp: covers_def)
  next
    case False
    then show ?thesis using Cons.IH[of "off + ch_width ch"] Cons.prems by (auto simp: add.assoc)
  qed
qed simp

lemma layout_channel:
  assumes "field \<in> set (build_layout q)" "ch \<in> set field"
  shows "in_payload (payload_len q) ch" "0 < ch_width ch" "ch_width ch \<le> 24"
proof -
  have ch: "ch \<in> set (concat (build_layout q))" using assms by auto
  have ok: "layout_ok q" by (rule layout_ok)
  show w: "0 < ch_width ch" "ch_width ch \<le> 24" using ok ch by (auto simp: layout_ok_def list_all_iff)
  have "ch_bit_offset ch + ch_width ch \<le> 8 * payload_len q"
    using ok tiles_bound[of 0 "concat (build_layout q)" ch] ch by (simp add: layout_ok_def)
  then show "in_payload (payload_len q) ch" using w by (simp add: in_payload_def)
qed

lemma layout_covers: "i < 8 * payload_len q \<Longrightarrow> \<exists>field\<in>set (build_layout q). \<exists>ch\<in>set field. covers ch i"
  using layout_ok[of q] tiles_cover[of 0 "concat (build_layout q)" i] by (auto simp: layout_ok_def)

lemma in_payload_mono: "in_payload n ch \<Longrightarrow> n \<le> m \<Longrightarrow> in_payload m ch"
  by (simp add: in_payload_def)

section \<open>Residuals\<close>

lemma bit_wrap_signed:
  assumes "0 < w" "w < 32"
  shows "bit (wrap_signed d w) n \<longleftrightarrow> n < 32 \<and> bit d (if n < w then n else w - 1)"
proof -
  have "wrap_signed d w = signed_drop_bit (32 - w) (push_bit (32 - w) d)" using assms by (simp add: wrap_signed_def)
  then show ?thesis using assms
    by (auto simp: bit_signed_drop_bit_iff bit_push_bit_iff possible_bit_def dest: bit_imp_le_length)
qed

lemma wrap_signed_codable:
  assumes "0 < w" "w < 32"
  shows "zigzag (wrap_signed d w) + 1 \<noteq> 0"
proof
  assume "zigzag (wrap_signed d w) + 1 = 0"
  then have z: "zigzag (wrap_signed d w) = -1" by (simp add: eq_neg_iff_add_eq_0)
  have "bit (zigzag (wrap_signed d w)) 0" "bit (zigzag (wrap_signed d w)) 31" unfolding z by simp_all
  then show False using assms by (cases "w = 31") (auto simp: bit_zigzag bit_wrap_signed split: if_splits)
qed

lemma take_bit_add_word: "take_bit n (a + take_bit n b) = take_bit n (a + b :: 'a::len word)"
proof (cases "n \<le> LENGTH('a)")
  case True
  have u: "uint (take_bit n (x + y :: 'a word)) = take_bit n (uint x + uint y)" for x y
  proof -
    have "uint (x + y) = take_bit LENGTH('a) (uint x + uint y)" by (simp only: uint_word_ariths take_bit_eq_mod)
    then show ?thesis using True by (simp add: unsigned_take_bit_eq min_absorb1)
  qed
  have "uint (take_bit n (a + take_bit n b)) = take_bit n (uint a + take_bit n (uint b))"
    unfolding u by (simp only: unsigned_take_bit_eq)
  also have "\<dots> = take_bit n (uint a + uint b)" by (metis take_bit_add take_bit_take_bit min.idem)
  also have "\<dots> = uint (take_bit n (a + b))" by (rule u[symmetric])
  finally show ?thesis by (simp only: word_uint_eq_iff)
qed (simp add: take_bit_word_eq_self)

lemma wrap_signed_restores:
  assumes "0 < w" "w < 32" "take_bit w c = c"
  shows "(b + wrap_signed (c - b) w) AND low_mask w = (c :: u32)"
proof -
  have m: "x AND low_mask w = take_bit w x" for x :: u32
    by (rule bit_word_eqI) (auto simp: bit_simps)
  have "take_bit w (wrap_signed (c - b) w) = take_bit w (c - b)"
    using assms(1,2) by (intro bit_word_eqI) (auto simp: bit_take_bit_iff bit_wrap_signed dest: bit_imp_le_length)
  then have "take_bit w (b + wrap_signed (c - b) w) = take_bit w (b + (c - b))"
    by (metis take_bit_add_word)
  then show ?thesis using assms(3) by (simp add: m)
qed

lemma read_channel_small:
  assumes "in_payload (length p) ch"
  shows "take_bit (ch_width ch) (read_channel p ch) = read_channel p ch"
  by (rule bit_word_eqI) (auto simp: bit_take_bit_iff bit_read_channel[OF assms])

section \<open>The encoder writes the stream\<close>

definition channel_bits :: "bool \<Rightarrow> bytes \<Rightarrow> bytes \<Rightarrow> AvatarChannel \<Rightarrow> bool list" where
  "channel_bits raw baseline current ch =
     (if raw \<or> ch_kind ch = Raw then bits_of (read_channel current ch) (ch_width ch)
      else eg_code (channel_diff baseline current ch))"

definition field_bits :: "bytes \<Rightarrow> bytes \<Rightarrow> AvatarChannel list \<Rightarrow> bool list" where
  "field_bits baseline current field =
     raw_mode baseline current field # concat (map (channel_bits (raw_mode baseline current field) baseline current) field)"

lemma bits_of_ucast: "n \<le> 32 \<Longrightarrow> bits_of (ucast (v :: u32) :: u64) n = bits_of v n"
  by (auto simp: bits_of_def bit_simps)

lemma channel_codable: "0 < ch_width ch \<Longrightarrow> ch_width ch \<le> 24 \<Longrightarrow> zigzag (channel_diff baseline current ch) + 1 \<noteq> 0"
  using wrap_signed_codable[of "ch_width ch"] by (simp add: channel_diff_def)

definition sound_width :: "AvatarChannel \<Rightarrow> bool" where
  "sound_width ch \<longleftrightarrow> 0 < ch_width ch \<and> ch_width ch \<le> 24"

lemma write_channel_emits:
  assumes "sound_width ch" "room (length (channel_bits raw baseline current ch)) w"
  shows "\<exists>w'. write_channel raw baseline current ch w = Some w' \<and> emits w w' (channel_bits raw baseline current ch)"
proof (cases "raw \<or> ch_kind ch = Raw")
  case True
  then have "room (ch_width ch) w" using assms(2) by (simp add: channel_bits_def)
  from write_bits_emits[OF this, of "ucast (read_channel current ch)"] show ?thesis
    using True assms(1) by (simp add: write_channel_def channel_bits_def bits_of_ucast sound_width_def)
next
  case False
  have c: "zigzag (channel_diff baseline current ch) + 1 \<noteq> 0" using assms(1) by (simp add: channel_codable sound_width_def)
  have "room (signed_eg_bits (channel_diff baseline current ch)) w"
    using assms(2) False length_eg_code[OF c] by (simp add: channel_bits_def)
  from write_signed_eg_emits[OF c this] show ?thesis using False by (simp add: write_channel_def channel_bits_def)
qed

lemma write_channels_emits:
  assumes "list_all sound_width chs" "room (length (concat (map (channel_bits raw baseline current) chs))) w"
  shows "\<exists>w'. write_channels raw baseline current chs w = Some w' \<and>
    emits w w' (concat (map (channel_bits raw baseline current) chs))"
  using assms
proof (induction chs arbitrary: w)
  case (Cons ch chs)
  obtain w1 where w1: "write_channel raw baseline current ch w = Some w1" "emits w w1 (channel_bits raw baseline current ch)"
    using write_channel_emits[of ch raw baseline current w] Cons.prems room_less[of _ w] by auto
  have "room (length (concat (map (channel_bits raw baseline current) chs))) w1"
    using room_after[OF w1(2)] Cons.prems(2) by simp
  then obtain w2 where "write_channels raw baseline current chs w1 = Some w2"
    "emits w1 w2 (concat (map (channel_bits raw baseline current) chs))"
    using Cons.IH Cons.prems(1) by auto
  then show ?case using w1 emits_append[OF w1(2)] by auto
qed simp

lemma write_field_emits:
  assumes "list_all sound_width field" "room (length (field_bits baseline current field)) w"
  shows "\<exists>w'. write_field baseline current field w = Some w' \<and> emits w w' (field_bits baseline current field)"
proof -
  let ?raw = "raw_mode baseline current field"
  have "bit (of_bool ?raw :: u32) 0 = ?raw" by (cases ?raw) simp_all
  then obtain w1 where w1: "write_bit (of_bool ?raw) w = Some w1" "emits w w1 [?raw]"
    using write_bit_emits[of w "of_bool ?raw"] assms(2) room_less[of _ w 1] by (auto simp: field_bits_def)
  obtain w2 where "write_channels ?raw baseline current field w1 = Some w2"
    "emits w1 w2 (concat (map (channel_bits ?raw baseline current) field))"
    using write_channels_emits[OF assms(1)] room_after[OF w1(2)] assms(2) by (fastforce simp: field_bits_def)
  then show ?thesis using w1 emits_append[OF w1(2)] by (auto simp: write_field_def field_bits_def)
qed

text \<open>The stream of the dirty ones among the fields \<open>fs\<close>.\<close>

definition body_bits :: "bytes \<Rightarrow> bytes \<Rightarrow> AvatarChannel list list \<Rightarrow> bytes \<Rightarrow> nat list \<Rightarrow> bool list" where
  "body_bits baseline current layout dirty fs =
     concat (map (\<lambda>f. if mask_has dirty f then field_bits baseline current (layout ! f) else []) fs)"

lemma write_fields_emits:
  assumes "\<forall>f\<in>set fs. list_all sound_width (layout ! f)" "room (length (body_bits baseline current layout dirty fs)) w"
  shows "\<exists>w'. write_fields baseline current layout dirty fs w = Some w' \<and>
    emits w w' (body_bits baseline current layout dirty fs)"
  using assms
proof (induction fs arbitrary: w)
  case (Cons f fs)
  show ?case
  proof (cases "mask_has dirty f")
    case True
    obtain w1 where w1: "write_field baseline current (layout ! f) w = Some w1" "emits w w1 (field_bits baseline current (layout ! f))"
      using write_field_emits[of "layout ! f" baseline current w] Cons.prems room_less[of _ w] True by (auto simp: body_bits_def)
    have "room (length (body_bits baseline current layout dirty fs)) w1"
      using room_after[OF w1(2)] Cons.prems(2) True by (simp add: body_bits_def)
    then obtain w2 where "write_fields baseline current layout dirty fs w1 = Some w2"
      "emits w1 w2 (body_bits baseline current layout dirty fs)"
      using Cons.IH Cons.prems(1) by auto
    then show ?thesis using w1 emits_append[OF w1(2)] True by (auto simp: body_bits_def)
  next
    case False
    then show ?thesis using Cons by (simp add: body_bits_def)
  qed
qed (simp add: body_bits_def)

lemma length_field_bits:
  assumes "list_all sound_width field"
  shows "length (field_bits baseline current field) \<le> 1 + raw_cost field"
proof -
  have len: "length (channel_bits raw baseline current ch) =
      (if raw \<or> ch_kind ch = Raw then ch_width ch else signed_eg_bits (channel_diff baseline current ch))"
    if "sound_width ch" for raw ch
    using that channel_codable[of ch baseline current] by (simp add: channel_bits_def length_eg_code sound_width_def)
  have s: "length (concat (map (channel_bits raw baseline current) field)) =
      (if raw then raw_cost field else residual_cost baseline current field)" for raw
    using assms by (induction field) (auto simp: len raw_cost_def residual_cost_def)
  show ?thesis unfolding field_bits_def list.size s by (simp add: raw_mode_def)
qed

section \<open>The decoder follows the stream\<close>

definition patch :: "bytes \<Rightarrow> AvatarChannel list \<Rightarrow> bytes \<Rightarrow> bytes" where
  "patch current chs out = foldl (\<lambda>o1 ch. replace_channel o1 ch (read_channel current ch)) out chs"

lemma patch_append: "patch current (a @ b) out = patch current b (patch current a out)"
  by (simp add: patch_def)

lemma apply_channel_follows:
  assumes "holds r (channel_bits raw baseline current ch)" "sound_width ch" "in_payload (length current) ch"
  shows "apply_channel raw baseline ch (out, r) =
    Inr (replace_channel out ch (read_channel current ch), ahead (length (channel_bits raw baseline current ch)) r)"
proof -
  have c: "take_bit (ch_width ch) (read_channel current ch) = read_channel current ch"
    using assms(3) by (rule read_channel_small)
  have w: "0 < ch_width ch" "ch_width ch < 32" "ch_width ch \<le> 32" using assms(2) by (auto simp: sound_width_def)
  show ?thesis
  proof (cases "raw \<or> ch_kind ch = Raw")
    case True
    then have "holds r (bits_of (ucast (read_channel current ch) :: u64) (ch_width ch))"
      using assms(1) w(3) by (simp add: channel_bits_def bits_of_ucast)
    then have "read_bits (ch_width ch) r = Inr (take_bit (ch_width ch) (ucast (read_channel current ch)), ahead (ch_width ch) r)"
      using w by (intro read_bits_holds) auto
    moreover have "ucast (take_bit (ch_width ch) (ucast (read_channel current ch) :: u64)) = read_channel current ch"
      using w(2) by (subst (2) c[symmetric]) (auto intro!: bit_word_eqI simp: bit_simps)
    ultimately show ?thesis using True by (simp add: apply_channel_def channel_bits_def)
  next
    case False
    let ?d = "channel_diff baseline current ch"
    have "zigzag ?d + 1 \<noteq> 0" using assms(2) by (simp add: channel_codable sound_width_def)
    then have "read_signed_eg r = Inr (?d, ahead (length (eg_code ?d)) r)"
      using assms(1) False by (intro read_signed_eg_holds) (simp_all add: channel_bits_def)
    moreover have "(read_channel baseline ch + ?d) AND channel_mask ch = read_channel current ch"
      unfolding channel_diff_def channel_mask_def using w(1,2) c by (rule wrap_signed_restores)
    ultimately show ?thesis using False by (simp add: apply_channel_def channel_bits_def)
  qed
qed

lemma apply_channels_follows:
  assumes "holds r (concat (map (channel_bits raw baseline current) chs))" "list_all sound_width chs"
    "list_all (in_payload (length current)) chs"
  shows "apply_channels raw baseline chs (out, r) =
    Inr (patch current chs out, ahead (length (concat (map (channel_bits raw baseline current) chs))) r)"
  using assms
proof (induction chs arbitrary: out r)
  case (Cons ch chs)
  have h: "holds r (channel_bits raw baseline current ch)"
    "holds (ahead (length (channel_bits raw baseline current ch)) r) (concat (map (channel_bits raw baseline current) chs))"
    using Cons.prems(1) by (simp_all add: holds_append)
  then show ?case
    using Cons.IH[OF h(2)] apply_channel_follows[OF h(1)] Cons.prems by (simp add: patch_def)
qed (simp add: patch_def)

lemma apply_fields_follows:
  assumes "holds r (body_bits baseline current layout dirty fs)" "\<forall>f\<in>set fs. list_all sound_width (layout ! f)"
    "\<forall>f\<in>set fs. list_all (in_payload (length current)) (layout ! f)"
  shows "apply_fields baseline layout dirty fs (out, r) =
    Inr (patch current (concat (map ((!) layout) (filter (mask_has dirty) fs))) out,
         ahead (length (body_bits baseline current layout dirty fs)) r)"
  using assms
proof (induction fs arbitrary: out r)
  case (Cons f fs)
  let ?field = "layout ! f"
  let ?raw = "raw_mode baseline current ?field"
  show ?case
  proof (cases "mask_has dirty f")
    case True
    let ?cs = "concat (map (channel_bits ?raw baseline current) ?field)"
    have b: "body_bits baseline current layout dirty (f # fs) = [?raw] @ ?cs @ body_bits baseline current layout dirty fs"
      using True by (simp add: body_bits_def field_bits_def)
    have h: "holds r [?raw]" "holds (ahead 1 r) ?cs" "holds (ahead (1 + length ?cs) r) (body_bits baseline current layout dirty fs)"
      using Cons.prems(1) unfolding b holds_append by simp_all
    have "apply_channels ?raw baseline ?field (out, ahead 1 r) = Inr (patch current ?field out, ahead (1 + length ?cs) r)"
      using apply_channels_follows[OF h(2)] Cons.prems(2,3) by simp
    then show ?thesis
      using Cons.IH[OF h(3), of "patch current ?field out"] read_bit_holds[OF h(1)] Cons.prems(2,3) True
      by (simp add: patch_append b add_ac)
  next
    case False
    then show ?thesis using Cons by (simp add: body_bits_def)
  qed
qed (simp add: body_bits_def patch_def)

lemma patch_bits:
  assumes "list_all (in_payload (length out)) chs" "length out \<le> length current"
  shows "length (patch current chs out) = length out"
    and "i < 8 * length out \<Longrightarrow>
      pbit (patch current chs out) i = (if \<exists>ch\<in>set chs. covers ch i then pbit current i else pbit out i)"
proof -
  have "length (patch current chs out) = length out \<and> (\<forall>i<8 * length out.
      pbit (patch current chs out) i = (if \<exists>ch\<in>set chs. covers ch i then pbit current i else pbit out i))"
    using assms
  proof (induction chs rule: rev_induct)
    case (snoc ch chs)
    let ?o = "patch current chs out"
    have p: "patch current (chs @ [ch]) out = replace_channel ?o ch (read_channel current ch)" by (simp add: patch_def)
    have l: "length ?o = length out" using snoc by simp
    have i1: "in_payload (length ?o) ch" using snoc.prems(1) l by simp
    have i2: "in_payload (length current) ch" using i1 l snoc.prems(2) in_payload_mono by auto
    have "pbit (patch current (chs @ [ch]) out) i =
        (if \<exists>c\<in>set (chs @ [ch]). covers c i then pbit current i else pbit out i)" if "i < 8 * length out" for i
    proof -
      have "pbit ?o i = (if \<exists>ch\<in>set chs. covers ch i then pbit current i else pbit out i)"
        using snoc that by simp
      then show ?thesis unfolding p using replace_channel_bits(2)[OF i1, of i "read_channel current ch"] that l
        by (auto simp: covers_def bit_read_channel[OF i2])
    qed
    then show ?case using replace_channel_bits(1)[OF i1] l by (simp add: p)
  qed (simp add: patch_def)
  then show "length (patch current chs out) = length out"
    "i < 8 * length out \<Longrightarrow>
      pbit (patch current chs out) i = (if \<exists>ch\<in>set chs. covers ch i then pbit current i else pbit out i)" by blast+
qed

end
