(* ===== verification/AvatarDeltaProperties.thy ===== *)
theory AvatarDeltaProperties
  imports AvatarDeltaProofs
begin

text \<open>
  The delta codec as a whole: encoding never overruns its buffer, decoding restores the payload exactly, and
  decoding arbitrary bytes yields a payload of the right size or an error.
\<close>

section \<open>The dirty mask\<close>

lemma mask_has_pbit: "mask_has m f = pbit m f"
  by (simp add: mask_has_def pbit_def bit_iff_and_push_bit_not_eq_0)

lemma pbit_set:
  assumes "f < 8 * length m"
  shows "pbit (m[f div 8 := m ! (f div 8) OR push_bit (f mod 8) 1]) g \<longleftrightarrow> g = f \<or> pbit m g"
proof -
  have "f div 8 < length m" using assms by auto
  moreover have "g = f" if "g div 8 = f div 8" "g mod 8 = f mod 8" using that by (metis mult_div_mod_eq)
  ultimately show ?thesis
    by (cases "g div 8 = f div 8") (auto simp: pbit_update bit_or_iff bit_exp_iff possible_bit_def push_bit_of_1 pbit_def dest: sym)
qed

lemma dirty_mask_bits:
  "length (dirty_mask baseline current layout) = DIRTY_MASK_BYTES"
  "f < FIELD_COUNT \<Longrightarrow> mask_has (dirty_mask baseline current layout) f \<longleftrightarrow> field_dirty baseline current (layout ! f)"
proof -
  let ?step = "\<lambda>m f. if field_dirty baseline current (layout ! f)
      then m[f div 8 := m ! (f div 8) OR push_bit (f mod 8) 1] else m"
  let ?m = "\<lambda>n. foldl ?step (replicate DIRTY_MASK_BYTES (0 :: u8)) [0..<n]"
  have c: "FIELD_COUNT \<le> 8 * DIRTY_MASK_BYTES" by (simp add: DIRTY_MASK_BYTES_def table_defs)
  have "n \<le> FIELD_COUNT \<longrightarrow> length (?m n) = DIRTY_MASK_BYTES \<and>
      (\<forall>f<8 * DIRTY_MASK_BYTES. pbit (?m n) f \<longleftrightarrow> f < n \<and> field_dirty baseline current (layout ! f))" for n
  proof (induction n)
    case 0
    then show ?case by (simp add: pbit_def less_mult_imp_div_less)
  next
    case (Suc n)
    define m where "m = ?m n"
    have step: "?m (Suc n) = ?step m n" by (simp add: m_def)
    show ?case
    proof
      assume n: "Suc n \<le> FIELD_COUNT"
      have m: "length m = DIRTY_MASK_BYTES"
        "\<forall>f<8 * DIRTY_MASK_BYTES. pbit m f \<longleftrightarrow> f < n \<and> field_dirty baseline current (layout ! f)"
        using Suc n unfolding m_def by simp_all
      show "length (?m (Suc n)) = DIRTY_MASK_BYTES \<and>
          (\<forall>f<8 * DIRTY_MASK_BYTES. pbit (?m (Suc n)) f \<longleftrightarrow> f < Suc n \<and> field_dirty baseline current (layout ! f))"
        unfolding step using m n c pbit_set[of n m] by (auto simp: less_Suc_eq)
    qed
  qed
  then have m: "length (?m FIELD_COUNT) = DIRTY_MASK_BYTES \<and>
      (\<forall>f<8 * DIRTY_MASK_BYTES. pbit (?m FIELD_COUNT) f \<longleftrightarrow> f < FIELD_COUNT \<and> field_dirty baseline current (layout ! f))"
    by blast
  then show "length (dirty_mask baseline current layout) = DIRTY_MASK_BYTES" by (simp add: dirty_mask_def)
  assume "f < FIELD_COUNT"
  then show "mask_has (dirty_mask baseline current layout) f \<longleftrightarrow> field_dirty baseline current (layout ! f)"
    using m c unfolding mask_has_pbit dirty_mask_def by auto
qed

section \<open>The layout at work\<close>

lemma layout_fields:
  assumes "f < FIELD_COUNT"
  shows "build_layout q ! f \<in> set (build_layout q)" "list_all sound_width (build_layout q ! f)"
    "payload_len q \<le> n \<Longrightarrow> list_all (in_payload n) (build_layout q ! f)"
proof -
  show f: "build_layout q ! f \<in> set (build_layout q)" using assms layout_ok[of q] by (simp add: layout_ok_def)
  show "list_all sound_width (build_layout q ! f)" using layout_channel(2,3)[OF f] by (simp add: list_all_iff sound_width_def)
  show "payload_len q \<le> n \<Longrightarrow> list_all (in_payload n) (build_layout q ! f)"
    using layout_channel(1)[OF f] in_payload_mono by (auto simp: list_all_iff)
qed

lemma sum_raw_cost: "sum_list (map raw_cost xs) = sum_list (map ch_width (concat xs))"
  by (induction xs) (simp_all add: raw_cost_def)

lemma body_bits_bound:
  "length (body_bits baseline current (build_layout q) dirty [0..<FIELD_COUNT]) \<le> FIELD_COUNT + 8 * payload_len q"
proof -
  let ?L = "build_layout q"
  have "length (body_bits baseline current ?L dirty fs) \<le> length fs + sum_list (map (\<lambda>f. raw_cost (?L ! f)) fs)"
    if "\<forall>f\<in>set fs. f < FIELD_COUNT" for fs
    using that
  proof (induction fs)
    case (Cons f fs)
    then show ?case using length_field_bits[OF layout_fields(2)[of f q], of baseline current]
      by (auto simp: body_bits_def)
  qed (simp add: body_bits_def)
  from this[of "[0..<FIELD_COUNT]"]
  have "length (body_bits baseline current ?L dirty [0..<FIELD_COUNT]) \<le>
      FIELD_COUNT + sum_list (map (\<lambda>f. raw_cost (?L ! f)) [0..<FIELD_COUNT])" by simp
  also have "map (\<lambda>f. raw_cost (?L ! f)) [0..<FIELD_COUNT] = map raw_cost ?L"
    using layout_ok[of q] by (intro nth_equalityI) (simp_all add: layout_ok_def)
  also have "sum_list (map raw_cost ?L) = sum_list (map ch_width (concat ?L))"
    by (rule sum_raw_cost)
  finally show ?thesis using layout_ok[of q] by (simp add: layout_ok_def)
qed

text \<open>Replacing the channels of the dirty fields turns the baseline into the current payload.\<close>

lemma patch_dirty:
  assumes "payload_len q \<le> length baseline" "payload_len q \<le> length current"
  defines "L \<equiv> build_layout q"
  shows "patch current (concat (map ((!) L) (filter (mask_has (dirty_mask baseline current L)) [0..<FIELD_COUNT])))
    (take (payload_len q) baseline) = take (payload_len q) current"
proof (rule pbit_eqI)
  let ?fs = "filter (mask_has (dirty_mask baseline current L)) [0..<FIELD_COUNT]"
  let ?out = "take (payload_len q) baseline"
  have fs: "f \<in> set ?fs \<longleftrightarrow> f < FIELD_COUNT \<and> field_dirty baseline current (L ! f)" for f
    using dirty_mask_bits(2) by auto
  have lout: "length ?out = payload_len q" using assms(1) by simp
  have inp: "list_all (in_payload (length ?out)) (concat (map ((!) L) ?fs))"
    using layout_fields(3)[of _ q "payload_len q"] fs unfolding lout L_def by (fastforce simp: list_all_iff)
  note patched = patch_bits[OF inp, of current]
  show "length (patch current (concat (map ((!) L) ?fs)) ?out) = length (take (payload_len q) current)"
    using patched(1) assms(2) lout by simp
  fix i assume "i < 8 * length (patch current (concat (map ((!) L) ?fs)) ?out)"
  then have i: "i < 8 * payload_len q" using patched(1) assms(2) lout by simp
  obtain field ch where f: "field \<in> set L" "ch \<in> set field" "covers ch i" using layout_covers[OF i] L_def by blast
  obtain k where k: "k < FIELD_COUNT" "L ! k = field"
    using f(1) layout_ok[of q] by (auto simp: in_set_conv_nth layout_ok_def L_def)
  have b: "pbit baseline i = pbit current i" if "\<not> field_dirty baseline current field"
  proof -
    have "in_payload (payload_len q) ch" using layout_channel(1)[of field q ch] f L_def by simp
    then have r: "in_payload (length baseline) ch" "in_payload (length current) ch" using assms in_payload_mono by blast+
    have "read_channel current ch = read_channel baseline ch" using that f(2) by (auto simp: field_dirty_def list_ex_iff)
    then have "bit (read_channel current ch) (i - ch_bit_offset ch) = bit (read_channel baseline ch) (i - ch_bit_offset ch)" by simp
    then show ?thesis using f(3) by (auto simp: bit_read_channel[OF r(1)] bit_read_channel[OF r(2)] covers_def)
  qed
  have "(\<exists>ch\<in>set (concat (map ((!) L) ?fs)). covers ch i) \<or> pbit ?out i = pbit current i"
  proof (cases "field_dirty baseline current field")
    case True
    then have "k \<in> set ?fs" using k fs by auto
    then show ?thesis using f k by auto
  next
    case False
    then show ?thesis using b i by (simp add: pbit_take)
  qed
  then show "pbit (patch current (concat (map ((!) L) ?fs)) ?out) i = pbit (take (payload_len q) current) i"
    using patched(2)[of i] i lout assms(2) by (auto simp: pbit_take)
qed

section \<open>Encoding\<close>

lemma pad_body_emits:
  assumes "room 7 w"
  shows "\<exists>w' pad. pad_body n w = Some w' \<and> emits w w' pad"
proof (cases "(8 - n mod 8) mod 8 > 0")
  case True
  have "room ((8 - n mod 8) mod 8) w" using assms by (rule room_less) simp
  from write_bits_emits[OF this, of 0] show ?thesis using True by (auto simp: pad_body_def Let_def)
qed (auto simp: pad_body_def intro: exI[of _ "[]"])

text \<open>What a built delta holds: the mask, then the stream, and nothing more than the last byte of the stream.\<close>

lemma build_delta_shape:
  assumes "payload_len q \<le> length baseline" "payload_len q \<le> length current"
    "take (payload_len q) baseline \<noteq> take (payload_len q) current"
  defines "L \<equiv> build_layout q"
  defines "B \<equiv> body_bits baseline current L (dirty_mask baseline current L) [0..<FIELD_COUNT]"
  obtains body where "build_delta baseline current q = Some (Inr body)"
    "length body = DIRTY_MASK_BYTES + (length B + 7) div 8"
    "take DIRTY_MASK_BYTES body = dirty_mask baseline current L"
    "\<forall>i<length B. pbit body (DIRTY_MASK_BYTES * 8 + i) = B ! i"
proof -
  let ?M = "dirty_mask baseline current L" and ?n = "payload_len q"
  let ?w = "\<lparr>wr_bytes = ?M @ replicate (?n + 8) 0, wr_position = DIRTY_MASK_BYTES * 8\<rparr>"
  have lM: "length ?M = DIRTY_MASK_BYTES" by (rule dirty_mask_bits(1))
  have B: "length B \<le> FIELD_COUNT + 8 * ?n" unfolding B_def L_def by (rule body_bits_bound)
  have F: "FIELD_COUNT = 37" by (simp add: table_defs)
  have "room (length B + 7) ?w" using B lM by (simp add: room_def F)
  then have r: "room (length B) ?w" "room (length B + 7) ?w" using room_less by auto
  have sound: "\<forall>f\<in>set [0..<FIELD_COUNT]. list_all sound_width (L ! f)" using layout_fields(2) L_def by auto
  obtain w1 where w1: "write_fields baseline current L ?M [0..<FIELD_COUNT] ?w = Some w1" "emits ?w w1 B"
    using write_fields_emits[OF sound] r(1) unfolding B_def by blast
  obtain w2 pad where w2: "pad_body (length B) w1 = Some w2" "emits w1 w2 pad"
    using pad_body_emits[OF room_after[OF w1(2) r(2)]] by blast
  have e: "emits ?w w2 (B @ pad)" using w1(2) w2(2) by (rule emits_append)
  let ?k = "DIRTY_MASK_BYTES + (length B + 7) div 8"
  let ?body = "take ?k (wr_bytes w2)"
  have "build_delta baseline current q = Some (Inr ?body)"
    using assms(1-3) w1 w2(1) by (simp add: build_delta_def L_def Let_def emits_def not_less)
  moreover have k: "?k \<le> length (wr_bytes w2)"
  proof -
    have "length (wr_bytes w2) = DIRTY_MASK_BYTES + (?n + 8)" using e lM by (simp add: emits_def)
    moreover have "(length B + 7) div 8 \<le> ?n + 8" using B F by linarith
    ultimately show ?thesis by simp
  qed
  moreover have "take DIRTY_MASK_BYTES ?body = ?M"
  proof (rule pbit_eqI)
    show l: "length (take DIRTY_MASK_BYTES ?body) = length ?M" using k lM by simp
    fix i assume "i < 8 * length (take DIRTY_MASK_BYTES ?body)"
    then have i: "i < 8 * DIRTY_MASK_BYTES" "i < 8 * ?k" "i < 8 * length ?M" using l lM by auto
    have "pbit (wr_bytes w2) i = pbit (?M @ replicate (?n + 8) 0) i" using e i(1) by (simp add: emits_def)
    then show "pbit (take DIRTY_MASK_BYTES ?body) i = pbit ?M i" using i by (simp add: pbit_take pbit_append)
  qed
  moreover have "\<forall>i<length B. pbit ?body (DIRTY_MASK_BYTES * 8 + i) = B ! i"
  proof (intro allI impI)
    fix i assume i: "i < length B"
    have "length B \<le> 8 * ((length B + 7) div 8)" using dividend_less_times_div[of 8 "length B + 7"] by simp
    then have "DIRTY_MASK_BYTES * 8 + i < 8 * ?k" using i by (simp add: distrib_left)
    moreover have "pbit (wr_bytes w2) (DIRTY_MASK_BYTES * 8 + i) = (B @ pad) ! i"
      using e i unfolding emits_def by simp
    ultimately show "pbit ?body (DIRTY_MASK_BYTES * 8 + i) = B ! i" using i by (simp only: pbit_take nth_append) simp
  qed
  ultimately show ?thesis using that[of ?body] by simp
qed

section \<open>Properties\<close>

lemma delta_decodes:
  assumes "payload_len q \<le> length baseline" "payload_len q \<le> length current"
  shows "\<exists>body. build_delta baseline current q = Some (Inr body) \<and> length body \<le> payload_len q + 10 \<and>
    apply_delta baseline (body @ trailing) q = Inr (take (payload_len q) current, length body)"
proof (cases "take (payload_len q) baseline = take (payload_len q) current")
  case True
  let ?z = "replicate DIRTY_MASK_BYTES 0 :: bytes"
  have "\<not> mask_has ?z f" if "f < FIELD_COUNT" for f
    using that by (simp add: mask_has_def DIRTY_MASK_BYTES_def table_defs less_mult_imp_div_less)
  then have "apply_fields baseline L ?z fs st = Inr st" if "\<forall>f\<in>set fs. f < FIELD_COUNT" for L fs st
    using that by (induction fs) auto
  moreover have "DIRTY_MASK_BYTES \<le> 10" by (simp add: DIRTY_MASK_BYTES_def table_defs)
  ultimately show ?thesis using assms True by (simp add: build_delta_def apply_delta_def Let_def not_less)
next
  case False
  let ?L = "build_layout q"
  let ?M = "dirty_mask baseline current ?L"
  let ?B = "body_bits baseline current ?L ?M [0..<FIELD_COUNT]"
  obtain body where b: "build_delta baseline current q = Some (Inr body)"
    "length body = DIRTY_MASK_BYTES + (length ?B + 7) div 8" "take DIRTY_MASK_BYTES body = ?M"
    "\<forall>i<length ?B. pbit body (DIRTY_MASK_BYTES * 8 + i) = ?B ! i"
    using build_delta_shape[OF assms False] by blast
  let ?r = "\<lparr>rd_bytes = body @ trailing, rd_position = DIRTY_MASK_BYTES * 8, rd_end = length (body @ trailing) * 8\<rparr>"
  have len: "DIRTY_MASK_BYTES * 8 + length ?B \<le> 8 * length body"
    using dividend_less_times_div[of 8 "length ?B + 7"] b(2) by simp
  have "holds ?r ?B" using b(4) len by (auto simp: holds_def pbit_append)
  then have "apply_fields baseline ?L ?M [0..<FIELD_COUNT] (take (payload_len q) baseline, ?r) =
      Inr (take (payload_len q) current, ahead (length ?B) ?r)"
    using apply_fields_follows[of ?r baseline current ?L ?M "[0..<FIELD_COUNT]" "take (payload_len q) baseline"]
      patch_dirty[OF assms] layout_fields(2,3) assms(2) by simp
  moreover have "length body \<le> payload_len q + 10"
    using body_bits_bound[of baseline current q ?M] b(2) by (simp add: DIRTY_MASK_BYTES_def table_defs)
  ultimately show ?thesis using b assms(1) by (simp add: apply_delta_def Let_def not_less)
qed

text \<open>C13. A delta built against a baseline, followed by any bytes, decodes against the same baseline to exactly the
  current payload, and the decoder consumes exactly the delta. Building never writes outside its buffer, and the
  delta is at most ten bytes longer than the payload.\<close>

theorem delta_roundtrip:
  assumes "payload_len q \<le> length baseline" "payload_len q \<le> length current"
  shows "\<exists>body. build_delta baseline current q = Some (Inr body) \<and> length body \<le> payload_len q + 10 \<and>
    apply_delta baseline (body @ trailing) q = Inr (take (payload_len q) current, length body)"
  using assms by (rule delta_decodes)

theorem delta_roundtrip_witness:
  "\<exists>body. build_delta (replicate 74 0) (replicate 80 0xA5) VeryLow = Some (Inr body) \<and> length body \<le> 84 \<and>
    apply_delta (replicate 74 0) (body @ [1, 2]) VeryLow = Inr (replicate 74 0xA5, length body)"
  using delta_roundtrip[of VeryLow "replicate 74 0" "replicate 80 0xA5" "[1, 2]"] by simp

lemma apply_channels_length:
  assumes "apply_channels raw baseline chs (out, r) = Inr (out', r')" "list_all (in_payload (length out)) chs"
  shows "length out' = length out"
  using assms
proof (induction chs arbitrary: out r)
  case (Cons ch chs)
  obtain v r1 where "apply_channel raw baseline ch (out, r) = Inr (replace_channel out ch v, r1)"
    using Cons.prems(1) by (auto simp: apply_channel_def split: sum.splits prod.splits if_splits)
  moreover have "length (replace_channel out ch v) = length out" using Cons.prems(2) by (simp add: replace_channel_bits(1))
  ultimately show ?case using Cons by auto
qed simp

lemma apply_fields_length:
  assumes "apply_fields baseline layout dirty fs (out, r) = Inr (out', r')"
    "\<forall>f\<in>set fs. list_all (in_payload (length out)) (layout ! f)"
  shows "length out' = length out"
  using assms
proof (induction fs arbitrary: out r)
  case (Cons f fs)
  show ?case
  proof (cases "mask_has dirty f")
    case True
    then obtain b r1 out1 r2 where "apply_channels b baseline (layout ! f) (out, r1) = Inr (out1, r2)"
      "apply_fields baseline layout dirty fs (out1, r2) = Inr (out', r')"
      using Cons.prems(1) by (auto split: sum.splits prod.splits)
    then show ?thesis using Cons.IH[of out1 r2] apply_channels_length[of b baseline "layout ! f" out r1 out1 r2] Cons.prems(2) by simp
  next
    case False
    then show ?thesis using Cons by simp
  qed
qed simp

text \<open>Decoding arbitrary bytes against a long enough baseline yields either an error or a payload of exactly the
  size of its quality, with a number of consumed bytes that lies between the mask and the end of the input.\<close>

theorem delta_decoder_in_bounds:
  "case apply_delta baseline input q of
     Inl e \<Rightarrow> True
   | Inr (result, consumed) \<Rightarrow> length result = payload_len q \<and> DIRTY_MASK_BYTES \<le> consumed \<and> consumed \<le> length input"
proof (cases "apply_delta baseline input q")
  case (Inr x)
  obtain result consumed where x: "x = (result, consumed)" by fastforce
  have l: "payload_len q \<le> length baseline" and c: "DIRTY_MASK_BYTES \<le> consumed" "consumed \<le> length input"
    using Inr x by (auto simp: apply_delta_def Let_def split: if_splits sum.splits prod.splits)
  obtain r r1 where "apply_fields baseline (build_layout q) (take DIRTY_MASK_BYTES input) [0..<FIELD_COUNT]
      (take (payload_len q) baseline, r) = Inr (result, r1)"
    using Inr x by (auto simp: apply_delta_def Let_def split: if_splits sum.splits prod.splits)
  from apply_fields_length[OF this] show ?thesis using l c Inr x layout_fields(3) by simp
qed simp

end
