(* ===== verification/MtuProbe.thy ===== *)
theory MtuProbe
  imports Datagrams FragmentAssembly
begin

text \<open>
  Discovery of the path MTU (\<open>MtuProbeState\<close>, \<open>try_send_mtu_probe\<close>, \<open>is_valid_mtu_check\<close>, \<open>send_mtu_ok\<close> and the
  arm for \<open>MtuOk\<close> in \<open>basis-transport/src/lib.rs\<close>). The random token and the outcome of the send are
  arguments; instants are numbers of milliseconds.
\<close>

section \<open>Probes\<close>

definition MTU_PROBE_INTERVAL :: nat where "MTU_PROBE_INTERVAL = 1000"
definition MAX_MTU_PROBE_ATTEMPTS :: nat where "MAX_MTU_PROBE_ATTEMPTS = 4"

record mtu_probe_state =
  mp_next_step :: nat
  mp_attempts :: nat
  mp_next_at :: nat
  mp_pending :: "(nat \<times> u64) option"

definition mtu_probe_new :: "nat \<Rightarrow> mtu_probe_state" where
  "mtu_probe_new now = \<lparr>mp_next_step = 1, mp_attempts = 0, mp_next_at = now + MTU_PROBE_INTERVAL, mp_pending = None\<rparr>"

text \<open>\<open>packet[i..].copy_from_slice(ys)\<close> into the middle of a packet.\<close>

definition copy_at :: "nat \<Rightarrow> bytes \<Rightarrow> bytes \<Rightarrow> bytes" where
  "copy_at i ys xs = take i xs @ ys @ drop (i + length ys) xs"

definition mtu_bytes :: "nat \<Rightarrow> bytes" where
  "mtu_bytes mtu = to_le 4 (of_nat mtu :: u32)"

definition probe_packet :: "u8 \<Rightarrow> nat \<Rightarrow> u64 \<Rightarrow> bytes" where
  "probe_packet number mtu token =
     copy_at (mtu - 4) (mtu_bytes mtu)
       (copy_at 5 (to_le 8 token)
         (copy_at 1 (mtu_bytes mtu) ((replicate mtu 0)[0 := header_byte PMtuCheck number])))"

definition next_packet :: "nat \<Rightarrow> u8 \<Rightarrow> u64 \<Rightarrow> mtu_probe_state \<Rightarrow> bytes option \<times> mtu_probe_state" where
  "next_packet now number token st =
     (if now < mp_next_at st \<or> mp_next_step st \<ge> length LITENETLIB_MTU_STEPS then (None, st)
      else if mp_attempts st \<ge> MAX_MTU_PROBE_ATTEMPTS
      then (None, st\<lparr>mp_next_step := length LITENETLIB_MTU_STEPS, mp_pending := None\<rparr>)
      else
        let mtu = LITENETLIB_MTU_STEPS ! mp_next_step st
        in (Some (probe_packet number mtu token),
            st\<lparr>mp_attempts := mp_attempts st + 1, mp_next_at := now + MTU_PROBE_INTERVAL,
               mp_pending := Some (mtu, token)\<rparr>))"

definition accept_response :: "nat \<Rightarrow> bytes \<Rightarrow> u8 \<Rightarrow> mtu_probe_state \<Rightarrow> nat option \<times> mtu_probe_state" where
  "accept_response now bytes number st =
     (case mp_pending st of
        None \<Rightarrow> (None, st)
      | Some (mtu, token) \<Rightarrow>
          if length bytes \<noteq> mtu \<or> bytes ! 0 \<noteq> header_byte PMtuOk number \<or>
             take 4 (drop 1 bytes) \<noteq> mtu_bytes mtu \<or> take 8 (drop 5 bytes) \<noteq> to_le 8 token \<or>
             list_ex (\<lambda>byte. byte \<noteq> 0) (take (mtu - 4 - 13) (drop 13 bytes)) \<or>
             drop (mtu - 4) bytes \<noteq> mtu_bytes mtu
          then (None, st)
          else (Some mtu, st\<lparr>mp_pending := None, mp_next_step := mp_next_step st + 1, mp_attempts := 0,
                              mp_next_at := now + MTU_PROBE_INTERVAL\<rparr>))"

text \<open>The send reports a sent packet, a socket that would block, or an error; only the first counts.\<close>

definition try_send_mtu_probe :: "nat \<Rightarrow> u8 \<Rightarrow> u64 \<Rightarrow> bool \<Rightarrow> mtu_probe_state \<Rightarrow> bytes option \<times> mtu_probe_state" where
  "try_send_mtu_probe now number token sent st =
     (case next_packet now number token st of
        (None, st1) \<Rightarrow> (None, st1)
      | (Some packet, st1) \<Rightarrow>
          if sent then (Some packet, st1)
          else (None, st1\<lparr>mp_attempts := mp_attempts st1 - 1, mp_pending := mp_pending st\<rparr>))"

definition is_valid_mtu_check :: "bytes \<Rightarrow> u8 \<Rightarrow> bool" where
  "is_valid_mtu_check bytes number =
     (case find (\<lambda>n. length bytes = n) LITENETLIB_MTU_STEPS of
        None \<Rightarrow> False
      | Some n \<Rightarrow>
          bytes ! 0 = header_byte PMtuCheck number \<and> take 4 (drop 1 bytes) = mtu_bytes n \<and>
          list_all (\<lambda>byte. byte = 0) (take (n - 4 - 13) (drop 13 bytes)) \<and> drop (n - 4) bytes = mtu_bytes n)"

definition mtu_ok_packet :: "bytes \<Rightarrow> bytes" where
  "mtu_ok_packet packet = packet[0 := (packet ! 0 AND 0xe0) OR property_u8 PMtuOk]"

section \<open>One connection\<close>

record mtu_link =
  ml_number :: u8
  ml_probe :: mtu_probe_state
  ml_confirmed :: nat
  ml_sent :: "bytes list"

definition mtu_link_new :: "u8 \<Rightarrow> nat \<Rightarrow> mtu_link" where
  "mtu_link_new number now =
     \<lparr>ml_number = number, ml_probe = mtu_probe_new now, ml_confirmed = MAX_MERGED_PACKET_SIZE, ml_sent = []\<rparr>"

definition probe_turn :: "nat \<Rightarrow> u64 \<Rightarrow> bool \<Rightarrow> mtu_link \<Rightarrow> mtu_link" where
  "probe_turn now token sent l =
     (case try_send_mtu_probe now (ml_number l) token sent (ml_probe l) of
        (None, st) \<Rightarrow> l\<lparr>ml_probe := st\<rparr>
      | (Some packet, st) \<Rightarrow> l\<lparr>ml_probe := st, ml_sent := ml_sent l @ [packet]\<rparr>)"

definition on_mtu_ok :: "nat \<Rightarrow> bytes \<Rightarrow> mtu_link \<Rightarrow> mtu_link" where
  "on_mtu_ok now bytes l =
     (case accept_response now bytes (ml_number l) (ml_probe l) of
        (None, st) \<Rightarrow> l\<lparr>ml_probe := st\<rparr>
      | (Some mtu, st) \<Rightarrow> l\<lparr>ml_probe := st, ml_confirmed := max mtu MAX_MERGED_PACKET_SIZE\<rparr>)"

inductive mtu_run :: "mtu_link \<Rightarrow> bool" where
  run_start: "mtu_run (mtu_link_new number now)"
| run_probe: "mtu_run l \<Longrightarrow> mtu_run (probe_turn now token sent l)"
| run_answer: "mtu_run l \<Longrightarrow> mtu_run (on_mtu_ok now bytes l)"

section \<open>The packets\<close>

lemma length_mtu_bytes [simp]: "length (mtu_bytes mtu) = 4"
  by (simp add: mtu_bytes_def)

definition mtu_frame :: "PacketProperty \<Rightarrow> u8 \<Rightarrow> nat \<Rightarrow> u64 \<Rightarrow> bytes" where
  "mtu_frame p number mtu token =
     header_byte p number # mtu_bytes mtu @ to_le 8 token @ replicate (mtu - 17) 0 @ mtu_bytes mtu"

lemma copy_at_split: "length a = i \<Longrightarrow> length b = length ys \<Longrightarrow> copy_at i ys (a @ b @ c) = a @ ys @ c"
  by (simp add: copy_at_def)

lemma probe_packet_frame:
  assumes "17 \<le> mtu"
  shows "probe_packet number mtu token = mtu_frame PMtuCheck number mtu token"
proof -
  obtain k where k: "mtu = 17 + k" using assms le_Suc_ex by blast
  let ?h = "header_byte PMtuCheck number" and ?z = "\<lambda>n. replicate n (0 :: u8)"
  have "mtu = Suc (4 + (8 + (k + 4)))" by (simp add: k)
  then have "?z mtu = 0 # ?z 4 @ ?z 8 @ ?z k @ ?z 4" by (simp only: replicate_add replicate_Suc)
  then have "(?z mtu)[0 := ?h] = [?h] @ ?z 4 @ (?z 8 @ ?z k @ ?z 4)" by simp
  then have "copy_at 1 (mtu_bytes mtu) ((?z mtu)[0 := ?h]) = ([?h] @ mtu_bytes mtu) @ ?z 8 @ (?z k @ ?z 4)"
    by (simp add: copy_at_def)
  then have "copy_at 5 (to_le 8 token) (copy_at 1 (mtu_bytes mtu) ((?z mtu)[0 := ?h])) =
      ([?h] @ mtu_bytes mtu @ to_le 8 token @ ?z k) @ ?z 4 @ []"
    by (simp add: copy_at_def)
  then have "probe_packet number mtu token = ([?h] @ mtu_bytes mtu @ to_le 8 token @ ?z k) @ mtu_bytes mtu @ []"
    unfolding probe_packet_def by (simp only:) (rule copy_at_split, simp_all add: k)
  then show ?thesis by (simp add: mtu_frame_def k)
qed

lemma length_mtu_frame [simp]: "17 \<le> mtu \<Longrightarrow> length (mtu_frame p number mtu token) = mtu"
  by (simp add: mtu_frame_def)

lemma drop_mtu_frame: "17 \<le> mtu \<Longrightarrow> drop (mtu - 4) (mtu_frame p number mtu token) = mtu_bytes mtu"
proof -
  assume "17 \<le> mtu"
  then have "length (header_byte p number # mtu_bytes mtu @ to_le 8 token @ replicate (mtu - 17) 0) = mtu - 4" by simp
  then have "drop (mtu - 4) ((header_byte p number # mtu_bytes mtu @ to_le 8 token @ replicate (mtu - 17) 0) @ mtu_bytes mtu) = mtu_bytes mtu"
    by (metis append_eq_conv_conj)
  then show ?thesis by (simp add: mtu_frame_def)
qed

lemma mtu_frame_parts:
  assumes "17 \<le> mtu"
  shows "mtu_frame p number mtu token ! 0 = header_byte p number" "take 4 (drop 1 (mtu_frame p number mtu token)) = mtu_bytes mtu"
    "take 8 (drop 5 (mtu_frame p number mtu token)) = to_le 8 token"
    "take (mtu - 17) (drop 13 (mtu_frame p number mtu token)) = replicate (mtu - 17) 0"
  by (simp_all add: mtu_frame_def)

lemma mtu_ok_frame: "mtu_ok_packet (mtu_frame PMtuCheck number mtu token) = mtu_frame PMtuOk number mtu token"
proof -
  have m: "(0xe0 :: u8) = push_bit 5 (mask 3)" by (simp add: mask_eq_exp_minus_1)
  have "push_bit 5 number AND 0xe0 = push_bit 5 number"
    unfolding m by (rule bit_word_eqI) (auto simp: bit_simps)
  then have "(header_byte PMtuCheck number AND 0xe0) OR property_u8 PMtuOk = header_byte PMtuOk number"
    by (simp add: header_byte_def bit.conj_disj_distrib2 or.commute)
  then show ?thesis by (simp add: mtu_ok_packet_def mtu_frame_def)
qed

lemma mtu_step:
  assumes "0 < k" "k < length LITENETLIB_MTU_STEPS"
  shows "1164 \<le> LITENETLIB_MTU_STEPS ! k" "LITENETLIB_MTU_STEPS ! k \<in> set LITENETLIB_MTU_STEPS"
proof -
  have "k \<in> {1, 2, 3, 4, 5}" using assms by (auto simp: LITENETLIB_MTU_STEPS_def)
  then show "1164 \<le> LITENETLIB_MTU_STEPS ! k" by (auto simp: LITENETLIB_MTU_STEPS_def)
  show "LITENETLIB_MTU_STEPS ! k \<in> set LITENETLIB_MTU_STEPS" using assms(2) by (rule nth_mem)
qed

lemma split_frame:
  assumes "length bytes = mtu" "17 \<le> mtu"
  shows "bytes = bytes ! 0 # take 4 (drop 1 bytes) @ take 8 (drop 5 bytes) @ take (mtu - 17) (drop 13 bytes) @ drop (mtu - 4) bytes"
proof -
  have d: "drop n bytes = take k (drop n bytes) @ drop (n + k) bytes" for n k
    by (metis append_take_drop_id drop_drop add.commute)
  have "bytes = bytes ! 0 # drop 1 bytes" using assms by (cases bytes) auto
  then show ?thesis using d[of 1 4] d[of 5 8] d[of 13 "mtu - 17"] assms by simp
qed

lemma accept_iff_echo:
  assumes "mp_pending st = Some (mtu, token)" "17 \<le> mtu"
  shows "fst (accept_response now bytes number st) = (if bytes = mtu_frame PMtuOk number mtu token then Some mtu else None)"
proof -
  let ?z = "take (mtu - 17) (drop 13 bytes)"
  have z: "?z = replicate (mtu - 17) 0 \<longleftrightarrow> \<not> list_ex (\<lambda>byte. byte \<noteq> 0) ?z" if "length bytes = mtu"
  proof
    assume "\<not> list_ex (\<lambda>byte. byte \<noteq> 0) ?z"
    then have "\<forall>x\<in>set ?z. x = 0" by (auto simp: list_ex_iff)
    moreover have "length ?z = mtu - 17" using that assms(2) by simp
    ultimately show "?z = replicate (mtu - 17) 0" by (metis replicate_eqI)
  qed (simp add: list_ex_iff)
  have "bytes = mtu_frame PMtuOk number mtu token \<longleftrightarrow> length bytes = mtu \<and> bytes ! 0 = header_byte PMtuOk number \<and>
      take 4 (drop 1 bytes) = mtu_bytes mtu \<and> take 8 (drop 5 bytes) = to_le 8 token \<and> ?z = replicate (mtu - 17) 0 \<and>
      drop (mtu - 4) bytes = mtu_bytes mtu" (is "?l \<longleftrightarrow> ?r")
  proof
    assume ?l
    then show ?r using assms(2) by (simp add: mtu_frame_parts mtu_frame_parts(2)[unfolded One_nat_def] drop_mtu_frame)
  next
    assume r: ?r
    then show ?l using split_frame[of bytes mtu] assms(2) unfolding mtu_frame_def by metis
  qed
  then show ?thesis using assms(1) z by (auto simp: accept_response_def diff_diff_eq)
qed

section \<open>Runs\<close>

definition mtu_inv :: "mtu_link \<Rightarrow> bool" where
  "mtu_inv l \<longleftrightarrow> 0 < mp_next_step (ml_probe l) \<and> mp_next_step (ml_probe l) \<le> length LITENETLIB_MTU_STEPS \<and>
     mp_attempts (ml_probe l) \<le> MAX_MTU_PROBE_ATTEMPTS \<and>
     length (ml_sent l) \<le> MAX_MTU_PROBE_ATTEMPTS * (mp_next_step (ml_probe l) - 1) +
       (if mp_next_step (ml_probe l) < length LITENETLIB_MTU_STEPS then mp_attempts (ml_probe l) else 0) \<and>
     (case mp_pending (ml_probe l) of
        None \<Rightarrow> True
      | Some (mtu, token) \<Rightarrow>
          mp_next_step (ml_probe l) < length LITENETLIB_MTU_STEPS \<and> mtu = LITENETLIB_MTU_STEPS ! mp_next_step (ml_probe l) \<and>
          mtu_frame PMtuCheck (ml_number l) mtu token \<in> set (ml_sent l))"

lemma mtu_inv_new: "mtu_inv (mtu_link_new number now)"
  by (simp add: mtu_inv_def mtu_link_new_def mtu_probe_new_def LITENETLIB_MTU_STEPS_def)

lemma mtu_inv_probe:
  assumes "mtu_inv l"
  shows "mtu_inv (probe_turn now token sent l)"
proof -
  let ?st = "ml_probe l"
  consider (idle) "now < mp_next_at ?st \<or> mp_next_step ?st \<ge> length LITENETLIB_MTU_STEPS"
    | (give_up) "\<not> now < mp_next_at ?st" "mp_next_step ?st < length LITENETLIB_MTU_STEPS" "mp_attempts ?st \<ge> MAX_MTU_PROBE_ATTEMPTS"
    | (probe) "\<not> now < mp_next_at ?st" "mp_next_step ?st < length LITENETLIB_MTU_STEPS" "mp_attempts ?st < MAX_MTU_PROBE_ATTEMPTS"
    by linarith
  then show ?thesis
  proof cases
    case idle
    then show ?thesis using assms by (auto simp: probe_turn_def try_send_mtu_probe_def next_packet_def)
  next
    case give_up
    have "length (ml_sent l) \<le> MAX_MTU_PROBE_ATTEMPTS * mp_next_step ?st"
      using assms give_up by (cases "mp_next_step ?st") (auto simp: mtu_inv_def)
    also have "\<dots> \<le> MAX_MTU_PROBE_ATTEMPTS * (length LITENETLIB_MTU_STEPS - 1)" using give_up(2) by (intro mult_le_mono2) simp
    finally show ?thesis using assms give_up
      by (auto simp: probe_turn_def try_send_mtu_probe_def next_packet_def mtu_inv_def)
  next
    case probe
    let ?mtu = "LITENETLIB_MTU_STEPS ! mp_next_step ?st"
    have m: "17 \<le> ?mtu" using mtu_step(1)[of "mp_next_step ?st"] assms probe by (auto simp: mtu_inv_def)
    have n: "next_packet now (ml_number l) token ?st = (Some (mtu_frame PMtuCheck (ml_number l) ?mtu token),
        ?st\<lparr>mp_attempts := mp_attempts ?st + 1, mp_next_at := now + MTU_PROBE_INTERVAL, mp_pending := Some (?mtu, token)\<rparr>)"
      using probe m by (simp add: next_packet_def Let_def probe_packet_frame)
    show ?thesis using assms probe n
      by (auto simp: probe_turn_def try_send_mtu_probe_def mtu_inv_def split: option.splits)
  qed
qed

lemma mtu_inv_answer:
  assumes "mtu_inv l"
  shows "mtu_inv (on_mtu_ok now bytes l)"
proof (cases "fst (accept_response now bytes (ml_number l) (ml_probe l))")
  case None
  then have "accept_response now bytes (ml_number l) (ml_probe l) = (None, ml_probe l)"
    by (auto simp: accept_response_def split: option.splits if_splits)
  then show ?thesis using assms by (simp add: on_mtu_ok_def mtu_inv_def)
next
  case (Some mtu)
  let ?st = "ml_probe l"
  obtain token where p: "mp_pending ?st = Some (mtu, token)"
    using Some by (auto simp: accept_response_def split: option.splits if_splits)
  have "snd (accept_response now bytes (ml_number l) ?st) =
      ?st\<lparr>mp_pending := None, mp_next_step := mp_next_step ?st + 1, mp_attempts := 0, mp_next_at := now + MTU_PROBE_INTERVAL\<rparr>"
    using Some p by (auto simp: accept_response_def split: if_splits)
  then have a: "accept_response now bytes (ml_number l) ?st = (Some mtu,
      ?st\<lparr>mp_pending := None, mp_next_step := mp_next_step ?st + 1, mp_attempts := 0, mp_next_at := now + MTU_PROBE_INTERVAL\<rparr>)"
    using Some by (metis prod.collapse)
  have "length (ml_sent l) \<le> MAX_MTU_PROBE_ATTEMPTS * mp_next_step ?st"
    using assms p by (cases "mp_next_step ?st") (auto simp: mtu_inv_def)
  then show ?thesis using assms p a by (auto simp: on_mtu_ok_def mtu_inv_def)
qed

lemma mtu_run_inv: "mtu_run l \<Longrightarrow> mtu_inv l"
  by (induction rule: mtu_run.induct) (blast intro: mtu_inv_new mtu_inv_probe mtu_inv_answer)+

lemma mtu_run_pending:
  assumes "mtu_run l" "mp_pending (ml_probe l) = Some (mtu, token)"
  shows "17 \<le> mtu" "mtu_frame PMtuCheck (ml_number l) mtu token \<in> set (ml_sent l)"
    "is_valid_mtu_check (mtu_frame PMtuCheck (ml_number l) mtu token) (ml_number l)"
proof -
  have i: "0 < mp_next_step (ml_probe l)" "mp_next_step (ml_probe l) < length LITENETLIB_MTU_STEPS"
    "mtu = LITENETLIB_MTU_STEPS ! mp_next_step (ml_probe l)" "mtu_frame PMtuCheck (ml_number l) mtu token \<in> set (ml_sent l)"
    using mtu_run_inv[OF assms(1)] assms(2) by (auto simp: mtu_inv_def)
  show m: "17 \<le> mtu" using mtu_step(1)[OF i(1,2)] i(3) by simp
  show "mtu_frame PMtuCheck (ml_number l) mtu token \<in> set (ml_sent l)" by (rule i(4))
  have "find (\<lambda>n. mtu = n) xs = Some mtu" if "mtu \<in> set xs" for xs using that by (induction xs) auto
  then have "find (\<lambda>n. mtu = n) LITENETLIB_MTU_STEPS = Some mtu" using mtu_step(2)[OF i(1,2)] i(3) by simp
  then show "is_valid_mtu_check (mtu_frame PMtuCheck (ml_number l) mtu token) (ml_number l)"
    using m by (simp add: is_valid_mtu_check_def mtu_frame_parts mtu_frame_parts(2)[unfolded One_nat_def] drop_mtu_frame diff_diff_eq list_all_iff)
qed

lemma mtu_run_sent:
  assumes "mtu_run l"
  shows "length (ml_sent l) \<le> 20"
proof -
  have i: "mp_next_step (ml_probe l) \<le> 6" "mp_attempts (ml_probe l) \<le> 4"
    "length (ml_sent l) \<le> 4 * (mp_next_step (ml_probe l) - 1) +
      (if mp_next_step (ml_probe l) < 6 then mp_attempts (ml_probe l) else 0)"
    using mtu_run_inv[OF assms] by (auto simp: mtu_inv_def MAX_MTU_PROBE_ATTEMPTS_def LITENETLIB_MTU_STEPS_def)
  then show ?thesis by (auto split: if_splits)
qed

section \<open>Properties\<close>

text \<open>C36. In every run, a packet changes the confirmed MTU or the probing state only if it is, byte for byte, the
  answer to a probe of that connection that was handed to the socket, and the MTU it confirms is the length of that
  probe.\<close>

theorem mtu_confirmed_only_by_echo:
  assumes "mtu_run l" "on_mtu_ok now bytes l \<noteq> l"
  shows "\<exists>probe. probe \<in> set (ml_sent l) \<and> is_valid_mtu_check probe (ml_number l) \<and> bytes = mtu_ok_packet probe \<and>
    ml_confirmed (on_mtu_ok now bytes l) = max (length probe) MAX_MERGED_PACKET_SIZE"
proof -
  let ?a = "accept_response now bytes (ml_number l) (ml_probe l)"
  obtain mtu where mtu: "fst ?a = Some mtu"
  proof (cases "fst ?a")
    case None
    then have "?a = (None, ml_probe l)" by (auto simp: accept_response_def split: option.splits if_splits)
    then have "on_mtu_ok now bytes l = l" by (simp add: on_mtu_ok_def)
    then show ?thesis using assms(2) by simp
  qed (rule that)
  obtain token where p: "mp_pending (ml_probe l) = Some (mtu, token)"
    using mtu by (auto simp: accept_response_def split: option.splits if_splits)
  note f = mtu_run_pending[OF assms(1) p]
  have "bytes = mtu_frame PMtuOk (ml_number l) mtu token"
    using accept_iff_echo[OF p f(1), of now bytes "ml_number l"] mtu by (simp split: if_splits)
  moreover have "ml_confirmed (on_mtu_ok now bytes l) = max mtu MAX_MERGED_PACKET_SIZE"
    using mtu by (cases ?a) (simp add: on_mtu_ok_def)
  ultimately show ?thesis using f by (intro exI[of _ "mtu_frame PMtuCheck (ml_number l) mtu token"]) (simp add: mtu_ok_frame)
qed

definition probing_link :: mtu_link where
  "probing_link = probe_turn 1000 77 True (mtu_link_new 2 0)"

lemma probing_link_run: "mtu_run probing_link"
  unfolding probing_link_def by (intro mtu_run.intros)

lemma probing_link_pending: "mp_pending (ml_probe probing_link) = Some (1164, 77)"
  by (simp add: probing_link_def probe_turn_def try_send_mtu_probe_def next_packet_def mtu_link_new_def mtu_probe_new_def
      MTU_PROBE_INTERVAL_def MAX_MTU_PROBE_ATTEMPTS_def LITENETLIB_MTU_STEPS_def)

theorem mtu_confirmed_only_by_echo_witness:
  "\<exists>probe. probe \<in> set (ml_sent probing_link) \<and> is_valid_mtu_check probe (ml_number probing_link) \<and>
    mtu_frame PMtuOk (ml_number probing_link) 1164 77 = mtu_ok_packet probe \<and>
    ml_confirmed (on_mtu_ok 5 (mtu_frame PMtuOk (ml_number probing_link) 1164 77) probing_link) = max (length probe) MAX_MERGED_PACKET_SIZE"
proof (rule mtu_confirmed_only_by_echo[OF probing_link_run])
  let ?b = "mtu_frame PMtuOk (ml_number probing_link) 1164 77"
  have a: "fst (accept_response 5 ?b (ml_number probing_link) (ml_probe probing_link)) = Some 1164"
    using accept_iff_echo[OF probing_link_pending, of 5 ?b] by simp
  then have "mp_pending (snd (accept_response 5 ?b (ml_number probing_link) (ml_probe probing_link))) = None"
    by (auto simp: accept_response_def split: option.splits if_splits)
  then have "mp_pending (ml_probe (on_mtu_ok 5 ?b probing_link)) = None"
    using a by (cases "accept_response 5 ?b (ml_number probing_link) (ml_probe probing_link)") (simp add: on_mtu_ok_def)
  then show "on_mtu_ok 5 ?b probing_link \<noteq> probing_link" using probing_link_pending by (metis option.distinct(1))
qed

text \<open>Probing makes progress and ends. In every run, when the probe in flight reaches the other side it is
  recognised there, and its answer confirms the MTU that was probed and moves on to the next step; and no run ever
  sends more than four probes for each of the five steps, even if no answer comes.\<close>

theorem mtu_probe_answer_confirms:
  assumes "mtu_run l" "mp_pending (ml_probe l) = Some (mtu, token)"
  defines "probe \<equiv> probe_packet (ml_number l) mtu token"
  shows "is_valid_mtu_check probe (ml_number l) \<and>
    ml_confirmed (on_mtu_ok now (mtu_ok_packet probe) l) = max mtu MAX_MERGED_PACKET_SIZE \<and>
    mp_next_step (ml_probe (on_mtu_ok now (mtu_ok_packet probe) l)) = mp_next_step (ml_probe l) + 1 \<and>
    length (ml_sent l) \<le> 20"
proof -
  note f = mtu_run_pending[OF assms(1,2)]
  have probe: "probe = mtu_frame PMtuCheck (ml_number l) mtu token" using f(1) by (simp add: probe_def probe_packet_frame)
  let ?a = "accept_response now (mtu_frame PMtuOk (ml_number l) mtu token) (ml_number l) (ml_probe l)"
  have a: "fst ?a = Some mtu" using accept_iff_echo[OF assms(2) f(1)] by simp
  then have "mp_next_step (snd ?a) = mp_next_step (ml_probe l) + 1"
    by (auto simp: accept_response_def split: option.splits if_splits)
  then have "ml_confirmed (on_mtu_ok now (mtu_ok_packet probe) l) = max mtu MAX_MERGED_PACKET_SIZE"
    "mp_next_step (ml_probe (on_mtu_ok now (mtu_ok_packet probe) l)) = mp_next_step (ml_probe l) + 1"
    using a unfolding probe mtu_ok_frame by (cases ?a; simp add: on_mtu_ok_def)+
  then show ?thesis using f mtu_run_sent[OF assms(1)] by (simp add: probe)
qed

theorem mtu_probe_answer_confirms_witness:
  "ml_confirmed (on_mtu_ok 5 (mtu_ok_packet (probe_packet (ml_number probing_link) 1164 77)) probing_link) =
    max 1164 MAX_MERGED_PACKET_SIZE"
  using mtu_probe_answer_confirms[OF probing_link_run probing_link_pending, of 5] by simp

end
