(* ===== verification/NatPackets.thy ===== *)
theory NatPackets
  imports Sequence
begin

text \<open>
  Socket addresses as the standard library has them, and the LiteNetLib NAT punch packets
  (\<open>parse_nat_introduce_request\<close>, \<open>build_nat_introduce_response\<close> and the endpoint and string helpers of
  \<open>basis-transport/src/lib.rs\<close>). A read position is an argument and part of the result, and a failed
  read is \<open>None\<close>.
\<close>

section \<open>Socket addresses\<close>

text \<open>Addresses hold their octets in network order; the flow label and the scope of an IPv6 socket address take
part in the comparison of addresses, so they are kept.\<close>

datatype IpAddr = IpV4 bytes | IpV6 bytes

datatype SocketAddr = SockV4 bytes u16 | SockV6 bytes u16 u32 u32

primrec sock_ip :: "SocketAddr \<Rightarrow> IpAddr" where
  "sock_ip (SockV4 octets port) = IpV4 octets"
| "sock_ip (SockV6 octets port flow scope) = IpV6 octets"

primrec sock_port :: "SocketAddr \<Rightarrow> u16" where
  "sock_port (SockV4 octets port) = port"
| "sock_port (SockV6 octets port flow scope) = port"

text \<open>\<open>SocketAddr::new\<close>\<close>

primrec sock_new :: "IpAddr \<Rightarrow> u16 \<Rightarrow> SocketAddr" where
  "sock_new (IpV4 octets) port = SockV4 octets port"
| "sock_new (IpV6 octets) port = SockV6 octets port 0 0"

text \<open>\<open>Ipv6Addr::to_ipv4_mapped\<close> and \<open>IpAddr::to_canonical\<close>\<close>

definition to_ipv4_mapped :: "bytes \<Rightarrow> bytes option" where
  "to_ipv4_mapped octets =
     (if take 12 octets = [0, 0, 0, 0, 0, 0, 0, 0, 0, 0, 0xFF, 0xFF] then Some (drop 12 octets) else None)"

primrec to_canonical :: "IpAddr \<Rightarrow> IpAddr" where
  "to_canonical (IpV4 octets) = IpV4 octets"
| "to_canonical (IpV6 octets) =
     (case to_ipv4_mapped octets of Some v4 \<Rightarrow> IpV4 v4 | None \<Rightarrow> IpV6 octets)"

text \<open>The octets are arrays of 4 and 16 bytes in the Rust types.\<close>

primrec ip_wf :: "IpAddr \<Rightarrow> bool" where
  "ip_wf (IpV4 octets) \<longleftrightarrow> length octets = 4"
| "ip_wf (IpV6 octets) \<longleftrightarrow> length octets = 16"

lemma ip_wf_canonical: "ip_wf ip \<Longrightarrow> ip_wf (to_canonical ip)"
  by (cases ip) (auto simp: to_ipv4_mapped_def split: option.splits if_splits)

lemma to_canonical_idem: "ip_wf ip \<Longrightarrow> to_canonical (to_canonical ip) = to_canonical ip"
  by (cases ip) (auto split: option.splits)

section \<open>NAT punch packets\<close>

fun fnv1_loop :: "u64 \<Rightarrow> bytes \<Rightarrow> u64" where
  "fnv1_loop hash [] = hash"
| "fnv1_loop hash (b # bs) = fnv1_loop ((hash XOR ucast b) * 1099511628211) bs"

definition fnv1_64 :: "bytes \<Rightarrow> u64" where
  "fnv1_64 text = fnv1_loop 14695981039346656037 text"

definition NAT_INTRODUCE_REQUEST_HASH :: u64 where
  "NAT_INTRODUCE_REQUEST_HASH = fnv1_64 (str_lit ''LiteNetLib.NatPunchModule+NatIntroduceRequestPacket'')"

definition NAT_INTRODUCE_RESPONSE_HASH :: u64 where
  "NAT_INTRODUCE_RESPONSE_HASH = fnv1_64 (str_lit ''LiteNetLib.NatPunchModule+NatIntroduceResponsePacket'')"

definition read_ip_port :: "(bytes \<Rightarrow> IpAddr) \<Rightarrow> nat \<Rightarrow> bytes \<Rightarrow> nat \<Rightarrow> (SocketAddr \<times> nat) option" where
  "read_ip_port mk n bytes position =
     (case get_range bytes position n of
        None \<Rightarrow> None
      | Some octets \<Rightarrow>
          (case get_range bytes (position + n) 2 of
             None \<Rightarrow> None
           | Some port \<Rightarrow> Some (sock_new (mk octets) (of_le port), position + n + 2)))"

definition read_litenet_endpoint :: "bytes \<Rightarrow> nat \<Rightarrow> (SocketAddr \<times> nat) option" where
  "read_litenet_endpoint bytes position =
     (case list_get bytes position of
        None \<Rightarrow> None
      | Some family \<Rightarrow>
          if family = 0 then read_ip_port IpV4 4 bytes (position + 1)
          else if family = 1 then read_ip_port IpV6 16 bytes (position + 1)
          else None)"

definition write_litenet_endpoint :: "SocketAddr \<Rightarrow> bytes" where
  "write_litenet_endpoint endpoint =
     (case to_canonical (sock_ip endpoint) of IpV4 octets \<Rightarrow> 0 # octets | IpV6 octets \<Rightarrow> 1 # octets) @
     to_le 2 (sock_port endpoint)"

definition read_litenet_string :: "bytes \<Rightarrow> nat \<Rightarrow> (bytes \<times> nat) option" where
  "read_litenet_string bytes position =
     (case get_range bytes position 2 of
        None \<Rightarrow> None
      | Some raw_size \<Rightarrow>
          let size = unat (of_le raw_size :: u16); position = position + 2
          in if size = 0 then Some ([], position)
             else case get_range bytes position (size - 1) of
                    None \<Rightarrow> None
                  | Some raw \<Rightarrow> if utf8_valid raw then Some (raw, position + (size - 1)) else None)"

definition write_litenet_string :: "bytes \<Rightarrow> bytes" where
  "write_litenet_string value =
     (if value = [] then to_le 2 (0 :: u16)
      else let len_plus = min (length value + 1) 65535
           in to_le 2 (of_nat len_plus :: u16) @ take (len_plus - 1) value)"

definition parse_nat_introduce_request :: "bytes \<Rightarrow> (SocketAddr \<times> bytes) option" where
  "parse_nat_introduce_request bytes =
     (if length bytes < 8 then None
      else if of_le (take 8 bytes) \<noteq> NAT_INTRODUCE_REQUEST_HASH then None
      else case read_litenet_endpoint bytes 8 of
             None \<Rightarrow> None
           | Some (local_addr, position) \<Rightarrow>
               (case read_litenet_string bytes position of
                  None \<Rightarrow> None
                | Some (token, _) \<Rightarrow> Some (local_addr, token)))"

definition build_nat_introduce_response :: "SocketAddr \<Rightarrow> SocketAddr \<Rightarrow> bytes \<Rightarrow> u8 \<Rightarrow> bytes" where
  "build_nat_introduce_response internal external token prediction_count =
     [property_u8 PNatMessage] @ to_le 8 NAT_INTRODUCE_RESPONSE_HASH @
     write_litenet_endpoint internal @ write_litenet_endpoint external @
     write_litenet_string token @ [prediction_count]"

text \<open>\<open>send_nat_introduce\<close> hands two datagrams to the socket; when the first cannot be sent the second is not tried.
Whether a send succeeds is an argument.\<close>

type_synonym raw_send = "SocketAddr \<times> bytes"

definition send_nat_introduce ::
  "(SocketAddr \<Rightarrow> bool) \<Rightarrow> SocketAddr \<Rightarrow> SocketAddr \<Rightarrow> u8 \<Rightarrow> SocketAddr \<Rightarrow> SocketAddr \<Rightarrow> u8 \<Rightarrow> bytes \<Rightarrow> raw_send list" where
  "send_nat_introduce sends_ok host_internal host_external host_prediction_count
       client_internal client_external client_prediction_count token =
     (let to_client = build_nat_introduce_response host_internal host_external token host_prediction_count;
          to_host = build_nat_introduce_response client_internal client_external token client_prediction_count
      in if sends_ok client_external then [(client_external, to_client), (host_external, to_host)]
         else [(client_external, to_client)])"

section \<open>Reading what was written\<close>

lemma read_ip_port_append:
  assumes "length octets = n" "length pre = p"
  shows "read_ip_port mk n (pre @ octets @ to_le 2 port @ post) p = Some (sock_new (mk octets) port, p + n + 2)"
proof -
  have "get_range (pre @ octets @ to_le 2 port @ post) p n = Some octets"
    using assms by simp
  moreover have "get_range (pre @ octets @ to_le 2 port @ post) (p + n) 2 = Some (to_le 2 port)"
    using get_range_append[of "pre @ octets" "p + n" "to_le 2 port" 2 post] assms by simp
  ultimately show ?thesis by (simp add: read_ip_port_def)
qed

lemma read_written_endpoint:
  assumes "ip_wf (sock_ip e)" "length pre = p"
  shows "read_litenet_endpoint (pre @ write_litenet_endpoint e @ post) p =
           Some (sock_new (to_canonical (sock_ip e)) (sock_port e), p + length (write_litenet_endpoint e))"
proof (cases "to_canonical (sock_ip e)")
  case (IpV4 octets)
  then have "length octets = 4" using ip_wf_canonical[OF assms(1)] by simp
  then show ?thesis
    using IpV4 assms(2) read_ip_port_append[of octets 4 "pre @ [0]" "p + 1" IpV4 "sock_port e" post]
    by (simp add: read_litenet_endpoint_def write_litenet_endpoint_def list_get_def nth_append)
next
  case (IpV6 octets)
  then have "length octets = 16" using ip_wf_canonical[OF assms(1)] by simp
  then show ?thesis
    using IpV6 assms(2) read_ip_port_append[of octets 16 "pre @ [1]" "p + 1" IpV6 "sock_port e" post]
    by (simp add: read_litenet_endpoint_def write_litenet_endpoint_def list_get_def nth_append)
qed

lemma read_written_string:
  assumes "utf8_valid s" "length s < 65535" "length pre = p"
  shows "read_litenet_string (pre @ write_litenet_string s @ post) p = Some (s, p + length (write_litenet_string s))"
proof (cases "s = []")
  case True
  then show ?thesis using assms(3) by (simp add: read_litenet_string_def write_litenet_string_def)
next
  case False
  let ?w = "of_nat (length s + 1) :: u16"
  have size: "unat ?w = length s + 1" using assms(2) by (intro unat_of_nat_u16) simp
  have "get_range (pre @ (to_le 2 ?w @ s) @ post) (p + 2) (length s) = Some s"
    using get_range_append[of "pre @ to_le 2 ?w" "p + 2" s "length s" post] assms(3) by simp
  moreover have "get_range (pre @ (to_le 2 ?w @ s) @ post) p 2 = Some (to_le 2 ?w)"
    using get_range_append[of pre p "to_le 2 ?w" 2 "s @ post"] assms(3) by simp
  moreover have "write_litenet_string s = to_le 2 ?w @ s"
    using False assms(2) by (simp add: write_litenet_string_def Let_def min_def)
  ultimately show ?thesis using size assms False by (simp add: read_litenet_string_def Let_def)
qed

text \<open>
  An introduction response is read back, the way a client reads it, as the two endpoints in their
  canonical family, the token and the prediction count, and nothing is left over.
\<close>

theorem nat_response_readable:
  fixes predictions :: u8
  assumes "ip_wf (sock_ip i)" "ip_wf (sock_ip e)" "utf8_valid token" "length token < 65535"
  defines "packet \<equiv> build_nat_introduce_response i e token predictions"
  defines "canon a \<equiv> sock_new (to_canonical (sock_ip a)) (sock_port a)"
  shows "\<exists>p q r. read_litenet_endpoint packet 9 = Some (canon i, p) \<and>
           read_litenet_endpoint packet p = Some (canon e, q) \<and>
           read_litenet_string packet q = Some (token, r) \<and> r + 1 = length packet \<and> packet ! r = predictions"
proof -
  let ?h = "property_u8 PNatMessage # to_le 8 NAT_INTRODUCE_RESPONSE_HASH"
  let ?i = "write_litenet_endpoint i" and ?e = "write_litenet_endpoint e" and ?t = "write_litenet_string token"
  have packet: "packet = ?h @ ?i @ ?e @ ?t @ [predictions]"
    by (simp add: packet_def build_nat_introduce_response_def)
  have "read_litenet_endpoint packet 9 = Some (canon i, 9 + length ?i)"
    unfolding packet canon_def by (rule read_written_endpoint) (simp_all add: assms(1))
  moreover have "read_litenet_endpoint packet (9 + length ?i) = Some (canon e, 9 + length ?i + length ?e)"
    using read_written_endpoint[of e "?h @ ?i" "9 + length ?i" "?t @ [predictions]"] assms(2)
    unfolding packet canon_def by simp
  moreover have "read_litenet_string packet (9 + length ?i + length ?e) =
      Some (token, 9 + length ?i + length ?e + length ?t)"
    using read_written_string[of token "?h @ ?i @ ?e" "9 + length ?i + length ?e" "[predictions]"] assms(3,4)
    unfolding packet by simp
  ultimately show ?thesis
    by (intro exI[of _ "9 + length ?i"] exI[of _ "9 + length ?i + length ?e"]
        exI[of _ "9 + length ?i + length ?e + length ?t"] conjI) (simp_all add: packet nth_append)
qed

end
