(* ===== verification/P2pBroker.thy ===== *)
theory P2pBroker
  imports MessagesCompound NatPackets Assoc
begin

text \<open>
  The broker that sets up direct links between two peers (\<open>P2pBroker\<close> in \<open>basis-server-core/src/p2p.rs\<close>): the
  signals REQUEST, ACCEPT, DECLINE, CANCEL, LINK\_UP and LINK\_LOST of the peers, the NAT introduction requests that
  arrive from their UDP endpoints, the departure of a peer, and the periodic maintenance. Each operation is a
  function from the broker to what it hands to the transport and the broker afterwards; the maps it changes are
  guarded by one lifecycle lock, or by the lock of the one session entry it changes.

  The authentication state (\<open>is_authenticated\<close>) and the address table of the transport (\<open>peer_addr\<close>) belong to
  other components and are arguments. Instants are nanoseconds. The hash maps are association lists with distinct
  keys, and the set of tokens of a peer is a list without repetitions, in the order in which the map walks it.
\<close>

section \<open>State\<close>

type_synonym PeerId = u16
type_synonym token = bytes

definition MAX_SESSIONS_PER_PEER :: nat where "MAX_SESSIONS_PER_PEER = 4096"
definition MAX_SESSION_TOKEN_LEN :: nat where "MAX_SESSION_TOKEN_LEN = 64"
definition INTRODUCTION_BURST :: u8 where "INTRODUCTION_BURST = 4"
definition INTRODUCTION_WINDOW :: nat where "INTRODUCTION_WINDOW = 250000000"
definition OFFLOAD_LEASE :: nat where "OFFLOAD_LEASE = 30 * 60 * 1000000000"

definition P2P_CHANNEL :: u8 where "P2P_CHANNEL = 54"
definition P2P_SUB_REQUEST :: u8 where "P2P_SUB_REQUEST = 0"
definition P2P_SUB_ACCEPT :: u8 where "P2P_SUB_ACCEPT = 1"
definition P2P_SUB_DECLINE :: u8 where "P2P_SUB_DECLINE = 2"
definition P2P_SUB_CANCEL :: u8 where "P2P_SUB_CANCEL = 3"
definition P2P_SUB_LINK_LOST :: u8 where "P2P_SUB_LINK_LOST = 4"
definition P2P_SUB_SERVER_ARMED :: u8 where "P2P_SUB_SERVER_ARMED = 5"
definition P2P_SUB_LINK_UP :: u8 where "P2P_SUB_LINK_UP = 6"
definition P2P_SUB_OFFLOADED :: u8 where "P2P_SUB_OFFLOADED = 7"

lemmas p2p_sub_defs = P2P_SUB_REQUEST_def P2P_SUB_ACCEPT_def P2P_SUB_DECLINE_def P2P_SUB_CANCEL_def
  P2P_SUB_LINK_LOST_def P2P_SUB_SERVER_ARMED_def P2P_SUB_LINK_UP_def P2P_SUB_OFFLOADED_def

datatype SessionState = Awaiting | ReadyForPunch | Punched

record P2pSession =
  initiator_peer_id :: PeerId
  target_peer_id :: PeerId
  session_state :: SessionState
  endpoint_a_internal :: "SocketAddr option"
  endpoint_a_external :: "SocketAddr option"
  endpoint_b_internal :: "SocketAddr option"
  endpoint_b_external :: "SocketAddr option"
  initiator_link_up :: bool
  target_link_up :: bool
  introduction_window_started :: nat
  introduction_sends_in_window :: u8
  offload_lease_deadline :: "nat option"

record P2pBroker =
  sessions :: "(token \<times> P2pSession) list"
  peer_sessions :: "(PeerId \<times> token list) list"
  offloaded_pairs :: "u64 set"

definition broker_default :: P2pBroker where
  "broker_default = \<lparr>sessions = [], peer_sessions = [], offloaded_pairs = {}\<rparr>"

text \<open>What the broker hands to the transport: a reliable ordered message for a peer, or a raw datagram.\<close>

datatype p2p_out = PeerSend PeerId u8 bytes | RawSend SocketAddr bytes

section \<open>Helpers\<close>

definition pack_pair :: "PeerId \<Rightarrow> PeerId \<Rightarrow> u64" where
  "pack_pair a b =
     (let lo = ucast (min a b) :: u64; hi = ucast (max a b) :: u64 in push_bit 32 lo OR hi)"

definition session_pair :: "P2pSession \<Rightarrow> u64" where
  "session_pair s = pack_pair (initiator_peer_id s) (target_peer_id s)"

definition authorizes :: "P2pSession \<Rightarrow> PeerId \<Rightarrow> PeerId \<Rightarrow> bool" where
  "authorizes s sender other \<longleftrightarrow>
     (sender = initiator_peer_id s \<and> other = target_peer_id s) \<or>
     (sender = target_peer_id s \<and> other = initiator_peer_id s)"

primrec normalized :: "SocketAddr \<Rightarrow> IpAddr \<times> u16" where
  "normalized (SockV4 octets port) = (IpV4 octets, port)"
| "normalized (SockV6 octets port flow scope) =
     (case to_ipv4_mapped octets of Some ip \<Rightarrow> (IpV4 ip, port) | None \<Rightarrow> (IpV6 octets, port))"

definition same_endpoint :: "SocketAddr \<Rightarrow> SocketAddr \<Rightarrow> bool" where
  "same_endpoint a b \<longleftrightarrow> normalized a = normalized b"

definition prediction_count :: "SocketAddr \<Rightarrow> SocketAddr \<Rightarrow> u8" where
  "prediction_count a_external b_external = (if sock_ip a_external = sock_ip b_external then 0 else 32)"

definition is_offloaded :: "P2pBroker \<Rightarrow> PeerId \<Rightarrow> PeerId \<Rightarrow> bool" where
  "is_offloaded br a b \<longleftrightarrow> (if a = b then False else pack_pair a b \<in> offloaded_pairs br)"

definition send_sub_with_key :: "PeerId \<Rightarrow> u8 \<Rightarrow> token \<Rightarrow> PeerId \<Rightarrow> bytes option \<Rightarrow> p2p_out list" where
  "send_sub_with_key to sub token other_player_id key =
     (case BasisP2PSignalMessage_serialize
        \<lparr>psm_other_player_id = other_player_id, psm_session_token = token, psm_ephemeral_public_key = key\<rparr>
        (put_u8 sub writer_new) of
        (Inl _, _) \<Rightarrow> []
      | (Inr _, w) \<Rightarrow> [PeerSend to P2P_CHANNEL (wdata w)])"

definition send_sub :: "PeerId \<Rightarrow> u8 \<Rightarrow> token \<Rightarrow> PeerId \<Rightarrow> p2p_out list" where
  "send_sub to sub token other_player_id = send_sub_with_key to sub token other_player_id None"

section \<open>The participant index\<close>

definition track_peer_session :: "PeerId \<Rightarrow> token \<Rightarrow> P2pBroker \<Rightarrow> P2pBroker" where
  "track_peer_session peer token br =
     (let tokens = (case map_of (peer_sessions br) peer of Some tokens \<Rightarrow> tokens | None \<Rightarrow> [])
      in br\<lparr>peer_sessions := put_key peer (List.insert token tokens) (peer_sessions br)\<rparr>)"

definition untrack_peer_session :: "PeerId \<Rightarrow> token \<Rightarrow> P2pBroker \<Rightarrow> P2pBroker" where
  "untrack_peer_session peer token br =
     (case map_of (peer_sessions br) peer of
        None \<Rightarrow> br
      | Some tokens \<Rightarrow>
          let tokens = removeAll token tokens
          in if tokens = [] then br\<lparr>peer_sessions := remove_key peer (peer_sessions br)\<rparr>
             else br\<lparr>peer_sessions := put_key peer tokens (peer_sessions br)\<rparr>)"

definition untrack_session :: "P2pSession \<Rightarrow> token \<Rightarrow> P2pBroker \<Rightarrow> P2pBroker" where
  "untrack_session s token br =
     (let br = untrack_peer_session (initiator_peer_id s) token br;
          br = untrack_peer_session (target_peer_id s) token br
      in br\<lparr>offloaded_pairs := offloaded_pairs br - {session_pair s}\<rparr>)"

text \<open>\<open>sessions.remove\<close> followed by \<open>untrack_session\<close>, as every operation that ends a session does it.\<close>

definition drop_session :: "token \<Rightarrow> P2pSession \<Rightarrow> P2pBroker \<Rightarrow> P2pBroker" where
  "drop_session token s br =
     untrack_session s token (br\<lparr>sessions := remove_key token (sessions br)\<rparr>)"

definition put_session :: "token \<Rightarrow> P2pSession \<Rightarrow> P2pBroker \<Rightarrow> P2pBroker" where
  "put_session token s br = br\<lparr>sessions := put_key token s (sessions br)\<rparr>"

definition full_index :: "P2pBroker \<Rightarrow> PeerId \<Rightarrow> bool" where
  "full_index br peer \<longleftrightarrow>
     (case map_of (peer_sessions br) peer of Some tokens \<Rightarrow> length tokens \<ge> MAX_SESSIONS_PER_PEER | None \<Rightarrow> False)"

definition claim_session :: "token \<Rightarrow> P2pSession \<Rightarrow> (PeerId \<Rightarrow> bool) \<Rightarrow> P2pBroker \<Rightarrow> bool \<times> P2pBroker" where
  "claim_session token s is_authenticated br =
     (if \<not> is_authenticated (initiator_peer_id s) \<or> \<not> is_authenticated (target_peer_id s) \<or>
         full_index br (initiator_peer_id s) \<or> full_index br (target_peer_id s)
      then (False, br)
      else case map_of (sessions br) token of
             Some _ \<Rightarrow> (False, br)
           | None \<Rightarrow>
               (True, track_peer_session (target_peer_id s) token
                        (track_peer_session (initiator_peer_id s) token (put_session token s br))))"

definition remove_session_if_authorized ::
  "token \<Rightarrow> PeerId \<Rightarrow> PeerId \<Rightarrow> P2pBroker \<Rightarrow> P2pSession option \<times> P2pBroker" where
  "remove_session_if_authorized token sender other br =
     (case map_of (sessions br) token of
        None \<Rightarrow> (None, br)
      | Some s \<Rightarrow> if authorizes s sender other then (Some s, drop_session token s br) else (None, br))"

section \<open>Signals\<close>

definition new_session :: "PeerId \<Rightarrow> PeerId \<Rightarrow> nat \<Rightarrow> P2pSession" where
  "new_session sender other now =
     \<lparr>initiator_peer_id = sender, target_peer_id = other, session_state = Awaiting,
      endpoint_a_internal = None, endpoint_a_external = None, endpoint_b_internal = None, endpoint_b_external = None,
      initiator_link_up = False, target_link_up = False,
      introduction_window_started = now, introduction_sends_in_window = 0, offload_lease_deadline = None\<rparr>"

definition handle_request ::
  "PeerId \<Rightarrow> BasisP2PSignalMessage \<Rightarrow> (PeerId \<Rightarrow> bool) \<Rightarrow> nat \<Rightarrow> P2pBroker \<Rightarrow> p2p_out list \<times> P2pBroker" where
  "handle_request sender message is_authenticated now br =
     (let token = psm_session_token message; other = psm_other_player_id message
      in if token = [] \<or> length token > MAX_SESSION_TOKEN_LEN \<or> other = sender then ([], br)
         else if \<not> is_authenticated other then (send_sub sender P2P_SUB_CANCEL token other, br)
         else case claim_session token (new_session sender other now) is_authenticated br of
                (False, br) \<Rightarrow> (send_sub sender P2P_SUB_CANCEL token other, br)
              | (True, br) \<Rightarrow>
                  (send_sub_with_key other P2P_SUB_REQUEST token sender (psm_ephemeral_public_key message) @
                   send_sub sender P2P_SUB_SERVER_ARMED token other, br))"

definition handle_accept :: "PeerId \<Rightarrow> BasisP2PSignalMessage \<Rightarrow> P2pBroker \<Rightarrow> p2p_out list \<times> P2pBroker" where
  "handle_accept sender message br =
     (let token = psm_session_token message
      in case map_of (sessions br) token of
           None \<Rightarrow> ([], br)
         | Some s \<Rightarrow>
             if target_peer_id s \<noteq> sender \<or> initiator_peer_id s \<noteq> psm_other_player_id message then ([], br)
             else (send_sub_with_key (initiator_peer_id s) P2P_SUB_ACCEPT token sender
                     (psm_ephemeral_public_key message),
                   put_session token (s\<lparr>session_state := ReadyForPunch\<rparr>) br))"

definition forward_and_drop ::
  "PeerId \<Rightarrow> BasisP2PSignalMessage \<Rightarrow> u8 \<Rightarrow> bool \<Rightarrow> P2pBroker \<Rightarrow> p2p_out list \<times> P2pBroker" where
  "forward_and_drop sender message sub drop_it br =
     (let token = psm_session_token message; other = psm_other_player_id message
      in if drop_it then
           (case remove_session_if_authorized token sender other br of
              (None, br) \<Rightarrow> ([], br)
            | (Some s, br) \<Rightarrow>
                (send_sub (if sender = initiator_peer_id s then target_peer_id s else initiator_peer_id s) sub token sender,
                 br))
         else
           (case map_of (sessions br) token of
              None \<Rightarrow> ([], br)
            | Some s \<Rightarrow> if \<not> authorizes s sender other then ([], br) else (send_sub other sub token sender, br)))"

definition clear_link :: "P2pSession \<Rightarrow> P2pSession" where
  "clear_link s = s\<lparr>endpoint_a_internal := None, endpoint_a_external := None,
     endpoint_b_internal := None, endpoint_b_external := None,
     initiator_link_up := False, target_link_up := False,
     session_state := (if session_state s \<noteq> Awaiting then ReadyForPunch else session_state s),
     offload_lease_deadline := None\<rparr>"

fun clear_links :: "u64 \<Rightarrow> token list \<Rightarrow> P2pBroker \<Rightarrow> P2pBroker" where
  "clear_links pair [] br = br"
| "clear_links pair (token # tokens) br =
     (case map_of (sessions br) token of
        None \<Rightarrow> clear_links pair tokens br
      | Some s \<Rightarrow>
          if session_pair s \<noteq> pair then clear_links pair tokens br
          else clear_links pair tokens (put_session token (clear_link s) br))"

definition handle_link_lost :: "PeerId \<Rightarrow> BasisP2PSignalMessage \<Rightarrow> P2pBroker \<Rightarrow> p2p_out list \<times> P2pBroker" where
  "handle_link_lost sender message br =
     (let token = psm_session_token message; other = psm_other_player_id message
      in case map_of (sessions br) token of
           None \<Rightarrow> ([], br)
         | Some s \<Rightarrow>
             if \<not> authorizes s sender other then ([], br)
             else
               let pair = session_pair s;
                   tokens = (case map_of (peer_sessions br) sender of Some tokens \<Rightarrow> tokens | None \<Rightarrow> []);
                   br = clear_links pair (List.insert token tokens) br
               in (send_sub other P2P_SUB_LINK_LOST token sender,
                   br\<lparr>offloaded_pairs := offloaded_pairs br - {pair}\<rparr>))"

definition handle_link_up :: "PeerId \<Rightarrow> BasisP2PSignalMessage \<Rightarrow> nat \<Rightarrow> P2pBroker \<Rightarrow> p2p_out list \<times> P2pBroker" where
  "handle_link_up sender message now br =
     (let token = psm_session_token message
      in case map_of (sessions br) token of
           None \<Rightarrow> ([], br)
         | Some s \<Rightarrow>
             if sender \<noteq> initiator_peer_id s \<and> sender \<noteq> target_peer_id s then ([], br)
             else
               let s = (if sender = initiator_peer_id s then s\<lparr>initiator_link_up := True\<rparr> else s\<lparr>target_link_up := True\<rparr>)
               in if initiator_link_up s \<and> target_link_up s then
                    let pair = session_pair s;
                        newly_offloaded = (pair \<notin> offloaded_pairs br);
                        deadline = (case offload_lease_deadline s of Some d \<Rightarrow> d | None \<Rightarrow> now + OFFLOAD_LEASE);
                        br = put_session token (s\<lparr>offload_lease_deadline := Some deadline\<rparr>) br
                    in (if newly_offloaded
                        then send_sub (initiator_peer_id s) P2P_SUB_OFFLOADED token (target_peer_id s) @
                             send_sub (target_peer_id s) P2P_SUB_OFFLOADED token (initiator_peer_id s)
                        else [],
                        br\<lparr>offloaded_pairs := insert pair (offloaded_pairs br)\<rparr>)
                  else ([], put_session token s br))"

definition handle_signal ::
  "PeerId \<Rightarrow> bytes \<Rightarrow> bool \<Rightarrow> (PeerId \<Rightarrow> bool) \<Rightarrow> nat \<Rightarrow> P2pBroker \<Rightarrow> p2p_out list \<times> P2pBroker" where
  "handle_signal sender payload direct_connect_allowed is_authenticated now br =
     (case payload of
        [] \<Rightarrow> ([], br)
      | sub # rest \<Rightarrow>
          (case BasisP2PSignalMessage_deserialize (reader_new rest) of
             (Inl _, _) \<Rightarrow> ([], br)
           | (Inr message, _) \<Rightarrow>
               if sub = P2P_SUB_REQUEST then
                 (if \<not> direct_connect_allowed
                  then (send_sub sender P2P_SUB_CANCEL (psm_session_token message) (psm_other_player_id message), br)
                  else handle_request sender message is_authenticated now br)
               else if sub = P2P_SUB_ACCEPT then handle_accept sender message br
               else if sub = P2P_SUB_DECLINE then forward_and_drop sender message P2P_SUB_DECLINE True br
               else if sub = P2P_SUB_CANCEL then forward_and_drop sender message P2P_SUB_CANCEL True br
               else if sub = P2P_SUB_LINK_LOST then handle_link_lost sender message br
               else if sub = P2P_SUB_LINK_UP then handle_link_up sender message now br
               else ([], br)))"

section \<open>NAT introductions\<close>

text \<open>The endpoint slots: a participant is recognised by its observed endpoint, and a third endpoint changes neither slot.\<close>

definition note_endpoint :: "SocketAddr \<Rightarrow> SocketAddr \<Rightarrow> P2pSession \<Rightarrow> P2pSession option" where
  "note_endpoint local_addr remote_addr s =
     (if endpoint_a_external s = Some remote_addr then Some (s\<lparr>endpoint_a_internal := Some local_addr\<rparr>)
      else if endpoint_b_external s = Some remote_addr then Some (s\<lparr>endpoint_b_internal := Some local_addr\<rparr>)
      else if endpoint_a_external s = None
      then Some (s\<lparr>endpoint_a_internal := Some local_addr, endpoint_a_external := Some remote_addr\<rparr>)
      else if endpoint_b_external s = None
      then Some (s\<lparr>endpoint_b_internal := Some local_addr, endpoint_b_external := Some remote_addr\<rparr>)
      else None)"

definition roll_window :: "nat \<Rightarrow> P2pSession \<Rightarrow> P2pSession" where
  "roll_window now s =
     (if now - introduction_window_started s \<ge> INTRODUCTION_WINDOW
      then s\<lparr>introduction_window_started := now, introduction_sends_in_window := 0\<rparr> else s)"

definition localhost :: "SocketAddr \<Rightarrow> SocketAddr" where
  "localhost addr = SockV4 [127, 0, 0, 1] (sock_port addr)"

definition introduce :: "(SocketAddr \<Rightarrow> bool) \<Rightarrow> SocketAddr \<Rightarrow> SocketAddr \<Rightarrow> SocketAddr \<Rightarrow> SocketAddr \<Rightarrow> token \<Rightarrow> p2p_out list" where
  "introduce sends_ok a_internal a_external b_internal b_external token =
     (let count = prediction_count a_external b_external;
          same_nat = (count = 0);
          same_host = (same_nat \<and> sock_ip a_internal = sock_ip b_internal);
          (a_internal, b_internal) =
            (if same_host then (localhost a_internal, localhost b_internal) else (a_internal, b_internal))
      in map (\<lambda>(addr, packet). RawSend addr packet)
           (send_nat_introduce sends_ok a_internal a_external count b_internal b_external count token))"

definition session_ready :: "P2pSession \<Rightarrow> bool" where
  "session_ready s \<longleftrightarrow> session_state s \<noteq> Awaiting"

definition is_participant_endpoint :: "(PeerId \<Rightarrow> SocketAddr option) \<Rightarrow> SocketAddr \<Rightarrow> P2pSession \<Rightarrow> bool" where
  "is_participant_endpoint peer_addr remote_addr s \<longleftrightarrow>
     (case peer_addr (initiator_peer_id s) of Some addr \<Rightarrow> same_endpoint addr remote_addr | None \<Rightarrow> False) \<or>
     (case peer_addr (target_peer_id s) of Some addr \<Rightarrow> same_endpoint addr remote_addr | None \<Rightarrow> False)"

definition handle_nat_introduction_request ::
  "(PeerId \<Rightarrow> SocketAddr option) \<Rightarrow> (SocketAddr \<Rightarrow> bool) \<Rightarrow> SocketAddr \<Rightarrow> SocketAddr \<Rightarrow> token \<Rightarrow> nat \<Rightarrow>
   P2pBroker \<Rightarrow> p2p_out list \<times> P2pBroker" where
  "handle_nat_introduction_request peer_addr sends_ok local_addr remote_addr token now br =
     (if token = [] then ([], br)
      else case map_of (sessions br) token of
        None \<Rightarrow> ([], br)
      | Some s \<Rightarrow>
          if \<not> session_ready s then ([], br)
          else if \<not> is_participant_endpoint peer_addr remote_addr s then ([], br)
          else case note_endpoint local_addr remote_addr s of
            None \<Rightarrow> ([], br)
          | Some s \<Rightarrow>
              (case (endpoint_a_internal s, endpoint_a_external s, endpoint_b_internal s, endpoint_b_external s) of
                 (Some a_internal, Some a_external, Some b_internal, Some b_external) \<Rightarrow>
                   let s = roll_window now s
                   in if introduction_sends_in_window s \<ge> INTRODUCTION_BURST then ([], put_session token s br)
                      else (introduce sends_ok a_internal a_external b_internal b_external token,
                            put_session token
                              (s\<lparr>introduction_sends_in_window := introduction_sends_in_window s + 1,
                                 session_state := Punched\<rparr>) br)
               | _ \<Rightarrow> ([], put_session token s br)))"

section \<open>Departures and maintenance\<close>

fun drop_peer_tokens :: "PeerId \<Rightarrow> token list \<Rightarrow> P2pBroker \<Rightarrow> (PeerId \<times> token) list \<times> P2pBroker" where
  "drop_peer_tokens peer [] br = ([], br)"
| "drop_peer_tokens peer (token # tokens) br =
     (case map_of (sessions br) token of
        None \<Rightarrow> drop_peer_tokens peer tokens br
      | Some s \<Rightarrow>
          let other = (if initiator_peer_id s = peer then target_peer_id s else initiator_peer_id s);
              (rest, br) = drop_peer_tokens peer tokens (drop_session token s br)
          in ((other, token) # rest, br))"

definition remove_peer :: "PeerId \<Rightarrow> P2pBroker \<Rightarrow> p2p_out list \<times> P2pBroker" where
  "remove_peer peer br =
     (case map_of (peer_sessions br) peer of
        None \<Rightarrow> ([], br)
      | Some tokens \<Rightarrow>
          let (notifications, br) =
                drop_peer_tokens peer tokens (br\<lparr>peer_sessions := remove_key peer (peer_sessions br)\<rparr>)
          in (concat (map (\<lambda>(other, token). send_sub other P2P_SUB_CANCEL token peer) notifications), br))"

definition links_up :: "P2pSession \<Rightarrow> bool" where
  "links_up s \<longleftrightarrow> initiator_link_up s \<and> target_link_up s"

definition lease_expired :: "nat \<Rightarrow> P2pSession \<Rightarrow> bool" where
  "lease_expired now s \<longleftrightarrow>
     (case offload_lease_deadline s of Some deadline \<Rightarrow> deadline \<le> now | None \<Rightarrow> False) \<and>
     initiator_link_up s \<and> target_link_up s"

type_synonym p2p_notice = "PeerId \<times> u8 \<times> token \<times> PeerId"

definition disconnect_notice :: "(PeerId \<Rightarrow> SocketAddr option) \<Rightarrow> token \<Rightarrow> P2pSession \<Rightarrow> p2p_notice list" where
  "disconnect_notice peer_addr token s =
     (if peer_addr (initiator_peer_id s) \<noteq> None
      then [(initiator_peer_id s, P2P_SUB_CANCEL, token, target_peer_id s)]
      else if peer_addr (target_peer_id s) \<noteq> None
      then [(target_peer_id s, P2P_SUB_CANCEL, token, initiator_peer_id s)]
      else [])"

definition expiry_notices :: "token \<Rightarrow> P2pSession \<Rightarrow> p2p_notice list" where
  "expiry_notices token s =
     [(initiator_peer_id s, P2P_SUB_LINK_LOST, token, target_peer_id s),
      (target_peer_id s, P2P_SUB_LINK_LOST, token, initiator_peer_id s)]"

text \<open>One pass over a snapshot of the sessions: what is announced, the pairs that stay offloaded, and the broker.\<close>

fun maintain_pass ::
  "(PeerId \<Rightarrow> SocketAddr option) \<Rightarrow> nat \<Rightarrow> (token \<times> P2pSession) list \<Rightarrow> u64 set \<Rightarrow> P2pBroker \<Rightarrow>
   p2p_notice list \<times> u64 set \<times> P2pBroker" where
  "maintain_pass peer_addr now [] active br = ([], active, br)"
| "maintain_pass peer_addr now ((token, s) # candidates) active br =
     (if peer_addr (initiator_peer_id s) = None \<or> peer_addr (target_peer_id s) = None then
        (if map_of (sessions br) token \<noteq> None then
           let (rest, active, br) = maintain_pass peer_addr now candidates active (drop_session token s br)
           in (disconnect_notice peer_addr token s @ rest, active, br)
         else maintain_pass peer_addr now candidates active br)
      else if \<not> lease_expired now s then
        maintain_pass peer_addr now candidates
          (if initiator_link_up s \<and> target_link_up s then insert (session_pair s) active else active) br
      else
        (case map_of (sessions br) token of
           Some removed \<Rightarrow>
             let (rest, active, br) = maintain_pass peer_addr now candidates active (drop_session token removed br)
             in (expiry_notices token s @ rest, active, br)
         | None \<Rightarrow> maintain_pass peer_addr now candidates active br))"

definition maintain_lifecycle :: "(PeerId \<Rightarrow> SocketAddr option) \<Rightarrow> nat \<Rightarrow> P2pBroker \<Rightarrow> p2p_out list \<times> P2pBroker" where
  "maintain_lifecycle peer_addr now br =
     (let (notifications, active, br) = maintain_pass peer_addr now (sessions br) {} br;
          retained = {pair \<in> offloaded_pairs br. pair \<in> active}
      in (concat (map (\<lambda>(to, sub, token, other). send_sub to sub token other) notifications),
          br\<lparr>offloaded_pairs := retained \<union> active\<rparr>))"

end
