(* ===== verification/BrokerProofs.thy ===== *)
theory BrokerProofs
  imports P2pBroker
begin

text \<open>
  The lemmas of the broker: pairs of peers and their packed key, the participant index as an interface, the
  invariant of the broker's three maps, and its preservation by the primitive changes (a session updated in
  place, claimed, dropped) that the handlers are made of.
\<close>

section \<open>Packed pairs\<close>

lemma pack_pair_commute: "pack_pair a b = pack_pair b a"
  by (simp add: pack_pair_def min.commute max.commute)

lemma pack_pair_hi: "ucast (pack_pair a b) = max a b"
  by (rule bit_word_eqI) (auto simp: pack_pair_def Let_def bit_simps)

lemma pack_pair_lo: "ucast (drop_bit 32 (pack_pair a b)) = min a b"
proof (rule bit_word_eqI)
  fix n assume n: "n < LENGTH(16)"
  have "\<not> bit (ucast (max a b) :: u64) (32 + n)" by (auto simp: bit_simps dest: bit_imp_le_length)
  with n show "bit (ucast (drop_bit 32 (pack_pair a b)) :: PeerId) n = bit (min a b) n"
    by (auto simp: pack_pair_def Let_def bit_simps)
qed

lemma pack_pair_eq: "pack_pair a b = pack_pair c d \<longleftrightarrow> (a = c \<and> b = d) \<or> (a = d \<and> b = c)"
proof
  assume eq: "pack_pair a b = pack_pair c d"
  have "max a b = max c d" "min a b = min c d"
    using pack_pair_hi[of a b] pack_pair_lo[of a b] pack_pair_hi[of c d] pack_pair_lo[of c d] by (simp_all add: eq)
  then show "(a = c \<and> b = d) \<or> (a = d \<and> b = c)"
    by (auto simp: min_def max_def split: if_splits)
qed (auto simp: pack_pair_commute)

definition participant :: "P2pSession \<Rightarrow> PeerId \<Rightarrow> bool" where
  "participant s p \<longleftrightarrow> p = initiator_peer_id s \<or> p = target_peer_id s"

lemma authorizes_participant: "authorizes s sender other \<Longrightarrow> participant s sender \<and> participant s other"
  by (auto simp: authorizes_def participant_def)

lemma same_pair_participant: "session_pair s = session_pair s' \<Longrightarrow> participant s = participant s'"
  by (auto simp: session_pair_def pack_pair_eq participant_def fun_eq_iff)

lemma authorizes_pair: "authorizes s sender other \<Longrightarrow> session_pair s = pack_pair sender other"
  by (auto simp: authorizes_def session_pair_def pack_pair_commute)

section \<open>The participant index as an interface\<close>

text \<open>A structure of sets of tokens, one for each peer: what it holds after a token is entered or removed.\<close>

locale participant_index =
  fixes track untrack :: "'p \<Rightarrow> 't \<Rightarrow> 'b \<Rightarrow> 'b" and held :: "'b \<Rightarrow> 'p \<Rightarrow> 't \<Rightarrow> bool"
  assumes held_track: "held (track p t b) q u \<longleftrightarrow> (q = p \<and> u = t) \<or> held b q u"
    and held_untrack: "held (untrack p t b) q u \<longleftrightarrow> held b q u \<and> \<not> (q = p \<and> u = t)"
begin

lemma held_track_both:
  "held (track p t (track q t b)) r u \<longleftrightarrow> (u = t \<and> (r = p \<or> r = q)) \<or> held b r u"
  by (auto simp: held_track)

lemma held_untrack_both:
  "held (untrack p t (untrack q t b)) r u \<longleftrightarrow> held b r u \<and> \<not> (u = t \<and> (r = p \<or> r = q))"
  by (auto simp: held_untrack)

lemma untrack_track_both:
  assumes "\<not> held b p t" "\<not> held b q t"
  shows "held (untrack q t (untrack p t (track q t (track p t b)))) = held b"
  using assms by (auto simp: fun_eq_iff held_track_both held_untrack_both)

end

definition indexed :: "P2pBroker \<Rightarrow> PeerId \<Rightarrow> token \<Rightarrow> bool" where
  "indexed br p t \<longleftrightarrow> (\<exists>ts. map_of (peer_sessions br) p = Some ts \<and> t \<in> set ts)"

interpretation broker_index: participant_index track_peer_session untrack_peer_session indexed
proof
  fix p t b q u
  show "indexed (track_peer_session p t b) q u \<longleftrightarrow> (q = p \<and> u = t) \<or> indexed b q u"
    by (auto simp: indexed_def track_peer_session_def Let_def split: option.splits)
  show "indexed (untrack_peer_session p t b) q u \<longleftrightarrow> indexed b q u \<and> \<not> (q = p \<and> u = t)"
  proof (cases "map_of (peer_sessions b) p")
    case (Some ts)
    show ?thesis
    proof (cases "removeAll t ts = []")
      case True
      then have "set ts \<subseteq> {t}" by (metis Diff_eq_empty_iff set_empty set_removeAll)
      then show ?thesis using Some True
        by (auto simp: indexed_def untrack_peer_session_def Let_def)
    qed (use Some in \<open>auto simp: indexed_def untrack_peer_session_def Let_def\<close>)
  qed (auto simp: indexed_def untrack_peer_session_def)
qed

section \<open>What the primitive changes leave alone\<close>

lemma track_frame [simp]:
  "sessions (track_peer_session p t br) = sessions br"
  "offloaded_pairs (track_peer_session p t br) = offloaded_pairs br"
  by (simp_all add: track_peer_session_def Let_def)

lemma untrack_frame [simp]:
  "sessions (untrack_peer_session p t br) = sessions br"
  "offloaded_pairs (untrack_peer_session p t br) = offloaded_pairs br"
  by (simp_all add: untrack_peer_session_def Let_def split: option.splits)

lemma drop_session_frame [simp]:
  "sessions (drop_session t s br) = remove_key t (sessions br)"
  "offloaded_pairs (drop_session t s br) = offloaded_pairs br - {session_pair s}"
  by (simp_all add: drop_session_def untrack_session_def Let_def)

lemma put_session_frame [simp]:
  "sessions (put_session t s br) = put_key t s (sessions br)"
  "peer_sessions (put_session t s br) = peer_sessions br"
  "offloaded_pairs (put_session t s br) = offloaded_pairs br"
  by (simp_all add: put_session_def)

lemma indexed_frame [simp]:
  "indexed (put_session t s br) = indexed br"
  "indexed (br\<lparr>sessions := ss\<rparr>) = indexed br"
  "indexed (br\<lparr>offloaded_pairs := ps\<rparr>) = indexed br"
  by (simp_all add: indexed_def fun_eq_iff)

lemma indexed_drop_session:
  "indexed (drop_session t s br) q u \<longleftrightarrow> indexed br q u \<and> \<not> (u = t \<and> participant s q)"
  by (auto simp: drop_session_def untrack_session_def Let_def broker_index.held_untrack participant_def)

lemma session_pair_update [simp]:
  "session_pair (s\<lparr>session_state := x\<rparr>) = session_pair s"
  "session_pair (s\<lparr>initiator_link_up := y\<rparr>) = session_pair s"
  "session_pair (s\<lparr>target_link_up := y\<rparr>) = session_pair s"
  "session_pair (s\<lparr>offload_lease_deadline := d\<rparr>) = session_pair s"
  "session_pair (s\<lparr>introduction_sends_in_window := n\<rparr>) = session_pair s"
  "session_pair (clear_link s) = session_pair s"
  by (simp_all add: session_pair_def clear_link_def)

section \<open>The invariant\<close>

text \<open>
  A session: a token the request handler accepts, two different peers, the bounded introduction count, a lease
  deadline exactly while both ends report the link, and the endpoint slots filled in order, by different
  endpoints, and only after ACCEPT.
\<close>

definition session_wf :: "token \<Rightarrow> P2pSession \<Rightarrow> bool" where
  "session_wf t s \<longleftrightarrow>
     t \<noteq> [] \<and> length t \<le> MAX_SESSION_TOKEN_LEN \<and>
     initiator_peer_id s \<noteq> target_peer_id s \<and>
     introduction_sends_in_window s \<le> INTRODUCTION_BURST \<and>
     (offload_lease_deadline s \<noteq> None \<longleftrightarrow> links_up s) \<and>
     (endpoint_a_internal s = None \<longleftrightarrow> endpoint_a_external s = None) \<and>
     (endpoint_b_internal s = None \<longleftrightarrow> endpoint_b_external s = None) \<and>
     (endpoint_a_external s = None \<longrightarrow> endpoint_b_external s = None) \<and>
     (endpoint_a_external s \<noteq> None \<longrightarrow> endpoint_a_external s \<noteq> endpoint_b_external s \<and> session_ready s)"

definition entry_wf :: "token list \<Rightarrow> bool" where
  "entry_wf ts \<longleftrightarrow> ts \<noteq> [] \<and> distinct ts \<and> length ts \<le> MAX_SESSIONS_PER_PEER"

definition maps_wf :: "P2pBroker \<Rightarrow> bool" where
  "maps_wf br \<longleftrightarrow>
     distinct (map fst (sessions br)) \<and> distinct (map fst (peer_sessions br)) \<and>
     (\<forall>p ts. map_of (peer_sessions br) p = Some ts \<longrightarrow> entry_wf ts) \<and>
     (\<forall>t s. map_of (sessions br) t = Some s \<longrightarrow> session_wf t s)"

text \<open>The index lists, for each peer outside a given set, exactly the tokens of its sessions.\<close>

definition index_exact :: "PeerId set \<Rightarrow> P2pBroker \<Rightarrow> bool" where
  "index_exact X br \<longleftrightarrow>
     (\<forall>p t. indexed br p t \<longleftrightarrow> p \<notin> X \<and> (\<exists>s. map_of (sessions br) t = Some s \<and> participant s p))"

definition offload_backed :: "P2pBroker \<Rightarrow> bool" where
  "offload_backed br \<longleftrightarrow>
     (\<forall>pair \<in> offloaded_pairs br. \<exists>t s. map_of (sessions br) t = Some s \<and> session_pair s = pair \<and> links_up s)"

definition broker_inv_but :: "PeerId set \<Rightarrow> P2pBroker \<Rightarrow> bool" where
  "broker_inv_but X br \<longleftrightarrow> maps_wf br \<and> index_exact X br \<and> offload_backed br"

abbreviation broker_inv :: "P2pBroker \<Rightarrow> bool" where
  "broker_inv \<equiv> broker_inv_but {}"

lemma broker_invD:
  assumes "broker_inv_but X br"
  shows "maps_wf br" "index_exact X br" "offload_backed br"
  using assms by (simp_all add: broker_inv_but_def)

lemma session_wfD:
  assumes "broker_inv_but X br" "map_of (sessions br) t = Some s"
  shows "session_wf t s"
  using assms by (simp add: broker_inv_but_def maps_wf_def)

lemma broker_inv_default: "broker_inv broker_default"
  by (auto simp: broker_inv_but_def maps_wf_def index_exact_def offload_backed_def broker_default_def indexed_def)

section \<open>Preservation by the primitive changes\<close>

lemma maps_wf_put:
  assumes "maps_wf br" "session_wf t s"
  shows "maps_wf (put_session t s br)"
  using assms by (simp add: maps_wf_def)

lemma index_exact_put:
  assumes "index_exact X br" "map_of (sessions br) t = Some s" "participant s' = participant s"
  shows "index_exact X (put_session t s' br)"
  using assms by (simp add: index_exact_def)

lemma offload_backed_transfer:
  assumes "offload_backed br" "offloaded_pairs br' \<subseteq> offloaded_pairs br"
    and "\<And>t s. map_of (sessions br) t = Some s \<Longrightarrow> links_up s \<Longrightarrow> session_pair s \<in> offloaded_pairs br' \<Longrightarrow>
           \<exists>s'. map_of (sessions br') t = Some s' \<and> session_pair s' = session_pair s \<and> links_up s'"
  shows "offload_backed br'"
  unfolding offload_backed_def
proof
  fix p assume p: "p \<in> offloaded_pairs br'"
  then obtain t s where "map_of (sessions br) t = Some s" "session_pair s = p" "links_up s"
    using assms(1,2) unfolding offload_backed_def by blast
  with p show "\<exists>t s. map_of (sessions br') t = Some s \<and> session_pair s = p \<and> links_up s"
    using assms(3) by blast
qed

lemma inv_put_session:
  assumes inv: "broker_inv_but X br" and old: "map_of (sessions br) t = Some s"
    and pair: "session_pair s' = session_pair s" and links: "links_up s \<Longrightarrow> links_up s'" and wf: "session_wf t s'"
  shows "broker_inv_but X (put_session t s' br)"
proof -
  have "offload_backed (put_session t s' br)"
    by (rule offload_backed_transfer[OF broker_invD(3)[OF inv]]) (use old pair links in auto)
  then show ?thesis
    using broker_invD(1,2)[OF inv] index_exact_put[OF _ old same_pair_participant[OF pair]] wf
    by (simp add: broker_inv_but_def maps_wf_put)
qed

lemma maps_wf_untrack:
  assumes "maps_wf br"
  shows "maps_wf (untrack_peer_session p t br)"
proof (cases "map_of (peer_sessions br) p")
  case (Some ts)
  have "entry_wf ts" using assms Some by (simp add: maps_wf_def)
  then have "entry_wf (removeAll t ts)" if "removeAll t ts \<noteq> []"
    using that order_trans[OF length_removeAll_less_eq[of t ts]] by (auto simp: entry_wf_def distinct_removeAll)
  then show ?thesis
    using assms Some by (auto simp: maps_wf_def untrack_peer_session_def Let_def simp del: map_of_eq_Some_iff)
qed (use assms in \<open>simp add: untrack_peer_session_def\<close>)

lemma maps_wf_drop_session:
  assumes "maps_wf br"
  shows "maps_wf (drop_session t s br)"
proof -
  have "maps_wf (br\<lparr>sessions := remove_key t (sessions br)\<rparr>)"
    using assms by (simp add: maps_wf_def)
  then have "maps_wf (untrack_peer_session q t (untrack_peer_session p t (br\<lparr>sessions := remove_key t (sessions br)\<rparr>)))"
    for p q by (intro maps_wf_untrack)
  then show ?thesis
    by (simp add: drop_session_def untrack_session_def Let_def maps_wf_def)
qed

lemma inv_drop_session:
  assumes inv: "broker_inv_but X br" and s: "map_of (sessions br) t = Some s"
  shows "broker_inv_but X (drop_session t s br)"
  unfolding broker_inv_but_def
proof (intro conjI)
  show "maps_wf (drop_session t s br)" by (rule maps_wf_drop_session[OF broker_invD(1)[OF inv]])
  show "index_exact X (drop_session t s br)"
    using broker_invD(2)[OF inv] s by (auto simp: index_exact_def indexed_drop_session)
  show "offload_backed (drop_session t s br)"
    by (rule offload_backed_transfer[OF broker_invD(3)[OF inv]]) (use s in auto)
qed

lemma indexed_entry: "map_of (peer_sessions br) p = Some ts \<Longrightarrow> indexed br p t \<longleftrightarrow> t \<in> set ts"
  by (simp add: indexed_def)

lemma maps_wf_track:
  assumes "maps_wf br" "\<not> full_index br p"
  shows "maps_wf (track_peer_session p t br)"
proof (cases "map_of (peer_sessions br) p")
  case (Some ts)
  then have "entry_wf ts" "length ts < MAX_SESSIONS_PER_PEER"
    using assms by (auto simp: maps_wf_def full_index_def)
  then have "entry_wf (List.insert t ts)" by (auto simp: entry_wf_def List.insert_def)
  then show ?thesis using assms(1) Some by (simp add: maps_wf_def track_peer_session_def)
qed (use assms in \<open>auto simp: maps_wf_def track_peer_session_def entry_wf_def List.insert_def MAX_SESSIONS_PER_PEER_def\<close>)

lemma full_index_track [simp]: "q \<noteq> p \<Longrightarrow> full_index (track_peer_session p t br) q = full_index br q"
  by (simp add: full_index_def track_peer_session_def Let_def)

lemma full_index_put [simp]: "full_index (put_session t s br) = full_index br"
  by (simp add: full_index_def fun_eq_iff)

lemma inv_claim_session:
  assumes inv: "broker_inv br" and wf: "session_wf t s"
    and claim: "claim_session t s auth br = (True, br')"
  shows "broker_inv br'"
proof -
  let ?put = "put_session t s br"
  have free: "map_of (sessions br) t = None"
    and room: "\<not> full_index br (initiator_peer_id s)" "\<not> full_index br (target_peer_id s)"
    and br': "br' = track_peer_session (target_peer_id s) t (track_peer_session (initiator_peer_id s) t ?put)"
    using claim by (auto simp: claim_session_def split: if_splits option.splits)
  have "maps_wf ?put" by (rule maps_wf_put[OF broker_invD(1)[OF inv] wf])
  then have "maps_wf br'"
    using room wf unfolding br' by (intro maps_wf_track) (auto simp: session_wf_def)
  moreover have "index_exact {} br'"
    using broker_invD(2)[OF inv] free
    by (auto simp: br' index_exact_def broker_index.held_track participant_def)
  moreover have "offload_backed br'"
    unfolding br' by (rule offload_backed_transfer[OF broker_invD(3)[OF inv]]) (use free in auto)
  ultimately show ?thesis by (simp add: broker_inv_but_def)
qed

section \<open>Lost links\<close>

lemma clear_link_idem [simp]: "clear_link (clear_link s) = clear_link s"
  by (simp add: clear_link_def)

lemma clear_link_down [simp]: "\<not> links_up (clear_link s)" "\<not> initiator_link_up (clear_link s)" "\<not> target_link_up (clear_link s)"
  by (simp_all add: clear_link_def links_up_def)

lemma session_wf_clear_link: "session_wf t s \<Longrightarrow> session_wf t (clear_link s)"
  by (simp add: session_wf_def clear_link_def links_up_def)

lemma clear_links_frame [simp]:
  "peer_sessions (clear_links pair ts br) = peer_sessions br"
  "offloaded_pairs (clear_links pair ts br) = offloaded_pairs br"
  by (induction ts arbitrary: br) (simp_all split: option.splits)

lemma indexed_clear_links [simp]: "indexed (clear_links pair ts br) = indexed br"
  by (simp add: indexed_def fun_eq_iff)

lemma clear_links_sessions:
  "map_of (sessions (clear_links pair ts br)) t =
     map_option (\<lambda>s. if t \<in> set ts \<and> session_pair s = pair then clear_link s else s) (map_of (sessions br) t)"
proof (induction ts arbitrary: br t)
  case (Cons u ts)
  show ?case
  proof (cases "map_of (sessions br) u")
    case None
    then show ?thesis by (cases "map_of (sessions br) t") (auto simp: Cons)
  next
    case (Some r)
    then show ?thesis
      by (cases "session_pair r = pair"; cases "t = u"; cases "map_of (sessions br) t") (auto simp: Cons)
  qed
qed (simp add: option.map_ident)

lemma maps_wf_clear_links: "maps_wf br \<Longrightarrow> maps_wf (clear_links pair ts br)"
proof (induction ts arbitrary: br)
  case (Cons u ts)
  have "maps_wf (put_session u (clear_link s) br)" if "map_of (sessions br) u = Some s" for s
    using Cons.prems that by (intro maps_wf_put session_wf_clear_link) (simp_all add: maps_wf_def)
  then show ?case using Cons by (simp split: option.split)
qed simp

lemma ex_map_option: "(\<exists>y. map_option f x = Some y \<and> P y) \<longleftrightarrow> (\<exists>z. x = Some z \<and> P (f z))"
  by (cases x) auto

lemma participant_clear [simp]: "participant (clear_link s) = participant s"
  by (simp add: participant_def clear_link_def fun_eq_iff)

text \<open>All tokens of a pair are found in the index of either participant, so no session of the pair keeps its link.\<close>

lemma clear_links_all:
  assumes inv: "broker_inv br" and s: "map_of (sessions br) t = Some s" "participant s p"
  defines "ts \<equiv> List.insert t (case map_of (peer_sessions br) p of Some ts \<Rightarrow> ts | None \<Rightarrow> [])"
  shows "map_of (sessions (clear_links (session_pair s) ts br)) u =
           map_option (\<lambda>r. if session_pair r = session_pair s then clear_link r else r) (map_of (sessions br) u)"
proof -
  have "u \<in> set ts" if r: "map_of (sessions br) u = Some r" "session_pair r = session_pair s" for r
  proof -
    have "participant r p" using s(2) same_pair_participant[OF r(2)] by simp
    then have "indexed br p u" using broker_invD(2)[OF inv] r(1) by (auto simp: index_exact_def)
    then show ?thesis by (auto simp: indexed_def ts_def)
  qed
  then show ?thesis by (cases "map_of (sessions br) u") (auto simp: clear_links_sessions)
qed

lemma handle_link_lost_cases:
  assumes "handle_link_lost sender m br = (out, br')"
  obtains (ignored) "out = []" "br' = br"
  | (cleared) s where "map_of (sessions br) (psm_session_token m) = Some s" "authorizes s sender (psm_other_player_id m)"
      "out = send_sub (psm_other_player_id m) P2P_SUB_LINK_LOST (psm_session_token m) sender"
      "br' = (clear_links (session_pair s)
         (List.insert (psm_session_token m) (case map_of (peer_sessions br) sender of Some ts \<Rightarrow> ts | None \<Rightarrow> [])) br)
         \<lparr>offloaded_pairs := offloaded_pairs br - {session_pair s}\<rparr>"
  using assms by (auto simp: handle_link_lost_def Let_def split: option.splits if_splits)

lemma inv_link_lost:
  assumes inv: "broker_inv br" and run: "handle_link_lost sender m br = (out, br')"
  shows "broker_inv br'"
  using run
proof (cases rule: handle_link_lost_cases)
  case (cleared s)
  let ?ts = "List.insert (psm_session_token m) (case map_of (peer_sessions br) sender of Some ts \<Rightarrow> ts | None \<Rightarrow> [])"
  have part: "participant s sender" using cleared(2) authorizes_participant by blast
  note look = clear_links_all[OF inv cleared(1) part]
  have "maps_wf br'"
    using maps_wf_clear_links[OF broker_invD(1)[OF inv], of "session_pair s" ?ts] by (simp add: cleared(4) maps_wf_def)
  moreover have "index_exact {} br'"
    using broker_invD(2)[OF inv]
    by (simp add: index_exact_def cleared(4) look ex_map_option if_distrib[of participant] del: map_option_eq_Some)
  moreover have "offload_backed br'"
    by (rule offload_backed_transfer[OF broker_invD(3)[OF inv]]) (auto simp: cleared(4) look)
  ultimately show ?thesis by (simp add: broker_inv_but_def)
qed (simp add: inv)

section \<open>The other signals\<close>

lemma session_wf_new:
  assumes "t \<noteq> []" "length t \<le> MAX_SESSION_TOKEN_LEN" "a \<noteq> b"
  shows "session_wf t (new_session a b now)"
  using assms by (simp add: session_wf_def new_session_def links_up_def INTRODUCTION_BURST_def)

lemma inv_request:
  assumes "broker_inv br" "handle_request sender m auth now br = (out, br')"
  shows "broker_inv br'"
proof (cases "br' = br")
  case False
  let ?t = "psm_session_token m" and ?b = "psm_other_player_id m"
  have "?t \<noteq> []" "length ?t \<le> MAX_SESSION_TOKEN_LEN" "sender \<noteq> ?b"
    and "claim_session ?t (new_session sender ?b now) auth br = (True, br')"
    using assms(2) False
    by (auto simp: handle_request_def Let_def claim_session_def split: if_splits prod.splits bool.splits option.splits)
  then show ?thesis using inv_claim_session[OF assms(1)] session_wf_new by blast
qed (simp add: assms(1))

lemma handle_accept_cases:
  assumes "handle_accept sender m br = (out, br')"
  obtains (ignored) "out = []" "br' = br"
  | (accepted) s where "map_of (sessions br) (psm_session_token m) = Some s"
      "target_peer_id s = sender" "initiator_peer_id s = psm_other_player_id m"
      "out = send_sub_with_key (initiator_peer_id s) P2P_SUB_ACCEPT (psm_session_token m) sender (psm_ephemeral_public_key m)"
      "br' = put_session (psm_session_token m) (s\<lparr>session_state := ReadyForPunch\<rparr>) br"
  using assms by (auto simp: handle_accept_def Let_def split: option.splits if_splits)

lemma inv_accept:
  assumes inv: "broker_inv br" and run: "handle_accept sender m br = (out, br')"
  shows "broker_inv br'"
  using run
proof (cases rule: handle_accept_cases)
  case (accepted s)
  have "session_wf (psm_session_token m) (s\<lparr>session_state := ReadyForPunch\<rparr>)"
    using session_wfD[OF inv accepted(1)] by (simp add: session_wf_def links_up_def session_ready_def)
  then show ?thesis
    unfolding accepted(5) by (intro inv_put_session[OF inv accepted(1)]) (simp_all add: links_up_def)
qed (simp add: inv)

lemma forward_and_drop_cases:
  assumes "forward_and_drop sender m sub True br = (out, br')"
  obtains (ignored) "out = []" "br' = br"
  | (dropped) s where "map_of (sessions br) (psm_session_token m) = Some s" "authorizes s sender (psm_other_player_id m)"
      "out = send_sub (if sender = initiator_peer_id s then target_peer_id s else initiator_peer_id s) sub
               (psm_session_token m) sender"
      "br' = drop_session (psm_session_token m) s br"
  using assms
  by (auto simp: forward_and_drop_def remove_session_if_authorized_def Let_def split: option.splits if_splits)

lemma inv_forward_and_drop:
  assumes inv: "broker_inv br" and run: "forward_and_drop sender m sub True br = (out, br')"
  shows "broker_inv br'"
  using run
proof (cases rule: forward_and_drop_cases)
  case (dropped s)
  then show ?thesis using inv_drop_session[OF inv dropped(1)] by simp
qed (simp add: inv)

definition report_link :: "PeerId \<Rightarrow> P2pSession \<Rightarrow> P2pSession" where
  "report_link sender s =
     (if sender = initiator_peer_id s then s\<lparr>initiator_link_up := True\<rparr> else s\<lparr>target_link_up := True\<rparr>)"

lemma report_link_simps [simp]:
  "session_pair (report_link p s) = session_pair s" "offload_lease_deadline (report_link p s) = offload_lease_deadline s"
  "initiator_peer_id (report_link p s) = initiator_peer_id s" "target_peer_id (report_link p s) = target_peer_id s"
  by (simp_all add: report_link_def)

lemma report_link_mono: "links_up s \<Longrightarrow> links_up (report_link p s)"
  by (simp add: report_link_def links_up_def)

lemma handle_link_up_eq:
  assumes "map_of (sessions br) (psm_session_token m) = Some s" "participant s sender"
  shows "handle_link_up sender m now br =
    (if links_up (report_link sender s) then
       (if session_pair s \<in> offloaded_pairs br then []
        else send_sub (initiator_peer_id s) P2P_SUB_OFFLOADED (psm_session_token m) (target_peer_id s) @
             send_sub (target_peer_id s) P2P_SUB_OFFLOADED (psm_session_token m) (initiator_peer_id s),
        (put_session (psm_session_token m) ((report_link sender s)\<lparr>offload_lease_deadline :=
           Some (case offload_lease_deadline s of Some d \<Rightarrow> d | None \<Rightarrow> now + OFFLOAD_LEASE)\<rparr>) br)
          \<lparr>offloaded_pairs := insert (session_pair s) (offloaded_pairs br)\<rparr>)
     else ([], put_session (psm_session_token m) (report_link sender s) br))"
  using assms unfolding handle_link_up_def Let_def report_link_def[symmetric]
  by (cases "sender = initiator_peer_id s") (simp_all add: links_up_def participant_def)

lemma handle_link_up_ignored:
  assumes "\<And>s. map_of (sessions br) (psm_session_token m) = Some s \<Longrightarrow> \<not> participant s sender"
  shows "handle_link_up sender m now br = ([], br)"
  using assms by (auto simp: handle_link_up_def participant_def Let_def split: option.splits)

lemma handle_link_up_cases:
  assumes "handle_link_up sender m now br = (out, br')"
  obtains (ignored) "out = []" "br' = br"
  | (half) s where "map_of (sessions br) (psm_session_token m) = Some s" "participant s sender"
      "\<not> links_up (report_link sender s)" "out = []" "br' = put_session (psm_session_token m) (report_link sender s) br"
  | (up) s d where "map_of (sessions br) (psm_session_token m) = Some s" "participant s sender"
      "d = (case offload_lease_deadline s of Some d \<Rightarrow> d | None \<Rightarrow> now + OFFLOAD_LEASE)"
      "links_up (report_link sender s)" "out = (if session_pair s \<in> offloaded_pairs br then []
              else send_sub (initiator_peer_id s) P2P_SUB_OFFLOADED (psm_session_token m) (target_peer_id s) @
                   send_sub (target_peer_id s) P2P_SUB_OFFLOADED (psm_session_token m) (initiator_peer_id s))"
      "br' = (put_session (psm_session_token m) ((report_link sender s)\<lparr>offload_lease_deadline := Some d\<rparr>) br)
               \<lparr>offloaded_pairs := insert (session_pair s) (offloaded_pairs br)\<rparr>"
proof (cases "\<exists>s. map_of (sessions br) (psm_session_token m) = Some s \<and> participant s sender")
  case True
  then obtain s where s: "map_of (sessions br) (psm_session_token m) = Some s" "participant s sender" by blast
  show ?thesis
  proof (cases "links_up (report_link sender s)")
    case True
    then show ?thesis using assms handle_link_up_eq[OF s] by (intro up[OF s refl True]) simp_all
  next
    case False
    then show ?thesis using assms handle_link_up_eq[OF s] by (intro half[OF s False]) simp_all
  qed
next
  case False
  then show ?thesis using assms handle_link_up_ignored[of br m sender now] by (intro ignored) auto
qed

lemma session_wf_report:
  assumes "session_wf t s"
  shows "\<not> links_up (report_link p s) \<Longrightarrow> session_wf t (report_link p s)"
    and "links_up (report_link p s) \<Longrightarrow> session_wf t ((report_link p s)\<lparr>offload_lease_deadline := Some d\<rparr>)"
  using assms report_link_mono[of s p]
  by (auto simp: session_wf_def report_link_def links_up_def session_ready_def split: if_splits)

lemma offload_backed_insert:
  assumes "offload_backed br" "map_of (sessions br) t = Some s" "links_up s"
  shows "offload_backed (br\<lparr>offloaded_pairs := insert (session_pair s) (offloaded_pairs br)\<rparr>)"
  using assms by (auto simp: offload_backed_def)

lemma inv_insert_offloaded:
  assumes "broker_inv_but X br" "map_of (sessions br) t = Some s" "links_up s"
  shows "broker_inv_but X (br\<lparr>offloaded_pairs := insert (session_pair s) (offloaded_pairs br)\<rparr>)"
  using assms offload_backed_insert[OF _ assms(2,3)] by (simp add: broker_inv_but_def maps_wf_def index_exact_def)

lemma inv_link_up:
  assumes inv: "broker_inv br" and run: "handle_link_up sender m now br = (out, br')"
  shows "broker_inv br'"
  using run
proof (cases rule: handle_link_up_cases)
  case (half s)
  then show ?thesis
    using session_wf_report(1)[OF session_wfD[OF inv half(1)]] report_link_mono
    by (auto intro!: inv_put_session[OF inv half(1)])
next
  case (up s d)
  let ?s = "(report_link sender s)\<lparr>offload_lease_deadline := Some d\<rparr>"
  have "broker_inv (put_session (psm_session_token m) ?s br)"
    using up(4) session_wf_report(2)[OF session_wfD[OF inv up(1)]]
    by (intro inv_put_session[OF inv up(1)]) (auto simp: links_up_def)
  then show ?thesis
    using inv_insert_offloaded[of "{}" "put_session (psm_session_token m) ?s br" "psm_session_token m" ?s] up(4)
    by (simp add: up(6) links_up_def)
qed (simp add: inv)

end

