(* ===== verification/BrokerSteps.thy ===== *)
theory BrokerSteps
  imports BrokerProofs
begin

text \<open>
  The remaining operations of the broker (introductions, departures, maintenance) keep its invariant; the
  broker as a machine driven by events, and what holds of it after any sequence of events.
\<close>

section \<open>Introductions\<close>

lemma note_endpoint_wf:
  assumes "session_wf t s" "session_ready s" "note_endpoint l r s = Some s'"
  shows "session_wf t s'" "session_pair s' = session_pair s" "links_up s' = links_up s"
    "introduction_sends_in_window s' = introduction_sends_in_window s"
    "introduction_window_started s' = introduction_window_started s" "session_ready s'"
  using assms
  by (auto simp: note_endpoint_def session_wf_def links_up_def session_ready_def session_pair_def split: if_splits)

lemma roll_window_frame [simp]:
  "session_pair (roll_window now s) = session_pair s" "links_up (roll_window now s) = links_up s"
  "endpoint_a_internal (roll_window now s) = endpoint_a_internal s"
  "endpoint_a_external (roll_window now s) = endpoint_a_external s"
  "endpoint_b_internal (roll_window now s) = endpoint_b_internal s"
  "endpoint_b_external (roll_window now s) = endpoint_b_external s"
  "offload_lease_deadline (roll_window now s) = offload_lease_deadline s"
  "initiator_peer_id (roll_window now s) = initiator_peer_id s"
  "target_peer_id (roll_window now s) = target_peer_id s"
  "initiator_link_up (roll_window now s) = initiator_link_up s"
  "target_link_up (roll_window now s) = target_link_up s"
  "session_ready (roll_window now s) = session_ready s"
  by (simp_all add: roll_window_def session_pair_def links_up_def session_ready_def)

lemma roll_window_wf: "session_wf t s \<Longrightarrow> session_wf t (roll_window now s)"
  by (simp add: session_wf_def) (simp add: roll_window_def INTRODUCTION_BURST_def)

lemma punched_wf:
  assumes "session_wf t s" "introduction_sends_in_window s < INTRODUCTION_BURST"
  shows "session_wf t (s\<lparr>introduction_sends_in_window := introduction_sends_in_window s + 1, session_state := Punched\<rparr>)"
  using assms inc_le[OF assms(2)] by (simp add: session_wf_def links_up_def session_ready_def)

text \<open>What a request does to the session it names.\<close>

definition noted :: "(PeerId \<Rightarrow> SocketAddr option) \<Rightarrow> SocketAddr \<Rightarrow> SocketAddr \<Rightarrow> P2pSession \<Rightarrow> P2pSession option" where
  "noted pa l r s =
     (if session_ready s \<and> is_participant_endpoint pa r s then note_endpoint l r s else None)"

lemma nat_request_cases:
  assumes "handle_nat_introduction_request pa ok l r t now br = (out, br')"
  obtains (ignored) "out = []" "br' = br"
  | (partial) s s' where "map_of (sessions br) t = Some s" "noted pa l r s = Some s'"
      "out = []" "br' = put_session t s' br"
  | (limited) s s' where "map_of (sessions br) t = Some s" "noted pa l r s = Some s'"
      "introduction_sends_in_window (roll_window now s') \<ge> INTRODUCTION_BURST"
      "out = []" "br' = put_session t (roll_window now s') br"
  | (introduced) s s' ai ae bi be where "map_of (sessions br) t = Some s" "noted pa l r s = Some s'"
      "endpoint_a_internal s' = Some ai" "endpoint_a_external s' = Some ae"
      "endpoint_b_internal s' = Some bi" "endpoint_b_external s' = Some be"
      "introduction_sends_in_window (roll_window now s') < INTRODUCTION_BURST"
      "out = introduce ok ai ae bi be t"
      "br' = put_session t ((roll_window now s')\<lparr>introduction_sends_in_window :=
               introduction_sends_in_window (roll_window now s') + 1, session_state := Punched\<rparr>) br"
proof (cases "\<exists>s s'. t \<noteq> [] \<and> map_of (sessions br) t = Some s \<and> noted pa l r s = Some s'")
  case False
  then have "handle_nat_introduction_request pa ok l r t now br = ([], br)"
    by (auto simp: handle_nat_introduction_request_def noted_def split: option.splits)
  then show ?thesis using assms ignored by simp
next
  case True
  then obtain s s' where t: "t \<noteq> []" and s: "map_of (sessions br) t = Some s" and s': "noted pa l r s = Some s'" by blast
  have ready: "session_ready s" "is_participant_endpoint pa r s" "note_endpoint l r s = Some s'"
    using s' by (auto simp: noted_def split: if_splits)
  consider (none) "endpoint_a_internal s' = None \<or> endpoint_a_external s' = None \<or>
      endpoint_b_internal s' = None \<or> endpoint_b_external s' = None"
    | (all) ai ae bi be where "endpoint_a_internal s' = Some ai" "endpoint_a_external s' = Some ae"
      "endpoint_b_internal s' = Some bi" "endpoint_b_external s' = Some be"
    by (metis option.exhaust)
  then show ?thesis
  proof cases
    case none
    then have "handle_nat_introduction_request pa ok l r t now br = ([], put_session t s' br)"
      using t s ready by (auto simp: handle_nat_introduction_request_def split: option.splits)
    then show ?thesis using assms partial[OF s s'] by simp
  next
    case all
    show ?thesis
    proof (cases "introduction_sends_in_window (roll_window now s') \<ge> INTRODUCTION_BURST")
      case True
      then show ?thesis using assms t s ready all
        by (intro limited[OF s s' True]) (simp_all add: handle_nat_introduction_request_def)
    next
      case False
      then have "introduction_sends_in_window (roll_window now s') < INTRODUCTION_BURST" by simp
      then show ?thesis using assms t s ready all False
        by (intro introduced[OF s s' all]) (simp_all add: handle_nat_introduction_request_def Let_def)
    qed
  qed
qed

lemma notedD:
  assumes "noted pa l r s = Some s'"
  shows "session_ready s" "is_participant_endpoint pa r s" "note_endpoint l r s = Some s'"
  using assms by (auto simp: noted_def split: if_splits)

lemma inv_nat_request:
  assumes inv: "broker_inv br" and run: "handle_nat_introduction_request pa ok l r t now br = (out, br')"
  shows "broker_inv br'"
proof -
  have step: "broker_inv (put_session t u br)"
    if "map_of (sessions br) t = Some s" "noted pa l r s = Some s'" "session_wf t s' \<Longrightarrow> session_wf t u"
      "session_pair u = session_pair s'" "links_up u = links_up s'" for s s' u
    using that note_endpoint_wf[OF session_wfD[OF inv that(1)] notedD(1,3)[OF that(2)]]
    by (intro inv_put_session[OF inv that(1)]) simp_all
  from run show ?thesis
  proof (cases rule: nat_request_cases)
    case (introduced s s' ai ae bi be)
    then show ?thesis
      using punched_wf roll_window_wf
      by (auto intro!: step[OF introduced(1,2)] simp: links_up_def)
  qed (use inv roll_window_wf in \<open>auto intro!: step\<close>)
qed

section \<open>Departures\<close>

lemma inv_drop_tokens:
  assumes "broker_inv_but X br" "drop_peer_tokens p ts br = (ns, br')"
  shows "broker_inv_but X br'"
  using assms
proof (induction ts arbitrary: br ns br')
  case (Cons t ts)
  show ?case
  proof (cases "map_of (sessions br) t")
    case (Some s)
    then show ?thesis using Cons.prems Cons.IH[OF inv_drop_session[OF Cons.prems(1) Some]]
      by (auto simp: Let_def split: prod.splits)
  qed (use Cons in auto)
qed simp

lemma drop_peer_tokens_sessions:
  assumes "drop_peer_tokens p ts br = (ns, br')"
  shows "map_of (sessions br') t = (if t \<in> set ts then None else map_of (sessions br) t)"
  using assms
proof (induction ts arbitrary: br ns)
  case (Cons u ts)
  show ?case
  proof (cases "map_of (sessions br) u")
    case None
    then show ?thesis using Cons by auto
  next
    case (Some s)
    then obtain rest where "drop_peer_tokens p ts (drop_session u s br) = (rest, br')"
      using Cons.prems by (auto simp: Let_def split: prod.splits)
    then show ?thesis using Cons.IH by auto
  qed
qed simp

lemma drop_peer_tokens_notices:
  assumes "drop_peer_tokens p ts br = (ns, br')" "distinct ts"
  shows "ns = map (\<lambda>t. case map_of (sessions br) t of Some s \<Rightarrow>
                 (if initiator_peer_id s = p then target_peer_id s else initiator_peer_id s, t))
           (filter (\<lambda>t. map_of (sessions br) t \<noteq> None) ts)"
  using assms
proof (induction ts arbitrary: br ns)
  case (Cons u ts)
  show ?case
  proof (cases "map_of (sessions br) u")
    case (Some s)
    then obtain rest where rest: "drop_peer_tokens p ts (drop_session u s br) = (rest, br')"
      and ns: "ns = (if initiator_peer_id s = p then target_peer_id s else initiator_peer_id s, u) # rest"
      using Cons.prems by (auto simp: Let_def split: prod.splits)
    have same: "map_of (sessions (drop_session u s br)) t = map_of (sessions br) t" if "t \<in> set ts" for t
      using that Cons.prems(2) by auto
    have "rest = map (\<lambda>t. case map_of (sessions br) t of Some s \<Rightarrow>
                 (if initiator_peer_id s = p then target_peer_id s else initiator_peer_id s, t))
           (filter (\<lambda>t. map_of (sessions br) t \<noteq> None) ts)"
      using Cons.IH[OF rest] Cons.prems(2) same by (auto cong: filter_cong)
    then show ?thesis using Some ns by simp
  qed (use Cons in auto)
qed simp

lemma remove_peer_cases:
  assumes "remove_peer p br = (out, br')"
  obtains (absent) "map_of (peer_sessions br) p = None" "out = []" "br' = br"
  | (gone) ts ns where "map_of (peer_sessions br) p = Some ts"
      "drop_peer_tokens p ts (br\<lparr>peer_sessions := remove_key p (peer_sessions br)\<rparr>) = (ns, br')"
      "out = concat (map (\<lambda>(other, t). send_sub other P2P_SUB_CANCEL t p) ns)"
  using assms by (auto simp: remove_peer_def split: option.splits prod.splits)

lemma inv_forget_entry:
  assumes "broker_inv br"
  shows "broker_inv_but {p} (br\<lparr>peer_sessions := remove_key p (peer_sessions br)\<rparr>)"
  using assms
  by (auto simp: broker_inv_but_def maps_wf_def index_exact_def offload_backed_def indexed_def simp del: map_of_eq_Some_iff)

lemma index_exact_drop_exception:
  assumes "index_exact {p} br" "\<And>t s. map_of (sessions br) t = Some s \<Longrightarrow> \<not> participant s p"
  shows "index_exact {} br"
  using assms by (auto simp: index_exact_def)

lemma remove_peer_effect:
  assumes inv: "broker_inv br" and run: "remove_peer p br = (out, br')"
  shows "broker_inv br'"
    and "map_of (sessions br') t = Some s \<longleftrightarrow> map_of (sessions br) t = Some s \<and> \<not> participant s p"
proof -
  have member: "indexed br p t \<longleftrightarrow> (\<exists>s. map_of (sessions br) t = Some s \<and> participant s p)" for t
    using broker_invD(2)[OF inv] by (simp add: index_exact_def)
  have "broker_inv br' \<and> (\<forall>t s. map_of (sessions br') t = Some s \<longleftrightarrow> map_of (sessions br) t = Some s \<and> \<not> participant s p)"
    using run
  proof (cases rule: remove_peer_cases)
    case absent
    then have "\<not> indexed br p t" for t by (simp add: indexed_def)
    then show ?thesis using inv member absent(3) by blast
  next
    case (gone ts ns)
    have inv': "broker_inv_but {p} br'" by (rule inv_drop_tokens[OF inv_forget_entry[OF inv] gone(2)])
    have look: "map_of (sessions br') t = (if t \<in> set ts then None else map_of (sessions br) t)" for t
      using drop_peer_tokens_sessions[OF gone(2)] by simp
    have "t \<in> set ts \<longleftrightarrow> (\<exists>s. map_of (sessions br) t = Some s \<and> participant s p)" for t
      using member[of t] gone(1) by (simp add: indexed_def)
    then have eq: "map_of (sessions br') t = Some s \<longleftrightarrow> map_of (sessions br) t = Some s \<and> \<not> participant s p" for t s
      using look[of t] by (auto simp del: map_of_eq_Some_iff)
    then have "index_exact {} br'"
      using index_exact_drop_exception[OF broker_invD(2)[OF inv']] by blast
    then show ?thesis using eq inv' by (simp add: broker_inv_but_def)
  qed
  then show "broker_inv br'"
    and "map_of (sessions br') t = Some s \<longleftrightarrow> map_of (sessions br) t = Some s \<and> \<not> participant s p" by auto
qed

section \<open>Maintenance\<close>

definition session_ends :: "(PeerId \<Rightarrow> SocketAddr option) \<Rightarrow> nat \<Rightarrow> P2pSession \<Rightarrow> bool" where
  "session_ends pa now s \<longleftrightarrow>
     pa (initiator_peer_id s) = None \<or> pa (target_peer_id s) = None \<or> lease_expired now s"

lemma maintain_pass_ends:
  assumes "session_ends pa now s" "map_of (sessions br) t = Some s"
    and "maintain_pass pa now ((t, s) # cs) active br = (ns, active', br')"
  obtains rest where "maintain_pass pa now cs active (drop_session t s br) = (rest, active', br')"
    "ns = (if pa (initiator_peer_id s) = None \<or> pa (target_peer_id s) = None then disconnect_notice pa t s
           else expiry_notices t s) @ rest"
  using assms by (auto simp: session_ends_def simp del: map_of_eq_Some_iff split: prod.splits if_splits)

lemma maintain_pass_stays:
  assumes "\<not> session_ends pa now s"
  shows "maintain_pass pa now ((t, s) # cs) active br =
    maintain_pass pa now cs (if links_up s then insert (session_pair s) active else active) br"
  using assms by (auto simp: session_ends_def links_up_def)

definition surviving :: "(PeerId \<Rightarrow> SocketAddr option) \<Rightarrow> nat \<Rightarrow> (token \<times> P2pSession) list \<Rightarrow> u64 set" where
  "surviving pa now cs = {session_pair s | t s. (t, s) \<in> set cs \<and> \<not> session_ends pa now s \<and> links_up s}"

lemma surviving_Cons:
  "surviving pa now ((t, s) # cs) =
     (if \<not> session_ends pa now s \<and> links_up s then insert (session_pair s) (surviving pa now cs) else surviving pa now cs)"
  by (auto simp: surviving_def)

lemma maintain_pass_effect:
  assumes "broker_inv br" "distinct (map fst cs)" "\<And>t s. (t, s) \<in> set cs \<Longrightarrow> map_of (sessions br) t = Some s"
    and "maintain_pass pa now cs active br = (ns, active', br')"
  shows "broker_inv br' \<and> active' = active \<union> surviving pa now cs \<and>
     (\<forall>t. map_of (sessions br') t = (case map_of cs t of Some s \<Rightarrow> if session_ends pa now s then None else Some s
                                     | None \<Rightarrow> map_of (sessions br) t))"
  using assms
proof (induction cs arbitrary: active br ns)
  case Nil
  then show ?case by (simp add: surviving_def)
next
  case (Cons c cs)
  obtain t s where c: "c = (t, s)" by (cases c)
  have s: "map_of (sessions br) t = Some s" and dist: "distinct (map fst cs)" and fresh: "t \<notin> fst ` set cs"
    using Cons.prems(2,3) by (simp_all add: c)
  have later: "map_of (sessions br) u = Some r" "u \<noteq> t" if "(u, r) \<in> set cs" for u r
    using that Cons.prems(3) fresh by force+
  have absent: "map_of cs t = None" using fresh by (simp add: map_of_eq_None_iff)
  show ?case
  proof (cases "session_ends pa now s")
    case True
    obtain rest where run: "maintain_pass pa now cs active (drop_session t s br) = (rest, active', br')"
      using maintain_pass_ends[OF True s] Cons.prems(4) unfolding c by blast
    have "\<And>u r. (u, r) \<in> set cs \<Longrightarrow> map_of (sessions (drop_session t s br)) u = Some r"
      using later by simp
    from Cons.IH[OF inv_drop_session[OF Cons.prems(1) s] dist this run] show ?thesis
      using True absent by (simp add: c surviving_Cons split: option.split)
  next
    case False
    from Cons.IH[OF Cons.prems(1) dist later(1) Cons.prems(4)[unfolded c maintain_pass_stays[OF False]]] show ?thesis
      using False absent s by (cases "links_up s") (simp_all add: c surviving_Cons split: option.split)
  qed
qed

lemma maintain_lifecycle_effect:
  assumes inv: "broker_inv br" and run: "maintain_lifecycle pa now br = (out, br')"
  shows "broker_inv br'"
    and "map_of (sessions br') t = Some s \<longleftrightarrow> map_of (sessions br) t = Some s \<and> \<not> session_ends pa now s"
    and "offloaded_pairs br' = surviving pa now (sessions br)"
proof -
  obtain ns active mid where pass: "maintain_pass pa now (sessions br) {} br = (ns, active, mid)"
    by (metis prod_cases3)
  have br': "br' = mid\<lparr>offloaded_pairs := active\<rparr>"
    using run pass by (auto simp: maintain_lifecycle_def Let_def intro!: arg_cong[of _ active "\<lambda>a. mid\<lparr>offloaded_pairs := a\<rparr>"])
  have dist: "distinct (map fst (sessions br))" using broker_invD(1)[OF inv] by (simp add: maps_wf_def)
  have eff: "broker_inv mid" "active = surviving pa now (sessions br)"
    and look: "\<And>t. map_of (sessions mid) t = (case map_of (sessions br) t of
         Some s \<Rightarrow> if session_ends pa now s then None else Some s | None \<Rightarrow> None)"
    using maintain_pass_effect[OF inv dist _ pass] dist by (auto split: option.splits simp del: map_of_eq_Some_iff
      intro: map_of_is_SomeI)
  show offl: "offloaded_pairs br' = surviving pa now (sessions br)" using br' eff by simp
  show look': "map_of (sessions br') t = Some s \<longleftrightarrow> map_of (sessions br) t = Some s \<and> \<not> session_ends pa now s" for t s
    using look[of t] br' by (auto split: option.splits if_splits)
  have "offload_backed br'"
    unfolding offload_backed_def offl surviving_def using look' dist by auto
  then show "broker_inv br'" using eff(1) by (simp add: br' broker_inv_but_def maps_wf_def index_exact_def)
qed

end
