(* ===== verification/BrokerProperties.thy ===== *)
theory BrokerProperties
  imports BrokerSteps
begin

text \<open>
  The broker driven by events, and its properties: the participant index is exact, relaying stops only for pairs
  whose two members reported a direct link, a signal changes nothing of sessions its sender is not part of, lost
  links and departures leave no trace, maintenance restores the exact set of offloaded pairs, and introductions are
  limited and go to the participants' own endpoints.
\<close>

section \<open>Events\<close>

datatype p2p_event =
    PSignal PeerId bytes bool "PeerId \<Rightarrow> bool" nat
  | PNatRequest "PeerId \<Rightarrow> SocketAddr option" "SocketAddr \<Rightarrow> bool" SocketAddr SocketAddr token nat
  | PGone PeerId
  | PMaintain "PeerId \<Rightarrow> SocketAddr option" nat

primrec broker_step :: "p2p_event \<Rightarrow> P2pBroker \<Rightarrow> p2p_out list \<times> P2pBroker" where
  "broker_step (PSignal sender payload allowed auth now) br = handle_signal sender payload allowed auth now br"
| "broker_step (PNatRequest pa ok l r t now) br = handle_nat_introduction_request pa ok l r t now br"
| "broker_step (PGone p) br = remove_peer p br"
| "broker_step (PMaintain pa now) br = maintain_lifecycle pa now br"

inductive broker_reach :: "p2p_event list \<Rightarrow> P2pBroker \<Rightarrow> bool" where
  start: "broker_reach [] broker_default"
| event: "broker_reach es br \<Longrightarrow> broker_step e br = (out, br') \<Longrightarrow> broker_reach (es @ [e]) br'"

text \<open>The signal a payload carries, if it can be read.\<close>

definition read_signal :: "bytes \<Rightarrow> (u8 \<times> BasisP2PSignalMessage) option" where
  "read_signal payload =
     (case payload of
        [] \<Rightarrow> None
      | sub # rest \<Rightarrow>
          (case fst (BasisP2PSignalMessage_deserialize (reader_new rest)) of Inl _ \<Rightarrow> None | Inr m \<Rightarrow> Some (sub, m)))"

lemma handle_signal_eq:
  "handle_signal sender payload allowed auth now br =
     (case read_signal payload of
        None \<Rightarrow> ([], br)
      | Some (sub, m) \<Rightarrow>
          if sub = P2P_SUB_REQUEST then
            (if \<not> allowed then (send_sub sender P2P_SUB_CANCEL (psm_session_token m) (psm_other_player_id m), br)
             else handle_request sender m auth now br)
          else if sub = P2P_SUB_ACCEPT then handle_accept sender m br
          else if sub = P2P_SUB_DECLINE then forward_and_drop sender m P2P_SUB_DECLINE True br
          else if sub = P2P_SUB_CANCEL then forward_and_drop sender m P2P_SUB_CANCEL True br
          else if sub = P2P_SUB_LINK_LOST then handle_link_lost sender m br
          else if sub = P2P_SUB_LINK_UP then handle_link_up sender m now br
          else ([], br))"
  unfolding handle_signal_def read_signal_def
  by (cases payload) (simp_all add: case_prod_unfold split: sum.split prod.split)

lemma handle_signal_cases:
  assumes "handle_signal sender payload allowed auth now br = (out, br')"
  obtains (unchanged) "br' = br"
  | (request) m where "read_signal payload = Some (P2P_SUB_REQUEST, m)" "handle_request sender m auth now br = (out, br')"
  | (accept) m where "read_signal payload = Some (P2P_SUB_ACCEPT, m)" "handle_accept sender m br = (out, br')"
  | (leave) m sub where "read_signal payload = Some (sub, m)" "sub = P2P_SUB_DECLINE \<or> sub = P2P_SUB_CANCEL"
      "forward_and_drop sender m sub True br = (out, br')"
  | (lost) m where "read_signal payload = Some (P2P_SUB_LINK_LOST, m)" "handle_link_lost sender m br = (out, br')"
  | (up) m where "read_signal payload = Some (P2P_SUB_LINK_UP, m)" "handle_link_up sender m now br = (out, br')"
  using assms unfolding handle_signal_eq by (auto split: option.splits prod.splits if_splits)

lemma inv_signal:
  assumes inv: "broker_inv br" and run: "handle_signal sender payload allowed auth now br = (out, br')"
  shows "broker_inv br'"
  using run
proof (cases rule: handle_signal_cases)
  case unchanged then show ?thesis by (simp add: inv)
next
  case (request m) then show ?thesis using inv_request[OF inv] by blast
next
  case (accept m) then show ?thesis using inv_accept[OF inv] by blast
next
  case (leave m sub) then show ?thesis using inv_forward_and_drop[OF inv] by blast
next
  case (lost m) then show ?thesis using inv_link_lost[OF inv] by blast
next
  case (up m) then show ?thesis using inv_link_up[OF inv] by blast
qed

lemma broker_inv_step:
  assumes "broker_inv br" "broker_step e br = (out, br')"
  shows "broker_inv br'"
  using assms(2)
  by (cases e) (auto dest: inv_signal[OF assms(1)] inv_nat_request[OF assms(1)]
      remove_peer_effect(1)[OF assms(1)] maintain_lifecycle_effect(1)[OF assms(1)])

lemma reach_inv: "broker_reach es br \<Longrightarrow> broker_inv br"
  by (induction rule: broker_reach.induct) (auto simp: broker_inv_default intro: broker_inv_step)

section \<open>Where link reports come from\<close>

text \<open>A LINK\_UP signal of a peer for a token.\<close>

definition reports :: "p2p_event \<Rightarrow> PeerId \<Rightarrow> token \<Rightarrow> bool" where
  "reports e p t \<longleftrightarrow>
     (case e of PSignal sender payload _ _ _ \<Rightarrow>
        sender = p \<and> (case read_signal payload of Some (sub, m) \<Rightarrow> sub = P2P_SUB_LINK_UP \<and> psm_session_token m = t | None \<Rightarrow> False)
      | _ \<Rightarrow> False)"

text \<open>A session after an event: either unlinked, or its links are those it had before and those the event reports.\<close>

definition links_from :: "p2p_event \<Rightarrow> token \<Rightarrow> P2pSession \<Rightarrow> P2pSession \<Rightarrow> bool" where
  "links_from e t s s' \<longleftrightarrow>
     initiator_peer_id s' = initiator_peer_id s \<and> target_peer_id s' = target_peer_id s \<and>
     (initiator_link_up s' \<longrightarrow> initiator_link_up s \<or> reports e (initiator_peer_id s) t) \<and>
     (target_link_up s' \<longrightarrow> target_link_up s \<or> reports e (target_peer_id s) t)"

lemma links_from_refl [simp]: "links_from e t s s"
  by (simp add: links_from_def)

definition origin :: "p2p_event \<Rightarrow> P2pBroker \<Rightarrow> P2pBroker \<Rightarrow> bool" where
  "origin e br br' \<longleftrightarrow>
     (\<forall>t s'. map_of (sessions br') t = Some s' \<longrightarrow>
        (\<not> initiator_link_up s' \<and> \<not> target_link_up s') \<or> (\<exists>s. map_of (sessions br) t = Some s \<and> links_from e t s s'))"

lemma origin_put:
  assumes "map_of (sessions br) t = Some s" "links_from e t s s'"
  shows "origin e br (put_session t s' br)"
  using assms by (auto simp: origin_def simp del: map_of_eq_Some_iff)

lemma origin_same: "sessions br' = sessions br \<Longrightarrow> origin e br br'"
  by (auto simp: origin_def)

lemma origin_sub:
  assumes "\<And>t s. map_of (sessions br') t = Some s \<Longrightarrow> map_of (sessions br) t = Some s"
  shows "origin e br br'"
  using assms links_from_refl unfolding origin_def by blast

lemma origin_offloaded [simp]: "origin e br (br'\<lparr>offloaded_pairs := ps\<rparr>) = origin e br br'"
  by (simp add: origin_def)

lemma origin_request:
  assumes "handle_request sender m auth now br = (out, br')"
  shows "origin e br br'"
  using assms links_from_refl
  by (auto simp: handle_request_def claim_session_def new_session_def origin_def Let_def
      simp del: map_of_eq_Some_iff split: if_splits prod.splits bool.splits option.splits)

lemma origin_link_up:
  assumes e: "\<And>p. p = sender \<Longrightarrow> reports e p (psm_session_token m)"
    and run: "handle_link_up sender m now br = (out, br')"
  shows "origin e br br'"
  using run
proof (cases rule: handle_link_up_cases)
  case (half s)
  then show ?thesis using e by (auto simp: links_from_def report_link_def participant_def intro!: origin_put[OF half(1)])
next
  case (up s d)
  then show ?thesis using e by (auto simp: links_from_def report_link_def participant_def intro!: origin_put[OF up(1)])
qed (auto intro: origin_same)

lemma origin_link_lost:
  assumes "handle_link_lost sender m br = (out, br')"
  shows "origin e br br'"
  using assms
proof (cases rule: handle_link_lost_cases)
  case (cleared s)
  show ?thesis
    unfolding cleared(4) origin_offloaded
    by (auto simp: origin_def clear_links_sessions simp del: map_of_eq_Some_iff split: if_splits)
qed (auto intro: origin_same)

lemma origin_nat_request:
  assumes "handle_nat_introduction_request pa ok l r t now br = (out, br')"
  shows "origin e br br'"
proof -
  have kept: "links_from e t s u" if "noted pa l r s = Some s'" "initiator_peer_id u = initiator_peer_id s'"
    "target_peer_id u = target_peer_id s'" "initiator_link_up u = initiator_link_up s'"
    "target_link_up u = target_link_up s'" for s s' u
    using that notedD(3)[OF that(1)] by (auto simp: note_endpoint_def links_from_def split: if_splits)
  from assms show ?thesis
    by (cases rule: nat_request_cases) (auto intro!: origin_put intro: origin_same kept)
qed

lemma origin_step:
  assumes inv: "broker_inv br" and run: "broker_step e br = (out, br')"
  shows "origin e br br'"
proof (cases e)
  case (PSignal sender payload allowed auth now)
  with run have "handle_signal sender payload allowed auth now br = (out, br')" by simp
  then show ?thesis
  proof (cases rule: handle_signal_cases)
    case unchanged then show ?thesis by (simp add: origin_same)
  next
    case (request m) then show ?thesis by (blast intro: origin_request)
  next
    case (accept m)
    from accept(2) show ?thesis
      by (cases rule: handle_accept_cases) (auto simp: links_from_def intro: origin_same origin_put)
  next
    case (leave m sub)
    from leave(3) show ?thesis
      by (cases rule: forward_and_drop_cases) (auto intro!: origin_sub split: if_splits)
  next
    case (lost m) then show ?thesis by (blast intro: origin_link_lost)
  next
    case (up m)
    then have "reports e p (psm_session_token m)" if "p = sender" for p
      using that PSignal by (simp add: reports_def)
    then show ?thesis using up(2) by (rule origin_link_up)
  qed
next
  case (PNatRequest pa ok l r t now)
  then show ?thesis using run origin_nat_request by simp
next
  case (PGone p)
  then show ?thesis using run remove_peer_effect(2)[OF inv] by (intro origin_sub) simp
next
  case (PMaintain pa now)
  then show ?thesis using run maintain_lifecycle_effect(2)[OF inv] by (intro origin_sub) simp
qed

definition reported :: "p2p_event list \<Rightarrow> PeerId \<Rightarrow> token \<Rightarrow> bool" where
  "reported es p t \<longleftrightarrow> list_ex (\<lambda>e. reports e p t) es"

lemma reach_reported:
  assumes "broker_reach es br" "map_of (sessions br) t = Some s"
  shows "(initiator_link_up s \<longrightarrow> reported es (initiator_peer_id s) t) \<and>
         (target_link_up s \<longrightarrow> reported es (target_peer_id s) t)"
  using assms
proof (induction arbitrary: s rule: broker_reach.induct)
  case start
  then show ?case by (simp add: broker_default_def)
next
  case (event es br e out br')
  have "origin e br br'" by (rule origin_step[OF reach_inv[OF event.hyps(1)] event.hyps(2)])
  with event.prems consider "\<not> initiator_link_up s" "\<not> target_link_up s"
    | r where "map_of (sessions br) t = Some r" "links_from e t r s"
    unfolding origin_def by blast
  then show ?case
    by cases (use event.IH in \<open>auto simp: links_from_def reported_def\<close>)
qed

section \<open>The index and the offloaded pairs\<close>

text \<open>
  C33. In every state the broker reaches, the participant index lists for each peer exactly the tokens of the live
  sessions it takes part in; no entry is empty, repeats a token or exceeds 4096 tokens; and every session is
  between two different peers, has a token of 1 to 64 bytes, holds a lease exactly while both link reports stand, and
  has sent at most four introductions in its window, so its byte counter cannot overflow.
\<close>

theorem broker_maps_agree:
  assumes "broker_reach es br"
  shows "(indexed br p t \<longleftrightarrow> (\<exists>s. map_of (sessions br) t = Some s \<and> participant s p)) \<and>
    (\<forall>ts. map_of (peer_sessions br) p = Some ts \<longrightarrow> ts \<noteq> [] \<and> distinct ts \<and> length ts \<le> 4096) \<and>
    (\<forall>s. map_of (sessions br) t = Some s \<longrightarrow>
       t \<noteq> [] \<and> length t \<le> 64 \<and> initiator_peer_id s \<noteq> target_peer_id s \<and>
       (offload_lease_deadline s \<noteq> None \<longleftrightarrow> initiator_link_up s \<and> target_link_up s) \<and>
       introduction_sends_in_window s \<le> 4)"
proof -
  note inv = reach_inv[OF assms]
  note maps = broker_invD(1)[OF inv] and index = broker_invD(2)[OF inv]
  have "indexed br p t \<longleftrightarrow> (\<exists>s. map_of (sessions br) t = Some s \<and> participant s p)"
    using index by (simp add: index_exact_def)
  moreover have "\<forall>ts. map_of (peer_sessions br) p = Some ts \<longrightarrow> ts \<noteq> [] \<and> distinct ts \<and> length ts \<le> 4096"
    using maps by (simp add: maps_wf_def entry_wf_def MAX_SESSIONS_PER_PEER_def)
  moreover have "\<forall>s. map_of (sessions br) t = Some s \<longrightarrow> session_wf t s"
    using maps by (simp add: maps_wf_def)
  ultimately show ?thesis
    by (simp add: session_wf_def links_up_def MAX_SESSION_TOKEN_LEN_def INTRODUCTION_BURST_def)
qed

lemma offloaded_session:
  assumes "broker_inv br" "is_offloaded br a b"
  obtains t s where "map_of (sessions br) t = Some s" "authorizes s a b" "links_up s"
proof -
  have "pack_pair a b \<in> offloaded_pairs br" using assms(2) by (simp add: is_offloaded_def split: if_splits)
  then obtain t s where "map_of (sessions br) t = Some s" "session_pair s = pack_pair a b" "links_up s"
    using broker_invD(3)[OF assms(1)] unfolding offload_backed_def by blast
  then show ?thesis using that by (auto simp: session_pair_def pack_pair_eq authorizes_def)
qed

text \<open>
  C16. Relaying between two peers stops only if both of them asked for it: whenever the broker treats the pair as
  offloaded, there is a live session between exactly these two, and each of them has sent a LINK\_UP signal for its token.
\<close>

theorem offload_needs_both_reports:
  assumes "broker_reach es br" "is_offloaded br a b"
  shows "\<exists>t s. map_of (sessions br) t = Some s \<and> authorizes s a b \<and> reported es a t \<and> reported es b t"
proof -
  obtain t s where s: "map_of (sessions br) t = Some s" "authorizes s a b" "links_up s"
    using offloaded_session[OF reach_inv[OF assms(1)] assms(2)] .
  then have "reported es a t \<and> reported es b t"
    using reach_reported[OF assms(1) s(1)] by (auto simp: links_up_def authorizes_def)
  then show ?thesis using s by blast
qed

section \<open>Signals and the sessions of others\<close>

text \<open>Nothing of a session without the peer changes, and no pair without the peer starts or stops being offloaded.\<close>

definition confined :: "PeerId \<Rightarrow> P2pBroker \<Rightarrow> P2pBroker \<Rightarrow> bool" where
  "confined p br br' \<longleftrightarrow>
     (\<forall>t s. \<not> participant s p \<longrightarrow> (map_of (sessions br') t = Some s \<longleftrightarrow> map_of (sessions br) t = Some s)) \<and>
     (\<forall>a b. a \<noteq> p \<and> b \<noteq> p \<longrightarrow> (pack_pair a b \<in> offloaded_pairs br' \<longleftrightarrow> pack_pair a b \<in> offloaded_pairs br))"

lemma confined_refl [simp]: "confined p br br"
  by (simp add: confined_def)

lemma pair_without: "participant s p \<Longrightarrow> a \<noteq> p \<Longrightarrow> b \<noteq> p \<Longrightarrow> pack_pair a b \<noteq> session_pair s"
  by (auto simp: session_pair_def pack_pair_eq participant_def)

lemma confined_put:
  assumes "map_of (sessions br) t = Some s" "participant s p" "participant s' p"
  shows "confined p br (put_session t s' br)"
  using assms by (auto simp: confined_def simp del: map_of_eq_Some_iff)

lemma confined_drop:
  assumes "map_of (sessions br) t = Some s" "participant s p"
  shows "confined p br (drop_session t s br)"
  using assms pair_without[OF assms(2)] by (auto simp: confined_def simp del: map_of_eq_Some_iff)

lemma confined_offloaded:
  assumes "confined p br br'" "participant s p" "ps = insert (session_pair s) (offloaded_pairs br') \<or> ps = offloaded_pairs br' - {session_pair s}"
  shows "confined p br (br'\<lparr>offloaded_pairs := ps\<rparr>)"
  using assms pair_without[OF assms(2)] by (auto simp: confined_def)

lemma confined_request:
  assumes "handle_request sender m auth now br = (out, br')"
  shows "confined sender br br'"
proof (cases "br' = br")
  case False
  let ?t = "psm_session_token m" and ?b = "psm_other_player_id m"
  have "claim_session ?t (new_session sender ?b now) auth br = (True, br')"
    using assms False
    by (auto simp: handle_request_def Let_def claim_session_def split: if_splits prod.splits bool.splits option.splits)
  then have "map_of (sessions br) ?t = None" "sessions br' = put_key ?t (new_session sender ?b now) (sessions br)"
    "offloaded_pairs br' = offloaded_pairs br"
    by (auto simp: claim_session_def split: if_splits option.splits)
  then show ?thesis
    by (auto simp: confined_def participant_def new_session_def simp del: map_of_eq_Some_iff)
qed simp

lemma confined_link_lost:
  assumes "handle_link_lost sender m br = (out, br')"
  shows "confined sender br br'"
  using assms
proof (cases rule: handle_link_lost_cases)
  case (cleared s)
  have part: "participant s sender" using cleared(2) authorizes_participant by blast
  let ?mid = "clear_links (session_pair s)
    (List.insert (psm_session_token m) (case map_of (peer_sessions br) sender of Some ts \<Rightarrow> ts | None \<Rightarrow> [])) br"
  have "participant r sender" if "session_pair r = session_pair s" for r
    using part same_pair_participant[OF that] by simp
  then have "confined sender br ?mid"
    by (auto simp: confined_def clear_links_sessions simp del: map_of_eq_Some_iff split: if_splits)
  from confined_offloaded[OF this part] show ?thesis by (simp add: cleared(4))
qed simp

lemma confined_link_up:
  assumes "handle_link_up sender m now br = (out, br')"
  shows "confined sender br br'"
  using assms
proof (cases rule: handle_link_up_cases)
  case (half s)
  then show ?thesis by (auto simp: participant_def intro!: confined_put[OF half(1)])
next
  case (up s d)
  let ?mid = "put_session (psm_session_token m) ((report_link sender s)\<lparr>offload_lease_deadline := Some d\<rparr>) br"
  have "confined sender br ?mid"
    using up(2) by (intro confined_put[OF up(1)]) (simp_all add: participant_def)
  from confined_offloaded[OF this up(2)] show ?thesis by (simp add: up(6))
qed simp

text \<open>
  C17. Whatever a peer sends, with any payload, token and claimed partner: sessions it is not part of
  stay as they are, no new session appears without it, and pairs without it start or stop being offloaded by no signal
  of its own. Knowing the token of others gives no power over their link.
\<close>

theorem signal_confined_to_sender:
  assumes run: "handle_signal sender payload allowed auth now br = (out, br')"
  shows "(\<not> participant s sender \<longrightarrow> (map_of (sessions br') t = Some s \<longleftrightarrow> map_of (sessions br) t = Some s)) \<and>
    (a \<noteq> sender \<and> b \<noteq> sender \<longrightarrow> is_offloaded br' a b = is_offloaded br a b)"
proof -
  from run have "confined sender br br'"
  proof (cases rule: handle_signal_cases)
    case unchanged then show ?thesis by simp
  next
    case (request m) then show ?thesis by (blast intro: confined_request)
  next
    case (accept m)
    from accept(2) show ?thesis
      by (cases rule: handle_accept_cases) (auto simp: participant_def intro!: confined_put)
  next
    case (leave m sub)
    from leave(3) show ?thesis
      by (cases rule: forward_and_drop_cases) (auto dest: authorizes_participant intro!: confined_drop)
  next
    case (lost m) then show ?thesis by (blast intro: confined_link_lost)
  next
    case (up m) then show ?thesis by (blast intro: confined_link_up)
  qed
  then show ?thesis by (simp add: confined_def is_offloaded_def)
qed

section \<open>Lost links, departures and maintenance\<close>

text \<open>
  An authorised LINK\_LOST ends the direct link of the pair under every token: the pair is relayed
  again, no session of the pair keeps a link report or a recorded endpoint, so maintenance cannot
  bring the old link back; no session is dropped, and the other peer is told.
\<close>

theorem link_lost_clears_pair:
  assumes reach: "broker_reach es br" and payload: "read_signal payload = Some (P2P_SUB_LINK_LOST, m)"
    and s: "map_of (sessions br) (psm_session_token m) = Some s" "authorizes s sender (psm_other_player_id m)"
    and run: "handle_signal sender payload allowed auth now br = (out, br')"
  shows "\<not> is_offloaded br' sender (psm_other_player_id m) \<and>
    (\<forall>t r. map_of (sessions br') t = Some r \<and> authorizes r sender (psm_other_player_id m) \<longrightarrow>
       \<not> initiator_link_up r \<and> \<not> target_link_up r \<and> endpoint_a_external r = None \<and> endpoint_b_external r = None) \<and>
    dom (map_of (sessions br')) = dom (map_of (sessions br)) \<and>
    out = send_sub (psm_other_player_id m) P2P_SUB_LINK_LOST (psm_session_token m) sender"
proof -
  let ?other = "psm_other_player_id m"
  have part: "participant s sender" using s(2) authorizes_participant by blast
  let ?mid = "clear_links (session_pair s)
    (List.insert (psm_session_token m) (case map_of (peer_sessions br) sender of Some ts \<Rightarrow> ts | None \<Rightarrow> [])) br"
  have br': "br' = ?mid\<lparr>offloaded_pairs := offloaded_pairs br - {session_pair s}\<rparr>"
    and out: "out = send_sub ?other P2P_SUB_LINK_LOST (psm_session_token m) sender"
    using run s payload by (auto simp: handle_signal_eq p2p_sub_defs handle_link_lost_def Let_def)
  have look: "map_of (sessions br') t =
      map_option (\<lambda>r. if session_pair r = session_pair s then clear_link r else r) (map_of (sessions br) t)" for t
    using clear_links_all[OF reach_inv[OF reach] s(1) part] by (simp add: br')
  have "\<not> initiator_link_up r \<and> \<not> target_link_up r \<and> endpoint_a_external r = None \<and> endpoint_b_external r = None"
    if r: "map_of (sessions br') t = Some r" "authorizes r sender ?other" for t r
  proof -
    obtain q where q: "map_of (sessions br) t = Some q" "r = (if session_pair q = session_pair s then clear_link q else q)"
      using r(1) look[of t] by auto
    have "session_pair r = session_pair s" using authorizes_pair[OF r(2)] authorizes_pair[OF s(2)] by simp
    then have "r = clear_link q" using q(2) by (auto split: if_splits)
    then show ?thesis by (simp add: clear_link_def)
  qed
  moreover have "\<not> is_offloaded br' sender ?other"
    using authorizes_pair[OF s(2)] by (simp add: is_offloaded_def br')
  moreover have "dom (map_of (sessions br')) = dom (map_of (sessions br))"
    by (auto simp: dom_def look simp del: map_of_eq_Some_iff)
  ultimately show ?thesis using out by blast
qed

lemma drop_peer_tokens_offloaded:
  assumes "drop_peer_tokens p ts br = (ns, br')" "\<And>t s. t \<in> set ts \<Longrightarrow> map_of (sessions br) t = Some s \<Longrightarrow> session_pair s \<noteq> pair"
  shows "pair \<in> offloaded_pairs br' \<longleftrightarrow> pair \<in> offloaded_pairs br"
  using assms
proof (induction ts arbitrary: br ns)
  case (Cons u ts)
  show ?case
  proof (cases "map_of (sessions br) u")
    case None
    then have "drop_peer_tokens p ts br = (ns, br')" using Cons.prems(1) by simp
    from Cons.IH[OF this] show ?thesis using Cons.prems(2) by (meson list.set_intros(2))
  next
    case (Some s)
    then obtain rest where "drop_peer_tokens p ts (drop_session u s br) = (rest, br')"
      using Cons.prems(1) by (auto simp: Let_def split: prod.splits)
    moreover have "\<And>t r. t \<in> set ts \<Longrightarrow> map_of (sessions (drop_session u s br)) t = Some r \<Longrightarrow> session_pair r \<noteq> pair"
      using Cons.prems(2) by (auto simp del: map_of_eq_Some_iff split: if_splits)
    ultimately have "pair \<in> offloaded_pairs br' \<longleftrightarrow> pair \<in> offloaded_pairs (drop_session u s br)"
      by (rule Cons.IH)
    then show ?thesis using Cons.prems(2)[OF _ Some] by auto
  qed
qed simp

text \<open>
  When a peer leaves, exactly its sessions end, it has no index entry and is offloaded with nobody;
  pairs of other peers keep their state, and the partner in each ended session is sent a CANCEL for it.
\<close>

theorem departed_peer_leaves_no_trace:
  assumes reach: "broker_reach es br" and run: "remove_peer p br = (out, br')"
  shows "(map_of (sessions br') t = Some s \<longleftrightarrow> map_of (sessions br) t = Some s \<and> \<not> participant s p) \<and>
    \<not> is_offloaded br' p q \<and> map_of (peer_sessions br') p = None \<and>
    (a \<noteq> p \<and> b \<noteq> p \<longrightarrow> is_offloaded br' a b = is_offloaded br a b) \<and>
    (map_of (sessions br) t = Some s \<and> authorizes s p q \<longrightarrow> set (send_sub q P2P_SUB_CANCEL t p) \<subseteq> set out)"
proof -
  note inv = reach_inv[OF reach]
  note inv' = remove_peer_effect(1)[OF inv run] and look = remove_peer_effect(2)[OF inv run]
  have member: "indexed br p u \<longleftrightarrow> (\<exists>r. map_of (sessions br) u = Some r \<and> participant r p)" for u
    using broker_invD(2)[OF inv] by (simp add: index_exact_def)
  have "\<not> is_offloaded br' p q"
  proof
    assume "is_offloaded br' p q"
    then obtain u r where "map_of (sessions br') u = Some r" "authorizes r p q"
      by (rule offloaded_session[OF inv'])
    then show False using look[of u r] authorizes_participant[of r p q] by simp
  qed
  moreover have "map_of (peer_sessions br') p = None"
  proof (rule ccontr)
    assume "map_of (peer_sessions br') p \<noteq> None"
    then obtain ts where ts: "map_of (peer_sessions br') p = Some ts" "ts \<noteq> []"
      using broker_invD(1)[OF inv'] by (auto simp: maps_wf_def entry_wf_def)
    then have "indexed br' p (hd ts)" by (simp add: indexed_def)
    then show False using broker_invD(2)[OF inv'] look by (auto simp: index_exact_def)
  qed
  moreover have "is_offloaded br' a b = is_offloaded br a b" if "a \<noteq> p" "b \<noteq> p"
    using run
  proof (cases rule: remove_peer_cases)
    case (gone ts ns)
    have "session_pair r \<noteq> pack_pair a b" if "u \<in> set ts" "map_of (sessions br) u = Some r" for u r
      using pair_without[of r p a b] \<open>a \<noteq> p\<close> \<open>b \<noteq> p\<close> member[of u] gone(1) that by (auto simp: indexed_def)
    then show ?thesis using drop_peer_tokens_offloaded[OF gone(2)] by (simp add: is_offloaded_def)
  qed simp
  moreover have "set (send_sub q P2P_SUB_CANCEL t p) \<subseteq> set out"
    if s: "map_of (sessions br) t = Some s" "authorizes s p q"
    using run
  proof (cases rule: remove_peer_cases)
    case absent
    then show ?thesis using member[of t] s authorizes_participant by (auto simp: indexed_def)
  next
    case (gone ts ns)
    have "t \<in> set ts" using member[of t] s authorizes_participant gone(1) by (auto simp: indexed_def)
    moreover have "distinct ts" using broker_invD(1)[OF inv] gone(1) by (auto simp: maps_wf_def entry_wf_def)
    moreover have "(if initiator_peer_id s = p then target_peer_id s else initiator_peer_id s) = q"
      using s session_wfD[OF inv s(1)] by (auto simp: authorizes_def session_wf_def)
    ultimately have "(q, t) \<in> set ns"
      using drop_peer_tokens_notices[OF gone(2)] s(1) by (force simp del: map_of_eq_Some_iff)
    then show ?thesis unfolding gone(3) by force
  qed
  ultimately show ?thesis using look[of t s] by blast
qed

text \<open>
  A maintenance pass keeps exactly the sessions whose two peers are connected and whose lease, if
  any, has not run out, and afterwards a pair is offloaded exactly when one of the kept sessions of the pair has both link
  reports: stale markers go, and markers lost with another token of the pair come back.
\<close>

theorem maintenance_restores_offloads:
  assumes reach: "broker_reach es br" and run: "maintain_lifecycle pa now br = (out, br')"
  shows "(map_of (sessions br') t = Some s \<longleftrightarrow> map_of (sessions br) t = Some s \<and>
       pa (initiator_peer_id s) \<noteq> None \<and> pa (target_peer_id s) \<noteq> None \<and>
       (\<forall>d. offload_lease_deadline s = Some d \<longrightarrow> now < d)) \<and>
    (is_offloaded br' a b \<longleftrightarrow> (\<exists>t s. map_of (sessions br') t = Some s \<and> authorizes s a b \<and>
       initiator_link_up s \<and> target_link_up s))"
proof -
  note inv = reach_inv[OF reach]
  note look = maintain_lifecycle_effect(2)[OF inv run]
  have "lease_expired now r \<longleftrightarrow> \<not> (\<forall>d. offload_lease_deadline r = Some d \<longrightarrow> now < d)"
    if "map_of (sessions br) u = Some r" for u r
    using session_wfD[OF inv that] by (auto simp: lease_expired_def session_wf_def links_up_def split: option.splits)
  then have first: "map_of (sessions br') t = Some s \<longleftrightarrow> map_of (sessions br) t = Some s \<and>
       pa (initiator_peer_id s) \<noteq> None \<and> pa (target_peer_id s) \<noteq> None \<and>
       (\<forall>d. offload_lease_deadline s = Some d \<longrightarrow> now < d)"
    using look[of t s] by (auto simp: session_ends_def simp del: map_of_eq_Some_iff)
  have dist: "distinct (map fst (sessions br))" using broker_invD(1)[OF inv] by (simp add: maps_wf_def)
  have "is_offloaded br' a b \<longleftrightarrow> (\<exists>t s. map_of (sessions br') t = Some s \<and> authorizes s a b \<and> links_up s)"
  proof
    assume "is_offloaded br' a b"
    then show "\<exists>t s. map_of (sessions br') t = Some s \<and> authorizes s a b \<and> links_up s"
      using offloaded_session[OF maintain_lifecycle_effect(1)[OF inv run]] by blast
  next
    assume "\<exists>t s. map_of (sessions br') t = Some s \<and> authorizes s a b \<and> links_up s"
    then obtain u r where r: "map_of (sessions br') u = Some r" "authorizes r a b" "links_up r" by blast
    then have "pack_pair a b \<in> surviving pa now (sessions br)"
      using look[of u r] authorizes_pair[OF r(2)] map_of_SomeD[of "sessions br" u r]
      unfolding surviving_def by (metis (mono_tags, lifting) mem_Collect_eq)
    moreover have "a \<noteq> b"
      using r session_wfD[OF maintain_lifecycle_effect(1)[OF inv run] r(1)] by (auto simp: session_wf_def authorizes_def)
    ultimately show "is_offloaded br' a b"
      using maintain_lifecycle_effect(3)[OF inv run] by (simp add: is_offloaded_def)
  qed
  then show ?thesis using first by (simp add: links_up_def)
qed

section \<open>Introductions\<close>

lemma introduce_sends:
  assumes "RawSend addr packet \<in> set (introduce ok ai ae bi be t)"
  shows "(addr = ae \<or> addr = be)"
  using assms by (auto simp: introduce_def send_nat_introduce_def Let_def split: if_splits)

lemma introduce_nonempty: "introduce ok ai ae bi be t \<noteq> []"
  by (simp add: introduce_def send_nat_introduce_def Let_def)

lemma introduce_raw: "x \<in> set (introduce ok ai ae bi be t) \<Longrightarrow> \<exists>addr packet. x = RawSend addr packet"
  by (auto simp: introduce_def Let_def split: prod.splits)

text \<open>
  NAT introductions are sent only for a session whose target has accepted, only on a request from
  the connection endpoint of a participant, and only to two different recorded endpoints, one of which is the requester.
\<close>

theorem introductions_go_to_participants:
  assumes reach: "broker_reach es br"
    and run: "handle_nat_introduction_request pa ok l r t now br = (out, br')" and sent: "out \<noteq> []"
  shows "\<exists>s a b. map_of (sessions br) t = Some s \<and> session_state s \<noteq> Awaiting \<and>
    (\<exists>p addr. participant s p \<and> pa p = Some addr \<and> same_endpoint addr r) \<and>
    a \<noteq> b \<and> r \<in> {a, b} \<and> (\<forall>x \<in> set out. \<exists>packet. x = RawSend a packet \<or> x = RawSend b packet)"
  using run
proof (cases rule: nat_request_cases)
  case (introduced s s' ai ae bi be)
  note n = notedD[OF introduced(2)]
  have "session_wf t s'" by (rule note_endpoint_wf(1)[OF session_wfD[OF reach_inv[OF reach] introduced(1)] n(1,3)])
  then have "ae \<noteq> be" using introduced(4,6) by (auto simp: session_wf_def)
  moreover have "r \<in> {ae, be}"
    using n(3) introduced(4,6) by (auto simp: note_endpoint_def split: if_splits)
  moreover have "\<exists>p addr. participant s p \<and> pa p = Some addr \<and> same_endpoint addr r"
    using n(2) by (auto simp: is_participant_endpoint_def participant_def split: option.splits)
  moreover have "\<exists>packet. x = RawSend ae packet \<or> x = RawSend be packet" if "x \<in> set out" for x
    using that introduce_raw introduce_sends unfolding introduced(8) by blast
  ultimately show ?thesis
    using introduced(1) n(1) unfolding session_ready_def by blast
qed (use sent in simp_all)

text \<open>Requests for one token, and how many of them led to an introduction.\<close>

type_synonym nat_request = "(PeerId \<Rightarrow> SocketAddr option) \<times> (SocketAddr \<Rightarrow> bool) \<times> SocketAddr \<times> SocketAddr \<times> nat"

fun introductions :: "token \<Rightarrow> nat_request list \<Rightarrow> P2pBroker \<Rightarrow> nat" where
  "introductions t [] br = 0"
| "introductions t ((pa, ok, l, r, now) # rs) br =
     (case handle_nat_introduction_request pa ok l r t now br of
        (out, br') \<Rightarrow> (if out = [] then 0 else 1) + introductions t rs br')"

definition request_time :: "nat_request \<Rightarrow> nat" where
  "request_time q = snd (snd (snd (snd q)))"

text \<open>What a session may still send while the clock stays below \<open>lo + INTRODUCTION_WINDOW\<close>: the rest of its window,
and one more window unless it was opened at \<open>lo\<close> or later.\<close>

definition allowance :: "nat \<Rightarrow> P2pSession \<Rightarrow> nat" where
  "allowance lo s =
     (4 - unat (introduction_sends_in_window s)) + (if introduction_window_started s < lo then 4 else 0)"

lemma allowance_window:
  assumes "introduction_sends_in_window s' = introduction_sends_in_window s"
    "introduction_window_started s' = introduction_window_started s"
  shows "allowance lo s' = allowance lo s"
  using assms by (simp add: allowance_def)

lemma allowance_roll:
  assumes "lo \<le> now" "now < lo + INTRODUCTION_WINDOW"
  shows "allowance lo (roll_window now s) \<le> allowance lo s"
  using assms by (auto simp: allowance_def roll_window_def)

lemma allowance_send:
  assumes "introduction_sends_in_window s < INTRODUCTION_BURST"
  shows "allowance lo (s\<lparr>introduction_sends_in_window := introduction_sends_in_window s + 1, session_state := st\<rparr>) + 1 \<le> allowance lo s"
proof -
  let ?n = "introduction_sends_in_window s"
  have small: "unat ?n < 4" using assms by (simp add: INTRODUCTION_BURST_def word_less_nat_alt)
  then have "unat (?n + 1) = unat ?n + 1" by (simp add: unat_word_ariths)
  with small show ?thesis by (simp add: allowance_def)
qed

lemma nat_request_allowance:
  assumes inv: "broker_inv br" and s: "map_of (sessions br) t = Some s"
    and run: "handle_nat_introduction_request pa ok l r t now br = (out, br')"
    and clock: "lo \<le> now" "now < lo + INTRODUCTION_WINDOW"
  shows "\<exists>s'. map_of (sessions br') t = Some s' \<and> allowance lo s' + (if out = [] then 0 else 1) \<le> allowance lo s"
proof -
  have noted_same: "allowance lo u = allowance lo s" if "noted pa l r s = Some u" for u
    using note_endpoint_wf(4,5)[OF session_wfD[OF inv s] notedD(1,3)[OF that]] by (rule allowance_window)
  from run show ?thesis
  proof (cases rule: nat_request_cases)
    case ignored
    then show ?thesis using s by simp
  next
    case (partial q s')
    then show ?thesis using s noted_same by simp
  next
    case (limited q s')
    then show ?thesis using s noted_same[of s'] allowance_roll[OF clock, of s'] by simp
  next
    case (introduced q s' ai ae bi be)
    then show ?thesis
      using s noted_same[of s'] allowance_roll[OF clock, of s'] allowance_send[OF introduced(7), of lo Punched]
      by (simp add: introduce_nonempty)
  qed
qed

lemma introductions_allowance:
  assumes "broker_inv br" "map_of (sessions br) t = Some s"
    and "list_all (\<lambda>q. lo \<le> request_time q \<and> request_time q < lo + INTRODUCTION_WINDOW) rs"
  shows "introductions t rs br \<le> allowance lo s"
  using assms
proof (induction t rs br arbitrary: s rule: introductions.induct)
  case (2 t pa ok l r now rs br)
  obtain out br' where run: "handle_nat_introduction_request pa ok l r t now br = (out, br')" by force
  have clock: "lo \<le> now" "now < lo + INTRODUCTION_WINDOW" using "2.prems"(3) by (simp_all add: request_time_def)
  obtain s' where s': "map_of (sessions br') t = Some s'" "allowance lo s' + (if out = [] then 0 else 1) \<le> allowance lo s"
    using nat_request_allowance[OF "2.prems"(1,2) run clock] by blast
  have "introductions t rs br' \<le> allowance lo s'"
    using "2.IH"[OF run[symmetric] inv_nat_request[OF "2.prems"(1) run] s'(1)] "2.prems"(3) by simp
  then show ?case using s'(2) run by (simp split: if_splits)
qed simp

lemma introductions_unknown: "map_of (sessions br) t = None \<Longrightarrow> introductions t rs br = 0"
proof (induction rs)
  case (Cons q rs)
  then show ?case by (cases q) (auto simp: handle_nat_introduction_request_def)
qed simp

text \<open>
  However many requests arrive for a token within any interval shorter than the introduction window of
  250 ms, at most eight lead to introductions (the rest of one window of four and the next window).
\<close>

theorem introduction_rate_bounded:
  assumes "broker_reach es br"
    and "list_all (\<lambda>q. lo \<le> request_time q \<and> request_time q < lo + INTRODUCTION_WINDOW) rs"
  shows "introductions t rs br \<le> 8"
proof (cases "map_of (sessions br) t")
  case (Some s)
  then show ?thesis
    using introductions_allowance[OF reach_inv[OF assms(1)] Some assms(2)] by (simp add: allowance_def split: if_splits)
qed (simp add: introductions_unknown)

section \<open>A run\<close>

text \<open>Peer 1 asks for a link with peer 2 under the token \<open>a\<close>, peer 2 accepts, and both report the link.\<close>

definition run_events :: "p2p_event list" where
  "run_events =
     [PSignal 1 [0, 2, 0, 2, 0, 0x61, 0] True (\<lambda>_. True) 0,
      PSignal 2 [1, 1, 0, 2, 0, 0x61, 0] True (\<lambda>_. True) 1,
      PSignal 1 [6, 2, 0, 2, 0, 0x61, 0] True (\<lambda>_. True) 2,
      PSignal 2 [6, 1, 0, 2, 0, 0x61, 0] True (\<lambda>_. True) 3]"

definition run_session :: P2pSession where
  "run_session = (new_session 1 2 0)\<lparr>session_state := ReadyForPunch, initiator_link_up := True, target_link_up := True,
     offload_lease_deadline := Some 1800000000003\<rparr>"

definition run_broker :: P2pBroker where
  "run_broker = \<lparr>sessions = [([0x61], run_session)], peer_sessions = [(2, [[0x61]]), (1, [[0x61]])],
     offloaded_pairs = {pack_pair 1 2}\<rparr>"

lemma run_signal:
  "read_signal [sub, 2, 0, 2, 0, 0x61, 0] =
     Some (sub, \<lparr>psm_other_player_id = 2, psm_session_token = [0x61], psm_ephemeral_public_key = None\<rparr>)"
  "read_signal [sub, 1, 0, 2, 0, 0x61, 0] =
     Some (sub, \<lparr>psm_other_player_id = 1, psm_session_token = [0x61], psm_ephemeral_public_key = None\<rparr>)"
  by code_simp+

lemma reach_event: "broker_reach es br \<Longrightarrow> snd (broker_step e br) = br' \<Longrightarrow> broker_reach (es @ [e]) br'"
  by (metis broker_reach.event prod.collapse)

lemmas run_simps = handle_signal_eq run_signal p2p_sub_defs broker_default_def new_session_def put_key_def remove_key_def
  session_pair_def OFFLOAD_LEASE_def put_session_def Let_def

lemma run_reach: "broker_reach run_events run_broker"
proof -
  let ?s = "new_session 1 2 0"
  let ?b1 = "\<lparr>sessions = [([0x61], ?s)], peer_sessions = [(2, [[0x61]]), (1, [[0x61]])], offloaded_pairs = {}\<rparr>"
  let ?b2 = "?b1\<lparr>sessions := [([0x61], ?s\<lparr>session_state := ReadyForPunch\<rparr>)]\<rparr>"
  let ?b3 = "?b1\<lparr>sessions := [([0x61], ?s\<lparr>session_state := ReadyForPunch, initiator_link_up := True\<rparr>)]\<rparr>"
  have "broker_reach ([] @ [PSignal 1 [0, 2, 0, 2, 0, 0x61, 0] True (\<lambda>_. True) 0]) ?b1"
    by (rule reach_event[OF start])
      (simp add: run_simps handle_request_def claim_session_def full_index_def track_peer_session_def MAX_SESSION_TOKEN_LEN_def)
  then have "broker_reach (([] @ [PSignal 1 [0, 2, 0, 2, 0, 0x61, 0] True (\<lambda>_. True) 0]) @
      [PSignal 2 [1, 1, 0, 2, 0, 0x61, 0] True (\<lambda>_. True) 1]) ?b2"
    by (rule reach_event) (simp add: run_simps handle_accept_def)
  then have "broker_reach ((([] @ [PSignal 1 [0, 2, 0, 2, 0, 0x61, 0] True (\<lambda>_. True) 0]) @
      [PSignal 2 [1, 1, 0, 2, 0, 0x61, 0] True (\<lambda>_. True) 1]) @ [PSignal 1 [6, 2, 0, 2, 0, 0x61, 0] True (\<lambda>_. True) 2]) ?b3"
    by (rule reach_event) (simp add: run_simps handle_link_up_def)
  then have "broker_reach (((([] @ [PSignal 1 [0, 2, 0, 2, 0, 0x61, 0] True (\<lambda>_. True) 0]) @
      [PSignal 2 [1, 1, 0, 2, 0, 0x61, 0] True (\<lambda>_. True) 1]) @ [PSignal 1 [6, 2, 0, 2, 0, 0x61, 0] True (\<lambda>_. True) 2]) @
      [PSignal 2 [6, 1, 0, 2, 0, 0x61, 0] True (\<lambda>_. True) 3]) run_broker"
    by (rule reach_event) (simp add: run_simps handle_link_up_def run_broker_def run_session_def)
  then show ?thesis by (simp add: run_events_def)
qed

lemma run_lookup: "map_of (sessions run_broker) [0x61] = Some run_session"
  by (simp add: run_broker_def)

theorem broker_maps_agree_witness:
  "indexed run_broker 1 [0x61] \<and> introduction_sends_in_window run_session \<le> 4"
  using broker_maps_agree[OF run_reach, of 1 "[0x61]"]
  by (simp add: run_lookup run_session_def new_session_def participant_def)

theorem offload_needs_both_reports_witness:
  "\<exists>t s. map_of (sessions run_broker) t = Some s \<and> authorizes s 1 2 \<and> reported run_events 1 t \<and> reported run_events 2 t"
  by (rule offload_needs_both_reports[OF run_reach]) (simp add: is_offloaded_def run_broker_def)

text \<open>A third peer cannot cancel the session, although it knows the token.\<close>

theorem signal_confined_to_sender_witness:
  "map_of (sessions (snd (handle_signal 7 [3, 2, 0, 2, 0, 0x61, 0] True (\<lambda>_. True) 9 run_broker))) [0x61] = Some run_session \<and>
   is_offloaded (snd (handle_signal 7 [3, 2, 0, 2, 0, 0x61, 0] True (\<lambda>_. True) 9 run_broker)) 1 2"
proof -
  obtain out br' where run: "handle_signal 7 [3, 2, 0, 2, 0, 0x61, 0] True (\<lambda>_. True) 9 run_broker = (out, br')" by force
  have "\<not> participant run_session 7" "is_offloaded run_broker 1 2"
    by (simp_all add: participant_def run_session_def new_session_def is_offloaded_def run_broker_def)
  then show ?thesis
    using signal_confined_to_sender[OF run, of run_session "[0x61]" 1 2] run_lookup by (simp add: run)
qed

theorem link_lost_clears_pair_witness:
  "\<not> is_offloaded (snd (handle_signal 1 [4, 2, 0, 2, 0, 0x61, 0] True (\<lambda>_. True) 9 run_broker)) 1 2"
proof -
  obtain out br' where run: "handle_signal 1 [4, 2, 0, 2, 0, 0x61, 0] True (\<lambda>_. True) 9 run_broker = (out, br')" by force
  have sig: "read_signal [4, 2, 0, 2, 0, 0x61, 0] = Some (P2P_SUB_LINK_LOST,
      \<lparr>psm_other_player_id = 2, psm_session_token = [0x61], psm_ephemeral_public_key = None\<rparr>)"
    by (simp add: run_signal p2p_sub_defs)
  show ?thesis
    using link_lost_clears_pair[OF run_reach sig _ _ run, of run_session] run_lookup
    by (simp add: run authorizes_def run_session_def new_session_def)
qed

theorem departed_peer_leaves_no_trace_witness:
  "\<not> is_offloaded (snd (remove_peer 1 run_broker)) 1 2 \<and>
   set (send_sub 2 P2P_SUB_CANCEL [0x61] 1) \<subseteq> set (fst (remove_peer 1 run_broker))"
proof -
  obtain out br' where run: "remove_peer 1 run_broker = (out, br')" by force
  show ?thesis
    using departed_peer_leaves_no_trace[OF run_reach run, of "[0x61]" run_session 2] run_lookup
    by (simp add: run authorizes_def run_session_def new_session_def)
qed

text \<open>At the deadline of its lease the session ends and the pair is relayed again.\<close>

theorem maintenance_restores_offloads_witness:
  "map_of (sessions (snd (maintain_lifecycle (\<lambda>p. Some (SockV4 [10, 0, 0, ucast p] 4000)) 1800000000003 run_broker))) [0x61]
     \<noteq> Some run_session"
proof -
  let ?pa = "\<lambda>p :: PeerId. Some (SockV4 [10, 0, 0, ucast p] 4000)"
  obtain out br' where run: "maintain_lifecycle ?pa 1800000000003 run_broker = (out, br')" by force
  show ?thesis
    using maintenance_restores_offloads[OF run_reach run, of "[0x61]" run_session 1 2]
    by (simp add: run run_session_def new_session_def)
qed

text \<open>Both participants ask from their own endpoints, and both introductions are sent.\<close>

definition run_addr :: "PeerId \<Rightarrow> SocketAddr option" where
  "run_addr p = Some (SockV4 [10, 0, 0, ucast p] 4000)"

definition run_known :: P2pBroker where
  "run_known = snd (handle_nat_introduction_request run_addr (\<lambda>_. True) (SockV4 [192, 168, 0, 1] 5000)
     (SockV4 [10, 0, 0, 1] 4000) [0x61] 10 run_broker)"

lemma run_known_reach:
  "broker_reach (run_events @ [PNatRequest run_addr (\<lambda>_. True) (SockV4 [192, 168, 0, 1] 5000)
     (SockV4 [10, 0, 0, 1] 4000) [0x61] 10]) run_known"
  by (rule reach_event[OF run_reach]) (simp add: run_known_def)

lemma run_second_request:
  "fst (handle_nat_introduction_request run_addr (\<lambda>_. True) (SockV4 [192, 168, 0, 2] 5000)
     (SockV4 [10, 0, 0, 2] 4000) [0x61] 20 run_known) \<noteq> []"
  by (simp add: run_known_def handle_nat_introduction_request_def run_lookup session_ready_def run_session_def
      new_session_def is_participant_endpoint_def run_addr_def same_endpoint_def note_endpoint_def put_session_def
      put_key_def Let_def roll_window_def INTRODUCTION_WINDOW_def INTRODUCTION_BURST_def introduce_nonempty)

theorem introductions_go_to_participants_witness:
  "\<exists>s. map_of (sessions run_known) [0x61] = Some s \<and> session_state s \<noteq> Awaiting"
proof -
  let ?q = "handle_nat_introduction_request run_addr (\<lambda>_. True) (SockV4 [192, 168, 0, 2] 5000)
     (SockV4 [10, 0, 0, 2] 4000) [0x61] 20 run_known"
  obtain out br' where run: "?q = (out, br')" by force
  have "out \<noteq> []" using run_second_request by (simp add: run)
  from introductions_go_to_participants[OF run_known_reach run this] show ?thesis by blast
qed

theorem introduction_rate_bounded_witness:
  "introductions [0x61] (replicate 20 (run_addr, \<lambda>_. True, SockV4 [192, 168, 0, 2] 5000, SockV4 [10, 0, 0, 2] 4000, 20)) run_known \<le> 8"
  by (rule introduction_rate_bounded[OF run_known_reach, of 0])
    (simp add: list_all_iff request_time_def INTRODUCTION_WINDOW_def)

end
