(* ===== verification/ImageCache.thy ===== *)
theory ImageCache
  imports Assoc
begin

text \<open>
  The bounded cache of shared images (\<open>basis-server-core/src/image_cache.rs\<close>): the server watches the image
  payloads it relays, keeps complete stills with their animation and last pose, offers them to peers that join later
  and replays them on request, and evicts by a fair share per owner under a cap on all bytes.

  A replay payload is a shared cell that the queue of outgoing messages holds and the cache empties when it
  drops the image. The cells are kept in \<open>payload_cells\<close> beside the fields of the cache and are named by their
  position; \<open>live\<close> tells which earlier cells somebody still holds. Hash maps are association lists with distinct keys
  and hash sets are lists without repetitions. Where the order in which a hash map is walked can
  be observed (a tie between the heaviest owners), that order is the argument \<open>order\<close>. The size of a chunk slot
  (\<open>size_of::<Option<Bytes>>()\<close>) is the argument \<open>slot\<close>. Byte counts are natural numbers with the
  saturating and checked operations written out at 64 bits.
\<close>

section \<open>Payloads\<close>

type_synonym image_id = bytes

definition OP_SPAWN :: u8 where "OP_SPAWN = 1"
definition OP_CHUNK :: u8 where "OP_CHUNK = 2"
definition OP_TRANSFORM :: u8 where "OP_TRANSFORM = 3"
definition OP_DESPAWN :: u8 where "OP_DESPAWN = 4"
definition OP_ANIMATION_SPAWN :: u8 where "OP_ANIMATION_SPAWN = 6"
definition OP_ANIMATION_CHUNK :: u8 where "OP_ANIMATION_CHUNK = 7"
definition OP_SERVER_CACHE_STATE :: u8 where "OP_SERVER_CACHE_STATE = 8"
definition OP_SERVER_CACHE_OFFER :: u8 where "OP_SERVER_CACHE_OFFER = 9"
definition OP_SERVER_CACHE_REQUEST :: u8 where "OP_SERVER_CACHE_REQUEST = 10"
definition HEADER_BYTES :: nat where "HEADER_BYTES = 17"
definition POSE_BYTES :: nat where "POSE_BYTES = 28"
definition TRANSFORM_BYTES :: nat where "TRANSFORM_BYTES = HEADER_BYTES + POSE_BYTES + 4"
definition MAX_OWNER_NAME_BYTES :: nat where "MAX_OWNER_NAME_BYTES = 1024"
definition BYTES_PER_MEGABYTE :: nat where "BYTES_PER_MEGABYTE = 1024 * 1024"
definition U64_MAX :: nat where "U64_MAX = 2 ^ 64 - 1"

lemmas op_defs = OP_SPAWN_def OP_CHUNK_def OP_TRANSFORM_def OP_DESPAWN_def OP_ANIMATION_SPAWN_def
  OP_ANIMATION_CHUNK_def OP_SERVER_CACHE_STATE_def OP_SERVER_CACHE_OFFER_def OP_SERVER_CACHE_REQUEST_def

definition read_id :: "bytes \<Rightarrow> image_id option" where
  "read_id payload = get_range payload 1 (HEADER_BYTES - 1)"

definition read_i32 :: "bytes \<Rightarrow> nat \<Rightarrow> int option" where
  "read_i32 payload offset =
     (case get_range payload offset 4 of None \<Rightarrow> None | Some raw \<Rightarrow> Some (sint (of_le raw :: u32)))"

text \<open>The variable-length size of the owner name: seven bits in each byte, at most five bytes.\<close>

fun read_name_length :: "bytes \<Rightarrow> nat \<Rightarrow> nat \<Rightarrow> nat \<Rightarrow> (nat \<times> nat) option" where
  "read_name_length [] offset name_length shift = None"
| "read_name_length (piece # rest) offset name_length shift =
     (if shift > 28 then None
      else
        let name_length = name_length OR push_bit shift (unat (piece AND 0x7F))
        in if piece AND 0x80 = 0 then Some (name_length, offset + 1)
           else read_name_length rest (offset + 1) name_length (shift + 7))"

definition read_spawn_header :: "bytes \<Rightarrow> (int \<times> nat) option" where
  "read_spawn_header payload =
     (let start = HEADER_BYTES + 2
      in case read_name_length (drop start payload) start 0 0 of
           None \<Rightarrow> None
         | Some (name_length, offset) \<Rightarrow>
             if name_length > MAX_OWNER_NAME_BYTES \<or> offset + name_length > length payload then None
             else
               let offset = offset + name_length
               in case (read_i32 payload offset, read_i32 payload (offset + 4), read_i32 payload (offset + 8)) of
                    (Some width, Some height, Some total_bytes) \<Rightarrow>
                      if width \<le> 0 \<or> height \<le> 0 \<or> total_bytes < 0 then None
                      else (case read_i32 payload (offset + 12) of
                              None \<Rightarrow> None
                            | Some total_chunks \<Rightarrow> Some (total_chunks, offset + 12 + 4))
                  | _ \<Rightarrow> None)"

definition is_valid_image_upload :: "bytes \<Rightarrow> bool" where
  "is_valid_image_upload payload \<longleftrightarrow>
     (if length payload < HEADER_BYTES then False
      else
        let op = payload ! 0
        in if op = OP_SPAWN then
             (case read_spawn_header payload of
                None \<Rightarrow> False
              | Some (chunk_count, pose_offset) \<Rightarrow> chunk_count > 0 \<and> pose_offset + POSE_BYTES = length payload)
           else if op = OP_CHUNK \<or> op = OP_ANIMATION_CHUNK then
             (case read_i32 payload HEADER_BYTES of
                None \<Rightarrow> False
              | Some index \<Rightarrow>
                  (case read_i32 payload (HEADER_BYTES + 4) of
                     None \<Rightarrow> False
                   | Some sz \<Rightarrow> index \<ge> 0 \<and> sz \<ge> 0 \<and> HEADER_BYTES + 8 + nat sz = length payload))
           else if op = OP_TRANSFORM then length payload = TRANSFORM_BYTES
           else if op = OP_DESPAWN then length payload = HEADER_BYTES
           else if op = OP_ANIMATION_SPAWN then
             length payload = HEADER_BYTES + 1 + 4 + 4 + 8 \<and>
             (case read_i32 payload (HEADER_BYTES + 1 + 4) of Some n \<Rightarrow> n > 0 | None \<Rightarrow> False) \<and>
             (case read_i32 payload (HEADER_BYTES + 1) of Some sz \<Rightarrow> sz \<ge> 0 | None \<Rightarrow> False)
           else False)"

section \<open>State\<close>

record cache_config =
  image_cache_enabled :: bool
  image_cache_max_megabytes :: u32
  image_cache_minimum_per_owner_megabytes :: u32

record CacheSend =
  cs_recipient :: u16
  cs_owner :: u16
  cs_payload :: nat
  cs_paced :: bool

record CachedImage =
  ci_owner :: u16
  ci_sequence :: u64
  offered :: "u16 list"
  delivered :: "u16 list"
  animation_delivered :: "u16 list"
  spawn :: bytes
  chunks :: "bytes option list"
  chunks_held :: nat
  pose_offset :: nat
  transform :: "bytes option"
  animation_spawn :: "bytes option"
  animation_chunks :: "bytes option list"
  animation_chunks_held :: nat
  replay_payloads :: "nat list"
  image_bytes :: nat

record ImageCache =
  images :: "(image_id \<times> CachedImage) list"
  total_bytes :: nat
  ic_sequence :: u64

record image_world = ImageCache +
  payload_cells :: "bytes option list"

definition still_complete :: "CachedImage \<Rightarrow> bool" where
  "still_complete img \<longleftrightarrow> chunks_held img = length (chunks img)"

definition animation_complete :: "CachedImage \<Rightarrow> bool" where
  "animation_complete img \<longleftrightarrow>
     animation_spawn img \<noteq> None \<and> animation_chunks_held img = length (animation_chunks img)"

definition image_world_default :: image_world where
  "image_world_default = \<lparr>images = [], total_bytes = 0, ic_sequence = 0, payload_cells = []\<rparr>"

definition servable_count :: "image_world \<Rightarrow> nat" where
  "servable_count w = length (filter (\<lambda>(_, img). still_complete img) (images w))"

text \<open>\<open>ReplayPayload::new\<close>, and \<open>payload.write().take()\<close> on a list of cells.\<close>

definition new_payload :: "bytes \<Rightarrow> image_world \<Rightarrow> nat \<times> image_world" where
  "new_payload bytes w = (length (payload_cells w), w\<lparr>payload_cells := payload_cells w @ [Some bytes]\<rparr>)"

definition take_payloads :: "nat list \<Rightarrow> image_world \<Rightarrow> image_world" where
  "take_payloads cells w = w\<lparr>payload_cells := fold (\<lambda>c cs. cs[c := None]) cells (payload_cells w)\<rparr>"

definition cache_reset :: "image_world \<Rightarrow> image_world" where
  "cache_reset w =
     (let w = take_payloads (concat (map (\<lambda>(_, img). replay_payloads img) (images w))) w
      in w\<lparr>images := [], total_bytes := 0, ic_sequence := 0\<rparr>)"

definition put_image :: "image_id \<Rightarrow> CachedImage \<Rightarrow> image_world \<Rightarrow> image_world" where
  "put_image iid img w = w\<lparr>images := put_key iid img (images w)\<rparr>"

definition cache_state_send :: "u16 \<Rightarrow> image_id \<Rightarrow> bool \<Rightarrow> image_world \<Rightarrow> CacheSend \<times> image_world" where
  "cache_state_send owner iid held w =
     (let (cell, w) = new_payload ([OP_SERVER_CACHE_STATE] @ iid @ [if held then 1 else 0]) w
      in (\<lparr>cs_recipient = owner, cs_owner = owner, cs_payload = cell, cs_paced = False\<rparr>, w))"

section \<open>Eviction\<close>

text \<open>\<open>min_by_key\<close> gives the first least element, \<open>max_by_key\<close> the last greatest one.\<close>

fun min_by_key :: "('a \<Rightarrow> 'b::linorder) \<Rightarrow> 'a list \<Rightarrow> 'a option" where
  "min_by_key f [] = None"
| "min_by_key f (x # xs) =
     (case min_by_key f xs of None \<Rightarrow> Some x | Some y \<Rightarrow> if f y < f x then Some y else Some x)"

fun max_by_key :: "('a \<Rightarrow> 'b::linorder) \<Rightarrow> 'a list \<Rightarrow> 'a option" where
  "max_by_key f [] = None"
| "max_by_key f (x # xs) =
     (case max_by_key f xs of None \<Rightarrow> Some x | Some y \<Rightarrow> if f y < f x then Some x else Some y)"

definition owner_bytes :: "u16 \<Rightarrow> image_world \<Rightarrow> nat" where
  "owner_bytes owner w =
     sum_list (map (\<lambda>(_, img). image_bytes img) (filter (\<lambda>(_, img). ci_owner img = owner) (images w)))"

definition megabytes :: "u32 \<Rightarrow> nat" where
  "megabytes mb = (if sint mb > 0 then min U64_MAX (nat (sint mb) * BYTES_PER_MEGABYTE) else 0)"

definition owner_share :: "u16 \<Rightarrow> nat \<Rightarrow> cache_config \<Rightarrow> image_world \<Rightarrow> nat" where
  "owner_share owner cap config w =
     (let owners = List.insert owner (remdups (map (\<lambda>(_, img). ci_owner img) (images w)));
          fair = cap div max (length owners) 1;
          floor = min (megabytes (image_cache_minimum_per_owner_megabytes config)) cap
      in max fair floor)"

definition oldest_owned :: "u16 \<Rightarrow> image_id option \<Rightarrow> image_world \<Rightarrow> image_id option" where
  "oldest_owned owner exclude w =
     map_option fst (min_by_key (\<lambda>(_, img). ci_sequence img)
       (filter (\<lambda>(iid, img). ci_owner img = owner \<and> Some iid \<noteq> exclude) (images w)))"

fun held_by_owner :: "(u16 \<times> nat) list \<Rightarrow> (image_id \<times> CachedImage) list \<Rightarrow> (u16 \<times> nat) list" where
  "held_by_owner held [] = held"
| "held_by_owner held ((_, img) # rest) =
     held_by_owner
       (put_key (ci_owner img)
          ((case map_of held (ci_owner img) of Some n \<Rightarrow> n | None \<Rightarrow> 0) + image_bytes img) held) rest"

type_synonym walk_order = "(u16 \<times> nat) list \<Rightarrow> (u16 \<times> nat) list"

definition oldest_of_heaviest_owner :: "walk_order \<Rightarrow> image_id \<Rightarrow> image_world \<Rightarrow> image_id option" where
  "oldest_of_heaviest_owner order exclude w =
     (case max_by_key snd (order (held_by_owner [] (images w))) of
        None \<Rightarrow> None
      | Some (heaviest, _) \<Rightarrow> oldest_owned heaviest (Some exclude) w)"

definition drop_image :: "image_id \<Rightarrow> image_world \<Rightarrow> bool \<times> CacheSend list \<times> image_world" where
  "drop_image iid w =
     (case map_of (images w) iid of
        None \<Rightarrow> (False, [], w)
      | Some img \<Rightarrow>
          let w = w\<lparr>images := remove_key iid (images w)\<rparr>;
              w = take_payloads (replay_payloads img) w;
              w = w\<lparr>total_bytes := total_bytes w - image_bytes img\<rparr>
          in if still_complete img
             then let (send, w) = cache_state_send (ci_owner img) iid False w in (True, [send], w)
             else (True, [], w))"

definition remove_image :: "image_id \<Rightarrow> u16 \<Rightarrow> bool \<Rightarrow> image_world \<Rightarrow> bool \<times> CacheSend list \<times> image_world" where
  "remove_image iid requester owner_only w =
     (case map_of (images w) iid of
        Some img \<Rightarrow> if \<not> owner_only \<or> ci_owner img = requester then drop_image iid w else (False, [], w)
      | None \<Rightarrow> (False, [], w))"

lemma min_by_key_in: "min_by_key f xs = Some x \<Longrightarrow> x \<in> set xs"
  by (induction xs arbitrary: x) (auto split: option.splits if_splits)

lemma oldest_owned_cached: "oldest_owned owner ex w = Some iid \<Longrightarrow> iid \<in> fst ` set (images w)"
  by (auto simp: oldest_owned_def dest!: min_by_key_in intro: rev_image_eqI)

lemma drop_image_shrinks:
  assumes "iid \<in> fst ` set (images w)" "(b, sends, w') = drop_image iid w"
  shows "length (images w') < length (images w)"
proof -
  obtain img where img: "map_of (images w) iid = Some img"
    using assms(1) by (metis map_of_eq_None_iff not_None_eq)
  have "length (remove_key iid (images w)) < length (images w)"
    using assms(1) unfolding remove_key_def by (auto intro!: length_filter_less)
  then show ?thesis
    using assms(2) by (simp add: drop_image_def img Let_def take_payloads_def cache_state_send_def new_payload_def split: if_splits)
qed

text \<open>The two loops of \<open>try_reserve\<close>: the owner's own oldest images while it exceeds its share, then the oldest of the
heaviest owner while the cache exceeds the cap.\<close>

function reserve_share :: "u16 \<Rightarrow> nat \<Rightarrow> nat \<Rightarrow> image_id \<Rightarrow> image_world \<Rightarrow> bool \<times> CacheSend list \<times> image_world" where
  "reserve_share owner cost share exclude w =
     (if min U64_MAX (owner_bytes owner w + cost) > share then
        (case oldest_owned owner (Some exclude) w of
           None \<Rightarrow> (False, [], w)
         | Some iid \<Rightarrow>
             let (_, sends, w) = drop_image iid w;
                 (ok, rest, w) = reserve_share owner cost share exclude w
             in (ok, sends @ rest, w))
      else (True, [], w))"
  by pat_completeness auto
termination
  by (relation "measure (\<lambda>(_, _, _, _, w). length (images w))")
    (auto dest!: oldest_owned_cached intro: drop_image_shrinks)

lemma heaviest_cached: "oldest_of_heaviest_owner order ex w = Some iid \<Longrightarrow> iid \<in> fst ` set (images w)"
  by (auto simp: oldest_of_heaviest_owner_def dest: oldest_owned_cached split: option.splits)

function reserve_total :: "walk_order \<Rightarrow> nat \<Rightarrow> nat \<Rightarrow> image_id \<Rightarrow> image_world \<Rightarrow> bool \<times> CacheSend list \<times> image_world" where
  "reserve_total order cost cap exclude w =
     (if min U64_MAX (total_bytes w + cost) > cap then
        (case oldest_of_heaviest_owner order exclude w of
           None \<Rightarrow> (False, [], w)
         | Some iid \<Rightarrow>
             let (_, sends, w) = drop_image iid w;
                 (ok, rest, w) = reserve_total order cost cap exclude w
             in (ok, sends @ rest, w))
      else (True, [], w))"
  by pat_completeness auto
termination
  by (relation "measure (\<lambda>(_, _, _, _, w). length (images w))")
    (auto dest!: heaviest_cached intro: drop_image_shrinks)

declare reserve_share.simps [simp del] reserve_total.simps [simp del]

definition cache_cap :: "cache_config \<Rightarrow> nat" where
  "cache_cap config = megabytes (image_cache_max_megabytes config)"

definition image_try_reserve ::
  "walk_order \<Rightarrow> u16 \<Rightarrow> nat \<Rightarrow> image_id \<Rightarrow> cache_config \<Rightarrow> image_world \<Rightarrow> bool \<times> CacheSend list \<times> image_world" where
  "image_try_reserve order owner cost exclude config w =
     (let cap = cache_cap config
      in if cap = 0 \<or> cost = 0 \<or> cost > cap then (False, [], w)
         else
           let share = owner_share owner cap config w
           in if cost > share then (False, [], w)
              else case reserve_share owner cost share exclude w of
                     (False, sends, w) \<Rightarrow> (False, sends, w)
                   | (True, sends, w) \<Rightarrow>
                       let (ok, rest, w) = reserve_total order cost cap exclude w in (ok, sends @ rest, w))"

section \<open>Offers and replays\<close>

text \<open>\<open>spawn[pose_offset..end].copy_from_slice(pose)\<close> with the pose of the last transform.\<close>

definition build_spawn :: "CachedImage \<Rightarrow> bytes" where
  "build_spawn img =
     (case transform img of
        None \<Rightarrow> spawn img
      | Some tr \<Rightarrow>
          let transform_pose = take POSE_BYTES (drop HEADER_BYTES tr);
              end_offset = pose_offset img + POSE_BYTES
          in if pose_offset img > 0 \<and> end_offset \<le> length (spawn img)
             then take (pose_offset img) (spawn img) @ transform_pose @ drop end_offset (spawn img)
             else spawn img)"

definition some_chunks :: "bytes option list \<Rightarrow> bytes list" where
  "some_chunks cs = map the (filter (\<lambda>c. c \<noteq> None) cs)"

definition append_animation :: "CachedImage \<Rightarrow> bytes list" where
  "append_animation img =
     (case animation_spawn img of Some sp \<Rightarrow> [sp] | None \<Rightarrow> []) @ some_chunks (animation_chunks img)"

definition mark_offered :: "image_id \<Rightarrow> u16 \<Rightarrow> image_world \<Rightarrow> CacheSend option \<times> image_world" where
  "mark_offered iid peer w =
     (case map_of (images w) iid of
        None \<Rightarrow> (None, w)
      | Some img \<Rightarrow>
          if \<not> still_complete img \<or> ci_owner img = peer \<or> peer \<in> set (offered img) \<or> peer \<in> set (delivered img)
          then (None, w)
          else
            let img = img\<lparr>offered := List.insert peer (offered img)\<rparr>;
                w = put_image iid img w
            in case build_spawn img of
                 [] \<Rightarrow> (None, w)
               | _ # rest \<Rightarrow>
                   let (cell, w) = new_payload (OP_SERVER_CACHE_OFFER # rest) w
                   in (Some \<lparr>cs_recipient = peer, cs_owner = peer, cs_payload = cell, cs_paced = False\<rparr>, w))"

fun mark_offered_all :: "(image_id \<times> u16) list \<Rightarrow> image_world \<Rightarrow> CacheSend list \<times> image_world" where
  "mark_offered_all [] w = ([], w)"
| "mark_offered_all ((iid, peer) # rest) w =
     (let (offer, w) = mark_offered iid peer w;
          (sends, w) = mark_offered_all rest w
      in ((case offer of Some send \<Rightarrow> [send] | None \<Rightarrow> []) @ sends, w))"

definition offer_peer :: "u16 \<Rightarrow> cache_config \<Rightarrow> image_world \<Rightarrow> CacheSend list \<times> image_world" where
  "offer_peer peer config w =
     (if \<not> image_cache_enabled config then ([], w)
      else
        let ids = map (\<lambda>(iid, img). (iid, ci_sequence img)) (filter (\<lambda>(_, img). still_complete img) (images w));
            ids = sort_key snd ids
        in mark_offered_all (map (\<lambda>(iid, _). (iid, peer)) ids) w)"

text \<open>One paced message for each payload; the image remembers the cells, and forgets those nobody holds any more.\<close>

fun replay_sends :: "u16 \<Rightarrow> u16 \<Rightarrow> bytes list \<Rightarrow> image_world \<Rightarrow> CacheSend list \<times> image_world" where
  "replay_sends peer owner [] w = ([], w)"
| "replay_sends peer owner (payload # payloads) w =
     (let (cell, w) = new_payload payload w;
          (sends, w) = replay_sends peer owner payloads w
      in (\<lparr>cs_recipient = peer, cs_owner = owner, cs_payload = cell, cs_paced = True\<rparr> # sends, w))"

definition replay_image ::
  "(nat \<Rightarrow> bool) \<Rightarrow> image_id \<Rightarrow> u16 \<Rightarrow> CachedImage \<Rightarrow> bytes list \<Rightarrow> image_world \<Rightarrow> CacheSend list \<times> image_world" where
  "replay_image live iid peer img payloads w =
     (let (sends, w) = replay_sends peer (ci_owner img) payloads w;
          cells = filter live (replay_payloads img) @ map cs_payload sends
      in (sends, put_image iid (img\<lparr>replay_payloads := cells\<rparr>) w))"

definition image_request ::
  "(nat \<Rightarrow> bool) \<Rightarrow> u16 \<Rightarrow> bytes \<Rightarrow> bool \<Rightarrow> cache_config \<Rightarrow> image_world \<Rightarrow> CacheSend list \<times> image_world" where
  "image_request live peer payload allow_animation config w =
     (if \<not> image_cache_enabled config \<or> length payload < HEADER_BYTES \<or> payload ! 0 \<noteq> OP_SERVER_CACHE_REQUEST
      then ([], w)
      else case read_id payload of
        None \<Rightarrow> ([], w)
      | Some iid \<Rightarrow>
          (case map_of (images w) iid of
             None \<Rightarrow> ([], w)
           | Some img \<Rightarrow>
               if \<not> still_complete img \<or> ci_owner img = peer \<or> peer \<in> set (delivered img) then ([], w)
               else
                 let img = img\<lparr>delivered := List.insert peer (delivered img),
                                   offered := List.insert peer (offered img)\<rparr>;
                     payloads = [build_spawn img] @
                       (case transform img of Some tr \<Rightarrow> [tr] | None \<Rightarrow> []) @ some_chunks (chunks img);
                     animate = allow_animation \<and> animation_complete img \<and> peer \<notin> set (animation_delivered img);
                     img = (if animate
                              then img\<lparr>animation_delivered := List.insert peer (animation_delivered img)\<rparr> else img);
                     payloads = payloads @ (if animate then append_animation img else [])
                 in replay_image live iid peer img payloads w))"

definition deliver_animation ::
  "(nat \<Rightarrow> bool) \<Rightarrow> image_id \<Rightarrow> u16 \<Rightarrow> image_world \<Rightarrow> CacheSend list \<times> image_world" where
  "deliver_animation live iid peer w =
     (case map_of (images w) iid of
        None \<Rightarrow> ([], w)
      | Some img \<Rightarrow>
          if \<not> still_complete img \<or> \<not> animation_complete img \<or> peer = ci_owner img \<or>
             peer \<notin> set (delivered img) \<or> peer \<in> set (animation_delivered img)
          then ([], w)
          else
            let img = img\<lparr>animation_delivered := List.insert peer (animation_delivered img)\<rparr>
            in replay_image live iid peer img (append_animation img) w)"

fun deliver_animations :: "(nat \<Rightarrow> bool) \<Rightarrow> (image_id \<times> u16) list \<Rightarrow> image_world \<Rightarrow> CacheSend list \<times> image_world" where
  "deliver_animations live [] w = ([], w)"
| "deliver_animations live ((iid, peer) # rest) w =
     (let (batch, w) = deliver_animation live iid peer w;
          (sends, w) = deliver_animations live rest w
      in (batch @ sends, w))"

definition animation_recipients :: "u16 list \<Rightarrow> CachedImage \<Rightarrow> u16 list" where
  "animation_recipients allowed img =
     filter (\<lambda>peer. peer \<noteq> ci_owner img \<and> peer \<in> set allowed \<and> peer \<notin> set (animation_delivered img)) (delivered img)"

definition resume_animations ::
  "(nat \<Rightarrow> bool) \<Rightarrow> u16 list \<Rightarrow> cache_config \<Rightarrow> image_world \<Rightarrow> CacheSend list \<times> image_world" where
  "resume_animations live allowed_peers config w =
     (if \<not> image_cache_enabled config then ([], w)
      else
        let candidates = concat (map (\<lambda>(iid, img).
              if still_complete img \<and> animation_complete img
              then map (\<lambda>peer. (iid, peer)) (animation_recipients allowed_peers img) else []) (images w))
        in deliver_animations live candidates w)"

section \<open>Observation\<close>

definition seed_already_held :: "u16 list \<Rightarrow> u16 list \<Rightarrow> CachedImage \<Rightarrow> CachedImage" where
  "seed_already_held recipients connected img =
     (let peers = (if recipients = [] then connected else recipients)
      in img\<lparr>offered := fold List.insert peers (offered img),
               delivered := fold List.insert peers (delivered img),
               animation_delivered := fold List.insert peers (animation_delivered img)\<rparr>)"

text \<open>\<open>checked_mul\<close> and \<open>checked_add\<close> on 64 bits for the cost of a payload and its chunk slots.\<close>

definition spawn_cost :: "nat \<Rightarrow> nat \<Rightarrow> nat \<Rightarrow> nat option" where
  "spawn_cost slot payload_len n =
     (if n * slot > U64_MAX then None else if payload_len + n * slot > U64_MAX then None else Some (payload_len + n * slot))"

definition observe_spawn ::
  "walk_order \<Rightarrow> nat \<Rightarrow> u16 \<Rightarrow> bytes \<Rightarrow> u16 list \<Rightarrow> u16 list \<Rightarrow> cache_config \<Rightarrow> image_world \<Rightarrow> CacheSend list \<times> image_world" where
  "observe_spawn order slot owner payload recipients connected config w =
     (case (read_id payload, read_spawn_header payload) of
        (Some iid, Some (chunk_count, pose)) \<Rightarrow>
          if chunk_count \<le> 0 \<or> pose + POSE_BYTES > length payload \<or> map_of (images w) iid \<noteq> None then ([], w)
          else (case spawn_cost slot (length payload) (nat chunk_count) of
             None \<Rightarrow> ([], w)
           | Some cost \<Rightarrow>
               (case image_try_reserve order owner cost iid config w of
                  (False, sends, w) \<Rightarrow> (sends, w)
                | (True, sends, w) \<Rightarrow>
                    let w = w\<lparr>ic_sequence := ic_sequence w + 1\<rparr>;
                        img = \<lparr>ci_owner = owner, ci_sequence = ic_sequence w, offered = [], delivered = [],
                          animation_delivered = [], spawn = payload, chunks = replicate (nat chunk_count) None,
                          chunks_held = 0, pose_offset = pose, transform = None, animation_spawn = None,
                          animation_chunks = [], animation_chunks_held = 0, replay_payloads = [], image_bytes = cost\<rparr>;
                        img = seed_already_held recipients connected img;
                        w = w\<lparr>total_bytes := total_bytes w + cost\<rparr>
                    in (sends, put_image iid img w)))
      | _ \<Rightarrow> ([], w))"

text \<open>\<open>images.get_mut(&id).expect(...)\<close> after a reservation.\<close>

definition entry :: "image_id \<Rightarrow> image_world \<Rightarrow> CachedImage" where
  "entry iid w = the (map_of (images w) iid)"

definition observe_animation_spawn ::
  "walk_order \<Rightarrow> nat \<Rightarrow> u16 \<Rightarrow> bytes \<Rightarrow> cache_config \<Rightarrow> image_world \<Rightarrow> CacheSend list \<times> image_world" where
  "observe_animation_spawn order slot owner payload config w =
     (if length payload < HEADER_BYTES + 1 + 4 + 4 then ([], w)
      else case (read_id payload, read_i32 payload (HEADER_BYTES + 1 + 4)) of
        (Some iid, Some n) \<Rightarrow>
          if n \<le> 0 then ([], w)
          else (case map_of (images w) iid of
             None \<Rightarrow> ([], w)
           | Some img \<Rightarrow>
               if ci_owner img \<noteq> owner \<or> animation_spawn img \<noteq> None then ([], w)
               else (case spawn_cost slot (length payload) (nat n) of
                  None \<Rightarrow> ([], w)
                | Some cost \<Rightarrow>
                    (case image_try_reserve order owner cost iid config w of
                       (False, sends, w) \<Rightarrow> (sends, w)
                     | (True, sends, w) \<Rightarrow>
                         let img = entry iid w;
                             img = img\<lparr>animation_spawn := Some payload, animation_chunks := replicate (nat n) None,
                               image_bytes := image_bytes img + cost\<rparr>;
                             w = w\<lparr>total_bytes := total_bytes w + cost\<rparr>
                         in (sends, put_image iid img w))))
      | _ \<Rightarrow> ([], w))"

definition store_chunk :: "bool \<Rightarrow> nat \<Rightarrow> bytes \<Rightarrow> CachedImage \<Rightarrow> CachedImage" where
  "store_chunk animation index payload img =
     (if animation
      then img\<lparr>animation_chunks := (animation_chunks img)[index := Some payload],
                 animation_chunks_held := animation_chunks_held img + 1,
                 image_bytes := image_bytes img + length payload\<rparr>
      else img\<lparr>chunks := (chunks img)[index := Some payload], chunks_held := chunks_held img + 1,
                 image_bytes := image_bytes img + length payload\<rparr>)"

record cache_peers =
  cp_connected :: "u16 list"
  cp_animation_allowed :: "u16 list"

text \<open>What follows a stored chunk: the owner learns that the still is held and every peer is offered it, or the complete
animation goes to the peers that already have the still.\<close>

definition announce_chunk ::
  "(nat \<Rightarrow> bool) \<Rightarrow> u16 \<Rightarrow> image_id \<Rightarrow> bool \<Rightarrow> cache_peers \<Rightarrow> image_world \<Rightarrow> CacheSend list \<times> image_world" where
  "announce_chunk live owner iid animation peers w =
     (let img = entry iid w;
          complete = still_complete img;
          animated = (animation_complete img \<and> still_complete img)
      in if \<not> animation \<and> complete then
           let (state_send, w) = cache_state_send owner iid True w;
               (offers, w) = mark_offered_all (map (\<lambda>peer. (iid, peer)) (cp_connected peers)) w
           in (state_send # offers, w)
         else if animation \<and> animated then
           deliver_animations live
             (map (\<lambda>peer. (iid, peer)) (animation_recipients (cp_animation_allowed peers) img)) w
         else ([], w))"

definition observe_chunk ::
  "(nat \<Rightarrow> bool) \<Rightarrow> walk_order \<Rightarrow> u16 \<Rightarrow> bytes \<Rightarrow> bool \<Rightarrow> cache_peers \<Rightarrow> cache_config \<Rightarrow> image_world \<Rightarrow>
   CacheSend list \<times> image_world" where
  "observe_chunk live order owner payload animation peers config w =
     (if length payload < HEADER_BYTES + 8 then ([], w)
      else case (read_id payload, read_i32 payload HEADER_BYTES) of
        (Some iid, Some index) \<Rightarrow>
          if index < 0 then ([], w)
          else (case map_of (images w) iid of
             None \<Rightarrow> ([], w)
           | Some img \<Rightarrow>
               if ci_owner img \<noteq> owner then ([], w)
               else (case list_get (if animation then animation_chunks img else chunks img) (nat index) of
                  None \<Rightarrow> ([], w)
                | Some (Some _) \<Rightarrow> ([], w)
                | Some None \<Rightarrow>
                    if animation \<and> animation_spawn img = None then ([], w)
                    else (case image_try_reserve order owner (length payload) iid config w of
                       (False, sends, w) \<Rightarrow> (sends, w)
                     | (True, sends, w) \<Rightarrow>
                         let w = put_image iid (store_chunk animation (nat index) payload (entry iid w)) w;
                             w = w\<lparr>total_bytes := total_bytes w + length payload\<rparr>;
                             (rest, w) = announce_chunk live owner iid animation peers w
                         in (sends @ rest, w))))
      | _ \<Rightarrow> ([], w))"

definition observe_transform ::
  "walk_order \<Rightarrow> bytes \<Rightarrow> cache_config \<Rightarrow> image_world \<Rightarrow> CacheSend list \<times> image_world" where
  "observe_transform order payload config w =
     (if length payload \<noteq> TRANSFORM_BYTES then ([], w)
      else case read_id payload of
        None \<Rightarrow> ([], w)
      | Some iid \<Rightarrow>
          (case map_of (images w) iid of
             None \<Rightarrow> ([], w)
           | Some img \<Rightarrow>
               if transform img = None then
                 (case image_try_reserve order (ci_owner img) TRANSFORM_BYTES iid config w of
                    (False, sends, w) \<Rightarrow> (sends, w)
                  | (True, sends, w) \<Rightarrow>
                      let img = entry iid w;
                          img = img\<lparr>image_bytes := image_bytes img + TRANSFORM_BYTES, transform := Some payload\<rparr>;
                          w = w\<lparr>total_bytes := total_bytes w + TRANSFORM_BYTES\<rparr>
                      in (sends, put_image iid img w))
               else ([], put_image iid ((entry iid w)\<lparr>transform := Some payload\<rparr>) w)))"

definition cache_observe ::
  "(nat \<Rightarrow> bool) \<Rightarrow> walk_order \<Rightarrow> nat \<Rightarrow> u16 \<Rightarrow> bytes \<Rightarrow> u16 list \<Rightarrow> cache_peers \<Rightarrow> bool \<Rightarrow> cache_config \<Rightarrow> image_world \<Rightarrow>
   CacheSend list \<times> image_world" where
  "cache_observe live order slot owner payload recipients peers allow_animation config w =
     (if \<not> image_cache_enabled config \<or> length payload < HEADER_BYTES then ([], w)
      else
        let op = payload ! 0
        in if op = OP_SPAWN then observe_spawn order slot owner payload recipients (cp_connected peers) config w
           else if op = OP_CHUNK then observe_chunk live order owner payload False peers config w
           else if op = OP_TRANSFORM then observe_transform order payload config w
           else if op = OP_SERVER_CACHE_REQUEST then image_request live owner payload allow_animation config w
           else if op = OP_ANIMATION_SPAWN then observe_animation_spawn order slot owner payload config w
           else if op = OP_ANIMATION_CHUNK then observe_chunk live order owner payload True peers config w
           else if op = OP_DESPAWN then
             (case read_id payload of
                Some iid \<Rightarrow> snd (remove_image iid owner True w)
              | None \<Rightarrow> ([], w))
           else ([], w))"

definition forget_peer :: "u16 \<Rightarrow> CachedImage \<Rightarrow> CachedImage" where
  "forget_peer peer img =
     img\<lparr>offered := removeAll peer (offered img), delivered := removeAll peer (delivered img),
           animation_delivered := removeAll peer (animation_delivered img)\<rparr>"

fun drop_images :: "image_id list \<Rightarrow> image_world \<Rightarrow> CacheSend list \<times> image_world" where
  "drop_images [] w = ([], w)"
| "drop_images (iid # ids) w =
     (let (_, sends, w) = drop_image iid w;
          (rest, w) = drop_images ids w
      in (sends @ rest, w))"

definition image_remove_player :: "u16 \<Rightarrow> image_world \<Rightarrow> CacheSend list \<times> image_world" where
  "image_remove_player peer w =
     (let owned = map fst (filter (\<lambda>(_, img). ci_owner img = peer) (images w));
          (sends, w) = drop_images owned w
      in (sends, w\<lparr>images := map (\<lambda>(iid, img). (iid, forget_peer peer img)) (images w)\<rparr>))"

end
