(* ===== verification/ImageCacheProofs.thy ===== *)
theory ImageCacheProofs
  imports ImageCache
begin

text \<open>
  The invariant of the image cache and its preservation: the byte counters are exact, every cached image is
  well formed, and a replay payload in the outgoing queue is readable only while its image is cached. Evictions
  enter as an interface: what holds of dropping one image, and composes, holds of a whole reservation.
\<close>

section \<open>Well-formed images\<close>

definition chunk_bytes :: "nat \<Rightarrow> bytes option list \<Rightarrow> nat" where
  "chunk_bytes slot cs = slot * length cs + sum_list (map length (some_chunks cs))"

definition image_cost :: "nat \<Rightarrow> CachedImage \<Rightarrow> nat" where
  "image_cost slot img =
     length (spawn img) + chunk_bytes slot (chunks img) +
     (case transform img of Some tr \<Rightarrow> length tr | None \<Rightarrow> 0) +
     (case animation_spawn img of Some sp \<Rightarrow> length sp | None \<Rightarrow> 0) + chunk_bytes slot (animation_chunks img)"

definition image_wf :: "nat \<Rightarrow> CachedImage \<Rightarrow> bool" where
  "image_wf slot img \<longleftrightarrow>
     image_bytes img = image_cost slot img \<and>
     chunks_held img = length (some_chunks (chunks img)) \<and>
     animation_chunks_held img = length (some_chunks (animation_chunks img)) \<and>
     (animation_spawn img = None \<longrightarrow> animation_chunks img = []) \<and>
     (\<forall>tr. transform img = Some tr \<longrightarrow> length tr = TRANSFORM_BYTES) \<and>
     0 < pose_offset img \<and> pose_offset img + POSE_BYTES \<le> length (spawn img) \<and>
     set (delivered img) \<subseteq> set (offered img) \<and> set (animation_delivered img) \<subseteq> set (delivered img)"

definition cache_inv :: "nat \<Rightarrow> image_world \<Rightarrow> bool" where
  "cache_inv slot w \<longleftrightarrow>
     distinct (map fst (images w)) \<and>
     total_bytes w = sum_list (map (\<lambda>(_, img). image_bytes img) (images w)) \<and>
     (\<forall>iid img. map_of (images w) iid = Some img \<longrightarrow>
        image_wf slot img \<and> (\<forall>c \<in> set (replay_payloads img). c < length (payload_cells w)))"

text \<open>The queue holds the cells \<open>Q\<close>; each of them is empty or belongs to an image that is still cached.\<close>

definition replays_backed :: "nat set \<Rightarrow> image_world \<Rightarrow> bool" where
  "replays_backed Q w \<longleftrightarrow>
     (\<forall>c \<in> Q. c < length (payload_cells w) \<and>
        (payload_cells w ! c \<noteq> None \<longrightarrow> (\<exists>iid img. map_of (images w) iid = Some img \<and> c \<in> set (replay_payloads img))))"

lemma replays_backed_Un: "replays_backed (A \<union> B) w \<longleftrightarrow> replays_backed A w \<and> replays_backed B w"
  by (simp add: replays_backed_def ball_Un)

definition paced_cells :: "CacheSend list \<Rightarrow> nat set" where
  "paced_cells sends = {cs_payload s | s. s \<in> set sends \<and> cs_paced s}"

lemma paced_cells_simps [simp]:
  "paced_cells [] = {}" "paced_cells (s @ t) = paced_cells s \<union> paced_cells t"
  "paced_cells (x # s) = (if cs_paced x then insert (cs_payload x) (paced_cells s) else paced_cells s)"
  by (auto simp: paced_cells_def)

lemma paced_cells_all: "list_all cs_paced sends \<Longrightarrow> paced_cells sends = set (map cs_payload sends)"
  by (auto simp: paced_cells_def list_all_iff)

lemma some_chunks_simps [simp]:
  "some_chunks [] = []" "some_chunks (None # cs) = some_chunks cs" "some_chunks (Some b # cs) = b # some_chunks cs"
  "some_chunks (replicate n None) = []"
  by (simp_all add: some_chunks_def)

lemma some_chunks_append [simp]: "some_chunks (xs @ ys) = some_chunks xs @ some_chunks ys"
  by (simp add: some_chunks_def)

lemma some_chunks_update:
  assumes "i < length cs" "cs ! i = None"
  shows "length (some_chunks (cs[i := Some b])) = Suc (length (some_chunks cs))"
    "sum_list (map length (some_chunks (cs[i := Some b]))) = length b + sum_list (map length (some_chunks cs))"
proof -
  have "cs = take i cs @ None # drop (Suc i) cs" using assms by (metis id_take_nth_drop)
  moreover have "cs[i := Some b] = take i cs @ Some b # drop (Suc i) cs" using assms(1) by (rule upd_conv_take_nth_drop)
  ultimately have
    "some_chunks cs = some_chunks (take i cs) @ some_chunks (drop (Suc i) cs)"
    "some_chunks (cs[i := Some b]) = some_chunks (take i cs) @ b # some_chunks (drop (Suc i) cs)"
    by (metis some_chunks_append some_chunks_simps(2)) (metis some_chunks_append some_chunks_simps(3) \<open>cs[i := Some b] = _\<close>)
  then show "length (some_chunks (cs[i := Some b])) = Suc (length (some_chunks cs))"
    "sum_list (map length (some_chunks (cs[i := Some b]))) = length b + sum_list (map length (some_chunks cs))"
    by simp_all
qed

lemma length_some_chunks: "length (some_chunks cs) \<le> length cs"
  by (simp add: some_chunks_def)

lemma some_chunks_full:
  assumes "length (some_chunks cs) = length cs"
  shows "map Some (some_chunks cs) = cs"
  using assms
proof (induction cs)
  case (Cons c cs)
  show ?case
  proof (cases c)
    case None
    then show ?thesis using Cons.prems length_some_chunks[of cs] by simp
  qed (use Cons in simp)
qed simp

section \<open>Cells\<close>

lemma fold_clear_nth:
  "length (fold (\<lambda>c cs. cs[c := None]) ks cs) = length cs"
  "k < length cs \<Longrightarrow> fold (\<lambda>c cs. cs[c := None]) ks cs ! k = (if k \<in> set ks then None else cs ! k)"
  by (induction ks arbitrary: cs) (auto simp: nth_list_update)

lemma take_payloads_frame [simp]:
  "images (take_payloads ks w) = images w" "total_bytes (take_payloads ks w) = total_bytes w"
  "ic_sequence (take_payloads ks w) = ic_sequence w"
  "length (payload_cells (take_payloads ks w)) = length (payload_cells w)"
  by (simp_all add: take_payloads_def fold_clear_nth)

lemma new_payload_frame:
  assumes "new_payload b w = (c, w')"
  shows "c = length (payload_cells w)" "images w' = images w" "total_bytes w' = total_bytes w"
    "ic_sequence w' = ic_sequence w" "payload_cells w' = payload_cells w @ [Some b]"
  using assms by (auto simp: new_payload_def)

text \<open>Adding cells that the queue does not hold changes nothing.\<close>

definition grows :: "image_world \<Rightarrow> image_world \<Rightarrow> bool" where
  "grows w w' \<longleftrightarrow> images w' = images w \<and> total_bytes w' = total_bytes w \<and> ic_sequence w' = ic_sequence w \<and>
     (\<exists>more. payload_cells w' = payload_cells w @ more)"

lemma grows_refl [simp]: "grows w w"
  by (simp add: grows_def)

lemma grows_trans: "grows w w1 \<Longrightarrow> grows w1 w2 \<Longrightarrow> grows w w2"
  by (auto simp: grows_def)

lemma grows_new_payload: "new_payload b w = (c, w') \<Longrightarrow> grows w w'"
  by (auto simp: grows_def dest: new_payload_frame)

lemma grows_state_send: "cache_state_send owner iid held w = (s, w') \<Longrightarrow> grows w w' \<and> \<not> cs_paced s"
  by (auto simp: cache_state_send_def dest: grows_new_payload split: prod.splits)

lemma grows_inv: "grows w w' \<Longrightarrow> cache_inv slot w \<Longrightarrow> cache_inv slot w'"
  by (fastforce simp: grows_def cache_inv_def)

lemma grows_backed: "grows w w' \<Longrightarrow> replays_backed Q w \<Longrightarrow> replays_backed Q w'"
  by (fastforce simp: grows_def replays_backed_def nth_append)

lemma grows_length: "grows w w' \<Longrightarrow> length (payload_cells w) \<le> length (payload_cells w')"
  by (auto simp: grows_def)

section \<open>What a step does\<close>

text \<open>The properties every operation keeps: the invariant, a cap on the bytes, and the backing of queued replays,
to which the operation adds the cells it sends out.\<close>

definition step_ok :: "nat \<Rightarrow> nat \<Rightarrow> nat set \<Rightarrow> image_world \<Rightarrow> CacheSend list \<Rightarrow> image_world \<Rightarrow> bool" where
  "step_ok slot cap Q w sends w' \<longleftrightarrow>
     (cache_inv slot w \<longrightarrow> cache_inv slot w') \<and> (total_bytes w \<le> cap \<longrightarrow> total_bytes w' \<le> cap) \<and>
     (replays_backed Q w \<longrightarrow> replays_backed (Q \<union> paced_cells sends) w') \<and>
     length (payload_cells w) \<le> length (payload_cells w') \<and>
     paced_cells sends \<subseteq> {length (payload_cells w)..<length (payload_cells w')}"

lemma step_ok_refl: "step_ok slot cap Q w [] w"
  by (simp add: step_ok_def)

lemma step_ok_grows: "grows w w' \<Longrightarrow> paced_cells sends = {} \<Longrightarrow> step_ok slot cap Q w sends w'"
  using grows_inv grows_backed grows_length by (auto simp: step_ok_def) (auto simp: grows_def)

lemma step_ok_trans:
  assumes "step_ok slot cap Q w s1 w1" "step_ok slot cap (Q \<union> paced_cells s1) w1 s2 w2"
  shows "step_ok slot cap Q w (s1 @ s2) w2"
  using assms unfolding step_ok_def by (auto simp: Un_assoc)

text \<open>Those cells that the queue holds, and those still to be made, are alive.\<close>

definition live_ok :: "(nat \<Rightarrow> bool) \<Rightarrow> nat set \<Rightarrow> image_world \<Rightarrow> bool" where
  "live_ok live Q w \<longleftrightarrow> (\<forall>c. c \<in> Q \<or> length (payload_cells w) \<le> c \<longrightarrow> live c)"

lemma live_ok_step: "live_ok live Q w \<Longrightarrow> step_ok slot cap Q w s w' \<Longrightarrow> live_ok live (Q \<union> paced_cells s) w'"
  by (fastforce simp: live_ok_def step_ok_def)

section \<open>An image changed in place\<close>

lemma sum_put_key:
  fixes f :: "'k \<times> 'v \<Rightarrow> nat"
  assumes "distinct (map fst xs)"
  shows "sum_list (map f (put_key k v xs)) + (case map_of xs k of Some o' \<Rightarrow> f (k, o') | None \<Rightarrow> 0) =
    sum_list (map f xs) + f (k, v)"
  using sum_split_key[OF assms, of k _ f] by (cases "map_of xs k") (simp_all add: put_key_def)

lemma inv_put_image:
  assumes inv: "cache_inv slot w" and old: "map_of (images w) iid = Some old" and wf: "image_wf slot img"
    and bytes: "image_bytes img = image_bytes old + extra"
    and cells: "\<And>c. c \<in> set (replay_payloads img) \<Longrightarrow> c < length (payload_cells w)"
  shows "cache_inv slot (put_image iid img (w\<lparr>total_bytes := total_bytes w + extra\<rparr>))"
proof -
  have dist: "distinct (map fst (images w))" using inv by (simp add: cache_inv_def)
  have "sum_list (map (\<lambda>(_, img). image_bytes img) (put_key iid img (images w))) =
      sum_list (map (\<lambda>(_, img). image_bytes img) (images w)) + extra"
    using sum_put_key[OF dist, of "\<lambda>(_, img). image_bytes img" iid img] old bytes by simp
  then show ?thesis
    using inv wf cells by (auto simp: cache_inv_def put_image_def simp del: map_of_eq_Some_iff)
qed

lemma backed_put_image:
  assumes "replays_backed Q w" "map_of (images w) iid = Some old"
    and "\<And>c. c \<in> Q \<Longrightarrow> c \<in> set (replay_payloads old) \<Longrightarrow> c \<in> set (replay_payloads img)"
  shows "replays_backed Q (put_image iid img (w\<lparr>total_bytes := n\<rparr>))"
  unfolding replays_backed_def
proof
  fix c assume c: "c \<in> Q"
  then have len: "c < length (payload_cells w)" using assms(1) by (simp add: replays_backed_def)
  moreover have "\<exists>i r. map_of (images (put_image iid img (w\<lparr>total_bytes := n\<rparr>))) i = Some r \<and> c \<in> set (replay_payloads r)"
    if filled: "payload_cells w ! c \<noteq> None"
  proof -
    obtain i r where r: "map_of (images w) i = Some r" "c \<in> set (replay_payloads r)"
      using assms(1) c filled unfolding replays_backed_def by blast
    show ?thesis
    proof (cases "i = iid")
      case True
      then show ?thesis using r assms(2,3) c by (intro exI[of _ iid] exI[of _ img]) (auto simp: put_image_def)
    qed (use r in \<open>auto simp: put_image_def intro!: exI[of _ i] exI[of _ r] simp del: map_of_eq_Some_iff\<close>)
  qed
  ultimately show "c < length (payload_cells (put_image iid img (w\<lparr>total_bytes := n\<rparr>))) \<and>
      (payload_cells (put_image iid img (w\<lparr>total_bytes := n\<rparr>)) ! c \<noteq> None \<longrightarrow>
       (\<exists>i r. map_of (images (put_image iid img (w\<lparr>total_bytes := n\<rparr>))) i = Some r \<and> c \<in> set (replay_payloads r)))"
    by (simp add: put_image_def)
qed

lemma put_image_frame [simp]:
  "payload_cells (put_image iid img w) = payload_cells w" "total_bytes (put_image iid img w) = total_bytes w"
  "images (put_image iid img w) = put_key iid img (images w)"
  by (simp_all add: put_image_def)

lemma step_ok_put_image:
  assumes old: "map_of (images w) iid = Some old" and wf: "image_wf slot old \<Longrightarrow> image_wf slot img"
    and bytes: "image_bytes img = image_bytes old + extra" and cap: "total_bytes w + extra \<le> cap \<or> extra = 0"
    and cells: "replay_payloads img = replay_payloads old"
  shows "step_ok slot cap Q w [] (put_image iid img (w\<lparr>total_bytes := total_bytes w + extra\<rparr>))"
proof -
  have "cache_inv slot (put_image iid img (w\<lparr>total_bytes := total_bytes w + extra\<rparr>))" if inv: "cache_inv slot w"
  proof (rule inv_put_image[OF inv old _ bytes])
    show "image_wf slot img" using inv old wf by (simp add: cache_inv_def)
    show "c < length (payload_cells w)" if "c \<in> set (replay_payloads img)" for c
      using inv old that cells by (auto simp: cache_inv_def simp del: map_of_eq_Some_iff)
  qed
  moreover have "replays_backed Q (put_image iid img (w\<lparr>total_bytes := total_bytes w + extra\<rparr>))" if "replays_backed Q w"
    using that old by (rule backed_put_image) (simp add: cells)
  ultimately show ?thesis using cap by (auto simp: step_ok_def)
qed

section \<open>Dropping an image\<close>

lemma drop_image_absent: "map_of (images w) iid = None \<Longrightarrow> drop_image iid w = (False, [], w)"
  by (simp add: drop_image_def)

text \<open>The world right after the entry is gone and its cells are emptied, before the notice is made.\<close>

definition without_image :: "image_id \<Rightarrow> CachedImage \<Rightarrow> image_world \<Rightarrow> image_world" where
  "without_image iid img w =
     (take_payloads (replay_payloads img) (w\<lparr>images := remove_key iid (images w)\<rparr>))
       \<lparr>total_bytes := total_bytes w - image_bytes img\<rparr>"

lemma without_image_frame [simp]:
  "images (without_image iid img w) = remove_key iid (images w)"
  "total_bytes (without_image iid img w) = total_bytes w - image_bytes img"
  "ic_sequence (without_image iid img w) = ic_sequence w"
  "length (payload_cells (without_image iid img w)) = length (payload_cells w)"
  by (simp_all add: without_image_def)

lemma without_image_cell:
  "c < length (payload_cells w) \<Longrightarrow>
     payload_cells (without_image iid img w) ! c = (if c \<in> set (replay_payloads img) then None else payload_cells w ! c)"
  by (simp add: without_image_def take_payloads_def fold_clear_nth)

lemma drop_image_cached:
  assumes "map_of (images w) iid = Some img" "drop_image iid w = (b, sends, w')"
  shows "b" "grows (without_image iid img w) w'" "paced_cells sends = {}"
  using assms grows_state_send
  by (auto simp: drop_image_def without_image_def Let_def split: prod.splits if_splits)

lemma inv_without_image:
  assumes inv: "cache_inv slot w" and img: "map_of (images w) iid = Some img"
  shows "cache_inv slot (without_image iid img w)"
proof -
  have dist: "distinct (map fst (images w))" using inv by (simp add: cache_inv_def)
  have "sum_list (map (\<lambda>(_, img). image_bytes img) (images w)) =
      image_bytes img + sum_list (map (\<lambda>(_, img). image_bytes img) (remove_key iid (images w)))"
    using sum_split_key[OF dist img, of "\<lambda>(_, img). image_bytes img"] by simp
  then show ?thesis using inv dist by (auto simp: cache_inv_def simp del: map_of_eq_Some_iff)
qed

lemma backed_without_image:
  assumes "replays_backed Q w" "map_of (images w) iid = Some img"
  shows "replays_backed Q (without_image iid img w)"
  unfolding replays_backed_def
proof
  fix c assume c: "c \<in> Q"
  then have len: "c < length (payload_cells w)" using assms(1) by (simp add: replays_backed_def)
  have "\<exists>i r. map_of (remove_key iid (images w)) i = Some r \<and> c \<in> set (replay_payloads r)"
    if filled: "payload_cells w ! c \<noteq> None" and other: "c \<notin> set (replay_payloads img)"
  proof -
    obtain i r where r: "map_of (images w) i = Some r" "c \<in> set (replay_payloads r)"
      using assms(1) c filled unfolding replays_backed_def by blast
    then have "i \<noteq> iid" using assms(2) other by auto
    then show ?thesis using r by (intro exI[of _ i] exI[of _ r]) simp
  qed
  then show "c < length (payload_cells (without_image iid img w)) \<and>
      (payload_cells (without_image iid img w) ! c \<noteq> None \<longrightarrow>
       (\<exists>i r. map_of (images (without_image iid img w)) i = Some r \<and> c \<in> set (replay_payloads r)))"
    using len by (simp add: without_image_cell)
qed

lemma drop_image_ok:
  assumes "drop_image iid w = (b, sends, w')"
  shows "step_ok slot cap Q w sends w'"
proof (cases "map_of (images w) iid")
  case None
  then show ?thesis using assms by (simp add: drop_image_absent step_ok_refl)
next
  case (Some img)
  have "step_ok slot cap Q w [] (without_image iid img w)"
    using inv_without_image[OF _ Some] backed_without_image[OF _ Some] by (auto simp: step_ok_def)
  moreover have "step_ok slot cap Q (without_image iid img w) sends w'"
    using drop_image_cached[OF Some assms] by (intro step_ok_grows)
  ultimately show ?thesis using step_ok_trans[of slot cap Q w "[]" "without_image iid img w" sends w'] by simp
qed

lemma drop_image_images:
  assumes "drop_image iid w = (b, sends, w')"
  shows "images w' = remove_key iid (images w)" "ic_sequence w' = ic_sequence w"
proof -
  show "images w' = remove_key iid (images w)"
    using assms drop_image_cached(2)[OF _ assms]
    by (cases "map_of (images w) iid") (auto simp: drop_image_absent grows_def)
  show "ic_sequence w' = ic_sequence w"
    using assms drop_image_cached(2)[OF _ assms]
    by (cases "map_of (images w) iid") (auto simp: drop_image_absent grows_def)
qed

section \<open>Reservations as sequences of evictions\<close>

text \<open>A relation between the world before, the messages and the world after, that holds of doing nothing, of dropping
any cached image but the protected one, and of one after the other.\<close>

locale eviction_relation =
  fixes R :: "image_world \<Rightarrow> CacheSend list \<Rightarrow> image_world \<Rightarrow> bool" and ex :: image_id
  assumes none: "R w [] w"
    and seq: "R w s1 w1 \<Longrightarrow> R w1 s2 w2 \<Longrightarrow> R w (s1 @ s2) w2"
    and drop_one: "iid \<noteq> ex \<Longrightarrow> iid \<in> fst ` set (images w) \<Longrightarrow> drop_image iid w = (b, s, w') \<Longrightarrow> R w s w'"
begin

lemma oldest_owned_other: "oldest_owned owner (Some ex) w = Some iid \<Longrightarrow> iid \<noteq> ex"
  by (auto simp: oldest_owned_def dest!: min_by_key_in)

lemma share_loop_at: "reserve_share owner cost share x w = (ok, s, w') \<Longrightarrow> x = ex \<Longrightarrow> R w s w'"
proof (induction owner cost share x w arbitrary: ok s w' rule: reserve_share.induct)
  case (1 owner cost share x w)
  note run = 1(2)[unfolded \<open>x = ex\<close>]
  show ?case
  proof (cases "min U64_MAX (owner_bytes owner w + cost) > share")
    case True
    show ?thesis
    proof (cases "oldest_owned owner (Some ex) w")
      case None
      then show ?thesis using run True none by (simp add: reserve_share.simps)
    next
      case (Some iid)
      obtain b s1 w1 where drop: "drop_image iid w = (b, s1, w1)" by (metis prod_cases3)
      obtain ok2 s2 w2 where rest: "reserve_share owner cost share ex w1 = (ok2, s2, w2)" by (metis prod_cases3)
      have "R w s1 w1"
        using drop_one[OF oldest_owned_other[OF Some] oldest_owned_cached[OF Some] drop] .
      moreover have "R w1 s2 w2" using 1(1)[unfolded \<open>x = ex\<close>, OF True Some drop[symmetric] refl refl rest refl] .
      moreover have "s = s1 @ s2" "w' = w2"
        using run True Some drop rest by (simp_all add: reserve_share.simps[of owner cost share ex w])
      ultimately show ?thesis using seq by simp
    qed
  qed (use run none in \<open>auto simp: reserve_share.simps split: if_splits\<close>)
qed

lemmas share_loop = share_loop_at[OF _ refl]

lemma total_loop_at: "reserve_total order cost cap x w = (ok, s, w') \<Longrightarrow> x = ex \<Longrightarrow> R w s w'"
proof (induction order cost cap x w arbitrary: ok s w' rule: reserve_total.induct)
  case (1 order cost cap x w)
  note run = 1(2)[unfolded \<open>x = ex\<close>]
  show ?case
  proof (cases "min U64_MAX (total_bytes w + cost) > cap")
    case True
    show ?thesis
    proof (cases "oldest_of_heaviest_owner order ex w")
      case None
      then show ?thesis using run True none by (simp add: reserve_total.simps)
    next
      case (Some iid)
      obtain b s1 w1 where drop: "drop_image iid w = (b, s1, w1)" by (metis prod_cases3)
      obtain ok2 s2 w2 where rest: "reserve_total order cost cap ex w1 = (ok2, s2, w2)" by (metis prod_cases3)
      have "iid \<noteq> ex"
        using Some oldest_owned_other by (auto simp: oldest_of_heaviest_owner_def split: option.splits)
      then have "R w s1 w1" using heaviest_cached[OF Some] drop by (rule drop_one)
      moreover have "R w1 s2 w2" using 1(1)[unfolded \<open>x = ex\<close>, OF True Some drop[symmetric] refl refl rest refl] .
      moreover have "s = s1 @ s2" "w' = w2"
        using run True Some drop rest by (simp_all add: reserve_total.simps[of order cost cap ex w])
      ultimately show ?thesis using seq by simp
    qed
  qed (use run none in \<open>auto simp: reserve_total.simps split: if_splits\<close>)
qed

lemmas total_loop = total_loop_at[OF _ refl]

lemma reservation:
  assumes "image_try_reserve order owner cost ex config w = (ok, s, w')"
  shows "R w s w'"
proof (cases "cache_cap config = 0 \<or> cost = 0 \<or> cost > cache_cap config \<or> cost > owner_share owner (cache_cap config) config w")
  case True
  then show ?thesis using assms none by (auto simp: image_try_reserve_def Let_def split: if_splits)
next
  case False
  obtain b s1 w1 where share: "reserve_share owner cost (owner_share owner (cache_cap config) config w) ex w = (b, s1, w1)"
    by (metis prod_cases3)
  show ?thesis
  proof (cases b)
    case True
    obtain ok2 s2 w2 where rest: "reserve_total order cost (cache_cap config) ex w1 = (ok2, s2, w2)" by (metis prod_cases3)
    have "s = s1 @ s2" "w' = w2"
      using assms False True share rest by (simp_all add: image_try_reserve_def Let_def)
    then show ?thesis using seq[OF share_loop[OF share] total_loop[OF rest]] by simp
  next
    case b: False
    then show ?thesis using assms False share share_loop[OF share] by (simp add: image_try_reserve_def Let_def)
  qed
qed

end

text \<open>Three instances: every step is sound, the protected entry stays and others stay or go as they are, and no
message of a reservation is a replay.\<close>

definition evicts :: "image_id \<Rightarrow> image_world \<Rightarrow> CacheSend list \<Rightarrow> image_world \<Rightarrow> bool" where
  "evicts ex w s w' \<longleftrightarrow>
     map_of (images w') ex = map_of (images w) ex \<and> ic_sequence w' = ic_sequence w \<and>
     (\<forall>iid img. map_of (images w') iid = Some img \<longrightarrow> map_of (images w) iid = Some img)"

interpretation evicting: eviction_relation "evicts ex" ex for ex
proof
  show "evicts ex w [] w" for w by (simp add: evicts_def)
  show "evicts ex w (s1 @ s2) w2" if "evicts ex w s1 w1" "evicts ex w1 s2 w2" for w s1 w1 s2 w2
    using that unfolding evicts_def by metis
  show "evicts ex w s w'" if "iid \<noteq> ex" "drop_image iid w = (b, s, w')" for iid w b s w'
    using that(1) drop_image_images[OF that(2)] by (simp add: evicts_def split: if_splits)
qed

definition eviction_ok :: "nat \<Rightarrow> nat \<Rightarrow> image_world \<Rightarrow> CacheSend list \<Rightarrow> image_world \<Rightarrow> bool" where
  "eviction_ok slot cap w s w' \<longleftrightarrow> (\<forall>Q. step_ok slot cap Q w s w') \<and> paced_cells s = {}"

lemma eviction_ok_seq: "eviction_ok slot cap w s1 w1 \<Longrightarrow> eviction_ok slot cap w1 s2 w2 \<Longrightarrow> eviction_ok slot cap w (s1 @ s2) w2"
  using step_ok_trans[of slot cap _ w s1 w1 s2 w2] by (simp add: eviction_ok_def)

lemma drop_image_unpaced: "drop_image iid w = (b, s, w') \<Longrightarrow> paced_cells s = {}"
  using drop_image_cached(3) drop_image_absent by (cases "map_of (images w) iid") auto

interpretation sound: eviction_relation "eviction_ok slot cap" ex for slot cap ex
proof
  show "eviction_ok slot cap w [] w" for w by (simp add: eviction_ok_def step_ok_refl)
  show "eviction_ok slot cap w (s1 @ s2) w2" if "eviction_ok slot cap w s1 w1" "eviction_ok slot cap w1 s2 w2" for w s1 w1 s2 w2
    using that by (rule eviction_ok_seq)
  show "eviction_ok slot cap w s w'" if "drop_image iid w = (b, s, w')" for iid w b s w'
    using that drop_image_ok[OF that] drop_image_unpaced[OF that] by (simp add: eviction_ok_def)
qed

section \<open>What a successful reservation guarantees\<close>

lemma megabytes_small: "megabytes mb < U64_MAX"
proof -
  have "sint mb < 2 ^ 31" using sint_lt[of mb] by simp
  then have "nat (sint mb) * BYTES_PER_MEGABYTE < 2 ^ 31 * BYTES_PER_MEGABYTE"
    by (simp add: BYTES_PER_MEGABYTE_def nat_less_iff)
  then show ?thesis by (auto simp: megabytes_def U64_MAX_def BYTES_PER_MEGABYTE_def)
qed

lemma cache_cap_small: "cache_cap config < U64_MAX"
  by (simp add: cache_cap_def megabytes_small)

lemma owner_share_le_cap: "owner_share owner cap config w \<le> cap"
  by (simp add: owner_share_def Let_def)

lemma reserve_share_true:
  assumes "reserve_share owner cost share ex w = (True, s, w')"
  shows "min U64_MAX (owner_bytes owner w' + cost) \<le> share"
  using assms
proof (induction owner cost share ex w arbitrary: s rule: reserve_share.induct)
  case (1 owner cost share ex w)
  show ?case
  proof (cases "min U64_MAX (owner_bytes owner w + cost) > share")
    case True
    then obtain iid where iid: "oldest_owned owner (Some ex) w = Some iid"
      using 1(2) by (auto simp: reserve_share.simps[of owner cost share ex w] split: option.splits)
    obtain b s1 w1 where drop: "drop_image iid w = (b, s1, w1)" by (metis prod_cases3)
    obtain s2 where "reserve_share owner cost share ex w1 = (True, s2, w')"
      using 1(2) True iid drop by (auto simp: reserve_share.simps[of owner cost share ex w] split: prod.splits)
    then show ?thesis using 1(1)[OF True iid drop[symmetric] refl refl] by blast
  next
    case False
    then show ?thesis using 1(2) by (auto simp: reserve_share.simps[of owner cost share ex w] split: if_splits)
  qed
qed

lemma reserve_total_true:
  assumes "reserve_total order cost cap ex w = (True, s, w')"
  shows "min U64_MAX (total_bytes w' + cost) \<le> cap"
  using assms
proof (induction order cost cap ex w arbitrary: s rule: reserve_total.induct)
  case (1 order cost cap ex w)
  show ?case
  proof (cases "min U64_MAX (total_bytes w + cost) > cap")
    case True
    then obtain iid where iid: "oldest_of_heaviest_owner order ex w = Some iid"
      using 1(2) by (auto simp: reserve_total.simps[of order cost cap ex w] split: option.splits)
    obtain b s1 w1 where drop: "drop_image iid w = (b, s1, w1)" by (metis prod_cases3)
    obtain s2 where "reserve_total order cost cap ex w1 = (True, s2, w')"
      using 1(2) True iid drop by (auto simp: reserve_total.simps[of order cost cap ex w] split: prod.splits)
    then show ?thesis using 1(1)[OF True iid drop[symmetric] refl refl] by blast
  next
    case False
    then show ?thesis using 1(2) by (auto simp: reserve_total.simps[of order cost cap ex w] split: if_splits)
  qed
qed

lemma try_reserve_true:
  assumes "image_try_reserve order owner cost ex config w = (True, s, w')"
  obtains s1 w1 s2 where "reserve_share owner cost (owner_share owner (cache_cap config) config w) ex w = (True, s1, w1)"
    "reserve_total order cost (cache_cap config) ex w1 = (True, s2, w')" "s = s1 @ s2" "0 < cost"
    "cost \<le> owner_share owner (cache_cap config) config w"
  using assms by (auto simp: image_try_reserve_def Let_def split: if_splits prod.splits bool.splits)

lemma reserved:
  assumes run: "image_try_reserve order owner cost ex config w = (True, s, w')"
  shows "total_bytes w' + cost \<le> cache_cap config" "map_of (images w') ex = map_of (images w) ex"
    "step_ok slot cap Q w s w'" "paced_cells s = {}" "entry ex w' = entry ex w"
proof -
  obtain s2 w1 where "reserve_total order cost (cache_cap config) ex w1 = (True, s2, w')"
    using run by (rule try_reserve_true)
  from reserve_total_true[OF this] show "total_bytes w' + cost \<le> cache_cap config"
    using cache_cap_small[of config] by linarith
  show keep: "map_of (images w') ex = map_of (images w) ex"
    using evicting.reservation[OF run] unfolding evicts_def by blast
  then show "entry ex w' = entry ex w" by (simp add: entry_def)
  show "step_ok slot cap Q w s w'" "paced_cells s = {}"
    using sound.reservation[OF run, of slot cap] by (simp_all add: eviction_ok_def)
qed

lemma reserved_any:
  assumes "image_try_reserve order owner cost ex config w = (ok, s, w')"
  shows "step_ok slot cap Q w s w'"
  using sound.reservation[OF assms, of slot cap] by (simp add: eviction_ok_def)

text \<open>A reservation followed by a change of the protected entry that adds the reserved bytes.\<close>

lemma reserve_then_put:
  assumes run: "image_try_reserve order owner cost iid config w = (True, s, w1)"
    and old: "map_of (images w) iid = Some old" and wf: "image_wf slot old \<Longrightarrow> image_wf slot img"
    and bytes: "image_bytes img = image_bytes old + cost" "replay_payloads img = replay_payloads old"
  shows "step_ok slot (cache_cap config) Q w s (put_image iid img (w1\<lparr>total_bytes := total_bytes w1 + cost\<rparr>))"
proof -
  note r = reserved[OF run]
  have "step_ok slot (cache_cap config) (Q \<union> paced_cells s) w1 []
      (put_image iid img (w1\<lparr>total_bytes := total_bytes w1 + cost\<rparr>))"
    using r(1,2) old by (intro step_ok_put_image[OF _ wf bytes(1) _ bytes(2)]) simp_all
  from step_ok_trans[OF r(3) this] show ?thesis by simp
qed

section \<open>Replays\<close>

lemma replay_sends_effect:
  assumes "replay_sends peer owner payloads w = (sends, w')"
  shows "images w' = images w \<and> total_bytes w' = total_bytes w \<and> ic_sequence w' = ic_sequence w \<and>
    payload_cells w' = payload_cells w @ map Some payloads \<and>
    sends = map (\<lambda>i. \<lparr>cs_recipient = peer, cs_owner = owner, cs_payload = i, cs_paced = True\<rparr>)
      [length (payload_cells w)..<length (payload_cells w) + length payloads]"
  using assms
proof (induction payloads arbitrary: w sends)
  case (Cons b payloads)
  obtain sends' where rest: "replay_sends peer owner payloads (w\<lparr>payload_cells := payload_cells w @ [Some b]\<rparr>) = (sends', w')"
    and sends: "sends = \<lparr>cs_recipient = peer, cs_owner = owner, cs_payload = length (payload_cells w), cs_paced = True\<rparr> # sends'"
    using Cons.prems by (auto simp: new_payload_def split: prod.splits)
  from Cons.IH[OF rest] show ?case by (simp add: sends upt_conv_Cons del: upt_Suc)
qed simp

lemma replay_image_ok:
  assumes old: "map_of (images w) iid = Some old" and wf: "image_wf slot old \<Longrightarrow> image_wf slot img"
    and same: "image_bytes img = image_bytes old" "replay_payloads img = replay_payloads old"
    and live: "live_ok live Q w" and run: "replay_image live iid peer img payloads w = (sends, w')"
    and wf_cells: "\<And>cs. image_wf slot (img\<lparr>replay_payloads := cs\<rparr>) = image_wf slot img"
  shows "step_ok slot cap Q w sends w'"
proof -
  obtain w1 where sent: "replay_sends peer (ci_owner img) payloads w = (sends, w1)"
    and w': "w' = put_image iid (img\<lparr>replay_payloads := filter live (replay_payloads img) @ map cs_payload sends\<rparr>) w1"
    using run by (auto simp: replay_image_def split: prod.splits)
  let ?new = "img\<lparr>replay_payloads := filter live (replay_payloads img) @ map cs_payload sends\<rparr>"
  let ?n = "length (payload_cells w)"
  note eff = replay_sends_effect[OF sent]
  have cells: "map cs_payload sends = [?n..<length (payload_cells w1)]" using eff by (simp add: comp_def)
  have "list_all cs_paced sends" using eff by (simp add: list_all_iff)
  then have paced: "paced_cells sends = {?n..<length (payload_cells w1)}"
    using paced_cells_all[of sends] by (simp add: cells)
  have g: "grows w w1" using eff by (auto simp: grows_def)
  have old1: "map_of (images w1) iid = Some old" using eff old by simp
  have "cache_inv slot w'" if inv: "cache_inv slot w"
  proof -
    have "image_wf slot old" and old_cells: "\<forall>c \<in> set (replay_payloads old). c < ?n"
      using inv old by (simp_all add: cache_inv_def)
    then have "cache_inv slot (put_image iid ?new (w1\<lparr>total_bytes := total_bytes w1 + 0\<rparr>))"
      using wf wf_cells same eff grows_length[OF g]
      by (intro inv_put_image[OF grows_inv[OF g inv] old1]) (auto simp: cells)
    then show ?thesis by (simp add: w')
  qed
  moreover have "replays_backed (Q \<union> paced_cells sends) w'" if backed: "replays_backed Q w"
  proof -
    have "replays_backed Q (put_image iid ?new (w1\<lparr>total_bytes := total_bytes w1\<rparr>))"
      by (rule backed_put_image[OF grows_backed[OF g backed] old1]) (use live same in \<open>auto simp: live_ok_def\<close>)
    moreover have "replays_backed (paced_cells sends) w'"
      unfolding replays_backed_def paced w' using cells by (auto intro!: exI[of _ iid] exI[of _ ?new])
    ultimately show ?thesis by (simp add: replays_backed_Un w')
  qed
  ultimately show ?thesis
    using eff paced grows_length[OF g] by (auto simp: step_ok_def w')
qed

section \<open>Offers and animations\<close>

lemma image_wf_sets:
  assumes "image_wf slot img" "set d \<subseteq> set f" "set a \<subseteq> set d"
  shows "image_wf slot (img\<lparr>offered := f, delivered := d, animation_delivered := a\<rparr>)"
  using assms by (simp add: image_wf_def image_cost_def)

lemma image_wf_replay [simp]: "image_wf slot (img\<lparr>replay_payloads := cs\<rparr>) = image_wf slot img"
  by (simp add: image_wf_def image_cost_def)

lemma image_wf_animated:
  "image_wf slot img \<Longrightarrow> peer \<in> set (delivered img) \<Longrightarrow>
     image_wf slot (img\<lparr>animation_delivered := List.insert peer (animation_delivered img)\<rparr>)"
  by (auto simp: image_wf_def image_cost_def)

lemma image_wf_delivered:
  "image_wf slot img \<Longrightarrow>
     image_wf slot (img\<lparr>delivered := List.insert peer (delivered img), offered := List.insert peer (offered img)\<rparr>)"
  by (auto simp: image_wf_def image_cost_def)

lemma image_wf_offered:
  "image_wf slot img \<Longrightarrow> image_wf slot (img\<lparr>offered := List.insert peer (offered img)\<rparr>)"
  by (auto simp: image_wf_def image_cost_def)

lemma step_ok_put_same:
  assumes "map_of (images w) iid = Some old" "image_wf slot old \<Longrightarrow> image_wf slot img"
    "image_bytes img = image_bytes old" "replay_payloads img = replay_payloads old"
  shows "step_ok slot cap Q w [] (put_image iid img w)"
  using step_ok_put_image[of w iid old slot img 0 cap Q] assms by simp

lemma mark_offered_ok:
  assumes "mark_offered iid peer w = (offer, w')"
  shows "step_ok slot cap Q w (case offer of Some s \<Rightarrow> [s] | None \<Rightarrow> []) w'"
proof (cases "map_of (images w) iid")
  case None
  then show ?thesis using assms by (simp add: mark_offered_def step_ok_refl)
next
  case (Some img)
  let ?img = "img\<lparr>offered := List.insert peer (offered img)\<rparr>"
  have put: "step_ok slot cap Q w [] (put_image iid ?img w)"
    by (rule step_ok_put_same[OF Some]) (simp_all add: image_wf_offered)
  consider "offer = None" "w' = w" | "offer = None" "w' = put_image iid ?img w"
    | s rest c where "offer = Some s" "\<not> cs_paced s" "new_payload (OP_SERVER_CACHE_OFFER # rest) (put_image iid ?img w) = (c, w')"
    using assms Some by (auto simp: mark_offered_def Let_def split: if_splits list.splits prod.splits)
  then show ?thesis
  proof cases
    case 3
    have "step_ok slot cap (Q \<union> paced_cells []) (put_image iid ?img w) [s] w'"
      by (rule step_ok_grows[OF grows_new_payload[OF 3(3)]]) (simp add: 3(2))
    from step_ok_trans[OF put this] show ?thesis by (simp add: 3(1))
  qed (use put in \<open>simp_all add: step_ok_refl\<close>)
qed

lemma mark_offered_all_ok:
  assumes "mark_offered_all xs w = (sends, w')"
  shows "step_ok slot cap Q w sends w'"
  using assms
proof (induction xs arbitrary: w sends Q)
  case Nil
  then show ?case by (simp add: step_ok_refl)
next
  case (Cons x xs)
  obtain iid peer where x: "x = (iid, peer)" by (cases x)
  obtain offer w1 where one: "mark_offered iid peer w = (offer, w1)" by force
  obtain s2 where rest: "mark_offered_all xs w1 = (s2, w')" "sends = (case offer of Some s \<Rightarrow> [s] | None \<Rightarrow> []) @ s2"
    using Cons.prems one by (auto simp: x split: prod.splits)
  show ?case unfolding rest(2) by (rule step_ok_trans[OF mark_offered_ok[OF one] Cons.IH[OF rest(1)]])
qed

lemma offer_peer_ok:
  assumes "offer_peer peer config w = (sends, w')"
  shows "step_ok slot cap Q w sends w'"
  using assms mark_offered_all_ok by (auto simp: offer_peer_def Let_def step_ok_refl split: if_splits)

lemma deliver_animation_ok:
  assumes live: "live_ok live Q w" and run: "deliver_animation live iid peer w = (sends, w')"
  shows "step_ok slot cap Q w sends w'"
proof (cases "\<exists>img. map_of (images w) iid = Some img \<and> still_complete img \<and> animation_complete img \<and>
    peer \<noteq> ci_owner img \<and> peer \<in> set (delivered img) \<and> peer \<notin> set (animation_delivered img)")
  case True
  then obtain img where img: "map_of (images w) iid = Some img" "still_complete img" "animation_complete img"
    "peer \<noteq> ci_owner img" "peer \<in> set (delivered img)" "peer \<notin> set (animation_delivered img)" by blast
  let ?img = "img\<lparr>animation_delivered := List.insert peer (animation_delivered img)\<rparr>"
  have "replay_image live iid peer ?img (append_animation ?img) w = (sends, w')"
    using run img by (simp add: deliver_animation_def Let_def)
  then show ?thesis
    by (intro replay_image_ok[OF img(1) image_wf_animated[OF _ img(5)] _ _ live]) simp_all
next
  case False
  then have "deliver_animation live iid peer w = ([], w)"
    by (auto simp: deliver_animation_def split: option.splits)
  then show ?thesis using run by (simp add: step_ok_refl)
qed

lemma deliver_animations_ok:
  assumes "live_ok live Q w" "deliver_animations live xs w = (sends, w')"
  shows "step_ok slot cap Q w sends w'"
  using assms
proof (induction xs arbitrary: w sends Q)
  case Nil
  then show ?case by (simp add: step_ok_refl)
next
  case (Cons x xs)
  obtain iid peer where x: "x = (iid, peer)" by (cases x)
  obtain s1 w1 where one: "deliver_animation live iid peer w = (s1, w1)" by force
  obtain s2 where rest: "deliver_animations live xs w1 = (s2, w')" "sends = s1 @ s2"
    using Cons.prems(2) one by (auto simp: x split: prod.splits)
  note ok = deliver_animation_ok[OF Cons.prems(1) one]
  show ?case
    unfolding rest(2) by (rule step_ok_trans[OF ok Cons.IH[OF live_ok_step[OF Cons.prems(1) ok] rest(1)]])
qed

lemma resume_animations_ok:
  assumes "live_ok live Q w" "resume_animations live allowed config w = (sends, w')"
  shows "step_ok slot cap Q w sends w'"
  using assms deliver_animations_ok by (auto simp: resume_animations_def Let_def step_ok_refl split: if_splits)

lemma peer_sets_frame [simp]:
  "build_spawn (img\<lparr>delivered := d, offered := f\<rparr>) = build_spawn img"
  "animation_complete (img\<lparr>delivered := d, offered := f\<rparr>) = animation_complete img"
  "append_animation (img\<lparr>delivered := d, offered := f, animation_delivered := a\<rparr>) = append_animation img"
  by (simp_all add: build_spawn_def animation_complete_def append_animation_def Let_def split: option.split)

lemma image_request_cases:
  assumes "image_request live peer payload allow config w = (sends, w')"
  obtains (ignored) "sends = []" "w' = w"
  | (served) iid img img' payloads where "image_cache_enabled config" "read_id payload = Some iid"
      "map_of (images w) iid = Some img"
      "still_complete img" "ci_owner img \<noteq> peer" "peer \<notin> set (delivered img)"
      "img' = img\<lparr>delivered := List.insert peer (delivered img), offered := List.insert peer (offered img),
         animation_delivered := (if allow \<and> animation_complete img \<and> peer \<notin> set (animation_delivered img)
           then List.insert peer (animation_delivered img) else animation_delivered img)\<rparr>"
      "payloads = build_spawn img # (case transform img of Some tr \<Rightarrow> [tr] | None \<Rightarrow> []) @ some_chunks (chunks img) @
         (if allow \<and> animation_complete img \<and> peer \<notin> set (animation_delivered img) then append_animation img else [])"
      "replay_image live iid peer img' payloads w = (sends, w')"
proof (cases "\<exists>iid img. \<not> (\<not> image_cache_enabled config \<or> length payload < HEADER_BYTES \<or> payload ! 0 \<noteq> OP_SERVER_CACHE_REQUEST) \<and>
    read_id payload = Some iid \<and> map_of (images w) iid = Some img \<and> still_complete img \<and> ci_owner img \<noteq> peer \<and>
    peer \<notin> set (delivered img)")
  case False
  then have "image_request live peer payload allow config w = ([], w)"
    by (auto simp: image_request_def split: option.splits)
  then show ?thesis using assms ignored by simp
next
  case True
  then obtain iid img where c: "\<not> (\<not> image_cache_enabled config \<or> length payload < HEADER_BYTES \<or> payload ! 0 \<noteq> OP_SERVER_CACHE_REQUEST)"
    "read_id payload = Some iid" "map_of (images w) iid = Some img" "still_complete img" "ci_owner img \<noteq> peer"
    "peer \<notin> set (delivered img)" by blast
  have on: "image_cache_enabled config" using c(1) by blast
  show ?thesis
    using assms c(1)
    by (cases "allow \<and> animation_complete img \<and> peer \<notin> set (animation_delivered img)")
      (auto intro!: served[OF on c(2-6) refl refl] simp: image_request_def c(2-6) Let_def)
qed

lemma image_request_ok:
  assumes live: "live_ok live Q w" and run: "image_request live peer payload allow config w = (sends, w')"
  shows "step_ok slot cap Q w sends w'"
  using run
proof (cases rule: image_request_cases)
  case ignored
  then show ?thesis by (simp add: step_ok_refl)
next
  case (served iid img img' payloads)
  have "image_wf slot img'" if "image_wf slot img"
    using image_wf_delivered[OF that, of peer] that by (auto simp: served(7) image_wf_def image_cost_def)
  then show ?thesis
    using served(9) by (intro replay_image_ok[OF served(3) _ _ _ live]) (simp_all add: served(7))
qed

end
