(* ===== verification/ImageCacheSteps.thy ===== *)
theory ImageCacheSteps
  imports ImageCacheProofs
begin

text \<open>
  Every operation of the image cache keeps the invariant, the cap and the backing of queued replays.
\<close>

section \<open>Spawns\<close>

lemma read_name_length_offset: "read_name_length bs offset n shift = Some (k, offset') \<Longrightarrow> offset < offset'"
  by (induction bs offset n shift rule: read_name_length.induct) (auto simp: Let_def split: if_splits)

lemma read_spawn_header_pose: "read_spawn_header payload = Some (n, pose) \<Longrightarrow> 0 < pose"
  by (auto simp: read_spawn_header_def Let_def split: option.splits prod.splits if_splits)

lemma set_fold_insert [simp]: "set (fold List.insert xs ys) = set xs \<union> set ys"
  by (induction xs arbitrary: ys) auto

lemma image_wf_seed:
  assumes "image_wf slot img"
  shows "image_wf slot (seed_already_held recipients connected img)"
  using assms by (auto simp: seed_already_held_def image_wf_def image_cost_def Let_def)

lemma seed_frame [simp]:
  "image_bytes (seed_already_held rs cs img) = image_bytes img"
  "replay_payloads (seed_already_held rs cs img) = replay_payloads img"
  by (simp_all add: seed_already_held_def Let_def)

lemma inv_insert_image:
  assumes inv: "cache_inv slot w" and fresh: "map_of (images w) iid = None" and wf: "image_wf slot img"
    and cells: "replay_payloads img = []"
  shows "cache_inv slot (put_image iid img (w\<lparr>ic_sequence := q, total_bytes := total_bytes w + image_bytes img\<rparr>))"
proof -
  have dist: "distinct (map fst (images w))" using inv by (simp add: cache_inv_def)
  have "sum_list (map (\<lambda>(_, img). image_bytes img) (put_key iid img (images w))) =
      sum_list (map (\<lambda>(_, img). image_bytes img) (images w)) + image_bytes img"
    using sum_put_key[OF dist, of "\<lambda>(_, img). image_bytes img" iid img] fresh by simp
  then show ?thesis
    using inv wf cells by (auto simp: cache_inv_def put_image_def simp del: map_of_eq_Some_iff)
qed

lemma backed_insert_image:
  assumes "replays_backed Q w" "map_of (images w) iid = None"
  shows "replays_backed Q (put_image iid img (w\<lparr>ic_sequence := q, total_bytes := n\<rparr>))"
  unfolding replays_backed_def
proof
  fix c assume "c \<in> Q"
  with assms(1) have len: "c < length (payload_cells w)"
    and held: "payload_cells w ! c \<noteq> None \<Longrightarrow> \<exists>i r. map_of (images w) i = Some r \<and> c \<in> set (replay_payloads r)"
    unfolding replays_backed_def by blast+
  have "\<exists>i r. map_of (put_key iid img (images w)) i = Some r \<and> c \<in> set (replay_payloads r)"
    if "payload_cells w ! c \<noteq> None"
    using held[OF that] assms(2) by (metis map_of_put_key option.distinct(1))
  then show "c < length (payload_cells (put_image iid img (w\<lparr>ic_sequence := q, total_bytes := n\<rparr>))) \<and>
      (payload_cells (put_image iid img (w\<lparr>ic_sequence := q, total_bytes := n\<rparr>)) ! c \<noteq> None \<longrightarrow>
       (\<exists>i r. map_of (images (put_image iid img (w\<lparr>ic_sequence := q, total_bytes := n\<rparr>))) i = Some r \<and>
         c \<in> set (replay_payloads r)))"
    using len by simp
qed

definition fresh_image :: "u16 \<Rightarrow> u64 \<Rightarrow> bytes \<Rightarrow> nat \<Rightarrow> nat \<Rightarrow> nat \<Rightarrow> CachedImage" where
  "fresh_image owner q payload n pose cost =
     \<lparr>ci_owner = owner, ci_sequence = q, offered = [], delivered = [], animation_delivered = [], spawn = payload,
      chunks = replicate n None, chunks_held = 0, pose_offset = pose, transform = None, animation_spawn = None,
      animation_chunks = [], animation_chunks_held = 0, replay_payloads = [], image_bytes = cost\<rparr>"

lemma observe_spawn_cases:
  assumes "observe_spawn order slot owner payload recipients connected config w = (sends, w')"
  obtains (ignored) "sends = []" "w' = w"
  | (refused) cost iid where "image_try_reserve order owner cost iid config w = (False, sends, w')"
  | (kept) iid n pose cost w1 where "read_id payload = Some iid" "read_spawn_header payload = Some (n, pose)" "0 < n"
      "pose + POSE_BYTES \<le> length payload" "map_of (images w) iid = None"
      "spawn_cost slot (length payload) (nat n) = Some cost"
      "image_try_reserve order owner cost iid config w = (True, sends, w1)"
      "w' = put_image iid (seed_already_held recipients connected
              (fresh_image owner (ic_sequence w1 + 1) payload (nat n) pose cost))
              (w1\<lparr>ic_sequence := ic_sequence w1 + 1, total_bytes := total_bytes w1 + cost\<rparr>)"
proof (cases "\<exists>iid n pose cost. read_id payload = Some iid \<and> read_spawn_header payload = Some (n, pose) \<and>
    \<not> (n \<le> 0 \<or> pose + POSE_BYTES > length payload \<or> map_of (images w) iid \<noteq> None) \<and>
    spawn_cost slot (length payload) (nat n) = Some cost")
  case False
  then have "observe_spawn order slot owner payload recipients connected config w = ([], w)"
    by (auto simp: observe_spawn_def split: option.splits)
  then show ?thesis using assms ignored by simp
next
  case True
  then obtain iid n pose cost where c: "read_id payload = Some iid" "read_spawn_header payload = Some (n, pose)"
    "\<not> (n \<le> 0 \<or> pose + POSE_BYTES > length payload \<or> map_of (images w) iid \<noteq> None)"
    "spawn_cost slot (length payload) (nat n) = Some cost" by blast
  obtain ok s w1 where run: "image_try_reserve order owner cost iid config w = (ok, s, w1)" by (metis prod_cases3)
  have split: "0 < n" "pose + POSE_BYTES \<le> length payload" "map_of (images w) iid = None" using c(3) by auto
  show ?thesis
  proof (cases ok)
    case True
    with run have "image_try_reserve order owner cost iid config w = (True, s, w1)" by simp
    then show ?thesis
      using assms c by (intro kept[OF c(1,2) split c(4)]) (auto simp: observe_spawn_def Let_def fresh_image_def)
  next
    case False
    then have "sends = s" "w' = w1" using assms c run by (auto simp: observe_spawn_def)
    then show ?thesis using run False by (intro refused[of cost iid]) simp
  qed
qed

lemma spawn_cost_value: "spawn_cost slot len n = Some cost \<Longrightarrow> cost = len + slot * n"
  by (auto simp: spawn_cost_def mult.commute split: if_splits)

lemma observe_spawn_ok:
  assumes "observe_spawn order slot owner payload recipients connected config w = (sends, w')"
  shows "step_ok slot (cache_cap config) Q w sends w'"
  using assms
proof (cases rule: observe_spawn_cases)
  case ignored
  then show ?thesis by (simp add: step_ok_refl)
next
  case (refused cost iid)
  then show ?thesis by (rule reserved_any)
next
  case (kept iid n pose cost w1)
  note r = reserved[OF kept(7)]
  let ?img = "seed_already_held recipients connected (fresh_image owner (ic_sequence w1 + 1) payload (nat n) pose cost)"
  have fresh: "map_of (images w1) iid = None" using r(2) kept(5) by simp
  have wf: "image_wf slot ?img"
    using kept(4) read_spawn_header_pose[OF kept(2)] spawn_cost_value[OF kept(6)]
    by (intro image_wf_seed) (simp add: image_wf_def fresh_image_def image_cost_def chunk_bytes_def)
  have bytes: "image_bytes ?img = cost" and cells: "replay_payloads ?img = []" by (simp_all add: fresh_image_def)
  have "step_ok slot (cache_cap config) (Q \<union> paced_cells sends) w1 [] w'"
    unfolding step_ok_def kept(8)
    using inv_insert_image[OF _ fresh wf cells, of "ic_sequence w1 + 1"] backed_insert_image[OF _ fresh] r(1) bytes by auto
  from step_ok_trans[OF r(3) this] show ?thesis by simp
qed

section \<open>Animations, chunks and poses\<close>

lemma observe_animation_spawn_cases:
  assumes "observe_animation_spawn order slot owner payload config w = (sends, w')"
  obtains (ignored) "sends = []" "w' = w"
  | (refused) cost iid where "image_try_reserve order owner cost iid config w = (False, sends, w')"
  | (kept) iid n cost img w1 where "map_of (images w) iid = Some img" "ci_owner img = owner" "animation_spawn img = None"
      "spawn_cost slot (length payload) (nat n) = Some cost"
      "image_try_reserve order owner cost iid config w = (True, sends, w1)"
      "w' = put_image iid (img\<lparr>animation_spawn := Some payload, animation_chunks := replicate (nat n) None,
              image_bytes := image_bytes img + cost\<rparr>) (w1\<lparr>total_bytes := total_bytes w1 + cost\<rparr>)"
proof (cases "\<exists>iid n img cost. \<not> length payload < HEADER_BYTES + 1 + 4 + 4 \<and> read_id payload = Some iid \<and>
    read_i32 payload (HEADER_BYTES + 1 + 4) = Some n \<and> \<not> n \<le> 0 \<and> map_of (images w) iid = Some img \<and>
    \<not> (ci_owner img \<noteq> owner \<or> animation_spawn img \<noteq> None) \<and> spawn_cost slot (length payload) (nat n) = Some cost")
  case False
  then have "observe_animation_spawn order slot owner payload config w = ([], w)"
    by (auto simp: observe_animation_spawn_def split: option.splits)
  then show ?thesis using assms ignored by simp
next
  case True
  then obtain iid n img cost where c: "\<not> length payload < HEADER_BYTES + 1 + 4 + 4" "read_id payload = Some iid"
    "read_i32 payload (HEADER_BYTES + 1 + 4) = Some n" "\<not> n \<le> 0" "map_of (images w) iid = Some img"
    "\<not> (ci_owner img \<noteq> owner \<or> animation_spawn img \<noteq> None)" "spawn_cost slot (length payload) (nat n) = Some cost"
    by blast
  obtain ok s w1 where run: "image_try_reserve order owner cost iid config w = (ok, s, w1)" by (metis prod_cases3)
  have own: "ci_owner img = owner" "animation_spawn img = None" using c(6) by auto
  show ?thesis
  proof (cases ok)
    case True
    with run have t: "image_try_reserve order owner cost iid config w = (True, s, w1)" by simp
    have "entry iid w1 = img" using reserved(5)[OF t] c(5) by (simp add: entry_def)
    then show ?thesis
      using assms c t by (intro kept[OF c(5) own c(7)]) (auto simp: observe_animation_spawn_def Let_def)
  next
    case False
    then have "sends = s" "w' = w1" using assms c run by (auto simp: observe_animation_spawn_def)
    then show ?thesis using run False by (intro refused[of cost iid]) simp
  qed
qed

lemma observe_animation_spawn_ok:
  assumes "observe_animation_spawn order slot owner payload config w = (sends, w')"
  shows "step_ok slot (cache_cap config) Q w sends w'"
  using assms
proof (cases rule: observe_animation_spawn_cases)
  case ignored
  then show ?thesis by (simp add: step_ok_refl)
next
  case (refused cost iid)
  then show ?thesis by (rule reserved_any)
next
  case (kept iid n cost img w1)
  let ?img = "img\<lparr>animation_spawn := Some payload, animation_chunks := replicate (nat n) None,
              image_bytes := image_bytes img + cost\<rparr>"
  have "image_wf slot ?img" if "image_wf slot img"
    using that kept(3) spawn_cost_value[OF kept(4)]
    by (auto simp: image_wf_def image_cost_def chunk_bytes_def split: option.split)
  then show ?thesis
    unfolding kept(6) by (intro reserve_then_put[OF kept(5,1)]) simp_all
qed

lemma image_wf_store:
  assumes wf: "image_wf slot img"
    and slot: "list_get (if animation then animation_chunks img else chunks img) i = Some None"
    and spawned: "animation \<Longrightarrow> animation_spawn img \<noteq> None"
  shows "image_wf slot (store_chunk animation i payload img)"
proof -
  have i: "i < length (if animation then animation_chunks img else chunks img)"
    "(if animation then animation_chunks img else chunks img) ! i = None"
    using slot by (simp_all add: list_get_def split: if_splits)
  show ?thesis
  proof (cases animation)
    case True
    then show ?thesis using wf i spawned some_chunks_update[of i "animation_chunks img" payload]
      by (auto simp: store_chunk_def image_wf_def image_cost_def chunk_bytes_def split: option.split)
  next
    case False
    then show ?thesis using wf i some_chunks_update[of i "chunks img" payload]
      by (auto simp: store_chunk_def image_wf_def image_cost_def chunk_bytes_def split: option.split)
  qed
qed

lemma announce_chunk_ok:
  assumes live: "live_ok live Q w" and run: "announce_chunk live owner iid animation peers w = (sends, w')"
  shows "step_ok slot cap Q w sends w'"
proof (cases "\<not> animation \<and> still_complete (entry iid w)")
  case True
  obtain s w1 where st: "cache_state_send owner iid True w = (s, w1)" by force
  obtain offers where offers: "mark_offered_all (map (\<lambda>peer. (iid, peer)) (cp_connected peers)) w1 = (offers, w')"
    and sends: "sends = [s] @ offers"
    using run True st by (auto simp: announce_chunk_def Let_def split: prod.splits)
  have "step_ok slot cap Q w [s] w1" using grows_state_send[OF st] by (intro step_ok_grows) simp_all
  from step_ok_trans[OF this mark_offered_all_ok[OF offers]] show ?thesis by (simp add: sends)
next
  case False
  then show ?thesis
    using run deliver_animations_ok[OF live]
    by (auto simp: announce_chunk_def Let_def step_ok_refl split: if_splits)
qed

lemma observe_chunk_cases:
  assumes "observe_chunk live order owner payload animation peers config w = (sends, w')"
  obtains (ignored) "sends = []" "w' = w"
  | (refused) cost iid where "image_try_reserve order owner cost iid config w = (False, sends, w')"
  | (kept) iid i img s1 w1 s2 where "map_of (images w) iid = Some img" "ci_owner img = owner"
      "list_get (if animation then animation_chunks img else chunks img) i = Some None"
      "animation \<longrightarrow> animation_spawn img \<noteq> None"
      "image_try_reserve order owner (length payload) iid config w = (True, s1, w1)"
      "announce_chunk live owner iid animation peers
         (put_image iid (store_chunk animation i payload img) (w1\<lparr>total_bytes := total_bytes w1 + length payload\<rparr>)) = (s2, w')"
      "sends = s1 @ s2"
proof (cases "\<exists>iid index img. \<not> length payload < HEADER_BYTES + 8 \<and> read_id payload = Some iid \<and>
    read_i32 payload HEADER_BYTES = Some index \<and> \<not> index < 0 \<and> map_of (images w) iid = Some img \<and>
    \<not> ci_owner img \<noteq> owner \<and> list_get (if animation then animation_chunks img else chunks img) (nat index) = Some None \<and>
    \<not> (animation \<and> animation_spawn img = None)")
  case False
  then have "observe_chunk live order owner payload animation peers config w = ([], w)"
    by (cases animation) (auto simp: observe_chunk_def split: option.splits)
  then show ?thesis using assms ignored by simp
next
  case True
  then obtain iid index img where c: "\<not> length payload < HEADER_BYTES + 8" "read_id payload = Some iid"
    "read_i32 payload HEADER_BYTES = Some index" "\<not> index < 0" "map_of (images w) iid = Some img" "\<not> ci_owner img \<noteq> owner"
    "list_get (if animation then animation_chunks img else chunks img) (nat index) = Some None"
    "\<not> (animation \<and> animation_spawn img = None)" by blast
  obtain ok s w1 where run: "image_try_reserve order owner (length payload) iid config w = (ok, s, w1)" by (metis prod_cases3)
  show ?thesis
  proof (cases ok)
    case True
    with run have t: "image_try_reserve order owner (length payload) iid config w = (True, s, w1)" by simp
    have e: "entry iid w1 = img" using reserved(5)[OF t] c(5) by (simp add: entry_def)
    obtain s2 w2 where ann: "announce_chunk live owner iid animation peers
       (put_image iid (store_chunk animation (nat index) payload img) (w1\<lparr>total_bytes := total_bytes w1 + length payload\<rparr>)) = (s2, w2)"
      by force
    have "put_image iid (store_chunk animation (nat index) payload img) w1\<lparr>total_bytes :=
        total_bytes w1 + length payload\<rparr> =
      put_image iid (store_chunk animation (nat index) payload img) (w1\<lparr>total_bytes := total_bytes w1 + length payload\<rparr>)"
      by (simp add: put_image_def)
    then have "sends = s @ s2" "w' = w2"
      using assms c t e ann by (simp_all add: observe_chunk_def Let_def)
    then show ?thesis using c ann by (intro kept[OF c(5) _ c(7) _ t]) simp_all
  next
    case False
    then have "sends = s" "w' = w1" using assms c run by (simp_all add: observe_chunk_def)
    then show ?thesis using run False by (intro refused[of "length payload" iid]) simp
  qed
qed

lemma observe_chunk_ok:
  assumes live: "live_ok live Q w" and run: "observe_chunk live order owner payload animation peers config w = (sends, w')"
  shows "step_ok slot (cache_cap config) Q w sends w'"
  using run
proof (cases rule: observe_chunk_cases)
  case ignored
  then show ?thesis by (simp add: step_ok_refl)
next
  case (refused cost iid)
  then show ?thesis by (rule reserved_any)
next
  case (kept iid i img s1 w1 s2)
  have "step_ok slot (cache_cap config) Q w s1
      (put_image iid (store_chunk animation i payload img) (w1\<lparr>total_bytes := total_bytes w1 + length payload\<rparr>))"
    using kept(4) image_wf_store[OF _ kept(3)] by (intro reserve_then_put[OF kept(5,1)]) (simp_all add: store_chunk_def)
  from step_ok_trans[OF this announce_chunk_ok[OF live_ok_step[OF live this] kept(6)]] show ?thesis by (simp add: kept(7))
qed

lemma observe_transform_ok:
  assumes "observe_transform order payload config w = (sends, w')"
  shows "step_ok slot (cache_cap config) Q w sends w'"
proof (cases "\<exists>iid img. length payload = TRANSFORM_BYTES \<and> read_id payload = Some iid \<and> map_of (images w) iid = Some img")
  case False
  then have "observe_transform order payload config w = ([], w)"
    by (auto simp: observe_transform_def split: option.splits)
  then show ?thesis using assms by (simp add: step_ok_refl)
next
  case True
  then obtain iid img where c: "length payload = TRANSFORM_BYTES" "read_id payload = Some iid" "map_of (images w) iid = Some img"
    by blast
  show ?thesis
  proof (cases "transform img")
    case None
    obtain ok s w1 where run: "image_try_reserve order (ci_owner img) TRANSFORM_BYTES iid config w = (ok, s, w1)"
      by (metis prod_cases3)
    show ?thesis
    proof (cases ok)
      case True
      with run have t: "image_try_reserve order (ci_owner img) TRANSFORM_BYTES iid config w = (True, s, w1)" by simp
      have e: "entry iid w1 = img" using reserved(5)[OF t] c(3) by (simp add: entry_def)
      let ?img = "img\<lparr>image_bytes := image_bytes img + TRANSFORM_BYTES, transform := Some payload\<rparr>"
      have "image_wf slot ?img" if "image_wf slot img"
        using that None c(1) by (auto simp: image_wf_def image_cost_def)
      then have "step_ok slot (cache_cap config) Q w s (put_image iid ?img (w1\<lparr>total_bytes := total_bytes w1 + TRANSFORM_BYTES\<rparr>))"
        by (intro reserve_then_put[OF t c(3)]) simp_all
      then show ?thesis using assms c None t e by (simp add: observe_transform_def Let_def)
    next
      case False
      then show ?thesis using assms c None run reserved_any[OF run] by (simp add: observe_transform_def)
    qed
  next
    case (Some tr)
    have "image_wf slot (img\<lparr>transform := Some payload\<rparr>)" if "image_wf slot img"
      using that Some c(1) by (auto simp: image_wf_def image_cost_def)
    then show ?thesis
      using assms c Some step_ok_put_same[OF c(3), of slot "img\<lparr>transform := Some payload\<rparr>"]
      by (simp add: observe_transform_def entry_def)
  qed
qed

section \<open>The whole cache\<close>

lemma cache_observe_ok:
  assumes live: "live_ok live Q w"
    and run: "cache_observe live order slot owner payload recipients peers allow config w = (sends, w')"
  shows "step_ok slot (cache_cap config) Q w sends w'"
proof -
  have "step_ok slot (cache_cap config) Q w s w2" if "remove_image iid owner True w = (b, s, w2)" for iid b s w2
    using that drop_image_ok by (auto simp: remove_image_def step_ok_refl split: option.splits if_splits)
  then have removed: "step_ok slot (cache_cap config) Q w s w2" if "snd (remove_image iid owner True w) = (s, w2)" for iid s w2
    using that by (metis prod.collapse)
  from run show ?thesis
    using observe_spawn_ok observe_chunk_ok[OF live] observe_transform_ok image_request_ok[OF live]
      observe_animation_spawn_ok removed
    by (auto simp: cache_observe_def Let_def step_ok_refl split: if_splits option.splits)
qed

lemma drop_images_ok:
  assumes "drop_images ids w = (sends, w')"
  shows "step_ok slot cap Q w sends w' \<and> images w' = filter (\<lambda>p. fst p \<notin> set ids) (images w)"
  using assms
proof (induction ids arbitrary: w sends Q)
  case Nil
  then show ?case by (simp add: step_ok_refl)
next
  case (Cons iid ids)
  obtain b s1 w1 where one: "drop_image iid w = (b, s1, w1)" by (metis prod_cases3)
  obtain s2 where rest: "drop_images ids w1 = (s2, w')" "sends = s1 @ s2"
    using Cons.prems one by (auto split: prod.splits)
  have "images w' = filter (\<lambda>p. fst p \<notin> set (iid # ids)) (images w)"
    using Cons.IH[OF rest(1)] drop_image_images[OF one] by (simp add: remove_key_def conj_commute)
  then show ?case
    using step_ok_trans[OF drop_image_ok[OF one]] Cons.IH[OF rest(1)] unfolding rest(2) by blast
qed

lemma map_of_map_image: "map_of (map (\<lambda>(i, img). (i, f img)) xs) k = map_option f (map_of xs k)"
  by (induction xs) auto

lemma forget_peer_frame [simp]:
  "image_bytes (forget_peer p img) = image_bytes img" "replay_payloads (forget_peer p img) = replay_payloads img"
  "ci_owner (forget_peer p img) = ci_owner img"
  by (simp_all add: forget_peer_def)

lemma image_wf_forget: "image_wf slot img \<Longrightarrow> image_wf slot (forget_peer p img)"
  by (auto simp: forget_peer_def image_wf_def image_cost_def)

lemma step_ok_forget:
  "step_ok slot cap Q w [] (w\<lparr>images := map (\<lambda>(iid, img). (iid, forget_peer p img)) (images w)\<rparr>)"
proof -
  have sums: "map (\<lambda>(_, img). image_bytes img) (map (\<lambda>(iid, img). (iid, forget_peer p img)) xs) =
      map (\<lambda>(_, img). image_bytes img) xs" for xs :: "(image_id \<times> CachedImage) list" by (induction xs) auto
  have keys: "map fst (map (\<lambda>(iid, img). (iid, forget_peer p img)) xs) = map fst xs"
    for xs :: "(image_id \<times> CachedImage) list" by (induction xs) auto
  show ?thesis
    using image_wf_forget unfolding step_ok_def
    by (auto simp: cache_inv_def replays_backed_def map_of_map_image sums keys
        simp del: map_of_eq_Some_iff map_map) (metis forget_peer_frame(2) option.simps(9))
qed

lemma image_remove_player_ok:
  assumes "image_remove_player peer w = (sends, w')"
  shows "step_ok slot cap Q w sends w'"
proof -
  obtain w1 where drop: "drop_images (map fst (filter (\<lambda>(_, img). ci_owner img = peer) (images w))) w = (sends, w1)"
    and w': "w' = w1\<lparr>images := map (\<lambda>(iid, img). (iid, forget_peer peer img)) (images w1)\<rparr>"
    using assms by (auto simp: image_remove_player_def Let_def split: prod.splits)
  have "step_ok slot cap Q w sends w1" using drop_images_ok[OF drop] by blast
  from step_ok_trans[OF this step_ok_forget] show ?thesis by (simp add: w')
qed

lemma cache_reset_ok: "step_ok slot cap Q w [] (cache_reset w)"
proof -
  have "replays_backed Q (cache_reset w)" if b: "replays_backed Q w"
    unfolding replays_backed_def
  proof (intro ballI conjI impI)
    fix c assume c: "c \<in> Q"
    then show len: "c < length (payload_cells (cache_reset w))"
      using b by (simp add: replays_backed_def cache_reset_def)
    assume "payload_cells (cache_reset w) ! c \<noteq> None"
    moreover have "c < length (payload_cells w)" using b c by (simp add: replays_backed_def)
    ultimately have "payload_cells w ! c \<noteq> None"
      and free: "c \<notin> set (concat (map (\<lambda>(_, img). replay_payloads img) (images w)))"
      by (auto simp: cache_reset_def take_payloads_def fold_clear_nth split: if_splits)
    then obtain i r where "map_of (images w) i = Some r" "c \<in> set (replay_payloads r)"
      using b c unfolding replays_backed_def by blast
    then have False using free by (force dest: map_of_SomeD)
    then show "\<exists>iid img. map_of (images (cache_reset w)) iid = Some img \<and> c \<in> set (replay_payloads img)" ..
  qed
  then show ?thesis by (simp add: step_ok_def cache_reset_def cache_inv_def)
qed

end
