(* ===== verification/ImageCacheProperties.thy ===== *)
theory ImageCacheProperties
  imports ImageCacheSteps
begin

text \<open>
  The image cache in every state it can reach under one configuration, with the set of replay cells that the
  outgoing queue still holds, and its properties.
\<close>

inductive cache_reach :: "nat \<Rightarrow> cache_config \<Rightarrow> nat set \<Rightarrow> image_world \<Rightarrow> bool" for slot config where
  start: "cache_reach slot config {} image_world_default"
| observed: "cache_reach slot config Q w \<Longrightarrow> live_ok live Q w \<Longrightarrow>
    cache_observe live order slot owner payload recipients peers allow config w = (sends, w') \<Longrightarrow>
    cache_reach slot config (Q \<union> paced_cells sends) w'"
| joined: "cache_reach slot config Q w \<Longrightarrow> offer_peer peer config w = (sends, w') \<Longrightarrow>
    cache_reach slot config (Q \<union> paced_cells sends) w'"
| resumed: "cache_reach slot config Q w \<Longrightarrow> live_ok live Q w \<Longrightarrow>
    resume_animations live allowed config w = (sends, w') \<Longrightarrow> cache_reach slot config (Q \<union> paced_cells sends) w'"
| left_peer: "cache_reach slot config Q w \<Longrightarrow> image_remove_player peer w = (sends, w') \<Longrightarrow>
    cache_reach slot config (Q \<union> paced_cells sends) w'"
| emptied: "cache_reach slot config Q w \<Longrightarrow> cache_reach slot config Q (cache_reset w)"
| sent: "cache_reach slot config Q w \<Longrightarrow> Q' \<subseteq> Q \<Longrightarrow> cache_reach slot config Q' w"

definition world_ok :: "nat \<Rightarrow> cache_config \<Rightarrow> nat set \<Rightarrow> image_world \<Rightarrow> bool" where
  "world_ok slot config Q w \<longleftrightarrow> cache_inv slot w \<and> total_bytes w \<le> cache_cap config \<and> replays_backed Q w"

lemma world_ok_step:
  "world_ok slot config Q w \<Longrightarrow> step_ok slot (cache_cap config) Q w s w' \<Longrightarrow> world_ok slot config (Q \<union> paced_cells s) w'"
  by (simp add: world_ok_def step_ok_def)

lemma reach_world_ok: "cache_reach slot config Q w \<Longrightarrow> world_ok slot config Q w"
proof (induction rule: cache_reach.induct)
  case start
  show ?case by (simp add: world_ok_def cache_inv_def replays_backed_def image_world_default_def)
next
  case (emptied Q w)
  then show ?case using world_ok_step[OF _ cache_reset_ok, of slot config Q w] by simp
next
  case (sent Q w Q')
  then show ?case by (auto simp: world_ok_def replays_backed_def)
qed (auto intro: world_ok_step cache_observe_ok offer_peer_ok resume_animations_ok image_remove_player_ok)

section \<open>Bytes\<close>

text \<open>
  C18. Under one configuration the cache never holds more than the configured megabytes, whatever is uploaded and in
  whatever order: its counter is the exact sum of what the cached images occupy (spawn, pose, animation header, chunk
  slots and stored chunks), it stays within the cap, and so none of its 64-bit additions overflows.
\<close>

theorem image_cache_within_cap:
  assumes "cache_reach slot config Q w"
  shows "total_bytes w = sum_list (map (\<lambda>(_, img). image_cost slot img) (images w)) \<and>
    total_bytes w \<le> cache_cap config \<and> total_bytes w < 2 ^ 64"
proof -
  note ok = reach_world_ok[OF assms]
  have dist: "distinct (map fst (images w))"
    and tot: "total_bytes w = sum_list (map (\<lambda>(_, img). image_bytes img) (images w))"
    and wf: "\<And>iid img. map_of (images w) iid = Some img \<Longrightarrow> image_wf slot img"
    using ok by (simp_all add: world_ok_def cache_inv_def)
  have "image_bytes img = image_cost slot img" if "(iid, img) \<in> set (images w)" for iid img
    using wf[of iid img] that dist by (simp add: image_wf_def)
  then have "map (\<lambda>(_, img). image_bytes img) (images w) = map (\<lambda>(_, img). image_cost slot img) (images w)"
    by auto
  then have "total_bytes w = sum_list (map (\<lambda>(_, img). image_cost slot img) (images w))" unfolding tot by (rule arg_cong)
  moreover have cap: "total_bytes w \<le> cache_cap config" using ok by (simp add: world_ok_def)
  moreover have "total_bytes w < 2 ^ 64" using cap cache_cap_small[of config] by (simp add: U64_MAX_def)
  ultimately show ?thesis by blast
qed

section \<open>Replays\<close>

text \<open>
  Nothing of an image leaves the server after the cache gave it up: a replay that still waits in the outgoing queue
  can be read only while its image is cached. Eviction, despawn, the departure of the owner and a reset all empty the
  queued payloads of the images they drop.
\<close>

theorem queued_replay_needs_cached_image:
  assumes "cache_reach slot config Q w" "c \<in> Q" "payload_cells w ! c = Some payload"
  shows "\<exists>iid img. map_of (images w) iid = Some img \<and> c \<in> set (replay_payloads img)"
  using reach_world_ok[OF assms(1)] assms(2,3) by (auto simp: world_ok_def replays_backed_def)

lemma list_all_map_nth_append:
  "map (\<lambda>i. (xs @ ys) ! i) [length xs..<length xs + length ys] = ys"
  by (rule nth_equalityI) (simp_all add: nth_append)

text \<open>
  A request that is served is served completely and once: it names a cached image whose still is complete and that
  the requester neither owns nor already has; the messages carry, in this order, the spawn with the latest pose, the
  last transform, every chunk of the still in order of its index, and the animation where allowed, all of them to the
  requester; and asking again yields nothing.
\<close>

theorem request_replays_whole_image:
  assumes reach: "cache_reach slot config Q w"
    and run: "image_request live peer payload allow config w = (sends, w')" and served: "sends \<noteq> []"
  shows "\<exists>iid img parts animation. read_id payload = Some iid \<and> map_of (images w) iid = Some img \<and>
    ci_owner img \<noteq> peer \<and> peer \<notin> set (delivered img) \<and> map Some parts = chunks img \<and>
    map (\<lambda>s. payload_cells w' ! cs_payload s) sends =
      map Some (build_spawn img # (case transform img of Some tr \<Rightarrow> [tr] | None \<Rightarrow> []) @ parts @ animation) \<and>
    list_all (\<lambda>s. cs_recipient s = peer \<and> cs_owner s = ci_owner img \<and> cs_paced s) sends \<and>
    image_request live peer payload allow config w' = ([], w')"
  using run
proof (cases rule: image_request_cases)
  case (served iid img img' payloads)
  obtain w1 where sent: "replay_sends peer (ci_owner img') payloads w = (sends, w1)"
    and w': "w' = put_image iid (img'\<lparr>replay_payloads := filter live (replay_payloads img') @ map cs_payload sends\<rparr>) w1"
    using served(9) by (auto simp: replay_image_def split: prod.splits)
  note eff = replay_sends_effect[OF sent]
  have wf: "image_wf slot img" using reach_world_ok[OF reach] served(3) by (simp add: world_ok_def cache_inv_def)
  then have parts: "map Some (some_chunks (chunks img)) = chunks img"
    using served(4) by (intro some_chunks_full) (simp add: image_wf_def still_complete_def)
  have cells: "map (\<lambda>s. payload_cells w' ! cs_payload s) sends = map Some payloads"
    using eff list_all_map_nth_append[of "payload_cells w" "map Some payloads"] by (simp add: w' comp_def)
  have to: "list_all (\<lambda>s. cs_recipient s = peer \<and> cs_owner s = ci_owner img \<and> cs_paced s) sends"
    using eff by (simp add: list_all_iff served(7))
  have again: "image_request live peer payload allow config w' = ([], w')"
    by (simp add: image_request_def served(2) w' served(7))
  show ?thesis
    using served(2,3,5,6) parts cells to again unfolding served(8)
    by (intro exI[of _ iid] exI[of _ img] exI[of _ "some_chunks (chunks img)"]
        exI[of _ "if allow \<and> animation_complete img \<and> peer \<notin> set (animation_delivered img) then append_animation img else []"])
      simp
qed (use served in simp)

section \<open>Offers\<close>

lemma mark_offered_again:
  assumes "\<And>img. map_of (images w) iid = Some img \<Longrightarrow> still_complete img \<Longrightarrow> ci_owner img \<noteq> peer \<Longrightarrow>
     peer \<in> set (offered img) \<or> peer \<in> set (delivered img)"
  shows "mark_offered iid peer w = (None, w)"
  using assms by (auto simp: mark_offered_def split: option.splits)

lemma mark_offered_images:
  assumes "mark_offered iid peer w = (offer, w')"
  shows "map_of (images w') k = map_option (\<lambda>img. if k = iid \<and> still_complete img \<and> ci_owner img \<noteq> peer \<and>
      peer \<notin> set (offered img) \<and> peer \<notin> set (delivered img)
    then img\<lparr>offered := List.insert peer (offered img)\<rparr> else img) (map_of (images w) k)"
proof (cases "map_of (images w) iid")
  case None
  then show ?thesis using assms by (cases "map_of (images w) k") (auto simp: mark_offered_def)
next
  case (Some img)
  show ?thesis
  proof (cases "\<not> still_complete img \<or> ci_owner img = peer \<or> peer \<in> set (offered img) \<or> peer \<in> set (delivered img)")
    case True
    then show ?thesis using assms Some by (cases "map_of (images w) k") (auto simp: mark_offered_def)
  next
    case False
    then have "images w' = put_key iid (img\<lparr>offered := List.insert peer (offered img)\<rparr>) (images w)"
      using assms Some by (auto simp: mark_offered_def Let_def new_payload_def split: list.splits)
    then show ?thesis using Some False by (cases "map_of (images w) k") auto
  qed
qed

text \<open>An image the peer has nothing more to be offered of.\<close>

definition settled :: "u16 \<Rightarrow> CachedImage \<Rightarrow> bool" where
  "settled peer img \<longleftrightarrow>
     (still_complete img \<and> ci_owner img \<noteq> peer \<longrightarrow> peer \<in> set (offered img) \<or> peer \<in> set (delivered img))"

lemma mark_offered_all_settles:
  assumes "mark_offered_all (map (\<lambda>iid. (iid, peer)) ids) w = (sends, w')"
    and "map_of (images w') k = Some img" "k \<in> set ids \<or> (\<forall>img. map_of (images w) k = Some img \<longrightarrow> settled peer img)"
  shows "settled peer img"
  using assms
proof (induction ids arbitrary: w sends)
  case (Cons iid ids)
  obtain offer w1 where one: "mark_offered iid peer w = (offer, w1)" by force
  obtain s2 where rest: "mark_offered_all (map (\<lambda>iid. (iid, peer)) ids) w1 = (s2, w')"
    using Cons.prems(1) one by (auto split: prod.splits)
  have "settled peer r" if r: "map_of (images w1) k = Some r" and k: "k = iid \<or> (\<forall>img. map_of (images w) k = Some img \<longrightarrow> settled peer img)" for r
  proof -
    obtain q where q: "map_of (images w) k = Some q" "r = (if k = iid \<and> still_complete q \<and> ci_owner q \<noteq> peer \<and>
        peer \<notin> set (offered q) \<and> peer \<notin> set (delivered q) then q\<lparr>offered := List.insert peer (offered q)\<rparr> else q)"
      using r mark_offered_images[OF one, of k] by auto
    show ?thesis using k unfolding q(2) by (auto simp: settled_def still_complete_def q(1))
  qed
  then show ?case using Cons.IH[OF rest Cons.prems(2)] Cons.prems(3) by auto
qed simp

lemma mark_offered_all_settled:
  assumes "\<And>k img. map_of (images w) k = Some img \<Longrightarrow> settled peer img"
  shows "mark_offered_all (map (\<lambda>iid. (iid, peer)) ids) w = ([], w)"
proof (induction ids)
  case (Cons iid ids)
  have "mark_offered iid peer w = (None, w)"
    using assms by (intro mark_offered_again) (simp add: settled_def)
  then show ?case using Cons by simp
qed simp

text \<open>
  A peer is offered each image at most once: right after it was offered everything the cache can serve, offering
  again sends nothing and changes nothing.
\<close>

theorem offers_are_not_repeated:
  assumes run: "offer_peer peer config w = (sends, w')"
  shows "offer_peer peer config w' = ([], w')"
proof (cases "image_cache_enabled config")
  case True
  let ?ids = "\<lambda>w. map fst (sort_key snd (map (\<lambda>(iid, img). (iid, ci_sequence img))
     (filter (\<lambda>(_, img). still_complete img) (images w))))"
  have call: "offer_peer peer config w = mark_offered_all (map (\<lambda>iid. (iid, peer)) (?ids w)) w" for w
    using True by (simp add: offer_peer_def Let_def comp_def case_prod_unfold)
  have "settled peer img" if img: "map_of (images w') k = Some img" for k img
  proof (rule mark_offered_all_settles[OF run[unfolded call] img])
    show "k \<in> set (?ids w) \<or> (\<forall>img. map_of (images w) k = Some img \<longrightarrow> settled peer img)"
      by (force simp: settled_def image_iff dest: map_of_SomeD)
  qed
  then show ?thesis unfolding call by (rule mark_offered_all_settled)
qed (simp add: offer_peer_def)

section \<open>Fairness of eviction\<close>

lemma min_by_key_None: "min_by_key f xs = None \<longleftrightarrow> xs = []"
  by (cases xs) (auto split: option.splits if_splits)

lemma max_by_key_None: "max_by_key f xs = None \<longleftrightarrow> xs = []"
  by (cases xs) (auto split: option.splits if_splits)

lemma min_by_key_least: "min_by_key f xs = Some x \<Longrightarrow> y \<in> set xs \<Longrightarrow> f x \<le> f y"
proof (induction xs arbitrary: x)
  case (Cons a xs)
  show ?case
  proof (cases "min_by_key f xs")
    case None
    then show ?thesis using Cons.prems by (auto simp: min_by_key_None)
  next
    case (Some b)
    have "y \<in> set xs \<Longrightarrow> f b \<le> f y" using Cons.IH[OF Some] by blast
    then show ?thesis using Cons.prems Some by (cases "f b < f a") auto
  qed
qed simp

lemma max_by_key_greatest: "max_by_key f xs = Some x \<Longrightarrow> x \<in> set xs \<and> (\<forall>y \<in> set xs. f y \<le> f x)"
proof (induction xs arbitrary: x)
  case (Cons a xs)
  show ?case
  proof (cases "max_by_key f xs")
    case None
    then show ?thesis using Cons.prems by (auto simp: max_by_key_None)
  next
    case (Some b)
    have "b \<in> set xs" "\<forall>y \<in> set xs. f y \<le> f b" using Cons.IH[OF Some] by auto
    then show ?thesis using Cons.prems Some by (cases "f b < f a") auto
  qed
qed simp

definition owned_bytes :: "u16 \<Rightarrow> (image_id \<times> CachedImage) list \<Rightarrow> nat" where
  "owned_bytes p xs = sum_list (map (\<lambda>(_, img). image_bytes img) (filter (\<lambda>(_, img). ci_owner img = p) xs))"

lemma held_by_owner_lookup:
  "map_of (held_by_owner held xs) p =
     (if map_of held p = None \<and> p \<notin> (\<lambda>(_, img). ci_owner img) ` set xs then None
      else Some ((case map_of held p of Some n \<Rightarrow> n | None \<Rightarrow> 0) + owned_bytes p xs))"
proof (induction xs arbitrary: held)
  case Nil
  show ?case by (auto simp: owned_bytes_def split: option.split)
next
  case (Cons x xs)
  obtain i img where x: "x = (i, img)" by (cases x)
  show ?case by (cases "map_of held p"; cases "ci_owner img = p") (auto simp: x Cons owned_bytes_def)
qed

lemma held_distinct: "distinct (map fst held) \<Longrightarrow> distinct (map fst (held_by_owner held xs))"
  by (induction held xs rule: held_by_owner.induct) simp_all

lemma held_entry: "(p, n) \<in> set (held_by_owner [] (images w)) \<longleftrightarrow>
    p \<in> (\<lambda>(_, img). ci_owner img) ` set (images w) \<and> n = owner_bytes p w"
proof -
  have "(p, n) \<in> set (held_by_owner [] (images w)) \<longleftrightarrow> map_of (held_by_owner [] (images w)) p = Some n"
    using held_distinct[of "[]" "images w"] by simp
  also have "\<dots> \<longleftrightarrow> p \<in> (\<lambda>(_, img). ci_owner img) ` set (images w) \<and> n = owner_bytes p w"
    unfolding held_by_owner_lookup owner_bytes_def owned_bytes_def[symmetric] by auto
  finally show ?thesis .
qed

lemma owner_bytes_none: "p \<notin> (\<lambda>(_, img). ci_owner img) ` set (images w) \<Longrightarrow> owner_bytes p w = 0"
  by (auto simp: owner_bytes_def filter_empty_conv image_iff)

text \<open>
  When the whole cache is too full, the victim is taken from an owner that holds at least as many bytes as any
  other, whatever the order in which the map of owners is walked; it is that owner's oldest image, and never the image that
  is being extended.
\<close>

theorem victim_is_oldest_of_heaviest:
  assumes order: "\<And>xs. mset (order xs) = mset xs" and dist: "distinct (map fst (images w))"
    and victim: "oldest_of_heaviest_owner order ex w = Some iid"
  shows "\<exists>img. map_of (images w) iid = Some img \<and> iid \<noteq> ex \<and>
    (\<forall>p. owner_bytes p w \<le> owner_bytes (ci_owner img) w) \<and>
    (\<forall>j r. map_of (images w) j = Some r \<and> j \<noteq> ex \<and> ci_owner r = ci_owner img \<longrightarrow> ci_sequence img \<le> ci_sequence r)"
proof -
  obtain h n where heavy: "max_by_key snd (order (held_by_owner [] (images w))) = Some (h, n)"
    and old: "oldest_owned h (Some ex) w = Some iid"
    using victim by (auto simp: oldest_of_heaviest_owner_def split: option.splits)
  have sets: "set (order (held_by_owner [] (images w))) = set (held_by_owner [] (images w))"
    using order by (rule mset_eq_setD)
  have top: "(h, n) \<in> set (held_by_owner [] (images w))" "\<forall>y \<in> set (held_by_owner [] (images w)). snd y \<le> n"
    using max_by_key_greatest[OF heavy] by (simp_all add: sets)
  have n: "n = owner_bytes h w" using top(1) held_entry by blast
  have most: "m \<le> n" if "(p, m) \<in> set (held_by_owner [] (images w))" for p m using bspec[OF top(2) that] by simp
  have all: "owner_bytes p w \<le> owner_bytes h w" for p
    using most[of p "owner_bytes p w"] n owner_bytes_none[of p w] by (cases "p \<in> (\<lambda>(_, img). ci_owner img) ` set (images w)")
      (simp_all add: held_entry)
  obtain img where min: "min_by_key (\<lambda>(_, img). ci_sequence img)
      (filter (\<lambda>(iid, img). ci_owner img = h \<and> Some iid \<noteq> Some ex) (images w)) = Some (iid, img)"
    using old by (auto simp: oldest_owned_def)
  have img: "(iid, img) \<in> set (images w)" "ci_owner img = h" "iid \<noteq> ex" using min_by_key_in[OF min] by auto
  have "ci_sequence img \<le> ci_sequence r" if "map_of (images w) j = Some r" "j \<noteq> ex" "ci_owner r = h" for j r
    using min_by_key_least[OF min, of "(j, r)"] that map_of_SomeD[OF that(1)] by simp
  then show ?thesis using img all dist by auto
qed

section \<open>Admission\<close>

lemma uncached_keys: "map_of (images w) ex = None \<Longrightarrow> (iid, img) \<in> set (images w) \<Longrightarrow> iid \<noteq> ex"
  by (force simp: map_of_eq_None_iff)

lemma oldest_owned_exists:
  assumes "map_of (images w) ex = None" "(iid, img) \<in> set (images w)" "ci_owner img = p"
  shows "oldest_owned p (Some ex) w \<noteq> None"
proof -
  have "(iid, img) \<in> set (filter (\<lambda>(iid, img). ci_owner img = p \<and> Some iid \<noteq> Some ex) (images w))"
    using assms uncached_keys by auto
  then have "min_by_key (\<lambda>(_, img). ci_sequence img)
      (filter (\<lambda>(iid, img). ci_owner img = p \<and> Some iid \<noteq> Some ex) (images w)) \<noteq> None"
    unfolding min_by_key_None by (metis empty_iff list.set(1))
  then show ?thesis by (simp add: oldest_owned_def)
qed

lemma reserve_share_admits:
  assumes "map_of (images w) ex = None" "cost \<le> share"
  shows "fst (reserve_share owner cost share ex w)"
  using assms
proof (induction owner cost share ex w rule: reserve_share.induct)
  case (1 owner cost share ex w)
  show ?case
  proof (cases "min U64_MAX (owner_bytes owner w + cost) > share")
    case True
    then have nonzero: "owner_bytes owner w \<noteq> 0" using 1(3) by linarith
    have "owner \<in> (\<lambda>(_, img). ci_owner img) ` set (images w)"
    proof (rule ccontr)
      assume "\<not> ?thesis"
      from owner_bytes_none[OF this] nonzero show False by contradiction
    qed
    then obtain i img where "(i, img) \<in> set (images w)" "ci_owner img = owner" by auto
    then obtain iid where iid: "oldest_owned owner (Some ex) w = Some iid"
      using oldest_owned_exists[OF 1(2)] by blast
    obtain b s1 w1 where drop: "drop_image iid w = (b, s1, w1)" by (metis prod_cases3)
    have "map_of (images w1) ex = None" using drop_image_images[OF drop] 1(2) by simp
    then have "fst (reserve_share owner cost share ex w1)"
      using 1(1)[OF True iid drop[symmetric] refl refl] 1(3) by blast
    then show ?thesis
      using True iid drop
      by (cases "reserve_share owner cost share ex w1") (simp add: reserve_share.simps[of owner cost share ex w])
  next
    case False
    then show ?thesis by (auto simp: reserve_share.simps[of owner cost share ex w])
  qed
qed

lemma reserve_total_admits:
  assumes order: "\<And>xs. mset (order xs) = mset xs"
    and "map_of (images w) ex = None" "cost \<le> cap" "cache_inv slot w"
  shows "fst (reserve_total order cost cap ex w)"
  using assms(2-)
proof (induction "length (images w)" arbitrary: w rule: less_induct)
  case less
  show ?case
  proof (cases "min U64_MAX (total_bytes w + cost) > cap")
    case True
    then have "total_bytes w \<noteq> 0" using less.prems(2) by linarith
    then have "images w \<noteq> []" using less.prems(3) by (auto simp: cache_inv_def)
    then have "order (held_by_owner [] (images w)) \<noteq> []"
      using held_entry[of _ _ w] order[of "held_by_owner [] (images w)"]
      by (metis (no_types, lifting) case_prod_conv image_eqI list.set_intros(1) mset_zero_iff neq_Nil_conv old.prod.exhaust
          empty_iff list.set(1))
    then obtain h n where heavy: "max_by_key snd (order (held_by_owner [] (images w))) = Some (h, n)"
      using max_by_key_None by (metis not_None_eq old.prod.exhaust)
    then have "(h, n) \<in> set (held_by_owner [] (images w))"
      using max_by_key_greatest[OF heavy] mset_eq_setD[OF order] by blast
    then obtain i img where "(i, img) \<in> set (images w)" "ci_owner img = h" by (auto simp: held_entry)
    then obtain iid where iid: "oldest_of_heaviest_owner order ex w = Some iid"
      using oldest_owned_exists[OF less.prems(1)] heavy by (force simp: oldest_of_heaviest_owner_def)
    obtain b s1 w1 where drop: "drop_image iid w = (b, s1, w1)" by (metis prod_cases3)
    have "fst (reserve_total order cost cap ex w1)"
    proof (rule less.hyps)
      show "length (images w1) < length (images w)"
        using heaviest_cached[OF iid] drop by (intro drop_image_shrinks) auto
      show "map_of (images w1) ex = None" using drop_image_images[OF drop] less.prems(1) by simp
      show "cache_inv slot w1" using drop_image_ok[OF drop, of slot 0 "{}"] less.prems(3) by (simp add: step_ok_def)
    qed (rule less.prems(2))
    then show ?thesis
      using True iid drop
      by (cases "reserve_total order cost cap ex w1") (simp add: reserve_total.simps[of order cost cap ex w])
  next
    case False
    then show ?thesis by (auto simp: reserve_total.simps[of order cost cap ex w])
  qed
qed

text \<open>
  A new image that fits its owner's fair share is always admitted, however full the cache is: the spawn ends with the
  image in the cache, because older images of the same owner and then of the heaviest owners make room for it.
\<close>

theorem spawn_within_share_is_cached:
  assumes order: "\<And>xs. mset (order xs) = mset xs" and reach: "cache_reach slot config Q w"
    and payload: "read_id payload = Some iid" "read_spawn_header payload = Some (n, pose)" "0 < n"
      "pose + POSE_BYTES \<le> length payload"
    and fresh: "map_of (images w) iid = None"
    and cost: "length payload + nat n * slot \<le> owner_share owner (cache_cap config) config w"
    and run: "observe_spawn order slot owner payload recipients connected config w = (sends, w')"
  shows "\<exists>img. map_of (images w') iid = Some img \<and> ci_owner img = owner \<and> spawn img = payload \<and> length (chunks img) = nat n"
proof -
  let ?cap = "cache_cap config" and ?cost = "length payload + nat n * slot"
  have le: "?cost \<le> ?cap" using cost owner_share_le_cap order_trans by blast
  have some: "payload \<noteq> []" using payload(4) by (auto simp: POSE_BYTES_def)
  have room: "cache_cap config \<noteq> 0" using le some by (cases "cache_cap config") auto
  have priced: "spawn_cost slot (length payload) (nat n) = Some ?cost"
    using le cache_cap_small[of config] by (simp add: spawn_cost_def)
  obtain s1 w1 where share: "reserve_share owner ?cost (owner_share owner ?cap config w) iid w = (True, s1, w1)"
    using reserve_share_admits[OF fresh cost] by (metis prod_cases3 fst_conv)
  have "map_of (images w1) iid = None" "cache_inv slot w1"
    using evicting.share_loop[OF share] fresh sound.share_loop[OF share, of slot 0] reach_world_ok[OF reach]
    by (auto simp: evicts_def eviction_ok_def step_ok_def world_ok_def)
  from reserve_total_admits[OF order this(1) le this(2)]
  obtain s2 w2 where total: "reserve_total order ?cost ?cap iid w1 = (True, s2, w2)" by (metis prod_cases3 fst_conv)
  have "image_try_reserve order owner ?cost iid config w = (True, s1 @ s2, w2)"
    using share total some room le cost by (auto simp: image_try_reserve_def Let_def)
  then have "map_of (images w') iid = Some (seed_already_held recipients connected
      (fresh_image owner (ic_sequence w2 + 1) payload (nat n) pose ?cost))"
    using run payload fresh priced by (auto simp: observe_spawn_def Let_def fresh_image_def)
  then show ?thesis by (simp add: seed_already_held_def fresh_image_def Let_def)
qed

section \<open>A run\<close>

text \<open>Peer 1 shares a one-chunk image while it is alone; peer 2 joins, is offered the image and requests it.\<close>

definition run_id :: image_id where "run_id = [1, 2, 3, 4, 5, 6, 7, 8, 9, 10, 11, 12, 13, 14, 15, 16]"

definition run_spawn :: bytes where
  "run_spawn = [1] @ run_id @ [0, 0, 0] @ [1, 0, 0, 0] @ [1, 0, 0, 0] @ [3, 0, 0, 0] @ [1, 0, 0, 0] @ replicate 28 7"

definition run_chunk :: bytes where
  "run_chunk = [2] @ run_id @ [0, 0, 0, 0] @ [3, 0, 0, 0] @ [70, 71, 72]"

definition run_wanted :: bytes where "run_wanted = [10] @ run_id"

definition run_config :: cache_config where
  "run_config = \<lparr>image_cache_enabled = True, image_cache_max_megabytes = 1, image_cache_minimum_per_owner_megabytes = 1\<rparr>"

definition run_image :: CachedImage where
  "run_image = \<lparr>ci_owner = 1, ci_sequence = 1, offered = [1], delivered = [1], animation_delivered = [1],
     spawn = run_spawn, chunks = [Some run_chunk], chunks_held = 1, pose_offset = 36, transform = None,
     animation_spawn = None, animation_chunks = [], animation_chunks_held = 0, replay_payloads = [], image_bytes = 124\<rparr>"

definition run_peers :: cache_peers where "run_peers = \<lparr>cp_connected = [1], cp_animation_allowed = []\<rparr>"

lemma run_spawned:
  "read_id run_spawn = Some run_id" "read_spawn_header run_spawn = Some (1, 36)" "length run_spawn = 64" "run_spawn ! 0 = 1"
  by code_simp+

lemma run_chunked:
  "read_id run_chunk = Some run_id" "read_i32 run_chunk 17 = Some 0" "length run_chunk = 28" "run_chunk ! 0 = 2"
  by code_simp+

lemma run_asked: "read_id run_wanted = Some run_id" "length run_wanted = 17" "run_wanted ! 0 = 10"
  by code_simp+

lemma run_cap: "cache_cap run_config = 1048576"
  by (simp add: cache_cap_def megabytes_def run_config_def BYTES_PER_MEGABYTE_def U64_MAX_def)

definition run_first :: image_world where
  "run_first = \<lparr>images = [(run_id, run_image\<lparr>chunks := [None], chunks_held := 0, image_bytes := 96\<rparr>)],
     total_bytes = 96, ic_sequence = 1, payload_cells = []\<rparr>"

lemmas run_defs = cache_cap_def image_try_reserve_def Let_def owner_share_def reserve_share.simps reserve_total.simps
  owner_bytes_def megabytes_def BYTES_PER_MEGABYTE_def U64_MAX_def op_defs HEADER_BYTES_def POSE_BYTES_def

lemma run_step_spawn:
  "cache_observe (\<lambda>_. True) id 32 1 run_spawn [] run_peers False run_config image_world_default = ([], run_first)"
  by (simp add: cache_observe_def observe_spawn_def run_spawned run_defs run_config_def spawn_cost_def run_peers_def
      image_world_default_def run_first_def run_image_def seed_already_held_def put_image_def put_key_def remove_key_def)

definition run_world :: image_world where
  "run_world = \<lparr>images = [(run_id, run_image)], total_bytes = 124, ic_sequence = 1,
     payload_cells = [Some ([8] @ run_id @ [1])]\<rparr>"

lemma run_step_chunk:
  "snd (cache_observe (\<lambda>_. True) id 32 1 run_chunk [] run_peers False run_config run_first) = run_world"
  by (simp add: cache_observe_def observe_chunk_def run_chunked run_defs run_config_def run_peers_def run_first_def
      run_image_def list_get_def store_chunk_def entry_def put_image_def put_key_def remove_key_def announce_chunk_def
      still_complete_def cache_state_send_def new_payload_def mark_offered_def run_world_def)

lemma cache_reach_observed:
  assumes "cache_reach slot config {} w" "snd (cache_observe (\<lambda>_. True) order slot owner payload rs peers allow config w) = w'"
  shows "cache_reach slot config {} w'"
proof -
  obtain s where run: "cache_observe (\<lambda>_. True) order slot owner payload rs peers allow config w = (s, w')"
    using assms(2) by (metis prod.collapse)
  have "live_ok (\<lambda>_. True) {} w" by (simp add: live_ok_def)
  from observed[OF assms(1) this run] show ?thesis by (rule sent) simp
qed

lemma run_reached: "cache_reach 32 run_config {} run_world"
proof -
  have "cache_reach 32 run_config {} run_first"
    by (rule cache_reach_observed[OF start, where order = id and owner = 1 and payload = run_spawn and rs = "[]"
        and peers = run_peers and allow = False]) (simp add: run_step_spawn)
  then show ?thesis by (rule cache_reach_observed) (rule run_step_chunk)
qed

theorem image_cache_within_cap_witness: "total_bytes run_world = 124 \<and> total_bytes run_world \<le> 1048576"
  using image_cache_within_cap[OF run_reached] by (simp add: run_cap run_world_def)

text \<open>Peer 2 requests the image: a spawn and a chunk are queued.\<close>

definition run_queued :: "CacheSend list \<times> image_world" where
  "run_queued = image_request (\<lambda>_. True) 2 run_wanted False run_config run_world"

lemma run_served: "map cs_payload (fst run_queued) = [1, 2]" "list_all cs_paced (fst run_queued)"
  "payload_cells (snd run_queued) ! 2 = Some run_chunk"
  by (simp_all add: run_queued_def image_request_def run_asked run_config_def op_defs HEADER_BYTES_def run_world_def run_image_def
      still_complete_def animation_complete_def build_spawn_def some_chunks_def replay_image_def new_payload_def put_image_def
      Let_def)

theorem request_replays_whole_image_witness:
  "image_request (\<lambda>_. True) 2 run_wanted False run_config (snd run_queued) = ([], snd run_queued)"
proof -
  obtain sends w' where run: "image_request (\<lambda>_. True) 2 run_wanted False run_config run_world = (sends, w')" by force
  have "sends \<noteq> []" using run_served(1) by (auto simp: run_queued_def run)
  from request_replays_whole_image[OF run_reached run this] show ?thesis by (auto simp: run_queued_def run)
qed

lemma run_queue_reach: "cache_reach 32 run_config {1, 2} (snd run_queued)"
proof -
  obtain sends w' where run: "image_request (\<lambda>_. True) 2 run_wanted False run_config run_world = (sends, w')" by force
  have "cache_observe (\<lambda>_. True) id 32 2 run_wanted [] run_peers False run_config run_world = (sends, w')"
    using run by (simp add: cache_observe_def run_asked run_config_def op_defs HEADER_BYTES_def)
  moreover have "live_ok (\<lambda>_. True) {} run_world" by (simp add: live_ok_def)
  ultimately have "cache_reach 32 run_config ({} \<union> paced_cells sends) w'" using observed[OF run_reached] by blast
  moreover have "paced_cells sends = {1, 2}"
    using paced_cells_all[OF run_served(2)] run_served(1) by (simp add: run_queued_def run flip: set_map)
  ultimately show ?thesis by (simp add: run_queued_def run)
qed

theorem queued_replay_needs_cached_image_witness:
  "\<exists>iid img. map_of (images (snd run_queued)) iid = Some img \<and> 2 \<in> set (replay_payloads img)"
  using queued_replay_needs_cached_image[OF run_queue_reach, of 2 run_chunk] run_served(3) by simp

theorem offers_are_not_repeated_witness:
  "offer_peer 2 run_config (snd (offer_peer 2 run_config run_world)) = ([], snd (offer_peer 2 run_config run_world))"
  by (rule offers_are_not_repeated[of _ _ run_world "fst (offer_peer 2 run_config run_world)"]) simp

theorem victim_is_oldest_of_heaviest_witness:
  "\<exists>img. map_of (images run_world) run_id = Some img \<and> run_id \<noteq> []"
proof -
  have "distinct (map fst (images run_world))" by (simp add: run_world_def)
  moreover have "oldest_of_heaviest_owner id [] run_world = Some run_id"
    by (simp add: oldest_of_heaviest_owner_def run_world_def oldest_owned_def run_id_def put_key_def remove_key_def)
  ultimately show ?thesis using victim_is_oldest_of_heaviest[of id run_world "[]" run_id] by auto
qed

theorem spawn_within_share_is_cached_witness:
  "\<exists>img. map_of (images run_first) run_id = Some img \<and> ci_owner img = 1"
proof -
  have run: "observe_spawn id 32 1 run_spawn [] [1] run_config image_world_default = ([], run_first)"
    using run_step_spawn by (simp add: cache_observe_def run_spawned run_config_def op_defs HEADER_BYTES_def run_peers_def)
  show ?thesis
    using spawn_within_share_is_cached[OF _ start run_spawned(1,2) _ _ _ _ run]
    by (auto simp: run_spawned POSE_BYTES_def image_world_default_def owner_share_def run_cap)
qed

end
