(* ===== verification/HandlerQueue.thy ===== *)
theory HandlerQueue
  imports Assoc "HOL-Library.Sublist"
begin

text \<open>
  The queue that keeps the events of a channel in order while handlers run concurrently (\<open>OrderedHandlerQueue\<close> and the
  functions around it in \<open>basis-server-core/src/lib.rs\<close>): one lane for each peer, channel and session generation, at most one running
  event in a lane, and a round-robin list of the lanes that can run. Workers are counted permits; whether two
  session handles name the same connection, and whether a session is current, are arguments.
\<close>

section \<open>The queue\<close>

type_synonym lane_key = "u16 \<times> u8 \<times> u64"

record 'e ordered_lane =
  lane_events :: "'e list"
  lane_running :: bool

record 'e handler_queue =
  hq_lanes :: "(lane_key \<times> 'e ordered_lane) list"
  hq_ready :: "lane_key list"
  hq_pending :: nat

definition handler_queue_default :: "'e handler_queue" where
  "handler_queue_default = \<lparr>hq_lanes = [], hq_ready = [], hq_pending = 0\<rparr>"

definition lane_default :: "'e ordered_lane" where
  "lane_default = \<lparr>lane_events = [], lane_running = False\<rparr>"

definition hq_enqueue :: "lane_key \<Rightarrow> 'e \<Rightarrow> 'e handler_queue \<Rightarrow> 'e handler_queue" where
  "hq_enqueue key event q =
     (let lane = (case map_of (hq_lanes q) key of Some lane \<Rightarrow> lane | None \<Rightarrow> lane_default);
          ready = (if \<not> lane_running lane \<and> lane_events lane = [] then hq_ready q @ [key] else hq_ready q)
      in q\<lparr>hq_lanes := put_key key (lane\<lparr>lane_events := lane_events lane @ [event]\<rparr>) (hq_lanes q),
           hq_ready := ready, hq_pending := hq_pending q + 1\<rparr>)"

fun start_next_loop :: "lane_key list \<Rightarrow> 'e handler_queue \<Rightarrow> (lane_key \<times> 'e) option \<times> 'e handler_queue" where
  "start_next_loop [] q = (None, q\<lparr>hq_ready := []\<rparr>)"
| "start_next_loop (key # ready) q =
     (case map_of (hq_lanes q) key of
        None \<Rightarrow> start_next_loop ready q
      | Some lane \<Rightarrow>
          if lane_running lane then start_next_loop ready q
          else case lane_events lane of
            [] \<Rightarrow> start_next_loop ready (q\<lparr>hq_lanes := remove_key key (hq_lanes q)\<rparr>)
          | event # events \<Rightarrow>
              (Some (key, event),
               q\<lparr>hq_lanes := put_key key (lane\<lparr>lane_events := events, lane_running := True\<rparr>) (hq_lanes q),
                 hq_ready := ready, hq_pending := hq_pending q - 1\<rparr>))"

definition start_next :: "'e handler_queue \<Rightarrow> (lane_key \<times> 'e) option \<times> 'e handler_queue" where
  "start_next q = start_next_loop (hq_ready q) q"

definition hq_complete :: "lane_key \<Rightarrow> 'e handler_queue \<Rightarrow> 'e handler_queue" where
  "hq_complete key q =
     (case map_of (hq_lanes q) key of
        None \<Rightarrow> q
      | Some lane \<Rightarrow>
          if lane_events lane = [] then q\<lparr>hq_lanes := remove_key key (hq_lanes q)\<rparr>
          else q\<lparr>hq_lanes := put_key key (lane\<lparr>lane_running := False\<rparr>) (hq_lanes q), hq_ready := hq_ready q @ [key]\<rparr>)"

definition compact_ready :: "'e handler_queue \<Rightarrow> 'e handler_queue" where
  "compact_ready q = q\<lparr>hq_ready := filter (\<lambda>key. map_of (hq_lanes q) key \<noteq> None) (hq_ready q)\<rparr>"

fun discard_keys :: "('e \<Rightarrow> bool) \<Rightarrow> lane_key list \<Rightarrow> 'e handler_queue \<Rightarrow> 'e handler_queue" where
  "discard_keys matches [] q = q"
| "discard_keys matches (key # keys) q =
     (case map_of (hq_lanes q) key of
        None \<Rightarrow> discard_keys matches keys q
      | Some lane \<Rightarrow>
          let events = filter (\<lambda>event. \<not> matches event) (lane_events lane);
              removed = length (lane_events lane) - length events;
              lanes = (if events = [] \<and> \<not> lane_running lane then remove_key key (hq_lanes q)
                       else put_key key (lane\<lparr>lane_events := events\<rparr>) (hq_lanes q))
          in discard_keys matches keys (q\<lparr>hq_lanes := lanes, hq_pending := hq_pending q - removed\<rparr>))"

definition discard_matching :: "('e \<Rightarrow> bool) \<Rightarrow> 'e handler_queue \<Rightarrow> 'e handler_queue" where
  "discard_matching matches q = compact_ready (discard_keys matches (map fst (hq_lanes q)) q)"

definition discard_lane :: "lane_key \<Rightarrow> 'e handler_queue \<Rightarrow> bool \<times> 'e handler_queue" where
  "discard_lane key q =
     (case map_of (hq_lanes q) key of
        None \<Rightarrow> (False, q)
      | Some lane \<Rightarrow>
          let changed = (lane_events lane \<noteq> [] \<or> \<not> lane_running lane);
              lanes = (if \<not> lane_running lane then remove_key key (hq_lanes q)
                       else put_key key (lane\<lparr>lane_events := []\<rparr>) (hq_lanes q))
          in (changed, q\<lparr>hq_lanes := lanes, hq_pending := hq_pending q - length (lane_events lane)\<rparr>))"

definition hq_contains :: "lane_key \<Rightarrow> 'e handler_queue \<Rightarrow> bool" where
  "hq_contains key q \<longleftrightarrow> map_of (hq_lanes q) key \<noteq> None"

text \<open>\<open>spawn_ready_ordered_with\<close>: as long as events wait and a worker permit is free, the next runnable head is started.\<close>

fun spawn_ready :: "nat \<Rightarrow> 'e handler_queue \<Rightarrow> (lane_key \<times> 'e) list \<times> nat \<times> 'e handler_queue" where
  "spawn_ready permits q =
     (if hq_pending q = 0 then ([], permits, q)
      else case permits of
        0 \<Rightarrow> ([], 0, q)
      | Suc rest \<Rightarrow>
          (case start_next q of
             (None, q) \<Rightarrow> ([], permits, q)
           | (Some started, q) \<Rightarrow>
               let (others, left, q) = spawn_ready rest q in (started # others, left, q)))"

declare spawn_ready.simps [simp del]

section \<open>Session generations\<close>

type_synonym lane_base = "u16 \<times> u8"

definition lane_key_of :: "lane_base \<Rightarrow> u64 \<Rightarrow> lane_key" where
  "lane_key_of base generation = (fst base, snd base, generation)"

definition retire_lane :: "lane_key \<Rightarrow> 'e handler_queue \<Rightarrow> 'e handler_queue" where
  "retire_lane key q = (case discard_lane key q of (changed, q) \<Rightarrow> if changed then compact_ready q else q)"

record ('s, 'e) lane_registry =
  lr_next_generation :: u64
  lr_sessions :: "(lane_base \<times> 's \<times> u64) list"
  lr_ordered :: "'e handler_queue"
  lr_critical :: "'e handler_queue"

definition ordered_lane_generation ::
  "('s \<Rightarrow> 's \<Rightarrow> bool) \<Rightarrow> lane_base \<Rightarrow> 's \<Rightarrow> ('s, 'e) lane_registry \<Rightarrow> u64 \<times> ('s, 'e) lane_registry" where
  "ordered_lane_generation same_connection base session r =
     (let renew = (\<lambda>r. let generation = lr_next_generation r
                       in (generation,
                           r\<lparr>lr_next_generation := max (generation + 1) 1,
                             lr_sessions := put_key base (session, generation) (lr_sessions r)\<rparr>))
      in case map_of (lr_sessions r) base of
           None \<Rightarrow> renew r
         | Some (old_session, generation) \<Rightarrow>
             if same_connection old_session session then (generation, r)
             else
               let old_key = lane_key_of base generation
               in renew (r\<lparr>lr_ordered := retire_lane old_key (lr_ordered r),
                           lr_critical := retire_lane old_key (lr_critical r)\<rparr>))"

fun prune_loop ::
  "('s \<Rightarrow> bool) \<Rightarrow> (lane_base \<times> 's \<times> u64) list \<Rightarrow> 'e handler_queue \<Rightarrow> 'e handler_queue \<Rightarrow>
   bool \<times> (lane_base \<times> 's \<times> u64) list \<times> 'e handler_queue \<times> 'e handler_queue" where
  "prune_loop is_current [] ordered critical = (False, [], ordered, critical)"
| "prune_loop is_current ((base, session, generation) # rest) ordered critical =
     (let key = lane_key_of base generation;
          (changed1, ordered) = (if is_current session then (False, ordered) else discard_lane key ordered);
          (changed2, critical) = (if is_current session then (False, critical) else discard_lane key critical);
          keep = (hq_contains key ordered \<or> hq_contains key critical);
          (changed, kept, ordered, critical) = prune_loop is_current rest ordered critical
      in (changed1 \<or> changed2 \<or> changed, (if keep then (base, session, generation) # kept else kept), ordered, critical))"

definition prune_ordered_sessions :: "('s \<Rightarrow> bool) \<Rightarrow> ('s, 'e) lane_registry \<Rightarrow> ('s, 'e) lane_registry" where
  "prune_ordered_sessions is_current r =
     (let (changed, kept, ordered, critical) = prune_loop is_current (lr_sessions r) (lr_ordered r) (lr_critical r);
          r = r\<lparr>lr_sessions := kept, lr_ordered := ordered, lr_critical := critical\<rparr>
      in if changed then r\<lparr>lr_ordered := compact_ready ordered, lr_critical := compact_ready critical\<rparr> else r)"

definition discard_ordered_session ::
  "('e \<Rightarrow> bool) \<Rightarrow> ('s \<Rightarrow> bool) \<Rightarrow> 'e handler_queue \<Rightarrow> (lane_base \<times> 's \<times> u64) list \<Rightarrow>
   'e handler_queue \<times> (lane_base \<times> 's \<times> u64) list" where
  "discard_ordered_session event_of_session same_session q sessions =
     (discard_matching event_of_session q, filter (\<lambda>(_, queued, _). \<not> same_session queued) sessions)"

section \<open>The invariant\<close>

text \<open>Lanes that wait to run; a lane that neither runs nor waits does not exist; the ready list names each waiting
lane once, and otherwise (between a discard and the next compaction) only lanes that are gone.\<close>

definition runnable :: "'e handler_queue \<Rightarrow> lane_key \<Rightarrow> bool" where
  "runnable q key = (case map_of (hq_lanes q) key of Some lane \<Rightarrow> \<not> lane_running lane | None \<Rightarrow> False)"

definition lanes_ok :: "'e handler_queue \<Rightarrow> bool" where
  "lanes_ok q \<longleftrightarrow>
     distinct (map fst (hq_lanes q)) \<and>
     hq_pending q = sum_list (map (\<lambda>(_, lane). length (lane_events lane)) (hq_lanes q)) \<and>
     (\<forall>entry \<in> set (hq_lanes q). lane_running (snd entry) \<or> lane_events (snd entry) \<noteq> [])"

definition queue_loose :: "'e handler_queue \<Rightarrow> bool" where
  "queue_loose q \<longleftrightarrow> lanes_ok q \<and> distinct (hq_ready q) \<and>
     Collect (runnable q) \<subseteq> set (hq_ready q) \<and> set (hq_ready q) \<subseteq> Collect (runnable q) \<union> - dom (map_of (hq_lanes q))"

definition queue_inv :: "'e handler_queue \<Rightarrow> bool" where
  "queue_inv q \<longleftrightarrow> lanes_ok q \<and> distinct (hq_ready q) \<and> set (hq_ready q) = Collect (runnable q)"

lemma queue_inv_loose: "queue_inv q \<Longrightarrow> queue_loose q"
  by (simp add: queue_inv_def queue_loose_def)

text \<open>What a lane is to the outside: the events that wait in it, and whether one runs.\<close>

definition lane_view :: "'e handler_queue \<Rightarrow> lane_key \<Rightarrow> 'e list \<times> bool" where
  "lane_view q key =
     (case map_of (hq_lanes q) key of Some lane \<Rightarrow> (lane_events lane, lane_running lane) | None \<Rightarrow> ([], False))"

lemma lane_present: "lanes_ok q \<Longrightarrow> map_of (hq_lanes q) key = Some lane \<Longrightarrow> lane_running lane \<or> lane_events lane \<noteq> []"
  by (auto simp: lanes_ok_def dest!: map_of_SomeD)

lemma runnable_view: "lanes_ok q \<Longrightarrow> runnable q key \<longleftrightarrow> fst (lane_view q key) \<noteq> [] \<and> \<not> snd (lane_view q key)"
  by (auto simp: runnable_def lane_view_def split: option.splits dest: lane_present)

lemma lane_absent: "lanes_ok q \<Longrightarrow> map_of (hq_lanes q) key = None \<longleftrightarrow> lane_view q key = ([], False)"
  by (auto simp: lane_view_def split: option.splits dest: lane_present)

lemma lanes_sum:
  assumes "lanes_ok q"
  shows "hq_pending q = length (fst (lane_view q key)) +
    sum_list (map (\<lambda>(_, lane). length (lane_events lane)) (remove_key key (hq_lanes q)))"
proof (cases "map_of (hq_lanes q) key")
  case None
  then show ?thesis using assms by (simp add: lanes_ok_def lane_view_def)
next
  case (Some lane)
  have "distinct (map fst (hq_lanes q))" using assms by (simp add: lanes_ok_def)
  from sum_split_key[OF this Some, of "\<lambda>(_, lane). length (lane_events lane)"] show ?thesis
    using assms Some by (simp add: lanes_ok_def lane_view_def)
qed

lemma lanes_ok_put:
  assumes "lanes_ok q" "hq_lanes q' = put_key key lane (hq_lanes q)" "lane_running lane \<or> lane_events lane \<noteq> []"
    and "hq_pending q' + length (fst (lane_view q key)) = hq_pending q + length (lane_events lane)"
  shows "lanes_ok q'"
  using assms lanes_sum[OF assms(1), of key]
  by (auto simp: lanes_ok_def put_key_def[of key lane "hq_lanes q"])

lemma lanes_ok_remove:
  assumes "lanes_ok q" "hq_lanes q' = remove_key key (hq_lanes q)"
    and "hq_pending q' + length (fst (lane_view q key)) = hq_pending q"
  shows "lanes_ok q'"
  using assms lanes_sum[OF assms(1), of key] by (simp add: lanes_ok_def)

lemma lane_view_put:
  "hq_lanes q' = put_key key lane (hq_lanes q) \<Longrightarrow>
   lane_view q' = (lane_view q)(key := (lane_events lane, lane_running lane))"
  by (rule ext) (simp add: lane_view_def)

lemma lane_view_remove:
  "hq_lanes q' = remove_key key (hq_lanes q) \<Longrightarrow> lane_view q' = (lane_view q)(key := ([], False))"
  by (rule ext) (simp add: lane_view_def)

lemma runnable_put:
  "hq_lanes q' = put_key key lane (hq_lanes q) \<Longrightarrow>
   Collect (runnable q') = (if lane_running lane then Collect (runnable q) - {key} else insert key (Collect (runnable q)))"
  by (auto simp: runnable_def split: if_splits)

lemma runnable_remove:
  "hq_lanes q' = remove_key key (hq_lanes q) \<Longrightarrow> Collect (runnable q') = Collect (runnable q) - {key}"
  by (auto simp: runnable_def split: if_splits)

section \<open>Every operation on the lanes\<close>

text \<open>Each operation keeps the invariant, changes the lanes as told and the ready list at its ends only.\<close>

lemma enqueue_step:
  assumes "queue_inv q"
  shows "queue_inv (hq_enqueue key event q)"
    and "lane_view (hq_enqueue key event q) =
      (lane_view q)(key := (fst (lane_view q key) @ [event], snd (lane_view q key)))"
    and "hq_ready (hq_enqueue key event q) = hq_ready q @ (if lane_view q key = ([], False) then [key] else [])"
proof -
  let ?q = "hq_enqueue key event q"
  define lane where "lane = (case map_of (hq_lanes q) key of Some lane \<Rightarrow> lane | None \<Rightarrow> lane_default)"
  have lane: "(lane_events lane, lane_running lane) = lane_view q key"
    by (simp add: lane_def lane_view_def lane_default_def split: option.splits)
  have lanes: "hq_lanes ?q = put_key key (lane\<lparr>lane_events := lane_events lane @ [event]\<rparr>) (hq_lanes q)"
    by (simp add: hq_enqueue_def lane_def Let_def)
  have pending: "hq_pending ?q = hq_pending q + 1" by (simp add: hq_enqueue_def Let_def)
  show ready: "hq_ready ?q = hq_ready q @ (if lane_view q key = ([], False) then [key] else [])"
    using lane[symmetric] by (simp add: hq_enqueue_def lane_def[symmetric])
  show "lane_view ?q = (lane_view q)(key := (fst (lane_view q key) @ [event], snd (lane_view q key)))"
    using lane_view_put[OF lanes] by (simp flip: lane)
  have ok: "lanes_ok q" using assms by (simp add: queue_inv_def)
  have "lanes_ok ?q" by (rule lanes_ok_put[OF ok lanes]) (simp_all add: pending flip: lane)
  moreover have "key \<in> Collect (runnable q) \<longleftrightarrow> lane_events lane \<noteq> [] \<and> \<not> lane_running lane"
    using runnable_view[OF ok, of key] by (simp flip: lane)
  ultimately show "queue_inv ?q"
    using assms unfolding queue_inv_def runnable_put[OF lanes] ready lane[symmetric] by auto
qed

lemma start_next_step:
  assumes "queue_inv q" "hq_ready q = key # ready"
  obtains event events where "lane_view q key = (event # events, False)" "fst (start_next q) = Some (key, event)"
    "queue_inv (snd (start_next q))" "lane_view (snd (start_next q)) = (lane_view q)(key := (events, True))"
    "hq_ready (snd (start_next q)) = ready" "hq_pending q = Suc (hq_pending (snd (start_next q)))"
proof -
  have ok: "lanes_ok q" and run: "key \<in> Collect (runnable q)"
    using assms by (auto simp: queue_inv_def)
  then obtain lane where lane: "map_of (hq_lanes q) key = Some lane" "\<not> lane_running lane"
    by (auto simp: runnable_def split: option.splits)
  with ok obtain event events where events: "lane_events lane = event # events"
    by (cases "lane_events lane") (auto dest: lane_present)
  let ?q = "snd (start_next q)"
  have view: "lane_view q key = (event # events, False)" using lane events by (simp add: lane_view_def)
  have lanes: "hq_lanes ?q = put_key key (lane\<lparr>lane_events := events, lane_running := True\<rparr>) (hq_lanes q)"
    and ready: "hq_ready ?q = ready" and started: "fst (start_next q) = Some (key, event)"
    and pending: "hq_pending ?q = hq_pending q - 1"
    using lane events by (simp_all add: start_next_def assms(2))
  have more: "hq_pending q = Suc (hq_pending ?q)"
    using lanes_sum[OF ok, of key] by (simp add: pending view)
  have "lanes_ok ?q" by (rule lanes_ok_put[OF ok lanes]) (simp_all add: view more)
  then have "queue_inv ?q"
    using assms unfolding queue_inv_def runnable_put[OF lanes] ready by auto
  with that view started ready more lane_view_put[OF lanes] show thesis by simp
qed

lemma start_next_idle: "hq_ready q = [] \<Longrightarrow> start_next q = (None, q)"
  by (simp add: start_next_def)

lemma complete_step:
  assumes "queue_inv q" "snd (lane_view q key)"
  shows "queue_inv (hq_complete key q)"
    and "lane_view (hq_complete key q) = (lane_view q)(key := (fst (lane_view q key), False))"
    and "hq_ready (hq_complete key q) = hq_ready q @ (if fst (lane_view q key) = [] then [] else [key])"
proof -
  let ?q = "hq_complete key q"
  from assms(2) obtain lane where lane: "map_of (hq_lanes q) key = Some lane" "lane_running lane"
    by (auto simp: lane_view_def split: option.splits)
  have view: "lane_view q key = (lane_events lane, True)" using lane by (simp add: lane_view_def)
  have ok: "lanes_ok q" and fresh: "key \<notin> Collect (runnable q)"
    using assms lane by (auto simp: queue_inv_def runnable_def)
  show ready: "hq_ready ?q = hq_ready q @ (if fst (lane_view q key) = [] then [] else [key])"
    using lane by (simp add: hq_complete_def view)
  have pending: "hq_pending ?q = hq_pending q" using lane by (simp add: hq_complete_def)
  have "queue_inv ?q \<and> lane_view ?q = (lane_view q)(key := (fst (lane_view q key), False))"
  proof (cases "lane_events lane = []")
    case True
    then have lanes: "hq_lanes ?q = remove_key key (hq_lanes q)" using lane by (simp add: hq_complete_def)
    have "lanes_ok ?q" by (rule lanes_ok_remove[OF ok lanes]) (simp add: pending view True)
    then show ?thesis using assms(1) fresh lane_view_remove[OF lanes] True
      unfolding queue_inv_def runnable_remove[OF lanes] ready by (auto simp: view)
  next
    case False
    then have lanes: "hq_lanes ?q = put_key key (lane\<lparr>lane_running := False\<rparr>) (hq_lanes q)"
      using lane by (simp add: hq_complete_def)
    have "lanes_ok ?q" by (rule lanes_ok_put[OF ok lanes]) (simp_all add: pending view False)
    then show ?thesis using assms(1) fresh lane_view_put[OF lanes] False
      unfolding queue_inv_def runnable_put[OF lanes] ready by (auto simp: view)
  qed
  then show "queue_inv ?q" "lane_view ?q = (lane_view q)(key := (fst (lane_view q key), False))" by simp_all
qed

lemma shrink_step:
  assumes loose: "queue_loose q" and lane: "map_of (hq_lanes q) key = Some lane"
    and fewer: "length events \<le> length (lane_events lane)"
    and lanes: "hq_lanes q' = (if events = [] \<and> \<not> lane_running lane then remove_key key (hq_lanes q)
      else put_key key (lane\<lparr>lane_events := events\<rparr>) (hq_lanes q))"
    and ready: "hq_ready q' = hq_ready q"
    and pending: "hq_pending q' = hq_pending q - (length (lane_events lane) - length events)"
  shows "queue_loose q'" "lane_view q' = (lane_view q)(key := (events, lane_running lane))"
proof -
  have ok: "lanes_ok q" using loose by (simp add: queue_loose_def)
  have view: "lane_view q key = (lane_events lane, lane_running lane)" using lane by (simp add: lane_view_def)
  have exact: "hq_pending q' + length (lane_events lane) = hq_pending q + length events"
    using lanes_sum[OF ok, of key] fewer by (simp add: pending view)
  have "queue_loose q' \<and> lane_view q' = (lane_view q)(key := (events, lane_running lane))"
  proof (cases "events = [] \<and> \<not> lane_running lane")
    case True
    with lanes have lanes: "hq_lanes q' = remove_key key (hq_lanes q)" by simp
    have "lanes_ok q'" by (rule lanes_ok_remove[OF ok lanes]) (use exact True in \<open>simp add: view\<close>)
    then show ?thesis using loose lane_view_remove[OF lanes] True
      unfolding queue_loose_def runnable_remove[OF lanes] ready by (auto simp: lanes dom_def)
  next
    case False
    with lanes have lanes: "hq_lanes q' = put_key key (lane\<lparr>lane_events := events\<rparr>) (hq_lanes q)" by auto
    have "lanes_ok q'" by (rule lanes_ok_put[OF ok lanes]) (use exact False in \<open>auto simp: view\<close>)
    moreover have "Collect (runnable q') = Collect (runnable q)"
      using lane unfolding runnable_put[OF lanes] by (auto simp: runnable_def)
    moreover have "dom (map_of (hq_lanes q')) = dom (map_of (hq_lanes q))"
      using lane by (auto simp: lanes split: if_splits)
    ultimately show ?thesis using loose lane_view_put[OF lanes]
      unfolding queue_loose_def ready by simp
  qed
  then show "queue_loose q'" "lane_view q' = (lane_view q)(key := (events, lane_running lane))" by simp_all
qed

lemma compact_step:
  assumes "queue_loose q"
  shows "queue_inv (compact_ready q)" "lane_view (compact_ready q) = lane_view q"
    and "hq_ready (compact_ready q) = filter (runnable q) (hq_ready q)"
proof -
  have "runnable (compact_ready q) = runnable q" "lanes_ok (compact_ready q) = lanes_ok q"
    by (simp_all add: runnable_def compact_ready_def lanes_ok_def fun_eq_iff)
  then show "queue_inv (compact_ready q)"
    using assms by (auto simp: queue_inv_def queue_loose_def compact_ready_def runnable_def split: option.splits)
  show "lane_view (compact_ready q) = lane_view q" by (rule ext) (simp add: lane_view_def compact_ready_def)
  show "hq_ready (compact_ready q) = filter (runnable q) (hq_ready q)"
    using assms by (auto simp: compact_ready_def queue_loose_def runnable_def intro!: filter_cong split: option.splits)
qed

lemma compact_idle: "queue_inv q \<Longrightarrow> compact_ready q = q"
  by (auto simp: compact_ready_def queue_inv_def runnable_def filter_id_conv split: option.splits)

lemma discard_lane_step:
  assumes "queue_loose q"
  shows "queue_loose (snd (discard_lane key q))"
    and "lane_view (snd (discard_lane key q)) = (lane_view q)(key := ([], snd (lane_view q key)))"
    and "hq_ready (snd (discard_lane key q)) = hq_ready q"
    and "\<not> fst (discard_lane key q) \<Longrightarrow> queue_inv q \<Longrightarrow> queue_inv (snd (discard_lane key q))"
proof -
  show "hq_ready (snd (discard_lane key q)) = hq_ready q"
    by (simp add: discard_lane_def Let_def split: option.splits)
  have "queue_loose (snd (discard_lane key q)) \<and>
    lane_view (snd (discard_lane key q)) = (lane_view q)(key := ([], snd (lane_view q key)))"
  proof (cases "map_of (hq_lanes q) key")
    case None
    then show ?thesis using assms by (auto simp: discard_lane_def lane_view_def)
  next
    case (Some lane)
    then show ?thesis using shrink_step[OF assms Some, of "[]" "snd (discard_lane key q)"]
      by (simp add: discard_lane_def Let_def lane_view_def)
  qed
  then show "queue_loose (snd (discard_lane key q))"
    "lane_view (snd (discard_lane key q)) = (lane_view q)(key := ([], snd (lane_view q key)))" by simp_all
  show "queue_inv (snd (discard_lane key q))" if same: "\<not> fst (discard_lane key q)" and inv: "queue_inv q"
  proof (cases "map_of (hq_lanes q) key")
    case (Some lane)
    then have "lane_running lane" "hq_lanes (snd (discard_lane key q)) = put_key key (lane\<lparr>lane_events := []\<rparr>) (hq_lanes q)"
      using same by (auto simp: discard_lane_def Let_def)
    with runnable_put[OF this(2)] Some have "Collect (runnable (snd (discard_lane key q))) = Collect (runnable q)"
      by (auto simp: runnable_def)
    then show ?thesis using inv \<open>queue_loose (snd (discard_lane key q))\<close> \<open>hq_ready (snd (discard_lane key q)) = hq_ready q\<close>
      by (simp add: queue_inv_def queue_loose_def)
  qed (use inv in \<open>simp add: discard_lane_def\<close>)
qed

lemma retire_step:
  assumes "queue_inv q"
  shows "queue_inv (retire_lane key q)"
    and "lane_view (retire_lane key q) = (lane_view q)(key := ([], snd (lane_view q key)))"
  using discard_lane_step[OF queue_inv_loose[OF assms], of key] assms
  by (cases "discard_lane key q"; simp add: retire_lane_def compact_step)+

lemma discard_keys_step:
  assumes "queue_loose q" "distinct keys"
  shows "queue_loose (discard_keys matches keys q) \<and> hq_ready (discard_keys matches keys q) = hq_ready q \<and>
    lane_view (discard_keys matches keys q) key =
      (if key \<in> set keys then (filter (\<lambda>event. \<not> matches event) (fst (lane_view q key)), snd (lane_view q key))
       else lane_view q key)"
  using assms
proof (induction keys arbitrary: q)
  case (Cons k keys)
  show ?case
  proof (cases "map_of (hq_lanes q) k")
    case None
    then show ?thesis using Cons.IH[OF Cons.prems(1)] Cons.prems(2) by (auto simp: lane_view_def)
  next
    case (Some lane)
    let ?events = "filter (\<lambda>event. \<not> matches event) (lane_events lane)"
    let ?lanes = "if ?events = [] \<and> \<not> lane_running lane then remove_key k (hq_lanes q)
      else put_key k (lane\<lparr>lane_events := ?events\<rparr>) (hq_lanes q)"
    let ?q = "q\<lparr>hq_lanes := ?lanes, hq_pending := hq_pending q - (length (lane_events lane) - length ?events)\<rparr>"
    have step: "discard_keys matches (k # keys) q = discard_keys matches keys ?q" using Some by (simp add: Let_def)
    have "queue_loose ?q" "lane_view ?q = (lane_view q)(k := (?events, lane_running lane))"
      using shrink_step[OF Cons.prems(1) Some length_filter_le, of ?q] by simp_all
    moreover have "lane_view q k = (lane_events lane, lane_running lane)" using Some by (simp add: lane_view_def)
    ultimately show ?thesis using Cons.IH[of ?q] Cons.prems(2) unfolding step by auto
  qed
qed simp

lemma discard_matching_step:
  assumes "queue_inv q"
  shows "queue_inv (discard_matching matches q)"
    and "lane_view (discard_matching matches q) key =
      (filter (\<lambda>event. \<not> matches event) (fst (lane_view q key)), snd (lane_view q key))"
    and "hq_ready (discard_matching matches q) =
      filter (\<lambda>key. \<exists>event \<in> set (fst (lane_view q key)). \<not> matches event) (hq_ready q)"
proof -
  let ?q = "discard_keys matches (map fst (hq_lanes q)) q"
  have keys: "distinct (map fst (hq_lanes q))" and ok: "lanes_ok q" using assms by (simp_all add: queue_inv_def lanes_ok_def)
  note step = discard_keys_step[OF queue_inv_loose[OF assms] keys, of matches]
  have loose: "queue_loose ?q" and ready: "hq_ready ?q = hq_ready q" using step by simp_all
  have view: "lane_view ?q key = (filter (\<lambda>event. \<not> matches event) (fst (lane_view q key)), snd (lane_view q key))" for key
  proof (cases "key \<in> set (map fst (hq_lanes q))")
    case False
    then have "map_of (hq_lanes q) key = None" by (simp add: map_of_eq_None_iff)
    then show ?thesis using step False by (simp add: lane_view_def)
  qed (use step in simp)
  show "queue_inv (discard_matching matches q)"
    "lane_view (discard_matching matches q) key =
      (filter (\<lambda>event. \<not> matches event) (fst (lane_view q key)), snd (lane_view q key))"
    using compact_step[OF loose] view by (simp_all add: discard_matching_def)
  have "lanes_ok ?q" using loose by (simp add: queue_loose_def)
  moreover have "\<not> snd (lane_view q key)" if "key \<in> set (hq_ready q)" for key
    using that assms runnable_view[OF ok, of key] by (simp add: queue_inv_def)
  ultimately show "hq_ready (discard_matching matches q) =
      filter (\<lambda>key. \<exists>event \<in> set (fst (lane_view q key)). \<not> matches event) (hq_ready q)"
    using compact_step(3)[OF loose] by (auto simp: discard_matching_def ready runnable_view view filter_empty_conv intro!: filter_cong)
qed

lemma nothing_pending:
  assumes "queue_inv q" "hq_pending q = 0"
  shows "hq_ready q = []"
proof (rule ccontr)
  assume "hq_ready q \<noteq> []"
  then obtain key ready where "hq_ready q = key # ready" by (cases "hq_ready q") auto
  from start_next_step[OF assms(1) this] show False using assms(2) by (metis nat.distinct(1))
qed

text \<open>A round of starts takes the heads of the first ready lanes, as many as there are free workers, and leaves the
other lanes alone.\<close>

lemma spawn_ready_step:
  assumes "queue_inv q"
  shows "\<exists>q'. spawn_ready permits q =
      (map (\<lambda>key. (key, hd (fst (lane_view q key)))) (take permits (hq_ready q)), permits - length (hq_ready q), q') \<and>
    queue_inv q' \<and> hq_ready q' = drop permits (hq_ready q) \<and>
    lane_view q' = (\<lambda>key. if key \<in> set (take permits (hq_ready q)) then (tl (fst (lane_view q key)), True) else lane_view q key)"
  using assms
proof (induction permits arbitrary: q)
  case 0
  then show ?case by (simp add: spawn_ready.simps)
next
  case (Suc permits)
  show ?case
  proof (cases "hq_ready q")
    case Nil
    then have "spawn_ready (Suc permits) q = ([], Suc permits, q)"
      by (simp add: spawn_ready.simps start_next_idle)
    then show ?thesis using Suc.prems Nil by simp
  next
    case (Cons key ready)
    let ?q = "snd (start_next q)"
    from start_next_step[OF Suc.prems Cons] obtain event events where
      start: "lane_view q key = (event # events, False)" "fst (start_next q) = Some (key, event)" "queue_inv ?q"
        "lane_view ?q = (lane_view q)(key := (events, True))" "hq_ready ?q = ready" "hq_pending q = Suc (hq_pending ?q)" .
    from Suc.IH[OF start(3)] obtain q' where rest:
      "spawn_ready permits ?q = (map (\<lambda>key. (key, hd (fst (lane_view ?q key)))) (take permits ready), permits - length ready, q')"
      "queue_inv q'" "hq_ready q' = drop permits ready"
      "lane_view q' = (\<lambda>key. if key \<in> set (take permits ready) then (tl (fst (lane_view ?q key)), True) else lane_view ?q key)"
      unfolding start(5) by blast
    obtain next_q where "start_next q = (Some (key, event), next_q)" using start(2) by (cases "start_next q") simp
    then have spawn: "spawn_ready (Suc permits) q =
        ((key, event) # map (\<lambda>key. (key, hd (fst (lane_view ?q key)))) (take permits ready), permits - length ready, q')"
      using rest(1) start(6) by (subst spawn_ready.simps) simp
    have fresh: "key \<notin> set ready" using Suc.prems Cons by (auto simp: queue_inv_def)
    then have later: "key \<notin> set (take permits ready)" by (auto dest: in_set_takeD)
    have heads: "map (\<lambda>key. (key, hd (fst (lane_view ?q key)))) (take permits ready) =
        map (\<lambda>key. (key, hd (fst (lane_view q key)))) (take permits ready)"
      using later by (auto simp: start(4))
    have "lane_view q' = (\<lambda>k. if k \<in> set (take (Suc permits) (hq_ready q)) then (tl (fst (lane_view q k)), True) else lane_view q k)"
      using later unfolding rest(4) start(4) Cons by (auto simp: start(1) fun_eq_iff)
    with spawn heads rest(2,3) show ?thesis by (simp add: Cons start(1))
  qed
qed

section \<open>Runs\<close>

datatype 'e queue_op =
    Enqueue lane_key 'e
  | Spawn nat
  | Complete lane_key
  | Retire lane_key
  | Discard "'e \<Rightarrow> bool"

text \<open>What the server does with a queue between two states, with the events it started; a completion is reported for
a lane with a running event only (\<open>task_keys\<close> names the lane of the task that ended).\<close>

inductive queue_steps ::
  "'e handler_queue \<Rightarrow> 'e queue_op list \<Rightarrow> (lane_key \<times> 'e) list \<Rightarrow> 'e handler_queue \<Rightarrow> bool" for q0 where
  steps_none: "queue_steps q0 [] [] q0"
| steps_enqueue: "queue_steps q0 ops starts q \<Longrightarrow>
    queue_steps q0 (ops @ [Enqueue key event]) starts (hq_enqueue key event q)"
| steps_spawn: "queue_steps q0 ops starts q \<Longrightarrow> spawn_ready permits q = (started, left, q') \<Longrightarrow>
    queue_steps q0 (ops @ [Spawn permits]) (starts @ started) q'"
| steps_complete: "queue_steps q0 ops starts q \<Longrightarrow> snd (lane_view q key) \<Longrightarrow>
    queue_steps q0 (ops @ [Complete key]) starts (hq_complete key q)"
| steps_retire: "queue_steps q0 ops starts q \<Longrightarrow>
    queue_steps q0 (ops @ [Retire key]) starts (retire_lane key q)"
| steps_discard: "queue_steps q0 ops starts q \<Longrightarrow>
    queue_steps q0 (ops @ [Discard matches]) starts (discard_matching matches q)"

lemma queue_inv_default [simp]: "queue_inv handler_queue_default"
  by (auto simp: queue_inv_def lanes_ok_def runnable_def handler_queue_default_def)

lemma lane_view_default [simp]: "lane_view handler_queue_default key = ([], False)"
  by (simp add: lane_view_def handler_queue_default_def)

lemma queue_steps_inv: "queue_steps q0 ops starts q \<Longrightarrow> queue_inv q0 \<Longrightarrow> queue_inv q"
proof (induction rule: queue_steps.induct)
  case (steps_spawn ops starts q permits started left q')
  then show ?case using spawn_ready_step[of q permits] by auto
qed (simp_all add: enqueue_step complete_step retire_step discard_matching_step)

primrec op_event :: "lane_key \<Rightarrow> 'e queue_op \<Rightarrow> 'e list" where
  "op_event key (Enqueue k event) = (if k = key then [event] else [])"
| "op_event key (Spawn permits) = []"
| "op_event key (Complete k) = []"
| "op_event key (Retire k) = []"
| "op_event key (Discard matches) = []"

primrec op_permits :: "'e queue_op \<Rightarrow> nat" where
  "op_permits (Enqueue k event) = 0"
| "op_permits (Spawn permits) = permits"
| "op_permits (Complete k) = 0"
| "op_permits (Retire k) = 0"
| "op_permits (Discard matches) = 0"

primrec op_discards :: "'e queue_op \<Rightarrow> bool" where
  "op_discards (Enqueue k event) = False"
| "op_discards (Spawn permits) = False"
| "op_discards (Complete k) = False"
| "op_discards (Retire k) = True"
| "op_discards (Discard matches) = True"

definition enqueued_events :: "lane_key \<Rightarrow> 'e queue_op list \<Rightarrow> 'e list" where
  "enqueued_events key ops = concat (map (op_event key) ops)"

definition started_events :: "lane_key \<Rightarrow> (lane_key \<times> 'e) list \<Rightarrow> 'e list" where
  "started_events key starts = map snd (filter (\<lambda>start. fst start = key) starts)"

definition completions :: "lane_key \<Rightarrow> 'e queue_op list \<Rightarrow> nat" where
  "completions key ops = length (filter (\<lambda>op. case op of Complete k \<Rightarrow> k = key | _ \<Rightarrow> False) ops)"

lemma filter_eq_distinct: "distinct xs \<Longrightarrow> filter (\<lambda>y. y = x) xs = (if x \<in> set xs then [x] else [])"
  by (induction xs) (auto simp: filter_empty_conv)

lemma started_round:
  assumes "queue_inv q"
  shows "started_events key (map (\<lambda>key. (key, hd (fst (lane_view q key)))) (take permits (hq_ready q))) =
    (if key \<in> set (take permits (hq_ready q)) then [hd (fst (lane_view q key))] else [])"
proof -
  have "distinct (take permits (hq_ready q))" using assms by (simp add: queue_inv_def)
  then have "filter (\<lambda>k. k = key) (take permits (hq_ready q)) = (if key \<in> set (take permits (hq_ready q)) then [key] else [])"
    by (rule filter_eq_distinct)
  then show ?thesis by (simp add: started_events_def filter_map comp_def)
qed

end
