(* ===== verification/HandlerProperties.thy ===== *)
theory HandlerProperties
  imports HandlerQueue
begin

text \<open>
  What the ordered handler queue promises over whole runs: the events of a lane run in the order they came and one at a
  time, a waiting lane is reached in its turn, and a new session on a channel starts with a lane of its own.
\<close>

section \<open>Order and exclusion\<close>

lemma enqueued_snoc: "enqueued_events key (ops @ [op]) = enqueued_events key ops @ op_event key op"
  by (simp add: enqueued_events_def)

lemma started_append: "started_events key (starts @ later) = started_events key starts @ started_events key later"
  by (simp add: started_events_def)

text \<open>One round of starts moves the head of a lane from the waiting to the started events, or leaves the lane alone.\<close>

lemma spawn_lane:
  assumes "queue_inv q" "spawn_ready permits q = (started, left, q')"
  shows "started_events key started @ fst (lane_view q' key) = fst (lane_view q key)"
    and "length (started_events key started) + (if snd (lane_view q key) then 1 else 0) = (if snd (lane_view q' key) then 1 else 0)"
proof -
  have ok: "lanes_ok q" using assms(1) by (simp add: queue_inv_def)
  have waits: "fst (lane_view q key) \<noteq> [] \<and> \<not> snd (lane_view q key)" if "key \<in> set (take permits (hq_ready q))"
    using that assms(1) runnable_view[OF ok, of key] by (auto simp: queue_inv_def dest: in_set_takeD)
  have step: "started = map (\<lambda>key. (key, hd (fst (lane_view q key)))) (take permits (hq_ready q))"
    "lane_view q' = (\<lambda>key. if key \<in> set (take permits (hq_ready q)) then (tl (fst (lane_view q key)), True) else lane_view q key)"
    using spawn_ready_step[OF assms(1), of permits] assms(2) by auto
  show "started_events key started @ fst (lane_view q' key) = fst (lane_view q key)"
    using waits unfolding step started_round[OF assms(1)] by auto
  show "length (started_events key started) + (if snd (lane_view q key) then 1 else 0) = (if snd (lane_view q' key) then 1 else 0)"
    using waits unfolding step started_round[OF assms(1)] by auto
qed

lemma lane_history:
  assumes "queue_steps q0 ops starts q" "queue_inv q0"
  shows "subseq (started_events key starts @ fst (lane_view q key)) (fst (lane_view q0 key) @ enqueued_events key ops)"
  using assms
proof (induction rule: queue_steps.induct)
  case steps_none
  then show ?case by (simp add: started_events_def enqueued_events_def)
next
  case (steps_enqueue ops starts q k event)
  then have "queue_inv q" by (blast dest: queue_steps_inv)
  from enqueue_step(2)[OF this] steps_enqueue show ?case
    by (auto simp: enqueued_snoc simp flip: append_assoc)
next
  case (steps_spawn ops starts q permits started left q')
  then have "queue_inv q" by (blast dest: queue_steps_inv)
  from spawn_lane(1)[OF this steps_spawn.hyps(2)] steps_spawn show ?case
    by (simp add: enqueued_snoc started_append)
next
  case (steps_complete ops starts q k)
  then have "queue_inv q" by (blast dest: queue_steps_inv)
  from complete_step(2)[OF this steps_complete.hyps(2)] steps_complete show ?case by (auto simp: enqueued_snoc)
next
  case (steps_retire ops starts q k)
  then have inv: "queue_inv q" by (blast dest: queue_steps_inv)
  have "subseq (started_events key starts) (started_events key starts @ fst (lane_view q key))" by (rule subseq_rev_drop_many) simp
  with steps_retire retire_step(2)[OF inv, of k] show ?case
    by (auto simp: enqueued_snoc intro: subseq_order.trans)
next
  case (steps_discard ops starts q matches)
  then have "queue_inv q" by (blast dest: queue_steps_inv)
  from discard_matching_step(2)[OF this, of matches key]
  have "subseq (started_events key starts @ fst (lane_view (discard_matching matches q) key))
    (started_events key starts @ fst (lane_view q key))" by (simp add: list_emb_append_mono subseq_filter_left)
  with steps_discard show ?case by (auto simp: enqueued_snoc intro: subseq_order.trans)
qed

lemma lane_history_exact:
  assumes "queue_steps q0 ops starts q" "queue_inv q0" "\<not> list_ex op_discards ops"
  shows "started_events key starts @ fst (lane_view q key) = fst (lane_view q0 key) @ enqueued_events key ops"
  using assms
proof (induction rule: queue_steps.induct)
  case steps_none
  then show ?case by (simp add: started_events_def enqueued_events_def)
next
  case (steps_enqueue ops starts q k event)
  then have "queue_inv q" by (blast dest: queue_steps_inv)
  from enqueue_step(2)[OF this] steps_enqueue show ?case
    by (auto simp: enqueued_snoc simp flip: append_assoc)
next
  case (steps_spawn ops starts q permits started left q')
  then have "queue_inv q" by (blast dest: queue_steps_inv)
  from spawn_lane(1)[OF this steps_spawn.hyps(2)] steps_spawn show ?case
    by (simp add: enqueued_snoc started_append)
next
  case (steps_complete ops starts q k)
  then have "queue_inv q" by (blast dest: queue_steps_inv)
  from complete_step(2)[OF this steps_complete.hyps(2)] steps_complete show ?case by (auto simp: enqueued_snoc)
qed simp_all

lemma completions_snoc:
  "completions key (ops @ [op]) = completions key ops + (case op of Complete k \<Rightarrow> if k = key then 1 else 0 | _ \<Rightarrow> 0)"
  by (simp add: completions_def split: queue_op.splits)

lemma lane_running_count:
  assumes "queue_steps q0 ops starts q" "queue_inv q0"
  shows "(if snd (lane_view q0 key) then 1 else 0) + length (started_events key starts) =
    completions key ops + (if snd (lane_view q key) then 1 else 0)"
  using assms
proof (induction rule: queue_steps.induct)
  case steps_none
  then show ?case by (simp add: started_events_def completions_def)
next
  case (steps_enqueue ops starts q k event)
  then have "queue_inv q" by (blast dest: queue_steps_inv)
  from enqueue_step(2)[OF this] steps_enqueue show ?case by (simp add: completions_snoc)
next
  case (steps_spawn ops starts q permits started left q')
  then have "queue_inv q" by (blast dest: queue_steps_inv)
  from spawn_lane(2)[OF this steps_spawn.hyps(2), of key] steps_spawn.IH[OF steps_spawn.prems] show ?case
    by (simp add: completions_snoc started_append)
next
  case (steps_complete ops starts q k)
  then have "queue_inv q" by (blast dest: queue_steps_inv)
  from complete_step(2)[OF this steps_complete.hyps(2)] steps_complete show ?case by (auto simp: completions_snoc)
next
  case (steps_retire ops starts q k)
  then have inv: "queue_inv q" by (blast dest: queue_steps_inv)
  from steps_retire retire_step(2)[OF inv, of k] show ?case by (simp add: completions_snoc)
next
  case (steps_discard ops starts q matches)
  then have "queue_inv q" by (blast dest: queue_steps_inv)
  from steps_discard discard_matching_step(2)[OF this, of matches key] show ?case by (simp add: completions_snoc)
qed

text \<open>C20. From the empty queue on, the events handed to the workers for a lane, followed by those that still wait in it, are
a subsequence of the events received for the lane: handlers of one peer and channel start in arrival order and no
event is handed out twice, whatever is discarded and however rounds and completions interleave. When no session was
retired, nothing is missing either: started and waiting events are exactly the received ones.\<close>

theorem lane_events_start_in_order:
  assumes "queue_steps handler_queue_default ops starts q"
  shows "subseq (started_events key starts @ fst (lane_view q key)) (enqueued_events key ops) \<and>
    (list_ex op_discards ops \<or> started_events key starts @ fst (lane_view q key) = enqueued_events key ops)"
  using lane_history[OF assms, of key] lane_history_exact[OF assms, of key] by auto

text \<open>A lane never has two handlers at work: the number of events started for it is the number of completions
reported for it, plus one exactly while the lane is marked as running. An event that waits in a lane with a running
handler is not on the list of lanes to start.\<close>

theorem one_handler_per_lane:
  assumes "queue_steps handler_queue_default ops starts q"
  shows "length (started_events key starts) = completions key ops + (if snd (lane_view q key) then 1 else 0) \<and>
    (key \<in> set (hq_ready q) \<longleftrightarrow> fst (lane_view q key) \<noteq> [] \<and> \<not> snd (lane_view q key)) \<and> distinct (hq_ready q)"
proof -
  have "queue_inv q" using queue_steps_inv[OF assms] by simp
  then show ?thesis using lane_running_count[OF assms queue_inv_default, of key] runnable_view[of q key]
    by (simp add: queue_inv_def)
qed

section \<open>Turns\<close>

lemma ready_position:
  assumes "queue_steps q0 ops starts q" "queue_inv q0" "\<not> list_ex op_discards ops" "hq_ready q0 = before @ key # behind"
  shows "key \<in> fst ` set starts \<or>
    (\<exists>behind. hq_ready q = drop (sum_list (map op_permits ops)) before @ key # behind \<and>
      sum_list (map op_permits ops) \<le> length before)"
  using assms(1,2,3)
proof (induction rule: queue_steps.induct)
  case steps_none
  then show ?case using assms(4) by simp
next
  case (steps_enqueue ops starts q k event)
  then have "queue_inv q" by (blast dest: queue_steps_inv)
  from enqueue_step(3)[OF this, of k event] steps_enqueue show ?case by auto
next
  case (steps_complete ops starts q k)
  then have "queue_inv q" by (blast dest: queue_steps_inv)
  from complete_step(3)[OF this steps_complete.hyps(2)] steps_complete show ?case by auto
next
  case (steps_spawn ops starts q permits started left q')
  then have inv: "queue_inv q" by (blast dest: queue_steps_inv)
  let ?n = "sum_list (map op_permits ops)"
  have step: "started = map (\<lambda>key. (key, hd (fst (lane_view q key)))) (take permits (hq_ready q))"
    "hq_ready q' = drop permits (hq_ready q)"
    using spawn_ready_step[OF inv, of permits] steps_spawn.hyps(2) by auto
  from steps_spawn have "key \<in> fst ` set starts \<or>
      (\<exists>behind. hq_ready q = drop ?n before @ key # behind \<and> ?n \<le> length before)" by simp
  then show ?case
  proof
    assume "\<exists>behind. hq_ready q = drop ?n before @ key # behind \<and> ?n \<le> length before"
    then obtain later where later: "hq_ready q = drop ?n before @ key # later" "?n \<le> length before" by blast
    show ?case
    proof (cases "?n + permits \<le> length before")
      case True
      then show ?thesis using later by (auto simp: step add.commute)
    next
      case False
      then have "key \<in> set (take permits (hq_ready q))" using later by (cases "permits - (length before - ?n)") auto
      then show ?thesis by (force simp: step)
    qed
  qed auto
qed simp_all

text \<open>C21. Turns are kept: a lane that is on the ready list with some lanes before it is started as soon as the free workers of
the later rounds exceed the number of lanes before it, whatever arrives for other lanes and whichever handlers end
in between, provided no session is retired. No busy peer or channel can starve another one.\<close>

theorem waiting_lane_is_served:
  assumes "queue_steps handler_queue_default earlier started q0" "hq_ready q0 = before @ key # behind"
    and "queue_steps q0 ops starts q" "\<not> list_ex op_discards ops" "length before < sum_list (map op_permits ops)"
  shows "key \<in> fst ` set starts"
  using ready_position[OF assms(3) queue_steps_inv[OF assms(1)] assms(4,2)] assms(5) by auto

section \<open>Sessions\<close>

text \<open>The registry: generations are below the next one, and a lane of either queue carries a generation that was given out.\<close>

definition lanes_below :: "u64 \<Rightarrow> 'e handler_queue \<Rightarrow> bool" where
  "lanes_below bound q \<longleftrightarrow> (\<forall>peer channel generation. bound \<le> generation \<longrightarrow> lane_view q (peer, channel, generation) = ([], False))"

definition registry_inv :: "('s, 'e) lane_registry \<Rightarrow> bool" where
  "registry_inv r \<longleftrightarrow> queue_inv (lr_ordered r) \<and> queue_inv (lr_critical r) \<and>
     (\<forall>entry \<in> set (lr_sessions r). snd (snd entry) < lr_next_generation r) \<and>
     lanes_below (lr_next_generation r) (lr_ordered r) \<and> lanes_below (lr_next_generation r) (lr_critical r)"

lemma lanes_below_mono: "lanes_below bound q \<Longrightarrow> bound \<le> bound' \<Longrightarrow> lanes_below bound' q"
  by (meson lanes_below_def order.trans)

lemma retire_below: "queue_inv q \<Longrightarrow> lanes_below bound q \<Longrightarrow> lanes_below bound (retire_lane key q)"
  by (auto simp: lanes_below_def retire_step)

definition fresh_lane :: "('s, 'e) lane_registry \<Rightarrow> lane_base \<Rightarrow> u64 \<Rightarrow> ('s, 'e) lane_registry \<Rightarrow> bool" where
  "fresh_lane r base generation r' \<longleftrightarrow>
     lane_view (lr_ordered r') (lane_key_of base generation) = ([], False) \<and>
     lane_view (lr_critical r') (lane_key_of base generation) = ([], False) \<and>
     generation \<notin> (snd \<circ> snd) ` set (lr_sessions r)"

definition nothing_waits :: "lane_key \<Rightarrow> ('s, 'e) lane_registry \<Rightarrow> bool" where
  "nothing_waits key r \<longleftrightarrow> fst (lane_view (lr_ordered r) key) = [] \<and> fst (lane_view (lr_critical r) key) = []"

lemma retire_registry:
  assumes "registry_inv r"
  shows "registry_inv (r\<lparr>lr_ordered := retire_lane key (lr_ordered r), lr_critical := retire_lane key (lr_critical r)\<rparr>)"
    and "nothing_waits key (r\<lparr>lr_ordered := retire_lane key (lr_ordered r), lr_critical := retire_lane key (lr_critical r)\<rparr>)"
  using assms by (simp_all add: registry_inv_def retire_step retire_below nothing_waits_def)

lemma next_generation_above:
  assumes "(n :: u64) \<noteq> - 1"
  shows "n < max (n + 1) 1" "m < n \<Longrightarrow> m < max (n + 1) 1"
proof -
  have "1 + n \<noteq> 0" using assms max_word_wrap[of n] by (auto simp: add.commute)
  from unatSuc[OF this] have "n < n + 1" by (simp add: word_less_nat_alt add.commute)
  then show "n < max (n + 1) 1" by (simp add: less_max_iff_disj)
  then show "m < max (n + 1) 1" if "m < n" using that by order
qed

lemma register_registry:
  assumes "registry_inv r" "lr_next_generation r \<noteq> - 1"
  shows "registry_inv (r\<lparr>lr_next_generation := max (lr_next_generation r + 1) 1,
      lr_sessions := put_key base (session, lr_next_generation r) (lr_sessions r)\<rparr>)"
    and "fresh_lane r base (lr_next_generation r) r"
proof -
  let ?next = "max (lr_next_generation r + 1) 1"
  have above: "lr_next_generation r < ?next" by (rule next_generation_above(1)[OF assms(2)])
  note mono = lanes_below_mono[OF _ less_imp_le[OF above]]
  have "\<forall>entry \<in> set (put_key base (session, lr_next_generation r) (lr_sessions r)). snd (snd entry) < ?next"
    using assms(1) above next_generation_above(2)[OF assms(2)] by (auto simp: registry_inv_def put_key_def)
  then show "registry_inv (r\<lparr>lr_next_generation := ?next,
      lr_sessions := put_key base (session, lr_next_generation r) (lr_sessions r)\<rparr>)"
    using assms(1) by (simp add: registry_inv_def mono del: max_less_iff_conj)
  show "fresh_lane r base (lr_next_generation r) r"
    using assms(1) by (auto simp: registry_inv_def fresh_lane_def lanes_below_def lane_key_of_def)
qed

text \<open>When a message arrives on a channel whose registered session is another connection, or none, the lane it gets
is one that holds nothing in either queue and that no other session has; what waited in the lane of the session before is
dropped, and a handler of that session that still runs keeps its own lane. A message of the registered connection
keeps its lane, so order is kept across the whole session.\<close>

theorem session_lanes_are_separate:
  assumes "registry_inv r" "lr_next_generation r \<noteq> - 1"
    and "ordered_lane_generation same_connection base session r = (generation, r')"
  shows "registry_inv r' \<and>
    (case map_of (lr_sessions r) base of
       None \<Rightarrow> map_of (lr_sessions r') base = Some (session, generation) \<and> fresh_lane r base generation r'
     | Some (old, old_generation) \<Rightarrow>
         if same_connection old session then generation = old_generation \<and> r' = r
         else map_of (lr_sessions r') base = Some (session, generation) \<and> fresh_lane r base generation r' \<and>
           nothing_waits (lane_key_of base old_generation) r' \<and>
           snd (lane_view (lr_ordered r') (lane_key_of base old_generation)) =
             snd (lane_view (lr_ordered r) (lane_key_of base old_generation)))"
proof (cases "map_of (lr_sessions r) base")
  case None
  then show ?thesis using assms register_registry[OF assms(1,2), where base = base]
    by (auto simp: ordered_lane_generation_def Let_def fresh_lane_def)
next
  case (Some entry)
  obtain old old_generation where entry: "entry = (old, old_generation)" by (cases entry)
  let ?key = "lane_key_of base old_generation"
  let ?r = "r\<lparr>lr_ordered := retire_lane ?key (lr_ordered r), lr_critical := retire_lane ?key (lr_critical r)\<rparr>"
  have "lr_next_generation ?r \<noteq> - 1" using assms(2) by simp
  note new = register_registry[OF retire_registry(1)[OF assms(1), of ?key] this, where base = base]
  have "snd (lane_view (lr_ordered ?r) ?key) = snd (lane_view (lr_ordered r) ?key)"
    using assms(1) by (simp add: registry_inv_def retire_step)
  with new show ?thesis using Some assms retire_registry(2)[OF assms(1), of ?key]
    by (auto simp: entry ordered_lane_generation_def Let_def fresh_lane_def nothing_waits_def split: if_splits)
qed

text \<open>A pruning pass, entry by entry: a lane of a session that is no longer current loses what waits in it, every other lane
stays as it is.\<close>

definition drop_waiting :: "lane_key set \<Rightarrow> (lane_key \<Rightarrow> 'e list \<times> bool) \<Rightarrow> lane_key \<Rightarrow> 'e list \<times> bool" where
  "drop_waiting keys view = (\<lambda>key. if key \<in> keys then ([], snd (view key)) else view key)"

definition retired_keys :: "('s \<Rightarrow> bool) \<Rightarrow> (lane_base \<times> 's \<times> u64) list \<Rightarrow> lane_key set" where
  "retired_keys is_current sessions =
     set (map (\<lambda>(base, _, generation). lane_key_of base generation) (filter (\<lambda>(_, session, _). \<not> is_current session) sessions))"

lemma drop_waiting_one: "drop_waiting keys (view(key := ([], snd (view key)))) = drop_waiting (insert key keys) view"
  by (auto simp: drop_waiting_def fun_eq_iff)

lemma drop_waiting_none [simp]: "drop_waiting {} view = view"
  by (simp add: drop_waiting_def)

lemma prune_loop_step:
  assumes "queue_loose ordered" "queue_loose critical"
    and "prune_loop is_current sessions ordered critical = (changed, kept, ordered', critical')"
  shows "queue_loose ordered' \<and> queue_loose critical' \<and>
    lane_view ordered' = drop_waiting (retired_keys is_current sessions) (lane_view ordered) \<and>
    lane_view critical' = drop_waiting (retired_keys is_current sessions) (lane_view critical) \<and>
    (changed \<or> \<not> queue_inv ordered \<or> queue_inv ordered') \<and> (changed \<or> \<not> queue_inv critical \<or> queue_inv critical')"
  using assms
proof (induction sessions arbitrary: ordered critical changed kept)
  case Nil
  then show ?case by (auto simp: retired_keys_def)
next
  case (Cons entry sessions)
  obtain base session generation where entry: "entry = (base, session, generation)" by (cases entry)
  let ?key = "lane_key_of base generation"
  show ?case
  proof (cases "is_current session")
    case True
    obtain kept2 where rest: "prune_loop is_current sessions ordered critical = (changed, kept2, ordered', critical')"
      using Cons.prems(3) True by (auto simp: entry Let_def split: prod.splits if_splits)
    have "retired_keys is_current (entry # sessions) = retired_keys is_current sessions"
      using True by (simp add: entry retired_keys_def)
    then show ?thesis using Cons.IH[OF Cons.prems(1,2) rest] by simp
  next
    case False
    obtain c1 o1 where d1: "discard_lane ?key ordered = (c1, o1)" by (cases "discard_lane ?key ordered")
    obtain c2 o2 where d2: "discard_lane ?key critical = (c2, o2)" by (cases "discard_lane ?key critical")
    obtain changed2 kept2 where rest: "prune_loop is_current sessions o1 o2 = (changed2, kept2, ordered', critical')"
      "changed = (c1 \<or> c2 \<or> changed2)"
      using Cons.prems(3) False by (auto simp: entry Let_def d1 d2 split: prod.splits if_splits)
    note first = discard_lane_step[OF Cons.prems(1), of ?key, unfolded d1 fst_conv snd_conv]
    note second = discard_lane_step[OF Cons.prems(2), of ?key, unfolded d2 fst_conv snd_conv]
    have keys: "retired_keys is_current (entry # sessions) = insert ?key (retired_keys is_current sessions)"
      using False by (simp add: entry retired_keys_def)
    note tail = Cons.IH[OF first(1) second(1) rest(1)]
    have "changed \<or> \<not> queue_inv ordered \<or> queue_inv ordered'" "changed \<or> \<not> queue_inv critical \<or> queue_inv critical'"
      using tail first(4) second(4) rest(2) by blast+
    then show ?thesis using tail unfolding keys first(2) second(2) drop_waiting_one by blast
  qed
qed

text \<open>The pass that forgets old sessions keeps both queues in order and takes from them exactly what waits in the lanes
of sessions that are no longer current: no event of a live session is lost and no running handler is forgotten.\<close>

theorem prune_drops_retired_sessions_only:
  assumes "queue_inv (lr_ordered r)" "queue_inv (lr_critical r)"
  shows "queue_inv (lr_ordered (prune_ordered_sessions is_current r)) \<and> queue_inv (lr_critical (prune_ordered_sessions is_current r)) \<and>
    lane_view (lr_ordered (prune_ordered_sessions is_current r)) =
      drop_waiting (retired_keys is_current (lr_sessions r)) (lane_view (lr_ordered r)) \<and>
    lane_view (lr_critical (prune_ordered_sessions is_current r)) =
      drop_waiting (retired_keys is_current (lr_sessions r)) (lane_view (lr_critical r))"
proof -
  obtain changed kept ordered critical where
    pass: "prune_loop is_current (lr_sessions r) (lr_ordered r) (lr_critical r) = (changed, kept, ordered, critical)"
    by (cases "prune_loop is_current (lr_sessions r) (lr_ordered r) (lr_critical r)")
  note step = prune_loop_step[OF queue_inv_loose[OF assms(1)] queue_inv_loose[OF assms(2)] pass]
  show ?thesis using step assms by (cases changed) (auto simp: prune_ordered_sessions_def pass Let_def compact_step)
qed

section \<open>A run\<close>

definition demo_ops :: "nat queue_op list" where
  "demo_ops = [Enqueue (1, 3, 1) 10, Enqueue (1, 3, 1) 11, Enqueue (2, 3, 1) 20, Spawn 1, Complete (1, 3, 1), Spawn 2]"

definition demo_start :: "nat handler_queue" where
  "demo_start = hq_enqueue (2, 3, 1) 20 (hq_enqueue (1, 3, 1) 11 (hq_enqueue (1, 3, 1) 10 handler_queue_default))"

definition demo_middle :: "nat handler_queue" where
  "demo_middle = hq_complete (1, 3, 1) (snd (snd (spawn_ready 1 demo_start)))"

lemma steps_spawn_of: "queue_steps q0 ops starts q \<Longrightarrow>
    queue_steps q0 (ops @ [Spawn permits]) (starts @ fst (spawn_ready permits q)) (snd (snd (spawn_ready permits q)))"
  by (erule steps_spawn[where left = "fst (snd (spawn_ready permits q))"]) simp

lemma demo_queues:
  "hq_ready demo_start = [(1, 3, 1), (2, 3, 1)]" "fst (spawn_ready 1 demo_start) = [((1, 3, 1), 10)]"
  "hq_ready demo_middle = [(2, 3, 1), (1, 3, 1)]" "fst (spawn_ready 2 demo_middle) = [((2, 3, 1), 20), ((1, 3, 1), 11)]"
  "snd (lane_view (snd (snd (spawn_ready 1 demo_start))) (1, 3, 1))"
  by code_simp+

lemma demo_begin: "queue_steps handler_queue_default [Enqueue (1, 3, 1) 10, Enqueue (1, 3, 1) 11, Enqueue (2, 3, 1) 20] [] demo_start"
  using steps_enqueue[OF steps_enqueue[OF steps_enqueue[OF steps_none]]] by (simp add: demo_start_def)

lemma demo_run: "queue_steps handler_queue_default demo_ops [((1, 3, 1), 10), ((2, 3, 1), 20), ((1, 3, 1), 11)]
    (snd (snd (spawn_ready 2 demo_middle)))"
  using steps_spawn_of[OF steps_complete[OF steps_spawn_of[OF demo_begin, of 1] demo_queues(5), folded demo_middle_def], of 2]
  by (simp add: demo_queues demo_queues(2)[unfolded One_nat_def] demo_ops_def)

theorem lane_events_start_in_order_witness:
  "[10, 11] = started_events (1, 3, 1) [((1, 3, 1), 10), ((2, 3, 1), 20), ((1, 3, 1), 11 :: nat)] \<and>
   started_events (1, 3, 1) [((1, 3, 1), 10), ((2, 3, 1), 20), ((1, 3, 1), 11)] @
     fst (lane_view (snd (snd (spawn_ready 2 demo_middle))) (1, 3, 1)) = enqueued_events (1, 3, 1) demo_ops"
  using lane_events_start_in_order[OF demo_run, of "(1, 3, 1)"] by (simp add: demo_ops_def started_events_def)

theorem one_handler_per_lane_witness:
  "completions (1, 3, 1) demo_ops = 1 \<and> snd (lane_view (snd (snd (spawn_ready 2 demo_middle))) (1, 3, 1)) \<and>
   (1, 3, 1) \<notin> set (hq_ready (snd (snd (spawn_ready 2 demo_middle))))"
  using one_handler_per_lane[OF demo_run, of "(1, 3, 1)"]
  by (simp add: demo_ops_def started_events_def completions_def split: if_splits)

theorem waiting_lane_is_served_witness: "(2, 3, 1) \<in> fst ` set (fst (spawn_ready 2 demo_start))"
  using waiting_lane_is_served[OF demo_begin, of "[(1, 3, 1)]" "(2, 3, 1)" "[]", OF _ steps_spawn_of[OF steps_none, of _ 2]]
  by (simp add: demo_queues)

definition demo_registry :: "(nat, nat) lane_registry" where
  "demo_registry = \<lparr>lr_next_generation = 2, lr_sessions = [((1, 3), 70, 1), ((2, 3), 80, 1)],
     lr_ordered = demo_start, lr_critical = handler_queue_default\<rparr>"

lemma demo_lanes: "hq_lanes demo_start =
    [((2, 3, 1), \<lparr>lane_events = [20], lane_running = False\<rparr>), ((1, 3, 1), \<lparr>lane_events = [10, 11], lane_running = False\<rparr>)]"
  by code_simp

lemma demo_registry_inv: "registry_inv demo_registry"
proof -
  have "queue_inv demo_start" using queue_steps_inv[OF demo_begin] by simp
  moreover have "lanes_below 2 demo_start"
    by (auto simp: lanes_below_def lane_view_def demo_lanes word_le_nat_alt)
  moreover have "lanes_below 2 (handler_queue_default :: nat handler_queue)" by (simp add: lanes_below_def)
  ultimately show ?thesis by (simp add: registry_inv_def demo_registry_def)
qed

theorem session_lanes_are_separate_witness:
  "fst (ordered_lane_generation (=) (1, 3) 71 demo_registry) = 2 \<and>
   registry_inv (snd (ordered_lane_generation (=) (1, 3) 71 demo_registry)) \<and>
   fresh_lane demo_registry (1, 3) 2 (snd (ordered_lane_generation (=) (1, 3) 71 demo_registry)) \<and>
   nothing_waits (1, 3, 1) (snd (ordered_lane_generation (=) (1, 3) 71 demo_registry))"
  using session_lanes_are_separate[OF demo_registry_inv _ prod.collapse[symmetric], of "(=)" "(1, 3)" 71]
  by (simp add: demo_registry_def lane_key_of_def ordered_lane_generation_def Let_def)

theorem prune_drops_retired_sessions_only_witness:
  "lane_view (lr_ordered (prune_ordered_sessions (\<lambda>session. session = 70) demo_registry)) (1, 3, 1) = ([10, 11], False) \<and>
   lane_view (lr_ordered (prune_ordered_sessions (\<lambda>session. session = 70) demo_registry)) (2, 3, 1) = ([], False)"
  using prune_drops_retired_sessions_only[of demo_registry "\<lambda>session. session = 70"] demo_registry_inv
  by (simp add: registry_inv_def demo_registry_def drop_waiting_def retired_keys_def lane_key_of_def lane_view_def demo_lanes)

end
