(* ===== verification/Deflate.thy ===== *)
theory Deflate
  imports MessagesCompound
begin

text \<open>
  Compressed payloads of \<open>basis-protocol/src/messages.rs\<close>: the bounded decompression loop and the batch of READY records.
  The compressor and the streaming decompressor are those of the \<open>flate2\<close> crate and are arguments; \<open>streams\<close> states what the
  code relies on of a decompressor.
\<close>

section \<open>Bounded decompression\<close>

text \<open>One call of \<open>Decompress::decompress\<close>: from its state, the rest of the input and the room in the output it
computes, unless the data is corrupt, the next state, whether the stream ended, the number of bytes consumed and the bytes produced.\<close>

type_synonym 'd inflater = "'d \<Rightarrow> bytes \<Rightarrow> nat \<Rightarrow> ('d \<times> bool \<times> nat \<times> bytes) option"

text \<open>The loop of \<open>decompress_deflate_bounded\<close>. Input behind the end of the data cannot be taken; that branch stands for the
panic of the slice.\<close>

function inflate_loop :: "'d inflater \<Rightarrow> bytes \<Rightarrow> nat \<Rightarrow> 'd \<Rightarrow> nat \<Rightarrow> bytes \<Rightarrow> bytes option" where
  "inflate_loop decompress data max_bytes decoder total_in out =
     (let output_len = min (max_bytes + 1 - length out) 8192
      in if output_len = 0 then None
         else case decompress decoder (drop total_in data) output_len of
           None \<Rightarrow> None
         | Some (decoder', stream_end, consumed, produced) \<Rightarrow>
             let total_in' = total_in + consumed; out' = out @ produced
             in if max_bytes < length out' then None
                else if stream_end then (if total_in' = length data then Some out' else None)
                else if consumed = 0 \<and> produced = [] then None
                else if length data < total_in' then None
                else inflate_loop decompress data max_bytes decoder' total_in' out')"
  by pat_completeness auto
termination
  by (relation "measure (\<lambda>(_, data, max_bytes, _, total_in, out). (length data - total_in) + (max_bytes + 1 - length out))")
    (auto simp: length_greater_0_conv[symmetric] simp del: length_greater_0_conv)

declare inflate_loop.simps [simp del]

definition decompress_deflate_bounded :: "'d inflater \<Rightarrow> 'd \<Rightarrow> bytes \<Rightarrow> nat \<Rightarrow> bytes option" where
  "decompress_deflate_bounded decompress new data max_bytes = inflate_loop decompress data max_bytes new 0 []"

text \<open>A decompressor in some state turns an input into an output, in whatever pieces the caller asks for: each call fits the
room, produces the next bytes of the output, and consumes input or produces output until it reports the end, with nothing left
on either side.\<close>

inductive streams :: "'d inflater \<Rightarrow> 'd \<Rightarrow> bytes \<Rightarrow> bytes \<Rightarrow> bool" for decompress where
  streams_step: "(\<And>room. 0 < room \<Longrightarrow> \<exists>decoder' stream_end consumed produced rest.
      decompress decoder input room = Some (decoder', stream_end, consumed, produced) \<and>
      length produced \<le> room \<and> consumed \<le> length input \<and> plain = produced @ rest \<and>
      (if stream_end then rest = [] \<and> consumed = length input
       else (0 < consumed \<or> produced \<noteq> []) \<and> streams decompress decoder' (drop consumed input) rest)) \<Longrightarrow>
    streams decompress decoder input plain"

lemma inflate_loop_bound: "inflate_loop decompress data max_bytes decoder total_in out = Some result \<Longrightarrow> length result \<le> max_bytes"
proof (induction decompress data max_bytes decoder total_in out rule: inflate_loop.induct)
  case (1 decompress data max_bytes decoder total_in out)
  from 1(2) show ?case
    by (subst (asm) inflate_loop.simps) (auto simp: Let_def split: if_splits option.splits prod.splits intro: 1(1)[OF refl _ _ refl refl refl refl refl])
qed

lemma inflate_loop_streams:
  assumes "streams decompress decoder input plain" "input = drop total_in data" "total_in \<le> length data"
    and "length out + length plain \<le> max_bytes"
  shows "inflate_loop decompress data max_bytes decoder total_in out = Some (out @ plain)"
  using assms
proof (induction arbitrary: total_in out rule: streams.induct)
  case (streams_step decoder input plain)
  let ?room = "min (max_bytes + 1 - length out) 8192"
  have "0 < ?room" using streams_step.prems by simp
  from streams_step.IH[OF this] obtain decoder' stream_end consumed produced rest where
    call: "decompress decoder input ?room = Some (decoder', stream_end, consumed, produced)"
      "length produced \<le> ?room" "consumed \<le> length input" "plain = produced @ rest"
    and ended: "stream_end \<Longrightarrow> rest = [] \<and> consumed = length input"
    and continues: "\<not> stream_end \<Longrightarrow> (0 < consumed \<or> produced \<noteq> []) \<and>
      (\<forall>total_in out. drop consumed input = drop total_in data \<longrightarrow> total_in \<le> length data \<longrightarrow>
        length out + length rest \<le> max_bytes \<longrightarrow>
        inflate_loop decompress data max_bytes decoder' total_in out = Some (out @ rest))"
    by (metis (no_types, lifting))
  have fits: "length (out @ produced) \<le> max_bytes" "total_in + consumed \<le> length data"
    using streams_step.prems call by simp_all
  show ?case
  proof (cases stream_end)
    case True
    then show ?thesis using ended call fits streams_step.prems \<open>0 < ?room\<close>
      by (subst inflate_loop.simps) (simp add: Let_def)
  next
    case False
    have "drop consumed input = drop (total_in + consumed) data" using streams_step.prems by (simp add: add.commute)
    with continues[OF False] fits call(4) streams_step.prems
    have "inflate_loop decompress data max_bytes decoder' (total_in + consumed) (out @ produced) = Some ((out @ produced) @ rest)"
      by (metis (no_types, lifting) length_append add.assoc)
    then show ?thesis using continues[OF False] call fits streams_step.prems \<open>0 < ?room\<close> False
      by (subst inflate_loop.simps) (auto simp: Let_def)
  qed
qed

section \<open>The batch of READY records\<close>

record ServerReadyBatchMessage =
  srb_count :: u16
  srb_payload :: bytes

definition MAX_PAYLOAD_BYTES :: nat where "MAX_PAYLOAD_BYTES = 32 * 1024"

definition MAX_DECODED_PAYLOAD_BYTES :: nat where "MAX_DECODED_PAYLOAD_BYTES = 512 * 1024"

definition MIN_COMPRESS_BYTES :: nat where "MIN_COMPRESS_BYTES = 256"

text \<open>The compressor yields the deflated bytes, or nothing when writing or finishing fails; the result is used when it is shorter.\<close>

definition compressed_payload :: "(bytes \<Rightarrow> bytes option) \<Rightarrow> bytes \<Rightarrow> bytes option" where
  "compressed_payload deflate payload =
     (if MIN_COMPRESS_BYTES \<le> length payload
      then case deflate payload of
          Some deflated \<Rightarrow> if length deflated < length payload then Some deflated else None
        | None \<Rightarrow> None
      else None)"

definition ServerReadyBatchMessage_serialize :: "(bytes \<Rightarrow> bytes option) \<Rightarrow> ServerReadyBatchMessage \<Rightarrow> writing" where
  "ServerReadyBatchMessage_serialize deflate m =
     (if MAX_DECODED_PAYLOAD_BYTES < length (srb_payload m)
      then failW (LengthOverflow (length (srb_payload m)) MAX_DECODED_PAYLOAD_BYTES)
      else let compressed = compressed_payload deflate (srb_payload m);
               framed = (case compressed of Some bytes \<Rightarrow> bytes | None \<Rightarrow> srb_payload m)
           in runW [okW (put_u16 (srb_count m)), okW (put_bool (compressed \<noteq> None)),
                    okW (put_i32 (of_nat (length framed))), okW (put_bytes framed)])"

definition ServerReadyBatchMessage_deserialize :: "'d inflater \<Rightarrow> 'd \<Rightarrow> ServerReadyBatchMessage reading" where
  "ServerReadyBatchMessage_deserialize decompress new =
     bindR get_u16 (\<lambda>count.
     bindR get_bool (\<lambda>compressed.
     bindR get_i32 (\<lambda>len.
     if sint len < 0 then failR (Underflow 1 0)
     else bindR (get_bytes (unat len)) (\<lambda>framed.
     if compressed
     then case decompress_deflate_bounded decompress new framed MAX_DECODED_PAYLOAD_BYTES of
         None \<Rightarrow> failR (Underflow 1 0)
       | Some payload \<Rightarrow> retR \<lparr>srb_count = count, srb_payload = payload\<rparr>
     else if MAX_DECODED_PAYLOAD_BYTES < length framed then failR (Underflow 1 0)
     else retR \<lparr>srb_count = count, srb_payload = framed\<rparr>))))"

definition deflate_ok :: "(bytes \<Rightarrow> bytes option) \<Rightarrow> 'd inflater \<Rightarrow> 'd \<Rightarrow> bool" where
  "deflate_ok deflate decompress new \<longleftrightarrow>
     (\<forall>payload deflated. deflate payload = Some deflated \<longrightarrow> streams decompress new deflated payload)"

lemma i32_length:
  assumes "n < 2 ^ 31"
  shows "unat (of_nat n :: u32) = n" "\<not> sint (of_nat n :: u32) < 0"
proof -
  show n: "unat (of_nat n :: u32) = n" using assms by (simp add: unat_of_nat)
  show "\<not> sint (of_nat n :: u32) < 0"
    using assms by (simp add: signed_of_nat signed_take_bit_int_eq_self)
qed

lemma compressed_payload_shorter:
  "compressed_payload deflate payload = Some deflated \<Longrightarrow> length deflated < length payload \<and> deflate payload = Some deflated"
  by (auto simp: compressed_payload_def split: if_splits option.splits)

lemma ServerReadyBatchMessage_codes:
  assumes "deflate_ok deflate decompress new" "length (srb_payload m) \<le> MAX_DECODED_PAYLOAD_BYTES"
  shows "codes (ServerReadyBatchMessage_serialize deflate m) (ServerReadyBatchMessage_deserialize decompress new) m"
proof -
  define compressed where "compressed = compressed_payload deflate (srb_payload m)"
  define framed where "framed = (case compressed of Some bytes \<Rightarrow> bytes | None \<Rightarrow> srb_payload m)"
  have short: "length framed \<le> MAX_DECODED_PAYLOAD_BYTES"
    using assms(2) compressed_payload_shorter[of deflate "srb_payload m"]
    by (auto simp: framed_def compressed_def split: option.splits)
  then have len: "unat (of_nat (length framed) :: u32) = length framed" "\<not> sint (of_nat (length framed) :: u32) < 0"
    by (simp_all add: i32_length MAX_DECODED_PAYLOAD_BYTES_def)
  have undo: "decompress_deflate_bounded decompress new framed MAX_DECODED_PAYLOAD_BYTES = Some (srb_payload m)" if "compressed \<noteq> None"
  proof -
    from that obtain deflated where deflated: "compressed = Some deflated" by auto
    then have "streams decompress new framed (srb_payload m)"
      using assms(1) compressed_payload_shorter[of deflate "srb_payload m" deflated]
      by (auto simp: framed_def compressed_def deflate_ok_def)
    from inflate_loop_streams[OF this, of 0 framed "[]"] assms(2) show ?thesis
      by (simp add: decompress_deflate_bounded_def)
  qed
  have plain: "framed = srb_payload m" if "compressed = None" using that by (simp add: framed_def)
  have bytes: "codes (okW (put_bytes framed)) (get_bytes (length framed)) framed" by (rule codes_bytes) simp
  have finish: "codes (runW [])
      (if compressed \<noteq> None
       then case decompress_deflate_bounded decompress new framed MAX_DECODED_PAYLOAD_BYTES of
           None \<Rightarrow> failR (Underflow 1 0)
         | Some payload \<Rightarrow> retR \<lparr>srb_count = srb_count m, srb_payload = payload\<rparr>
       else if MAX_DECODED_PAYLOAD_BYTES < length framed then failR (Underflow 1 0)
       else retR \<lparr>srb_count = srb_count m, srb_payload = framed\<rparr>) m"
    using undo plain short by (auto intro!: codes_done)
  have "codes (runW [okW (put_u16 (srb_count m)), okW (put_bool (compressed \<noteq> None)), okW (put_i32 (of_nat (length framed))),
      okW (put_bytes framed)]) (ServerReadyBatchMessage_deserialize decompress new) m"
    unfolding ServerReadyBatchMessage_deserialize_def
    by (rule codes_step[OF codes_prims(4)], rule codes_step[OF codes_prims(3)], rule codes_step[OF codes_prims(7)])
      (simp only: len if_False, rule codes_step[OF bytes], rule finish)
  then show ?thesis
    using assms(2) by (simp add: ServerReadyBatchMessage_serialize_def compressed_def framed_def Let_def)
qed

lemma ready_batch_core:
  assumes "deflate_ok deflate decompress new" "length (srb_payload m) \<le> MAX_DECODED_PAYLOAD_BYTES"
    and "ServerReadyBatchMessage_serialize deflate m writer_new = (Inr (), \<lparr>wdata = wire\<rparr>)"
  shows "ServerReadyBatchMessage_deserialize decompress new (reader_new (wire @ rest)) =
    (Inr m, \<lparr>rdata = wire @ rest, rpos = length wire\<rparr>)"
proof -
  obtain wire' where wire': "writes (ServerReadyBatchMessage_serialize deflate m) wire'"
    "reads (ServerReadyBatchMessage_deserialize decompress new) wire' m"
    using ServerReadyBatchMessage_codes[OF assms(1,2)] by (rule codesE)
  have "wire' = wire" using writes_new[OF wire'(1)] assms(3) by simp
  then show ?thesis using reads_new[OF wire'(2)] by simp
qed

text \<open>C35. A batch of READY records that fits the protocol limit is decoded exactly as it was encoded, with any bytes behind it and
whether or not the compressor was used, provided the decompressor undoes the compressor.\<close>

theorem ready_batch_roundtrip:
  assumes "deflate_ok deflate decompress new" "length (srb_payload m) \<le> MAX_DECODED_PAYLOAD_BYTES"
  shows "\<exists>wire. ServerReadyBatchMessage_serialize deflate m writer_new = (Inr (), \<lparr>wdata = wire\<rparr>) \<and>
    (\<forall>rest. ServerReadyBatchMessage_deserialize decompress new (reader_new (wire @ rest)) =
      (Inr m, \<lparr>rdata = wire @ rest, rpos = length wire\<rparr>))"
proof -
  obtain wire where "writes (ServerReadyBatchMessage_serialize deflate m) wire"
    "reads (ServerReadyBatchMessage_deserialize decompress new) wire m"
    using ServerReadyBatchMessage_codes[OF assms] by (rule codesE)
  then show ?thesis by (intro exI[of _ wire] conjI allI writes_new reads_new)
qed

text \<open>Whatever a peer sends as a compressed payload, and whatever the decompressor does with it, decompression ends and
yields at most the given number of bytes: a small packet cannot be blown up into an arbitrary amount of memory. Every accepted READY batch
holds at most 512 KiB.\<close>

theorem decompression_is_bounded:
  "(case decompress_deflate_bounded decompress new data max_bytes of None \<Rightarrow> True | Some plain \<Rightarrow> length plain \<le> max_bytes) \<and>
   (case fst (ServerReadyBatchMessage_deserialize decompress new reader) of
      Inl _ \<Rightarrow> True | Inr m \<Rightarrow> length (srb_payload m) \<le> MAX_DECODED_PAYLOAD_BYTES)"
proof -
  have bound: "length plain \<le> max_bytes" if "decompress_deflate_bounded decompress new data max_bytes = Some plain" for data max_bytes plain
    using that inflate_loop_bound by (fastforce simp: decompress_deflate_bounded_def)
  have "length (srb_payload m) \<le> MAX_DECODED_PAYLOAD_BYTES"
    if "fst (ServerReadyBatchMessage_deserialize decompress new reader) = Inr m" for m
    using that by (auto simp: ServerReadyBatchMessage_deserialize_def bindR_def retR_def failR_def
        split: prod.splits sum.splits if_splits option.splits dest: bound)
  with bound show ?thesis by (simp split: option.splits sum.splits)
qed

text \<open>A compressor of runs: a payload of one repeated byte becomes its length and that byte.\<close>

definition run_deflate :: "bytes \<Rightarrow> bytes option" where
  "run_deflate payload =
     (case payload of
        byte # _ \<Rightarrow> if length payload < 256 * 256 \<and> payload = replicate (length payload) byte
                   then Some [of_nat (length payload div 256), of_nat (length payload mod 256), byte] else None
      | [] \<Rightarrow> None)"

lemma run_deflate_run: "0 < n \<Longrightarrow> n < 65536 \<Longrightarrow> run_deflate (replicate n byte) = Some [of_nat (n div 256), of_nat (n mod 256), byte]"
  by (cases n) (simp_all add: run_deflate_def)

fun run_inflate :: "(nat \<times> u8) option inflater" where
  "run_inflate None data room =
     (case data of
        [high, low, byte] \<Rightarrow> Some (Some (256 * unat high + unat low, byte), False, 3, [])
      | _ \<Rightarrow> None)"
| "run_inflate (Some (left, byte)) data room =
     (if left \<le> room then Some (Some (0, byte), True, length data, replicate left byte)
      else Some (Some (left - room, byte), False, 0, replicate room byte))"

lemma run_streams_tail: "streams run_inflate (Some (n, byte)) [] (replicate n byte)"
proof (induction n rule: less_induct)
  case (less n)
  show ?case
  proof (rule streams_step)
    fix room :: nat assume room: "0 < room"
    show "\<exists>decoder' stream_end consumed produced rest.
        run_inflate (Some (n, byte)) [] room = Some (decoder', stream_end, consumed, produced) \<and>
        length produced \<le> room \<and> consumed \<le> length ([] :: bytes) \<and> replicate n byte = produced @ rest \<and>
        (if stream_end then rest = [] \<and> consumed = length ([] :: bytes)
         else (0 < consumed \<or> produced \<noteq> []) \<and> streams run_inflate decoder' (drop consumed []) rest)"
    proof (cases "n \<le> room")
      case False
      then have "streams run_inflate (Some (n - room, byte)) [] (replicate (n - room) byte)"
        "replicate n byte = replicate room byte @ replicate (n - room) byte"
        using less.IH room by (simp_all flip: replicate_add)
      then show ?thesis using False room by (auto intro!: exI[of _ "replicate (n - room) byte"])
    qed (auto intro: exI[of _ True])
  qed
qed

lemma run_deflate_ok: "deflate_ok run_deflate run_inflate None"
  unfolding deflate_ok_def
proof (intro allI impI)
  fix payload deflated assume "run_deflate payload = Some deflated"
  then obtain byte where run: "payload = replicate (length payload) byte" "length payload < 256 * 256"
    "deflated = [of_nat (length payload div 256), of_nat (length payload mod 256), byte]"
    by (auto simp: run_deflate_def split: list.splits if_splits)
  have "length payload div 256 < 2 ^ LENGTH(8)" "length payload mod 256 < 2 ^ LENGTH(8)" using run(2) by auto
  then have size: "256 * unat (of_nat (length payload div 256) :: u8) + unat (of_nat (length payload mod 256) :: u8) = length payload"
    by (simp add: unat_of_nat)
  show "streams run_inflate None deflated payload"
  proof (rule streams_step)
    fix room :: nat assume "0 < room"
    have "run_inflate None deflated room = Some (Some (length payload, byte), False, 3, [])"
      using size by (simp add: run(3))
    moreover have "streams run_inflate (Some (length payload, byte)) [] payload"
      using run_streams_tail[of "length payload" byte] run(1) by simp
    ultimately show "\<exists>decoder' stream_end consumed produced rest.
        run_inflate None deflated room = Some (decoder', stream_end, consumed, produced) \<and>
        length produced \<le> room \<and> consumed \<le> length deflated \<and> payload = produced @ rest \<and>
        (if stream_end then rest = [] \<and> consumed = length deflated
         else (0 < consumed \<or> produced \<noteq> []) \<and> streams run_inflate decoder' (drop consumed deflated) rest)"
      by (auto simp: run(3) intro: exI[of _ False])
  qed
qed

theorem ready_batch_roundtrip_witness:
  "compressed_payload run_deflate (replicate 300 7) = Some [1, 44, 7] \<and>
   (\<exists>wire. ServerReadyBatchMessage_serialize run_deflate \<lparr>srb_count = 2, srb_payload = replicate 300 7\<rparr> writer_new = (Inr (), \<lparr>wdata = wire\<rparr>) \<and>
     ServerReadyBatchMessage_deserialize run_inflate None (reader_new (wire @ [9])) =
       (Inr \<lparr>srb_count = 2, srb_payload = replicate 300 7\<rparr>, \<lparr>rdata = wire @ [9], rpos = length wire\<rparr>))"
proof -
  have "compressed_payload run_deflate (replicate 300 7) = Some [1, 44, 7]"
    by (simp add: compressed_payload_def run_deflate_run MIN_COMPRESS_BYTES_def)
  then show ?thesis
    using ready_batch_roundtrip[OF run_deflate_ok, of "\<lparr>srb_count = 2, srb_payload = replicate 300 7\<rparr>"]
    by (auto simp: MAX_DECODED_PAYLOAD_BYTES_def)
qed

end
