(* ===== verification/JoinBroadcast.thy ===== *)
theory JoinBroadcast
  imports Deflate Assoc
begin

text \<open>
  How players learn of each other (\<open>JoinBroadcastState\<close> and its users in \<open>basis-server-core/src/lib.rs\<close>): a player who joins is
  told of everyone present (\<open>send_accept_fanout\<close>), and everyone present is told of the player by batches that a timer flushes
  (\<open>flush_join_batches\<close>). A record is shared between the queues of all receivers and changes when the player changes avatar, so
  records are cells of a store and queues hold their addresses. The codec of READY messages computes with floating-point
  numbers and is an argument, \<open>serialize_server_ready\<close>.
\<close>

section \<open>State\<close>

record JoinBroadcastRecord =
  jr_sequence :: u64
  jr_peer_id :: u16
  jr_revision :: u64
  jr_payload :: bytes

text \<open>Of a connected peer, the fields that this component reads or writes; the metadata is a part of the READY message.\<close>

record 'r ConnectedPeer =
  cp_id :: u16
  cp_ready :: 'r

record 'r JoinPeerState =
  jp_sequence :: u64
  jp_peer :: "'r ConnectedPeer"
  jp_spawn_record :: nat
  jp_initial_history_queued :: bool
  jp_pending :: "nat list"

record 'r JoinBroadcastState =
  jb_next_sequence :: u64
  jb_peers :: "(u16 \<times> 'r JoinPeerState) list"
  jb_records :: "JoinBroadcastRecord list"

definition join_broadcast_default :: "'r JoinBroadcastState" where
  "join_broadcast_default = \<lparr>jb_next_sequence = 0, jb_peers = [], jb_records = []\<rparr>"

definition map_values :: "('v \<Rightarrow> 'v) \<Rightarrow> ('k \<times> 'v) list \<Rightarrow> ('k \<times> 'v) list" where
  "map_values f = map (\<lambda>(k, v). (k, f v))"

section \<open>Operations\<close>

definition register_peer :: "'r ConnectedPeer \<Rightarrow> bytes \<Rightarrow> 'r JoinBroadcastState \<Rightarrow> 'r ConnectedPeer list \<times> 'r JoinBroadcastState" where
  "register_peer peer record_payload s =
     (let sequence = jb_next_sequence s;
          existing = sort_key fst (map (\<lambda>(_, state). (jp_sequence state, jp_peer state))
                       (filter (\<lambda>(_, state). jp_sequence state < sequence) (jb_peers s)));
          record_address = length (jb_records s);
          peers = map_values (\<lambda>state. if jp_sequence state < sequence
                                     then state\<lparr>jp_pending := jp_pending state @ [record_address]\<rparr> else state) (jb_peers s)
      in (map snd existing,
          s\<lparr>jb_next_sequence := sequence + 1,
            jb_peers := put_key (cp_id peer)
              \<lparr>jp_sequence = sequence, jp_peer = peer, jp_spawn_record = record_address,
               jp_initial_history_queued = False, jp_pending = []\<rparr> peers,
            jb_records := jb_records s @
              [\<lparr>jr_sequence = sequence, jr_peer_id = cp_id peer, jr_revision = 0, jr_payload = record_payload\<rparr>]\<rparr>))"

definition mark_initial_history_queued :: "u16 \<Rightarrow> 'r JoinBroadcastState \<Rightarrow> 'r JoinBroadcastState" where
  "mark_initial_history_queued peer_id s =
     (case map_of (jb_peers s) peer_id of
        None \<Rightarrow> s
      | Some peer \<Rightarrow> s\<lparr>jb_peers := put_key peer_id (peer\<lparr>jp_initial_history_queued := True\<rparr>) (jb_peers s)\<rparr>)"

text \<open>\<open>update_peer_ready\<close> runs under the lock of the state, but the flush reads the two fields of a record without that lock: the write of the payload
and the count of the revision are separate steps.\<close>

definition write_payload :: "nat \<Rightarrow> bytes \<Rightarrow> 'r JoinBroadcastState \<Rightarrow> 'r JoinBroadcastState" where
  "write_payload address payload s = s\<lparr>jb_records := update_at address (\<lambda>record. record\<lparr>jr_payload := payload\<rparr>) (jb_records s)\<rparr>"

definition count_revision :: "nat \<Rightarrow> 'r JoinBroadcastState \<Rightarrow> 'r JoinBroadcastState" where
  "count_revision address s = s\<lparr>jb_records := update_at address (\<lambda>record. record\<lparr>jr_revision := jr_revision record + 1\<rparr>) (jb_records s)\<rparr>"

definition begin_update_ready ::
  "(u16 \<Rightarrow> 'r \<Rightarrow> bytes option) \<Rightarrow> u16 \<Rightarrow> 'r \<Rightarrow> 'r JoinBroadcastState \<Rightarrow> (bool \<times> nat option) \<times> 'r JoinBroadcastState" where
  "begin_update_ready serialize_server_ready peer_id ready s =
     (case serialize_server_ready peer_id ready of
        None \<Rightarrow> ((False, None), s)
      | Some payload \<Rightarrow>
          (case map_of (jb_peers s) peer_id of
             None \<Rightarrow> ((True, None), s)
           | Some peer \<Rightarrow>
               ((True, Some (jp_spawn_record peer)),
                write_payload (jp_spawn_record peer) payload
                  (s\<lparr>jb_peers := put_key peer_id (peer\<lparr>jp_peer := (jp_peer peer)\<lparr>cp_ready := ready\<rparr>\<rparr>) (jb_peers s)\<rparr>))))"

definition update_peer_ready ::
  "(u16 \<Rightarrow> 'r \<Rightarrow> bytes option) \<Rightarrow> u16 \<Rightarrow> 'r \<Rightarrow> 'r JoinBroadcastState \<Rightarrow> bool \<times> 'r JoinBroadcastState" where
  "update_peer_ready serialize_server_ready peer_id ready s =
     (case begin_update_ready serialize_server_ready peer_id ready s of
        ((ok, None), s) \<Rightarrow> (ok, s)
      | ((ok, Some address), s) \<Rightarrow> (ok, count_revision address s))"

definition join_remove_peer :: "u16 \<Rightarrow> 'r JoinBroadcastState \<Rightarrow> 'r JoinBroadcastState" where
  "join_remove_peer peer_id s =
     s\<lparr>jb_peers := map_values (\<lambda>peer. peer\<lparr>jp_pending :=
         filter (\<lambda>address. jr_peer_id (jb_records s ! address) \<noteq> peer_id) (jp_pending peer)\<rparr>) (remove_key peer_id (jb_peers s))\<rparr>"

text \<open>\<open>take_batches\<close>: the records a batch takes from the queue, then the split of the whole queue.\<close>

fun batch_take :: "(nat \<Rightarrow> nat) \<Rightarrow> nat list \<Rightarrow> nat \<Rightarrow> nat \<Rightarrow> nat" where
  "batch_take record_len [] payload_bytes taken = taken"
| "batch_take record_len (address # pending) payload_bytes taken =
     (if 0 < taken \<and> MAX_PAYLOAD_BYTES < payload_bytes + record_len address then taken
      else batch_take record_len pending (payload_bytes + record_len address) (Suc taken))"

lemma batch_take_ge: "taken \<le> batch_take record_len pending payload_bytes taken"
proof (induction pending arbitrary: payload_bytes taken)
  case (Cons address pending)
  then show ?case using Suc_leD by (auto intro: order.trans[OF le_SucI])
qed simp

lemma batch_take_pos: "pending \<noteq> [] \<Longrightarrow> 0 < batch_take record_len pending 0 0"
  by (cases pending) (auto intro: less_le_trans[OF _ batch_take_ge])

function drain_batches :: "(nat \<Rightarrow> nat) \<Rightarrow> nat list \<Rightarrow> nat list list" where
  "drain_batches record_len pending =
     (if pending = [] then []
      else let taken = batch_take record_len pending 0 0
           in take taken pending # drain_batches record_len (drop taken pending))"
  by pat_completeness auto
termination
  by (relation "measure (length \<circ> snd)") (auto simp: batch_take_pos intro: diff_less)

declare drain_batches.simps [simp del]

definition take_batches :: "u16 \<Rightarrow> 'r JoinBroadcastState \<Rightarrow> nat list list \<times> 'r JoinBroadcastState" where
  "take_batches peer_id s =
     (case map_of (jb_peers s) peer_id of
        None \<Rightarrow> ([], s)
      | Some peer \<Rightarrow>
          if \<not> jp_initial_history_queued peer then ([], s)
          else
            (drain_batches (\<lambda>address. length (jr_payload (jb_records s ! address)))
               (sort_key (\<lambda>address. jr_sequence (jb_records s ! address)) (jp_pending peer)),
             s\<lparr>jb_peers := put_key peer_id (peer\<lparr>jp_pending := []\<rparr>) (jb_peers s)\<rparr>))"

definition ready_targets :: "'r JoinBroadcastState \<Rightarrow> u16 list" where
  "ready_targets s = map fst (filter (\<lambda>(_, peer). jp_initial_history_queued peer) (jb_peers s))"

section \<open>Other tasks\<close>

text \<open>
  A flush does not hold the lock of the state while it frames and sends, so other tasks run between any two of its reads; what they may do is a list of
  events. An update of a READY message takes two events, the write of the payload and the count of the revision; between them its task
  holds the lock, and the events of the other tasks, which need it, do nothing.

  \<open>jt_updating\<close> is the record whose update is half done, with the payload that the update replaced; \<open>jt_turns\<close> holds what the other tasks do at each of the coming points
  of the flush, \<open>jt_sends\<close> what the transport answers; \<open>jt_seen\<close> collects, for the statement of properties, the records after each event.
\<close>

datatype 'r join_event =
    Join "'r ConnectedPeer" bytes
  | ReadyWritten u16 'r
  | ReadyCounted
  | Leave u16
  | HistoryQueued u16

record 'r join_tasks =
  jt_state :: "'r JoinBroadcastState"
  jt_updating :: "(nat \<times> bytes) option"
  jt_turns :: "'r join_event list list"
  jt_sends :: "bool list"
  jt_seen :: "JoinBroadcastRecord list list"

definition observe :: "'r join_tasks \<Rightarrow> 'r join_tasks" where
  "observe t = t\<lparr>jt_seen := jt_seen t @ [jb_records (jt_state t)]\<rparr>"

definition finish_update :: "'r join_tasks \<Rightarrow> 'r join_tasks" where
  "finish_update t =
     (case jt_updating t of
        None \<Rightarrow> t
      | Some (address, _) \<Rightarrow> observe (t\<lparr>jt_state := count_revision address (jt_state t), jt_updating := None\<rparr>))"

definition begin_update :: "(u16 \<Rightarrow> 'r \<Rightarrow> bytes option) \<Rightarrow> u16 \<Rightarrow> 'r \<Rightarrow> 'r join_tasks \<Rightarrow> 'r join_tasks" where
  "begin_update serialize_server_ready peer_id ready t =
     (case begin_update_ready serialize_server_ready peer_id ready (jt_state t) of
        ((_, None), s) \<Rightarrow> t\<lparr>jt_state := s\<rparr>
      | ((_, Some address), s) \<Rightarrow>
          observe (t\<lparr>jt_state := s, jt_updating := Some (address, jr_payload (jb_records (jt_state t) ! address))\<rparr>))"

primrec locked_event :: "(u16 \<Rightarrow> 'r \<Rightarrow> bytes option) \<Rightarrow> 'r join_event \<Rightarrow> 'r join_tasks \<Rightarrow> 'r join_tasks" where
  "locked_event serialize_server_ready (Join peer payload) t = observe (t\<lparr>jt_state := snd (register_peer peer payload (jt_state t))\<rparr>)"
| "locked_event serialize_server_ready (ReadyWritten peer_id ready) t = begin_update serialize_server_ready peer_id ready t"
| "locked_event serialize_server_ready ReadyCounted t = t"
| "locked_event serialize_server_ready (Leave peer_id) t = observe (t\<lparr>jt_state := join_remove_peer peer_id (jt_state t)\<rparr>)"
| "locked_event serialize_server_ready (HistoryQueued peer_id) t = observe (t\<lparr>jt_state := mark_initial_history_queued peer_id (jt_state t)\<rparr>)"

definition join_apply :: "(u16 \<Rightarrow> 'r \<Rightarrow> bytes option) \<Rightarrow> 'r join_event \<Rightarrow> 'r join_tasks \<Rightarrow> 'r join_tasks" where
  "join_apply serialize_server_ready event t =
     (if jt_updating t \<noteq> None then (case event of ReadyCounted \<Rightarrow> finish_update t | _ \<Rightarrow> t)
      else locked_event serialize_server_ready event t)"

text \<open>The other tasks have their turn.\<close>

definition others_run :: "(u16 \<Rightarrow> 'r \<Rightarrow> bytes option) \<Rightarrow> 'r join_tasks \<Rightarrow> 'r join_tasks" where
  "others_run serialize_server_ready t =
     (case jt_turns t of
        [] \<Rightarrow> t
      | turn # turns \<Rightarrow> fold (join_apply serialize_server_ready) turn (t\<lparr>jt_turns := turns\<rparr>))"

section \<open>Flushing\<close>

text \<open>Each read of a revision or of a payload is a step of its own.\<close>

type_synonym frame_cache = "((u64 \<times> u64) list \<times> bytes) list"

fun read_key :: "(u16 \<Rightarrow> 'r \<Rightarrow> bytes option) \<Rightarrow> nat list \<Rightarrow> 'r join_tasks \<Rightarrow> (u64 \<times> u64) list \<times> 'r join_tasks" where
  "read_key serialize_server_ready [] t = ([], t)"
| "read_key serialize_server_ready (address # addresses) t =
     (let t = others_run serialize_server_ready t;
          record = jb_records (jt_state t) ! address;
          (key, t) = read_key serialize_server_ready addresses t
      in ((jr_sequence record, jr_revision record) # key, t))"

fun join_payloads :: "(u16 \<Rightarrow> 'r \<Rightarrow> bytes option) \<Rightarrow> nat list \<Rightarrow> bytes \<Rightarrow> 'r join_tasks \<Rightarrow> bytes option \<times> 'r join_tasks" where
  "join_payloads serialize_server_ready [] payload t = (Some payload, t)"
| "join_payloads serialize_server_ready (address # addresses) payload t =
     (let t = others_run serialize_server_ready t;
          record = jr_payload (jb_records (jt_state t) ! address)
      in if length payload + length record \<le> MAX_DECODED_PAYLOAD_BYTES
         then join_payloads serialize_server_ready addresses (payload @ record) t
         else (None, t))"

definition frame_batch :: "(bytes \<Rightarrow> bytes option) \<Rightarrow> nat \<Rightarrow> bytes \<Rightarrow> bytes option" where
  "frame_batch deflate record_count payload =
     (case ServerReadyBatchMessage_serialize deflate \<lparr>srb_count = of_nat record_count, srb_payload = payload\<rparr> writer_new of
        (Inl _, _) \<Rightarrow> None
      | (Inr _, writer) \<Rightarrow> Some (wdata writer))"

definition frame_join_records ::
  "(bytes \<Rightarrow> bytes option) \<Rightarrow> (u16 \<Rightarrow> 'r \<Rightarrow> bytes option) \<Rightarrow> nat list \<Rightarrow> 'r join_tasks \<Rightarrow> bytes option \<times> 'r join_tasks" where
  "frame_join_records deflate serialize_server_ready addresses t =
     (if 65535 < length addresses then (None, t)
      else case join_payloads serialize_server_ready addresses [] t of
          (None, t) \<Rightarrow> (None, t)
        | (Some payload, t) \<Rightarrow> (frame_batch deflate (length addresses) payload, t))"

definition cached_frame ::
  "(bytes \<Rightarrow> bytes option) \<Rightarrow> (u16 \<Rightarrow> 'r \<Rightarrow> bytes option) \<Rightarrow> nat list \<Rightarrow> frame_cache \<Rightarrow> 'r join_tasks \<Rightarrow>
   bytes option \<times> frame_cache \<times> 'r join_tasks" where
  "cached_frame deflate serialize_server_ready addresses cache t =
     (let (key, t) = read_key serialize_server_ready addresses t
      in case map_of cache key of
           Some framed \<Rightarrow> (Some framed, cache, t)
         | None \<Rightarrow>
             (case frame_join_records deflate serialize_server_ready addresses t of
                (None, t) \<Rightarrow> (None, cache, t)
              | (Some framed, t) \<Rightarrow> (Some framed, (key, framed) # cache, t)))"

definition transport_send :: "'r join_tasks \<Rightarrow> bool \<times> 'r join_tasks" where
  "transport_send t = (case jt_sends t of [] \<Rightarrow> (False, t) | ok # sends \<Rightarrow> (ok, t\<lparr>jt_sends := sends\<rparr>))"

text \<open>A frame handed to the transport: its receiver, its records, the frame, and whether the transport took it; and, for the statement of its properties, the update
that was half done when the flush turned to the batch, and the records as they were at each moment from then until the frame was sent.\<close>

record sent_frame =
  sf_peer :: u16
  sf_addresses :: "nat list"
  sf_framed :: bytes
  sf_accepted :: bool
  sf_updating :: "(nat \<times> bytes) option"
  sf_seen :: "JoinBroadcastRecord list list"

definition turn_to_batch :: "'r join_tasks \<Rightarrow> 'r join_tasks" where
  "turn_to_batch t = t\<lparr>jt_seen := [jb_records (jt_state t)]\<rparr>"

fun flush_batches ::
  "(bytes \<Rightarrow> bytes option) \<Rightarrow> (u16 \<Rightarrow> 'r \<Rightarrow> bytes option) \<Rightarrow> u16 \<Rightarrow> nat list list \<Rightarrow> frame_cache \<Rightarrow> 'r join_tasks \<Rightarrow>
   bool \<times> sent_frame list \<times> frame_cache \<times> 'r join_tasks" where
  "flush_batches deflate serialize_server_ready peer_id [] cache t = (True, [], cache, t)"
| "flush_batches deflate serialize_server_ready peer_id (addresses # batches) cache t =
     (if addresses = [] then flush_batches deflate serialize_server_ready peer_id batches cache t
      else case cached_frame deflate serialize_server_ready addresses cache (turn_to_batch t) of
          (None, cache, t1) \<Rightarrow> (False, [], cache, t1)
        | (Some framed, cache, t1) \<Rightarrow>
            let (accepted, t2) = transport_send t1;
                sent = \<lparr>sf_peer = peer_id, sf_addresses = addresses, sf_framed = framed, sf_accepted = accepted,
                  sf_updating = jt_updating t, sf_seen = jt_seen t1\<rparr>;
                (ok, frames, cache, t3) = flush_batches deflate serialize_server_ready peer_id batches cache (others_run serialize_server_ready t2)
            in (ok, sent # frames, cache, t3))"

text \<open>Taking the queue of a peer needs the lock, so an update that is half done comes to its end first.\<close>

definition take_locked :: "u16 \<Rightarrow> 'r join_tasks \<Rightarrow> nat list list \<times> 'r join_tasks" where
  "take_locked peer_id t =
     (let t = finish_update t; (batches, s) = take_batches peer_id (jt_state t)
      in (batches, t\<lparr>jt_state := s\<rparr>))"

fun flush_targets ::
  "(bytes \<Rightarrow> bytes option) \<Rightarrow> (u16 \<Rightarrow> 'r \<Rightarrow> bytes option) \<Rightarrow> (u16 \<Rightarrow> bool) \<Rightarrow> u16 list \<Rightarrow> frame_cache \<Rightarrow> 'r join_tasks \<Rightarrow>
   bool \<times> sent_frame list \<times> frame_cache \<times> 'r join_tasks" where
  "flush_targets deflate serialize_server_ready authenticated [] cache t = (True, [], cache, t)"
| "flush_targets deflate serialize_server_ready authenticated (peer_id # targets) cache t =
     (if \<not> authenticated peer_id then flush_targets deflate serialize_server_ready authenticated targets cache t
      else
        let (batches, t1) = take_locked peer_id (others_run serialize_server_ready t);
            (ok, frames, cache1, t2) = flush_batches deflate serialize_server_ready peer_id batches cache t1
        in if \<not> ok then (False, frames, cache1, t2)
           else let (ok, more_frames, cache2, t3) = flush_targets deflate serialize_server_ready authenticated targets cache1 t2
                in (ok, frames @ more_frames, cache2, t3))"

text \<open>The lock of join delivery may be held by a task that announces departures; then nothing is done until the next tick. A flush that fails to frame a
batch ends there: the batches of that queue that were not sent are lost.\<close>

definition flush_join_batches ::
  "(bytes \<Rightarrow> bytes option) \<Rightarrow> (u16 \<Rightarrow> 'r \<Rightarrow> bytes option) \<Rightarrow> (u16 \<Rightarrow> bool) \<Rightarrow> bool \<Rightarrow> 'r join_tasks \<Rightarrow>
   bool \<times> sent_frame list \<times> 'r join_tasks" where
  "flush_join_batches deflate serialize_server_ready authenticated lock_free t =
     (if \<not> lock_free then (True, [], t)
      else
        let t = finish_update t
        in case flush_targets deflate serialize_server_ready authenticated (ready_targets (jt_state t)) [] t of
             (ok, frames, _, t) \<Rightarrow> (ok, frames, t))"

section \<open>The history a player gets on joining\<close>

text \<open>The loop of \<open>send_accept_fanout\<close>: packets so far, the records of the batch at hand, and its count; \<open>None\<close> is a bail out.
\<open>ready_of\<close> looks a player up among the authenticated peers.\<close>

fun fanout_loop ::
  "(bytes \<Rightarrow> bytes option) \<Rightarrow> (u16 \<Rightarrow> 'r \<Rightarrow> bytes option) \<Rightarrow> (u16 \<Rightarrow> bool) \<Rightarrow> (u16 \<Rightarrow> 'r option) \<Rightarrow> 'r ConnectedPeer list \<Rightarrow>
   bytes list \<Rightarrow> bytes \<Rightarrow> nat \<Rightarrow> (bytes list \<times> bytes \<times> nat) option" where
  "fanout_loop deflate serialize_server_ready present ready_of [] packets batch_payload batch_count = Some (packets, batch_payload, batch_count)"
| "fanout_loop deflate serialize_server_ready present ready_of (existing # rest) packets batch_payload batch_count =
     (if \<not> present (cp_id existing) then fanout_loop deflate serialize_server_ready present ready_of rest packets batch_payload batch_count
      else
        let ready = (case ready_of (cp_id existing) of Some ready \<Rightarrow> ready | None \<Rightarrow> cp_ready existing)
        in case serialize_server_ready (cp_id existing) ready of
             None \<Rightarrow> None
           | Some record \<Rightarrow>
               if MAX_DECODED_PAYLOAD_BYTES < length record then None
               else
                 let full = (0 < batch_count \<and> MAX_PAYLOAD_BYTES < length batch_payload + length record);
                     closed = (if full then
                         (case ServerReadyBatchMessage_serialize deflate \<lparr>srb_count = of_nat batch_count, srb_payload = batch_payload\<rparr> writer_new of
                            (Inl _, _) \<Rightarrow> None
                          | (Inr _, writer) \<Rightarrow> Some (packets @ [wdata writer], [], 0))
                       else Some (packets, batch_payload, batch_count))
                 in case closed of
                      None \<Rightarrow> None
                    | Some (packets, batch_payload, batch_count) \<Rightarrow>
                        if batch_count = 65535 \<or> MAX_DECODED_PAYLOAD_BYTES < length batch_payload + length record then None
                        else fanout_loop deflate serialize_server_ready present ready_of rest packets (batch_payload @ record) (batch_count + 1))"

definition fanout_packets ::
  "(bytes \<Rightarrow> bytes option) \<Rightarrow> (u16 \<Rightarrow> 'r \<Rightarrow> bytes option) \<Rightarrow> (u16 \<Rightarrow> bool) \<Rightarrow> (u16 \<Rightarrow> 'r option) \<Rightarrow> 'r ConnectedPeer list \<Rightarrow>
   bytes list option" where
  "fanout_packets deflate serialize_server_ready present ready_of existing_players =
     (case fanout_loop deflate serialize_server_ready present ready_of existing_players [] [] 0 of
        None \<Rightarrow> None
      | Some (packets, batch_payload, batch_count) \<Rightarrow>
          if batch_count = 0 then Some packets
          else (case ServerReadyBatchMessage_serialize deflate \<lparr>srb_count = of_nat batch_count, srb_payload = batch_payload\<rparr> writer_new of
                  (Inl _, _) \<Rightarrow> None
                | (Inr _, writer) \<Rightarrow> Some (packets @ [wdata writer])))"

text \<open>The replay of resources and other late-join state that follows concerns other components.\<close>

definition send_accept_fanout ::
  "(bytes \<Rightarrow> bytes option) \<Rightarrow> (u16 \<Rightarrow> 'r \<Rightarrow> bytes option) \<Rightarrow> (u16 \<Rightarrow> 'r option) \<Rightarrow> (bytes list \<Rightarrow> bool) \<Rightarrow> u16 \<Rightarrow> 'r ConnectedPeer list \<Rightarrow>
   'r JoinBroadcastState \<Rightarrow> bytes list option \<times> 'r JoinBroadcastState" where
  "send_accept_fanout deflate serialize_server_ready ready_of send_many peer_id existing_players s =
     (case fanout_packets deflate serialize_server_ready (\<lambda>id. map_of (jb_peers s) id \<noteq> None) ready_of existing_players of
        None \<Rightarrow> (None, s)
      | Some packets \<Rightarrow>
          if send_many packets then (Some packets, mark_initial_history_queued peer_id s) else (None, s))"

end
