(* ===== verification/JoinProofs.thy ===== *)
theory JoinProofs
  imports JoinBroadcast
begin

text \<open>
  Batches and frames of a flush, and the invariant of the join state with its preservation by
  every operation.
\<close>

section \<open>Batches\<close>

lemma batch_take_full:
  "0 < taken \<Longrightarrow> MAX_PAYLOAD_BYTES < payload_bytes \<Longrightarrow> batch_take record_len pending payload_bytes taken = taken"
  by (cases pending) auto

lemma batch_take_bytes:
  "0 < taken \<Longrightarrow> payload_bytes \<le> MAX_PAYLOAD_BYTES \<Longrightarrow>
   payload_bytes + sum_list (map record_len (take (batch_take record_len pending payload_bytes taken - taken) pending)) \<le> MAX_PAYLOAD_BYTES"
proof (induction pending arbitrary: payload_bytes taken)
  case (Cons address pending)
  show ?case
  proof (cases "MAX_PAYLOAD_BYTES < payload_bytes + record_len address")
    case False
    let ?t = "batch_take record_len pending (payload_bytes + record_len address) (Suc taken)"
    have "?t - taken = Suc (?t - Suc taken)" using batch_take_ge[of "Suc taken" record_len pending "payload_bytes + record_len address"] by linarith
    with Cons.IH[of "Suc taken" "payload_bytes + record_len address"] False show ?thesis by (simp add: add.assoc)
  qed (use Cons.prems in simp)
qed simp

text \<open>What one batch takes of a queue: at least one record, and no more than the target unless it is a single record.\<close>

lemma batch_take_head:
  fixes record_len :: "nat \<Rightarrow> nat"
  assumes "pending \<noteq> []"
  defines "batch \<equiv> take (batch_take record_len pending 0 0) pending"
  shows "batch \<noteq> []" "length batch = 1 \<or> sum_list (map record_len batch) \<le> MAX_PAYLOAD_BYTES"
proof -
  obtain address rest where pending: "pending = address # rest" using assms(1) by (cases pending) auto
  show "batch \<noteq> []" using batch_take_pos[OF assms(1), of record_len] assms(1) by (simp add: batch_def)
  let ?t = "batch_take record_len rest (record_len address) 1"
  have t: "batch_take record_len pending 0 0 = ?t" by (simp add: pending)
  have "1 \<le> ?t" by (rule batch_take_ge)
  then have batch: "batch = address # take (?t - 1) rest" unfolding batch_def t pending by (cases ?t) auto
  show "length batch = 1 \<or> sum_list (map record_len batch) \<le> MAX_PAYLOAD_BYTES"
  proof (cases "record_len address \<le> MAX_PAYLOAD_BYTES")
    case True
    then show ?thesis using batch_take_bytes[of 1 "record_len address" record_len rest] by (simp add: batch)
  next
    case False
    then show ?thesis using batch_take_full[of 1 "record_len address" record_len rest] by (simp add: batch)
  qed
qed

lemma drain_concat: "concat (drain_batches record_len pending) = pending"
  by (induction record_len pending rule: drain_batches.induct) (subst drain_batches.simps, simp add: Let_def)

lemma drain_bounds:
  "batch \<in> set (drain_batches record_len pending) \<Longrightarrow>
   batch \<noteq> [] \<and> (length batch = 1 \<or> sum_list (map record_len batch) \<le> MAX_PAYLOAD_BYTES)"
proof (induction record_len pending rule: drain_batches.induct)
  case (1 record_len pending)
  show ?case
  proof (cases "pending = []")
    case False
    then show ?thesis using 1 batch_take_head[OF False, of record_len]
      by (subst (asm) (2) drain_batches.simps) (auto simp: Let_def)
  qed (use 1 in \<open>simp add: drain_batches.simps\<close>)
qed

section \<open>Frames\<close>

lemma frame_batch_decodes:
  assumes "deflate_ok deflate decompress new" "frame_batch deflate (length payloads) (concat payloads) = Some framed"
    and "length (concat payloads) \<le> MAX_DECODED_PAYLOAD_BYTES"
  shows "fst (ServerReadyBatchMessage_deserialize decompress new (reader_new framed)) =
    Inr \<lparr>srb_count = of_nat (length payloads), srb_payload = concat payloads\<rparr>"
proof -
  let ?m = "\<lparr>srb_count = of_nat (length payloads) :: u16, srb_payload = concat payloads\<rparr>"
  obtain wire where wire: "writes (ServerReadyBatchMessage_serialize deflate ?m) wire"
    "reads (ServerReadyBatchMessage_deserialize decompress new) wire ?m"
    using ServerReadyBatchMessage_codes[OF assms(1), of ?m] assms(3) by (auto elim: codesE)
  have "framed = wire" using assms(2) writes_new[OF wire(1)] by (auto simp: frame_batch_def)
  then show ?thesis using reads_new[OF wire(2), of "[]"] by simp
qed

lemma frame_batch_succeeds:
  assumes "length payload \<le> MAX_DECODED_PAYLOAD_BYTES"
  shows "\<exists>framed. frame_batch deflate n payload = Some framed"
proof -
  let ?m = "\<lparr>srb_count = of_nat n :: u16, srb_payload = payload\<rparr>"
  have "ServerReadyBatchMessage_serialize deflate ?m writer_new \<in> range (\<lambda>w. (Inr (), w))"
    using assms by (auto simp: ServerReadyBatchMessage_serialize_def Let_def runW.simps okW_def)
  then show ?thesis by (auto simp: frame_batch_def)
qed

section \<open>The invariant\<close>

text \<open>Records are numbered in the order they were made; the record of a live peer carries its identifier, and a queue
holds, once each and in order, records of peers that joined later.\<close>

definition records_ok :: "'r JoinBroadcastState \<Rightarrow> bool" where
  "records_ok s \<longleftrightarrow> length (jb_records s) < 2 ^ 64 \<and> jb_next_sequence s = of_nat (length (jb_records s)) \<and>
     map jr_sequence (jb_records s) = map of_nat [0..<length (jb_records s)]"

definition peer_ok :: "JoinBroadcastRecord list \<Rightarrow> u16 \<Rightarrow> 'r JoinPeerState \<Rightarrow> bool" where
  "peer_ok records pid peer \<longleftrightarrow> cp_id (jp_peer peer) = pid \<and> jp_sequence peer = of_nat (jp_spawn_record peer) \<and>
     jp_spawn_record peer < length records \<and> jr_peer_id (records ! jp_spawn_record peer) = pid \<and>
     sorted_wrt (<) (jp_pending peer) \<and> set (jp_pending peer) \<subseteq> {jp_spawn_record peer <..< length records}"

definition join_inv :: "'r JoinBroadcastState \<Rightarrow> bool" where
  "join_inv s \<longleftrightarrow> records_ok s \<and> distinct (map fst (jb_peers s)) \<and>
     (\<forall>pid peer. map_of (jb_peers s) pid = Some peer \<longrightarrow> peer_ok (jb_records s) pid peer)"

lemma map_of_map_values [simp]: "map_of (map_values f xs) k = map_option f (map_of xs k)"
  by (induction xs) (auto simp: map_values_def)

lemma fst_map_values [simp]: "map fst (map_values f xs) = map fst xs"
  by (simp add: map_values_def case_prod_beta' comp_def)

lemma records_ok_nth: "records_ok s \<Longrightarrow> a < length (jb_records s) \<Longrightarrow> jr_sequence (jb_records s ! a) = of_nat a"
  by (metis records_ok_def nth_map length_map nth_upt add_0 length_upt diff_zero)

lemma of_nat_less_u64: "a < 2 ^ 64 \<Longrightarrow> b < 2 ^ 64 \<Longrightarrow> (of_nat a :: u64) < of_nat b \<longleftrightarrow> a < b"
  by (simp add: word_less_nat_alt unat_of_nat)

lemma of_nat_eq_u64: "a < 2 ^ 64 \<Longrightarrow> b < 2 ^ 64 \<Longrightarrow> (of_nat a :: u64) = of_nat b \<longleftrightarrow> a = b"
  by (metis of_nat_less_u64 nat_neq_iff order.irrefl)

lemma live_peers_distinct:
  "join_inv s \<Longrightarrow> map_of (jb_peers s) pid = Some p \<Longrightarrow> map_of (jb_peers s) qid = Some q \<Longrightarrow>
   jp_spawn_record p = jp_spawn_record q \<Longrightarrow> pid = qid"
  by (metis join_inv_def peer_ok_def)

lemma join_inv_peer:
  assumes "join_inv s" "map_of (jb_peers s) pid = Some peer"
  shows "peer_ok (jb_records s) pid peer"
  using assms by (auto simp: join_inv_def)

text \<open>Every live peer joined before the next one will.\<close>

lemma all_earlier:
  assumes "join_inv s" "map_of (jb_peers s) pid = Some peer"
  shows "jp_sequence peer < jb_next_sequence s"
proof -
  have "peer_ok (jb_records s) pid peer" "records_ok s" using assms by (auto simp: join_inv_def)
  then show ?thesis by (auto simp: peer_ok_def records_ok_def of_nat_less_u64)
qed

lemma register_state:
  assumes "join_inv s" "register_peer peer payload s = (existing, s')"
  shows "jb_next_sequence s' = jb_next_sequence s + 1"
    "jb_records s' = jb_records s @ [\<lparr>jr_sequence = jb_next_sequence s, jr_peer_id = cp_id peer, jr_revision = 0, jr_payload = payload\<rparr>]"
    "map_of (jb_peers s') pid = (if pid = cp_id peer
       then Some \<lparr>jp_sequence = jb_next_sequence s, jp_peer = peer, jp_spawn_record = length (jb_records s),
         jp_initial_history_queued = False, jp_pending = []\<rparr>
       else map_option (\<lambda>p. p\<lparr>jp_pending := jp_pending p @ [length (jb_records s)]\<rparr>) (map_of (jb_peers s) pid))"
    "mset (map cp_id existing) = mset (map fst (jb_peers s))" "distinct (map fst (jb_peers s'))"
proof -
  have live: "jp_sequence p < jb_next_sequence s" if "(i, p) \<in> set (jb_peers s)" for i p
    using that assms(1) all_earlier[OF assms(1)] by (metis join_inv_def map_of_eq_Some_iff)
  then have all: "filter (\<lambda>(_, state). jp_sequence state < jb_next_sequence s) (jb_peers s) = jb_peers s"
    by (auto simp: filter_id_conv)
  show "jb_next_sequence s' = jb_next_sequence s + 1"
    "jb_records s' = jb_records s @ [\<lparr>jr_sequence = jb_next_sequence s, jr_peer_id = cp_id peer, jr_revision = 0, jr_payload = payload\<rparr>]"
    using assms(2) by (auto simp: register_peer_def Let_def)
  show "distinct (map fst (jb_peers s'))"
    using assms by (auto simp: register_peer_def Let_def join_inv_def)
  have ids: "map (\<lambda>entry. cp_id (jp_peer (snd entry))) (jb_peers s) = map fst (jb_peers s)"
    using assms(1) by (auto simp: join_inv_def peer_ok_def)
  have "existing = map snd (sort_key fst (map (\<lambda>(_, state). (jp_sequence state, jp_peer state)) (jb_peers s)))"
    using assms(2) unfolding register_peer_def Let_def all by simp
  then show "mset (map cp_id existing) = mset (map fst (jb_peers s))"
    by (simp add: multiset.map_comp comp_def case_prod_beta' flip: ids)
  show "map_of (jb_peers s') pid = (if pid = cp_id peer
       then Some \<lparr>jp_sequence = jb_next_sequence s, jp_peer = peer, jp_spawn_record = length (jb_records s),
         jp_initial_history_queued = False, jp_pending = []\<rparr>
       else map_option (\<lambda>p. p\<lparr>jp_pending := jp_pending p @ [length (jb_records s)]\<rparr>) (map_of (jb_peers s) pid))"
    using assms(2) all_earlier[OF assms(1), of pid] by (auto simp: register_peer_def Let_def option.map_comp intro!: option.map_cong0
      cong: option.map_cong simp del: map_of_eq_Some_iff)
qed

lemma register_inv:
  assumes inv: "join_inv s" and room: "length (jb_records s) + 1 < 2 ^ 64" and reg: "register_peer peer payload s = (existing, s')"
  shows "join_inv s'"
proof -
  note st = register_state[OF inv reg]
  have ok: "records_ok s" using inv by (simp add: join_inv_def)
  have "records_ok s'" using ok room by (simp add: records_ok_def st(1,2))
  moreover have "peer_ok (jb_records s') pid p" if p: "map_of (jb_peers s') pid = Some p" for pid p
  proof (cases "pid = cp_id peer")
    case True
    then show ?thesis using p ok by (auto simp: st(2,3) peer_ok_def records_ok_def)
  next
    case False
    then obtain q where q: "map_of (jb_peers s) pid = Some q" "p = q\<lparr>jp_pending := jp_pending q @ [length (jb_records s)]\<rparr>"
      using p by (auto simp: st(3) simp del: map_of_eq_Some_iff)
    show ?thesis using join_inv_peer[OF inv q(1)] by (auto simp: peer_ok_def q(2) st(2) nth_append sorted_wrt_append)
  qed
  ultimately show ?thesis using st(5) by (simp add: join_inv_def)
qed

text \<open>Updates of a peer that keep its place: its identifier, its number, its record and a suborder of its queue.\<close>

lemma put_peer_inv:
  assumes "join_inv s" "peer_ok (jb_records s) pid peer'"
  shows "join_inv (s\<lparr>jb_peers := put_key pid peer' (jb_peers s)\<rparr>)"
  using assms by (auto simp: join_inv_def records_ok_def simp del: map_of_eq_Some_iff)

lemma mark_inv: "join_inv s \<Longrightarrow> join_inv (mark_initial_history_queued pid s)"
proof (cases "map_of (jb_peers s) pid")
  case (Some peer)
  assume inv: "join_inv s"
  then show ?thesis using put_peer_inv[OF inv, of pid "peer\<lparr>jp_initial_history_queued := True\<rparr>"] join_inv_peer[OF inv Some] Some
    by (simp add: mark_initial_history_queued_def peer_ok_def del: map_of_eq_Some_iff)
qed (simp add: mark_initial_history_queued_def)

lemma update_at_fields:
  assumes "\<And>r. f (g r) = f r"
  shows "map f (update_at a g xs) = map f xs"
  by (simp add: update_at_def map_update assms list_update_same_conv)

lemma revise_records_inv:
  assumes "join_inv s" "\<And>r. jr_sequence (g r) = jr_sequence r" "\<And>r. jr_peer_id (g r) = jr_peer_id r"
  shows "join_inv (s\<lparr>jb_records := update_at a g (jb_records s)\<rparr>)"
proof -
  have ids: "jr_peer_id (update_at a g (jb_records s) ! b) = jr_peer_id (jb_records s ! b)" for b
    using update_at_fields[of jr_peer_id g a "jb_records s"] assms(3) by (auto simp: update_at_def nth_list_update)
  show ?thesis using assms(1) update_at_fields[of jr_sequence g a "jb_records s", OF assms(2)]
    by (auto simp: join_inv_def records_ok_def peer_ok_def ids simp del: map_of_eq_Some_iff)
qed

lemma write_payload_inv: "join_inv s \<Longrightarrow> join_inv (write_payload a payload s)"
  unfolding write_payload_def by (rule revise_records_inv) simp_all

lemma count_revision_inv: "join_inv s \<Longrightarrow> join_inv (count_revision a s)"
  unfolding count_revision_def by (rule revise_records_inv) simp_all

lemma begin_update_inv: "join_inv s \<Longrightarrow> join_inv (snd (begin_update_ready serialize pid ready s))"
proof (cases "serialize pid ready"; cases "map_of (jb_peers s) pid")
  fix payload peer
  assume inv: "join_inv s" and wire: "serialize pid ready = Some payload" and peer: "map_of (jb_peers s) pid = Some peer"
  have "join_inv (s\<lparr>jb_peers := put_key pid (peer\<lparr>jp_peer := (jp_peer peer)\<lparr>cp_ready := ready\<rparr>\<rparr>) (jb_peers s)\<rparr>)"
    by (rule put_peer_inv[OF inv]) (use join_inv_peer[OF inv peer] in \<open>simp add: peer_ok_def\<close>)
  then show ?thesis using wire peer by (simp add: begin_update_ready_def write_payload_inv del: map_of_eq_Some_iff)
qed (simp_all add: begin_update_ready_def)

lemma pending_sorted:
  assumes "join_inv s" "map_of (jb_peers s) pid = Some peer"
  shows "sort_key (\<lambda>address. jr_sequence (jb_records s ! address)) (jp_pending peer) = jp_pending peer"
proof (rule sort_key_id_if_sorted)
  have ok: "records_ok s" "peer_ok (jb_records s) pid peer" using assms by (auto simp: join_inv_def)
  have "sorted_wrt (\<lambda>a b. jr_sequence (jb_records s ! a) \<le> jr_sequence (jb_records s ! b)) (jp_pending peer)"
  proof (rule sorted_wrt_mono_rel[of _ "(<)"])
    fix a b assume "a \<in> set (jp_pending peer)" "b \<in> set (jp_pending peer)" "a < b"
    then show "jr_sequence (jb_records s ! a) \<le> jr_sequence (jb_records s ! b)"
      using ok records_ok_nth[OF ok(1)] by (auto simp: peer_ok_def records_ok_def of_nat_less_u64 intro!: less_imp_le)
  qed (use ok in \<open>simp add: peer_ok_def\<close>)
  then show "sorted (map (\<lambda>address. jr_sequence (jb_records s ! address)) (jp_pending peer))"
    by (simp add: sorted_wrt_map)
qed

text \<open>What a peer takes of its queue: all of it, in order, once its history is queued.\<close>

lemma take_step:
  assumes inv: "join_inv s" and take: "take_batches pid s = (batches, s')"
  shows "join_inv s'" "jb_records s' = jb_records s"
    and "map_of (jb_peers s) pid = None \<Longrightarrow> batches = [] \<and> s' = s"
    and "map_of (jb_peers s) pid = Some peer \<Longrightarrow>
      concat batches = (if jp_initial_history_queued peer then jp_pending peer else []) \<and>
      map_of (jb_peers s') = (map_of (jb_peers s))(pid \<mapsto> if jp_initial_history_queued peer then peer\<lparr>jp_pending := []\<rparr> else peer)"
    and "map_of (jb_peers s) pid = Some peer \<Longrightarrow> batch \<in> set batches \<Longrightarrow>
      batch \<noteq> [] \<and> (length batch = 1 \<or> sum_list (map (\<lambda>a. length (jr_payload (jb_records s ! a))) batch) \<le> MAX_PAYLOAD_BYTES)"
proof -
  have "join_inv s' \<and> jb_records s' = jb_records s"
  proof (cases "map_of (jb_peers s) pid")
    case None
    then show ?thesis using take inv by (auto simp: take_batches_def)
  next
    case (Some peer)
    have "join_inv (s\<lparr>jb_peers := put_key pid (peer\<lparr>jp_pending := []\<rparr>) (jb_peers s)\<rparr>)"
      by (rule put_peer_inv[OF inv]) (use join_inv_peer[OF inv Some] in \<open>simp add: peer_ok_def\<close>)
    then show ?thesis using take inv Some by (auto simp: take_batches_def split: if_splits)
  qed
  then show "join_inv s'" "jb_records s' = jb_records s" by simp_all
  show "map_of (jb_peers s) pid = None \<Longrightarrow> batches = [] \<and> s' = s" using take by (auto simp: take_batches_def)
  assume peer: "map_of (jb_peers s) pid = Some peer"
  show "concat batches = (if jp_initial_history_queued peer then jp_pending peer else []) \<and>
      map_of (jb_peers s') = (map_of (jb_peers s))(pid \<mapsto> if jp_initial_history_queued peer then peer\<lparr>jp_pending := []\<rparr> else peer)"
    using take peer pending_sorted[OF inv peer] by (auto simp: take_batches_def drain_concat fun_eq_iff split: if_splits)
  assume "batch \<in> set batches"
  then show "batch \<noteq> [] \<and> (length batch = 1 \<or> sum_list (map (\<lambda>a. length (jr_payload (jb_records s ! a))) batch) \<le> MAX_PAYLOAD_BYTES)"
    using take peer drain_bounds by (auto simp: take_batches_def split: if_splits)
qed

lemma remove_state:
  "map_of (jb_peers (join_remove_peer pid s)) qid = (if qid = pid then None
     else map_option (\<lambda>peer. peer\<lparr>jp_pending := filter (\<lambda>a. jr_peer_id (jb_records s ! a) \<noteq> pid) (jp_pending peer)\<rparr>) (map_of (jb_peers s) qid))"
  "jb_records (join_remove_peer pid s) = jb_records s" "jb_next_sequence (join_remove_peer pid s) = jb_next_sequence s"
  by (simp_all add: join_remove_peer_def)

lemma remove_inv:
  assumes inv: "join_inv s"
  shows "join_inv (join_remove_peer pid s)"
proof -
  let ?s = "join_remove_peer pid s"
  have "peer_ok (jb_records ?s) i p" if p: "map_of (jb_peers ?s) i = Some p" for i p
  proof -
    from p obtain q where q: "map_of (jb_peers s) i = Some q"
      "p = q\<lparr>jp_pending := filter (\<lambda>a. jr_peer_id (jb_records s ! a) \<noteq> pid) (jp_pending q)\<rparr>"
      by (auto simp: remove_state split: if_splits simp del: map_of_eq_Some_iff)
    then show ?thesis using join_inv_peer[OF inv q(1)] by (auto simp: peer_ok_def q(2) remove_state sorted_wrt_filter)
  qed
  moreover have "records_ok ?s" "distinct (map fst (jb_peers ?s))"
    using inv by (simp_all add: join_inv_def records_ok_def join_remove_peer_def)
  ultimately show ?thesis by (simp add: join_inv_def)
qed

end
