(* ===== verification/JoinProperties.thy ===== *)
theory JoinProperties
  imports JoinProofs
begin

text \<open>
  What the join broadcast promises: frames that are shared between receivers carry no outdated payload, batches are complete and bounded,
  and a player who joins is announced to every earlier player at most once.
\<close>

section \<open>What other tasks may do during a flush\<close>

text \<open>Fewer than \<open>2 ^ 64\<close> records exist and no revision wraps, also after \<open>n\<close> more events.\<close>

definition room :: "nat \<Rightarrow> 'r JoinBroadcastState \<Rightarrow> bool" where
  "room n s \<longleftrightarrow> length (jb_records s) + n < 2 ^ 64 \<and> list_all (\<lambda>record. unat (jr_revision record) + n < 2 ^ 64) (jb_records s)"

definition queues_ok :: "'r JoinBroadcastState \<Rightarrow> bool" where
  "queues_ok s \<longleftrightarrow> list_all (\<lambda>(_, peer). list_all (\<lambda>address. address < length (jb_records s)) (jp_pending peer)) (jb_peers s)"

definition flush_ok :: "nat \<Rightarrow> 'r JoinBroadcastState \<Rightarrow> bool" where
  "flush_ok n s \<longleftrightarrow> records_ok s \<and> room n s \<and> queues_ok s"

lemma flush_okD: "flush_ok n s \<Longrightarrow> entry \<in> set (jb_peers s) \<Longrightarrow> a \<in> set (jp_pending (snd entry)) \<Longrightarrow> a < length (jb_records s)"
  by (cases entry) (auto simp: flush_ok_def queues_ok_def list_all_iff)

lemma flush_ok_less: "flush_ok (Suc n) s \<Longrightarrow> flush_ok n s"
  by (auto simp: flush_ok_def room_def list_all_iff)

lemma flush_ok_same_records:
  assumes "flush_ok n s" "jb_records s' = jb_records s" "jb_next_sequence s' = jb_next_sequence s"
    and "\<And>entry a. entry \<in> set (jb_peers s') \<Longrightarrow> a \<in> set (jp_pending (snd entry)) \<Longrightarrow> a < length (jb_records s)"
  shows "flush_ok n s'"
  using assms by (auto simp: flush_ok_def records_ok_def room_def queues_ok_def list_all_iff)

lemma put_peer_flush_ok:
  assumes "flush_ok n s" "map_of (jb_peers s) pid = Some peer" "set (jp_pending peer') \<subseteq> set (jp_pending peer)"
  shows "flush_ok n (s\<lparr>jb_peers := put_key pid peer' (jb_peers s)\<rparr>)"
proof -
  have "a < length (jb_records s)" if "entry \<in> set (put_key pid peer' (jb_peers s))" "a \<in> set (jp_pending (snd entry))" for entry a
    using that assms(3) flush_okD[OF assms(1), of entry a] flush_okD[OF assms(1) map_of_SomeD[OF assms(2)], of a]
    by (auto simp: put_key_def)
  then show ?thesis using flush_ok_same_records[OF assms(1), of "s\<lparr>jb_peers := put_key pid peer' (jb_peers s)\<rparr>"] by simp
qed

lemma register_flush_ok:
  assumes "flush_ok (Suc n) s"
  shows "flush_ok n (snd (register_peer peer payload s))"
    "jb_records (snd (register_peer peer payload s)) = jb_records s @
      [\<lparr>jr_sequence = jb_next_sequence s, jr_peer_id = cp_id peer, jr_revision = 0, jr_payload = payload\<rparr>]"
proof -
  let ?s = "snd (register_peer peer payload s)"
  show rec: "jb_records ?s = jb_records s @ [\<lparr>jr_sequence = jb_next_sequence s, jr_peer_id = cp_id peer, jr_revision = 0, jr_payload = payload\<rparr>]"
    by (simp add: register_peer_def Let_def)
  have nxt: "jb_next_sequence ?s = jb_next_sequence s + 1"
    by (simp add: register_peer_def Let_def)
  have "records_ok ?s" "room n ?s"
    using assms by (auto simp: flush_ok_def records_ok_def room_def rec nxt list_all_iff)
  moreover have "queues_ok ?s"
    using assms unfolding flush_ok_def queues_ok_def
    by (fastforce simp: list_all_iff rec register_peer_def Let_def put_key_def map_values_def less_SucI split: if_splits)
  ultimately show "flush_ok n ?s" by (simp add: flush_ok_def)
qed

lemma count_flush_ok:
  assumes "flush_ok (Suc n) s"
  shows "flush_ok n (count_revision a s)"
    "a < length (jb_records s) \<Longrightarrow> unat (jr_revision (jb_records s ! a) + 1) = Suc (unat (jr_revision (jb_records s ! a)))"
proof -
  have room: "unat (jr_revision (jb_records s ! b)) + Suc n < 2 ^ 64" if "b < length (jb_records s)" for b
    using assms that by (auto simp: flush_ok_def room_def list_all_length)
  then show step: "a < length (jb_records s) \<Longrightarrow> unat (jr_revision (jb_records s ! a) + 1) = Suc (unat (jr_revision (jb_records s ! a)))"
    by (fastforce simp: unat_word_ariths)
  have "unat (jr_revision (jb_records (count_revision a s) ! b)) + n < 2 ^ 64" if "b < length (jb_records s)" for b
    using that room[OF that] step by (auto simp: count_revision_def update_at_def nth_list_update)
  then have "room n (count_revision a s)" using assms by (auto simp: flush_ok_def room_def count_revision_def list_all_length)
  then show "flush_ok n (count_revision a s)" using assms
    by (simp add: flush_ok_def records_ok_def queues_ok_def count_revision_def update_at_fields)
qed

lemma write_flush_ok:
  assumes "flush_ok n s"
  shows "flush_ok n (write_payload a payload s)"
proof -
  let ?rs = "update_at a (\<lambda>r. r\<lparr>jr_payload := payload\<rparr>) (jb_records s)"
  have "map jr_revision ?rs = map jr_revision (jb_records s)" by (rule update_at_fields) simp
  then have "list_all (\<lambda>r. unat (jr_revision r) + n < 2 ^ 64) ?rs = list_all (\<lambda>r. unat (jr_revision r) + n < 2 ^ 64) (jb_records s)"
    using list.pred_map[of "\<lambda>v. unat v + n < 2 ^ 64" jr_revision] by (metis (no_types, lifting) comp_apply list.pred_cong)
  then show ?thesis using assms by (simp add: flush_ok_def records_ok_def room_def queues_ok_def write_payload_def update_at_fields)
qed

section \<open>Frames shared between receivers\<close>

text \<open>
  What is known of a payload \<open>p\<close> that was read of a record when its revision was \<open>r\<close>, or later: as long as the revision is \<open>r\<close>, it is the payload of the
  record, or the one that an update replaced whose revision is not counted yet.
\<close>

definition entry_ok :: "'r join_tasks \<Rightarrow> u64 \<times> u64 \<Rightarrow> bytes \<Rightarrow> bool" where
  "entry_ok t = (\<lambda>(sequence, revision) p. unat sequence < length (jb_records (jt_state t)) \<and>
     revision \<le> jr_revision (jb_records (jt_state t) ! unat sequence) \<and>
     (revision = jr_revision (jb_records (jt_state t) ! unat sequence) \<longrightarrow>
        p = jr_payload (jb_records (jt_state t) ! unat sequence) \<or> jt_updating t = Some (unat sequence, p)))"

text \<open>The payload of a record at a moment that was seen, or the one that the update \<open>updating\<close> replaced.\<close>

definition shown_ok :: "(nat \<times> bytes) option \<Rightarrow> JoinBroadcastRecord list list \<Rightarrow> nat \<Rightarrow> bytes \<Rightarrow> bool" where
  "shown_ok updating seen_records a p \<longleftrightarrow> updating = Some (a, p) \<or> (\<exists>records \<in> set seen_records. p = jr_payload (records ! a))"

definition watched :: "(nat \<times> bytes) option \<Rightarrow> 'r join_tasks \<Rightarrow> bool" where
  "watched updating t \<longleftrightarrow> jb_records (jt_state t) \<in> set (jt_seen t) \<and>
     (\<forall>a p. jt_updating t = Some (a, p) \<longrightarrow> shown_ok updating (jt_seen t) a p)"

definition evolves :: "'r join_tasks \<Rightarrow> 'r join_tasks \<Rightarrow> bool" where
  "evolves t t' \<longleftrightarrow> (\<forall>k p. entry_ok t k p \<longrightarrow> entry_ok t' k p) \<and> (\<forall>updating. watched updating t \<longrightarrow> watched updating t') \<and>
     set (jt_seen t) \<subseteq> set (jt_seen t')"

lemma evolves_refl [simp]: "evolves t t"
  by (simp add: evolves_def)

lemma evolves_trans: "evolves t u \<Longrightarrow> evolves u v \<Longrightarrow> evolves t v"
  unfolding evolves_def by (meson subset_trans)

lemma evolvesD:
  assumes "evolves t t'"
  shows "entry_ok t k p \<Longrightarrow> entry_ok t' k p" "watched updating t \<Longrightarrow> watched updating t'"
    "shown_ok updating (jt_seen t) a p \<Longrightarrow> shown_ok updating (jt_seen t') a p"
  using assms unfolding evolves_def shown_ok_def by blast+

definition tasks_ok :: "nat \<Rightarrow> 'r join_tasks \<Rightarrow> bool" where
  "tasks_ok n t \<longleftrightarrow> flush_ok (n + (if jt_updating t = None then 0 else 1)) (jt_state t)"

lemma observe_simps [simp]:
  "jt_state (observe t) = jt_state t" "jt_updating (observe t) = jt_updating t" "jt_turns (observe t) = jt_turns t"
  "jt_seen (observe t) = jt_seen t @ [jb_records (jt_state t)]"
  by (simp_all add: observe_def)

text \<open>Events that leave the existing records alone.\<close>

lemma same_records_evolves:
  assumes "jt_updating t = None" "jb_records s' = jb_records (jt_state t) @ added"
  shows "evolves t (observe (t\<lparr>jt_state := s'\<rparr>))"
  using assms by (auto simp: evolves_def entry_ok_def watched_def shown_ok_def nth_append)

lemma finish_step:
  assumes "tasks_ok n t"
  shows "tasks_ok n (finish_update t) \<and> evolves t (finish_update t)"
proof (cases "jt_updating t")
  case None
  then show ?thesis using assms by (simp add: finish_update_def)
next
  case (Some update)
  obtain a old where upd: "jt_updating t = Some (a, old)" using Some by (cases update) auto
  have ok: "flush_ok (Suc n) (jt_state t)" using assms upd by (simp add: tasks_ok_def)
  let ?rs = "jb_records (jt_state t)"
  have rev: "jr_revision (jb_records (count_revision a (jt_state t)) ! b) = (if b = a then jr_revision (?rs ! b) + 1 else jr_revision (?rs ! b))"
    "jr_payload (jb_records (count_revision a (jt_state t)) ! b) = jr_payload (?rs ! b)" if "b < length ?rs" for b
    using that by (auto simp: count_revision_def update_at_def nth_list_update)
  have len: "length (jb_records (count_revision a (jt_state t))) = length ?rs" by (simp add: count_revision_def)
  have up: "jr_revision (?rs ! a) < jr_revision (?rs ! a) + 1" if "a < length ?rs"
    using count_flush_ok(2)[OF ok that] by (simp add: word_less_nat_alt)
  have "entry_ok (finish_update t) k p" if k: "entry_ok t k p" for k p
  proof -
    obtain q r where kqr: "k = (q, r)" by (cases k)
    have "r \<noteq> jr_revision (?rs ! a) + 1" "r \<le> jr_revision (?rs ! a) + 1" if "unat q = a"
      using k up that by (auto simp: kqr entry_ok_def)
    then show ?thesis using k rev upd by (auto simp: kqr entry_ok_def finish_update_def len)
  qed
  moreover have "watched updating (finish_update t)" for updating using upd by (simp add: watched_def finish_update_def)
  ultimately have "evolves t (finish_update t)" using upd by (auto simp: evolves_def finish_update_def)
  then show ?thesis using count_flush_ok(1)[OF ok, of a] upd by (simp add: tasks_ok_def finish_update_def)
qed

lemma begin_step:
  assumes "tasks_ok (Suc n) t" "jt_updating t = None"
  shows "tasks_ok n (begin_update serialize pid ready t) \<and> evolves t (begin_update serialize pid ready t)"
proof (cases "\<exists>payload peer. serialize pid ready = Some payload \<and> map_of (jb_peers (jt_state t)) pid = Some peer")
  case False
  then have "begin_update serialize pid ready t = t" by (auto simp: begin_update_def begin_update_ready_def split: option.splits)
  then show ?thesis using assms flush_ok_less by (auto simp: tasks_ok_def)
next
  case True
  then obtain payload peer where p: "serialize pid ready = Some payload" "map_of (jb_peers (jt_state t)) pid = Some peer" by blast
  let ?s = "jt_state t" and ?a = "jp_spawn_record peer"
  let ?s' = "write_payload ?a payload (?s\<lparr>jb_peers := put_key pid (peer\<lparr>jp_peer := (jp_peer peer)\<lparr>cp_ready := ready\<rparr>\<rparr>) (jb_peers ?s)\<rparr>)"
  have t': "begin_update serialize pid ready t = observe (t\<lparr>jt_state := ?s', jt_updating := Some (?a, jr_payload (jb_records ?s ! ?a))\<rparr>)"
    using p by (simp add: begin_update_def begin_update_ready_def del: map_of_eq_Some_iff)
  have "flush_ok (Suc n) ?s'" using assms p(2) by (intro write_flush_ok put_peer_flush_ok) (auto simp: tasks_ok_def)
  moreover have rec: "jr_revision (jb_records ?s' ! b) = jr_revision (jb_records ?s ! b)"
    "jr_payload (jb_records ?s' ! b) = (if b = ?a then payload else jr_payload (jb_records ?s ! b))"
    if "b < length (jb_records ?s)" for b
    using that by (auto simp: write_payload_def update_at_def nth_list_update)
  have len: "length (jb_records ?s') = length (jb_records ?s)" by (simp add: write_payload_def)
  have "entry_ok (begin_update serialize pid ready t) k p'" if "entry_ok t k p'" for k p'
    using that rec assms(2) by (auto simp: entry_ok_def t' len split: if_splits)
  moreover have "watched updating (begin_update serialize pid ready t)" if "watched updating t" for updating
    using that by (auto simp: watched_def shown_ok_def t')
  ultimately show ?thesis by (auto simp: tasks_ok_def evolves_def t')
qed

lemma event_step:
  assumes "tasks_ok (Suc n) t"
  shows "tasks_ok n (join_apply serialize event t) \<and> evolves t (join_apply serialize event t)"
proof (cases "jt_updating t = None")
  case False
  then show ?thesis using assms finish_step[of n t] flush_ok_less by (cases event) (auto simp: join_apply_def tasks_ok_def)
next
  case True
  have ok: "flush_ok (Suc n) (jt_state t)" using assms True by (simp add: tasks_ok_def)
  show ?thesis
  proof (cases event)
    case (Join peer payload)
    then show ?thesis using register_flush_ok[OF ok, of peer payload] same_records_evolves[OF True] True
      by (simp add: join_apply_def tasks_ok_def)
  next
    case (ReadyWritten pid ready)
    then show ?thesis using begin_step[OF assms True] True by (simp add: join_apply_def)
  next
    case ReadyCounted
    then show ?thesis using assms True flush_ok_less by (auto simp: join_apply_def tasks_ok_def)
  next
    case (Leave pid)
    have "flush_ok (Suc n) (join_remove_peer pid (jt_state t))"
      using flush_ok_same_records[OF ok, of "join_remove_peer pid (jt_state t)"] flush_okD[OF ok]
      by (fastforce simp: join_remove_peer_def map_values_def)
    then show ?thesis using Leave True flush_ok_less same_records_evolves[OF True, of "join_remove_peer pid (jt_state t)" "[]"]
      by (simp add: join_apply_def tasks_ok_def join_remove_peer_def)
  next
    case (HistoryQueued pid)
    have "flush_ok (Suc n) (mark_initial_history_queued pid (jt_state t))" "jb_records (mark_initial_history_queued pid (jt_state t)) = jb_records (jt_state t)"
      using put_peer_flush_ok[OF ok, of pid] ok
      by (simp_all add: mark_initial_history_queued_def split: option.splits del: map_of_eq_Some_iff)
    then show ?thesis using HistoryQueued True flush_ok_less same_records_evolves[OF True, of "mark_initial_history_queued pid (jt_state t)" "[]"]
      by (simp add: join_apply_def tasks_ok_def)
  qed
qed

lemma turn_step:
  assumes "tasks_ok (length turn + n) t"
  shows "tasks_ok n (fold (join_apply serialize) turn t) \<and> evolves t (fold (join_apply serialize) turn t)"
  using assms
proof (induction turn arbitrary: t)
  case (Cons event turn)
  then show ?case using event_step[of "length turn + n" t serialize event] by (auto intro: evolves_trans)
qed simp

lemma join_apply_turns [simp]: "jt_turns (join_apply serialize event t) = jt_turns t"
  by (cases event) (auto simp: join_apply_def finish_update_def begin_update_def split: option.splits prod.splits)

lemma fold_join_apply_turns [simp]: "jt_turns (fold (join_apply serialize) turn t) = jt_turns t"
  by (induction turn arbitrary: t) simp_all

definition turn_events :: "'r join_event list list \<Rightarrow> nat" where
  "turn_events turns = sum_list (map length turns)"

text \<open>The state of a flush: all that the other tasks are still going to do leaves room.\<close>

definition flush_tasks_ok :: "'r join_tasks \<Rightarrow> bool" where
  "flush_tasks_ok t \<longleftrightarrow> tasks_ok (turn_events (jt_turns t)) t"

lemma evolves_frame:
  "entry_ok (t\<lparr>jt_turns := turns\<rparr>) = entry_ok t" "watched updating (t\<lparr>jt_turns := turns\<rparr>) = watched updating t"
  "tasks_ok n (t\<lparr>jt_turns := turns\<rparr>) = tasks_ok n t"
  by (auto simp: entry_ok_def watched_def tasks_ok_def)

lemma others_step:
  assumes "flush_tasks_ok t"
  shows "flush_tasks_ok (others_run serialize t) \<and> evolves t (others_run serialize t)"
proof (cases "jt_turns t")
  case Nil
  then show ?thesis using assms by (simp add: others_run_def)
next
  case (Cons turn turns)
  let ?t = "t\<lparr>jt_turns := turns\<rparr>"
  have "tasks_ok (length turn + turn_events turns) ?t" using assms Cons by (simp add: flush_tasks_ok_def turn_events_def evolves_frame)
  from turn_step[OF this, of serialize] have "tasks_ok (turn_events turns) (others_run serialize t)" "evolves ?t (others_run serialize t)"
    using Cons by (simp_all add: others_run_def)
  then show ?thesis using Cons by (simp add: flush_tasks_ok_def others_run_def evolves_def evolves_frame)
qed

text \<open>Reading the key of a batch: whatever payloads go with that key in the cache were payloads of the records while the key was read.\<close>

lemma entry_ok_now:
  "unat sequence < length (jb_records (jt_state t)) \<Longrightarrow> revision \<le> jr_revision (jb_records (jt_state t) ! unat sequence) \<Longrightarrow>
   entry_ok t (sequence, revision) (jr_payload (jb_records (jt_state t) ! unat sequence))"
  by (simp add: entry_ok_def)

definition key_ok :: "'r join_tasks \<Rightarrow> nat \<Rightarrow> u64 \<times> u64 \<Rightarrow> bool" where
  "key_ok t a k \<longleftrightarrow> unat (fst k) = a \<and> (\<exists>p. entry_ok t k p)"

lemma key_ok_evolves: "evolves t t' \<Longrightarrow> key_ok t a k \<Longrightarrow> key_ok t' a k"
  using evolvesD(1) by (fastforce simp: key_ok_def)

lemma flush_tasks_records: "flush_tasks_ok t \<Longrightarrow> records_ok (jt_state t)"
  by (simp add: flush_tasks_ok_def tasks_ok_def flush_ok_def)

lemma evolves_length: "evolves t t' \<Longrightarrow> records_ok (jt_state t) \<Longrightarrow> a < length (jb_records (jt_state t)) \<Longrightarrow> a < length (jb_records (jt_state t'))"
  using evolvesD(1)[of t t' "(of_nat a, 0)" "jr_payload (jb_records (jt_state t) ! a)"] entry_ok_now[of "of_nat a" t 0]
  by (auto simp: entry_ok_def unat_of_nat records_ok_def)

lemma read_key_step:
  assumes "read_key serialize addresses t = (key, t')" "flush_tasks_ok t" "watched updating t"
    and "list_all (\<lambda>a. a < length (jb_records (jt_state t))) addresses"
  shows "flush_tasks_ok t' \<and> evolves t t' \<and> list_all2 (key_ok t') addresses key \<and>
    (\<forall>payloads. list_all2 (entry_ok t) key payloads \<longrightarrow> list_all2 (shown_ok updating (jt_seen t')) addresses payloads)"
  using assms
proof (induction addresses arbitrary: t key)
  case (Cons a addresses)
  let ?t = "others_run serialize t"
  let ?r = "jb_records (jt_state ?t) ! a" and ?k = "(jr_sequence (jb_records (jt_state ?t) ! a), jr_revision (jb_records (jt_state ?t) ! a))"
  obtain key' where key: "read_key serialize addresses ?t = (key', t')" "key = ?k # key'"
    using Cons.prems(1) by (auto simp: Let_def split: prod.splits)
  have t: "flush_tasks_ok ?t" "evolves t ?t" using others_step[OF Cons.prems(2)] by auto
  have w: "watched updating ?t" using evolvesD(2)[OF t(2)] Cons.prems(3) by blast
  have valid: "list_all (\<lambda>a. a < length (jb_records (jt_state ?t))) (a # addresses)"
    using Cons.prems(4) evolves_length[OF t(2) flush_tasks_records[OF Cons.prems(2)]] by (auto simp: list_all_iff)
  have seq: "unat (jr_sequence ?r) = a"
    using valid records_ok_nth[OF flush_tasks_records[OF t(1)], of a] flush_tasks_records[OF t(1)] by (auto simp: records_ok_def unat_of_nat)
  note ih = Cons.IH[OF key(1) t(1) w] valid
  have later: "flush_tasks_ok t'" "evolves ?t t'" "list_all2 (key_ok t') addresses key'" using ih by auto
  have "entry_ok ?t ?k (jr_payload ?r)" using valid seq by (auto simp: entry_ok_def)
  then have first: "key_ok t' a ?k" using key_ok_evolves[OF later(2)] seq by (auto simp: key_ok_def)
  have "list_all2 (shown_ok updating (jt_seen t')) (a # addresses) payloads" if entries: "list_all2 (entry_ok t) key payloads" for payloads
  proof -
    obtain p payloads' where payloads: "payloads = p # payloads'" "entry_ok t ?k p" "list_all2 (entry_ok t) key' payloads'"
      using entries by (auto simp: key(2) list_all2_Cons1)
    have "p = jr_payload ?r \<or> jt_updating ?t = Some (a, p)" using evolvesD(1)[OF t(2) payloads(2)] seq by (auto simp: entry_ok_def)
    then have "shown_ok updating (jt_seen ?t) a p" using w by (auto simp: watched_def shown_ok_def)
    moreover have "list_all2 (entry_ok ?t) key' payloads'" using payloads(3) by (rule list_all2_mono) (rule evolvesD(1)[OF t(2)])
    ultimately show ?thesis using ih evolvesD(3)[OF later(2)] by (simp add: payloads(1))
  qed
  then show ?case using later first evolves_trans[OF t(2) later(2)] by (simp add: key(2))
qed simp

text \<open>Reading the payloads of a batch after its key.\<close>

lemma join_payloads_step:
  assumes "join_payloads serialize addresses payload t = (result, t')" "flush_tasks_ok t" "watched updating t" "list_all2 (key_ok t) addresses key"
  shows "flush_tasks_ok t' \<and> evolves t t' \<and>
    (\<forall>joined. result = Some joined \<longrightarrow> length payload \<le> MAX_DECODED_PAYLOAD_BYTES \<longrightarrow> length joined \<le> MAX_DECODED_PAYLOAD_BYTES \<and>
      (\<exists>payloads. joined = payload @ concat payloads \<and> list_all2 (entry_ok t') key payloads \<and>
        list_all2 (shown_ok updating (jt_seen t')) addresses payloads))"
  using assms
proof (induction addresses arbitrary: t key payload)
  case (Cons a addresses)
  let ?t = "others_run serialize t"
  let ?p = "jr_payload (jb_records (jt_state ?t) ! a)"
  obtain k key' where key: "key = k # key'" "key_ok t a k" "list_all2 (key_ok t) addresses key'"
    using Cons.prems(4) by (auto simp: list_all2_Cons1)
  have t: "flush_tasks_ok ?t" "evolves t ?t" using others_step[OF Cons.prems(2)] by auto
  have w: "watched updating ?t" using evolvesD(2)[OF t(2)] Cons.prems(3) by blast
  have k: "entry_ok ?t k ?p" using key_ok_evolves[OF t(2) key(2)] by (cases k) (auto simp: key_ok_def entry_ok_def)
  have shown: "shown_ok updating (jt_seen ?t) a ?p" using w by (auto simp: watched_def shown_ok_def)
  show ?case
  proof (cases "length payload + length ?p \<le> MAX_DECODED_PAYLOAD_BYTES")
    case False
    then show ?thesis using Cons.prems(1) t by (auto simp: Let_def)
  next
    case True
    have "list_all2 (key_ok ?t) addresses key'" using key(3) by (rule list_all2_mono) (rule key_ok_evolves[OF t(2)])
    with True Cons.IH[of "payload @ ?p" ?t key'] Cons.prems(1) t(1) w
    have ih: "flush_tasks_ok t'" "evolves ?t t'"
      "\<And>joined. result = Some joined \<Longrightarrow> length joined \<le> MAX_DECODED_PAYLOAD_BYTES \<and>
        (\<exists>payloads. joined = (payload @ ?p) @ concat payloads \<and> list_all2 (entry_ok t') key' payloads \<and>
          list_all2 (shown_ok updating (jt_seen t')) addresses payloads)"
      by (simp_all add: Let_def)
    have "\<exists>payloads. joined = payload @ concat payloads \<and> list_all2 (entry_ok t') key payloads \<and>
        list_all2 (shown_ok updating (jt_seen t')) (a # addresses) payloads" if joined: "result = Some joined" for joined
    proof -
      obtain payloads where "joined = (payload @ ?p) @ concat payloads" "list_all2 (entry_ok t') key' payloads"
        "list_all2 (shown_ok updating (jt_seen t')) addresses payloads" using ih(3)[OF joined] by blast
      then show ?thesis using evolvesD(1)[OF ih(2) k] evolvesD(3)[OF ih(2) shown] by (intro exI[of _ "?p # payloads"]) (simp add: key(1))
    qed
    then show ?thesis using ih evolves_trans[OF t(2) ih(2)] by blast
  qed
qed auto

definition frame_of :: "(bytes \<Rightarrow> bytes option) \<Rightarrow> bytes \<Rightarrow> bytes list \<Rightarrow> bool" where
  "frame_of deflate framed payloads \<longleftrightarrow> frame_batch deflate (length payloads) (concat payloads) = Some framed \<and>
     length (concat payloads) \<le> MAX_DECODED_PAYLOAD_BYTES"

definition cache_ok :: "(bytes \<Rightarrow> bytes option) \<Rightarrow> frame_cache \<Rightarrow> 'r join_tasks \<Rightarrow> bool" where
  "cache_ok deflate cache t \<longleftrightarrow>
     (\<forall>key framed. (key, framed) \<in> set cache \<longrightarrow> (\<exists>payloads. list_all2 (entry_ok t) key payloads \<and> frame_of deflate framed payloads))"

lemma cache_ok_entries: "cache_ok deflate cache t \<Longrightarrow> (\<And>k p. entry_ok t k p \<Longrightarrow> entry_ok t' k p) \<Longrightarrow> cache_ok deflate cache t'"
  unfolding cache_ok_def
proof (intro allI impI)
  fix key framed
  assume all: "\<forall>key framed. (key, framed) \<in> set cache \<longrightarrow> (\<exists>payloads. list_all2 (entry_ok t) key payloads \<and> frame_of deflate framed payloads)"
    and step: "\<And>k p. entry_ok t k p \<Longrightarrow> entry_ok t' k p" and "(key, framed) \<in> set cache"
  then obtain payloads where "list_all2 (entry_ok t) key payloads" "frame_of deflate framed payloads" by blast
  then show "\<exists>payloads. list_all2 (entry_ok t') key payloads \<and> frame_of deflate framed payloads"
    using list_all2_mono[of "entry_ok t" key payloads "entry_ok t'"] step by blast
qed

lemma cache_ok_evolves: "cache_ok deflate cache t \<Longrightarrow> evolves t t' \<Longrightarrow> cache_ok deflate cache t'"
  by (erule cache_ok_entries) (rule evolvesD(1))

lemma cached_frame_step:
  assumes "cached_frame deflate serialize addresses cache t = (result, cache', t')" "flush_tasks_ok t" "watched updating t"
    and "list_all (\<lambda>a. a < length (jb_records (jt_state t))) addresses" "cache_ok deflate cache t"
  shows "flush_tasks_ok t' \<and> evolves t t' \<and> cache_ok deflate cache' t' \<and>
    (\<forall>framed. result = Some framed \<longrightarrow>
      (\<exists>payloads. frame_of deflate framed payloads \<and> list_all2 (shown_ok updating (jt_seen t')) addresses payloads))"
proof -
  obtain key u where read: "read_key serialize addresses t = (key, u)" by fastforce
  note k = read_key_step[OF read assms(2-4)]
  show ?thesis
  proof (cases "map_of cache key")
    case (Some framed)
    then have out: "result = Some framed" "cache' = cache" "t' = u" using assms(1) by (simp_all add: cached_frame_def read del: map_of_eq_Some_iff)
    obtain payloads where "list_all2 (entry_ok t) key payloads" "frame_of deflate framed payloads"
      using assms(5) map_of_SomeD[OF Some] unfolding cache_ok_def by blast
    then show ?thesis using k cache_ok_evolves[OF assms(5)] by (auto simp: out)
  next
    case None
    obtain made v where frame: "frame_join_records deflate serialize addresses u = (made, v)" by fastforce
    have out: "result = made" "t' = v" "cache' = (case made of None \<Rightarrow> cache | Some framed \<Rightarrow> (key, framed) # cache)"
      using assms(1) None by (auto simp: cached_frame_def read frame split: option.splits)
    show ?thesis
    proof (cases "65535 < length addresses")
      case True
      then have "made = None" "v = u" using frame by (simp_all add: frame_join_records_def)
      then show ?thesis using k cache_ok_evolves[OF assms(5)] by (auto simp: out)
    next
      case False
      obtain joined v' where join: "join_payloads serialize addresses [] u = (joined, v')" by fastforce
      have v: "v = v'" "made = (case joined of None \<Rightarrow> None | Some payload \<Rightarrow> frame_batch deflate (length addresses) payload)"
        using frame False by (auto simp: frame_join_records_def join split: option.splits)
      have u: "flush_tasks_ok u" "watched updating u" "list_all2 (key_ok u) addresses key" using k evolvesD(2) assms(3) by blast+
      note j = join_payloads_step[OF join u]
      have step: "flush_tasks_ok v" "evolves t v" using j evolves_trans[of t u v] k by (auto simp: v(1))
      show ?thesis
      proof (cases made)
        case None
        then show ?thesis using step cache_ok_evolves[OF assms(5)] by (auto simp: out)
      next
        case (Some framed)
        then obtain payload where "joined = Some payload" "frame_batch deflate (length addresses) payload = Some framed" using v(2) by (auto split: option.splits)
        with j obtain payloads where p: "payload = concat payloads" "list_all2 (entry_ok v) key payloads" "list_all2 (shown_ok updating (jt_seen v)) addresses payloads"
          "length payload \<le> MAX_DECODED_PAYLOAD_BYTES" by (auto simp: v(1))
        then have "frame_of deflate framed payloads"
          using \<open>frame_batch deflate (length addresses) payload = Some framed\<close> by (auto simp: frame_of_def dest: list_all2_lengthD)
        then show ?thesis using step p cache_ok_evolves[OF assms(5) step(2)] Some by (auto simp: out cache_ok_def)
      qed
    qed
  qed
qed

text \<open>A frame that is sent: each payload in it was the payload of its record at a moment from the flush turning to the batch until the frame was sent.\<close>

definition current_frame :: "(bytes \<Rightarrow> bytes option) \<Rightarrow> sent_frame \<Rightarrow> bool" where
  "current_frame deflate f \<longleftrightarrow>
     (\<exists>payloads. frame_of deflate (sf_framed f) payloads \<and> list_all2 (shown_ok (sf_updating f) (sf_seen f)) (sf_addresses f) payloads)"

lemma turn_to_batch_simps:
  "entry_ok (turn_to_batch t) = entry_ok t" "flush_tasks_ok (turn_to_batch t) = flush_tasks_ok t" "watched (jt_updating t) (turn_to_batch t)"
  "jt_state (turn_to_batch t) = jt_state t" "cache_ok deflate cache (turn_to_batch t) = cache_ok deflate cache t"
  by (auto simp: turn_to_batch_def entry_ok_def flush_tasks_ok_def tasks_ok_def watched_def shown_ok_def cache_ok_def)

lemma transport_send_simps:
  assumes "transport_send t = (ok, t')"
  shows "entry_ok t' = entry_ok t" "flush_tasks_ok t' = flush_tasks_ok t" "cache_ok deflate cache t' = cache_ok deflate cache t" "jt_state t' = jt_state t"
  using assms by (auto simp: transport_send_def entry_ok_def flush_tasks_ok_def tasks_ok_def cache_ok_def split: list.splits)

lemma flush_batches_step:
  assumes "flush_batches deflate serialize pid batches cache t = (ok, frames, cache', t')"
    and "flush_tasks_ok t" "cache_ok deflate cache t" "list_all (list_all (\<lambda>a. a < length (jb_records (jt_state t)))) batches"
  shows "flush_tasks_ok t' \<and> cache_ok deflate cache' t' \<and> list_all (\<lambda>f. sf_peer f = pid \<and> current_frame deflate f) frames \<and>
    (\<exists>rest. filter (\<lambda>b. b \<noteq> []) batches = map sf_addresses frames @ rest \<and> (ok \<longrightarrow> rest = []))"
  using assms
proof (induction batches arbitrary: cache t ok frames)
  case (Cons addresses batches)
  show ?case
  proof (cases "addresses = []")
    case True
    then show ?thesis using Cons.IH[of cache t ok frames] Cons.prems by simp
  next
    case False
    obtain result cache1 t1 where got: "cached_frame deflate serialize addresses cache (turn_to_batch t) = (result, cache1, t1)" by (metis prod_cases3)
    have one: "flush_tasks_ok t1 \<and> evolves (turn_to_batch t) t1 \<and> cache_ok deflate cache1 t1 \<and>
      (\<forall>framed. result = Some framed \<longrightarrow>
        (\<exists>payloads. frame_of deflate framed payloads \<and> list_all2 (shown_ok (jt_updating t) (jt_seen t1)) addresses payloads))"
      by (rule cached_frame_step[OF got]) (use Cons.prems in \<open>simp_all add: turn_to_batch_simps\<close>)
    show ?thesis
    proof (cases result)
      case None
      then show ?thesis using one Cons.prems(1) False got by auto
    next
      case (Some framed)
      obtain accepted t2 where send: "transport_send t1 = (accepted, t2)" by fastforce
      let ?t = "others_run serialize t2"
      obtain frames1 where rest: "flush_batches deflate serialize pid batches cache1 ?t = (ok, frames1, cache', t')"
        "frames = \<lparr>sf_peer = pid, sf_addresses = addresses, sf_framed = framed, sf_accepted = accepted, sf_updating = jt_updating t, sf_seen = jt_seen t1\<rparr> # frames1"
        using Cons.prems(1) False got Some send by (auto simp: Let_def split: prod.splits)
      have t2: "flush_tasks_ok t2" "cache_ok deflate cache1 t2" using one transport_send_simps[OF send] by simp_all
      have t3: "flush_tasks_ok ?t" "evolves t2 ?t" using others_step[OF t2(1)] by auto
      have "a < length (jb_records (jt_state ?t))" if "a < length (jb_records (jt_state t))" for a
        using that evolves_length[of "turn_to_batch t" t1] evolves_length[OF t3(2)] one Cons.prems(2) flush_tasks_records
        by (metis transport_send_simps(4)[OF send] turn_to_batch_simps(2,4))
      then have "list_all (list_all (\<lambda>a. a < length (jb_records (jt_state ?t)))) batches" using Cons.prems(4) by (auto simp: list_all_iff)
      from Cons.IH[OF rest(1) t3(1) cache_ok_evolves[OF t2(2) t3(2)] this] show ?thesis
        using one Some False by (auto simp: rest(2) current_frame_def)
    qed
  qed
qed auto

lemma take_locked_step:
  assumes "take_locked pid t = (batches, t')" "flush_tasks_ok t" "cache_ok deflate cache t"
  shows "flush_tasks_ok t' \<and> cache_ok deflate cache t' \<and> list_all (list_all (\<lambda>a. a < length (jb_records (jt_state t')))) batches"
proof -
  let ?t = "finish_update t" and ?s = "jt_state (finish_update t)"
  have t: "flush_tasks_ok ?t" "evolves t ?t"
    using finish_step[OF assms(2)[unfolded flush_tasks_ok_def]] by (auto simp: flush_tasks_ok_def finish_update_def split: option.splits)
  obtain s' where take: "take_batches pid ?s = (batches, s')" and t': "t' = ?t\<lparr>jt_state := s'\<rparr>"
    using assms(1) by (auto simp: take_locked_def Let_def split: prod.splits)
  have "jb_records s' = jb_records ?s \<and> (\<forall>n. flush_ok n ?s \<longrightarrow> flush_ok n s' \<and> list_all (list_all (\<lambda>a. a < length (jb_records ?s))) batches)"
  proof (cases "\<exists>peer. map_of (jb_peers ?s) pid = Some peer \<and> jp_initial_history_queued peer")
    case False
    then have "batches = []" "s' = ?s" using take by (auto simp: take_batches_def split: option.splits if_splits)
    then show ?thesis by simp
  next
    case True
    then obtain peer where peer: "map_of (jb_peers ?s) pid = Some peer" "jp_initial_history_queued peer" by blast
    let ?pending = "sort_key (\<lambda>a. jr_sequence (jb_records ?s ! a)) (jp_pending peer)"
    have b: "batches = drain_batches (\<lambda>a. length (jr_payload (jb_records ?s ! a))) ?pending"
      and s': "s' = ?s\<lparr>jb_peers := put_key pid (peer\<lparr>jp_pending := []\<rparr>) (jb_peers ?s)\<rparr>"
      using take peer by (simp_all add: take_batches_def del: map_of_eq_Some_iff)
    have "set (concat batches) = set (jp_pending peer)" unfolding b drain_concat by simp
    then have "list_all (list_all (\<lambda>a. a < length (jb_records ?s))) batches" if "flush_ok n ?s" for n
      using flush_okD[OF that map_of_SomeD[OF peer(1)]] by (auto simp: list_all_iff)
    then show ?thesis using put_peer_flush_ok[OF _ peer(1), of _ "peer\<lparr>jp_pending := []\<rparr>"] by (simp add: s')
  qed
  moreover from this have "cache_ok deflate cache t'"
    using cache_ok_evolves[OF assms(3) t(2)] by (auto simp: t' entry_ok_def elim!: cache_ok_entries)
  ultimately show ?thesis using t(1) by (auto simp: t' flush_tasks_ok_def tasks_ok_def)
qed

lemma flush_targets_step:
  assumes "flush_targets deflate serialize authenticated targets cache t = (ok, frames, cache', t')" "flush_tasks_ok t" "cache_ok deflate cache t"
  shows "list_all (current_frame deflate) frames"
  using assms
proof (induction targets arbitrary: cache t ok frames)
  case (Cons pid targets)
  show ?case
  proof (cases "authenticated pid")
    case False
    then show ?thesis using Cons by simp
  next
    case True
    let ?t = "others_run serialize t"
    obtain batches t1 where taken: "take_locked pid ?t = (batches, t1)" by fastforce
    obtain ok2 frames2 cache2 t2 where sent: "flush_batches deflate serialize pid batches cache t1 = (ok2, frames2, cache2, t2)" by (metis prod_cases4)
    have t: "flush_tasks_ok ?t" "cache_ok deflate cache ?t" using others_step[OF Cons.prems(2)] cache_ok_evolves[OF Cons.prems(3)] by blast+
    have "flush_tasks_ok t2" "cache_ok deflate cache2 t2" "list_all (current_frame deflate) frames2"
      using flush_batches_step[OF sent] take_locked_step[OF taken t] by (auto simp: list_all_iff)
    note mid = this
    show ?thesis
    proof (cases ok2)
      case False
      then show ?thesis using Cons.prems(1) True taken sent mid(3) by simp
    next
      case ok2: True
      obtain frames3 where rest: "flush_targets deflate serialize authenticated targets cache2 t2 = (ok, frames3, cache', t')" "frames = frames2 @ frames3"
        using Cons.prems(1) True taken sent ok2 by (auto split: prod.splits)
      show ?thesis using Cons.IH[OF rest(1) mid(1,2)] mid(3) by (simp add: rest(2))
    qed
  qed
qed simp

text \<open>C23. Frames that a flush shares between receivers carry no outdated payload, although most of them come from a cache keyed by numbers and revisions, and although other tasks run
between any two reads of the flush: joins, departures, delivered histories, and changes of avatar, which write the payload of a record and count its revision as two separate
steps while the flush reads both without the lock. Each frame that goes out decodes to the number of its records and their payloads, where the payload of each record is one that the
record had at a moment between the flush turning to the batch and the frame going out. The exception is a record whose update is half done, written but not counted, at the moment the flush turns to the batch:
of this one the frame may carry the payload that the update replaces. Revisions do not wrap.\<close>

theorem shared_frames_are_current:
  assumes "flush_tasks_ok t" "deflate_ok deflate decompress new"
    and "flush_join_batches deflate serialize authenticated lock_free t = (ok, frames, t')"
  shows "list_all (\<lambda>f. \<exists>payloads.
    fst (ServerReadyBatchMessage_deserialize decompress new (reader_new (sf_framed f))) =
      Inr \<lparr>srb_count = of_nat (length (sf_addresses f)), srb_payload = concat payloads\<rparr> \<and>
    list_all2 (\<lambda>address payload. (\<exists>records \<in> set (sf_seen f). payload = jr_payload (records ! address)) \<or>
      sf_updating f = Some (address, payload)) (sf_addresses f) payloads) frames"
proof (cases lock_free)
  case True
  have t: "flush_tasks_ok (finish_update t)"
    using finish_step[OF assms(1)[unfolded flush_tasks_ok_def]] by (auto simp: flush_tasks_ok_def finish_update_def split: option.splits)
  have "list_all (current_frame deflate) frames"
    using assms(3) True flush_targets_step[OF _ t, of deflate serialize authenticated "ready_targets (jt_state (finish_update t))" "[]"]
    by (auto simp: flush_join_batches_def Let_def cache_ok_def split: prod.splits)
  then show ?thesis
  proof (rule list.pred_mono_strong)
    fix f assume "current_frame deflate f"
    then obtain payloads where p: "frame_of deflate (sf_framed f) payloads" "list_all2 (shown_ok (sf_updating f) (sf_seen f)) (sf_addresses f) payloads"
      by (auto simp: current_frame_def)
    have "list_all2 (\<lambda>address payload. (\<exists>records \<in> set (sf_seen f). payload = jr_payload (records ! address)) \<or>
      sf_updating f = Some (address, payload)) (sf_addresses f) payloads"
      using p(2) by (rule list_all2_mono) (auto simp: shown_ok_def)
    then show "\<exists>payloads.
      fst (ServerReadyBatchMessage_deserialize decompress new (reader_new (sf_framed f))) =
        Inr \<lparr>srb_count = of_nat (length (sf_addresses f)), srb_payload = concat payloads\<rparr> \<and>
      list_all2 (\<lambda>address payload. (\<exists>records \<in> set (sf_seen f). payload = jr_payload (records ! address)) \<or>
        sf_updating f = Some (address, payload)) (sf_addresses f) payloads"
      using frame_batch_decodes[OF assms(2), of payloads] p(1) list_all2_lengthD[OF p(2)] by (intro exI[of _ payloads]) (simp add: frame_of_def)
  qed
qed (use assms(3) in \<open>simp add: flush_join_batches_def\<close>)

section \<open>Who is announced to whom\<close>

text \<open>
  Runs of the join state at the granularity of batches. A join may reuse an identifier, also one that is still present; a history may be marked as
  queued for any identifier at any time, which covers tasks that outlive the player they accept. One flush runs at a time (\<open>join_delivery\<close>): \<open>hand\<close> is the receiver
  whose queue it took, as the number of the receiver's record, with the batches that are still to be sent. A batch is taken by the transport (\<open>shown\<close>), or the transport refuses it, or the flush
  fails to frame a batch and gives up the rest (\<open>lost\<close>); the lists hold pairs of record numbers, receiver first.
\<close>

inductive join_run ::
  "(u16 \<Rightarrow> 'r \<Rightarrow> bytes option) \<Rightarrow> 'r JoinBroadcastState \<Rightarrow> nat \<times> nat list list \<Rightarrow> (nat \<times> nat) list \<Rightarrow> (nat \<times> nat) list \<Rightarrow> bool" for serialize where
  run_start: "join_run serialize join_broadcast_default (0, []) [] []"
| run_join: "join_run serialize s hand shown lost \<Longrightarrow> length (jb_records s) + 1 < 2 ^ 64 \<Longrightarrow> register_peer peer payload s = (existing, s') \<Longrightarrow>
    join_run serialize s' hand shown lost"
| run_write: "join_run serialize s hand shown lost \<Longrightarrow> join_run serialize (snd (begin_update_ready serialize pid ready s)) hand shown lost"
| run_count: "join_run serialize s hand shown lost \<Longrightarrow> join_run serialize (count_revision address s) hand shown lost"
| run_leave: "join_run serialize s hand shown lost \<Longrightarrow> join_run serialize (join_remove_peer pid s) hand shown lost"
| run_history: "join_run serialize s hand shown lost \<Longrightarrow> join_run serialize (mark_initial_history_queued pid s) hand shown lost"
| run_take: "join_run serialize s (receiver, []) shown lost \<Longrightarrow> map_of (jb_peers s) pid = Some peer \<Longrightarrow> take_batches pid s = (batches, s') \<Longrightarrow>
    join_run serialize s' (jp_spawn_record peer, batches) shown lost"
| run_sent: "join_run serialize s (receiver, batch # batches) shown lost \<Longrightarrow> join_run serialize s (receiver, batches) (shown @ map (Pair receiver) batch) lost"
| run_refused: "join_run serialize s (receiver, batch # batches) shown lost \<Longrightarrow> join_run serialize s (receiver, batches) shown (lost @ map (Pair receiver) batch)"
| run_unframed: "join_run serialize s (receiver, batches) shown lost \<Longrightarrow>
    join_run serialize s (receiver, []) shown (lost @ map (Pair receiver) (concat batches))"

definition occurs :: "'a list \<Rightarrow> 'a \<Rightarrow> nat" where
  "occurs xs x = length (filter ((=) x) xs)"

lemma occurs_append [simp]: "occurs (xs @ ys) x = occurs xs x + occurs ys x" "occurs [] x = 0"
  by (simp_all add: occurs_def)

lemma occurs_absent: "x \<notin> set xs \<Longrightarrow> occurs xs x = 0"
  by (auto simp: occurs_def filter_empty_conv)

lemma occurs_first: "p \<noteq> p' \<Longrightarrow> occurs (map (Pair p') xs) (p, b) = 0"
  by (auto intro!: occurs_absent)

lemma occurs_second: "occurs (map (Pair p) xs) (p, b) = occurs xs b"
  by (simp add: occurs_def filter_map comp_def)

text \<open>Between two live peers: the later one waits in the queue of the earlier one or has left it, once; the earlier one never is in the queue of the later one.\<close>

definition pair_ok :: "(nat \<times> nat) list \<Rightarrow> 'r JoinPeerState \<Rightarrow> 'r JoinPeerState \<Rightarrow> bool" where
  "pair_ok log p q \<longleftrightarrow> occurs log (jp_spawn_record p, jp_spawn_record q) + occurs (jp_pending p) (jp_spawn_record q) =
     (if jp_spawn_record p < jp_spawn_record q then 1 else 0)"

definition run_inv :: "'r JoinBroadcastState \<Rightarrow> (nat \<times> nat) list \<Rightarrow> bool" where
  "run_inv s log \<longleftrightarrow> join_inv s \<and> set log \<subseteq> {..<length (jb_records s)} \<times> {..<length (jb_records s)} \<and>
     (\<forall>pid p qid q. map_of (jb_peers s) pid = Some p \<longrightarrow> map_of (jb_peers s) qid = Some q \<longrightarrow> pid \<noteq> qid \<longrightarrow> pair_ok log p q)"

lemma run_invD:
  assumes "run_inv s log"
  shows "join_inv s" "(a, b) \<in> set log \<Longrightarrow> a < length (jb_records s) \<and> b < length (jb_records s)"
    and "map_of (jb_peers s) pid = Some p \<Longrightarrow> map_of (jb_peers s) qid = Some q \<Longrightarrow> pid \<noteq> qid \<Longrightarrow> pair_ok log p q"
  using assms unfolding run_inv_def by blast+

text \<open>What has left the queues only moves between the lists.\<close>

lemma run_inv_log:
  assumes "run_inv s log" "mset log' = mset log"
  shows "run_inv s log'"
proof -
  have "occurs log' x = occurs log x" for x using assms(2) by (metis occurs_def mset_filter size_mset)
  moreover have "set log' = set log" using assms(2) by (rule mset_eq_setD)
  ultimately show ?thesis using assms(1) by (simp add: run_inv_def pair_ok_def del: map_of_eq_Some_iff)
qed

text \<open>Steps that change at most the READY message, the marks and the records' contents of peers and drop some of the peers keep the invariant.\<close>

lemma run_inv_sub:
  assumes run: "run_inv s log" and inv: "join_inv s'" and len: "length (jb_records s') = length (jb_records s)"
    and sub: "\<And>pid p'. map_of (jb_peers s') pid = Some p' \<Longrightarrow> \<exists>p. map_of (jb_peers s) pid = Some p \<and> jp_spawn_record p' = jp_spawn_record p \<and>
      (\<forall>qid q. map_of (jb_peers s') qid = Some q \<longrightarrow> occurs (jp_pending p') (jp_spawn_record q) = occurs (jp_pending p) (jp_spawn_record q))"
  shows "run_inv s' log"
proof -
  have "pair_ok log p' q'" if p': "map_of (jb_peers s') pid = Some p'" and q': "map_of (jb_peers s') qid = Some q'" and ne: "pid \<noteq> qid" for pid p' qid q'
  proof -
    obtain p where p: "map_of (jb_peers s) pid = Some p" "jp_spawn_record p' = jp_spawn_record p"
      "occurs (jp_pending p') (jp_spawn_record q') = occurs (jp_pending p) (jp_spawn_record q')" using sub[OF p'] q' by blast
    obtain q where q: "map_of (jb_peers s) qid = Some q" "jp_spawn_record q' = jp_spawn_record q" using sub[OF q'] by blast
    show ?thesis using run_invD(3)[OF run p(1) q(1) ne] p q by (simp add: pair_ok_def)
  qed
  then show ?thesis using run inv len unfolding run_inv_def by simp
qed

lemma same_peers_run_inv:
  assumes "run_inv s log" "join_inv s'" "length (jb_records s') = length (jb_records s)"
    and "\<And>pid p'. map_of (jb_peers s') pid = Some p' \<Longrightarrow> \<exists>p. map_of (jb_peers s) pid = Some p \<and> jp_spawn_record p' = jp_spawn_record p \<and> jp_pending p' = jp_pending p"
  shows "run_inv s' log"
  using assms(1-3) by (rule run_inv_sub) (use assms(4) in fastforce)

lemma run_inv_write:
  assumes run: "run_inv s log"
  shows "run_inv (snd (begin_update_ready serialize pid ready s)) log"
  by (rule same_peers_run_inv[OF run begin_update_inv[OF run_invD(1)[OF run]]])
    (auto simp: begin_update_ready_def write_payload_def split: option.splits if_splits simp del: map_of_eq_Some_iff)

lemma run_inv_count:
  assumes run: "run_inv s log"
  shows "run_inv (count_revision address s) log"
  by (rule same_peers_run_inv[OF run count_revision_inv[OF run_invD(1)[OF run]]]) (auto simp: count_revision_def)

lemma run_inv_history:
  assumes run: "run_inv s log"
  shows "run_inv (mark_initial_history_queued pid s) log"
  by (rule same_peers_run_inv[OF run mark_inv[OF run_invD(1)[OF run]]])
    (auto simp: mark_initial_history_queued_def split: option.splits if_splits simp del: map_of_eq_Some_iff)

lemma run_inv_leave:
  assumes "run_inv s log"
  shows "run_inv (join_remove_peer pid s) log"
proof (rule run_inv_sub[OF assms remove_inv[OF run_invD(1)[OF assms]]])
  let ?s = "join_remove_peer pid s"
  show "length (jb_records ?s) = length (jb_records s)" by (simp add: remove_state)
  fix i p' assume "map_of (jb_peers ?s) i = Some p'"
  then obtain p where p: "map_of (jb_peers s) i = Some p" "p' = p\<lparr>jp_pending := filter (\<lambda>a. jr_peer_id (jb_records s ! a) \<noteq> pid) (jp_pending p)\<rparr>"
    by (auto simp: remove_state split: if_splits simp del: map_of_eq_Some_iff)
  have "occurs (jp_pending p') (jp_spawn_record q) = occurs (jp_pending p) (jp_spawn_record q)" if q: "map_of (jb_peers ?s) j = Some q" for j q
  proof -
    obtain r where r: "map_of (jb_peers s) j = Some r" "j \<noteq> pid" "jp_spawn_record q = jp_spawn_record r"
      using q by (auto simp: remove_state split: if_splits simp del: map_of_eq_Some_iff)
    have "jr_peer_id (jb_records s ! jp_spawn_record q) \<noteq> pid" using join_inv_peer[OF run_invD(1)[OF assms] r(1)] r(2,3) by (simp add: peer_ok_def)
    then show ?thesis by (auto simp: occurs_def p(2) intro!: arg_cong[where f = length] filter_cong)
  qed
  then show "\<exists>p. map_of (jb_peers s) i = Some p \<and> jp_spawn_record p' = jp_spawn_record p \<and>
      (\<forall>qid q. map_of (jb_peers ?s) qid = Some q \<longrightarrow> occurs (jp_pending p') (jp_spawn_record q) = occurs (jp_pending p) (jp_spawn_record q))"
    using p by (intro exI[of _ p]) auto
qed

lemma run_inv_join:
  assumes run: "run_inv s log" and room: "length (jb_records s) + 1 < 2 ^ 64" and reg: "register_peer peer payload s = (existing, s')"
  shows "run_inv s' log"
proof -
  note inv = run_invD(1)[OF run]
  note st = register_state[OF inv reg]
  let ?n = "length (jb_records s)"
  let ?new = "\<lparr>jp_sequence = jb_next_sequence s, jp_peer = peer, jp_spawn_record = ?n, jp_initial_history_queued = False, jp_pending = []\<rparr>"
  have unseen: "occurs log (a, ?n) = 0" "occurs log (?n, a) = 0" for a
    using run_invD(2)[OF run] by (fastforce intro!: occurs_absent)+
  have early: "jp_spawn_record p < ?n" "?n \<notin> set (jp_pending p)" if "map_of (jb_peers s) i = Some p" for i p
    using join_inv_peer[OF inv that] by (auto simp: peer_ok_def)
  have peers: "p' = ?new \<and> i = cp_id peer \<or> i \<noteq> cp_id peer \<and> (\<exists>p. map_of (jb_peers s) i = Some p \<and> p' = p\<lparr>jp_pending := jp_pending p @ [?n]\<rparr>)"
    if "map_of (jb_peers s') i = Some p'" for i p'
    using that by (auto simp: st(3) split: if_splits simp del: map_of_eq_Some_iff)
  have once: "occurs [a] b = (if a = b then 1 else 0)" for a b :: nat by (simp add: occurs_def)
  have "pair_ok log p' q'"
    if p': "map_of (jb_peers s') i = Some p'" and q': "map_of (jb_peers s') j = Some q'" and ne: "i \<noteq> j" for i p' j q'
  proof (cases "i = cp_id peer")
    case True
    with p' q' ne peers obtain q where "p' = ?new" "map_of (jb_peers s) j = Some q" "jp_spawn_record q' = jp_spawn_record q" by fastforce
    then show ?thesis using early(1) unseen by (fastforce simp: pair_ok_def)
  next
    case False
    with p' peers obtain p where p: "map_of (jb_peers s) i = Some p" "p' = p\<lparr>jp_pending := jp_pending p @ [?n]\<rparr>" by blast
    show ?thesis
    proof (cases "j = cp_id peer")
      case True
      then have "q' = ?new" using q' by (simp add: st(3))
      then show ?thesis using early[OF p(1)] unseen p(2) by (simp add: pair_ok_def once occurs_absent)
    next
      case False
      with q' peers obtain q where q: "map_of (jb_peers s) j = Some q" "q' = q\<lparr>jp_pending := jp_pending q @ [?n]\<rparr>" by blast
      show ?thesis using run_invD(3)[OF run p(1) q(1) ne] early(1)[OF q(1)] by (simp add: pair_ok_def p(2) q(2) once)
    qed
  qed
  moreover have "set log \<subseteq> {..<length (jb_records s')} \<times> {..<length (jb_records s')}" using run_invD(2)[OF run] by (fastforce simp: st(2) intro: less_SucI)
  ultimately show ?thesis using register_inv[OF inv room reg] unfolding run_inv_def by blast
qed

lemma run_inv_take:
  assumes run: "run_inv s log" and peer: "map_of (jb_peers s) pid = Some peer" and taken: "take_batches pid s = (batches, s')"
  shows "run_inv s' (log @ map (Pair (jp_spawn_record peer)) (concat batches))"
proof -
  note inv = run_invD(1)[OF run]
  note st = take_step[OF inv taken]
  let ?peer = "if jp_initial_history_queued peer then peer\<lparr>jp_pending := []\<rparr> else peer"
  let ?log = "log @ map (Pair (jp_spawn_record peer)) (concat batches)"
  have batches: "concat batches = (if jp_initial_history_queued peer then jp_pending peer else [])"
    and peers: "map_of (jb_peers s') = (map_of (jb_peers s))(pid \<mapsto> ?peer)"
    using st(4)[OF peer] by simp_all
  have ok: "peer_ok (jb_records s) pid peer" by (rule join_inv_peer[OF inv peer])
  have "pair_ok ?log p' q'"
    if p': "map_of (jb_peers s') i = Some p'" and q': "map_of (jb_peers s') j = Some q'" and ne: "i \<noteq> j" for i p' j q'
  proof -
    obtain q where q: "map_of (jb_peers s) j = Some q" "jp_spawn_record q' = jp_spawn_record q"
      using q' peer by (auto simp: peers split: if_splits simp del: map_of_eq_Some_iff)
    show ?thesis
    proof (cases "i = pid")
      case True
      then have "p' = ?peer" using p' by (simp add: peers)
      then show ?thesis using run_invD(3)[OF run peer q(1)] ne True by (simp add: pair_ok_def batches occurs_second q(2) split: if_splits)
    next
      case False
      then have p: "map_of (jb_peers s) i = Some p'" using p' by (simp add: peers)
      have "jp_spawn_record p' \<noteq> jp_spawn_record peer" using live_peers_distinct[OF inv p peer] False by blast
      then show ?thesis using run_invD(3)[OF run p q(1) ne] by (simp add: pair_ok_def occurs_first q(2))
    qed
  qed
  moreover have "set ?log \<subseteq> {..<length (jb_records s')} \<times> {..<length (jb_records s')}"
    using run_invD(2)[OF run] ok unfolding set_append set_map batches st(2) by (fastforce simp: peer_ok_def split: if_splits)
  ultimately show ?thesis using st(1) unfolding run_inv_def by blast
qed

lemma join_run_inv:
  "join_run serialize s hand shown lost \<Longrightarrow> run_inv s (shown @ lost @ map (Pair (fst hand)) (concat (snd hand)))"
proof (induction rule: join_run.induct)
  case run_start
  show ?case by (simp add: run_inv_def join_inv_def records_ok_def join_broadcast_default_def)
next
  case (run_take s receiver shown lost pid peer batches s')
  then show ?case using run_inv_take[of s "shown @ lost" pid peer batches s'] by simp
next
  case (run_sent s receiver batch batches shown lost)
  from run_inv_log[OF run_sent.IH, of "(shown @ map (Pair receiver) batch) @ lost @ map (Pair receiver) (concat batches)"] show ?case by simp
next
  case (run_refused s receiver batch batches shown lost)
  from run_inv_log[OF run_refused.IH, of "shown @ (lost @ map (Pair receiver) batch) @ map (Pair receiver) (concat batches)"] show ?case by simp
next
  case (run_unframed s receiver batches shown lost)
  from run_inv_log[OF run_unframed.IH, of "shown @ (lost @ map (Pair receiver) (concat batches))"] show ?case by simp
next
  case (run_join s hand shown lost peer payload existing s')
  then show ?case using run_inv_join by blast
qed (blast intro: run_inv_write run_inv_count run_inv_leave run_inv_history)+

text \<open>C22. A player who joins is announced to each earlier player at most once. In every run of joins, also under reused identifiers, departures, changes of avatar, marked histories and
flushes, of two players present the later one is, in exactly one place and once, either waiting in the queue of the earlier one, or in the batches that the flush at work holds for the earlier one, or in a batch that the transport
took for it, or lost with a batch that could not be framed or that the transport refused; the earlier one is never in the queue or in a batch of the later one. When a flush takes the
queue of a player whose history is marked as queued, everything that waits goes into its batches and nothing stays behind. Batches are addressed by
identifier. The history that a new player gets is a message of its own and not part of this.\<close>

theorem later_players_are_announced_once:
  assumes "join_run serialize s (receiver, batches) shown lost"
    and "map_of (jb_peers s) pid = Some p" "map_of (jb_peers s) qid = Some q" "qid \<noteq> pid" "take_batches pid s = (taken, s')"
  shows "occurs shown (jp_spawn_record p, jp_spawn_record q) + occurs lost (jp_spawn_record p, jp_spawn_record q) +
      occurs (map (Pair receiver) (concat batches)) (jp_spawn_record p, jp_spawn_record q) + occurs (jp_pending p) (jp_spawn_record q) =
        (if jp_sequence p < jp_sequence q then 1 else 0) \<and>
    (jp_initial_history_queued p \<longrightarrow> concat taken = jp_pending p \<and> map_of (jb_peers s') pid = Some (p\<lparr>jp_pending := []\<rparr>))"
proof -
  have inv: "run_inv s (shown @ lost @ map (Pair receiver) (concat batches))" using join_run_inv[OF assms(1)] by simp
  note ok = join_inv_peer[OF run_invD(1)[OF inv] assms(2)] join_inv_peer[OF run_invD(1)[OF inv] assms(3)]
  have "length (jb_records s) < 2 ^ 64" using run_invD(1)[OF inv] by (simp add: join_inv_def records_ok_def)
  then have "jp_sequence p < jp_sequence q \<longleftrightarrow> jp_spawn_record p < jp_spawn_record q" using ok by (simp add: peer_ok_def of_nat_less_u64)
  moreover have "pair_ok (shown @ lost @ map (Pair receiver) (concat batches)) p q" using run_invD(3)[OF inv assms(2,3)] assms(4) by simp
  ultimately show ?thesis using take_step(4)[OF run_invD(1)[OF inv] assms(5,2)] by (auto simp: pair_ok_def)
qed

lemma length_le_sum: "(\<And>x. x \<in> set xs \<Longrightarrow> 0 < f x) \<Longrightarrow> length xs \<le> sum_list (map f xs)"
proof (induction xs)
  case (Cons x xs)
  then show ?case using Cons.prems[of x] by fastforce
qed simp

lemma quiet_payloads:
  assumes "jt_turns t = []" "length payload + sum_list (map (\<lambda>a. length (jr_payload (jb_records (jt_state t) ! a))) addresses) \<le> MAX_DECODED_PAYLOAD_BYTES"
  shows "join_payloads serialize addresses payload t = (Some (payload @ concat (map (\<lambda>a. jr_payload (jb_records (jt_state t) ! a)) addresses)), t)"
  using assms by (induction addresses arbitrary: payload) (simp_all add: others_run_def Let_def)

text \<open>A flush leaves nothing behind and frames what fits: when a run takes the queue of a player with delivered history, the batches are the whole
queue in the order in which the waiting players joined, every batch but a single record keeps to the target of 32 KiB, and if each record has between 1 byte
and the protocol limit and does not change meanwhile every batch can be framed.\<close>

theorem batches_are_complete_and_framable:
  assumes "join_run serialize s hand shown lost" "map_of (jb_peers s) pid = Some p" "jp_initial_history_queued p" "take_batches pid s = (batches, s')"
    and "list_all (\<lambda>r. 0 < length (jr_payload r) \<and> length (jr_payload r) \<le> MAX_DECODED_PAYLOAD_BYTES) (jb_records s)"
    and "jt_state t = s" "jt_turns t = []"
  shows "concat batches = jp_pending p \<and> sorted_wrt (<) (concat batches) \<and>
    list_all (\<lambda>batch. (length batch = 1 \<or> sum_list (map (\<lambda>a. length (jr_payload (jb_records s ! a))) batch) \<le> MAX_PAYLOAD_BYTES) \<and>
      (\<exists>framed. frame_join_records deflate serialize batch t = (Some framed, t))) batches"
proof -
  have inv: "join_inv s" using run_invD(1)[OF join_run_inv[OF assms(1)]] .
  have ok: "peer_ok (jb_records s) pid p" by (rule join_inv_peer[OF inv assms(2)])
  have batches: "concat batches = jp_pending p" using take_step(4)[OF inv assms(4,2)] assms(3) by simp
  have "(length batch = 1 \<or> sum_list (map (\<lambda>a. length (jr_payload (jb_records s ! a))) batch) \<le> MAX_PAYLOAD_BYTES) \<and>
      (\<exists>framed. frame_join_records deflate serialize batch t = (Some framed, t))" if batch: "batch \<in> set batches" for batch
  proof -
    let ?len = "\<lambda>a. length (jr_payload (jb_records s ! a))"
    have size: "batch \<noteq> []" "length batch = 1 \<or> sum_list (map ?len batch) \<le> MAX_PAYLOAD_BYTES"
      using take_step(5)[OF inv assms(4,2) batch] by simp_all
    have "set batch \<subseteq> set (jp_pending p)" using batch batches by (metis UN_upper set_concat)
    then have "a < length (jb_records s)" if "a \<in> set batch" for a
      using that ok by (auto simp: peer_ok_def)
    then have each: "0 < ?len a \<and> ?len a \<le> MAX_DECODED_PAYLOAD_BYTES" if "a \<in> set batch" for a
      using that assms(5) by (auto simp: list_all_length)
    then have "length batch \<le> sum_list (map ?len batch)" by (intro length_le_sum) blast
    moreover have "length batch = 1 \<Longrightarrow> sum_list (map ?len batch) \<le> MAX_DECODED_PAYLOAD_BYTES"
      using each by (cases batch) auto
    ultimately have fits: "length batch \<le> 65535" "sum_list (map ?len batch) \<le> MAX_DECODED_PAYLOAD_BYTES"
      using size(2) by (auto simp: MAX_PAYLOAD_BYTES_def MAX_DECODED_PAYLOAD_BYTES_def)
    let ?payload = "concat (map (\<lambda>a. jr_payload (jb_records s ! a)) batch)"
    have "join_payloads serialize batch [] t = (Some ?payload, t)" using quiet_payloads[of t "[]" batch serialize] fits(2) assms(6,7) by simp
    moreover have "length ?payload \<le> MAX_DECODED_PAYLOAD_BYTES" using fits(2) by (simp add: length_concat comp_def)
    ultimately show ?thesis using size(2) fits(1) frame_batch_succeeds[of ?payload deflate "length batch"] by (auto simp: frame_join_records_def)
  qed
  then show ?thesis using batches ok by (simp add: peer_ok_def list_all_iff)
qed

section \<open>The history of a new player\<close>

definition fanout_record ::
  "(u16 \<Rightarrow> 'r \<Rightarrow> bytes option) \<Rightarrow> (u16 \<Rightarrow> 'r option) \<Rightarrow> 'r ConnectedPeer \<Rightarrow> bytes option" where
  "fanout_record serialize ready_of existing =
     serialize (cp_id existing) (case ready_of (cp_id existing) of Some ready \<Rightarrow> ready | None \<Rightarrow> cp_ready existing)"

definition batch_fits :: "bytes list \<Rightarrow> bool" where
  "batch_fits batch \<longleftrightarrow> batch \<noteq> [] \<and> length batch \<le> 65535 \<and> length (concat batch) \<le> MAX_DECODED_PAYLOAD_BYTES \<and>
     (length batch = 1 \<or> length (concat batch) \<le> MAX_PAYLOAD_BYTES)"

definition packet_of :: "(bytes \<Rightarrow> bytes option) \<Rightarrow> bytes \<Rightarrow> bytes list \<Rightarrow> bool" where
  "packet_of deflate packet batch \<longleftrightarrow> batch_fits batch \<and>
     ServerReadyBatchMessage_serialize deflate \<lparr>srb_count = of_nat (length batch), srb_payload = concat batch\<rparr> writer_new = (Inr (), \<lparr>wdata = packet\<rparr>)"

lemma packet_exists:
  assumes "batch_fits batch"
  obtains packet where "packet_of deflate packet batch"
proof -
  have "\<exists>w. ServerReadyBatchMessage_serialize deflate \<lparr>srb_count = of_nat (length batch), srb_payload = concat batch\<rparr> writer_new = (Inr (), w)"
    using assms by (auto simp: batch_fits_def ServerReadyBatchMessage_serialize_def Let_def runW.simps okW_def)
  then obtain w where "ServerReadyBatchMessage_serialize deflate \<lparr>srb_count = of_nat (length batch), srb_payload = concat batch\<rparr> writer_new = (Inr (), w)" ..
  with assms that[of "wdata w"] show thesis by (cases w) (auto simp: packet_of_def)
qed

lemma packet_decodes:
  assumes "deflate_ok deflate decompress new" "packet_of deflate packet batch"
  shows "fst (ServerReadyBatchMessage_deserialize decompress new (reader_new packet)) =
    Inr \<lparr>srb_count = of_nat (length batch), srb_payload = concat batch\<rparr>"
  using ready_batch_core[OF assms(1), of "\<lparr>srb_count = of_nat (length batch), srb_payload = concat batch\<rparr>" packet "[]"] assms(2)
  by (simp add: packet_of_def batch_fits_def)

text \<open>The state of the loop: packets sealed so far with their batches, and the batch at hand.\<close>

definition open_batch_ok :: "bytes list \<Rightarrow> bool" where
  "open_batch_ok batch \<longleftrightarrow> batch = [] \<or> batch_fits batch"

lemma fanout_add:
  assumes "open_batch_ok batch" "list_all (\<lambda>r. r \<noteq> []) batch" "rcd \<noteq> []" "length rcd \<le> MAX_DECODED_PAYLOAD_BYTES"
    and "\<not> (0 < length batch \<and> MAX_PAYLOAD_BYTES < length (concat batch) + length rcd)"
  shows "batch_fits (batch @ [rcd])" "length batch < 65535" "length (concat batch) + length rcd \<le> MAX_DECODED_PAYLOAD_BYTES"
proof -
  have count: "length batch \<le> length (concat batch)"
    using length_le_sum[of batch length] assms(2) by (auto simp: length_concat list_all_iff)
  have small: "batch = [] \<or> length (concat batch) + length rcd \<le> MAX_PAYLOAD_BYTES" using assms(5) by auto
  then show size: "length (concat batch) + length rcd \<le> MAX_DECODED_PAYLOAD_BYTES"
    using assms(4) by (auto simp: MAX_PAYLOAD_BYTES_def MAX_DECODED_PAYLOAD_BYTES_def)
  show few: "length batch < 65535" using small count by (auto simp: MAX_PAYLOAD_BYTES_def)
  show "batch_fits (batch @ [rcd])" using small size few by (auto simp: batch_fits_def)
qed

lemma fanout_loop_ok:
  assumes "list_all (\<lambda>e. \<exists>rcd. fanout_record serialize ready_of e = Some rcd \<and> rcd \<noteq> [] \<and>
      length rcd \<le> MAX_DECODED_PAYLOAD_BYTES) (filter (\<lambda>e. present (cp_id e)) existing)"
    and "list_all2 (packet_of deflate) packets batches" "open_batch_ok batch" "list_all (\<lambda>r. r \<noteq> []) batch"
  shows "\<exists>packets' batches' batch'.
    fanout_loop deflate serialize present ready_of existing packets (concat batch) (length batch) = Some (packets', concat batch', length batch') \<and>
    list_all2 (packet_of deflate) packets' batches' \<and> open_batch_ok batch' \<and>
    map Some (concat batches' @ batch') = map Some (concat batches @ batch) @
      map (fanout_record serialize ready_of) (filter (\<lambda>e. present (cp_id e)) existing)"
  using assms
proof (induction existing arbitrary: packets batches batch)
  case Nil
  then show ?case by auto
next
  case (Cons e existing)
  show ?case
  proof (cases "present (cp_id e)")
    case False
    then show ?thesis using Cons.IH[OF _ Cons.prems(2-4)] Cons.prems(1) by simp
  next
    case True
    then obtain rcd where rcd: "fanout_record serialize ready_of e = Some rcd" "rcd \<noteq> []"
      "length rcd \<le> MAX_DECODED_PAYLOAD_BYTES" using Cons.prems(1) by auto
    have later: "list_all (\<lambda>e. \<exists>rcd. fanout_record serialize ready_of e = Some rcd \<and> rcd \<noteq> [] \<and>
      length rcd \<le> MAX_DECODED_PAYLOAD_BYTES) (filter (\<lambda>e. present (cp_id e)) existing)" using Cons.prems(1) True by simp
    note wire = rcd(1)[unfolded fanout_record_def]
    show ?thesis
    proof (cases "0 < length batch \<and> MAX_PAYLOAD_BYTES < length (concat batch) + length rcd")
      case full: True
      then have "batch_fits batch" using Cons.prems(3) by (auto simp: open_batch_ok_def)
      then obtain packet where packet: "packet_of deflate packet batch" by (rule packet_exists)
      note fits = fanout_add[of "[]" rcd, OF _ _ rcd(2,3)]
      have "batch_fits [rcd]" using fits by (simp add: open_batch_ok_def)
      then obtain packets' batches' batch' where rest:
        "fanout_loop deflate serialize present ready_of existing (packets @ [packet]) (concat [rcd]) (length [rcd]) =
          Some (packets', concat batch', length batch')"
        "list_all2 (packet_of deflate) packets' batches'" "open_batch_ok batch'"
        "map Some (concat batches' @ batch') = map Some (concat (batches @ [batch]) @ [rcd]) @
          map (fanout_record serialize ready_of) (filter (\<lambda>e. present (cp_id e)) existing)"
        using Cons.IH[OF later, of "packets @ [packet]" "batches @ [batch]" "[rcd]"] Cons.prems(2) packet rcd(2)
        by (auto simp: open_batch_ok_def list_all2_appendI)
      have "fanout_loop deflate serialize present ready_of (e # existing) packets (concat batch) (length batch) =
          fanout_loop deflate serialize present ready_of existing (packets @ [packet]) (concat [rcd]) (length [rcd])"
        using True wire rcd full packet by (simp add: packet_of_def Let_def)
      with rest show ?thesis using True rcd(1) by (intro exI[of _ packets'] exI[of _ batches'] exI[of _ batch']) simp
    next
      case False
      note fits = fanout_add[OF Cons.prems(3,4) rcd(2,3) False]
      obtain packets' batches' batch' where rest:
        "fanout_loop deflate serialize present ready_of existing packets (concat (batch @ [rcd])) (length (batch @ [rcd])) =
          Some (packets', concat batch', length batch')"
        "list_all2 (packet_of deflate) packets' batches'" "open_batch_ok batch'"
        "map Some (concat batches' @ batch') = map Some (concat batches @ batch @ [rcd]) @
          map (fanout_record serialize ready_of) (filter (\<lambda>e. present (cp_id e)) existing)"
        using Cons.IH[OF later Cons.prems(2), of "batch @ [rcd]"] fits(1) Cons.prems(4) rcd(2)
        by (auto simp: open_batch_ok_def)
      have "fanout_loop deflate serialize present ready_of (e # existing) packets (concat batch) (length batch) =
          fanout_loop deflate serialize present ready_of existing packets (concat (batch @ [rcd])) (length (batch @ [rcd]))"
        using True wire rcd False fits by (cases "batch = []") (simp_all add: Let_def)
      with rest show ?thesis using True rcd(1) by (intro exI[of _ packets'] exI[of _ batches'] exI[of _ batch']) simp
    qed
  qed
qed

text \<open>A new player gets the whole history: if the record of every player still present can be written and respects the protocol limit, the packets
are built, and read back one after the other they yield the records of exactly those players in the order in which they joined, each packet within the
target of 32 KiB or holding a single record. When the transport takes the packets, the player is marked as ready for the batches of later joins.\<close>

theorem history_is_complete:
  assumes "deflate_ok deflate decompress new"
    and "list_all (\<lambda>e. \<exists>rcd. fanout_record serialize ready_of e = Some rcd \<and> rcd \<noteq> [] \<and>
      length rcd \<le> MAX_DECODED_PAYLOAD_BYTES) (filter (\<lambda>e. map_of (jb_peers s) (cp_id e) \<noteq> None) existing)"
    and "\<And>packets. send_many packets"
  shows "\<exists>packets batches.
    send_accept_fanout deflate serialize ready_of send_many pid existing s = (Some packets, mark_initial_history_queued pid s) \<and>
    map Some (concat batches) = map (fanout_record serialize ready_of) (filter (\<lambda>e. map_of (jb_peers s) (cp_id e) \<noteq> None) existing) \<and>
    list_all2 (\<lambda>packet batch. batch_fits batch \<and>
      fst (ServerReadyBatchMessage_deserialize decompress new (reader_new packet)) =
        Inr \<lparr>srb_count = of_nat (length batch), srb_payload = concat batch\<rparr>) packets batches"
proof -
  let ?present = "\<lambda>pid. map_of (jb_peers s) pid \<noteq> None"
  obtain packets batches batch where loop:
    "fanout_loop deflate serialize ?present ready_of existing [] [] 0 = Some (packets, concat batch, length batch)"
    "list_all2 (packet_of deflate) packets batches" "open_batch_ok batch"
    "map Some (concat batches @ batch) = map (fanout_record serialize ready_of) (filter (\<lambda>e. ?present (cp_id e)) existing)"
    using fanout_loop_ok[OF assms(2), of deflate "[]" "[]" "[]"] by (auto simp: open_batch_ok_def)
  have decode: "list_all2 (\<lambda>packet batch. batch_fits batch \<and>
      fst (ServerReadyBatchMessage_deserialize decompress new (reader_new packet)) =
        Inr \<lparr>srb_count = of_nat (length batch), srb_payload = concat batch\<rparr>) ps bs" if "list_all2 (packet_of deflate) ps bs" for ps bs
    using that by (rule list_all2_mono) (use packet_decodes[OF assms(1)] in \<open>auto simp: packet_of_def\<close>)
  show ?thesis
  proof (cases "batch = []")
    case True
    then show ?thesis using loop decode[OF loop(2)] assms(3)
      by (intro exI[of _ packets] exI[of _ batches]) (simp add: send_accept_fanout_def fanout_packets_def)
  next
    case False
    then obtain packet where packet: "packet_of deflate packet batch" using loop(3) packet_exists by (auto simp: open_batch_ok_def)
    then have "list_all2 (packet_of deflate) (packets @ [packet]) (batches @ [batch])" using loop(2) by (simp add: list_all2_appendI)
    from decode[OF this] show ?thesis using loop packet False assms(3)
      by (intro exI[of _ "packets @ [packet]"] exI[of _ "batches @ [batch]"])
        (simp add: send_accept_fanout_def fanout_packets_def packet_of_def)
  qed
qed

section \<open>A run of two players\<close>

definition demo_serialize :: "u16 \<Rightarrow> bytes \<Rightarrow> bytes option" where
  "demo_serialize peer_id ready = Some (ucast peer_id # ready)"

definition first_peer :: "bytes ConnectedPeer" where "first_peer = \<lparr>cp_id = 4, cp_ready = [10]\<rparr>"
definition second_peer :: "bytes ConnectedPeer" where "second_peer = \<lparr>cp_id = 9, cp_ready = [20]\<rparr>"

definition demo_join :: "bytes JoinBroadcastState" where
  "demo_join = mark_initial_history_queued 4 (snd (register_peer second_peer [9, 20] (snd (register_peer first_peer [4, 10] join_broadcast_default))))"

lemma demo_join_eq: "demo_join =
  \<lparr>jb_next_sequence = 2,
   jb_peers = [(4, \<lparr>jp_sequence = 0, jp_peer = first_peer, jp_spawn_record = 0, jp_initial_history_queued = True, jp_pending = [1]\<rparr>),
     (9, \<lparr>jp_sequence = 1, jp_peer = second_peer, jp_spawn_record = 1, jp_initial_history_queued = False, jp_pending = []\<rparr>)],
   jb_records = [\<lparr>jr_sequence = 0, jr_peer_id = 4, jr_revision = 0, jr_payload = [4, 10]\<rparr>,
     \<lparr>jr_sequence = 1, jr_peer_id = 9, jr_revision = 0, jr_payload = [9, 20]\<rparr>]\<rparr>"
  by (simp add: demo_join_def register_peer_def mark_initial_history_queued_def join_broadcast_default_def first_peer_def second_peer_def
      Let_def put_key_def remove_key_def map_values_def)

lemma demo_join_run: "join_run demo_serialize demo_join (0, []) [] []"
proof -
  let ?s1 = "snd (register_peer first_peer [4, 10] join_broadcast_default)"
  let ?s2 = "snd (register_peer second_peer [9, 20] ?s1)"
  have s1: "join_run demo_serialize ?s1 (0, []) [] []"
    by (rule run_join[OF run_start _ prod.collapse[symmetric]]) (simp add: join_broadcast_default_def)
  have "join_run demo_serialize ?s2 (0, []) [] []"
    by (rule run_join[OF s1 _ prod.collapse[symmetric]]) (simp add: join_broadcast_default_def register_peer_def Let_def)
  from run_history[OF this, of 4] show ?thesis by (simp add: demo_join_def)
qed

lemma demo_take: "take_batches 4 demo_join = ([[1]], demo_join\<lparr>jb_peers := put_key 4
    \<lparr>jp_sequence = 0, jp_peer = first_peer, jp_spawn_record = 0, jp_initial_history_queued = True, jp_pending = []\<rparr> (jb_peers demo_join)\<rparr>)"
  by (simp add: take_batches_def demo_join_eq drain_batches.simps)

lemma demo_peers:
  "map_of (jb_peers demo_join) 4 = Some \<lparr>jp_sequence = 0, jp_peer = first_peer, jp_spawn_record = 0, jp_initial_history_queued = True, jp_pending = [1]\<rparr>"
  "map_of (jb_peers demo_join) 9 = Some \<lparr>jp_sequence = 1, jp_peer = second_peer, jp_spawn_record = 1, jp_initial_history_queued = False, jp_pending = []\<rparr>"
  by (simp_all add: demo_join_eq)

theorem later_players_are_announced_once_witness:
  "occurs (jp_pending (the (map_of (jb_peers demo_join) 4))) (jp_spawn_record (the (map_of (jb_peers demo_join) 9))) = 1 \<and>
   concat (fst (take_batches 4 demo_join)) = jp_pending (the (map_of (jb_peers demo_join) 4))"
  using later_players_are_announced_once[OF demo_join_run demo_peers _ demo_take] unfolding demo_peers demo_take by simp

theorem batches_are_complete_and_framable_witness:
  "\<exists>framed. frame_join_records run_deflate demo_serialize [1] \<lparr>jt_state = demo_join, jt_updating = None, jt_turns = [], jt_sends = [], jt_seen = []\<rparr> =
    (Some framed, \<lparr>jt_state = demo_join, jt_updating = None, jt_turns = [], jt_sends = [], jt_seen = []\<rparr>)"
  using batches_are_complete_and_framable[OF demo_join_run demo_peers(1) _ demo_take,
      of "\<lparr>jt_state = demo_join, jt_updating = None, jt_turns = [], jt_sends = [], jt_seen = []\<rparr>" run_deflate]
  by (simp add: demo_join_eq MAX_DECODED_PAYLOAD_BYTES_def)

text \<open>The second player changes avatar while the flush works: the payload is written when the flush reads the key, and counted later.\<close>

definition demo_tasks :: "bytes join_tasks" where
  "demo_tasks = \<lparr>jt_state = demo_join, jt_updating = None, jt_turns = [[], [ReadyWritten 9 [21]], [], [ReadyCounted]], jt_sends = [True], jt_seen = []\<rparr>"

theorem shared_frames_are_current_witness:
  "list_all (\<lambda>f. \<exists>payloads.
    fst (ServerReadyBatchMessage_deserialize run_inflate None (reader_new (sf_framed f))) =
      Inr \<lparr>srb_count = of_nat (length (sf_addresses f)), srb_payload = concat payloads\<rparr> \<and>
    list_all2 (\<lambda>address payload. (\<exists>records \<in> set (sf_seen f). payload = jr_payload (records ! address)) \<or>
      sf_updating f = Some (address, payload)) (sf_addresses f) payloads)
    (fst (snd (flush_join_batches run_deflate demo_serialize (\<lambda>_. True) True demo_tasks)))"
proof -
  have "flush_tasks_ok demo_tasks"
    by (simp add: flush_tasks_ok_def tasks_ok_def flush_ok_def turn_events_def records_ok_def room_def queues_ok_def demo_tasks_def demo_join_eq)
  moreover let ?r = "flush_join_batches run_deflate demo_serialize (\<lambda>_. True) True demo_tasks"
  have "?r = (fst ?r, fst (snd ?r), snd (snd ?r))" by simp
  ultimately show ?thesis by (rule shared_frames_are_current[OF _ run_deflate_ok])
qed

theorem history_is_complete_witness:
  "\<exists>packets. fst (send_accept_fanout run_deflate demo_serialize (\<lambda>_. None) (\<lambda>_. True) 9 [first_peer] demo_join) = Some packets"
proof -
  have "list_all (\<lambda>e. \<exists>rcd. fanout_record demo_serialize (\<lambda>_. None) e = Some rcd \<and> rcd \<noteq> [] \<and>
      length rcd \<le> MAX_DECODED_PAYLOAD_BYTES) (filter (\<lambda>e. map_of (jb_peers demo_join) (cp_id e) \<noteq> None) [first_peer])"
    by (simp add: fanout_record_def demo_serialize_def first_peer_def MAX_DECODED_PAYLOAD_BYTES_def)
  from history_is_complete[OF run_deflate_ok this, of "\<lambda>_. True" 9] show ?thesis by auto
qed

end
