(* ===== verification/Moderation.thy ===== *)
theory Moderation
  imports Permissions NatPackets "HOL-Library.List_Lexorder"
begin

text \<open>
  The moderation lists (\<open>basis-server-admin/src/lib.rs\<close>): bans by identity and by address, mutes, the allow list and the ban list, and
  the files behind them. Parsing of UUIDs (crate \<open>uuid\<close>), the text form of addresses and the XML codec (crate \<open>quick_xml\<close>) are
  arguments, collected in a record. Whether the disk takes a write is an argument of each operation that writes. That a file exists and cannot
  be read is not modelled: the source then returns an error before it touches the lists, as \<open>reload\<close> does here when the XML of a file cannot be parsed.
\<close>

section \<open>State\<close>

record BannedPlayer =
  bp_uuid :: rstring
  bp_banned_ip :: rstring
  bp_reason :: rstring
  bp_has_banned_ip :: bool
  bp_time_of_ban :: rstring

record MutedPlayer =
  mp_uuid :: rstring
  mp_voice_muted :: bool
  mp_text_muted :: bool
  mp_time_of_mute :: rstring

record ModerationState =
  ms_banned_players :: "BannedPlayer list"
  ms_muted_players :: "MutedPlayer list"
  ms_whitelist :: "rstring list"
  ms_blacklist :: "rstring list"

text \<open>The events of the XML reader: element names, whether text is blank, anything else.\<close>

datatype xml_event = XStart rstring | XEmpty rstring | XEnd | XText bool | XEof | XOther | XMalformed

record 'x moderation_env =
  me_parse_uuid :: "rstring \<Rightarrow> rstring option"
  me_parse_ip :: "rstring \<Rightarrow> IpAddr option"
  me_print_ip :: "IpAddr \<Rightarrow> rstring"
  me_events :: "'x \<Rightarrow> xml_event list"
  me_banned_of :: "'x \<Rightarrow> BannedPlayer list option"
  me_banned_xml :: "BannedPlayer list \<Rightarrow> 'x"
  me_muted_of :: "'x \<Rightarrow> MutedPlayer list option"
  me_muted_xml :: "MutedPlayer list \<Rightarrow> 'x"

datatype moderation_file = BannedFile | MutedFile | WhitelistFile | BlacklistFile

type_synonym disk = "moderation_file \<Rightarrow> bool"

record 'x moderation_files =
  mf_banned_players :: "'x option"
  mf_muted_players :: "'x option"
  mf_whitelist :: "rstring option"
  mf_legacy_whitelist :: "rstring option"
  mf_blacklist :: "rstring option"
  mf_legacy_blacklist :: "rstring option"

text \<open>\<open>ModerationLists\<close>; without files the lists live in memory only.\<close>

record 'x ModerationLists =
  ml_state :: ModerationState
  ml_files :: "'x moderation_files option"

section \<open>Canonical identities\<close>

definition normalize_identity :: "'x moderation_env \<Rightarrow> rstring \<Rightarrow> rstring" where
  "normalize_identity env identity = (case me_parse_uuid env identity of Some uuid \<Rightarrow> uuid | None \<Rightarrow> identity)"

definition normalize_ip :: "'x moderation_env \<Rightarrow> rstring \<Rightarrow> rstring" where
  "normalize_ip env ip =
     (case me_parse_ip env ip of
        Some (IpV4 octets) \<Rightarrow> me_print_ip env (IpV4 octets)
      | Some (IpV6 octets) \<Rightarrow>
          (case to_ipv4_mapped octets of
             Some mapped \<Rightarrow> me_print_ip env (IpV4 mapped)
           | None \<Rightarrow> me_print_ip env (IpV6 octets))
      | None \<Rightarrow> ip)"

definition same_restriction :: "'x moderation_env \<Rightarrow> BannedPlayer \<Rightarrow> BannedPlayer \<Rightarrow> bool" where
  "same_restriction env p other \<longleftrightarrow>
     bp_uuid p = bp_uuid other \<and>
     (me_parse_uuid env (bp_uuid p) = None \<or>
      bp_has_banned_ip p = bp_has_banned_ip other \<and> (\<not> bp_has_banned_ip p \<or> bp_banned_ip p = bp_banned_ip other))"

text \<open>\<open>iter_mut().find(..)\<close> followed by an assignment or a push.\<close>

fun upsert_by :: "('a \<Rightarrow> bool) \<Rightarrow> 'a \<Rightarrow> 'a list \<Rightarrow> 'a list" where
  "upsert_by matches x [] = [x]"
| "upsert_by matches x (y # ys) = (if matches y then x # ys else y # upsert_by matches x ys)"

section \<open>Queries\<close>

definition is_uuid_banned :: "'x moderation_env \<Rightarrow> rstring \<Rightarrow> 'x ModerationLists \<Rightarrow> bool" where
  "is_uuid_banned env uuid m = list_ex (\<lambda>p. bp_uuid p = normalize_identity env uuid) (ms_banned_players (ml_state m))"

definition is_ip_banned :: "'x moderation_env \<Rightarrow> rstring \<Rightarrow> 'x ModerationLists \<Rightarrow> bool" where
  "is_ip_banned env ip m = list_ex (\<lambda>p. bp_has_banned_ip p \<and> bp_banned_ip p = normalize_ip env ip) (ms_banned_players (ml_state m))"

definition is_whitelisted :: "'x moderation_env \<Rightarrow> rstring \<Rightarrow> 'x ModerationLists \<Rightarrow> bool" where
  "is_whitelisted env uuid m = list_ex (\<lambda>p. p = normalize_identity env uuid) (ms_whitelist (ml_state m))"

definition is_blacklisted :: "'x moderation_env \<Rightarrow> rstring \<Rightarrow> 'x ModerationLists \<Rightarrow> bool" where
  "is_blacklisted env uuid m = list_ex (\<lambda>p. p = normalize_identity env uuid) (ms_blacklist (ml_state m))"

definition mute_state :: "'x moderation_env \<Rightarrow> rstring \<Rightarrow> 'x ModerationLists \<Rightarrow> bool \<times> bool" where
  "mute_state env uuid m =
     (case find (\<lambda>p. mp_uuid p = normalize_identity env uuid) (ms_muted_players (ml_state m)) of
        Some p \<Rightarrow> (mp_voice_muted p, mp_text_muted p)
      | None \<Rightarrow> (False, False))"

section \<open>Line files\<close>

fun split_on :: "int \<Rightarrow> rstring \<Rightarrow> rstring list" where
  "split_on separator [] = [[]]"
| "split_on separator (c # cs) =
     (if c = separator then [] # split_on separator cs
      else case split_on separator cs of part # parts \<Rightarrow> (c # part) # parts | [] \<Rightarrow> [[c]])"

definition strip_cr :: "rstring \<Rightarrow> rstring" where
  "strip_cr line = (if line \<noteq> [] \<and> last line = 13 then butlast line else line)"

text \<open>\<open>str::lines\<close>: the part behind the last line feed is a line only if it is not empty.\<close>

definition lines_of :: "rstring \<Rightarrow> rstring list" where
  "lines_of text =
     (let parts = split_on 10 text
      in map strip_cr (butlast parts) @ (if last parts = [] then [] else [last parts]))"

definition strip_bom :: "rstring \<Rightarrow> rstring" where
  "strip_bom text = (case text of c # rest \<Rightarrow> if c = 0xFEFF then rest else text | [] \<Rightarrow> [])"

definition read_line_list :: "rstring \<Rightarrow> rstring list" where
  "read_line_list text = remdups_adj (sort (filter (\<lambda>v. v \<noteq> []) (map trim (lines_of (strip_bom text)))))"

definition read_line_list_with_fallback :: "rstring option \<Rightarrow> rstring option \<Rightarrow> rstring list" where
  "read_line_list_with_fallback path legacy =
     (case path of
        Some text \<Rightarrow> read_line_list text
      | None \<Rightarrow> (case legacy of Some text \<Rightarrow> read_line_list text | None \<Rightarrow> []))"

definition line_list_text :: "rstring list \<Rightarrow> rstring" where
  "line_list_text values = concat (map (\<lambda>v. v @ [10]) (filter (\<lambda>v. trim v \<noteq> []) values))"

section \<open>XML files\<close>

text \<open>The scan of \<open>read_xml\<close> for one root element of the given name; then the file is decoded.\<close>

fun scan_root :: "rstring \<Rightarrow> xml_event list \<Rightarrow> bool \<Rightarrow> nat \<Rightarrow> bool" where
  "scan_root root [] root_seen depth = False"
| "scan_root root (event # events) root_seen depth =
     (case event of
        XStart name \<Rightarrow> if depth = 0 \<and> (root_seen \<or> name \<noteq> root) then False else scan_root root events True (depth + 1)
      | XEmpty name \<Rightarrow>
          if depth = 0 then (if root_seen \<or> name \<noteq> root then False else scan_root root events True depth)
          else scan_root root events root_seen depth
      | XEnd \<Rightarrow> if depth = 0 then False else scan_root root events root_seen (depth - 1)
      | XText blank \<Rightarrow> if depth = 0 \<and> \<not> blank then False else scan_root root events root_seen depth
      | XEof \<Rightarrow> root_seen \<and> depth = 0
      | XOther \<Rightarrow> scan_root root events root_seen depth
      | XMalformed \<Rightarrow> False)"

definition read_xml :: "('x \<Rightarrow> xml_event list) \<Rightarrow> ('x \<Rightarrow> 'a list option) \<Rightarrow> rstring \<Rightarrow> 'x option \<Rightarrow> 'a list option" where
  "read_xml events decode root path =
     (case path of
        None \<Rightarrow> Some []
      | Some xml \<Rightarrow> if scan_root root (events xml) False 0 then decode xml else None)"

section \<open>Reload\<close>

definition load_banned :: "'x moderation_env \<Rightarrow> BannedPlayer list \<Rightarrow> BannedPlayer list" where
  "load_banned env players =
     fold (\<lambda>player banned.
       let player = player\<lparr>bp_uuid := normalize_identity env (bp_uuid player)\<rparr>;
           player = (if bp_has_banned_ip player then player\<lparr>bp_banned_ip := normalize_ip env (bp_banned_ip player)\<rparr> else player)
       in upsert_by (\<lambda>p. same_restriction env p player) player banned) players []"

text \<open>A record of an identity already listed is merged into it for UUIDs and replaces it for other identities.\<close>

fun merge_mute :: "'x moderation_env \<Rightarrow> MutedPlayer \<Rightarrow> MutedPlayer list \<Rightarrow> MutedPlayer list" where
  "merge_mute env player [] = [player]"
| "merge_mute env player (p # ps) =
     (if mp_uuid p = mp_uuid player
      then (if me_parse_uuid env (mp_uuid player) \<noteq> None
            then p\<lparr>mp_voice_muted := mp_voice_muted p \<or> mp_voice_muted player, mp_text_muted := mp_text_muted p \<or> mp_text_muted player\<rparr>
            else player) # ps
      else p # merge_mute env player ps)"

definition load_muted :: "'x moderation_env \<Rightarrow> MutedPlayer list \<Rightarrow> MutedPlayer list" where
  "load_muted env players =
     fold (\<lambda>player muted.
       let player = player\<lparr>mp_uuid := normalize_identity env (mp_uuid player)\<rparr>
       in if mp_uuid player = [] \<or> \<not> (mp_voice_muted player \<or> mp_text_muted player) then muted
          else merge_mute env player muted) players []"

text \<open>Files that do not exist are created, one after the other until a write fails.\<close>

definition create_missing ::
  "'x moderation_env \<Rightarrow> disk \<Rightarrow> rstring list \<Rightarrow> rstring list \<Rightarrow> 'x moderation_files \<Rightarrow> bool \<times> 'x moderation_files" where
  "create_missing env disk whitelist blacklist files =
     (let create = (\<lambda>file missing write (ok, files).
             if \<not> ok \<or> \<not> missing files then (ok, files) else if disk file then (True, write files) else (False, files))
      in create BlacklistFile (\<lambda>f. mf_blacklist f = None) (\<lambda>f. f\<lparr>mf_blacklist := Some (line_list_text blacklist)\<rparr>)
        (create WhitelistFile (\<lambda>f. mf_whitelist f = None) (\<lambda>f. f\<lparr>mf_whitelist := Some (line_list_text whitelist)\<rparr>)
        (create MutedFile (\<lambda>f. mf_muted_players f = None) (\<lambda>f. f\<lparr>mf_muted_players := Some (me_muted_xml env [])\<rparr>)
        (create BannedFile (\<lambda>f. mf_banned_players f = None) (\<lambda>f. f\<lparr>mf_banned_players := Some (me_banned_xml env [])\<rparr>)
          (True, files)))))"

definition reload :: "'x moderation_env \<Rightarrow> disk \<Rightarrow> 'x ModerationLists \<Rightarrow> bool \<times> 'x ModerationLists" where
  "reload env disk m =
     (case ml_files m of
        None \<Rightarrow> (True, m)
      | Some files \<Rightarrow>
          (case read_xml (me_events env) (me_banned_of env) (lit ''ArrayOfBannedPlayer'') (mf_banned_players files) of
             None \<Rightarrow> (False, m)
           | Some banned \<Rightarrow>
               (case read_xml (me_events env) (me_muted_of env) (lit ''ArrayOfMutedPlayer'') (mf_muted_players files) of
                  None \<Rightarrow> (False, m)
                | Some muted \<Rightarrow>
                    let whitelist = map (normalize_identity env)
                          (read_line_list_with_fallback (mf_whitelist files) (mf_legacy_whitelist files));
                        blacklist = map (normalize_identity env)
                          (read_line_list_with_fallback (mf_blacklist files) (mf_legacy_blacklist files));
                        (ok, files) = create_missing env disk whitelist blacklist files
                    in if ok
                       then (True, m\<lparr>ml_state := \<lparr>ms_banned_players = load_banned env banned, ms_muted_players = load_muted env muted,
                               ms_whitelist = whitelist, ms_blacklist = blacklist\<rparr>, ml_files := Some files\<rparr>)
                       else (False, m\<lparr>ml_files := Some files\<rparr>))))"

section \<open>Changes\<close>

text \<open>The result of a change: an error, or whether anything changed.\<close>

type_synonym change_result = "unit + bool"

text \<open>A list is written before it takes effect; when the write fails nothing changes.\<close>

definition commit ::
  "disk \<Rightarrow> moderation_file \<Rightarrow> ('x moderation_files \<Rightarrow> 'x moderation_files) \<Rightarrow> (ModerationState \<Rightarrow> ModerationState) \<Rightarrow>
   'x ModerationLists \<Rightarrow> change_result \<times> 'x ModerationLists" where
  "commit disk file write update m =
     (case ml_files m of
        None \<Rightarrow> (Inr True, m\<lparr>ml_state := update (ml_state m)\<rparr>)
      | Some files \<Rightarrow>
          if disk file then (Inr True, m\<lparr>ml_state := update (ml_state m), ml_files := Some (write files)\<rparr>)
          else (Inl (), m))"

definition set_mute ::
  "'x moderation_env \<Rightarrow> disk \<Rightarrow> rstring \<Rightarrow> rstring \<Rightarrow> bool \<Rightarrow> bool \<Rightarrow> 'x ModerationLists \<Rightarrow> change_result \<times> 'x ModerationLists" where
  "set_mute env disk now uuid voice muted m =
     (if trim uuid = [] then (Inl (), m)
      else
        let uuid = normalize_identity env uuid;
            players = ms_muted_players (ml_state m);
            players = (if list_ex (\<lambda>p. mp_uuid p = uuid) players then players
                       else players @ [\<lparr>mp_uuid = uuid, mp_voice_muted = False, mp_text_muted = False, mp_time_of_mute = now\<rparr>]);
            index = length (takeWhile (\<lambda>p. mp_uuid p \<noteq> uuid) players);
            players = update_at index (\<lambda>p. if voice then p\<lparr>mp_voice_muted := muted\<rparr> else p\<lparr>mp_text_muted := muted\<rparr>) players;
            players = filter (\<lambda>p. mp_voice_muted p \<or> mp_text_muted p) players
        in commit disk MutedFile (\<lambda>f. f\<lparr>mf_muted_players := Some (me_muted_xml env players)\<rparr>)
             (\<lambda>s. s\<lparr>ms_muted_players := players\<rparr>) m)"

definition change_list ::
  "'x moderation_env \<Rightarrow> disk \<Rightarrow> rstring \<Rightarrow> bool \<Rightarrow> bool \<Rightarrow> 'x ModerationLists \<Rightarrow> change_result \<times> 'x ModerationLists" where
  "change_list env disk uuid whitelist add m =
     (if trim uuid = [] then (Inr False, m)
      else
        let uuid = normalize_identity env uuid;
            before = (if whitelist then ms_whitelist (ml_state m) else ms_blacklist (ml_state m));
            values = (if add then (if uuid \<in> set before then before else before @ [uuid]) else filter (\<lambda>p. p \<noteq> uuid) before)
        in if values = before then (Inr False, m)
           else if whitelist
             then commit disk WhitelistFile (\<lambda>f. f\<lparr>mf_whitelist := Some (line_list_text values)\<rparr>) (\<lambda>s. s\<lparr>ms_whitelist := values\<rparr>) m
             else commit disk BlacklistFile (\<lambda>f. f\<lparr>mf_blacklist := Some (line_list_text values)\<rparr>) (\<lambda>s. s\<lparr>ms_blacklist := values\<rparr>) m)"

definition change_bans ::
  "'x moderation_env \<Rightarrow> disk \<Rightarrow> (BannedPlayer list \<Rightarrow> bool \<times> BannedPlayer list) \<Rightarrow> 'x ModerationLists \<Rightarrow> change_result \<times> 'x ModerationLists" where
  "change_bans env disk change m =
     (case change (ms_banned_players (ml_state m)) of
        (False, _) \<Rightarrow> (Inr False, m)
      | (True, players) \<Rightarrow>
          commit disk BannedFile (\<lambda>f. f\<lparr>mf_banned_players := Some (me_banned_xml env players)\<rparr>) (\<lambda>s. s\<lparr>ms_banned_players := players\<rparr>) m)"

definition add_ban_with_details ::
  "'x moderation_env \<Rightarrow> disk \<Rightarrow> rstring \<Rightarrow> rstring \<Rightarrow> rstring \<Rightarrow> rstring option \<Rightarrow> 'x ModerationLists \<Rightarrow> change_result \<times> 'x ModerationLists" where
  "add_ban_with_details env disk now uuid reason banned_ip m =
     (let uuid = normalize_identity env uuid
      in if trim uuid = [] then (Inr False, m)
         else
           let ip = (case banned_ip of Some ip \<Rightarrow> normalize_ip env ip | None \<Rightarrow> []);
               player = \<lparr>bp_uuid = uuid, bp_banned_ip = ip, bp_reason = reason, bp_has_banned_ip = (trim ip \<noteq> []), bp_time_of_ban = now\<rparr>
           in change_bans env disk (\<lambda>players. (True, upsert_by (\<lambda>p. same_restriction env p player) player players)) m)"

definition remove_ban :: "'x moderation_env \<Rightarrow> disk \<Rightarrow> rstring \<Rightarrow> 'x ModerationLists \<Rightarrow> change_result \<times> 'x ModerationLists" where
  "remove_ban env disk uuid m =
     change_bans env disk (\<lambda>players.
       let kept = filter (\<lambda>p. bp_uuid p \<noteq> normalize_identity env uuid) players in (length players \<noteq> length kept, kept)) m"

definition add_ip_ban :: "'x moderation_env \<Rightarrow> disk \<Rightarrow> rstring \<Rightarrow> rstring \<Rightarrow> 'x ModerationLists \<Rightarrow> change_result \<times> 'x ModerationLists" where
  "add_ip_ban env disk now ip m =
     (let ip = normalize_ip env ip
      in if trim ip = [] then (Inr False, m)
         else add_ban_with_details env disk now (lit ''ip-ban:'' @ ip) (lit ''IP banned'') (Some ip) m)"

definition remove_ip_ban :: "'x moderation_env \<Rightarrow> disk \<Rightarrow> rstring \<Rightarrow> 'x ModerationLists \<Rightarrow> change_result \<times> 'x ModerationLists" where
  "remove_ip_ban env disk ip m =
     change_bans env disk (\<lambda>players.
       let kept = filter (\<lambda>p. \<not> (bp_has_banned_ip p \<and> bp_banned_ip p = normalize_ip env ip)) players
       in (length players \<noteq> length kept, kept)) m"

section \<open>Admission\<close>

datatype BasisUserRestrictionMode = Normal | BanList | AllowList | RejoinOnly

datatype rejection = Banned | NotOnWhitelist | OnBlacklist | ServerLocked

definition admission_rejection ::
  "upper \<Rightarrow> 'x moderation_env \<Rightarrow> BasisUserRestrictionMode \<Rightarrow> rstring set \<Rightarrow> permission_manager \<Rightarrow> 'x ModerationLists \<Rightarrow> rstring \<Rightarrow> rejection option" where
  "admission_rejection upper env mode rejoin_population permissions moderation uuid =
     (if is_uuid_banned env uuid moderation then Some Banned
      else if mode = AllowList \<and> \<not> is_whitelisted env uuid moderation then Some NotOnWhitelist
      else if mode = BanList \<and> is_blacklisted env uuid moderation then Some OnBlacklist
      else if mode = RejoinOnly \<and> uuid \<notin> rejoin_population \<and> \<not> has upper permissions uuid (lit ''basis.configuration'') then Some ServerLocked
      else None)"

end
