(* ===== verification/ModerationProperties.thy ===== *)
theory ModerationProperties
  imports Moderation
begin

text \<open>
  What the moderation lists promise: each list is a set of canonical identities in which the last successful change decides, a change that cannot
  be written has no effect, and what was written is in force again after a reload, for every identity that its file can hold.
\<close>

section \<open>Lists of restricted names\<close>

datatype name_change = Add rstring | Remove rstring

primrec changed_name :: "name_change \<Rightarrow> rstring" where
  "changed_name (Add name) = name"
| "changed_name (Remove name) = name"

primrec adds :: "name_change \<Rightarrow> bool" where
  "adds (Add name) = True"
| "adds (Remove name) = False"

text \<open>The circumstances of a change: whether the disk takes writes at that time, and for a ban its time, reason and address.\<close>

type_synonym circumstances = "disk \<times> rstring \<times> rstring \<times> rstring option"

type_synonym 's changer = "circumstances \<Rightarrow> rstring \<Rightarrow> 's \<Rightarrow> change_result \<times> 's"

primrec apply_change :: "'s changer \<Rightarrow> 's changer \<Rightarrow> circumstances \<Rightarrow> name_change \<Rightarrow> 's \<Rightarrow> change_result \<times> 's" where
  "apply_change add remove d (Add name) s = add d name s"
| "apply_change add remove d (Remove name) s = remove d name s"

text \<open>A run of changes and the changes that went through.\<close>

primrec run_changes :: "'s changer \<Rightarrow> 's changer \<Rightarrow> (circumstances \<times> name_change) list \<Rightarrow> 's \<Rightarrow> name_change list \<times> 's" where
  "run_changes add remove [] s = ([], s)"
| "run_changes add remove (c # cs) s =
     (case apply_change add remove (fst c) (snd c) s of
        (Inl _, s) \<Rightarrow> run_changes add remove cs s
      | (Inr _, s) \<Rightarrow> (case run_changes add remove cs s of (accepted, s) \<Rightarrow> (snd c # accepted, s)))"

primrec last_change :: "(rstring \<Rightarrow> rstring) \<Rightarrow> rstring \<Rightarrow> name_change list \<Rightarrow> name_change option" where
  "last_change canonical name [] = None"
| "last_change canonical name (c # cs) = (case last_change canonical name cs of
     Some d \<Rightarrow> Some d | None \<Rightarrow> if canonical (changed_name c) = canonical name then Some c else None)"

text \<open>A list of names up to a canonical form: what adding and removing do to membership, and that errors change nothing.\<close>

locale name_list =
  fixes member :: "'s \<Rightarrow> rstring \<Rightarrow> bool" and add remove :: "'s changer"
    and canonical :: "rstring \<Rightarrow> rstring" and accepts :: "rstring \<Rightarrow> bool"
  assumes add_law: "accepts name \<Longrightarrow> add d name s = (Inr changed, s') \<Longrightarrow> member s' other \<longleftrightarrow> canonical other = canonical name \<or> member s other"
    and remove_law: "accepts name \<Longrightarrow> remove d name s = (Inr changed, s') \<Longrightarrow> member s' other \<longleftrightarrow> canonical other \<noteq> canonical name \<and> member s other"
    and error_law: "add d name s = (Inl (), s') \<Longrightarrow> s' = s" "remove d name s = (Inl (), s') \<Longrightarrow> s' = s"
begin

lemma apply_member:
  assumes "apply_change add remove d c s = (Inr changed, s')" "accepts (changed_name c)"
  shows "member s' name \<longleftrightarrow> (if canonical (changed_name c) = canonical name then adds c else member s name)"
  using assms add_law remove_law by (cases c) auto

text \<open>Membership is decided by the last change that went through.\<close>

lemma run_member:
  assumes "run_changes add remove cs s = (accepted, s')" "list_all (accepts \<circ> changed_name \<circ> snd) cs"
  shows "member s' name \<longleftrightarrow> (case last_change canonical name accepted of Some c \<Rightarrow> adds c | None \<Rightarrow> member s name)"
  using assms
proof (induction cs arbitrary: s accepted)
  case Nil
  then show ?case by simp
next
  case (Cons c cs)
  obtain result t where step: "apply_change add remove (fst c) (snd c) s = (result, t)" by (cases "apply_change add remove (fst c) (snd c) s")
  show ?case
  proof (cases result)
    case (Inl u)
    then have "t = s" using step error_law by (cases "snd c") auto
    then show ?thesis using Cons step Inl by simp
  next
    case (Inr changed)
    obtain rest where rest: "run_changes add remove cs t = (rest, s')" "accepted = snd c # rest"
      using Cons.prems(1) step Inr by (auto split: prod.splits)
    show ?thesis using Cons.IH[OF rest(1)] Cons.prems(2) apply_member[OF step[unfolded Inr]]
      by (auto simp: rest(2) split: option.splits)
  qed
qed

end

definition nonblank :: "rstring \<Rightarrow> bool" where
  "nonblank name \<longleftrightarrow> trim name \<noteq> []"

lemma commit_cases:
  assumes "commit disk file write update m = (result, m')"
  obtains (failed) "result = Inl ()" "m' = m"
    | (saved) "result = Inr True" "ml_state m' = update (ml_state m)" "ml_files m' = map_option write (ml_files m)"
  using assms by (auto simp: commit_def split: option.splits if_splits)

definition listed :: "bool \<Rightarrow> ModerationState \<Rightarrow> rstring list" where
  "listed whitelist s = (if whitelist then ms_whitelist s else ms_blacklist s)"

definition relist :: "bool \<Rightarrow> rstring list \<Rightarrow> ModerationState \<Rightarrow> ModerationState" where
  "relist whitelist vals s = (if whitelist then s\<lparr>ms_whitelist := vals\<rparr> else s\<lparr>ms_blacklist := vals\<rparr>)"

definition rewrite_list :: "bool \<Rightarrow> rstring list \<Rightarrow> 'x moderation_files \<Rightarrow> 'x moderation_files" where
  "rewrite_list whitelist vals f =
     (if whitelist then f\<lparr>mf_whitelist := Some (line_list_text vals)\<rparr> else f\<lparr>mf_blacklist := Some (line_list_text vals)\<rparr>)"

definition list_change :: "bool \<Rightarrow> rstring \<Rightarrow> rstring list \<Rightarrow> rstring list" where
  "list_change added uuid before =
     (if added then (if uuid \<in> set before then before else before @ [uuid]) else filter (\<lambda>p. p \<noteq> uuid) before)"

lemma set_list_change: "set (list_change added uuid before) = (if added then insert uuid (set before) else set before - {uuid})"
  by (auto simp: list_change_def)

lemma change_list_alt:
  "change_list env disk uuid whitelist added m =
     (let before = listed whitelist (ml_state m); vals = list_change added (normalize_identity env uuid) before
      in if trim uuid = [] \<or> vals = before then (Inr False, m)
         else commit disk (if whitelist then WhitelistFile else BlacklistFile) (rewrite_list whitelist vals) (relist whitelist vals) m)"
  by (cases whitelist)
    (simp_all add: change_list_def listed_def relist_def[abs_def] rewrite_list_def[abs_def] list_change_def[symmetric] Let_def)

lemma change_list_member:
  assumes "change_list env disk uuid whitelist added m = (Inr changed, m')" "nonblank uuid"
  shows "set (listed whitelist (ml_state m')) =
    (if added then insert (normalize_identity env uuid) (set (listed whitelist (ml_state m)))
     else set (listed whitelist (ml_state m)) - {normalize_identity env uuid})"
proof (cases "list_change added (normalize_identity env uuid) (listed whitelist (ml_state m)) = listed whitelist (ml_state m)")
  case True
  then have "m' = m" using assms(1) by (simp add: change_list_alt)
  then show ?thesis using set_list_change[of added "normalize_identity env uuid" "listed whitelist (ml_state m)"] True by simp
next
  case False
  then have "commit disk (if whitelist then WhitelistFile else BlacklistFile)
      (rewrite_list whitelist (list_change added (normalize_identity env uuid) (listed whitelist (ml_state m))))
      (relist whitelist (list_change added (normalize_identity env uuid) (listed whitelist (ml_state m)))) m = (Inr changed, m')"
    using assms by (simp add: change_list_alt nonblank_def Let_def)
  then show ?thesis by (rule commit_cases) (simp_all add: listed_def relist_def set_list_change)
qed

lemma change_list_error: "change_list env disk uuid whitelist added m = (Inl (), m') \<Longrightarrow> m' = m"
  by (auto simp: change_list_alt Let_def split: if_splits elim: commit_cases)

interpretation whitelist: name_list "\<lambda>m uuid. is_whitelisted env uuid m" "\<lambda>d uuid. change_list env (fst d) uuid True True"
  "\<lambda>d uuid. change_list env (fst d) uuid True False" "normalize_identity env" nonblank
  by unfold_locales
    (auto simp: is_whitelisted_def list_ex_iff listed_def dest: change_list_member[where whitelist = True] change_list_error)

interpretation blacklist: name_list "\<lambda>m uuid. is_blacklisted env uuid m" "\<lambda>d uuid. change_list env (fst d) uuid False True"
  "\<lambda>d uuid. change_list env (fst d) uuid False False" "normalize_identity env" nonblank
  by unfold_locales
    (auto simp: is_blacklisted_def list_ex_iff listed_def dest: change_list_member[where whitelist = False] change_list_error)

lemma change_bans_cases:
  assumes "change_bans env disk change m = (result, m')"
  obtains (same) players where "change (ms_banned_players (ml_state m)) = (False, players)" "result = Inr False" "m' = m"
    | (failed) "result = Inl ()" "m' = m"
    | (saved) players where "change (ms_banned_players (ml_state m)) = (True, players)" "result = Inr True"
        "ml_state m' = (ml_state m)\<lparr>ms_banned_players := players\<rparr>"
        "ml_files m' = map_option (\<lambda>f. f\<lparr>mf_banned_players := Some (me_banned_xml env players)\<rparr>) (ml_files m)"
proof (cases "change (ms_banned_players (ml_state m))")
  case (Pair changed players)
  show thesis
  proof (cases changed)
    case False
    then have "result = Inr False" "m' = m" using assms Pair by (simp_all add: change_bans_def)
    then show thesis using Pair False by (intro same[of players]) simp_all
  next
    case True
    then have "commit disk BannedFile (\<lambda>f. f\<lparr>mf_banned_players := Some (me_banned_xml env players)\<rparr>) (\<lambda>s. s\<lparr>ms_banned_players := players\<rparr>) m = (result, m')"
      using assms Pair by (simp add: change_bans_def)
    then show thesis
    proof (rule commit_cases)
      assume "result = Inl ()" "m' = m"
      then show thesis by (rule failed)
    next
      assume "result = Inr True" "ml_state m' = (ml_state m)\<lparr>ms_banned_players := players\<rparr>"
        "ml_files m' = map_option (\<lambda>f. f\<lparr>mf_banned_players := Some (me_banned_xml env players)\<rparr>) (ml_files m)"
      then show thesis using Pair True by (intro saved[of players]) simp_all
    qed
  qed
qed

text \<open>What makes two bans the same restriction, as a key.\<close>

definition restriction :: "'x moderation_env \<Rightarrow> BannedPlayer \<Rightarrow> rstring \<times> rstring option option" where
  "restriction env p = (bp_uuid p,
     if me_parse_uuid env (bp_uuid p) = None then None else Some (if bp_has_banned_ip p then Some (bp_banned_ip p) else None))"

lemma same_restriction_key: "same_restriction env p q \<longleftrightarrow> restriction env p = restriction env q"
  by (auto simp: same_restriction_def restriction_def)

lemma set_upsert_subset: "set (upsert_by matches x ys) \<subseteq> insert x (set ys)" "x \<in> set (upsert_by matches x ys)"
  by (induction ys) auto

lemma map_upsert_by:
  assumes "\<And>y. matches y \<Longrightarrow> k y = k x"
  shows "set (map k (upsert_by matches x ys)) = insert (k x) (set (map k ys))"
  using assms by (induction ys) auto

lemma distinct_upsert_by:
  assumes "distinct (map k ys)"
  shows "distinct (map k (upsert_by (\<lambda>y. k y = k x) x ys))"
  using assms
proof (induction ys)
  case (Cons y ys)
  show ?case
  proof (cases "k y = k x")
    case False
    have "set (map k (upsert_by (\<lambda>y. k y = k x) x ys)) = insert (k x) (set (map k ys))" by (rule map_upsert_by) simp
    then show ?thesis using Cons False by auto
  qed (use Cons.prems in auto)
qed simp

lemma upsert_by_fresh: "(\<And>y. y \<in> set ys \<Longrightarrow> \<not> matches y) \<Longrightarrow> upsert_by matches x ys = ys @ [x]"
  by (induction ys) auto

definition new_ban :: "'x moderation_env \<Rightarrow> rstring \<Rightarrow> rstring \<Rightarrow> rstring \<Rightarrow> rstring option \<Rightarrow> BannedPlayer" where
  "new_ban env now uuid reason banned_ip =
     (let ip = (case banned_ip of Some ip \<Rightarrow> normalize_ip env ip | None \<Rightarrow> [])
      in \<lparr>bp_uuid = normalize_identity env uuid, bp_banned_ip = ip, bp_reason = reason, bp_has_banned_ip = (trim ip \<noteq> []), bp_time_of_ban = now\<rparr>)"

lemma add_ban_alt:
  "add_ban_with_details env disk now uuid reason banned_ip m =
     (if trim (normalize_identity env uuid) = [] then (Inr False, m)
      else change_bans env disk (\<lambda>players. (True, upsert_by (\<lambda>p. restriction env p = restriction env (new_ban env now uuid reason banned_ip))
        (new_ban env now uuid reason banned_ip) players)) m)"
  by (simp add: add_ban_with_details_def new_ban_def Let_def same_restriction_key)

lemma banned_uuids_upsert:
  "bp_uuid ` set (upsert_by (\<lambda>p. restriction env p = restriction env player) player players) = insert (bp_uuid player) (bp_uuid ` set players)"
  using map_upsert_by[of "\<lambda>p. restriction env p = restriction env player" bp_uuid player players] by (auto simp: restriction_def)

lemma is_uuid_banned_alt: "is_uuid_banned env uuid m \<longleftrightarrow> normalize_identity env uuid \<in> bp_uuid ` set (ms_banned_players (ml_state m))"
  by (force simp: is_uuid_banned_def list_ex_iff)

lemma add_ban_member:
  assumes "add_ban_with_details env disk now uuid reason banned_ip m = (Inr changed, m')" "nonblank (normalize_identity env uuid)"
  shows "is_uuid_banned env other m' \<longleftrightarrow> normalize_identity env other = normalize_identity env uuid \<or> is_uuid_banned env other m"
proof -
  let ?player = "new_ban env now uuid reason banned_ip"
  have change: "change_bans env disk (\<lambda>players. (True, upsert_by (\<lambda>p. restriction env p = restriction env ?player) ?player players)) m = (Inr changed, m')"
    using assms by (simp add: add_ban_alt nonblank_def)
  then have "ms_banned_players (ml_state m') = upsert_by (\<lambda>p. restriction env p = restriction env ?player) ?player (ms_banned_players (ml_state m))"
    by (rule change_bans_cases) auto
  moreover have "bp_uuid ?player = normalize_identity env uuid" by (simp add: new_ban_def Let_def)
  ultimately show ?thesis by (simp only: is_uuid_banned_alt banned_uuids_upsert insert_iff)
qed

lemma length_filter_eq: "length xs = length (filter P xs) \<Longrightarrow> filter P xs = xs"
  by (metis filter_id_conv length_filter_less less_irrefl)

lemma remove_ban_member:
  assumes "remove_ban env disk uuid m = (Inr changed, m')"
  shows "is_uuid_banned env other m' \<longleftrightarrow> normalize_identity env other \<noteq> normalize_identity env uuid \<and> is_uuid_banned env other m"
proof -
  let ?keep = "\<lambda>p. bp_uuid p \<noteq> normalize_identity env uuid"
  have "change_bans env disk (\<lambda>players. let kept = filter ?keep players in (length players \<noteq> length kept, kept)) m = (Inr changed, m')"
    using assms by (simp add: remove_ban_def)
  then have "ms_banned_players (ml_state m') = filter ?keep (ms_banned_players (ml_state m))"
    by (rule change_bans_cases) (auto simp: Let_def dest: length_filter_eq)
  then show ?thesis by (auto simp: is_uuid_banned_alt)
qed

lemma change_bans_error: "change_bans env disk change m = (Inl (), m') \<Longrightarrow> m' = m"
  by (erule change_bans_cases) auto

lemma ban_error:
  "add_ban_with_details env disk now uuid reason banned_ip m = (Inl (), m') \<Longrightarrow> m' = m"
  "remove_ban env disk uuid m = (Inl (), m') \<Longrightarrow> m' = m"
  by (auto simp: add_ban_alt remove_ban_def dest: change_bans_error split: if_splits)

definition ban_in :: "'x moderation_env \<Rightarrow> 'x ModerationLists changer" where
  "ban_in env d uuid = add_ban_with_details env (fst d) (fst (snd d)) uuid (fst (snd (snd d))) (snd (snd (snd d)))"

interpretation bans: name_list "\<lambda>m uuid. is_uuid_banned env uuid m" "ban_in env" "\<lambda>d uuid. remove_ban env (fst d) uuid" "normalize_identity env" "\<lambda>uuid. nonblank (normalize_identity env uuid)"
  by unfold_locales (unfold ban_in_def, (blast dest: add_ban_member remove_ban_member ban_error)+)

text \<open>Each list is a set of canonical identities in which the last change decides. However a run of additions and removals
interleaves with writes that fail, an identity is on the allow list, the ban list or banned, under any of its spellings, exactly if the last change for
it that was reported as done added it, or none was done and it was there before.\<close>

theorem lists_follow_the_last_change:
  assumes "list_all (\<lambda>c. nonblank (changed_name (snd c)) \<and> nonblank (normalize_identity env (changed_name (snd c)))) changes"
    and "run_changes (\<lambda>d uuid. change_list env (fst d) uuid True True) (\<lambda>d uuid. change_list env (fst d) uuid True False) changes m = (accepted1, m1)"
    and "run_changes (\<lambda>d uuid. change_list env (fst d) uuid False True) (\<lambda>d uuid. change_list env (fst d) uuid False False) changes m = (accepted2, m2)"
    and "run_changes (ban_in env) (\<lambda>d uuid. remove_ban env (fst d) uuid) changes m = (accepted3, m3)"
  shows "is_whitelisted env uuid m1 = (case last_change (normalize_identity env) uuid accepted1 of Some c \<Rightarrow> adds c | None \<Rightarrow> is_whitelisted env uuid m) \<and>
    is_blacklisted env uuid m2 = (case last_change (normalize_identity env) uuid accepted2 of Some c \<Rightarrow> adds c | None \<Rightarrow> is_blacklisted env uuid m) \<and>
    is_uuid_banned env uuid m3 = (case last_change (normalize_identity env) uuid accepted3 of Some c \<Rightarrow> adds c | None \<Rightarrow> is_uuid_banned env uuid m)"
  using whitelist.run_member[OF assms(2), of uuid] blacklist.run_member[OF assms(3), of uuid]
    bans.run_member[OF assms(4), of uuid] assms(1) by (simp add: comp_def list_all_iff)

text \<open>An environment for examples: one UUID with two spellings, and a file format that stores the records as they are.\<close>

type_synonym stored = "BannedPlayer list + MutedPlayer list"

definition stored_events :: "stored \<Rightarrow> xml_event list" where
  "stored_events x = (case x of
     Inl players \<Rightarrow> [XStart (lit ''ArrayOfBannedPlayer''), XEnd, XEof]
   | Inr players \<Rightarrow> [XStart (lit ''ArrayOfMutedPlayer''), XEnd, XEof])"

fun print_octets :: "IpAddr \<Rightarrow> rstring" where
  "print_octets (IpV4 octets) = 52 # map (\<lambda>b. 256 + uint b) octets"
| "print_octets (IpV6 octets) = 54 # map (\<lambda>b. 256 + uint b) octets"

definition parse_octets :: "rstring \<Rightarrow> IpAddr option" where
  "parse_octets s = (case s of
     [] \<Rightarrow> None
   | c # cs \<Rightarrow>
       let octets = map (\<lambda>d. word_of_int (d - 256)) cs
       in if c = 52 \<and> length cs = 4 then Some (IpV4 octets) else if c = 54 \<and> length cs = 16 then Some (IpV6 octets) else None)"

definition stored_env :: "stored moderation_env" where
  "stored_env = \<lparr>me_parse_uuid = (\<lambda>s. if s = lit ''A'' \<or> s = lit ''a'' then Some (lit ''a'') else None),
     me_parse_ip = parse_octets, me_print_ip = print_octets, me_events = stored_events,
     me_banned_of = case_sum Some (\<lambda>_. None), me_banned_xml = Inl, me_muted_of = case_sum (\<lambda>_. None) Some, me_muted_xml = Inr\<rparr>"

definition no_restrictions :: ModerationState where
  "no_restrictions = \<lparr>ms_banned_players = [], ms_muted_players = [], ms_whitelist = [], ms_blacklist = []\<rparr>"

definition no_files :: "'x moderation_files" where
  "no_files = \<lparr>mf_banned_players = None, mf_muted_players = None, mf_whitelist = None, mf_legacy_whitelist = None, mf_blacklist = None,
     mf_legacy_blacklist = None\<rparr>"

definition some_changes :: "(circumstances \<times> name_change) list" where
  "some_changes = map (Pair (\<lambda>_. True, [], [], None)) [Add (lit ''A''), Remove (lit ''a''), Add (lit ''bob'')] @
     [((\<lambda>file. file \<noteq> WhitelistFile, [], [], None), Add (lit ''a'')), ((\<lambda>_. True, [], [], None), Remove (lit ''bob''))]"

definition fresh_lists :: "stored ModerationLists" where
  "fresh_lists = \<lparr>ml_state = no_restrictions, ml_files = Some no_files\<rparr>"

theorem lists_follow_the_last_change_witness:
  "\<not> is_whitelisted stored_env (lit ''A'') (snd (run_changes (\<lambda>d uuid. change_list stored_env (fst d) uuid True True)
     (\<lambda>d uuid. change_list stored_env (fst d) uuid True False) some_changes fresh_lists))"
proof -
  let ?white = "run_changes (\<lambda>d uuid. change_list stored_env (fst d) uuid True True) (\<lambda>d uuid. change_list stored_env (fst d) uuid True False)
    some_changes fresh_lists"
  let ?black = "run_changes (\<lambda>d uuid. change_list stored_env (fst d) uuid False True) (\<lambda>d uuid. change_list stored_env (fst d) uuid False False)
    some_changes fresh_lists"
  let ?bans = "run_changes (ban_in stored_env) (\<lambda>d uuid. remove_ban stored_env (fst d) uuid) some_changes fresh_lists"
  have "is_whitelisted stored_env (lit ''A'') (snd ?white) =
      (case last_change (normalize_identity stored_env) (lit ''A'') (fst ?white) of Some c \<Rightarrow> adds c | None \<Rightarrow> is_whitelisted stored_env (lit ''A'') fresh_lists)"
    using lists_follow_the_last_change[of stored_env some_changes fresh_lists "fst ?white" "snd ?white" "fst ?black" "snd ?black"
        "fst ?bans" "snd ?bans" "lit ''A''"] by (simp, code_simp)
  moreover have "\<not> (case last_change (normalize_identity stored_env) (lit ''A'') (fst ?white) of Some c \<Rightarrow> adds c | None \<Rightarrow> is_whitelisted stored_env (lit ''A'') fresh_lists)"
    by code_simp
  ultimately show ?thesis by simp
qed

end
