(* ===== verification/ModerationRestart.thy ===== *)
theory ModerationRestart
  imports ModerationProperties PermissionProperties
begin

text \<open>
  Persistence of the moderation lists: what is in force before a restart is in force after it. The crates for XML, UUIDs and addresses are
  assumed to behave as documented (\<open>env_ok\<close>): canonical forms are stable, and records whose texts survive XML are read back as written.
\<close>

section \<open>Texts that survive their file\<close>

text \<open>No control characters, and no white space at the ends, which readers of XML text and of lines strip.\<close>

definition file_text :: "rstring \<Rightarrow> bool" where
  "file_text s \<longleftrightarrow> trim s = s \<and> list_all (\<lambda>c. 32 \<le> c) s"

definition plain_identity :: "rstring \<Rightarrow> bool" where
  "plain_identity s \<longleftrightarrow> file_text s \<and> s \<noteq> [] \<and> hd s \<noteq> 0xFEFF"

definition ban_text :: "BannedPlayer \<Rightarrow> bool" where
  "ban_text p \<longleftrightarrow> file_text (bp_uuid p) \<and> file_text (bp_banned_ip p) \<and> file_text (bp_reason p) \<and> file_text (bp_time_of_ban p)"

definition mute_text :: "MutedPlayer \<Rightarrow> bool" where
  "mute_text p \<longleftrightarrow> file_text (mp_uuid p) \<and> file_text (mp_time_of_mute p)"

definition env_ok :: "'x moderation_env \<Rightarrow> bool" where
  "env_ok env \<longleftrightarrow>
     (\<forall>s uuid. me_parse_uuid env s = Some uuid \<longrightarrow> me_parse_uuid env uuid = Some uuid \<and> plain_identity uuid) \<and>
     (\<forall>s ip. me_parse_ip env s = Some ip \<longrightarrow> ip_wf ip) \<and>
     (\<forall>ip. ip_wf ip \<longrightarrow> me_parse_ip env (me_print_ip env ip) = Some ip \<and> file_text (me_print_ip env ip)) \<and>
     (\<forall>players. list_all ban_text players \<longrightarrow> me_banned_of env (me_banned_xml env players) = Some players \<and>
        scan_root (lit ''ArrayOfBannedPlayer'') (me_events env (me_banned_xml env players)) False 0) \<and>
     (\<forall>players. list_all mute_text players \<longrightarrow> me_muted_of env (me_muted_xml env players) = Some players \<and>
        scan_root (lit ''ArrayOfMutedPlayer'') (me_events env (me_muted_xml env players)) False 0)"

lemma env_okD:
  assumes "env_ok env"
  shows "me_parse_uuid env s = Some uuid \<Longrightarrow> me_parse_uuid env uuid = Some uuid"
    and "me_parse_uuid env s = Some uuid \<Longrightarrow> plain_identity uuid"
    and "me_parse_ip env s = Some ip \<Longrightarrow> ip_wf ip"
    and "ip_wf ip \<Longrightarrow> me_parse_ip env (me_print_ip env ip) = Some ip"
    and "ip_wf ip \<Longrightarrow> file_text (me_print_ip env ip)"
    and "list_all ban_text bans \<Longrightarrow>
      read_xml (me_events env) (me_banned_of env) (lit ''ArrayOfBannedPlayer'') (Some (me_banned_xml env bans)) = Some bans"
    and "list_all mute_text mutes \<Longrightarrow>
      read_xml (me_events env) (me_muted_of env) (lit ''ArrayOfMutedPlayer'') (Some (me_muted_xml env mutes)) = Some mutes"
  using assms by (auto simp: env_ok_def read_xml_def)

lemma normalize_identity_stable: "env_ok env \<Longrightarrow> normalize_identity env (normalize_identity env s) = normalize_identity env s"
  by (auto simp: normalize_identity_def env_okD(1) split: option.splits dest: env_okD(1))

lemma normalize_identity_plain: "env_ok env \<Longrightarrow> plain_identity s \<Longrightarrow> plain_identity (normalize_identity env s)"
  by (auto simp: normalize_identity_def dest: env_okD(2) split: option.splits)

lemma to_ipv4_mapped_wf: "to_ipv4_mapped octets = Some v4 \<Longrightarrow> ip_wf (IpV6 octets) \<Longrightarrow> ip_wf (IpV4 v4)"
  by (auto simp: to_ipv4_mapped_def split: if_splits)

text \<open>An address has one text, that of its canonical form.\<close>

lemma normalize_ip_canonical:
  "normalize_ip env s = (case me_parse_ip env s of Some ip \<Rightarrow> me_print_ip env (to_canonical ip) | None \<Rightarrow> s)"
  by (auto simp: normalize_ip_def split: option.splits IpAddr.splits)

lemma to_canonical_stable: "to_canonical (to_canonical ip) = to_canonical ip"
  by (cases ip) (auto split: option.splits)

lemma to_canonical_wf: "ip_wf ip \<Longrightarrow> ip_wf (to_canonical ip)"
  by (cases ip) (auto split: option.splits dest: to_ipv4_mapped_wf)

lemma normalize_ip_stable: "env_ok env \<Longrightarrow> normalize_ip env (normalize_ip env s) = normalize_ip env s"
proof (cases "me_parse_ip env s")
  case (Some ip)
  assume "env_ok env"
  then have "me_parse_ip env (me_print_ip env (to_canonical ip)) = Some (to_canonical ip)"
    using Some by (blast intro: env_okD(4) to_canonical_wf dest: env_okD(3))
  then show ?thesis using Some by (simp add: normalize_ip_canonical to_canonical_stable)
qed (simp add: normalize_ip_canonical)

lemma normalize_ip_text: "env_ok env \<Longrightarrow> file_text s \<Longrightarrow> file_text (normalize_ip env s)"
  by (auto simp: normalize_ip_canonical split: option.splits intro: env_okD(5) to_canonical_wf dest: env_okD(3))

section \<open>Line files\<close>

lemma split_on_nonempty: "split_on c s \<noteq> []"
  by (induction s) (auto split: list.splits)

lemma split_on_line: "c \<notin> set line \<Longrightarrow> split_on c (line @ c # rest) = line # split_on c rest"
  by (induction line) auto

lemma split_on_lines:
  assumes "list_all (\<lambda>line. 10 \<notin> set line) lines"
  shows "split_on 10 (concat (map (\<lambda>line. line @ [10]) lines)) = lines @ [[]]"
  using assms by (induction lines) (auto simp: split_on_line)

lemma lines_of_concat: "list_all (\<lambda>line. 10 \<notin> set line) lines \<Longrightarrow> lines_of (concat (map (\<lambda>line. line @ [10]) lines)) = map strip_cr lines"
  by (simp add: lines_of_def split_on_lines)

lemma plain_facts:
  assumes "plain_identity s"
  shows "trim s = s" "s \<noteq> []" "hd s \<noteq> 0xFEFF" "10 \<notin> set s" "strip_cr s = s"
proof -
  have printable: "list_all (\<lambda>c. 32 \<le> c) s" using assms by (simp add: plain_identity_def file_text_def)
  then show "10 \<notin> set s" by (auto simp: list_all_iff)
  show "strip_cr s = s" using printable by (force simp: strip_cr_def list_all_iff dest: last_in_set)
qed (use assms in \<open>auto simp: plain_identity_def file_text_def\<close>)

text \<open>A list of identities is read back from its file, as a set.\<close>

lemma read_written_list:
  assumes "list_all plain_identity names"
  shows "set (read_line_list (line_list_text names)) = set names"
proof -
  have kept: "filter (\<lambda>v. trim v \<noteq> []) names = names" using assms by (auto simp: list_all_iff filter_id_conv plain_facts)
  have joined: "line_list_text names = concat (map (\<lambda>v. v @ [10]) names)" by (simp add: line_list_text_def kept)
  have bom: "strip_bom (line_list_text names) = line_list_text names"
    unfolding joined using assms by (cases names; cases "hd names") (auto simp: strip_bom_def plain_identity_def)
  have "lines_of (line_list_text names) = map strip_cr names"
    unfolding joined using assms by (intro lines_of_concat) (auto simp: list_all_iff plain_facts)
  also have "map strip_cr names = names" using assms by (intro map_idI) (auto simp: list_all_iff plain_facts)
  finally have read: "map trim (lines_of (strip_bom (line_list_text names))) = names"
    unfolding bom using assms by (simp add: map_idI list_all_iff plain_facts)
  show ?thesis unfolding read_line_list_def read using assms by (auto simp: list_all_iff plain_facts)
qed

section \<open>Records in the form in which they are loaded\<close>

definition canonical_ban :: "'x moderation_env \<Rightarrow> BannedPlayer \<Rightarrow> bool" where
  "canonical_ban env p \<longleftrightarrow> normalize_identity env (bp_uuid p) = bp_uuid p \<and> (bp_has_banned_ip p \<longrightarrow> normalize_ip env (bp_banned_ip p) = bp_banned_ip p)"

definition bans_ok :: "'x moderation_env \<Rightarrow> BannedPlayer list \<Rightarrow> bool" where
  "bans_ok env players \<longleftrightarrow> list_all (canonical_ban env) players \<and> distinct (map (restriction env) players)"

definition canonical_mute :: "'x moderation_env \<Rightarrow> MutedPlayer \<Rightarrow> bool" where
  "canonical_mute env p \<longleftrightarrow> normalize_identity env (mp_uuid p) = mp_uuid p \<and> mp_uuid p \<noteq> [] \<and> (mp_voice_muted p \<or> mp_text_muted p)"

definition mutes_ok :: "'x moderation_env \<Rightarrow> MutedPlayer list \<Rightarrow> bool" where
  "mutes_ok env players \<longleftrightarrow> list_all (canonical_mute env) players \<and> distinct (map mp_uuid players)"

lemma bans_ok_upsert:
  assumes "bans_ok env players" "canonical_ban env player"
  shows "bans_ok env (upsert_by (\<lambda>p. restriction env p = restriction env player) player players)"
proof -
  have "set (upsert_by (\<lambda>p. restriction env p = restriction env player) player players) \<subseteq> insert player (set players)" by (rule set_upsert_subset)
  then show ?thesis using assms distinct_upsert_by[of "restriction env" players player] by (auto simp: bans_ok_def list_all_iff)
qed

lemma bans_ok_filter: "bans_ok env players \<Longrightarrow> bans_ok env (filter P players)"
  by (auto simp: bans_ok_def list_all_iff distinct_map_filter)

definition loaded_ban :: "'x moderation_env \<Rightarrow> BannedPlayer \<Rightarrow> BannedPlayer" where
  "loaded_ban env player =
     (let player = player\<lparr>bp_uuid := normalize_identity env (bp_uuid player)\<rparr>
      in if bp_has_banned_ip player then player\<lparr>bp_banned_ip := normalize_ip env (bp_banned_ip player)\<rparr> else player)"

lemma load_banned_alt:
  "load_banned env players =
     fold (\<lambda>player. upsert_by (\<lambda>p. restriction env p = restriction env (loaded_ban env player)) (loaded_ban env player)) players []"
  by (simp add: load_banned_def loaded_ban_def Let_def same_restriction_key)

lemma loaded_ban_canonical: "env_ok env \<Longrightarrow> canonical_ban env (loaded_ban env player)"
  by (simp add: canonical_ban_def loaded_ban_def Let_def normalize_identity_stable normalize_ip_stable)

lemma loaded_ban_id: "canonical_ban env player \<Longrightarrow> loaded_ban env player = player"
  by (cases player) (auto simp: canonical_ban_def loaded_ban_def Let_def)

lemma load_banned_ok: "env_ok env \<Longrightarrow> bans_ok env (load_banned env players)"
proof -
  assume env: "env_ok env"
  have "bans_ok env banned \<Longrightarrow> bans_ok env (fold (\<lambda>player. upsert_by (\<lambda>p. restriction env p = restriction env (loaded_ban env player))
      (loaded_ban env player)) players banned)" for banned
    by (induction players arbitrary: banned) (auto intro!: bans_ok_upsert loaded_ban_canonical env)
  then show ?thesis by (simp add: load_banned_alt bans_ok_def)
qed

lemma load_banned_id: "bans_ok env players \<Longrightarrow> load_banned env players = players"
proof -
  have "bans_ok env (banned @ players) \<Longrightarrow> fold (\<lambda>player. upsert_by (\<lambda>p. restriction env p = restriction env (loaded_ban env player))
      (loaded_ban env player)) players banned = banned @ players" for banned
  proof (induction players arbitrary: banned)
    case (Cons player players)
    have "restriction env player \<notin> restriction env ` set banned" using Cons.prems by (simp add: bans_ok_def)
    then have "upsert_by (\<lambda>p. restriction env p = restriction env player) player banned = banned @ [player]"
      by (intro upsert_by_fresh) (metis imageI)
    moreover have "loaded_ban env player = player" using Cons.prems by (auto simp: bans_ok_def intro: loaded_ban_id)
    ultimately show ?case using Cons.IH[of "banned @ [player]"] Cons.prems by simp
  qed simp
  from this[of "[]"] show "bans_ok env players \<Longrightarrow> load_banned env players = players" by (simp add: load_banned_alt)
qed

lemma merge_mute_fresh: "mp_uuid player \<notin> mp_uuid ` set players \<Longrightarrow> merge_mute env player players = players @ [player]"
  by (induction players) auto

lemma mutes_ok_merge:
  assumes "mutes_ok env players" "canonical_mute env player"
  shows "mutes_ok env (merge_mute env player players) \<and> mp_uuid ` set (merge_mute env player players) = insert (mp_uuid player) (mp_uuid ` set players)"
  using assms
proof (induction players)
  case (Cons p players)
  then have "mutes_ok env players" by (simp add: mutes_ok_def)
  with Cons show ?case by (auto simp: mutes_ok_def canonical_mute_def)
qed (simp add: mutes_ok_def)

definition loaded_mute :: "'x moderation_env \<Rightarrow> MutedPlayer \<Rightarrow> MutedPlayer" where
  "loaded_mute env player = player\<lparr>mp_uuid := normalize_identity env (mp_uuid player)\<rparr>"

lemma load_muted_alt:
  "env_ok env \<Longrightarrow> load_muted env players =
     fold (\<lambda>player muted. if canonical_mute env (loaded_mute env player) then merge_mute env (loaded_mute env player) muted else muted) players []"
  unfolding load_muted_def
  by (rule fold_cong) (auto simp: fun_eq_iff Let_def loaded_mute_def canonical_mute_def normalize_identity_stable)

lemma load_muted_ok: "env_ok env \<Longrightarrow> mutes_ok env (load_muted env players)"
proof -
  have "mutes_ok env muted \<Longrightarrow> mutes_ok env (fold (\<lambda>player muted. if canonical_mute env (loaded_mute env player)
      then merge_mute env (loaded_mute env player) muted else muted) players muted)" for muted
    by (induction players arbitrary: muted) (auto simp: mutes_ok_merge)
  then show "env_ok env \<Longrightarrow> ?thesis" by (simp add: load_muted_alt mutes_ok_def)
qed

lemma load_muted_id: "env_ok env \<Longrightarrow> mutes_ok env players \<Longrightarrow> load_muted env players = players"
proof -
  have "mutes_ok env (muted @ players) \<Longrightarrow> fold (\<lambda>player muted. if canonical_mute env (loaded_mute env player)
      then merge_mute env (loaded_mute env player) muted else muted) players muted = muted @ players" for muted
  proof (induction players arbitrary: muted)
    case (Cons player players)
    have "loaded_mute env player = player" "canonical_mute env player"
      using Cons.prems by (auto simp: mutes_ok_def canonical_mute_def loaded_mute_def)
    moreover have "merge_mute env player muted = muted @ [player]" using Cons.prems by (intro merge_mute_fresh) (auto simp: mutes_ok_def)
    ultimately show ?case using Cons.IH[of "muted @ [player]"] Cons.prems by simp
  qed simp
  from this[of "[]"] show "env_ok env \<Longrightarrow> mutes_ok env players \<Longrightarrow> ?thesis" by (simp add: load_muted_alt)
qed

section \<open>Files in step with the state\<close>

definition canonical_names :: "'x moderation_env \<Rightarrow> rstring list \<Rightarrow> bool" where
  "canonical_names env names \<longleftrightarrow> list_all (\<lambda>s. normalize_identity env s = s) names"

text \<open>All texts of the state survive their file.\<close>

definition storable :: "ModerationState \<Rightarrow> bool" where
  "storable s \<longleftrightarrow> list_all ban_text (ms_banned_players s) \<and> list_all mute_text (ms_muted_players s) \<and>
     list_all plain_identity (ms_whitelist s) \<and> list_all plain_identity (ms_blacklist s)"

text \<open>The state is in canonical form, every file exists, and each list is what loading its file gives.\<close>

definition saved_bans :: "'x moderation_env \<Rightarrow> 'x option \<Rightarrow> BannedPlayer list \<Rightarrow> bool" where
  "saved_bans env xml players \<longleftrightarrow> bans_ok env players \<and> xml \<noteq> None \<and>
     (\<exists>stored. read_xml (me_events env) (me_banned_of env) (lit ''ArrayOfBannedPlayer'') xml = Some stored \<and> load_banned env stored = players)"

definition saved_mutes :: "'x moderation_env \<Rightarrow> 'x option \<Rightarrow> MutedPlayer list \<Rightarrow> bool" where
  "saved_mutes env xml players \<longleftrightarrow> mutes_ok env players \<and> xml \<noteq> None \<and>
     (\<exists>stored. read_xml (me_events env) (me_muted_of env) (lit ''ArrayOfMutedPlayer'') xml = Some stored \<and> load_muted env stored = players)"

definition saved_names :: "'x moderation_env \<Rightarrow> rstring option \<Rightarrow> rstring list \<Rightarrow> bool" where
  "saved_names env text names \<longleftrightarrow> canonical_names env names \<and>
     (\<exists>content. text = Some content \<and> normalize_identity env ` set (read_line_list content) = set names)"

definition in_step :: "'x moderation_env \<Rightarrow> 'x ModerationLists \<Rightarrow> bool" where
  "in_step env m \<longleftrightarrow> (\<exists>files. ml_files m = Some files \<and> saved_bans env (mf_banned_players files) (ms_banned_players (ml_state m)) \<and>
     saved_mutes env (mf_muted_players files) (ms_muted_players (ml_state m)) \<and>
     saved_names env (mf_whitelist files) (ms_whitelist (ml_state m)) \<and> saved_names env (mf_blacklist files) (ms_blacklist (ml_state m)))"

lemma saved_written:
  assumes "env_ok env"
  shows "bans_ok env bans \<Longrightarrow> list_all ban_text bans \<Longrightarrow> saved_bans env (Some (me_banned_xml env bans)) bans"
    and "mutes_ok env mutes \<Longrightarrow> list_all mute_text mutes \<Longrightarrow> saved_mutes env (Some (me_muted_xml env mutes)) mutes"
    and "canonical_names env names \<Longrightarrow> list_all plain_identity names \<Longrightarrow> saved_names env (Some (line_list_text names)) names"
  using assms by (auto simp: saved_bans_def saved_mutes_def saved_names_def env_okD(6,7) load_banned_id load_muted_id read_written_list
      canonical_names_def list_all_iff)

lemma canonical_names_load: "env_ok env \<Longrightarrow> canonical_names env (map (normalize_identity env) names)"
  by (simp add: canonical_names_def list_all_iff normalize_identity_stable)

text \<open>With every file in place a reload writes nothing and loads the lists that are in step.\<close>

definition same_restrictions :: "ModerationState \<Rightarrow> ModerationState \<Rightarrow> bool" where
  "same_restrictions s t \<longleftrightarrow> ms_banned_players s = ms_banned_players t \<and> ms_muted_players s = ms_muted_players t \<and>
     set (ms_whitelist s) = set (ms_whitelist t) \<and> set (ms_blacklist s) = set (ms_blacklist t)"

lemma reload_in_step:
  assumes "in_step env m" "env_ok env"
  obtains m' where "reload env disk \<lparr>ml_state = s, ml_files = ml_files m\<rparr> = (True, m')" "same_restrictions (ml_state m') (ml_state m)" "in_step env m'"
    "ml_files m' = ml_files m"
proof -
  obtain files bans mutes white black where files: "ml_files m = Some files"
    and xml: "read_xml (me_events env) (me_banned_of env) (lit ''ArrayOfBannedPlayer'') (mf_banned_players files) = Some bans"
      "read_xml (me_events env) (me_muted_of env) (lit ''ArrayOfMutedPlayer'') (mf_muted_players files) = Some mutes"
      "load_banned env bans = ms_banned_players (ml_state m)" "load_muted env mutes = ms_muted_players (ml_state m)"
    and present: "mf_banned_players files \<noteq> None" "mf_muted_players files \<noteq> None"
      "mf_whitelist files = Some white" "mf_blacklist files = Some black"
    and names: "normalize_identity env ` set (read_line_list white) = set (ms_whitelist (ml_state m))"
      "normalize_identity env ` set (read_line_list black) = set (ms_blacklist (ml_state m))"
    using assms(1) by (auto simp: in_step_def saved_bans_def saved_mutes_def saved_names_def)
  let ?m' = "\<lparr>ml_state = \<lparr>ms_banned_players = load_banned env bans, ms_muted_players = load_muted env mutes,
    ms_whitelist = map (normalize_identity env) (read_line_list white), ms_blacklist = map (normalize_identity env) (read_line_list black)\<rparr>, ml_files = Some files\<rparr>"
  have "reload env disk \<lparr>ml_state = s, ml_files = ml_files m\<rparr> = (True, ?m')"
    using files xml(1,2) present by (simp add: reload_def create_missing_def Let_def read_line_list_with_fallback_def)
  moreover have "same_restrictions (ml_state ?m') (ml_state m)" using xml(3,4) names by (simp add: same_restrictions_def)
  moreover have "in_step env ?m'" using assms files present names
    by (auto simp: in_step_def saved_names_def xml(3,4) canonical_names_load)
  ultimately show thesis using files by (intro that[of ?m']) simp_all
qed

lemma reload_starts_in_step:
  assumes "reload env disk \<lparr>ml_state = s, ml_files = Some files\<rparr> = (True, m)" "env_ok env" "storable (ml_state m)"
  shows "in_step env m"
proof -
  let ?white = "map (normalize_identity env) (read_line_list_with_fallback (mf_whitelist files) (mf_legacy_whitelist files))"
  let ?black = "map (normalize_identity env) (read_line_list_with_fallback (mf_blacklist files) (mf_legacy_blacklist files))"
  obtain bans mutes files' where xml:
      "read_xml (me_events env) (me_banned_of env) (lit ''ArrayOfBannedPlayer'') (mf_banned_players files) = Some bans"
      "read_xml (me_events env) (me_muted_of env) (lit ''ArrayOfMutedPlayer'') (mf_muted_players files) = Some mutes"
    and created: "create_missing env disk ?white ?black files = (True, files')"
    and m: "m = \<lparr>ml_state = \<lparr>ms_banned_players = load_banned env bans, ms_muted_players = load_muted env mutes, ms_whitelist = ?white, ms_blacklist = ?black\<rparr>,
      ml_files = Some files'\<rparr>"
    using assms(1) by (auto simp: reload_def Let_def split: option.splits if_splits prod.splits)
  have bans: "mf_banned_players files' = (case mf_banned_players files of None \<Rightarrow> Some (me_banned_xml env []) | Some xml \<Rightarrow> Some xml)"
    and mutes: "mf_muted_players files' = (case mf_muted_players files of None \<Rightarrow> Some (me_muted_xml env []) | Some xml \<Rightarrow> Some xml)"
    and white: "mf_whitelist files' = (case mf_whitelist files of None \<Rightarrow> Some (line_list_text ?white) | Some text \<Rightarrow> Some text)"
    and black: "mf_blacklist files' = (case mf_blacklist files of None \<Rightarrow> Some (line_list_text ?black) | Some text \<Rightarrow> Some text)"
    using created unfolding create_missing_def Let_def by (auto split: if_splits option.splits)
  have "saved_bans env (mf_banned_players files') (load_banned env bans)"
  proof (cases "mf_banned_players files")
    case None
    then have "bans = []" using xml(1) by (simp add: read_xml_def)
    then show ?thesis using saved_written(1)[OF assms(2), of "[]"] None by (simp add: bans bans_ok_def load_banned_def)
  next
    case (Some xml)
    then show ?thesis using xml(1) load_banned_ok[OF assms(2)] by (simp add: bans saved_bans_def)
  qed
  moreover have "saved_mutes env (mf_muted_players files') (load_muted env mutes)"
  proof (cases "mf_muted_players files")
    case None
    then have "mutes = []" using xml(2) by (simp add: read_xml_def)
    then show ?thesis using saved_written(2)[OF assms(2), of "[]"] None by (simp add: mutes mutes_ok_def load_muted_def)
  next
    case (Some xml)
    then show ?thesis using xml(2) load_muted_ok[OF assms(2)] by (simp add: mutes saved_mutes_def)
  qed
  moreover have "saved_names env (mf_whitelist files') ?white"
    using saved_written(3)[OF assms(2) canonical_names_load[OF assms(2)]] assms(3) canonical_names_load[OF assms(2)]
    by (cases "mf_whitelist files") (auto simp: white saved_names_def storable_def m read_line_list_with_fallback_def)
  moreover have "saved_names env (mf_blacklist files') ?black"
    using saved_written(3)[OF assms(2) canonical_names_load[OF assms(2)]] assms(3) canonical_names_load[OF assms(2)]
    by (cases "mf_blacklist files") (auto simp: black saved_names_def storable_def m read_line_list_with_fallback_def)
  ultimately show ?thesis by (simp add: in_step_def m)
qed

section \<open>Changes keep the files in step\<close>

lemma trim_id: "trim s = s \<longleftrightarrow> s = [] \<or> \<not> is_whitespace (hd s) \<and> \<not> is_whitespace (last s)"
proof (cases s)
  case (Cons c cs)
  show ?thesis
  proof (cases "is_whitespace c")
    case True
    have "length (trim s) \<le> length (dropWhile is_whitespace s)" using length_dropWhile_le[of is_whitespace "rev (dropWhile is_whitespace s)"] by (simp add: trim_def)
    also have "\<dots> < length s" using True Cons length_dropWhile_le[of is_whitespace cs] by simp
    finally show ?thesis using True Cons by auto
  next
    case False
    then have "trim s = s \<longleftrightarrow> dropWhile is_whitespace (rev s) = rev s" using Cons by (simp add: trim_def)
    also have "\<dots> \<longleftrightarrow> \<not> is_whitespace (last s)" using Cons by (simp add: dropWhile_eq_self_iff hd_rev)
    finally show ?thesis using Cons False by simp
  qed
qed (simp add: trim_def)

lemma file_text_append: "file_text s \<Longrightarrow> file_text t \<Longrightarrow> s \<noteq> [] \<Longrightarrow> t \<noteq> [] \<Longrightarrow> file_text (s @ t)"
  by (auto simp: file_text_def trim_id)

lemma file_text_Nil [simp]: "file_text []"
  by (simp add: file_text_def trim_def)

lemma file_text_normalize: "env_ok env \<Longrightarrow> file_text s \<Longrightarrow> file_text (normalize_identity env s)"
  by (auto simp: normalize_identity_def dest: env_okD(2) simp: plain_identity_def split: option.splits)

lemma change_bans_in_step:
  assumes "change_bans env disk change m = (result, m')" "in_step env m" "storable (ml_state m)" "env_ok env"
    and ok: "\<And>players changed players'. change players = (changed, players') \<Longrightarrow> bans_ok env players \<Longrightarrow> list_all ban_text players \<Longrightarrow>
      bans_ok env players' \<and> list_all ban_text players'"
  shows "in_step env m' \<and> storable (ml_state m')"
  using assms(1)
proof (rule change_bans_cases)
  fix players assume new: "change (ms_banned_players (ml_state m)) = (True, players)"
    and state: "ml_state m' = (ml_state m)\<lparr>ms_banned_players := players\<rparr>"
    and files: "ml_files m' = map_option (\<lambda>f. f\<lparr>mf_banned_players := Some (me_banned_xml env players)\<rparr>) (ml_files m)"
  have "bans_ok env players \<and> list_all ban_text players"
    using ok[OF new] assms(2,3) by (auto simp: in_step_def saved_bans_def storable_def)
  then have "saved_bans env (Some (me_banned_xml env players)) players" "list_all ban_text players" using saved_written(1)[OF assms(4)] by auto
  then show ?thesis using assms(2,3) by (auto simp: in_step_def storable_def state files)
qed (use assms in auto)

lemma change_list_in_step:
  assumes "change_list env disk uuid whitelist added m = (result, m')" "in_step env m" "storable (ml_state m)" "env_ok env" "plain_identity uuid"
  shows "in_step env m' \<and> storable (ml_state m')"
proof -
  let ?vals = "list_change added (normalize_identity env uuid) (listed whitelist (ml_state m))"
  have "canonical_names env ?vals" "list_all plain_identity ?vals"
    using assms(2,3) normalize_identity_stable[OF assms(4)] normalize_identity_plain[OF assms(4,5)]
    by (auto simp: list_all_iff set_list_change canonical_names_def in_step_def saved_names_def storable_def listed_def)
  then have saved: "saved_names env (Some (line_list_text ?vals)) ?vals" and plain: "list_all plain_identity ?vals" using saved_written(3)[OF assms(4)] by auto
  consider "m' = m" | "commit disk (if whitelist then WhitelistFile else BlacklistFile) (rewrite_list whitelist ?vals) (relist whitelist ?vals) m = (result, m')"
    using assms(1) by (auto simp: change_list_alt Let_def split: if_splits)
  then show ?thesis
  proof cases
    case 2
    then show ?thesis
    proof (rule commit_cases)
      assume "ml_state m' = relist whitelist ?vals (ml_state m)" "ml_files m' = map_option (rewrite_list whitelist ?vals) (ml_files m)"
      then show ?thesis using assms(2,3) saved plain by (cases whitelist) (auto simp: in_step_def storable_def relist_def rewrite_list_def)
    qed (use assms in auto)
  qed (use assms in simp)
qed

definition mute_entry :: "bool \<Rightarrow> bool \<Rightarrow> MutedPlayer \<Rightarrow> MutedPlayer" where
  "mute_entry voice muted p = (if voice then p\<lparr>mp_voice_muted := muted\<rparr> else p\<lparr>mp_text_muted := muted\<rparr>)"

lemma mute_entry_simps [simp]: "mp_uuid (mute_entry voice muted p) = mp_uuid p" "mute_text (mute_entry voice muted p) = mute_text p"
  by (auto simp: mute_entry_def mute_text_def)

definition muted_after :: "rstring \<Rightarrow> rstring \<Rightarrow> bool \<Rightarrow> bool \<Rightarrow> MutedPlayer list \<Rightarrow> MutedPlayer list" where
  "muted_after now uuid voice muted players =
     (let players = (if list_ex (\<lambda>p. mp_uuid p = uuid) players then players
                     else players @ [\<lparr>mp_uuid = uuid, mp_voice_muted = False, mp_text_muted = False, mp_time_of_mute = now\<rparr>])
      in filter (\<lambda>p. mp_voice_muted p \<or> mp_text_muted p)
           (update_at (length (takeWhile (\<lambda>p. mp_uuid p \<noteq> uuid) players)) (mute_entry voice muted) players))"

lemma set_mute_alt:
  "set_mute env disk now uuid voice muted m =
     (if trim uuid = [] then (Inl (), m)
      else let players = muted_after now (normalize_identity env uuid) voice muted (ms_muted_players (ml_state m))
           in commit disk MutedFile (\<lambda>f. f\<lparr>mf_muted_players := Some (me_muted_xml env players)\<rparr>) (\<lambda>s. s\<lparr>ms_muted_players := players\<rparr>) m)"
  by (simp add: set_mute_def muted_after_def mute_entry_def[abs_def] Let_def)

lemma map_update_at: "(\<And>x. g (f x) = g x) \<Longrightarrow> map g (update_at i f xs) = map g xs"
  by (simp add: update_at_def map_update) (metis list_update_id nth_map)

lemma list_all_update_at: "(\<And>x. P (f x) = P x) \<Longrightarrow> list_all P (update_at i f xs) = list_all P xs"
  using map_update_at[of P f i xs] list.pred_map[of id P] by (metis id_comp)

lemma muted_after_ok:
  assumes "mutes_ok env players" "list_all mute_text players" "normalize_identity env uuid = uuid" "plain_identity uuid" "file_text now"
  shows "mutes_ok env (muted_after now uuid voice muted players) \<and> list_all mute_text (muted_after now uuid voice muted players)"
proof -
  define listed where "listed = (if list_ex (\<lambda>p. mp_uuid p = uuid) players then players
    else players @ [\<lparr>mp_uuid = uuid, mp_voice_muted = False, mp_text_muted = False, mp_time_of_mute = now\<rparr>])"
  let ?updated = "update_at (length (takeWhile (\<lambda>p. mp_uuid p \<noteq> uuid) listed)) (mute_entry voice muted) listed"
  let ?named = "\<lambda>p. normalize_identity env (mp_uuid p) = mp_uuid p \<and> mp_uuid p \<noteq> []"
  have "list_all ?named listed" "list_all mute_text listed" "distinct (map mp_uuid listed)"
    using assms by (auto simp: listed_def mutes_ok_def canonical_mute_def list_all_iff list_ex_iff mute_text_def plain_identity_def)
  then have "list_all ?named ?updated" "list_all mute_text ?updated" "distinct (map mp_uuid ?updated)"
    by (simp_all add: list_all_update_at map_update_at)
  moreover have "muted_after now uuid voice muted players = filter (\<lambda>p. mp_voice_muted p \<or> mp_text_muted p) ?updated"
    by (simp add: muted_after_def listed_def Let_def)
  ultimately show ?thesis by (auto simp: mutes_ok_def canonical_mute_def list_all_iff distinct_map_filter)
qed

lemma set_mute_in_step:
  assumes "set_mute env disk now uuid voice muted m = (result, m')" "in_step env m" "storable (ml_state m)" "env_ok env" "plain_identity uuid" "file_text now"
  shows "in_step env m' \<and> storable (ml_state m')"
proof -
  let ?players = "muted_after now (normalize_identity env uuid) voice muted (ms_muted_players (ml_state m))"
  have new: "mutes_ok env ?players \<and> list_all mute_text ?players"
    using assms by (intro muted_after_ok) (auto simp: in_step_def saved_mutes_def storable_def normalize_identity_stable normalize_identity_plain)
  then have saved: "saved_mutes env (Some (me_muted_xml env ?players)) ?players" using saved_written(2)[OF assms(4)] by blast
  have "commit disk MutedFile (\<lambda>f. f\<lparr>mf_muted_players := Some (me_muted_xml env ?players)\<rparr>) (\<lambda>s. s\<lparr>ms_muted_players := ?players\<rparr>) m = (result, m')"
    using assms(1,5) by (simp add: set_mute_alt Let_def plain_facts)
  then show ?thesis
  proof (rule commit_cases)
    assume "ml_state m' = (ml_state m)\<lparr>ms_muted_players := ?players\<rparr>"
      "ml_files m' = map_option (\<lambda>f. f\<lparr>mf_muted_players := Some (me_muted_xml env ?players)\<rparr>) (ml_files m)"
    then show ?thesis using assms(2,3) saved new by (auto simp: in_step_def storable_def)
  qed (use assms in auto)
qed

lemma add_ban_in_step:
  assumes "add_ban_with_details env disk now uuid reason banned_ip m = (result, m')" "in_step env m" "storable (ml_state m)" "env_ok env"
    and "file_text uuid" "file_text now" "file_text reason" "file_text (case banned_ip of Some ip \<Rightarrow> ip | None \<Rightarrow> [])"
  shows "in_step env m' \<and> storable (ml_state m')"
proof -
  let ?player = "new_ban env now uuid reason banned_ip"
  have player: "canonical_ban env ?player" "ban_text ?player"
    using assms(4-8) by (auto simp: canonical_ban_def ban_text_def new_ban_def Let_def normalize_identity_stable normalize_ip_stable file_text_normalize
        normalize_ip_text trim_def split: option.splits)
  show ?thesis
  proof (cases "trim (normalize_identity env uuid) = []")
    case False
    then have "change_bans env disk (\<lambda>players. (True, upsert_by (\<lambda>p. restriction env p = restriction env ?player) ?player players)) m = (result, m')"
      using assms(1) by (simp add: add_ban_alt)
    then show ?thesis
    proof (rule change_bans_in_step[OF _ assms(2-4)])
      fix players changed players'
      assume new: "(True, upsert_by (\<lambda>p. restriction env p = restriction env ?player) ?player players) = (changed, players')"
        and old: "bans_ok env players" "list_all ban_text players"
      have "set players' \<subseteq> insert ?player (set players)" using new set_upsert_subset(1)[of "\<lambda>p. restriction env p = restriction env ?player" ?player players] by simp
      then show "bans_ok env players' \<and> list_all ban_text players'" using new old player bans_ok_upsert[OF old(1) player(1)] by (auto simp: list_all_iff)
    qed
  qed (use assms in \<open>simp add: add_ban_alt\<close>)
qed

lemma filter_bans_in_step:
  assumes "change_bans env disk (\<lambda>players. let kept = filter keep players in (length players \<noteq> length kept, kept)) m = (result, m')"
    and "in_step env m" "storable (ml_state m)" "env_ok env"
  shows "in_step env m' \<and> storable (ml_state m')"
  using assms by (rule change_bans_in_step) (auto simp: Let_def bans_ok_filter list_all_iff)

lemma add_ip_ban_in_step:
  assumes "add_ip_ban env disk now ip m = (result, m')" "in_step env m" "storable (ml_state m)" "env_ok env" "file_text now" "file_text ip"
  shows "in_step env m' \<and> storable (ml_state m')"
proof (cases "trim (normalize_ip env ip) = []")
  case False
  have "file_text (lit ''ip-ban:'')" "file_text (lit ''IP banned'')" by code_simp+
  moreover have "file_text (normalize_ip env ip)" using assms by (simp add: normalize_ip_text)
  moreover have "normalize_ip env ip \<noteq> []" "lit ''ip-ban:'' \<noteq> []" using False by (auto simp: trim_def lit_def)
  ultimately show ?thesis using assms False
    by (intro add_ban_in_step[of env disk now "lit ''ip-ban:'' @ normalize_ip env ip" "lit ''IP banned''" "Some (normalize_ip env ip)" m result m'])
      (auto simp: add_ip_ban_def Let_def file_text_append)
qed (use assms in \<open>simp add: add_ip_ban_def Let_def\<close>)

section \<open>Runs\<close>

text \<open>What administrators and the server do with the lists; each change comes with the answer of the disk at that time.\<close>

datatype mod_op =
    Mute rstring rstring bool bool
  | Listing rstring bool bool
  | Ban rstring rstring rstring "rstring option"
  | Unban rstring
  | BanIp rstring rstring
  | UnbanIp rstring
  | Reload

primrec mod_apply :: "'x moderation_env \<Rightarrow> disk \<Rightarrow> mod_op \<Rightarrow> 'x ModerationLists \<Rightarrow> bool \<times> 'x ModerationLists" where
  "mod_apply env disk (Mute now uuid voice muted) m = apfst (\<lambda>r. r \<noteq> Inl ()) (set_mute env disk now uuid voice muted m)"
| "mod_apply env disk (Listing uuid whitelist added) m = apfst (\<lambda>r. r \<noteq> Inl ()) (change_list env disk uuid whitelist added m)"
| "mod_apply env disk (Ban now uuid reason banned_ip) m = apfst (\<lambda>r. r \<noteq> Inl ()) (add_ban_with_details env disk now uuid reason banned_ip m)"
| "mod_apply env disk (Unban uuid) m = apfst (\<lambda>r. r \<noteq> Inl ()) (remove_ban env disk uuid m)"
| "mod_apply env disk (BanIp now ip) m = apfst (\<lambda>r. r \<noteq> Inl ()) (add_ip_ban env disk now ip m)"
| "mod_apply env disk (UnbanIp ip) m = apfst (\<lambda>r. r \<noteq> Inl ()) (remove_ip_ban env disk ip m)"
| "mod_apply env disk Reload m = reload env disk m"

primrec op_text :: "mod_op \<Rightarrow> bool" where
  "op_text (Mute now uuid voice muted) \<longleftrightarrow> plain_identity uuid \<and> file_text now"
| "op_text (Listing uuid whitelist added) \<longleftrightarrow> plain_identity uuid"
| "op_text (Ban now uuid reason banned_ip) \<longleftrightarrow> file_text uuid \<and> file_text now \<and> file_text reason \<and>
     file_text (case banned_ip of Some ip \<Rightarrow> ip | None \<Rightarrow> [])"
| "op_text (Unban uuid) \<longleftrightarrow> True"
| "op_text (BanIp now ip) \<longleftrightarrow> file_text now \<and> file_text ip"
| "op_text (UnbanIp ip) \<longleftrightarrow> True"
| "op_text Reload \<longleftrightarrow> True"

definition mod_run :: "'x moderation_env \<Rightarrow> (disk \<times> mod_op) list \<Rightarrow> 'x ModerationLists \<Rightarrow> 'x ModerationLists" where
  "mod_run env steps m = fold (\<lambda>(disk, step) m. snd (mod_apply env disk step m)) steps m"

lemma same_restrictions_storable: "same_restrictions s t \<Longrightarrow> storable t \<Longrightarrow> storable s"
  by (simp add: same_restrictions_def storable_def list_all_iff)

lemma mod_apply_in_step:
  assumes "in_step env m" "storable (ml_state m)" "env_ok env" "op_text step"
  shows "in_step env (snd (mod_apply env disk step m)) \<and> storable (ml_state (snd (mod_apply env disk step m)))"
proof (cases step)
  case Reload
  obtain m' where "reload env disk m = (True, m')" "same_restrictions (ml_state m') (ml_state m)" "in_step env m'"
    using reload_in_step[OF assms(1,3), of disk "ml_state m"] by (metis ModerationLists.surjective old.unit.exhaust)
  then show ?thesis using Reload assms(2) same_restrictions_storable by auto
next
  case (Mute now uuid voice muted)
  then show ?thesis using set_mute_in_step[OF prod.collapse[symmetric] assms(1-3)] assms(4) by simp
next
  case (Listing uuid whitelist added)
  then show ?thesis using change_list_in_step[OF prod.collapse[symmetric] assms(1-3)] assms(4) by simp
next
  case (Ban now uuid reason banned_ip)
  then show ?thesis using add_ban_in_step[OF prod.collapse[symmetric] assms(1-3)] assms(4) by simp
next
  case (Unban uuid)
  then show ?thesis using filter_bans_in_step[OF prod.collapse[symmetric] assms(1-3)] by (simp add: remove_ban_def)
next
  case (BanIp now ip)
  then show ?thesis using add_ip_ban_in_step[OF prod.collapse[symmetric] assms(1-3)] assms(4) by simp
next
  case (UnbanIp ip)
  then show ?thesis using filter_bans_in_step[OF prod.collapse[symmetric] assms(1-3)] by (simp add: remove_ip_ban_def)
qed

lemma mod_run_in_step:
  assumes "in_step env m" "storable (ml_state m)" "env_ok env" "list_all (op_text \<circ> snd) steps"
  shows "in_step env (mod_run env steps m)"
  using assms
proof (induction steps arbitrary: m)
  case (Cons step steps)
  then show ?case using mod_apply_in_step[of env m "snd step" "fst step"] by (simp add: mod_run_def case_prod_beta)
qed (simp add: mod_run_def)

text \<open>C24. Restrictions survive a restart. Start the server on a directory, from nothing or from files of an earlier version, and let administrators ban, mute, list and
lift in any order, with writes failing at any time. If the texts involved have no control characters and no white space at their ends, a server started anew on the
files left behind loads without error and answers every question about bans of players and addresses, mutes and both lists as the old one did.\<close>

theorem restrictions_survive_restart:
  assumes "env_ok env" "reload env disk \<lparr>ml_state = no_restrictions, ml_files = Some files\<rparr> = (True, m)" "storable (ml_state m)"
    and "list_all (op_text \<circ> snd) steps"
  shows "\<exists>restarted. reload env disk' \<lparr>ml_state = no_restrictions, ml_files = ml_files (mod_run env steps m)\<rparr> = (True, restarted) \<and>
    (\<forall>name. is_uuid_banned env name restarted = is_uuid_banned env name (mod_run env steps m) \<and>
       is_ip_banned env name restarted = is_ip_banned env name (mod_run env steps m) \<and>
       is_whitelisted env name restarted = is_whitelisted env name (mod_run env steps m) \<and>
       is_blacklisted env name restarted = is_blacklisted env name (mod_run env steps m) \<and>
       mute_state env name restarted = mute_state env name (mod_run env steps m))"
proof -
  have "in_step env (mod_run env steps m)"
    using mod_run_in_step[OF reload_starts_in_step[OF assms(2,1,3)] assms(3,1,4)] .
  then obtain restarted where
    "reload env disk' \<lparr>ml_state = no_restrictions, ml_files = ml_files (mod_run env steps m)\<rparr> = (True, restarted)"
    and "same_restrictions (ml_state restarted) (ml_state (mod_run env steps m))"
    using reload_in_step[OF _ assms(1)] by metis
  then show ?thesis
    by (auto simp: is_uuid_banned_def is_ip_banned_def is_whitelisted_def is_blacklisted_def mute_state_def same_restrictions_def list_ex_iff)
qed

lemma print_octets_range: "c \<in> set (print_octets ip) \<Longrightarrow> (c = 52 \<or> c = 54 \<or> 256 \<le> c) \<and> c < 512"
proof (cases ip)
  case (IpV4 octets)
  assume "c \<in> set (print_octets ip)"
  then show ?thesis using IpV4 uint_lt2p[where 'a = 8] uint_ge_0[where 'a = 8] by auto
next
  case (IpV6 octets)
  assume "c \<in> set (print_octets ip)"
  then show ?thesis using IpV6 uint_lt2p[where 'a = 8] uint_ge_0[where 'a = 8] by auto
qed

lemma print_octets_text: "file_text (print_octets ip)"
proof -
  have "\<not> is_whitespace c \<and> 32 \<le> c" if "c \<in> set (print_octets ip)" for c
    using print_octets_range[OF that] by (auto simp: is_whitespace_def)
  moreover have "print_octets ip \<noteq> []" by (cases ip) auto
  ultimately show ?thesis by (simp add: file_text_def trim_id list_all_iff)
qed

lemma stored_env_ok: "env_ok stored_env"
proof -
  have "plain_identity (lit ''a'')" by code_simp
  moreover have "parse_octets (print_octets ip) = Some ip" if "ip_wf ip" for ip
    using that by (cases ip) (simp_all add: parse_octets_def Let_def comp_def)
  moreover have "ip_wf ip" if "parse_octets s = Some ip" for s ip
    using that by (auto simp: parse_octets_def Let_def split: list.splits if_splits)
  ultimately show ?thesis using print_octets_text unfolding env_ok_def stored_env_def stored_events_def by (auto split: if_splits)
qed

text \<open>A list of names from the time before the rename, a ban with an address, a mute, an entry that the disk refuses, and a lifted ban.\<close>

definition old_files :: "stored moderation_files" where
  "old_files = no_files\<lparr>mf_legacy_whitelist := Some (lit ''carol'' @ [13, 10] @ lit ''  A '')\<rparr>"

definition some_steps :: "(disk \<times> mod_op) list" where
  "some_steps = [(\<lambda>_. True, Ban (lit ''monday'') (lit ''A'') (lit ''spam'') None), (\<lambda>_. True, Mute (lit ''monday'') (lit ''bob'') True True),
     (\<lambda>_. False, Listing (lit ''carol'') True False), (\<lambda>_. True, Ban (lit ''monday'') (lit ''bob'') [] None), (\<lambda>_. True, Unban (lit ''bob''))]"

definition started :: "stored ModerationLists" where
  "started = snd (reload stored_env (\<lambda>_. True) \<lparr>ml_state = no_restrictions, ml_files = Some old_files\<rparr>)"

theorem restrictions_survive_restart_witness:
  "\<exists>restarted. reload stored_env (\<lambda>_. False) \<lparr>ml_state = no_restrictions, ml_files = ml_files (mod_run stored_env some_steps started)\<rparr> = (True, restarted) \<and>
    is_uuid_banned stored_env (lit ''A'') restarted \<and> \<not> is_uuid_banned stored_env (lit ''bob'') restarted \<and> is_whitelisted stored_env (lit ''carol'') restarted \<and>
    mute_state stored_env (lit ''bob'') restarted = (True, False)"
proof -
  have "reload stored_env (\<lambda>_. True) \<lparr>ml_state = no_restrictions, ml_files = Some old_files\<rparr> = (True, started)"
    unfolding started_def by (rule prod_eqI) (simp_all, code_simp)
  moreover have "storable (ml_state started)" "list_all (op_text \<circ> snd) some_steps" by code_simp+
  moreover have "is_uuid_banned stored_env (lit ''A'') (mod_run stored_env some_steps started)"
    "\<not> is_uuid_banned stored_env (lit ''bob'') (mod_run stored_env some_steps started)"
    "is_whitelisted stored_env (lit ''carol'') (mod_run stored_env some_steps started)"
    "mute_state stored_env (lit ''bob'') (mod_run stored_env some_steps started) = (True, False)" by code_simp+
  ultimately show ?thesis using restrictions_survive_restart[OF stored_env_ok, of "\<lambda>_. True" old_files started some_steps "\<lambda>_. False"] by metis
qed

section \<open>Failures\<close>

text \<open>Failures never lift or add a restriction. When a change reports an error neither the lists nor the files changed; when a reload reports an error, be it a file
that cannot be parsed or a disk that takes no write, every list is as it was.\<close>

theorem failures_keep_restrictions:
  assumes "mod_apply env disk step m = (False, m')"
  shows "ml_state m' = ml_state m \<and> (step \<noteq> Reload \<longrightarrow> ml_files m' = ml_files m)"
proof (cases step)
  case Reload
  then show ?thesis using assms by (auto simp: reload_def Let_def split: option.splits if_splits prod.splits)
next
  case (Mute now uuid voice muted)
  then have "set_mute env disk now uuid voice muted m = (Inl (), m')" using assms by (cases "set_mute env disk now uuid voice muted m") auto
  then show ?thesis by (auto simp: set_mute_alt Let_def commit_def split: if_splits option.splits)
next
  case (Listing uuid whitelist added)
  then have "change_list env disk uuid whitelist added m = (Inl (), m')" using assms by (cases "change_list env disk uuid whitelist added m") auto
  then show ?thesis using change_list_error by blast
next
  case (Ban now uuid reason banned_ip)
  then have "add_ban_with_details env disk now uuid reason banned_ip m = (Inl (), m')"
    using assms by (cases "add_ban_with_details env disk now uuid reason banned_ip m") auto
  then show ?thesis using ban_error(1) by blast
next
  case (Unban uuid)
  then have "remove_ban env disk uuid m = (Inl (), m')" using assms by (cases "remove_ban env disk uuid m") auto
  then show ?thesis using ban_error(2) by blast
next
  case (BanIp now ip)
  then have "add_ip_ban env disk now ip m = (Inl (), m')" using assms by (cases "add_ip_ban env disk now ip m") auto
  then show ?thesis by (auto simp: add_ip_ban_def Let_def split: if_splits dest: ban_error)
next
  case (UnbanIp ip)
  then have "remove_ip_ban env disk ip m = (Inl (), m')" using assms by (cases "remove_ip_ban env disk ip m") auto
  then show ?thesis by (auto simp: remove_ip_ban_def dest: change_bans_error)
qed

theorem failures_keep_restrictions_witness:
  "ml_state (snd (mod_apply stored_env (\<lambda>_. False) (Ban [] (lit ''bob'') [] None) started)) = ml_state started"
proof -
  have "mod_apply stored_env (\<lambda>_. False) (Ban [] (lit ''bob'') [] None) started = (False, snd (mod_apply stored_env (\<lambda>_. False) (Ban [] (lit ''bob'') [] None) started))"
    by (rule prod_eqI) (simp_all only: fst_conv snd_conv, code_simp)
  then show ?thesis using failures_keep_restrictions by blast
qed

section \<open>Admission\<close>

definition lifts :: "'x moderation_env \<Rightarrow> rstring \<Rightarrow> mod_op \<Rightarrow> bool" where
  "lifts env name step = (case step of Unban uuid \<Rightarrow> normalize_identity env uuid = normalize_identity env name | UnbanIp ip \<Rightarrow> True | _ \<Rightarrow> False)"

lemma add_ban_keeps:
  assumes "add_ban_with_details env disk now uuid reason banned_ip m = (result, m')" "is_uuid_banned env name m"
  shows "is_uuid_banned env name m'"
proof (cases result)
  case (Inl u)
  then show ?thesis using assms ban_error(1) by (cases u) blast
next
  case (Inr changed)
  then show ?thesis using assms add_ban_member[of env disk now uuid reason banned_ip m changed m']
    by (cases "nonblank (normalize_identity env uuid)") (auto simp: add_ban_alt nonblank_def)
qed

lemma mod_apply_keeps_ban:
  assumes "in_step env m" "env_ok env" "is_uuid_banned env name m" "\<not> lifts env name step"
  shows "is_uuid_banned env name (snd (mod_apply env disk step m))"
proof (cases step)
  case Reload
  obtain m' where "reload env disk m = (True, m')" "same_restrictions (ml_state m') (ml_state m)"
    using reload_in_step[OF assms(1,2), of disk "ml_state m"] by (metis ModerationLists.surjective old.unit.exhaust)
  then show ?thesis using Reload assms(3) by (simp add: is_uuid_banned_def same_restrictions_def)
next
  case (Mute now uuid voice muted)
  then show ?thesis using assms(3) by (auto simp: set_mute_alt commit_def Let_def is_uuid_banned_def split: option.splits)
next
  case (Listing uuid whitelist added)
  then show ?thesis using assms(3) by (auto simp: change_list_alt commit_def Let_def relist_def is_uuid_banned_def split: option.splits)
next
  case (Ban now uuid reason banned_ip)
  then show ?thesis using add_ban_keeps[OF prod.collapse[symmetric] assms(3)] by simp
next
  case (Unban uuid)
  obtain result m' where removed: "remove_ban env disk uuid m = (result, m')" by (cases "remove_ban env disk uuid m")
  have "is_uuid_banned env name m'"
  proof (cases result)
    case (Inl u)
    then show ?thesis using removed assms(3) ban_error(2) by (cases u) blast
  next
    case (Inr changed)
    then show ?thesis using removed remove_ban_member[of env disk uuid m changed m' name] assms(3,4) Unban by (auto simp: lifts_def)
  qed
  then show ?thesis using Unban removed by simp
next
  case (BanIp now ip)
  then show ?thesis using add_ban_keeps[OF prod.collapse[symmetric] assms(3)] assms(3) by (simp add: add_ip_ban_def Let_def)
qed (use assms(4) in \<open>simp add: lifts_def\<close>)

lemma mod_run_keeps_ban:
  assumes "in_step env m" "storable (ml_state m)" "env_ok env" "is_uuid_banned env name m"
    and "list_all (\<lambda>step. op_text (snd step) \<and> \<not> lifts env name (snd step)) steps"
  shows "is_uuid_banned env name (mod_run env steps m)"
  using assms
proof (induction steps arbitrary: m)
  case (Cons step steps)
  then show ?case using mod_apply_in_step[of env m "snd step" "fst step"] mod_apply_keeps_ban[of env m name "snd step" "fst step"]
    by (simp add: mod_run_def case_prod_beta)
qed (simp add: mod_run_def)

text \<open>C25. A banned player stays out. Once a ban was reported as done, the player is refused under every spelling of the identity, in every mode of the server and whatever
the other lists, the permissions and the population to rejoin are, through any later changes and reloads, whether or not the disk takes them, until that ban or
a ban of an address is lifted. Two conditions: the banned identity is not blank once trimmed (a ban of a blank identity is reported as done and bans nobody), and the texts that
the loaded lists hold and that the changes before the ban, the ban and the later changes name can be stored in the files, that is, they have no white space at an end and no control characters, and the
identities of mutes and lists are not empty and do not begin with a byte order mark (a ban of an identity with white space at an end is lost by a reload).\<close>

theorem banned_player_stays_out:
  assumes "env_ok env" "reload env disk \<lparr>ml_state = no_restrictions, ml_files = Some files\<rparr> = (True, m)" "storable (ml_state m)"
    and "list_all (op_text \<circ> snd) before" "op_text (Ban now uuid reason banned_ip)" "trim (normalize_identity env uuid) \<noteq> []"
    and "mod_apply env disk' (Ban now uuid reason banned_ip) (mod_run env before m) = (True, m')"
    and "list_all (\<lambda>step. op_text (snd step) \<and> \<not> lifts env name (snd step)) after"
    and "normalize_identity env name = normalize_identity env uuid"
  shows "admission_rejection upper env mode rejoin_population permissions (mod_run env after m') name = Some Banned"
proof -
  have start: "in_step env m" using reload_starts_in_step[OF assms(2,1,3)] .
  have steps: "in_step env (mod_run env before m) \<and> storable (ml_state (mod_run env before m))" using start assms(3,4)
  proof (induction before arbitrary: m)
    case (Cons step steps)
    then show ?case using mod_apply_in_step[OF _ _ assms(1), of m "snd step" "fst step"] by (simp add: mod_run_def case_prod_beta)
  qed (simp add: mod_run_def)
  obtain changed where banned: "add_ban_with_details env disk' now uuid reason banned_ip (mod_run env before m) = (Inr changed, m')"
    using assms(7) by (cases "add_ban_with_details env disk' now uuid reason banned_ip (mod_run env before m)"; cases "fst (add_ban_with_details env disk' now uuid reason banned_ip (mod_run env before m))") auto
  have "in_step env m'" "storable (ml_state m')" using mod_apply_in_step[of env "mod_run env before m" "Ban now uuid reason banned_ip" disk', unfolded assms(7) snd_conv] steps assms(1,5) by blast+
  moreover have "is_uuid_banned env name m'" using add_ban_member[OF banned] assms(6,9) by (simp add: nonblank_def)
  ultimately have "is_uuid_banned env name (mod_run env after m')" using mod_run_keeps_ban assms(1,8) by blast
  then show ?thesis by (simp add: admission_rejection_def)
qed

section \<open>Identities that a line cannot hold\<close>

lemma last_dropWhile_same: "dropWhile P xs \<noteq> [] \<Longrightarrow> last (dropWhile P xs) = last xs"
  by (metis last_appendR takeWhile_dropWhile_id)

lemma trim_trim: "trim (trim s) = trim s"
proof (cases "trim s = []")
  case False
  let ?t = "dropWhile is_whitespace s"
  have t: "?t \<noteq> []" and d: "dropWhile is_whitespace (rev ?t) \<noteq> []" using False by (auto simp: trim_def simp del: dropWhile_eq_Nil_conv)
  have "hd (trim s) = hd ?t" using d by (simp add: trim_def hd_rev last_dropWhile_same last_rev)
  moreover have "last (trim s) = hd (dropWhile is_whitespace (rev ?t))" by (simp add: trim_def last_rev)
  ultimately show ?thesis using hd_dropWhile[OF t] hd_dropWhile[OF d] by (simp add: trim_id)
next
  case True
  show ?thesis by (simp only: True) (simp add: trim_def)
qed

lemma read_line_list_trimmed: "s \<in> set (read_line_list text) \<Longrightarrow> trim s = s"
  by (auto simp: read_line_list_def trim_trim)

text \<open>C37. An identity with white space at an end can be put on the allow list, takes effect, and is written to the file, but a server started on that file does not have it:
the list is stored untrimmed and read trimmed.\<close>

theorem padded_identity_is_forgotten:
  assumes "env_ok env" "me_parse_uuid env identity = None" "trim identity \<noteq> identity" "trim identity \<noteq> []"
    and "change_list env disk identity True True m = (Inr changed, m')" "ml_files m' = Some files"
    and "reload env disk' \<lparr>ml_state = no_restrictions, ml_files = Some files\<rparr> = (True, restarted)"
  shows "is_whitelisted env identity m' \<and> \<not> is_whitelisted env identity restarted"
proof -
  have self: "normalize_identity env identity = identity" using assms(2) by (simp add: normalize_identity_def)
  have "is_whitelisted env identity m'" using change_list_member[OF assms(5)] assms(4) self
    by (auto simp: is_whitelisted_def listed_def list_ex_iff nonblank_def)
  moreover have "trim name = name" if member: "name \<in> set (ms_whitelist (ml_state restarted))" for name
  proof -
    have "ms_whitelist (ml_state restarted) = map (normalize_identity env) (read_line_list_with_fallback (mf_whitelist files) (mf_legacy_whitelist files))"
      using assms(7) by (auto simp: reload_def Let_def split: option.splits if_splits prod.splits)
    moreover have "trim line = line" if "line \<in> set (read_line_list_with_fallback (mf_whitelist files) (mf_legacy_whitelist files))" for line
      using that by (auto simp: read_line_list_with_fallback_def read_line_list_trimmed split: option.splits)
    ultimately obtain line where "name = normalize_identity env line" "trim line = line" using member by auto
    then show ?thesis by (auto simp: normalize_identity_def plain_facts dest: env_okD(2)[OF assms(1)] split: option.splits)
  qed
  ultimately show ?thesis using assms(3) by (auto simp: is_whitelisted_def list_ex_iff self)
qed

theorem banned_player_stays_out_witness:
  "admission_rejection (\<lambda>c. [c]) stored_env Normal {} (new_manager False)
     (mod_run stored_env [(\<lambda>_. False, Reload), (\<lambda>_. True, Unban (lit ''bob''))]
       (snd (mod_apply stored_env (\<lambda>_. True) (Ban (lit ''monday'') (lit ''A'') (lit ''spam'') None) (mod_run stored_env some_steps started)))) (lit ''a'') = Some Banned"
proof (rule banned_player_stays_out[OF stored_env_ok])
  show "reload stored_env (\<lambda>_. True) \<lparr>ml_state = no_restrictions, ml_files = Some old_files\<rparr> = (True, started)"
    unfolding started_def by (rule prod_eqI) (simp_all, code_simp)
  show "mod_apply stored_env (\<lambda>_. True) (Ban (lit ''monday'') (lit ''A'') (lit ''spam'') None) (mod_run stored_env some_steps started) =
    (True, snd (mod_apply stored_env (\<lambda>_. True) (Ban (lit ''monday'') (lit ''A'') (lit ''spam'') None) (mod_run stored_env some_steps started)))"
    by (rule prod_eqI) (simp_all only: fst_conv snd_conv, code_simp)
qed code_simp+

theorem padded_identity_is_forgotten_witness:
  "\<not> is_whitelisted stored_env (lit ''bob '')
     (snd (reload stored_env (\<lambda>_. True) \<lparr>ml_state = no_restrictions,
       ml_files = ml_files (snd (change_list stored_env (\<lambda>_. True) (lit ''bob '') True True started))\<rparr>))"
proof -
  let ?m' = "snd (change_list stored_env (\<lambda>_. True) (lit ''bob '') True True started)"
  have padded: "me_parse_uuid stored_env (lit ''bob '') = None" "trim (lit ''bob '') \<noteq> lit ''bob ''" "trim (lit ''bob '') \<noteq> []" by code_simp+
  have change: "change_list stored_env (\<lambda>_. True) (lit ''bob '') True True started = (Inr True, ?m')"
    by (rule prod_eqI) (simp_all only: fst_conv snd_conv, code_simp)
  have files: "ml_files ?m' = Some (the (ml_files ?m'))" by code_simp
  have "reload stored_env (\<lambda>_. True) \<lparr>ml_state = no_restrictions, ml_files = Some (the (ml_files ?m'))\<rparr> =
    (True, snd (reload stored_env (\<lambda>_. True) \<lparr>ml_state = no_restrictions, ml_files = Some (the (ml_files ?m'))\<rparr>))"
    by (rule prod_eqI) (simp_all only: fst_conv snd_conv, code_simp)
  from conjunct2[OF padded_identity_is_forgotten[OF stored_env_ok padded change files this]] show ?thesis by (simp only: files[symmetric] not_False_eq_True)
qed

end
