(* ===== verification/Resources.thy ===== *)
theory Resources
  imports MessagesCompound Assoc
begin

text \<open>
  The shared objects of the server (\<open>basis-server-resources/src/lib.rs\<close>): loaded resources with the quotas of their creators and the
  preloads that wait for every player, numbers for names, owners of objects, shared content and picture-in-picture cameras; and the handlers of
  \<open>basis-server-core/src/lib.rs\<close> that decide who may unload or modify a resource and what completes a preload. An instant is a number of
  milliseconds and an argument of the operations that read the clock.
\<close>

section \<open>Resources\<close>

type_synonym ResourceManagementMessage = LocalLoadResource

record PreloadSession =
  ps_ready_peers :: "u16 set"
  ps_failed_peers :: "u16 set"
  ps_total_peer_count :: nat
  ps_started_at :: nat

record ResourceState =
  rs_resources :: "(bytes \<times> ResourceManagementMessage) list"
  rs_creator_counts :: "bytes \<Rightarrow> nat option"
  rs_preload_sessions :: "(bytes \<times> PreloadSession) list"

definition resource_state_default :: ResourceState where
  "resource_state_default = \<lparr>rs_resources = [], rs_creator_counts = (\<lambda>_. None), rs_preload_sessions = []\<rparr>"

definition insert_resource :: "ResourceManagementMessage \<Rightarrow> nat \<Rightarrow> ResourceState \<Rightarrow> bool \<times> ResourceState" where
  "insert_resource message max_per_creator s =
     (let resource_id = llr_loaded_net_id message; creator = llr_uuid_of_creator message
      in if resource_id = [] \<or> map_of (rs_resources s) resource_id \<noteq> None then (False, s)
         else if creator = [] then (True, s\<lparr>rs_resources := put_key resource_id message (rs_resources s)\<rparr>)
         else
           let creator_count = (case rs_creator_counts s creator of Some n \<Rightarrow> n | None \<Rightarrow> 0)
           in if max_per_creator \<le> creator_count then (False, s)
              else (True, s\<lparr>rs_resources := put_key resource_id message (rs_resources s),
                            rs_creator_counts := (rs_creator_counts s)(creator := Some (creator_count + 1))\<rparr>))"

definition load_resource_with_limit :: "ResourceManagementMessage \<Rightarrow> nat \<Rightarrow> ResourceState \<Rightarrow> bool \<times> ResourceState" where
  "load_resource_with_limit message max_per_creator s = insert_resource message max_per_creator s"

definition note_resource_removed :: "bytes \<Rightarrow> ResourceState \<Rightarrow> ResourceState" where
  "note_resource_removed creator s =
     (if creator = [] then s
      else case rs_creator_counts s creator of
          None \<Rightarrow> s
        | Some n \<Rightarrow>
            if n = 0 then s
            else if n = 1 then s\<lparr>rs_creator_counts := (rs_creator_counts s)(creator := None)\<rparr>
            else s\<lparr>rs_creator_counts := (rs_creator_counts s)(creator := Some (n - 1))\<rparr>)"

definition unload_resource_if ::
  "bytes \<Rightarrow> (ResourceManagementMessage \<Rightarrow> bool) \<Rightarrow> ResourceState \<Rightarrow> ResourceManagementMessage option \<times> ResourceState" where
  "unload_resource_if resource_id allowed s =
     (case map_of (rs_resources s) resource_id of
        None \<Rightarrow> (None, s)
      | Some resource \<Rightarrow>
          if \<not> allowed resource then (None, s)
          else (Some resource, note_resource_removed (llr_uuid_of_creator resource)
            (s\<lparr>rs_resources := remove_key resource_id (rs_resources s), rs_preload_sessions := remove_key resource_id (rs_preload_sessions s)\<rparr>)))"

definition modify_resource_if ::
  "ModifyResource \<Rightarrow> (ResourceManagementMessage \<Rightarrow> bool) \<Rightarrow> ResourceState \<Rightarrow> ModifyResource option \<times> ResourceState" where
  "modify_resource_if message allowed s =
     (case map_of (rs_resources s) (mr_loaded_net_id message) of
        None \<Rightarrow> (None, s)
      | Some resource \<Rightarrow>
          if \<not> allowed resource then (None, s)
          else
            let committed = \<lparr>mr_loaded_net_id = mr_loaded_net_id message, mr_mode = llr_mode resource,
                  mr_static_resource = (mr_static_resource message \<or> mr_static_admin_locked message),
                  mr_static_admin_locked = mr_static_admin_locked message\<rparr>
            in (Some committed,
                s\<lparr>rs_resources := put_key (mr_loaded_net_id message)
                    (resource\<lparr>llr_static_admin_locked := mr_static_admin_locked committed, llr_static_resource := mr_static_resource committed\<rparr>)
                    (rs_resources s)\<rparr>))"

text \<open>The walks that unload a list of resources; only the one for a creator also drops their preloads.\<close>

fun unload_each :: "bool \<Rightarrow> bytes list \<Rightarrow> ResourceState \<Rightarrow> UnloadResource list \<times> ResourceState" where
  "unload_each with_preloads [] s = ([], s)"
| "unload_each with_preloads (resource_id # ids) s =
     (case map_of (rs_resources s) resource_id of
        None \<Rightarrow> unload_each with_preloads ids s
      | Some resource \<Rightarrow>
          let s = s\<lparr>rs_resources := remove_key resource_id (rs_resources s)\<rparr>;
              s = (if with_preloads then s\<lparr>rs_preload_sessions := remove_key resource_id (rs_preload_sessions s)\<rparr> else s);
              s = note_resource_removed (llr_uuid_of_creator resource) s;
              (unloads, s) = unload_each with_preloads ids s
          in (\<lparr>ur_mode = llr_mode resource, ur_loaded_net_id = resource_id\<rparr> # unloads, s))"

definition all_scene_unloads :: "ResourceState \<Rightarrow> UnloadResource list \<times> ResourceState" where
  "all_scene_unloads s = unload_each False (map fst (filter (\<lambda>(_, resource). llr_mode resource = 1) (rs_resources s))) s"

definition reset_non_persistent :: "ResourceState \<Rightarrow> UnloadResource list \<times> ResourceState" where
  "reset_non_persistent s = unload_each False (map fst (filter (\<lambda>(_, resource). \<not> llr_persist resource) (rs_resources s))) s"

definition remove_creator_non_persistent :: "bytes \<Rightarrow> ResourceState \<Rightarrow> UnloadResource list \<times> ResourceState" where
  "remove_creator_non_persistent creator s =
     (if creator = [] then ([], s)
      else unload_each True
        (map fst (filter (\<lambda>(_, resource). \<not> llr_persist resource \<and> llr_uuid_of_creator resource = creator) (rs_resources s))) s)"

definition resources_reset :: "ResourceState \<Rightarrow> ResourceState" where
  "resources_reset s = resource_state_default"

section \<open>Preloads\<close>

definition is_complete :: "PreloadSession \<Rightarrow> bool" where
  "is_complete session \<longleftrightarrow> ps_total_peer_count session \<le> card (ps_ready_peers session) + card (ps_failed_peers session)"

definition start_preload :: "nat \<Rightarrow> LocalLoadResource \<Rightarrow> u16 list \<Rightarrow> nat \<Rightarrow> ResourceState \<Rightarrow> bool \<times> ResourceState" where
  "start_preload now resource peers max_per_creator s =
     (case insert_resource resource max_per_creator s of
        (False, s) \<Rightarrow> (False, s)
      | (True, s) \<Rightarrow>
          (True, s\<lparr>rs_preload_sessions := put_key (llr_loaded_net_id resource)
             \<lparr>ps_ready_peers = {}, ps_failed_peers = {}, ps_total_peer_count = length peers, ps_started_at = now\<rparr> (rs_preload_sessions s)\<rparr>))"

definition mark_preload_ready :: "u16 \<Rightarrow> PreloadReadyMessage \<Rightarrow> ResourceState \<Rightarrow> SpawnPreloadedMessage option \<times> ResourceState" where
  "mark_preload_ready peer_id message s =
     (case map_of (rs_preload_sessions s) (prm_loaded_net_id message) of
        None \<Rightarrow> (None, s)
      | Some session \<Rightarrow>
          let ready = ps_ready_peers session - {peer_id};
              failed = ps_failed_peers session - {peer_id};
              session = (if prm_is_ready message
                         then session\<lparr>ps_ready_peers := insert peer_id ready, ps_failed_peers := failed\<rparr>
                         else session\<lparr>ps_ready_peers := ready, ps_failed_peers := insert peer_id failed\<rparr>)
          in if is_complete session
             then (Some \<lparr>spm_loaded_net_id = prm_loaded_net_id message\<rparr>,
                   s\<lparr>rs_preload_sessions := remove_key (prm_loaded_net_id message) (rs_preload_sessions s)\<rparr>)
             else (None, s\<lparr>rs_preload_sessions := put_key (prm_loaded_net_id message) session (rs_preload_sessions s)\<rparr>))"

definition without_peer :: "u16 \<Rightarrow> PreloadSession \<Rightarrow> PreloadSession" where
  "without_peer peer_id session =
     session\<lparr>ps_ready_peers := ps_ready_peers session - {peer_id}, ps_failed_peers := ps_failed_peers session - {peer_id},
       ps_total_peer_count := ps_total_peer_count session - 1\<rparr>"

definition remove_preload_peer :: "u16 \<Rightarrow> ResourceState \<Rightarrow> SpawnPreloadedMessage list \<times> ResourceState" where
  "remove_preload_peer peer_id s =
     (let sessions = map (\<lambda>(resource_id, session). (resource_id, without_peer peer_id session)) (rs_preload_sessions s);
          complete = (\<lambda>(resource_id, session). ps_total_peer_count session = 0 \<or> is_complete session)
      in (map (\<lambda>(resource_id, _). \<lparr>spm_loaded_net_id = resource_id\<rparr>) (filter complete sessions),
          s\<lparr>rs_preload_sessions := filter (\<lambda>p. \<not> complete p) sessions\<rparr>))"

definition timed_out_preloads :: "nat \<Rightarrow> ResourceState \<Rightarrow> SpawnPreloadedMessage list \<times> ResourceState" where
  "timed_out_preloads now s =
     (let late = (\<lambda>(resource_id, session). 5 * 60 * 1000 \<le> now - ps_started_at session)
      in (map (\<lambda>(resource_id, _). \<lparr>spm_loaded_net_id = resource_id\<rparr>) (filter late (rs_preload_sessions s)),
          s\<lparr>rs_preload_sessions := filter (\<lambda>p. \<not> late p) (rs_preload_sessions s)\<rparr>))"

section \<open>Requests of players\<close>

text \<open>The conditions under which a request to unload or to modify is carried out.\<close>

definition unload_allowed :: "bool \<Rightarrow> bool \<Rightarrow> bytes \<Rightarrow> ResourceManagementMessage \<Rightarrow> bool" where
  "unload_allowed is_moderator removal_locked requester_uuid resource \<longleftrightarrow>
     is_moderator \<or>
     (\<not> llr_is_admin_locked resource \<and> (\<not> removal_locked \<or> requester_uuid \<noteq> [] \<and> requester_uuid = llr_uuid_of_creator resource))"

definition modify_allowed :: "bool \<Rightarrow> bytes \<Rightarrow> ModifyResource \<Rightarrow> ResourceManagementMessage \<Rightarrow> bool" where
  "modify_allowed is_moderator requester_uuid request resource \<longleftrightarrow>
     (let involves_admin_tier = (llr_static_admin_locked resource \<or> mr_static_admin_locked request);
          is_creator = (llr_uuid_of_creator resource \<noteq> [] \<and> requester_uuid = llr_uuid_of_creator resource)
      in is_moderator \<or> (is_creator \<and> \<not> involves_admin_tier))"

datatype broadcast = BroadcastUnload UnloadResource | BroadcastModify ModifyResource | BroadcastSpawn SpawnPreloadedMessage

definition unload_request :: "bool \<Rightarrow> bool \<Rightarrow> bytes \<Rightarrow> UnloadResource \<Rightarrow> ResourceState \<Rightarrow> broadcast list \<times> ResourceState" where
  "unload_request is_moderator removal_locked requester_uuid request s =
     (case unload_resource_if (ur_loaded_net_id request) (unload_allowed is_moderator removal_locked requester_uuid) s of
        (Some _, s) \<Rightarrow> ([BroadcastUnload request], s)
      | (None, s) \<Rightarrow> ([], s))"

definition modify_request :: "bool \<Rightarrow> bytes \<Rightarrow> ModifyResource \<Rightarrow> ResourceState \<Rightarrow> broadcast list \<times> ResourceState" where
  "modify_request is_moderator requester_uuid request s =
     (case modify_resource_if request (modify_allowed is_moderator requester_uuid request) s of
        (Some committed, s) \<Rightarrow> ([BroadcastModify committed], s)
      | (None, s) \<Rightarrow> ([], s))"

text \<open>When the preload of a scene completes every scene is unloaded first.\<close>

definition preload_ready_request :: "u16 \<Rightarrow> PreloadReadyMessage \<Rightarrow> ResourceState \<Rightarrow> broadcast list \<times> ResourceState" where
  "preload_ready_request peer ready s =
     (case mark_preload_ready peer ready s of
        (None, s) \<Rightarrow> ([], s)
      | (Some spawn, s) \<Rightarrow>
          if list_ex (\<lambda>(_, resource). llr_loaded_net_id resource = spm_loaded_net_id spawn \<and> llr_mode resource = 1) (rs_resources s)
          then (case all_scene_unloads s of (unloads, s) \<Rightarrow> (map BroadcastUnload unloads @ [BroadcastSpawn spawn], s))
          else ([BroadcastSpawn spawn], s))"

section \<open>Numbers for names\<close>

record NetIdState =
  ni_by_name :: "(bytes \<times> u16) list"
  ni_next_id :: u32
  ni_per_peer_assigned :: "u16 \<Rightarrow> nat option"
  ni_reserved_name :: "bytes option"

definition net_id_default :: NetIdState where
  "net_id_default = \<lparr>ni_by_name = [], ni_next_id = 0, ni_per_peer_assigned = (\<lambda>_. None), ni_reserved_name = None\<rparr>"

definition with_reserved_name :: "bytes \<Rightarrow> NetIdState" where
  "with_reserved_name name =
     net_id_default\<lparr>ni_by_name := [(name, 0)], ni_next_id := 1, ni_reserved_name := Some name\<rparr>"

definition add_or_find_for_peer :: "bytes \<Rightarrow> u16 \<Rightarrow> nat \<Rightarrow> NetIdState \<Rightarrow> (u16 \<times> bool) option \<times> NetIdState" where
  "add_or_find_for_peer name peer_id max_per_peer s =
     (case map_of (ni_by_name s) name of
        Some net_id \<Rightarrow> (Some (net_id, True), s)
      | None \<Rightarrow>
          let assigned = (case ni_per_peer_assigned s peer_id of Some n \<Rightarrow> n | None \<Rightarrow> 0)
          in if max_per_peer \<le> assigned then (None, s)
             else if 65535 < ni_next_id s then (None, s)
             else
               let net_id = ucast (ni_next_id s)
               in (Some (net_id, False),
                   s\<lparr>ni_next_id := ni_next_id s + 1, ni_by_name := put_key name net_id (ni_by_name s),
                     ni_per_peer_assigned := (ni_per_peer_assigned s)(peer_id := Some (assigned + 1))\<rparr>))"

definition net_id_remove_peer :: "u16 \<Rightarrow> NetIdState \<Rightarrow> NetIdState" where
  "net_id_remove_peer peer_id s = s\<lparr>ni_per_peer_assigned := (ni_per_peer_assigned s)(peer_id := None)\<rparr>"

definition net_id_find :: "bytes \<Rightarrow> NetIdState \<Rightarrow> u16 option" where
  "net_id_find name s = map_of (ni_by_name s) name"

definition net_id_reset :: "NetIdState \<Rightarrow> NetIdState" where
  "net_id_reset s =
     (let cleared = s\<lparr>ni_by_name := [], ni_per_peer_assigned := (\<lambda>_. None)\<rparr>
      in case ni_reserved_name s of
           Some name \<Rightarrow> cleared\<lparr>ni_by_name := [(name, 0)], ni_next_id := 1\<rparr>
         | None \<Rightarrow> cleared\<lparr>ni_next_id := 0\<rparr>)"

section \<open>Owners of objects\<close>

type_synonym OwnershipState = "(bytes \<times> u16) list"

definition request_new_or_existing :: "bytes \<Rightarrow> u16 \<Rightarrow> OwnershipState \<Rightarrow> u16 \<times> OwnershipState" where
  "request_new_or_existing ownership_id requester by_object =
     (case map_of by_object ownership_id of
        Some owner \<Rightarrow> (owner, by_object)
      | None \<Rightarrow> (requester, put_key ownership_id requester by_object))"

definition switch_ownership :: "bytes \<Rightarrow> u16 \<Rightarrow> OwnershipState \<Rightarrow> u16 \<times> OwnershipState" where
  "switch_ownership ownership_id new_owner by_object = (new_owner, put_key ownership_id new_owner by_object)"

definition remove_if_owner :: "bytes \<Rightarrow> u16 \<Rightarrow> OwnershipState \<Rightarrow> bool \<times> OwnershipState" where
  "remove_if_owner ownership_id owner by_object =
     (if map_of by_object ownership_id = Some owner then (True, remove_key ownership_id by_object) else (False, by_object))"

definition ownership_remove_player :: "u16 \<Rightarrow> OwnershipState \<Rightarrow> OwnershipTransferMessage list \<times> OwnershipState" where
  "ownership_remove_player player_id by_object =
     (map (\<lambda>(object, _). \<lparr>otm_player_id = player_id, otm_ownership_id = object\<rparr>) (filter (\<lambda>(_, owner). owner = player_id) by_object),
      filter (\<lambda>(_, owner). owner \<noteq> player_id) by_object)"

section \<open>Shared content\<close>

record SharedSphere =
  ss_message :: ServerContentShareMessage
  ss_dropped_at :: nat
  ss_left_at :: "nat option"

type_synonym ContentShareState = "(bytes \<times> SharedSphere) list"

text \<open>The spheres of a player who is still there.\<close>

definition present_spheres :: "u16 \<Rightarrow> ContentShareState \<Rightarrow> (bytes \<times> SharedSphere) list" where
  "present_spheres player_id spheres =
     filter (\<lambda>(_, sphere). scs_player_id (ss_message sphere) = player_id \<and> ss_left_at sphere = None) spheres"

definition add_with_limit_and_protection ::
  "nat \<Rightarrow> u16 \<Rightarrow> bytes \<Rightarrow> bytes \<Rightarrow> ContentShareMessage \<Rightarrow> nat \<Rightarrow> bool \<Rightarrow> ContentShareState \<Rightarrow> ServerContentShareMessage option \<times> ContentShareState" where
  "add_with_limit_and_protection now player_id sharer_uuid sharer_display_name message max_per_player sharer_protected spheres =
     (let server = \<lparr>scs_player_id = player_id, scs_sharer_uuid = sharer_uuid, scs_sharer_display_name = sharer_display_name,
            scs_content_share_message = message, scs_sharer_protected = sharer_protected\<rparr>
      in if map_of spheres (csm_sphere_net_id message) \<noteq> None \<or> max_per_player \<le> length (present_spheres player_id spheres) then (None, spheres)
         else (Some server, put_key (csm_sphere_net_id message) \<lparr>ss_message = server, ss_dropped_at = now, ss_left_at = None\<rparr> spheres))"

definition remove_authorized ::
  "u16 \<Rightarrow> ContentShareCleanupMessage \<Rightarrow> bool \<Rightarrow> bool \<Rightarrow> ContentShareState \<Rightarrow> ServerContentShareCleanupMessage option \<times> ContentShareState" where
  "remove_authorized player_id message is_moderator content_removal_locked spheres =
     (case map_of spheres (csc_sphere_net_id message) of
        None \<Rightarrow> (None, spheres)
      | Some existing \<Rightarrow>
          let is_owner = (ss_left_at existing = None \<and> scs_player_id (ss_message existing) = player_id)
          in if \<not> is_owner \<and> \<not> is_moderator \<and> (scs_sharer_protected (ss_message existing) \<or> content_removal_locked) then (None, spheres)
             else (Some \<lparr>scc_player_id = player_id, scc_content_share_cleanup_message = message\<rparr>, remove_key (csc_sphere_net_id message) spheres))"

definition cleanup_of :: "u16 \<Rightarrow> bytes \<Rightarrow> ServerContentShareCleanupMessage" where
  "cleanup_of player_id key = \<lparr>scc_player_id = player_id, scc_content_share_cleanup_message = \<lparr>csc_sphere_net_id = key\<rparr>\<rparr>"

definition remove_player_with_timeout :: "nat \<Rightarrow> u16 \<Rightarrow> int \<Rightarrow> ContentShareState \<Rightarrow> ServerContentShareCleanupMessage list \<times> ContentShareState" where
  "remove_player_with_timeout now player_id leave_timeout_seconds spheres =
     (let mine = (\<lambda>(_, sphere). scs_player_id (ss_message sphere) = player_id \<and> ss_left_at sphere = None)
      in if 0 < leave_timeout_seconds
         then ([], map (\<lambda>(key, sphere). (key, if mine (key, sphere) then sphere\<lparr>ss_left_at := Some now\<rparr> else sphere)) spheres)
         else (map (\<lambda>(key, _). cleanup_of player_id key) (filter mine spheres), filter (\<lambda>p. \<not> mine p) spheres))"

definition sphere_due :: "nat \<Rightarrow> int \<Rightarrow> int \<Rightarrow> SharedSphere \<Rightarrow> bool" where
  "sphere_due now leave_timeout_seconds deletion_timer_seconds sphere \<longleftrightarrow>
     (case ss_left_at sphere of Some left \<Rightarrow> 1000 * nat (max 0 leave_timeout_seconds) \<le> now - left | None \<Rightarrow> False) \<or>
     (0 < deletion_timer_seconds \<and> 1000 * nat (max 0 deletion_timer_seconds) \<le> now - ss_dropped_at sphere)"

definition expire_due :: "nat \<Rightarrow> int \<Rightarrow> int \<Rightarrow> ContentShareState \<Rightarrow> ServerContentShareCleanupMessage list \<times> ContentShareState" where
  "expire_due now leave_timeout_seconds deletion_timer_seconds spheres =
     (let due = (\<lambda>(_, sphere). sphere_due now leave_timeout_seconds deletion_timer_seconds sphere)
      in (map (\<lambda>(key, sphere). cleanup_of (scs_player_id (ss_message sphere)) key) (filter due spheres), filter (\<lambda>p. \<not> due p) spheres))"

section \<open>Picture-in-picture cameras\<close>

record PipCameraState =
  pc_state :: CameraPipStateMessage
  pc_has_new_data :: bool
  pc_last_sent_times :: "u16 \<Rightarrow> nat option"

type_synonym PipState = "(u16 \<times> PipCameraState) list"

definition pip_state_change :: "u16 \<Rightarrow> ClientCameraPipStateMessage \<Rightarrow> PipState \<Rightarrow> CameraPipStateMessage \<times> PipState" where
  "pip_state_change player_id message states =
     (let state = \<lparr>cps_player_id = player_id, cps_is_active = ccs_is_active message,
            cps_position_x = ccs_position_x message, cps_position_y = ccs_position_y message, cps_position_z = ccs_position_z message,
            cps_rotation_x = ccs_rotation_x message, cps_rotation_y = ccs_rotation_y message, cps_rotation_z = ccs_rotation_z message,
            cps_rotation_w = ccs_rotation_w message\<rparr>
      in (state,
          if ccs_is_active message
          then put_key player_id \<lparr>pc_state = state, pc_has_new_data = True, pc_last_sent_times = (\<lambda>_. None)\<rparr> states
          else case map_of states player_id of
              None \<Rightarrow> states
            | Some existing \<Rightarrow>
                put_key player_id (existing\<lparr>pc_state := (pc_state existing)\<lparr>cps_is_active := False\<rparr>, pc_has_new_data := False,
                  pc_last_sent_times := (\<lambda>_. None)\<rparr>) states))"

definition pip_position_update :: "u16 \<Rightarrow> ClientCameraPipPositionMessage \<Rightarrow> PipState \<Rightarrow> CameraPipPositionMessage option \<times> PipState" where
  "pip_position_update player_id message states =
     (case map_of states player_id of
        None \<Rightarrow> (None, states)
      | Some existing \<Rightarrow>
          if \<not> cps_is_active (pc_state existing) then (None, states)
          else
            (Some \<lparr>cpp_player_id = player_id, cpp_position_x = ccp_position_x message, cpp_position_y = ccp_position_y message,
               cpp_position_z = ccp_position_z message, cpp_rotation_x = ccp_rotation_x message, cpp_rotation_y = ccp_rotation_y message,
               cpp_rotation_z = ccp_rotation_z message, cpp_rotation_w = ccp_rotation_w message\<rparr>,
             put_key player_id
               (existing\<lparr>pc_state := (pc_state existing)\<lparr>cps_position_x := ccp_position_x message, cps_position_y := ccp_position_y message,
                  cps_position_z := ccp_position_z message, cps_rotation_x := ccp_rotation_x message, cps_rotation_y := ccp_rotation_y message,
                  cps_rotation_z := ccp_rotation_z message, cps_rotation_w := ccp_rotation_w message\<rparr>, pc_has_new_data := True\<rparr>) states))"

definition pip_remove_player :: "u16 \<Rightarrow> PipState \<Rightarrow> CameraPipStateMessage option \<times> PipState" where
  "pip_remove_player player_id states =
     (case map_of states player_id of
        None \<Rightarrow> (None, states)
      | Some existing \<Rightarrow>
          (if cps_is_active (pc_state existing) then Some ((pc_state existing)\<lparr>cps_is_active := False\<rparr>) else None, remove_key player_id states))"

definition all_active :: "PipState \<Rightarrow> CameraPipStateMessage list" where
  "all_active states = map (pc_state \<circ> snd) (filter (\<lambda>(_, existing). cps_is_active (pc_state existing)) states)"

end
