(* ===== verification/ResourceProperties.thy ===== *)
theory ResourceProperties
  imports Resources
begin

text \<open>
  What the shared objects promise: quotas of creators are exact, numbers of names are never reused, locked resources and protected content
  stay until someone entitled removes them; and what completing the preload of a scene does to that scene.
\<close>

section \<open>Quotas\<close>

text \<open>The resources of a creator.\<close>

definition created :: "bytes \<Rightarrow> (bytes \<times> ResourceManagementMessage) list \<Rightarrow> nat" where
  "created creator resources = sum_list (map (\<lambda>(_, resource). if creator = llr_uuid_of_creator resource then 1 else 0) resources)"

definition counted :: "nat \<Rightarrow> nat option" where
  "counted n = (if n = 0 then None else Some n)"

lemma counted_simps [simp]: "counted 0 = None" "counted (Suc n) = Some (Suc n)"
  by (simp_all add: counted_def)

definition resource_inv :: "nat \<Rightarrow> ResourceState \<Rightarrow> bool" where
  "resource_inv limit s \<longleftrightarrow> distinct (map fst (rs_resources s)) \<and> distinct (map fst (rs_preload_sessions s)) \<and>
     (\<forall>(resource_id, resource) \<in> set (rs_resources s). llr_loaded_net_id resource = resource_id \<and> resource_id \<noteq> []) \<and>
     (\<forall>creator. rs_creator_counts s creator = (if creator = [] then None else counted (created creator (rs_resources s)))) \<and>
     (\<forall>creator. creator = [] \<or> created creator (rs_resources s) \<le> limit)"

lemma created_split:
  assumes "distinct (map fst resources)" "map_of resources resource_id = Some resource"
  shows "created creator resources =
    (if creator = llr_uuid_of_creator resource then 1 else 0) + created creator (remove_key resource_id resources)"
  using sum_split_key[OF assms, of "\<lambda>(_, resource). if creator = llr_uuid_of_creator resource then 1 else 0"] by (simp add: created_def)

lemma created_put: "created creator (put_key resource_id resource resources) =
    (if creator = llr_uuid_of_creator resource then 1 else 0) + created creator (remove_key resource_id resources)"
  by (simp add: created_def put_key_def)

lemma resource_inv_default: "resource_inv limit resource_state_default"
  by (simp add: resource_inv_def resource_state_default_def created_def)

lemma resource_inv_sessions:
  "resource_inv limit s \<Longrightarrow> distinct (map fst sessions) \<Longrightarrow> resource_inv limit (s\<lparr>rs_preload_sessions := sessions\<rparr>)"
  by (simp add: resource_inv_def)

lemma insert_resource_inv:
  assumes "insert_resource message max_per_creator s = (inserted, s')" "resource_inv limit s" "max_per_creator \<le> limit"
  shows "resource_inv limit s'"
proof (cases inserted)
  case True
  let ?creator = "llr_uuid_of_creator message" and ?id = "llr_loaded_net_id message"
  have new: "?id \<noteq> []" "map_of (rs_resources s) ?id = None" using assms(1) True by (auto simp: insert_resource_def Let_def split: if_splits)
  have made: "created creator (put_key ?id message (rs_resources s)) = (if creator = ?creator then 1 else 0) + created creator (rs_resources s)" for creator
    using new(2) by (simp add: created_put)
  show ?thesis
  proof (cases "?creator = []")
    case True
    then have "s' = s\<lparr>rs_resources := put_key ?id message (rs_resources s)\<rparr>" using assms(1) new \<open>inserted\<close> by (auto simp: insert_resource_def Let_def)
    then show ?thesis using assms(2) new made True by (auto simp: resource_inv_def put_key_def)
  next
    case False
    have counts: "rs_creator_counts s ?creator = counted (created ?creator (rs_resources s))" using assms(2) False by (simp add: resource_inv_def)
    have "created ?creator (rs_resources s) < max_per_creator \<and> s' = s\<lparr>rs_resources := put_key ?id message (rs_resources s),
        rs_creator_counts := (rs_creator_counts s)(?creator := Some (created ?creator (rs_resources s) + 1))\<rparr>"
      using assms(1) new False \<open>inserted\<close> counts by (cases "created ?creator (rs_resources s)") (auto simp: insert_resource_def Let_def split: if_splits)
    then show ?thesis using assms(2,3) new made False by (auto simp: resource_inv_def put_key_def)
  qed
qed (use assms in \<open>auto simp: insert_resource_def Let_def split: if_splits\<close>)

lemma note_removed_frame [simp]:
  "rs_resources (note_resource_removed creator s) = rs_resources s"
  "rs_preload_sessions (note_resource_removed creator s) = rs_preload_sessions s"
  by (auto simp: note_resource_removed_def split: option.splits)

text \<open>Removing one resource and noting it keeps the counts exact.\<close>

lemma remove_resource_inv:
  assumes "resource_inv limit s" "map_of (rs_resources s) resource_id = Some resource"
  shows "resource_inv limit (note_resource_removed (llr_uuid_of_creator resource) (s\<lparr>rs_resources := remove_key resource_id (rs_resources s)\<rparr>))"
proof -
  let ?creator = "llr_uuid_of_creator resource" and ?rest = "remove_key resource_id (rs_resources s)"
  have keys: "distinct (map fst (rs_resources s))" using assms(1) by (simp add: resource_inv_def)
  note split = created_split[OF keys assms(2)]
  have counts: "rs_creator_counts (note_resource_removed ?creator (s\<lparr>rs_resources := ?rest\<rparr>)) creator =
      (if creator = [] then None else counted (created creator ?rest))" for creator
  proof (cases "?creator = []")
    case True
    then show ?thesis using assms(1) split[of creator] by (auto simp: note_resource_removed_def resource_inv_def)
  next
    case False
    have "rs_creator_counts s ?creator = counted (Suc (created ?creator ?rest))" "rs_creator_counts s creator = (if creator = [] then None else counted (created creator (rs_resources s)))"
      using assms(1) False split[of ?creator] by (auto simp: resource_inv_def)
    then show ?thesis using False split[of creator] by (auto simp: note_resource_removed_def counted_def)
  qed
  have "created creator ?rest \<le> created creator (rs_resources s)" for creator using split[of creator] by simp
  then have "creator = [] \<or> created creator ?rest \<le> limit" for creator using assms(1) order.trans by (fastforce simp: resource_inv_def)
  then show ?thesis using assms(1) counts keys by (auto simp: resource_inv_def)
qed

definition drop_resource :: "bool \<Rightarrow> bytes \<Rightarrow> ResourceManagementMessage \<Rightarrow> ResourceState \<Rightarrow> ResourceState" where
  "drop_resource with_preloads resource_id resource s =
     note_resource_removed (llr_uuid_of_creator resource)
       (s\<lparr>rs_resources := remove_key resource_id (rs_resources s),
         rs_preload_sessions := (if with_preloads then remove_key resource_id (rs_preload_sessions s) else rs_preload_sessions s)\<rparr>)"

lemma drop_resource_frame [simp]: "rs_resources (drop_resource with_preloads resource_id resource s) = remove_key resource_id (rs_resources s)"
  by (simp add: drop_resource_def)

lemma drop_resource_inv:
  assumes "resource_inv limit s" "map_of (rs_resources s) resource_id = Some resource"
  shows "resource_inv limit (drop_resource with_preloads resource_id resource s)"
proof -
  let ?s = "s\<lparr>rs_preload_sessions := (if with_preloads then remove_key resource_id (rs_preload_sessions s) else rs_preload_sessions s)\<rparr>"
  have "resource_inv limit ?s" using assms(1) by (intro resource_inv_sessions) (auto simp: resource_inv_def)
  then have "resource_inv limit (note_resource_removed (llr_uuid_of_creator resource) (?s\<lparr>rs_resources := remove_key resource_id (rs_resources ?s)\<rparr>))"
    using assms(2) by (intro remove_resource_inv) simp_all
  moreover have "?s\<lparr>rs_resources := remove_key resource_id (rs_resources ?s)\<rparr> = s\<lparr>rs_resources := remove_key resource_id (rs_resources s),
      rs_preload_sessions := (if with_preloads then remove_key resource_id (rs_preload_sessions s) else rs_preload_sessions s)\<rparr>" by simp
  ultimately show ?thesis by (simp only: drop_resource_def)
qed

lemma unload_each_Cons:
  "unload_each with_preloads (resource_id # ids) s =
     (case map_of (rs_resources s) resource_id of
        None \<Rightarrow> unload_each with_preloads ids s
      | Some resource \<Rightarrow> apfst ((#) \<lparr>ur_mode = llr_mode resource, ur_loaded_net_id = resource_id\<rparr>)
          (unload_each with_preloads ids (drop_resource with_preloads resource_id resource s)))"
  by (auto simp: drop_resource_def Let_def case_prod_beta split: option.splits) (auto simp: apfst_def map_prod_def case_prod_beta)

declare unload_each.simps(2) [simp del]

lemmas unload_each_rules = unload_each.simps(1) unload_each_Cons

lemma unload_each_inv: "resource_inv limit s \<Longrightarrow> resource_inv limit (snd (unload_each with_preloads ids s))"
  by (induction ids arbitrary: s) (auto simp: unload_each_rules drop_resource_inv split: option.splits)

lemma unload_each_keys:
  "fst ` set (rs_resources (snd (unload_each with_preloads ids s))) = fst ` set (rs_resources s) - set ids"
  by (induction ids arbitrary: s) (auto simp: unload_each_rules map_of_eq_None_iff split: option.splits)

lemma unload_each_reported:
  "set ids \<subseteq> fst ` set (rs_resources s) \<Longrightarrow> distinct ids \<Longrightarrow> map ur_loaded_net_id (fst (unload_each with_preloads ids s)) = ids"
proof (induction ids arbitrary: s)
  case (Cons resource_id ids)
  then obtain resource where "map_of (rs_resources s) resource_id = Some resource"
    by (metis list.set_intros(1) map_of_eq_None_iff not_Some_eq subsetD)
  moreover have "set ids \<subseteq> fst ` set (remove_key resource_id (rs_resources s))" using Cons.prems by fastforce
  ultimately show ?case using Cons by (simp add: unload_each_rules)
qed simp

text \<open>One operation on the resources, by whatever caller; loads are admitted up to the configured limit.\<close>

inductive resource_step :: "nat \<Rightarrow> ResourceState \<Rightarrow> ResourceState \<Rightarrow> bool" for limit where
  load: "max_per_creator \<le> limit \<Longrightarrow> resource_step limit s (snd (load_resource_with_limit message max_per_creator s))"
| preload: "max_per_creator \<le> limit \<Longrightarrow> resource_step limit s (snd (start_preload now resource peers max_per_creator s))"
| unload: "resource_step limit s (snd (unload_request is_moderator removal_locked requester request s))"
| modify: "resource_step limit s (snd (modify_request is_moderator requester modification s))"
| ready: "resource_step limit s (snd (preload_ready_request peer message s))"
| left: "resource_step limit s (snd (remove_preload_peer peer s))"
| creator_left: "resource_step limit s (snd (remove_creator_non_persistent creator s))"
| last_left: "resource_step limit s (snd (reset_non_persistent s))"
| timeout: "resource_step limit s (snd (timed_out_preloads now s))"
| cleared: "resource_step limit s (resources_reset s)"

lemma unload_if_inv: "resource_inv limit s \<Longrightarrow> resource_inv limit (snd (unload_resource_if resource_id allowed s))"
  using drop_resource_inv[of limit s resource_id _ True] by (auto simp: unload_resource_if_def drop_resource_def split: option.splits)

lemma set_put_resource: "set (put_key k v xs) = insert (k, v) {p \<in> set xs. fst p \<noteq> k}"
  by (simp add: put_key_def)

lemma request_states:
  "snd (unload_request is_moderator removal_locked requester request s) =
     snd (unload_resource_if (ur_loaded_net_id request) (unload_allowed is_moderator removal_locked requester) s)"
  "snd (modify_request is_moderator requester modification s) =
     snd (modify_resource_if modification (modify_allowed is_moderator requester modification) s)"
  by (auto simp: unload_request_def modify_request_def split: prod.splits option.splits)

lemma modify_if_inv:
  assumes "resource_inv limit s"
  shows "resource_inv limit (snd (modify_resource_if message allowed s))"
proof (cases "map_of (rs_resources s) (mr_loaded_net_id message)")
  case (Some resource)
  have keys: "distinct (map fst (rs_resources s))" using assms by (simp add: resource_inv_def)
  have same: "created creator (put_key (mr_loaded_net_id message) (resource\<lparr>llr_static_admin_locked := a, llr_static_resource := b\<rparr>) (rs_resources s)) =
      created creator (rs_resources s)" for creator a b
    using created_split[OF keys Some] by (simp add: created_put)
  have "(mr_loaded_net_id message, resource) \<in> set (rs_resources s)" using Some by (rule map_of_SomeD)
  then show ?thesis using assms Some by (auto simp: modify_resource_if_def Let_def resource_inv_def same set_put_resource)
qed (use assms in \<open>simp add: modify_resource_if_def\<close>)

lemma mark_ready_inv: "resource_inv limit s \<Longrightarrow> resource_inv limit (snd (mark_preload_ready peer message s))"
  by (auto simp: mark_preload_ready_def Let_def resource_inv_def split: option.splits)

lemma mark_ready_resources [simp]: "rs_resources (snd (mark_preload_ready peer message s)) = rs_resources s"
  by (auto simp: mark_preload_ready_def Let_def split: option.splits)

lemma preload_ready_state:
  "snd (preload_ready_request peer message s) =
     (case mark_preload_ready peer message s of
        (None, s) \<Rightarrow> s
      | (Some spawn, s) \<Rightarrow>
          if list_ex (\<lambda>(_, resource). llr_loaded_net_id resource = spm_loaded_net_id spawn \<and> llr_mode resource = 1) (rs_resources s)
          then snd (all_scene_unloads s) else s)"
  by (simp add: preload_ready_request_def split: prod.splits option.splits)

lemma resource_step_inv: "resource_step limit s t \<Longrightarrow> resource_inv limit s \<Longrightarrow> resource_inv limit t"
proof (induction rule: resource_step.induct)
  case (load max_per_creator s message)
  then show ?case using insert_resource_inv[OF prod.collapse[symmetric]] by (simp add: load_resource_with_limit_def)
next
  case (preload max_per_creator s now resource peers)
  obtain inserted t where insert: "insert_resource resource max_per_creator s = (inserted, t)" by (cases "insert_resource resource max_per_creator s")
  have "resource_inv limit t" using insert_resource_inv[OF insert] preload by simp
  moreover from this have "distinct (map fst (rs_preload_sessions t))" by (simp add: resource_inv_def)
  ultimately show ?case by (cases inserted) (auto simp: start_preload_def insert intro!: resource_inv_sessions)
next
  case (ready s peer message)
  then have "resource_inv limit (snd (mark_preload_ready peer message s))" by (rule mark_ready_inv)
  then show ?case by (cases "mark_preload_ready peer message s") (simp add: preload_ready_state all_scene_unloads_def unload_each_inv split: option.splits)
next
  case (left s peer)
  then show ?case by (auto simp: remove_preload_peer_def Let_def comp_def case_prod_beta distinct_map_filter intro!: resource_inv_sessions simp: resource_inv_def)
next
  case (timeout s now)
  then show ?case by (auto simp: timed_out_preloads_def Let_def resource_inv_def distinct_map_filter)
qed (auto simp: remove_creator_non_persistent_def reset_non_persistent_def resources_reset_def unload_each_inv resource_inv_default request_states unload_if_inv modify_if_inv)

lemma resources_reachable_inv: "(resource_step limit)\<^sup>*\<^sup>* resource_state_default s \<Longrightarrow> resource_inv limit s"
  by (induction rule: rtranclp_induct) (auto intro: resource_inv_default resource_step_inv)

text \<open>C26. Quotas of creators are exact. In every state that loads, preloads, unloads, modifications, completed preloads and departures lead to, the counter of a creator is the
number of that creator's resources, absent at zero, and within the limit; every resource is found under its own identifier.\<close>

theorem resource_quotas_exact:
  assumes "(resource_step limit)\<^sup>*\<^sup>* resource_state_default s" "creator \<noteq> []"
  shows "(case rs_creator_counts s creator of Some n \<Rightarrow> n | None \<Rightarrow> 0) =
      length (filter (\<lambda>(_, resource). llr_uuid_of_creator resource = creator) (rs_resources s)) \<and>
    length (filter (\<lambda>(_, resource). llr_uuid_of_creator resource = creator) (rs_resources s)) \<le> limit \<and>
    distinct (map (llr_loaded_net_id \<circ> snd) (rs_resources s)) \<and>
    (map_of (rs_resources s) resource_id = Some resource \<longrightarrow> llr_loaded_net_id resource = resource_id)"
proof -
  have inv: "resource_inv limit s" using assms(1) by (rule resources_reachable_inv)
  have "length (filter (\<lambda>(_, resource). llr_uuid_of_creator resource = creator) resources) = created creator resources" for resources
    by (induction resources) (auto simp: created_def)
  moreover have same: "map (llr_loaded_net_id \<circ> snd) (rs_resources s) = map fst (rs_resources s)"
    using inv by (auto simp: resource_inv_def)
  moreover have "distinct (map (llr_loaded_net_id \<circ> snd) (rs_resources s))" unfolding same using inv by (simp add: resource_inv_def)
  ultimately show ?thesis using inv assms(2) by (auto simp: resource_inv_def counted_def dest: map_of_SomeD)
qed

section \<open>Completed preloads\<close>

text \<open>C39. A scene whose preload completes is unloaded by its own completion. In every reachable state, when a report of a player completes the preload of a loaded scene, the players
are told to unload that scene before they are told to spawn it, and afterwards the server no longer has it: players who join later are not told of it, and nobody can
unload or modify it.\<close>

theorem completed_scene_is_unloaded:
  assumes "(resource_step limit)\<^sup>*\<^sup>* resource_state_default s" "map_of (rs_resources s) scene = Some resource" "llr_mode resource = 1"
    and "preload_ready_request peer message s = (sent, s')" "BroadcastSpawn \<lparr>spm_loaded_net_id = scene\<rparr> \<in> set sent"
  shows "map_of (rs_resources s') scene = None \<and>
    (\<exists>unload others. sent = others @ [BroadcastSpawn \<lparr>spm_loaded_net_id = scene\<rparr>] \<and> BroadcastUnload unload \<in> set others \<and> ur_loaded_net_id unload = scene)"
proof -
  let ?scenes = "map fst (filter (\<lambda>(_, resource). llr_mode resource = 1) (rs_resources s))"
  have inv: "resource_inv limit s" using assms(1) by (rule resources_reachable_inv)
  have listed: "(scene, resource) \<in> set (rs_resources s)" using assms(2) by (rule map_of_SomeD)
  then have same: "llr_loaded_net_id resource = scene" using inv by (auto simp: resource_inv_def)
  obtain result u where marked: "mark_preload_ready peer message s = (result, u)" by (metis prod.collapse)
  have u: "rs_resources u = rs_resources s" using mark_ready_resources[of peer message s] by (simp add: marked)
  have "result = Some \<lparr>spm_loaded_net_id = scene\<rparr>"
  proof (cases result)
    case None
    then show ?thesis using assms(4,5) by (simp add: preload_ready_request_def marked)
  next
    case (Some spawn)
    then have "BroadcastSpawn x \<in> set (fst (preload_ready_request peer message s)) \<Longrightarrow> x = spawn" for x
      by (auto simp: preload_ready_request_def marked case_prod_beta split: if_splits)
    then show ?thesis using assms(4,5) Some by force
  qed
  then obtain spawn where marked: "mark_preload_ready peer message s = (Some spawn, u)" and spawn: "spawn = \<lparr>spm_loaded_net_id = scene\<rparr>"
    using marked by simp
  have "list_ex (\<lambda>(_, resource). llr_loaded_net_id resource = spm_loaded_net_id spawn \<and> llr_mode resource = 1) (rs_resources u)"
    using listed same assms(3) by (force simp: list_ex_iff spawn u)
  then have out: "sent = map BroadcastUnload (fst (unload_each False ?scenes u)) @ [BroadcastSpawn spawn]" "s' = snd (unload_each False ?scenes u)"
    using assms(4) by (auto simp: preload_ready_request_def marked all_scene_unloads_def case_prod_beta u)
  have member: "scene \<in> set ?scenes" using listed assms(3) by force
  have "map ur_loaded_net_id (fst (unload_each False ?scenes u)) = ?scenes"
    using inv by (intro unload_each_reported) (auto simp: resource_inv_def distinct_map_filter u)
  then obtain unload where "unload \<in> set (fst (unload_each False ?scenes u))" "ur_loaded_net_id unload = scene"
    using member by (metis (no_types, lifting) imageE set_map)
  moreover have "scene \<notin> fst ` set (rs_resources s')" using member unload_each_keys[of False ?scenes u] by (auto simp: out(2))
  ultimately show ?thesis by (auto simp: out(1) spawn map_of_eq_None_iff)
qed

text \<open>A preload remembers how many players it waits for, not which: the departure of anyone without a report, also of a player who came after it began, completes
a preload that lacks one report.\<close>

theorem any_departure_counts_for_preloads:
  assumes "map_of (rs_preload_sessions s) resource_id = Some session"
    and "ps_total_peer_count session = Suc (card (ps_ready_peers session) + card (ps_failed_peers session))"
    and "peer \<notin> ps_ready_peers session" "peer \<notin> ps_failed_peers session"
  shows "\<lparr>spm_loaded_net_id = resource_id\<rparr> \<in> set (fst (remove_preload_peer peer s))"
proof -
  have "is_complete (without_peer peer session)" using assms(2-4) by (simp add: is_complete_def without_peer_def)
  moreover have "(resource_id, session) \<in> set (rs_preload_sessions s)" using assms(1) by (rule map_of_SomeD)
  ultimately show ?thesis by (force simp: remove_preload_peer_def Let_def)
qed

section \<open>Locked resources\<close>

text \<open>The messages by which a player without the right to moderate changes the resources: load, preload, unload, modify, and the report of a preload, for which the
server asks no right at all. \<open>scenes_complete\<close> says whether reports may complete the preload of a scene, which is when players are told to unload scenes.\<close>

primrec is_unload :: "broadcast \<Rightarrow> bool" where
  "is_unload (BroadcastUnload unload) = True"
| "is_unload (BroadcastModify modification) = False"
| "is_unload (BroadcastSpawn spawn) = False"

inductive player_step :: "bool \<Rightarrow> ResourceState \<Rightarrow> ResourceState \<Rightarrow> bool" for scenes_complete where
  loads: "player_step scenes_complete s (snd (load_resource_with_limit message max_per_creator s))"
| preloads: "player_step scenes_complete s (snd (start_preload now resource peers max_per_creator s))"
| unloads: "player_step scenes_complete s (snd (unload_request False removal_locked requester request s))"
| modifies: "player_step scenes_complete s (snd (modify_request False requester modification s))"
| reports: "preload_ready_request peer message s = (sent, t) \<Longrightarrow> scenes_complete \<or> list_all (Not \<circ> is_unload) sent \<Longrightarrow> player_step scenes_complete s t"

definition kept_locked :: "bytes \<Rightarrow> ResourceManagementMessage \<Rightarrow> ResourceState \<Rightarrow> bool" where
  "kept_locked resource_id resource s \<longleftrightarrow> distinct (map fst (rs_resources s)) \<and> (\<exists>current. map_of (rs_resources s) resource_id = Some current \<and>
     llr_is_admin_locked current \<and> llr_mode current = llr_mode resource \<and> llr_static_admin_locked current = llr_static_admin_locked resource)"

lemma insert_resource_keeps:
  "map_of (rs_resources s) k = Some r \<Longrightarrow> map_of (rs_resources (snd (insert_resource message n s))) k = Some r"
  "distinct (map fst (rs_resources s)) \<Longrightarrow> distinct (map fst (rs_resources (snd (insert_resource message n s))))"
  by (auto simp: insert_resource_def Let_def)

lemma unload_each_keeps:
  "resource_id \<notin> set ids \<Longrightarrow> map_of (rs_resources (snd (unload_each with_preloads ids s))) resource_id = map_of (rs_resources s) resource_id"
  "distinct (map fst (rs_resources s)) \<Longrightarrow> distinct (map fst (rs_resources (snd (unload_each with_preloads ids s))))"
  by (induction ids arbitrary: s) (auto simp: unload_each_rules split: option.splits)

lemma unload_each_nothing: "fst (unload_each with_preloads ids s) = [] \<Longrightarrow> snd (unload_each with_preloads ids s) = s"
  by (induction ids arbitrary: s) (auto simp: unload_each_rules split: option.splits)

lemma kept_locked_resources: "rs_resources t = rs_resources s \<Longrightarrow> kept_locked resource_id resource s \<Longrightarrow> kept_locked resource_id resource t"
  by (simp only: kept_locked_def)

lemma all_scene_unloads_keeps:
  assumes "kept_locked resource_id resource s" "llr_mode resource \<noteq> 1 \<or> fst (all_scene_unloads s) = []"
  shows "kept_locked resource_id resource (snd (all_scene_unloads s))"
proof (cases "llr_mode resource = 1")
  case True
  then show ?thesis using assms unload_each_nothing by (auto simp: all_scene_unloads_def)
next
  case False
  then have "resource_id \<notin> set (map fst (filter (\<lambda>(_, resource). llr_mode resource = 1) (rs_resources s)))"
    using assms(1) by (auto simp: kept_locked_def)
  then show ?thesis using assms(1) by (simp add: kept_locked_def all_scene_unloads_def unload_each_keeps del: set_map map_of_eq_Some_iff)
qed

lemma preload_ready_keeps:
  assumes "preload_ready_request peer message s = (sent, t)" "kept_locked resource_id resource s"
    and "llr_mode resource \<noteq> 1 \<or> list_all (Not \<circ> is_unload) sent"
  shows "kept_locked resource_id resource t"
proof -
  obtain result u where marked: "mark_preload_ready peer message s = (result, u)" by (metis prod.collapse)
  have u: "kept_locked resource_id resource u"
    using kept_locked_resources[OF _ assms(2)] mark_ready_resources[of peer message s] by (simp add: marked)
  have "llr_mode resource \<noteq> 1 \<or> fst (all_scene_unloads u) = []" if "sent = map BroadcastUnload (fst (all_scene_unloads u)) @ more" for more
    using assms(3) by (cases "fst (all_scene_unloads u)") (simp_all add: that)
  then show ?thesis using assms(1) u all_scene_unloads_keeps[OF u]
    by (auto simp: preload_ready_request_def marked case_prod_beta split: option.splits if_splits)
qed

lemma player_step_keeps:
  "player_step scenes_complete s t \<Longrightarrow> kept_locked resource_id resource s \<Longrightarrow> \<not> scenes_complete \<or> llr_mode resource \<noteq> 1 \<Longrightarrow>
   kept_locked resource_id resource t"
proof (induction rule: player_step.induct)
  case (loads s message max_per_creator)
  then show ?case using insert_resource_keeps by (fastforce simp: kept_locked_def load_resource_with_limit_def)
next
  case (preloads s now loaded peers max_per_creator)
  then have "kept_locked resource_id resource (snd (insert_resource loaded max_per_creator s))"
    using insert_resource_keeps by (fastforce simp: kept_locked_def)
  then show ?case by (cases "insert_resource loaded max_per_creator s"; cases "fst (insert_resource loaded max_per_creator s)")
      (auto simp: kept_locked_def start_preload_def)
next
  case (unloads s removal_locked requester request)
  then show ?case by (auto simp: kept_locked_def request_states unload_resource_if_def unload_allowed_def split: option.splits)
next
  case (modifies s requester modification)
  then show ?case by (auto simp: kept_locked_def request_states modify_resource_if_def modify_allowed_def Let_def simp del: map_of_eq_Some_iff split: option.splits)
next
  case (reports peer message s sent t)
  then show ?case using preload_ready_keeps[OF reports(1,3)] by blast
qed

text \<open>C27. Locks of administrators hold against players: whatever sequence of loads, preloads, unload requests, modifications and reports of preloads players without the right to moderate send, also under the
name of the creator, a resource locked by an administrator stays loaded and locked, and its administrative static flag stays as it was, if it is not a scene. A locked scene stays as long as no report
completes the preload of a scene; such a completion unloads every scene, locked or not. Departures are not messages: a resource that does not persist goes with its creator.\<close>

theorem locked_resource_is_kept:
  assumes "(resource_step limit)\<^sup>*\<^sup>* resource_state_default s" "(player_step scenes_complete)\<^sup>*\<^sup>* s t"
    and "map_of (rs_resources s) resource_id = Some resource" "llr_is_admin_locked resource" "\<not> scenes_complete \<or> llr_mode resource \<noteq> 1"
  shows "\<exists>current. map_of (rs_resources t) resource_id = Some current \<and> llr_is_admin_locked current \<and>
    llr_static_admin_locked current = llr_static_admin_locked resource"
proof -
  have "kept_locked resource_id resource s" using assms(3,4) resources_reachable_inv[OF assms(1)] by (simp add: kept_locked_def resource_inv_def)
  with assms(2) have "kept_locked resource_id resource t" by (induction rule: rtranclp_induct) (use assms(5) in \<open>auto intro: player_step_keeps\<close>)
  then show ?thesis by (auto simp: kept_locked_def)
qed

section \<open>Numbers\<close>

text \<open>Registrations and departures; a reset, when the last player left, starts the numbers again.\<close>

inductive net_id_step :: "NetIdState \<Rightarrow> NetIdState \<Rightarrow> bool" where
  registers: "net_id_step s (snd (add_or_find_for_peer name peer_id max_per_peer s))"
| leaves: "net_id_step s (net_id_remove_peer peer_id s)"

inductive net_id_run :: "bytes \<Rightarrow> NetIdState \<Rightarrow> bool" for reserved where
  begins: "net_id_run reserved (with_reserved_name reserved)"
| steps: "net_id_run reserved s \<Longrightarrow> net_id_step s t \<Longrightarrow> net_id_run reserved t"
| resets: "net_id_run reserved s \<Longrightarrow> net_id_run reserved (net_id_reset s)"

definition net_id_inv :: "bytes \<Rightarrow> NetIdState \<Rightarrow> bool" where
  "net_id_inv reserved s \<longleftrightarrow> distinct (map snd (ni_by_name s)) \<and> unat (ni_next_id s) \<le> 65536 \<and> length (ni_by_name s) = unat (ni_next_id s) \<and>
     (\<forall>p \<in> set (ni_by_name s). unat (snd p) < unat (ni_next_id s)) \<and> map_of (ni_by_name s) reserved = Some 0 \<and> ni_reserved_name s = Some reserved"

lemma register_cases:
  obtains (same) "snd (add_or_find_for_peer name peer_id max_per_peer s) = s"
    | (fresh) assigned where "map_of (ni_by_name s) name = None" "ni_next_id s \<le> 65535"
        "snd (add_or_find_for_peer name peer_id max_per_peer s) = s\<lparr>ni_next_id := ni_next_id s + 1, ni_by_name := (name, ucast (ni_next_id s)) # ni_by_name s,
          ni_per_peer_assigned := assigned\<rparr>"
proof -
  let ?assigned = "case ni_per_peer_assigned s peer_id of Some n \<Rightarrow> n | None \<Rightarrow> 0"
  consider "map_of (ni_by_name s) name \<noteq> None \<or> max_per_peer \<le> ?assigned \<or> 65535 < ni_next_id s"
    | "map_of (ni_by_name s) name = None" "\<not> max_per_peer \<le> ?assigned" "ni_next_id s \<le> 65535" by fastforce
  then show thesis
  proof cases
    case 1
    then have "snd (add_or_find_for_peer name peer_id max_per_peer s) = s" by (auto simp: add_or_find_for_peer_def Let_def split: option.splits)
    then show thesis by (rule same)
  next
    case 2
    then show thesis by (intro fresh[of "(ni_per_peer_assigned s)(peer_id := Some (?assigned + 1))"])
        (simp_all add: add_or_find_for_peer_def Let_def put_key_def not_less)
  qed
qed

lemma next_number:
  assumes "(n :: u32) \<le> 65535"
  shows "unat (ucast n :: u16) = unat n" "unat (n + 1) = unat n + 1" "unat n < 65536"
proof -
  have small: "unat n \<le> 65535" using assms by (simp add: word_le_nat_alt)
  then show "unat (ucast n :: u16) = unat n" "unat n < 65536" by (simp_all add: unsigned_ucast_eq take_bit_nat_eq_self)
  show "unat (n + 1) = unat n + 1" using small by (simp add: unat_word_ariths)
qed

lemma net_id_step_inv: "net_id_step s t \<Longrightarrow> net_id_inv reserved s \<Longrightarrow> net_id_inv reserved t"
proof (induction rule: net_id_step.induct)
  case (registers s name peer_id max_per_peer)
  show ?case
  proof (rule register_cases[of name peer_id max_per_peer s])
    fix assigned
    assume new: "map_of (ni_by_name s) name = None" "ni_next_id s \<le> 65535"
      and t: "snd (add_or_find_for_peer name peer_id max_per_peer s) = s\<lparr>ni_next_id := ni_next_id s + 1,
        ni_by_name := (name, ucast (ni_next_id s)) # ni_by_name s, ni_per_peer_assigned := assigned\<rparr>"
    have "name \<noteq> reserved" using new(1) registers by (auto simp: net_id_inv_def)
    moreover have "ucast (ni_next_id s) \<notin> snd ` set (ni_by_name s)" using registers next_number(1)[OF new(2)] by (force simp: net_id_inv_def)
    ultimately show ?case using registers next_number[OF new(2)] unfolding t by (fastforce simp: net_id_inv_def)
  qed (use registers in simp)
qed (simp add: net_id_inv_def net_id_remove_peer_def)

lemma net_id_run_inv: "net_id_run reserved s \<Longrightarrow> net_id_inv reserved s"
proof (induction rule: net_id_run.induct)
  case (steps s t)
  then show ?case using net_id_step_inv by blast
qed (auto simp: net_id_inv_def with_reserved_name_def net_id_default_def net_id_reset_def Let_def)

lemma net_id_step_stable: "net_id_step s t \<Longrightarrow> net_id_find name s = Some n \<Longrightarrow> net_id_find name t = Some n"
proof (induction rule: net_id_step.induct)
  case (registers s other peer_id max_per_peer)
  then show ?case by (cases rule: register_cases[of other peer_id max_per_peer s]) (auto simp: net_id_find_def)
qed (simp add: net_id_find_def net_id_remove_peer_def)

text \<open>Numbers identify names. In every run of registrations, departures and resets no number stands for two names, the name the server reserves has the number 0 that no client can
take, at most 65536 names have numbers, and as long as there is no reset a name keeps its number, even when the number space is exhausted.\<close>

theorem net_ids_unique_and_stable:
  assumes "net_id_run reserved s" "net_id_step\<^sup>*\<^sup>* s t"
  shows "distinct (map snd (ni_by_name s)) \<and> length (ni_by_name s) \<le> 65536 \<and> net_id_find reserved s = Some 0 \<and>
    (net_id_find name s = Some 0 \<longrightarrow> name = reserved) \<and> (net_id_find name s = Some n \<longrightarrow> net_id_find name t = Some n)"
proof -
  have inv: "net_id_inv reserved s" using assms(1) by (rule net_id_run_inv)
  have "name = reserved" if "net_id_find name s = Some 0"
  proof -
    have "(name, 0) \<in> set (ni_by_name s)" "(reserved, 0) \<in> set (ni_by_name s)" using that inv by (auto simp: net_id_find_def net_id_inv_def intro: map_of_SomeD)
    moreover have "inj_on snd (set (ni_by_name s))" using inv by (simp add: net_id_inv_def distinct_map)
    ultimately show ?thesis by (metis inj_onD prod.inject snd_conv)
  qed
  moreover have "net_id_find name t = Some n" if "net_id_find name s = Some n"
    using assms(2) that by (induction rule: rtranclp_induct) (auto intro: net_id_step_stable)
  ultimately show ?thesis using inv by (auto simp: net_id_inv_def net_id_find_def)
qed

section \<open>Shared content\<close>

datatype share_event =
    Share nat u16 bytes bytes ContentShareMessage nat bool
  | Cleanup u16 ContentShareCleanupMessage bool bool
  | PlayerLeft nat u16 int
  | Expire nat int int

primrec share_apply :: "share_event \<Rightarrow> ContentShareState \<Rightarrow> ContentShareState" where
  "share_apply (Share now player uuid name message limit protected) spheres =
     snd (add_with_limit_and_protection now player uuid name message limit protected spheres)"
| "share_apply (Cleanup player message moderator locked) spheres = snd (remove_authorized player message moderator locked spheres)"
| "share_apply (PlayerLeft now player timeout) spheres = snd (remove_player_with_timeout now player timeout spheres)"
| "share_apply (Expire now leave deletion) spheres = snd (expire_due now leave deletion spheres)"

text \<open>The events that may remove a sphere with good reason: a request of its owner or a moderator, its owner leaving where content does not outlast its owner, its time being up.\<close>

definition entitled :: "bytes \<Rightarrow> share_event \<Rightarrow> SharedSphere \<Rightarrow> bool" where
  "entitled key event sphere = (case event of
     Share now player uuid name message limit protected \<Rightarrow> False
   | Cleanup player message moderator locked \<Rightarrow>
       csc_sphere_net_id message = key \<and> (moderator \<or> ss_left_at sphere = None \<and> player = scs_player_id (ss_message sphere))
   | PlayerLeft now player timeout \<Rightarrow> player = scs_player_id (ss_message sphere) \<and> timeout \<le> 0
   | Expire now leave deletion \<Rightarrow> sphere_due now leave deletion sphere)"

fun undisturbed :: "bytes \<Rightarrow> share_event list \<Rightarrow> ContentShareState \<Rightarrow> bool" where
  "undisturbed key [] spheres = True"
| "undisturbed key (event # events) spheres \<longleftrightarrow>
     (case map_of spheres key of Some sphere \<Rightarrow> \<not> entitled key event sphere | None \<Rightarrow> True) \<and> undisturbed key events (share_apply event spheres)"

lemma map_of_keep: "map_of xs k = Some v \<Longrightarrow> P (k, v) \<Longrightarrow> distinct (map fst xs) \<Longrightarrow> map_of (filter P xs) k = Some v"
  by (auto simp: distinct_map_filter)

lemma share_distinct: "distinct (map fst spheres) \<Longrightarrow> distinct (map fst (share_apply event spheres))"
  by (cases event)
    (auto simp: add_with_limit_and_protection_def remove_authorized_def remove_player_with_timeout_def expire_due_def Let_def distinct_map_filter comp_def
      case_prod_beta split: option.splits)

lemma share_keeps:
  assumes "distinct (map fst spheres)" "map_of spheres key = Some sphere" "\<not> entitled key event sphere" "scs_sharer_protected (ss_message sphere)"
  shows "\<exists>sphere'. map_of (share_apply event spheres) key = Some sphere' \<and> ss_message sphere' = ss_message sphere"
proof (cases event)
  case (Share now player uuid name message limit protected)
  then show ?thesis using assms(2) by (auto simp: add_with_limit_and_protection_def Let_def)
next
  case (Cleanup player message moderator locked)
  then show ?thesis using assms(2-4) by (auto simp: remove_authorized_def entitled_def Let_def split: option.splits)
next
  case (PlayerLeft now player timeout)
  show ?thesis
  proof (cases "0 < timeout")
    case True
    define left where "left = (\<lambda>sphere :: SharedSphere. if scs_player_id (ss_message sphere) = player \<and> ss_left_at sphere = None
      then sphere\<lparr>ss_left_at := Some now\<rparr> else sphere)"
    have "share_apply event spheres = map (\<lambda>(key, sphere). (key, left sphere)) spheres"
      using PlayerLeft True by (simp add: remove_player_with_timeout_def left_def Let_def)
    moreover have "map_of (map (\<lambda>(key, sphere). (key, left sphere)) spheres) key = Some (left sphere)"
      using assms(2) by (induction spheres) (auto split: if_splits)
    moreover have "ss_message (left sphere) = ss_message sphere" by (simp add: left_def)
    ultimately show ?thesis by simp
  next
    case False
    then have "map_of (filter (\<lambda>p. \<not> (case p of (_, sphere) \<Rightarrow> scs_player_id (ss_message sphere) = player \<and> ss_left_at sphere = None)) spheres) key = Some sphere"
      using assms PlayerLeft by (intro map_of_keep) (auto simp: entitled_def)
    then show ?thesis using PlayerLeft False by (auto simp: remove_player_with_timeout_def Let_def)
  qed
next
  case (Expire now leave deletion)
  then have "map_of (filter (\<lambda>p. \<not> (case p of (_, sphere) \<Rightarrow> sphere_due now leave deletion sphere)) spheres) key = Some sphere"
    using assms by (intro map_of_keep) (auto simp: entitled_def)
  then show ?thesis using Expire by (auto simp: expire_due_def Let_def)
qed

text \<open>Protected content stays. Whatever players share, ask to clean up, and however they come and go under reused numbers, content of a protected sharer remains shared and unaltered until its owner or a
moderator removes it, its owner leaves where content does not outlast its owner, or its time is up.\<close>

theorem protected_content_stays:
  assumes "distinct (map fst spheres)" "map_of spheres key = Some sphere" "scs_sharer_protected (ss_message sphere)" "undisturbed key events spheres"
  shows "\<exists>sphere'. map_of (fold share_apply events spheres) key = Some sphere' \<and> ss_message sphere' = ss_message sphere"
  using assms
proof (induction events arbitrary: spheres sphere)
  case (Cons event events)
  then obtain sphere' where "map_of (share_apply event spheres) key = Some sphere'" "ss_message sphere' = ss_message sphere"
    using share_keeps[of spheres key sphere event] by auto
  then show ?case using Cons.IH[of "share_apply event spheres" sphere'] Cons.prems share_distinct by auto
qed simp

section \<open>Examples\<close>

definition a_scene :: ResourceManagementMessage where
  "a_scene = \<lparr>llr_mode = 1, llr_loaded_net_id = [7], llr_unlock_password = [], llr_combined_url = [], llr_uuid_of_creator = [42], llr_is_admin_locked = True,
     llr_position_x = 0, llr_position_y = 0, llr_position_z = 0, llr_quaternion_x = 0, llr_quaternion_y = 0, llr_quaternion_z = 0, llr_quaternion_w = 0,
     llr_scale_x = 0, llr_scale_y = 0, llr_scale_z = 0, llr_persist = False, llr_static_resource = False, llr_static_admin_locked = False, llr_modify_scale = False, llr_load_strategy = 2\<rparr>"

definition preloading :: ResourceState where
  "preloading = snd (start_preload 0 a_scene [1] 4 resource_state_default)"

lemma preloading_eq:
  "preloading = \<lparr>rs_resources = [([7], a_scene)], rs_creator_counts = [[42] \<mapsto> 1],
     rs_preload_sessions = [([7], \<lparr>ps_ready_peers = {}, ps_failed_peers = {}, ps_total_peer_count = 1, ps_started_at = 0\<rparr>)]\<rparr>"
  by (simp add: preloading_def start_preload_def insert_resource_def resource_state_default_def a_scene_def put_key_def remove_key_def Let_def)

lemma preloading_reached: "(resource_step 4)\<^sup>*\<^sup>* resource_state_default preloading"
  unfolding preloading_def by (rule r_into_rtranclp, rule resource_step.preload) simp

theorem resource_quotas_exact_witness: "(case rs_creator_counts preloading [42] of Some n \<Rightarrow> n | None \<Rightarrow> 0) = 1"
  using resource_quotas_exact[OF preloading_reached, of "[42]"] by (simp add: preloading_eq a_scene_def)

lemma preload_completes:
  "fst (preload_ready_request 1 \<lparr>prm_loaded_net_id = [7], prm_is_ready = True\<rparr> preloading) =
     [BroadcastUnload \<lparr>ur_mode = 1, ur_loaded_net_id = [7]\<rparr>, BroadcastSpawn \<lparr>spm_loaded_net_id = [7]\<rparr>]"
  by (simp add: preload_ready_request_def mark_preload_ready_def preloading_eq is_complete_def all_scene_unloads_def unload_each_rules Let_def case_prod_beta a_scene_def)

theorem completed_scene_is_unloaded_witness:
  "map_of (rs_resources (snd (preload_ready_request 1 \<lparr>prm_loaded_net_id = [7], prm_is_ready = True\<rparr> preloading))) [7] = None"
proof -
  have "map_of (rs_resources preloading) [7] = Some a_scene" "llr_mode a_scene = 1" by (simp_all add: preloading_eq a_scene_def)
  then show ?thesis using completed_scene_is_unloaded[OF preloading_reached _ _ prod.collapse[symmetric], of "[7]"] preload_completes by simp
qed

definition a_prop :: ResourceManagementMessage where "a_prop = a_scene\<lparr>llr_mode := 0, llr_loaded_net_id := [8]\<rparr>"

definition furnished :: ResourceState where "furnished = snd (load_resource_with_limit a_prop 4 preloading)"

lemma furnished_reached: "(resource_step 4)\<^sup>*\<^sup>* resource_state_default furnished"
  unfolding furnished_def by (rule rtranclp.rtrancl_into_rtrancl[OF preloading_reached], rule resource_step.load) simp

text \<open>The creator asks to unload the locked prop, then a report completes the preload of the scene: the prop stays.\<close>

theorem locked_resource_is_kept_witness:
  "\<exists>current. map_of (rs_resources (snd (preload_ready_request 1 \<lparr>prm_loaded_net_id = [7], prm_is_ready = True\<rparr>
     (snd (unload_request False False [42] \<lparr>ur_mode = 0, ur_loaded_net_id = [8]\<rparr> furnished))))) [8] = Some current \<and> llr_is_admin_locked current"
proof -
  let ?s = "snd (unload_request False False [42] \<lparr>ur_mode = 0, ur_loaded_net_id = [8]\<rparr> furnished)"
  have "(player_step True)\<^sup>*\<^sup>* furnished ?s" by (rule r_into_rtranclp, rule player_step.unloads)
  then have "(player_step True)\<^sup>*\<^sup>* furnished (snd (preload_ready_request 1 \<lparr>prm_loaded_net_id = [7], prm_is_ready = True\<rparr> ?s))"
    by (rule rtranclp.rtrancl_into_rtrancl) (rule player_step.reports[OF prod.collapse[symmetric]], simp)
  moreover have "map_of (rs_resources furnished) [8] = Some a_prop" "llr_is_admin_locked a_prop" "llr_mode a_prop \<noteq> 1"
    by (simp_all add: furnished_def load_resource_with_limit_def insert_resource_def preloading_eq a_prop_def a_scene_def put_key_def Let_def)
  ultimately show ?thesis using locked_resource_is_kept[OF furnished_reached] by blast
qed

theorem net_ids_unique_and_stable_witness:
  "net_id_find [5] (snd (add_or_find_for_peer [6] 3 1 (snd (add_or_find_for_peer [5] 2 1 (with_reserved_name [1]))))) = Some 1"
proof -
  let ?s = "snd (add_or_find_for_peer [5] 2 1 (with_reserved_name [1]))"
  have "net_id_run [1] ?s" by (rule net_id_run.steps[OF net_id_run.begins], rule net_id_step.registers)
  moreover have "net_id_step\<^sup>*\<^sup>* ?s (snd (add_or_find_for_peer [6] 3 1 ?s))" by (rule r_into_rtranclp, rule net_id_step.registers)
  moreover have "net_id_find [5] ?s = Some 1" by code_simp
  ultimately show ?thesis using net_ids_unique_and_stable by blast
qed

definition shared_share :: ContentShareState where
  "shared_share = snd (add_with_limit_and_protection 0 2 [] []
     \<lparr>csm_sphere_net_id = [3], csm_content_url = [], csm_unlock_password = [], csm_content_type = ContentShareType_from 0, csm_position_x = 0, csm_position_y = 0, csm_position_z = 0\<rparr> 1 True [])"

theorem protected_content_stays_witness:
  "\<exists>sphere. map_of (fold share_apply [PlayerLeft 5 2 60, Cleanup 2 \<lparr>csc_sphere_net_id = [3]\<rparr> False False, Expire 1000 60 0] shared_share) [3] = Some sphere"
proof -
  let ?sphere = "the (map_of shared_share [3])"
  have "distinct (map fst shared_share)" "map_of shared_share [3] = Some ?sphere" "scs_sharer_protected (ss_message ?sphere)"
    "undisturbed [3] [PlayerLeft 5 2 60, Cleanup 2 \<lparr>csc_sphere_net_id = [3]\<rparr> False False, Expire 1000 60 0] shared_share"
    by (simp_all add: shared_share_def add_with_limit_and_protection_def remove_player_with_timeout_def remove_authorized_def sphere_due_def entitled_def
        present_spheres_def put_key_def remove_key_def Let_def)
  then show ?thesis using protected_content_stays by blast
qed

end
