(* ===== verification/AvatarUplink.thy ===== *)
theory AvatarUplink
  imports AvatarDeltaProperties
begin

text \<open>
  How the avatar of a player reaches the server: keyframes and deltas against the last keyframe, over a channel that loses, repeats and reorders.
  The sending side is \<open>write_unity_avatar_datagram_with_additional\<close> of the client (\<open>basis-client-core/src/avatar.rs\<close>) from the decision on a
  keyframe on; the pose, which is computed with floating-point numbers, and whether the time for a keyframe has come are arguments. The
  receiving side is \<open>capture_uplink_delta_baseline\<close>, \<open>handle_uplink_avatar_delta\<close> and the arm of \<open>handle_message\<close> for full frames in
  \<open>basis-server-core/src/lib.rs\<close> with \<open>upsert_from_channel_payload\<close> of \<open>avatar_sync.rs\<close>. Instants are milliseconds.
\<close>

section \<open>Channels\<close>

definition PLAYER_AVATAR_VERY_LOW :: u8 where "PLAYER_AVATAR_VERY_LOW = 6"
definition PLAYER_AVATAR_HIGH :: u8 where "PLAYER_AVATAR_HIGH = 12"
definition PLAYER_AVATAR_HIGH_ADDITIONAL :: u8 where "PLAYER_AVATAR_HIGH_ADDITIONAL = 13"
definition PLAYER_AVATAR_VERY_LOW_LARGE :: u8 where "PLAYER_AVATAR_VERY_LOW_LARGE = 41"
definition DELTA_AVATAR :: u8 where "DELTA_AVATAR = 30"
definition DELTA_HEADER_CONTROL_BIT :: u8 where "DELTA_HEADER_CONTROL_BIT = 0x80"
definition DELTA_CONTROL_KEYFRAME_REQUEST :: u8 where "DELTA_CONTROL_KEYFRAME_REQUEST = 0x80"
definition DELTA_HEADER_QUALITY_MASK :: u8 where "DELTA_HEADER_QUALITY_MASK = 0x03"
definition DELTA_HEADER_ADDITIONAL_DATA :: u8 where "DELTA_HEADER_ADDITIONAL_DATA = 0x04"

lemmas uplink_constants = PLAYER_AVATAR_VERY_LOW_def PLAYER_AVATAR_HIGH_def PLAYER_AVATAR_HIGH_ADDITIONAL_def PLAYER_AVATAR_VERY_LOW_LARGE_def
  DELTA_AVATAR_def DELTA_HEADER_CONTROL_BIT_def DELTA_CONTROL_KEYFRAME_REQUEST_def DELTA_HEADER_QUALITY_MASK_def DELTA_HEADER_ADDITIONAL_DATA_def

definition player_avatar_channel_for_quality :: "u8 \<Rightarrow> bool \<Rightarrow> u8" where
  "player_avatar_channel_for_quality quality has_additional_data =
     PLAYER_AVATAR_VERY_LOW + quality * 2 + (if has_additional_data then 1 else 0)"

definition quality_from_channel :: "u8 \<Rightarrow> u8" where
  "quality_from_channel chan =
     (if PLAYER_AVATAR_VERY_LOW_LARGE \<le> chan then (chan - PLAYER_AVATAR_VERY_LOW_LARGE) div 2 else (chan - PLAYER_AVATAR_VERY_LOW) div 2)"

definition channel_has_additional_data :: "u8 \<Rightarrow> bool" where
  "channel_has_additional_data chan =
     (if PLAYER_AVATAR_VERY_LOW_LARGE \<le> chan then (chan - PLAYER_AVATAR_VERY_LOW_LARGE) AND 1 = 1
      else (chan - PLAYER_AVATAR_VERY_LOW) AND 1 = 1)"

section \<open>Client\<close>

record UnityAvatarSendState =
  ua_sequence :: u8
  ua_keyframe_payload :: bytes
  ua_keyframe_sequence :: u8
  ua_has_keyframe :: bool
  ua_force_keyframe :: bool

definition append_synthetic_additional_avatar_data :: "bytes \<Rightarrow> u8 \<Rightarrow> u8 \<Rightarrow> bytes" where
  "append_synthetic_additional_avatar_data payload byte_count sequence =
     (if byte_count = 0 then payload
      else payload @ [1, 0, byte_count, 0] @ map (\<lambda>offset. sequence + of_nat offset * 37) [0..<unat byte_count])"

text \<open>The datagram without its transport property: channel and payload. A panic of \<open>build_delta\<close>, which is excluded by proof, would be a keyframe here.\<close>

definition write_avatar_datagram ::
  "bool \<Rightarrow> bool \<Rightarrow> bool \<Rightarrow> bytes \<Rightarrow> u8 \<Rightarrow> UnityAvatarSendState \<Rightarrow> (u8 \<times> bytes) \<times> UnityAvatarSendState" where
  "write_avatar_datagram uplink_delta_enabled force_keyframe time_due current additional_avatar_bytes s =
     (let s = (if force_keyframe then s\<lparr>ua_force_keyframe := True\<rparr> else s);
          keyframe_due = (force_keyframe \<or> ua_force_keyframe s \<or> \<not> uplink_delta_enabled \<or> \<not> ua_has_keyframe s \<or> time_due);
          sequence = ua_sequence s;
          delta_body = (if keyframe_due then None
            else case build_delta (ua_keyframe_payload s) current High of
                Some (Inr delta) \<Rightarrow> if length delta < length current then Some delta else None
              | _ \<Rightarrow> None);
          (chan, payload, s) = (case delta_body of
              None \<Rightarrow>
                (player_avatar_channel_for_quality 3 (0 < additional_avatar_bytes), sequence # current,
                 (if uplink_delta_enabled then s\<lparr>ua_keyframe_payload := current, ua_keyframe_sequence := sequence, ua_has_keyframe := True\<rparr> else s)
                   \<lparr>ua_force_keyframe := False\<rparr>)
            | Some delta \<Rightarrow>
                (DELTA_AVATAR,
                 [3 OR (if 0 < additional_avatar_bytes then DELTA_HEADER_ADDITIONAL_DATA else 0), sequence, ua_keyframe_sequence s] @ delta, s))
      in ((chan, append_synthetic_additional_avatar_data payload additional_avatar_bytes sequence), s\<lparr>ua_sequence := ua_sequence s + 1\<rparr>))"

section \<open>Server\<close>

record UplinkDeltaState =
  ud_baseline :: bytes
  ud_baseline_sequence :: u8
  ud_last_nack :: nat

definition uplink_delta_empty :: "nat \<Rightarrow> UplinkDeltaState" where
  "uplink_delta_empty now = \<lparr>ud_baseline = [], ud_baseline_sequence = 0, ud_last_nack = (if 2000 \<le> now then now - 2000 else now)\<rparr>"

text \<open>Of the server state: the baselines, the updates that wait for the avatar tick, the registered players and the lock on additional data.\<close>

record uplink_server =
  us_uplink_delta_states :: "u16 \<Rightarrow> UplinkDeltaState option"
  us_pending :: "u16 \<Rightarrow> (u8 \<times> bytes) option"
  us_live_players :: "u16 set"
  us_additional_avatar_data_lock :: bool

fun additional_items :: "nat \<Rightarrow> bytes \<Rightarrow> bool" where
  "additional_items 0 rest \<longleftrightarrow> rest = []"
| "additional_items (Suc n) rest =
     (case rest of
        [] \<Rightarrow> False
      | len # rest \<Rightarrow>
          if len = 0 then additional_items n rest
          else (case rest of
              [] \<Rightarrow> False
            | message_index # rest \<Rightarrow> unat len \<le> length rest \<and> additional_items n (drop (unat len) rest)))"

definition validate_additional_avatar_data :: "bytes \<Rightarrow> bool" where
  "validate_additional_avatar_data section =
     (case section of
        [] \<Rightarrow> False
      | items # rest \<Rightarrow> if items = 0 then rest = [] else rest \<noteq> [] \<and> additional_items (unat items) (tl rest))"

fun quality_of_index :: "u8 \<Rightarrow> BitQuality" where
  "quality_of_index n = (if n = 0 then VeryLow else if n = 1 then Low else if n = 2 then Medium else High)"

definition upsert_from_channel_payload :: "u16 \<Rightarrow> u8 \<Rightarrow> bytes \<Rightarrow> uplink_server \<Rightarrow> bool \<times> uplink_server" where
  "upsert_from_channel_payload peer_id chan payload s =
     (if peer_id \<notin> us_live_players s \<or> payload = [] then (True, s)
      else
        let fixed_end = 1 + payload_len (quality_of_index (quality_from_channel chan))
        in if length payload < fixed_end then (False, s)
           else if channel_has_additional_data chan \<and> \<not> validate_additional_avatar_data (drop fixed_end payload) then (False, s)
           else
             let retained_len = (if channel_has_additional_data chan then length payload else fixed_end)
             in (True, s\<lparr>us_pending := (us_pending s)(peer_id := Some (chan, take retained_len payload))\<rparr>))"

definition capture_uplink_delta_baseline :: "nat \<Rightarrow> u16 \<Rightarrow> bytes \<Rightarrow> uplink_server \<Rightarrow> uplink_server" where
  "capture_uplink_delta_baseline now peer payload s =
     (let required = 1 + payload_len High
      in if length payload < required then s
         else
           let entry = (case us_uplink_delta_states s peer of Some entry \<Rightarrow> entry | None \<Rightarrow> uplink_delta_empty now)
           in s\<lparr>us_uplink_delta_states := (us_uplink_delta_states s)(peer :=
                Some (entry\<lparr>ud_baseline := drop 1 (take required payload), ud_baseline_sequence := hd payload\<rparr>))\<rparr>)"

text \<open>A full frame: with the lock on additional data its section is cut off first.\<close>

definition handle_high_avatar :: "nat \<Rightarrow> u16 \<Rightarrow> u8 \<Rightarrow> bytes \<Rightarrow> uplink_server \<Rightarrow> uplink_server" where
  "handle_high_avatar now peer chan payload s =
     (let strip_additional = (us_additional_avatar_data_lock s \<and> channel_has_additional_data chan);
          ingest_channel = (if strip_additional then chan - 1 else chan);
          ingest_payload = (if strip_additional then take (min (1 + payload_len High) (length payload)) payload else payload)
      in if ingest_payload = [] then s
         else case upsert_from_channel_payload peer ingest_channel ingest_payload s of
             (True, s) \<Rightarrow> capture_uplink_delta_baseline now peer ingest_payload s
           | (False, s) \<Rightarrow> s)"

text \<open>What a delta makes the server do besides: ask the sender for a keyframe, or pass a request of the receiver on to another sender. Whether the transport takes the message
is left out; it does not change the state.\<close>

datatype uplink_output = AskKeyframe u16 | RequestKeyframe u16 u16

definition handle_uplink_avatar_delta ::
  "nat \<Rightarrow> u16 \<Rightarrow> bytes \<Rightarrow> uplink_server \<Rightarrow> (unit + bool) \<times> uplink_output list \<times> uplink_server" where
  "handle_uplink_avatar_delta now peer payload s =
     (case payload of
        [] \<Rightarrow> (Inr False, [], s)
      | header # rest \<Rightarrow>
          if header AND DELTA_HEADER_CONTROL_BIT \<noteq> 0
          then (Inr False,
                if header = DELTA_CONTROL_KEYFRAME_REQUEST \<and> 3 \<le> length payload then [RequestKeyframe (of_le (take 2 rest)) peer] else [], s)
          else if header AND DELTA_HEADER_QUALITY_MASK \<noteq> 3 then (Inr False, [], s)
          else if length payload < 3 then (Inl (), [], s)
          else
            let sequence = payload ! 1; base_sequence = payload ! 2;
                entry = (case us_uplink_delta_states s peer of Some entry \<Rightarrow> entry | None \<Rightarrow> uplink_delta_empty now)
            in if length (ud_baseline entry) \<noteq> payload_len High \<or> ud_baseline_sequence entry \<noteq> base_sequence
               then (let should_nack = (1000 \<le> now - ud_last_nack entry);
                         entry = (if should_nack then entry\<lparr>ud_last_nack := now\<rparr> else entry)
                     in (Inr False, if should_nack then [AskKeyframe peer] else [],
                         s\<lparr>us_uplink_delta_states := (us_uplink_delta_states s)(peer := Some entry)\<rparr>))
               else
                 let s = s\<lparr>us_uplink_delta_states := (us_uplink_delta_states s)(peer := Some entry)\<rparr>
                 in case apply_delta (ud_baseline entry) (drop 3 payload) High of
                      Inl _ \<Rightarrow> (Inl (), [], s)
                    | Inr (full_payload, delta_body_len) \<Rightarrow>
                        let has_additional = (header AND DELTA_HEADER_ADDITIONAL_DATA \<noteq> 0 \<and> \<not> us_additional_avatar_data_lock s);
                            additional_start = 3 + delta_body_len
                        in if has_additional \<and> length payload < additional_start then (Inl (), [], s)
                           else
                             let full_frame = sequence # full_payload @ (if has_additional then drop additional_start payload else []);
                                 chan = (if has_additional then PLAYER_AVATAR_HIGH_ADDITIONAL else PLAYER_AVATAR_HIGH)
                             in case upsert_from_channel_payload peer chan full_frame s of
                                  (True, s) \<Rightarrow> (Inr True, [], s)
                                | (False, s) \<Rightarrow> (Inl (), [], s))"

end
