(* ===== verification/AvatarUplinkProperties.thy ===== *)
theory AvatarUplinkProperties
  imports AvatarUplink
begin

text \<open>
  The avatar of a player as the server sees it: every frame that the server accepts is a frame of the client, whatever the network does to the datagrams, as
  long as baseline and delta are less than 256 frames apart; a keyframe makes deltas decodable again; and beyond 256 frames the eight-bit
  number of a keyframe no longer identifies it.
\<close>

section \<open>Datagrams on their way\<close>

text \<open>A datagram with the index of its frame, of the keyframe it builds on and the size of its additional data.\<close>

record uplink_datagram =
  dg_frame :: nat
  dg_base :: "nat option"
  dg_additional :: u8
  dg_channel :: u8
  dg_payload :: bytes

text \<open>Client and server, every frame of the client so far, the index of its last keyframe, the datagrams that were sent, and the frame behind the server's baseline.\<close>

record uplink_world =
  uw_client :: UnityAvatarSendState
  uw_server :: uplink_server
  uw_frames :: "bytes list"
  uw_keyframe :: nat
  uw_network :: "uplink_datagram list"
  uw_baseline :: "nat option"

definition uplink_start :: "u16 set \<Rightarrow> uplink_world" where
  "uplink_start live = \<lparr>uw_client = \<lparr>ua_sequence = 0, ua_keyframe_payload = [], ua_keyframe_sequence = 0, ua_has_keyframe = False, ua_force_keyframe = False\<rparr>,
     uw_server = \<lparr>us_uplink_delta_states = (\<lambda>_. None), us_pending = (\<lambda>_. None), us_live_players = live, us_additional_avatar_data_lock = False\<rparr>,
     uw_frames = [], uw_keyframe = 0, uw_network = [], uw_baseline = None\<rparr>"

definition uplink_send :: "bool \<Rightarrow> bool \<Rightarrow> bytes \<Rightarrow> u8 \<Rightarrow> uplink_world \<Rightarrow> uplink_world" where
  "uplink_send force due current additional w =
     (case write_avatar_datagram True force due current additional (uw_client w) of
        ((chan, payload), client) \<Rightarrow>
          let n = length (uw_frames w)
          in w\<lparr>uw_client := client, uw_frames := uw_frames w @ [current], uw_keyframe := (if chan = DELTA_AVATAR then uw_keyframe w else n),
               uw_network := \<lparr>dg_frame = n, dg_base = (if chan = DELTA_AVATAR then Some (uw_keyframe w) else None), dg_additional = additional,
                 dg_channel = chan, dg_payload = payload\<rparr> # uw_network w\<rparr>)"

definition uplink_deliver :: "u16 \<Rightarrow> nat \<Rightarrow> uplink_datagram \<Rightarrow> uplink_world \<Rightarrow> uplink_world" where
  "uplink_deliver peer now d w =
     (if dg_channel d = DELTA_AVATAR
      then w\<lparr>uw_server := snd (snd (handle_uplink_avatar_delta now peer (dg_payload d) (uw_server w)))\<rparr>
      else w\<lparr>uw_server := handle_high_avatar now peer (dg_channel d) (dg_payload d) (uw_server w), uw_baseline := Some (dg_frame d)\<rparr>)"

text \<open>The network delivers any datagram that was sent, at any time, any number of times or never.\<close>

inductive uplink_reach :: "u16 \<Rightarrow> uplink_world \<Rightarrow> bool" for peer where
  starts: "peer \<in> live \<Longrightarrow> uplink_reach peer (uplink_start live)"
| sends: "uplink_reach peer w \<Longrightarrow> length current = payload_len High \<Longrightarrow> uplink_reach peer (uplink_send force due current additional w)"
| delivers: "uplink_reach peer w \<Longrightarrow> d \<in> set (uw_network w) \<Longrightarrow> uplink_reach peer (uplink_deliver peer now d w)"
| locks: "uplink_reach peer w \<Longrightarrow> uplink_reach peer (w\<lparr>uw_server := (uw_server w)\<lparr>us_additional_avatar_data_lock := locked\<rparr>\<rparr>)"

definition synthetic :: "u8 \<Rightarrow> nat \<Rightarrow> bytes" where
  "synthetic additional n = append_synthetic_additional_avatar_data [] additional (of_nat n)"

lemma append_synthetic: "append_synthetic_additional_avatar_data payload additional (of_nat n) = payload @ synthetic additional n"
  by (simp add: append_synthetic_additional_avatar_data_def synthetic_def)

lemma synthetic_0 [simp]: "synthetic 0 n = []"
  by (simp add: synthetic_def append_synthetic_additional_avatar_data_def)

lemma synthetic_valid: "0 < additional \<Longrightarrow> validate_additional_avatar_data (synthetic additional n)"
  by (simp add: synthetic_def append_synthetic_additional_avatar_data_def validate_additional_avatar_data_def)

lemma high_channels:
  "player_avatar_channel_for_quality 3 False = 12" "player_avatar_channel_for_quality 3 True = 13"
  "quality_of_index (quality_from_channel 12) = High" "quality_of_index (quality_from_channel 13) = High"
  "\<not> channel_has_additional_data 12" "channel_has_additional_data 13"
  by (simp_all add: player_avatar_channel_for_quality_def quality_from_channel_def channel_has_additional_data_def uplink_constants)

declare quality_of_index.simps [simp del]

section \<open>What the client sends\<close>

definition avatar_channel :: "u8 \<Rightarrow> u8" where
  "avatar_channel additional = (if 0 < additional then 13 else 12)"

lemma avatar_channel_high: "player_avatar_channel_for_quality 3 (0 < additional) = avatar_channel additional"
  by (cases "0 < additional") (simp_all add: avatar_channel_def high_channels)

definition delta_to_send :: "bool \<Rightarrow> bool \<Rightarrow> bytes \<Rightarrow> UnityAvatarSendState \<Rightarrow> bytes option" where
  "delta_to_send force due current c =
     (if force \<or> ua_force_keyframe c \<or> \<not> ua_has_keyframe c \<or> due then None
      else case build_delta (ua_keyframe_payload c) current High of
          Some (Inr delta) \<Rightarrow> if length delta < length current then Some delta else None
        | _ \<Rightarrow> None)"

lemma write_alt:
  "write_avatar_datagram True force due current additional c =
     (case delta_to_send force due current c of
        None \<Rightarrow> ((avatar_channel additional, append_synthetic_additional_avatar_data (ua_sequence c # current) additional (ua_sequence c)),
          c\<lparr>ua_sequence := ua_sequence c + 1, ua_keyframe_payload := current, ua_keyframe_sequence := ua_sequence c, ua_has_keyframe := True,
            ua_force_keyframe := False\<rparr>)
      | Some delta \<Rightarrow> ((DELTA_AVATAR, append_synthetic_additional_avatar_data
          ((3 OR (if 0 < additional then DELTA_HEADER_ADDITIONAL_DATA else 0)) # ua_sequence c # ua_keyframe_sequence c # delta) additional (ua_sequence c)),
          c\<lparr>ua_sequence := ua_sequence c + 1\<rparr>))"
proof (cases force)
  case True
  then show ?thesis by (simp add: write_avatar_datagram_def delta_to_send_def Let_def avatar_channel_high)
next
  case False
  have "write_avatar_datagram True False due current additional c =
    (case delta_to_send False due current c of
        None \<Rightarrow> ((avatar_channel additional, append_synthetic_additional_avatar_data (ua_sequence c # current) additional (ua_sequence c)),
          c\<lparr>ua_sequence := ua_sequence c + 1, ua_keyframe_payload := current, ua_keyframe_sequence := ua_sequence c, ua_has_keyframe := True,
            ua_force_keyframe := False\<rparr>)
      | Some delta \<Rightarrow> ((DELTA_AVATAR, append_synthetic_additional_avatar_data
          ((3 OR (if 0 < additional then DELTA_HEADER_ADDITIONAL_DATA else 0)) # ua_sequence c # ua_keyframe_sequence c # delta) additional (ua_sequence c)),
          c\<lparr>ua_sequence := ua_sequence c + 1\<rparr>))"
    unfolding write_avatar_datagram_def delta_to_send_def[symmetric, of False, unfolded simp_thms]
    by (cases "delta_to_send False due current c") (simp_all add: delta_to_send_def Let_def avatar_channel_high)
  then show ?thesis using False by simp
qed

lemma write_cases:
  assumes "write_avatar_datagram True force due current additional c = ((chan, payload), c')" "ua_sequence c = of_nat n"
  obtains (key) "chan = avatar_channel additional" "payload = of_nat n # current @ synthetic additional n"
      "c' = c\<lparr>ua_sequence := of_nat (Suc n), ua_keyframe_payload := current, ua_keyframe_sequence := of_nat n, ua_has_keyframe := True, ua_force_keyframe := False\<rparr>"
    | (delta) body where "ua_has_keyframe c" "build_delta (ua_keyframe_payload c) current High = Some (Inr body)" "chan = DELTA_AVATAR" "\<not> force" "\<not> due"
      "payload = (if 0 < additional then 7 else 3) # of_nat n # ua_keyframe_sequence c # body @ synthetic additional n"
      "c' = c\<lparr>ua_sequence := of_nat (Suc n)\<rparr>"
proof (cases "delta_to_send force due current c")
  case None
  then show thesis using assms by (intro that(1)) (auto simp: write_alt append_synthetic add.commute)
next
  case (Some body)
  have "ua_has_keyframe c" "\<not> force" "\<not> due" "build_delta (ua_keyframe_payload c) current High = Some (Inr body)"
    using Some by (auto simp: delta_to_send_def split: if_splits option.splits sum.splits)
  then show thesis using assms Some by (intro that(2)[of body]) (auto simp: write_alt append_synthetic uplink_constants add.commute)
qed

section \<open>Invariant\<close>

text \<open>A datagram carries its frame, in full or as a delta against an earlier frame.\<close>

definition well_sent :: "bytes list \<Rightarrow> uplink_datagram \<Rightarrow> bool" where
  "well_sent frames d \<longleftrightarrow> dg_frame d < length frames \<and>
     (case dg_base d of
        None \<Rightarrow> dg_channel d = avatar_channel (dg_additional d) \<and>
          dg_payload d = of_nat (dg_frame d) # frames ! dg_frame d @ synthetic (dg_additional d) (dg_frame d)
      | Some k \<Rightarrow> k < dg_frame d \<and> dg_channel d = DELTA_AVATAR \<and>
          (\<exists>body. build_delta (frames ! k) (frames ! dg_frame d) High = Some (Inr body) \<and>
             dg_payload d = (if 0 < dg_additional d then 7 else 3) # of_nat (dg_frame d) # of_nat k # body @ synthetic (dg_additional d) (dg_frame d)))"

definition client_ok :: "bytes list \<Rightarrow> nat \<Rightarrow> UnityAvatarSendState \<Rightarrow> bool" where
  "client_ok frames k c \<longleftrightarrow> ua_sequence c = of_nat (length frames) \<and>
     (ua_has_keyframe c \<longrightarrow> k < length frames \<and> ua_keyframe_payload c = frames ! k \<and> ua_keyframe_sequence c = of_nat k)"

definition baseline_ok :: "bytes list \<Rightarrow> nat option \<Rightarrow> UplinkDeltaState option \<Rightarrow> bool" where
  "baseline_ok frames b entry = (case b of
     None \<Rightarrow> (case entry of None \<Rightarrow> True | Some e \<Rightarrow> ud_baseline e = [])
   | Some b \<Rightarrow> b < length frames \<and> (case entry of None \<Rightarrow> False | Some e \<Rightarrow> ud_baseline e = frames ! b \<and> ud_baseline_sequence e = of_nat b))"

definition uplink_inv :: "u16 \<Rightarrow> uplink_world \<Rightarrow> bool" where
  "uplink_inv peer w \<longleftrightarrow> list_all (\<lambda>p. length p = payload_len High) (uw_frames w) \<and> client_ok (uw_frames w) (uw_keyframe w) (uw_client w) \<and>
     list_all (well_sent (uw_frames w)) (uw_network w) \<and> baseline_ok (uw_frames w) (uw_baseline w) (us_uplink_delta_states (uw_server w) peer) \<and>
     peer \<in> us_live_players (uw_server w)"

lemma well_sent_append: "well_sent frames d \<Longrightarrow> well_sent (frames @ more_frames) d"
  by (auto simp: well_sent_def nth_append split: option.splits)

lemma baseline_ok_append: "baseline_ok frames b entry \<Longrightarrow> baseline_ok (frames @ more_frames) b entry"
  by (auto simp: baseline_ok_def nth_append split: option.splits)

lemma avatar_channel_full [simp]: "avatar_channel additional \<noteq> DELTA_AVATAR" "DELTA_AVATAR \<noteq> avatar_channel additional"
  by (auto simp: avatar_channel_def uplink_constants)

lemma uplink_send_inv:
  assumes "uplink_inv peer w" "length current = payload_len High"
  shows "uplink_inv peer (uplink_send force due current additional w)"
proof -
  let ?n = "length (uw_frames w)"
  obtain chan payload c' where sent: "write_avatar_datagram True force due current additional (uw_client w) = ((chan, payload), c')" by (metis prod.collapse)
  have seq: "ua_sequence (uw_client w) = of_nat ?n" using assms(1) by (simp add: uplink_inv_def client_ok_def)
  have old: "list_all (well_sent (uw_frames w @ [current])) (uw_network w)"
    "baseline_ok (uw_frames w @ [current]) (uw_baseline w) (us_uplink_delta_states (uw_server w) peer)"
    using assms(1) by (auto simp: uplink_inv_def list_all_iff well_sent_append baseline_ok_append)
  have new: "uplink_send force due current additional w = w\<lparr>uw_client := c', uw_frames := uw_frames w @ [current],
      uw_keyframe := (if chan = DELTA_AVATAR then uw_keyframe w else ?n),
      uw_network := \<lparr>dg_frame = ?n, dg_base = (if chan = DELTA_AVATAR then Some (uw_keyframe w) else None), dg_additional = additional,
        dg_channel = chan, dg_payload = payload\<rparr> # uw_network w\<rparr>"
    by (simp add: uplink_send_def sent Let_def)
  from sent seq show ?thesis
  proof (cases rule: write_cases)
    case key
    then show ?thesis unfolding new using assms old by (simp add: uplink_inv_def client_ok_def well_sent_def)
  next
    case (delta body)
    have base: "uw_keyframe w < ?n" "ua_keyframe_payload (uw_client w) = uw_frames w ! uw_keyframe w" "ua_keyframe_sequence (uw_client w) = of_nat (uw_keyframe w)"
      using assms(1) delta(1) by (auto simp: uplink_inv_def client_ok_def)
    then show ?thesis unfolding new using assms old delta(1-3,6,7) by (simp add: uplink_inv_def client_ok_def well_sent_def nth_append)
  qed
qed

section \<open>What the server makes of it\<close>

text \<open>The update that a frame leaves for the avatar tick.\<close>

definition received :: "bool \<Rightarrow> bytes list \<Rightarrow> uplink_datagram \<Rightarrow> u8 \<times> bytes" where
  "received locked frames d =
     (if locked then (12, of_nat (dg_frame d) # frames ! dg_frame d)
      else (avatar_channel (dg_additional d), of_nat (dg_frame d) # frames ! dg_frame d @ synthetic (dg_additional d) (dg_frame d)))"

lemma upsert_high:
  assumes "peer \<in> us_live_players s" "length current = payload_len High"
  shows "upsert_from_channel_payload peer 12 (n # current @ rest) s = (True, s\<lparr>us_pending := (us_pending s)(peer := Some (12, n # current))\<rparr>)"
    and "0 < additional \<Longrightarrow> upsert_from_channel_payload peer 13 (n # current @ synthetic additional m) s =
      (True, s\<lparr>us_pending := (us_pending s)(peer := Some (13, n # current @ synthetic additional m))\<rparr>)"
  using assms by (simp_all add: upsert_from_channel_payload_def Let_def high_channels synthetic_valid)

lemma handle_high:
  assumes "peer \<in> us_live_players s" "length current = payload_len High"
  shows "handle_high_avatar now peer (avatar_channel additional) (n # current @ synthetic additional m) s =
    capture_uplink_delta_baseline now peer (n # current)
      (s\<lparr>us_pending := (us_pending s)(peer := Some (if us_additional_avatar_data_lock s then (12, n # current)
        else (avatar_channel additional, n # current @ synthetic additional m)))\<rparr>)"
proof (cases "0 < additional")
  case True
  have "capture_uplink_delta_baseline now peer (n # current @ synthetic additional m) t = capture_uplink_delta_baseline now peer (n # current) t" for t
    using assms(2) by (simp add: capture_uplink_delta_baseline_def Let_def)
  then show ?thesis using assms True upsert_high(1)[OF assms, where n = n and rest = "[]"] upsert_high(2)[OF assms, where n = n and additional = additional and m = m]
    by (simp add: handle_high_avatar_def Let_def high_channels avatar_channel_def)
next
  case False
  then have "additional = 0" by (simp add: word_neq_0_conv[symmetric])
  then show ?thesis using assms upsert_high(1)[OF assms, where n = n and rest = "[]"] by (simp add: handle_high_avatar_def Let_def high_channels avatar_channel_def)
qed

lemma capture_baseline:
  assumes "length current = payload_len High"
  shows "us_pending (capture_uplink_delta_baseline now peer (n # current) s) = us_pending s"
    and "us_live_players (capture_uplink_delta_baseline now peer (n # current) s) = us_live_players s"
    and "us_additional_avatar_data_lock (capture_uplink_delta_baseline now peer (n # current) s) = us_additional_avatar_data_lock s"
    and "\<exists>entry. us_uplink_delta_states (capture_uplink_delta_baseline now peer (n # current) s) peer = Some entry \<and> ud_baseline entry = current \<and> ud_baseline_sequence entry = n"
  using assms by (simp_all add: capture_uplink_delta_baseline_def Let_def)

text \<open>A delta whose base does not match the baseline at hand leaves the pending update alone.\<close>

lemma handle_delta_unmatched:
  assumes "length (ud_baseline entry) \<noteq> payload_len High \<or> ud_baseline_sequence entry \<noteq> base"
    and "(case us_uplink_delta_states s peer of Some entry \<Rightarrow> entry | None \<Rightarrow> uplink_delta_empty now) = entry"
  shows "\<exists>entry'. snd (snd (handle_uplink_avatar_delta now peer ((if 0 < additional then 7 else 3) # n # base # rest) s)) =
    s\<lparr>us_uplink_delta_states := (us_uplink_delta_states s)(peer := Some entry')\<rparr>"
  using assms by (auto simp: handle_uplink_avatar_delta_def Let_def uplink_constants)

lemma drop_header: "drop (3 + length body) (a # b # c # body @ rest) = rest"
  by (simp add: numeral_3_eq_3)

lemma handle_delta_matched:
  assumes "us_uplink_delta_states s peer = Some entry" "length (ud_baseline entry) = payload_len High" "peer \<in> us_live_players s"
    and "apply_delta (ud_baseline entry) (body @ synthetic additional m) High = Inr (result, length body)"
    and "length result = payload_len High"
  shows "handle_uplink_avatar_delta now peer ((if 0 < additional then 7 else 3) # n # ud_baseline_sequence entry # body @ synthetic additional m) s =
    (Inr True, [], s\<lparr>us_pending := (us_pending s)(peer := Some (if us_additional_avatar_data_lock s then (12, n # result)
      else (avatar_channel additional, n # result @ synthetic additional m)))\<rparr>)"
proof (cases "0 < additional \<and> \<not> us_additional_avatar_data_lock s")
  case True
  then show ?thesis using assms(1-4) upsert_high(2)[OF assms(3,5), where n = n and additional = additional and m = m]
    by (simp add: handle_uplink_avatar_delta_def Let_def uplink_constants avatar_channel_def fun_upd_idem drop_header)
next
  case False
  have same: "(us_uplink_delta_states s)(peer := Some entry) = us_uplink_delta_states s" using assms(1) by auto
  have "\<not> 0 < additional \<Longrightarrow> synthetic additional m = []" by (metis synthetic_0 word_neq_0_conv)
  then show ?thesis using False assms(1-4) upsert_high(1)[OF assms(3,5), where n = n and rest = "[]"]
    by (auto simp: handle_uplink_avatar_delta_def Let_def uplink_constants avatar_channel_def same)
qed

lemma inv_frame: "uplink_inv peer w \<Longrightarrow> i < length (uw_frames w) \<Longrightarrow> length (uw_frames w ! i) = payload_len High"
  by (simp add: uplink_inv_def list_all_iff)

lemma inv_sent: "uplink_inv peer w \<Longrightarrow> d \<in> set (uw_network w) \<Longrightarrow> well_sent (uw_frames w) d"
  by (simp add: uplink_inv_def list_all_iff)

lemma deliver_full:
  assumes "uplink_inv peer w" "d \<in> set (uw_network w)" "dg_base d = None"
  shows "uplink_inv peer (uplink_deliver peer now d w) \<and>
    us_pending (uw_server (uplink_deliver peer now d w)) peer = Some (received (us_additional_avatar_data_lock (uw_server w)) (uw_frames w) d) \<and>
    uw_baseline (uplink_deliver peer now d w) = Some (dg_frame d)"
proof -
  let ?current = "uw_frames w ! dg_frame d" and ?s = "uw_server w"
  have sent: "dg_frame d < length (uw_frames w)" "dg_channel d = avatar_channel (dg_additional d)"
    "dg_payload d = of_nat (dg_frame d) # ?current @ synthetic (dg_additional d) (dg_frame d)"
    using inv_sent[OF assms(1,2)] assms(3) by (simp_all add: well_sent_def)
  have long: "length ?current = payload_len High" using inv_frame[OF assms(1) sent(1)] .
  have live: "peer \<in> us_live_players ?s" using assms(1) by (simp add: uplink_inv_def)
  define t where "t = ?s\<lparr>us_pending := (us_pending ?s)(peer := Some (if us_additional_avatar_data_lock ?s then (12, of_nat (dg_frame d) # ?current)
    else (avatar_channel (dg_additional d), of_nat (dg_frame d) # ?current @ synthetic (dg_additional d) (dg_frame d))))\<rparr>"
  have new: "uplink_deliver peer now d w =
      w\<lparr>uw_server := capture_uplink_delta_baseline now peer (of_nat (dg_frame d) # ?current) t, uw_baseline := Some (dg_frame d)\<rparr>"
    using handle_high[OF live long] by (simp add: uplink_deliver_def sent(2,3) t_def)
  note captured = capture_baseline[OF long, where now = now and peer = peer and n = "of_nat (dg_frame d)" and s = t]
  have "uplink_inv peer (uplink_deliver peer now d w)" unfolding new using assms(1) sent(1) captured(2,4) live
    by (auto simp: uplink_inv_def baseline_ok_def t_def)
  moreover have "us_pending t peer = Some (received (us_additional_avatar_data_lock ?s) (uw_frames w) d)" by (simp add: t_def received_def)
  ultimately show ?thesis unfolding new using captured(1) by simp
qed

text \<open>Two frames less than 256 apart have the same number only if they are the same.\<close>

lemma frame_number_inject:
  assumes "(of_nat b :: u8) = of_nat k" "b < k + 256" "k < b + 256"
  shows "b = k"
proof -
  have "b mod 256 = k mod 256" using assms(1) by (simp add: word_of_nat_eq_iff take_bit_eq_mod)
  then show ?thesis using assms(2,3) by (rule mod_inject_near)
qed

lemma upsert_frame [simp]:
  "us_uplink_delta_states (snd (upsert_from_channel_payload peer chan payload s)) = us_uplink_delta_states s"
  "us_live_players (snd (upsert_from_channel_payload peer chan payload s)) = us_live_players s"
  by (simp_all add: upsert_from_channel_payload_def Let_def)

lemma fresh_entry: "baseline_ok frames b entry \<Longrightarrow> baseline_ok frames b (Some (case entry of Some e \<Rightarrow> e | None \<Rightarrow> uplink_delta_empty now))"
  by (auto simp: baseline_ok_def uplink_delta_empty_def split: option.splits)

text \<open>No delta, whatever it holds, changes a baseline.\<close>

lemma handle_delta_frame:
  assumes "baseline_ok frames b (us_uplink_delta_states s peer)"
  shows "baseline_ok frames b (us_uplink_delta_states (snd (snd (handle_uplink_avatar_delta now peer payload s))) peer) \<and>
    us_live_players (snd (snd (handle_uplink_avatar_delta now peer payload s))) = us_live_players s"
proof -
  let ?entry = "case us_uplink_delta_states s peer of Some entry \<Rightarrow> entry | None \<Rightarrow> uplink_delta_empty now"
  have "baseline_ok frames b (Some ?entry)" "baseline_ok frames b (Some (?entry\<lparr>ud_last_nack := now\<rparr>))"
    using fresh_entry[OF assms, of now] by (auto simp: baseline_ok_def split: option.splits)
  then show ?thesis using assms unfolding handle_uplink_avatar_delta_def Let_def
    by (auto split: list.splits if_splits sum.splits prod.splits bool.splits simp: case_prod_beta)
qed

lemma deliver_delta:
  assumes "uplink_inv peer w" "d \<in> set (uw_network w)" "dg_base d = Some k"
    and near: "\<And>b. uw_baseline w = Some b \<Longrightarrow> b < k + 256 \<and> k < b + 256"
  shows "us_pending (uw_server (uplink_deliver peer now d w)) peer = (if uw_baseline w = Some k
      then Some (received (us_additional_avatar_data_lock (uw_server w)) (uw_frames w) d) else us_pending (uw_server w) peer)"
proof -
  let ?current = "uw_frames w ! dg_frame d" and ?s = "uw_server w"
  obtain body where sent: "dg_frame d < length (uw_frames w)" "k < dg_frame d" "dg_channel d = DELTA_AVATAR"
    "build_delta (uw_frames w ! k) ?current High = Some (Inr body)"
    "dg_payload d = (if 0 < dg_additional d then 7 else 3) # of_nat (dg_frame d) # of_nat k # body @ synthetic (dg_additional d) (dg_frame d)"
    using inv_sent[OF assms(1,2)] assms(3) by (auto simp: well_sent_def)
  have live: "peer \<in> us_live_players ?s" using assms(1) by (simp add: uplink_inv_def)
  have new: "uplink_deliver peer now d w = w\<lparr>uw_server := snd (snd (handle_uplink_avatar_delta now peer (dg_payload d) ?s))\<rparr>"
    by (simp add: uplink_deliver_def sent(3))
  show ?thesis
  proof (cases "uw_baseline w = Some k")
    case True
    then obtain entry where entry: "us_uplink_delta_states ?s peer = Some entry" "ud_baseline entry = uw_frames w ! k" "ud_baseline_sequence entry = of_nat k"
      using assms(1) by (auto simp: uplink_inv_def baseline_ok_def split: option.splits)
    have long: "length (uw_frames w ! k) = payload_len High" "length ?current = payload_len High" using inv_frame[OF assms(1)] sent(1,2) by auto
    have "apply_delta (ud_baseline entry) (body @ synthetic (dg_additional d) (dg_frame d)) High = Inr (?current, length body)"
      using delta_decodes[of High "uw_frames w ! k" ?current "synthetic (dg_additional d) (dg_frame d)"] sent(4) long entry(2) by auto
    then have "handle_uplink_avatar_delta now peer (dg_payload d) ?s =
      (Inr True, [], ?s\<lparr>us_pending := (us_pending ?s)(peer := Some (received (us_additional_avatar_data_lock ?s) (uw_frames w) d))\<rparr>)"
      using handle_delta_matched[OF entry(1) _ live, where n = "of_nat (dg_frame d)" and now = now] long entry(2,3) by (simp add: sent(5) received_def)
    then show ?thesis using True by (simp add: new)
  next
    case False
    define entry where "entry = (case us_uplink_delta_states ?s peer of Some entry \<Rightarrow> entry | None \<Rightarrow> uplink_delta_empty now)"
    have "length (ud_baseline entry) \<noteq> payload_len High \<or> ud_baseline_sequence entry \<noteq> of_nat k"
    proof (cases "uw_baseline w")
      case None
      then show ?thesis using assms(1) by (auto simp: uplink_inv_def baseline_ok_def entry_def uplink_delta_empty_def split: option.splits)
    next
      case (Some b)
      have "(of_nat b :: u8) \<noteq> of_nat k" using frame_number_inject[of b k] near[OF Some] False Some by auto
      then show ?thesis using assms(1) Some by (auto simp: uplink_inv_def baseline_ok_def entry_def split: option.splits)
    qed
    from handle_delta_unmatched[OF this entry_def[symmetric], of "dg_additional d" "of_nat (dg_frame d)" "body @ synthetic (dg_additional d) (dg_frame d)"]
    obtain entry' where after: "snd (snd (handle_uplink_avatar_delta now peer (dg_payload d) ?s)) =
        ?s\<lparr>us_uplink_delta_states := (us_uplink_delta_states ?s)(peer := Some entry')\<rparr>" unfolding sent(5) by blast
    then show ?thesis using False by (simp add: new)
  qed
qed

lemma uplink_deliver_inv:
  assumes "uplink_inv peer w" "d \<in> set (uw_network w)"
  shows "uplink_inv peer (uplink_deliver peer now d w)"
proof (cases "dg_base d")
  case None
  then show ?thesis using deliver_full assms by blast
next
  case (Some k)
  then have "dg_channel d = DELTA_AVATAR" using inv_sent[OF assms] by (simp add: well_sent_def)
  moreover have "baseline_ok (uw_frames w) (uw_baseline w) (us_uplink_delta_states (uw_server w) peer)" using assms(1) by (simp add: uplink_inv_def)
  ultimately show ?thesis using assms(1) handle_delta_frame[of "uw_frames w" "uw_baseline w" "uw_server w" peer now "dg_payload d"]
    by (simp add: uplink_inv_def uplink_deliver_def)
qed

lemma uplink_reach_inv: "uplink_reach peer w \<Longrightarrow> uplink_inv peer w"
proof (induction rule: uplink_reach.induct)
  case (starts live)
  then show ?case by (simp add: uplink_inv_def uplink_start_def client_ok_def baseline_ok_def)
next
  case (locks w locked)
  then show ?case by (simp add: uplink_inv_def)
qed (auto intro: uplink_send_inv uplink_deliver_inv)

section \<open>Properties\<close>

text \<open>C14. The server never shows a pose that the client did not have. In every state that sends, losses, repetitions, reorderings and changes of the lock on additional data lead to, a
datagram that arrives leaves for the avatar tick exactly its frame, number, pose and additional data as far as they are allowed, if it is a keyframe or a delta against the frame that is
the server's baseline; any other delta leaves the pending update alone. Baseline and base must be less than 256 frames apart, because frames are numbered modulo 256.\<close>

theorem uplink_frames_are_exact:
  assumes "uplink_reach peer w" "d \<in> set (uw_network w)"
    and "case (uw_baseline w, dg_base d) of (Some b, Some k) \<Rightarrow> b < k + 256 \<and> k < b + 256 | _ \<Rightarrow> True"
  shows "us_pending (uw_server (uplink_deliver peer now d w)) peer =
    (if dg_base d = None \<or> dg_base d = uw_baseline w
     then Some (received (us_additional_avatar_data_lock (uw_server w)) (uw_frames w) d) else us_pending (uw_server w) peer)"
proof (cases "dg_base d")
  case None
  then show ?thesis using deliver_full[OF uplink_reach_inv[OF assms(1)] assms(2)] by simp
next
  case (Some k)
  have near: "b < k + 256 \<and> k < b + 256" if "uw_baseline w = Some b" for b using assms(3) Some that by simp
  show ?thesis using deliver_delta[OF uplink_reach_inv[OF assms(1)] assms(2) Some near, of now] Some by auto
qed

theorem uplink_frames_are_exact_witness:
  "us_pending (uw_server (uplink_deliver 1 0 (hd (uw_network (uplink_send True False (replicate 159 7) 0 (uplink_start {1}))))
     (uplink_send True False (replicate 159 7) 0 (uplink_start {1})))) 1 = Some (12, 0 # replicate 159 7)"
proof -
  define w where "w = uplink_send True False (replicate 159 7) 0 (uplink_start {1})"
  have reach: "uplink_reach 1 w" unfolding w_def by (intro uplink_reach.sends uplink_reach.starts) simp_all
  have parts: "uw_network w = [\<lparr>dg_frame = 0, dg_base = None, dg_additional = 0, dg_channel = 12, dg_payload = 0 # replicate 159 7\<rparr>]"
    "uw_frames w = [replicate 159 7]" "uw_baseline w = None" "us_additional_avatar_data_lock (uw_server w) = False"
    by (simp_all add: w_def uplink_send_def uplink_start_def write_alt delta_to_send_def avatar_channel_def append_synthetic_additional_avatar_data_def
        uplink_constants Let_def)
  show ?thesis unfolding w_def[symmetric] using uplink_frames_are_exact[OF reach, of "hd (uw_network w)" 0] by (simp add: parts received_def avatar_channel_def)
qed

text \<open>What the newest datagram is.\<close>

lemma uplink_send_newest:
  assumes "uplink_inv peer w"
  obtains d where "uw_network (uplink_send force due current additional w) = d # uw_network w" "dg_frame d = length (uw_frames w)" "dg_additional d = additional"
    "uw_frames (uplink_send force due current additional w) = uw_frames w @ [current]" "uw_server (uplink_send force due current additional w) = uw_server w"
    "uw_baseline (uplink_send force due current additional w) = uw_baseline w"
    "dg_base d = None \<and> uw_keyframe (uplink_send force due current additional w) = length (uw_frames w) \<or>
      dg_base d = Some (uw_keyframe w) \<and> uw_keyframe (uplink_send force due current additional w) = uw_keyframe w \<and> \<not> force \<and> \<not> due"
proof -
  obtain chan payload c' where sent: "write_avatar_datagram True force due current additional (uw_client w) = ((chan, payload), c')" by (metis prod.collapse)
  have "ua_sequence (uw_client w) = of_nat (length (uw_frames w))" using assms by (simp add: uplink_inv_def client_ok_def)
  with sent have chan: "chan = avatar_channel additional \<or> chan = DELTA_AVATAR \<and> \<not> force \<and> \<not> due" by (cases rule: write_cases) auto
  show thesis by (rule that[of "hd (uw_network (uplink_send force due current additional w))"]) (use chan in \<open>auto simp: uplink_send_def sent Let_def\<close>)
qed

text \<open>C15. A keyframe repairs the stream. From every reachable state, however far client and server have drifted apart: once a requested keyframe has arrived, the next frame, keyframe or delta,
is received exactly when it arrives.\<close>

theorem keyframe_restores_stream:
  assumes "uplink_reach peer w" "length first = payload_len High" "length second = payload_len High"
    and "w1 = uplink_send True due1 first extra1 w" "w2 = uplink_deliver peer t1 (hd (uw_network w1)) w1"
    and "w3 = uplink_send False due2 second extra2 w2" "w4 = uplink_deliver peer t2 (hd (uw_network w3)) w3"
  shows "\<exists>chan extra. us_pending (uw_server w4) peer = Some (chan, of_nat (length (uw_frames w) + 1) # second @ extra)"
proof -
  have inv: "uplink_inv peer w" using assms(1) by (rule uplink_reach_inv)
  obtain d1 where d1: "uw_network w1 = d1 # uw_network w" "dg_frame d1 = length (uw_frames w)" "uw_frames w1 = uw_frames w @ [first]"
    "dg_base d1 = None" "uw_keyframe w1 = length (uw_frames w)" unfolding assms(4) by (rule uplink_send_newest[OF inv, of True due1 first extra1]) blast
  have inv1: "uplink_inv peer w1" unfolding assms(4) using inv assms(2) by (rule uplink_send_inv)
  have "uplink_inv peer w2 \<and> uw_baseline w2 = Some (length (uw_frames w))"
    using deliver_full[OF inv1 _ d1(4), of t1] d1(1,2) assms(5) by simp
  then have inv2: "uplink_inv peer w2" and base: "uw_baseline w2 = Some (length (uw_frames w))" by auto
  have same: "uw_keyframe w2 = length (uw_frames w)" "uw_frames w2 = uw_frames w @ [first]" using d1(3,5) assms(5) by (simp_all add: uplink_deliver_def)
  obtain d2 where d2: "uw_network w3 = d2 # uw_network w2" "dg_frame d2 = length (uw_frames w2)" "uw_frames w3 = uw_frames w2 @ [second]"
    "uw_baseline w3 = uw_baseline w2" "dg_base d2 = None \<or> dg_base d2 = Some (uw_keyframe w2)"
    unfolding assms(6) by (rule uplink_send_newest[OF inv2, of False due2 second extra2]) blast
  have inv3: "uplink_inv peer w3" unfolding assms(6) using inv2 assms(3) by (rule uplink_send_inv)
  have "us_pending (uw_server w4) peer = Some (received (us_additional_avatar_data_lock (uw_server w3)) (uw_frames w3) d2)"
  proof (cases "dg_base d2")
    case None
    then show ?thesis using deliver_full[OF inv3, of d2 t2] d2(1) assms(7) by simp
  next
    case (Some k)
    then have "uw_baseline w3 = Some k" using d2(4,5) base same(1) by simp
    then show ?thesis using deliver_delta[OF inv3 _ Some, of t2] d2(1) assms(7) by simp
  qed
  moreover have "uw_frames w3 ! dg_frame d2 = second" using d2(2,3) by simp
  ultimately show ?thesis using d2(2) same(2) by (auto simp: received_def)
qed

theorem keyframe_restores_stream_witness:
  "\<exists>chan extra. us_pending (uw_server (uplink_deliver 1 9
       (hd (uw_network (uplink_send False False (replicate 159 8) 2
         (uplink_deliver 1 5 (hd (uw_network (uplink_send True False (replicate 159 7) 0 (uplink_start {1}))))
           (uplink_send True False (replicate 159 7) 0 (uplink_start {1}))))))
       (uplink_send False False (replicate 159 8) 2
         (uplink_deliver 1 5 (hd (uw_network (uplink_send True False (replicate 159 7) 0 (uplink_start {1}))))
           (uplink_send True False (replicate 159 7) 0 (uplink_start {1})))))) 1 = Some (chan, 1 # replicate 159 8 @ extra)"
proof -
  have reach: "uplink_reach 1 (uplink_start {1})" by (rule uplink_reach.starts) simp
  have none: "uw_frames (uplink_start {1}) = []" by (simp add: uplink_start_def)
  show ?thesis
    using keyframe_restores_stream[where first = "replicate 159 7" and second = "replicate 159 8" and ?due1.0 = False and ?extra1.0 = 0 and ?t1.0 = 5 and
        ?due2.0 = False and ?extra2.0 = 2 and ?t2.0 = 9, OF reach _ _ refl refl refl refl] by (simp add: none)
qed

section \<open>Beyond 256 frames\<close>

lemma zero_delta: "length p = payload_len High \<Longrightarrow> build_delta p p High = Some (Inr (replicate DIRTY_MASK_BYTES 0))"
  by (simp add: build_delta_def)

lemma zero_delta_applies:
  assumes "length p = payload_len High"
  shows "apply_delta p (replicate DIRTY_MASK_BYTES 0) High = Inr (p, DIRTY_MASK_BYTES)"
  using delta_decodes[of High p p "[]"] zero_delta[OF assms] assms by simp

lemma uplink_send_fields:
  "uw_server (uplink_send force due current additional w) = uw_server w"
  "uw_baseline (uplink_send force due current additional w) = uw_baseline w"
  "uw_frames (uplink_send force due current additional w) = uw_frames w @ [current]"
  by (simp_all add: uplink_send_def Let_def split: prod.splits)

lemma deliver_lock: "us_additional_avatar_data_lock (uw_server (uplink_deliver peer now d w)) = us_additional_avatar_data_lock (uw_server w)"
  by (auto simp: uplink_deliver_def handle_uplink_avatar_delta_def handle_high_avatar_def capture_uplink_delta_baseline_def upsert_from_channel_payload_def Let_def
      split: list.splits if_splits sum.splits prod.splits bool.splits)

lemma uplink_sends:
  fixes force due :: bool and additional :: u8
  assumes "uplink_reach peer w" "length current = payload_len High"
  defines "w' n \<equiv> (uplink_send force due current additional ^^ n) w"
  shows "uplink_reach peer (w' n) \<and> uw_server (w' n) = uw_server w \<and> uw_baseline (w' n) = uw_baseline w \<and>
    uw_frames (w' n) = uw_frames w @ replicate n current"
proof (induction n)
  case (Suc n)
  then show ?case using uplink_reach.sends[OF _ assms(2), of peer "w' n" force due additional]
    by (simp add: w'_def uplink_send_fields replicate_append_same)
qed (simp add: w'_def assms)

text \<open>C38. Eight bits do not tell keyframes apart for ever. A client sends a keyframe that arrives, then 255 further frames and another keyframe, which are lost; that keyframe carries number 0 again. The next
frame, a delta against the lost keyframe, is applied to the first one: the server shows the old pose as the newest frame, and does not ask for a keyframe.\<close>

theorem wrapped_number_shows_old_pose:
  assumes "length p = payload_len High" "length q = payload_len High"
    and "w1 = uplink_send True False p 0 (uplink_start {peer})" "w2 = uplink_deliver peer t1 (hd (uw_network w1)) w1"
    and "w3 = uplink_send True False q 0 ((uplink_send force due p 0 ^^ 255) w2)" "w4 = uplink_send False False q 0 w3"
  shows "handle_uplink_avatar_delta t2 peer (dg_payload (hd (uw_network w4))) (uw_server w4) =
    (Inr True, [], (uw_server w4)\<lparr>us_pending := (us_pending (uw_server w4))(peer := Some (12, 1 # p))\<rparr>) \<and> last (uw_frames w4) = q"
proof -
  have start: "uplink_reach peer (uplink_start {peer})" by (rule uplink_reach.starts) simp
  then have reach1: "uplink_reach peer w1" unfolding assms(3) using assms(1) by (rule uplink_reach.sends)
  obtain d where d: "uw_network w1 = [d]" "dg_frame d = 0" "uw_frames w1 = [p]" "dg_base d = None"
    by (rule uplink_send_newest[OF uplink_reach_inv[OF start], of True False p 0]) (auto simp: assms(3) uplink_start_def)
  have reach2: "uplink_reach peer w2" unfolding assms(4) using reach1 by (rule uplink_reach.delivers) (simp add: d)
  have base2: "uw_baseline w2 = Some 0" "uw_frames w2 = [p]"
    using deliver_full[OF uplink_reach_inv[OF reach1] _ d(4), of t1] d assms(4) by (simp_all add: uplink_deliver_def)
  define v where "v = (uplink_send force due p 0 ^^ 255) w2"
  have v: "uplink_reach peer v" "uw_server v = uw_server w2" "uw_baseline v = uw_baseline w2" "uw_frames v = uw_frames w2 @ replicate 255 p"
    using uplink_sends[OF reach2 assms(1), where force = force and due = due and additional = 0 and n = 255] by (simp_all add: v_def)
  have frames: "length (uw_frames v) = 256" "uw_frames v ! 0 = p" using v(4) base2 by simp_all
  have locks: "us_additional_avatar_data_lock (uw_server v) = False" using v(2) assms(3,4) d by (simp add: deliver_lock uplink_send_fields uplink_start_def)
  have inv: "uplink_inv peer v" using v(1) by (rule uplink_reach_inv)
  have seq: "ua_sequence (uw_client v) = 0" using inv frames by (simp add: uplink_inv_def client_ok_def)
  have client3: "uw_client w3 = (uw_client v)\<lparr>ua_sequence := 1, ua_keyframe_payload := q, ua_keyframe_sequence := 0, ua_has_keyframe := True, ua_force_keyframe := False\<rparr>"
    "uw_server w3 = uw_server v" "uw_frames w3 = uw_frames v @ [q]"
    unfolding assms(5) v_def[symmetric] by (simp_all add: uplink_send_def write_alt delta_to_send_def seq Let_def)
  have "delta_to_send False False q (uw_client w3) = Some (replicate DIRTY_MASK_BYTES 0)"
    using assms(2) zero_delta[OF assms(2)] by (simp add: delta_to_send_def client3 DIRTY_MASK_BYTES_def table_defs)
  then have w4: "dg_payload (hd (uw_network w4)) = 3 # 1 # 0 # replicate DIRTY_MASK_BYTES 0" "uw_server w4 = uw_server v" "last (uw_frames w4) = q"
    unfolding assms(6) by (simp_all add: uplink_send_def write_alt client3 Let_def append_synthetic_additional_avatar_data_def)
  obtain entry where entry: "us_uplink_delta_states (uw_server v) peer = Some entry" "ud_baseline entry = p" "ud_baseline_sequence entry = 0"
    using inv v(3) base2(1) frames by (auto simp: uplink_inv_def baseline_ok_def split: option.splits)
  have live: "peer \<in> us_live_players (uw_server v)" using inv by (simp add: uplink_inv_def)
  show ?thesis
    using handle_delta_matched[OF entry(1) _ live, where additional = 0 and m = 0 and n = 1 and now = t2 and body = "replicate DIRTY_MASK_BYTES 0" and result = p]
      zero_delta_applies[OF assms(1)] assms(1) entry(2,3) locks w4 by (simp add: avatar_channel_def)
qed

theorem wrapped_number_shows_old_pose_witness:
  "let w1 = uplink_send True False (replicate 159 7) 0 (uplink_start {1}); w2 = uplink_deliver 1 4 (hd (uw_network w1)) w1;
       w3 = uplink_send True False (replicate 159 9) 0 ((uplink_send False False (replicate 159 7) 0 ^^ 255) w2);
       w4 = uplink_send False False (replicate 159 9) 0 w3
   in handle_uplink_avatar_delta 9000 1 (dg_payload (hd (uw_network w4))) (uw_server w4) =
       (Inr True, [], (uw_server w4)\<lparr>us_pending := (us_pending (uw_server w4))(1 := Some (12, 1 # replicate 159 7))\<rparr>) \<and>
     last (uw_frames w4) = replicate 159 9"
  unfolding Let_def by (rule wrapped_number_shows_old_pose[OF _ _ refl refl refl refl]) simp_all

end
