(* ===== verification/Sealed.thy ===== *)
theory Sealed
  imports Prelude
begin

text \<open>
  The encryption of datagrams from a client to the server: the replay window and the seal of a connection (\<open>basis-transport/src/sealed_inbound.rs\<close>), and the
  sending side \<open>seal_connected\<close> with the installation of its key (\<open>basis-client-core/src/client.rs\<close>). The cipher is the third-party crate
  \<open>chacha20poly1305\<close>: its encryption and decryption are arguments, with the key, the nonce, the associated data and the text in this order.
\<close>

definition OVERHEAD :: nat where "OVERHEAD = 24"
definition WINDOW_SIZE :: nat where "WINDOW_SIZE = 1024"

type_synonym aead_encrypt = "bytes \<Rightarrow> bytes \<Rightarrow> bytes \<Rightarrow> bytes \<Rightarrow> (bytes \<times> bytes) option"
type_synonym aead_decrypt = "bytes \<Rightarrow> bytes \<Rightarrow> bytes \<Rightarrow> bytes \<Rightarrow> bytes \<Rightarrow> bytes option"

section \<open>Replay window\<close>

record ReplayWindow =
  rw_highest :: u64
  rw_seen :: "u64 list"

definition replay_window_default :: ReplayWindow where
  "replay_window_default = \<lparr>rw_highest = 0, rw_seen = replicate (WINDOW_SIZE div 64) 0\<rparr>"

definition is_set :: "ReplayWindow \<Rightarrow> u64 \<Rightarrow> bool" where
  "is_set w counter =
     (let index = unat counter mod WINDOW_SIZE in rw_seen w ! (index div 64) AND push_bit (index mod 64) 1 \<noteq> 0)"

definition could_accept :: "ReplayWindow \<Rightarrow> u64 \<Rightarrow> bool" where
  "could_accept w counter \<longleftrightarrow> counter > 0 \<and>
     (counter > rw_highest w \<or> unat (rw_highest w - counter) < WINDOW_SIZE \<and> \<not> is_set w counter)"

definition clear_slot :: "nat \<Rightarrow> u64 list \<Rightarrow> u64 list" where
  "clear_slot n seen =
     (let index = n mod WINDOW_SIZE in seen[index div 64 := seen ! (index div 64) AND NOT (push_bit (index mod 64) 1)])"

definition set_slot :: "nat \<Rightarrow> u64 list \<Rightarrow> u64 list" where
  "set_slot n seen =
     (let index = n mod WINDOW_SIZE in seen[index div 64 := seen ! (index div 64) OR push_bit (index mod 64) 1])"

definition accept :: "u64 \<Rightarrow> ReplayWindow \<Rightarrow> ReplayWindow" where
  "accept counter w =
     (let w = (if counter > rw_highest w
               then w\<lparr>rw_seen := (if WINDOW_SIZE \<le> unat (counter - rw_highest w) then map (\<lambda>_. 0) (rw_seen w)
                        else fold clear_slot [unat (rw_highest w) + 1..<unat counter] (rw_seen w)),
                      rw_highest := counter\<rparr>
               else w)
      in w\<lparr>rw_seen := set_slot (unat counter) (rw_seen w)\<rparr>)"

section \<open>Seal of a connection\<close>

datatype InboundSeal = Plain | AwaitingKey | Active bytes ReplayWindow bool

definition activate :: "bytes \<Rightarrow> InboundSeal \<Rightarrow> bool \<times> InboundSeal" where
  "activate key s = (case s of AwaitingKey \<Rightarrow> (True, Active key replay_window_default False) | _ \<Rightarrow> (False, s))"

definition nonce_of :: "u64 \<Rightarrow> bytes" where
  "nonce_of counter = to_le 8 counter @ replicate 4 0"

text \<open>The counter is read as a signed number; tag and counter are the last 24 bytes.\<close>

definition unseal :: "aead_decrypt \<Rightarrow> bytes \<Rightarrow> ReplayWindow \<Rightarrow> bytes \<Rightarrow> (u64 \<times> bytes) option" where
  "unseal decrypt key window packet =
     (if length packet > OVERHEAD then
        let tag_start = length packet - OVERHEAD;
            counter = of_le (drop (length packet - 8) packet)
        in if 0 < sint counter \<and> could_accept window counter then
             (case decrypt key (nonce_of counter) (take 1 packet) (drop 1 (take tag_start packet)) (take 16 (drop tag_start packet)) of
                Some plain \<Rightarrow> Some (counter, hd packet # plain)
              | None \<Rightarrow> None)
           else None
      else None)"

definition user_data :: "u8 \<Rightarrow> bool" where
  "user_data property \<longleftrightarrow> property = 0 \<or> property = 1 \<or> property = 12 \<or> property = 18"

definition open_datagram :: "aead_decrypt \<Rightarrow> bytes \<Rightarrow> InboundSeal \<Rightarrow> bytes option \<times> InboundSeal" where
  "open_datagram decrypt packet s =
     (case packet of
        [] \<Rightarrow> (None, s)
      | first # _ \<Rightarrow>
          let property = first AND 0x1F
          in case s of
               Plain \<Rightarrow> (Some packet, s)
             | AwaitingKey \<Rightarrow> (if user_data property then None else Some packet, s)
             | Active key window proven \<Rightarrow>
                 (case unseal decrypt key window packet of
                    Some (counter, plain) \<Rightarrow> (Some plain, Active key (accept counter window) True)
                  | None \<Rightarrow> (if \<not> user_data property \<and> (\<not> proven \<or> property = 13) then Some packet else None, s)))"

section \<open>Client\<close>

datatype seal_error = EmptyDatagram | CounterExhausted | CannotEncrypt

text \<open>The key and the last counter, once the key has been agreed on.\<close>

type_synonym sealed_outbound = "(bytes \<times> u64) option"

definition install_key :: "bytes \<Rightarrow> sealed_outbound \<Rightarrow> bool \<times> sealed_outbound" where
  "install_key key outbound = (case outbound of Some _ \<Rightarrow> (False, outbound) | None \<Rightarrow> (True, Some (key, 0)))"

definition seal_connected :: "aead_encrypt \<Rightarrow> bytes \<Rightarrow> sealed_outbound \<Rightarrow> (seal_error + bytes option) \<times> sealed_outbound" where
  "seal_connected encrypt bs outbound =
     (if bs = [] then (Inl EmptyDatagram, outbound)
      else case outbound of
          None \<Rightarrow> (Inr None, outbound)
        | Some (key, counter) \<Rightarrow>
            if counter = - 1 \<or> counter + 1 > 0x7FFFFFFFFFFFFFFF then (Inl CounterExhausted, outbound)
            else
              let counter = counter + 1
              in (case encrypt key (nonce_of counter) (take 1 bs) (drop 1 bs) of
                    None \<Rightarrow> (Inl CannotEncrypt, Some (key, counter))
                  | Some (body, tag) \<Rightarrow> (Inr (Some (hd bs # body @ tag @ to_le 8 counter)), Some (key, counter))))"

definition send_connected :: "aead_encrypt \<Rightarrow> bytes \<Rightarrow> sealed_outbound \<Rightarrow> (seal_error + bytes) \<times> sealed_outbound" where
  "send_connected encrypt bs outbound =
     (case seal_connected encrypt bs outbound of
        (Inl e, outbound) \<Rightarrow> (Inl e, outbound)
      | (Inr datagram, outbound) \<Rightarrow> (Inr (case datagram of Some packet \<Rightarrow> packet | None \<Rightarrow> bs), outbound))"

end
