(* ===== verification/SealedProperties.thy ===== *)
theory SealedProperties
  imports Sealed "HOL-Library.Multiset"
begin

text \<open>
  The replay window answers as a set of counters with a sliding bound; with a cipher that cannot be forged, the server handles every user packet of a client at most once
  and unaltered whatever an attacker does, and a datagram that arrives within the window is opened.
\<close>

section \<open>Slots of the window\<close>

definition slot :: "u64 list \<Rightarrow> nat \<Rightarrow> bool" where
  "slot seen n = bit (seen ! (n mod WINDOW_SIZE div 64)) (n mod WINDOW_SIZE mod 64)"

lemma and_push_bit: "(x AND push_bit i 1 \<noteq> 0) = bit (x :: u64) i" if "i < 64"
proof -
  have "x AND push_bit i 1 = (if bit x i then push_bit i 1 else 0)" by (rule bit_word_eqI) (auto simp: bit_simps)
  moreover have "push_bit i (1 :: u64) \<noteq> 0" using that by (simp add: push_bit_eq_mult word_of_nat_eq_0_iff)
  ultimately show ?thesis by simp
qed

lemma is_set_slot: "is_set w c = slot (rw_seen w) (unat c)"
  unfolding is_set_def slot_def Let_def by (rule and_push_bit) simp

lemma same_slot: "i = j" if "i div 64 = j div 64" "i mod 64 = j mod 64" for i j :: nat
  by (metis that div_mult_mod_eq)

lemma slot_set:
  assumes "length seen = 16"
  shows "length (set_slot m seen) = 16" "slot (set_slot m seen) n \<longleftrightarrow> n mod WINDOW_SIZE = m mod WINDOW_SIZE \<or> slot seen n"
  using assms same_slot[of "n mod WINDOW_SIZE" "m mod WINDOW_SIZE"]
  by (auto simp: set_slot_def slot_def Let_def nth_list_update bit_simps WINDOW_SIZE_def)

lemma slot_clear:
  assumes "length seen = 16"
  shows "length (clear_slot m seen) = 16" "slot (clear_slot m seen) n \<longleftrightarrow> n mod WINDOW_SIZE \<noteq> m mod WINDOW_SIZE \<and> slot seen n"
  using assms same_slot[of "n mod WINDOW_SIZE" "m mod WINDOW_SIZE"]
  by (auto simp: clear_slot_def slot_def Let_def nth_list_update bit_simps WINDOW_SIZE_def)

lemma slot_clear_all:
  assumes "length seen = 16"
  shows "length (fold clear_slot ms seen) = 16 \<and>
    (slot (fold clear_slot ms seen) n \<longleftrightarrow> slot seen n \<and> (\<forall>m\<in>set ms. n mod WINDOW_SIZE \<noteq> m mod WINDOW_SIZE))"
  using assms by (induction ms arbitrary: seen) (auto simp: slot_clear)

lemma slot_zero: "length seen = 16 \<Longrightarrow> \<not> slot (map (\<lambda>_. 0) seen) n"
  by (simp add: slot_def WINDOW_SIZE_def)

section \<open>Window and set\<close>

definition window_ok :: "ReplayWindow \<Rightarrow> u64 set \<Rightarrow> bool" where
  "window_ok w S \<longleftrightarrow> length (rw_seen w) = 16 \<and> (\<forall>c\<in>S. 0 < c \<and> c \<le> rw_highest w) \<and> (rw_highest w = 0 \<or> rw_highest w \<in> S) \<and>
     (\<forall>c. 0 < c \<and> c \<le> rw_highest w \<and> unat (rw_highest w) < unat c + WINDOW_SIZE \<longrightarrow> slot (rw_seen w) (unat c) = (c \<in> S))"

definition admits :: "u64 set \<Rightarrow> u64 \<Rightarrow> bool" where
  "admits S c \<longleftrightarrow> 0 < c \<and> c \<notin> S \<and> (\<forall>d\<in>S. unat d < unat c + WINDOW_SIZE)"

lemma window_ok_default: "window_ok replay_window_default {}"
  by (auto simp: window_ok_def replay_window_default_def WINDOW_SIZE_def)

lemma could_accept_admits:
  assumes "window_ok w S"
  shows "could_accept w c = admits S c"
proof (cases "c > rw_highest w")
  case True
  then have "d < c" if "d \<in> S" for d using assms that by (fastforce simp: window_ok_def)
  then have "c \<notin> S" "\<forall>d\<in>S. unat d < unat c + WINDOW_SIZE" by (fastforce simp: word_less_nat_alt)+
  then show ?thesis using True by (simp add: could_accept_def admits_def)
next
  case False
  then have le: "c \<le> rw_highest w" by simp
  have diff: "unat (rw_highest w - c) < WINDOW_SIZE \<longleftrightarrow> unat (rw_highest w) < unat c + WINDOW_SIZE"
    using le by (auto simp: unat_sub word_le_nat_alt)
  have bound: "(\<forall>d\<in>S. unat d < unat c + WINDOW_SIZE) \<longleftrightarrow> unat (rw_highest w) < unat c + WINDOW_SIZE" if "0 < c"
  proof -
    have "rw_highest w \<in> S" using assms that le by (auto simp: window_ok_def)
    moreover have "unat d \<le> unat (rw_highest w)" if "d \<in> S" for d using assms that by (simp add: window_ok_def word_le_nat_alt)
    ultimately show ?thesis by (auto intro: le_less_trans)
  qed
  show ?thesis
  proof (cases "0 < c \<and> unat (rw_highest w) < unat c + WINDOW_SIZE")
    case True
    then have "slot (rw_seen w) (unat c) = (c \<in> S)" using assms le by (simp add: window_ok_def)
    then show ?thesis using True False diff bound by (simp add: could_accept_def admits_def is_set_slot)
  next
    case outside: False
    then show ?thesis using False diff bound by (auto simp: could_accept_def admits_def)
  qed
qed

lemma accept_window_ok:
  assumes ok: "window_ok w S" and "admits S c"
  shows "window_ok (accept c w) (insert c S)"
proof -
  let ?h = "rw_highest w" and ?seen = "rw_seen w"
  have len: "length ?seen = 16" and old: "\<And>d. d \<in> S \<Longrightarrow> 0 < d \<and> d \<le> ?h" and top: "?h = 0 \<or> ?h \<in> S"
    and slots: "\<And>d. 0 < d \<Longrightarrow> d \<le> ?h \<Longrightarrow> unat ?h < unat d + WINDOW_SIZE \<Longrightarrow> slot ?seen (unat d) = (d \<in> S)"
    using ok by (auto simp: window_ok_def)
  have pos: "0 < c" using assms(2) by (simp add: admits_def)
  have near: "unat d mod WINDOW_SIZE = unat e mod WINDOW_SIZE \<longleftrightarrow> d = e" if "unat d < unat e + WINDOW_SIZE" "unat e < unat d + WINDOW_SIZE" for d e :: u64
    using mod_inject_near[OF _ that] by (auto simp: word_unat_eq_iff)
  show ?thesis
  proof (cases "c > ?h")
    case True
    define seen' where "seen' = (if WINDOW_SIZE \<le> unat (c - ?h) then map (\<lambda>_. 0) ?seen else fold clear_slot [unat ?h + 1..<unat c] ?seen)"
    have new: "accept c w = w\<lparr>rw_seen := set_slot (unat c) seen', rw_highest := c\<rparr>" using True by (simp add: accept_def Let_def seen'_def)
    have diff: "unat (c - ?h) = unat c - unat ?h" using True by (simp add: unat_sub word_less_nat_alt word_le_nat_alt)
    have len': "length seen' = 16" using len slot_clear_all by (simp add: seen'_def)
    have kept: "slot seen' (unat d) = (d \<in> S)" if d: "0 < d" "d < c" "unat c < unat d + WINDOW_SIZE" for d
    proof (cases "WINDOW_SIZE \<le> unat (c - ?h)")
      case far: True
      then have "d \<notin> S" using old[of d] d diff True by (auto simp: word_le_nat_alt word_less_nat_alt)
      then show ?thesis using far slot_zero[OF len] by (simp add: seen'_def)
    next
      case close: False
      then have cleared: "slot seen' (unat d) \<longleftrightarrow> slot ?seen (unat d) \<and> (\<forall>m\<in>{unat ?h + 1..<unat c}. unat d mod WINDOW_SIZE \<noteq> m mod WINDOW_SIZE)"
        using slot_clear_all[OF len] by (simp add: seen'_def)
      show ?thesis
      proof (cases "d \<le> ?h")
        case True
        have "unat d mod WINDOW_SIZE \<noteq> m mod WINDOW_SIZE" if "m \<in> {unat ?h + 1..<unat c}" for m
          using mod_inject_near[of "unat d" WINDOW_SIZE m] that d(3) True by (auto simp: word_le_nat_alt)
        then show ?thesis using cleared slots[OF d(1) True] d(3) \<open>c > ?h\<close> by (auto simp: word_less_nat_alt)
      next
        case False
        then have "unat d \<in> {unat ?h + 1..<unat c}" using d(2) by (simp add: word_less_nat_alt word_le_nat_alt)
        then show ?thesis using cleared False old by blast
      qed
    qed
    have "slot (set_slot (unat c) seen') (unat d) = (d \<in> insert c S)" if "0 < d" "d \<le> c" "unat c < unat d + WINDOW_SIZE" for d
      using kept[of d] that near[of d c] slot_set(2)[OF len', of "unat c" "unat d"] by (cases "d = c") (auto simp: word_le_nat_alt WINDOW_SIZE_def order.strict_iff_order)
    then show ?thesis using new slot_set(1)[OF len'] old pos True by (force simp: window_ok_def)
  next
    case False
    then have le: "c \<le> ?h" and new: "accept c w = w\<lparr>rw_seen := set_slot (unat c) ?seen\<rparr>" by (simp_all add: accept_def Let_def)
    have "?h \<in> S" using top pos le by auto
    then have c: "unat ?h < unat c + WINDOW_SIZE" using assms(2) by (simp add: admits_def)
    have "slot (set_slot (unat c) ?seen) (unat d) = (d \<in> insert c S)" if "0 < d" "d \<le> ?h" "unat ?h < unat d + WINDOW_SIZE" for d
      using slots[OF that] near[of d c] that c le slot_set(2)[OF len, of "unat c" "unat d"] by (auto simp: word_le_nat_alt)
    then show ?thesis using new slot_set(1)[OF len] old pos le top by (auto simp: window_ok_def)
  qed
qed

section \<open>Reference\<close>

text \<open>A sequence of counters, answered by the window and by the set of the counters accepted before.\<close>

fun window_answers :: "ReplayWindow \<Rightarrow> u64 list \<Rightarrow> bool list" where
  "window_answers w [] = []"
| "window_answers w (c # cs) = (if could_accept w c then True # window_answers (accept c w) cs else False # window_answers w cs)"

fun set_answers :: "u64 set \<Rightarrow> u64 list \<Rightarrow> bool list" where
  "set_answers S [] = []"
| "set_answers S (c # cs) = (if admits S c then True # set_answers (insert c S) cs else False # set_answers S cs)"

lemma window_answers_set: "window_ok w S \<Longrightarrow> window_answers w cs = set_answers S cs"
  by (induction cs arbitrary: w S) (auto simp: could_accept_admits accept_window_ok)

text \<open>C10. The replay window of 1024 bits answers every sequence of counters as the set of all counters accepted so far would: a counter is accepted if and only if it is positive, was not
accepted before and is less than 1024 below every accepted one.\<close>

theorem replay_window_is_a_set: "window_answers replay_window_default cs = set_answers {} cs"
  by (rule window_answers_set[OF window_ok_default])

section \<open>Client, attacker and server\<close>

text \<open>Client and server, the sealed packets as counter, packet and datagram, the counters the server has opened and the packets it has handed on.\<close>

record seal_world =
  sw_client :: sealed_outbound
  sw_server :: InboundSeal
  sw_sent :: "(u64 \<times> bytes \<times> bytes) list"
  sw_opened :: "u64 list"
  sw_handled :: "bytes list"

definition seal_start :: seal_world where
  "seal_start = \<lparr>sw_client = None, sw_server = AwaitingKey, sw_sent = [], sw_opened = [], sw_handled = []\<rparr>"

definition seal_send :: "aead_encrypt \<Rightarrow> bytes \<Rightarrow> seal_world \<Rightarrow> seal_world" where
  "seal_send encrypt bs w =
     (case seal_connected encrypt bs (sw_client w) of
        (Inr (Some d), Some (key, n)) \<Rightarrow> w\<lparr>sw_client := Some (key, n), sw_sent := (n, bs, d) # sw_sent w\<rparr>
      | (_, client) \<Rightarrow> w\<lparr>sw_client := client\<rparr>)"

definition opened_counters :: "aead_decrypt \<Rightarrow> bytes \<Rightarrow> InboundSeal \<Rightarrow> u64 list" where
  "opened_counters decrypt d s =
     (case s of Active key window _ \<Rightarrow> (case unseal decrypt key window d of Some (c, _) \<Rightarrow> [c] | None \<Rightarrow> []) | _ \<Rightarrow> [])"

definition seal_arrive :: "aead_decrypt \<Rightarrow> bytes \<Rightarrow> seal_world \<Rightarrow> seal_world" where
  "seal_arrive decrypt d w =
     (case open_datagram decrypt d (sw_server w) of
        (result, server) \<Rightarrow> w\<lparr>sw_server := server, sw_opened := opened_counters decrypt d (sw_server w) @ sw_opened w,
          sw_handled := (case result of Some p \<Rightarrow> p # sw_handled w | None \<Rightarrow> sw_handled w)\<rparr>)"

text \<open>A datagram that the cipher takes for one of the key.\<close>

definition authenticates :: "aead_decrypt \<Rightarrow> bytes \<Rightarrow> bytes \<Rightarrow> bool" where
  "authenticates decrypt key d \<longleftrightarrow> length d > OVERHEAD \<and>
     decrypt key (nonce_of (of_le (drop (length d - 8) d))) (take 1 d) (drop 1 (take (length d - OVERHEAD) d)) (take 16 (drop (length d - OVERHEAD) d)) \<noteq> None"

text \<open>
  Whoever controls the network injects any datagram, and any datagram of the client any number of times, but cannot form a new one that authenticates:
  that is what the cipher is documented to provide.
\<close>

inductive seal_reach :: "aead_encrypt \<Rightarrow> aead_decrypt \<Rightarrow> bytes \<Rightarrow> seal_world \<Rightarrow> bool" for encrypt decrypt key where
  starts: "seal_reach encrypt decrypt key seal_start"
| installs: "seal_reach encrypt decrypt key w \<Longrightarrow> seal_reach encrypt decrypt key (w\<lparr>sw_client := snd (install_key key (sw_client w))\<rparr>)"
| activates: "seal_reach encrypt decrypt key w \<Longrightarrow> seal_reach encrypt decrypt key (w\<lparr>sw_server := snd (activate key (sw_server w))\<rparr>)"
| sends: "seal_reach encrypt decrypt key w \<Longrightarrow> seal_reach encrypt decrypt key (seal_send encrypt bs w)"
| arrives: "seal_reach encrypt decrypt key w \<Longrightarrow> d \<in> snd ` snd ` set (sw_sent w) \<or> \<not> authenticates decrypt key d \<Longrightarrow>
    seal_reach encrypt decrypt key (seal_arrive decrypt d w)"

text \<open>What is relied on of the cipher: it decrypts what it encrypted, keeps the length and has tags of 16 bytes.\<close>

definition aead_ok :: "aead_encrypt \<Rightarrow> aead_decrypt \<Rightarrow> bool" where
  "aead_ok encrypt decrypt \<longleftrightarrow> (\<forall>key nonce ad plain body tag. encrypt key nonce ad plain = Some (body, tag) \<longrightarrow>
     length body = length plain \<and> length tag = 16 \<and> decrypt key nonce ad body tag = Some plain)"

definition user_packet :: "bytes \<Rightarrow> bool" where
  "user_packet p \<longleftrightarrow> p \<noteq> [] \<and> user_data (hd p AND 0x1F)"

definition sealed_as :: "aead_encrypt \<Rightarrow> bytes \<Rightarrow> u64 \<Rightarrow> bytes \<Rightarrow> bytes \<Rightarrow> bool" where
  "sealed_as encrypt key c p d \<longleftrightarrow> p \<noteq> [] \<and> 0 < c \<and> c \<le> 0x7FFFFFFFFFFFFFFF \<and>
     (\<exists>body tag. encrypt key (nonce_of c) (take 1 p) (drop 1 p) = Some (body, tag) \<and> d = hd p # body @ tag @ to_le 8 c)"

lemma sint_positive: "0 < sint (c :: u64)" if "0 < c" "c \<le> 0x7FFFFFFFFFFFFFFF"
proof -
  have "uint c \<le> 0x7FFFFFFFFFFFFFFF" "0 < uint c" using that by (simp_all add: word_le_def word_less_def)
  then have "sint c = uint c" by (simp add: sint_uint signed_take_bit_int_eq_self)
  then show ?thesis using \<open>0 < uint c\<close> by simp
qed

lemma sealed_parts:
  assumes "aead_ok encrypt decrypt" "sealed_as encrypt key c p d"
  obtains body tag where "length d > OVERHEAD" "of_le (drop (length d - 8) d) = c" "take 1 d = take 1 p" "drop 1 (take (length d - OVERHEAD) d) = body"
    "take 16 (drop (length d - OVERHEAD) d) = tag" "decrypt key (nonce_of c) (take 1 p) body tag = Some (drop 1 p)" "0 < sint c" "hd d = hd p" "d \<noteq> []"
proof -
  obtain body tag where d: "d = hd p # body @ tag @ to_le 8 c" and enc: "encrypt key (nonce_of c) (take 1 p) (drop 1 p) = Some (body, tag)"
    using assms(2) by (auto simp: sealed_as_def)
  have tag: "length tag = 16" "decrypt key (nonce_of c) (take 1 p) body tag = Some (drop 1 p)" using assms(1) enc by (auto simp: aead_ok_def)
  have p: "p \<noteq> []" "0 < sint c" using assms(2) sint_positive by (auto simp: sealed_as_def)
  have "(hd p # body @ tag) @ to_le 8 c = d" by (simp add: d)
  then have "drop (length (hd p # body @ tag)) d = to_le 8 c" by (metis append_eq_conv_conj)
  moreover have "length (hd p # body @ tag) = length d - 8" by (simp add: d)
  ultimately have "drop (length d - 8) d = to_le 8 c" by metis
  moreover have "take 1 d = take 1 p" using p(1) by (cases p) (simp_all add: d)
  ultimately show thesis using tag p by (intro that[of body tag]) (simp_all add: d OVERHEAD_def)
qed

lemma unseal_sealed:
  assumes "aead_ok encrypt decrypt" "sealed_as encrypt key c p d"
  shows "unseal decrypt key window d = (if could_accept window c then Some (c, p) else None)"
proof -
  have "hd p # drop 1 p = p" using assms(2) by (cases p) (auto simp: sealed_as_def)
  moreover obtain body tag where "length d > OVERHEAD" "of_le (drop (length d - 8) d) = c" "take 1 d = take 1 p" "drop 1 (take (length d - OVERHEAD) d) = body"
    "take 16 (drop (length d - OVERHEAD) d) = tag" "decrypt key (nonce_of c) (take 1 p) body tag = Some (drop 1 p)" "0 < sint c" "hd d = hd p"
    using sealed_parts[OF assms] by metis
  ultimately show ?thesis by (simp add: unseal_def Let_def)
qed

lemma unseal_authenticates: "unseal decrypt key window d = Some result \<Longrightarrow> authenticates decrypt key d"
  by (auto simp: unseal_def authenticates_def Let_def split: if_splits option.splits)

section \<open>Invariant\<close>

definition client_inv :: "bytes \<Rightarrow> sealed_outbound \<Rightarrow> (u64 \<times> bytes \<times> bytes) list \<Rightarrow> bool" where
  "client_inv key client sent = (case client of
     None \<Rightarrow> sent = []
   | Some (k, n) \<Rightarrow> k = key \<and> n \<le> 0x7FFFFFFFFFFFFFFF \<and> (\<forall>c\<in>fst ` set sent. c \<le> n))"

definition server_inv :: "bytes \<Rightarrow> InboundSeal \<Rightarrow> u64 list \<Rightarrow> bool" where
  "server_inv key server opened = (case server of
     Plain \<Rightarrow> False
   | AwaitingKey \<Rightarrow> opened = []
   | Active k window _ \<Rightarrow> k = key \<and> window_ok window (set opened))"

definition packet_of :: "(u64 \<times> bytes \<times> bytes) list \<Rightarrow> u64 \<Rightarrow> bytes" where
  "packet_of sent c = fst (the (map_of sent c))"

definition seal_inv :: "aead_encrypt \<Rightarrow> bytes \<Rightarrow> seal_world \<Rightarrow> bool" where
  "seal_inv encrypt key w \<longleftrightarrow> client_inv key (sw_client w) (sw_sent w) \<and> server_inv key (sw_server w) (sw_opened w) \<and>
     distinct (map fst (sw_sent w)) \<and> (\<forall>(c, p, d)\<in>set (sw_sent w). sealed_as encrypt key c p d) \<and>
     distinct (sw_opened w) \<and> set (sw_opened w) \<subseteq> fst ` set (sw_sent w) \<and>
     filter user_packet (sw_handled w) = filter user_packet (map (packet_of (sw_sent w)) (sw_opened w))"

lemma packet_of_sent: "distinct (map fst sent) \<Longrightarrow> (c, p, d) \<in> set sent \<Longrightarrow> packet_of sent c = p"
  by (simp add: packet_of_def)

text \<open>Sealing fails and leaves no datagram, or uses the next counter.\<close>

lemma seal_cases:
  assumes "seal_connected encrypt bs client = (result, client')"
  obtains (kept) "client' = client" "\<And>d. result \<noteq> Inr (Some d)"
  | (failed) key n where "client = Some (key, n)" "client' = Some (key, n + 1)" "n < n + 1" "n + 1 \<le> 0x7FFFFFFFFFFFFFFF" "\<And>d. result \<noteq> Inr (Some d)"
  | (sealed) key n d where "client = Some (key, n)" "client' = Some (key, n + 1)" "n < n + 1" "n + 1 \<le> 0x7FFFFFFFFFFFFFFF" "result = Inr (Some d)"
      "sealed_as encrypt key (n + 1) bs d"
proof (cases "bs = [] \<or> client = None")
  case True
  then show thesis using assms by (intro that(1)) (auto simp: seal_connected_def split: if_splits)
next
  case False
  then obtain key n where client: "client = Some (key, n)" "bs \<noteq> []" by auto
  show thesis
  proof (cases "n = - 1 \<or> n + 1 > 0x7FFFFFFFFFFFFFFF")
    case True
    then show thesis using assms client by (intro that(1)) (auto simp: seal_connected_def)
  next
    case False
    then have "1 + n \<noteq> 0" by (metis add.commute eq_neg_iff_add_eq_0)
    then have "unat (n + 1) = Suc (unat n)" using unatSuc[of n] by (simp add: add.commute)
    then have bounds: "n < n + 1" "n + 1 \<le> 0x7FFFFFFFFFFFFFFF" using False by (simp add: word_less_nat_alt) (use False in auto)
    then have pos: "0 < n + 1" by (metis word_neq_0_conv word_not_simps(1))
    show thesis
    proof (cases "encrypt key (nonce_of (n + 1)) (take 1 bs) (drop 1 bs)")
      case None
      then show thesis using assms client False bounds by (intro that(2)[of key n]) (auto simp: seal_connected_def Let_def)
    next
      case (Some result')
      then show thesis using assms client False bounds pos
        by (intro that(3)[of key n "hd bs # fst result' @ snd result' @ to_le 8 (n + 1)"]) (auto simp: seal_connected_def Let_def sealed_as_def split: prod.splits)
    qed
  qed
qed

lemma seal_send_inv:
  assumes "seal_inv encrypt key w"
  shows "seal_inv encrypt key (seal_send encrypt bs w)"
proof -
  obtain result client' where call: "seal_connected encrypt bs (sw_client w) = (result, client')" by (metis prod.collapse)
  from call show ?thesis
  proof (cases rule: seal_cases)
    case kept
    then have "seal_send encrypt bs w = w" unfolding seal_send_def call by (auto split: sum.splits option.splits)
    then show ?thesis using assms by simp
  next
    case (failed k n)
    then have "seal_send encrypt bs w = w\<lparr>sw_client := Some (k, n + 1)\<rparr>" unfolding seal_send_def call by (auto split: sum.splits option.splits)
    then show ?thesis using assms failed by (force simp: seal_inv_def client_inv_def)
  next
    case (sealed k n d)
    have new: "seal_send encrypt bs w = w\<lparr>sw_client := Some (k, n + 1), sw_sent := (n + 1, bs, d) # sw_sent w\<rparr>" unfolding seal_send_def call by (simp add: sealed)
    have below: "\<forall>c\<in>fst ` set (sw_sent w). c \<le> n" "k = key" using assms sealed(1) by (auto simp: seal_inv_def client_inv_def)
    then have fresh: "n + 1 \<notin> fst ` set (sw_sent w)" using sealed(3) by (meson leD)
    then have same: "packet_of ((n + 1, bs, d) # sw_sent w) c = packet_of (sw_sent w) c" if "c \<in> set (sw_opened w)" for c
      using assms that by (auto simp: packet_of_def seal_inv_def)
    have "client_inv key (Some (k, n + 1)) ((n + 1, bs, d) # sw_sent w)" using below sealed(3,4) by (fastforce simp: client_inv_def)
    then show ?thesis unfolding new using assms fresh sealed(6) below(2) same by (auto simp: seal_inv_def cong: map_cong)
  qed
qed

lemma clear_not_user: "user_packet (first # rest) = user_data (first AND 0x1F)"
  by (simp add: user_packet_def)

text \<open>A datagram that is not opened hands on no user packet; one that is opened hands on the packet of its counter.\<close>

lemma arrive_cases:
  assumes "seal_inv encrypt key w" "aead_ok encrypt decrypt" "d \<in> snd ` snd ` set (sw_sent w) \<or> \<not> authenticates decrypt key d"
  obtains (closed) result where "seal_arrive decrypt d w = w\<lparr>sw_handled := result\<rparr>" "filter user_packet result = filter user_packet (sw_handled w)"
  | (opened) c p window proven where "(c, p, d) \<in> set (sw_sent w)" "sw_server w = Active key window proven" "could_accept window c"
      "open_datagram decrypt d (sw_server w) = (Some p, Active key (accept c window) True)"
      "seal_arrive decrypt d w = w\<lparr>sw_server := Active key (accept c window) True, sw_opened := c # sw_opened w, sw_handled := p # sw_handled w\<rparr>"
proof (cases "opened_counters decrypt d (sw_server w) = []")
  case True
  then have "snd (open_datagram decrypt d (sw_server w)) = sw_server w \<and>
      (case fst (open_datagram decrypt d (sw_server w)) of Some p \<Rightarrow> \<not> user_packet p | None \<Rightarrow> True)"
    using assms(1) by (auto simp: open_datagram_def opened_counters_def seal_inv_def server_inv_def Let_def clear_not_user
        split: list.splits InboundSeal.splits option.splits prod.splits if_splits)
  then show thesis using True
    by (intro that(1)[of "case fst (open_datagram decrypt d (sw_server w)) of Some p \<Rightarrow> p # sw_handled w | None \<Rightarrow> sw_handled w"])
      (auto simp: seal_arrive_def split: prod.splits option.splits)
next
  case False
  then obtain window proven c plain where active: "sw_server w = Active key window proven" "unseal decrypt key window d = Some (c, plain)"
    using assms(1) by (auto simp: opened_counters_def seal_inv_def server_inv_def split: InboundSeal.splits option.splits)
  then have "d \<in> snd ` snd ` set (sw_sent w)" using assms(3) unseal_authenticates by blast
  then obtain c' p where sent: "(c', p, d) \<in> set (sw_sent w)" by auto
  then have "sealed_as encrypt key c' p d" using assms(1) by (auto simp: seal_inv_def)
  note is_open = unseal_sealed[OF assms(2) this, of window]
  then have c: "c = c'" "plain = p" "could_accept window c" using active(2) by (auto split: if_splits)
  have "d \<noteq> []" using active(2) by (auto simp: unseal_def)
  then have "open_datagram decrypt d (sw_server w) = (Some p, Active key (accept c window) True)"
    using active c by (cases d) (simp_all add: open_datagram_def Let_def)
  then show thesis using active sent c by (intro that(2)[of c p window proven]) (simp_all add: seal_arrive_def opened_counters_def)
qed

lemma seal_arrive_inv:
  assumes "seal_inv encrypt key w" "aead_ok encrypt decrypt" "d \<in> snd ` snd ` set (sw_sent w) \<or> \<not> authenticates decrypt key d"
  shows "seal_inv encrypt key (seal_arrive decrypt d w)"
  using assms
proof (cases rule: arrive_cases)
  case (closed result)
  then show ?thesis using assms(1) by (simp add: seal_inv_def)
next
  case (opened c p window proven)
  have window: "window_ok window (set (sw_opened w))" using assms(1) opened(2) by (simp add: seal_inv_def server_inv_def)
  then have admitted: "admits (set (sw_opened w)) c" using opened(3) could_accept_admits by blast
  have "packet_of (sw_sent w) c = p" using packet_of_sent assms(1) opened(1) by (auto simp: seal_inv_def)
  moreover have "c \<in> fst ` set (sw_sent w)" using opened(1) by force
  ultimately show ?thesis unfolding opened(5) using assms(1) admitted accept_window_ok[OF window admitted]
    by (simp add: seal_inv_def server_inv_def admits_def)
qed

lemma seal_reach_inv: "seal_reach encrypt decrypt key w \<Longrightarrow> aead_ok encrypt decrypt \<Longrightarrow> seal_inv encrypt key w"
proof (induction rule: seal_reach.induct)
  case starts
  then show ?case by (simp add: seal_inv_def seal_start_def client_inv_def server_inv_def)
next
  case (installs w)
  then show ?case by (auto simp: seal_inv_def client_inv_def install_key_def split: option.splits)
next
  case (activates w)
  then show ?case using window_ok_default by (auto simp: seal_inv_def server_inv_def activate_def split: InboundSeal.splits)
qed (auto intro: seal_send_inv seal_arrive_inv)

section \<open>Properties\<close>

lemma distinct_subset_mset: "distinct xs \<Longrightarrow> distinct ys \<Longrightarrow> set xs \<subseteq> set ys \<Longrightarrow> mset xs \<subseteq># mset ys"
  by (auto simp: subseteq_mset_def distinct_count_atmost_1 subset_iff)

text \<open>C8. With a cipher whose datagrams cannot be forged the server hands on no user packet that the client did not seal, none altered, and none more often than it was sealed,
whatever datagrams are injected, repeated, reordered or dropped on the way.\<close>

theorem user_packets_at_most_once:
  assumes "seal_reach encrypt decrypt key w" "aead_ok encrypt decrypt"
  shows "mset (filter user_packet (sw_handled w)) \<subseteq># mset (map (\<lambda>(c, p, d). p) (sw_sent w))"
proof -
  have inv: "seal_inv encrypt key w" using assms by (rule seal_reach_inv)
  then have "mset (sw_opened w) \<subseteq># mset (map fst (sw_sent w))" by (intro distinct_subset_mset) (auto simp: seal_inv_def)
  then have "image_mset (packet_of (sw_sent w)) (mset (sw_opened w)) \<subseteq># image_mset (packet_of (sw_sent w)) (mset (map fst (sw_sent w)))" by (rule image_mset_subseteq_mono)
  moreover have "map (packet_of (sw_sent w)) (map fst (sw_sent w)) = map (\<lambda>(c, p, d). p) (sw_sent w)"
    using inv packet_of_sent by (auto simp: seal_inv_def)
  ultimately have "mset (map (packet_of (sw_sent w)) (sw_opened w)) \<subseteq># mset (map (\<lambda>(c, p, d). p) (sw_sent w))" by (metis mset_map)
  moreover have "mset (filter user_packet (sw_handled w)) \<subseteq># mset (map (packet_of (sw_sent w)) (sw_opened w))"
    using inv by (simp add: seal_inv_def)
  ultimately show ?thesis by simp
qed

text \<open>A cipher for examples: the text itself, with a tag of the nonce and the associated data.\<close>

definition toy_encrypt :: aead_encrypt where
  "toy_encrypt key nonce ad plain = Some (plain, take 16 (nonce @ ad @ replicate 16 0))"

definition toy_decrypt :: aead_decrypt where
  "toy_decrypt key nonce ad body tag = (if tag = take 16 (nonce @ ad @ replicate 16 0) then Some body else None)"

lemma toy_ok: "aead_ok toy_encrypt toy_decrypt"
  by (auto simp: aead_ok_def toy_encrypt_def toy_decrypt_def)

definition toy_datagram :: bytes where
  "toy_datagram = [1, 5, 1, 0, 0, 0, 0, 0, 0, 0, 0, 0, 0, 0, 1, 0, 0, 0, 1, 0, 0, 0, 0, 0, 0, 0]"

definition toy_world :: seal_world where
  "toy_world = seal_send toy_encrypt [1, 5]
     (seal_start\<lparr>sw_client := snd (install_key [9] None), sw_server := snd (activate [9] AwaitingKey)\<rparr>)"

lemma toy_sealed: "seal_connected toy_encrypt [1, 5] (Some ([9], 0)) = (Inr (Some toy_datagram), Some ([9], 1))"
  by code_simp

lemma toy_world_alt:
  "toy_world = \<lparr>sw_client = Some ([9], 1), sw_server = Active [9] replay_window_default False, sw_sent = [(1, [1, 5], toy_datagram)], sw_opened = [], sw_handled = []\<rparr>"
  by (simp add: toy_world_def seal_send_def seal_start_def install_key_def activate_def toy_sealed)

lemma toy_reach: "seal_reach toy_encrypt toy_decrypt [9] toy_world"
proof -
  have "seal_reach toy_encrypt toy_decrypt [9] (seal_start\<lparr>sw_client := snd (install_key [9] (sw_client seal_start))\<rparr>)"
    by (intro seal_reach.installs seal_reach.starts)
  from seal_reach.activates[OF this] have "seal_reach toy_encrypt toy_decrypt [9]
      (seal_start\<lparr>sw_client := snd (install_key [9] None), sw_server := snd (activate [9] AwaitingKey)\<rparr>)" by (simp add: seal_start_def)
  then show ?thesis unfolding toy_world_def by (rule seal_reach.sends)
qed

theorem user_packets_at_most_once_witness:
  "mset (filter user_packet (sw_handled (seal_arrive toy_decrypt [0, 7, 7] (seal_arrive toy_decrypt toy_datagram (seal_arrive toy_decrypt toy_datagram toy_world)))))
     \<subseteq># {#[1, 5]#}"
proof -
  have same: "sw_sent (seal_arrive toy_decrypt d w) = sw_sent w" for d w by (simp add: seal_arrive_def split: prod.splits)
  have "seal_reach toy_encrypt toy_decrypt [9] (seal_arrive toy_decrypt [0, 7, 7] (seal_arrive toy_decrypt toy_datagram (seal_arrive toy_decrypt toy_datagram toy_world)))"
    by (intro seal_reach.arrives toy_reach) (simp_all add: same toy_world_alt authenticates_def OVERHEAD_def)
  from user_packets_at_most_once[OF this toy_ok] show ?thesis by (simp add: same toy_world_alt)
qed

text \<open>C9. A sealed packet that arrives is handed on unaltered if it was not opened before and its counter is less than 1024 below every counter opened so far, in every state
that any interference of the network leads to.\<close>

theorem sealed_packet_is_opened:
  assumes "seal_reach encrypt decrypt key w" "aead_ok encrypt decrypt" "sw_server w \<noteq> AwaitingKey"
    and "(c, p, d) \<in> set (sw_sent w)" "c \<notin> set (sw_opened w)" "list_all (\<lambda>e. unat e < unat c + 1024) (sw_opened w)"
  shows "fst (open_datagram decrypt d (sw_server w)) = Some p"
proof -
  have inv: "seal_inv encrypt key w" using assms(1,2) by (rule seal_reach_inv)
  then obtain window proven where server: "sw_server w = Active key window proven" "window_ok window (set (sw_opened w))"
    using assms(3) by (auto simp: seal_inv_def server_inv_def split: InboundSeal.splits)
  have sealed: "sealed_as encrypt key c p d" using inv assms(4) by (auto simp: seal_inv_def)
  then have "admits (set (sw_opened w)) c" using assms(5,6) by (auto simp: admits_def sealed_as_def list_all_iff WINDOW_SIZE_def)
  then have "unseal decrypt key window d = Some (c, p)" using unseal_sealed[OF assms(2) sealed] could_accept_admits[OF server(2)] by simp
  moreover have "d \<noteq> []" using sealed by (auto simp: sealed_as_def)
  ultimately show ?thesis using server(1) by (cases d) (simp_all add: open_datagram_def Let_def)
qed

theorem sealed_packet_is_opened_witness: "fst (open_datagram toy_decrypt toy_datagram (sw_server toy_world)) = Some [1, 5]"
  by (rule sealed_packet_is_opened[OF toy_reach toy_ok, where c = 1]) (simp_all add: toy_world_alt)

end
