(* ===== verification/PreAuth.thy ===== *)
theory PreAuth
  imports Assoc
begin

text \<open>
  The limiter of requests before authentication (\<open>basis-transport/src/pre_auth.rs\<close>): a bucket of tokens for each kind of request, shared by all addresses, and
  buckets for each address, in a table of 4096 addresses with 256 shared buckets for the others. An instant is a number of nanoseconds. The tokens, which the source keeps as \<open>f64\<close>, are counted exactly in units of a
  billionth: the rounding of \<open>f64\<close> is not modelled. The seeded hash function is an argument.
\<close>

definition MAX_IPS :: nat where "MAX_IPS = 4096"
definition OVERFLOW_BUCKETS :: nat where "OVERFLOW_BUCKETS = 256"
definition SECOND :: nat where "SECOND = 1000000000"
definition IP_TTL :: nat where "IP_TTL = 60 * SECOND"

text \<open>One token, in billionths.\<close>

definition TOKEN :: nat where "TOKEN = 1000000000"

datatype Kind = Connection | Info | NatRequest

fun kind_budget :: "Kind \<Rightarrow> nat \<times> nat" where
  "kind_budget Connection = (4096 * TOKEN, 128)"
| "kind_budget Info = (1 * TOKEN, 2)"
| "kind_budget NatRequest = (32 * TOKEN, 8)"

fun global_budget :: "Kind \<Rightarrow> nat \<times> nat" where
  "global_budget Connection = (4096 * TOKEN, 512)"
| "global_budget Info = (200 * TOKEN, 100)"
| "global_budget NatRequest = (256 * TOKEN, 128)"

text \<open>The arrays of three elements are functions of the kind.\<close>

record Entry =
  en_tokens :: "Kind \<Rightarrow> nat"
  en_updated :: "Kind \<Rightarrow> nat"
  en_last_allowed :: nat

datatype IpAddr = V4 u32 | V6 "128 word"

record Limiter =
  lm_entries :: "(IpAddr \<times> Entry) list"
  lm_overflow :: "Entry option list"
  lm_last_cleanup :: nat
  lm_global_tokens :: "Kind \<Rightarrow> nat"
  lm_global_updated :: "Kind \<Rightarrow> nat"

fun global_start :: "Kind \<Rightarrow> nat" where
  "global_start Connection = 4096 * TOKEN"
| "global_start Info = 200 * TOKEN"
| "global_start NatRequest = 256 * TOKEN"

fun entry_start :: "Kind \<Rightarrow> nat" where
  "entry_start Connection = 4096 * TOKEN"
| "entry_start Info = 1 * TOKEN"
| "entry_start NatRequest = 32 * TOKEN"

definition entry_new :: "nat \<Rightarrow> Entry" where
  "entry_new now = \<lparr>en_tokens = entry_start, en_updated = (\<lambda>_. now), en_last_allowed = now\<rparr>"

definition limiter_default :: "nat \<Rightarrow> Limiter" where
  "limiter_default now = \<lparr>lm_entries = [], lm_overflow = replicate OVERFLOW_BUCKETS None, lm_last_cleanup = now,
     lm_global_tokens = global_start, lm_global_updated = (\<lambda>_. now)\<rparr>"

definition cleanup :: "nat \<Rightarrow> Limiter \<Rightarrow> Limiter" where
  "cleanup now l =
     (if now - lm_last_cleanup l \<ge> SECOND
      then l\<lparr>lm_entries := filter (\<lambda>(_, entry). now - en_last_allowed entry < IP_TTL) (lm_entries l),
             lm_overflow := map (\<lambda>entry. case entry of
               Some e \<Rightarrow> if now - en_last_allowed e \<ge> IP_TTL then None else entry | None \<Rightarrow> None) (lm_overflow l),
             lm_last_cleanup := now\<rparr>
      else l)"

definition overflow_bucket :: "(IpAddr \<Rightarrow> u64) \<Rightarrow> IpAddr \<Rightarrow> nat" where
  "overflow_bucket hash ip = unat (hash ip) mod OVERFLOW_BUCKETS"

text \<open>\<open>to_ipv4_mapped\<close> of the standard library: the addresses \<open>::ffff:a.b.c.d\<close>.\<close>

fun canonical_ip :: "IpAddr \<Rightarrow> IpAddr" where
  "canonical_ip (V4 a) = V4 a"
| "canonical_ip (V6 a) = (if drop_bit 32 a = 0xFFFF then V4 (ucast a) else V6 a)"

definition refilled :: "nat \<Rightarrow> nat \<Rightarrow> nat \<Rightarrow> nat \<times> nat \<Rightarrow> nat" where
  "refilled tokens updated now budget = (case budget of (burst, rate) \<Rightarrow> min (tokens + (now - updated) * rate) burst)"

text \<open>The entry that pays for a request, spent if it has a token.\<close>

definition spend :: "Kind \<Rightarrow> nat \<Rightarrow> Entry \<Rightarrow> bool \<times> Entry" where
  "spend kind now entry =
     (let tokens = refilled (en_tokens entry kind) (en_updated entry kind) now (kind_budget kind);
          entry = entry\<lparr>en_tokens := (en_tokens entry)(kind := tokens), en_updated := (en_updated entry)(kind := now)\<rparr>
      in if tokens < TOKEN then (False, entry)
         else (True, entry\<lparr>en_tokens := (en_tokens entry)(kind := tokens - TOKEN), en_last_allowed := now\<rparr>))"

definition allow :: "(IpAddr \<Rightarrow> u64) \<Rightarrow> IpAddr \<Rightarrow> Kind \<Rightarrow> nat \<Rightarrow> Limiter \<Rightarrow> bool \<times> Limiter" where
  "allow hash ip kind now l =
     (let l = cleanup now l;
          global = refilled (lm_global_tokens l kind) (lm_global_updated l kind) now (global_budget kind);
          l = l\<lparr>lm_global_tokens := (lm_global_tokens l)(kind := global), lm_global_updated := (lm_global_updated l)(kind := now)\<rparr>
      in if global < TOKEN then (False, l)
         else
           let ip = canonical_ip ip; bucket = overflow_bucket hash ip;
               exact = (map_of (lm_entries l) ip \<noteq> None \<or> length (lm_entries l) < MAX_IPS);
               shared = (case lm_overflow l ! bucket of Some entry \<Rightarrow> entry | None \<Rightarrow> entry_new now);
               (ok, entry) = spend kind now (case map_of (lm_entries l) ip of Some entry \<Rightarrow> entry | None \<Rightarrow> shared);
               l = (if exact then l\<lparr>lm_entries := put_key ip entry (lm_entries l)\<rparr> else l\<lparr>lm_overflow := (lm_overflow l)[bucket := Some entry]\<rparr>)
           in if ok then (True, l\<lparr>lm_global_tokens := (lm_global_tokens l)(kind := global - TOKEN)\<rparr>) else (False, l))"

end
