(* ===== verification/PreAuthProperties.thy ===== *)
theory PreAuthProperties
  imports PreAuth
begin

text \<open>
  Requests before authentication are bounded for each address and in total, whatever addresses send them: neither the table that forgets silent addresses nor the shared buckets
  grant a second budget.
\<close>

section \<open>Credit\<close>

definition entry_credit :: "Entry \<Rightarrow> Kind \<Rightarrow> nat \<Rightarrow> nat" where
  "entry_credit e kind now = refilled (en_tokens e kind) (en_updated e kind) now (kind_budget kind)"

definition paying_entry :: "(IpAddr \<Rightarrow> u64) \<Rightarrow> Limiter \<Rightarrow> IpAddr \<Rightarrow> Entry option" where
  "paying_entry hash l ip = (case map_of (lm_entries l) ip of Some e \<Rightarrow> Some e | None \<Rightarrow> lm_overflow l ! overflow_bucket hash ip)"

definition credit :: "(IpAddr \<Rightarrow> u64) \<Rightarrow> Limiter \<Rightarrow> IpAddr \<Rightarrow> Kind \<Rightarrow> nat \<Rightarrow> nat" where
  "credit hash l ip kind now = (case paying_entry hash l ip of Some e \<Rightarrow> entry_credit e kind now | None \<Rightarrow> fst (kind_budget kind))"

definition global_credit :: "Limiter \<Rightarrow> Kind \<Rightarrow> nat \<Rightarrow> nat" where
  "global_credit l kind now = refilled (lm_global_tokens l kind) (lm_global_updated l kind) now (global_budget kind)"

lemma entry_start_burst: "entry_start kind = fst (kind_budget kind)"
  by (cases kind) simp_all

lemma global_start_burst: "global_start kind = fst (global_budget kind)"
  by (cases kind) simp_all

lemma entry_new_credit [simp]: "entry_credit (entry_new t) kind now = fst (kind_budget kind)"
  by (simp add: entry_credit_def entry_new_def refilled_def entry_start_burst split: prod.splits)

lemma refilled_bound: "refilled tokens updated now budget \<le> fst budget"
  by (simp add: refilled_def split: prod.splits)

lemma refilled_grows:
  assumes "now \<le> later"
  shows "refilled tokens updated later budget \<le> refilled tokens updated now budget + snd budget * (later - now)"
proof -
  obtain burst rate where budget: "budget = (burst, rate)" by force
  have "later - updated \<le> (now - updated) + (later - now)" using assms by simp
  then have "(later - updated) * rate \<le> ((now - updated) + (later - now)) * rate" by (rule mult_le_mono1)
  then have "(later - updated) * rate \<le> (now - updated) * rate + rate * (later - now)" by (simp only: mult.commute[of _ rate] distrib_left)
  then show ?thesis unfolding refilled_def budget prod.case fst_conv snd_conv by linarith
qed

lemma refilled_again [simp]: "refilled (min x (fst budget)) now now budget = min x (fst budget)"
  by (simp add: refilled_def split: prod.splits)

lemma credit_bound: "credit hash l ip kind now \<le> fst (kind_budget kind)"
  by (simp add: credit_def entry_credit_def refilled_bound split: option.splits)

lemma credit_grows: "now \<le> later \<Longrightarrow> credit hash l ip kind later \<le> credit hash l ip kind now + snd (kind_budget kind) * (later - now)"
  using refilled_grows by (simp add: credit_def entry_credit_def split: option.splits)

section \<open>Entries\<close>

text \<open>Tokens come back with the time since the last request that was let through.\<close>

definition entry_ok :: "nat \<Rightarrow> Entry \<Rightarrow> bool" where
  "entry_ok now e \<longleftrightarrow> en_last_allowed e \<le> now \<and> (\<forall>k. en_updated e k \<le> now \<and>
     min (fst (kind_budget k)) (snd (kind_budget k) * (en_updated e k - en_last_allowed e)) \<le> en_tokens e k)"

lemma entry_ok_later: "entry_ok now e \<Longrightarrow> now \<le> later \<Longrightarrow> entry_ok later e"
  by (auto simp: entry_ok_def intro: order.trans)

lemma entry_new_ok: "entry_ok now (entry_new now)"
  by (simp add: entry_ok_def entry_new_def)

lemma credit_since_allowed:
  assumes "entry_ok t e" "t \<le> now"
  shows "min (fst (kind_budget kind)) (snd (kind_budget kind) * (now - en_last_allowed e)) \<le> entry_credit e kind now"
proof -
  obtain burst rate where budget: "kind_budget kind = (burst, rate)" by force
  let ?u = "en_updated e kind" and ?a = "en_last_allowed e"
  have low: "min burst (rate * (?u - ?a)) \<le> en_tokens e kind" "?u \<le> now" using assms by (auto simp: entry_ok_def budget intro: order.trans dest: spec[of _ kind])
  have "rate * (now - ?a) \<le> rate * (?u - ?a) + (now - ?u) * rate"
  proof -
    have "now - ?a \<le> (?u - ?a) + (now - ?u)" using low(2) by simp
    then have "rate * (now - ?a) \<le> rate * ((?u - ?a) + (now - ?u))" by (rule mult_le_mono2)
    then show ?thesis by (simp add: algebra_simps)
  qed
  then show ?thesis using low(1) by (auto simp: entry_credit_def refilled_def budget min_def split: if_splits)
qed

lemma forgotten_is_full:
  assumes "entry_ok t e" "t \<le> now" "IP_TTL \<le> now - en_last_allowed e"
  shows "entry_credit e kind now = fst (kind_budget kind)"
proof -
  have "fst (kind_budget kind) \<le> snd (kind_budget kind) * IP_TTL" by (cases kind) (simp_all add: IP_TTL_def SECOND_def TOKEN_def)
  then have "fst (kind_budget kind) \<le> snd (kind_budget kind) * (now - en_last_allowed e)" using assms(3) by (meson mult_le_mono2 order.trans)
  then show ?thesis using credit_since_allowed[OF assms(1,2), of kind] refilled_bound[of _ _ now "kind_budget kind"]
    by (simp add: entry_credit_def le_antisym)
qed

lemma spend_credit:
  assumes "spend kind now e = (ok, e')"
  shows "entry_credit e' k now + (if ok \<and> k = kind then TOKEN else 0) = entry_credit e k now" "ok \<longleftrightarrow> TOKEN \<le> entry_credit e kind now"
  using assms by (auto simp: spend_def entry_credit_def refilled_def Let_def split: prod.splits if_splits)

lemma spend_ok:
  assumes "spend kind now e = (ok, e')" "entry_ok t e" "t \<le> now"
  shows "entry_ok now e'"
proof -
  have refill: "min (fst (kind_budget kind)) (snd (kind_budget kind) * (now - en_last_allowed e)) \<le> entry_credit e kind now"
    using credit_since_allowed[OF assms(2,3)] .
  have e: "entry_ok now e" using entry_ok_later assms(2,3) by blast
  show ?thesis
  proof (cases ok)
    case True
    then have "e' = e\<lparr>en_tokens := (en_tokens e)(kind := entry_credit e kind now - TOKEN), en_updated := (en_updated e)(kind := now), en_last_allowed := now\<rparr>"
      using assms(1) by (auto simp: spend_def entry_credit_def Let_def split: if_splits)
    then show ?thesis using e by (auto simp: entry_ok_def)
  next
    case False
    then have "e' = e\<lparr>en_tokens := (en_tokens e)(kind := entry_credit e kind now), en_updated := (en_updated e)(kind := now)\<rparr>"
      using assms(1) by (auto simp: spend_def entry_credit_def Let_def split: if_splits)
    then show ?thesis using e refill by (auto simp: entry_ok_def)
  qed
qed

section \<open>Limiter\<close>

definition limiter_ok :: "nat \<Rightarrow> Limiter \<Rightarrow> bool" where
  "limiter_ok now l \<longleftrightarrow> distinct (map fst (lm_entries l)) \<and> length (lm_entries l) \<le> MAX_IPS \<and> length (lm_overflow l) = OVERFLOW_BUCKETS \<and>
     (\<forall>(ip, e)\<in>set (lm_entries l). entry_ok now e) \<and> (\<forall>e. Some e \<in> set (lm_overflow l) \<longrightarrow> entry_ok now e)"

lemma limiter_ok_later: "limiter_ok now l \<Longrightarrow> now \<le> later \<Longrightarrow> limiter_ok later l"
  unfolding limiter_ok_def using entry_ok_later by fast

lemma overflow_bucket_bound [simp]: "overflow_bucket hash ip < OVERFLOW_BUCKETS"
  by (simp add: overflow_bucket_def OVERFLOW_BUCKETS_def)

lemma paying_entry_ok:
  assumes "limiter_ok now l" "paying_entry hash l ip = Some e"
  shows "entry_ok now e"
proof (cases "map_of (lm_entries l) ip")
  case None
  then have "Some e \<in> set (lm_overflow l)" using assms nth_mem[of "overflow_bucket hash ip" "lm_overflow l"] by (auto simp: paying_entry_def limiter_ok_def)
  then show ?thesis using assms(1) by (simp add: limiter_ok_def)
next
  case (Some e')
  then show ?thesis using assms by (auto simp: paying_entry_def limiter_ok_def dest: map_of_SomeD)
qed

lemma map_of_filter_entry:
  "distinct (map fst xs) \<Longrightarrow> map_of (filter (\<lambda>(_, e). P e) xs) k = (case map_of xs k of Some e \<Rightarrow> if P e then Some e else None | None \<Rightarrow> None)"
proof (induction xs)
  case (Cons x xs)
  then have "fst x = k \<Longrightarrow> map_of xs k = None" by (auto simp: map_of_eq_None_iff)
  then show ?case using Cons by (cases x) auto
qed simp

lemma cleanup_ok: "limiter_ok now l \<Longrightarrow> limiter_ok now (cleanup t l)"
  by (auto simp: limiter_ok_def cleanup_def distinct_map_filter intro: le_trans[OF length_filter_le] split: option.splits if_splits)

lemma cleanup_credit:
  assumes "limiter_ok t' l" "t' \<le> now" "t \<le> now"
  shows "credit hash (cleanup t l) ip kind now \<le> credit hash l ip kind now"
proof (cases "paying_entry hash (cleanup t l) ip = paying_entry hash l ip")
  case False
  then obtain e where e: "paying_entry hash l ip = Some e" "IP_TTL \<le> t - en_last_allowed e"
    using assms(1) by (auto simp: paying_entry_def cleanup_def limiter_ok_def map_of_filter_entry split: option.splits if_splits)
  then have "entry_credit e kind now = fst (kind_budget kind)"
    using forgotten_is_full[OF paying_entry_ok[OF assms(1) e(1)] assms(2)] assms(3) by simp
  then show ?thesis using e(1) credit_bound[of hash "cleanup t l"] by (simp add: credit_def)
qed (simp add: credit_def)

lemma global_cleanup [simp]: "global_credit (cleanup t l) kind now = global_credit l kind now"
  by (simp add: global_credit_def cleanup_def)

lemma paying_entry_frame [simp]:
  "paying_entry hash (l\<lparr>lm_global_tokens := x\<rparr>) a = paying_entry hash l a"
  "paying_entry hash (l\<lparr>lm_global_updated := y\<rparr>) a = paying_entry hash l a"
  "limiter_ok now (l\<lparr>lm_global_tokens := x\<rparr>) = limiter_ok now l"
  "limiter_ok now (l\<lparr>lm_global_updated := y\<rparr>) = limiter_ok now l"
  by (simp_all add: paying_entry_def limiter_ok_def split: option.splits)

lemma length_put_key: "length (put_key k v xs) \<le> (if map_of xs k = None then Suc (length xs) else length xs)"
proof (cases "map_of xs k")
  case (Some v')
  then have "(k, v') \<in> set xs" by (rule map_of_SomeD)
  then have "length (remove_key k xs) < length xs" unfolding remove_key_def by (rule length_filter_less) simp
  then show ?thesis using Some by (simp add: put_key_def)
qed (simp add: put_key_def)

text \<open>The limiter after the entry of an address was replaced, in the table if it is or fits there.\<close>

definition charged :: "(IpAddr \<Rightarrow> u64) \<Rightarrow> IpAddr \<Rightarrow> Entry \<Rightarrow> Limiter \<Rightarrow> Limiter" where
  "charged hash ip e l = (if map_of (lm_entries l) ip \<noteq> None \<or> length (lm_entries l) < MAX_IPS then l\<lparr>lm_entries := put_key ip e (lm_entries l)\<rparr>
     else l\<lparr>lm_overflow := (lm_overflow l)[overflow_bucket hash ip := Some e]\<rparr>)"

lemma charged_global: "lm_global_tokens (charged hash ip e l) = lm_global_tokens l" "lm_global_updated (charged hash ip e l) = lm_global_updated l"
  by (simp_all add: charged_def)

lemma charged_ok:
  assumes "limiter_ok now l" "entry_ok now e"
  shows "limiter_ok now (charged hash ip e l)"
proof (cases "map_of (lm_entries l) ip \<noteq> None \<or> length (lm_entries l) < MAX_IPS")
  case True
  then have "length (put_key ip e (lm_entries l)) \<le> MAX_IPS" using length_put_key[of ip e "lm_entries l"] assms(1) by (auto simp: limiter_ok_def split: if_splits)
  then show ?thesis using True assms by (auto simp: limiter_ok_def charged_def put_key_def)
next
  case False
  then show ?thesis using assms set_update_subset_insert[of "lm_overflow l" "overflow_bucket hash ip" "Some e"] by (auto simp: limiter_ok_def charged_def)
qed

lemma paying_charged:
  assumes "limiter_ok now l"
  shows "paying_entry hash (charged hash ip e l) a = (if a = ip \<or> map_of (lm_entries l) ip = None \<and> MAX_IPS \<le> length (lm_entries l) \<and> map_of (lm_entries l) a = None \<and>
    overflow_bucket hash a = overflow_bucket hash ip then Some e else paying_entry hash l a)"
  using assms by (auto simp: paying_entry_def charged_def limiter_ok_def nth_list_update split: option.splits)

lemma charged_credit:
  assumes ok: "limiter_ok now l" and spent: "spend kind now (case paying_entry hash l ip of Some e \<Rightarrow> e | None \<Rightarrow> entry_new now) = (paid, e')"
  shows "credit hash (charged hash ip e' l) a k now + (if paid \<and> a = ip \<and> k = kind then TOKEN else 0) \<le> credit hash l a k now"
proof (cases "paying_entry hash (charged hash ip e' l) a = paying_entry hash l a \<and> a \<noteq> ip")
  case True
  then show ?thesis by (simp add: credit_def)
next
  case False
  then have shared: "a = ip \<or> map_of (lm_entries l) ip = None \<and> map_of (lm_entries l) a = None \<and> overflow_bucket hash a = overflow_bucket hash ip"
    and new: "paying_entry hash (charged hash ip e' l) a = Some e'" unfolding paying_charged[OF ok] by (metis (no_types))+
  have "paying_entry hash l a = paying_entry hash l ip" using shared by (elim disjE conjE) (simp, simp add: paying_entry_def)
  then have "credit hash l a k now = entry_credit (case paying_entry hash l ip of Some e \<Rightarrow> e | None \<Rightarrow> entry_new now) k now" by (simp add: credit_def split: option.splits)
  then show ?thesis using spend_credit(1)[OF spent, of k] new by (auto simp: credit_def split: if_splits)
qed

text \<open>Every request leaves the credit of all addresses at most as it was; one that is let through costs its address and the whole server a token.\<close>

lemma allow_step:
  assumes ok: "limiter_ok t l" "t \<le> now" and call: "allow hash ip kind now l = (answer, l')"
  shows "limiter_ok now l'"
    and "credit hash l' a k now + (if answer \<and> a = canonical_ip ip \<and> k = kind then TOKEN else 0) \<le> credit hash l a k now"
    and "global_credit l' k now + (if answer \<and> k = kind then TOKEN else 0) = global_credit l k now"
    and "answer \<longleftrightarrow> TOKEN \<le> global_credit l kind now \<and> TOKEN \<le> credit hash (cleanup now l) (canonical_ip ip) kind now"
proof -
  let ?c = "cleanup now l" and ?ip = "canonical_ip ip" and ?g = "global_credit (cleanup now l) kind now"
  define l1 where "l1 = ?c\<lparr>lm_global_tokens := (lm_global_tokens ?c)(kind := ?g), lm_global_updated := (lm_global_updated ?c)(kind := now)\<rparr>"
  have l1_ok: "limiter_ok now l1" using cleanup_ok limiter_ok_later ok by (simp add: l1_def)
  have l1_credit: "credit hash l1 a k now = credit hash ?c a k now" for a k by (simp add: l1_def credit_def)
  have l1_global: "global_credit l1 k now = global_credit l k now"
    by (auto simp: l1_def global_credit_def refilled_def cleanup_def split: prod.splits)
  define e where "e = (case paying_entry hash l1 ?ip of Some e \<Rightarrow> e | None \<Rightarrow> entry_new now)"
  obtain paid e' where spent: "spend kind now e = (paid, e')" by force
  define l2 where "l2 = charged hash ?ip e' l1"
  have pay: "(case map_of (lm_entries l1) ?ip of Some entry \<Rightarrow> entry
      | None \<Rightarrow> case lm_overflow l1 ! overflow_bucket hash ?ip of Some entry \<Rightarrow> entry | None \<Rightarrow> entry_new now) = e"
    by (simp add: e_def paying_entry_def split: option.splits)
  have new: "(answer, l') = (if ?g < TOKEN then (False, l1)
      else if paid then (True, l2\<lparr>lm_global_tokens := (lm_global_tokens l2)(kind := ?g - TOKEN)\<rparr>) else (False, l2))"
    using call unfolding allow_def Let_def global_credit_def[symmetric] l1_def[symmetric] pay spent prod.case charged_def[symmetric] l2_def[symmetric] by simp
  have "entry_ok now e" using paying_entry_ok[OF l1_ok] entry_new_ok by (auto simp: e_def split: option.splits)
  then have l2_ok: "limiter_ok now l2" using charged_ok[OF l1_ok] spend_ok[OF spent] by (simp add: l2_def)
  have l2_credit: "credit hash l2 a k now + (if paid \<and> a = ?ip \<and> k = kind then TOKEN else 0) \<le> credit hash l1 a k now"
    using charged_credit[OF l1_ok] spent by (simp add: l2_def e_def)
  have start: "credit hash l1 a k now \<le> credit hash l a k now" using cleanup_credit[OF ok(1,2), of now] by (simp add: l1_credit)
  show "limiter_ok now l'" using new l1_ok l2_ok by (auto split: if_splits)
  show "credit hash l' a k now + (if answer \<and> a = canonical_ip ip \<and> k = kind then TOKEN else 0) \<le> credit hash l a k now"
    using new start l2_credit by (auto simp: credit_def split: if_splits)
  show "global_credit l' k now + (if answer \<and> k = kind then TOKEN else 0) = global_credit l k now"
    using new l1_global charged_global by (auto simp: global_credit_def l2_def l1_def refilled_def split: if_splits prod.splits) linarith
  have "paid \<longleftrightarrow> TOKEN \<le> credit hash ?c ?ip kind now" using spend_credit(2)[OF spent] l1_credit[of ?ip kind] by (simp add: e_def credit_def split: option.splits)
  then show "answer \<longleftrightarrow> TOKEN \<le> global_credit l kind now \<and> TOKEN \<le> credit hash (cleanup now l) (canonical_ip ip) kind now"
    using new by (auto split: if_splits)
qed

section \<open>Runs\<close>

text \<open>The limiter, the latest instant and the requests that were let through. Requests read the clock while they hold the lock; the sweep may come with an older instant.\<close>

record limiter_world =
  lw_limiter :: Limiter
  lw_now :: nat
  lw_log :: "(IpAddr \<times> Kind \<times> nat) list"

inductive limiter_reach :: "(IpAddr \<Rightarrow> u64) \<Rightarrow> limiter_world \<Rightarrow> bool" for hash where
  starts: "limiter_reach hash \<lparr>lw_limiter = limiter_default t, lw_now = t, lw_log = []\<rparr>"
| requests: "limiter_reach hash w \<Longrightarrow> lw_now w \<le> now \<Longrightarrow> allow hash ip kind now (lw_limiter w) = (answer, l) \<Longrightarrow>
    limiter_reach hash \<lparr>lw_limiter = l, lw_now = now, lw_log = (if answer then [(canonical_ip ip, kind, now)] else []) @ lw_log w\<rparr>"
| sweeps: "limiter_reach hash w \<Longrightarrow> limiter_reach hash \<lparr>lw_limiter = cleanup t (lw_limiter w), lw_now = max t (lw_now w), lw_log = lw_log w\<rparr>"

definition passed :: "IpAddr \<Rightarrow> Kind \<Rightarrow> nat \<Rightarrow> (IpAddr \<times> Kind \<times> nat) list \<Rightarrow> nat" where
  "passed ip kind since log = length (filter (\<lambda>(a, k, t). a = ip \<and> k = kind \<and> since \<le> t) log)"

definition passed_all :: "Kind \<Rightarrow> nat \<Rightarrow> (IpAddr \<times> Kind \<times> nat) list \<Rightarrow> nat" where
  "passed_all kind since log = length (filter (\<lambda>(a, k, t). k = kind \<and> since \<le> t) log)"

lemma passed_step:
  "passed ip kind s ((if answer then [(a, k, t)] else []) @ log) = (if answer \<and> a = ip \<and> k = kind \<and> s \<le> t then 1 else 0) + passed ip kind s log"
  "passed_all kind s ((if answer then [(a, k, t)] else []) @ log) = (if answer \<and> k = kind \<and> s \<le> t then 1 else 0) + passed_all kind s log"
  by (simp_all add: passed_def passed_all_def)

definition limiter_inv :: "(IpAddr \<Rightarrow> u64) \<Rightarrow> limiter_world \<Rightarrow> bool" where
  "limiter_inv hash w \<longleftrightarrow> limiter_ok (lw_now w) (lw_limiter w) \<and> (\<forall>(a, k, t)\<in>set (lw_log w). t \<le> lw_now w) \<and>
     (\<forall>ip kind s. TOKEN * passed ip kind s (lw_log w) + credit hash (lw_limiter w) ip kind (lw_now w) \<le>
        fst (kind_budget kind) + snd (kind_budget kind) * (lw_now w - s)) \<and>
     (\<forall>kind s. TOKEN * passed_all kind s (lw_log w) + global_credit (lw_limiter w) kind (lw_now w) \<le>
        fst (global_budget kind) + snd (global_budget kind) * (lw_now w - s))"

text \<open>A count with the credit that is left stays within a budget while time passes.\<close>

lemma budget_step:
  fixes n n' c c' burst rate now later s cost :: nat
  assumes "n + c \<le> burst + rate * (now - s)" "now \<le> later" "c' + cost \<le> c + rate * (later - now)" "c' + cost \<le> burst"
    and "n' \<le> n + cost" "now < s \<Longrightarrow> n = 0"
  shows "n' + c' \<le> burst + rate * (later - s)"
proof (cases "now < s")
  case True
  then show ?thesis using assms(4-6) by simp
next
  case False
  then have "later - s = (now - s) + (later - now)" using assms(2) by simp
  then have "rate * (later - s) = rate * (now - s) + rate * (later - now)" by (simp only: distrib_left)
  then show ?thesis using assms(1,3,5) by linarith
qed

lemma passed_future:
  assumes "\<forall>(a, k, t)\<in>set log. t \<le> now" "now < s"
  shows "passed ip kind s log = 0" "passed_all kind s log = 0"
  using assms by (auto simp: passed_def passed_all_def filter_empty_conv)

lemma limiter_step_inv:
  assumes inv: "limiter_inv hash w" and later: "lw_now w \<le> lw_now w'" and ok: "limiter_ok (lw_now w') (lw_limiter w')"
    and credits: "\<And>a k. credit hash (lw_limiter w') a k (lw_now w') + (if entry = [(a, k, lw_now w')] then TOKEN else 0) \<le> credit hash (lw_limiter w) a k (lw_now w')"
    and globals: "\<And>k. global_credit (lw_limiter w') k (lw_now w') + (if \<exists>a. entry = [(a, k, lw_now w')] then TOKEN else 0) \<le> global_credit (lw_limiter w) k (lw_now w')"
    and log: "lw_log w' = entry @ lw_log w" "entry = [] \<or> (\<exists>a k. entry = [(a, k, lw_now w')])"
  shows "limiter_inv hash w'"
proof -
  let ?now = "lw_now w" and ?later = "lw_now w'"
  have past: "\<forall>(a, k, t)\<in>set (lw_log w). t \<le> ?now" using inv by (simp add: limiter_inv_def)
  have "TOKEN * passed ip kind s (lw_log w') + credit hash (lw_limiter w') ip kind ?later \<le> fst (kind_budget kind) + snd (kind_budget kind) * (?later - s)" for ip kind s
  proof (rule budget_step[where n = "TOKEN * passed ip kind s (lw_log w)" and c = "credit hash (lw_limiter w) ip kind ?now" and now = ?now
      and cost = "if entry = [(ip, kind, ?later)] then TOKEN else 0"])
    show "TOKEN * passed ip kind s (lw_log w) + credit hash (lw_limiter w) ip kind ?now \<le> fst (kind_budget kind) + snd (kind_budget kind) * (?now - s)"
      using inv by (simp add: limiter_inv_def)
    show "TOKEN * passed ip kind s (lw_log w') \<le> TOKEN * passed ip kind s (lw_log w) + (if entry = [(ip, kind, ?later)] then TOKEN else 0)"
      using log by (auto simp: passed_def split: if_splits)
  qed (use later credits[of ip kind] credit_grows[OF later, of hash "lw_limiter w" ip kind] credit_bound[of hash "lw_limiter w" ip kind ?later] passed_future[OF past] in \<open>auto intro: order.trans\<close>)
  moreover have "TOKEN * passed_all kind s (lw_log w') + global_credit (lw_limiter w') kind ?later \<le> fst (global_budget kind) + snd (global_budget kind) * (?later - s)" for kind s
  proof (rule budget_step[where n = "TOKEN * passed_all kind s (lw_log w)" and c = "global_credit (lw_limiter w) kind ?now" and now = ?now
      and cost = "if \<exists>a. entry = [(a, kind, ?later)] then TOKEN else 0"])
    show "TOKEN * passed_all kind s (lw_log w) + global_credit (lw_limiter w) kind ?now \<le> fst (global_budget kind) + snd (global_budget kind) * (?now - s)"
      using inv by (simp add: limiter_inv_def)
    show "TOKEN * passed_all kind s (lw_log w') \<le> TOKEN * passed_all kind s (lw_log w) + (if \<exists>a. entry = [(a, kind, ?later)] then TOKEN else 0)"
      using log by (auto simp: passed_all_def split: if_splits)
    show "global_credit (lw_limiter w') kind ?later + (if \<exists>a. entry = [(a, kind, ?later)] then TOKEN else 0) \<le>
        global_credit (lw_limiter w) kind ?now + snd (global_budget kind) * (?later - ?now)"
      using globals[of kind] refilled_grows[OF later] unfolding global_credit_def by (rule order.trans)
    show "global_credit (lw_limiter w') kind ?later + (if \<exists>a. entry = [(a, kind, ?later)] then TOKEN else 0) \<le> fst (global_budget kind)"
      using globals[of kind] refilled_bound unfolding global_credit_def by (rule order.trans)
  qed (use later passed_future[OF past] in auto)
  moreover have "\<forall>(a, k, t)\<in>set (lw_log w'). t \<le> ?later" using log past later by fastforce
  ultimately show ?thesis using ok by (simp add: limiter_inv_def)
qed

lemma limiter_reach_inv: "limiter_reach hash w \<Longrightarrow> limiter_inv hash w"
proof (induction rule: limiter_reach.induct)
  case (starts t)
  then show ?case
    by (auto simp: limiter_inv_def limiter_ok_def limiter_default_def passed_def passed_all_def global_credit_def refilled_def global_start_burst
        intro: le_trans[OF credit_bound] split: prod.splits)
next
  case (requests w now ip kind answer l)
  then have ok: "limiter_ok (lw_now w) (lw_limiter w)" by (simp add: limiter_inv_def)
  note step = allow_step[OF ok requests(2,3)]
  let ?entry = "if answer then [(canonical_ip ip, kind, now)] else []"
  show ?case
  proof (rule limiter_step_inv[OF requests(4), where entry = ?entry], goal_cases)
    case (3 a k)
    then show ?case using step(2)[of a k] by (auto split: if_splits)
  next
    case (4 k)
    then show ?case using step(3)[of k] by (auto split: if_splits)
  qed (use step(1) requests(2) in auto)
next
  case (sweeps w t)
  then have ok: "limiter_ok (lw_now w) (lw_limiter w)" by (simp add: limiter_inv_def)
  then have "limiter_ok (max t (lw_now w)) (cleanup t (lw_limiter w))" using cleanup_ok limiter_ok_later max.cobounded2 by blast
  then show ?case using cleanup_credit[OF ok, of "max t (lw_now w)" t]
    by (intro limiter_step_inv[OF sweeps(2), where entry = "[]"]) simp_all
qed

text \<open>C11. Requests before authentication are bounded. In every run of requests from any addresses and of sweeps, with any hash function: the requests of a kind that are let through from one address
since any instant are at most the burst of that kind and its rate times the time since; all addresses together keep within the budget of the server; and the table holds at most 4096 addresses. An
address gets no second budget by falling silent until it is forgotten, by moving between the table and the shared buckets, or by its IPv6 form.\<close>

theorem request_rate_bound:
  assumes "limiter_reach hash w"
  shows "TOKEN * passed ip kind since (lw_log w) \<le> fst (kind_budget kind) + snd (kind_budget kind) * (lw_now w - since) \<and>
    TOKEN * passed_all kind since (lw_log w) \<le> fst (global_budget kind) + snd (global_budget kind) * (lw_now w - since) \<and>
    length (lm_entries (lw_limiter w)) \<le> 4096"
  using limiter_reach_inv[OF assms] unfolding limiter_inv_def limiter_ok_def MAX_IPS_def by (meson add_leD1)

definition one_request :: "bool \<times> Limiter" where
  "one_request = allow (\<lambda>_. 0) (V6 0xFFFF00000001) Info 0 (limiter_default 0)"

lemma one_request_alt:
  "one_request = (True, \<lparr>lm_entries = [(V4 1, \<lparr>en_tokens = entry_start(Info := 0), en_updated = (\<lambda>_. 0), en_last_allowed = 0\<rparr>)],
     lm_overflow = replicate 256 None, lm_last_cleanup = 0, lm_global_tokens = global_start(Info := 199 * TOKEN), lm_global_updated = (\<lambda>_. 0)\<rparr>)"
  by (simp add: one_request_def allow_def limiter_default_def cleanup_def SECOND_def refilled_def TOKEN_def overflow_bucket_def OVERFLOW_BUCKETS_def MAX_IPS_def
      entry_new_def spend_def put_key_def remove_key_def fun_upd_idem)

lemma one_request_reach: "limiter_reach (\<lambda>_. 0) \<lparr>lw_limiter = snd one_request, lw_now = 0, lw_log = [(V4 1, Info, 0)]\<rparr>"
proof -
  have mapped: "canonical_ip (V6 0xFFFF00000001) = V4 1" by simp
  have call: "allow (\<lambda>_. 0) (V6 0xFFFF00000001) Info 0 (limiter_default 0) = (True, snd one_request)" unfolding one_request_def[symmetric] by (simp add: one_request_alt)
  show ?thesis
    using limiter_reach.requests[OF limiter_reach.starts[of "\<lambda>_. 0" 0], of 0 "V6 0xFFFF00000001" Info True "snd one_request"] call unfolding mapped by simp
qed

theorem request_rate_bound_witness: "TOKEN * passed (V4 1) Info 0 [(V4 1, Info, 0)] \<le> 1 * TOKEN"
  using request_rate_bound[OF one_request_reach, of "V4 1" Info 0] by simp

text \<open>C12. An address of the table that has been silent is served: if no request of this kind from the address has been tried since the last request that was let through for it, and
that was at least half a second and less than the minute for which it is remembered ago, the request is let through if the budget of the server has a token to spare. The silence
makes the refill a single step, which is exact also in \<open>f64\<close> (half a second at two tokens a second is one token); refused requests in between would refill in several rounded steps and can
delay the service by a rounding error. The second token of the server's budget covers the rounding errors of that bucket.\<close>

theorem silent_address_is_served:
  assumes "limiter_reach hash w" "lw_now w \<le> now" "map_of (lm_entries (lw_limiter w)) (canonical_ip ip) = Some e"
    and "en_updated e kind \<le> en_last_allowed e" "500000000 \<le> now - en_last_allowed e" "now - en_last_allowed e < IP_TTL"
    and "2 * TOKEN \<le> global_credit (lw_limiter w) kind now"
  shows "fst (allow hash ip kind now (lw_limiter w))"
proof -
  let ?l = "lw_limiter w"
  have ok: "limiter_ok (lw_now w) ?l" using limiter_reach_inv[OF assms(1)] by (simp add: limiter_inv_def)
  have "map_of (lm_entries (cleanup now ?l)) (canonical_ip ip) = Some e"
    using assms(3,6) ok by (simp add: cleanup_def map_of_filter_entry limiter_ok_def)
  then have paying: "paying_entry hash (cleanup now ?l) (canonical_ip ip) = Some e" by (simp add: paying_entry_def)
  have "TOKEN \<le> snd (kind_budget kind) * (now - en_updated e kind) \<and> TOKEN \<le> fst (kind_budget kind)"
    using assms(4,5) by (cases kind) (simp_all add: TOKEN_def)
  then have "TOKEN \<le> entry_credit e kind now" by (cases "kind_budget kind") (simp add: entry_credit_def refilled_def mult.commute)
  then have "TOKEN \<le> credit hash (cleanup now ?l) (canonical_ip ip) kind now" using paying by (simp add: credit_def)
  moreover obtain answer l' where call: "allow hash ip kind now ?l = (answer, l')" by force
  ultimately show ?thesis using allow_step(4)[OF ok assms(2) call] assms(7) by simp
qed

theorem silent_address_is_served_witness: "fst (allow (\<lambda>_. 0) (V4 1) Info 500000000 (snd one_request))"
  using silent_address_is_served[OF one_request_reach, of 500000000 "V4 1" _ Info]
  by (simp add: one_request_alt IP_TTL_def SECOND_def TOKEN_def global_credit_def refilled_def)

end
