(* ===== verification/ImageGovernor.thy ===== *)
theory ImageGovernor
  imports Assoc "HOL-Library.Sublist"
begin

text \<open>
  The bandwidth governor of shared images (\<open>basis-server-core/src/image_governor.rs\<close>): a budget for what each sender relays, and a queue for each connection of the payloads
  that the image cache replays to it, paced by a budget for downloads, together with the loop that hands them to the transport (\<open>send_image_payloads\<close> of \<open>lib.rs\<close>). A connection is
  a value that is equal only to itself. A payload is the name of a cell that the cache empties when it drops the image; the lengths of the cells at the time of a call are an
  argument. Rates are bytes per second and tokens, which the source keeps as \<open>f64\<close>, are exact numbers of billionths of a byte; instants are nanoseconds. The hash maps
  are association lists, walked in their order.
\<close>

definition MEGABITS_TO_BYTES :: int where "MEGABITS_TO_BYTES = 125000"
definition IMAGE_BURST_SECONDS :: int where "IMAGE_BURST_SECONDS = 2"
definition BILLION :: int where "BILLION = 1000000000"

record image_config =
  image_share_egress_megabits_per_second :: int
  image_share_egress_enforcement_percent :: int
  image_share_download_megabits_per_second :: int

record Bucket =
  bu_tokens :: int
  bu_last_refill :: nat

definition bucket_new :: "int \<Rightarrow> nat \<Rightarrow> Bucket" where
  "bucket_new rate now = \<lparr>bu_tokens = rate * IMAGE_BURST_SECONDS * BILLION, bu_last_refill = now\<rparr>"

definition bucket_refill :: "int \<Rightarrow> nat \<Rightarrow> Bucket \<Rightarrow> Bucket" where
  "bucket_refill rate now b =
     b\<lparr>bu_tokens := min (bu_tokens b + rate * int (now - bu_last_refill b)) (rate * IMAGE_BURST_SECONDS * BILLION),
       bu_last_refill := max (bu_last_refill b) now\<rparr>"

record PendingPayload =
  pp_owner :: u16
  pp_payload :: nat

record QueuedPayload =
  qp_pending :: PendingPayload
  qp_bypass_pacing :: bool

record 't ReplayJob =
  rj_target :: 't
  rj_payloads :: "QueuedPayload list"
  rj_bucket :: Bucket
  rj_in_flight :: bool

record 't ImageBandwidthGovernor =
  ig_egress :: "(u16 \<times> Bucket) list"
  ig_replays :: "(u16 \<times> 't ReplayJob list) list"
  ig_dropped_messages :: u64
  ig_dropped_bytes :: u64

definition governor_default :: "'t ImageBandwidthGovernor" where
  "governor_default = \<lparr>ig_egress = [], ig_replays = [], ig_dropped_messages = 0, ig_dropped_bytes = 0\<rparr>"

section \<open>What senders relay\<close>

text \<open>The rate is a multiple of a hundredth of a byte per second: \<open>rate100\<close> and the tokens of this bucket are in hundredths.\<close>

definition egress_rate100 :: "image_config \<Rightarrow> int" where
  "egress_rate100 config = image_share_egress_megabits_per_second config * MEGABITS_TO_BYTES * max (image_share_egress_enforcement_percent config) 100"

definition try_consume_egress :: "u16 \<Rightarrow> u64 \<Rightarrow> image_config \<Rightarrow> nat \<Rightarrow> 't ImageBandwidthGovernor \<Rightarrow> bool \<times> 't ImageBandwidthGovernor" where
  "try_consume_egress sender bytes config now g =
     (if image_share_egress_megabits_per_second config \<le> 0 \<or> bytes = 0 then (True, g)
      else
        let rate = egress_rate100 config;
            bucket = bucket_refill rate now (case map_of (ig_egress g) sender of Some bucket \<Rightarrow> bucket | None \<Rightarrow> bucket_new rate now)
        in if bu_tokens bucket \<le> 0
           then (False, g\<lparr>ig_egress := put_key sender bucket (ig_egress g), ig_dropped_messages := ig_dropped_messages g + 1,
                          ig_dropped_bytes := ig_dropped_bytes g + bytes\<rparr>)
           else (True, g\<lparr>ig_egress := put_key sender (bucket\<lparr>bu_tokens := bu_tokens bucket - uint bytes * 100 * BILLION\<rparr>) (ig_egress g)\<rparr>))"

section \<open>Replays\<close>

definition download_rate :: "image_config \<Rightarrow> int" where
  "download_rate config = image_share_download_megabits_per_second config * MEGABITS_TO_BYTES"

definition payload_size :: "(nat \<Rightarrow> nat) \<Rightarrow> QueuedPayload \<Rightarrow> nat" where
  "payload_size sizes queued = sizes (pp_payload (qp_pending queued))"

text \<open>The loop that both \<open>enqueue_mode\<close> and \<open>pump\<close> have: payloads from the front of the queue, until one has to wait for credit.\<close>

fun take_batch :: "(nat \<Rightarrow> nat) \<Rightarrow> int \<Rightarrow> Bucket \<Rightarrow> QueuedPayload list \<Rightarrow> PendingPayload list \<times> Bucket \<times> QueuedPayload list" where
  "take_batch sizes rate bucket [] = ([], bucket, [])"
| "take_batch sizes rate bucket (front # rest) =
     (if rate > 0 \<and> \<not> qp_bypass_pacing front \<and> bu_tokens bucket \<le> 0 then ([], bucket, front # rest)
      else
        let size = payload_size sizes front
        in if size = 0 then take_batch sizes rate bucket rest
           else
             let bucket = (if rate > 0 \<and> \<not> qp_bypass_pacing front then bucket\<lparr>bu_tokens := bu_tokens bucket - int size * BILLION\<rparr> else bucket);
                 (batch, bucket, rest) = take_batch sizes rate bucket rest
             in (qp_pending front # batch, bucket, rest))"

definition start_batch :: "(nat \<Rightarrow> nat) \<Rightarrow> int \<Rightarrow> nat \<Rightarrow> 't ReplayJob \<Rightarrow> PendingPayload list \<times> 't ReplayJob" where
  "start_batch sizes rate now job =
     (let bucket = (if rate > 0 then bucket_refill rate now (rj_bucket job) else rj_bucket job);
          (batch, bucket, rest) = take_batch sizes rate bucket (rj_payloads job);
          job = job\<lparr>rj_bucket := bucket, rj_payloads := rest\<rparr>
      in (batch, if batch \<noteq> [] then job\<lparr>rj_in_flight := True\<rparr> else job))"

definition without_empty :: "(nat \<Rightarrow> nat) \<Rightarrow> 't ReplayJob \<Rightarrow> 't ReplayJob" where
  "without_empty sizes job = job\<lparr>rj_payloads := filter (\<lambda>queued. payload_size sizes queued > 0) (rj_payloads job)\<rparr>"

definition enqueue_job :: "(nat \<Rightarrow> nat) \<Rightarrow> PendingPayload list \<Rightarrow> bool \<Rightarrow> int \<Rightarrow> nat \<Rightarrow> 't ReplayJob \<Rightarrow> PendingPayload list \<times> 't ReplayJob" where
  "enqueue_job sizes payloads paced rate now job =
     (let job = without_empty sizes job;
          job = job\<lparr>rj_payloads := rj_payloads job @ map (\<lambda>pending. \<lparr>qp_pending = pending, qp_bypass_pacing = (\<not> paced \<or> rate \<le> 0)\<rparr>) payloads\<rparr>
      in if \<not> rj_in_flight job \<and> (\<not> paced \<or> rate \<le> 0) then start_batch sizes rate now job else ([], job))"

text \<open>The job of a connection, changed in place or appended.\<close>

fun update_job :: "'t \<Rightarrow> 't ReplayJob \<Rightarrow> ('t ReplayJob \<Rightarrow> 'r \<times> 't ReplayJob) \<Rightarrow> 't ReplayJob list \<Rightarrow> 'r \<times> 't ReplayJob list" where
  "update_job target fresh f [] = (case f fresh of (r, job) \<Rightarrow> (r, [job]))"
| "update_job target fresh f (job # jobs) =
     (if rj_target job = target then (case f job of (r, job) \<Rightarrow> (r, job # jobs))
      else (case update_job target fresh f jobs of (r, jobs) \<Rightarrow> (r, job # jobs)))"

definition enqueue_mode ::
  "(nat \<Rightarrow> nat) \<Rightarrow> u16 \<Rightarrow> 't \<Rightarrow> PendingPayload list \<Rightarrow> bool \<Rightarrow> image_config \<Rightarrow> nat \<Rightarrow> 't ImageBandwidthGovernor \<Rightarrow> PendingPayload list \<times> 't ImageBandwidthGovernor" where
  "enqueue_mode sizes peer target payloads paced config now g =
     (if payloads = [] then (payloads, g)
      else
        let rate = download_rate config;
            jobs = (case map_of (ig_replays g) peer of Some jobs \<Rightarrow> jobs | None \<Rightarrow> []);
            fresh = \<lparr>rj_target = target, rj_payloads = [], rj_bucket = bucket_new (max rate 0) now, rj_in_flight = False\<rparr>;
            (batch, jobs) = update_job target fresh (enqueue_job sizes payloads paced rate now) jobs
        in (batch, g\<lparr>ig_replays := put_key peer jobs (ig_replays g)\<rparr>))"

definition enqueue_replay where "enqueue_replay sizes peer target payloads = enqueue_mode sizes peer target payloads True"
definition enqueue_inline where "enqueue_inline sizes peer target payloads = enqueue_mode sizes peer target payloads False"

definition finish_job :: "PendingPayload list \<Rightarrow> 't ReplayJob \<Rightarrow> 't ReplayJob" where
  "finish_job rejected job =
     (if \<not> rj_in_flight job then job
      else job\<lparr>rj_in_flight := False, rj_payloads := map (\<lambda>pending. \<lparr>qp_pending = pending, qp_bypass_pacing = True\<rparr>) rejected @ rj_payloads job\<rparr>)"

fun finish_first :: "'t \<Rightarrow> PendingPayload list \<Rightarrow> 't ReplayJob list \<Rightarrow> 't ReplayJob list" where
  "finish_first target rejected [] = []"
| "finish_first target rejected (job # jobs) =
     (if rj_target job = target then finish_job rejected job # jobs else job # finish_first target rejected jobs)"

definition finish_replay_batch :: "u16 \<Rightarrow> 't \<Rightarrow> PendingPayload list \<Rightarrow> 't ImageBandwidthGovernor \<Rightarrow> 't ImageBandwidthGovernor" where
  "finish_replay_batch peer target rejected g =
     (case map_of (ig_replays g) peer of
        None \<Rightarrow> g
      | Some jobs \<Rightarrow> g\<lparr>ig_replays := put_key peer (finish_first target rejected jobs) (ig_replays g)\<rparr>)"

text \<open>With pacing switched off the payloads that waited for credit are given up.\<close>

definition give_up_paced :: "'t ReplayJob list \<Rightarrow> 't ReplayJob list" where
  "give_up_paced jobs =
     filter (\<lambda>job. rj_in_flight job \<or> rj_payloads job \<noteq> [])
       (map (\<lambda>job. if \<not> rj_in_flight job then job\<lparr>rj_payloads := filter qp_bypass_pacing (rj_payloads job)\<rparr> else job) jobs)"

definition pump_job :: "(nat \<Rightarrow> nat) \<Rightarrow> int \<Rightarrow> nat \<Rightarrow> 't ReplayJob \<Rightarrow> PendingPayload list \<times> 't ReplayJob" where
  "pump_job sizes rate now job =
     (let job = without_empty sizes job
      in if rj_in_flight job \<or> rj_payloads job = [] then ([], job) else start_batch sizes rate now job)"

fun pump_jobs :: "(nat \<Rightarrow> nat) \<Rightarrow> int \<Rightarrow> nat \<Rightarrow> 't ReplayJob list \<Rightarrow> ('t \<times> PendingPayload list) list \<times> 't ReplayJob list" where
  "pump_jobs sizes rate now [] = ([], [])"
| "pump_jobs sizes rate now (job # jobs) =
     (case pump_job sizes rate now job of (batch, job) \<Rightarrow>
      case pump_jobs sizes rate now jobs of (batches, jobs) \<Rightarrow>
        ((if batch \<noteq> [] then [(rj_target job, batch)] else []) @ batches, job # jobs))"

fun pump_replays :: "(nat \<Rightarrow> nat) \<Rightarrow> int \<Rightarrow> nat \<Rightarrow> (u16 \<times> 't ReplayJob list) list \<Rightarrow> ('t \<times> PendingPayload list) list \<times> (u16 \<times> 't ReplayJob list) list" where
  "pump_replays sizes rate now [] = ([], [])"
| "pump_replays sizes rate now ((peer, jobs) # replays) =
     (case pump_jobs sizes rate now jobs of (batches, jobs) \<Rightarrow>
      case pump_replays sizes rate now replays of (more_batches, replays) \<Rightarrow> (batches @ more_batches, (peer, jobs) # replays))"

definition pump :: "(nat \<Rightarrow> nat) \<Rightarrow> image_config \<Rightarrow> nat \<Rightarrow> 't ImageBandwidthGovernor \<Rightarrow> ('t \<times> PendingPayload list) list \<times> 't ImageBandwidthGovernor" where
  "pump sizes config now g =
     (let rate = download_rate config;
          replays = (if rate \<le> 0 then filter (\<lambda>(_, jobs). jobs \<noteq> []) (map (\<lambda>(peer, jobs). (peer, give_up_paced jobs)) (ig_replays g)) else ig_replays g);
          (batches, replays) = pump_replays sizes rate now replays
      in (batches, g\<lparr>ig_replays := replays\<rparr>))"

definition governor_remove_peer :: "u16 \<Rightarrow> 't \<Rightarrow> 't ImageBandwidthGovernor \<Rightarrow> 't ImageBandwidthGovernor" where
  "governor_remove_peer peer target g =
     (let g = g\<lparr>ig_egress := remove_key peer (ig_egress g)\<rparr>
      in case map_of (ig_replays g) peer of
           None \<Rightarrow> g
         | Some jobs \<Rightarrow>
             let jobs = filter (\<lambda>job. rj_target job \<noteq> target) jobs
             in g\<lparr>ig_replays := (if jobs = [] then remove_key peer (ig_replays g) else put_key peer jobs (ig_replays g))\<rparr>)"

definition governor_reset :: "'t ImageBandwidthGovernor \<Rightarrow> 't ImageBandwidthGovernor" where
  "governor_reset g = governor_default"

section \<open>Handing payloads to the transport\<close>

text \<open>One payload: \<open>None\<close> if it was sent or is not to be sent any more, the payload itself if it is to be tried again. What the server state and the transport answer are arguments.\<close>

definition send_image_payload :: "bool \<Rightarrow> (u16 \<Rightarrow> bool) \<Rightarrow> (nat \<Rightarrow> bytes option) \<Rightarrow> (PendingPayload \<Rightarrow> bool) \<Rightarrow> (PendingPayload \<Rightarrow> bool) \<Rightarrow> bool \<Rightarrow> PendingPayload \<Rightarrow> PendingPayload option" where
  "send_image_payload manager_known authenticated cells serializes queued current pending =
     (if \<not> manager_known then None
      else if \<not> authenticated (pp_owner pending) then None
      else case cells (pp_payload pending) of
          None \<Rightarrow> None
        | Some payload \<Rightarrow>
            if \<not> serializes pending then None
            else if queued pending then None
            else if current then Some pending
            else None)"

fun send_payloads :: "(PendingPayload \<Rightarrow> PendingPayload option) \<Rightarrow> PendingPayload list \<Rightarrow> PendingPayload list" where
  "send_payloads send [] = []"
| "send_payloads send (payload # pending) = (case send payload of Some retry \<Rightarrow> retry # pending | None \<Rightarrow> send_payloads send pending)"

definition send_image_payloads ::
  "(PendingPayload \<Rightarrow> PendingPayload option) \<Rightarrow> u16 \<Rightarrow> 't \<Rightarrow> PendingPayload list \<Rightarrow> 't ImageBandwidthGovernor \<Rightarrow> 't ImageBandwidthGovernor" where
  "send_image_payloads send peer session payloads g = finish_replay_batch peer session (send_payloads send payloads) g"

end
