(* ===== verification/ImageGovernorProperties.thy ===== *)
theory ImageGovernorProperties
  imports ImageGovernor
begin

text \<open>
  What the image cache replays to a connection reaches the transport in the order in which it was queued, each payload at most once, whatever is refused, retried, paced or queued
  in between; and nothing is lost while no image is dropped and pacing stays on.
\<close>

section \<open>Kept in order\<close>

text \<open>Everything kept, or a part of it, in order.\<close>

definition kept :: "bool \<Rightarrow> 'a list \<Rightarrow> 'a list \<Rightarrow> bool" where
  "kept all xs ys = (if all then xs = ys else subseq xs ys)"

lemma kept_refl [simp]: "kept all xs xs"
  by (simp add: kept_def)

lemma kept_trans: "kept all xs ys \<Longrightarrow> kept all ys zs \<Longrightarrow> kept all xs zs"
  by (auto simp: kept_def intro: subseq_order.trans split: if_splits)

lemma kept_append: "kept all xs ys \<Longrightarrow> kept all xs' ys' \<Longrightarrow> kept all (xs @ xs') (ys @ ys')"
  by (auto simp: kept_def list_emb_append_mono split: if_splits)

lemma kept_filter: "(all \<longrightarrow> list_all P xs) \<Longrightarrow> kept all (map f (filter P xs)) (map f xs)"
  by (auto simp: kept_def subseq_map list_all_iff filter_id_conv intro: arg_cong[where f = "map f"])

section \<open>Jobs\<close>

definition pending_of :: "'t ReplayJob \<Rightarrow> PendingPayload list" where
  "pending_of job = map qp_pending (rj_payloads job)"

lemma take_batch_kept:
  assumes "take_batch sizes rate bucket queue = (batch, bucket', rest)" "all \<longrightarrow> (\<forall>n. sizes n \<noteq> 0)"
  shows "kept all (batch @ map qp_pending rest) (map qp_pending queue)"
  using assms(1)
proof (induction queue arbitrary: bucket batch bucket' rest)
  case (Cons front queue)
  show ?case
  proof (cases "(rate > 0 \<and> \<not> qp_bypass_pacing front \<and> bu_tokens bucket \<le> 0) \<or> payload_size sizes front = 0")
    case True
    have "kept all (map qp_pending queue) (map qp_pending (front # queue))" if "payload_size sizes front = 0"
    proof -
      have "\<not> all" using that assms(2) by (metis payload_size_def)
      then show ?thesis by (simp add: kept_def list_emb_Cons)
    qed
    then show ?thesis using True Cons.prems Cons.IH[of bucket batch bucket' rest] by (auto simp: Let_def split: if_splits intro: kept_trans)
  next
    case False
    define b where "b = (if rate > 0 \<and> \<not> qp_bypass_pacing front then bucket\<lparr>bu_tokens := bu_tokens bucket - int (payload_size sizes front) * BILLION\<rparr> else bucket)"
    obtain batch1 b1 rest1 where more_taken: "take_batch sizes rate b queue = (batch1, b1, rest1)" by (metis prod_cases3)
    have "batch = qp_pending front # batch1" "rest = rest1" using Cons.prems False unfolding take_batch.simps Let_def b_def[symmetric] more_taken by auto
    then show ?thesis using kept_append[OF kept_refl[of all "[qp_pending front]"] Cons.IH[OF more_taken]] by simp
  qed
qed simp

lemma start_batch_kept:
  assumes "start_batch sizes rate now job = (batch, job')" "all \<longrightarrow> (\<forall>n. sizes n \<noteq> 0)"
  shows "rj_target job' = rj_target job" "rj_in_flight job' \<longleftrightarrow> rj_in_flight job \<or> batch \<noteq> []" "kept all (batch @ pending_of job') (pending_of job)"
proof -
  obtain taken b rest where take: "take_batch sizes rate (if rate > 0 then bucket_refill rate now (rj_bucket job) else rj_bucket job) (rj_payloads job) = (taken, b, rest)"
    by (metis prod_cases3)
  have result: "batch = taken" "job' = (if taken \<noteq> [] then job\<lparr>rj_bucket := b, rj_payloads := rest, rj_in_flight := True\<rparr> else job\<lparr>rj_bucket := b, rj_payloads := rest\<rparr>)"
    using assms(1) unfolding start_batch_def Let_def take by auto
  show "rj_target job' = rj_target job" "rj_in_flight job' \<longleftrightarrow> rj_in_flight job \<or> batch \<noteq> []" "kept all (batch @ pending_of job') (pending_of job)"
    using take_batch_kept[OF take assms(2)] by (cases "taken = []", simp_all add: result pending_of_def)+
qed

lemma without_empty_kept:
  assumes "all \<longrightarrow> (\<forall>n. sizes n \<noteq> 0)"
  shows "kept all (pending_of (without_empty sizes job)) (pending_of job)"
  using assms by (simp add: without_empty_def pending_of_def kept_filter payload_size_def list_all_iff)

lemma without_empty_fields [simp]: "rj_target (without_empty sizes job) = rj_target job" "rj_in_flight (without_empty sizes job) = rj_in_flight job"
  by (simp_all add: without_empty_def)

lemma enqueue_job_kept:
  assumes "enqueue_job sizes payloads paced rate now job = (batch, job')" "all \<longrightarrow> (\<forall>n. sizes n \<noteq> 0)"
  shows "rj_target job' = rj_target job" "rj_in_flight job' \<longleftrightarrow> rj_in_flight job \<or> batch \<noteq> []" "batch \<noteq> [] \<Longrightarrow> \<not> rj_in_flight job"
    "kept all (batch @ pending_of job') (pending_of job @ payloads)"
proof -
  define j where "j = without_empty sizes job"
  define job1 where "job1 = j\<lparr>rj_payloads := rj_payloads j @ map (\<lambda>pending. \<lparr>qp_pending = pending, qp_bypass_pacing = (\<not> paced \<or> rate \<le> 0)\<rparr>) payloads\<rparr>"
  have call: "(batch, job') = (if \<not> rj_in_flight job1 \<and> (\<not> paced \<or> rate \<le> 0) then start_batch sizes rate now job1 else ([], job1))"
    using assms(1) unfolding enqueue_job_def Let_def j_def[symmetric] job1_def[symmetric] by simp
  have job1: "rj_target job1 = rj_target job" "rj_in_flight job1 = rj_in_flight job" "pending_of job1 = pending_of j @ payloads"
    by (simp_all add: job1_def j_def pending_of_def comp_def)
  have start: "kept all (pending_of job1) (pending_of job @ payloads)"
    unfolding job1(3) j_def using without_empty_kept[OF assms(2)] by (rule kept_append) simp
  show "rj_target job' = rj_target job" "rj_in_flight job' \<longleftrightarrow> rj_in_flight job \<or> batch \<noteq> []" "batch \<noteq> [] \<Longrightarrow> \<not> rj_in_flight job"
    "kept all (batch @ pending_of job') (pending_of job @ payloads)"
    using call start_batch_kept[OF _ assms(2), of rate now job1 batch job'] job1 start
    by (auto split: if_splits intro: kept_trans)
qed

lemma pump_job_kept:
  assumes "pump_job sizes rate now job = (batch, job')" "all \<longrightarrow> (\<forall>n. sizes n \<noteq> 0)"
  shows "rj_target job' = rj_target job" "rj_in_flight job' \<longleftrightarrow> rj_in_flight job \<or> batch \<noteq> []" "batch \<noteq> [] \<Longrightarrow> \<not> rj_in_flight job"
    "kept all (batch @ pending_of job') (pending_of job)"
  using assms(1) without_empty_kept[OF assms(2), of job] start_batch_kept[OF _ assms(2), of rate now "without_empty sizes job" batch job']
  by (auto simp: pump_job_def Let_def split: if_splits intro: kept_trans)

section \<open>Jobs of a peer\<close>

definition job_in :: "'t \<Rightarrow> 't ReplayJob list \<Rightarrow> 't ReplayJob option" where
  "job_in t jobs = find (\<lambda>job. rj_target job = t) jobs"

lemma job_in_simps [simp]:
  "job_in t [] = None"
  "job_in t (job # jobs) = (if rj_target job = t then Some job else job_in t jobs)"
  by (simp_all add: job_in_def)

lemma job_in_None: "job_in t jobs = None \<longleftrightarrow> t \<notin> rj_target ` set jobs"
  by (induction jobs) auto

lemma job_in_target: "job_in t jobs = Some job \<Longrightarrow> rj_target job = t \<and> job \<in> set jobs"
  by (induction jobs) (auto split: if_splits)

lemma update_job_in:
  assumes "update_job t fresh f jobs = (r, jobs')" "rj_target fresh = t" "\<forall>job. rj_target (snd (f job)) = rj_target job"
    and "distinct (map rj_target jobs)"
  shows "f (case job_in t jobs of Some job \<Rightarrow> job | None \<Rightarrow> fresh) = (r, the (job_in t jobs'))" "job_in t jobs' \<noteq> None" "distinct (map rj_target jobs')"
    "set (map rj_target jobs') = insert t (set (map rj_target jobs))" "t' \<noteq> t \<Longrightarrow> job_in t' jobs' = job_in t' jobs"
proof -
  have kept_target: "rj_target job' = rj_target job" if "f job = (r, job')" for job r job' using assms(3) that by (metis snd_conv)
  have "f (case job_in t jobs of Some job \<Rightarrow> job | None \<Rightarrow> fresh) = (r, the (job_in t jobs')) \<and> job_in t jobs' \<noteq> None \<and> distinct (map rj_target jobs') \<and>
    set (map rj_target jobs') = insert t (set (map rj_target jobs)) \<and> (t' \<noteq> t \<longrightarrow> job_in t' jobs' = job_in t' jobs)"
    using assms(1,4)
  proof (induction jobs arbitrary: jobs')
    case Nil
    then show ?case using assms(2) kept_target by (auto split: prod.splits)
  next
    case (Cons job jobs)
    then show ?case using kept_target by (cases "rj_target job = t") (auto split: prod.splits, blast+)
  qed
  then show "f (case job_in t jobs of Some job \<Rightarrow> job | None \<Rightarrow> fresh) = (r, the (job_in t jobs'))" "job_in t jobs' \<noteq> None" "distinct (map rj_target jobs')"
    "set (map rj_target jobs') = insert t (set (map rj_target jobs))" "t' \<noteq> t \<Longrightarrow> job_in t' jobs' = job_in t' jobs" by auto
qed

lemma pump_job_target: "rj_target (snd (pump_job sizes rate now job)) = rj_target job"
  using pump_job_kept(1)[of sizes rate now job _ _ False] by (metis prod.collapse)

lemma pump_jobs_in:
  assumes "pump_jobs sizes rate now jobs = (batches, jobs')" "distinct (map rj_target jobs)"
  shows "map rj_target jobs' = map rj_target jobs" "job_in t jobs' = map_option (\<lambda>job. snd (pump_job sizes rate now job)) (job_in t jobs)"
    "fst ` set batches \<subseteq> rj_target ` set jobs"
    "map_of batches t = (case job_in t jobs of None \<Rightarrow> None | Some job \<Rightarrow> if fst (pump_job sizes rate now job) = [] then None else Some (fst (pump_job sizes rate now job)))"
proof -
  have "map rj_target jobs' = map rj_target jobs \<and> job_in t jobs' = map_option (\<lambda>job. snd (pump_job sizes rate now job)) (job_in t jobs) \<and>
    fst ` set batches \<subseteq> rj_target ` set jobs \<and>
    map_of batches t = (case job_in t jobs of None \<Rightarrow> None | Some job \<Rightarrow> if fst (pump_job sizes rate now job) = [] then None else Some (fst (pump_job sizes rate now job)))"
    using assms
  proof (induction jobs arbitrary: batches jobs')
    case (Cons job jobs)
    obtain batch job1 where one: "pump_job sizes rate now job = (batch, job1)" by force
    obtain bs js where others: "pump_jobs sizes rate now jobs = (bs, js)" by force
    have result: "batches = (if batch \<noteq> [] then [(rj_target job1, batch)] else []) @ bs" "jobs' = job1 # js" using Cons.prems(1) by (auto simp: one others)
    have target: "rj_target job1 = rj_target job" using pump_job_target[of sizes rate now job] by (simp add: one)
    have ih: "map rj_target js = map rj_target jobs" "job_in t js = map_option (\<lambda>job. snd (pump_job sizes rate now job)) (job_in t jobs)" "fst ` set bs \<subseteq> rj_target ` set jobs"
      "map_of bs t = (case job_in t jobs of None \<Rightarrow> None | Some job \<Rightarrow> if fst (pump_job sizes rate now job) = [] then None else Some (fst (pump_job sizes rate now job)))"
      using Cons.IH[OF others] Cons.prems(2) by auto
    have "map_of bs (rj_target job) = None" using ih(3) Cons.prems(2) by (auto simp: map_of_eq_None_iff)
    then show ?case using ih target by (auto simp: result one)
  qed simp
  then show "map rj_target jobs' = map rj_target jobs" "job_in t jobs' = map_option (\<lambda>job. snd (pump_job sizes rate now job)) (job_in t jobs)"
    "fst ` set batches \<subseteq> rj_target ` set jobs"
    "map_of batches t = (case job_in t jobs of None \<Rightarrow> None | Some job \<Rightarrow> if fst (pump_job sizes rate now job) = [] then None else Some (fst (pump_job sizes rate now job)))"
    by blast+
qed

lemma finish_first_in:
  "job_in t' (finish_first t rejected jobs) = (if t' = t then map_option (finish_job rejected) (job_in t jobs) else job_in t' jobs)"
  "map rj_target (finish_first t rejected jobs) = map rj_target jobs"
  by (induction jobs) (auto simp: finish_job_def)

lemma give_up_Cons:
  "give_up_paced (job # jobs) =
     (if rj_in_flight job then [job] else if filter qp_bypass_pacing (rj_payloads job) = [] then []
      else [job\<lparr>rj_payloads := filter qp_bypass_pacing (rj_payloads job)\<rparr>]) @ give_up_paced jobs"
  by (simp add: give_up_paced_def)

lemma give_up_targets: "set (map rj_target (give_up_paced jobs)) \<subseteq> set (map rj_target jobs)"
proof (induction jobs)
  case (Cons job jobs)
  then show ?case by (auto simp: give_up_Cons)
qed (simp add: give_up_paced_def)

lemma give_up_in:
  assumes "distinct (map rj_target jobs)"
  shows "distinct (map rj_target (give_up_paced jobs)) \<and> job_in t (give_up_paced jobs) = (case job_in t jobs of None \<Rightarrow> None
     | Some job \<Rightarrow> if rj_in_flight job then Some job
         else if filter qp_bypass_pacing (rj_payloads job) = [] then None else Some (job\<lparr>rj_payloads := filter qp_bypass_pacing (rj_payloads job)\<rparr>))"
  using assms
proof (induction jobs)
  case (Cons job jobs)
  have "rj_target job \<notin> rj_target ` set (give_up_paced jobs)" using Cons.prems give_up_targets[of jobs] by auto
  moreover from this have "job_in (rj_target job) (give_up_paced jobs) = None" by (simp add: job_in_None)
  ultimately show ?case using Cons by (auto simp: give_up_Cons)
qed (simp add: give_up_paced_def)

section \<open>Jobs of the governor\<close>

definition jobs_at :: "(u16 \<times> 't ReplayJob list) list \<Rightarrow> u16 \<Rightarrow> 't ReplayJob list" where
  "jobs_at replays peer = (case map_of replays peer of None \<Rightarrow> [] | Some jobs \<Rightarrow> jobs)"

definition job_of :: "('t \<Rightarrow> u16) \<Rightarrow> (u16 \<times> 't ReplayJob list) list \<Rightarrow> 't \<Rightarrow> 't ReplayJob option" where
  "job_of peer_of replays t = job_in t (jobs_at replays (peer_of t))"

definition queued :: "('t \<Rightarrow> u16) \<Rightarrow> (u16 \<times> 't ReplayJob list) list \<Rightarrow> 't \<Rightarrow> PendingPayload list" where
  "queued peer_of replays t = (case job_of peer_of replays t of None \<Rightarrow> [] | Some job \<Rightarrow> pending_of job)"

definition in_flight :: "('t \<Rightarrow> u16) \<Rightarrow> (u16 \<times> 't ReplayJob list) list \<Rightarrow> 't \<Rightarrow> bool" where
  "in_flight peer_of replays t = (case job_of peer_of replays t of None \<Rightarrow> False | Some job \<Rightarrow> rj_in_flight job)"

definition replays_ok :: "('t \<Rightarrow> u16) \<Rightarrow> (u16 \<times> 't ReplayJob list) list \<Rightarrow> bool" where
  "replays_ok peer_of replays \<longleftrightarrow> distinct (map fst replays) \<and>
     (\<forall>peer. distinct (map rj_target (jobs_at replays peer)) \<and> (\<forall>t\<in>set (map rj_target (jobs_at replays peer)). peer_of t = peer))"

lemma jobs_at_put [simp]: "jobs_at (put_key p jobs replays) q = (if q = p then jobs else jobs_at replays q)"
  by (simp add: jobs_at_def)

lemma replays_ok_put:
  assumes "replays_ok peer_of replays" "distinct (map rj_target jobs)" "\<forall>t\<in>set (map rj_target jobs). peer_of t = peer"
  shows "replays_ok peer_of (put_key peer jobs replays)"
  using assms by (simp add: replays_ok_def)

text \<open>What an operation does to the queues of all connections, seen from one of them.\<close>

lemma enqueue_mode_view:
  assumes ok: "replays_ok peer_of (ig_replays g)" and call: "enqueue_mode sizes (peer_of t) t payloads paced config now g = (batch, g')" "payloads \<noteq> []"
    and sizes: "all \<longrightarrow> (\<forall>n. sizes n \<noteq> 0)"
  shows "replays_ok peer_of (ig_replays g')" "t' \<noteq> t \<Longrightarrow> job_of peer_of (ig_replays g') t' = job_of peer_of (ig_replays g) t'"
    "kept all (batch @ queued peer_of (ig_replays g') t) (queued peer_of (ig_replays g) t @ payloads)" "batch \<noteq> [] \<Longrightarrow> \<not> in_flight peer_of (ig_replays g) t"
    "in_flight peer_of (ig_replays g') t \<longleftrightarrow> in_flight peer_of (ig_replays g) t \<or> batch \<noteq> []"
proof -
  let ?rate = "download_rate config" and ?jobs = "jobs_at (ig_replays g) (peer_of t)"
  define fresh where "fresh = \<lparr>rj_target = t, rj_payloads = [], rj_bucket = bucket_new (max ?rate 0) now, rj_in_flight = False\<rparr>"
  obtain jobs where upd: "update_job t fresh (enqueue_job sizes payloads paced ?rate now) ?jobs = (batch, jobs)" and g': "g' = g\<lparr>ig_replays := put_key (peer_of t) jobs (ig_replays g)\<rparr>"
    using call unfolding enqueue_mode_def Let_def jobs_at_def[symmetric] fresh_def[symmetric] by (auto simp: jobs_at_def split: prod.splits)
  have targets: "\<forall>job. rj_target (snd (enqueue_job sizes payloads paced ?rate now job)) = rj_target job"
    using enqueue_job_kept(1)[OF _ sizes] by (metis prod.collapse)
  have dist: "distinct (map rj_target ?jobs)" using ok by (simp add: replays_ok_def)
  have "rj_target fresh = t" by (simp add: fresh_def)
  note view = update_job_in[OF upd this targets dist]
  define old where "old = (case job_in t ?jobs of Some job \<Rightarrow> job | None \<Rightarrow> fresh)"
  obtain new where new: "job_in t jobs = Some new" using view(2) by auto
  have enq: "enqueue_job sizes payloads paced ?rate now old = (batch, new)" using view(1) by (simp add: old_def new)
  note step = enqueue_job_kept[OF enq sizes]
  have job: "job_of peer_of (ig_replays g') t = Some new" by (simp add: job_of_def g' new)
  have old: "pending_of old = queued peer_of (ig_replays g) t" "rj_in_flight old = in_flight peer_of (ig_replays g) t"
    by (simp_all add: old_def queued_def in_flight_def job_of_def fresh_def pending_of_def split: option.splits)
  have "\<forall>u\<in>set (map rj_target jobs). peer_of u = peer_of t" using ok unfolding view(4) replays_ok_def by blast
  then show "replays_ok peer_of (ig_replays g')" using replays_ok_put[OF ok view(3)] by (simp add: g')
  show "job_of peer_of (ig_replays g') t' = job_of peer_of (ig_replays g) t'" if "t' \<noteq> t" using view(5)[OF that] by (simp add: job_of_def g')
  show "kept all (batch @ queued peer_of (ig_replays g') t) (queued peer_of (ig_replays g) t @ payloads)" using step(4) by (simp add: queued_def job old)
  show "\<not> in_flight peer_of (ig_replays g) t" if "batch \<noteq> []" using step(3)[OF that] by (simp add: old)
  show "in_flight peer_of (ig_replays g') t \<longleftrightarrow> in_flight peer_of (ig_replays g) t \<or> batch \<noteq> []" using step(2) by (simp add: in_flight_def job old)
qed

lemma finish_view:
  assumes "replays_ok peer_of (ig_replays g)" "g' = finish_replay_batch (peer_of t) t rejected g"
  shows "replays_ok peer_of (ig_replays g')" "job_of peer_of (ig_replays g') t' = (if t' = t then map_option (finish_job rejected) (job_of peer_of (ig_replays g) t) else job_of peer_of (ig_replays g) t')"
proof -
  let ?jobs = "jobs_at (ig_replays g) (peer_of t)"
  have at: "jobs_at (ig_replays g') q = (if q = peer_of t then finish_first t rejected ?jobs else jobs_at (ig_replays g) q)" for q
    by (simp add: assms(2) finish_replay_batch_def jobs_at_def split: option.splits)
  have "distinct (map fst (ig_replays g'))" using assms by (auto simp: finish_replay_batch_def replays_ok_def split: option.splits)
  then show "replays_ok peer_of (ig_replays g')" using assms(1) unfolding replays_ok_def at by (auto simp: finish_first_in simp del: set_map)
  show "job_of peer_of (ig_replays g') t' = (if t' = t then map_option (finish_job rejected) (job_of peer_of (ig_replays g) t) else job_of peer_of (ig_replays g) t')"
    by (simp add: job_of_def at finish_first_in)
qed

lemma remove_view:
  assumes "replays_ok peer_of (ig_replays g)" "g' = governor_remove_peer (peer_of t) t g"
  shows "replays_ok peer_of (ig_replays g')" "job_of peer_of (ig_replays g') t' = (if t' = t then None else job_of peer_of (ig_replays g) t')"
proof -
  let ?jobs = "jobs_at (ig_replays g) (peer_of t)"
  have at: "jobs_at (ig_replays g') q = (if q = peer_of t then filter (\<lambda>job. rj_target job \<noteq> t) ?jobs else jobs_at (ig_replays g) q)" for q
    by (simp add: assms(2) governor_remove_peer_def jobs_at_def Let_def split: option.splits)
  have "distinct (map fst (ig_replays g'))" using assms by (auto simp: governor_remove_peer_def replays_ok_def Let_def split: option.splits)
  then show "replays_ok peer_of (ig_replays g')" using assms(1) unfolding replays_ok_def at by (auto simp: distinct_map_filter)
  have "job_in u (filter (\<lambda>job. rj_target job \<noteq> t) jobs) = (if u = t then None else job_in u jobs)" for u jobs by (induction jobs) auto
  then show "job_of peer_of (ig_replays g') t' = (if t' = t then None else job_of peer_of (ig_replays g) t')" by (simp add: job_of_def at)
qed


lemma pump_replays_in:
  assumes "pump_replays sizes rate now replays = (batches, replays')" "distinct (map fst replays)"
    and "\<And>peer. distinct (map rj_target (jobs_at replays peer)) \<and> (\<forall>t\<in>set (map rj_target (jobs_at replays peer)). peer_of t = peer)"
  shows "map fst replays' = map fst replays \<and> jobs_at replays' q = snd (pump_jobs sizes rate now (jobs_at replays q)) \<and>
    peer_of ` fst ` set batches \<subseteq> fst ` set replays \<and> map_of batches t = map_of (fst (pump_jobs sizes rate now (jobs_at replays (peer_of t)))) t"
  using assms
proof (induction replays arbitrary: batches replays')
  case Nil
  then show ?case by (simp add: jobs_at_def)
next
  case (Cons entry replays)
  obtain peer jobs where entry: "entry = (peer, jobs)" by force
  obtain bs js where one: "pump_jobs sizes rate now jobs = (bs, js)" by force
  obtain bs' rs where others: "pump_replays sizes rate now replays = (bs', rs)" by force
  have result: "batches = bs @ bs'" "replays' = (peer, js) # rs" using Cons.prems(1) by (auto simp: entry one others)
  have fresh: "peer \<notin> fst ` set replays" using Cons.prems(2) by (simp add: entry)
  have at: "jobs_at (entry # replays) q = (if q = peer then jobs else jobs_at replays q)" for q by (simp add: jobs_at_def entry)
  have here: "distinct (map rj_target jobs)" "\<forall>t\<in>set (map rj_target jobs). peer_of t = peer" using Cons.prems(3)[of peer] at[of peer] by simp_all
  have none: "jobs_at replays peer = []" using fresh by (simp add: jobs_at_def map_of_eq_None_iff[THEN iffD2])
  have rest_ok: "distinct (map rj_target (jobs_at replays q)) \<and> (\<forall>t\<in>set (map rj_target (jobs_at replays q)). peer_of t = q)" for q
    using Cons.prems(3)[of q] at[of q] none by (cases "q = peer") simp_all
  have ih: "map fst rs = map fst replays" "jobs_at rs q = snd (pump_jobs sizes rate now (jobs_at replays q))" "peer_of ` fst ` set bs' \<subseteq> fst ` set replays"
    "map_of bs' t = map_of (fst (pump_jobs sizes rate now (jobs_at replays (peer_of t)))) t" using Cons.IH[OF others _ rest_ok] Cons.prems(2) by auto
  have bs: "peer_of ` fst ` set bs \<subseteq> {peer}" using pump_jobs_in(3)[OF one here(1)] here(2) by fastforce
  have "map_of batches t = map_of (fst (pump_jobs sizes rate now (jobs_at (entry # replays) (peer_of t)))) t"
  proof (cases "peer_of t = peer")
    case True
    then have "t \<notin> fst ` set bs'" using ih(3) fresh by auto
    then have "map_of bs' t = None" by (simp add: map_of_eq_None_iff)
    then show ?thesis using True by (simp add: at one result map_add_def split: option.splits)
  next
    case False
    then have "t \<notin> fst ` set bs" using bs by auto
    then have "map_of bs t = None" by (simp add: map_of_eq_None_iff)
    then show ?thesis using False ih(4) by (simp add: at result map_add_def split: option.splits)
  qed
  moreover have "jobs_at replays' q = snd (pump_jobs sizes rate now (jobs_at (entry # replays) q))" using ih(2) one by (auto simp: at result) (simp_all add: jobs_at_def)
  moreover have "peer_of ` fst ` set batches \<subseteq> fst ` set (entry # replays)" using ih(3) bs by (simp add: result entry image_Un) blast
  ultimately show ?case using ih(1) by (simp add: result entry)
qed

text \<open>Giving up what waits for credit.\<close>

definition given_up :: "int \<Rightarrow> (u16 \<times> 't ReplayJob list) list \<Rightarrow> (u16 \<times> 't ReplayJob list) list" where
  "given_up rate replays = (if rate \<le> 0 then filter (\<lambda>(_, jobs). jobs \<noteq> []) (map (\<lambda>(peer, jobs). (peer, give_up_paced jobs)) replays) else replays)"

lemma give_up_Nil [simp]: "give_up_paced [] = []"
  by (simp add: give_up_paced_def)

lemma map_of_nonempty:
  assumes "distinct (map fst xs)"
  shows "map_of (filter (\<lambda>(_, ys). ys \<noteq> []) (map (\<lambda>(k, ys). (k, g ys)) xs)) q = (case map_of xs q of None \<Rightarrow> None | Some ys \<Rightarrow> if g ys = [] then None else Some (g ys))"
  using assms
proof (induction xs)
  case (Cons x xs)
  obtain k ys where x: "x = (k, ys)" by force
  have "q = k \<Longrightarrow> map_of xs q = None" using Cons.prems by (auto simp: x map_of_eq_None_iff)
  then show ?case using Cons by (cases "q = k") (simp_all add: x)
qed simp

lemma given_up_at:
  assumes "distinct (map fst replays)"
  shows "distinct (map fst (given_up rate replays))" "jobs_at (given_up rate replays) q = (if rate \<le> 0 then give_up_paced (jobs_at replays q) else jobs_at replays q)"
proof -
  have "map fst (map (\<lambda>(peer, jobs). (peer, give_up_paced jobs)) replays) = map fst replays" by auto
  then have "distinct (map fst (map (\<lambda>(peer, jobs). (peer, give_up_paced jobs)) replays))" using assms by (simp only:)
  then show "distinct (map fst (given_up rate replays))" using assms by (simp add: given_up_def distinct_map_filter del: map_map)
  show "jobs_at (given_up rate replays) q = (if rate \<le> 0 then give_up_paced (jobs_at replays q) else jobs_at replays q)"
    using map_of_nonempty[OF assms, of give_up_paced q] by (simp add: given_up_def jobs_at_def split: option.splits)
qed

lemma pump_view:
  fixes t :: 't
  assumes ok: "replays_ok peer_of (ig_replays g)" and call: "pump sizes config now g = (batches, g')"
    and lossless: "all \<longrightarrow> (\<forall>n. sizes n \<noteq> 0) \<and> download_rate config > 0"
  defines "batch \<equiv> case map_of batches t of Some batch \<Rightarrow> batch | None \<Rightarrow> []"
  shows "replays_ok peer_of (ig_replays g')" "kept all (batch @ queued peer_of (ig_replays g') t) (queued peer_of (ig_replays g) t)"
    "batch \<noteq> [] \<Longrightarrow> \<not> in_flight peer_of (ig_replays g) t" "in_flight peer_of (ig_replays g') t \<longleftrightarrow> in_flight peer_of (ig_replays g) t \<or> batch \<noteq> []"
    "map_of batches t \<noteq> Some []" "job_of peer_of (ig_replays g) t = None \<Longrightarrow> job_of peer_of (ig_replays g') t = None"
proof -
  let ?rate = "download_rate config" and ?rs = "ig_replays g"
  have dist: "distinct (map fst ?rs)" and old: "distinct (map rj_target (jobs_at ?rs q))" "\<forall>t\<in>set (map rj_target (jobs_at ?rs q)). peer_of t = q" for q
    using ok by (simp_all add: replays_ok_def)
  define rs where "rs = given_up ?rate ?rs"
  have rs: "distinct (map fst rs)" "jobs_at rs q = (if ?rate \<le> 0 then give_up_paced (jobs_at ?rs q) else jobs_at ?rs q)" for q
    using given_up_at[OF dist] by (simp_all add: rs_def)
  have rs_ok: "distinct (map rj_target (jobs_at rs q)) \<and> (\<forall>t\<in>set (map rj_target (jobs_at rs q)). peer_of t = q)" for q
    using give_up_in[OF old(1)] give_up_targets[of "jobs_at ?rs q"] old unfolding rs(2) by auto
  obtain bs rs' where pumped: "pump_replays sizes ?rate now rs = (bs, rs')" by force
  have result: "batches = bs" "ig_replays g' = rs'" using call pumped unfolding pump_def Let_def given_up_def[symmetric] rs_def[symmetric] by auto
  note view = pump_replays_in[OF pumped rs(1) rs_ok]
  have up: "in_flight peer_of rs t = in_flight peer_of ?rs t \<and> kept all (queued peer_of rs t) (queued peer_of ?rs t)"
  proof (cases "?rate \<le> 0")
    case True
    have "job_of peer_of rs t = job_in t (give_up_paced (jobs_at ?rs (peer_of t)))" using True by (simp add: job_of_def rs(2))
    then show ?thesis using True lossless give_up_in[OF old(1)[of "peer_of t"], where t = t] kept_filter[of False qp_bypass_pacing _ qp_pending]
      by (cases "job_of peer_of ?rs t") (auto simp: job_of_def in_flight_def queued_def pending_of_def kept_def)
  qed (simp add: in_flight_def queued_def job_of_def rs(2))
  define bs1 js1 where "bs1 q = fst (pump_jobs sizes ?rate now (jobs_at rs q))" and "js1 q = snd (pump_jobs sizes ?rate now (jobs_at rs q))" for q
  then have at: "pump_jobs sizes ?rate now (jobs_at rs q) = (bs1 q, js1 q)" for q by simp
  have pumped_jobs: "map rj_target (js1 q) = map rj_target (jobs_at rs q)" "job_in t (js1 q) = map_option (\<lambda>job. snd (pump_job sizes ?rate now job)) (job_in t (jobs_at rs q))"
    "map_of (bs1 q) t = (case job_in t (jobs_at rs q) of None \<Rightarrow> None | Some job \<Rightarrow> if fst (pump_job sizes ?rate now job) = [] then None else Some (fst (pump_job sizes ?rate now job)))" for q
    using pump_jobs_in(1,2,4)[OF at, of q] rs_ok[of q] by blast+
  have new_at: "jobs_at rs' q = js1 q" for q using pump_replays_in[OF pumped rs(1) rs_ok, of q t] by (simp add: at)
  show "replays_ok peer_of (ig_replays g')" using view rs(1) pumped_jobs(1) rs_ok unfolding result(2) replays_ok_def new_at by metis
  have job: "job_of peer_of rs' t = map_option (\<lambda>job. snd (pump_job sizes ?rate now job)) (job_of peer_of rs t)" using pumped_jobs(2)[of "peer_of t"] by (simp add: job_of_def new_at)
  have mine: "map_of batches t = (case job_of peer_of rs t of None \<Rightarrow> None
      | Some job \<Rightarrow> if fst (pump_job sizes ?rate now job) = [] then None else Some (fst (pump_job sizes ?rate now job)))"
    using view pumped_jobs(3)[of "peer_of t"] by (simp add: result(1) at job_of_def)
  then show "map_of batches t \<noteq> Some []" by (auto split: option.splits if_splits)
  show "job_of peer_of (ig_replays g') t = None" if "job_of peer_of ?rs t = None"
    using that give_up_in[OF old(1)[of "peer_of t"], where t = t] unfolding result(2) job by (simp add: job_of_def rs(2))
  have "kept all (batch @ queued peer_of rs' t) (queued peer_of rs t) \<and> (batch \<noteq> [] \<longrightarrow> \<not> in_flight peer_of rs t) \<and>
      (in_flight peer_of rs' t \<longleftrightarrow> in_flight peer_of rs t \<or> batch \<noteq> [])"
  proof (cases "job_of peer_of rs t")
    case (Some job)
    obtain b job' where one: "pump_job sizes ?rate now job = (b, job')" by force
    have "all \<longrightarrow> (\<forall>n. sizes n \<noteq> 0)" using lossless by blast
    note step = pump_job_kept[OF one this]
    have "batch = b" using mine Some by (simp add: batch_def one)
    then show ?thesis using step Some job by (simp add: queued_def in_flight_def one)
  qed (use mine job in \<open>simp add: queued_def in_flight_def batch_def\<close>)
  then show "kept all (batch @ queued peer_of (ig_replays g') t) (queued peer_of (ig_replays g) t)" "batch \<noteq> [] \<Longrightarrow> \<not> in_flight peer_of (ig_replays g) t"
    "in_flight peer_of (ig_replays g') t \<longleftrightarrow> in_flight peer_of (ig_replays g) t \<or> batch \<noteq> []"
    using up unfolding result(2) by (blast intro: kept_trans)+
qed

section \<open>Runs\<close>

lemma kept_part: "kept all xs ys \<Longrightarrow> kept False xs ys"
  by (auto simp: kept_def split: if_splits)

lemma kept_prefix: "kept False xs (xs @ ys)"
  by (simp add: kept_def subseq_rev_drop_many)

lemma send_payloads_suffix:
  assumes "\<And>p r. send p = Some r \<Longrightarrow> r = p"
  shows "take (length batch - length (send_payloads send batch)) batch @ send_payloads send batch = batch"
proof -
  have "\<exists>accepted. batch = accepted @ send_payloads send batch"
  proof (induction batch)
    case (Cons payload batch)
    show ?case
    proof (cases "send payload")
      case None
      then show ?thesis using Cons by (metis append_Cons option.simps(4) send_payloads.simps(2))
    next
      case (Some retry)
      then show ?thesis using assms[OF Some] by (intro exI[of _ "[]"]) simp
    qed
  qed simp
  then show ?thesis by (metis append_eq_conv_conj diff_add_inverse2 length_append)
qed

lemma send_image_payload_same: "send_image_payload known authenticated cells serializes accepted current p = Some r \<Longrightarrow> r = p"
  by (auto simp: send_image_payload_def split: if_splits option.splits)

text \<open>The governor, and for each connection the payloads queued for it so far, those that are settled (accepted by the transport, or not to be sent any more), the batch that is being sent, and
whether the connection has ended.\<close>

record 't relay_world =
  iw_governor :: "'t ImageBandwidthGovernor"
  iw_history :: "'t \<Rightarrow> PendingPayload list"
  iw_settled :: "'t \<Rightarrow> PendingPayload list"
  iw_flight :: "'t \<Rightarrow> PendingPayload list"
  iw_gone :: "'t set"

definition relay_start :: "'t relay_world" where
  "relay_start = \<lparr>iw_governor = governor_default, iw_history = (\<lambda>_. []), iw_settled = (\<lambda>_. []), iw_flight = (\<lambda>_. []), iw_gone = {}\<rparr>"

definition relay_enqueue :: "'t \<Rightarrow> PendingPayload list \<Rightarrow> PendingPayload list \<Rightarrow> 't ImageBandwidthGovernor \<Rightarrow> 't relay_world \<Rightarrow> 't relay_world" where
  "relay_enqueue t payloads batch g w = w\<lparr>iw_governor := g, iw_history := (iw_history w)(t := iw_history w t @ payloads),
     iw_flight := (if batch = [] then iw_flight w else (iw_flight w)(t := batch))\<rparr>"

definition relay_pump :: "('t \<times> PendingPayload list) list \<Rightarrow> 't ImageBandwidthGovernor \<Rightarrow> 't relay_world \<Rightarrow> 't relay_world" where
  "relay_pump batches g w = w\<lparr>iw_governor := g, iw_flight := (\<lambda>t. case map_of batches t of Some batch \<Rightarrow> batch | None \<Rightarrow> iw_flight w t)\<rparr>"

definition relay_send :: "('t \<Rightarrow> u16) \<Rightarrow> (PendingPayload \<Rightarrow> PendingPayload option) \<Rightarrow> 't \<Rightarrow> 't relay_world \<Rightarrow> 't relay_world" where
  "relay_send peer_of send t w =
     (let batch = iw_flight w t; rejected = send_payloads send batch
      in w\<lparr>iw_governor := send_image_payloads send (peer_of t) t batch (iw_governor w),
           iw_settled := (iw_settled w)(t := iw_settled w t @ take (length batch - length rejected) batch), iw_flight := (iw_flight w)(t := [])\<rparr>)"

text \<open>
  Any interleaving of the server's tasks. A run is lossless if the cache drops no image and pacing stays on. A connection that has ended gets no new payloads. The reset of the
  whole governor is left out.
\<close>

inductive relays :: "('t \<Rightarrow> u16) \<Rightarrow> bool \<Rightarrow> 't relay_world \<Rightarrow> bool" for peer_of lossless where
  starts: "relays peer_of lossless relay_start"
| enqueues: "relays peer_of lossless w \<Longrightarrow> t \<notin> iw_gone w \<Longrightarrow> payloads \<noteq> [] \<Longrightarrow> lossless \<longrightarrow> (\<forall>n. sizes n \<noteq> 0) \<Longrightarrow>
    enqueue_mode sizes (peer_of t) t payloads paced config now (iw_governor w) = (batch, g) \<Longrightarrow> relays peer_of lossless (relay_enqueue t payloads batch g w)"
| pumps: "relays peer_of lossless w \<Longrightarrow> lossless \<longrightarrow> (\<forall>n. sizes n \<noteq> 0) \<and> download_rate config > 0 \<Longrightarrow>
    pump sizes config now (iw_governor w) = (batches, g) \<Longrightarrow> relays peer_of lossless (relay_pump batches g w)"
| sends: "relays peer_of lossless w \<Longrightarrow> iw_flight w t \<noteq> [] \<Longrightarrow>
    relays peer_of lossless (relay_send peer_of (send_image_payload known authenticated cells serializes accepted current) t w)"
| consumes: "relays peer_of lossless w \<Longrightarrow> relays peer_of lossless (w\<lparr>iw_governor := snd (try_consume_egress sender bytes config now (iw_governor w))\<rparr>)"
| leaves: "relays peer_of lossless w \<Longrightarrow>
    relays peer_of lossless (w\<lparr>iw_governor := governor_remove_peer (peer_of t) t (iw_governor w), iw_gone := insert t (iw_gone w)\<rparr>)"

definition target_inv :: "('t \<Rightarrow> u16) \<Rightarrow> bool \<Rightarrow> 't relay_world \<Rightarrow> 't \<Rightarrow> bool" where
  "target_inv peer_of lossless w t \<longleftrightarrow> (let rs = ig_replays (iw_governor w) in
     (t \<in> iw_gone w \<longrightarrow> job_of peer_of rs t = None) \<and> (t \<notin> iw_gone w \<longrightarrow> in_flight peer_of rs t = (iw_flight w t \<noteq> [])) \<and>
     kept (lossless \<and> t \<notin> iw_gone w) (iw_settled w t @ iw_flight w t @ queued peer_of rs t) (iw_history w t))"

definition relay_inv :: "('t \<Rightarrow> u16) \<Rightarrow> bool \<Rightarrow> 't relay_world \<Rightarrow> bool" where
  "relay_inv peer_of lossless w \<longleftrightarrow> replays_ok peer_of (ig_replays (iw_governor w)) \<and> (\<forall>t. target_inv peer_of lossless w t)"

text \<open>Payloads move from the queue of a connection into a batch.\<close>

lemma kept_batch:
  assumes "kept all (settled @ flight @ queue) history" "kept all (batch @ queue') (queue @ payloads)" "batch \<noteq> [] \<Longrightarrow> flight = []"
  shows "kept all (settled @ (if batch = [] then flight else batch) @ queue') (history @ payloads)"
proof -
  have "kept all (settled @ flight @ batch @ queue') (settled @ flight @ queue @ payloads)" by (intro kept_append kept_refl assms(2))
  moreover have "kept all (settled @ flight @ queue @ payloads) (history @ payloads)" using kept_append[OF assms(1) kept_refl[of all payloads]] by simp
  ultimately show ?thesis using assms(3) kept_trans by (cases "batch = []") fastforce+
qed

lemma job_of_frame:
  assumes "job_of peer_of rs' t = job_of peer_of rs t"
  shows "queued peer_of rs' t = queued peer_of rs t" "in_flight peer_of rs' t = in_flight peer_of rs t"
  using assms by (simp_all add: queued_def in_flight_def)

lemma relay_target:
  assumes "relay_inv peer_of lossless w"
  shows "t \<in> iw_gone w \<Longrightarrow> job_of peer_of (ig_replays (iw_governor w)) t = None"
    "t \<notin> iw_gone w \<Longrightarrow> in_flight peer_of (ig_replays (iw_governor w)) t = (iw_flight w t \<noteq> [])"
    "kept (lossless \<and> t \<notin> iw_gone w) (iw_settled w t @ iw_flight w t @ queued peer_of (ig_replays (iw_governor w)) t) (iw_history w t)"
  using assms unfolding relay_inv_def target_inv_def Let_def by blast+

lemma enqueue_inv:
  assumes inv: "relay_inv peer_of lossless w" and t: "t \<notin> iw_gone w" "payloads \<noteq> []" "lossless \<longrightarrow> (\<forall>n. sizes n \<noteq> 0)"
    and call: "enqueue_mode sizes (peer_of t) t payloads paced config now (iw_governor w) = (batch, g)"
  shows "relay_inv peer_of lossless (relay_enqueue t payloads batch g w)"
proof -
  have ok: "replays_ok peer_of (ig_replays (iw_governor w))" using inv by (simp add: relay_inv_def)
  note view = enqueue_mode_view[OF ok call t(2,3)]
  have "target_inv peer_of lossless (relay_enqueue t payloads batch g w) u" for u
  proof (cases "u = t")
    case True
    have now: "in_flight peer_of (ig_replays (iw_governor w)) t = (iw_flight w t \<noteq> [])"
      "kept lossless (iw_settled w t @ iw_flight w t @ queued peer_of (ig_replays (iw_governor w)) t) (iw_history w t)"
      using relay_target[OF inv, of t] t(1) by simp_all
    have "batch \<noteq> [] \<Longrightarrow> iw_flight w t = []" using view(4) now(1) by blast
    from kept_batch[OF now(2) view(3) this] show ?thesis using True t(1) now(1) view(5)
      by (auto simp: target_inv_def relay_enqueue_def Let_def split: if_splits)
  next
    case False
    then show ?thesis using relay_target[OF inv, of u] job_of_frame[OF view(2)[OF False]] view(2)[OF False]
      by (simp add: target_inv_def relay_enqueue_def Let_def)
  qed
  then show ?thesis using view(1) by (simp add: relay_inv_def relay_enqueue_def)
qed

lemma pump_inv:
  assumes inv: "relay_inv peer_of lossless w" and lossless: "lossless \<longrightarrow> (\<forall>n. sizes n \<noteq> 0) \<and> download_rate config > 0"
    and call: "pump sizes config now (iw_governor w) = (batches, g)"
  shows "relay_inv peer_of lossless (relay_pump batches g w)"
proof -
  have ok: "replays_ok peer_of (ig_replays (iw_governor w))" using inv by (simp add: relay_inv_def)
  have "target_inv peer_of lossless (relay_pump batches g w) t" for t
  proof -
    let ?rs = "ig_replays (iw_governor w)"
    let ?all = "lossless \<and> t \<notin> iw_gone w" and ?batch = "case map_of batches t of Some batch \<Rightarrow> batch | None \<Rightarrow> []"
    have "?all \<longrightarrow> (\<forall>n. sizes n \<noteq> 0) \<and> download_rate config > 0" using lossless by blast
    note view = pump_view(1)[OF ok call this] pump_view(2-6)[where t = t, OF ok call this]
    have flight: "(case map_of batches t of Some batch \<Rightarrow> batch | None \<Rightarrow> iw_flight w t) = (if ?batch = [] then iw_flight w t else ?batch)"
      using view(5) by (auto split: option.splits)
    have now: "t \<in> iw_gone w \<longrightarrow> job_of peer_of ?rs t = None" "t \<notin> iw_gone w \<longrightarrow> in_flight peer_of ?rs t = (iw_flight w t \<noteq> [])"
      "kept ?all (iw_settled w t @ iw_flight w t @ queued peer_of ?rs t) (iw_history w t)"
      using relay_target[OF inv, of t] by blast+
    have idle: "?batch \<noteq> [] \<Longrightarrow> iw_flight w t = []"
    proof (cases "t \<in> iw_gone w")
      case True
      then have "queued peer_of ?rs t = []" using now(1) by (simp add: queued_def)
      then have "subseq (?batch @ queued peer_of (ig_replays g) t) []" using view(2) True by (simp add: kept_def)
      then have "?batch @ queued peer_of (ig_replays g) t = []" by (rule list_emb_Nil2)
      then have "?batch = []" by simp
      then show "?batch \<noteq> [] \<Longrightarrow> iw_flight w t = []" by blast
    qed (use view(3) now(2) in blast)
    have "kept ?all (?batch @ queued peer_of (ig_replays g) t) (queued peer_of ?rs t @ [])" using view(2) by simp
    from kept_batch[OF now(3) this idle] have "kept ?all (iw_settled w t @ (if ?batch = [] then iw_flight w t else ?batch) @ queued peer_of (ig_replays g) t) (iw_history w t)" by simp
    then show ?thesis using now(1,2) view(4,6) unfolding target_inv_def relay_pump_def by (auto simp: flight Let_def)
  qed
  then show ?thesis using pump_view(1)[OF ok call lossless] by (simp add: relay_inv_def relay_pump_def)
qed

lemma send_inv:
  assumes inv: "relay_inv peer_of lossless w" and batch: "iw_flight w t \<noteq> []" and send: "\<And>p r. send p = Some r \<Longrightarrow> r = p"
  shows "relay_inv peer_of lossless (relay_send peer_of send t w)"
proof -
  let ?rs = "ig_replays (iw_governor w)"
  define rejected accepted where "rejected = send_payloads send (iw_flight w t)" and "accepted = take (length (iw_flight w t) - length rejected) (iw_flight w t)"
  have batch_split: "iw_flight w t = accepted @ rejected" using send_payloads_suffix[of send "iw_flight w t", OF send] unfolding rejected_def accepted_def by simp
  have ok: "replays_ok peer_of ?rs" using inv by (simp add: relay_inv_def)
  define g where "g = finish_replay_batch (peer_of t) t rejected (iw_governor w)"
  note view = finish_view[OF ok g_def]
  have new: "relay_send peer_of send t w = w\<lparr>iw_governor := g, iw_settled := (iw_settled w)(t := iw_settled w t @ accepted), iw_flight := (iw_flight w)(t := [])\<rparr>"
    unfolding relay_send_def Let_def send_image_payloads_def rejected_def[symmetric] accepted_def[symmetric] g_def ..
  have "target_inv peer_of lossless (relay_send peer_of send t w) u" for u
  proof (cases "u = t")
    case False
    then have same: "job_of peer_of (ig_replays g) u = job_of peer_of ?rs u" using view(2)[of u] by simp
    show ?thesis using relay_target[OF inv, of u] False same job_of_frame[OF same] by (simp add: new target_inv_def Let_def)
  next
    case True
    show ?thesis
    proof (cases "t \<in> iw_gone w")
      case gone: True
      have none: "job_of peer_of ?rs t = None" "job_of peer_of (ig_replays g) t = None" using relay_target(1)[OF inv gone] view(2)[of t] by simp_all
      have "kept False (iw_settled w t @ accepted) ((iw_settled w t @ accepted) @ rejected)" by (rule kept_prefix)
      moreover have "kept False ((iw_settled w t @ accepted) @ rejected) (iw_history w t)"
        using relay_target(3)[OF inv, of t] gone none(1) by (simp add: queued_def batch_split)
      ultimately have "kept False (iw_settled w t @ accepted) (iw_history w t)" by (rule kept_trans)
      then show ?thesis using True gone none(2) by (simp add: new target_inv_def queued_def Let_def)
    next
      case False
      then obtain job where job: "job_of peer_of ?rs t = Some job" "rj_in_flight job"
        using relay_target(2)[OF inv False] batch by (auto simp: in_flight_def split: option.splits)
      have after: "job_of peer_of (ig_replays g) t = Some (finish_job rejected job)" using view(2)[of t] job(1) by simp
      have "in_flight peer_of (ig_replays g) t = False" "queued peer_of (ig_replays g) t = rejected @ queued peer_of ?rs t"
        using job by (simp_all add: in_flight_def queued_def after finish_job_def pending_of_def comp_def)
      then show ?thesis using True False relay_target(3)[OF inv, of t] by (simp add: new target_inv_def Let_def batch_split)
    qed
  qed
  then show ?thesis using view(1) by (simp add: relay_inv_def new)
qed

lemma consume_replays: "ig_replays (snd (try_consume_egress sender bytes config now g)) = ig_replays g"
  by (simp add: try_consume_egress_def Let_def)

lemma leave_inv:
  assumes inv: "relay_inv peer_of lossless w"
  shows "relay_inv peer_of lossless (w\<lparr>iw_governor := governor_remove_peer (peer_of t) t (iw_governor w), iw_gone := insert t (iw_gone w)\<rparr>)"
proof -
  let ?rs = "ig_replays (iw_governor w)"
  have ok: "replays_ok peer_of ?rs" using inv by (simp add: relay_inv_def)
  note view = remove_view[where t = t, OF ok refl]
  have "target_inv peer_of lossless (w\<lparr>iw_governor := governor_remove_peer (peer_of t) t (iw_governor w), iw_gone := insert t (iw_gone w)\<rparr>) u" for u
  proof (cases "u = t")
    case True
    have "kept False (iw_settled w t @ iw_flight w t @ queued peer_of ?rs t) (iw_history w t)" using relay_target(3)[OF inv, of t] by (rule kept_part)
    moreover have "kept False (iw_settled w t @ iw_flight w t) (iw_settled w t @ iw_flight w t @ queued peer_of ?rs t)" by (metis append.assoc kept_prefix)
    ultimately show ?thesis using True view(2)[of t] by (auto simp: target_inv_def queued_def Let_def intro: kept_trans)
  next
    case False
    then have same: "job_of peer_of (ig_replays (governor_remove_peer (peer_of t) t (iw_governor w))) u = job_of peer_of ?rs u" using view(2)[of u] by simp
    show ?thesis using relay_target[OF inv, of u] False same job_of_frame[OF same] by (simp add: target_inv_def Let_def)
  qed
  then show ?thesis using view(1) by (simp add: relay_inv_def)
qed

lemma relays_inv: "relays peer_of lossless w \<Longrightarrow> relay_inv peer_of lossless w"
proof (induction rule: relays.induct)
  case starts
  then show ?case by (simp add: relay_inv_def relay_start_def target_inv_def governor_default_def replays_ok_def jobs_at_def job_of_def in_flight_def queued_def)
next
  case (sends w t known authenticated cells serializes accepted current)
  show ?case by (rule send_inv[OF sends(3,2) send_image_payload_same])
next
  case (consumes w sender bytes config now)
  then show ?case by (simp add: relay_inv_def target_inv_def consume_replays)
qed (auto intro: enqueue_inv pump_inv leave_inv)

section \<open>Properties\<close>

text \<open>C19. Replayed images keep their order. In every run of queueing, pacing, sending with refusals by the transport, and departures: the payloads settled for a connection, followed by the batch that is
being sent and those waiting, are payloads queued for it, each at most as often as it was queued and in that order; and while no image is dropped and pacing stays on they are exactly the payloads
queued for a connection that has not ended. At most one batch of a connection is being sent.\<close>

theorem replays_keep_order:
  assumes "relays peer_of lossless w"
  shows "subseq (iw_settled w t @ iw_flight w t @ queued peer_of (ig_replays (iw_governor w)) t) (iw_history w t) \<and>
    (lossless \<longrightarrow> t \<notin> iw_gone w \<longrightarrow> iw_settled w t @ iw_flight w t @ queued peer_of (ig_replays (iw_governor w)) t = iw_history w t) \<and>
    (t \<notin> iw_gone w \<longrightarrow> in_flight peer_of (ig_replays (iw_governor w)) t = (iw_flight w t \<noteq> []))"
proof -
  have inv: "relay_inv peer_of lossless w" using assms by (rule relays_inv)
  show ?thesis using relay_target[OF inv, of t] kept_part[OF relay_target(3)[OF inv, of t]] by (auto simp: kept_def)
qed

definition example_config :: image_config where
  "example_config = \<lparr>image_share_egress_megabits_per_second = 1, image_share_egress_enforcement_percent = 100, image_share_download_megabits_per_second = 1\<rparr>"

definition example_queued :: "nat relay_world" where
  "example_queued = (case enqueue_mode (\<lambda>_. 10) 7 5 [\<lparr>pp_owner = 1, pp_payload = 2\<rparr>, \<lparr>pp_owner = 1, pp_payload = 3\<rparr>] True example_config 0 governor_default of
     (batch, g) \<Rightarrow> relay_enqueue 5 [\<lparr>pp_owner = 1, pp_payload = 2\<rparr>, \<lparr>pp_owner = 1, pp_payload = 3\<rparr>] batch g relay_start)"

theorem replays_keep_order_witness:
  "5 \<notin> iw_gone example_queued \<and> iw_settled example_queued 5 @ iw_flight example_queued 5 @ queued (\<lambda>_. 7) (ig_replays (iw_governor example_queued)) 5 =
     [\<lparr>pp_owner = 1, pp_payload = 2\<rparr>, \<lparr>pp_owner = 1, pp_payload = 3\<rparr>]"
proof -
  let ?ps = "[\<lparr>pp_owner = 1, pp_payload = 2\<rparr>, \<lparr>pp_owner = 1, pp_payload = 3\<rparr>] :: PendingPayload list"
  obtain batch g where call: "enqueue_mode (\<lambda>_. 10) 7 (5 :: nat) ?ps True example_config 0 governor_default = (batch, g)" by force
  have world: "example_queued = relay_enqueue 5 ?ps batch g relay_start" by (simp add: example_queued_def call)
  have "relays (\<lambda>_. 7) True example_queued" unfolding world
    by (rule relays.enqueues[OF relays.starts, where sizes = "\<lambda>_. 10" and paced = True and config = example_config and now = 0]) (simp_all add: relay_start_def call)
  moreover have "5 \<notin> iw_gone example_queued" "iw_history example_queued 5 = ?ps" by (simp_all add: world relay_enqueue_def relay_start_def)
  ultimately show ?thesis using replays_keep_order[of "\<lambda>_. 7" True example_queued 5] by simp
qed

text \<open>A waiting payload is not stuck. When the credit of a connection is positive, or its first payload bypasses pacing, the next pass of the pump that finds no batch in flight takes the first payload
whose image still exists.\<close>

theorem pump_takes_the_first:
  assumes "\<not> rj_in_flight job" "filter (\<lambda>queued. payload_size sizes queued > 0) (rj_payloads job) = first # others"
    and "rate \<le> 0 \<or> qp_bypass_pacing first \<or> bu_tokens (bucket_refill rate now (rj_bucket job)) > 0"
  shows "\<exists>batch job'. pump_job sizes rate now job = (qp_pending first # batch, job') \<and> rj_in_flight job'"
proof -
  let ?b = "if rate > 0 then bucket_refill rate now (rj_bucket job) else rj_bucket job"
  have first: "payload_size sizes first > 0" using assms(2) by (metis (mono_tags, lifting) filter_eq_ConsD)
  have "\<exists>batch b rest. take_batch sizes rate ?b (first # others) = (qp_pending first # batch, b, rest)"
    using assms(3) first by (auto simp: Let_def split: prod.splits)
  then show ?thesis using assms(1,2) by (auto simp: pump_job_def without_empty_def start_batch_def Let_def)
qed

theorem pump_takes_the_first_witness:
  "\<exists>batch job'. pump_job (\<lambda>_. 10) 125000 0 \<lparr>rj_target = (), rj_payloads = [\<lparr>qp_pending = \<lparr>pp_owner = 1, pp_payload = 0\<rparr>, qp_bypass_pacing = False\<rparr>],
     rj_bucket = bucket_new 125000 0, rj_in_flight = False\<rparr> = (\<lparr>pp_owner = 1, pp_payload = 0\<rparr> # batch, job') \<and> rj_in_flight job'"
  using pump_takes_the_first[of "\<lparr>rj_target = (), rj_payloads = [\<lparr>qp_pending = \<lparr>pp_owner = 1, pp_payload = 0\<rparr>, qp_bypass_pacing = False\<rparr>],
      rj_bucket = bucket_new 125000 0, rj_in_flight = False\<rparr>" "\<lambda>_. 10" "\<lparr>qp_pending = \<lparr>pp_owner = 1, pp_payload = 0\<rparr>, qp_bypass_pacing = False\<rparr>" "[]" 125000 0]
  by (simp add: payload_size_def bucket_new_def bucket_refill_def IMAGE_BURST_SECONDS_def BILLION_def)

end
