(* ===== verification/Spec2Isabelle.thy ===== *)
theory Spec2Isabelle
  imports WireProperties ReliableProperties DatagramProofs FragmentProperties ReceiveProperties PermissionProperties UploadBudget AvatarDeltaProperties MtuProbe
    BrokerProperties ImageCacheProperties HandlerProperties JoinProperties ModerationRestart ResourceProperties AvatarUplinkProperties SealedProperties PreAuthProperties ImageGovernorProperties
begin

text \<open>
  A verification development for BasisRust, a Rust implementation of the BasisVR server and of its load-test
  client.

  \<^bold>\<open>The program.\<close> Clients talk to the server over UDP in the LiteNetLib format. The crate
  \<open>basis-protocol\<close> holds the wire format: a byte writer and reader (\<open>io.rs\<close>), the messages
  (\<open>messages.rs\<close>), packed avatar payloads and their deltas (\<open>avatar.rs\<close>, \<open>avatar_delta.rs\<close>) and the
  case-insensitive names of permission nodes (\<open>permissions.rs\<close>). The crate \<open>basis-transport\<close> keeps one
  state per connection: reliable packets are numbered modulo 32768, sent within a window of 128, acknowledged
  by bit fields, split into fragments when large, and merged into datagrams; the receiving side restores the
  order, suppresses duplicates, reassembles fragments under a memory budget shared by all connections, and
  hands each message on once. The crate \<open>basis-server-core\<close> decides what a connection may upload and where
  messages go, and \<open>basis-server-permissions\<close> who may do what.

  \<^bold>\<open>Conventions.\<close> A \<open>u8\<close>, \<open>u16\<close>, \<open>u32\<close> or \<open>u64\<close> is a word of its width; a \<open>usize\<close> is a natural number (a length
  or an index), with checked, saturating and wrapping operations written out where the sources use them. A
  \<open>Result\<close> is a sum with the error on the left, a panic that is excluded by proof is \<open>None\<close>. A \<open>HashMap\<close> is a
  map, or an association list (\<open>Assoc\<close>) where its size or its iteration matters. An operation that holds a lock is
  one step; where the code reads shared cells without their lock (the flush of joins) each read and each write is a step of its own. Clocks are arguments.

  \<^bold>\<open>Wire format.\<close> \<open>NetIo\<close> models \<open>io.rs\<close>; \<open>Codec\<close> states the contract of a codec as the locales
  \<open>wire_codec\<close>, \<open>item_codec\<close> and \<open>rest_codec\<close> (decoding inverts encoding, never leaves the buffer, refuses
  truncated input) and derives what follows from it; \<open>MessagesBasic\<close>, \<open>MessagesCompound\<close> and
  \<open>MessagesAvatar\<close> model \<open>messages.rs\<close> and interpret the locales on each message; \<open>WireProperties\<close> states
  round trips, prefix freedom, truncation and the one message that can be encoded but never decoded.

  \<^bold>\<open>Avatar deltas.\<close> \<open>AvatarBits\<close> describes the window reads and writes of \<open>avatar_delta.rs\<close> bit by bit,
  \<open>ResidualCodec\<close> the bit stream with its signed Exp-Golomb code, \<open>AvatarDelta\<close> the layout tables of
  \<open>avatar.rs\<close> and the functions \<open>build_delta\<close> and \<open>apply_delta\<close>. \<open>AvatarDeltaProofs\<close> shows that the
  channels of each layout tile the payload and that encoder and decoder follow the same stream, and
  \<open>AvatarDeltaProperties\<close> the exact round trip, the size bound and the safety of the decoder on any input.

  \<^bold>\<open>Sending.\<close> \<open>Sequence\<close> has packet properties, delivery methods and sequence arithmetic, \<open>PeerState\<close> the
  connection record, \<open>AckWindow\<close> the acknowledgement window (\<open>queue_ack\<close>, \<open>process_ack\<close>) as a refinement of a
  set of received numbers, \<open>ReliableSend\<close> admission, fragmentation, windows and the dispatcher pass,
  \<open>ReliableProperties\<close> its properties, among them that exactly the packets sent are tracked in flight. \<open>ReliableProtocol\<close> composes sender, receiver and a network that loses,
  repeats and reorders into a step relation, with the locale \<open>ack_receiver\<close> as the interface of the window;
  its invariant gives that nothing is released unreceived and that acknowledgements always make progress.
  \<open>Datagrams\<close> and \<open>DatagramProofs\<close> cover merging and splitting of datagrams in both framings (locale
  \<open>framing\<close>) and the queue of unsent datagrams. \<open>MtuProbe\<close> has the discovery of the path MTU as runs of probes
  and answers: only the exact answer to a probe that was sent confirms an MTU, and at most twenty probes are sent.

  \<^bold>\<open>Receiving.\<close> \<open>ReceiveWindow\<close> models the cursors of ordered and unordered channels, \<open>Leases\<close> the reorder
  budget and the ordered-admission quotas as ledgers of tokens (locale \<open>lease_book\<close>), \<open>FragmentAssembly\<close>
  with \<open>FragmentProofs\<close> and \<open>FragmentProperties\<close> the reassembly of fragments, \<open>ReceivePath\<close> with
  \<open>ReceiveProofs\<close> and \<open>ReceiveProperties\<close> the functions \<open>admit_reliable_ordered\<close> and
  \<open>admit_reliable_unordered\<close>. The realtime handler, the event channel and the session gate, which the code
  consults between steps, are a sequence of answers (\<open>turn\<close>); the properties hold for every sequence, and for whole messages and
  fragments alike; a message counts as delivered when its packet is committed. They
  give in-order delivery of a prefix, delivery of the whole retained run once the gap closes, delivery at most
  once, acknowledgement only after delivery, completion of admitted messages, and conservation of the budget.

  \<^bold>\<open>Permissions.\<close> \<open>Permissions\<close> models the store of \<open>basis-server-permissions\<close>, every edit of it and the
  evaluation of rules; the Unicode table behind \<open>to_uppercase\<close> is a parameter of which only the documented
  values on ASCII are assumed. \<open>PermissionProofs\<close> shows that the recursion over parent groups ends and visits
  what is reachable, \<open>PermissionProperties\<close> that in every reachable state of the manager a check is decided
  by a specification over sets of rules, that denials win and that removed defaults stay removed. The
  recursions carry a bound on their depth; the number of groups plus one is shown to be enough.

  \<^bold>\<open>Upload budget.\<close> \<open>UploadBudget\<close> models the token bucket of \<open>upload_budget.rs\<close>, with its bound on what any
  window of time lets through and the eventual admission of large reliable messages.

  \<^bold>\<open>Peer-to-peer broker.\<close> \<open>NatPackets\<close> has socket addresses and the NAT punch packets of the transport, \<open>P2pBroker\<close>
  the broker of \<open>p2p.rs\<close> with one function for each signal, for NAT introduction requests, departures and
  maintenance. \<open>BrokerProofs\<close> states the participant index as the locale \<open>participant_index\<close> and the invariant of the three
  maps with its preservation by the primitive changes, \<open>BrokerSteps\<close> lifts it to introductions, departures and
  maintenance, and \<open>BrokerProperties\<close> drives the broker by events: relaying stops only for pairs of which both
  members reported the link, signals touch only sessions of their sender, lost links and departures leave nothing
  behind, maintenance makes the offloaded pairs exact, introductions are limited in rate and audience.

  \<^bold>\<open>Image cache.\<close> \<open>ImageCache\<close> models \<open>image_cache.rs\<close>: the opaque image payloads, reservation and eviction, offers and
  replays. A replay payload is shared between the cache and the outgoing queue, so the cells of those payloads are an
  explicit store. \<open>ImageCacheProofs\<close> has the invariant and the locale \<open>eviction_relation\<close>, by which what holds of dropping
  one image holds of a whole reservation; \<open>ImageCacheSteps\<close> covers every operation, and \<open>ImageCacheProperties\<close> gives exact
  and bounded byte counts, complete replays, the emptying of queued replays of dropped images, the choice of victims
  and the admission of new images within their owner's share.

  \<^bold>\<open>Ordered handler queue.\<close> \<open>HandlerQueue\<close> models \<open>OrderedHandlerQueue\<close> of the server core: one lane per session and channel, a
  list of ready lanes, workers that take the next event of a lane, and the generations that separate sessions of a
  reused connection number. \<open>HandlerProperties\<close> gives order within a lane, at most one handler per lane, service of every
  waiting lane and the separation of sessions.

  \<^bold>\<open>Joining.\<close> \<open>Deflate\<close> has the bounded decompression loop of \<open>messages.rs\<close> and the batch of READY records, over a
  compressor and a decompressor that are arguments. \<open>JoinBroadcast\<close> models \<open>JoinBroadcastState\<close>, \<open>flush_join_batches\<close> and
  \<open>send_accept_fanout\<close>; records are shared between queues and altered by avatar changes, so they are cells of a store, and
  other tasks run between any two reads of a flush (\<open>others_run\<close>); an avatar change writes the payload and counts the revision as two steps, a batch may fail to
  be framed and the transport may refuse it. \<open>JoinProofs\<close> has the invariant of the store and the queues,
  \<open>JoinProperties\<close> shows that a later player is announced to an earlier one at most once, and is waiting, in flight, sent or lost with a failed batch, that the payloads in cached frames
  were in force between the flush turning to the batch and the sending (an update half done at that moment apart), and that history and batches are complete.

  \<^bold>\<open>Moderation.\<close> \<open>Moderation\<close> models \<open>ModerationLists\<close> of \<open>basis-server-admin\<close> with the files behind it and the decision of
  admission in the server core. \<open>ModerationProperties\<close> states the lists as the locale \<open>name_list\<close>, interpreted on the allow list, the
  ban list and the bans: the last change that was reported as done decides, and a failed write changes nothing. \<open>ModerationRestart\<close> keeps the files in step with
  the state through any run, under the documented behaviour of the crates (\<open>env_ok\<close>): restrictions survive a restart, a banned player
  (with a storable identity that is not blank) stays out, failures leave the lists alone, and identities with white space at their ends are the exception that a restart forgets.

  \<^bold>\<open>Shared objects.\<close> \<open>Resources\<close> models \<open>basis-server-resources\<close>: loaded resources with the quotas of creators and the preloads, numbers for
  names, owners of objects, shared content and cameras, and the handlers of the server core for unloading, modifying and completed preloads.
  \<open>ResourceProperties\<close> has exact quotas, the protection of locked resources (of scenes as long as no scene preload completes) and protected content, unique and stable numbers, and two
  defects of preloads: a completed scene unloads itself, and any departure counts for every preload.

  \<^bold>\<open>Avatar uplink.\<close> \<open>AvatarUplink\<close> models how the avatar of a player reaches the server as keyframes and deltas: the sending side in
  \<open>basis-client-core/src/avatar.rs\<close>, the baselines and handlers in \<open>basis-server-core/src/lib.rs\<close> and the ingest in \<open>avatar_sync.rs\<close>.
  \<open>AvatarUplinkProperties\<close> runs both sides over a network that loses, repeats and reorders (\<open>uplink_reach\<close>), shows by rule induction that frames are received
  exactly while baseline and base are less than 256 frames apart and that a keyframe repairs the stream, and shows what happens when the number of a baseline comes
  round again.

  \<^bold>\<open>Sealed datagrams.\<close> \<open>Sealed\<close> models the encryption of datagrams to the server: \<open>ReplayWindow\<close> and \<open>InboundSeal\<close> of \<open>sealed_inbound.rs\<close> and
  \<open>seal_connected\<close> of the client, over a cipher that is an argument. \<open>SealedProperties\<close> shows that the window answers as a set of counters, and, for a network
  that injects and repeats at will but cannot forge a datagram of the key (\<open>seal_reach\<close>), that user packets are handed on at most once and unaltered, and that a
  datagram within the window is opened.

  \<^bold>\<open>Requests before authentication.\<close> \<open>PreAuth\<close> models the limiter of \<open>pre_auth.rs\<close>, with tokens counted exactly where the code has \<open>f64\<close>. \<open>PreAuthProperties\<close> keeps, for every address and
  every starting point, the requests let through and the credit left within the budget (\<open>limiter_inv\<close>), through the table, the shared buckets and the sweep, and shows
  that an address is served again after half a second of silence, under conditions that keep clear of the rounding errors.

  \<^bold>\<open>Image replays.\<close> \<open>ImageGovernor\<close> models \<open>image_governor.rs\<close> and the sending loop of \<open>lib.rs\<close> (\<open>send_image_payloads\<close>): the queues of replayed payloads for each connection, with pacing and
  retries. \<open>ImageGovernorProperties\<close> runs them in any interleaving (\<open>relays\<close>): what is settled, in flight and waiting stays in the order of queueing, without loss while no image is
  dropped; and a waiting payload is taken as soon as there is credit.

  \<^bold>\<open>Loops.\<close> Loops are structural recursion or have a termination proof. The bounds are those of the code: 256
  messages per drain, a prefix of 32 zeros in the Exp-Golomb code, the capacity of each queue.

  \<^bold>\<open>Not modelled.\<close> Sockets, tasks and timers of the async runtime, and with them retransmission timing,
  connection set-up; the counters kept only for statistics beyond those of the
  acknowledgement path; messages whose codec computes with floating-point numbers;
  the XML persistence of permissions and configuration, which rests on a third-party parser; avatar fan-out and the administration requests of the server; repacking of avatar payloads; the default library of resources, storage,
  console, health and the rest of the load-test client.
\<close>

end
